(* ===== verification/Prelude.thy ===== *)
theory Prelude
  imports Main "HOL-Library.Word" "HOL-Library.AList" "HOL-Library.Sublist"
begin

text \<open>
  Shared vocabulary of the development: the parts of Go and of its standard library that
  several components use (strings and \<open>strings.TrimSpace\<close>, \<open>time.Time\<close> and
  \<open>time.Duration\<close>, maps, error values), with the generic lemmas about them.
  No definition of this theory models a file of the repository; every one models Go itself.
\<close>

named_theorems pool_simps \<open>unfolding rules of the pool and registry operations\<close>
named_theorems go_simps \<open>generic facts about Go values\<close>


section \<open>Strings\<close>

text \<open>
  A Go string is a sequence of bytes; \<^typ>\<open>char\<close> is one byte. \<open>strings.TrimSpace\<close>
  removes the white space of \<open>unicode.IsSpace\<close> at both ends. The byte sequences below are
  the UTF-8 encodings of exactly those code points: U+0009 to U+000D, U+0020, U+0085,
  U+00A0, U+1680, U+2000 to U+200A, U+2028, U+2029, U+202F, U+205F and U+3000.
\<close>

definition space_seqs :: "string list" where
  "space_seqs =
     map (\<lambda>c. [char_of (c::nat)]) [9, 10, 11, 12, 13, 32]
   @ map (map char_of) [[194::nat, 133], [194, 160], [225, 154, 128]]
   @ map (\<lambda>c. map char_of [226::nat, 128, c])
       [128, 129, 130, 131, 132, 133, 134, 135, 136, 137, 138, 168, 169, 175]
   @ map (map char_of) [[226::nat, 129, 159], [227, 128, 128]]"

definition leading_space :: "string \<Rightarrow> nat" where
  "leading_space s = (case find (\<lambda>w. prefix w s) space_seqs of None \<Rightarrow> 0 | Some w \<Rightarrow> length w)"

definition trailing_space :: "string \<Rightarrow> nat" where
  "trailing_space s = (case find (\<lambda>w. suffix w s) space_seqs of None \<Rightarrow> 0 | Some w \<Rightarrow> length w)"

lemma space_seqs_nonempty: "w \<in> set space_seqs \<Longrightarrow> w \<noteq> []"
  by (auto simp: space_seqs_def)

lemma leading_space_le: "leading_space s \<le> length s"
  by (auto simp: leading_space_def find_Some_iff prefix_length_le split: option.splits)

lemma trailing_space_le: "trailing_space s \<le> length s"
  by (auto simp: trailing_space_def find_Some_iff suffix_length_le split: option.splits)

function trim_left :: "string \<Rightarrow> string" where
  "trim_left s = (if leading_space s = 0 then s else trim_left (drop (leading_space s) s))"
  by pat_completeness auto
termination
proof (relation "measure length")
  fix s :: string
  assume "leading_space s \<noteq> 0"
  with leading_space_le [of s] show "(drop (leading_space s) s, s) \<in> measure length"
    by simp
qed simp

function trim_right :: "string \<Rightarrow> string" where
  "trim_right s =
     (if trailing_space s = 0 then s else trim_right (take (length s - trailing_space s) s))"
  by pat_completeness auto
termination
proof (relation "measure length")
  fix s :: string
  assume "trailing_space s \<noteq> 0"
  with trailing_space_le [of s]
  show "(take (length s - trailing_space s) s, s) \<in> measure length"
    by simp
qed simp

declare trim_left.simps [simp del] trim_right.simps [simp del]

text \<open>\<open>strings.TrimSpace\<close>.\<close>

definition trim_space :: "string \<Rightarrow> string" where
  "trim_space s = trim_right (trim_left s)"

lemma leading_space_0: "leading_space s = 0 \<longleftrightarrow> (\<forall>w \<in> set space_seqs. \<not> prefix w s)"
proof -
  have "find (\<lambda>w. prefix w s) space_seqs = Some w \<Longrightarrow> length w \<noteq> 0" for w
    using space_seqs_nonempty by (auto simp: find_Some_iff)
  then show ?thesis
    by (fastforce simp: leading_space_def find_None_iff split: option.splits)
qed

lemma trailing_space_0: "trailing_space s = 0 \<longleftrightarrow> (\<forall>w \<in> set space_seqs. \<not> suffix w s)"
proof -
  have "find (\<lambda>w. suffix w s) space_seqs = Some w \<Longrightarrow> length w \<noteq> 0" for w
    using space_seqs_nonempty by (auto simp: find_Some_iff)
  then show ?thesis
    by (fastforce simp: trailing_space_def find_None_iff split: option.splits)
qed

lemma leading_space_trim_left: "leading_space (trim_left s) = 0"
  by (induction s rule: trim_left.induct) (subst trim_left.simps, simp)

lemma trailing_space_trim_right: "trailing_space (trim_right s) = 0"
  by (induction s rule: trim_right.induct) (subst trim_right.simps, simp)

lemma prefix_trim_right: "prefix (trim_right s) s"
proof (induction s rule: trim_right.induct)
  case (1 s)
  show ?case
  proof (cases "trailing_space s = 0")
    case True
    then show ?thesis by (subst trim_right.simps) simp
  next
    case False
    with 1 have "prefix (trim_right (take (length s - trailing_space s) s)) s"
      by (meson prefix_order.trans take_is_prefix)
    with False show ?thesis by (subst trim_right.simps) simp
  qed
qed

lemma leading_space_trim_space: "leading_space (trim_space s) = 0"
proof -
  have "prefix (trim_space s) (trim_left s)"
    by (simp add: trim_space_def prefix_trim_right)
  with leading_space_trim_left [of s] show ?thesis
    unfolding leading_space_0 by (meson prefix_order.trans)
qed

lemma trailing_space_trim_space: "trailing_space (trim_space s) = 0"
  by (simp add: trim_space_def trailing_space_trim_right)

lemma trim_space_id: "leading_space s = 0 \<Longrightarrow> trailing_space s = 0 \<Longrightarrow> trim_space s = s"
  by (simp add: trim_space_def trim_left.simps [of s] trim_right.simps [of s])

lemma trim_space_idem [simp]: "trim_space (trim_space s) = trim_space s"
  by (simp add: trim_space_id leading_space_trim_space trailing_space_trim_space)

lemma trim_space_Nil [simp]: "trim_space [] = []"
  by (rule trim_space_id)
    (auto simp: leading_space_0 trailing_space_0 dest: space_seqs_nonempty)

text \<open>Printable ASCII at both ends: nothing is trimmed. This evaluates literals.\<close>

definition graphic :: "char \<Rightarrow> bool" where
  "graphic c \<longleftrightarrow> 33 \<le> (of_char c :: nat) \<and> (of_char c :: nat) \<le> 126"

lemma space_seqs_not_graphic:
  "w \<in> set space_seqs \<Longrightarrow> \<not> graphic (hd w) \<and> \<not> graphic (last w)"
  by (auto simp: space_seqs_def graphic_def)

lemma trim_space_graphic:
  assumes "s \<noteq> []" and "graphic (hd s)" and "graphic (last s)"
  shows "trim_space s = s"
proof (rule trim_space_id)
  show "leading_space s = 0"
    unfolding leading_space_0
  proof
    fix w assume "w \<in> set space_seqs"
    with assms space_seqs_not_graphic [of w] space_seqs_nonempty [of w]
    show "\<not> prefix w s" by (cases w) (auto simp: prefix_def)
  qed
  show "trailing_space s = 0"
    unfolding trailing_space_0
  proof
    fix w assume "w \<in> set space_seqs"
    with assms space_seqs_not_graphic [of w] space_seqs_nonempty [of w]
    show "\<not> suffix w s" by (auto simp: suffix_def)
  qed
qed

text \<open>A blank in front is trimmed.\<close>

lemma blank_char: "CHR '' '' = char_of (32::nat)"
  by (simp add: char_of_def bit_0)

lemma space_seqs_blank:
  "w \<in> set space_seqs \<Longrightarrow> of_char (hd w) = (32::nat) \<Longrightarrow> w = [char_of (32::nat)]"
  by (auto simp: space_seqs_def)

lemma trim_space_blank [simp]: "trim_space (CHR '' '' # s) = trim_space s"
proof -
  have "\<exists>w. find (\<lambda>w. prefix w (CHR '' '' # s)) space_seqs = Some w"
  proof (rule ccontr)
    assume "\<nexists>w. find (\<lambda>w. prefix w (CHR '' '' # s)) space_seqs = Some w"
    then have "\<forall>w \<in> set space_seqs. \<not> prefix w (CHR '' '' # s)"
      by (auto simp: find_None_iff)
    moreover have "[char_of (32::nat)] \<in> set space_seqs" by (simp add: space_seqs_def)
    ultimately show False by (auto simp: blank_char)
  qed
  then obtain w where w: "find (\<lambda>w. prefix w (CHR '' '' # s)) space_seqs = Some w" by blast
  then have "w \<in> set space_seqs" and "prefix w (CHR '' '' # s)"
    by (auto simp: find_Some_iff)
  then have "w = [char_of (32::nat)]"
    using space_seqs_nonempty [of w] by (intro space_seqs_blank) (cases w; auto simp: blank_char)+
  with w have "leading_space (CHR '' '' # s) = 1" by (simp add: leading_space_def)
  then show ?thesis
    by (simp add: trim_space_def trim_left.simps [of "CHR '' '' # s"])
qed


text \<open>
  \<open>strings.ToUpper\<close> and \<open>strings.ToLower\<close>, as far as a comparison with an ASCII
  string can see: the ASCII letters and the letters beyond ASCII whose other case is ASCII
  (dotless i and long s; dotted capital I and the Kelvin sign). All other bytes are kept; none of
  them can become ASCII.
\<close>

definition upper_char :: "char \<Rightarrow> char" where
  "upper_char c = (if 97 \<le> (of_char c :: nat) \<and> (of_char c :: nat) \<le> 122
                   then char_of ((of_char c :: nat) - 32) else c)"

definition lower_char :: "char \<Rightarrow> char" where
  "lower_char c = (if 65 \<le> (of_char c :: nat) \<and> (of_char c :: nat) \<le> 90
                   then char_of ((of_char c :: nat) + 32) else c)"

fun to_upper :: "string \<Rightarrow> string" where
  "to_upper [] = []"
| "to_upper [c] = [upper_char c]"
| "to_upper (c # d # s) =
     (if [c, d] = map char_of [196 :: nat, 177] then CHR ''I'' # to_upper s
      else if [c, d] = map char_of [197 :: nat, 191] then CHR ''S'' # to_upper s
      else upper_char c # to_upper (d # s))"

fun to_lower :: "string \<Rightarrow> string" where
  "to_lower [] = []"
| "to_lower [c] = [lower_char c]"
| "to_lower (c # d # s) =
     (if [c, d] = map char_of [196 :: nat, 176] then CHR ''i'' # to_lower s
      else if c = char_of (226 :: nat) \<and> d = char_of (132 :: nat) \<and> s \<noteq> [] \<and> hd s = char_of (170 :: nat)
      then CHR ''k'' # to_lower (tl s)
      else lower_char c # to_lower (d # s))"

lemma to_upper_ascii: "\<forall>c \<in> set s. (of_char c :: nat) < 128 \<Longrightarrow> to_upper s = map upper_char s"
proof (induction s rule: to_upper.induct)
  case (3 c d s)
  have "x \<noteq> char_of (n :: nat)" if "(of_char x :: nat) < 128" "128 \<le> n" "n < 256" for x n
    using that by (auto simp: of_char_of)
  with 3 show ?case by auto
qed simp_all

lemma to_lower_ascii: "\<forall>c \<in> set s. (of_char c :: nat) < 128 \<Longrightarrow> to_lower s = map lower_char s"
proof (induction s rule: to_lower.induct)
  case (3 c d s)
  have "x \<noteq> char_of (n :: nat)" if "(of_char x :: nat) < 128" "128 \<le> n" "n < 256" for x n
    using that by (auto simp: of_char_of)
  with 3 show ?case by auto
qed simp_all


section \<open>Time and duration\<close>

text \<open>
  \<open>time.Time\<close> is an instant in nanoseconds; the zero \<open>Time\<close> is \<open>0\<close>.
  \<open>time.Duration\<close> is an \<open>int64\<close> of nanoseconds: arithmetic on durations wraps
  (\<open>wrap64\<close>), while \<open>Time.Sub\<close> saturates. \<open>Time.Add\<close>, \<open>Before\<close> and
  \<open>Equal\<close> are exact for the years that the code can meet.
\<close>

type_synonym gotime = int
type_synonym duration = int

definition zero_time :: gotime where
  "zero_time = 0"

abbreviation is_zero :: "gotime \<Rightarrow> bool" where
  "is_zero t \<equiv> t = zero_time"

definition min_int64 :: int where "min_int64 = - (2 ^ 63)"
definition max_int64 :: int where "max_int64 = 2 ^ 63 - 1"

definition wrap64 :: "int \<Rightarrow> int" where
  "wrap64 x = (x + 2 ^ 63) mod 2 ^ 64 - 2 ^ 63"

definition time_sub :: "gotime \<Rightarrow> gotime \<Rightarrow> duration" where
  "time_sub t u = max min_int64 (min max_int64 (t - u))"

lemma wrap64_id: "min_int64 \<le> x \<Longrightarrow> x \<le> max_int64 \<Longrightarrow> wrap64 x = x"
  by (simp add: wrap64_def min_int64_def max_int64_def)

lemma wrap64_range: "min_int64 \<le> wrap64 x \<and> wrap64 x \<le> max_int64"
proof -
  have "0 \<le> (x + 2 ^ 63) mod 2 ^ 64" and "(x + 2 ^ 63) mod 2 ^ 64 < 2 ^ 64"
    by simp_all
  then show ?thesis by (simp add: wrap64_def min_int64_def max_int64_def)
qed

text \<open>Saturation is invisible to a comparison with a duration.\<close>

lemma time_sub_less: "min_int64 < d \<Longrightarrow> d \<le> max_int64 \<Longrightarrow> time_sub t u < d \<longleftrightarrow> t - u < d"
  by (auto simp: time_sub_def)

lemma time_sub_greater: "min_int64 \<le> d \<Longrightarrow> d < max_int64 \<Longrightarrow> d < time_sub t u \<longleftrightarrow> d < t - u"
  by (auto simp: time_sub_def)

text \<open>
  \<open>if now.IsZero() { now = time.Now().UTC() }\<close>: the wall clock is an argument.
\<close>

definition now_or :: "gotime \<Rightarrow> gotime \<Rightarrow> gotime" where
  "now_or wall now = (if is_zero now then wall else now)"

lemma now_or_nonzero [simp]: "\<not> is_zero now \<Longrightarrow> now_or wall now = now"
  by (simp add: now_or_def)


section \<open>Maps\<close>

text \<open>
  A Go map is an association list with distinct keys. The order of the list stands for the
  iteration order of \<open>range\<close>, which Go leaves open: a theorem about every state with
  distinct keys is a theorem about every iteration order.
\<close>

type_synonym ('k, 'v) gomap = "('k \<times> 'v) list"

abbreviation keys_distinct :: "('k, 'v) gomap \<Rightarrow> bool" where
  "keys_distinct m \<equiv> distinct (map fst m)"

abbreviation has_key :: "('k, 'v) gomap \<Rightarrow> 'k \<Rightarrow> bool" where
  "has_key m k \<equiv> map_of m k \<noteq> None"

text \<open>\<open>m[k] = v\<close> and \<open>delete(m, k)\<close>.\<close>

abbreviation map_put :: "'k \<Rightarrow> 'v \<Rightarrow> ('k, 'v) gomap \<Rightarrow> ('k, 'v) gomap" where
  "map_put k v m \<equiv> AList.update k v m"

abbreviation map_del :: "'k \<Rightarrow> ('k, 'v) gomap \<Rightarrow> ('k, 'v) gomap" where
  "map_del k m \<equiv> AList.delete k m"

lemma map_of_put [simp, go_simps]: "map_of (map_put k v m) = (map_of m)(k \<mapsto> v)"
  by (rule update_conv')

lemma map_of_del [simp, go_simps]: "map_of (map_del k m) = (map_of m)(k := None)"
  by (rule delete_conv')

lemma keys_map_del [simp]: "fst ` set (map_del k m) = fst ` set m - {k}"
  by (induction m) auto

lemma keys_distinct_put [simp]: "keys_distinct m \<Longrightarrow> keys_distinct (map_put k v m)"
  by (rule distinct_update)

lemma keys_distinct_del [simp]: "keys_distinct m \<Longrightarrow> keys_distinct (map_del k m)"
  by (rule distinct_delete)

lemma map_del_filter: "map_del k m = filter (\<lambda>e. fst e \<noteq> k) m"
  by (induction m) auto

lemma has_key_iff: "has_key m k \<longleftrightarrow> k \<in> fst ` set m"
  by (auto simp: map_of_eq_None_iff)

lemma length_put:
  "length (map_put k v m) = (if has_key m k then length m else Suc (length m))"
  by (induction m) auto

lemma length_del_le: "length (map_del k m) \<le> length m"
  by (rule length_delete_le)

lemma length_del:
  "keys_distinct m \<Longrightarrow> has_key m k \<Longrightarrow> Suc (length (map_del k m)) = length m"
proof (induction m)
  case (Cons p m)
  show ?case
  proof (cases "fst p = k")
    case True
    with Cons.prems have "k \<notin> fst ` set m" by auto
    then have "map_del k m = m" by (simp add: delete_idem)
    with True show ?thesis by (cases p) simp
  next
    case False
    with Cons show ?thesis by (cases p) auto
  qed
qed simp

lemma keys_distinct_filter [simp]: "keys_distinct m \<Longrightarrow> keys_distinct (filter P m)"
  by (induction m) auto

lemma map_of_filter_key:
  "keys_distinct m \<Longrightarrow>
   map_of (filter P m) k = (case map_of m k of Some v \<Rightarrow> if P (k, v) then Some v else None | None \<Rightarrow> None)"
  by (induction m) (auto simp: map_of_eq_None_iff split: option.splits dest: map_of_SomeD)


section \<open>Order queues\<close>

text \<open>
  Removing one name from a FIFO order, as the pools and registries do: the first
  occurrence (\<open>remove1\<close>) or every occurrence (a filter).
\<close>

lemma distinct_snoc [simp]: "distinct (xs @ [x]) \<longleftrightarrow> distinct xs \<and> x \<notin> set xs"
  by auto

lemma filter_neq_remove1: "distinct xs \<Longrightarrow> filter (\<lambda>y. y \<noteq> x) xs = remove1 x xs"
  by (auto simp: distinct_remove1_removeAll removeAll_filter_not_eq intro: filter_cong)

lemma set_map_put: "x \<in> set (map_put k v m) \<Longrightarrow> x = (k, v) \<or> x \<in> set m"
  by (induction m) (auto split: if_splits)

lemma set_map_del: "x \<in> set (map_del k m) \<Longrightarrow> x \<in> set m"
  by (auto simp: AList.delete_eq)

end
