(* ===== verification/Transport_Types.thy ===== *)
theory Transport_Types
  imports Prelude
begin

text \<open>
  The vocabulary of \<open>ltfp/transport\<close>: the sentinel errors of \<open>errors.go\<close>, the session
  and tunnel states of \<open>types.go\<close> with their transition tables, the map from session
  states to protocol states, the keepalive defaults, and the control frame of
  \<open>control_channel.go\<close>.
\<close>

section \<open>Errors\<close>

text \<open>
  The sentinels of \<open>errors.go\<close>, the two errors of \<open>context\<close>, and errors that come from
  outside (a peer, a caller), which carry their text. \<open>fmt.Errorf("...: %w", err)\<close> is
  modelled as \<open>err\<close>: what \<open>errors.Is\<close> sees of it. No component branches on the added
  text.
\<close>

datatype goerr =
    ErrClosed
  | ErrNotReady
  | ErrSessionClosed
  | ErrTunnelClosed
  | ErrTunnelBroken
  | ErrTunnelStale
  | ErrNoTunnel
  | ErrTimeout
  | ErrUnsupported
  | ErrInvalidArgument
  | ErrStateTransition
  | ErrTunnelNotFound
  | ErrTunnelInUse
  | ErrPoolExhausted
  | Canceled
  | DeadlineExceeded
  | OtherErr string

text \<open>\<open>err.Error()\<close>.\<close>

fun err_text :: "goerr \<Rightarrow> string" where
  "err_text ErrClosed = ''closed''"
| "err_text ErrNotReady = ''not ready''"
| "err_text ErrSessionClosed = ''session closed''"
| "err_text ErrTunnelClosed = ''tunnel closed''"
| "err_text ErrTunnelBroken = ''tunnel broken''"
| "err_text ErrTunnelStale = ''tunnel stale: probe failed''"
| "err_text ErrNoTunnel = ''no available tunnel''"
| "err_text ErrTimeout = ''timeout''"
| "err_text ErrUnsupported = ''unsupported capability''"
| "err_text ErrInvalidArgument = ''invalid argument''"
| "err_text ErrStateTransition = ''invalid state transition''"
| "err_text ErrTunnelNotFound = ''tunnel not found''"
| "err_text ErrTunnelInUse = ''tunnel in use''"
| "err_text ErrPoolExhausted = ''pool exhausted''"
| "err_text Canceled = ''context canceled''"
| "err_text DeadlineExceeded = ''context deadline exceeded''"
| "err_text (OtherErr s) = s"


section \<open>Bindings and keepalive\<close>

datatype binding_type =
    BindingTypeGRPCH2
  | BindingTypeTCPFramed
  | BindingTypeQUICNative
  | BindingTypeH3Stream
  | BindingTypeOther string

record keepalive_policy =
  IdleTTL :: duration
  ProbeInterval :: duration
  ProbeTimeout :: duration
  ProbeMaxFailures :: int

definition second :: duration where "second = 1000000000"
definition minute :: duration where "minute = 60 * second"

fun default_keepalive_policy_for_binding :: "binding_type \<Rightarrow> keepalive_policy" where
  "default_keepalive_policy_for_binding BindingTypeGRPCH2 =
     \<lparr>IdleTTL = 300 * second, ProbeInterval = 0, ProbeTimeout = 0, ProbeMaxFailures = 0\<rparr>"
| "default_keepalive_policy_for_binding BindingTypeTCPFramed =
     \<lparr>IdleTTL = 120 * second, ProbeInterval = 30 * second, ProbeTimeout = 5 * second,
      ProbeMaxFailures = 2\<rparr>"
| "default_keepalive_policy_for_binding BindingTypeQUICNative =
     \<lparr>IdleTTL = 300 * second, ProbeInterval = 0, ProbeTimeout = 0, ProbeMaxFailures = 0\<rparr>"
| "default_keepalive_policy_for_binding BindingTypeH3Stream =
     \<lparr>IdleTTL = 300 * second, ProbeInterval = 0, ProbeTimeout = 0, ProbeMaxFailures = 0\<rparr>"
| "default_keepalive_policy_for_binding (BindingTypeOther _) =
     \<lparr>IdleTTL = 120 * second, ProbeInterval = 30 * second, ProbeTimeout = 5 * second,
      ProbeMaxFailures = 2\<rparr>"


section \<open>Session and tunnel states\<close>

datatype session_state =
    SessionStateIdle
  | SessionStateConnecting
  | SessionStateConnected
  | SessionStateControlReady
  | SessionStateAuthenticated
  | SessionStateDraining
  | SessionStateFailed
  | SessionStateClosed

definition session_state_is_terminal :: "session_state \<Rightarrow> bool" where
  "session_state_is_terminal s \<longleftrightarrow> s = SessionStateFailed \<or> s = SessionStateClosed"

datatype tunnel_state =
    TunnelStateOpening
  | TunnelStateIdle
  | TunnelStateReserved
  | TunnelStateActive
  | TunnelStateClosing
  | TunnelStateClosed
  | TunnelStateBroken

definition tunnel_state_is_terminal :: "tunnel_state \<Rightarrow> bool" where
  "tunnel_state_is_terminal s \<longleftrightarrow> s = TunnelStateClosed \<or> s = TunnelStateBroken"

datatype protocol_state =
    ProtocolStateConnecting
  | ProtocolStateAuthenticating
  | ProtocolStateActive
  | ProtocolStateDraining
  | ProtocolStateStale
  | ProtocolStateClosed

record failed_mapping_context =
  EverAuthenticated :: bool
  Retrying :: bool
  GiveUp :: bool

definition map_session_state_to_protocol_state ::
    "session_state \<Rightarrow> failed_mapping_context \<Rightarrow> protocol_state" where
  "map_session_state_to_protocol_state s mapping =
     (case s of
        SessionStateIdle \<Rightarrow> ProtocolStateConnecting
      | SessionStateConnecting \<Rightarrow> ProtocolStateConnecting
      | SessionStateConnected \<Rightarrow> ProtocolStateAuthenticating
      | SessionStateControlReady \<Rightarrow> ProtocolStateAuthenticating
      | SessionStateAuthenticated \<Rightarrow> ProtocolStateActive
      | SessionStateDraining \<Rightarrow> ProtocolStateDraining
      | SessionStateClosed \<Rightarrow> ProtocolStateClosed
      | SessionStateFailed \<Rightarrow>
          if \<not> EverAuthenticated mapping \<and> Retrying mapping \<and> \<not> GiveUp mapping
          then ProtocolStateConnecting
          else if EverAuthenticated mapping then ProtocolStateStale
          else ProtocolStateClosed)"

text \<open>The transition tables, each row in the order of the source.\<close>

fun session_state_transitions :: "session_state \<Rightarrow> session_state list" where
  "session_state_transitions SessionStateIdle =
     [SessionStateConnecting, SessionStateFailed, SessionStateClosed]"
| "session_state_transitions SessionStateConnecting =
     [SessionStateConnected, SessionStateFailed, SessionStateClosed]"
| "session_state_transitions SessionStateConnected =
     [SessionStateControlReady, SessionStateFailed, SessionStateClosed]"
| "session_state_transitions SessionStateControlReady =
     [SessionStateAuthenticated, SessionStateFailed, SessionStateClosed]"
| "session_state_transitions SessionStateAuthenticated =
     [SessionStateDraining, SessionStateFailed, SessionStateClosed]"
| "session_state_transitions SessionStateDraining =
     [SessionStateClosed, SessionStateFailed]"
| "session_state_transitions SessionStateFailed =
     [SessionStateConnecting, SessionStateClosed]"
| "session_state_transitions SessionStateClosed = []"

definition can_transition_session_state :: "session_state \<Rightarrow> session_state \<Rightarrow> bool" where
  "can_transition_session_state from_state to_state \<longleftrightarrow>
     (if from_state = to_state then True
      else to_state \<in> set (session_state_transitions from_state))"

fun tunnel_state_transitions :: "tunnel_state \<Rightarrow> tunnel_state list" where
  "tunnel_state_transitions TunnelStateOpening =
     [TunnelStateIdle, TunnelStateBroken, TunnelStateClosed]"
| "tunnel_state_transitions TunnelStateIdle =
     [TunnelStateReserved, TunnelStateBroken, TunnelStateClosing, TunnelStateClosed]"
| "tunnel_state_transitions TunnelStateReserved =
     [TunnelStateActive, TunnelStateClosed, TunnelStateBroken]"
| "tunnel_state_transitions TunnelStateActive =
     [TunnelStateClosing, TunnelStateClosed, TunnelStateBroken]"
| "tunnel_state_transitions TunnelStateClosing =
     [TunnelStateClosed, TunnelStateBroken]"
| "tunnel_state_transitions TunnelStateClosed = []"
| "tunnel_state_transitions TunnelStateBroken = []"

definition can_transition_tunnel_state :: "tunnel_state \<Rightarrow> tunnel_state \<Rightarrow> bool" where
  "can_transition_tunnel_state from_state to_state \<longleftrightarrow>
     (if from_state = to_state then True
      else to_state \<in> set (tunnel_state_transitions from_state))"

text \<open>
  No tunnel returns to idle once it left idle: a tunnel that was reserved or active is used
  up, whatever legal steps follow. The rank decreases strictly along every proper step.
\<close>

fun tunnel_rank :: "tunnel_state \<Rightarrow> nat" where
  "tunnel_rank TunnelStateOpening = 5"
| "tunnel_rank TunnelStateIdle = 4"
| "tunnel_rank TunnelStateReserved = 3"
| "tunnel_rank TunnelStateActive = 2"
| "tunnel_rank TunnelStateClosing = 1"
| "tunnel_rank TunnelStateClosed = 0"
| "tunnel_rank TunnelStateBroken = 0"

lemma tunnel_step_rank:
  "can_transition_tunnel_state a b \<Longrightarrow> a \<noteq> b \<Longrightarrow> tunnel_rank b < tunnel_rank a"
  by (cases a) (auto simp: can_transition_tunnel_state_def)

inductive tunnel_path :: "tunnel_state \<Rightarrow> tunnel_state list \<Rightarrow> bool" where
  path_nil: "tunnel_path s []"
| path_step: "can_transition_tunnel_state s t \<Longrightarrow> tunnel_path t ts \<Longrightarrow> tunnel_path s (t # ts)"

inductive_cases tunnel_path_ConsE: "tunnel_path s (t # ts)"

lemma tunnel_path_rank: "tunnel_path s ts \<Longrightarrow> t \<in> set ts \<Longrightarrow> tunnel_rank t \<le> tunnel_rank s"
proof (induction rule: tunnel_path.induct)
  case (path_step s u ts)
  then show ?case
    using tunnel_step_rank [of s u] by (cases "s = u") fastforce+
qed simp

text \<open>
  A tunnel that has left the idle state is never idle again: along any sequence of
  transitions that \<open>CanTransitionTunnelState\<close> allows, a reserved, active, closing, closed
  or broken tunnel meets only states of smaller or equal rank.
\<close>

theorem tunnel_never_idle_again:
  assumes "tunnel_path s ts" and "s \<noteq> TunnelStateOpening" and "s \<noteq> TunnelStateIdle"
    and "t \<in> set ts"
  shows "t \<noteq> TunnelStateIdle \<and> t \<noteq> TunnelStateOpening
    \<and> (tunnel_state_is_terminal s \<longrightarrow> t = s)"
proof -
  have "tunnel_rank t \<le> tunnel_rank s"
    using assms(1,4) by (rule tunnel_path_rank)
  moreover have "tunnel_rank s \<le> 3" using assms(2,3) by (cases s) auto
  moreover have "tunnel_state_is_terminal s \<Longrightarrow> t = s"
    using assms(1,4)
  proof (induction rule: tunnel_path.induct)
    case (path_step s u ts)
    then have "u = s"
      by (cases s)
        (auto simp: tunnel_state_is_terminal_def can_transition_tunnel_state_def split: if_splits)
    with path_step show ?case by auto
  qed simp
  ultimately show ?thesis by auto
qed

theorem tunnel_never_idle_again_witness:
  "TunnelStateClosed \<noteq> TunnelStateIdle
   \<and> tunnel_path TunnelStateReserved [TunnelStateActive, TunnelStateClosed]"
proof -
  have p: "tunnel_path TunnelStateReserved [TunnelStateActive, TunnelStateClosed]"
    by (intro tunnel_path.intros) (simp_all add: can_transition_tunnel_state_def)
  show ?thesis
    using p tunnel_never_idle_again [OF p, of TunnelStateClosed] by simp
qed


section \<open>Control frames\<close>

type_synonym byte = "8 word"

record control_frame =
  Type :: "16 word"
  Payload :: "byte list"

datatype control_message_priority =
    ControlMessagePriorityHigh
  | ControlMessagePriorityNormal
  | ControlMessagePriorityLow
  | ControlMessagePriorityOther string

record prioritized_control_frame =
  Priority :: control_message_priority
  Frame :: control_frame

fun normalize_control_message_priority ::
    "control_message_priority \<Rightarrow> control_message_priority" where
  "normalize_control_message_priority ControlMessagePriorityHigh = ControlMessagePriorityHigh"
| "normalize_control_message_priority ControlMessagePriorityNormal = ControlMessagePriorityNormal"
| "normalize_control_message_priority ControlMessagePriorityLow = ControlMessagePriorityLow"
| "normalize_control_message_priority (ControlMessagePriorityOther _) = ControlMessagePriorityNormal"

section \<open>Tunnels\<close>

text \<open>A tunnel is a reference: the identity of the object and its constant \<open>ID()\<close>.\<close>

record tunnel =
  tunnel_object :: nat
  tunnel_id :: string

end
