(* ===== verification/Bytes.thy ===== *)
theory Bytes
  imports Transport_Types
begin

text \<open>
  \<open>encoding/binary.BigEndian\<close>: \<open>PutUintN\<close> writes the most significant byte first and
  \<open>UintN\<close> reads it back. One pair of definitions serves all widths.
\<close>

unbundle bit_operations_syntax

definition be_bytes :: "nat \<Rightarrow> 'a::len word \<Rightarrow> byte list" where
  "be_bytes n w = map (\<lambda>i. ucast (drop_bit (8 * i) w)) (rev [0..<n])"

definition be_word :: "byte list \<Rightarrow> 'a::len word" where
  "be_word bs = foldl (\<lambda>acc b. push_bit 8 acc OR ucast b) 0 bs"

lemma length_be_bytes [simp]: "length (be_bytes n w) = n"
  by (simp add: be_bytes_def)

lemma be_bytes_Suc: "be_bytes (Suc n) w = ucast (drop_bit (8 * n) w) # be_bytes n w"
  by (simp add: be_bytes_def)

lemma be_bytes_0 [simp]: "be_bytes 0 w = []"
  by (simp add: be_bytes_def)

lemma be_word_step:
  fixes w acc :: "'a::len word"
  shows "push_bit (8 * n) (push_bit 8 acc OR ucast (ucast (drop_bit (8 * n) w) :: byte))
           OR take_bit (8 * n) w
       = push_bit (8 * Suc n) acc OR take_bit (8 * Suc n) w"
proof (rule bit_word_eqI)
  fix k assume "k < LENGTH('a)"
  consider "k < 8 * n" | "8 * n \<le> k" "k < 8 * n + 8" | "8 * n + 8 \<le> k"
    by linarith
  then show "bit (push_bit (8 * n) (push_bit 8 acc OR ucast (ucast (drop_bit (8 * n) w) :: byte))
           OR take_bit (8 * n) w) k
       = bit (push_bit (8 * Suc n) acc OR take_bit (8 * Suc n) w) k"
    using \<open>k < LENGTH('a)\<close>
    by cases (auto simp: bit_simps add.commute)
qed

lemma foldl_be_bytes:
  "foldl (\<lambda>acc b. push_bit 8 acc OR ucast b) acc (be_bytes n w)
     = push_bit (8 * n) acc OR take_bit (8 * n) (w :: 'a::len word)"
proof (induction n arbitrary: acc)
  case (Suc n)
  then show ?case
    unfolding be_bytes_Suc foldl_Cons by (simp only: Suc be_word_step)
qed simp

lemma be_word_be_bytes: "be_word (be_bytes n w) = take_bit (8 * n) (w :: 'a::len word)"
  by (simp add: be_word_def foldl_be_bytes)

lemma be_word_be_bytes_id [simp]:
  fixes w :: "'a::len word"
  assumes "LENGTH('a) \<le> 8 * n"
  shows "be_word (be_bytes n w) = w"
  using assms by (simp add: be_word_be_bytes take_bit_word_eq_self)

lemma unat_less_2p: "unat (w :: 'a::len word) < 2 ^ LENGTH('a)"
  by (rule unsigned_less)

lemma unat_ucast_up:
  "LENGTH('a) \<le> LENGTH('b) \<Longrightarrow> unat (ucast (w :: 'a::len word) :: 'b::len word) = unat w"
  by (metis order_less_le_trans power_increasing_iff take_bit_nat_eq_self unat_less_2p
      unsigned_ucast_eq one_less_numeral_iff semiring_norm(76))

lemma unat_of_nat_small: "n < 2 ^ LENGTH('a) \<Longrightarrow> unat (of_nat n :: 'a::len word) = n"
  by (simp add: unsigned_of_nat take_bit_nat_eq_self)

text \<open>\<open>b[i:j]\<close> of a slice that is long enough.\<close>

definition sub_slice :: "nat \<Rightarrow> nat \<Rightarrow> 'a list \<Rightarrow> 'a list" where
  "sub_slice i j bs = take (j - i) (drop i bs)"

lemma sub_slice_append_right [simp]:
  "length xs \<le> i \<Longrightarrow> sub_slice i j (xs @ ys) = sub_slice (i - length xs) (j - length xs) ys"
  by (simp add: sub_slice_def)

lemma sub_slice_append_left [simp]:
  "length xs = j \<Longrightarrow> sub_slice 0 j (xs @ ys) = xs"
  by (simp add: sub_slice_def)

end
