(* ===== verification/Fragmentation.thy ===== *)
theory Fragmentation
  imports Bytes "HOL-Library.Multiset"
begin

text \<open>
  \<open>ltfp/transport/control_fragmentation.go\<close>: the fragmenter that cuts a large control
  frame into fragment frames, the 24 byte fragment header, and the reassembler that
  rebuilds the frame from fragments that arrive in any order, interleaved with other
  traffic. A fragment slot holds \<^term>\<open>None\<close> for Go's nil slice; \<open>append([]byte(nil), p...)\<close>
  is nil when \<open>p\<close> is empty, which \<open>copy_bytes\<close> keeps.
\<close>

section \<open>Configuration\<close>

definition control_frame_type_fragment :: "16 word" where
  "control_frame_type_fragment = 0xFFFF"

definition default_control_fragment_max_payload_size :: int where
  "default_control_fragment_max_payload_size = 64 * 1024"

definition control_fragment_version :: byte where "control_fragment_version = 1"
definition control_fragment_header_size :: nat where "control_fragment_header_size = 24"
definition default_control_fragment_reassembly_ttl :: duration where
  "default_control_fragment_reassembly_ttl = 30 * second"
definition default_control_fragment_max_in_flight :: int where
  "default_control_fragment_max_in_flight = 256"

definition control_fragment_magic :: "byte list" where
  "control_fragment_magic = [0x4C, 0x54, 0x46, 0x50]"

record fragmentation_config =
  MaxPayloadSize :: int
  ReassemblyTTL :: duration
  MaxInFlightMessage :: int

definition normalize_fragmentation_config ::
    "fragmentation_config \<Rightarrow> goerr + fragmentation_config" where
  "normalize_fragmentation_config config =
     (let c1 = (if MaxPayloadSize config \<le> 0
                then config\<lparr>MaxPayloadSize := default_control_fragment_max_payload_size\<rparr>
                else config)
      in if MaxPayloadSize c1 \<le> int control_fragment_header_size then Inl ErrInvalidArgument
         else
           let c2 = (if ReassemblyTTL c1 \<le> 0
                     then c1\<lparr>ReassemblyTTL := default_control_fragment_reassembly_ttl\<rparr> else c1);
               c3 = (if MaxInFlightMessage c2 \<le> 0
                     then c2\<lparr>MaxInFlightMessage := default_control_fragment_max_in_flight\<rparr> else c2)
           in Inr c3)"

definition default_control_fragmentation_config :: fragmentation_config where
  "default_control_fragmentation_config =
     \<lparr>MaxPayloadSize = default_control_fragment_max_payload_size,
      ReassemblyTTL = default_control_fragment_reassembly_ttl,
      MaxInFlightMessage = default_control_fragment_max_in_flight\<rparr>"

definition config_ok :: "fragmentation_config \<Rightarrow> bool" where
  "config_ok c \<longleftrightarrow> int control_fragment_header_size < MaxPayloadSize c
     \<and> 0 < ReassemblyTTL c \<and> 0 < MaxInFlightMessage c"

lemma normalize_fragmentation_config_ok:
  "normalize_fragmentation_config c = Inr c' \<Longrightarrow> config_ok c'"
  by (auto simp: normalize_fragmentation_config_def config_ok_def Let_def second_def
      default_control_fragment_reassembly_ttl_def default_control_fragment_max_in_flight_def
      split: if_splits)

text \<open>The room for payload in one fragment.\<close>

definition max_fragment_payload :: "fragmentation_config \<Rightarrow> nat" where
  "max_fragment_payload c = nat (MaxPayloadSize c - int control_fragment_header_size)"

lemma max_fragment_payload_pos: "config_ok c \<Longrightarrow> 0 < max_fragment_payload c"
  by (simp add: config_ok_def max_fragment_payload_def)


section \<open>The fragment header\<close>

record fragment_header =
  OriginalType :: "16 word"
  MessageID :: "64 word"
  FragmentIndex :: "16 word"
  FragmentCount :: "16 word"
  TotalPayloadSize :: "32 word"

definition encode_control_fragment :: "fragment_header \<Rightarrow> byte list \<Rightarrow> byte list" where
  "encode_control_fragment header fragment_payload =
     control_fragment_magic @ [control_fragment_version] @ [0]
     @ be_bytes 2 (OriginalType header)
     @ be_bytes 2 (FragmentCount header)
     @ be_bytes 2 (FragmentIndex header)
     @ be_bytes 8 (MessageID header)
     @ be_bytes 4 (TotalPayloadSize header)
     @ fragment_payload"

definition decode_control_fragment :: "byte list \<Rightarrow> goerr + (fragment_header \<times> byte list)" where
  "decode_control_fragment encoded =
     (if length encoded < control_fragment_header_size then Inl ErrInvalidArgument
      else if sub_slice 0 4 encoded \<noteq> control_fragment_magic then Inl ErrInvalidArgument
      else if encoded ! 4 \<noteq> control_fragment_version then Inl ErrInvalidArgument
      else
        let header =
          \<lparr>OriginalType = be_word (sub_slice 6 8 encoded),
           MessageID = be_word (sub_slice 12 20 encoded),
           FragmentIndex = be_word (sub_slice 10 12 encoded),
           FragmentCount = be_word (sub_slice 8 10 encoded),
           TotalPayloadSize = be_word (sub_slice 20 24 encoded)\<rparr>
        in if OriginalType header = control_frame_type_fragment then Inl ErrInvalidArgument
           else if FragmentCount header = 0 then Inl ErrInvalidArgument
           else if FragmentIndex header \<ge> FragmentCount header then Inl ErrInvalidArgument
           else if TotalPayloadSize header = 0 then Inl ErrInvalidArgument
           else Inr (header, drop control_fragment_header_size encoded))"

definition header_ok :: "fragment_header \<Rightarrow> bool" where
  "header_ok h \<longleftrightarrow> OriginalType h \<noteq> control_frame_type_fragment \<and> FragmentCount h \<noteq> 0
     \<and> FragmentIndex h < FragmentCount h \<and> TotalPayloadSize h \<noteq> 0"

lemma header_okD: "header_ok h \<Longrightarrow> unat (FragmentIndex h) < unat (FragmentCount h)"
  by (simp add: header_ok_def word_less_nat_alt)

lemma length_encode_control_fragment:
  "length (encode_control_fragment h p) = control_fragment_header_size + length p"
  by (simp add: encode_control_fragment_def control_fragment_magic_def
      control_fragment_header_size_def)

lemma decode_encode_raw:
  "decode_control_fragment (encode_control_fragment h p) =
     (if header_ok h then Inr (h, p) else Inl ErrInvalidArgument)"
proof -
  have parts: "sub_slice 0 4 (encode_control_fragment h p) = control_fragment_magic"
    "encode_control_fragment h p ! 4 = control_fragment_version"
    "sub_slice 6 8 (encode_control_fragment h p) = be_bytes 2 (OriginalType h)"
    "sub_slice 8 10 (encode_control_fragment h p) = be_bytes 2 (FragmentCount h)"
    "sub_slice 10 12 (encode_control_fragment h p) = be_bytes 2 (FragmentIndex h)"
    "sub_slice 12 20 (encode_control_fragment h p) = be_bytes 8 (MessageID h)"
    "sub_slice 20 24 (encode_control_fragment h p) = be_bytes 4 (TotalPayloadSize h)"
    "drop 24 (encode_control_fragment h p) = p"
    by (simp_all add: encode_control_fragment_def control_fragment_magic_def sub_slice_def
        nth_append numeral_eq_Suc)
  show ?thesis
    using length_encode_control_fragment [of h p]
    by (auto simp: decode_control_fragment_def Let_def parts header_ok_def
        control_fragment_header_size_def not_less)
qed

lemma decode_control_fragment_ok:
  "decode_control_fragment bs = Inr (h, p) \<Longrightarrow> header_ok h"
  by (auto simp: decode_control_fragment_def header_ok_def Let_def not_le split: if_splits)


section \<open>The fragmenter\<close>

record fragmenter =
  fragmenter_config :: fragmentation_config
  next_message_id :: "64 word"

definition new_control_frame_fragmenter :: "fragmentation_config \<Rightarrow> goerr + fragmenter" where
  "new_control_frame_fragmenter config =
     (case normalize_fragmentation_config config of
        Inl e \<Rightarrow> Inl e
      | Inr c \<Rightarrow> Inr \<lparr>fragmenter_config = c, next_message_id = 0\<rparr>)"

definition fragment_count :: "fragmentation_config \<Rightarrow> control_frame \<Rightarrow> nat" where
  "fragment_count c frame =
     (length (Payload frame) + max_fragment_payload c - 1) div max_fragment_payload c"

definition chunk_of :: "fragmentation_config \<Rightarrow> control_frame \<Rightarrow> nat \<Rightarrow> byte list" where
  "chunk_of c frame fragment_index =
     (let chunk_offset = fragment_index * max_fragment_payload c;
          chunk_end0 = chunk_offset + max_fragment_payload c;
          chunk_end = (if chunk_end0 > length (Payload frame) then length (Payload frame)
                       else chunk_end0)
      in sub_slice chunk_offset chunk_end (Payload frame))"

definition header_of ::
    "fragmentation_config \<Rightarrow> control_frame \<Rightarrow> 64 word \<Rightarrow> nat \<Rightarrow> fragment_header" where
  "header_of c frame message_id fragment_index =
     \<lparr>OriginalType = Type frame, MessageID = message_id,
      FragmentIndex = of_nat fragment_index,
      FragmentCount = of_nat (fragment_count c frame),
      TotalPayloadSize = of_nat (length (Payload frame))\<rparr>"

definition fragment_frame ::
    "fragmentation_config \<Rightarrow> control_frame \<Rightarrow> 64 word \<Rightarrow> nat \<Rightarrow> control_frame" where
  "fragment_frame c frame message_id i =
     \<lparr>Type = control_frame_type_fragment,
      Payload = encode_control_fragment (header_of c frame message_id i) (chunk_of c frame i)\<rparr>"

definition fragment ::
    "fragmenter \<Rightarrow> control_frame \<Rightarrow> (goerr + control_frame list) \<times> fragmenter" where
  "fragment fg frame =
     (let c = fragmenter_config fg in
      if Type frame = control_frame_type_fragment then (Inl ErrInvalidArgument, fg)
      else if int (length (Payload frame)) \<le> MaxPayloadSize c then (Inr [frame], fg)
      else if fragment_count c frame > 2 ^ 16 - 1 then (Inl ErrInvalidArgument, fg)
      else if length (Payload frame) > 2 ^ 32 - 1 then (Inl ErrInvalidArgument, fg)
      else
        let message_id = next_message_id fg + 1
        in (Inr (map (fragment_frame c frame message_id) [0..<fragment_count c frame]),
            fg\<lparr>next_message_id := message_id\<rparr>))"

lemma chunk_of_eq:
  "chunk_of c frame i =
     take (max_fragment_payload c) (drop (i * max_fragment_payload c) (Payload frame))"
  by (auto simp: chunk_of_def Let_def sub_slice_def)

lemma concat_chunks:
  "concat (map (\<lambda>i. take m (drop (i * m) xs)) [0..<k]) = take (k * m) xs"
proof (induction k)
  case (Suc k)
  have "take (k * m) xs @ take m (drop (k * m) xs) = take (k * m + m) xs"
    by (simp add: take_add)
  with Suc show ?case by (simp add: add.commute)
qed simp

lemma fragment_count_covers:
  assumes "config_ok c"
  shows "length (Payload frame) \<le> fragment_count c frame * max_fragment_payload c"
proof -
  let ?m = "max_fragment_payload c" and ?n = "length (Payload frame)"
  have "0 < ?m" using assms by (rule max_fragment_payload_pos)
  then have "?n + ?m - 1 < Suc ((?n + ?m - 1) div ?m) * ?m"
    by (metis div_less_iff_less_mult lessI)
  with \<open>0 < ?m\<close> show ?thesis by (simp add: fragment_count_def)
qed

lemma concat_chunks_of:
  assumes "config_ok c"
  shows "concat (map (chunk_of c frame) [0..<fragment_count c frame]) = Payload frame"
  using concat_chunks [of "max_fragment_payload c" "Payload frame" "fragment_count c frame"]
    fragment_count_covers [OF assms, of frame]
  by (simp add: chunk_of_eq [abs_def])

lemma fragment_start:
  assumes "config_ok c" and "i < fragment_count c frame"
  shows "i * max_fragment_payload c < length (Payload frame)"
proof -
  let ?m = "max_fragment_payload c" and ?n = "length (Payload frame)"
  have m: "0 < ?m" using assms(1) by (rule max_fragment_payload_pos)
  have "Suc i * ?m \<le> ?n + ?m - 1"
    using assms(2) m by (metis Suc_leI fragment_count_def less_eq_div_iff_mult_less_eq)
  with m show ?thesis by simp
qed

lemma chunk_nonempty:
  assumes "config_ok c" and "i < fragment_count c frame"
  shows "chunk_of c frame i \<noteq> []"
  using fragment_start [OF assms] max_fragment_payload_pos [OF assms(1)]
  by (simp add: chunk_of_eq)


section \<open>One assembly\<close>

record assembly =
  originalType :: "16 word"
  totalPayloadSize :: "32 word"
  fragments :: "byte list option list"
  receivedCount :: nat
  receivedBytes :: nat
  lastUpdatedAt :: gotime

text \<open>\<open>append([]byte(nil), p...)\<close>: nil for an empty \<open>p\<close>.\<close>

definition copy_bytes :: "byte list \<Rightarrow> byte list option" where
  "copy_bytes p = (if p = [] then None else Some p)"

definition add_fragment ::
    "assembly \<Rightarrow> fragment_header \<Rightarrow> byte list \<Rightarrow> gotime \<Rightarrow> goerr + assembly" where
  "add_fragment a header fragment_payload now =
     (if originalType a \<noteq> OriginalType header then Inl ErrInvalidArgument
      else if length (fragments a) \<noteq> unat (FragmentCount header) then Inl ErrInvalidArgument
      else if totalPayloadSize a \<noteq> TotalPayloadSize header then Inl ErrInvalidArgument
      else
        let index = unat (FragmentIndex header) in
        case fragments a ! index of
          Some existing \<Rightarrow>
            if existing = fragment_payload then Inr (a\<lparr>lastUpdatedAt := now\<rparr>)
            else Inl ErrInvalidArgument
        | None \<Rightarrow>
            if (of_nat (receivedBytes a + length fragment_payload) :: 32 word)
                 > totalPayloadSize a
            then Inl ErrInvalidArgument
            else Inr (a\<lparr>fragments := (fragments a)[index := copy_bytes fragment_payload],
                        receivedCount := receivedCount a + 1,
                        receivedBytes := receivedBytes a + length fragment_payload,
                        lastUpdatedAt := now\<rparr>))"

definition assembly_complete :: "assembly \<Rightarrow> bool" where
  "assembly_complete a \<longleftrightarrow> receivedCount a = length (fragments a)"

fun join_fragments :: "byte list option list \<Rightarrow> byte list option" where
  "join_fragments [] = Some []"
| "join_fragments (None # fs) = None"
| "join_fragments (Some p # fs) = map_option ((@) p) (join_fragments fs)"

definition assembly_payload :: "assembly \<Rightarrow> goerr + byte list" where
  "assembly_payload a =
     (if \<not> assembly_complete a then Inl ErrNotReady
      else if receivedBytes a \<noteq> unat (totalPayloadSize a) then Inl ErrInvalidArgument
      else case join_fragments (fragments a) of
             None \<Rightarrow> Inl ErrInvalidArgument
           | Some reassembled \<Rightarrow>
               if length reassembled \<noteq> unat (totalPayloadSize a) then Inl ErrInvalidArgument
               else Inr reassembled)"


section \<open>The reassembler\<close>

record reassembler =
  reassembler_config :: fragmentation_config
  assemblies :: "(64 word, assembly) gomap"

definition new_control_frame_reassembler :: "fragmentation_config \<Rightarrow> goerr + reassembler" where
  "new_control_frame_reassembler config =
     (case normalize_fragmentation_config config of
        Inl e \<Rightarrow> Inl e
      | Inr c \<Rightarrow> Inr \<lparr>reassembler_config = c, assemblies = []\<rparr>)"

definition cleanup_expired :: "reassembler \<Rightarrow> gotime \<Rightarrow> reassembler" where
  "cleanup_expired r now =
     (let expired_before = now - ReassemblyTTL (reassembler_config r)
      in r\<lparr>assemblies := filter (\<lambda>(_, a). \<not> lastUpdatedAt a < expired_before) (assemblies r)\<rparr>)"

definition ensure_assembly ::
    "reassembler \<Rightarrow> fragment_header \<Rightarrow> gotime \<Rightarrow> goerr + (assembly \<times> reassembler)" where
  "ensure_assembly r header now =
     (case map_of (assemblies r) (MessageID header) of
        Some a \<Rightarrow> Inr (a, r)
      | None \<Rightarrow>
          if int (length (assemblies r)) \<ge> MaxInFlightMessage (reassembler_config r)
          then Inl ErrInvalidArgument
          else
            let max_total = ucast (FragmentCount header)
                  * (of_nat (max_fragment_payload (reassembler_config r)) :: 64 word)
            in if ucast (TotalPayloadSize header) > max_total then Inl ErrInvalidArgument
               else
                 let a = \<lparr>originalType = OriginalType header,
                          totalPayloadSize = TotalPayloadSize header,
                          fragments = replicate (unat (FragmentCount header)) None,
                          receivedCount = 0, receivedBytes = 0, lastUpdatedAt = now\<rparr>
                 in Inr (a, r\<lparr>assemblies := map_put (MessageID header) a (assemblies r)\<rparr>))"

text \<open>
  A result is an error, or \<open>Inr None\<close> (not ready) or \<open>Inr (Some frame)\<close> (ready).
\<close>

definition reassemble_at ::
    "reassembler \<Rightarrow> control_frame \<Rightarrow> gotime \<Rightarrow> gotime
       \<Rightarrow> (goerr + control_frame option) \<times> reassembler" where
  "reassemble_at r frame now0 wall =
     (if Type frame \<noteq> control_frame_type_fragment then (Inr (Some frame), r)
      else case decode_control_fragment (Payload frame) of
        Inl e \<Rightarrow> (Inl e, r)
      | Inr (header, fragment_payload) \<Rightarrow>
          let now = now_or wall now0; r1 = cleanup_expired r now in
          case ensure_assembly r1 header now of
            Inl e \<Rightarrow> (Inl e, r1)
          | Inr (a, r2) \<Rightarrow>
              (case add_fragment a header fragment_payload now of
                 Inl e \<Rightarrow>
                   (Inl e, r2\<lparr>assemblies := map_del (MessageID header) (assemblies r2)\<rparr>)
               | Inr a' \<Rightarrow>
                   if \<not> assembly_complete a' then
                     (Inr None, r2\<lparr>assemblies := map_put (MessageID header) a' (assemblies r2)\<rparr>)
                   else
                     let r3 = r2\<lparr>assemblies := map_del (MessageID header) (assemblies r2)\<rparr> in
                     case assembly_payload a' of
                       Inl e \<Rightarrow> (Inl e, r3)
                     | Inr p \<Rightarrow> (Inr (Some \<lparr>Type = originalType a', Payload = p\<rparr>), r3)))"

definition reassemble ::
    "reassembler \<Rightarrow> control_frame \<Rightarrow> gotime \<Rightarrow> (goerr + control_frame option) \<times> reassembler" where
  "reassemble r frame wall = reassemble_at r frame wall wall"

text \<open>A read loop: the frames of a channel with the time each one arrives.\<close>

fun feed ::
    "reassembler \<Rightarrow> (control_frame \<times> gotime) list
       \<Rightarrow> (goerr + control_frame option) list \<times> reassembler" where
  "feed r [] = ([], r)"
| "feed r ((frame, t) # evs) =
     (case reassemble r frame t of (res, r1) \<Rightarrow>
        case feed r1 evs of (ress, r2) \<Rightarrow> (res # ress, r2))"


section \<open>Bounds: every state of the reassembler\<close>

text \<open>
  What an assembly promises: it holds no more bytes than its header declared, and it counts
  the bytes it holds.
\<close>

definition slot_bytes :: "byte list option list \<Rightarrow> nat" where
  "slot_bytes fs = sum_list (map (\<lambda>f. case f of None \<Rightarrow> 0 | Some p \<Rightarrow> length p) fs)"

definition assembly_inv :: "fragmentation_config \<Rightarrow> assembly \<Rightarrow> bool" where
  "assembly_inv c a \<longleftrightarrow> receivedBytes a = slot_bytes (fragments a)
     \<and> receivedBytes a \<le> unat (totalPayloadSize a)
     \<and> unat (totalPayloadSize a) \<le> (2 ^ 16 - 1) * max_fragment_payload c"

definition reassembler_inv :: "reassembler \<Rightarrow> bool" where
  "reassembler_inv r \<longleftrightarrow> config_ok (reassembler_config r)
     \<and> keys_distinct (assemblies r)
     \<and> int (length (assemblies r)) \<le> MaxInFlightMessage (reassembler_config r)
     \<and> (\<forall>(k, a) \<in> set (assemblies r). assembly_inv (reassembler_config r) a)"

text \<open>
  The overflow check of \<open>addFragment\<close> compares a sum cut to 32 bits. It is exact when the
  largest message plus the largest frame fit in 32 bits, as the default configuration and
  frames of at most 64 KiB do.
\<close>

definition frame_size_ok :: "fragmentation_config \<Rightarrow> nat \<Rightarrow> bool" where
  "frame_size_ok c limit \<longleftrightarrow> (2 ^ 16 - 1) * max_fragment_payload c + limit < 2 ^ 32"

lemma slot_bytes_replicate [simp]: "slot_bytes (replicate n None) = 0"
  by (simp add: slot_bytes_def)

lemma slot_bytes_update:
  "i < length fs \<Longrightarrow> fs ! i = None \<Longrightarrow>
   slot_bytes (fs[i := copy_bytes p]) = slot_bytes fs + length p"
proof (induction fs arbitrary: i)
  case (Cons f fs)
  then show ?case
    by (cases i) (auto simp: slot_bytes_def copy_bytes_def)
qed simp

lemma join_fragments_length:
  "join_fragments fs = Some p \<Longrightarrow> length p = slot_bytes fs"
  by (induction fs arbitrary: p rule: join_fragments.induct) (auto simp: slot_bytes_def)


lemma decode_payload_length:
  "decode_control_fragment bs = Inr (h, p) \<Longrightarrow> length p \<le> length bs"
  by (auto simp: decode_control_fragment_def Let_def split: if_splits)

lemma add_fragment_inv:
  assumes "add_fragment a h p now = Inr a'" and "assembly_inv c a" and "header_ok h"
    and "frame_size_ok c limit" and "length p \<le> limit"
  shows "assembly_inv c a'"
proof -
  have idx: "length (fragments a) = unat (FragmentCount h) \<Longrightarrow>
      unat (FragmentIndex h) < length (fragments a)"
    using header_okD [OF assms(3)] by simp
  have fits: "receivedBytes a + length p < 2 ^ 32"
    using assms(2,4,5) by (simp add: assembly_inv_def frame_size_ok_def)
  have "receivedBytes a + length p \<le> unat (totalPayloadSize a)"
    if "\<not> (of_nat (receivedBytes a + length p) :: 32 word) > totalPayloadSize a"
    using that unat_of_nat_small [where 'a = 32, of "receivedBytes a + length p"] fits
    by (simp add: not_less word_le_nat_alt del: of_nat_add)
  with assms(1,2) idx show ?thesis
    by (auto simp: add_fragment_def Let_def assembly_inv_def slot_bytes_update
        split: if_splits option.splits)
qed

lemma ensure_assembly_inv:
  assumes "ensure_assembly r h now = Inr (a, r')" and "reassembler_inv r" and "header_ok h"
    and "frame_size_ok (reassembler_config r) limit"
  shows "reassembler_inv r' \<and> assembly_inv (reassembler_config r) a
    \<and> reassembler_config r' = reassembler_config r \<and> has_key (assemblies r') (MessageID h)"
proof (cases "map_of (assemblies r) (MessageID h)")
  case None
  let ?c = "reassembler_config r"
  let ?m = "of_nat (max_fragment_payload ?c) :: 64 word"
  let ?mt = "ucast (FragmentCount h) * ?m"
  have small: "max_fragment_payload ?c < 2 ^ 32"
    using assms(4) by (simp add: frame_size_ok_def)
  have cnt: "unat (FragmentCount h) \<le> 2 ^ 16 - 1"
    using unat_less_2p [of "FragmentCount h"] by simp
  have "unat ?mt \<le> unat (FragmentCount h) * max_fragment_payload ?c"
  proof -
    have "unat ?mt = (unat (ucast (FragmentCount h) :: 64 word) * unat ?m) mod 2 ^ 64"
      by (simp add: unat_word_ariths)
    also have "\<dots> \<le> unat (ucast (FragmentCount h) :: 64 word) * unat ?m"
      by simp
    also have "\<dots> = unat (FragmentCount h) * max_fragment_payload ?c"
      using small by (simp add: unat_ucast_up unat_of_nat_small)
    finally show ?thesis .
  qed
  also have "\<dots> \<le> (2 ^ 16 - 1) * max_fragment_payload ?c"
    using cnt by (rule mult_le_mono1)
  finally have bound: "unat ?mt \<le> (2 ^ 16 - 1) * max_fragment_payload ?c" .
  have tot: "unat (TotalPayloadSize h) \<le> (2 ^ 16 - 1) * max_fragment_payload ?c"
    if "\<not> ucast (TotalPayloadSize h) > ?mt"
  proof -
    from that have "unat (ucast (TotalPayloadSize h) :: 64 word) \<le> unat ?mt"
      by (simp add: not_less word_le_nat_alt)
    with bound show ?thesis by (simp add: unat_ucast_up)
  qed
  have len: "length (map_put (MessageID h) x (assemblies r)) = Suc (length (assemblies r))" for x
    using None by (simp add: length_put)
  from assms(1,2) None tot show ?thesis
    by (auto simp: ensure_assembly_def Let_def reassembler_inv_def assembly_inv_def len
        split: if_splits dest!: set_map_put)
next
  case (Some b)
  with assms show ?thesis
    by (auto simp: ensure_assembly_def reassembler_inv_def dest: map_of_SomeD)
qed

lemma cleanup_expired_config [simp]:
  "reassembler_config (cleanup_expired r now) = reassembler_config r"
  by (simp add: cleanup_expired_def Let_def)

lemma ensure_assembly_config:
  "ensure_assembly r h now = Inr (a, r') \<Longrightarrow> reassembler_config r' = reassembler_config r"
  by (auto simp: ensure_assembly_def Let_def split: option.splits if_splits)

lemma cleanup_expired_length:
  "length (assemblies (cleanup_expired r now)) \<le> length (assemblies r)"
  by (simp add: cleanup_expired_def Let_def)

lemma cleanup_expired_subset:
  "set (assemblies (cleanup_expired r now)) \<subseteq> set (assemblies r)"
  by (auto simp: cleanup_expired_def Let_def)

lemma cleanup_expired_distinct:
  "keys_distinct (assemblies r) \<Longrightarrow> keys_distinct (assemblies (cleanup_expired r now))"
  by (simp add: cleanup_expired_def Let_def)

lemma cleanup_expired_inv:
  assumes "reassembler_inv r"
  shows "reassembler_inv (cleanup_expired r now)"
proof -
  have "int (length (assemblies (cleanup_expired r now))) \<le> int (length (assemblies r))"
    using cleanup_expired_length by simp
  with assms cleanup_expired_subset [of r now] show ?thesis
    unfolding reassembler_inv_def
    by (auto simp: cleanup_expired_distinct simp del: of_nat_le_iff)
qed

lemma reassemble_at_inv:
  assumes "reassembler_inv r" and "frame_size_ok (reassembler_config r) limit"
    and "length (Payload f) \<le> limit"
  shows "reassembler_inv (snd (reassemble_at r f n w))
    \<and> reassembler_config (snd (reassemble_at r f n w)) = reassembler_config r"
proof (cases "Type f = control_frame_type_fragment")
  case True
  let ?r1 = "cleanup_expired r (now_or w n)"
  show ?thesis
  proof (cases "decode_control_fragment (Payload f)")
    case (Inr hp)
    obtain h p where hp: "hp = (h, p)" by (cases hp)
    note dec = Inr [unfolded hp]
    have h: "header_ok h" and p: "length p \<le> limit"
      using decode_control_fragment_ok [OF dec] decode_payload_length [OF dec] assms(3) by auto
    have r1: "reassembler_inv ?r1" using assms(1) by (rule cleanup_expired_inv)
    have c1: "reassembler_config ?r1 = reassembler_config r"
      by (simp add: cleanup_expired_def Let_def)
    show ?thesis
    proof (cases "ensure_assembly ?r1 h (now_or w n)")
      case (Inl e)
      with True dec r1 show ?thesis by (simp add: reassemble_at_def Let_def c1)
    next
      case (Inr ar)
      obtain a r2 where ar: "ar = (a, r2)" by (cases ar)
      note ens = Inr [unfolded ar]
      have e: "reassembler_inv r2" "assembly_inv (reassembler_config r) a"
        "reassembler_config r2 = reassembler_config r" "has_key (assemblies r2) (MessageID h)"
        using ensure_assembly_inv [OF ens r1 h, of limit] assms(2) by (simp_all add: c1)
      have upd: "reassembler_inv (r2\<lparr>assemblies := map_put (MessageID h) a' (assemblies r2)\<rparr>)"
        if "assembly_inv (reassembler_config r) a'" for a'
        using e that by (auto simp: reassembler_inv_def length_put dest!: set_map_put)
      have del: "reassembler_inv (r2\<lparr>assemblies := map_del (MessageID h) (assemblies r2)\<rparr>)"
        using e(1) length_del_le [of "MessageID h" "assemblies r2"]
        by (auto simp: reassembler_inv_def dest: set_map_del)
      show ?thesis
      proof (cases "add_fragment a h p (now_or w n)")
        case (Inl e)
        with True dec ens del e(3) show ?thesis by (simp add: reassemble_at_def Let_def)
      next
        case (Inr a')
        have "assembly_inv (reassembler_config r) a'"
          using add_fragment_inv [OF Inr e(2) h assms(2) p] .
        with True dec ens Inr del upd e(3) show ?thesis
          by (auto simp: reassemble_at_def Let_def split: sum.splits)
      qed
    qed
  qed (use True assms in \<open>simp add: reassemble_at_def\<close>)
qed (use assms in \<open>simp add: reassemble_at_def\<close>)

lemma feed_inv:
  "reassembler_inv r \<Longrightarrow> frame_size_ok (reassembler_config r) limit \<Longrightarrow>
   \<forall>ev \<in> set evs. length (Payload (fst ev)) \<le> limit \<Longrightarrow>
   reassembler_inv (snd (feed r evs)) \<and> reassembler_config (snd (feed r evs)) = reassembler_config r"
proof (induction evs arbitrary: r)
  case (Cons ev evs)
  obtain f t where ev: "ev = (f, t)" by (cases ev)
  have "reassembler_inv (snd (reassemble r f t))
      \<and> reassembler_config (snd (reassemble r f t)) = reassembler_config r"
    unfolding reassemble_def using Cons.prems ev by (intro reassemble_at_inv) auto
  with Cons.IH [of "snd (reassemble r f t)"] Cons.prems ev show ?case
    by (auto simp: reassemble_def split: prod.splits)
qed simp

text \<open>
  Whatever frames a peer sends, in whatever order and at whatever times, the reassembler
  never holds more than \<open>MaxInFlightMessage\<close> unfinished messages, and each holds at most
  the bytes its own header declared, which is at most 65535 full fragments.
\<close>

theorem reassembler_bounded:
  assumes "new_control_frame_reassembler config = Inr r0"
    and "frame_size_ok (reassembler_config r0) limit"
    and "\<forall>ev \<in> set evs. length (Payload (fst ev)) \<le> limit"
    and "feed r0 evs = (results, r)"
  shows "int (length (assemblies r)) \<le> MaxInFlightMessage (reassembler_config r0)
    \<and> (\<forall>(k, a) \<in> set (assemblies r). slot_bytes (fragments a) \<le> unat (totalPayloadSize a)
        \<and> unat (totalPayloadSize a) \<le> 65535 * max_fragment_payload (reassembler_config r0))"
proof -
  have "reassembler_inv r0"
    using assms(1) normalize_fragmentation_config_ok
    by (fastforce simp: new_control_frame_reassembler_def reassembler_inv_def config_ok_def
        split: sum.splits)
  from feed_inv [OF this assms(2,3)] assms(4) show ?thesis
    by (auto simp: reassembler_inv_def assembly_inv_def)
qed

theorem reassembler_bounded_witness:
  "frame_size_ok default_control_fragmentation_config 65536
   \<and> int (length (assemblies (snd (feed \<lparr>reassembler_config = default_control_fragmentation_config,
         assemblies = []\<rparr> [(\<lparr>Type = 257, Payload = [1, 2]\<rparr>, 5)])))) \<le> 256"
proof -
  let ?r = "\<lparr>reassembler_config = default_control_fragmentation_config, assemblies = []\<rparr>"
  let ?evs = "[(\<lparr>Type = 257, Payload = [1, 2]\<rparr> :: control_frame, 5 :: gotime)]"
  have new: "new_control_frame_reassembler default_control_fragmentation_config = Inr ?r"
    by (simp add: new_control_frame_reassembler_def normalize_fragmentation_config_def
        default_control_fragmentation_config_def default_control_fragment_max_payload_size_def
        control_fragment_header_size_def default_control_fragment_reassembly_ttl_def
        default_control_fragment_max_in_flight_def second_def Let_def)
  have size: "frame_size_ok (reassembler_config ?r) 65536"
    by (simp add: frame_size_ok_def max_fragment_payload_def
        default_control_fragmentation_config_def default_control_fragment_max_payload_size_def
        control_fragment_header_size_def)
  have small: "\<forall>ev \<in> set ?evs. length (Payload (fst ev)) \<le> 65536"
    by simp
  obtain results r where run: "feed ?r ?evs = (results, r)" by fastforce
  have "int (length (assemblies r)) \<le> 256"
    using reassembler_bounded [OF new size small run]
    by (simp add: default_control_fragmentation_config_def default_control_fragment_max_in_flight_def)
  with size run show ?thesis by simp
qed

end
