(* ===== verification/Reassembly.thy ===== *)
theory Reassembly
  imports Fragmentation
begin

text \<open>
  The round trip of \<open>ltfp/transport/control_fragmentation.go\<close>: the fragments of a frame,
  delivered in any order and interleaved with any other control traffic, rebuild the frame
  exactly when the last one arrives.
\<close>

text \<open>A frame that \<open>Fragment\<close> really cuts.\<close>

definition cut_frame :: "fragmentation_config \<Rightarrow> control_frame \<Rightarrow> bool" where
  "cut_frame c F \<longleftrightarrow> config_ok c \<and> Type F \<noteq> control_frame_type_fragment
     \<and> MaxPayloadSize c < int (length (Payload F))
     \<and> fragment_count c F \<le> 2 ^ 16 - 1 \<and> length (Payload F) \<le> 2 ^ 32 - 1"

definition slots :: "fragmentation_config \<Rightarrow> control_frame \<Rightarrow> nat set \<Rightarrow> byte list option list" where
  "slots c F S = map (\<lambda>i. if i \<in> S then Some (chunk_of c F i) else None) [0..<fragment_count c F]"

definition assembly_for ::
    "fragmentation_config \<Rightarrow> control_frame \<Rightarrow> nat set \<Rightarrow> gotime \<Rightarrow> assembly" where
  "assembly_for c F S t =
     \<lparr>originalType = Type F, totalPayloadSize = of_nat (length (Payload F)),
      fragments = slots c F S, receivedCount = card S,
      receivedBytes = (\<Sum>i \<in> S. length (chunk_of c F i)), lastUpdatedAt = t\<rparr>"

lemma cut_frame_config [simp]: "cut_frame c F \<Longrightarrow> config_ok c"
  by (simp add: cut_frame_def)

lemma cut_frame_nonempty: "cut_frame c F \<Longrightarrow> 0 < length (Payload F)"
  by (auto simp: cut_frame_def config_ok_def)

lemma sum_chunks:
  assumes "cut_frame c F"
  shows "(\<Sum>i < fragment_count c F. length (chunk_of c F i)) = length (Payload F)"
proof -
  have "length (concat (map (chunk_of c F) [0..<fragment_count c F])) = length (Payload F)"
    using concat_chunks_of [OF cut_frame_config [OF assms]] by simp
  then show ?thesis
    by (simp add: length_concat interv_sum_list_conv_sum_set_nat o_def atLeast0LessThan)
qed

lemma sum_chunks_le:
  assumes "cut_frame c F" and "S \<subseteq> {..<fragment_count c F}"
  shows "(\<Sum>i \<in> S. length (chunk_of c F i)) \<le> length (Payload F)"
  using sum_mono2 [OF finite_lessThan assms(2), of "\<lambda>i. length (chunk_of c F i)"]
    sum_chunks [OF assms(1)] by simp

lemma fragment_count_pos: "cut_frame c F \<Longrightarrow> 0 < fragment_count c F"
  using fragment_count_covers [of c F] cut_frame_nonempty [of c F]
  by (cases "fragment_count c F") auto

lemma max_fragment_payload_small: "cut_frame c F \<Longrightarrow> max_fragment_payload c < 2 ^ 32"
  by (auto simp: cut_frame_def max_fragment_payload_def)

lemma header_of_ok:
  assumes "cut_frame c F" and "i < fragment_count c F"
  shows "header_ok (header_of c F m i)"
proof -
  have n: "fragment_count c F < 2 ^ 16" "i < 2 ^ 16"
    using assms by (auto simp: cut_frame_def)
  have p: "length (Payload F) < 2 ^ 32" using assms(1) by (auto simp: cut_frame_def)
  have "unat (of_nat (length (Payload F)) :: 32 word) \<noteq> 0"
    using p cut_frame_nonempty [OF assms(1)] by (simp add: unat_of_nat_small)
  moreover have "unat (of_nat (fragment_count c F) :: 16 word) \<noteq> 0"
    using n assms(2) by (simp add: unat_of_nat_small)
  moreover have "unat (of_nat i :: 16 word) < unat (of_nat (fragment_count c F) :: 16 word)"
    using n assms(2) by (simp add: unat_of_nat_small)
  ultimately show ?thesis
    using assms(1)
    by (auto simp: header_ok_def header_of_def cut_frame_def word_less_nat_alt unat_eq_0)
qed

lemma decode_fragment_frame:
  "cut_frame c F \<Longrightarrow> i < fragment_count c F \<Longrightarrow>
   decode_control_fragment (Payload (fragment_frame c F m i))
     = Inr (header_of c F m i, chunk_of c F i)"
  by (simp add: fragment_frame_def decode_encode_raw header_of_ok)

lemma slots_insert:
  "i < fragment_count c F \<Longrightarrow> (slots c F S)[i := Some (chunk_of c F i)] = slots c F (insert i S)"
  by (rule nth_equalityI) (auto simp: slots_def nth_list_update)

lemma add_fragment_assembly_for:
  assumes "cut_frame c F" and "i < fragment_count c F" and "i \<notin> S"
    and "S \<subseteq> {..<fragment_count c F}"
  shows "add_fragment (assembly_for c F S t) (header_of c F m i) (chunk_of c F i) now
    = Inr (assembly_for c F (insert i S) now)"
proof -
  let ?b = "(\<Sum>j \<in> S. length (chunk_of c F j)) + length (chunk_of c F i)"
  have n: "fragment_count c F < 2 ^ 16" "i < 2 ^ 16"
    using assms by (auto simp: cut_frame_def)
  have p: "length (Payload F) < 2 ^ 32" using assms(1) by (auto simp: cut_frame_def)
  have fin: "finite S" using assms(4) by (rule finite_subset) simp
  have "(\<Sum>j \<in> insert i S. length (chunk_of c F j)) \<le> length (Payload F)"
    using assms by (intro sum_chunks_le) auto
  then have b: "?b \<le> length (Payload F)"
    using fin assms(3) by (simp add: add.commute)
  have "unat (of_nat ?b :: 32 word) \<le> unat (of_nat (length (Payload F)) :: 32 word)"
    using b p unat_of_nat_small [where 'a = 32, of ?b]
      unat_of_nat_small [where 'a = 32, of "length (Payload F)"] by simp
  then have fits: "\<not> (of_nat ?b :: 32 word) > of_nat (length (Payload F))"
    by (simp add: word_less_nat_alt del: of_nat_add)
  have idx: "unat (of_nat i :: 16 word) = i"
    "unat (of_nat (fragment_count c F) :: 16 word) = fragment_count c F"
    using n by (simp_all add: unat_of_nat_small)
  have slot: "slots c F S ! i = None" using assms(2,3) by (simp add: slots_def)
  show ?thesis
    using fits fin assms(2,3) chunk_nonempty [OF cut_frame_config [OF assms(1)] assms(2)]
    by (simp add: add_fragment_def assembly_for_def header_of_def idx slot Let_def copy_bytes_def
        slots_insert add.commute del: of_nat_add) (simp add: slots_def)
qed

lemma join_fragments_all: "join_fragments (map (\<lambda>i. Some (f i)) xs) = Some (concat (map f xs))"
  by (induction xs) auto

lemma assembly_for_complete:
  assumes "S \<subseteq> {..<fragment_count c F}"
  shows "assembly_complete (assembly_for c F S t) \<longleftrightarrow> S = {..<fragment_count c F}"
proof -
  have "card S = fragment_count c F \<longleftrightarrow> S = {..<fragment_count c F}"
    using assms card_subset_eq [OF finite_lessThan assms] by auto
  then show ?thesis by (simp add: assembly_complete_def assembly_for_def slots_def)
qed

lemma assembly_for_payload:
  assumes "cut_frame c F"
  shows "assembly_payload (assembly_for c F {..<fragment_count c F} t) = Inr (Payload F)"
proof -
  have p: "length (Payload F) < 2 ^ 32" using assms by (auto simp: cut_frame_def)
  have "slots c F {..<fragment_count c F}
      = map (\<lambda>i. Some (chunk_of c F i)) [0..<fragment_count c F]"
    by (simp add: slots_def)
  then have "join_fragments (slots c F {..<fragment_count c F}) = Some (Payload F)"
    by (simp add: join_fragments_all concat_chunks_of [OF cut_frame_config [OF assms]])
  then show ?thesis
    using p sum_chunks [OF assms] assembly_for_complete [OF order_refl, of c F t]
    by (simp add: assembly_payload_def unat_of_nat_small) (simp add: assembly_for_def unat_of_nat_small)
qed


section \<open>What one arrival does\<close>

text \<open>The frames that belong to message \<open>m\<close>, and the state of the reassembler about it.\<close>

definition carries :: "64 word \<Rightarrow> control_frame \<Rightarrow> bool" where
  "carries m f \<longleftrightarrow> Type f = control_frame_type_fragment
     \<and> (case decode_control_fragment (Payload f) of Inr (h, _) \<Rightarrow> MessageID h = m | Inl _ \<Rightarrow> False)"

definition holds ::
    "fragmentation_config \<Rightarrow> control_frame \<Rightarrow> 64 word \<Rightarrow> gotime \<Rightarrow> nat set \<Rightarrow> reassembler \<Rightarrow> bool" where
  "holds c F m since S r \<longleftrightarrow> reassembler_config r = c \<and> keys_distinct (assemblies r)
     \<and> (if S = {} then map_of (assemblies r) m = None
        else \<exists>t \<ge> since. map_of (assemblies r) m = Some (assembly_for c F S t))"

lemma carries_fragment_frame:
  "cut_frame c F \<Longrightarrow> i < fragment_count c F \<Longrightarrow> carries m (fragment_frame c F m i)"
  by (simp add: carries_def decode_fragment_frame) (simp add: fragment_frame_def header_of_def)

lemma cleanup_expired_holds:
  assumes "holds c F m since S r" and "now - ReassemblyTTL c \<le> since"
  shows "holds c F m since S (cleanup_expired r now)"
  using assms
  by (cases "S = {}")
    (auto simp: holds_def cleanup_expired_def Let_def map_of_filter_key assembly_for_def)

lemma ensure_assembly_room:
  assumes "cut_frame c F" and "i < fragment_count c F" and "holds c F m since {} r"
    and "int (length (assemblies r)) < MaxInFlightMessage c"
  shows "ensure_assembly r (header_of c F m i) now
    = Inr (assembly_for c F {} now, r\<lparr>assemblies := map_put m (assembly_for c F {} now) (assemblies r)\<rparr>)"
proof -
  let ?mt = "ucast (FragmentCount (header_of c F m i))
               * (of_nat (max_fragment_payload c) :: 64 word)"
  have n: "fragment_count c F < 2 ^ 16" using assms by (auto simp: cut_frame_def)
  have p: "length (Payload F) < 2 ^ 32" using assms(1) by (auto simp: cut_frame_def)
  have cnt: "unat (of_nat (fragment_count c F) :: 16 word) = fragment_count c F"
    using n by (simp add: unat_of_nat_small)
  have "fragment_count c F * max_fragment_payload c < 2 ^ 16 * 2 ^ 32"
    using n max_fragment_payload_small [OF assms(1)] by (intro mult_strict_mono) auto
  then have mt: "unat ?mt = fragment_count c F * max_fragment_payload c"
    using max_fragment_payload_small [OF assms(1)]
    by (simp add: header_of_def unat_word_ariths unat_ucast_up cnt unat_of_nat_small)
  have "unat (ucast (of_nat (length (Payload F)) :: 32 word) :: 64 word) \<le> unat ?mt"
    unfolding mt using p fragment_count_covers [OF cut_frame_config [OF assms(1)], of F]
    by (simp add: unat_ucast_up unat_of_nat_small)
  then have "\<not> ucast (of_nat (length (Payload F)) :: 32 word) > ?mt"
    by (simp add: word_less_nat_alt)
  then show ?thesis
    using assms(3,4) cnt
    by (simp add: ensure_assembly_def holds_def Let_def)
      (simp add: header_of_def assembly_for_def slots_def map_replicate_const Let_def)
qed

lemma ensure_assembly_present:
  "map_of (assemblies r) (MessageID h) = Some a \<Longrightarrow> ensure_assembly r h now = Inr (a, r)"
  by (simp add: ensure_assembly_def)

lemma ensure_assembly_holds:
  assumes "cut_frame c F" and "i < fragment_count c F" and "holds c F m since S r"
    and "int (length (assemblies r)) < MaxInFlightMessage c"
  shows "\<exists>t r'. ensure_assembly r (header_of c F m i) now = Inr (assembly_for c F S t, r')
    \<and> reassembler_config r' = c \<and> keys_distinct (assemblies r')
    \<and> has_key (assemblies r') m \<and> length (assemblies r') \<le> Suc (length (assemblies r))"
proof (cases "S = {}")
  case True
  with assms show ?thesis
    by (auto simp: ensure_assembly_room length_put) (auto simp: holds_def)
next
  case False
  with assms(3) show ?thesis
    by (auto simp: holds_def header_of_def ensure_assembly_present)
qed

text \<open>One of our fragments, not seen before.\<close>

lemma own_fragment:
  assumes "cut_frame c F" and "i < fragment_count c F" and "i \<notin> S"
    and "S \<subseteq> {..<fragment_count c F}"
    and "holds c F m since S r" and "int (length (assemblies r)) < MaxInFlightMessage c"
    and "since \<le> now" and "now - ReassemblyTTL c \<le> since"
    and run: "reassemble r (fragment_frame c F m i) now = (res, r')"
  shows "length (assemblies r') \<le> Suc (length (assemblies r))
    \<and> (if insert i S = {..<fragment_count c F}
       then res = Inr (Some F) \<and> holds c F m since {} r'
       else res = Inr None \<and> holds c F m since (insert i S) r')"
proof -
  let ?r1 = "cleanup_expired r now"
  let ?a' = "assembly_for c F (insert i S) now"
  have h1: "holds c F m since S ?r1"
    using assms(5,8) by (rule cleanup_expired_holds)
  have l1: "length (assemblies ?r1) \<le> length (assemblies r)"
    by (rule cleanup_expired_length)
  with assms(6) have "int (length (assemblies ?r1)) < MaxInFlightMessage c" by simp
  with ensure_assembly_holds [OF assms(1,2) h1] obtain t r2 where
    ens: "ensure_assembly ?r1 (header_of c F m i) now = Inr (assembly_for c F S t, r2)"
    and r2: "reassembler_config r2 = c" "keys_distinct (assemblies r2)" "has_key (assemblies r2) m"
      "length (assemblies r2) \<le> Suc (length (assemblies ?r1))"
    by blast
  have add: "add_fragment (assembly_for c F S t) (header_of c F m i) (chunk_of c F i) now = Inr ?a'"
    using assms(1-4) by (rule add_fragment_assembly_for)
  have ins: "insert i S \<subseteq> {..<fragment_count c F}" using assms(2,4) by auto
  have ty: "Type (fragment_frame c F m i) = control_frame_type_fragment"
    and id: "MessageID (header_of c F m i) = m"
    by (simp_all add: fragment_frame_def header_of_def)
  note step = run [unfolded reassemble_def reassemble_at_def, simplified ty
      decode_fragment_frame [OF assms(1,2)] now_or_def if_cancel Let_def ens add id, simplified]
  have dl: "length (map_del m (assemblies r2)) \<le> Suc (length (assemblies r))"
    using length_del_le [of m "assemblies r2"] r2(4) l1 by simp
  show ?thesis
  proof (cases "insert i S = {..<fragment_count c F}")
    case True
    then have "assembly_complete ?a'" and "assembly_payload ?a' = Inr (Payload F)"
      using assembly_for_complete [OF ins, of now] assembly_for_payload [OF assms(1), of now] by simp_all
    with step have "res = Inr (Some \<lparr>Type = originalType ?a', Payload = Payload F\<rparr>)"
      and "r' = r2\<lparr>assemblies := map_del m (assemblies r2)\<rparr>"
      by (simp_all add: decode_fragment_frame [OF assms(1,2)] ens add id)
    then show ?thesis using True r2 dl by (simp add: holds_def assembly_for_def)
  next
    case False
    then have "\<not> assembly_complete ?a'"
      using assembly_for_complete [OF ins, of now] by simp
    with step have "res = Inr None"
      and "r' = r2\<lparr>assemblies := map_put m ?a' (assemblies r2)\<rparr>"
      by (simp_all add: decode_fragment_frame [OF assms(1,2)] ens add id)
    then show ?thesis using False r2 l1 assms(7) by (auto simp: holds_def length_put)
  qed
qed

text \<open>Any other frame leaves what is held for message \<open>m\<close> alone.\<close>

lemma ensure_assembly_frame:
  assumes "ensure_assembly r h now = Inr (a, r')"
  shows "length (assemblies r') \<le> Suc (length (assemblies r))
    \<and> (keys_distinct (assemblies r) \<longrightarrow> keys_distinct (assemblies r'))
    \<and> (m \<noteq> MessageID h \<longrightarrow> map_of (assemblies r') m = map_of (assemblies r) m)
    \<and> has_key (assemblies r') (MessageID h)"
  using assms
  by (auto simp: ensure_assembly_def Let_def length_put split: option.splits if_splits)

lemma holds_frame:
  "holds c F m since S r \<Longrightarrow> reassembler_config r' = reassembler_config r \<Longrightarrow>
   keys_distinct (assemblies r') \<Longrightarrow> map_of (assemblies r') m = map_of (assemblies r) m \<Longrightarrow>
   holds c F m since S r'"
  by (simp add: holds_def del: map_of_eq_Some_iff)

lemma foreign_frame:
  assumes "holds c F m since S r" and "now - ReassemblyTTL c \<le> since" and "\<not> carries m f"
    and run: "reassemble r f now = (res, r')"
  shows "length (assemblies r') \<le> Suc (length (assemblies r)) \<and> holds c F m since S r'"
proof (cases "Type f = control_frame_type_fragment \<and> (\<exists>hp. decode_control_fragment (Payload f) = Inr hp)")
  case False
  with run assms(1) show ?thesis
    by (auto simp: reassemble_def reassemble_at_def split: if_splits sum.splits)
next
  case True
  then obtain h p where ty: "Type f = control_frame_type_fragment"
    and dec: "decode_control_fragment (Payload f) = Inr (h, p)" by auto
  with assms(3) have ne: "m \<noteq> MessageID h" by (auto simp: carries_def)
  let ?r1 = "cleanup_expired r now"
  have h1: "holds c F m since S ?r1" using assms(1,2) by (rule cleanup_expired_holds)
  have l1: "length (assemblies ?r1) \<le> length (assemblies r)" by (rule cleanup_expired_length)
  show ?thesis
  proof (cases "ensure_assembly ?r1 h now")
    case (Inl e)
    with run ty dec h1 l1 show ?thesis
      by (auto simp: reassemble_def reassemble_at_def Let_def now_or_def)
  next
    case (Inr ar)
    obtain a r2 where ens: "ensure_assembly ?r1 h now = Inr (a, r2)"
      using Inr by (cases ar) auto
    note e = ensure_assembly_frame [OF ens, of m] ensure_assembly_config [OF ens]
    have kd: "keys_distinct (assemblies r2)" using e(1) h1 by (simp add: holds_def)
    have put: "holds c F m since S (r2\<lparr>assemblies := map_put (MessageID h) a' (assemblies r2)\<rparr>)
        \<and> length (map_put (MessageID h) a' (assemblies r2)) \<le> Suc (length (assemblies r))" for a'
      using e kd ne l1 by (auto simp: length_put intro!: holds_frame [OF h1])
    have del: "holds c F m since S (r2\<lparr>assemblies := map_del (MessageID h) (assemblies r2)\<rparr>)
        \<and> length (map_del (MessageID h) (assemblies r2)) \<le> Suc (length (assemblies r))"
      using e kd ne l1 length_del_le [of "MessageID h" "assemblies r2"]
      by (auto intro!: holds_frame [OF h1])
    show ?thesis
      using run ty dec ens put del
      by (auto simp: reassemble_def reassemble_at_def Let_def now_or_def
          split: sum.splits if_splits)
  qed
qed


section \<open>The round trip\<close>

lemma mset_eq_image_mset:
  "mset xs = image_mset f (mset ys) \<Longrightarrow> \<exists>js. mset js = mset ys \<and> xs = map f js"
proof (induction xs arbitrary: ys)
  case (Cons x xs)
  have "x \<in># mset (x # xs)" by simp
  then have "x \<in># image_mset f (mset ys)" unfolding Cons.prems .
  then obtain y where y: "y \<in> set ys" "x = f y" by auto
  then have ys: "mset ys = add_mset y (mset (remove1 y ys))" by simp
  have "add_mset x (mset xs) = add_mset (f y) (image_mset f (mset (remove1 y ys)))"
    using Cons.prems unfolding ys by simp
  with y have "mset xs = image_mset f (mset (remove1 y ys))" by (simp del: mset_remove1)
  then obtain js where js: "mset js = mset (remove1 y ys)" "xs = map f js"
    using Cons.IH by blast
  have "mset (y # js) = mset ys" unfolding ys using js(1) by (simp only: mset.simps)
  then show ?case using y js(2) by (intro exI [of _ "y # js"]) simp
qed simp

text \<open>The results at the positions of a stream that carry message \<open>m\<close>.\<close>

definition results_for ::
    "64 word \<Rightarrow> (control_frame \<times> gotime) list \<Rightarrow> (goerr + control_frame option) list
       \<Rightarrow> (goerr + control_frame option) list" where
  "results_for m evs ress = map snd (filter (\<lambda>(ev, _). carries m (fst ev)) (zip evs ress))"

definition waits_then :: "nat \<Rightarrow> control_frame \<Rightarrow> (goerr + control_frame option) list" where
  "waits_then n F = (if n = 0 then [] else replicate (n - 1) (Inr None) @ [Inr (Some F)])"

lemma waits_then_Suc:
  "waits_then (Suc n) F = (if n = 0 then Inr (Some F) else Inr None) # waits_then n F"
  by (cases n) (simp_all add: waits_then_def)

lemma feed_fragments:
  assumes "cut_frame c F"
    and "holds c F m since S r" and "S \<subset> {..<fragment_count c F} \<or> S = {}"
    and "js = [] \<longrightarrow> S = {}"
    and "js \<noteq> [] \<longrightarrow> distinct js \<and> set js = {..<fragment_count c F} - S"
    and "filter (carries m) (map fst evs) = map (fragment_frame c F m) js"
    and "\<forall>(f, t) \<in> set evs. since \<le> t \<and> t - ReassemblyTTL c \<le> since"
    and "int (length (assemblies r) + length evs) \<le> MaxInFlightMessage c"
  shows "results_for m evs (fst (feed r evs)) = waits_then (length js) F"
  using assms(2-)
proof (induction evs arbitrary: r S js)
  case Nil
  then show ?case by (simp add: results_for_def waits_then_def)
next
  case (Cons ev evs)
  obtain f t where ev: "ev = (f, t)" by (cases ev)
  obtain res r' where run: "reassemble r f t = (res, r')" by fastforce
  have out: "results_for m (ev # evs) (fst (feed r (ev # evs)))
      = (if carries m f then [res] else []) @ results_for m evs (fst (feed r' evs))"
    by (simp add: ev run results_for_def split: prod.split)
  have time: "since \<le> t" "t - ReassemblyTTL c \<le> since" using Cons.prems(6) ev by auto
  have room: "int (length (assemblies r)) < MaxInFlightMessage c" using Cons.prems(7) by simp
  show ?case
  proof (cases "carries m f")
    case True
    with Cons.prems(5) ev obtain i js' where js: "js = i # js'" and f: "f = fragment_frame c F m i"
      and rest: "filter (carries m) (map fst evs) = map (fragment_frame c F m) js'"
      by (cases js) auto
    from Cons.prems(4) js have i: "i < fragment_count c F" "i \<notin> S" "distinct js'" "i \<notin> set js'"
      and sj: "set js' = {..<fragment_count c F} - insert i S" by auto
    have sub: "S \<subseteq> {..<fragment_count c F}" using Cons.prems(2) by auto
    note own = own_fragment [OF assms(1) i(1,2) sub Cons.prems(1) room time run [unfolded f]]
    have last: "insert i S = {..<fragment_count c F} \<longleftrightarrow> js' = []"
      using sj sub i(1) by auto
    have len: "int (length (assemblies r') + length evs) \<le> MaxInFlightMessage c"
      using own Cons.prems(7) by simp
    define S' where "S' = (if js' = [] then {} else insert i S)"
    have "results_for m evs (fst (feed r' evs)) = waits_then (length js') F"
    proof (rule Cons.IH [where S = S'])
      show "holds c F m since S' r'" using own last by (auto simp: S'_def)
      show "S' \<subset> {..<fragment_count c F} \<or> S' = {}"
        using last sub i(1) by (auto simp: S'_def)
    qed (use Cons.prems(6) rest len i(3) sj in \<open>auto simp: S'_def\<close>)
    moreover have "res = (if js' = [] then Inr (Some F) else Inr None)"
      using own last by auto
    ultimately show ?thesis
      using True by (simp add: out js waits_then_Suc)
  next
    case False
    note fr = foreign_frame [OF Cons.prems(1) time(2) False run]
    have "results_for m evs (fst (feed r' evs)) = waits_then (length js) F"
      by (rule Cons.IH [where S = S]) (use Cons.prems fr False ev in auto)
    then show ?thesis using False by (simp add: out)
  qed
qed

text \<open>
  C8. A frame cut by \<open>Fragment\<close> survives the control channel: whatever order its fragments
  arrive in and whatever frames of other messages arrive between them, every fragment but the last to
  arrive yields "not ready" and the last one yields exactly the original frame, provided the
  stream lies within one \<open>ReassemblyTTL\<close>, the reassembler has room for as many messages
  as the stream has frames beside those it holds, and neither it nor the stream has other fragments
  of the same message id.
\<close>

theorem reassemble_any_order:
  assumes "config_ok (fragmenter_config fg)"
    and "MaxPayloadSize (fragmenter_config fg) < int (length (Payload F))"
    and "fragment fg F = (Inr frames, fg')"
    and "reassembler_config r = fragmenter_config fg" and "keys_distinct (assemblies r)"
    and "map_of (assemblies r) (next_message_id fg') = None"
    and "mset (filter (carries (next_message_id fg')) (map fst evs)) = mset frames"
    and "\<forall>(f, t) \<in> set evs. since \<le> t \<and> t \<le> since + ReassemblyTTL (fragmenter_config fg)"
    and "int (length (assemblies r) + length evs) \<le> MaxInFlightMessage (fragmenter_config fg)"
  shows "results_for (next_message_id fg') evs (fst (feed r evs))
    = replicate (length frames - 1) (Inr None) @ [Inr (Some F)]"
proof -
  let ?c = "fragmenter_config fg" and ?m = "next_message_id fg'"
  let ?n = "fragment_count ?c F"
  have cut: "cut_frame ?c F"
    and frames: "frames = map (fragment_frame ?c F ?m) [0..<?n]"
    using assms(1-3) by (auto simp: fragment_def Let_def cut_frame_def split: if_splits)
  have "mset (filter (carries ?m) (map fst evs)) = image_mset (fragment_frame ?c F ?m) (mset [0..<?n])"
    using assms(7) frames by simp
  from mset_eq_image_mset [OF this] obtain js where js: "mset js = mset [0..<?n]"
    and arrive: "filter (carries ?m) (map fst evs) = map (fragment_frame ?c F ?m) js"
    by (elim exE conjE)
  have dj: "distinct js" using mset_eq_imp_distinct_iff [OF js] by simp
  have sj: "set js = {..<?n}" using mset_eq_setD [OF js] by (simp add: atLeast0LessThan)
  have ne: "js \<noteq> []"
  proof
    assume "js = []"
    with sj have "{..<?n} = {}" by simp
    with fragment_count_pos [OF cut] show False by (simp add: lessThan_empty_iff)
  qed
  have "results_for ?m evs (fst (feed r evs)) = waits_then (length js) F"
  proof (rule feed_fragments [OF cut, where S = "{}" and since = since])
    show "holds ?c F ?m since {} r" using assms(4-6) by (simp add: holds_def)
    show "\<forall>(f, t) \<in> set evs. since \<le> t \<and> t - ReassemblyTTL ?c \<le> since"
      using assms(8) by auto
  qed (use assms(9) arrive dj sj ne in simp_all)
  moreover have "length js = length frames"
    using js frames by (metis length_map mset_eq_length)
  ultimately show ?thesis
    using frames fragment_count_pos [OF cut] by (simp add: waits_then_def)
qed

text \<open>
  Two fragments that arrive in reverse order with another frame in between: the first
  yields "not ready", the second the original frame.
\<close>

definition sample_config :: fragmentation_config where
  "sample_config = \<lparr>MaxPayloadSize = 100, ReassemblyTTL = 10, MaxInFlightMessage = 8\<rparr>"

definition sample_frame :: control_frame where
  "sample_frame = \<lparr>Type = 0x0101, Payload = replicate 101 7\<rparr>"

definition sample_stream :: "(control_frame \<times> gotime) list" where
  "sample_stream =
     [(fragment_frame sample_config sample_frame 1 1, 100),
      (\<lparr>Type = 0xFFF0, Payload = []\<rparr>, 101),
      (fragment_frame sample_config sample_frame 1 0, 102)]"

lemma sample_count: "fragment_count sample_config sample_frame = 2"
  by (simp add: fragment_count_def sample_config_def sample_frame_def max_fragment_payload_def
      control_fragment_header_size_def)

lemma sample_upt: "[0..<2] = [0, 1 :: nat]"
  by (simp add: upt_rec)

lemma sample_cut: "cut_frame sample_config sample_frame"
  by (simp add: cut_frame_def sample_count)
    (simp add: sample_config_def sample_frame_def config_ok_def control_fragment_header_size_def
      control_frame_type_fragment_def)

theorem reassemble_any_order_witness:
  "results_for 1 sample_stream
     (fst (feed \<lparr>reassembler_config = sample_config, assemblies = []\<rparr> sample_stream))
   = [Inr None, Inr (Some sample_frame)]"
proof -
  let ?fg = "\<lparr>fragmenter_config = sample_config, next_message_id = 0\<rparr>"
  let ?ff = "fragment_frame sample_config sample_frame 1"
  have frames: "fragment ?fg sample_frame = (Inr [?ff 0, ?ff 1], ?fg\<lparr>next_message_id := 1\<rparr>)"
    using sample_cut
    by (simp add: fragment_def Let_def sample_count cut_frame_def not_le sample_upt)
  have mine: "carries 1 (?ff 0)" "carries 1 (?ff 1)"
    by (rule carries_fragment_frame [OF sample_cut], simp add: sample_count)+
  have other: "\<not> carries 1 \<lparr>Type = 0xFFF0, Payload = []\<rparr>"
    by (simp add: carries_def control_frame_type_fragment_def)
  show ?thesis
    using reassemble_any_order [OF _ _ frames, of "\<lparr>reassembler_config = sample_config, assemblies = []\<rparr>"
        sample_stream 100] sample_cut mine other
    by (simp add: cut_frame_def sample_stream_def) (simp add: sample_config_def)
qed


section \<open>Duplicates\<close>

text \<open>
  A repeated fragment with content is idempotent: receiving it a second time changes
  nothing but the time of the last update.
\<close>

theorem duplicate_fragment_idempotent:
  assumes "add_fragment a h p now = Inr a'" and "header_ok h" and "p \<noteq> []"
  shows "add_fragment a' h p later = Inr (a'\<lparr>lastUpdatedAt := later\<rparr>)"
  using assms header_okD [OF assms(2)]
  by (auto simp: add_fragment_def Let_def copy_bytes_def split: if_splits option.splits)

theorem duplicate_fragment_idempotent_witness:
  "\<exists>a'. add_fragment (assembly_for sample_config sample_frame {} 0)
          (header_of sample_config sample_frame 1 0) (chunk_of sample_config sample_frame 0) 5 = Inr a'
    \<and> add_fragment a' (header_of sample_config sample_frame 1 0)
          (chunk_of sample_config sample_frame 0) 6 = Inr (a'\<lparr>lastUpdatedAt := 6\<rparr>)"
proof -
  let ?h = "header_of sample_config sample_frame 1 0" and ?p = "chunk_of sample_config sample_frame 0"
  have add: "add_fragment (assembly_for sample_config sample_frame {} 0) ?h ?p 5
      = Inr (assembly_for sample_config sample_frame {0} 5)"
    by (rule add_fragment_assembly_for [OF sample_cut]) (simp_all add: sample_count)
  have h: "header_ok ?h" by (rule header_of_ok [OF sample_cut]) (simp add: sample_count)
  have p: "?p \<noteq> []"
    by (rule chunk_nonempty [OF cut_frame_config [OF sample_cut]]) (simp add: sample_count)
  from add duplicate_fragment_idempotent [OF add h p] show ?thesis by blast
qed

text \<open>
  An empty fragment is not: Go keeps it as a nil slice, which reads as "not received",
  so each repetition is counted again while no slot is ever filled. Two copies of one empty
  fragment make a two fragment message look complete.
\<close>

theorem empty_fragment_counted_again:
  assumes "header_ok h" and "fragments a ! unat (FragmentIndex h) = None"
    and "add_fragment a h [] now = Inr a'"
  shows "\<exists>a''. add_fragment a' h [] later = Inr a'' \<and> fragments a'' = fragments a
    \<and> receivedCount a'' = receivedCount a + 2"
  using assms header_okD [OF assms(1)]
  by (auto simp: add_fragment_def Let_def copy_bytes_def list_update_same_conv
      split: if_splits option.splits)

theorem empty_fragment_counted_again_witness:
  "\<exists>a' a''. add_fragment (assembly_for sample_config sample_frame {} 0)
       (header_of sample_config sample_frame 1 0) [] 5 = Inr a'
    \<and> add_fragment a' (header_of sample_config sample_frame 1 0) [] 6 = Inr a''
    \<and> assembly_complete a'' \<and> assembly_payload a'' = Inl ErrInvalidArgument"
proof -
  let ?h = "header_of sample_config sample_frame 1 0"
  let ?a = "assembly_for sample_config sample_frame {} 0"
  have h: "header_ok ?h" by (rule header_of_ok [OF sample_cut]) (simp add: sample_count)
  have none: "fragments ?a ! unat (FragmentIndex ?h) = None"
    by (simp add: assembly_for_def slots_def header_of_def sample_count)
  obtain a' where a': "add_fragment ?a ?h [] 5 = Inr a'"
    using none
    by (simp add: add_fragment_def assembly_for_def header_of_def slots_def sample_count Let_def)
  then obtain a'' where a'': "add_fragment a' ?h [] 6 = Inr a''" "fragments a'' = fragments ?a"
      "receivedCount a'' = receivedCount ?a + 2"
    using empty_fragment_counted_again [OF h none a'] by blast
  moreover have "assembly_complete a''"
    using a'' by (simp add: assembly_complete_def assembly_for_def slots_def sample_count)
  moreover have "join_fragments (fragments a'') = None"
    using a'' by (simp add: assembly_for_def slots_def sample_count sample_upt)
  ultimately show ?thesis
    using a' by (auto simp: assembly_payload_def)
qed

end
