(* ===== verification/Protocol_Types.thy ===== *)
theory Protocol_Types
  imports Prelude
begin

text \<open>
  The shared protocol vocabulary of \<open>ltfp\<close>: error chains and error codes
  (\<open>ltfp/errors\<close>), message types, session states and event states
  (\<open>ltfp/pb/message_types.go\<close>), and the validation of the idempotency fields and of the
  schema version (\<open>ltfp/validate\<close>).
\<close>

section \<open>Decimal text\<close>

text \<open>\<open>%d\<close> of \<open>fmt.Sprintf\<close> on an unsigned value.\<close>

fun show_nat :: "nat \<Rightarrow> string" where
  "show_nat n = (if n < 10 then [char_of (48 + n)] else show_nat (n div 10) @ [char_of (48 + n mod 10)])"

declare show_nat.simps [simp del]


section \<open>Protocol errors\<close>

text \<open>
  An error chain as \<open>errors.As\<close> and \<open>errors.Is\<close> walk it: a protocol error with its
  cause, the deadline error of \<open>context\<close>, a wrapping by \<open>fmt.Errorf("text%w")\<close>, or any
  other error.
\<close>

datatype chain_err =
    ProtocolError (Code: string) (Message: string) (Cause: "chain_err option")
  | DeadlineError
  | WrappedError string chain_err
  | PlainError string

definition new_error :: "string \<Rightarrow> string \<Rightarrow> chain_err" where
  "new_error code message = ProtocolError code message None"

definition wrap_error :: "string \<Rightarrow> string \<Rightarrow> chain_err \<Rightarrow> chain_err" where
  "wrap_error code message cause = ProtocolError code message (Some cause)"

fun error_text :: "chain_err \<Rightarrow> string" where
  "error_text (ProtocolError code message None) = code @ '': '' @ message"
| "error_text (ProtocolError code message (Some cause)) =
     code @ '': '' @ message @ '': '' @ error_text cause"
| "error_text DeadlineError = ''context deadline exceeded''"
| "error_text (WrappedError prefix_text e) = prefix_text @ error_text e"
| "error_text (PlainError s) = s"

text \<open>\<open>errors.As(err, &protocolErr)\<close>: the outermost protocol error of the chain.\<close>

fun as_protocol_error :: "chain_err \<Rightarrow> (string \<times> string) option" where
  "as_protocol_error (ProtocolError code message cause) = Some (code, message)"
| "as_protocol_error (WrappedError s e) = as_protocol_error e"
| "as_protocol_error _ = None"

text \<open>\<open>errors.Is(err, context.DeadlineExceeded)\<close>.\<close>

fun is_deadline :: "chain_err \<Rightarrow> bool" where
  "is_deadline (ProtocolError code message None) = False"
| "is_deadline (ProtocolError code message (Some cause)) = is_deadline cause"
| "is_deadline DeadlineError = True"
| "is_deadline (WrappedError s e) = is_deadline e"
| "is_deadline (PlainError s) = False"

definition is_code :: "chain_err option \<Rightarrow> string \<Rightarrow> bool" where
  "is_code e code =
     (case e of None \<Rightarrow> False
      | Some e' \<Rightarrow> (case as_protocol_error e' of None \<Rightarrow> False | Some (c, m) \<Rightarrow> c = code))"

definition extract_code :: "chain_err option \<Rightarrow> string" where
  "extract_code e =
     (case e of None \<Rightarrow> []
      | Some e' \<Rightarrow> (case as_protocol_error e' of None \<Rightarrow> [] | Some (c, m) \<Rightarrow> c))"

subsection \<open>Codes\<close>

definition code_invalid_payload :: string where "code_invalid_payload = ''INVALID_PAYLOAD''"
definition code_missing_required_field :: string where
  "code_missing_required_field = ''MISSING_REQUIRED_FIELD''"
definition code_unsupported_value :: string where "code_unsupported_value = ''UNSUPPORTED_VALUE''"
definition code_invalid_session_epoch :: string where
  "code_invalid_session_epoch = ''INVALID_SESSION_EPOCH''"
definition code_invalid_event_id :: string where "code_invalid_event_id = ''INVALID_EVENT_ID''"
definition code_invalid_resource_version :: string where
  "code_invalid_resource_version = ''INVALID_RESOURCE_VERSION''"
definition code_unknown_message_type :: string where
  "code_unknown_message_type = ''UNKNOWN_MESSAGE_TYPE''"
definition code_version_rollback :: string where "code_version_rollback = ''VERSION_ROLLBACK''"
definition code_invalid_state_transition :: string where
  "code_invalid_state_transition = ''INVALID_STATE_TRANSITION''"
definition code_negotiation_unsupported_version :: string where
  "code_negotiation_unsupported_version = ''NEGOTIATION_UNSUPPORTED_VERSION''"

definition code_tunnel_recycle_invalid_seq :: string where
  "code_tunnel_recycle_invalid_seq = ''invalid_seq''"
definition code_tunnel_recycle_close_ack_required :: string where
  "code_tunnel_recycle_close_ack_required = ''close_ack_required''"
definition code_tunnel_recycle_tunnel_unhealthy :: string where
  "code_tunnel_recycle_tunnel_unhealthy = ''tunnel_unhealthy''"
definition code_tunnel_recycle_buffer_dirty :: string where
  "code_tunnel_recycle_buffer_dirty = ''buffer_dirty''"
definition code_tunnel_recycle_tunnel_mismatch :: string where
  "code_tunnel_recycle_tunnel_mismatch = ''tunnel_mismatch''"
definition code_tunnel_recycle_deadline_hit :: string where
  "code_tunnel_recycle_deadline_hit = ''deadline_hit''"

lemmas recycle_code_defs = code_tunnel_recycle_invalid_seq_def
  code_tunnel_recycle_close_ack_required_def code_tunnel_recycle_tunnel_unhealthy_def
  code_tunnel_recycle_buffer_dirty_def code_tunnel_recycle_tunnel_mismatch_def
  code_tunnel_recycle_deadline_hit_def

subsection \<open>Recycle codes\<close>

definition recycle_codes :: "string list" where
  "recycle_codes =
     [code_tunnel_recycle_invalid_seq, code_tunnel_recycle_close_ack_required,
      code_tunnel_recycle_tunnel_unhealthy, code_tunnel_recycle_buffer_dirty,
      code_tunnel_recycle_tunnel_mismatch, code_tunnel_recycle_deadline_hit]"

definition is_known_tunnel_recycle_code :: "string \<Rightarrow> bool" where
  "is_known_tunnel_recycle_code error_code = (trim_space error_code \<in> set recycle_codes)"

text \<open>Every case of the source's switch returns the trimmed code itself.\<close>

definition normalize_tunnel_recycle_code :: "string \<Rightarrow> string" where
  "normalize_tunnel_recycle_code error_code =
     (let normalized_code = trim_space error_code
      in case find (\<lambda>c. c = normalized_code) recycle_codes of
           Some c \<Rightarrow> c
         | None \<Rightarrow> normalized_code)"

definition normalize_tunnel_recycle_code_or_default :: "string \<Rightarrow> string \<Rightarrow> string" where
  "normalize_tunnel_recycle_code_or_default error_code fallback_code =
     (let normalized_code = normalize_tunnel_recycle_code error_code
      in if is_known_tunnel_recycle_code normalized_code then normalized_code
         else
           let normalized_fallback_code = normalize_tunnel_recycle_code fallback_code
           in if is_known_tunnel_recycle_code normalized_fallback_code
              then normalized_fallback_code
              else code_tunnel_recycle_tunnel_unhealthy)"

definition new_tunnel_recycle_error :: "string \<Rightarrow> string \<Rightarrow> chain_err" where
  "new_tunnel_recycle_error code message =
     new_error (normalize_tunnel_recycle_code_or_default code code_tunnel_recycle_tunnel_unhealthy)
       (trim_space message)"

definition extract_tunnel_recycle_code :: "chain_err option \<Rightarrow> string" where
  "extract_tunnel_recycle_code e =
     (let extracted_code = normalize_tunnel_recycle_code (extract_code e)
      in if is_known_tunnel_recycle_code extracted_code then extracted_code
         else if (case e of None \<Rightarrow> False | Some e' \<Rightarrow> is_deadline e')
         then code_tunnel_recycle_deadline_hit
         else [])"

definition wrap_tunnel_recycle_error ::
    "string \<Rightarrow> string \<Rightarrow> chain_err option \<Rightarrow> chain_err" where
  "wrap_tunnel_recycle_error code message cause =
     (let recycle_code0 = extract_tunnel_recycle_code cause;
          recycle_code = (if \<not> is_known_tunnel_recycle_code recycle_code0
                          then normalize_tunnel_recycle_code_or_default code
                                 code_tunnel_recycle_tunnel_unhealthy
                          else recycle_code0)
      in ProtocolError recycle_code (trim_space message) cause)"

definition is_tunnel_recycle_code :: "chain_err option \<Rightarrow> string \<Rightarrow> bool" where
  "is_tunnel_recycle_code e code =
     (let normalized_code = normalize_tunnel_recycle_code code
      in if \<not> is_known_tunnel_recycle_code normalized_code then False
         else is_code e normalized_code)"

definition extract_tunnel_recycle_message :: "chain_err option \<Rightarrow> string" where
  "extract_tunnel_recycle_message e =
     (case e of
        None \<Rightarrow> []
      | Some e' \<Rightarrow>
          (case as_protocol_error e' of
             Some (c, m) \<Rightarrow> if is_known_tunnel_recycle_code c then trim_space m
                            else trim_space (error_text e')
           | None \<Rightarrow> trim_space (error_text e')))"

lemma normalize_tunnel_recycle_code_trim:
  "normalize_tunnel_recycle_code c = trim_space c"
  by (auto simp: normalize_tunnel_recycle_code_def Let_def find_Some_iff split: option.splits)

lemma recycle_codes_trimmed: "c \<in> set recycle_codes \<Longrightarrow> trim_space c = c"
  by (auto simp: recycle_codes_def recycle_code_defs graphic_def intro!: trim_space_graphic)

lemma normalize_or_default_known:
  "normalize_tunnel_recycle_code_or_default c d \<in> set recycle_codes"
proof -
  have "trim_space code_tunnel_recycle_tunnel_unhealthy = code_tunnel_recycle_tunnel_unhealthy"
    by (rule recycle_codes_trimmed) (simp add: recycle_codes_def)
  then show ?thesis
    by (simp add: normalize_tunnel_recycle_code_or_default_def Let_def
        normalize_tunnel_recycle_code_trim is_known_tunnel_recycle_code_def)
      (simp add: recycle_codes_def)
qed

text \<open>
  The rejection of a recycle always carries one of the six codes of the protocol,
  whatever code and cause it is built from, and a recycle code that the cause already
  carries (also a plain deadline, read as \<open>deadline_hit\<close>) survives the wrapping, so both
  ends read the same reason.
\<close>

theorem wrapped_recycle_error_code:
  "extract_code (Some (wrap_tunnel_recycle_error code message cause)) \<in> set recycle_codes
   \<and> extract_tunnel_recycle_code (Some (wrap_tunnel_recycle_error code message cause))
       = (if extract_tunnel_recycle_code cause \<noteq> [] then extract_tunnel_recycle_code cause
          else normalize_tunnel_recycle_code_or_default code code_tunnel_recycle_tunnel_unhealthy)"
proof -
  have wf: "extract_tunnel_recycle_code cause = []
      \<or> extract_tunnel_recycle_code cause \<in> set recycle_codes"
    by (simp add: extract_tunnel_recycle_code_def Let_def is_known_tunnel_recycle_code_def
        normalize_tunnel_recycle_code_trim) (simp add: recycle_codes_def)
  have nil: "[] \<notin> set recycle_codes" by (simp add: recycle_codes_def recycle_code_defs)
  have ext: "extract_tunnel_recycle_code (Some (ProtocolError c m x)) = c"
    if "c \<in> set recycle_codes" for c m x
    using that recycle_codes_trimmed [OF that]
    by (simp add: extract_tunnel_recycle_code_def extract_code_def Let_def
        is_known_tunnel_recycle_code_def normalize_tunnel_recycle_code_trim)
  show ?thesis
    using wf
  proof
    assume none: "extract_tunnel_recycle_code cause = []"
    then show ?thesis
      using normalize_or_default_known nil
      by (simp add: wrap_tunnel_recycle_error_def Let_def is_known_tunnel_recycle_code_def ext
          extract_code_def)
  next
    assume known: "extract_tunnel_recycle_code cause \<in> set recycle_codes"
    then show ?thesis
      using nil recycle_codes_trimmed [OF known]
      by (auto simp: wrap_tunnel_recycle_error_def Let_def is_known_tunnel_recycle_code_def ext
          extract_code_def)
  qed
qed

end
