(* ===== verification/Control_Message.thy ===== *)
theory Control_Message
  imports Transport_Types Protocol_Types
begin

text \<open>
  Business control messages: the names of \<open>ltfp/pb/message_types.go\<close>, their frame types and
  the envelope codec of \<open>ltfp/transport/control_message_frame.go\<close>, and the checks on an
  envelope of \<open>ltfp/validate\<close>. \<open>encoding/json\<close> is an argument of the codec.
\<close>

section \<open>Frame types\<close>

definition frame_type_heartbeat_ping :: "16 word" where "frame_type_heartbeat_ping = 0xFFF0"
definition frame_type_heartbeat_pong :: "16 word" where "frame_type_heartbeat_pong = 0xFFF1"
definition frame_type_connector_hello :: "16 word" where "frame_type_connector_hello = 0x0101"
definition frame_type_connector_welcome :: "16 word" where "frame_type_connector_welcome = 0x0102"
definition frame_type_connector_auth :: "16 word" where "frame_type_connector_auth = 0x0103"
definition frame_type_connector_auth_ack :: "16 word" where "frame_type_connector_auth_ack = 0x0104"
definition frame_type_control_heartbeat :: "16 word" where "frame_type_control_heartbeat = 0x0105"
definition frame_type_publish_service :: "16 word" where "frame_type_publish_service = 0x0110"
definition frame_type_publish_service_ack :: "16 word" where "frame_type_publish_service_ack = 0x0111"
definition frame_type_unpublish_service :: "16 word" where "frame_type_unpublish_service = 0x0112"
definition frame_type_unpublish_service_ack :: "16 word" where "frame_type_unpublish_service_ack = 0x0113"
definition frame_type_service_health_report :: "16 word" where "frame_type_service_health_report = 0x0114"
definition frame_type_tunnel_pool_report :: "16 word" where "frame_type_tunnel_pool_report = 0x0115"
definition frame_type_tunnel_refill_request :: "16 word" where "frame_type_tunnel_refill_request = 0x0116"
definition frame_type_tunnel_dial_announce :: "16 word" where "frame_type_tunnel_dial_announce = 0x0117"
definition frame_type_route_assign :: "16 word" where "frame_type_route_assign = 0x0120"
definition frame_type_route_assign_ack :: "16 word" where "frame_type_route_assign_ack = 0x0121"
definition frame_type_route_revoke :: "16 word" where "frame_type_route_revoke = 0x0122"
definition frame_type_route_revoke_ack :: "16 word" where "frame_type_route_revoke_ack = 0x0123"
definition frame_type_route_status_report :: "16 word" where "frame_type_route_status_report = 0x0124"
definition frame_type_control_error :: "16 word" where "frame_type_control_error = 0x01F0"

lemmas frame_type_defs =
  frame_type_heartbeat_ping_def frame_type_heartbeat_pong_def frame_type_connector_hello_def
  frame_type_connector_welcome_def frame_type_connector_auth_def frame_type_connector_auth_ack_def
  frame_type_control_heartbeat_def frame_type_publish_service_def
  frame_type_publish_service_ack_def frame_type_unpublish_service_def
  frame_type_unpublish_service_ack_def frame_type_service_health_report_def
  frame_type_tunnel_pool_report_def frame_type_tunnel_refill_request_def
  frame_type_tunnel_dial_announce_def frame_type_route_assign_def frame_type_route_assign_ack_def
  frame_type_route_revoke_def frame_type_route_revoke_ack_def frame_type_route_status_report_def
  frame_type_control_error_def


section \<open>Message types\<close>

type_synonym control_message_type = string

text \<open>The message types in the order in which \<open>ControlFrameTypeForMessageType\<close> lists them.\<close>

definition message_type_frames :: "(control_message_type \<times> 16 word) list" where
  "message_type_frames =
     [(''ConnectorHello'', frame_type_connector_hello),
      (''ConnectorWelcome'', frame_type_connector_welcome),
      (''ConnectorAuth'', frame_type_connector_auth),
      (''ConnectorAuthAck'', frame_type_connector_auth_ack),
      (''Heartbeat'', frame_type_control_heartbeat),
      (''PublishService'', frame_type_publish_service),
      (''PublishServiceAck'', frame_type_publish_service_ack),
      (''UnpublishService'', frame_type_unpublish_service),
      (''UnpublishServiceAck'', frame_type_unpublish_service_ack),
      (''ServiceHealthReport'', frame_type_service_health_report),
      (''TunnelPoolReport'', frame_type_tunnel_pool_report),
      (''TunnelDialAnnounce'', frame_type_tunnel_dial_announce),
      (''TunnelRefillRequest'', frame_type_tunnel_refill_request),
      (''RouteAssign'', frame_type_route_assign),
      (''RouteAssignAck'', frame_type_route_assign_ack),
      (''RouteRevoke'', frame_type_route_revoke),
      (''RouteRevokeAck'', frame_type_route_revoke_ack),
      (''RouteStatusReport'', frame_type_route_status_report),
      (''ControlError'', frame_type_control_error)]"

definition known_control_message_types :: "control_message_type list" where
  "known_control_message_types =
     [''ConnectorHello'', ''ConnectorWelcome'', ''ConnectorAuth'', ''ConnectorAuthAck'',
      ''Heartbeat'', ''PublishService'', ''PublishServiceAck'',
      ''UnpublishService'', ''UnpublishServiceAck'', ''ServiceHealthReport'',
      ''TunnelPoolReport'', ''TunnelDialAnnounce'', ''TunnelRefillRequest'',
      ''RouteAssign'', ''RouteAssignAck'', ''RouteRevoke'', ''RouteRevokeAck'',
      ''RouteStatusReport'', ''ControlError'']"

definition is_known_control_message_type :: "control_message_type \<Rightarrow> bool" where
  "is_known_control_message_type message_type =
     (trim_space message_type \<in> set known_control_message_types)"

definition control_frame_type_for_message_type ::
    "control_message_type \<Rightarrow> chain_err + 16 word" where
  "control_frame_type_for_message_type message_type =
     (let normalized_type = trim_space message_type
      in if \<not> is_known_control_message_type normalized_type
         then Inl (new_error code_unknown_message_type
                     (''unknown control message type: '' @ message_type))
         else case map_of message_type_frames normalized_type of
                Some frame_type \<Rightarrow> Inr frame_type
              | None \<Rightarrow> Inl (new_error code_unsupported_value
                     (''control message type has no frame mapping: '' @ normalized_type)))"

text \<open>The table of the opposite direction, as \<open>ControlMessageTypeForFrameType\<close> writes it.\<close>

definition frame_message_types :: "(16 word \<times> control_message_type) list" where
  "frame_message_types =
     [(frame_type_connector_hello, ''ConnectorHello''),
      (frame_type_connector_welcome, ''ConnectorWelcome''),
      (frame_type_connector_auth, ''ConnectorAuth''),
      (frame_type_connector_auth_ack, ''ConnectorAuthAck''),
      (frame_type_control_heartbeat, ''Heartbeat''),
      (frame_type_publish_service, ''PublishService''),
      (frame_type_publish_service_ack, ''PublishServiceAck''),
      (frame_type_unpublish_service, ''UnpublishService''),
      (frame_type_unpublish_service_ack, ''UnpublishServiceAck''),
      (frame_type_service_health_report, ''ServiceHealthReport''),
      (frame_type_tunnel_pool_report, ''TunnelPoolReport''),
      (frame_type_tunnel_dial_announce, ''TunnelDialAnnounce''),
      (frame_type_tunnel_refill_request, ''TunnelRefillRequest''),
      (frame_type_route_assign, ''RouteAssign''),
      (frame_type_route_assign_ack, ''RouteAssignAck''),
      (frame_type_route_revoke, ''RouteRevoke''),
      (frame_type_route_revoke_ack, ''RouteRevokeAck''),
      (frame_type_route_status_report, ''RouteStatusReport''),
      (frame_type_control_error, ''ControlError'')]"

definition control_message_type_for_frame_type :: "16 word \<Rightarrow> chain_err + control_message_type" where
  "control_message_type_for_frame_type frame_type =
     (case map_of frame_message_types frame_type of
        Some message_type \<Rightarrow> Inr message_type
      | None \<Rightarrow> Inl (new_error code_unsupported_value
                       (''unsupported control frame type: '' @ show_nat (unat frame_type))))"


section \<open>Envelopes\<close>

record control_envelope =
  VersionMajor :: "32 word"
  VersionMinor :: "32 word"
  MessageType :: control_message_type
  RequestID :: string
  SessionID :: string
  SessionEpoch :: "64 word"
  ConnectorID :: string
  ResourceType :: string
  ResourceID :: string
  EventID :: string
  ResourceVersion :: "64 word"
  EnvelopePayload :: "byte list"

definition encode_business_control_envelope_frame ::
    "(control_envelope \<Rightarrow> chain_err + byte list) \<Rightarrow> control_envelope
       \<Rightarrow> chain_err + control_frame" where
  "encode_business_control_envelope_frame json_marshal envelope =
     (let normalized_type = trim_space (MessageType envelope)
      in case control_frame_type_for_message_type normalized_type of
           Inl e \<Rightarrow> Inl e
         | Inr frame_type \<Rightarrow>
             let envelope1 = envelope\<lparr>MessageType := normalized_type\<rparr>
             in case json_marshal envelope1 of
                  Inl e \<Rightarrow> Inl (wrap_error code_invalid_payload
                                 ''marshal business control envelope failed'' e)
                | Inr encoded \<Rightarrow> Inr \<lparr>Type = frame_type, Payload = encoded\<rparr>)"

definition decode_business_control_envelope_frame ::
    "(byte list \<Rightarrow> chain_err + control_envelope) \<Rightarrow> control_frame
       \<Rightarrow> chain_err + control_envelope" where
  "decode_business_control_envelope_frame json_unmarshal fr =
     (case control_message_type_for_frame_type (Type fr) of
        Inl e \<Rightarrow> Inl e
      | Inr expected_type \<Rightarrow>
          if Payload fr = []
          then Inl (new_error code_missing_required_field ''control frame payload is required'')
          else case json_unmarshal (Payload fr) of
                 Inl e \<Rightarrow> Inl (wrap_error code_invalid_payload
                                ''unmarshal business control envelope failed'' e)
               | Inr envelope \<Rightarrow>
                   let decoded_type = trim_space (MessageType envelope)
                   in if decoded_type = [] then Inr (envelope\<lparr>MessageType := expected_type\<rparr>)
                      else if decoded_type \<noteq> expected_type
                      then Inl (new_error code_invalid_payload
                             (''control message type mismatch: frame='' @ expected_type
                              @ '' payload='' @ decoded_type))
                      else Inr envelope)"


section \<open>Validation\<close>

definition validate_resource_meta ::
    "string \<Rightarrow> 64 word \<Rightarrow> string \<Rightarrow> 64 word \<Rightarrow> chain_err option" where
  "validate_resource_meta session_id session_epoch event_id resource_version =
     (if trim_space session_id = []
      then Some (new_error code_missing_required_field ''sessionID is required'')
      else if session_epoch = 0
      then Some (new_error code_invalid_session_epoch ''sessionEpoch must be greater than 0'')
      else if trim_space event_id = []
      then Some (new_error code_invalid_event_id ''eventID is required'')
      else if resource_version = 0
      then Some (new_error code_invalid_resource_version ''resourceVersion must be greater than 0'')
      else None)"

definition requires_resource_meta :: "control_message_type \<Rightarrow> bool" where
  "requires_resource_meta message_type =
     (message_type \<in> {''PublishService'', ''UnpublishService'', ''RouteAssign'', ''RouteRevoke''})"

definition validate_control_envelope :: "control_envelope \<Rightarrow> chain_err option" where
  "validate_control_envelope envelope =
     (if \<not> is_known_control_message_type (MessageType envelope)
      then Some (new_error code_unknown_message_type
                   (''unknown control message type: '' @ MessageType envelope))
      else if VersionMajor envelope = 0
      then Some (new_error code_unsupported_value ''versionMajor must be greater than 0'')
      else if requires_resource_meta (MessageType envelope)
      then validate_resource_meta (SessionID envelope) (SessionEpoch envelope) (EventID envelope)
             (ResourceVersion envelope)
      else None)"

record version_support =
  CurrentMajor :: "32 word"
  CurrentMinor :: "32 word"
  MinMajor :: "32 word"
  MinMinor :: "32 word"

definition validate_schema_version ::
    "32 word \<Rightarrow> 32 word \<Rightarrow> version_support \<Rightarrow> chain_err option" where
  "validate_schema_version message_major message_minor support =
     (if CurrentMajor support = 0 \<or> MinMajor support = 0
      then Some (new_error code_unsupported_value ''version support configuration is invalid'')
      else if message_major \<noteq> CurrentMajor support
      then Some (new_error code_negotiation_unsupported_version
             (''unsupported major version: got='' @ show_nat (unat message_major) @ '' want=''
              @ show_nat (unat (CurrentMajor support))))
      else if message_major = MinMajor support \<and> message_minor < MinMinor support
      then Some (new_error code_negotiation_unsupported_version
             (''minor version is too old: got='' @ show_nat (unat message_minor) @ '' min=''
              @ show_nat (unat (MinMinor support))))
      else if message_minor > CurrentMinor support
      then Some (new_error code_negotiation_unsupported_version
             (''minor version is newer than current support: got='' @ show_nat (unat message_minor)
              @ '' current='' @ show_nat (unat (CurrentMinor support))))
      else None)"

section \<open>The two tables are inverse\<close>

lemma known_control_message_types_eq:
  "known_control_message_types = map fst message_type_frames"
  by (simp add: known_control_message_types_def message_type_frames_def)

lemma frame_message_types_eq: "frame_message_types = map (\<lambda>(m, t). (t, m)) message_type_frames"
  by (simp add: frame_message_types_def message_type_frames_def)

lemma distinct_message_types: "distinct (map fst message_type_frames)"
  by (simp add: message_type_frames_def)

lemma distinct_frame_types: "distinct (map snd message_type_frames)"
  by (simp add: message_type_frames_def frame_type_defs)

lemma message_types_trimmed: "(m, t) \<in> set message_type_frames \<Longrightarrow> trim_space m = m \<and> m \<noteq> []"
  by (auto simp: message_type_frames_def graphic_def intro!: trim_space_graphic)

lemma map_of_message_type: "map_of message_type_frames m = Some t \<longleftrightarrow> (m, t) \<in> set message_type_frames"
  using distinct_message_types by simp

lemma map_of_frame_type: "map_of frame_message_types t = Some m \<longleftrightarrow> (m, t) \<in> set message_type_frames"
proof -
  have "distinct (map fst frame_message_types)"
    using distinct_frame_types by (simp add: frame_message_types_eq comp_def case_prod_beta)
  then have "map_of frame_message_types t = Some m \<longleftrightarrow> (t, m) \<in> set frame_message_types"
    by simp
  then show ?thesis by (auto simp: frame_message_types_eq)
qed

lemma frame_type_for_message:
  "control_frame_type_for_message_type m = Inr t \<longleftrightarrow> (trim_space m, t) \<in> set message_type_frames"
  by (auto simp: control_frame_type_for_message_type_def Let_def is_known_control_message_type_def
      known_control_message_types_eq map_of_message_type [symmetric] simp del: map_of_eq_Some_iff
      split: option.splits dest: map_of_SomeD)
    (metis fst_conv image_eqI map_of_SomeD)+

lemma message_type_for_frame:
  "control_message_type_for_frame_type t = Inr m \<longleftrightarrow> (m, t) \<in> set message_type_frames"
  by (auto simp: control_message_type_for_frame_type_def map_of_frame_type [symmetric]
      simp del: map_of_eq_Some_iff split: option.splits)

text \<open>
  Message types and frame types are in one-to-one correspondence, up to the white space
  around a message type: the two hand-written tables are inverse to each other.
\<close>

theorem frame_and_message_types_inverse:
  "control_frame_type_for_message_type m = Inr t
     \<longleftrightarrow> control_message_type_for_frame_type t = Inr (trim_space m)"
  by (simp add: frame_type_for_message message_type_for_frame)

text \<open>
  A business message that \<open>EncodeBusinessControlEnvelopeFrame\<close> accepts is read back by
  \<open>DecodeBusinessControlEnvelopeFrame\<close> as the same envelope with its message type trimmed,
  provided \<open>encoding/json\<close> restores what it wrote for that envelope.
\<close>

theorem business_envelope_roundtrip:
  assumes "encode_business_control_envelope_frame json_marshal envelope = Inr fr"
    and "\<And>bs. json_marshal (envelope\<lparr>MessageType := trim_space (MessageType envelope)\<rparr>) = Inr bs \<Longrightarrow>
           bs \<noteq> [] \<and> json_unmarshal bs = Inr (envelope\<lparr>MessageType := trim_space (MessageType envelope)\<rparr>)"
  shows "decode_business_control_envelope_frame json_unmarshal fr
    = Inr (envelope\<lparr>MessageType := trim_space (MessageType envelope)\<rparr>)"
proof -
  let ?m = "trim_space (MessageType envelope)"
  from assms(1) obtain t bs where t: "control_frame_type_for_message_type ?m = Inr t"
    and bs: "json_marshal (envelope\<lparr>MessageType := ?m\<rparr>) = Inr bs"
    and fr: "fr = \<lparr>Type = t, Payload = bs\<rparr>"
    by (auto simp: encode_business_control_envelope_frame_def Let_def split: sum.splits)
  from t have "(?m, t) \<in> set message_type_frames" by (simp add: frame_type_for_message)
  with message_types_trimmed [of ?m t] assms(2) [OF bs] show ?thesis
    by (simp add: decode_business_control_envelope_frame_def fr Let_def
        message_type_for_frame [THEN iffD2])
qed

definition sample_envelope :: control_envelope where
  "sample_envelope =
     \<lparr>VersionMajor = 2, VersionMinor = 0, MessageType = '' PublishService'', RequestID = [],
      SessionID = [], SessionEpoch = 0, ConnectorID = [], ResourceType = [], ResourceID = [],
      EventID = [], ResourceVersion = 0, EnvelopePayload = []\<rparr>"

lemma trim_publish_service: "trim_space ''PublishService'' = ''PublishService''"
  by (rule trim_space_graphic) (simp_all add: graphic_def)

theorem business_envelope_roundtrip_witness:
  "decode_business_control_envelope_frame
     (\<lambda>bs. if bs = [1] then Inr (sample_envelope\<lparr>MessageType := ''PublishService''\<rparr>)
           else Inl (PlainError ''bad''))
     \<lparr>Type = frame_type_publish_service, Payload = [1]\<rparr>
   = Inr (sample_envelope\<lparr>MessageType := ''PublishService''\<rparr>)"
proof -
  have t: "trim_space (MessageType sample_envelope) = ''PublishService''"
    by (simp add: sample_envelope_def trim_publish_service)
  have k: "control_frame_type_for_message_type ''PublishService'' = Inr frame_type_publish_service"
    using message_types_trimmed [of "''PublishService''" frame_type_publish_service]
    by (simp add: frame_type_for_message message_type_frames_def)
  have enc: "encode_business_control_envelope_frame (\<lambda>e. Inr [1]) sample_envelope
      = Inr \<lparr>Type = frame_type_publish_service, Payload = [1]\<rparr>"
    by (simp add: encode_business_control_envelope_frame_def t k)
  show ?thesis
    using business_envelope_roundtrip [OF enc, of "\<lambda>bs. if bs = [1]
        then Inr (sample_envelope\<lparr>MessageType := ''PublishService''\<rparr>) else Inl (PlainError ''bad'')"]
    by (simp add: t)
qed

text \<open>
  The check of the idempotency fields can be skipped by a space: an envelope whose
  message type is a known one with a space in front is accepted without session, epoch, event
  and version, although it is a resource message once its type is trimmed.
\<close>

theorem space_skips_resource_meta:
  "validate_control_envelope sample_envelope = None
   \<and> requires_resource_meta (trim_space (MessageType sample_envelope))
   \<and> validate_control_envelope (sample_envelope\<lparr>MessageType := trim_space (MessageType sample_envelope)\<rparr>)
       \<noteq> None"
  by (simp add: validate_control_envelope_def sample_envelope_def is_known_control_message_type_def
      trim_publish_service requires_resource_meta_def known_control_message_types_def
      validate_resource_meta_def)

end
