(* ===== verification/Control_Queue.thy ===== *)
theory Control_Queue
  imports Reassembly Control_Message
begin

text \<open>
  Scheduling of outgoing control frames: the recommended priority of a frame type
  (\<open>ltfp/transport/control_priority_policy.go\<close>), the in-memory priority queue
  (\<open>ltfp/transport/control_queue.go\<close>), the write queue of the TCP control channel and the
  life of one write operation (\<open>ltfp/transport/tcpbinding/control_write_queue.go\<close>). Both
  queues satisfy one contract, the locale \<open>priority_fifo\<close>.
\<close>

section \<open>Recommended priorities\<close>

definition recommend_control_frame_priority :: "16 word \<Rightarrow> control_message_priority" where
  "recommend_control_frame_priority t =
     (if t \<in> {frame_type_heartbeat_ping, frame_type_heartbeat_pong}
      then ControlMessagePriorityHigh
      else if t \<in> {frame_type_connector_hello, frame_type_connector_welcome,
                   frame_type_connector_auth, frame_type_connector_auth_ack}
      then ControlMessagePriorityHigh
      else if t \<in> {frame_type_tunnel_refill_request, frame_type_control_error}
      then ControlMessagePriorityHigh
      else if t \<in> {frame_type_publish_service, frame_type_tunnel_pool_report}
      then ControlMessagePriorityLow
      else ControlMessagePriorityNormal)"


section \<open>The contract of a priority queue\<close>

text \<open>
  Three buckets, \<open>0\<close> (high), \<open>1\<close> (normal) and \<open>2\<close> (low). \<open>enq\<close> appends the
  stored form of an item to its bucket, \<open>deq\<close> takes the head of the first bucket that
  is not empty.
\<close>

datatype bucket_name = High | Normal | Low

fun bucket_of :: "control_message_priority \<Rightarrow> bucket_name" where
  "bucket_of ControlMessagePriorityHigh = High"
| "bucket_of ControlMessagePriorityLow = Low"
| "bucket_of _ = Normal"

fun drain_by :: "('q \<Rightarrow> ('a \<times> 'q) option) \<Rightarrow> nat \<Rightarrow> 'q \<Rightarrow> 'a list" where
  "drain_by deq 0 q = []"
| "drain_by deq (Suc n) q =
     (case deq q of None \<Rightarrow> [] | Some (x, q') \<Rightarrow> x # drain_by deq n q')"

locale priority_fifo =
  fixes enq :: "'a \<Rightarrow> 'q \<Rightarrow> 'q"
    and deq :: "'q \<Rightarrow> ('a \<times> 'q) option"
    and size_of :: "'q \<Rightarrow> nat"
    and bucket :: "'a \<Rightarrow> bucket_name"
    and stored :: "'a \<Rightarrow> 'a"
    and contents :: "'q \<Rightarrow> bucket_name \<Rightarrow> 'a list"
  assumes contents_enq:
      "contents (enq x q) b = (if b = bucket x then contents q b @ [stored x] else contents q b)"
    and size_of_contents:
      "size_of q = length (contents q High) + length (contents q Normal) + length (contents q Low)"
    and deq_High: "contents q High = x # xs \<Longrightarrow>
      \<exists>q'. deq q = Some (x, q') \<and> contents q' = (contents q)(High := xs)"
    and deq_Normal: "contents q High = [] \<Longrightarrow> contents q Normal = x # xs \<Longrightarrow>
      \<exists>q'. deq q = Some (x, q') \<and> contents q' = (contents q)(Normal := xs)"
    and deq_Low: "contents q High = [] \<Longrightarrow> contents q Normal = [] \<Longrightarrow> contents q Low = x # xs \<Longrightarrow>
      \<exists>q'. deq q = Some (x, q') \<and> contents q' = (contents q)(Low := xs)"
    and deq_empty: "contents q High = [] \<Longrightarrow> contents q Normal = [] \<Longrightarrow> contents q Low = [] \<Longrightarrow>
      deq q = None"
begin

lemma contents_enq_all:
  "contents (fold enq xs q) b = contents q b @ map stored (filter (\<lambda>x. bucket x = b) xs)"
  by (induction xs arbitrary: q) (auto simp: contents_enq)

text \<open>Draining a queue empties the high bucket first, then normal, then low, each in order.\<close>

lemma drain_contents:
  "drain_by deq (size_of q) q = contents q High @ contents q Normal @ contents q Low"
proof (induction "size_of q" arbitrary: q)
  case 0
  then show ?case by (simp add: size_of_contents)
next
  case (Suc n)
  have step: ?case
    if "deq q = Some (x, q')" and "size_of q' = n"
      and "x # contents q' High @ contents q' Normal @ contents q' Low
           = contents q High @ contents q Normal @ contents q Low" for x q'
    using Suc.hyps(1) [of q'] that by (simp add: Suc.hyps(2) [symmetric])
  consider x xs where "contents q High = x # xs"
    | x xs where "contents q High = []" "contents q Normal = x # xs"
    | x xs where "contents q High = []" "contents q Normal = []" "contents q Low = x # xs"
    using Suc.hyps(2) by (simp add: size_of_contents) (metis list.exhaust length_0_conv add_is_0 nat.distinct(1))
  then show ?case
  proof cases
    case (1 x xs)
    from deq_High [OF 1] obtain q' where "deq q = Some (x, q')"
      "contents q' = (contents q)(High := xs)" by blast
    with 1 Suc.hyps(2) show ?thesis by (intro step) (auto simp: size_of_contents)
  next
    case (2 x xs)
    from deq_Normal [OF 2] obtain q' where "deq q = Some (x, q')"
      "contents q' = (contents q)(Normal := xs)" by blast
    with 2 Suc.hyps(2) show ?thesis by (intro step) (auto simp: size_of_contents)
  next
    case (3 x xs)
    from deq_Low [OF 3] obtain q' where "deq q = Some (x, q')"
      "contents q' = (contents q)(Low := xs)" by blast
    with 3 Suc.hyps(2) show ?thesis by (intro step) (auto simp: size_of_contents)
  qed
qed

lemma drain_enqueued:
  assumes "contents q = (\<lambda>_. [])"
  shows "drain_by deq (size_of (fold enq xs q)) (fold enq xs q) =
    map stored (filter (\<lambda>x. bucket x = High) xs @ filter (\<lambda>x. bucket x = Normal) xs
                @ filter (\<lambda>x. bucket x = Low) xs)"
  by (simp add: drain_contents contents_enq_all assms)

lemma deq_priority:
  assumes "deq q = Some (x, q')" and "contents q b \<noteq> []" and "b = High \<or> b = Normal \<and> contents q High = []"
  shows "x = hd (contents q b)"
  using assms deq_High [of q] deq_Normal [of q]
  by (cases "contents q b") (auto split: if_splits)

end


section \<open>The in-memory priority queue\<close>

record priority_control_queue =
  highPriorityFrames :: "prioritized_control_frame list"
  normalPriorityFrames :: "prioritized_control_frame list"
  lowPriorityFrames :: "prioritized_control_frame list"

definition new_priority_control_queue :: priority_control_queue where
  "new_priority_control_queue =
     \<lparr>highPriorityFrames = [], normalPriorityFrames = [], lowPriorityFrames = []\<rparr>"

definition pq_enqueue ::
    "prioritized_control_frame \<Rightarrow> priority_control_queue \<Rightarrow> priority_control_queue" where
  "pq_enqueue frame0 queue =
     (let normalized_priority = normalize_control_message_priority (Priority frame0);
          frame = frame0\<lparr>Priority := normalized_priority\<rparr>
      in case normalized_priority of
           ControlMessagePriorityHigh \<Rightarrow>
             queue\<lparr>highPriorityFrames := highPriorityFrames queue @ [frame]\<rparr>
         | ControlMessagePriorityLow \<Rightarrow>
             queue\<lparr>lowPriorityFrames := lowPriorityFrames queue @ [frame]\<rparr>
         | _ \<Rightarrow> queue\<lparr>normalPriorityFrames := normalPriorityFrames queue @ [frame]\<rparr>)"

fun dequeue_bucket :: "'a list \<Rightarrow> ('a \<times> 'a list) option" where
  "dequeue_bucket [] = None"
| "dequeue_bucket (frame # rest) = Some (frame, rest)"

definition pq_dequeue ::
    "priority_control_queue \<Rightarrow> (prioritized_control_frame \<times> priority_control_queue) option" where
  "pq_dequeue queue =
     (case dequeue_bucket (highPriorityFrames queue) of
        Some (frame, rest) \<Rightarrow> Some (frame, queue\<lparr>highPriorityFrames := rest\<rparr>)
      | None \<Rightarrow>
          (case dequeue_bucket (normalPriorityFrames queue) of
             Some (frame, rest) \<Rightarrow> Some (frame, queue\<lparr>normalPriorityFrames := rest\<rparr>)
           | None \<Rightarrow>
               (case dequeue_bucket (lowPriorityFrames queue) of
                  Some (frame, rest) \<Rightarrow> Some (frame, queue\<lparr>lowPriorityFrames := rest\<rparr>)
                | None \<Rightarrow> None)))"

definition pq_len :: "priority_control_queue \<Rightarrow> nat" where
  "pq_len queue = length (highPriorityFrames queue) + length (normalPriorityFrames queue)
     + length (lowPriorityFrames queue)"

fun pq_contents :: "priority_control_queue \<Rightarrow> bucket_name \<Rightarrow> prioritized_control_frame list" where
  "pq_contents q High = highPriorityFrames q"
| "pq_contents q Normal = normalPriorityFrames q"
| "pq_contents q Low = lowPriorityFrames q"

definition normalize_frame :: "prioritized_control_frame \<Rightarrow> prioritized_control_frame" where
  "normalize_frame f = f\<lparr>Priority := normalize_control_message_priority (Priority f)\<rparr>"

lemma pq_contents_case:
  "pq_contents q b = (case b of High \<Rightarrow> highPriorityFrames q | Normal \<Rightarrow> normalPriorityFrames q
     | Low \<Rightarrow> lowPriorityFrames q)"
  by (cases b) simp_all

lemma pq_contents_enqueue:
  "pq_contents (pq_enqueue x q) b
     = (if b = bucket_of (Priority x) then pq_contents q b @ [normalize_frame x] else pq_contents q b)"
  by (cases "Priority x"; cases b) (simp_all add: pq_enqueue_def normalize_frame_def Let_def)

interpretation pq: priority_fifo pq_enqueue pq_dequeue pq_len
    "\<lambda>x. bucket_of (Priority x)" normalize_frame pq_contents
proof (unfold_locales, goal_cases)
  case (1 x q b)
  show ?case by (rule pq_contents_enqueue)
next
  case (2 q)
  show ?case by (simp add: pq_len_def)
next
  case (3 q x xs)
  then show ?case
    by (intro exI [of _ "q\<lparr>highPriorityFrames := xs\<rparr>"])
      (auto simp: pq_dequeue_def fun_eq_iff pq_contents_case split: bucket_name.splits)
next
  case (4 q x xs)
  then show ?case
    by (intro exI [of _ "q\<lparr>normalPriorityFrames := xs\<rparr>"])
      (auto simp: pq_dequeue_def fun_eq_iff pq_contents_case split: bucket_name.splits)
next
  case (5 q x xs)
  then show ?case
    by (intro exI [of _ "q\<lparr>lowPriorityFrames := xs\<rparr>"])
      (auto simp: pq_dequeue_def fun_eq_iff pq_contents_case split: bucket_name.splits)
next
  case (6 q)
  then show ?case by (simp add: pq_dequeue_def)
qed

text \<open>
  Whatever frames are enqueued, with whatever priority strings, repeated \<open>Dequeue\<close>
  returns every one of them once: all high frames first, then all normal (and unknown) ones,
  then all low ones, and within one priority in the order they were enqueued.
\<close>

theorem priority_queue_drain_order:
  "drain_by pq_dequeue (length fs) (fold pq_enqueue fs new_priority_control_queue)
   = map normalize_frame
       (filter (\<lambda>f. bucket_of (Priority f) = High) fs
        @ filter (\<lambda>f. bucket_of (Priority f) = Normal) fs
        @ filter (\<lambda>f. bucket_of (Priority f) = Low) fs)"
proof -
  have empty: "pq_contents new_priority_control_queue = (\<lambda>_. [])"
  proof
    fix b show "pq_contents new_priority_control_queue b = []"
      by (cases b) (simp_all add: new_priority_control_queue_def)
  qed
  have "pq_len (fold pq_enqueue fs q) = pq_len q + length fs" for q
  proof (induction fs arbitrary: q)
    case (Cons f fs)
    have "pq_len (pq_enqueue f q) = Suc (pq_len q)"
      by (cases "Priority f") (simp_all add: pq_enqueue_def pq_len_def Let_def)
    with Cons show ?case by simp
  qed simp
  then have "pq_len (fold pq_enqueue fs new_priority_control_queue) = length fs"
    by (simp add: pq_len_def new_priority_control_queue_def)
  with pq.drain_enqueued [OF empty, of fs] show ?thesis by simp
qed


section \<open>The write queue of the TCP control channel\<close>

text \<open>
  A queued write names its operation by its identity (a pointer in the code). Unlike the
  in-memory queue, the write queue keeps the priority as given.
\<close>

record queued_control_write =
  priority :: control_message_priority
  frame :: control_frame
  operation :: nat

record control_write_queue =
  highPriorityWrites :: "queued_control_write list"
  normalPriorityWrites :: "queued_control_write list"
  lowPriorityWrites :: "queued_control_write list"

definition new_control_write_queue :: control_write_queue where
  "new_control_write_queue =
     \<lparr>highPriorityWrites = [], normalPriorityWrites = [], lowPriorityWrites = []\<rparr>"

definition wq_enqueue :: "queued_control_write \<Rightarrow> control_write_queue \<Rightarrow> control_write_queue" where
  "wq_enqueue w queue =
     (case normalize_control_message_priority (priority w) of
        ControlMessagePriorityHigh \<Rightarrow>
          queue\<lparr>highPriorityWrites := highPriorityWrites queue @ [w]\<rparr>
      | ControlMessagePriorityLow \<Rightarrow>
          queue\<lparr>lowPriorityWrites := lowPriorityWrites queue @ [w]\<rparr>
      | _ \<Rightarrow> queue\<lparr>normalPriorityWrites := normalPriorityWrites queue @ [w]\<rparr>)"

definition wq_dequeue ::
    "control_write_queue \<Rightarrow> (queued_control_write \<times> control_write_queue) option" where
  "wq_dequeue queue =
     (case dequeue_bucket (highPriorityWrites queue) of
        Some (w, rest) \<Rightarrow> Some (w, queue\<lparr>highPriorityWrites := rest\<rparr>)
      | None \<Rightarrow>
          (case dequeue_bucket (normalPriorityWrites queue) of
             Some (w, rest) \<Rightarrow> Some (w, queue\<lparr>normalPriorityWrites := rest\<rparr>)
           | None \<Rightarrow>
               (case dequeue_bucket (lowPriorityWrites queue) of
                  Some (w, rest) \<Rightarrow> Some (w, queue\<lparr>lowPriorityWrites := rest\<rparr>)
                | None \<Rightarrow> None)))"

definition wq_drain ::
    "control_write_queue \<Rightarrow> queued_control_write list \<times> control_write_queue" where
  "wq_drain queue =
     (highPriorityWrites queue @ normalPriorityWrites queue @ lowPriorityWrites queue,
      queue\<lparr>highPriorityWrites := [], normalPriorityWrites := [], lowPriorityWrites := []\<rparr>)"

definition wq_len :: "control_write_queue \<Rightarrow> nat" where
  "wq_len queue = length (highPriorityWrites queue) + length (normalPriorityWrites queue)
     + length (lowPriorityWrites queue)"

fun wq_contents :: "control_write_queue \<Rightarrow> bucket_name \<Rightarrow> queued_control_write list" where
  "wq_contents q High = highPriorityWrites q"
| "wq_contents q Normal = normalPriorityWrites q"
| "wq_contents q Low = lowPriorityWrites q"

lemma wq_contents_case:
  "wq_contents q b = (case b of High \<Rightarrow> highPriorityWrites q | Normal \<Rightarrow> normalPriorityWrites q
     | Low \<Rightarrow> lowPriorityWrites q)"
  by (cases b) simp_all

lemma wq_contents_enqueue:
  "wq_contents (wq_enqueue x q) b
     = (if b = bucket_of (priority x) then wq_contents q b @ [x] else wq_contents q b)"
  by (cases "priority x"; cases b) (simp_all add: wq_enqueue_def)

interpretation wq: priority_fifo wq_enqueue wq_dequeue wq_len
    "\<lambda>x. bucket_of (priority x)" id wq_contents
proof (unfold_locales, goal_cases)
  case (1 x q b)
  show ?case by (simp add: wq_contents_enqueue)
next
  case (2 q)
  show ?case by (simp add: wq_len_def)
next
  case (3 q x xs)
  then show ?case
    by (intro exI [of _ "q\<lparr>highPriorityWrites := xs\<rparr>"])
      (auto simp: wq_dequeue_def fun_eq_iff wq_contents_case split: bucket_name.splits)
next
  case (4 q x xs)
  then show ?case
    by (intro exI [of _ "q\<lparr>normalPriorityWrites := xs\<rparr>"])
      (auto simp: wq_dequeue_def fun_eq_iff wq_contents_case split: bucket_name.splits)
next
  case (5 q x xs)
  then show ?case
    by (intro exI [of _ "q\<lparr>lowPriorityWrites := xs\<rparr>"])
      (auto simp: wq_dequeue_def fun_eq_iff wq_contents_case split: bucket_name.splits)
next
  case (6 q)
  then show ?case by (simp add: wq_dequeue_def)
qed

text \<open>
  \<open>Drain\<close>, which fails the pending writes when the channel closes, hands out exactly
  the writes that repeated \<open>Dequeue\<close> would have, in the same order, and leaves the queue
  empty.
\<close>

theorem write_queue_drain_is_dequeue_all:
  "fst (wq_drain q) = drain_by wq_dequeue (wq_len q) q
   \<and> wq_len (snd (wq_drain q)) = 0 \<and> wq_dequeue (snd (wq_drain q)) = None"
  by (simp add: wq.drain_contents wq_drain_def)
    (simp add: wq_len_def wq_dequeue_def)

end
