(* ===== verification/Tcp_Control_Channel.thy ===== *)
theory Tcp_Control_Channel
  imports Control_Queue
begin

text \<open>
  The writing side of the TCP control channel: one write operation
  (\<open>controlWriteOperation\<close> of \<open>tcpbinding/control_write_queue.go\<close>), the closing and
  queueing operations of \<open>TCPControlChannel\<close> and the write loop
  (\<open>tcpbinding/control_channel.go\<close>). The code synchronises writers, the loop, context
  watchers and closers with two mutexes; each critical section is one function here, and the
  step relation \<open>write_step\<close> interleaves them freely.
\<close>

section \<open>One write operation\<close>

text \<open>
  \<open>ctx_err\<close> is \<open>operation.ctx.Err()\<close>, which the environment sets once;
  \<open>done_closes\<close> counts the executions of \<open>close(operation.doneChannel)\<close>: a second one
  would panic.
\<close>

record write_operation =
  ctx_err :: "goerr option"
  remainingFragments :: int
  active :: bool
  finished :: bool
  op_err :: "goerr option"
  done_closes :: nat

definition new_control_write_operation :: "goerr option \<Rightarrow> int \<Rightarrow> write_operation" where
  "new_control_write_operation ctx fragment_count0 =
     (let fragment_count1 = (if fragment_count0 \<le> 0 then 1 else fragment_count0)
      in \<lparr>ctx_err = ctx, remainingFragments = fragment_count1, active = False,
          finished = False, op_err = None, done_closes = 0\<rparr>)"

definition control_write_return_error :: "goerr option \<Rightarrow> goerr" where
  "control_write_return_error e = (case e of None \<Rightarrow> ErrClosed | Some e' \<Rightarrow> e')"

definition op_begin :: "write_operation \<Rightarrow> bool \<times> write_operation" where
  "op_begin op = (if finished op then (False, op) else (True, op\<lparr>active := True\<rparr>))"

definition op_mark_idle :: "write_operation \<Rightarrow> write_operation" where
  "op_mark_idle op = (if finished op then op else op\<lparr>active := False\<rparr>)"

definition op_complete_fragment :: "write_operation \<Rightarrow> write_operation" where
  "op_complete_fragment op =
     (if finished op then op
      else let op1 = op\<lparr>active := False, remainingFragments := remainingFragments op - 1\<rparr>
           in if remainingFragments op1 > 0 then op1
              else op1\<lparr>finished := True, done_closes := Suc (done_closes op1)\<rparr>)"

definition op_finish :: "goerr option \<Rightarrow> write_operation \<Rightarrow> bool \<times> write_operation" where
  "op_finish e op =
     (if finished op then (False, op)
      else (True, op\<lparr>active := False, finished := True, op_err := e,
                    done_closes := Suc (done_closes op)\<rparr>))"

text \<open>
  \<open>handleContextDone\<close> finishes an operation that is not being written; while it is being
  written the whole channel is shut down instead. The first component is what the handler
  does to the channel after it released the operation's mutex.
\<close>

datatype context_effect = NoEffect | NotifyWriteLoop | ShutdownWithError goerr

definition handle_context_done :: "write_operation \<Rightarrow> context_effect \<times> write_operation" where
  "handle_context_done op =
     (case ctx_err op of
        None \<Rightarrow> (NoEffect, op)
      | Some e \<Rightarrow>
          if finished op then (NoEffect, op)
          else if \<not> active op
          then (NotifyWriteLoop,
                op\<lparr>finished := True, op_err := Some (control_write_return_error (Some e)),
                   done_closes := Suc (done_closes op)\<rparr>)
          else (ShutdownWithError e, op))"

text \<open>Everything that ever happens to one operation, in any order and number.\<close>

datatype op_action =
    Begin
  | MarkIdle
  | CompleteFragment
  | Finish "goerr option"
  | ContextCancelled goerr
  | HandleContextDone

fun op_act :: "op_action \<Rightarrow> write_operation \<Rightarrow> write_operation" where
  "op_act Begin op = snd (op_begin op)"
| "op_act MarkIdle op = op_mark_idle op"
| "op_act CompleteFragment op = op_complete_fragment op"
| "op_act (Finish e) op = snd (op_finish e op)"
| "op_act (ContextCancelled e) op = (if ctx_err op = None then op\<lparr>ctx_err := Some e\<rparr> else op)"
| "op_act HandleContextDone op = snd (handle_context_done op)"

lemmas op_defs = op_begin_def op_mark_idle_def op_complete_fragment_def op_finish_def
  handle_context_done_def Let_def

lemma op_act_finished:
  "finished op \<Longrightarrow> finished (op_act a op) \<and> op_err (op_act a op) = op_err op
     \<and> done_closes (op_act a op) = done_closes op"
  by (cases a) (auto simp: op_defs split: option.splits)

lemma op_acts_finished:
  "finished op \<Longrightarrow> finished (fold op_act as op) \<and> op_err (fold op_act as op) = op_err op
     \<and> done_closes (fold op_act as op) = done_closes op"
proof (induction as arbitrary: op)
  case (Cons a as)
  with op_act_finished [OF Cons.prems, of a] Cons.IH [of "op_act a op"] show ?case by simp
qed simp

definition op_done_ok :: "write_operation \<Rightarrow> bool" where
  "op_done_ok op \<longleftrightarrow> done_closes op = (if finished op then 1 else 0)"

lemma op_act_done_ok: "op_done_ok op \<Longrightarrow> op_done_ok (op_act a op)"
  by (cases a) (auto simp: op_done_ok_def op_defs split: option.splits if_splits)

lemma op_acts_done_ok: "op_done_ok op \<Longrightarrow> op_done_ok (fold op_act as op)"
  by (induction as arbitrary: op) (auto simp: op_act_done_ok)

text \<open>
  Whatever the write loop, the context watcher and the closer of the channel do to a
  write operation, in whatever order: its done channel is closed at most once (a second
  close would panic), it is closed exactly when the operation is finished, and the first
  outcome is final.
\<close>

theorem write_operation_finishes_once:
  assumes "op = fold op_act before (new_control_write_operation ctx n)"
    and "op' = fold op_act after op"
  shows "done_closes op' \<le> 1 \<and> (done_closes op = 1 \<longleftrightarrow> finished op)
    \<and> (finished op \<longrightarrow> finished op' \<and> op_err op' = op_err op)"
proof -
  have "op_done_ok (new_control_write_operation ctx n)"
    by (simp add: op_done_ok_def new_control_write_operation_def)
  then have "op_done_ok op" and "op_done_ok op'"
    using assms by (simp_all add: op_acts_done_ok)
  then show ?thesis
    using op_acts_finished [of op after] assms(2)
    by (auto simp: op_done_ok_def split: if_splits)
qed

theorem write_operation_finishes_once_witness:
  "let op = fold op_act [Begin, CompleteFragment] (new_control_write_operation None 1);
       op' = fold op_act [ContextCancelled Canceled, HandleContextDone, Finish (Some ErrClosed)] op
   in finished op \<and> done_closes op' \<le> 1 \<and> op_err op' = None"
proof -
  let ?op = "fold op_act [Begin, CompleteFragment] (new_control_write_operation None 1)"
  let ?op' = "fold op_act [ContextCancelled Canceled, HandleContextDone, Finish (Some ErrClosed)] ?op"
  have f: "finished ?op" "op_err ?op = None"
    by (simp_all add: op_defs new_control_write_operation_def)
  show ?thesis
    using f write_operation_finishes_once
      [where before = "[Begin, CompleteFragment]" and ctx = None and n = 1
        and after = "[ContextCancelled Canceled, HandleContextDone, Finish (Some ErrClosed)]",
       OF refl refl]
    unfolding Let_def by simp
qed


section \<open>The channel\<close>

text \<open>
  The state that \<open>stateMutex\<close> and \<open>queueMutex\<close> protect. \<open>connCloses\<close> counts the
  executions of \<open>conn.Close\<close> under \<open>connCloseOnce\<close>, \<open>doneCloses\<close> those of
  \<open>close(channel.doneChannel)\<close> under \<open>doneOnce\<close>. \<open>operations\<close> is the heap of write
  operations.
\<close>

record tcp_control_channel =
  writeQueue :: control_write_queue
  activeWriteOperation :: "nat option"
  connCloses :: nat
  closed :: bool
  lastError :: "goerr option"
  doneCloses :: nat
  operations :: "nat \<Rightarrow> write_operation"

definition mark_closed_locked :: "goerr option \<Rightarrow> tcp_control_channel \<Rightarrow> tcp_control_channel" where
  "mark_closed_locked e ch =
     ch\<lparr>closed := True,
        lastError := (case e of None \<Rightarrow> Some ErrClosed | Some e' \<Rightarrow> Some e'),
        doneCloses := (if doneCloses ch = 0 then 1 else doneCloses ch)\<rparr>"

definition closed_error_locked :: "tcp_control_channel \<Rightarrow> goerr" where
  "closed_error_locked ch = (case lastError ch of Some e \<Rightarrow> e | None \<Rightarrow> ErrClosed)"

definition close_conn :: "tcp_control_channel \<Rightarrow> tcp_control_channel" where
  "close_conn ch = (if connCloses ch = 0 then ch\<lparr>connCloses := 1\<rparr> else ch)"

definition update_op ::
    "nat \<Rightarrow> (write_operation \<Rightarrow> write_operation) \<Rightarrow> tcp_control_channel \<Rightarrow> tcp_control_channel" where
  "update_op i f ch = ch\<lparr>operations := (operations ch)(i := f (operations ch i))\<rparr>"

definition dequeue_write ::
    "tcp_control_channel \<Rightarrow> (queued_control_write \<times> tcp_control_channel) option" where
  "dequeue_write ch =
     (case wq_dequeue (writeQueue ch) of
        None \<Rightarrow> None
      | Some (w, q) \<Rightarrow>
          Some (w, ch\<lparr>writeQueue := q, activeWriteOperation := Some (operation w)\<rparr>))"

definition clear_active_write :: "nat \<Rightarrow> tcp_control_channel \<Rightarrow> tcp_control_channel" where
  "clear_active_write i ch =
     (if activeWriteOperation ch = Some i then ch\<lparr>activeWriteOperation := None\<rparr> else ch)"

text \<open>\<open>failPendingWriteOperations\<close>: its section under the queue mutex, then the finishing.\<close>

definition take_pending_writes ::
    "tcp_control_channel \<Rightarrow> nat list \<times> tcp_control_channel" where
  "take_pending_writes ch =
     (let (pending, q) = wq_drain (writeQueue ch)
      in ((case activeWriteOperation ch of None \<Rightarrow> [] | Some i \<Rightarrow> [i]) @ map operation pending,
          ch\<lparr>activeWriteOperation := None, writeQueue := q\<rparr>))"

definition fail_pending_write_operations ::
    "goerr \<Rightarrow> tcp_control_channel \<Rightarrow> tcp_control_channel" where
  "fail_pending_write_operations e ch =
     (let (ops, ch1) = take_pending_writes ch
      in fold (\<lambda>i. update_op i (\<lambda>op. snd (op_finish (Some e) op))) ops ch1)"

definition shutdown_with_error :: "goerr option \<Rightarrow> tcp_control_channel \<Rightarrow> tcp_control_channel" where
  "shutdown_with_error e0 ch0 =
     (let e = (case e0 of None \<Rightarrow> ErrClosed | Some e \<Rightarrow> e);
          ch1 = close_conn ch0;
          already_closed = closed ch1;
          ch2 = (if closed ch1 then ch1 else mark_closed_locked (Some e) ch1);
          closed_err = closed_error_locked ch2
      in if already_closed then ch2
         else fail_pending_write_operations (control_write_return_error (Some closed_err)) ch2)"

text \<open>
  \<open>Close\<close>: \<open>close_err\<close> is the result of \<open>conn.Close\<close> and \<open>net_closed\<close> says whether
  it is \<open>net.ErrClosed\<close>; only the first close reaches the connection.
\<close>

definition close_channel ::
    "goerr option \<Rightarrow> goerr option \<Rightarrow> (goerr \<Rightarrow> bool) \<Rightarrow> tcp_control_channel
       \<Rightarrow> goerr option \<times> tcp_control_channel" where
  "close_channel ctx conn_close_result is_net_closed ch0 =
     (case ctx of
        Some e \<Rightarrow> (Some e, ch0)
      | None \<Rightarrow>
          let close_err = (if connCloses ch0 = 0 then conn_close_result else None);
              real_err = (case close_err of Some e \<Rightarrow> if is_net_closed e then None else Some e
                          | None \<Rightarrow> None);
              ch1 = close_conn ch0;
              already_closed = closed ch1;
              ch2 = (if closed ch1 then ch1
                     else if real_err \<noteq> None then mark_closed_locked real_err ch1
                     else mark_closed_locked (Some ErrClosed) ch1);
              closed_err = closed_error_locked ch2;
              ch3 = (if already_closed then ch2
                     else fail_pending_write_operations
                            (control_write_return_error (Some closed_err)) ch2)
          in (real_err, ch3))"

text \<open>
  \<open>newTCPControlFragmentationPipeline\<close> (\<open>None\<close>: no fragmentation) and
  \<open>prepareFramesForWrite\<close>.
\<close>

definition new_tcp_control_fragmentation_pipeline ::
    "int \<Rightarrow> goerr + (fragmenter \<times> reassembler) option" where
  "new_tcp_control_fragmentation_pipeline max_control_frame_payload_size =
     (let max_fragment_payload_size =
            (if max_control_frame_payload_size > default_control_fragment_max_payload_size
             then default_control_fragment_max_payload_size else max_control_frame_payload_size)
      in if max_fragment_payload_size \<le> 24 then Inr None
         else
           let config = default_control_fragmentation_config
                          \<lparr>MaxPayloadSize := max_fragment_payload_size\<rparr>
           in case new_control_frame_fragmenter config of
                Inl e \<Rightarrow> Inl e
              | Inr fg \<Rightarrow>
                  (case new_control_frame_reassembler config of
                     Inl e \<Rightarrow> Inl e
                   | Inr r \<Rightarrow> Inr (Some (fg, r))))"

definition prepare_frames_for_write ::
    "fragmenter option \<Rightarrow> int \<Rightarrow> control_frame
       \<Rightarrow> (goerr + control_frame list) \<times> fragmenter option" where
  "prepare_frames_for_write fg0 max_control_frame_payload_size fr =
     (case fg0 of
        Some fg \<Rightarrow> (let (result, fg') = fragment fg fr in (result, Some fg'))
      | None \<Rightarrow>
          if Type fr = control_frame_type_fragment then (Inl ErrInvalidArgument, None)
          else if max_control_frame_payload_size > 0
                  \<and> int (length (Payload fr)) > max_control_frame_payload_size
          then (Inl ErrInvalidArgument, None)
          else (Inr [\<lparr>Type = Type fr, Payload = Payload fr\<rparr>], None))"

definition channel_reassemble_frame ::
    "reassembler option \<Rightarrow> control_frame \<Rightarrow> gotime
       \<Rightarrow> (goerr + control_frame option) \<times> reassembler option" where
  "channel_reassemble_frame r0 fr wall =
     (case r0 of
        Some r \<Rightarrow> (let (result, r') = reassemble r fr wall in (result, Some r'))
      | None \<Rightarrow>
          if Type fr = control_frame_type_fragment then (Inl ErrInvalidArgument, None)
          else (Inr (Some \<lparr>Type = Type fr, Payload = Payload fr\<rparr>), None))"

text \<open>The section of \<open>WritePrioritizedControlFrame\<close> under the queue mutex.\<close>

definition enqueue_writes ::
    "control_message_priority \<Rightarrow> control_frame list \<Rightarrow> nat \<Rightarrow> tcp_control_channel
       \<Rightarrow> tcp_control_channel" where
  "enqueue_writes p frames i ch =
     ch\<lparr>writeQueue :=
          fold wq_enqueue (map (\<lambda>f. \<lparr>priority = p, frame = f, operation = i\<rparr>) frames)
            (writeQueue ch)\<rparr>"


section \<open>Interleaving of writers, write loop, watchers and closers\<close>

text \<open>
  The program counter of \<open>runWriteLoop\<close>: waiting or dequeuing, holding a dequeued write,
  having begun it, having written its frame to the connection, having marked it idle, or
  returned. \<open>wire\<close> is a history variable: the frames written completely, in order.
  \<open>submitted\<close> remembers the frames of every operation and \<open>toEnqueue\<close> the operations
  whose writer has not reached the queue yet.
\<close>

datatype loop_state =
    LoopIdle
  | LoopDequeued queued_control_write
  | LoopBegun queued_control_write
  | LoopWritten queued_control_write
  | LoopIdled queued_control_write
  | LoopReturned

record write_world =
  chan :: tcp_control_channel
  pipeline :: "fragmenter option"
  max_payload :: int
  loop :: loop_state
  wire :: "queued_control_write list"
  submitted :: "nat \<Rightarrow> (control_message_priority \<times> control_frame list) option"
  toEnqueue :: "nat set"

definition new_write_world :: "fragmenter option \<Rightarrow> int \<Rightarrow> write_world" where
  "new_write_world fg m =
     \<lparr>chan = \<lparr>writeQueue = new_control_write_queue, activeWriteOperation = None, connCloses = 0,
              closed = False, lastError = None, doneCloses = 0,
              operations = (\<lambda>_. new_control_write_operation None 0)\<rparr>,
      pipeline = fg, max_payload = m, loop = LoopIdle, wire = [],
      submitted = (\<lambda>_. None), toEnqueue = {}\<rparr>"

abbreviation on_chan ::
    "(tcp_control_channel \<Rightarrow> tcp_control_channel) \<Rightarrow> write_world \<Rightarrow> write_world" where
  "on_chan f s \<equiv> s\<lparr>chan := f (chan s)\<rparr>"

text \<open>
  \<open>step_finish\<close> stands for each \<open>Finish\<close> of \<open>failPendingWriteOperations\<close>, which runs
  outside the mutexes: it is allowed for every operation at every time, so the relation
  contains every run of the code and more.
\<close>

inductive write_step :: "write_world \<Rightarrow> write_world \<Rightarrow> bool" where
  step_submit:
    "submitted s i = None \<Longrightarrow>
     prepare_frames_for_write (pipeline s) (max_payload s) fr = (Inr frames, fg) \<Longrightarrow>
     write_step s (on_chan (update_op i (\<lambda>_. new_control_write_operation ctx (int (length frames)))) s
       \<lparr>pipeline := fg, submitted := (submitted s)(i \<mapsto> (p, frames)),
        toEnqueue := insert i (toEnqueue s)\<rparr>)"
| step_enqueue:
    "i \<in> toEnqueue s \<Longrightarrow> submitted s i = Some (p, frames) \<Longrightarrow>
     write_step s (on_chan (enqueue_writes p frames i) s\<lparr>toEnqueue := toEnqueue s - {i}\<rparr>)"
| step_context_cancelled:
    "write_step s (on_chan (update_op i (op_act (ContextCancelled e))) s)"
| step_context_done:
    "write_step s (on_chan (update_op i (op_act HandleContextDone)) s)"
| step_mark_closed:
    "write_step s (on_chan (mark_closed_locked e) s)"
| step_take_pending:
    "closed (chan s) \<Longrightarrow> write_step s (on_chan (\<lambda>ch. snd (take_pending_writes ch)) s)"
| step_finish:
    "write_step s (on_chan (update_op i (op_act (Finish (Some e)))) s)"
| step_dequeue:
    "loop s = LoopIdle \<Longrightarrow> dequeue_write (chan s) = Some (w, ch) \<Longrightarrow>
     write_step s (s\<lparr>chan := ch, loop := LoopDequeued w\<rparr>)"
| step_skip:
    "loop s = LoopDequeued w \<Longrightarrow> finished (operations (chan s) (operation w)) \<Longrightarrow>
     write_step s (on_chan (clear_active_write (operation w)) s\<lparr>loop := LoopIdle\<rparr>)"
| step_begin:
    "loop s = LoopDequeued w \<Longrightarrow> fst (op_begin (operations (chan s) (operation w))) \<Longrightarrow>
     write_step s (on_chan (update_op (operation w) (op_act Begin)) s\<lparr>loop := LoopBegun w\<rparr>)"
| step_write:
    "loop s = LoopBegun w \<Longrightarrow>
     write_step s (s\<lparr>wire := wire s @ [w], loop := LoopWritten w\<rparr>)"
| step_write_failed:
    "loop s = LoopBegun w \<Longrightarrow> next_loop \<in> {LoopIdle, LoopReturned} \<Longrightarrow>
     write_step s (on_chan (update_op (operation w) (op_act (Finish (Some e)) \<circ> op_act MarkIdle)
                             \<circ> clear_active_write (operation w)) s\<lparr>loop := next_loop\<rparr>)"
| step_deadline_failed:
    "loop s = LoopBegun w \<Longrightarrow>
     write_step s (on_chan (update_op (operation w) (op_act (Finish (Some e)))) s
                     \<lparr>loop := LoopReturned\<rparr>)"
| step_idle:
    "loop s = LoopWritten w \<Longrightarrow>
     write_step s (on_chan (update_op (operation w) (op_act MarkIdle)
                             \<circ> clear_active_write (operation w)) s\<lparr>loop := LoopIdled w\<rparr>)"
| step_complete:
    "loop s = LoopIdled w \<Longrightarrow>
     write_step s (on_chan (update_op (operation w) (op_act CompleteFragment)) s
                     \<lparr>loop := LoopIdle\<rparr>)"
| step_return:
    "loop s = LoopIdle \<Longrightarrow> closed (chan s) \<Longrightarrow> write_step s (s\<lparr>loop := LoopReturned\<rparr>)"

inductive_cases write_stepE: "write_step s s'"

abbreviation write_reachable :: "write_world \<Rightarrow> write_world \<Rightarrow> bool" where
  "write_reachable \<equiv> write_step\<^sup>*\<^sup>*"


subsection \<open>What the queue holds of one operation\<close>

definition wq_list :: "control_write_queue \<Rightarrow> queued_control_write list" where
  "wq_list q = highPriorityWrites q @ normalPriorityWrites q @ lowPriorityWrites q"

definition of_op :: "nat \<Rightarrow> queued_control_write list \<Rightarrow> control_frame list" where
  "of_op i ws = map frame (filter (\<lambda>w. operation w = i) ws)"

lemma of_op_append [simp]: "of_op i (xs @ ys) = of_op i xs @ of_op i ys"
  by (simp add: of_op_def)

lemma of_op_Nil [simp]: "of_op i [] = []"
  by (simp add: of_op_def)

lemma of_op_Cons [simp]: "of_op i (w # ws) = (if operation w = i then [frame w] else []) @ of_op i ws"
  by (simp add: of_op_def)

lemma dequeue_bucket_cases: "dequeue_bucket xs = (case xs of [] \<Rightarrow> None | x # ys \<Rightarrow> Some (x, ys))"
  by (cases xs) simp_all

lemma wq_dequeue_list: "wq_dequeue q = Some (w, q') \<Longrightarrow> wq_list q = w # wq_list q'"
  by (auto simp: wq_dequeue_def wq_list_def dequeue_bucket_cases split: list.splits)

lemma wq_list_contents:
  "wq_list q = wq_contents q High @ wq_contents q Normal @ wq_contents q Low"
  by (simp add: wq_list_def)

lemma filter_writes:
  "filter (\<lambda>x. bucket_of (priority x) = b) (map (\<lambda>f. \<lparr>priority = p, frame = f, operation = i\<rparr>) fs)
     = (if bucket_of p = b then map (\<lambda>f. \<lparr>priority = p, frame = f, operation = i\<rparr>) fs else [])"
  by (induction fs) auto

lemma of_op_writes:
  "of_op j (map (\<lambda>f. \<lparr>priority = p, frame = f, operation = i\<rparr>) fs) = (if j = i then fs else [])"
  by (induction fs) auto

lemma of_op_enqueue:
  assumes "of_op i (wq_list (writeQueue ch)) = []"
  shows "of_op j (wq_list (writeQueue (enqueue_writes p fs i ch)))
    = (if j = i then fs else of_op j (wq_list (writeQueue ch)))"
  using assms
  by (cases "bucket_of p")
    (simp_all add: enqueue_writes_def wq_list_contents wq.contents_enq_all filter_writes of_op_writes
      del: wq_contents.simps)


text \<open>The write that the loop holds before it is on the wire, and after.\<close>

definition in_flight :: "nat \<Rightarrow> loop_state \<Rightarrow> control_frame list" where
  "in_flight i l =
     (case l of LoopDequeued w \<Rightarrow> of_op i [w] | LoopBegun w \<Rightarrow> of_op i [w] | _ \<Rightarrow> [])"

definition uncounted :: "nat \<Rightarrow> loop_state \<Rightarrow> nat" where
  "uncounted i l =
     (case l of LoopWritten w \<Rightarrow> length (of_op i [w]) | LoopIdled w \<Rightarrow> length (of_op i [w]) | _ \<Rightarrow> 0)"

lemma in_flight_simps [simp]:
  "in_flight i LoopIdle = []" "in_flight i (LoopDequeued w) = of_op i [w]"
  "in_flight i (LoopBegun w) = of_op i [w]" "in_flight i (LoopWritten w) = []"
  "in_flight i (LoopIdled w) = []" "in_flight i LoopReturned = []"
  by (simp_all add: in_flight_def)

lemma uncounted_simps [simp]:
  "uncounted i LoopIdle = 0" "uncounted i (LoopDequeued w) = 0"
  "uncounted i (LoopBegun w) = 0" "uncounted i (LoopWritten w) = length (of_op i [w])"
  "uncounted i (LoopIdled w) = length (of_op i [w])" "uncounted i LoopReturned = 0"
  by (simp_all add: uncounted_def)

text \<open>
  The invariant of one operation, over what matters of a world: its frames \<open>F\<close>, its
  record \<open>op\<close>, and its frames on the wire, in the loop and in the queue.
\<close>

definition op_inv ::
    "control_frame list \<Rightarrow> write_operation \<Rightarrow> control_frame list \<Rightarrow> control_frame list
       \<Rightarrow> control_frame list \<Rightarrow> nat \<Rightarrow> bool \<Rightarrow> bool" where
  "op_inv F op sent flight queued n begun \<longleftrightarrow>
     F \<noteq> [] \<and> prefix sent F
     \<and> (begun \<longrightarrow> prefix (sent @ flight) F)
     \<and> (\<not> finished op \<longrightarrow> prefix (sent @ flight @ queued) F
          \<and> remainingFragments op + int (length sent) = int (length F) + int n)
     \<and> (finished op \<and> op_err op = None \<longrightarrow> sent = F)"

definition begun_loop :: "loop_state \<Rightarrow> bool" where
  "begun_loop l = (case l of LoopBegun w \<Rightarrow> True | _ \<Rightarrow> False)"

lemma begun_loop_simps [simp]:
  "\<not> begun_loop LoopIdle" "\<not> begun_loop (LoopDequeued w)" "begun_loop (LoopBegun w)"
  "\<not> begun_loop (LoopWritten w)" "\<not> begun_loop (LoopIdled w)" "\<not> begun_loop LoopReturned"
  by (simp_all add: begun_loop_def)

definition absent :: "nat \<Rightarrow> write_world \<Rightarrow> bool" where
  "absent i s \<longleftrightarrow> of_op i (wire s) = [] \<and> in_flight i (loop s) = [] \<and> uncounted i (loop s) = 0
     \<and> of_op i (wq_list (writeQueue (chan s))) = []"

definition op_ok :: "write_world \<Rightarrow> nat \<Rightarrow> bool" where
  "op_ok s i \<longleftrightarrow>
     (case submitted s i of
        None \<Rightarrow> absent i s \<and> i \<notin> toEnqueue s
      | Some (p, F) \<Rightarrow>
          (i \<in> toEnqueue s \<longrightarrow> absent i s)
          \<and> op_inv F (operations (chan s) i) (of_op i (wire s)) (in_flight i (loop s))
              (of_op i (wq_list (writeQueue (chan s)))) (uncounted i (loop s)) (begun_loop (loop s)))"

text \<open>What each kind of change preserves.\<close>

lemma op_inv_same:
  assumes "op_inv F op sent flight queued n b"
    and "finished op' = finished op" "op_err op' = op_err op"
    and "remainingFragments op' = remainingFragments op"
  shows "op_inv F op' sent flight queued n b"
  using assms by (auto simp: op_inv_def)

lemma op_inv_finish:
  assumes "op_inv F op sent flight queued n b"
    and "finished op'" and "op_err op' \<noteq> None \<or> finished op \<and> op_err op' = op_err op"
  shows "op_inv F op' sent flight queued n b"
  using assms by (auto simp: op_inv_def)

lemma op_inv_drained:
  "op_inv F op sent flight queued n b \<Longrightarrow> op_inv F op sent flight [] n b"
  by (auto simp: op_inv_def prefix_def)

lemma op_inv_dropped:
  "op_inv F op sent flight queued n b \<Longrightarrow> finished op \<Longrightarrow> op_inv F op sent [] queued 0 False"
  by (auto simp: op_inv_def)

lemma op_inv_begin:
  "op_inv F op sent flight queued n b \<Longrightarrow> \<not> finished op \<Longrightarrow>
   op_inv F (op_act Begin op) sent flight queued n True"
  by (auto simp: op_inv_def op_begin_def) (metis append_assoc append_prefixD)

lemma op_inv_write:
  assumes "op_inv F op sent [f] queued 0 True"
  shows "op_inv F op (sent @ [f]) [] queued 1 False"
  using assms by (auto simp: op_inv_def)

lemma op_inv_complete:
  assumes "op_inv F op sent [] queued 1 b"
  shows "op_inv F (op_act CompleteFragment op) sent [] queued 0 False"
proof (cases "finished op")
  case True
  with assms show ?thesis by (auto simp: op_inv_def op_complete_fragment_def)
next
  case False
  with assms have p: "prefix (sent @ queued) F"
    and r: "remainingFragments op + int (length sent) = int (length F) + 1"
    by (auto simp: op_inv_def)
  from p obtain zs where zs: "F = sent @ queued @ zs" by (auto simp: prefix_def)
  then have "remainingFragments op - 1 \<le> 0 \<Longrightarrow> sent = F"
    using r by (cases queued; cases zs) auto
  with False assms r show ?thesis by (auto simp: op_inv_def op_complete_fragment_def Let_def)
qed


lemma queue_simps [simp]:
  "writeQueue (update_op i f ch) = writeQueue ch"
  "operations (update_op i f ch) = (operations ch)(i := f (operations ch i))"
  "writeQueue (clear_active_write i ch) = writeQueue ch"
  "operations (clear_active_write i ch) = operations ch"
  "writeQueue (mark_closed_locked e ch) = writeQueue ch"
  "operations (mark_closed_locked e ch) = operations ch"
  "operations (enqueue_writes p fs i ch) = operations ch"
  by (simp_all add: update_op_def clear_active_write_def mark_closed_locked_def enqueue_writes_def)

lemma take_pending_simps [simp]:
  "operations (snd (take_pending_writes ch)) = operations ch"
  "wq_list (writeQueue (snd (take_pending_writes ch))) = []"
  by (simp_all add: take_pending_writes_def wq_drain_def wq_list_def Let_def)

lemma dequeue_write_simps:
  assumes "dequeue_write ch = Some (w, ch')"
  shows "operations ch' = operations ch"
    and "wq_list (writeQueue ch) = w # wq_list (writeQueue ch')"
  using assms by (auto simp: dequeue_write_def wq_dequeue_list split: option.splits)

definition pipeline_ok :: "fragmenter option \<Rightarrow> bool" where
  "pipeline_ok fg \<longleftrightarrow> (case fg of None \<Rightarrow> True | Some f \<Rightarrow> config_ok (fragmenter_config f))"

lemma fragment_ok:
  assumes "config_ok (fragmenter_config fg)" and "fragment fg fr = (Inr frames, fg')"
  shows "frames \<noteq> [] \<and> fragmenter_config fg' = fragmenter_config fg"
proof (cases "int (length (Payload fr)) \<le> MaxPayloadSize (fragmenter_config fg)")
  case True
  with assms show ?thesis by (auto simp: fragment_def Let_def split: if_splits)
next
  case False
  with assms(1) have "length (Payload fr) > 0" by (auto simp: config_ok_def)
  with fragment_count_covers [OF assms(1), of fr]
  have "fragment_count (fragmenter_config fg) fr \<noteq> 0" by (intro notI) simp
  with False assms show ?thesis by (auto simp: fragment_def Let_def split: if_splits)
qed

lemma prepare_frames_ok:
  assumes "prepare_frames_for_write fg m fr = (Inr frames, fg')" and "pipeline_ok fg"
  shows "frames \<noteq> [] \<and> pipeline_ok fg'"
proof (cases fg)
  case None
  with assms show ?thesis
    by (auto simp: prepare_frames_for_write_def pipeline_ok_def split: if_splits)
next
  case (Some f)
  obtain result f' where f': "fragment f fr = (result, f')" by fastforce
  with assms(1) Some have "result = Inr frames" and "fg' = Some f'"
    by (simp_all add: prepare_frames_for_write_def)
  with fragment_ok [of f fr frames f'] f' assms(2) Some show ?thesis
    by (simp add: pipeline_ok_def)
qed

lemma op_ok_update:
  assumes "op_ok s i"
    and "\<And>F sent flight queued n b. op_inv F (operations (chan s) j) sent flight queued n b \<Longrightarrow>
           op_inv F (f (operations (chan s) j)) sent flight queued n b"
  shows "op_ok (on_chan (update_op j f) s) i"
  using assms by (auto simp: op_ok_def absent_def split: option.splits)

lemma op_inv_environment:
  "op_inv F op sent flight queued n b \<Longrightarrow>
   op_inv F (op_act (ContextCancelled e) op) sent flight queued n b"
  "op_inv F op sent flight queued n b \<Longrightarrow> op_inv F (op_act HandleContextDone op) sent flight queued n b"
  "op_inv F op sent flight queued n b \<Longrightarrow> op_inv F (op_act (Finish (Some e')) op) sent flight queued n b"
  "op_inv F op sent flight queued n b \<Longrightarrow> op_inv F (op_act MarkIdle op) sent flight queued n b"
  by (auto simp: op_inv_def op_defs split: option.splits)

text \<open>The loop's own steps, seen from the operation it works on and from the others.\<close>

lemma op_ok_dequeue:
  assumes "op_ok s i" and "loop s = LoopIdle" and "dequeue_write (chan s) = Some (w, ch)"
  shows "op_ok (s\<lparr>chan := ch, loop := LoopDequeued w\<rparr>) i"
  using assms(1,2) dequeue_write_simps [OF assms(3)]
  by (auto simp: op_ok_def absent_def op_inv_def split: option.splits if_splits)

lemma op_ok_skip:
  assumes "op_ok s i" and "loop s = LoopDequeued w"
    and "finished (operations (chan s) (operation w))"
  shows "op_ok (on_chan (clear_active_write (operation w)) s\<lparr>loop := LoopIdle\<rparr>) i"
  using assms
  by (auto simp: op_ok_def absent_def op_inv_def split: option.splits if_splits)

lemma op_ok_begin:
  assumes "op_ok s i" and "loop s = LoopDequeued w"
    and "fst (op_begin (operations (chan s) (operation w)))"
  shows "op_ok (on_chan (update_op (operation w) (op_act Begin)) s\<lparr>loop := LoopBegun w\<rparr>) i"
proof -
  have nf: "\<not> finished (operations (chan s) (operation w))"
    using assms(3) by (auto simp: op_begin_def split: if_splits)
  show ?thesis
  proof (cases "i = operation w")
    case True
    with assms(1,2) nf op_inv_begin show ?thesis
      by (auto simp: op_ok_def absent_def split: option.splits)
  next
    case False
    with assms(1,2) show ?thesis
      by (auto simp: op_ok_def absent_def op_inv_def split: option.splits)
  qed
qed

lemma op_ok_write:
  assumes "op_ok s i" and "loop s = LoopBegun w"
  shows "op_ok (s\<lparr>wire := wire s @ [w], loop := LoopWritten w\<rparr>) i"
proof (cases "i = operation w")
  case True
  with assms op_inv_write show ?thesis
    by (auto simp: op_ok_def absent_def split: option.splits)
next
  case False
  with assms show ?thesis
    by (auto simp: op_ok_def absent_def op_inv_def split: option.splits)
qed

lemma op_ok_write_failed:
  assumes "op_ok s i" and "loop s = LoopBegun w" and "next_loop \<in> {LoopIdle, LoopReturned}"
  shows "op_ok (on_chan (update_op (operation w) (op_act (Finish (Some e)) \<circ> op_act MarkIdle)
                           \<circ> clear_active_write (operation w)) s\<lparr>loop := next_loop\<rparr>) i"
  using assms
  by (auto simp: op_ok_def absent_def op_inv_def op_defs split: option.splits)

lemma op_ok_deadline_failed:
  assumes "op_ok s i" and "loop s = LoopBegun w"
  shows "op_ok (on_chan (update_op (operation w) (op_act (Finish (Some e)))) s
                  \<lparr>loop := LoopReturned\<rparr>) i"
  using assms
  by (auto simp: op_ok_def absent_def op_inv_def op_defs split: option.splits)

lemma op_ok_idle:
  assumes "op_ok s i" and "loop s = LoopWritten w"
  shows "op_ok (on_chan (update_op (operation w) (op_act MarkIdle)
                           \<circ> clear_active_write (operation w)) s\<lparr>loop := LoopIdled w\<rparr>) i"
  using assms op_inv_environment(4)
  by (auto simp: op_ok_def absent_def split: option.splits)

lemma op_ok_complete:
  assumes "op_ok s i" and "loop s = LoopIdled w"
  shows "op_ok (on_chan (update_op (operation w) (op_act CompleteFragment)) s\<lparr>loop := LoopIdle\<rparr>) i"
proof (cases "i = operation w")
  case True
  with assms op_inv_complete show ?thesis
    by (auto simp: op_ok_def absent_def split: option.splits)
next
  case False
  with assms show ?thesis
    by (auto simp: op_ok_def absent_def op_inv_def split: option.splits)
qed

lemma op_ok_submit:
  assumes "op_ok s j" and "submitted s i = None" and "frames \<noteq> []"
  shows "op_ok (on_chan (update_op i (\<lambda>_. new_control_write_operation ctx (int (length frames)))) s
       \<lparr>pipeline := fg, submitted := (submitted s)(i \<mapsto> (p, frames)),
        toEnqueue := insert i (toEnqueue s)\<rparr>) j"
proof (cases "j = i")
  case True
  with assms(1,2) have "absent i s" and "i \<notin> toEnqueue s" by (simp_all add: op_ok_def)
  with True assms(3) show ?thesis
    by (simp add: op_ok_def absent_def op_inv_def new_control_write_operation_def Let_def)
next
  case False
  with assms(1) show ?thesis by (auto simp: op_ok_def absent_def split: option.splits)
qed

lemma op_ok_enqueue:
  assumes "op_ok s j" and "op_ok s i" and "i \<in> toEnqueue s" and "submitted s i = Some (p, frames)"
  shows "op_ok (on_chan (enqueue_writes p frames i) s\<lparr>toEnqueue := toEnqueue s - {i}\<rparr>) j"
proof -
  from assms(2-4) have a: "absent i s" by (simp add: op_ok_def)
  then have q: "of_op i (wq_list (writeQueue (chan s))) = []" by (simp add: absent_def)
  show ?thesis
  proof (cases "j = i")
    case True
    with assms a show ?thesis
      by (auto simp: op_ok_def absent_def op_inv_def of_op_enqueue [OF q])
  next
    case False
    with assms(1) show ?thesis
      by (auto simp: op_ok_def absent_def of_op_enqueue [OF q] split: option.splits)
  qed
qed

lemma op_ok_take_pending:
  "op_ok s i \<Longrightarrow> op_ok (on_chan (\<lambda>ch. snd (take_pending_writes ch)) s) i"
  using op_inv_drained by (auto simp: op_ok_def absent_def split: option.splits)

lemma op_ok_mark_closed: "op_ok s i \<Longrightarrow> op_ok (on_chan (mark_closed_locked e) s) i"
  by (auto simp: op_ok_def absent_def split: option.splits)

lemma op_ok_return: "op_ok s i \<Longrightarrow> loop s = LoopIdle \<Longrightarrow> op_ok (s\<lparr>loop := LoopReturned\<rparr>) i"
  by (auto simp: op_ok_def absent_def split: option.splits)

definition world_ok :: "write_world \<Rightarrow> bool" where
  "world_ok s \<longleftrightarrow> pipeline_ok (pipeline s) \<and> (\<forall>i. op_ok s i)"

lemma world_ok_step:
  assumes "write_step s s'" and "world_ok s"
  shows "world_ok s'"
  using assms
proof (cases rule: write_step.cases)
  case (step_submit i fr frames fg ctx p)
  with assms(2) prepare_frames_ok show ?thesis
    by (fastforce simp: world_ok_def intro: op_ok_submit)
next
  case (step_enqueue i p frames)
  with assms(2) show ?thesis by (auto simp: world_ok_def intro: op_ok_enqueue)
next
  case (step_mark_closed e)
  with assms(2) show ?thesis by (simp add: world_ok_def op_ok_mark_closed)
next
  case step_return
  with assms(2) show ?thesis by (simp add: world_ok_def op_ok_return)
next
  case (step_context_cancelled i e)
  with assms(2) show ?thesis
    by (auto simp: world_ok_def simp del: op_act.simps intro!: op_ok_update intro: op_inv_environment)
next
  case (step_context_done i)
  with assms(2) show ?thesis
    by (auto simp: world_ok_def simp del: op_act.simps intro!: op_ok_update intro: op_inv_environment)
next
  case (step_finish i e)
  with assms(2) show ?thesis
    by (auto simp: world_ok_def simp del: op_act.simps intro!: op_ok_update intro: op_inv_environment)
next
  case step_take_pending
  with assms(2) show ?thesis by (simp add: world_ok_def op_ok_take_pending)
next
  case (step_dequeue w ch)
  with assms(2) show ?thesis by (simp add: world_ok_def op_ok_dequeue)
next
  case (step_skip w)
  with assms(2) show ?thesis by (simp add: world_ok_def op_ok_skip)
next
  case (step_begin w)
  with assms(2) op_ok_begin [of s _ w] show ?thesis by (simp add: world_ok_def)
next
  case (step_write w)
  with assms(2) show ?thesis by (simp add: world_ok_def op_ok_write)
next
  case (step_write_failed w next_loop e)
  with assms(2) op_ok_write_failed [of s _ w next_loop e] show ?thesis by (simp add: world_ok_def)
next
  case (step_deadline_failed w e)
  with assms(2) op_ok_deadline_failed [of s _ w e] show ?thesis by (simp add: world_ok_def)
next
  case (step_idle w)
  with assms(2) op_ok_idle [of s _ w] show ?thesis by (simp add: world_ok_def)
next
  case (step_complete w)
  with assms(2) op_ok_complete [of s _ w] show ?thesis by (simp add: world_ok_def)
qed

lemma world_ok_new: "pipeline_ok fg \<Longrightarrow> world_ok (new_write_world fg m)"
  by (simp add: world_ok_def new_write_world_def op_ok_def absent_def wq_list_def
      new_control_write_queue_def)

lemma world_ok_reachable:
  "write_reachable s s' \<Longrightarrow> world_ok s \<Longrightarrow> world_ok s'"
  by (induction rule: rtranclp_induct) (auto intro: world_ok_step)

text \<open>
  C1. The write side of the TCP control channel never tears or reorders a message and never
  reports a success it did not earn: in every interleaving of writers with any priorities,
  of the write loop, context watchers and closers, the frames of a message appear on the wire
  in order and as an initial part of its fragments, and if its write operation is finished
  without an error then all of them are on the wire.
\<close>

theorem write_success_means_all_on_the_wire:
  assumes "pipeline_ok fg" and "write_reachable (new_write_world fg m) s"
    and "submitted s i = Some (p, frames)"
  shows "prefix (of_op i (wire s)) frames
    \<and> (finished (operations (chan s) i) \<and> op_err (operations (chan s) i) = None
         \<longrightarrow> of_op i (wire s) = frames)"
proof -
  from world_ok_reachable [OF assms(2) world_ok_new [OF assms(1)]] have "op_ok s i"
    by (simp add: world_ok_def)
  with assms(3) show ?thesis by (simp add: op_ok_def op_inv_def)
qed

theorem write_success_means_all_on_the_wire_witness:
  "\<exists>s. write_reachable (new_write_world None 0) s
     \<and> finished (operations (chan s) 0) \<and> op_err (operations (chan s) 0) = None
     \<and> of_op 0 (wire s) = [\<lparr>Type = 1, Payload = [7]\<rparr>]"
proof -
  let ?f = "\<lparr>Type = 1, Payload = [7]\<rparr> :: control_frame"
  let ?w = "\<lparr>priority = ControlMessagePriorityLow, frame = ?f, operation = 0\<rparr>"
  define s0 where "s0 = new_write_world None 0"
  define s1 where "s1 = (on_chan (update_op 0 (\<lambda>_. new_control_write_operation None 1)) s0
     \<lparr>pipeline := None, submitted := (submitted s0)(0 \<mapsto> (ControlMessagePriorityLow, [?f])),
      toEnqueue := insert 0 (toEnqueue s0)\<rparr>)"
  define s2 where "s2 = (on_chan (enqueue_writes ControlMessagePriorityLow [?f] 0) s1
     \<lparr>toEnqueue := toEnqueue s1 - {0}\<rparr>)"
  define ch where "ch = snd (the (dequeue_write (chan s2)))"
  define s3 where "s3 = (s2\<lparr>chan := ch, loop := LoopDequeued ?w\<rparr>)"
  define s4 where "s4 = (on_chan (update_op (operation ?w) (op_act Begin)) s3\<lparr>loop := LoopBegun ?w\<rparr>)"
  define s5 where "s5 = (s4\<lparr>wire := wire s4 @ [?w], loop := LoopWritten ?w\<rparr>)"
  define s6 where "s6 = (on_chan (update_op (operation ?w) (op_act MarkIdle)
       \<circ> clear_active_write (operation ?w)) s5\<lparr>loop := LoopIdled ?w\<rparr>)"
  define s7 where "s7 = (on_chan (update_op (operation ?w) (op_act CompleteFragment)) s6
       \<lparr>loop := LoopIdle\<rparr>)"
  note defs = s0_def s1_def s2_def s3_def s4_def s5_def s6_def s7_def ch_def
  have "write_step s0 s1"
    using step_submit [where s = s0 and i = 0 and fr = ?f and frames = "[?f]" and fg = None
        and ctx = None and p = ControlMessagePriorityLow]
    by (simp add: s1_def) (simp add: s0_def new_write_world_def prepare_frames_for_write_def
        control_frame_type_fragment_def)
  moreover have "write_step s1 s2"
    unfolding s2_def by (rule step_enqueue) (simp_all add: s1_def)
  moreover have deq: "dequeue_write (chan s2) = Some (?w, ch)"
    by (simp add: ch_def s2_def s1_def s0_def new_write_world_def dequeue_write_def enqueue_writes_def
        update_op_def new_control_write_queue_def wq_enqueue_def wq_dequeue_def)
  have "write_step s2 s3"
    unfolding s3_def by (rule step_dequeue [OF _ deq]) (simp add: s2_def s1_def s0_def new_write_world_def)
  moreover have ops: "operations ch 0 = new_control_write_operation None 1"
    using dequeue_write_simps(1) [OF deq] by (simp add: s2_def s1_def)
  have "write_step s3 s4"
    unfolding s4_def by (rule step_begin)
      (simp_all add: s3_def ops op_begin_def new_control_write_operation_def)
  moreover have "write_step s4 s5"
    unfolding s5_def by (rule step_write) (simp add: s4_def)
  moreover have "write_step s5 s6"
    unfolding s6_def by (rule step_idle) (simp add: s5_def)
  moreover have "write_step s6 s7"
    unfolding s7_def by (rule step_complete) (simp add: s6_def)
  ultimately have reach: "write_reachable s0 s7"
    by (meson converse_rtranclp_into_rtranclp rtranclp.rtrancl_refl)
  have sub: "submitted s7 0 = Some (ControlMessagePriorityLow, [?f])"
    by (simp add: s7_def s6_def s5_def s4_def s3_def s2_def s1_def)
  have fin: "finished (operations (chan s7) 0) \<and> op_err (operations (chan s7) 0) = None"
    by (simp add: s7_def s6_def s5_def s4_def s3_def ops new_control_write_operation_def op_defs)
  have ok: "pipeline_ok None" by (simp add: pipeline_ok_def)
  from write_success_means_all_on_the_wire [OF ok reach [unfolded s0_def] sub] fin reach [unfolded s0_def]
  show ?thesis by blast
qed

end
