(* ===== verification/Tcp_Framing.thy ===== *)
theory Tcp_Framing
  imports Bytes
begin

text \<open>
  Framing on a TCP connection (\<open>ltfp/transport/tcpbinding/stream_adapter.go\<close>): a frame is
  a length-prefixed byte sequence; the reader keeps a half-read frame across calls, so that a
  read timeout loses nothing. The connection itself is the environment: a list of the
  outcomes that \<open>conn.Read\<close> and \<open>conn.Write\<close> will have.
\<close>

section \<open>Configuration\<close>

text \<open>\<open>tcpbinding/transport.go\<close>.\<close>

definition default_dial_timeout :: duration where "default_dial_timeout = 5 * second"
definition default_keep_alive_interval :: duration where
  "default_keep_alive_interval = 30 * second"
definition default_accept_poll_interval :: duration where
  "default_accept_poll_interval = 200 * 1000000"
definition default_max_control_frame_payload_size :: int where
  "default_max_control_frame_payload_size = 4 * 1024 * 1024"
definition default_max_tunnel_frame_payload_size :: int where
  "default_max_tunnel_frame_payload_size = 4 * 1024 * 1024"

record transport_config =
  DialTimeout :: duration
  KeepAliveInterval :: duration
  AcceptPollInterval :: duration
  MaxControlFramePayloadSize :: int
  MaxTunnelFramePayloadSize :: int
  NoDelay :: bool
  NoDelaySet :: bool

definition normalize_transport_config :: "transport_config \<Rightarrow> goerr + transport_config" where
  "normalize_transport_config config =
     (let c1 = (if DialTimeout config \<le> 0 then config\<lparr>DialTimeout := default_dial_timeout\<rparr>
                else config);
          c2 = (if KeepAliveInterval c1 \<le> 0
                then c1\<lparr>KeepAliveInterval := default_keep_alive_interval\<rparr> else c1);
          c3 = (if AcceptPollInterval c2 \<le> 0
                then c2\<lparr>AcceptPollInterval := default_accept_poll_interval\<rparr> else c2);
          c4 = (if MaxControlFramePayloadSize c3 \<le> 0
                then c3\<lparr>MaxControlFramePayloadSize := default_max_control_frame_payload_size\<rparr>
                else c3);
          c5 = (if MaxTunnelFramePayloadSize c4 \<le> 0
                then c4\<lparr>MaxTunnelFramePayloadSize := default_max_tunnel_frame_payload_size\<rparr>
                else c4)
      in if MaxControlFramePayloadSize c5 > 2 ^ 32 - 1 then Inl ErrInvalidArgument
         else if MaxTunnelFramePayloadSize c5 > 2 ^ 32 - 1 then Inl ErrInvalidArgument
         else if \<not> NoDelaySet c5 then Inr (c5\<lparr>NoDelay := True, NoDelaySet := True\<rparr>)
         else Inr c5)"

definition default_transport_config :: transport_config where
  "default_transport_config =
     \<lparr>DialTimeout = default_dial_timeout, KeepAliveInterval = default_keep_alive_interval,
      AcceptPollInterval = default_accept_poll_interval,
      MaxControlFramePayloadSize = default_max_control_frame_payload_size,
      MaxTunnelFramePayloadSize = default_max_tunnel_frame_payload_size,
      NoDelay = True, NoDelaySet = True\<rparr>"


section \<open>The connection\<close>

text \<open>
  The classes of error that the code distinguishes. A read event is one run of bytes that
  arrives, with the error, if any, that \<open>conn.Read\<close> reports together with its last byte.
\<close>

datatype conn_error = ConnTimeout | ConnEOF | ConnClosedPipe | ConnNetClosed | ConnOther string

datatype conn_event = Chunk "byte list" "conn_error option"

text \<open>\<open>conn.Read(buf)\<close> with a buffer of \<open>k\<close> bytes; \<open>None\<close>: it blocks.\<close>

fun conn_read ::
    "nat \<Rightarrow> conn_event list \<Rightarrow> (byte list \<times> conn_error option \<times> conn_event list) option" where
  "conn_read k [] = None"
| "conn_read k (Chunk bs e # es) =
     Some (if length bs \<le> k then (bs, e, es)
           else (take k bs, None, Chunk (drop k bs) e # es))"

fun event_bytes :: "conn_event list \<Rightarrow> byte list" where
  "event_bytes [] = []"
| "event_bytes (Chunk bs e # es) = bs @ event_bytes es"

fun event_size :: "conn_event list \<Rightarrow> nat" where
  "event_size [] = 0"
| "event_size (Chunk bs e # es) = Suc (length bs) + event_size es"

fun event_errors :: "conn_event list \<Rightarrow> conn_error set" where
  "event_errors [] = {}"
| "event_errors (Chunk bs e # es) = set_option e \<union> event_errors es"

lemma conn_read_Some:
  assumes "conn_read k es = Some (bs, e, es')"
  shows "bs @ event_bytes es' = event_bytes es" and "length bs \<le> k"
    and "event_errors es' \<subseteq> event_errors es" and "set_option e \<subseteq> event_errors es"
    and "event_size es' \<le> event_size es" and "0 < k \<Longrightarrow> event_size es' < event_size es"
  using assms by (cases es; cases "hd es"; force split: if_splits)+

lemma conn_read_None: "conn_read k es = None \<Longrightarrow> es = []"
  by (cases es rule: event_size.cases) auto


section \<open>Reading\<close>

definition err_unexpected_eof :: goerr where "err_unexpected_eof = OtherErr ''unexpected EOF''"

fun classify_read_error :: "conn_error \<Rightarrow> bool \<Rightarrow> goerr" where
  "classify_read_error ConnTimeout frame_boundary = ErrTimeout"
| "classify_read_error (ConnOther e) frame_boundary = OtherErr e"
| "classify_read_error _ frame_boundary =
     (if frame_boundary then ErrClosed else err_unexpected_eof)"

fun classify_write_error :: "conn_error \<Rightarrow> goerr" where
  "classify_write_error ConnTimeout = ErrTimeout"
| "classify_write_error (ConnOther e) = OtherErr e"
| "classify_write_error _ = ErrClosed"

text \<open>
  \<open>framedReadState\<close>: \<open>header_read\<close> is \<open>header[:headerRead]\<close>, and \<open>payload_read\<close>
  is the size of the payload buffer with \<open>payload[:payloadRead]\<close>.
\<close>

record framed_read_state =
  header_read :: "byte list"
  payload_read :: "(nat \<times> byte list) option"
  frame_type :: "16 word"

definition new_framed_read_state :: framed_read_state where
  "new_framed_read_state = \<lparr>header_read = [], payload_read = None, frame_type = 0\<rparr>"

text \<open>One of the two loops over \<open>conn.Read\<close>: fill a buffer of \<open>n\<close> bytes.\<close>

datatype fill_result =
    Filled "byte list" "conn_event list"
  | FillError conn_error "byte list" "conn_event list"
  | FillBlocked "byte list"

function fill_buffer :: "nat \<Rightarrow> byte list \<Rightarrow> conn_event list \<Rightarrow> fill_result" where
  "fill_buffer n got es =
     (if n \<le> length got then Filled got es
      else case conn_read (n - length got) es of
             None \<Rightarrow> FillBlocked got
           | Some (bs, Some e, es') \<Rightarrow> FillError e (got @ bs) es'
           | Some (bs, None, es') \<Rightarrow> fill_buffer n (got @ bs) es')"
  by pat_completeness auto
termination
  by (relation "measure (\<lambda>(n, got, es). event_size es)") (auto dest: conn_read_Some(6))

declare fill_buffer.simps [simp del]

datatype 'a read_result = Got 'a | ReadFailed goerr | ReadBlocked

definition read_payload ::
    "framed_read_state \<Rightarrow> nat \<Rightarrow> byte list \<Rightarrow> conn_event list
       \<Rightarrow> (16 word \<times> byte list) read_result \<times> framed_read_state \<times> conn_event list" where
  "read_payload st psize got es =
     (case fill_buffer psize got es of
        FillBlocked got' \<Rightarrow> (ReadBlocked, st\<lparr>payload_read := Some (psize, got')\<rparr>, [])
      | FillError e got' es' \<Rightarrow>
          (ReadFailed (classify_read_error e False), st\<lparr>payload_read := Some (psize, got')\<rparr>, es')
      | Filled got' es' \<Rightarrow> (Got (frame_type st, got'), new_framed_read_state, es'))"

definition read_frame_from_conn ::
    "nat \<Rightarrow> int \<Rightarrow> (byte list \<Rightarrow> 16 word \<times> nat) \<Rightarrow> framed_read_state \<Rightarrow> conn_event list
       \<Rightarrow> (16 word \<times> byte list) read_result \<times> framed_read_state \<times> conn_event list" where
  "read_frame_from_conn header_size max_payload_size decode_header st es =
     (case fill_buffer header_size (header_read st) es of
        FillBlocked got \<Rightarrow> (ReadBlocked, st\<lparr>header_read := got\<rparr>, [])
      | FillError e got es' \<Rightarrow>
          (ReadFailed (classify_read_error e (got = [] \<and> payload_read st = None)),
           st\<lparr>header_read := got\<rparr>, es')
      | Filled got es' \<Rightarrow>
          let st1 = st\<lparr>header_read := got\<rparr>
          in case payload_read st1 of
               Some (psize, part) \<Rightarrow> read_payload st1 psize part es'
             | None \<Rightarrow>
                 let (ft, psize) = decode_header got
                 in if max_payload_size > 0 \<and> int psize > max_payload_size
                    then (ReadFailed ErrInvalidArgument, st1, es')
                    else if psize = 0 then (Got (ft, []), new_framed_read_state, es')
                    else read_payload (st1\<lparr>frame_type := ft\<rparr>) psize [] es')"

definition control_frame_header_size :: nat where "control_frame_header_size = 6"
definition tunnel_frame_header_size :: nat where "tunnel_frame_header_size = 4"

definition decode_control_header :: "byte list \<Rightarrow> 16 word \<times> nat" where
  "decode_control_header h =
     (be_word (sub_slice 0 2 h), unat (be_word (sub_slice 2 6 h) :: 32 word))"

definition decode_tunnel_header :: "byte list \<Rightarrow> 16 word \<times> nat" where
  "decode_tunnel_header h = (0, unat (be_word (sub_slice 0 4 h) :: 32 word))"

definition read_control_frame_from_conn ::
    "int \<Rightarrow> framed_read_state \<Rightarrow> conn_event list
       \<Rightarrow> control_frame read_result \<times> framed_read_state \<times> conn_event list" where
  "read_control_frame_from_conn max_payload_size st es =
     (case read_frame_from_conn control_frame_header_size max_payload_size decode_control_header st es
      of (Got (ft, p), st', es') \<Rightarrow> (Got \<lparr>Type = ft, Payload = p\<rparr>, st', es')
       | (ReadFailed e, st', es') \<Rightarrow> (ReadFailed e, st', es')
       | (ReadBlocked, st', es') \<Rightarrow> (ReadBlocked, st', es'))"

definition read_tunnel_payload_from_conn ::
    "int \<Rightarrow> framed_read_state \<Rightarrow> conn_event list
       \<Rightarrow> byte list read_result \<times> framed_read_state \<times> conn_event list" where
  "read_tunnel_payload_from_conn max_payload_size st es =
     (case read_frame_from_conn tunnel_frame_header_size max_payload_size decode_tunnel_header st es
      of (Got (ft, p), st', es') \<Rightarrow> (Got p, st', es')
       | (ReadFailed e, st', es') \<Rightarrow> (ReadFailed e, st', es')
       | (ReadBlocked, st', es') \<Rightarrow> (ReadBlocked, st', es'))"


section \<open>Writing\<close>

text \<open>
  \<open>write_results\<close> are the outcomes of the coming \<open>conn.Write\<close> calls: the bytes taken,
  at most those offered by the contract of \<open>io.Writer\<close>, and the error. The result is the
  code's \<open>(partial, err)\<close> with the bytes that reached the connection; \<open>None\<close>: blocked.
\<close>

fun write_bytes ::
    "byte list \<Rightarrow> byte list \<Rightarrow> (nat \<times> conn_error option) list
       \<Rightarrow> (bool \<times> goerr option \<times> byte list) option" where
  "write_bytes written [] rs = Some (False, None, written)"
| "write_bytes written (b # rest) [] = None"
| "write_bytes written (b # rest) ((n, e) # rs) =
     (let written1 = written @ take n (b # rest); rest1 = drop n (b # rest)
      in case e of
           Some x \<Rightarrow> Some (written1 \<noteq> [], Some (classify_write_error x), written1)
         | None \<Rightarrow>
             if n = 0 then Some (written1 \<noteq> [], Some err_unexpected_eof, written1)
             else write_bytes written1 rest1 rs)"

definition write_frame_to_conn ::
    "int \<Rightarrow> byte list \<Rightarrow> (nat \<Rightarrow> byte list) \<Rightarrow> (nat \<times> conn_error option) list
       \<Rightarrow> (bool \<times> goerr option \<times> byte list) option" where
  "write_frame_to_conn max_payload_size p build_header rs =
     (if max_payload_size > 0 \<and> int (length p) > max_payload_size
      then Some (False, Some ErrInvalidArgument, [])
      else write_bytes [] (build_header (length p) @ p) rs)"

definition control_header :: "16 word \<Rightarrow> nat \<Rightarrow> byte list" where
  "control_header ft psize = be_bytes 2 ft @ be_bytes 4 (of_nat psize :: 32 word)"

definition tunnel_header :: "nat \<Rightarrow> byte list" where
  "tunnel_header psize = be_bytes 4 (of_nat psize :: 32 word)"

definition write_control_frame_to_conn ::
    "int \<Rightarrow> control_frame \<Rightarrow> (nat \<times> conn_error option) list
       \<Rightarrow> (bool \<times> goerr option \<times> byte list) option" where
  "write_control_frame_to_conn max_payload_size fr rs =
     write_frame_to_conn max_payload_size (Payload fr) (control_header (Type fr)) rs"

definition write_tunnel_payload_to_conn ::
    "int \<Rightarrow> byte list \<Rightarrow> (nat \<times> conn_error option) list
       \<Rightarrow> (bool \<times> goerr option \<times> byte list) option" where
  "write_tunnel_payload_to_conn max_payload_size p rs =
     write_frame_to_conn max_payload_size p tunnel_header rs"

section \<open>Framing loses nothing\<close>

lemma write_bytes_prefix:
  "write_bytes w bs rs = Some (partial, e, out) \<Longrightarrow> prefix w out \<and> prefix out (w @ bs)"
proof (induction w bs rs rule: write_bytes.induct)
  case (3 w b rest n e' rs)
  have cut: "prefix (w @ take n (b # rest)) (w @ b # rest)"
    by (metis append_take_drop_id prefix_def append_assoc)
  show ?case
  proof (cases "e' = None \<and> n \<noteq> 0")
    case True
    with 3 have "prefix (w @ take n (b # rest)) out
        \<and> prefix out ((w @ take n (b # rest)) @ drop n (b # rest))"
      by (simp add: Let_def)
    then show ?thesis
      by (metis append_assoc append_prefixD append_take_drop_id)
  next
    case False
    with 3 cut show ?thesis by (auto simp: Let_def split: option.splits if_splits)
  qed
qed auto

lemma write_bytes_ok:
  "write_bytes w bs rs = Some (partial, None, out) \<Longrightarrow> out = w @ bs \<and> \<not> partial"
proof (induction w bs rs rule: write_bytes.induct)
  case (3 w b rest n e' rs)
  then show ?case
    by (cases e'; cases n) (auto simp: Let_def)
qed auto

definition buffered :: "framed_read_state \<Rightarrow> byte list" where
  "buffered st = header_read st @ (case payload_read st of None \<Rightarrow> [] | Some (n, got) \<Rightarrow> got)"

lemma buffered_simps:
  "payload_read st = None \<Longrightarrow> buffered st = header_read st"
  "payload_read st = Some (n, got) \<Longrightarrow> buffered st = header_read st @ got"
  "buffered new_framed_read_state = []"
  by (simp_all add: buffered_def new_framed_read_state_def)

lemma fill_buffer_keeps:
  assumes "length got \<le> n"
  shows "case fill_buffer n got es of
      Filled got' es' \<Rightarrow> length got' = n \<and> got' @ event_bytes es' = got @ event_bytes es
        \<and> event_errors es' \<subseteq> event_errors es \<and> event_size es' \<le> event_size es
    | FillError e got' es' \<Rightarrow> length got' \<le> n \<and> got' @ event_bytes es' = got @ event_bytes es
        \<and> event_errors es' \<subseteq> event_errors es \<and> event_size es' < event_size es
        \<and> e \<in> event_errors es
    | FillBlocked got' \<Rightarrow> length got' < n \<and> got' = got @ event_bytes es"
  using assms
proof (induction n got es rule: fill_buffer.induct)
  case (1 n got es)
  show ?case
  proof (cases "n \<le> length got")
    case True
    with "1.prems" show ?thesis by (simp add: fill_buffer.simps)
  next
    case False
    show ?thesis
    proof (cases "conn_read (n - length got) es")
      case None
      with False show ?thesis
        using conn_read_None [OF None] by (simp add: fill_buffer.simps)
    next
      case (Some r)
      obtain bs e es' where r: "r = (bs, e, es')" by (cases r)
      note read = conn_read_Some [OF Some [unfolded r]]
      have pos: "0 < n - length got" using False by simp
      show ?thesis
      proof (cases e)
        case (Some x)
        with False \<open>conn_read _ es = Some r\<close> r read pos show ?thesis
          by (auto simp: fill_buffer.simps [of n got es])
      next
        case None
        with False \<open>conn_read _ es = Some r\<close> r
        have eq: "fill_buffer n got es = fill_buffer n (got @ bs) es'"
          by (simp add: fill_buffer.simps [of n got es])
        have len: "length (got @ bs) \<le> n" using read(2) pos by simp
        from "1.IH" [OF False Some r [symmetric] refl None len] read(1,3,5) read(6) [OF pos]
        show ?thesis
          unfolding eq by (auto split: fill_result.splits)
      qed
    qed
  qed
qed

text \<open>A caller that retries after a timeout and stops on any other error.\<close>

primrec read_stream ::
    "(framed_read_state \<Rightarrow> conn_event list \<Rightarrow> 'a read_result \<times> framed_read_state \<times> conn_event list)
       \<Rightarrow> nat \<Rightarrow> framed_read_state \<Rightarrow> conn_event list \<Rightarrow> 'a list" where
  "read_stream reader 0 st es = []"
| "read_stream reader (Suc n) st es =
     (case reader st es of
        (r, st', es') \<Rightarrow>
          (case r of
             Got f \<Rightarrow> f # read_stream reader n st' es'
           | ReadFailed e \<Rightarrow> if e = ErrTimeout then read_stream reader n st' es' else []
           | ReadBlocked \<Rightarrow> []))"

lemma read_stream_map:
  assumes "\<And>st es. reader' st es =
    (case reader st es of
       (Got f, r) \<Rightarrow> (Got (g f), r)
     | (ReadFailed e, r) \<Rightarrow> (ReadFailed e, r)
     | (ReadBlocked, r) \<Rightarrow> (ReadBlocked, r))"
  shows "read_stream reader' n st es = map g (read_stream reader n st es)"
proof (induction n arbitrary: st es)
  case (Suc n)
  obtain r st' es' where "reader st es = (r, st', es')" by (cases "reader st es") auto
  with Suc assms [of st es] show ?case by (cases r) auto
qed simp

locale framing =
  fixes hsize :: nat
    and decode :: "byte list \<Rightarrow> 16 word \<times> nat"
    and header :: "16 word \<Rightarrow> nat \<Rightarrow> byte list"
    and tag_ok :: "16 word \<Rightarrow> bool"
  assumes hsize_pos: "0 < hsize"
    and length_header: "length (header t n) = hsize"
    and decode_header: "tag_ok t \<Longrightarrow> n < 2 ^ 32 \<Longrightarrow> decode (header t n) = (t, n)"
begin

definition encode :: "16 word \<times> byte list \<Rightarrow> byte list" where
  "encode f = header (fst f) (length (snd f)) @ snd f"

text \<open>The reader stands inside the frame \<open>f\<close>, or before it.\<close>

definition at_frame :: "framed_read_state \<Rightarrow> 16 word \<times> byte list \<Rightarrow> bool" where
  "at_frame st f \<longleftrightarrow>
     (case payload_read st of
        None \<Rightarrow> length (header_read st) \<le> hsize
      | Some (n, got) \<Rightarrow> n = length (snd f) \<and> header_read st = header (fst f) n
          \<and> frame_type st = fst f \<and> length got \<le> n)"

definition frame_ok :: "int \<Rightarrow> 16 word \<times> byte list \<Rightarrow> bool" where
  "frame_ok limit f \<longleftrightarrow> tag_ok (fst f) \<and> length (snd f) < 2 ^ 32
     \<and> (0 < limit \<longrightarrow> int (length (snd f)) \<le> limit)"

definition reads :: "16 word \<times> byte list \<Rightarrow> byte list \<Rightarrow> conn_event list
    \<Rightarrow> (16 word \<times> byte list) read_result \<times> framed_read_state \<times> conn_event list \<Rightarrow> bool" where
  "reads f rest es res \<longleftrightarrow>
     (case res of (r, st', es') \<Rightarrow>
        event_errors es' \<subseteq> {ConnTimeout} \<and>
        (case r of
           Got x \<Rightarrow> x = f \<and> st' = new_framed_read_state \<and> event_bytes es' = rest
             \<and> event_size es' \<le> event_size es
         | ReadFailed e \<Rightarrow> e = ErrTimeout \<and> at_frame st' f
             \<and> buffered st' @ event_bytes es' = encode f @ rest \<and> event_size es' < event_size es
         | ReadBlocked \<Rightarrow> False))"

lemma read_payload_reads:
  assumes "event_errors es \<subseteq> {ConnTimeout}"
    and "header_read st = header (fst f) (length (snd f))" and "frame_type st = fst f"
    and "length got \<le> length (snd f)" and "got @ event_bytes es = snd f @ rest"
  shows "reads f rest es (read_payload st (length (snd f)) got es)"
proof -
  note fill = fill_buffer_keeps [OF assms(4), of es]
  show ?thesis
  proof (cases "fill_buffer (length (snd f)) got es")
    case (Filled got' es')
    with fill assms(5) have "got' = snd f" "event_bytes es' = rest"
      by (auto simp: append_eq_append_conv)
    with Filled fill assms show ?thesis by (cases f) (auto simp: read_payload_def reads_def)
  next
    case (FillError e got' es')
    with fill assms show ?thesis
      by (auto simp: read_payload_def reads_def at_frame_def encode_def buffered_def)
  next
    case (FillBlocked got')
    with fill have "length (got @ event_bytes es) < length (snd f)" by auto
    then show ?thesis unfolding assms(5) by simp
  qed
qed


lemma read_frame_reads:
  assumes "event_errors es \<subseteq> {ConnTimeout}" and "frame_ok limit f" and "at_frame st f"
    and "buffered st @ event_bytes es = encode f @ rest"
  shows "reads f rest es (read_frame_from_conn hsize limit decode st es)"
proof -
  have len: "length (header_read st) \<le> hsize"
    using assms(3) by (auto simp: at_frame_def length_header split: option.splits)
  note fill = fill_buffer_keeps [OF len, of es]
  show ?thesis
  proof (cases "payload_read st")
    case (Some part)
    obtain n got where part: "part = (n, got)" by fastforce
    with Some assms(3) have st: "n = length (snd f)" "header_read st = header (fst f) n"
      "frame_type st = fst f" "length got \<le> n" by (auto simp: at_frame_def)
    have "fill_buffer hsize (header_read st) es = Filled (header_read st) es"
      by (simp add: fill_buffer.simps st(2) length_header)
    moreover have "got @ event_bytes es = snd f @ rest"
      using assms(4) Some part st(1,2) by (simp add: buffered_simps encode_def)
    ultimately show ?thesis
      using read_payload_reads [of es "st\<lparr>header_read := header_read st\<rparr>" f got rest] assms(1) st Some part
      by (simp add: read_frame_from_conn_def)
  next
    case None
    with assms(4) have all: "header_read st @ event_bytes es
        = header (fst f) (length (snd f)) @ snd f @ rest"
      by (simp add: buffered_simps encode_def)
    show ?thesis
    proof (cases "fill_buffer hsize (header_read st) es")
      case (Filled got es')
      with fill all have "length got = length (header (fst f) (length (snd f)))"
        and "got @ event_bytes es' = header (fst f) (length (snd f)) @ snd f @ rest"
        by (auto simp: length_header)
      then have h: "got = header (fst f) (length (snd f))"
        and b: "event_bytes es' = snd f @ rest"
        by (simp_all add: append_eq_append_conv)
      from Filled fill have e: "event_errors es' \<subseteq> event_errors es" "event_size es' \<le> event_size es"
        by simp_all
      have d: "decode got = (fst f, length (snd f))" "limit \<le> 0 \<or> int (length (snd f)) \<le> limit"
        using assms(2) h decode_header by (auto simp: frame_ok_def)
      let ?st = "st\<lparr>header_read := got, frame_type := fst f\<rparr>"
      have "reads f rest es' (read_payload ?st (length (snd f)) [] es')"
        by (rule read_payload_reads) (use assms(1) e h b in auto)
      then have r: "reads f rest es (read_payload ?st (length (snd f)) [] es')"
        using e(2) by (auto simp: reads_def split: prod.splits read_result.splits)
      show ?thesis
      proof (cases "snd f = []")
        case True
        then show ?thesis
          using Filled None d e b assms(1)
          by (cases f) (auto simp: read_frame_from_conn_def reads_def)
      next
        case False
        with r Filled None d show ?thesis
          by (auto simp: read_frame_from_conn_def)
      qed
    next
      case (FillError e got es')
      with fill None assms(1) all show ?thesis
        by (auto simp: read_frame_from_conn_def reads_def at_frame_def buffered_simps encode_def)
    next
      case (FillBlocked got)
      with fill have "length (header_read st @ event_bytes es) < hsize" by auto
      then show ?thesis unfolding all by (simp add: length_header)
    qed
  qed
qed

lemma read_frame_nothing:
  assumes "event_errors es \<subseteq> {ConnTimeout}" and "event_bytes es = []"
  shows "case read_frame_from_conn hsize limit decode new_framed_read_state es of
      (r, st', es') \<Rightarrow> event_errors es' \<subseteq> {ConnTimeout} \<and> event_bytes es' = []
        \<and> st' = new_framed_read_state \<and> (r = ReadFailed ErrTimeout \<or> r = ReadBlocked)"
  using fill_buffer_keeps [of "[]" hsize es] assms hsize_pos
  by (auto simp: read_frame_from_conn_def new_framed_read_state_def split: fill_result.splits)

lemma at_frame_new: "at_frame new_framed_read_state f"
  by (simp add: at_frame_def new_framed_read_state_def)

lemma read_stream_nothing:
  "event_errors es \<subseteq> {ConnTimeout} \<Longrightarrow> event_bytes es = [] \<Longrightarrow>
   read_stream (read_frame_from_conn hsize limit decode) n new_framed_read_state es = []"
proof (induction n arbitrary: es)
  case (Suc n)
  obtain r st' es' where res: "read_frame_from_conn hsize limit decode new_framed_read_state es
      = (r, st', es')" by (metis prod_cases3)
  from read_frame_nothing [OF Suc.prems, of limit] Suc.IH [of es'] show ?case
    by (auto simp: res)
qed simp

lemma read_stream_frames:
  assumes "event_errors es \<subseteq> {ConnTimeout}" and "\<forall>f \<in> set fs. frame_ok limit f"
    and "if fs = [] then st = new_framed_read_state else at_frame st (hd fs)"
    and "buffered st @ event_bytes es = concat (map encode fs)"
    and "event_size es + length fs \<le> n"
  shows "read_stream (read_frame_from_conn hsize limit decode) n st es = fs"
  using assms
proof (induction n arbitrary: st es fs)
  case (Suc n)
  show ?case
  proof (cases fs)
    case Nil
    with Suc.prems read_stream_nothing [of es limit "Suc n"] show ?thesis
      by (simp add: buffered_simps)
  next
    case (Cons f fs')
    obtain r st' es' where res: "read_frame_from_conn hsize limit decode st es = (r, st', es')"
      by (metis prod_cases3)
    have "reads f (concat (map encode fs')) es (r, st', es')"
      using read_frame_reads [of es limit f st "concat (map encode fs')"] Suc.prems Cons res by simp
    then show ?thesis
      using Suc.prems Cons Suc.IH [of es' fs' st'] Suc.IH [of es' fs st']
      by (cases r) (auto simp: reads_def res buffered_simps at_frame_new)
  qed
qed auto

end

interpretation control_framing: framing control_frame_header_size decode_control_header
    control_header "\<lambda>_. True"
  by unfold_locales
    (simp_all add: control_frame_header_size_def control_header_def decode_control_header_def
      sub_slice_def unat_of_nat_small)

interpretation tunnel_framing: framing tunnel_frame_header_size decode_tunnel_header
    "\<lambda>_. tunnel_header" "\<lambda>t. t = 0"
  by unfold_locales
    (simp_all add: tunnel_frame_header_size_def tunnel_header_def decode_tunnel_header_def
      sub_slice_def unat_of_nat_small)

text \<open>
  C14. Framing on a TCP connection is lossless: if every frame of a list was written by a
  successful \<open>writeControlFrameToConn\<close>, through any number of partial writes, and the bytes
  arrive cut into any pieces, with read timeouts at any point, even inside a header, then a
  reader that retries after a timeout reads exactly those frames in order. Enough calls are
  one per arriving piece, byte and frame.
\<close>

theorem control_framing_roundtrip:
  assumes "0 < limit" and "limit \<le> 2 ^ 32 - 1"
    and "list_all2 (\<lambda>f bs. \<exists>partial rs. write_control_frame_to_conn limit f rs = Some (partial, None, bs))
           frames written"
    and "event_bytes es = concat written" and "event_errors es \<subseteq> {ConnTimeout}"
    and "event_size es + length frames \<le> n"
  shows "read_stream (read_control_frame_from_conn limit) n new_framed_read_state es = frames"
proof -
  let ?raw = "\<lambda>f. (Type f, Payload f)" and ?frame = "\<lambda>(t, p). \<lparr>Type = t, Payload = p\<rparr> :: control_frame"
  have one: "control_framing.frame_ok limit (?raw f) \<and> bs = control_framing.encode (?raw f)"
    if "write_control_frame_to_conn limit f rs = Some (partial, None, bs)" for f bs partial rs
    using that assms(1,2)
    by (auto simp: write_control_frame_to_conn_def write_frame_to_conn_def
        control_framing.frame_ok_def control_framing.encode_def not_less
        split: if_splits dest: write_bytes_ok)
  have "written = map (control_framing.encode \<circ> ?raw) frames
      \<and> (\<forall>f \<in> set (map ?raw frames). control_framing.frame_ok limit f)"
    using assms(3) by (induction rule: list_all2_induct) (auto dest: one)
  then have "read_stream (read_frame_from_conn control_frame_header_size limit decode_control_header)
      n new_framed_read_state es = map ?raw frames"
    using assms(4-6)
    by (intro control_framing.read_stream_frames)
      (auto simp: buffered_simps control_framing.at_frame_new)
  moreover have "read_stream (read_control_frame_from_conn limit) n new_framed_read_state es
      = map ?frame (read_stream (read_frame_from_conn control_frame_header_size limit
          decode_control_header) n new_framed_read_state es)"
    by (rule read_stream_map)
      (auto simp: read_control_frame_from_conn_def split: read_result.splits prod.splits)
  moreover have "\<lparr>Type = Type f, Payload = Payload f\<rparr> = f" for f :: control_frame
    by (cases f) simp
  ultimately show ?thesis by (simp add: comp_def)
qed

theorem control_framing_roundtrip_witness:
  "read_stream (read_control_frame_from_conn 16) 14 new_framed_read_state
     [Chunk [1, 2, 0, 0] (Some ConnTimeout), Chunk [0] None, Chunk [1, 9] (Some ConnTimeout)]
   = [\<lparr>Type = 0x0102, Payload = [9]\<rparr>]"
proof (rule control_framing_roundtrip [where written = "[[1, 2, 0, 0, 0, 1, 9]]"])
  have "write_control_frame_to_conn 16 \<lparr>Type = 0x0102, Payload = [9]\<rparr> [(3, None), (9, None)]
      = Some (False, None, [1, 2, 0, 0, 0, 1, 9])"
    by (simp add: write_control_frame_to_conn_def write_frame_to_conn_def control_header_def
        be_bytes_def upt_rec)
  then show "list_all2 (\<lambda>f bs. \<exists>partial rs. write_control_frame_to_conn 16 f rs
      = Some (partial, None, bs)) [\<lparr>Type = 0x0102, Payload = [9]\<rparr>] [[1, 2, 0, 0, 0, 1, 9]]"
    by auto
qed simp_all

text \<open>The same frames as the tunnels use them, without a type.\<close>

lemma tunnel_framing_reads:
  assumes "event_errors es \<subseteq> {ConnTimeout}"
    and "\<forall>p \<in> set ps. length p < 2 ^ 32 \<and> (0 < limit \<longrightarrow> int (length p) \<le> limit)"
    and "event_bytes es = concat (map (\<lambda>p. tunnel_header (length p) @ p) ps)"
    and "event_size es + length ps \<le> n"
  shows "read_stream (read_tunnel_payload_from_conn limit) n new_framed_read_state es = ps"
proof -
  have "read_stream (read_frame_from_conn tunnel_frame_header_size limit decode_tunnel_header)
      n new_framed_read_state es = map (\<lambda>p. (0, p)) ps"
    using assms
    by (intro tunnel_framing.read_stream_frames)
      (auto simp: buffered_simps tunnel_framing.at_frame_new tunnel_framing.frame_ok_def
        tunnel_framing.encode_def comp_def)
  moreover have "read_stream (read_tunnel_payload_from_conn limit) n new_framed_read_state es
      = map snd (read_stream (read_frame_from_conn tunnel_frame_header_size limit
          decode_tunnel_header) n new_framed_read_state es)"
    by (rule read_stream_map)
      (auto simp: read_tunnel_payload_from_conn_def split: read_result.splits prod.splits)
  ultimately show ?thesis by (simp add: comp_def)
qed

end
