(* ===== verification/Protocol_Session.thy ===== *)
theory Protocol_Session
  imports Control_Message
begin

text \<open>
  The protocol session of \<open>ltfp/session/state_machine.go\<close>: the state machine of a connector
  session, the order of the handshake messages, the authority of the session epoch and the
  heartbeat timeout.
\<close>

section \<open>The state machine\<close>

datatype pb_session_state =
    PbConnecting
  | PbAuthenticating
  | PbActive
  | PbDraining
  | PbStale
  | PbClosed
  | PbOther string

datatype session_event =
    EventConnected
  | EventAuthStart
  | EventAuthSuccess
  | EventAuthFailed
  | EventHeartbeatTimeout
  | EventNewEpochTakeover
  | EventClosed
  | EventOther string

fun pb_state_text :: "pb_session_state \<Rightarrow> string" where
  "pb_state_text PbConnecting = ''CONNECTING''"
| "pb_state_text PbAuthenticating = ''AUTHENTICATING''"
| "pb_state_text PbActive = ''ACTIVE''"
| "pb_state_text PbDraining = ''DRAINING''"
| "pb_state_text PbStale = ''STALE''"
| "pb_state_text PbClosed = ''CLOSED''"
| "pb_state_text (PbOther s) = s"

fun event_text :: "session_event \<Rightarrow> string" where
  "event_text EventConnected = ''CONNECTED''"
| "event_text EventAuthStart = ''AUTH_START''"
| "event_text EventAuthSuccess = ''AUTH_SUCCESS''"
| "event_text EventAuthFailed = ''AUTH_FAILED''"
| "event_text EventHeartbeatTimeout = ''HEARTBEAT_TIMEOUT''"
| "event_text EventNewEpochTakeover = ''NEW_EPOCH_TAKEOVER''"
| "event_text EventClosed = ''CLOSED''"
| "event_text (EventOther s) = s"

definition invalid_transition :: "pb_session_state \<Rightarrow> session_event \<Rightarrow> chain_err" where
  "invalid_transition current event =
     new_error code_invalid_state_transition
       (''invalid transition: state='' @ pb_state_text current @ '' event='' @ event_text event)"

fun next_state :: "pb_session_state \<Rightarrow> session_event \<Rightarrow> chain_err + pb_session_state" where
  "next_state PbConnecting EventConnected = Inr PbAuthenticating"
| "next_state PbConnecting EventAuthStart = Inr PbAuthenticating"
| "next_state PbConnecting EventClosed = Inr PbClosed"
| "next_state PbAuthenticating EventAuthSuccess = Inr PbActive"
| "next_state PbAuthenticating EventAuthFailed = Inr PbClosed"
| "next_state PbAuthenticating EventClosed = Inr PbClosed"
| "next_state PbActive EventNewEpochTakeover = Inr PbDraining"
| "next_state PbActive EventHeartbeatTimeout = Inr PbStale"
| "next_state PbActive EventClosed = Inr PbClosed"
| "next_state PbDraining EventClosed = Inr PbClosed"
| "next_state PbStale EventClosed = Inr PbClosed"
| "next_state current event = Inl (invalid_transition current event)"

fun_cases next_state_InrE: "next_state s e = Inr t"

definition should_reject_resource_mutation :: "pb_session_state \<Rightarrow> bool" where
  "should_reject_resource_mutation s \<longleftrightarrow> s \<in> {PbDraining, PbStale, PbClosed}"

text \<open>
  The life of a session: every event is applied, an event that the machine refuses changes
  nothing.
\<close>

definition apply_event :: "session_event \<Rightarrow> pb_session_state \<Rightarrow> pb_session_state" where
  "apply_event event s = (case next_state s event of Inl e \<Rightarrow> s | Inr t \<Rightarrow> t)"

inductive session_step :: "pb_session_state \<Rightarrow> pb_session_state \<Rightarrow> bool" where
  "next_state s event = Inr t \<Longrightarrow> session_step s t"

lemma reject_kept:
  "next_state s event = Inr t \<Longrightarrow> should_reject_resource_mutation s \<Longrightarrow>
   should_reject_resource_mutation t"
  by (auto simp: should_reject_resource_mutation_def elim!: next_state_InrE)

lemma reject_kept_run:
  "should_reject_resource_mutation s \<Longrightarrow> should_reject_resource_mutation (fold apply_event es s)"
proof (induction es arbitrary: s)
  case (Cons e es)
  from Cons.prems have "should_reject_resource_mutation (apply_event e s)"
    by (auto simp: apply_event_def reject_kept split: sum.splits)
  with Cons.IH show ?case by simp
qed simp

text \<open>
  A session that may no longer change resources (draining, stale or closed) never may
  again, whatever events follow, in particular it never becomes active; and a closed session
  stays closed.
\<close>

theorem rejected_session_stays_rejected:
  assumes "should_reject_resource_mutation s"
  shows "should_reject_resource_mutation (fold apply_event es s)
    \<and> fold apply_event es s \<noteq> PbActive
    \<and> (s = PbClosed \<longrightarrow> fold apply_event es s = PbClosed)"
proof -
  have "fold apply_event es PbClosed = PbClosed"
    by (induction es) (simp_all add: apply_event_def)
  with reject_kept_run [OF assms, of es] show ?thesis
    by (auto simp: should_reject_resource_mutation_def)
qed

theorem rejected_session_stays_rejected_witness:
  "fold apply_event [EventAuthSuccess, EventConnected] PbStale \<noteq> PbActive"
  using rejected_session_stays_rejected [of PbStale "[EventAuthSuccess, EventConnected]"]
  by (simp add: should_reject_resource_mutation_def)

text \<open>The only way to become active.\<close>

fun run_events :: "pb_session_state \<Rightarrow> session_event list \<Rightarrow> pb_session_state option" where
  "run_events s [] = Some s"
| "run_events s (e # es) = (case next_state s e of Inl err \<Rightarrow> None | Inr t \<Rightarrow> run_events t es)"

lemma run_not_active:
  "should_reject_resource_mutation s \<Longrightarrow> run_events s es \<noteq> Some PbActive"
  by (induction es arbitrary: s)
    (auto simp: should_reject_resource_mutation_def elim!: next_state_InrE split: sum.splits)

lemma run_active_from_active: "run_events PbActive es = Some PbActive \<longleftrightarrow> es = []"
proof (cases es)
  case (Cons e es')
  then show ?thesis
    using run_not_active [of _ es']
    by (cases e) (auto simp: should_reject_resource_mutation_def)
qed simp

lemma run_active_from_authenticating:
  "run_events PbAuthenticating es = Some PbActive \<longleftrightarrow> es = [EventAuthSuccess]"
proof (cases es)
  case (Cons e es')
  then show ?thesis
    using run_not_active [of PbClosed es'] run_active_from_active [of es']
    by (cases e) (auto simp: should_reject_resource_mutation_def)
qed simp

text \<open>
  A session is active after a sequence of accepted events if and only if the sequence is a
  connect (or start of authentication) followed by the success of authentication, and nothing
  else: there is no way to an active session around authentication, and no way back to one.
\<close>

theorem active_only_by_authentication:
  "run_events PbConnecting es = Some PbActive
     \<longleftrightarrow> es = [EventConnected, EventAuthSuccess] \<or> es = [EventAuthStart, EventAuthSuccess]"
proof (cases es)
  case (Cons e es')
  then show ?thesis
    using run_not_active [of PbClosed es'] run_active_from_authenticating [of es']
    by (cases e) (auto simp: should_reject_resource_mutation_def)
qed simp


section \<open>The handshake\<close>

definition handshake_order :: "control_message_type list" where
  "handshake_order = [''ConnectorHello'', ''ConnectorWelcome'', ''ConnectorAuth'', ''ConnectorAuthAck'']"

text \<open>The two loops: the fixed prefix, then heartbeats only.\<close>

fun check_prefix :: "nat \<Rightarrow> control_message_type list \<Rightarrow> control_message_type list \<Rightarrow> chain_err option" where
  "check_prefix index [] sequence = None"
| "check_prefix index (expected # rest) sequence =
     (case sequence of
        [] \<Rightarrow> None
      | got # sequence' \<Rightarrow>
          if got \<noteq> expected
          then Some (new_error code_invalid_payload
                 (''invalid handshake order at index='' @ show_nat index @ '': got='' @ got
                  @ '' want='' @ expected))
          else check_prefix (Suc index) rest sequence')"

fun check_heartbeats :: "control_message_type list \<Rightarrow> chain_err option" where
  "check_heartbeats [] = None"
| "check_heartbeats (got # rest) =
     (if got \<noteq> ''Heartbeat''
      then Some (new_error code_invalid_payload
             (''message after authAck must be heartbeat, got='' @ got))
      else check_heartbeats rest)"

definition validate_handshake_sequence :: "control_message_type list \<Rightarrow> chain_err option" where
  "validate_handshake_sequence sequence =
     (if length sequence < length handshake_order
      then Some (new_error code_invalid_payload ''handshake sequence is incomplete'')
      else case check_prefix 0 handshake_order sequence of
             Some e \<Rightarrow> Some e
           | None \<Rightarrow> check_heartbeats (drop (length handshake_order) sequence))"

lemma check_prefix_ok:
  "length expected \<le> length sequence \<Longrightarrow>
   check_prefix i expected sequence = None \<longleftrightarrow> take (length expected) sequence = expected"
  by (induction i expected sequence rule: check_prefix.induct) (auto split: list.splits)

lemma check_heartbeats_ok: "check_heartbeats s = None \<longleftrightarrow> s = replicate (length s) ''Heartbeat''"
  by (induction s rule: check_heartbeats.induct) auto

text \<open>
  A handshake is accepted exactly when it is the four handshake messages in their order
  followed by heartbeats only.
\<close>

theorem handshake_accepted_iff:
  "validate_handshake_sequence s = None \<longleftrightarrow> (\<exists>n. s = handshake_order @ replicate n ''Heartbeat'')"
proof
  assume ok: "validate_handshake_sequence s = None"
  then have len: "length handshake_order \<le> length s"
    by (auto simp: validate_handshake_sequence_def split: if_splits)
  with ok have "take (length handshake_order) s = handshake_order"
    and "check_heartbeats (drop (length handshake_order) s) = None"
    by (auto simp: validate_handshake_sequence_def check_prefix_ok [OF len, of 0]
        split: option.splits)
  then show "\<exists>n. s = handshake_order @ replicate n ''Heartbeat''"
    by (metis append_take_drop_id check_heartbeats_ok)
next
  assume "\<exists>n. s = handshake_order @ replicate n ''Heartbeat''"
  then obtain n where s: "s = handshake_order @ replicate n ''Heartbeat''" by blast
  then have len: "length handshake_order \<le> length s" by simp
  have "check_prefix 0 handshake_order s = None"
    by (simp add: check_prefix_ok [OF len, of 0]) (simp add: s)
  moreover have "check_heartbeats (drop (length handshake_order) s) = None"
    by (simp add: s check_heartbeats_ok)
  ultimately show "validate_handshake_sequence s = None"
    using len by (simp add: validate_handshake_sequence_def)
qed

text \<open>\<open>ValidateAuthEpochAuthority\<close> on the fields that it reads.\<close>

definition validate_auth_epoch_authority :: "64 word \<Rightarrow> bool \<Rightarrow> 64 word \<Rightarrow> chain_err option" where
  "validate_auth_epoch_authority assigned_session_epoch success session_epoch =
     (if \<not> success then None
      else if session_epoch = 0
      then Some (new_error code_invalid_session_epoch
             ''authAck.sessionEpoch must be greater than 0 when auth success'')
      else if session_epoch \<noteq> assigned_session_epoch
      then Some (new_error code_invalid_session_epoch
             ''authAck.sessionEpoch must equal welcome.assignedSessionEpoch'')
      else None)"


section \<open>Heartbeat timeout\<close>

text \<open>The product is computed on \<open>uint32\<close>, before the conversion to a duration.\<close>

definition second_ns :: int where "second_ns = 1000000000"

definition is_heartbeat_timeout :: "gotime \<Rightarrow> gotime \<Rightarrow> 32 word \<Rightarrow> 32 word \<Rightarrow> bool" where
  "is_heartbeat_timeout last_heartbeat now interval_sec multiplier0 =
     (if is_zero last_heartbeat then True
      else
        let multiplier = (if multiplier0 = 0 then 1 else multiplier0);
            timeout0 = wrap64 (int (unat (interval_sec * multiplier)) * second_ns);
            timeout = (if timeout0 = 0 then second_ns else timeout0)
        in time_sub now last_heartbeat > timeout)"

lemma seconds_no_wrap: "0 \<le> x \<Longrightarrow> x < 2 ^ 32 \<Longrightarrow> wrap64 (x * second_ns) = x * second_ns"
  by (rule wrap64_id) (simp_all add: min_int64_def max_int64_def second_ns_def)

lemma int_less_2p32: "n < 2 ^ 32 \<Longrightarrow> int n < 2 ^ 32"
  by simp

lemma timeout_no_wrap:
  fixes w :: "32 word"
  shows "wrap64 (int (unat w) * second_ns) = int (unat w) * second_ns"
proof (rule seconds_no_wrap)
  have "unat w < 2 ^ LENGTH(32)" by (rule unsigned_less)
  then have "unat w < 2 ^ 32" by simp
  then show "int (unat w) < 2 ^ 32" by (rule int_less_2p32)
qed simp

text \<open>
  A session has timed out exactly when it was silent for longer than the product of
  interval and multiplier, as long as the product fits in 32 bits.
\<close>

theorem heartbeat_timeout_iff:
  assumes "\<not> is_zero last_heartbeat" and "i \<noteq> 0" and "m \<noteq> 0" and "unat i * unat m < 2 ^ 32"
  shows "is_heartbeat_timeout last_heartbeat now i m
    \<longleftrightarrow> now - last_heartbeat > int (unat i) * int (unat m) * second_ns"
proof -
  let ?n = "unat i * unat m"
  have u: "unat (i * m) = ?n"
    using assms(4) by (simp add: unat_mult_lem [THEN iffD1])
  have "?n \<noteq> 0" using assms(2,3) by (simp add: unat_eq_0)
  then have nz: "int ?n * second_ns \<noteq> 0" by (simp add: second_ns_def del: of_nat_mult)
  have "int ?n < 2 ^ 32" using assms(4) by (rule int_less_2p32)
  then have "int ?n * second_ns < max_int64"
    by (simp add: second_ns_def max_int64_def del: of_nat_mult)
  moreover have "min_int64 \<le> int ?n * second_ns"
    by (simp add: second_ns_def min_int64_def del: of_nat_mult)
  ultimately have "int ?n * second_ns < time_sub now last_heartbeat
      \<longleftrightarrow> int ?n * second_ns < now - last_heartbeat"
    by (rule time_sub_greater [rotated])
  moreover have m: "(if m = 0 then 1 else m) = m" using assms(3) by simp
  have "is_heartbeat_timeout last_heartbeat now i m
      \<longleftrightarrow> int ?n * second_ns < time_sub now last_heartbeat"
    unfolding is_heartbeat_timeout_def Let_def m timeout_no_wrap u
    by (simp only: assms(1) nz if_False)
  ultimately show ?thesis by simp
qed

theorem heartbeat_timeout_iff_witness:
  "is_heartbeat_timeout 1 (45 * second_ns + 2) 15 3 \<and> \<not> is_heartbeat_timeout 1 (45 * second_ns + 1) 15 3"
  using heartbeat_timeout_iff [of 1 15 3] by (simp add: zero_time_def second_ns_def)

text \<open>
  When the product of interval and multiplier does not fit in 32 bits, it wraps: an
  interval of 65536 seconds with multiplier 65536 is treated as one second, so a session that
  sent its heartbeat two seconds ago is declared dead.
\<close>

theorem heartbeat_timeout_wraps:
  "is_heartbeat_timeout 1 (2 * second_ns + 1) 65536 65536"
  by (simp add: is_heartbeat_timeout_def zero_time_def second_ns_def time_sub_def wrap64_def
      min_int64_def max_int64_def)

end
