(* ===== verification/Consistency.thy ===== *)
theory Consistency
  imports Control_Message
begin

text \<open>
  Idempotency and ordering of resource events (\<open>ltfp/consistency\<close>): the replay window, the
  resource event guard on top of it, the acknowledgements that are built from its decisions,
  and the plan of a reconnect.
\<close>

section \<open>Events\<close>

datatype version_relation = VersionRelationOlder | VersionRelationEqual | VersionRelationNewer

definition build_dedup_key :: "string \<Rightarrow> string \<Rightarrow> chain_err + string" where
  "build_dedup_key session_id event_id =
     (let normalized_session_id = trim_space session_id;
          normalized_event_id = trim_space event_id
      in if normalized_session_id = []
         then Inl (new_error code_missing_required_field ''sessionId is required'')
         else if normalized_event_id = []
         then Inl (new_error code_invalid_event_id ''eventId is required'')
         else Inr (normalized_session_id @ '':'' @ normalized_event_id))"

definition compare_resource_version :: "64 word \<Rightarrow> 64 word \<Rightarrow> version_relation" where
  "compare_resource_version current_version incoming_version =
     (if incoming_version < current_version then VersionRelationOlder
      else if incoming_version > current_version then VersionRelationNewer
      else VersionRelationEqual)"

definition validate_resource_version_advance :: "64 word \<Rightarrow> 64 word \<Rightarrow> chain_err option" where
  "validate_resource_version_advance current_version incoming_version =
     (if compare_resource_version current_version incoming_version = VersionRelationOlder
      then Some (new_error code_version_rollback
                   ''incoming resourceVersion is older than current resourceVersion'')
      else None)"


section \<open>The replay window\<close>

record replay_window =
  capacity :: int
  order :: "string list"
  seen :: "string set"

definition new_replay_window :: "int \<Rightarrow> replay_window" where
  "new_replay_window c =
     (let c1 = (if c \<le> 0 then 1 else c) in \<lparr>capacity = c1, order = [], seen = {}\<rparr>)"

definition seen_or_add :: "string \<Rightarrow> replay_window \<Rightarrow> bool \<times> replay_window" where
  "seen_or_add key window =
     (if key \<in> seen window then (True, window)
      else
        let window1 = window\<lparr>seen := insert key (seen window), order := order window @ [key]\<rparr>
        in if int (length (order window1)) > capacity window1
           then (False, window1\<lparr>order := tl (order window1),
                                seen := seen window1 - {hd (order window1)}\<rparr>)
           else (False, window1))"

definition window_size :: "replay_window \<Rightarrow> nat" where
  "window_size window = card (seen window)"

definition window_inv :: "replay_window \<Rightarrow> bool" where
  "window_inv w \<longleftrightarrow> 0 < capacity w \<and> distinct (order w) \<and> seen w = set (order w)
     \<and> int (length (order w)) \<le> capacity w"

lemma window_inv_new: "window_inv (new_replay_window c)"
  by (simp add: window_inv_def new_replay_window_def)

lemma window_inv_add: "window_inv w \<Longrightarrow> window_inv (snd (seen_or_add k w))"
  by (cases "order w") (auto simp: window_inv_def seen_or_add_def Let_def)

lemma capacity_add [simp]: "capacity (snd (seen_or_add k w)) = capacity w"
  by (simp add: seen_or_add_def Let_def)

text \<open>A key that was just looked up is in the window.\<close>

lemma seen_after_add: "window_inv w \<Longrightarrow> k \<in> seen (snd (seen_or_add k w))"
  by (cases "order w") (auto simp: window_inv_def seen_or_add_def Let_def)

text \<open>A sequence of lookups, and its reference: a key was seen if it occurred before.\<close>

fun window_run :: "string list \<Rightarrow> replay_window \<Rightarrow> bool list \<times> replay_window" where
  "window_run [] w = ([], w)"
| "window_run (k # ks) w =
     (let w1 = snd (seen_or_add k w)
      in (fst (seen_or_add k w) # fst (window_run ks w1), snd (window_run ks w1)))"

fun occurs_before :: "string set \<Rightarrow> string list \<Rightarrow> bool list" where
  "occurs_before S [] = []"
| "occurs_before S (k # ks) = (k \<in> S) # occurs_before (insert k S) ks"

lemma window_run_exact:
  assumes "window_inv w" and "int (card (seen w \<union> set ks)) \<le> capacity w"
  shows "fst (window_run ks w) = occurs_before (seen w) ks"
  using assms
proof (induction ks arbitrary: w)
  case (Cons k ks)
  have fin: "finite (seen w)" using Cons.prems(1) by (simp add: window_inv_def)
  show ?case
  proof (cases "k \<in> seen w")
    case True
    with Cons show ?thesis by (simp add: seen_or_add_def Let_def insert_absorb)
  next
    case False
    have "card (insert k (seen w)) \<le> card (seen w \<union> set (k # ks))"
      by (rule card_mono) (use fin in auto)
    moreover have "card (insert k (seen w)) = Suc (length (order w))"
      using False Cons.prems(1) by (simp add: window_inv_def distinct_card)
    ultimately have room: "int (Suc (length (order w))) \<le> capacity w"
      using Cons.prems(2) by linarith
    let ?w1 = "w\<lparr>seen := insert k (seen w), order := order w @ [k]\<rparr>"
    have add: "seen_or_add k w = (False, ?w1)"
      using False room by (simp add: seen_or_add_def Let_def)
    have "window_inv ?w1" using window_inv_add [OF Cons.prems(1), of k] by (simp add: add)
    then have "fst (window_run ks ?w1) = occurs_before (insert k (seen w)) ks"
      using Cons.IH [of ?w1] Cons.prems(2) by simp
    with False show ?thesis by (simp add: add Let_def)
  qed
qed simp

lemma window_run_inv:
  "window_inv w \<Longrightarrow>
   window_inv (snd (window_run ks w)) \<and> capacity (snd (window_run ks w)) = capacity w"
  by (induction ks arbitrary: w) (simp_all add: Let_def window_inv_add)

text \<open>
  The replay window is bounded and, as long as no more different keys arrive than fit,
  exact: it never holds more keys than its capacity, and it reports a key as seen if and only
  if that key occurred earlier in the stream.
\<close>

theorem replay_window_exact_and_bounded:
  "window_size (snd (window_run ks (new_replay_window c))) \<le> nat (max 1 c)
   \<and> (int (card (set ks)) > max 1 c
      \<or> fst (window_run ks (new_replay_window c)) = occurs_before {} ks)"
proof -
  let ?w = "new_replay_window c"
  have cap: "capacity ?w = max 1 c" by (simp add: new_replay_window_def)
  from window_run_inv [OF window_inv_new [of c], of ks]
  have "window_size (snd (window_run ks ?w)) \<le> nat (max 1 c)"
    by (auto simp: window_inv_def window_size_def distinct_card cap)
  moreover have "fst (window_run ks ?w) = occurs_before {} ks" if "int (card (set ks)) \<le> max 1 c"
    using window_run_exact [OF window_inv_new [of c], of ks] that
    by (simp add: cap) (simp add: new_replay_window_def)
  ultimately show ?thesis by fastforce
qed


section \<open>The resource event guard\<close>

datatype event_status = EventStatusAccepted | EventStatusDuplicate | EventStatusRejected

record resource_event_meta =
  meta_session_id :: string
  meta_session_epoch :: "64 word"
  meta_event_id :: string
  meta_resource_type :: string
  meta_resource_id :: string
  meta_resource_version :: "64 word"

text \<open>\<open>Status\<close> is a string in the code, empty until it is set: \<open>None\<close> here.\<close>

record resource_event_decision =
  Status :: "event_status option"
  DedupKey :: string
  ResourceKey :: string
  AcceptedResourceVersion :: "64 word"
  CurrentResourceVersion :: "64 word"
  ErrorCode :: string
  ErrorMessage :: string

definition empty_decision :: resource_event_decision where
  "empty_decision =
     \<lparr>Status = None, DedupKey = [], ResourceKey = [], AcceptedResourceVersion = 0,
      CurrentResourceVersion = 0, ErrorCode = [], ErrorMessage = []\<rparr>"

record resource_event_guard =
  replayWindow :: replay_window
  resourceVersions :: "(string, 64 word) gomap"

definition new_resource_event_guard :: "int \<Rightarrow> resource_event_guard" where
  "new_resource_event_guard replay_capacity =
     \<lparr>replayWindow = new_replay_window replay_capacity, resourceVersions = []\<rparr>"

definition version_of :: "(string, 64 word) gomap \<Rightarrow> string \<Rightarrow> 64 word" where
  "version_of m k = (case map_of m k of None \<Rightarrow> 0 | Some v \<Rightarrow> v)"

definition build_resource_key :: "string \<Rightarrow> string \<Rightarrow> string option" where
  "build_resource_key resource_type resource_id =
     (let normalized_type = trim_space resource_type; normalized_id = trim_space resource_id
      in if normalized_type = [] \<or> normalized_id = [] then None
         else Some (normalized_type @ '':'' @ normalized_id))"

definition rejected_with :: "chain_err \<Rightarrow> resource_event_decision" where
  "rejected_with e =
     empty_decision\<lparr>Status := Some EventStatusRejected, ErrorCode := extract_code (Some e),
                    ErrorMessage := error_text e\<rparr>"

definition validate_and_build_keys ::
    "resource_event_meta \<Rightarrow> resource_event_decision \<times> bool" where
  "validate_and_build_keys meta =
     (case validate_resource_meta (meta_session_id meta) (meta_session_epoch meta)
             (meta_event_id meta) (meta_resource_version meta) of
        Some e \<Rightarrow> (rejected_with e, False)
      | None \<Rightarrow>
          (case build_dedup_key (meta_session_id meta) (meta_event_id meta) of
             Inl e \<Rightarrow> (rejected_with e, False)
           | Inr dedup_key \<Rightarrow>
               (case build_resource_key (meta_resource_type meta) (meta_resource_id meta) of
                  None \<Rightarrow> (rejected_with (new_error code_missing_required_field
                             ''resourceType and resourceID are required''), False)
                | Some resource_key \<Rightarrow>
                    (empty_decision\<lparr>DedupKey := dedup_key, ResourceKey := resource_key\<rparr>, True))))"

definition rollback_error :: chain_err where
  "rollback_error = new_error code_version_rollback
     ''incoming resourceVersion is older than current resourceVersion''"

definition evaluate ::
    "resource_event_meta \<Rightarrow> resource_event_guard
       \<Rightarrow> resource_event_decision \<times> resource_event_guard" where
  "evaluate meta guard0 =
     (case validate_and_build_keys meta of
        (decision, False) \<Rightarrow> (decision, guard0)
      | (decision, True) \<Rightarrow>
          let (was_seen, window) = seen_or_add (DedupKey decision) (replayWindow guard0);
              guard = guard0\<lparr>replayWindow := window\<rparr>;
              current = version_of (resourceVersions guard) (ResourceKey decision)
          in if was_seen
             then (decision\<lparr>Status := Some EventStatusDuplicate, CurrentResourceVersion := current,
                            AcceptedResourceVersion := current\<rparr>, guard)
             else case compare_resource_version current (meta_resource_version meta) of
                VersionRelationOlder \<Rightarrow>
                  (decision\<lparr>Status := Some EventStatusRejected, CurrentResourceVersion := current,
                            AcceptedResourceVersion := current,
                            ErrorCode := extract_code (Some rollback_error),
                            ErrorMessage := error_text rollback_error\<rparr>, guard)
              | VersionRelationEqual \<Rightarrow>
                  (decision\<lparr>Status := Some EventStatusDuplicate, CurrentResourceVersion := current,
                            AcceptedResourceVersion := current\<rparr>, guard)
              | VersionRelationNewer \<Rightarrow>
                  (decision\<lparr>Status := Some EventStatusAccepted,
                            CurrentResourceVersion := meta_resource_version meta,
                            AcceptedResourceVersion := meta_resource_version meta\<rparr>,
                   guard\<lparr>resourceVersions :=
                      map_put (ResourceKey decision) (meta_resource_version meta)
                        (resourceVersions guard)\<rparr>))"

definition set_version ::
    "string \<Rightarrow> string \<Rightarrow> 64 word \<Rightarrow> resource_event_guard \<Rightarrow> resource_event_guard" where
  "set_version resource_type resource_id version guard =
     (if version = 0 then guard
      else case build_resource_key resource_type resource_id of
             None \<Rightarrow> guard
           | Some resource_key \<Rightarrow>
               guard\<lparr>resourceVersions := map_put resource_key version (resourceVersions guard)\<rparr>)"

fun replace_versions ::
    "(string, 64 word) gomap \<Rightarrow> (string, 64 word) gomap \<Rightarrow> (string, 64 word) gomap" where
  "replace_versions [] m = m"
| "replace_versions ((key, version) # snapshot) m =
     (if trim_space key = [] then replace_versions snapshot m
      else if version = 0 then replace_versions snapshot m
      else replace_versions snapshot (map_put key version m))"

definition replace_all_versions ::
    "(string, 64 word) gomap \<Rightarrow> resource_event_guard \<Rightarrow> resource_event_guard" where
  "replace_all_versions snapshot guard = guard\<lparr>resourceVersions := replace_versions snapshot []\<rparr>"

definition snapshot_versions :: "resource_event_guard \<Rightarrow> (string, 64 word) gomap" where
  "snapshot_versions guard = fold (\<lambda>(key, version) m. map_put key version m) (resourceVersions guard) []"


section \<open>Acknowledgements\<close>

definition ack_accepted :: "event_status \<Rightarrow> bool" where
  "ack_accepted status \<longleftrightarrow> status = EventStatusAccepted \<or> status = EventStatusDuplicate"

text \<open>The fields that the four acknowledgements share; each adds its identifiers.\<close>

record resource_ack =
  ack_is_accepted :: bool
  ack_ids :: "string list"
  ack_accepted_version :: "64 word"
  ack_current_version :: "64 word"
  ack_error_code :: string
  ack_error_message :: string

definition build_publish_service_ack ::
    "event_status \<Rightarrow> string \<Rightarrow> string \<Rightarrow> string \<Rightarrow> string list \<Rightarrow> 64 word \<Rightarrow> 64 word \<Rightarrow> string \<Rightarrow> string
       \<Rightarrow> resource_ack" where
  "build_publish_service_ack status logical_service_id instance_id service_name scope
       accepted_version current_version error_code error_message =
     \<lparr>ack_is_accepted = ack_accepted status,
      ack_ids = [logical_service_id, instance_id, service_name] @ scope,
      ack_accepted_version = accepted_version, ack_current_version = current_version,
      ack_error_code = error_code, ack_error_message = error_message\<rparr>"

definition build_unpublish_service_ack ::
    "event_status \<Rightarrow> string \<Rightarrow> string \<Rightarrow> 64 word \<Rightarrow> 64 word \<Rightarrow> string \<Rightarrow> string \<Rightarrow> resource_ack" where
  "build_unpublish_service_ack status logical_service_id instance_id
       accepted_version current_version error_code error_message =
     \<lparr>ack_is_accepted = ack_accepted status,
      ack_ids = [logical_service_id, instance_id],
      ack_accepted_version = accepted_version, ack_current_version = current_version,
      ack_error_code = error_code, ack_error_message = error_message\<rparr>"

definition build_route_assign_ack ::
    "event_status \<Rightarrow> string \<Rightarrow> 64 word \<Rightarrow> 64 word \<Rightarrow> string \<Rightarrow> string \<Rightarrow> resource_ack" where
  "build_route_assign_ack status route_id accepted_version current_version error_code error_message =
     \<lparr>ack_is_accepted = ack_accepted status, ack_ids = [route_id],
      ack_accepted_version = accepted_version, ack_current_version = current_version,
      ack_error_code = error_code, ack_error_message = error_message\<rparr>"

definition build_route_revoke_ack ::
    "event_status \<Rightarrow> string \<Rightarrow> 64 word \<Rightarrow> 64 word \<Rightarrow> string \<Rightarrow> string \<Rightarrow> resource_ack" where
  "build_route_revoke_ack status route_id accepted_version current_version error_code error_message =
     \<lparr>ack_is_accepted = ack_accepted status, ack_ids = [route_id],
      ack_accepted_version = accepted_version, ack_current_version = current_version,
      ack_error_code = error_code, ack_error_message = error_message\<rparr>"


section \<open>Reconnect\<close>

record reconnect_sync_plan =
  NeedFullSync :: bool
  Reason :: string
  SinceResourceVersion :: "64 word"

definition build_reconnect_sync_plan ::
    "string \<Rightarrow> 64 word \<Rightarrow> string \<Rightarrow> 64 word \<Rightarrow> 64 word \<Rightarrow> reconnect_sync_plan" where
  "build_reconnect_sync_plan previous_session_id previous_session_epoch current_session_id
       current_session_epoch current_resource_version =
     (if previous_session_id \<noteq> [] \<and> current_session_id \<noteq> [] \<and> previous_session_id \<noteq> current_session_id
      then \<lparr>NeedFullSync = True, Reason = ''session_id_changed'', SinceResourceVersion = 0\<rparr>
      else if previous_session_epoch > 0 \<and> current_session_epoch > previous_session_epoch
      then \<lparr>NeedFullSync = True, Reason = ''session_epoch_advanced'', SinceResourceVersion = 0\<rparr>
      else if previous_session_epoch = 0
      then \<lparr>NeedFullSync = True, Reason = ''initial_sync'', SinceResourceVersion = 0\<rparr>
      else \<lparr>NeedFullSync = False, Reason = ''delta_sync'',
            SinceResourceVersion = current_resource_version\<rparr>)"


section \<open>What the guard guarantees\<close>

fun evaluate_all :: "resource_event_meta list \<Rightarrow> resource_event_guard \<Rightarrow> resource_event_decision list" where
  "evaluate_all [] g = []"
| "evaluate_all (m # ms) g = fst (evaluate m g) # evaluate_all ms (snd (evaluate m g))"

lemma version_of_put:
  "version_of (map_put k v m) k' = (if k' = k then v else version_of m k')"
  by (simp add: version_of_def)

lemma evaluate_versions:
  "Status (fst (evaluate m g)) = Some EventStatusAccepted
     \<and> version_of (resourceVersions g) (ResourceKey (fst (evaluate m g)))
         < AcceptedResourceVersion (fst (evaluate m g))
     \<and> resourceVersions (snd (evaluate m g))
         = map_put (ResourceKey (fst (evaluate m g))) (AcceptedResourceVersion (fst (evaluate m g)))
             (resourceVersions g)
   \<or> Status (fst (evaluate m g)) \<noteq> Some EventStatusAccepted
     \<and> resourceVersions (snd (evaluate m g)) = resourceVersions g"
proof (cases "validate_and_build_keys m")
  case (Pair d ok)
  show ?thesis
  proof (cases ok)
    case False
    with Pair have "Status d = Some EventStatusRejected"
      by (auto simp: validate_and_build_keys_def rejected_with_def split: option.splits sum.splits)
    with Pair False show ?thesis by (simp add: evaluate_def)
  next
    case True
    obtain b w where b: "seen_or_add (DedupKey d) (replayWindow g) = (b, w)" by fastforce
    show ?thesis
      by (cases b; cases "compare_resource_version
            (version_of (resourceVersions g) (ResourceKey d)) (meta_resource_version m)")
        (use Pair True b in \<open>auto simp: evaluate_def Let_def compare_resource_version_def
          split: if_splits\<close>)
  qed
qed

definition accepted_for :: "string \<Rightarrow> resource_event_decision list \<Rightarrow> 64 word list" where
  "accepted_for k ds = map AcceptedResourceVersion
     (filter (\<lambda>d. Status d = Some EventStatusAccepted \<and> ResourceKey d = k) ds)"

lemma accepted_for_Cons:
  "accepted_for k (d # ds) = (if Status d = Some EventStatusAccepted \<and> ResourceKey d = k
     then AcceptedResourceVersion d # accepted_for k ds else accepted_for k ds)"
  by (simp add: accepted_for_def)

lemma accepted_increase:
  "sorted_wrt (<) (version_of (resourceVersions g) k # accepted_for k (evaluate_all ms g))"
proof (induction ms arbitrary: g)
  case Nil
  then show ?case by (simp add: accepted_for_def)
next
  case (Cons m ms)
  let ?d = "fst (evaluate m g)" and ?g = "snd (evaluate m g)"
  show ?case
    using evaluate_versions [of m g]
  proof
    assume acc: "Status ?d = Some EventStatusAccepted
     \<and> version_of (resourceVersions g) (ResourceKey ?d) < AcceptedResourceVersion ?d
     \<and> resourceVersions ?g = map_put (ResourceKey ?d) (AcceptedResourceVersion ?d) (resourceVersions g)"
    show ?thesis
    proof (cases "ResourceKey ?d = k")
      case True
      with acc have v: "version_of (resourceVersions ?g) k = AcceptedResourceVersion ?d"
        and less: "version_of (resourceVersions g) k < AcceptedResourceVersion ?d"
        by (auto simp: version_of_put)
      have "accepted_for k (evaluate_all (m # ms) g)
          = AcceptedResourceVersion ?d # accepted_for k (evaluate_all ms ?g)"
        using acc True by (simp add: accepted_for_Cons)
      with Cons.IH [of ?g] v less show ?thesis by (auto dest: order_less_trans)
    next
      case False
      with acc have "version_of (resourceVersions ?g) k = version_of (resourceVersions g) k"
        by (simp add: version_of_put)
      moreover have "accepted_for k (evaluate_all (m # ms) g) = accepted_for k (evaluate_all ms ?g)"
        using False by (simp add: accepted_for_Cons)
      ultimately show ?thesis using Cons.IH [of ?g] by simp
    qed
  next
    assume rej: "Status ?d \<noteq> Some EventStatusAccepted \<and> resourceVersions ?g = resourceVersions g"
    then have "accepted_for k (evaluate_all (m # ms) g) = accepted_for k (evaluate_all ms ?g)"
      by (simp add: accepted_for_Cons)
    with rej Cons.IH [of ?g] show ?thesis by simp
  qed
qed

text \<open>
  No resource ever moves backwards: over any sequence of events, whatever the capacity of
  the replay window and whatever repetitions and reorderings the sequence has, the versions
  that are accepted for one resource increase strictly, starting above the version that the
  guard held.
\<close>

theorem accepted_versions_increase:
  "sorted_wrt (<) (version_of (resourceVersions g) k # accepted_for k (evaluate_all ms g))"
  by (rule accepted_increase)

text \<open>
  A rejected event becomes an accepted one when it is sent again: the guard enters the
  event into the replay window before it compares versions, so the retry of an event that was
  rejected for a version rollback is answered "duplicate", which the acknowledgement reports
  as accepted although the event was never applied.
\<close>

theorem rollback_retry_is_acknowledged:
  assumes "window_inv (replayWindow g)" and "evaluate meta g = (d, g')"
    and "ErrorCode d = code_version_rollback"
  shows "Status d = Some EventStatusRejected
    \<and> Status (fst (evaluate meta g')) = Some EventStatusDuplicate
    \<and> ack_is_accepted (build_route_assign_ack EventStatusDuplicate i v c e t)
    \<and> resourceVersions (snd (evaluate meta g')) = resourceVersions g"
proof -
  obtain d0 ok where keys: "validate_and_build_keys meta = (d0, ok)" by fastforce
  have codes: "code_version_rollback \<noteq> []" "code_version_rollback \<noteq> code_missing_required_field"
    "code_version_rollback \<noteq> code_invalid_session_epoch"
    "code_version_rollback \<noteq> code_invalid_event_id"
    "code_version_rollback \<noteq> code_invalid_resource_version"
    by (simp_all add: code_version_rollback_def code_missing_required_field_def
        code_invalid_session_epoch_def code_invalid_event_id_def code_invalid_resource_version_def)
  have "ErrorCode d0 \<noteq> code_version_rollback"
    using keys codes
    by (auto simp: validate_and_build_keys_def rejected_with_def extract_code_def new_error_def
        validate_resource_meta_def build_dedup_key_def Let_def empty_decision_def
        split: if_splits option.splits)
  then have ok: "ok" using assms(2,3) keys by (cases ok) (auto simp: evaluate_def)
  obtain b w where b: "seen_or_add (DedupKey d0) (replayWindow g) = (b, w)" by fastforce
  with seen_after_add [OF assms(1), of "DedupKey d0"] have "DedupKey d0 \<in> seen w" by simp
  then have again: "seen_or_add (DedupKey d0) w = (True, w)" by (simp add: seen_or_add_def)
  have g': "replayWindow g' = w" and v: "Status d \<noteq> Some EventStatusAccepted"
    using assms(2,3) keys ok b \<open>ErrorCode d0 \<noteq> code_version_rollback\<close>
    by (auto simp: evaluate_def Let_def split: if_splits version_relation.splits)
  have "Status d = Some EventStatusRejected"
    using assms(2,3) keys ok b \<open>ErrorCode d0 \<noteq> code_version_rollback\<close>
    by (auto simp: evaluate_def Let_def split: if_splits version_relation.splits)
  moreover have "resourceVersions g' = resourceVersions g"
    using evaluate_versions [of meta g] assms(2) v by simp
  ultimately show ?thesis
    by (simp add: evaluate_def keys ok g' again ack_accepted_def build_route_assign_ack_def Let_def)
qed

definition sample_event :: "string \<Rightarrow> string \<Rightarrow> 64 word \<Rightarrow> resource_event_meta" where
  "sample_event s e v =
     \<lparr>meta_session_id = s, meta_session_epoch = 1, meta_event_id = e, meta_resource_type = ''r'',
      meta_resource_id = ''x'', meta_resource_version = v\<rparr>"

lemma trim_samples:
  "trim_space ''r'' = ''r''" "trim_space ''x'' = ''x''" "trim_space ''s'' = ''s''"
  "trim_space ''e'' = ''e''" "trim_space ''a'' = ''a''" "trim_space ''c'' = ''c''"
  "trim_space ''a:b'' = ''a:b''" "trim_space ''b:c'' = ''b:c''"
  by (rule trim_space_graphic; simp add: graphic_def)+

lemma sample_keys:
  "trim_space s = s \<Longrightarrow> trim_space e = e \<Longrightarrow> s \<noteq> [] \<Longrightarrow> e \<noteq> [] \<Longrightarrow> v \<noteq> 0 \<Longrightarrow>
   validate_and_build_keys (sample_event s e v)
     = (empty_decision\<lparr>DedupKey := s @ '':'' @ e, ResourceKey := ''r:x''\<rparr>, True)"
  by (simp add: validate_and_build_keys_def sample_event_def validate_resource_meta_def
      build_dedup_key_def build_resource_key_def trim_samples)

theorem rollback_retry_is_acknowledged_witness:
  "\<exists>d g'. evaluate (sample_event ''s'' ''e'' 1)
      (set_version ''r'' ''x'' 2 (new_resource_event_guard 8)) = (d, g')
    \<and> Status d = Some EventStatusRejected
    \<and> Status (fst (evaluate (sample_event ''s'' ''e'' 1) g')) = Some EventStatusDuplicate"
proof -
  let ?g = "set_version ''r'' ''x'' 2 (new_resource_event_guard 8)"
  let ?d = "fst (evaluate (sample_event ''s'' ''e'' 1) ?g)"
  let ?g' = "snd (evaluate (sample_event ''s'' ''e'' 1) ?g)"
  have inv: "window_inv (replayWindow ?g)"
    by (simp add: set_version_def build_resource_key_def trim_samples new_resource_event_guard_def
        window_inv_new)
  have code: "ErrorCode ?d = code_version_rollback"
    by (simp add: evaluate_def sample_keys trim_samples set_version_def build_resource_key_def
        new_resource_event_guard_def new_replay_window_def seen_or_add_def version_of_def
        compare_resource_version_def rollback_error_def new_error_def extract_code_def
        empty_decision_def Let_def)
      (simp add: sample_event_def)
  show ?thesis
    using rollback_retry_is_acknowledged [OF inv prod.collapse [symmetric] code]
    by (intro exI [of _ ?d] exI [of _ ?g']) simp
qed

text \<open>
  Two different events can share a deduplication key, because the key joins session and
  event with a colon that both may contain: the second event is then answered "duplicate" and
  lost, although it is new.
\<close>

theorem dedup_keys_collide:
  "Status (fst (evaluate (sample_event ''a'' ''b:c'' 7)
      (snd (evaluate (sample_event ''a:b'' ''c'' 5) (new_resource_event_guard 8)))))
    = Some EventStatusDuplicate
   \<and> Status (fst (evaluate (sample_event ''a'' ''b:c'' 7)
      (snd (evaluate (sample_event ''s'' ''c'' 5) (new_resource_event_guard 8)))))
    = Some EventStatusAccepted"
proof -
  let ?g = "new_resource_event_guard 8"
  have first: "\<exists>d. evaluate (sample_event s e 5) ?g
      = (d, \<lparr>replayWindow = \<lparr>capacity = 8, order = [s @ '':'' @ e], seen = {s @ '':'' @ e}\<rparr>,
             resourceVersions = [(''r:x'', 5)]\<rparr>)"
    if "trim_space s = s" "trim_space e = e" "s \<noteq> []" "e \<noteq> []" for s e
    using that
    by (simp add: evaluate_def sample_keys new_resource_event_guard_def new_replay_window_def
        seen_or_add_def version_of_def compare_resource_version_def Let_def)
      (simp add: sample_event_def)
  have key: "validate_and_build_keys (sample_event ''a'' ''b:c'' 7)
      = (empty_decision\<lparr>DedupKey := ''a:b:c'', ResourceKey := ''r:x''\<rparr>, True)"
    by (simp add: sample_keys trim_samples)
  have v: "meta_resource_version (sample_event ''a'' ''b:c'' 7) = 7"
    by (simp add: sample_event_def)
  obtain d where d: "evaluate (sample_event ''a:b'' ''c'' 5) ?g
      = (d, \<lparr>replayWindow = \<lparr>capacity = 8, order = [''a:b:c''], seen = {''a:b:c''}\<rparr>,
             resourceVersions = [(''r:x'', 5)]\<rparr>)"
    using first [of "''a:b''" "''c''"] by (auto simp: trim_samples)
  obtain d' where d': "evaluate (sample_event ''s'' ''c'' 5) ?g
      = (d', \<lparr>replayWindow = \<lparr>capacity = 8, order = [''s:c''], seen = {''s:c''}\<rparr>,
             resourceVersions = [(''r:x'', 5)]\<rparr>)"
    using first [of "''s''" "''c''"] by (auto simp: trim_samples)
  show ?thesis
    by (simp add: d d') (simp add: evaluate_def key v seen_or_add_def version_of_def
        compare_resource_version_def Let_def)
qed

text \<open>
  Without a colon in the session identifiers the keys are faithful: equal keys mean the
  same session and the same event, up to surrounding white space.
\<close>

theorem dedup_key_injective:
  assumes "build_dedup_key s e = Inr k" and "build_dedup_key s' e' = Inr k"
    and "CHR '':'' \<notin> set (trim_space s)" and "CHR '':'' \<notin> set (trim_space s')"
  shows "trim_space s = trim_space s' \<and> trim_space e = trim_space e'"
proof -
  have split: "takeWhile (\<lambda>c. c \<noteq> CHR '':'') (x @ '':'' @ y) = x"
    if "CHR '':'' \<notin> set x" for x y :: string
    using that by (induction x) auto
  from assms(1,2) have k: "k = trim_space s @ '':'' @ trim_space e"
    "k = trim_space s' @ '':'' @ trim_space e'"
    by (auto simp: build_dedup_key_def Let_def split: if_splits)
  then have "trim_space s = trim_space s'"
    using split [OF assms(3), of "trim_space e"] split [OF assms(4), of "trim_space e'"] by simp
  with k show ?thesis by simp
qed

theorem dedup_key_injective_witness:
  "build_dedup_key ''a'' ''b:c'' = Inr ''a:b:c''
   \<and> trim_space ''a'' = trim_space ''a'' \<and> trim_space ''b:c'' = trim_space ''b:c''"
proof -
  have k: "build_dedup_key ''a'' ''b:c'' = Inr ''a:b:c''"
    by (simp add: build_dedup_key_def trim_samples)
  show ?thesis
    using k dedup_key_injective [OF k k] by (simp add: trim_samples)
qed

text \<open>
  A reconnect resumes incrementally exactly when there was an earlier session, the epoch
  has not advanced and the session identifiers do not differ (an absent one counts as equal).
  An epoch that went back, which the comment of the code excludes, also resumes incrementally.
\<close>

theorem reconnect_resumes_iff:
  "(\<not> NeedFullSync (build_reconnect_sync_plan pid pe cid ce v)
      \<longleftrightarrow> pe \<noteq> 0 \<and> ce \<le> pe \<and> (pid = [] \<or> cid = [] \<or> pid = cid))
   \<and> SinceResourceVersion (build_reconnect_sync_plan pid pe cid ce v)
       = (if NeedFullSync (build_reconnect_sync_plan pid pe cid ce v) then 0 else v)"
  by (auto simp: build_reconnect_sync_plan_def word_neq_0_conv not_less)

end
