(* ===== verification/Heartbeat.thy ===== *)
theory Heartbeat
  imports Transport_Types
begin

text \<open>
  The heartbeat of the control channel (\<open>ltfp/transport/control_heartbeat.go\<close>): the policy
  and the monitor that decides when to send and when the peer is dead. All durations are
  \<open>int64\<close> nanoseconds, so the products and sums of the code wrap.
\<close>

section \<open>Policy\<close>

definition default_heartbeat_send_interval :: duration where
  "default_heartbeat_send_interval = 5 * second"
definition default_heartbeat_miss_threshold :: int where "default_heartbeat_miss_threshold = 3"

record heartbeat_policy =
  SendInterval :: duration
  MissThreshold :: int
  QueueDelayGrace :: duration

definition normalize_heartbeat_policy :: "heartbeat_policy \<Rightarrow> goerr + heartbeat_policy" where
  "normalize_heartbeat_policy policy =
     (let p1 = (if SendInterval policy \<le> 0
                then policy\<lparr>SendInterval := default_heartbeat_send_interval\<rparr> else policy);
          p2 = (if MissThreshold p1 \<le> 0
                then p1\<lparr>MissThreshold := default_heartbeat_miss_threshold\<rparr> else p1)
      in if QueueDelayGrace p2 < 0 then Inl ErrInvalidArgument
         else if QueueDelayGrace p2 = 0 then Inr (p2\<lparr>QueueDelayGrace := SendInterval p2\<rparr>)
         else Inr p2)"

definition default_heartbeat_policy :: heartbeat_policy where
  "default_heartbeat_policy =
     \<lparr>SendInterval = default_heartbeat_send_interval,
      MissThreshold = default_heartbeat_miss_threshold,
      QueueDelayGrace = default_heartbeat_send_interval\<rparr>"

definition failure_timeout :: "heartbeat_policy \<Rightarrow> duration" where
  "failure_timeout policy =
     (case normalize_heartbeat_policy policy of
        Inl e \<Rightarrow> 0
      | Inr p \<Rightarrow> wrap64 (wrap64 (SendInterval p * MissThreshold p) + QueueDelayGrace p))"

definition policy_ok :: "heartbeat_policy \<Rightarrow> bool" where
  "policy_ok p \<longleftrightarrow> 0 < SendInterval p \<and> 0 < MissThreshold p \<and> 0 < QueueDelayGrace p"

lemma normalize_heartbeat_policy_ok: "normalize_heartbeat_policy p = Inr q \<Longrightarrow> policy_ok q"
  by (auto simp: normalize_heartbeat_policy_def policy_ok_def Let_def
      default_heartbeat_send_interval_def default_heartbeat_miss_threshold_def second_def
      split: if_splits)

lemma normalize_heartbeat_policy_id: "policy_ok p \<Longrightarrow> normalize_heartbeat_policy p = Inr p"
  by (auto simp: normalize_heartbeat_policy_def policy_ok_def)


section \<open>Monitor\<close>

record heartbeat_monitor =
  policy :: heartbeat_policy
  startedAt :: gotime
  lastSentAt :: gotime
  lastReceivedAt :: gotime

record heartbeat_status =
  StartedAt :: gotime
  LastSentAt :: gotime
  LastReceivedAt :: gotime
  NextSendAt :: gotime
  FailureDeadline :: gotime
  ConsecutiveMisses :: int
  Dead :: bool

definition empty_heartbeat_status :: heartbeat_status where
  "empty_heartbeat_status =
     \<lparr>StartedAt = zero_time, LastSentAt = zero_time, LastReceivedAt = zero_time,
      NextSendAt = zero_time, FailureDeadline = zero_time, ConsecutiveMisses = 0, Dead = False\<rparr>"

definition new_heartbeat_monitor :: "heartbeat_policy \<Rightarrow> goerr + heartbeat_monitor" where
  "new_heartbeat_monitor p =
     (case normalize_heartbeat_policy p of
        Inl e \<Rightarrow> Inl e
      | Inr q \<Rightarrow> Inr \<lparr>policy = q, startedAt = zero_time, lastSentAt = zero_time,
                       lastReceivedAt = zero_time\<rparr>)"

text \<open>\<open>mutate\<close>: \<open>wall\<close> is \<open>time.Now().UTC()\<close>, used for a zero \<open>now\<close>.\<close>

definition mutate ::
    "gotime \<Rightarrow> gotime \<Rightarrow> (gotime \<Rightarrow> heartbeat_monitor \<Rightarrow> heartbeat_monitor)
       \<Rightarrow> heartbeat_monitor \<Rightarrow> heartbeat_monitor" where
  "mutate wall now update monitor = update (now_or wall now) monitor"

definition start_if_needed :: "gotime \<Rightarrow> heartbeat_monitor \<Rightarrow> heartbeat_monitor" where
  "start_if_needed now monitor =
     (if is_zero (startedAt monitor) then monitor\<lparr>startedAt := now\<rparr> else monitor)"

definition hb_start :: "gotime \<Rightarrow> gotime \<Rightarrow> heartbeat_monitor \<Rightarrow> heartbeat_monitor" where
  "hb_start wall now = mutate wall now start_if_needed"

definition observe_send :: "gotime \<Rightarrow> gotime \<Rightarrow> heartbeat_monitor \<Rightarrow> heartbeat_monitor" where
  "observe_send wall now = mutate wall now (\<lambda>t m. (start_if_needed t m)\<lparr>lastSentAt := t\<rparr>)"

definition observe_receive :: "gotime \<Rightarrow> gotime \<Rightarrow> heartbeat_monitor \<Rightarrow> heartbeat_monitor" where
  "observe_receive wall now = mutate wall now (\<lambda>t m. (start_if_needed t m)\<lparr>lastReceivedAt := t\<rparr>)"

definition observe_peer_activity :: "gotime \<Rightarrow> gotime \<Rightarrow> heartbeat_monitor \<Rightarrow> heartbeat_monitor" where
  "observe_peer_activity = observe_receive"

text \<open>Go's \<open>/\<close> truncates; both operands are non-negative where the code divides.\<close>

definition snapshot :: "gotime \<Rightarrow> gotime \<Rightarrow> heartbeat_monitor \<Rightarrow> heartbeat_status" where
  "snapshot wall now0 monitor =
     (let now = now_or wall now0 in
      if is_zero (startedAt monitor) then empty_heartbeat_status
      else
        let reference_receive_at =
              (if \<not> is_zero (lastReceivedAt monitor) then lastReceivedAt monitor
               else startedAt monitor);
            next_send_base =
              (if \<not> is_zero (lastSentAt monitor) then lastSentAt monitor else startedAt monitor);
            p = policy monitor;
            first_miss_at = reference_receive_at + wrap64 (SendInterval p + QueueDelayGrace p);
            misses = (if \<not> now < first_miss_at
                      then 1 + time_sub now first_miss_at div SendInterval p else 0)
        in \<lparr>StartedAt = startedAt monitor, LastSentAt = lastSentAt monitor,
            LastReceivedAt = lastReceivedAt monitor,
            NextSendAt = next_send_base + SendInterval p,
            FailureDeadline = reference_receive_at + failure_timeout p,
            ConsecutiveMisses = misses,
            Dead = (misses \<ge> MissThreshold p)\<rparr>)"

definition should_send :: "gotime \<Rightarrow> gotime \<Rightarrow> heartbeat_monitor \<Rightarrow> bool" where
  "should_send wall now0 monitor =
     (let now = now_or wall now0; status = snapshot wall now monitor
      in \<not> is_zero (StartedAt status) \<and> \<not> now < NextSendAt status)"


section \<open>Correctness\<close>

text \<open>The policies whose products fit in a duration: the clock can be 292 years off.\<close>

definition policy_fits :: "heartbeat_policy \<Rightarrow> bool" where
  "policy_fits p \<longleftrightarrow> policy_ok p
     \<and> SendInterval p * (MissThreshold p + 1) + QueueDelayGrace p \<le> max_int64"

lemma wrap64_pos: "0 \<le> x \<Longrightarrow> x \<le> max_int64 \<Longrightarrow> wrap64 x = x"
  by (rule wrap64_id) (simp_all add: min_int64_def)

lemma failure_timeout_fits:
  assumes "policy_fits p"
  shows "failure_timeout p = SendInterval p * MissThreshold p + QueueDelayGrace p"
proof -
  have pos: "0 < SendInterval p" "0 < MissThreshold p" "0 < QueueDelayGrace p"
    and le: "SendInterval p * (MissThreshold p + 1) + QueueDelayGrace p \<le> max_int64"
    using assms by (simp_all add: policy_fits_def policy_ok_def)
  have prod: "0 < SendInterval p * MissThreshold p" using pos by simp
  have sum: "SendInterval p * MissThreshold p + QueueDelayGrace p \<le> max_int64"
    using le pos by (simp add: distrib_left)
  have "wrap64 (SendInterval p * MissThreshold p) = SendInterval p * MissThreshold p"
    by (rule wrap64_pos) (use prod sum pos in linarith)+
  moreover have "wrap64 (SendInterval p * MissThreshold p + QueueDelayGrace p)
      = SendInterval p * MissThreshold p + QueueDelayGrace p"
    by (rule wrap64_pos) (use prod sum pos in linarith)+
  ultimately show ?thesis
    using assms by (simp add: failure_timeout_def policy_fits_def normalize_heartbeat_policy_id)
qed

text \<open>The count of misses reaches the threshold exactly when the last window has passed.\<close>

lemma div_reaches:
  fixes x s :: int
  assumes "0 < s" and "0 \<le> x"
  shows "n \<le> 1 + x div s \<longleftrightarrow> (n - 1) * s \<le> x"
proof -
  have x: "x div s * s + x mod s = x" by (rule div_mult_mod_eq)
  have m: "0 \<le> x mod s" "x mod s < s" using assms(1) by simp_all
  have lo: "x div s * s \<le> x" using x m by linarith
  have hi: "x < (x div s + 1) * s" using x m unfolding distrib_right by linarith
  show ?thesis
  proof
    assume "n \<le> 1 + x div s"
    then have "(n - 1) * s \<le> x div s * s" using assms(1) by simp
    with lo show "(n - 1) * s \<le> x" by simp
  next
    assume "(n - 1) * s \<le> x"
    with hi have "(n - 1) * s < (x div s + 1) * s" by simp
    with assms(1) have "n - 1 < x div s + 1" by simp
    then show "n \<le> 1 + x div s" by simp
  qed
qed

lemma dead_iff:
  assumes fits: "policy_fits (policy m)" and "\<not> is_zero (startedAt m)" and "\<not> is_zero now"
  shows "Dead (snapshot wall now m) \<longleftrightarrow> FailureDeadline (snapshot wall now m) \<le> now"
proof -
  let ?p = "policy m"
  let ?S = "SendInterval ?p" and ?M = "MissThreshold ?p" and ?G = "QueueDelayGrace ?p"
  let ?ref = "if \<not> is_zero (lastReceivedAt m) then lastReceivedAt m else startedAt m"
  have pos: "0 < ?S" "0 < ?M" "0 < ?G" and le: "?S * (?M + 1) + ?G \<le> max_int64"
    using fits by (simp_all add: policy_fits_def policy_ok_def)
  have SM: "?S \<le> ?S * ?M" using pos by simp
  have e: "?S * (?M + 1) = ?S * ?M + ?S" "(?M - 1) * ?S = ?S * ?M - ?S"
    by (simp_all add: algebra_simps)
  have bound: "?S + ?G \<le> max_int64" "(?M - 1) * ?S \<le> max_int64"
    using le pos SM unfolding e by linarith+
  have w: "wrap64 (?S + ?G) = ?S + ?G"
    by (rule wrap64_pos) (use bound pos in linarith)+
  let ?first = "?ref + (?S + ?G)"
  have deadline: "FailureDeadline (snapshot wall now m) = ?first + (?M - 1) * ?S"
    using assms by (simp add: snapshot_def Let_def failure_timeout_fits [OF fits] left_diff_distrib)
  have dead: "Dead (snapshot wall now m)
      \<longleftrightarrow> ?M \<le> (if \<not> now < ?first then 1 + time_sub now ?first div ?S else 0)"
    using assms by (simp add: snapshot_def Let_def w)
  show ?thesis
  proof (cases "now < ?first")
    case True
    moreover have "0 \<le> (?M - 1) * ?S" using pos by simp
    ultimately have "\<not> ?first + (?M - 1) * ?S \<le> now" by linarith
    with True pos show ?thesis unfolding dead deadline by simp
  next
    case False
    have nonneg: "0 \<le> time_sub now ?first"
      using False by (auto simp: time_sub_def min_int64_def max_int64_def)
    have "(?M - 1) * ?S \<le> time_sub now ?first \<longleftrightarrow> (?M - 1) * ?S \<le> now - ?first"
      using bound(2) False by (auto simp: time_sub_def min_int64_def)
    with div_reaches [OF pos(1) nonneg, of ?M] False show ?thesis
      unfolding dead deadline by auto
  qed
qed

text \<open>
  The monitor declares the peer dead exactly at the deadline it publishes: the number of
  missed windows reaches the threshold at \<open>FailureDeadline\<close>, not before and not after. Seen
  from the last sign of life at time \<open>t\<close>, the peer is dead from
  \<open>t + SendInterval * MissThreshold + QueueDelayGrace\<close> on, whatever was sent or received
  before.
\<close>

theorem dead_exactly_at_deadline:
  assumes "policy_fits (policy m)" and "\<not> is_zero t" and "\<not> is_zero now"
  shows "(Dead (snapshot wall now (observe_receive wall' t m))
      \<longleftrightarrow> FailureDeadline (snapshot wall now (observe_receive wall' t m)) \<le> now)
    \<and> FailureDeadline (snapshot wall now (observe_receive wall' t m))
       = t + SendInterval (policy m) * MissThreshold (policy m) + QueueDelayGrace (policy m)"
proof -
  let ?m = "observe_receive wall' t m"
  have m: "policy ?m = policy m" "lastReceivedAt ?m = t" "\<not> is_zero (startedAt ?m)"
    using assms(2) by (simp_all add: observe_receive_def mutate_def start_if_needed_def)
  have "FailureDeadline (snapshot wall now ?m) = t + failure_timeout (policy ?m)"
    using m assms by (simp add: snapshot_def Let_def)
  then show ?thesis
    using dead_iff [of ?m now wall] assms m failure_timeout_fits [OF assms(1)] by simp
qed

theorem dead_exactly_at_deadline_witness:
  "let m = observe_receive 0 7 \<lparr>policy = default_heartbeat_policy, startedAt = 1, lastSentAt = 0,
                                lastReceivedAt = 0\<rparr>
   in Dead (snapshot 0 (20 * second + 7) m) \<and> \<not> Dead (snapshot 0 (20 * second + 6) m)"
proof -
  let ?m = "\<lparr>policy = default_heartbeat_policy, startedAt = 1, lastSentAt = 0, lastReceivedAt = 0\<rparr>"
  have fits: "policy_fits (policy ?m)"
    by (simp add: policy_fits_def policy_ok_def default_heartbeat_policy_def second_def
        default_heartbeat_send_interval_def default_heartbeat_miss_threshold_def max_int64_def)
  have t: "\<not> is_zero (7 :: gotime)" "\<not> is_zero (20 * second + 7)" "\<not> is_zero (20 * second + 6)"
    by (simp_all add: zero_time_def second_def)
  show ?thesis
    using dead_exactly_at_deadline [OF fits t(1,2), of 0 0]
      dead_exactly_at_deadline [OF fits t(1,3), of 0 0]
    by (simp add: Let_def default_heartbeat_policy_def default_heartbeat_send_interval_def
        default_heartbeat_miss_threshold_def)
qed

end
