(* ===== verification/Base62.thy ===== *)
theory Base62
  imports Prelude
begin

text \<open>
  Sortable identifiers of the agent (\<open>agent-core/pkg/tsbase62/tsbase62.go\<close>): base 62
  numbers of variable and of fixed width, time stamps, and the monotonic generator. A
  \<open>uint64\<close> is a natural number below \<open>2^64\<close>; an instant is its nanoseconds since the
  Unix epoch.
\<close>

section \<open>Digits\<close>

definition alphabet :: string where
  "alphabet = ''0123456789ABCDEFGHIJKLMNOPQRSTUVWXYZabcdefghijklmnopqrstuvwxyz''"

definition base :: nat where "base = 62"
definition fixed_width :: nat where "fixed_width = 11"
definition max_uint64 :: nat where "max_uint64 = 2 ^ 64 - 1"

text \<open>\<open>init\<close>: the inverse of the alphabet; every other byte has no digit.\<close>

definition decode_table :: "char \<Rightarrow> nat option" where
  "decode_table = map_of (zip alphabet [0..<length alphabet])"

datatype base62_error =
    ErrEmptyString
  | ErrTooLong
  | ErrOverflowUint64
  | ErrInvalidSuffix
  | ErrIDTooShort
  | ErrBeforeUnixEpoch
  | ErrTimeOutOfRange
  | ErrInvalidSuffixWidth
  | ErrInvalidChar char
  | ErrSequenceExhausted
  | ErrInvalidLength

function encode_digits :: "nat \<Rightarrow> string" where
  "encode_digits n = (if n = 0 then [] else encode_digits (n div base) @ [alphabet ! (n mod base)])"
  by pat_completeness auto
termination by (relation "measure id") (auto simp: base_def)

declare encode_digits.simps [simp del]

definition encode_uint64 :: "nat \<Rightarrow> string" where
  "encode_uint64 n = (if n = 0 then ''0'' else encode_digits n)"

text \<open>\<open>encodeFixedWidth\<close>: the loop from the last position to the first.\<close>

fun encode_fixed_width :: "nat \<Rightarrow> nat \<Rightarrow> string" where
  "encode_fixed_width n 0 = []"
| "encode_fixed_width n (Suc width) =
     encode_fixed_width (n div base) width @ [alphabet ! (n mod base)]"

definition encode_fixed :: "nat \<Rightarrow> string" where
  "encode_fixed n = encode_fixed_width n fixed_width"

fun decode_loop :: "nat \<Rightarrow> string \<Rightarrow> base62_error + nat" where
  "decode_loop n [] = Inr n"
| "decode_loop n (c # s) =
     (case decode_table c of
        None \<Rightarrow> Inl (ErrInvalidChar c)
      | Some digit \<Rightarrow>
          if n > (max_uint64 - digit) div base then Inl ErrOverflowUint64
          else decode_loop (n * base + digit) s)"

definition decode_uint64 :: "string \<Rightarrow> base62_error + nat" where
  "decode_uint64 s =
     (if s = [] then Inl ErrEmptyString
      else if length s > fixed_width then Inl ErrTooLong
      else decode_loop 0 s)"

definition is_base62_string :: "string \<Rightarrow> bool" where
  "is_base62_string s = list_all (\<lambda>c. decode_table c \<noteq> None) s"


section \<open>Times and identifiers\<close>

type_synonym unix_ns = int

text \<open>\<open>t.UnixNano()\<close> is an \<open>int64\<close>; a negative one is refused.\<close>

definition unix_nano_uint64 :: "unix_ns \<Rightarrow> base62_error + nat" where
  "unix_nano_uint64 t =
     (let ns = wrap64 t in if ns < 0 then Inl ErrBeforeUnixEpoch else Inr (nat ns))"

definition from_time :: "unix_ns \<Rightarrow> base62_error + string" where
  "from_time t = (case unix_nano_uint64 t of Inl e \<Rightarrow> Inl e | Inr ns \<Rightarrow> Inr (encode_uint64 ns))"

definition from_time_fixed :: "unix_ns \<Rightarrow> base62_error + string" where
  "from_time_fixed t =
     (case unix_nano_uint64 t of Inl e \<Rightarrow> Inl e | Inr ns \<Rightarrow> Inr (encode_fixed ns))"

definition to_time :: "string \<Rightarrow> base62_error + unix_ns" where
  "to_time s =
     (case decode_uint64 s of
        Inl e \<Rightarrow> Inl e
      | Inr ns \<Rightarrow> if int ns > max_int64 then Inl ErrTimeOutOfRange else Inr (int ns))"

definition new_id :: "unix_ns \<Rightarrow> string \<Rightarrow> base62_error + string" where
  "new_id t suffix_text =
     (if \<not> is_base62_string suffix_text then Inl ErrInvalidSuffix
      else case from_time_fixed t of Inl e \<Rightarrow> Inl e | Inr ts \<Rightarrow> Inr (ts @ suffix_text))"

definition split_id :: "string \<Rightarrow> base62_error + (unix_ns \<times> string)" where
  "split_id i =
     (if length i < fixed_width then Inl ErrIDTooShort
      else case to_time (take fixed_width i) of
             Inl e \<Rightarrow> Inl e
           | Inr ts \<Rightarrow>
               let suffix_text = drop fixed_width i
               in if \<not> is_base62_string suffix_text then Inl ErrInvalidSuffix
                  else Inr (ts, suffix_text))"


section \<open>The generator\<close>

record generator =
  seqWidth :: nat
  seqMax :: nat
  lastNS :: nat
  seq :: nat

definition new_generator :: "int \<Rightarrow> base62_error + generator" where
  "new_generator width =
     (if width \<le> 0 \<or> width > 10 then Inl ErrInvalidSuffixWidth
      else Inr \<lparr>seqWidth = nat width, seqMax = base ^ nat width, lastNS = 0, seq = 0\<rparr>)"

definition generated_id :: "generator \<Rightarrow> string" where
  "generated_id g = encode_fixed (lastNS g) @ encode_fixed_width (seq g) (seqWidth g)"

text \<open>
  \<open>Next\<close> reads the clock until it can answer: \<open>clock\<close> lists the coming readings, and
  \<open>None\<close> means that it still spins when they are used up. Each reading leaves the rest of
  the clock for the next call.
\<close>

fun gen_next :: "generator \<Rightarrow> unix_ns list \<Rightarrow> ((base62_error + string) \<times> generator \<times> unix_ns list) option" where
  "gen_next g [] = None"
| "gen_next g (now # clock) =
     (case unix_nano_uint64 now of
        Inl e \<Rightarrow> Some (Inl e, g, clock)
      | Inr now_ns \<Rightarrow>
          if now_ns > lastNS g
          then let g1 = g\<lparr>lastNS := now_ns, seq := 0\<rparr>
               in Some (Inr (encode_fixed now_ns @ encode_fixed_width (seq g1) (seqWidth g1)), g1, clock)
          else if now_ns = lastNS g
          then if seq g + 1 < seqMax g
               then let g1 = g\<lparr>seq := seq g + 1\<rparr>
                    in Some (Inr (encode_fixed now_ns @ encode_fixed_width (seq g1) (seqWidth g1)),
                             g1, clock)
               else gen_next g clock
          else if seq g + 1 < seqMax g
               then let g1 = g\<lparr>seq := seq g + 1\<rparr>
                    in Some (Inr (encode_fixed (lastNS g1)
                                  @ encode_fixed_width (seq g1) (seqWidth g1)), g1, clock)
               else gen_next g clock)"

definition next_with_time :: "generator \<Rightarrow> unix_ns \<Rightarrow> (base62_error + string) \<times> generator" where
  "next_with_time g t =
     (case unix_nano_uint64 t of
        Inl e \<Rightarrow> (Inl e, g)
      | Inr now_ns \<Rightarrow>
          if now_ns > lastNS g
          then let g1 = g\<lparr>lastNS := now_ns, seq := 0\<rparr>
               in (Inr (encode_fixed now_ns @ encode_fixed_width (seq g1) (seqWidth g1)), g1)
          else if seq g + 1 \<ge> seqMax g then (Inl ErrSequenceExhausted, g)
          else let g1 = g\<lparr>seq := seq g + 1\<rparr>
               in (Inr (encode_fixed (lastNS g1) @ encode_fixed_width (seq g1) (seqWidth g1)), g1))"

definition split_generated_id :: "string \<Rightarrow> int \<Rightarrow> base62_error + (unix_ns \<times> nat)" where
  "split_generated_id i width =
     (if width \<le> 0 \<or> width > 10 then Inl ErrInvalidSuffixWidth
      else if length i \<noteq> fixed_width + nat width then Inl ErrInvalidLength
      else case to_time (take fixed_width i) of
             Inl e \<Rightarrow> Inl e
           | Inr ts \<Rightarrow>
               let seq_part = drop fixed_width i
               in if \<not> is_base62_string seq_part then Inl ErrInvalidSuffix
                  else case decode_uint64 seq_part of Inl e \<Rightarrow> Inl e | Inr s \<Rightarrow> Inr (ts, s))"


section \<open>Decoding inverts encoding\<close>

lemma length_alphabet: "length alphabet = base"
  by (simp add: alphabet_def base_def)

lemma distinct_alphabet: "distinct alphabet"
  by (simp add: alphabet_def)

lemma decode_table_alphabet: "d < base \<Longrightarrow> decode_table (alphabet ! d) = Some d"
  using map_of_zip_nth [of alphabet "[0..<length alphabet]" d] distinct_alphabet
  by (simp add: decode_table_def length_alphabet)

lemma decode_table_Some: "decode_table c = Some d \<Longrightarrow> d < base \<and> alphabet ! d = c"
proof -
  assume "decode_table c = Some d"
  then have "(c, d) \<in> set (zip alphabet [0..<length alphabet])"
    unfolding decode_table_def by (rule map_of_SomeD)
  then show ?thesis by (auto simp: set_zip length_alphabet)
qed

lemma base_pos: "0 < base" by (simp add: base_def)

text \<open>The value of a digit string, without a bound.\<close>

definition value_of :: "nat \<Rightarrow> string \<Rightarrow> nat" where
  "value_of n s = foldl (\<lambda>v c. v * base + the (decode_table c)) n s"

lemma value_of_snoc: "value_of n (s @ [c]) = value_of n s * base + the (decode_table c)"
  by (simp add: value_of_def)

lemma value_of_fixed: "value_of m (encode_fixed_width n w) = m * base ^ w + n mod base ^ w"
proof (induction w arbitrary: n)
  case (Suc w)
  have "value_of m (encode_fixed_width n (Suc w))
      = (m * base ^ w + (n div base) mod base ^ w) * base + n mod base"
    by (simp add: value_of_snoc Suc decode_table_alphabet base_pos)
  also have "(n div base) mod base ^ w * base + n mod base = n mod base ^ Suc w"
    using mod_mult2_eq [of n base "base ^ w"] by (simp add: mult.commute)
  then have "(m * base ^ w + (n div base) mod base ^ w) * base + n mod base
      = m * base ^ Suc w + n mod base ^ Suc w"
    by (simp add: algebra_simps)
  finally show ?case .
qed (simp add: value_of_def)

lemma value_of_digits: "value_of 0 (encode_digits n) = n"
proof (induction n rule: encode_digits.induct)
  case (1 n)
  show ?case
  proof (cases "n = 0")
    case True
    then show ?thesis by (simp add: encode_digits.simps value_of_def)
  next
    case False
    with 1 show ?thesis
      by (simp add: encode_digits.simps [of n] value_of_snoc decode_table_alphabet base_pos)
  qed
qed

lemma base62_fixed: "is_base62_string (encode_fixed_width n w)"
  by (induction w arbitrary: n) (simp_all add: is_base62_string_def decode_table_alphabet base_pos)

lemma base62_digits: "is_base62_string (encode_digits n)"
proof (induction n rule: encode_digits.induct)
  case (1 n)
  then show ?case
    by (subst encode_digits.simps)
      (simp add: is_base62_string_def decode_table_alphabet base_pos)
qed

lemma value_of_grows: "n \<le> value_of n s"
proof (induction s rule: rev_induct)
  case (snoc c s)
  have "value_of n s \<le> value_of n s * base" by (simp add: base_def)
  with snoc show ?case unfolding value_of_snoc by linarith
qed (simp add: value_of_def)

lemma decode_loop_value:
  "is_base62_string s \<Longrightarrow>
   decode_loop n s = (if value_of n s \<le> max_uint64 \<or> s = [] then Inr (value_of n s)
                      else Inl ErrOverflowUint64)"
proof (induction s arbitrary: n)
  case (Cons c s)
  then obtain d where d: "decode_table c = Some d" by (auto simp: is_base62_string_def)
  have "d < base" using decode_table_Some [OF d] by simp
  then have "d \<le> max_uint64" by (simp add: base_def max_uint64_def)
  then have check: "n > (max_uint64 - d) div base \<longleftrightarrow> n * base + d > max_uint64"
    using div_less_iff_less_mult [OF base_pos, of "max_uint64 - d" n] by auto
  have v: "value_of n (c # s) = value_of (n * base + d) s"
    by (simp add: value_of_def d)
  have "n * base + d \<le> value_of (n * base + d) s" by (rule value_of_grows)
  with Cons d check v show ?case
    by (cases s) (auto simp: is_base62_string_def value_of_def)
qed (simp add: value_of_def)

lemma length_fixed [simp]: "length (encode_fixed_width n w) = w"
  by (induction w arbitrary: n) simp_all

lemma length_encode_fixed [simp]: "length (encode_fixed n) = fixed_width"
  by (simp add: encode_fixed_def)

lemma uint64_fits: "n \<le> max_uint64 \<Longrightarrow> n mod base ^ fixed_width = n"
  by (rule mod_less) (simp add: max_uint64_def base_def fixed_width_def)

lemma decode_encode_fixed: "n \<le> max_uint64 \<Longrightarrow> decode_uint64 (encode_fixed n) = Inr n"
  using base62_fixed [of n fixed_width]
  by (simp add: decode_uint64_def encode_fixed_def decode_loop_value value_of_fixed uint64_fits)
    (auto simp: fixed_width_def dest: arg_cong [of _ _ length])

lemma length_digits: "n < base ^ k \<Longrightarrow> length (encode_digits n) \<le> k"
proof (induction k arbitrary: n)
  case (Suc k)
  show ?case
  proof (cases "n = 0")
    case True
    then show ?thesis by (simp add: encode_digits.simps)
  next
    case False
    have "n div base < base ^ k"
      using Suc.prems by (simp add: less_mult_imp_div_less mult.commute)
    with False Suc.IH show ?thesis by (simp add: encode_digits.simps [of n])
  qed
qed (simp add: encode_digits.simps)

lemma decode_encode_uint64: "n \<le> max_uint64 \<Longrightarrow> decode_uint64 (encode_uint64 n) = Inr n"
proof (cases "n = 0")
  case True
  have "decode_table (CHR ''0'') = Some 0" by (simp add: decode_table_def alphabet_def upt_rec)
  with True show ?thesis by (simp add: encode_uint64_def decode_uint64_def fixed_width_def)
next
  case False
  assume n: "n \<le> max_uint64"
  then have "n < base ^ fixed_width" by (simp add: max_uint64_def base_def fixed_width_def)
  then have "length (encode_digits n) \<le> fixed_width" by (rule length_digits)
  moreover have "encode_digits n \<noteq> []" using False by (simp add: encode_digits.simps [of n])
  ultimately show ?thesis
    using n False base62_digits [of n]
    by (simp add: encode_uint64_def decode_uint64_def decode_loop_value value_of_digits)
qed


section \<open>Order\<close>

text \<open>The order of Go strings: bytewise, from the left.\<close>

fun string_less :: "string \<Rightarrow> string \<Rightarrow> bool" where
  "string_less [] [] = False"
| "string_less [] (d # t) = True"
| "string_less (c # s) [] = False"
| "string_less (c # s) (d # t) \<longleftrightarrow>
     (of_char c :: nat) < of_char d \<or> c = d \<and> string_less s t"

lemma value_of_shift: "value_of m s = m * base ^ length s + value_of 0 s"
proof (induction s rule: rev_induct)
  case (snoc c s)
  then show ?case by (simp add: value_of_snoc algebra_simps)
qed (simp add: value_of_def)

lemma value_of_less: "is_base62_string s \<Longrightarrow> value_of 0 s < base ^ length s"
proof (induction s rule: rev_induct)
  case (snoc c s)
  then obtain d where d: "decode_table c = Some d" "value_of 0 s < base ^ length s"
    by (auto simp: is_base62_string_def)
  then have "d < base" "value_of 0 s + 1 \<le> base ^ length s" using decode_table_Some by auto
  then have "(value_of 0 s + 1) * base \<le> base ^ length s * base"
    by (intro mult_right_mono) simp_all
  with d(1) \<open>d < base\<close> show ?case by (simp add: value_of_snoc mult.commute [of base])
qed (simp add: value_of_def)

lemma alphabet_sorted: "sorted_wrt (\<lambda>c d. (of_char c :: nat) < of_char d) alphabet"
proof -
  have "map (of_char :: char \<Rightarrow> nat) alphabet = [48..<58] @ [65..<91] @ [97..<123]"
    by (simp add: alphabet_def upt_rec)
  moreover have "sorted_wrt (<) ([48..<58] @ [65..<91] @ [97..<123 :: nat])"
    by (auto simp: sorted_wrt_append)
  ultimately have "sorted_wrt (<) (map (of_char :: char \<Rightarrow> nat) alphabet)" by (simp only:)
  then show ?thesis by (simp add: sorted_wrt_map)
qed

lemma digit_order:
  assumes "decode_table c = Some m" and "decode_table d = Some n"
  shows "((of_char c :: nat) < of_char d \<longleftrightarrow> m < n) \<and> (c = d \<longleftrightarrow> m = n)"
proof -
  have less: "(of_char (alphabet ! i) :: nat) < of_char (alphabet ! j)" if "i < j" "j < base" for i j
    using sorted_wrt_nth_less [OF alphabet_sorted that(1)] that(2) by (simp add: length_alphabet)
  from assms have "m < base" "n < base" "c = alphabet ! m" "d = alphabet ! n"
    using decode_table_Some by auto
  with less [of m n] less [of n m] assms show ?thesis
    by (cases m n rule: linorder_cases) auto
qed

lemma string_less_value:
  "length s = length t \<Longrightarrow> is_base62_string s \<Longrightarrow> is_base62_string t \<Longrightarrow>
   string_less s t \<longleftrightarrow> value_of 0 s < value_of 0 t"
proof (induction s t rule: string_less.induct)
  case (4 c s d t)
  then obtain m n where mn: "decode_table c = Some m" "decode_table d = Some n"
    by (auto simp: is_base62_string_def)
  have s: "value_of 0 s < base ^ length s" and t: "value_of 0 t < base ^ length s"
    using 4 value_of_less [of s] value_of_less [of t] by (auto simp: is_base62_string_def)
  have v: "value_of 0 (c # s) = m * base ^ length s + value_of 0 s"
    "value_of 0 (d # t) = n * base ^ length s + value_of 0 t"
    using mn 4(2) value_of_shift [of m s] value_of_shift [of n t] by (simp_all add: value_of_def)
  have big: "i * base ^ length s + x < j * base ^ length s + y"
    if "i < j" "x < base ^ length s" for i j x y
  proof -
    have "(i + 1) * base ^ length s \<le> j * base ^ length s" using that(1) by (intro mult_right_mono) auto
    with that(2) show ?thesis by simp
  qed
  show ?case
  proof (cases m n rule: linorder_cases)
    case less
    with big [OF less s] digit_order [OF mn] v show ?thesis by simp
  next
    case equal
    with digit_order [OF mn] 4 v show ?thesis by (simp add: is_base62_string_def)
  next
    case greater
    with big [OF greater t, of "value_of 0 s"] digit_order [OF mn] v show ?thesis by simp
  qed
qed simp_all

lemma string_less_append:
  "length s = length t \<Longrightarrow> string_less (s @ u) (t @ v) \<longleftrightarrow> string_less s t \<or> s = t \<and> string_less u v"
  by (induction s t rule: string_less.induct) auto

lemma encode_value: "is_base62_string s \<Longrightarrow> encode_fixed_width (value_of 0 s) (length s) = s"
proof (induction s rule: rev_induct)
  case (snoc c s)
  then obtain d where d: "decode_table c = Some d" by (auto simp: is_base62_string_def)
  with snoc decode_table_Some [OF d] show ?case
    by (simp add: value_of_snoc is_base62_string_def)
qed simp

lemma encode_fixed_value: "n \<le> max_uint64 \<Longrightarrow> value_of 0 (encode_fixed n) = n"
  by (simp add: encode_fixed_def value_of_fixed uint64_fits)

text \<open>
  Base 62 is a faithful and sortable code of the 64 bit numbers: both the short and the
  fixed-width form decode to the number they encode, a fixed-width string that decodes is the
  one that encodes its value, and the byte order of the fixed-width strings is the order of
  the numbers.
\<close>

theorem base62_roundtrip_and_order:
  assumes "m \<le> max_uint64" and "n \<le> max_uint64"
  shows "decode_uint64 (encode_uint64 n) = Inr n \<and> decode_uint64 (encode_fixed n) = Inr n
    \<and> (length s = fixed_width \<and> decode_uint64 s = Inr n \<and> is_base62_string s \<longrightarrow> s = encode_fixed n)
    \<and> (string_less (encode_fixed m) (encode_fixed n) \<longleftrightarrow> m < n)"
proof (intro conjI impI)
  assume s: "length s = fixed_width \<and> decode_uint64 s = Inr n \<and> is_base62_string s"
  then have "value_of 0 s = n"
    by (auto simp: decode_uint64_def decode_loop_value split: if_splits)
  with s encode_value [of s] show "s = encode_fixed n" by (simp add: encode_fixed_def)
next
  show "string_less (encode_fixed m) (encode_fixed n) \<longleftrightarrow> m < n"
    using assms string_less_value [of "encode_fixed m" "encode_fixed n"]
      base62_fixed [of _ fixed_width]
    by (simp add: encode_fixed_value) (simp add: encode_fixed_def)
qed (use assms in \<open>simp_all add: decode_encode_uint64 decode_encode_fixed\<close>)

theorem base62_roundtrip_and_order_witness:
  "decode_uint64 (encode_uint64 7) = Inr 7 \<and> string_less (encode_fixed 5) (encode_fixed 7)"
  using base62_roundtrip_and_order [of 5 7] by (simp add: max_uint64_def)

text \<open>
  Nothing checks that a number fits the width it is written with: a larger one is cut to
  its last digits, so two numbers can share a code.
\<close>

theorem encode_fixed_width_truncates:
  "encode_fixed_width n w = encode_fixed_width (n mod base ^ w) w"
proof (induction w arbitrary: n)
  case (Suc w)
  have "n mod base ^ Suc w div base = (n div base) mod base ^ w"
    using div_mult2_eq mod_mult2_eq [of n base "base ^ w"] base_pos
    by (simp add: div_add1_eq)
  moreover have "n mod base ^ Suc w mod base = n mod base"
    by (simp add: mod_mod_cancel)
  ultimately show ?case
    using Suc [of "n div base"] by simp
qed simp


section \<open>The generator is monotonic\<close>

definition gen_inv :: "generator \<Rightarrow> bool" where
  "gen_inv g \<longleftrightarrow> seqMax g = base ^ seqWidth g \<and> 0 < seqWidth g \<and> seqWidth g \<le> 10
     \<and> seq g < seqMax g \<and> int (lastNS g) \<le> max_int64"

definition gen_less :: "generator \<Rightarrow> generator \<Rightarrow> bool" where
  "gen_less g h \<longleftrightarrow> seqWidth g = seqWidth h
     \<and> (lastNS g < lastNS h \<or> lastNS g = lastNS h \<and> seq g < seq h)"

lemma gen_less_trans: "gen_less g h \<Longrightarrow> gen_less h k \<Longrightarrow> gen_less g k"
  by (auto simp: gen_less_def)

lemma gen_inv_new: "new_generator w = Inr g \<Longrightarrow> gen_inv g"
  by (auto simp: new_generator_def gen_inv_def max_int64_def base_def split: if_splits)

lemma ns_fits: "gen_inv g \<Longrightarrow> lastNS g \<le> max_uint64"
  by (simp add: gen_inv_def max_int64_def max_uint64_def)

lemma generated_id_less:
  assumes "gen_inv g" and "gen_inv h" and "gen_less g h"
  shows "string_less (generated_id g) (generated_id h)"
proof -
  have "string_less (encode_fixed (lastNS g)) (encode_fixed (lastNS h)) \<longleftrightarrow> lastNS g < lastNS h"
    using base62_fixed [of _ fixed_width] ns_fits [OF assms(1)] ns_fits [OF assms(2)]
      string_less_value [of "encode_fixed (lastNS g)" "encode_fixed (lastNS h)"]
    by (simp add: encode_fixed_value) (simp add: encode_fixed_def)
  moreover have "string_less (encode_fixed_width (seq g) (seqWidth h))
      (encode_fixed_width (seq h) (seqWidth h)) \<longleftrightarrow> seq g < seq h"
    using assms by (simp add: string_less_value base62_fixed value_of_fixed gen_inv_def gen_less_def)
  ultimately show ?thesis
    using assms(3) by (auto simp: generated_id_def gen_less_def string_less_append)
qed

lemma unix_nano_range: "unix_nano_uint64 t = Inr n \<Longrightarrow> int n \<le> max_int64"
  using wrap64_range [of t] by (auto simp: unix_nano_uint64_def Let_def split: if_splits)

text \<open>What an answer of either method is.\<close>

definition gen_advanced :: "generator \<Rightarrow> string \<Rightarrow> generator \<Rightarrow> bool" where
  "gen_advanced g i g' \<longleftrightarrow> i = generated_id g' \<and> gen_inv g' \<and> gen_less g g'"

lemma next_with_time_advances:
  "gen_inv g \<Longrightarrow> next_with_time g t = (Inr i, g') \<Longrightarrow> gen_advanced g i g'"
  by (auto simp: next_with_time_def gen_advanced_def generated_id_def gen_inv_def gen_less_def
      Let_def base_def split: sum.splits if_splits dest: unix_nano_range)

lemma next_with_time_error: "next_with_time g t = (Inl e, g') \<Longrightarrow> g' = g"
  by (auto simp: next_with_time_def Let_def split: sum.splits if_splits)

lemma gen_next_advances:
  "gen_inv g \<Longrightarrow> gen_next g clock = Some (r, g', clock') \<Longrightarrow>
   (case r of Inl e \<Rightarrow> g' = g | Inr i \<Rightarrow> gen_advanced g i g')"
proof (induction g clock rule: gen_next.induct)
  case (2 g now clock)
  show ?case
  proof (cases "unix_nano_uint64 now")
    case (Inl e)
    with 2 show ?thesis by auto
  next
    case (Inr n)
    consider "lastNS g < n" | "n \<le> lastNS g" "seq g + 1 < seqMax g" | "n \<le> lastNS g" "\<not> seq g + 1 < seqMax g"
      by linarith
    then show ?thesis
    proof cases
      case 3
      with 2 Inr show ?thesis by (cases "n = lastNS g") auto
    qed (use 2 Inr unix_nano_range [OF Inr] in \<open>auto simp: gen_advanced_def generated_id_def
        gen_inv_def gen_less_def Let_def base_def split: if_splits\<close>)
  qed
qed simp

text \<open>A mix of calls of both methods, and the identifiers they return.\<close>

datatype gen_call = CallNext "unix_ns list" | CallNextWithTime unix_ns

fun gen_step :: "gen_call \<Rightarrow> generator \<Rightarrow> string list \<times> generator" where
  "gen_step (CallNext clock) g =
     (case gen_next g clock of
        Some (Inr i, g', rest) \<Rightarrow> ([i], g')
      | Some (Inl e, g', rest) \<Rightarrow> ([], g')
      | None \<Rightarrow> ([], g))"
| "gen_step (CallNextWithTime t) g =
     (case next_with_time g t of (Inr i, g') \<Rightarrow> ([i], g') | (Inl e, g') \<Rightarrow> ([], g'))"

fun gen_run :: "gen_call list \<Rightarrow> generator \<Rightarrow> string list" where
  "gen_run [] g = []"
| "gen_run (c # cs) g = fst (gen_step c g) @ gen_run cs (snd (gen_step c g))"

lemma gen_step_cases:
  assumes "gen_inv g"
  shows "gen_step c g = ([], g) \<or> (\<exists>i g'. gen_step c g = ([i], g') \<and> gen_advanced g i g')"
proof (cases c)
  case (CallNext clock)
  show ?thesis
  proof (cases "gen_next g clock")
    case None
    with CallNext show ?thesis by simp
  next
    case (Some r)
    then obtain x g' rest where r: "r = (x, g', rest)" by (cases r) auto
    with gen_next_advances [OF assms Some [unfolded r]] CallNext Some show ?thesis
      by (cases x) auto
  qed
next
  case (CallNextWithTime t)
  obtain x g' where r: "next_with_time g t = (x, g')" by fastforce
  then show ?thesis
    using CallNextWithTime next_with_time_advances [OF assms, of t _ g'] next_with_time_error [of g t _ g']
    by (cases x) auto
qed

lemma gen_run_states:
  assumes "gen_inv g"
  shows "sorted_wrt string_less (gen_run cs g)
    \<and> (\<forall>i \<in> set (gen_run cs g). \<exists>h. i = generated_id h \<and> gen_inv h \<and> gen_less g h)"
  using assms
proof (induction cs arbitrary: g)
  case (Cons c cs)
  from gen_step_cases [OF Cons.prems, of c] show ?case
  proof
    assume "gen_step c g = ([], g)"
    with Cons show ?thesis by simp
  next
    assume "\<exists>i g'. gen_step c g = ([i], g') \<and> gen_advanced g i g'"
    then obtain i g' where step: "gen_step c g = ([i], g')"
      and adv: "i = generated_id g'" "gen_inv g'" "gen_less g g'"
      by (auto simp: gen_advanced_def)
    from Cons.IH [OF adv(2)] have sorted: "sorted_wrt string_less (gen_run cs g')"
      and later: "\<And>j. j \<in> set (gen_run cs g') \<Longrightarrow>
        \<exists>h. j = generated_id h \<and> gen_inv h \<and> gen_less g' h" by auto
    have "string_less i j" if "j \<in> set (gen_run cs g')" for j
      using later [OF that] adv generated_id_less by blast
    moreover have "\<exists>h. j = generated_id h \<and> gen_inv h \<and> gen_less g h" if "j \<in> set (gen_run cs g')" for j
      using later [OF that] adv(3) gen_less_trans by blast
    ultimately show ?thesis using sorted adv step by auto
  qed
qed simp

text \<open>
  The identifiers of one generator increase strictly in byte order, hence never repeat,
  over any mix of \<open>Next\<close> and \<open>NextWithTime\<close> and whatever the clock does: standing still,
  going back, or leaving the range that is refused.
\<close>

theorem generated_ids_increase:
  assumes "new_generator width = Inr g"
  shows "sorted_wrt string_less (gen_run cs g)"
  using gen_run_states [OF gen_inv_new [OF assms]] by simp

theorem generated_ids_increase_witness:
  "sorted_wrt string_less
     (gen_run [CallNextWithTime 9, CallNext [3], CallNextWithTime 9]
        \<lparr>seqWidth = 3, seqMax = base ^ 3, lastNS = 0, seq = 0\<rparr>)"
  by (rule generated_ids_increase [of 3]) (simp add: new_generator_def)

text \<open>
  An identifier of the generator can be taken apart again: its two parts are the latest
  instant the generator has seen and the sequence number.
\<close>

theorem split_generated_roundtrip:
  assumes "gen_inv g" and "next_with_time g t = (Inr i, g')"
  shows "split_generated_id i (int (seqWidth g)) = Inr (int (lastNS g'), seq g')
    \<and> int (lastNS g') = max (int (lastNS g)) (wrap64 t)"
proof -
  have adv: "i = generated_id g'" "gen_inv g'" "seqWidth g' = seqWidth g"
    using next_with_time_advances [OF assms] by (auto simp: gen_advanced_def gen_less_def)
  let ?s = "encode_fixed_width (seq g') (seqWidth g')"
  have w: "0 < seqWidth g'" "seqWidth g' \<le> 10" and s: "seq g' < base ^ seqWidth g'"
    and ns: "int (lastNS g') \<le> max_int64"
    using adv(2) by (auto simp: gen_inv_def)
  have "base ^ seqWidth g' \<le> base ^ 10" by (rule power_increasing) (use w in \<open>auto simp: base_def\<close>)
  with s have "seq g' \<le> max_uint64" by (simp add: base_def max_uint64_def)
  then have "decode_uint64 ?s = Inr (seq g')"
    using w s length_fixed [of "seq g'" "seqWidth g'"]
    by (auto simp: decode_uint64_def decode_loop_value base62_fixed value_of_fixed fixed_width_def
        simp del: length_fixed)
  moreover have "to_time (encode_fixed (lastNS g')) = Inr (int (lastNS g'))"
    using ns ns_fits [OF adv(2)] by (simp add: to_time_def decode_encode_fixed)
  ultimately have "split_generated_id i (int (seqWidth g)) = Inr (int (lastNS g'), seq g')"
    using w adv by (simp add: split_generated_id_def generated_id_def base62_fixed)
  moreover have "int (lastNS g') = max (int (lastNS g)) (wrap64 t)"
    using assms(2)
    by (auto simp: next_with_time_def unix_nano_uint64_def Let_def split: if_splits)
  ultimately show ?thesis by simp
qed

theorem split_generated_roundtrip_witness:
  "\<exists>i g'. next_with_time \<lparr>seqWidth = 3, seqMax = base ^ 3, lastNS = 9, seq = 0\<rparr> 4 = (Inr i, g')
     \<and> split_generated_id i 3 = Inr (9, 1)"
proof -
  let ?g = "\<lparr>seqWidth = 3, seqMax = base ^ 3, lastNS = 9, seq = 0\<rparr>"
  have inv: "gen_inv ?g" by (simp add: gen_inv_def base_def max_int64_def)
  have n: "next_with_time ?g 4 = (Inr (generated_id (?g\<lparr>seq := 1\<rparr>)), ?g\<lparr>seq := 1\<rparr>)"
    by (simp add: next_with_time_def unix_nano_uint64_def wrap64_def base_def generated_id_def)
  from split_generated_roundtrip [OF inv n] n show ?thesis by simp
qed

end
