(* ===== verification/Session.thy ===== *)
theory Session
  imports Transport_Types
begin

text \<open>
  The transport session (\<open>ltfp/transport/session.go\<close>): \<open>InMemorySession\<close> with its open,
  close and failure operations, its capability getters and its done signal. Every operation
  runs under the session's mutex, so it is one function on the session.
\<close>

section \<open>State\<close>

text \<open>
  A capability is the identity of the object, \<open>None\<close> for nil. \<open>done_signals\<close> counts the
  executions of \<open>close(session.doneChannel)\<close>, which \<open>doneOnce\<close> guards.
\<close>

record session_capabilities =
  ControlChannel :: "nat option"
  Producer :: "nat option"
  Acceptor :: "nat option"
  Pool :: "nat option"

record session =
  session_id :: string
  meta_last_error :: string
  sess_state :: session_state
  last_error :: "goerr option"
  ever_authenticated :: bool
  failed_mapping :: failed_mapping_context
  capabilities :: session_capabilities
  done_signals :: nat

definition no_failure :: failed_mapping_context where
  "no_failure = \<lparr>EverAuthenticated = False, Retrying = False, GiveUp = False\<rparr>"

definition new_in_memory_session :: "string \<Rightarrow> string \<Rightarrow> session_capabilities \<Rightarrow> session" where
  "new_in_memory_session i meta_error caps =
     \<lparr>session_id = trim_space i, meta_last_error = meta_error, sess_state = SessionStateIdle,
      last_error = None, ever_authenticated = False, failed_mapping = no_failure,
      capabilities = caps, done_signals = 0\<rparr>"

definition session_protocol_state :: "session \<Rightarrow> protocol_state" where
  "session_protocol_state s = map_session_state_to_protocol_state (sess_state s) (failed_mapping s)"

definition signal_done :: "session \<Rightarrow> session" where
  "signal_done s = (if done_signals s = 0 then s\<lparr>done_signals := 1\<rparr> else s)"

definition is_done :: "session \<Rightarrow> bool" where
  "is_done s \<longleftrightarrow> done_signals s > 0"


section \<open>Operations\<close>

definition transition_locked :: "session_state \<Rightarrow> session \<Rightarrow> goerr option \<times> session" where
  "transition_locked next s =
     (if \<not> can_transition_session_state (sess_state s) next then (Some ErrStateTransition, s)
      else (None, s\<lparr>sess_state := next\<rparr>))"

text \<open>\<open>ctx_err\<close> is what \<open>ctx.Err()\<close> returns at this moment.\<close>

definition ensure_context_active_locked :: "goerr option \<Rightarrow> session \<Rightarrow> goerr option \<times> session" where
  "ensure_context_active_locked ctx_error s =
     (case ctx_error of
        None \<Rightarrow> (None, s)
      | Some e \<Rightarrow>
          (Some e,
           s\<lparr>sess_state := SessionStateFailed,
             failed_mapping := \<lparr>EverAuthenticated = ever_authenticated s, Retrying = False,
                                GiveUp = False\<rparr>,
             last_error := Some e,
             meta_last_error := trim_space (err_text e)\<rparr>))"

text \<open>\<open>if err := step; err != nil { return err }\<close>, then the rest.\<close>

definition and_then ::
    "goerr option \<times> session \<Rightarrow> (session \<Rightarrow> goerr option \<times> session) \<Rightarrow> goerr option \<times> session" where
  "and_then r f = (case r of (Some e, s) \<Rightarrow> (Some e, s) | (None, s) \<Rightarrow> f s)"

text \<open>The three context checks of \<open>Open\<close> see \<open>ctx 0\<close>, \<open>ctx 1\<close> and \<open>ctx 2\<close>.\<close>

definition session_open :: "(nat \<Rightarrow> goerr option) \<Rightarrow> session \<Rightarrow> goerr option \<times> session" where
  "session_open ctx s =
     (if sess_state s = SessionStateClosed then (Some ErrSessionClosed, s)
      else if sess_state s = SessionStateFailed \<and> GiveUp (failed_mapping s)
      then (Some ErrSessionClosed, s)
      else if sess_state s = SessionStateAuthenticated then (None, s)
      else if sess_state s = SessionStateDraining then (Some ErrStateTransition, s)
      else
        and_then (if sess_state s = SessionStateIdle \<or> sess_state s = SessionStateFailed
                  then transition_locked SessionStateConnecting s else (None, s)) (\<lambda>s1.
        and_then (ensure_context_active_locked (ctx 0) s1) (\<lambda>s2.
        and_then (transition_locked SessionStateConnected s2) (\<lambda>s3.
        and_then (ensure_context_active_locked (ctx 1) s3) (\<lambda>s4.
        and_then (transition_locked SessionStateControlReady s4) (\<lambda>s5.
        and_then (ensure_context_active_locked (ctx 2) s5) (\<lambda>s6.
        and_then (transition_locked SessionStateAuthenticated s6) (\<lambda>s7.
          (None, s7\<lparr>ever_authenticated := True,
                    failed_mapping := \<lparr>EverAuthenticated = True, Retrying = False, GiveUp = False\<rparr>,
                    last_error := None, meta_last_error := []\<rparr>)))))))))"

definition record_reason :: "goerr option \<Rightarrow> session \<Rightarrow> session" where
  "record_reason reason s =
     (case reason of
        Some e \<Rightarrow> s\<lparr>last_error := Some e, meta_last_error := trim_space (err_text e)\<rparr>
      | None \<Rightarrow> s\<lparr>last_error := Some ErrClosed, meta_last_error := err_text ErrClosed\<rparr>)"

definition session_close ::
    "goerr option \<Rightarrow> goerr option \<Rightarrow> session \<Rightarrow> goerr option \<times> session" where
  "session_close ctx_error reason s =
     (case ctx_error of
        Some e \<Rightarrow> (Some e, s)
      | None \<Rightarrow>
          if sess_state s = SessionStateClosed then (None, s)
          else
            and_then (if sess_state s = SessionStateAuthenticated
                      then transition_locked SessionStateDraining s else (None, s)) (\<lambda>s1.
            and_then (transition_locked SessionStateClosed s1) (\<lambda>s2.
              (None, signal_done (record_reason reason s2)))))"

definition mark_failed ::
    "goerr option \<Rightarrow> bool \<Rightarrow> bool \<Rightarrow> session \<Rightarrow> goerr option \<times> session" where
  "mark_failed cause retrying give_up s =
     (if sess_state s = SessionStateClosed then (Some ErrSessionClosed, s)
      else if \<not> can_transition_session_state (sess_state s) SessionStateFailed
      then (Some ErrStateTransition, s)
      else
        let s1 = record_reason cause (s\<lparr>sess_state := SessionStateFailed\<rparr>);
            s2 = s1\<lparr>failed_mapping := \<lparr>EverAuthenticated = ever_authenticated s1,
                                       Retrying = retrying, GiveUp = give_up\<rparr>\<rparr>
        in (None, if give_up then signal_done s2 else s2))"

definition session_control :: "session \<Rightarrow> goerr + nat" where
  "session_control s =
     (case ControlChannel (capabilities s) of
        None \<Rightarrow> Inl ErrUnsupported
      | Some c \<Rightarrow>
          if sess_state s \<in> {SessionStateControlReady, SessionStateAuthenticated, SessionStateDraining}
          then Inr c
          else if sess_state s \<in> {SessionStateClosed, SessionStateFailed} then Inl ErrSessionClosed
          else Inl ErrNotReady)"

definition session_tunnel_producer :: "session \<Rightarrow> goerr + nat" where
  "session_tunnel_producer s =
     (case Producer (capabilities s) of
        None \<Rightarrow> Inl ErrUnsupported
      | Some c \<Rightarrow>
          if sess_state s = SessionStateAuthenticated then Inr c
          else if session_state_is_terminal (sess_state s) then Inl ErrSessionClosed
          else Inl ErrNotReady)"

definition session_tunnel_acceptor :: "session \<Rightarrow> goerr + nat" where
  "session_tunnel_acceptor s =
     (case Acceptor (capabilities s) of
        None \<Rightarrow> Inl ErrUnsupported
      | Some c \<Rightarrow>
          if sess_state s = SessionStateAuthenticated then Inr c
          else if session_state_is_terminal (sess_state s) then Inl ErrSessionClosed
          else Inl ErrNotReady)"

definition session_tunnel_pool :: "session \<Rightarrow> goerr + nat" where
  "session_tunnel_pool s =
     (case Pool (capabilities s) of
        None \<Rightarrow> Inl ErrUnsupported
      | Some c \<Rightarrow>
          if sess_state s = SessionStateAuthenticated then Inr c
          else if session_state_is_terminal (sess_state s) then Inl ErrSessionClosed
          else Inl ErrNotReady)"


section \<open>Reachable sessions\<close>

datatype session_action =
    CallOpen "nat \<Rightarrow> goerr option"
  | CallClose "goerr option" "goerr option"
  | CallMarkFailed "goerr option" bool bool

fun session_call :: "session_action \<Rightarrow> session \<Rightarrow> goerr option \<times> session" where
  "session_call (CallOpen ctx) s = session_open ctx s"
| "session_call (CallClose ctx reason) s = session_close ctx reason s"
| "session_call (CallMarkFailed cause retrying give_up) s = mark_failed cause retrying give_up s"

inductive session_reachable :: "session \<Rightarrow> bool" where
  reachable_new: "session_reachable (new_in_memory_session i e caps)"
| reachable_call: "session_reachable s \<Longrightarrow> session_reachable (snd (session_call c s))"

definition session_inv :: "session \<Rightarrow> bool" where
  "session_inv s \<longleftrightarrow>
     sess_state s \<in> {SessionStateIdle, SessionStateAuthenticated, SessionStateFailed, SessionStateClosed}
     \<and> done_signals s \<le> 1
     \<and> (sess_state s = SessionStateClosed \<longrightarrow> is_done s)
     \<and> (sess_state s = SessionStateFailed \<and> GiveUp (failed_mapping s) \<longrightarrow> is_done s)
     \<and> (sess_state s = SessionStateAuthenticated \<longrightarrow> ever_authenticated s)"

lemmas session_defs = transition_locked_def ensure_context_active_locked_def and_then_def
  can_transition_session_state_def record_reason_def signal_done_def is_done_def

text \<open>\<open>Open\<close> from the states it can be called in, with one context check after the other.\<close>

lemma session_open_result:
  assumes "sess_state s = SessionStateIdle \<or> sess_state s = SessionStateFailed \<and> \<not> GiveUp (failed_mapping s)"
  shows "session_open ctx s =
    (case (ctx 0, ctx 1, ctx 2) of
       (None, None, None) \<Rightarrow>
         (None, s\<lparr>sess_state := SessionStateAuthenticated, ever_authenticated := True,
                  failed_mapping := \<lparr>EverAuthenticated = True, Retrying = False, GiveUp = False\<rparr>,
                  last_error := None, meta_last_error := []\<rparr>)
     | (c0, c1, c2) \<Rightarrow>
         let e = (case c0 of Some e \<Rightarrow> e | None \<Rightarrow> case c1 of Some e \<Rightarrow> e | None \<Rightarrow> the c2)
         in (Some e, s\<lparr>sess_state := SessionStateFailed,
               failed_mapping := \<lparr>EverAuthenticated = ever_authenticated s, Retrying = False,
                                  GiveUp = False\<rparr>,
               last_error := Some e, meta_last_error := trim_space (err_text e)\<rparr>))"
  using assms
  by (cases "ctx 0"; cases "ctx 1"; cases "ctx 2")
    (auto simp: session_open_def transition_locked_def ensure_context_active_locked_def and_then_def
      can_transition_session_state_def Let_def)

lemma session_open_inv: "session_inv s \<Longrightarrow> session_inv (snd (session_open ctx s))"
proof (cases "sess_state s = SessionStateIdle
    \<or> sess_state s = SessionStateFailed \<and> \<not> GiveUp (failed_mapping s)")
  case True
  assume "session_inv s"
  then show ?thesis
    unfolding session_open_result [OF True]
    by (cases "ctx 0"; cases "ctx 1"; cases "ctx 2")
      (auto simp: session_inv_def Let_def is_done_def)
next
  case False
  assume "session_inv s"
  with False show ?thesis by (auto simp: session_open_def session_inv_def)
qed

lemma session_close_inv: "session_inv s \<Longrightarrow> session_inv (snd (session_close ctx reason s))"
  by (cases ctx; cases reason; cases "sess_state s")
    (auto simp: session_close_def session_inv_def session_defs)

lemma mark_failed_inv: "session_inv s \<Longrightarrow> session_inv (snd (mark_failed cause retrying give_up s))"
  by (cases cause; cases "sess_state s"; cases give_up)
    (auto simp: mark_failed_def session_inv_def session_defs Let_def)

lemma session_reachable_inv: "session_reachable s \<Longrightarrow> session_inv s"
proof (induction rule: session_reachable.induct)
  case (reachable_new i e caps)
  show ?case by (simp add: new_in_memory_session_def session_inv_def no_failure_def)
next
  case (reachable_call s c)
  then show ?case
    by (cases c) (simp_all add: session_open_inv session_close_inv mark_failed_inv)
qed

text \<open>
  At rest a session is idle, authenticated, failed or closed: no intermediate state of
  \<open>Open\<close> or \<open>Close\<close> is ever left behind, whatever fails or is cancelled. The done signal is
  sent at most once (a second close would panic) and has been sent when the session is closed
  or given up. To the outside the session is active exactly when it is authenticated, and
  that is when it lends out its tunnel capabilities.
\<close>

theorem session_at_rest:
  assumes "session_reachable s"
  shows "sess_state s \<in> {SessionStateIdle, SessionStateAuthenticated, SessionStateFailed, SessionStateClosed}
    \<and> done_signals s \<le> 1
    \<and> (sess_state s = SessionStateClosed \<longrightarrow> is_done s)
    \<and> (session_protocol_state s = ProtocolStateActive \<longleftrightarrow> sess_state s = SessionStateAuthenticated)
    \<and> (\<forall>c. session_tunnel_pool s = Inr c
          \<longleftrightarrow> session_protocol_state s = ProtocolStateActive \<and> Pool (capabilities s) = Some c)"
  using session_reachable_inv [OF assms]
  by (cases "sess_state s")
    (auto simp: session_inv_def session_protocol_state_def map_session_state_to_protocol_state_def
      session_tunnel_pool_def session_state_is_terminal_def split: option.splits)

definition sample_session :: session where
  "sample_session = new_in_memory_session ''s'' [] \<lparr>ControlChannel = Some 1, Producer = None,
     Acceptor = None, Pool = Some 2\<rparr>"

theorem session_at_rest_witness:
  "sess_state (snd (session_open (\<lambda>n. if n = 1 then Some Canceled else None) sample_session))
     = SessionStateFailed
   \<and> session_tunnel_pool (snd (session_open (\<lambda>_. None) sample_session)) = Inr 2"
proof -
  have idle: "sess_state sample_session = SessionStateIdle" "Pool (capabilities sample_session) = Some 2"
    by (simp_all add: sample_session_def new_in_memory_session_def)
  have "session_reachable (snd (session_call (CallOpen (\<lambda>_. None)) sample_session))"
    unfolding sample_session_def by (intro session_reachable.intros)
  from session_at_rest [OF this]
  show ?thesis
    using idle by (simp add: session_open_result session_protocol_state_def
        map_session_state_to_protocol_state_def)
qed

text \<open>
  \<open>Open\<close> succeeds from a reachable session exactly when it is authenticated already, or
  it is neither closed nor given up and the context stays alive through the three checks;
  it succeeds exactly when it leaves the session authenticated.
\<close>

theorem open_succeeds_iff:
  assumes "session_reachable s"
  shows "(fst (session_open ctx s) = None \<longleftrightarrow>
      sess_state s = SessionStateAuthenticated
      \<or> (sess_state s = SessionStateIdle \<or> sess_state s = SessionStateFailed \<and> \<not> GiveUp (failed_mapping s))
        \<and> ctx 0 = None \<and> ctx 1 = None \<and> ctx 2 = None)
    \<and> (fst (session_open ctx s) = None \<longleftrightarrow>
      sess_state (snd (session_open ctx s)) = SessionStateAuthenticated)"
proof (cases "sess_state s = SessionStateIdle
    \<or> sess_state s = SessionStateFailed \<and> \<not> GiveUp (failed_mapping s)")
  case True
  then show ?thesis
    unfolding session_open_result [OF True]
    by (cases "ctx 0"; cases "ctx 1"; cases "ctx 2") (auto simp: Let_def)
next
  case False
  with session_reachable_inv [OF assms] show ?thesis
    by (auto simp: session_open_def session_inv_def)
qed

theorem open_succeeds_iff_witness:
  "fst (session_open (\<lambda>n. if n = 2 then Some DeadlineExceeded else None) sample_session) \<noteq> None"
proof -
  have "session_reachable sample_session"
    unfolding sample_session_def by (rule reachable_new)
  moreover have "sess_state sample_session = SessionStateIdle"
    by (simp add: sample_session_def new_in_memory_session_def)
  ultimately show ?thesis
    using open_succeeds_iff [of sample_session "\<lambda>n. if n = 2 then Some DeadlineExceeded else None"]
    by auto
qed

text \<open>
  A session that was given up can come back to life after its done signal: marking it as
  failed again without giving up is a legal transition from failed to failed and clears the
  mark, and then \<open>Open\<close> succeeds although \<open>Done\<close> has been signalled.
\<close>

theorem given_up_session_reopens:
  "let s1 = snd (mark_failed None False True sample_session);
       s2 = snd (mark_failed None False False s1)
   in is_done s1 \<and> fst (session_open (\<lambda>_. None) s1) = Some ErrSessionClosed
      \<and> fst (session_open (\<lambda>_. None) s2) = None
      \<and> is_done (snd (session_open (\<lambda>_. None) s2))
      \<and> session_protocol_state (snd (session_open (\<lambda>_. None) s2)) = ProtocolStateActive"
proof -
  let ?s1 = "snd (mark_failed None False True sample_session)"
  let ?s2 = "snd (mark_failed None False False ?s1)"
  have s1: "sess_state ?s1 = SessionStateFailed" "GiveUp (failed_mapping ?s1)" "is_done ?s1"
    by (simp_all add: mark_failed_def sample_session_def new_in_memory_session_def session_defs Let_def)
  then have s2: "sess_state ?s2 = SessionStateFailed" "\<not> GiveUp (failed_mapping ?s2)" "is_done ?s2"
    by (simp_all add: mark_failed_def session_defs Let_def)
  have "fst (session_open (\<lambda>_. None) ?s1) = Some ErrSessionClosed"
    using s1 by (simp add: session_open_def)
  then show ?thesis
    using s1 s2 by (simp add: Let_def session_open_result session_protocol_state_def
        map_session_state_to_protocol_state_def is_done_def)
qed

end
