(* ===== verification/Idle_Index.thy ===== *)
theory Idle_Index
  imports Prelude
begin

text \<open>
  Two shared pieces of the tunnel registries of agent and bridge: a FIFO queue of identifiers
  kept beside a map of records, and the contract of handing out tunnels, the locale
  \<open>lease_book\<close>.
\<close>

section \<open>A queue beside a map\<close>

text \<open>The queue \<open>q\<close> lists exactly the keys of the records that satisfy \<open>P\<close>, each once.\<close>

definition idle_index :: "('r \<Rightarrow> bool) \<Rightarrow> ('k, 'r) gomap \<Rightarrow> 'k list \<Rightarrow> bool" where
  "idle_index P m q \<longleftrightarrow> keys_distinct m \<and> distinct q
     \<and> (\<forall>i. i \<in> set q \<longleftrightarrow> (\<exists>r. map_of m i = Some r \<and> P r))"

lemma idle_index_empty [simp]: "idle_index P [] []"
  by (simp add: idle_index_def)

lemma idle_index_mem: "idle_index P m q \<Longrightarrow> i \<in> set q \<longleftrightarrow> (\<exists>r. map_of m i = Some r \<and> P r)"
  by (simp add: idle_index_def)

lemma idle_index_put:
  "idle_index P m q \<Longrightarrow> P r \<longleftrightarrow> i \<in> set q \<Longrightarrow> idle_index P (map_put i r m) q"
  by (auto simp: idle_index_def)

lemma idle_index_push:
  "idle_index P m q \<Longrightarrow> P r \<Longrightarrow> i \<notin> set q \<Longrightarrow> idle_index P (map_put i r m) (q @ [i])"
  by (auto simp: idle_index_def)

lemma idle_index_drop:
  "idle_index P m q \<Longrightarrow> \<not> P r \<Longrightarrow> idle_index P (map_put i r m) (filter (\<lambda>j. j \<noteq> i) q)"
  by (auto simp: idle_index_def)

lemma idle_index_pop:
  "idle_index P m (i # q) \<Longrightarrow> \<not> P r \<Longrightarrow> idle_index P (map_put i r m) q"
  by (auto simp: idle_index_def simp del: map_of_eq_Some_iff)

lemma idle_index_del: "idle_index P m q \<Longrightarrow> idle_index P (map_del i m) (filter (\<lambda>j. j \<noteq> i) q)"
  by (auto simp: idle_index_def)

lemma idle_index_forget:
  assumes "idle_index P m q" and "i \<notin> set q"
  shows "idle_index P (map_del i m) q"
proof -
  have "filter (\<lambda>j. j \<noteq> i) q = q" using assms(2) by (auto intro: filter_True)
  then show ?thesis using idle_index_del [OF assms(1), of i] by simp
qed

lemma idle_index_head: "idle_index P m (i # q) \<Longrightarrow> \<exists>r. map_of m i = Some r \<and> P r"
  using idle_index_mem [of P m "i # q" i] by simp

lemma idle_index_length:
  assumes "idle_index P m q"
  shows "length q = length (filter (\<lambda>(i, r). P r) m)"
proof -
  let ?m = "filter (\<lambda>(i, r). P r) m"
  have "keys_distinct m" and "distinct q" using assms by (simp_all add: idle_index_def)
  then have "set q = fst ` set ?m"
    using assms by (force simp: idle_index_def image_iff dest: map_of_SomeD)
  then have "card (set q) = card (set (map fst ?m))" by simp
  then show ?thesis
    using \<open>distinct q\<close> \<open>keys_distinct m\<close>
    by (metis distinct_card keys_distinct_filter length_map)
qed


section \<open>Handing out\<close>

text \<open>
  The contract of a registry that lends its tunnels: a tunnel that is handed out was not lent
  before and is lent afterwards, and stays so until a call gives it back.
\<close>

locale lease_book =
  fixes exec :: "'c \<Rightarrow> 's \<Rightarrow> 's"
    and granted :: "'c \<Rightarrow> 's \<Rightarrow> 'i option"
    and gives_back :: "'c \<Rightarrow> 's \<Rightarrow> 'i set"
    and leased :: "'s \<Rightarrow> 'i set"
    and ok :: "'s \<Rightarrow> bool"
  assumes ok_exec: "ok s \<Longrightarrow> ok (exec c s)"
    and grant: "ok s \<Longrightarrow> granted c s = Some i \<Longrightarrow> i \<notin> leased s \<and> i \<in> leased (exec c s)"
    and kept: "ok s \<Longrightarrow> i \<in> leased s \<Longrightarrow> i \<notin> gives_back c s \<Longrightarrow> i \<in> leased (exec c s)"
begin

lemma ok_run: "ok s \<Longrightarrow> ok (fold exec cs s)"
  by (induction cs arbitrary: s) (simp_all add: ok_exec)

lemma kept_run:
  "ok s \<Longrightarrow> i \<in> leased s \<Longrightarrow>
   \<forall>pre d post. cs = pre @ d # post \<longrightarrow> i \<notin> gives_back d (fold exec pre s) \<Longrightarrow>
   i \<in> leased (fold exec cs s)"
proof (induction cs arbitrary: s)
  case (Cons c cs)
  have "i \<notin> gives_back c s" using Cons.prems(3) by force
  moreover have "i \<notin> gives_back d (fold exec pre (exec c s))" if "cs = pre @ d # post" for pre d post
    using Cons.prems(3) that by (metis append_Cons fold_simps(2))
  ultimately show ?case
    using Cons.IH [of "exec c s"] Cons.prems(1,2) ok_exec kept by simp
qed simp

theorem exclusive:
  assumes "ok s" and "granted c s = Some i"
    and "granted c' (fold exec (c # between) s) = Some i"
  shows "\<exists>pre d post. between = pre @ d # post \<and> i \<in> gives_back d (fold exec (c # pre) s)"
proof (rule ccontr)
  assume "\<not> ?thesis"
  then have "i \<in> leased (fold exec between (exec c s))"
    using assms(1,2) grant ok_exec by (intro kept_run) auto
  moreover have "i \<notin> leased (fold exec (c # between) s)"
    using assms(1,3) grant ok_run by blast
  ultimately show False by simp
qed

end

end
