(* ===== verification/Agent_Registry.thy ===== *)
theory Agent_Registry
  imports Idle_Index Transport_Types "HOL-Library.List_Lexorder" "HOL-Library.Char_ord"
    "HOL-Library.Product_Lexorder"
begin

text \<open>
  The tunnel registry of the agent (\<open>agent-core/runtime/agent/tunnel/registry.go\<close>): the
  records of all tunnels and the FIFO order of the idle ones. Every operation is one section
  under the registry's mutex.
\<close>

section \<open>State\<close>

datatype agent_tunnel_state =
    StateOpening
  | StateIdle
  | StateReserved
  | StateActive
  | StateClosing
  | StateClosed
  | StateBroken

definition err_invalid_state_transition :: goerr where
  "err_invalid_state_transition = OtherErr ''invalid tunnel state transition''"

definition err_agent_tunnel_not_found :: goerr where
  "err_agent_tunnel_not_found = OtherErr ''tunnel not found''"

definition err_duplicate_tunnel_id :: goerr where
  "err_duplicate_tunnel_id = OtherErr ''duplicate tunnel id''"

lemmas agent_errors = err_invalid_state_transition_def err_agent_tunnel_not_found_def
  err_duplicate_tunnel_id_def

record agent_record =
  ar_tunnel :: tunnel
  ar_id :: string
  ar_state :: agent_tunnel_state
  ar_reuse_count :: int
  ar_last_recycle_seq :: "64 word"
  ar_created_at :: gotime
  ar_updated_at :: gotime
  ar_idle_since :: gotime
  ar_last_error :: string
  ar_change_seq :: "64 word"

record agent_registry =
  records :: "(string, agent_record) gomap"
  idleOrder :: "string list"
  reg_updated_at :: gotime
  stateChangeSeq :: "64 word"

definition new_registry :: agent_registry where
  "new_registry = \<lparr>records = [], idleOrder = [], reg_updated_at = zero_time, stateChangeSeq = 0\<rparr>"

record agent_snapshot =
  OpeningCount :: nat
  IdleCount :: nat
  ReservedCount :: nat
  ActiveCount :: nat
  ClosingCount :: nat
  ClosedCount :: nat
  BrokenCount :: nat
  TotalCount :: nat
  snap_updated_at :: gotime


section \<open>Operations\<close>

fun is_valid_transition :: "agent_tunnel_state \<Rightarrow> agent_tunnel_state \<Rightarrow> bool" where
  "is_valid_transition StateOpening target \<longleftrightarrow> target = StateIdle \<or> target = StateBroken"
| "is_valid_transition StateIdle target \<longleftrightarrow>
     target = StateReserved \<or> target = StateClosing \<or> target = StateBroken"
| "is_valid_transition StateReserved target \<longleftrightarrow>
     target = StateActive \<or> target = StateIdle \<or> target = StateClosing \<or> target = StateBroken"
| "is_valid_transition StateActive target \<longleftrightarrow>
     target = StateIdle \<or> target = StateClosing \<or> target = StateBroken"
| "is_valid_transition StateClosing target \<longleftrightarrow> target = StateClosed"
| "is_valid_transition StateClosed target \<longleftrightarrow> False"
| "is_valid_transition StateBroken target \<longleftrightarrow> False"

definition count_by_state :: "agent_tunnel_state \<Rightarrow> agent_registry \<Rightarrow> nat" where
  "count_by_state st registry = length (filter (\<lambda>(i, r). ar_state r = st) (records registry))"

definition remove_idle_order :: "string \<Rightarrow> agent_registry \<Rightarrow> agent_registry" where
  "remove_idle_order i registry =
     registry\<lparr>idleOrder := filter (\<lambda>j. j \<noteq> i) (idleOrder registry)\<rparr>"

text \<open>\<open>registry.stateChangeSeq++\<close>, stamped on the record, which is stored.\<close>

definition stamp_record :: "string \<Rightarrow> agent_record \<Rightarrow> agent_registry \<Rightarrow> agent_registry" where
  "stamp_record i r registry =
     (let n = stateChangeSeq registry + 1
      in registry\<lparr>records := map_put i (r\<lparr>ar_change_seq := n\<rparr>) (records registry),
                  stateChangeSeq := n\<rparr>)"

definition try_add_opened_as_idle ::
    "gotime \<Rightarrow> tunnel \<Rightarrow> int \<Rightarrow> agent_registry \<Rightarrow> (bool \<times> goerr option) \<times> agent_registry" where
  "try_add_opened_as_idle now t max_idle registry =
     (let i = trim_space (tunnel_id t)
      in if i = [] then ((False, Some err_agent_tunnel_not_found), registry)
         else if max_idle \<le> 0 then ((False, None), registry)
         else if has_key (records registry) i then ((False, Some err_duplicate_tunnel_id), registry)
         else if int (count_by_state StateIdle registry) \<ge> max_idle then ((False, None), registry)
         else
           let r0 = \<lparr>ar_tunnel = t, ar_id = i, ar_state = StateOpening, ar_reuse_count = 0,
                     ar_last_recycle_seq = 0, ar_created_at = now, ar_updated_at = now,
                     ar_idle_since = zero_time, ar_last_error = [], ar_change_seq = 0\<rparr>;
               reg1 = stamp_record i r0 registry;
               reg2 = stamp_record i
                        (r0\<lparr>ar_state := StateIdle, ar_updated_at := now, ar_idle_since := now\<rparr>) reg1
           in ((True, None), reg2\<lparr>idleOrder := idleOrder reg2 @ [i], reg_updated_at := now\<rparr>))"

fun acquire_idle_from ::
    "gotime \<Rightarrow> string list \<Rightarrow> agent_registry \<Rightarrow> agent_record option \<times> agent_registry" where
  "acquire_idle_from now [] registry = (None, registry\<lparr>idleOrder := []\<rparr>)"
| "acquire_idle_from now (i # rest) registry =
     (case map_of (records registry) i of
        None \<Rightarrow> acquire_idle_from now rest registry
      | Some r \<Rightarrow>
          if ar_state r \<noteq> StateIdle then acquire_idle_from now rest registry
          else
            let registry' = stamp_record i
                  (r\<lparr>ar_state := StateReserved, ar_updated_at := now, ar_idle_since := zero_time\<rparr>)
                  (registry\<lparr>idleOrder := rest\<rparr>)
            in (map_of (records registry') i, registry'\<lparr>reg_updated_at := now\<rparr>))"

definition acquire_idle ::
    "gotime \<Rightarrow> agent_registry \<Rightarrow> agent_record option \<times> agent_registry" where
  "acquire_idle now registry = acquire_idle_from now (idleOrder registry) registry"

definition activate_idle_by_id ::
    "gotime \<Rightarrow> string \<Rightarrow> agent_registry \<Rightarrow> (goerr + agent_record) \<times> agent_registry" where
  "activate_idle_by_id now raw_id registry =
     (let i = trim_space raw_id
      in if i = [] then (Inl err_agent_tunnel_not_found, registry)
         else case map_of (records registry) i of
                None \<Rightarrow> (Inl err_agent_tunnel_not_found, registry)
              | Some r \<Rightarrow>
                  if ar_state r \<noteq> StateIdle then (Inl err_invalid_state_transition, registry)
                  else
                    let r1 = r\<lparr>ar_state := StateReserved, ar_updated_at := now,
                               ar_idle_since := zero_time\<rparr>;
                        reg1 = stamp_record i r1 (remove_idle_order i registry);
                        r2 = r1\<lparr>ar_state := StateActive, ar_updated_at := now\<rparr>;
                        reg2 = stamp_record i r2 reg1
                    in (Inr (r2\<lparr>ar_change_seq := stateChangeSeq reg2\<rparr>),
                        reg2\<lparr>reg_updated_at := now\<rparr>))"

definition transition ::
    "gotime \<Rightarrow> string \<Rightarrow> agent_tunnel_state \<Rightarrow> string \<Rightarrow> agent_registry
       \<Rightarrow> goerr option \<times> agent_registry" where
  "transition now i target message registry =
     (if i = [] then (Some err_agent_tunnel_not_found, registry)
      else case map_of (records registry) i of
             None \<Rightarrow> (Some err_agent_tunnel_not_found, registry)
           | Some r \<Rightarrow>
               if \<not> is_valid_transition (ar_state r) target
               then (Some err_invalid_state_transition, registry)
               else
                 let reg1 = (if ar_state r = StateIdle then remove_idle_order i registry
                             else registry);
                     r1 = r\<lparr>ar_state := target, ar_updated_at := now\<rparr>;
                     reg2 = (if target = StateIdle
                             then reg1\<lparr>idleOrder := idleOrder reg1 @ [i]\<rparr> else reg1);
                     r2 = r1\<lparr>ar_idle_since := (if target = StateIdle then now else zero_time)\<rparr>;
                     r3 = (if target = StateBroken then r2\<lparr>ar_last_error := trim_space message\<rparr>
                           else r2)
                 in (None, (stamp_record i r3 reg2)\<lparr>reg_updated_at := now\<rparr>))"

definition mark_active :: "gotime \<Rightarrow> string \<Rightarrow> agent_registry \<Rightarrow> goerr option \<times> agent_registry" where
  "mark_active now i = transition now (trim_space i) StateActive []"

definition mark_closing :: "gotime \<Rightarrow> string \<Rightarrow> agent_registry \<Rightarrow> goerr option \<times> agent_registry" where
  "mark_closing now i = transition now (trim_space i) StateClosing []"

definition mark_closed :: "gotime \<Rightarrow> string \<Rightarrow> agent_registry \<Rightarrow> goerr option \<times> agent_registry" where
  "mark_closed now i = transition now (trim_space i) StateClosed []"

definition mark_broken ::
    "gotime \<Rightarrow> string \<Rightarrow> string \<Rightarrow> agent_registry \<Rightarrow> goerr option \<times> agent_registry" where
  "mark_broken now i message = transition now (trim_space i) StateBroken message"

definition mark_idle_after_recycle ::
    "gotime \<Rightarrow> gotime \<Rightarrow> string \<Rightarrow> 64 word \<Rightarrow> agent_registry \<Rightarrow> goerr option \<times> agent_registry" where
  "mark_idle_after_recycle wall now0 raw_id recycle_seq registry =
     (let i = trim_space raw_id
      in if i = [] \<or> recycle_seq = 0 then (Some err_agent_tunnel_not_found, registry)
         else
           let now = now_or wall now0
           in case map_of (records registry) i of
                None \<Rightarrow> (Some err_agent_tunnel_not_found, registry)
              | Some r \<Rightarrow>
                  if ar_state r \<noteq> StateActive \<and> ar_state r \<noteq> StateReserved
                  then (Some err_invalid_state_transition, registry)
                  else if recycle_seq \<le> ar_last_recycle_seq r
                  then (Some err_invalid_state_transition, registry)
                  else
                    let reg1 = stamp_record i
                          (r\<lparr>ar_state := StateIdle, ar_reuse_count := ar_reuse_count r + 1,
                             ar_last_recycle_seq := recycle_seq, ar_updated_at := now,
                             ar_idle_since := now\<rparr>) registry
                    in (None, reg1\<lparr>idleOrder := idleOrder reg1 @ [i], reg_updated_at := now\<rparr>))"

definition remove_terminal ::
    "gotime \<Rightarrow> string \<Rightarrow> agent_registry \<Rightarrow> (goerr + agent_record) \<times> agent_registry" where
  "remove_terminal wall raw_id registry =
     (let i = trim_space raw_id
      in if i = [] then (Inl err_agent_tunnel_not_found, registry)
         else case map_of (records registry) i of
                None \<Rightarrow> (Inl err_agent_tunnel_not_found, registry)
              | Some r \<Rightarrow>
                  if ar_state r \<noteq> StateClosed \<and> ar_state r \<noteq> StateBroken
                  then (Inl err_invalid_state_transition, registry)
                  else (Inr r, remove_idle_order i
                          (registry\<lparr>records := map_del i (records registry)\<rparr>)
                          \<lparr>reg_updated_at := wall\<rparr>))"

definition expired_idle_ids :: "gotime \<Rightarrow> duration \<Rightarrow> agent_registry \<Rightarrow> string list" where
  "expired_idle_ids now ttl registry =
     (if ttl \<le> 0 then []
      else map fst (filter (\<lambda>(i, r). ar_state r = StateIdle \<and> \<not> is_zero (ar_idle_since r)
                              \<and> time_sub now (ar_idle_since r) \<ge> ttl) (records registry)))"

definition get_record :: "string \<Rightarrow> agent_registry \<Rightarrow> agent_record option" where
  "get_record i registry = map_of (records registry) (trim_space i)"

definition registry_snapshot :: "agent_registry \<Rightarrow> agent_snapshot" where
  "registry_snapshot registry =
     \<lparr>OpeningCount = count_by_state StateOpening registry,
      IdleCount = count_by_state StateIdle registry,
      ReservedCount = count_by_state StateReserved registry,
      ActiveCount = count_by_state StateActive registry,
      ClosingCount = count_by_state StateClosing registry,
      ClosedCount = count_by_state StateClosed registry,
      BrokenCount = count_by_state StateBroken registry,
      TotalCount = length (records registry), snap_updated_at = reg_updated_at registry\<rparr>"

definition idle_ids :: "int \<Rightarrow> agent_registry \<Rightarrow> string list" where
  "idle_ids limit registry =
     (if limit \<le> 0 then []
      else take (nat limit)
             (filter (\<lambda>i. case map_of (records registry) i of
                            None \<Rightarrow> False | Some r \<Rightarrow> ar_state r = StateIdle)
               (idleOrder registry)))"

text \<open>Newest first, then by identifier.\<close>

definition list_records :: "int \<Rightarrow> agent_registry \<Rightarrow> agent_record list" where
  "list_records limit registry =
     (let total = length (records registry);
          effective = (if limit \<le> 0 \<or> limit > int total then total else nat limit)
      in take effective
           (sort_key (\<lambda>r. (- ar_updated_at r, ar_id r)) (map snd (records registry))))"



section \<open>The index of the idle tunnels\<close>

definition is_idle :: "agent_record \<Rightarrow> bool" where
  "is_idle r \<longleftrightarrow> ar_state r = StateIdle"

definition filed_right :: "(string, agent_record) gomap \<Rightarrow> bool" where
  "filed_right m \<longleftrightarrow> (\<forall>i r. map_of m i = Some r \<longrightarrow> ar_id r = i \<and> i \<noteq> [] \<and> trim_space i = i)"

definition agent_inv :: "agent_registry \<Rightarrow> bool" where
  "agent_inv reg \<longleftrightarrow> idle_index is_idle (records reg) (idleOrder reg) \<and> filed_right (records reg)"

lemma stamp_record_fields [simp]:
  "idleOrder (stamp_record i r reg) = idleOrder reg"
  "records (stamp_record i r reg) = map_put i (r\<lparr>ar_change_seq := stateChangeSeq reg + 1\<rparr>) (records reg)"
  "stateChangeSeq (stamp_record i r reg) = stateChangeSeq reg + 1"
  by (simp_all add: stamp_record_def Let_def)

lemma remove_idle_order_fields [simp]:
  "idleOrder (remove_idle_order i reg) = filter (\<lambda>j. j \<noteq> i) (idleOrder reg)"
  "records (remove_idle_order i reg) = records reg"
  "stateChangeSeq (remove_idle_order i reg) = stateChangeSeq reg"
  by (simp_all add: remove_idle_order_def)

lemma filed_right_put:
  "filed_right m \<Longrightarrow> ar_id r = i \<Longrightarrow> i \<noteq> [] \<Longrightarrow> trim_space i = i \<Longrightarrow> filed_right (map_put i r m)"
  by (simp add: filed_right_def)

lemma filed_right_del: "filed_right m \<Longrightarrow> filed_right (map_del i m)"
  by (simp add: filed_right_def)

lemma filed_rightD:
  "filed_right m \<Longrightarrow> map_of m i = Some r \<Longrightarrow> ar_id r = i \<and> i \<noteq> [] \<and> trim_space i = i"
  unfolding filed_right_def by blast

lemma put_put [simp]: "map_put i r' (map_put i r m) = map_put i r' m"
  by (simp add: update_last)

lemma agent_inv_new: "agent_inv new_registry"
  by (simp add: agent_inv_def new_registry_def filed_right_def)

lemma agent_inv_mem:
  "agent_inv reg \<Longrightarrow> i \<in> set (idleOrder reg) \<longleftrightarrow> (\<exists>r. map_of (records reg) i = Some r \<and> is_idle r)"
  unfolding agent_inv_def using idle_index_mem by fast

lemma agent_inv_filed:
  "agent_inv reg \<Longrightarrow> map_of (records reg) i = Some r \<Longrightarrow> ar_id r = i \<and> i \<noteq> [] \<and> trim_space i = i"
  unfolding agent_inv_def using filed_rightD by blast

lemma agent_invI:
  "idle_index is_idle (records reg') (idleOrder reg') \<Longrightarrow> filed_right (records reg') \<Longrightarrow> agent_inv reg'"
  by (simp add: agent_inv_def)

lemma agent_inv_index: "agent_inv reg \<Longrightarrow> idle_index is_idle (records reg) (idleOrder reg)"
  and agent_inv_right: "agent_inv reg \<Longrightarrow> filed_right (records reg)"
  by (simp_all add: agent_inv_def)

lemma agent_inv_add:
  assumes "agent_inv reg"
  shows "agent_inv (snd (try_add_opened_as_idle now t k reg))"
proof -
  let ?i = "trim_space (tunnel_id t)"
  have "?i \<notin> set (idleOrder reg)" if "map_of (records reg) ?i = None"
    using that by (simp add: agent_inv_mem [OF assms])
  then show ?thesis
    using assms agent_inv_index [OF assms] agent_inv_right [OF assms]
    by (auto simp: try_add_opened_as_idle_def Let_def is_idle_def
        intro!: agent_invI idle_index_push filed_right_put)
qed

lemma acquire_idle_cases:
  assumes "agent_inv reg"
  shows "acquire_idle now reg =
    (case idleOrder reg of
       [] \<Rightarrow> (None, reg)
     | i # rest \<Rightarrow>
         let r = the (map_of (records reg) i);
             r' = r\<lparr>ar_state := StateReserved, ar_updated_at := now, ar_idle_since := zero_time,
                    ar_change_seq := stateChangeSeq reg + 1\<rparr>
         in (Some r', reg\<lparr>records := map_put i r' (records reg), idleOrder := rest,
                          reg_updated_at := now, stateChangeSeq := stateChangeSeq reg + 1\<rparr>))"
proof (cases "idleOrder reg")
  case (Cons i rest)
  then obtain r where "map_of (records reg) i = Some r" and "is_idle r"
    using assms idle_index_head [of is_idle "records reg" i rest] by (auto simp: agent_inv_def)
  then show ?thesis
    using Cons by (simp add: acquire_idle_def is_idle_def stamp_record_def Let_def)
qed (simp add: acquire_idle_def)

lemma agent_inv_acquire:
  assumes "agent_inv reg"
  shows "agent_inv (snd (acquire_idle now reg))"
proof (cases "idleOrder reg")
  case (Cons i rest)
  then have index: "idle_index is_idle (records reg) (i # rest)"
    using assms by (simp add: agent_inv_def)
  obtain r where "map_of (records reg) i = Some r" using idle_index_head [OF index] by fast
  let ?r = "r\<lparr>ar_state := StateReserved, ar_updated_at := now, ar_idle_since := zero_time,
                ar_change_seq := stateChangeSeq reg + 1\<rparr>"
  have "snd (acquire_idle now reg) = reg\<lparr>records := map_put i ?r (records reg), idleOrder := rest,
      reg_updated_at := now, stateChangeSeq := stateChangeSeq reg + 1\<rparr>"
    using \<open>map_of (records reg) i = Some r\<close>
    by (simp only: acquire_idle_cases [OF assms] Cons list.case Let_def option.sel snd_conv)
  moreover have "idle_index is_idle (map_put i ?r (records reg)) rest"
    by (rule idle_index_pop [OF index]) (simp add: is_idle_def)
  moreover have "filed_right (map_put i ?r (records reg))"
    using agent_inv_filed [OF assms \<open>map_of (records reg) i = Some r\<close>]
    by (intro filed_right_put agent_inv_right [OF assms]) simp_all
  ultimately show ?thesis by (simp add: agent_inv_def)
qed (use assms in \<open>simp add: acquire_idle_cases [OF assms]\<close>)

lemma agent_inv_activate:
  assumes "agent_inv reg"
  shows "agent_inv (snd (activate_idle_by_id now i reg))"
proof (cases "map_of (records reg) (trim_space i)")
  case (Some r)
  then show ?thesis
    using assms agent_inv_filed [OF assms Some] agent_inv_index [OF assms] agent_inv_right [OF assms]
    by (auto simp: activate_idle_by_id_def Let_def is_idle_def
        intro!: agent_invI idle_index_drop filed_right_put)
qed (use assms in \<open>simp add: activate_idle_by_id_def Let_def\<close>)

lemma agent_inv_transition:
  assumes "agent_inv reg"
  shows "agent_inv (snd (transition now i target message reg))"
proof (cases "map_of (records reg) i")
  case (Some r)
  then have mem: "i \<in> set (idleOrder reg) \<longleftrightarrow> is_idle r"
    by (simp add: agent_inv_mem [OF assms])
  note facts = agent_inv_filed [OF assms Some] agent_inv_index [OF assms] agent_inv_right [OF assms]
  show ?thesis
  proof (cases "i = [] \<or> \<not> is_valid_transition (ar_state r) target")
    case True
    then show ?thesis using assms Some by (auto simp: transition_def)
  next
    case False
    show ?thesis
    proof (cases "target = StateIdle")
      case True
      then have "\<not> is_idle r" using False by (auto simp: is_idle_def)
      then show ?thesis
        using False True Some mem facts
        by (auto simp: transition_def Let_def is_idle_def
            intro!: agent_invI idle_index_push filed_right_put)
    next
      case other: False
      show ?thesis
      proof (cases "is_idle r")
        case True
        then show ?thesis
          using False other Some facts
          by (auto simp: transition_def Let_def is_idle_def
              intro!: agent_invI idle_index_drop filed_right_put)
      next
        case live: False
        then show ?thesis
          using False other Some mem facts
          by (auto simp: transition_def Let_def is_idle_def
              intro!: agent_invI idle_index_put filed_right_put)
      qed
    qed
  qed
qed (use assms in \<open>simp add: transition_def\<close>)

lemma agent_inv_recycle:
  assumes "agent_inv reg"
  shows "agent_inv (snd (mark_idle_after_recycle wall now raw n reg))"
proof (cases "map_of (records reg) (trim_space raw)")
  case (Some r)
  then have "trim_space raw \<in> set (idleOrder reg) \<longleftrightarrow> is_idle r"
    by (simp add: agent_inv_mem [OF assms])
  then show ?thesis
    using assms Some agent_inv_filed [OF assms Some] agent_inv_index [OF assms] agent_inv_right [OF assms]
    by (auto simp: mark_idle_after_recycle_def Let_def is_idle_def
        intro!: agent_invI idle_index_push filed_right_put)
qed (use assms in \<open>simp add: mark_idle_after_recycle_def Let_def\<close>)

lemma agent_inv_remove:
  assumes "agent_inv reg"
  shows "agent_inv (snd (remove_terminal wall raw reg))"
  using assms
  by (auto simp: remove_terminal_def Let_def agent_inv_index agent_inv_right
      intro!: agent_invI idle_index_del filed_right_del split: option.split)



section \<open>Every history of the registry\<close>

datatype registry_call =
    TryAddOpenedAsIdle gotime tunnel int
  | AcquireIdle gotime
  | ActivateIdleByID gotime string
  | MarkActive gotime string
  | MarkIdleAfterRecycle gotime gotime string "64 word"
  | MarkClosing gotime string
  | MarkClosed gotime string
  | MarkBroken gotime string string
  | RemoveTerminal gotime string

fun registry_exec :: "registry_call \<Rightarrow> agent_registry \<Rightarrow> agent_registry" where
  "registry_exec (TryAddOpenedAsIdle now t k) reg = snd (try_add_opened_as_idle now t k reg)"
| "registry_exec (AcquireIdle now) reg = snd (acquire_idle now reg)"
| "registry_exec (ActivateIdleByID now i) reg = snd (activate_idle_by_id now i reg)"
| "registry_exec (MarkActive now i) reg = snd (mark_active now i reg)"
| "registry_exec (MarkIdleAfterRecycle wall now i n) reg = snd (mark_idle_after_recycle wall now i n reg)"
| "registry_exec (MarkClosing now i) reg = snd (mark_closing now i reg)"
| "registry_exec (MarkClosed now i) reg = snd (mark_closed now i reg)"
| "registry_exec (MarkBroken now i message) reg = snd (mark_broken now i message reg)"
| "registry_exec (RemoveTerminal wall i) reg = snd (remove_terminal wall i reg)"

text \<open>The tunnel that a call hands out, and the tunnels that a call names to take them back.\<close>

fun registry_granted :: "registry_call \<Rightarrow> agent_registry \<Rightarrow> string option" where
  "registry_granted (AcquireIdle now) reg = map_option ar_id (fst (acquire_idle now reg))"
| "registry_granted (ActivateIdleByID now i) reg =
     (case fst (activate_idle_by_id now i reg) of Inl e \<Rightarrow> None | Inr r \<Rightarrow> Some (ar_id r))"
| "registry_granted call reg = None"

fun registry_gives_back :: "registry_call \<Rightarrow> string set" where
  "registry_gives_back (MarkIdleAfterRecycle wall now i n) = {trim_space i}"
| "registry_gives_back (MarkClosing now i) = {trim_space i}"
| "registry_gives_back (MarkBroken now i message) = {trim_space i}"
| "registry_gives_back call = {}"

definition lent :: "agent_registry \<Rightarrow> string set" where
  "lent reg = {i. \<exists>r. map_of (records reg) i = Some r
                 \<and> (ar_state r = StateReserved \<or> ar_state r = StateActive)}"

lemma lentI: "map_of (records reg) i = Some r \<Longrightarrow> ar_state r \<in> {StateReserved, StateActive} \<Longrightarrow> i \<in> lent reg"
  by (auto simp: lent_def)

lemma agent_inv_exec: "agent_inv reg \<Longrightarrow> agent_inv (registry_exec call reg)"
  by (cases call)
    (simp_all add: agent_inv_add agent_inv_acquire agent_inv_activate agent_inv_transition
      agent_inv_recycle agent_inv_remove mark_active_def mark_closing_def mark_closed_def mark_broken_def)

lemma transition_other:
  "j \<noteq> i \<Longrightarrow> map_of (records (snd (transition now i target message reg))) j = map_of (records reg) j"
  by (auto simp: transition_def Let_def split: option.split)

lemma transition_lent:
  assumes "j \<in> lent reg" and "j \<noteq> i \<or> target \<in> {StateActive, StateClosed}"
  shows "j \<in> lent (snd (transition now i target message reg))"
proof (cases "j = i")
  case False
  then show ?thesis using assms(1) by (simp add: lent_def transition_other)
next
  case True
  obtain r where "map_of (records reg) j = Some r" "ar_state r = StateReserved \<or> ar_state r = StateActive"
    using assms(1) by (auto simp: lent_def)
  then show ?thesis
    using assms(2) True by (auto simp: lent_def transition_def Let_def)
qed

interpretation agent_lease: lease_book registry_exec registry_granted
  "\<lambda>call reg. registry_gives_back call" lent agent_inv
proof unfold_locales
  fix reg call
  assume "agent_inv reg"
  then show "agent_inv (registry_exec call reg)" by (rule agent_inv_exec)
next
  fix reg call i
  assume inv: "agent_inv reg" and granted: "registry_granted call reg = Some i"
  show "i \<notin> lent reg \<and> i \<in> lent (registry_exec call reg)"
  proof (cases call)
    case (AcquireIdle now)
    then obtain rest where order: "idleOrder reg = i # rest"
      using granted inv
      by (auto simp: acquire_idle_cases [OF inv] Let_def agent_inv_mem [OF inv]
          dest: agent_inv_filed [OF inv] split: list.splits)
        (metis agent_inv_filed [OF inv] agent_inv_mem [OF inv] list.set_intros(1) option.sel)
    then obtain r where "map_of (records reg) i = Some r" and "is_idle r"
      using agent_inv_mem [OF inv, of i] by auto
    then show ?thesis
      using AcquireIdle order by (auto simp: acquire_idle_cases [OF inv] Let_def lent_def is_idle_def)
  next
    case (ActivateIdleByID now raw)
    then show ?thesis
      using granted agent_inv_filed [OF inv]
      by (auto simp: activate_idle_by_id_def Let_def lent_def split: option.splits if_splits)
  qed (use granted in auto)
next
  fix reg call i
  assume inv: "agent_inv reg" and lent: "i \<in> lent reg" and kept: "i \<notin> registry_gives_back call"
  obtain r where r: "map_of (records reg) i = Some r" "ar_state r = StateReserved \<or> ar_state r = StateActive"
    using lent by (auto simp: lent_def)
  show "i \<in> lent (registry_exec call reg)"
  proof (cases call)
    case (TryAddOpenedAsIdle now t k)
    then show ?thesis
      using r by (auto simp: try_add_opened_as_idle_def Let_def lent_def)
  next
    case (AcquireIdle now)
    show ?thesis
    proof (cases "idleOrder reg")
      case (Cons j rest)
      then have "i \<noteq> j" using r agent_inv_mem [OF inv, of j] by (auto simp: is_idle_def)
      then show ?thesis
        using r AcquireIdle Cons by (auto simp: acquire_idle_cases [OF inv] Let_def lent_def)
    qed (use lent AcquireIdle in \<open>simp add: acquire_idle_cases [OF inv]\<close>)
  next
    case (ActivateIdleByID now raw)
    then show ?thesis
      using r by (auto simp: activate_idle_by_id_def Let_def lent_def split: option.split)
  next
    case (MarkIdleAfterRecycle wall now raw n)
    then show ?thesis
      using r kept by (auto simp: mark_idle_after_recycle_def Let_def lent_def split: option.split)
  next
    case (RemoveTerminal wall raw)
    then show ?thesis
      using r by (auto simp: remove_terminal_def Let_def lent_def split: option.split)
  qed (use lent kept in \<open>auto simp: mark_active_def mark_closing_def mark_closed_def mark_broken_def
         intro: transition_lent\<close>)
qed


lemma count_all_states:
  "count_by_state StateOpening reg + count_by_state StateIdle reg + count_by_state StateReserved reg
   + count_by_state StateActive reg + count_by_state StateClosing reg + count_by_state StateClosed reg
   + count_by_state StateBroken reg = length (records reg)"
proof -
  have "length (filter (\<lambda>(i, r). ar_state r = StateOpening) m)
      + length (filter (\<lambda>(i, r). ar_state r = StateIdle) m)
      + length (filter (\<lambda>(i, r). ar_state r = StateReserved) m)
      + length (filter (\<lambda>(i, r). ar_state r = StateActive) m)
      + length (filter (\<lambda>(i, r). ar_state r = StateClosing) m)
      + length (filter (\<lambda>(i, r). ar_state r = StateClosed) m)
      + length (filter (\<lambda>(i, r). ar_state r = StateBroken) m) = length m"
    for m :: "(string, agent_record) gomap"
  proof (induction m)
    case (Cons x m)
    then show ?case by (cases x; cases "ar_state (snd x)") simp_all
  qed simp
  then show ?thesis by (simp add: count_by_state_def)
qed

lemma count_idle: "agent_inv reg \<Longrightarrow> count_by_state StateIdle reg = length (idleOrder reg)"
  using idle_index_length [OF agent_inv_index] by (simp add: count_by_state_def is_idle_def)

lemma idle_ids_order:
  assumes "agent_inv reg"
  shows "idle_ids k reg = take (nat k) (idleOrder reg)"
proof -
  have "filter (\<lambda>i. case map_of (records reg) i of None \<Rightarrow> False | Some r \<Rightarrow> ar_state r = StateIdle)
      (idleOrder reg) = idleOrder reg"
    using agent_inv_mem [OF assms]
    by (auto simp: is_idle_def simp del: map_of_eq_Some_iff intro!: filter_True)
  then show ?thesis by (simp add: idle_ids_def)
qed

text \<open>
  The agent's registry never loses or duplicates an idle tunnel: after any sequence of calls
  the FIFO order lists exactly the tunnels that are idle, each once, so that the counts of a
  snapshot add up and the list of idle tunnels is a prefix of that order.
\<close>

theorem agent_idle_order_exact:
  "let reg = fold registry_exec calls new_registry
   in distinct (idleOrder reg)
      \<and> set (idleOrder reg) = {i. \<exists>r. map_of (records reg) i = Some r \<and> ar_state r = StateIdle}
      \<and> IdleCount (registry_snapshot reg) = length (idleOrder reg)
      \<and> TotalCount (registry_snapshot reg)
          = OpeningCount (registry_snapshot reg) + IdleCount (registry_snapshot reg)
            + ReservedCount (registry_snapshot reg) + ActiveCount (registry_snapshot reg)
            + ClosingCount (registry_snapshot reg) + ClosedCount (registry_snapshot reg)
            + BrokenCount (registry_snapshot reg)
      \<and> idle_ids k reg = take (nat k) (idleOrder reg)"
proof -
  let ?reg = "fold registry_exec calls new_registry"
  have inv: "agent_inv ?reg" by (rule agent_lease.ok_run [OF agent_inv_new])
  have "set (idleOrder ?reg) = {i. \<exists>r. map_of (records ?reg) i = Some r \<and> ar_state r = StateIdle}"
    using agent_inv_mem [OF inv] by (auto simp: is_idle_def simp del: map_of_eq_Some_iff)
  then show ?thesis
    using agent_inv_index [OF inv] count_idle [OF inv] count_all_states [of ?reg] idle_ids_order [OF inv]
    by (simp add: Let_def registry_snapshot_def idle_index_def del: map_of_eq_Some_iff)
qed

text \<open>
  The agent never hands out a tunnel twice: between two calls that hand out the same tunnel,
  by \<open>AcquireIdle\<close> or by its identifier, there is a call that took it back (a recycling, a
  closing or a failure of that tunnel).
\<close>

theorem agent_tunnel_exclusive:
  assumes "registry_granted call (fold registry_exec before new_registry) = Some i"
    and "registry_granted call' (fold registry_exec (before @ call # between) new_registry) = Some i"
  shows "\<exists>d \<in> set between. i \<in> registry_gives_back d"
  using agent_lease.exclusive [OF agent_lease.ok_run [OF agent_inv_new] assms(1), of call' between] assms(2)
  by fastforce

definition sample_add :: registry_call where
  "sample_add = TryAddOpenedAsIdle 1 \<lparr>tunnel_object = 1, tunnel_id = ''t''\<rparr> 2"

lemma trim_t: "trim_space ''t'' = ''t''"
  by (rule trim_space_graphic; simp add: graphic_def)

theorem agent_tunnel_exclusive_witness:
  "registry_granted (AcquireIdle 2) (fold registry_exec [sample_add] new_registry) = Some ''t''
   \<and> (\<exists>d \<in> set [MarkIdleAfterRecycle 3 3 ''t'' 1]. ''t'' \<in> registry_gives_back d)"
proof -
  note run = sample_add_def try_add_opened_as_idle_def new_registry_def count_by_state_def
    stamp_record_def acquire_idle_def mark_idle_after_recycle_def Let_def trim_t
  have one: "registry_granted (AcquireIdle 2) (fold registry_exec [sample_add] new_registry) = Some ''t''"
    by (simp add: run)
  have "registry_granted (AcquireIdle 4)
      (fold registry_exec ([sample_add] @ AcquireIdle 2 # [MarkIdleAfterRecycle 3 3 ''t'' 1]) new_registry)
        = Some ''t''"
    by (simp add: run)
  from one agent_tunnel_exclusive [OF one this] show ?thesis by blast
qed

end
