(* ===== verification/Tunnel_Pool.thy ===== *)
theory Tunnel_Pool
  imports Transport_Types
begin

text \<open>
  The tunnel pool (\<open>ltfp/transport/tunnel_pool.go\<close>): \<open>InMemoryTunnelPool\<close> with its FIFO of
  idle tunnels, the tunnels in use, acquisition with health checks, recycling and the two
  evictions. Each function named \<open>..._locked\<close> or described as a section is one critical
  section of the pool's mutex; the operations are composed of them as in the code.

  What the methods of a tunnel answer is the environment's choice and comes as an argument.
\<close>

section \<open>Configuration\<close>

record tunnel_pool_config =
  MinIdleTunnels :: int
  MaxIdleTunnels :: int
  IdleTunnelTTL :: duration
  AcquireTimeout :: duration

definition normalize_tunnel_pool_config :: "tunnel_pool_config \<Rightarrow> goerr + tunnel_pool_config" where
  "normalize_tunnel_pool_config config =
     (let c1 = (if MinIdleTunnels config < 0 then config\<lparr>MinIdleTunnels := 0\<rparr> else config);
          c2 = (if MaxIdleTunnels c1 \<le> 0 then c1\<lparr>MaxIdleTunnels := 1024\<rparr> else c1)
      in if MinIdleTunnels c2 > MaxIdleTunnels c2 then Inl ErrInvalidArgument
         else if IdleTunnelTTL c2 < 0 then Inl ErrInvalidArgument
         else if AcquireTimeout c2 < 0 then Inl ErrInvalidArgument
         else Inr c2)"

definition default_tunnel_pool_config :: tunnel_pool_config where
  "default_tunnel_pool_config =
     \<lparr>MinIdleTunnels = 0, MaxIdleTunnels = 1024, IdleTunnelTTL = 0, AcquireTimeout = 0\<rparr>"


section \<open>State\<close>

datatype recycle_result = RecycleResultRecycled | RecycleResultClosed

datatype eviction_reason =
    TTLExpired
  | MissingInsertedAt
  | BrokenState
  | StateMismatch
  | DoneClosed
  | RuntimeError
  | ProbeFailed

text \<open>What the pool does to tunnels that it drops, in order.\<close>

datatype tunnel_effect = ResetTunnel tunnel goerr | CloseTunnel tunnel

record tunnel_pool =
  idleTunnelsByID :: "(string, tunnel) gomap"
  inUseTunnelsByID :: "(string, tunnel) gomap"
  idleTunnelOrder :: "string list"
  idleInsertedAt :: "(string, gotime) gomap"
  pool_config :: tunnel_pool_config
  recycledCount :: nat
  closedCount :: nat
  notifications :: nat
  tunnel_effects :: "tunnel_effect list"

definition new_in_memory_tunnel_pool_with_config :: "tunnel_pool_config \<Rightarrow> tunnel_pool" where
  "new_in_memory_tunnel_pool_with_config config =
     \<lparr>idleTunnelsByID = [], inUseTunnelsByID = [], idleTunnelOrder = [], idleInsertedAt = [],
      pool_config = (case normalize_tunnel_pool_config config of
                       Inl e \<Rightarrow> default_tunnel_pool_config | Inr c \<Rightarrow> c),
      recycledCount = 0, closedCount = 0, notifications = 0, tunnel_effects = []\<rparr>"

definition idle_count :: "tunnel_pool \<Rightarrow> nat" where
  "idle_count pool = length (idleTunnelsByID pool)"

definition in_use_count :: "tunnel_pool \<Rightarrow> nat" where
  "in_use_count pool = length (inUseTunnelsByID pool)"

text \<open>\<open>idleInsertedAt[id]\<close>: the zero time for an absent key.\<close>

definition inserted_at :: "tunnel_pool \<Rightarrow> string \<Rightarrow> gotime" where
  "inserted_at pool i = (case map_of (idleInsertedAt pool) i of None \<Rightarrow> zero_time | Some t \<Rightarrow> t)"


section \<open>Sections under the mutex\<close>

definition notify_locked :: "tunnel_pool \<Rightarrow> tunnel_pool" where
  "notify_locked pool = pool\<lparr>notifications := Suc (notifications pool)\<rparr>"

definition remove_idle_order_locked :: "string \<Rightarrow> tunnel_pool \<Rightarrow> tunnel_pool" where
  "remove_idle_order_locked i pool = pool\<lparr>idleTunnelOrder := remove1 i (idleTunnelOrder pool)\<rparr>"

text \<open>\<open>delete(idleTunnelsByID, id); delete(idleInsertedAt, id)\<close>.\<close>

definition forget_idle :: "string \<Rightarrow> tunnel_pool \<Rightarrow> tunnel_pool" where
  "forget_idle i pool =
     pool\<lparr>idleTunnelsByID := map_del i (idleTunnelsByID pool),
          idleInsertedAt := map_del i (idleInsertedAt pool)\<rparr>"

fun pop_idle_order ::
    "string list \<Rightarrow> tunnel_pool \<Rightarrow> (tunnel \<times> gotime) option \<times> tunnel_pool" where
  "pop_idle_order [] pool = (None, pool\<lparr>idleTunnelOrder := []\<rparr>)"
| "pop_idle_order (i # rest) pool =
     (case map_of (idleTunnelsByID pool) i of
        None \<Rightarrow> pop_idle_order rest pool
      | Some t \<Rightarrow>
          (Some (t, inserted_at pool i), forget_idle i (pool\<lparr>idleTunnelOrder := rest\<rparr>)))"

definition pop_idle_locked :: "tunnel_pool \<Rightarrow> (tunnel \<times> gotime) option \<times> tunnel_pool" where
  "pop_idle_locked pool = pop_idle_order (idleTunnelOrder pool) pool"

definition push_idle_locked :: "gotime \<Rightarrow> tunnel \<Rightarrow> gotime \<Rightarrow> tunnel_pool \<Rightarrow> tunnel_pool" where
  "push_idle_locked wall t inserted pool =
     (let i = trim_space (tunnel_id t)
      in if i = [] then pool
         else if has_key (idleTunnelsByID pool) i then pool
         else
           let at = (if is_zero inserted then wall else inserted)
           in notify_locked (pool\<lparr>idleTunnelsByID := map_put i t (idleTunnelsByID pool),
                                  idleInsertedAt := map_put i at (idleInsertedAt pool),
                                  idleTunnelOrder := idleTunnelOrder pool @ [i]\<rparr>))"

text \<open>The guards before the mutex read the tunnel; \<open>put_idle_locked\<close> is the rest.\<close>

definition put_idle_locked :: "gotime \<Rightarrow> tunnel \<Rightarrow> tunnel_pool \<Rightarrow> goerr option \<times> tunnel_pool" where
  "put_idle_locked wall t pool =
     (let i = trim_space (tunnel_id t);
          exists_in_idle = has_key (idleTunnelsByID pool) i
      in if has_key (inUseTunnelsByID pool) i then (Some ErrTunnelInUse, pool)
         else if \<not> exists_in_idle
                 \<and> int (length (idleTunnelsByID pool)) \<ge> MaxIdleTunnels (pool_config pool)
         then (Some ErrPoolExhausted, pool)
         else
           let pool1 = (if \<not> exists_in_idle
                        then pool\<lparr>idleTunnelOrder := idleTunnelOrder pool @ [i]\<rparr> else pool);
               pool2 = pool1\<lparr>idleTunnelsByID := map_put i t (idleTunnelsByID pool1),
                             idleInsertedAt := map_put i wall (idleInsertedAt pool1)\<rparr>
           in (None, if \<not> exists_in_idle then notify_locked pool2 else pool2))"

definition put_idle ::
    "tunnel_state \<Rightarrow> gotime \<Rightarrow> tunnel \<Rightarrow> tunnel_pool \<Rightarrow> goerr option \<times> tunnel_pool" where
  "put_idle state wall t pool =
     (if state \<noteq> TunnelStateIdle then (Some ErrStateTransition, pool)
      else if trim_space (tunnel_id t) = [] then (Some ErrInvalidArgument, pool)
      else put_idle_locked wall t pool)"

definition mark_in_use :: "tunnel \<Rightarrow> tunnel_pool \<Rightarrow> tunnel_pool" where
  "mark_in_use t pool = pool\<lparr>inUseTunnelsByID := map_put (tunnel_id t) t (inUseTunnelsByID pool)\<rparr>"

definition pool_remove :: "string \<Rightarrow> tunnel_pool \<Rightarrow> goerr option \<times> tunnel_pool" where
  "pool_remove raw_id pool =
     (let i = trim_space raw_id
      in if i = [] then (Some ErrInvalidArgument, pool)
         else
           let removed_from_idle = has_key (idleTunnelsByID pool) i;
               pool1 = (if removed_from_idle then remove_idle_order_locked i (forget_idle i pool)
                        else pool);
               removed_from_in_use = has_key (inUseTunnelsByID pool1) i;
               pool2 = (if removed_from_in_use
                        then pool1\<lparr>inUseTunnelsByID := map_del i (inUseTunnelsByID pool1)\<rparr>
                        else pool1)
           in if \<not> removed_from_idle \<and> \<not> removed_from_in_use then (Some ErrTunnelNotFound, pool2)
              else (None, pool2))"


section \<open>Dropping tunnels\<close>

text \<open>
  \<open>cleanupClosedTunnel\<close>: \<open>reset_fails\<close> says whether \<open>tunnel.Reset\<close> returns an error. The
  tunnel calls are recorded in \<open>tunnel_effects\<close>.
\<close>

definition cleanup_closed_tunnel ::
    "(tunnel \<Rightarrow> bool) \<Rightarrow> tunnel \<Rightarrow> goerr option \<Rightarrow> tunnel_pool \<Rightarrow> tunnel_pool" where
  "cleanup_closed_tunnel reset_fails t cause pool =
     (let reset_cause = (case cause of None \<Rightarrow> ErrTunnelBroken | Some e \<Rightarrow> e)
      in pool\<lparr>tunnel_effects := tunnel_effects pool
                @ (if reset_fails t then [ResetTunnel t reset_cause, CloseTunnel t]
                   else [ResetTunnel t reset_cause]),
              closedCount := Suc (closedCount pool)\<rparr>)"

definition cleanup_evicted_idle_tunnel ::
    "(tunnel \<Rightarrow> bool) \<Rightarrow> tunnel \<Rightarrow> eviction_reason \<Rightarrow> goerr option \<Rightarrow> tunnel_pool \<Rightarrow> tunnel_pool" where
  "cleanup_evicted_idle_tunnel reset_fails t reason cause pool =
     (if reason = TTLExpired \<or> reason = MissingInsertedAt
      then pool\<lparr>tunnel_effects := tunnel_effects pool @ [CloseTunnel t],
                closedCount := Suc (closedCount pool)\<rparr>
      else cleanup_closed_tunnel reset_fails t cause pool)"


section \<open>Health\<close>

record tunnel_view =
  view_state :: tunnel_state
  view_done :: bool
  view_err :: "goerr option"

definition classify_idle_tunnel_runtime_state ::
    "tunnel_view \<Rightarrow> (eviction_reason \<times> goerr option) option" where
  "classify_idle_tunnel_runtime_state v =
     (if view_state v = TunnelStateBroken then Some (BrokenState, Some ErrTunnelBroken)
      else if view_state v \<noteq> TunnelStateIdle then Some (StateMismatch, Some ErrStateTransition)
      else if view_done v
      then (case view_err v of
              Some e \<Rightarrow> Some (DoneClosed, Some e)
            | None \<Rightarrow> Some (DoneClosed, Some ErrClosed))
      else case view_err v of
             Some e \<Rightarrow> Some (RuntimeError, Some e)
           | None \<Rightarrow> None)"

text \<open>
  \<open>probe\<close>: \<open>None\<close> when the tunnel cannot be probed, else the result of \<open>Probe\<close>. A probe that
  is unsupported or cancelled is not held against the tunnel.
\<close>

definition probe_failure :: "goerr option option \<Rightarrow> goerr option" where
  "probe_failure probe =
     (case probe of
        None \<Rightarrow> None
      | Some None \<Rightarrow> None
      | Some (Some e) \<Rightarrow> if e \<in> {ErrUnsupported, Canceled, DeadlineExceeded} then None else Some e)"

definition classify_idle_tunnel_acquire_state ::
    "tunnel_view \<Rightarrow> goerr option option \<Rightarrow> tunnel_view \<Rightarrow> (eviction_reason \<times> goerr option) option" where
  "classify_idle_tunnel_acquire_state before_probe probe after_probe =
     (case classify_idle_tunnel_runtime_state before_probe of
        Some r \<Rightarrow> Some r
      | None \<Rightarrow>
          (case probe_failure probe of
             None \<Rightarrow> None
           | Some e \<Rightarrow>
               (case classify_idle_tunnel_runtime_state after_probe of
                  Some r \<Rightarrow> Some r
                | None \<Rightarrow> Some (ProbeFailed, Some e))))"

definition classify_idle_tunnel_zombie_state ::
    "goerr option option \<Rightarrow> gotime \<Rightarrow> gotime \<Rightarrow> tunnel_pool_config
       \<Rightarrow> (eviction_reason \<times> goerr option) option" where
  "classify_idle_tunnel_zombie_state probe inserted now config =
     (if IdleTunnelTTL config > 0 \<and> is_zero inserted then Some (MissingInsertedAt, None)
      else if IdleTunnelTTL config > 0 \<and> time_sub now inserted \<ge> IdleTunnelTTL config
      then Some (TTLExpired, None)
      else case probe_failure probe of
             None \<Rightarrow> None
           | Some e \<Rightarrow> Some (ProbeFailed, Some e))"

definition same_inserted_at :: "gotime \<Rightarrow> gotime \<Rightarrow> bool" where
  "same_inserted_at left right \<longleftrightarrow> (if is_zero left \<and> is_zero right then True else left = right)"


section \<open>Acquire\<close>

text \<open>
  What the environment answers while \<open>Acquire\<close> holds a popped tunnel, which no mutex
  protects: the tunnel before the probe, the probe, the tunnel after it, the error of the
  context after the probe, and the tunnel when it is looked at for the last time.
\<close>

record acquire_answers =
  ans_before :: tunnel_view
  ans_probe :: "goerr option option"
  ans_after :: tunnel_view
  ans_ctx :: "goerr option"
  ans_last :: tunnel_view

datatype acquire_outcome = Acquired tunnel | AcquireFailed goerr | AcquireWaits

text \<open>
  The loop of \<open>Acquire\<close>, one iteration per popped tunnel. With no idle tunnel the caller
  blocks until it is notified (and starts over) or its context ends. A failed iteration
  drops its tunnel, so without interference the loop ends.
\<close>

definition acquire_reject ::
    "acquire_answers \<Rightarrow> (eviction_reason \<times> goerr option) option" where
  "acquire_reject a =
     (case classify_idle_tunnel_acquire_state (ans_before a) (ans_probe a) (ans_after a) of
        Some r \<Rightarrow> Some r
      | None \<Rightarrow> if ans_ctx a \<noteq> None then None
                else classify_idle_tunnel_runtime_state (ans_last a))"

lemma pop_idle_order_shrinks:
  "pop_idle_order ids pool = (Some (t, at), pool') \<Longrightarrow>
   length (idleTunnelOrder pool') < length ids"
  by (induction ids pool rule: pop_idle_order.induct)
    (auto simp: forget_idle_def less_Suc_eq split: option.splits)

lemma cleanup_order [simp]:
  "idleTunnelOrder (cleanup_evicted_idle_tunnel rf t r c pool) = idleTunnelOrder pool"
  "idleTunnelsByID (cleanup_evicted_idle_tunnel rf t r c pool) = idleTunnelsByID pool"
  "idleInsertedAt (cleanup_evicted_idle_tunnel rf t r c pool) = idleInsertedAt pool"
  "inUseTunnelsByID (cleanup_evicted_idle_tunnel rf t r c pool) = inUseTunnelsByID pool"
  "pool_config (cleanup_evicted_idle_tunnel rf t r c pool) = pool_config pool"
  "closedCount (cleanup_evicted_idle_tunnel rf t r c pool) = Suc (closedCount pool)"
  by (simp_all add: cleanup_evicted_idle_tunnel_def cleanup_closed_tunnel_def Let_def)

function acquire ::
    "gotime \<Rightarrow> (tunnel \<Rightarrow> acquire_answers) \<Rightarrow> (tunnel \<Rightarrow> bool) \<Rightarrow> tunnel_pool
       \<Rightarrow> acquire_outcome \<times> tunnel_pool" where
  "acquire wall answers reset_fails pool =
     (case pop_idle_locked pool of
        (None, pool1) \<Rightarrow> (AcquireWaits, pool1)
      | (Some (t, inserted), pool1) \<Rightarrow>
          let a = answers t in
          (case classify_idle_tunnel_acquire_state (ans_before a) (ans_probe a) (ans_after a) of
             Some (reason, cause) \<Rightarrow>
               acquire wall answers reset_fails
                 (cleanup_evicted_idle_tunnel reset_fails t reason cause pool1)
           | None \<Rightarrow>
               (case ans_ctx a of
                  Some e \<Rightarrow> (AcquireFailed e, push_idle_locked wall t inserted pool1)
                | None \<Rightarrow>
                    (case classify_idle_tunnel_runtime_state (ans_last a) of
                       Some (reason, cause) \<Rightarrow>
                         acquire wall answers reset_fails
                           (cleanup_evicted_idle_tunnel reset_fails t reason cause pool1)
                     | None \<Rightarrow> (Acquired t, mark_in_use t pool1)))))"
  by pat_completeness auto
termination
  by (relation "measure (\<lambda>(wall, answers, reset_fails, pool). length (idleTunnelOrder pool))")
    (simp_all, (metis pop_idle_locked_def pop_idle_order_shrinks)+)

declare acquire.simps [simp del]


section \<open>Recycle\<close>

text \<open>The answers of the tunnel and the context to \<open>Recycle\<close>.\<close>

record recycle_answers =
  rec_ctx :: "goerr option"
  rec_recyclable :: bool
  rec_flush :: "goerr option"
  rec_state :: tunnel_state

definition recycle ::
    "gotime \<Rightarrow> recycle_answers \<Rightarrow> (tunnel \<Rightarrow> bool) \<Rightarrow> tunnel \<Rightarrow> tunnel_pool
       \<Rightarrow> (recycle_result \<times> goerr option) \<times> tunnel_pool" where
  "recycle wall a reset_fails t pool =
     (let i = trim_space (tunnel_id t)
      in if i = [] then ((RecycleResultClosed, Some ErrInvalidArgument), pool)
         else if \<not> has_key (inUseTunnelsByID pool) i
         then ((RecycleResultClosed, Some ErrTunnelNotFound), pool)
         else
           let pool1 = pool\<lparr>inUseTunnelsByID := map_del i (inUseTunnelsByID pool)\<rparr>
           in case rec_ctx a of
                Some e \<Rightarrow> ((RecycleResultClosed, Some e),
                           cleanup_closed_tunnel reset_fails t (Some e) pool1)
              | None \<Rightarrow>
                  if \<not> rec_recyclable a
                  then ((RecycleResultClosed, None),
                        cleanup_closed_tunnel reset_fails t (Some ErrTunnelBroken) pool1)
                  else case rec_flush a of
                         Some e \<Rightarrow> ((RecycleResultClosed, Some e),
                                    cleanup_closed_tunnel reset_fails t (Some e) pool1)
                       | None \<Rightarrow>
                           (case put_idle (rec_state a) wall t pool1 of
                              (Some e, pool2) \<Rightarrow>
                                ((RecycleResultClosed, Some e),
                                 cleanup_closed_tunnel reset_fails t (Some e) pool2)
                            | (None, pool2) \<Rightarrow>
                                ((RecycleResultRecycled, None),
                                 pool2\<lparr>recycledCount := Suc (recycledCount pool2)\<rparr>)))"


section \<open>Eviction\<close>

text \<open>
  \<open>EvictExpiredIdle\<close>: the first pass, over the idle map in iteration order, removes under
  the mutex; the second closes the removed tunnels.
\<close>

definition expiry_reason :: "gotime \<Rightarrow> tunnel_pool \<Rightarrow> string \<Rightarrow> eviction_reason option" where
  "expiry_reason now pool i =
     (if is_zero (inserted_at pool i) then Some MissingInsertedAt
      else if time_sub now (inserted_at pool i) < IdleTunnelTTL (pool_config pool) then None
      else Some TTLExpired)"

fun collect_expired ::
    "gotime \<Rightarrow> (string \<times> tunnel) list \<Rightarrow> tunnel_pool
       \<Rightarrow> (string \<times> tunnel \<times> eviction_reason) list \<times> tunnel_pool" where
  "collect_expired now [] pool = ([], pool)"
| "collect_expired now ((i, t) # rest) pool =
     (case expiry_reason now pool i of
        None \<Rightarrow> collect_expired now rest pool
      | Some reason \<Rightarrow>
          let r = collect_expired now rest (remove_idle_order_locked i (forget_idle i pool))
          in ((i, t, reason) # fst r, snd r))"

definition evict_expired_idle ::
    "(tunnel \<Rightarrow> bool) \<Rightarrow> gotime \<Rightarrow> tunnel_pool \<Rightarrow> string list \<times> tunnel_pool" where
  "evict_expired_idle reset_fails now pool =
     (if IdleTunnelTTL (pool_config pool) \<le> 0 then ([], pool)
      else
        let (evicted, pool1) = collect_expired now (idleTunnelsByID pool) pool
        in (map fst evicted,
            fold (\<lambda>(i, t, reason) p. cleanup_evicted_idle_tunnel reset_fails t reason None p)
              evicted pool1))"

text \<open>
  \<open>EvictZombieIdle\<close>: a snapshot under the mutex; the judgement of each tunnel without it,
  until the context is cancelled (\<open>live n\<close>: the context is alive at the \<open>n\<close>-th tunnel);
  then, under the mutex again, the removal of the candidates that are still the same; last
  the clean-up.
\<close>

type_synonym idle_snapshot = "(string \<times> tunnel \<times> gotime) list"

definition snapshot_idle :: "tunnel_pool \<Rightarrow> idle_snapshot" where
  "snapshot_idle pool = map (\<lambda>(i, t). (i, t, inserted_at pool i)) (idleTunnelsByID pool)"

definition judge_idle ::
    "gotime \<Rightarrow> tunnel_pool_config \<Rightarrow> (tunnel \<Rightarrow> tunnel_view) \<Rightarrow> (tunnel \<Rightarrow> goerr option option)
       \<Rightarrow> tunnel \<times> gotime \<Rightarrow> (eviction_reason \<times> goerr option) option" where
  "judge_idle now config view probe ti =
     (case classify_idle_tunnel_runtime_state (view (fst ti)) of
        Some r \<Rightarrow> Some r
      | None \<Rightarrow> classify_idle_tunnel_zombie_state (probe (fst ti)) (snd ti) now config)"

fun collect_candidates ::
    "(tunnel \<times> gotime \<Rightarrow> (eviction_reason \<times> goerr option) option) \<Rightarrow> (nat \<Rightarrow> bool) \<Rightarrow> nat
       \<Rightarrow> idle_snapshot \<Rightarrow> (string \<times> gotime \<times> eviction_reason \<times> goerr option) list" where
  "collect_candidates judge live n [] = []"
| "collect_candidates judge live n ((i, t, at) # rest) =
     (if \<not> live n then []
      else case judge (t, at) of
             None \<Rightarrow> collect_candidates judge live (Suc n) rest
           | Some (reason, cause) \<Rightarrow>
               (i, at, reason, cause) # collect_candidates judge live (Suc n) rest)"

fun remove_candidates ::
    "(string \<times> gotime \<times> eviction_reason \<times> goerr option) list \<Rightarrow> tunnel_pool
       \<Rightarrow> (string \<times> tunnel \<times> eviction_reason \<times> goerr option) list \<times> tunnel_pool" where
  "remove_candidates [] pool = ([], pool)"
| "remove_candidates ((i, at, reason, cause) # rest) pool =
     (case map_of (idleTunnelsByID pool) i of
        None \<Rightarrow> remove_candidates rest pool
      | Some current \<Rightarrow>
          if \<not> same_inserted_at (inserted_at pool i) at then remove_candidates rest pool
          else
            let r = remove_candidates rest (remove_idle_order_locked i (forget_idle i pool))
            in ((i, current, reason, cause) # fst r, snd r))"

definition finish_evictions ::
    "(tunnel \<Rightarrow> bool) \<Rightarrow> (string \<times> tunnel \<times> eviction_reason \<times> goerr option) list \<Rightarrow> tunnel_pool
       \<Rightarrow> (string \<times> eviction_reason \<times> goerr option) list \<times> tunnel_pool" where
  "finish_evictions reset_fails evicted pool =
     (map (\<lambda>(i, t, reason, cause). (i, reason, cause)) evicted,
      fold (\<lambda>(i, t, reason, cause) p. cleanup_evicted_idle_tunnel reset_fails t reason cause p)
        evicted pool)"

definition evict_zombie_idle ::
    "(tunnel \<Rightarrow> bool) \<Rightarrow> gotime \<Rightarrow> (tunnel \<Rightarrow> tunnel_view) \<Rightarrow> (tunnel \<Rightarrow> goerr option option)
       \<Rightarrow> (nat \<Rightarrow> bool) \<Rightarrow> tunnel_pool
       \<Rightarrow> (string \<times> eviction_reason \<times> goerr option) list \<times> tunnel_pool" where
  "evict_zombie_idle reset_fails now view probe live pool =
     (let candidates = collect_candidates (judge_idle now (pool_config pool) view probe) live 0
                         (snapshot_idle pool)
      in if candidates = [] then ([], pool)
         else
           let (evicted, pool1) = remove_candidates candidates pool
           in finish_evictions reset_fails evicted pool1)"

section \<open>The index of the idle tunnels\<close>

text \<open>
  The order queue and the two maps describe the same set of tunnels, each under its trimmed
  identifier.
\<close>

definition pool_inv :: "tunnel_pool \<Rightarrow> bool" where
  "pool_inv p \<longleftrightarrow> keys_distinct (idleTunnelsByID p) \<and> keys_distinct (inUseTunnelsByID p)
     \<and> keys_distinct (idleInsertedAt p) \<and> distinct (idleTunnelOrder p)
     \<and> set (idleTunnelOrder p) = fst ` set (idleTunnelsByID p)
     \<and> fst ` set (idleInsertedAt p) = fst ` set (idleTunnelsByID p)
     \<and> (\<forall>(i, t) \<in> set (idleTunnelsByID p). trim_space (tunnel_id t) = i \<and> i \<noteq> [])"

lemma keys_map_put [simp]: "fst ` set (map_put k v m) = insert k (fst ` set m)"
  by (induction m) auto

lemma pool_inv_new: "pool_inv (new_in_memory_tunnel_pool_with_config c)"
  by (simp add: pool_inv_def new_in_memory_tunnel_pool_with_config_def)

lemma pool_inv_same:
  assumes "pool_inv p" and "idleTunnelsByID p' = idleTunnelsByID p"
    and "idleTunnelOrder p' = idleTunnelOrder p" and "idleInsertedAt p' = idleInsertedAt p"
    and "keys_distinct (inUseTunnelsByID p')"
  shows "pool_inv p'"
  using assms by (simp add: pool_inv_def)

lemma pool_inv_forget:
  assumes "pool_inv p"
  shows "pool_inv (remove_idle_order_locked i (forget_idle i p))"
  using assms
  by (auto simp: pool_inv_def remove_idle_order_locked_def forget_idle_def dest: set_map_del)

lemma pool_inv_insert:
  assumes "pool_inv p" and "trim_space (tunnel_id t) = i" and "i \<noteq> []"
    and "idleTunnelOrder p'
      = (if has_key (idleTunnelsByID p) i then idleTunnelOrder p else idleTunnelOrder p @ [i])"
    and "idleTunnelsByID p' = map_put i t (idleTunnelsByID p)"
    and "idleInsertedAt p' = map_put i at (idleInsertedAt p)"
    and "inUseTunnelsByID p' = inUseTunnelsByID p"
  shows "pool_inv p'"
proof -
  have "i \<in> fst ` set (idleTunnelsByID p) \<longleftrightarrow> has_key (idleTunnelsByID p) i"
    by (simp only: has_key_iff)
  with assms show ?thesis
    by (auto simp: pool_inv_def insert_absorb simp del: map_of_eq_None_iff dest!: set_map_put)
qed

lemma pool_inv_notify: "pool_inv p \<Longrightarrow> pool_inv (notify_locked p)"
  by (simp add: pool_inv_def notify_locked_def)

lemma pool_inv_put_idle: "pool_inv p \<Longrightarrow> pool_inv (snd (put_idle state wall t p))"
proof -
  assume inv: "pool_inv p"
  show ?thesis
  proof (cases "fst (put_idle state wall t p)")
    case (Some e)
    with inv show ?thesis by (auto simp: put_idle_def put_idle_locked_def Let_def split: if_splits)
  next
    case None
    then show ?thesis
      by (intro pool_inv_insert [OF inv, of t "trim_space (tunnel_id t)" _ wall])
        (auto simp: put_idle_def put_idle_locked_def notify_locked_def Let_def split: if_splits)
  qed
qed

lemma pool_inv_push: "pool_inv p \<Longrightarrow> pool_inv (push_idle_locked wall t at p)"
proof -
  assume inv: "pool_inv p"
  let ?i = "trim_space (tunnel_id t)"
  show ?thesis
  proof (cases "?i = [] \<or> has_key (idleTunnelsByID p) ?i")
    case True
    with inv show ?thesis by (auto simp: push_idle_locked_def Let_def)
  next
    case False
    then show ?thesis
      by (intro pool_inv_insert [OF inv, of t ?i _ "if is_zero at then wall else at"])
        (auto simp: push_idle_locked_def notify_locked_def Let_def)
  qed
qed

text \<open>With a consistent index the pop takes the head of the queue.\<close>

lemma pop_idle_head:
  assumes "pool_inv p"
  shows "pop_idle_locked p =
    (case idleTunnelOrder p of
       [] \<Rightarrow> (None, p)
     | i # rest \<Rightarrow>
         (Some (the (map_of (idleTunnelsByID p) i), inserted_at p i),
          remove_idle_order_locked i (forget_idle i p)))"
proof (cases "idleTunnelOrder p")
  case Nil
  then show ?thesis by (cases p) (simp add: pop_idle_locked_def)
next
  case (Cons i rest)
  with assms have "i \<in> fst ` set (idleTunnelsByID p)" by (auto simp: pool_inv_def)
  then have "has_key (idleTunnelsByID p) i" by (simp only: has_key_iff)
  then obtain t where "map_of (idleTunnelsByID p) i = Some t" by blast
  with Cons show ?thesis
    by (simp add: pop_idle_locked_def remove_idle_order_locked_def forget_idle_def)
qed

lemma pool_inv_pop: "pool_inv p \<Longrightarrow> pool_inv (snd (pop_idle_locked p))"
  by (auto simp: pop_idle_head pool_inv_forget split: list.splits)

lemma pool_inv_in_use:
  "pool_inv p \<Longrightarrow> keys_distinct m \<Longrightarrow> pool_inv (p\<lparr>inUseTunnelsByID := m\<rparr>)"
  by (rule pool_inv_same) simp_all

lemma pool_inv_remove: "pool_inv p \<Longrightarrow> pool_inv (snd (pool_remove i p))"
  using pool_inv_forget [of p "trim_space i"]
  by (auto simp: pool_remove_def Let_def intro!: pool_inv_in_use) (auto simp: pool_inv_def)

lemma pool_inv_cleanup: "pool_inv p \<Longrightarrow> pool_inv (cleanup_evicted_idle_tunnel rf t r c p)"
  by (rule pool_inv_same) (simp_all add: pool_inv_def)

lemma pool_inv_collect: "pool_inv p \<Longrightarrow> pool_inv (snd (collect_expired now its p))"
  by (induction now its p rule: collect_expired.induct)
    (auto simp: Let_def pool_inv_forget split: option.splits)

lemma pool_inv_remove_candidates: "pool_inv p \<Longrightarrow> pool_inv (snd (remove_candidates cs p))"
  by (induction cs p rule: remove_candidates.induct)
    (auto simp: Let_def pool_inv_forget split: option.splits)

lemma cleanup_closed_same [simp]:
  "idleTunnelOrder (cleanup_closed_tunnel rf t c pool) = idleTunnelOrder pool"
  "idleTunnelsByID (cleanup_closed_tunnel rf t c pool) = idleTunnelsByID pool"
  "idleInsertedAt (cleanup_closed_tunnel rf t c pool) = idleInsertedAt pool"
  "inUseTunnelsByID (cleanup_closed_tunnel rf t c pool) = inUseTunnelsByID pool"
  "pool_config (cleanup_closed_tunnel rf t c pool) = pool_config pool"
  by (simp_all add: cleanup_closed_tunnel_def Let_def)

text \<open>
  The critical sections, which goroutines interleave freely. The answers of tunnels and
  contexts, which happen between the sections, are arbitrary: each section may run with any
  tunnel, time and candidate list.
\<close>

inductive pool_step :: "tunnel_pool \<Rightarrow> tunnel_pool \<Rightarrow> bool" where
  section_put: "pool_step p (snd (put_idle state wall t p))"
| section_pop: "pool_step p (snd (pop_idle_locked p))"
| section_push: "pool_step p (push_idle_locked wall t at p)"
| section_mark: "pool_step p (mark_in_use t p)"
| section_remove: "pool_step p (snd (pool_remove i p))"
| section_take: "pool_step p (p\<lparr>inUseTunnelsByID := map_del i (inUseTunnelsByID p)\<rparr>)"
| section_recycled: "pool_step p (p\<lparr>recycledCount := Suc (recycledCount p)\<rparr>)"
| section_cleanup: "pool_step p (cleanup_evicted_idle_tunnel rf t r c p)"
| section_expire: "pool_step p (snd (collect_expired now (idleTunnelsByID p) p))"
| section_zombies: "pool_step p (snd (remove_candidates cs p))"

lemma pool_step_inv: "pool_step p p' \<Longrightarrow> pool_inv p \<Longrightarrow> pool_inv p'"
proof (induction rule: pool_step.induct)
  case (section_mark p t)
  then show ?case by (auto simp: mark_in_use_def intro!: pool_inv_in_use) (simp add: pool_inv_def)
next
  case (section_take p i)
  then show ?case by (auto intro!: pool_inv_in_use) (simp add: pool_inv_def)
next
  case (section_recycled p)
  then show ?case by (simp add: pool_inv_def)
qed (simp_all add: pool_inv_put_idle pool_inv_pop pool_inv_push pool_inv_remove pool_inv_cleanup
    pool_inv_collect pool_inv_remove_candidates)

text \<open>
  C18. The pool's three indexes of idle tunnels never drift apart: in every interleaving of the
  critical sections of all its operations, the FIFO queue lists exactly the identifiers of
  the idle map, each once, every idle tunnel has an insertion time, and each is filed under
  its own trimmed identifier.
\<close>

theorem pool_indexes_consistent:
  assumes "pool_step\<^sup>*\<^sup>* (new_in_memory_tunnel_pool_with_config c) p"
  shows "distinct (idleTunnelOrder p)
    \<and> set (idleTunnelOrder p) = fst ` set (idleTunnelsByID p)
    \<and> length (idleTunnelOrder p) = idle_count p
    \<and> fst ` set (idleInsertedAt p) = fst ` set (idleTunnelsByID p)
    \<and> (\<forall>(i, t) \<in> set (idleTunnelsByID p). trim_space (tunnel_id t) = i \<and> i \<noteq> [])"
proof -
  from assms have inv: "pool_inv p"
    by (induction rule: rtranclp_induct) (auto intro: pool_inv_new pool_step_inv)
  then have "length (idleTunnelOrder p) = card (fst ` set (idleTunnelsByID p))"
    by (simp add: pool_inv_def distinct_card [symmetric])
  also have "\<dots> = idle_count p"
    using inv distinct_card [of "map fst (idleTunnelsByID p)"] by (simp add: pool_inv_def idle_count_def)
  finally show ?thesis using inv by (simp add: pool_inv_def)
qed

theorem pool_indexes_consistent_witness:
  "let p = snd (put_idle TunnelStateIdle 5 \<lparr>tunnel_object = 1, tunnel_id = ''t''\<rparr>
             (new_in_memory_tunnel_pool_with_config default_tunnel_pool_config))
   in length (idleTunnelOrder p) = idle_count p"
  unfolding Let_def
  by (rule pool_indexes_consistent [where c = default_tunnel_pool_config,
        THEN conjunct2, THEN conjunct2, THEN conjunct1])
    (intro r_into_rtranclp section_put)

section \<open>Acquire hands out the first healthy tunnel\<close>

definition idle_tunnel :: "tunnel_pool \<Rightarrow> string \<Rightarrow> tunnel" where
  "idle_tunnel p i = the (map_of (idleTunnelsByID p) i)"

definition rejected :: "(tunnel \<Rightarrow> acquire_answers) \<Rightarrow> tunnel_pool \<Rightarrow> string \<Rightarrow> bool" where
  "rejected answers p i \<longleftrightarrow> acquire_reject (answers (idle_tunnel p i)) \<noteq> None"

text \<open>What \<open>Acquire\<close> must do, over the queue only.\<close>

definition acquire_spec ::
    "(tunnel \<Rightarrow> acquire_answers) \<Rightarrow> tunnel_pool \<Rightarrow> acquire_outcome \<Rightarrow> tunnel_pool \<Rightarrow> bool" where
  "acquire_spec answers p out p' \<longleftrightarrow>
     closedCount p' = closedCount p + length (takeWhile (rejected answers p) (idleTunnelOrder p))
         \<and> (case dropWhile (rejected answers p) (idleTunnelOrder p) of
              [] \<Rightarrow> out = AcquireWaits \<and> idleTunnelOrder p' = []
                    \<and> inUseTunnelsByID p' = inUseTunnelsByID p
            | i # rest \<Rightarrow>
                (case ans_ctx (answers (idle_tunnel p i)) of
                   Some e \<Rightarrow> out = AcquireFailed e \<and> idleTunnelOrder p' = rest @ [i]
                             \<and> inUseTunnelsByID p' = inUseTunnelsByID p
                 | None \<Rightarrow> out = Acquired (idle_tunnel p i) \<and> idleTunnelOrder p' = rest
                           \<and> inUseTunnelsByID p' = map_put (tunnel_id (idle_tunnel p i))
                               (idle_tunnel p i) (inUseTunnelsByID p)))"

lemma removed_head:
  assumes "pool_inv p" and "idleTunnelOrder p = i # rest"
  shows "idleTunnelOrder (remove_idle_order_locked i (forget_idle i p)) = rest"
    and "j \<in> set rest \<Longrightarrow> idle_tunnel (remove_idle_order_locked i (forget_idle i p)) j = idle_tunnel p j"
    and "inUseTunnelsByID (remove_idle_order_locked i (forget_idle i p)) = inUseTunnelsByID p"
    and "closedCount (remove_idle_order_locked i (forget_idle i p)) = closedCount p"
    and "\<not> has_key (idleTunnelsByID (remove_idle_order_locked i (forget_idle i p))) i"
  using assms
  by (auto simp: pool_inv_def remove_idle_order_locked_def forget_idle_def idle_tunnel_def)

lemma acquire_spec_skip:
  assumes inv: "pool_inv p" and order: "idleTunnelOrder p = i # rest"
    and bad: "rejected answers p i"
    and order1: "idleTunnelOrder p1 = rest"
    and tunnels: "\<And>j. j \<in> set rest \<Longrightarrow> idle_tunnel p1 j = idle_tunnel p j"
    and same: "inUseTunnelsByID p1 = inUseTunnelsByID p" "closedCount p1 = Suc (closedCount p)"
    and spec: "acquire_spec answers p1 out p'"
  shows "acquire_spec answers p out p'"
proof -
  have eq: "rejected answers p1 j = rejected answers p j" if "j \<in> set rest" for j
    using tunnels [OF that] by (simp add: rejected_def)
  have tw: "takeWhile (rejected answers p1) rest = takeWhile (rejected answers p) rest"
    by (rule takeWhile_cong) (simp_all add: eq)
  have dw: "dropWhile (rejected answers p1) rest = dropWhile (rejected answers p) rest"
    by (rule dropWhile_cong) (simp_all add: eq)
  have "idle_tunnel p1 j = idle_tunnel p j" if "dropWhile (rejected answers p) rest = j # rest'" for j rest'
    using that tunnels by (metis list.set_intros(1) set_dropWhileD)
  then show ?thesis
    using spec bad unfolding acquire_spec_def order order1 same
    by (cases "dropWhile (rejected answers p) rest")
      (auto simp: tw dw simp del: dropWhile_eq_Nil_conv split: option.splits)
qed

lemma acquire_meets_spec:
  assumes "pool_inv p" and "acquire wall answers reset_fails p = (out, p')"
  shows "acquire_spec answers p out p'"
  using assms
proof (induction wall answers reset_fails p arbitrary: out p' rule: acquire.induct)
  case (1 wall answers reset_fails p)
  show ?case
  proof (cases "idleTunnelOrder p")
    case Nil
    with 1(3,4) show ?thesis
      by (simp add: acquire.simps [of _ _ _ p] pop_idle_head acquire_spec_def)
  next
    case (Cons i rest)
    let ?t = "idle_tunnel p i" and ?p1 = "remove_idle_order_locked i (forget_idle i p)"
    let ?a = "answers ?t"
    have pop: "pop_idle_locked p = (Some (?t, inserted_at p i), ?p1)"
      using Cons 1(3) by (simp add: pop_idle_head idle_tunnel_def)
    have trimmed: "trim_space (tunnel_id ?t) = i" "i \<noteq> []"
    proof -
      have "i \<in> fst ` set (idleTunnelsByID p)" using Cons 1(3) by (auto simp: pool_inv_def)
      then have "has_key (idleTunnelsByID p) i" by (simp only: has_key_iff)
      then have "(i, ?t) \<in> set (idleTunnelsByID p)"
        by (auto simp: idle_tunnel_def dest: map_of_SomeD)
      with 1(3) show "trim_space (tunnel_id ?t) = i" "i \<noteq> []" by (auto simp: pool_inv_def)
    qed
    note head = removed_head [OF 1(3) Cons]
    show ?thesis
    proof (cases "classify_idle_tunnel_acquire_state (ans_before ?a) (ans_probe ?a) (ans_after ?a)")
      case (Some r)
      obtain reason cause where r: "r = (reason, cause)" by fastforce
      let ?p2 = "cleanup_evicted_idle_tunnel reset_fails ?t reason cause ?p1"
      have "acquire wall answers reset_fails ?p2 = (out, p')"
        using 1(4) by (simp add: acquire.simps [of _ _ _ p] pop Some r Let_def)
      with 1(2) [OF pop [symmetric] refl refl refl Some [unfolded r] refl]
      have "acquire_spec answers ?p2 out p'"
        using pool_inv_cleanup [OF pool_inv_forget [OF 1(3)]] by blast
      moreover have "rejected answers p i" using Some by (simp add: rejected_def acquire_reject_def)
      ultimately show ?thesis
        using head by (intro acquire_spec_skip [OF 1(3) Cons]) (auto simp: idle_tunnel_def)
    next
      case None
      show ?thesis
      proof (cases "ans_ctx ?a")
        case (Some e)
        with None 1(4) have "out = AcquireFailed e" "p' = push_idle_locked wall ?t (inserted_at p i) ?p1"
          by (simp_all add: acquire.simps [of _ _ _ p] pop Let_def)
        moreover have "\<not> rejected answers p i"
          using None Some by (simp add: rejected_def acquire_reject_def)
        ultimately show ?thesis
          using head Some trimmed Cons
          by (simp add: acquire_spec_def push_idle_locked_def notify_locked_def Let_def)
      next
        case no_ctx: None
        show ?thesis
        proof (cases "classify_idle_tunnel_runtime_state (ans_last ?a)")
          case (Some r)
          obtain reason cause where r: "r = (reason, cause)" by fastforce
          let ?p2 = "cleanup_evicted_idle_tunnel reset_fails ?t reason cause ?p1"
          have "acquire wall answers reset_fails ?p2 = (out, p')"
            using 1(4) by (simp add: acquire.simps [of _ _ _ p] pop None no_ctx Some r Let_def)
          with 1(1) [OF pop [symmetric] refl refl refl None no_ctx Some [unfolded r] refl]
          have "acquire_spec answers ?p2 out p'"
            using pool_inv_cleanup [OF pool_inv_forget [OF 1(3)]] by blast
          moreover have "rejected answers p i"
            using None no_ctx Some by (simp add: rejected_def acquire_reject_def)
          ultimately show ?thesis
            using head by (intro acquire_spec_skip [OF 1(3) Cons]) (auto simp: idle_tunnel_def)
        next
          case healthy: None
          with None no_ctx 1(4) have "out = Acquired ?t" "p' = mark_in_use ?t ?p1"
            by (simp_all add: acquire.simps [of _ _ _ p] pop Let_def)
          moreover have "\<not> rejected answers p i"
            using None no_ctx healthy by (simp add: rejected_def acquire_reject_def)
          ultimately show ?thesis
            using head no_ctx Cons by (simp add: acquire_spec_def mark_in_use_def)
        qed
      qed
    qed
  qed
qed

text \<open>
  \<open>Acquire\<close> always comes to an end and is fair to the queue: it closes the unhealthy
  tunnels at the head of the FIFO, each counted once, and hands out the first healthy one,
  moving it to the tunnels in use and leaving the tunnels behind it in their order; if the
  context ended during the probe it puts that tunnel back and fails; with no healthy tunnel
  it waits.
\<close>

theorem acquire_first_healthy:
  assumes "pool_inv p"
  shows "acquire_spec answers p (fst (acquire wall answers reset_fails p))
    (snd (acquire wall answers reset_fails p))"
  using acquire_meets_spec [OF assms prod.collapse [symmetric]] .

definition sample_tunnel :: "string \<Rightarrow> tunnel" where
  "sample_tunnel i = \<lparr>tunnel_object = 1, tunnel_id = i\<rparr>"

definition sample_pool :: tunnel_pool where
  "sample_pool =
     snd (put_idle TunnelStateIdle 6 (sample_tunnel ''b'')
       (snd (put_idle TunnelStateIdle 5 (sample_tunnel ''a'')
         (new_in_memory_tunnel_pool_with_config
            \<lparr>MinIdleTunnels = 0, MaxIdleTunnels = 2, IdleTunnelTTL = 10, AcquireTimeout = 0\<rparr>))))"

definition healthy_view :: tunnel_view where
  "healthy_view = \<lparr>view_state = TunnelStateIdle, view_done = False, view_err = None\<rparr>"

definition sample_answers :: "tunnel \<Rightarrow> acquire_answers" where
  "sample_answers t =
     \<lparr>ans_before = (if tunnel_id t = ''a'' then healthy_view\<lparr>view_state := TunnelStateBroken\<rparr>
                    else healthy_view),
      ans_probe = None, ans_after = healthy_view, ans_ctx = None, ans_last = healthy_view\<rparr>"

lemma trim_letters: "trim_space ''a'' = ''a''" "trim_space ''b'' = ''b''"
  by (rule trim_space_graphic; simp add: graphic_def)+

lemma sample_pool_eq:
  "sample_pool =
     \<lparr>idleTunnelsByID = [(''a'', sample_tunnel ''a''), (''b'', sample_tunnel ''b'')],
      inUseTunnelsByID = [], idleTunnelOrder = [''a'', ''b''],
      idleInsertedAt = [(''a'', 5), (''b'', 6)],
      pool_config = \<lparr>MinIdleTunnels = 0, MaxIdleTunnels = 2, IdleTunnelTTL = 10,
                     AcquireTimeout = 0\<rparr>,
      recycledCount = 0, closedCount = 0, notifications = 2, tunnel_effects = []\<rparr>"
  by (simp add: sample_pool_def put_idle_def put_idle_locked_def sample_tunnel_def trim_letters
      new_in_memory_tunnel_pool_with_config_def normalize_tunnel_pool_config_def notify_locked_def Let_def)

lemma sample_pool_inv: "pool_inv sample_pool"
  unfolding sample_pool_def by (intro pool_inv_put_idle pool_inv_new)

theorem acquire_first_healthy_witness:
  "fst (acquire 0 sample_answers (\<lambda>t. False) sample_pool) = Acquired (sample_tunnel ''b'')
   \<and> closedCount (snd (acquire 0 sample_answers (\<lambda>t. False) sample_pool)) = 1"
  using acquire_first_healthy [OF sample_pool_inv, of sample_answers 0 "\<lambda>t. False"]
  by (simp add: acquire_spec_def sample_pool_eq rejected_def idle_tunnel_def acquire_reject_def
      sample_answers_def sample_tunnel_def healthy_view_def classify_idle_tunnel_acquire_state_def
      classify_idle_tunnel_runtime_state_def probe_failure_def)


section \<open>Recycle\<close>

text \<open>
  A tunnel that is in use leaves that state by \<open>Recycle\<close> in exactly one of two ways. It
  is recycled if and only if the context is alive, the tunnel says it can be recycled and is
  flushed and idle, and the pool has room (or holds the identifier already); then it is idle
  in the pool and untouched. Otherwise it is closed: the idle tunnels stay as they were and
  the tunnel is reset, and closed when the reset fails.
\<close>

theorem recycle_outcome:
  assumes "trim_space (tunnel_id t) = i" and "i \<noteq> []" and "has_key (inUseTunnelsByID p) i"
    and "recycle wall a reset_fails t p = ((r, e), p')"
  shows "(r = RecycleResultRecycled \<longleftrightarrow>
       rec_ctx a = None \<and> rec_recyclable a \<and> rec_flush a = None \<and> rec_state a = TunnelStateIdle
       \<and> (has_key (idleTunnelsByID p) i \<or> int (idle_count p) < MaxIdleTunnels (pool_config p)))
    \<and> inUseTunnelsByID p' = map_del i (inUseTunnelsByID p)
    \<and> (r = RecycleResultRecycled \<longrightarrow> e = None \<and> map_of (idleTunnelsByID p') i = Some t
         \<and> inserted_at p' i = wall \<and> tunnel_effects p' = tunnel_effects p
         \<and> recycledCount p' = Suc (recycledCount p) \<and> closedCount p' = closedCount p)
    \<and> (r = RecycleResultClosed \<longrightarrow> idleTunnelsByID p' = idleTunnelsByID p
         \<and> recycledCount p' = recycledCount p \<and> closedCount p' = Suc (closedCount p)
         \<and> (\<exists>cause. tunnel_effects p' = tunnel_effects p
              @ ResetTunnel t cause # (if reset_fails t then [CloseTunnel t] else [])))"
proof -
  let ?p1 = "p\<lparr>inUseTunnelsByID := map_del i (inUseTunnelsByID p)\<rparr>"
  consider (ctx) c where "rec_ctx a = Some c" | (bad) "rec_ctx a = None" "\<not> rec_recyclable a"
    | (flush) c where "rec_ctx a = None" "rec_recyclable a" "rec_flush a = Some c"
    | (put) "rec_ctx a = None" "rec_recyclable a" "rec_flush a = None"
    by (cases "rec_ctx a"; cases "rec_flush a") auto
  then show ?thesis
  proof cases
    case put
    obtain er p2 where p2: "put_idle (rec_state a) wall t ?p1 = (er, p2)" by fastforce
    show ?thesis
    proof (cases er)
      case None
      with p2 put assms show ?thesis
        by (auto simp: recycle_def put_idle_def put_idle_locked_def notify_locked_def Let_def
            idle_count_def inserted_at_def split: if_splits)
    next
      case (Some c)
      with p2 put assms show ?thesis
        by (auto simp: recycle_def put_idle_def put_idle_locked_def cleanup_closed_tunnel_def Let_def
            idle_count_def split: if_splits)
    qed
  qed (use assms in \<open>auto simp: recycle_def cleanup_closed_tunnel_def Let_def\<close>)
qed

theorem recycle_outcome_witness:
  "let p = mark_in_use (sample_tunnel ''a'') sample_pool;
       q = p\<lparr>idleTunnelsByID := [], idleTunnelOrder := [], idleInsertedAt := []\<rparr>;
       a = \<lparr>rec_ctx = None, rec_recyclable = True, rec_flush = None, rec_state = TunnelStateIdle\<rparr>
   in fst (fst (recycle 9 a (\<lambda>t. False) (sample_tunnel ''a'') q)) = RecycleResultRecycled"
proof -
  let ?p = "mark_in_use (sample_tunnel ''a'') sample_pool"
  let ?q = "?p\<lparr>idleTunnelsByID := [], idleTunnelOrder := [], idleInsertedAt := []\<rparr>"
  let ?a = "\<lparr>rec_ctx = None, rec_recyclable = True, rec_flush = None, rec_state = TunnelStateIdle\<rparr>"
  obtain r e p' where res: "recycle 9 ?a (\<lambda>t. False) (sample_tunnel ''a'') ?q = ((r, e), p')"
    by (metis surj_pair)
  have id: "trim_space (tunnel_id (sample_tunnel ''a'')) = ''a''"
    by (simp add: sample_tunnel_def trim_letters)
  have key: "has_key (inUseTunnelsByID ?q) ''a''"
    by (simp add: mark_in_use_def sample_pool_eq sample_tunnel_def)
  from recycle_outcome [OF id _ key res] res show ?thesis
    by (simp add: idle_count_def mark_in_use_def sample_pool_eq)
qed

text \<open>
  \<open>Acquire\<close> files a tunnel in use under its raw identifier while every other operation
  looks it up under the trimmed one: a tunnel whose identifier has white space around it can
  be handed out but never recycled or removed again, and stays counted as in use.
\<close>

theorem untrimmed_tunnel_is_stuck:
  "let t = sample_tunnel '' a'';
       p = mark_in_use t (sample_pool\<lparr>idleTunnelsByID := [], idleTunnelOrder := [], idleInsertedAt := []\<rparr>)
   in in_use_count p = 1
      \<and> recycle 9 a rf t p = ((RecycleResultClosed, Some ErrTunnelNotFound), p)
      \<and> pool_remove (tunnel_id t) p = (Some ErrTunnelNotFound, p)"
  by (simp add: Let_def in_use_count_def recycle_def pool_remove_def mark_in_use_def sample_pool_eq
      sample_tunnel_def trim_letters)

text \<open>
  The bound on idle tunnels can be exceeded: \<open>PutIdle\<close> keeps it, but a tunnel that
  \<open>Acquire\<close> puts back after its context ended is not counted against it. Here the pool is
  full, one tunnel is popped for a probe, another takes its place, and the first returns.
\<close>

theorem idle_limit_exceeded:
  "let p1 = snd (pop_idle_locked sample_pool);
       p2 = snd (put_idle TunnelStateIdle 7 (sample_tunnel ''c'') p1);
       p3 = push_idle_locked 8 (sample_tunnel ''a'') 5 p2
   in int (idle_count sample_pool) = MaxIdleTunnels (pool_config sample_pool)
      \<and> fst (put_idle TunnelStateIdle 7 (sample_tunnel ''c'') p1) = None
      \<and> int (idle_count p3) > MaxIdleTunnels (pool_config p3)"
proof -
  have "trim_space ''c'' = ''c''" by (rule trim_space_graphic) (simp_all add: graphic_def)
  then show ?thesis
    by (simp add: Let_def pop_idle_locked_def sample_pool_eq forget_idle_def inserted_at_def
        put_idle_def put_idle_locked_def push_idle_locked_def notify_locked_def sample_tunnel_def
        trim_letters idle_count_def zero_time_def)
qed

lemma put_idle_keeps_limit:
  assumes "int (idle_count p) \<le> MaxIdleTunnels (pool_config p)"
  shows "int (idle_count (snd (put_idle state wall t p))) \<le> MaxIdleTunnels (pool_config p)"
  using assms
  by (auto simp: put_idle_def put_idle_locked_def notify_locked_def idle_count_def Let_def length_put)


section \<open>Eviction removes exactly the dead\<close>

definition without :: "string set \<Rightarrow> tunnel_pool \<Rightarrow> tunnel_pool" where
  "without S p =
     p\<lparr>idleTunnelsByID := filter (\<lambda>it. fst it \<notin> S) (idleTunnelsByID p),
       idleInsertedAt := filter (\<lambda>it. fst it \<notin> S) (idleInsertedAt p),
       idleTunnelOrder := filter (\<lambda>i. i \<notin> S) (idleTunnelOrder p)\<rparr>"

lemma forget_without:
  "distinct (idleTunnelOrder p) \<Longrightarrow> remove_idle_order_locked i (forget_idle i p) = without {i} p"
  by (simp add: remove_idle_order_locked_def forget_idle_def without_def filter_neq_remove1
      map_del_filter)

lemma without_without: "without S (without T p) = without (S \<union> T) p"
  by (simp add: without_def conj_commute)

lemma without_order [simp]: "idleTunnelOrder (without S p) = filter (\<lambda>i. i \<notin> S) (idleTunnelOrder p)"
  by (simp add: without_def)

lemma without_empty: "without {} p = p"
  by (simp add: without_def)

lemma map_of_filter_fst:
  "map_of (filter (\<lambda>it. fst it \<notin> S) m) i = (if i \<in> S then None else map_of m i)"
  by (induction m) auto

lemma inserted_at_without: "i \<notin> S \<Longrightarrow> inserted_at (without S p) i = inserted_at p i"
  by (simp add: inserted_at_def without_def map_of_filter_fst)

lemma expiry_reason_without:
  "i \<notin> S \<Longrightarrow> expiry_reason now (without S p) i = expiry_reason now p i"
  by (simp add: expiry_reason_def inserted_at_without) (simp add: without_def)

lemma collect_expired_eq:
  assumes "distinct (map fst its)" and "distinct (idleTunnelOrder p)"
  shows "collect_expired now its p =
    (map (\<lambda>(i, t). (i, t, the (expiry_reason now p i)))
       (filter (\<lambda>it. expiry_reason now p (fst it) \<noteq> None) its),
     without {i \<in> fst ` set its. expiry_reason now p i \<noteq> None} p)"
  using assms
proof (induction its arbitrary: p)
  case (Cons it its)
  obtain i t where it: "it = (i, t)" by fastforce
  show ?case
  proof (cases "expiry_reason now p i")
    case None
    then have "{j \<in> fst ` set (it # its). expiry_reason now p j \<noteq> None}
        = {j \<in> fst ` set its. expiry_reason now p j \<noteq> None}"
      by (auto simp: it)
    with Cons None show ?thesis by (simp add: it)
  next
    case (Some reason)
    let ?q = "without {i} p"
    have new: "i \<notin> fst ` set its" using Cons.prems(1) by (simp add: it)
    have same: "expiry_reason now ?q (fst jt) = expiry_reason now p (fst jt)" if "jt \<in> set its" for jt
      using that new by (intro expiry_reason_without) auto
    have IH: "collect_expired now its ?q =
      (map (\<lambda>(i, t). (i, t, the (expiry_reason now p i)))
         (filter (\<lambda>it. expiry_reason now p (fst it) \<noteq> None) its),
       without {j \<in> fst ` set its. expiry_reason now p j \<noteq> None} ?q)"
    proof -
      have "filter (\<lambda>it. expiry_reason now ?q (fst it) \<noteq> None) its
          = filter (\<lambda>it. expiry_reason now p (fst it) \<noteq> None) its"
        by (rule filter_cong) (simp_all add: same)
      moreover have "map (\<lambda>(i, t). (i, t, the (expiry_reason now ?q i)))
           (filter (\<lambda>it. expiry_reason now p (fst it) \<noteq> None) its)
         = map (\<lambda>(i, t). (i, t, the (expiry_reason now p i)))
           (filter (\<lambda>it. expiry_reason now p (fst it) \<noteq> None) its)"
        by (rule map_cong) (auto simp: same dest: same)
      moreover have "{j \<in> fst ` set its. expiry_reason now ?q j \<noteq> None}
          = {j \<in> fst ` set its. expiry_reason now p j \<noteq> None}"
        using same by force
      ultimately show ?thesis using Cons.IH [of ?q] Cons.prems by (simp add: it)
    qed
    have set: "{j \<in> fst ` set its. expiry_reason now p j \<noteq> None} \<union> {i}
        = {j \<in> fst ` set (it # its). expiry_reason now p j \<noteq> None}"
      using Some by (auto simp: it)
    show ?thesis
      using Some Cons.prems(2) set
      by (simp add: it forget_without IH without_without Let_def)
  qed
qed (simp add: without_empty)

lemma fold_close:
  "\<forall>(i, t, r) \<in> set evicted. r = TTLExpired \<or> r = MissingInsertedAt \<Longrightarrow>
   fold (\<lambda>(i, t, r) p. cleanup_evicted_idle_tunnel rf t r None p) evicted p
     = p\<lparr>tunnel_effects := tunnel_effects p @ map (\<lambda>(i, t, r). CloseTunnel t) evicted,
         closedCount := closedCount p + length evicted\<rparr>"
  by (induction evicted arbitrary: p) (auto simp: cleanup_evicted_idle_tunnel_def)

definition expired :: "gotime \<Rightarrow> tunnel_pool \<Rightarrow> string \<Rightarrow> bool" where
  "expired now p i \<longleftrightarrow> is_zero (inserted_at p i)
     \<or> IdleTunnelTTL (pool_config p) \<le> time_sub now (inserted_at p i)"

text \<open>
  \<open>EvictExpiredIdle\<close> removes exactly the idle tunnels whose time is up (or unknown),
  whatever the iteration order of the map: it names and closes each of them once, keeps every
  other tunnel in the pool in the order of the queue, and does not touch the tunnels in use.
\<close>

theorem evict_expired_exact:
  assumes "pool_inv p" and "0 < IdleTunnelTTL (pool_config p)"
    and "evict_expired_idle reset_fails now p = (ids, p')"
  shows "ids = map fst (filter (\<lambda>it. expired now p (fst it)) (idleTunnelsByID p))
    \<and> idleTunnelsByID p' = filter (\<lambda>it. \<not> expired now p (fst it)) (idleTunnelsByID p)
    \<and> idleTunnelOrder p' = filter (\<lambda>i. \<not> expired now p i) (idleTunnelOrder p)
    \<and> inUseTunnelsByID p' = inUseTunnelsByID p
    \<and> tunnel_effects p' = tunnel_effects p
        @ map (\<lambda>it. CloseTunnel (snd it)) (filter (\<lambda>it. expired now p (fst it)) (idleTunnelsByID p))
    \<and> closedCount p' = closedCount p + length ids"
proof -
  let ?idle = "idleTunnelsByID p"
  let ?out = "map (\<lambda>(i, t). (i, t, the (expiry_reason now p i)))
    (filter (\<lambda>it. expiry_reason now p (fst it) \<noteq> None) ?idle)"
  let ?S = "{i \<in> fst ` set ?idle. expiry_reason now p i \<noteq> None}"
  have ex: "expiry_reason now p i \<noteq> None \<longleftrightarrow> expired now p i" for i
    by (auto simp: expiry_reason_def expired_def)
  then have ex_Some: "(\<exists>r. expiry_reason now p i = Some r) \<longleftrightarrow> expired now p i" for i
    by simp
  have d: "distinct (map fst ?idle)" "distinct (idleTunnelOrder p)"
    and order: "set (idleTunnelOrder p) = fst ` set ?idle"
    using assms(1) by (simp_all add: pool_inv_def)
  have col: "collect_expired now ?idle p = (?out, without ?S p)"
    by (rule collect_expired_eq [OF d])
  have reasons: "\<forall>(i, t, r) \<in> set ?out. r = TTLExpired \<or> r = MissingInsertedAt"
    by (auto simp: expiry_reason_def split: if_splits)
  have p': "p' = (without ?S p)\<lparr>tunnel_effects := tunnel_effects (without ?S p)
        @ map (\<lambda>(i, t, r). CloseTunnel t) ?out,
      closedCount := closedCount (without ?S p) + length ?out\<rparr>"
    and ids: "ids = map fst ?out"
    using assms(2,3) fold_close [OF reasons] col by (simp_all add: evict_expired_idle_def)
  have "filter (\<lambda>it. fst it \<notin> ?S) ?idle = filter (\<lambda>it. \<not> expired now p (fst it)) ?idle"
    by (rule filter_cong) (auto simp: ex [symmetric])
  moreover have "filter (\<lambda>i. i \<notin> ?S) (idleTunnelOrder p)
      = filter (\<lambda>i. \<not> expired now p i) (idleTunnelOrder p)"
    by (rule filter_cong) (auto simp: ex [symmetric] order)
  ultimately show ?thesis
    unfolding p' ids by (simp add: without_def ex_Some comp_def case_prod_beta)
qed

theorem evict_expired_exact_witness:
  "fst (evict_expired_idle (\<lambda>t. False) 15 sample_pool) = [''a'']
   \<and> idleTunnelOrder (snd (evict_expired_idle (\<lambda>t. False) 15 sample_pool)) = [''b'']"
proof -
  have ttl: "0 < IdleTunnelTTL (pool_config sample_pool)" by (simp add: sample_pool_eq)
  show ?thesis
    using evict_expired_exact [OF sample_pool_inv ttl prod.collapse [symmetric], of "\<lambda>t. False" 15]
    by (simp add: sample_pool_eq expired_def inserted_at_def zero_time_def time_sub_def
        min_int64_def max_int64_def)
qed

end
