(* ===== verification/Refill.thy ===== *)
theory Refill
  imports Tunnel_Pool
begin

text \<open>
  Refilling the tunnel pool: the reports and requests of the control channel and the request
  deduplicator (\<open>ltfp/transport/pool_events.go\<close>), and the refill controller
  (\<open>ltfp/transport/refill_controller.go\<close>). What the controller relies on of a pool is the
  locale \<open>idle_pool\<close>, interpreted on the tunnel pool.
\<close>

section \<open>Reports and requests\<close>

record tunnel_pool_report =
  report_session_id :: string
  report_session_epoch :: "64 word"
  report_idle :: int
  report_in_use :: int
  report_target :: int

definition validate_tunnel_pool_report :: "tunnel_pool_report \<Rightarrow> goerr option" where
  "validate_tunnel_pool_report report =
     (if trim_space (report_session_id report) = [] then Some ErrInvalidArgument
      else if report_session_epoch report = 0 then Some ErrInvalidArgument
      else if report_idle report < 0 \<or> report_in_use report < 0 \<or> report_target report < 0
      then Some ErrInvalidArgument
      else None)"

record tunnel_refill_request =
  req_session_id :: string
  req_session_epoch :: "64 word"
  req_id :: string
  req_idle_delta :: int
  req_reason :: string
  req_timestamp :: gotime

definition refill_reasons :: "string list" where
  "refill_reasons = [''low_watermark'', ''acquire_timeout'', ''startup'', ''manual'']"

definition normalize_refill_request :: "gotime \<Rightarrow> tunnel_refill_request \<Rightarrow> tunnel_refill_request" where
  "normalize_refill_request wall request =
     request\<lparr>req_session_id := trim_space (req_session_id request),
             req_id := trim_space (req_id request),
             req_reason := trim_space (req_reason request),
             req_timestamp := now_or wall (req_timestamp request)\<rparr>"

definition validate_refill_request :: "gotime \<Rightarrow> tunnel_refill_request \<Rightarrow> goerr option" where
  "validate_refill_request wall request =
     (let r = normalize_refill_request wall request
      in if req_session_id r = [] then Some ErrInvalidArgument
         else if req_session_epoch r = 0 then Some ErrInvalidArgument
         else if req_id r = [] then Some ErrInvalidArgument
         else if req_idle_delta r \<le> 0 then Some ErrInvalidArgument
         else if req_reason r = [] \<or> req_reason r \<in> set refill_reasons then None
         else Some ErrInvalidArgument)"


section \<open>The deduplicator\<close>

record refill_deduplicator =
  requestSeenAt :: "(string, gotime) gomap"
  ttl :: duration

definition new_refill_deduplicator :: "duration \<Rightarrow> refill_deduplicator" where
  "new_refill_deduplicator t =
     \<lparr>requestSeenAt = [], ttl = (if t \<le> 0 then 10 * minute else t)\<rparr>"

definition cleanup_seen :: "gotime \<Rightarrow> refill_deduplicator \<Rightarrow> refill_deduplicator" where
  "cleanup_seen now d =
     (let expired_before = now - ttl d
      in d\<lparr>requestSeenAt := filter (\<lambda>(i, seen_at). \<not> seen_at < expired_before) (requestSeenAt d)\<rparr>)"

definition mark_seen ::
    "gotime \<Rightarrow> string \<Rightarrow> gotime \<Rightarrow> refill_deduplicator \<Rightarrow> bool \<times> refill_deduplicator" where
  "mark_seen wall request_id now0 d =
     (let i = trim_space request_id
      in if i = [] then (True, d)
         else
           let now = now_or wall now0; d1 = cleanup_seen now d
           in if has_key (requestSeenAt d1) i then (False, d1)
              else (True, d1\<lparr>requestSeenAt := map_put i now (requestSeenAt d1)\<rparr>))"


section \<open>The controller\<close>

text \<open>
  \<open>TunnelOpenRateLimit\<close> is a float whose sign alone matters here. The rate limiter
  (\<open>golang.org/x/time/rate\<close>) is part of the environment: whether its \<open>Wait\<close> fails is an
  outcome of a job.
\<close>

record refill_config =
  rc_MinIdleTunnels :: int
  rc_MaxIdleTunnels :: int
  rc_MaxInFlightTunnelOpens :: int
  rc_TunnelOpenRateLimit :: int
  rc_TunnelOpenBurst :: int
  rc_RequestDeduplicateTTL :: duration

definition normalize_refill_config :: "refill_config \<Rightarrow> goerr + refill_config" where
  "normalize_refill_config config =
     (let c1 = (if rc_MinIdleTunnels config < 0 then config\<lparr>rc_MinIdleTunnels := 0\<rparr> else config);
          c2 = (if rc_MaxIdleTunnels c1 \<le> 0 then c1\<lparr>rc_MaxIdleTunnels := 1024\<rparr> else c1)
      in if rc_MinIdleTunnels c2 > rc_MaxIdleTunnels c2 then Inl ErrInvalidArgument
         else
           let c3 = (if rc_MaxInFlightTunnelOpens c2 \<le> 0
                     then c2\<lparr>rc_MaxInFlightTunnelOpens := 4\<rparr> else c2)
           in if rc_TunnelOpenRateLimit c3 \<le> 0 then Inl ErrInvalidArgument
              else if rc_TunnelOpenBurst c3 \<le> 0 then Inl ErrInvalidArgument
              else if rc_RequestDeduplicateTTL c3 \<le> 0
              then Inr (c3\<lparr>rc_RequestDeduplicateTTL := 10 * minute\<rparr>)
              else Inr c3)"

definition default_refill_config :: refill_config where
  "default_refill_config =
     \<lparr>rc_MinIdleTunnels = 0, rc_MaxIdleTunnels = 1024, rc_MaxInFlightTunnelOpens = 4,
      rc_TunnelOpenRateLimit = 20, rc_TunnelOpenBurst = 10,
      rc_RequestDeduplicateTTL = 10 * minute\<rparr>"

definition refill_config_ok :: "refill_config \<Rightarrow> bool" where
  "refill_config_ok c \<longleftrightarrow> 0 \<le> rc_MinIdleTunnels c \<and> rc_MinIdleTunnels c \<le> rc_MaxIdleTunnels c
     \<and> 0 < rc_MaxIdleTunnels c \<and> 0 < rc_MaxInFlightTunnelOpens c"

lemma normalize_refill_config_ok: "normalize_refill_config c = Inr c' \<Longrightarrow> refill_config_ok c'"
  by (auto simp: normalize_refill_config_def refill_config_ok_def Let_def split: if_splits)

definition clamp_target_idle :: "refill_config \<Rightarrow> int \<Rightarrow> int" where
  "clamp_target_idle c target =
     (if target < rc_MinIdleTunnels c then rc_MinIdleTunnels c
      else if target > rc_MaxIdleTunnels c then rc_MaxIdleTunnels c
      else target)"

record refill_result =
  res_request_id :: string
  Deduplicated :: bool
  BeforeIdleCount :: int
  RequestedTargetIdle :: int
  EffectiveTargetIdle :: int
  OpenedCount :: nat
  FailedCount :: nat
  AfterIdleCount :: int
  FirstFailure :: "goerr option"

text \<open>
  The outcome of one job of the channel: the limiter fails (the worker stops), the producer
  fails, or a tunnel was opened and is offered to the pool (\<open>close_err\<close>: what its \<open>Close\<close>
  returns when the pool refuses it). The jobs of all workers are listed in the order in which
  their effects happen.
\<close>

datatype 'j refill_job =
    LimiterFails goerr
  | OpenFails goerr
  | Opened 'j "goerr option"

definition record_failure :: "goerr \<Rightarrow> refill_result \<Rightarrow> refill_result" where
  "record_failure e r =
     r\<lparr>FailedCount := Suc (FailedCount r),
       FirstFailure := (case FirstFailure r of None \<Rightarrow> Some e | Some e0 \<Rightarrow> Some e0)\<rparr>"

text \<open>\<open>jobs\<close> and \<open>workers\<close> count what is left; the loop ends when either is used up.\<close>

fun run_jobs ::
    "('j \<Rightarrow> 'p \<Rightarrow> goerr option \<times> 'p) \<Rightarrow> nat \<Rightarrow> nat \<Rightarrow> 'j refill_job list \<Rightarrow> refill_result \<Rightarrow> 'p
       \<Rightarrow> refill_result \<times> 'p" where
  "run_jobs put jobs workers [] r p = (r, p)"
| "run_jobs put jobs workers (out # outs) r p =
     (if jobs = 0 \<or> workers = 0 then (r, p)
      else case out of
             LimiterFails e \<Rightarrow> run_jobs put (jobs - 1) (workers - 1) outs (record_failure e r) p
           | OpenFails e \<Rightarrow> run_jobs put (jobs - 1) workers outs (record_failure e r) p
           | Opened t close_err \<Rightarrow>
               (case put t p of
                  (Some e, p') \<Rightarrow> run_jobs put (jobs - 1) workers outs (record_failure e r) p'
                | (None, p') \<Rightarrow>
                    run_jobs put (jobs - 1) workers outs (r\<lparr>OpenedCount := Suc (OpenedCount r)\<rparr>) p'))"

definition refill_to_target ::
    "('j \<Rightarrow> 'p \<Rightarrow> goerr option \<times> 'p) \<Rightarrow> ('p \<Rightarrow> nat) \<Rightarrow> refill_config \<Rightarrow> int
       \<Rightarrow> 'j refill_job list \<Rightarrow> 'p \<Rightarrow> (refill_result \<times> goerr option) \<times> 'p" where
  "refill_to_target put count c target outs p =
     (let before_count = int (count p);
          effective = clamp_target_idle c target;
          r0 = \<lparr>res_request_id = [], Deduplicated = False, BeforeIdleCount = before_count,
                RequestedTargetIdle = target, EffectiveTargetIdle = effective, OpenedCount = 0,
                FailedCount = 0, AfterIdleCount = 0, FirstFailure = None\<rparr>
      in if before_count \<ge> effective then ((r0\<lparr>AfterIdleCount := before_count\<rparr>, None), p)
         else
           let to_open = effective - before_count;
               workers = (if to_open > rc_MaxInFlightTunnelOpens c
                          then rc_MaxInFlightTunnelOpens c else to_open);
               (r, p') = run_jobs put (nat to_open) (nat workers) outs r0 p;
               r' = r\<lparr>AfterIdleCount := int (count p')\<rparr>
           in ((r', FirstFailure r'), p'))"

definition empty_refill_result :: refill_result where
  "empty_refill_result =
     \<lparr>res_request_id = [], Deduplicated = False, BeforeIdleCount = 0, RequestedTargetIdle = 0,
      EffectiveTargetIdle = 0, OpenedCount = 0, FailedCount = 0, AfterIdleCount = 0,
      FirstFailure = None\<rparr>"

text \<open>\<open>wall\<close> is the clock of the handler.\<close>

definition handle_refill_request ::
    "('j \<Rightarrow> 'p \<Rightarrow> goerr option \<times> 'p) \<Rightarrow> ('p \<Rightarrow> nat) \<Rightarrow> refill_config \<Rightarrow> gotime
       \<Rightarrow> tunnel_refill_request \<Rightarrow> 'j refill_job list \<Rightarrow> refill_deduplicator \<Rightarrow> 'p
       \<Rightarrow> (refill_result \<times> goerr option) \<times> refill_deduplicator \<times> 'p" where
  "handle_refill_request put count c wall request outs d p =
     (let r = normalize_refill_request wall request
      in case validate_refill_request wall r of
           Some e \<Rightarrow> ((empty_refill_result, Some e), d, p)
         | None \<Rightarrow>
             let i = trim_space (req_id r);
                 (first, d') = mark_seen wall (req_id r) wall d
             in if \<not> first
                then
                  let idle = int (count p); wanted = idle + req_idle_delta r
                  in ((empty_refill_result\<lparr>res_request_id := i, Deduplicated := True,
                        BeforeIdleCount := idle, AfterIdleCount := idle,
                        RequestedTargetIdle := wanted,
                        EffectiveTargetIdle := clamp_target_idle c wanted\<rparr>, None), d', p)
                else
                  let ((res, e), p') =
                        refill_to_target put count c (int (count p) + req_idle_delta r) outs p
                  in ((res\<lparr>res_request_id := i\<rparr>, e), d', p'))"


section \<open>What a refill does to the pool\<close>

text \<open>
  The contract of the pool: a refused tunnel leaves the number of idle tunnels alone, an
  accepted one raises it by at most one (it may replace the tunnel of the same id).
\<close>

locale idle_pool =
  fixes put :: "'j \<Rightarrow> 'p \<Rightarrow> goerr option \<times> 'p"
    and count :: "'p \<Rightarrow> nat"
  assumes refused: "put t p = (Some e, p') \<Longrightarrow> count p' = count p"
    and accepted: "put t p = (None, p') \<Longrightarrow> count p \<le> count p' \<and> count p' \<le> Suc (count p)"
begin

lemma run_jobs_account:
  "run_jobs put jobs workers outs r p = (r', p') \<Longrightarrow>
     OpenedCount r \<le> OpenedCount r'
     \<and> OpenedCount r' + FailedCount r' \<le> OpenedCount r + FailedCount r + jobs
     \<and> count p \<le> count p'
     \<and> count p' + OpenedCount r \<le> count p + OpenedCount r'"
proof (induction outs arbitrary: jobs workers r p)
  case (Cons out outs)
  show ?case
  proof (cases "jobs = 0 \<or> workers = 0")
    case False
    then obtain j where jobs: "jobs = Suc j" by (cases jobs) auto
    show ?thesis
    proof (cases out)
      case (Opened t close_err)
      then show ?thesis
        using Cons.prems Cons.IH False
        by (cases "put t p"; cases "fst (put t p)")
          (fastforce simp: jobs record_failure_def dest: refused accepted)+
    qed (use Cons.prems Cons.IH False in \<open>fastforce simp: jobs record_failure_def\<close>)+
  qed (use Cons.prems in auto)
qed simp

lemma run_jobs_failure_kept:
  "FirstFailure r \<noteq> None \<Longrightarrow> FirstFailure (fst (run_jobs put jobs workers outs r p)) \<noteq> None"
  by (induction outs arbitrary: jobs workers r p)
    (auto simp: record_failure_def split: refill_job.splits prod.splits option.splits)

lemma run_jobs_no_failure:
  "run_jobs put jobs workers outs r p = (r', p') \<Longrightarrow> FirstFailure r' = None \<Longrightarrow> 0 < workers
    \<Longrightarrow> jobs \<le> length outs \<Longrightarrow>
     FirstFailure r = None \<and> FailedCount r' = FailedCount r
     \<and> OpenedCount r' = OpenedCount r + jobs"
proof (induction outs arbitrary: jobs workers r p)
  case (Cons out outs)
  have kept: "FirstFailure (fst (run_jobs put j w os (record_failure e s) q)) \<noteq> None" for j w os e s q
    by (rule run_jobs_failure_kept) (simp add: record_failure_def split: option.splits)
  show ?case
  proof (cases "jobs = 0")
    case False
    then obtain j where jobs: "jobs = Suc j" by (cases jobs) auto
    show ?thesis
    proof (cases out)
      case (Opened t close_err)
      show ?thesis
      proof (cases "fst (put t p)")
        case None
        then have "run_jobs put j workers outs (r\<lparr>OpenedCount := Suc (OpenedCount r)\<rparr>) (snd (put t p)) = (r', p')"
          using Cons.prems by (cases "put t p") (simp add: jobs Opened)
        then show ?thesis using Cons.IH Cons.prems by (fastforce simp: jobs)
      next
        case (Some e)
        then have "run_jobs put j workers outs (record_failure e r) (snd (put t p)) = (r', p')"
          using Cons.prems by (cases "put t p") (simp add: jobs Opened)
        then show ?thesis using kept [of j workers outs e r "snd (put t p)"] Cons.prems by simp
      qed
    next
      case (LimiterFails e)
      then show ?thesis
        using kept [of j "workers - 1" outs e r p] Cons.prems by (simp add: jobs)
    next
      case (OpenFails e)
      then show ?thesis
        using kept [of j workers outs e r p] Cons.prems by (simp add: jobs)
    qed
  qed (use Cons.prems in auto)
qed simp

theorem refill_account:
  assumes run: "refill_to_target put count c target outs p = ((res, e), p')"
  shows "count p \<le> count p'"
    and "int (count p') \<le> max (int (count p)) (clamp_target_idle c target)"
    and "count p' \<le> count p + OpenedCount res"
    and "AfterIdleCount res = int (count p')"
    and "int (OpenedCount res + FailedCount res)
           \<le> max 0 (clamp_target_idle c target - int (count p))"
proof -
  let ?need = "clamp_target_idle c target - int (count p)"
  let ?r0 = "\<lparr>res_request_id = [], Deduplicated = False, BeforeIdleCount = int (count p),
                RequestedTargetIdle = target, EffectiveTargetIdle = clamp_target_idle c target,
                OpenedCount = 0, FailedCount = 0, AfterIdleCount = 0, FirstFailure = None\<rparr>"
  have "count p \<le> count p' \<and> int (count p') \<le> max (int (count p)) (clamp_target_idle c target)
      \<and> count p' \<le> count p + OpenedCount res \<and> AfterIdleCount res = int (count p')
      \<and> int (OpenedCount res + FailedCount res) \<le> max 0 ?need"
  proof (cases "int (count p) \<ge> clamp_target_idle c target")
    case True
    then show ?thesis using run by (auto simp: refill_to_target_def Let_def)
  next
    case False
    obtain r q where jobs: "run_jobs put (nat ?need)
        (nat (if ?need > rc_MaxInFlightTunnelOpens c then rc_MaxInFlightTunnelOpens c else ?need))
        outs ?r0 p = (r, q)"
      by fastforce
    then have res: "res = r\<lparr>AfterIdleCount := int (count q)\<rparr>" "p' = q"
      using run False by (auto simp: refill_to_target_def Let_def)
    show ?thesis using run_jobs_account [OF jobs] False by (auto simp: res)
  qed
  then show "count p \<le> count p'"
    and "int (count p') \<le> max (int (count p)) (clamp_target_idle c target)"
    and "count p' \<le> count p + OpenedCount res"
    and "AfterIdleCount res = int (count p')"
    and "int (OpenedCount res + FailedCount res) \<le> max 0 ?need"
    by blast+
qed

theorem refill_complete:
  assumes run: "refill_to_target put count c target outs p = ((res, None), p')"
    and short: "int (count p) < clamp_target_idle c target"
    and config: "refill_config_ok c"
    and outcomes: "clamp_target_idle c target - int (count p) \<le> int (length outs)"
  shows "int (OpenedCount res) = clamp_target_idle c target - int (count p)"
    and "FailedCount res = 0"
proof -
  let ?need = "clamp_target_idle c target - int (count p)"
  let ?workers = "nat (if ?need > rc_MaxInFlightTunnelOpens c then rc_MaxInFlightTunnelOpens c else ?need)"
  let ?r0 = "\<lparr>res_request_id = [], Deduplicated = False, BeforeIdleCount = int (count p),
                RequestedTargetIdle = target, EffectiveTargetIdle = clamp_target_idle c target,
                OpenedCount = 0, FailedCount = 0, AfterIdleCount = 0, FirstFailure = None\<rparr>"
  obtain r q where jobs: "run_jobs put (nat ?need) ?workers outs ?r0 p = (r, q)"
    by fastforce
  then have res: "res = r\<lparr>AfterIdleCount := int (count q)\<rparr>" "FirstFailure r = None"
    using run short by (auto simp: refill_to_target_def Let_def)
  have "0 < ?workers" using config short by (auto simp: refill_config_ok_def)
  then have "OpenedCount r = nat ?need \<and> FailedCount r = 0"
    using run_jobs_no_failure [OF jobs res(2)] outcomes by simp
  then show "int (OpenedCount res) = ?need" "FailedCount res = 0" using short by (simp_all add: res)
qed

end


lemma validate_normalized [simp]:
  "validate_refill_request wall (normalize_refill_request wall q) = validate_refill_request wall q"
  by (simp add: validate_refill_request_def normalize_refill_request_def Let_def now_or_def)

lemma refill_to_target_not_duplicate:
  "\<not> Deduplicated (fst (fst (refill_to_target put count c target outs p)))"
proof -
  have kept: "Deduplicated r' = Deduplicated r"
    if "run_jobs put jobs workers outs r p = (r', p')" for jobs workers r r' p'
    using that
    by (induction outs arbitrary: jobs workers r p)
      (auto simp: record_failure_def split: if_splits refill_job.splits prod.splits option.splits)
  show ?thesis
    by (auto simp: refill_to_target_def Let_def dest: kept split: prod.split)
qed

lemma handle_refill_request_valid:
  "validate_refill_request wall q = None \<Longrightarrow>
     handle_refill_request put count c wall q outs d p =
       (let i = trim_space (req_id q); (first, d') = mark_seen wall i wall d;
            idle = int (count p); wanted = idle + req_idle_delta q;
            ((res, e), p') = refill_to_target put count c wanted outs p
        in if first then ((res\<lparr>res_request_id := i\<rparr>, e), d', p')
           else ((empty_refill_result\<lparr>res_request_id := i, Deduplicated := True,
                   BeforeIdleCount := idle, AfterIdleCount := idle,
                   RequestedTargetIdle := wanted,
                   EffectiveTargetIdle := clamp_target_idle c wanted\<rparr>, None), d', p))"
proof -
  assume "validate_refill_request wall q = None"
  then have "validate_refill_request wall (normalize_refill_request wall q) = None" by simp
  moreover have "req_id (normalize_refill_request wall q) = trim_space (req_id q)"
    and "req_idle_delta (normalize_refill_request wall q) = req_idle_delta q"
    by (simp_all add: normalize_refill_request_def)
  ultimately show ?thesis
    by (simp add: handle_refill_request_def Let_def split: prod.split)
qed


section \<open>Refilling the tunnel pool\<close>

text \<open>A job's tunnel: its state when it is offered, the clock of \<open>PutIdle\<close> and the tunnel.\<close>

definition put_opened ::
    "tunnel_state \<times> gotime \<times> tunnel \<Rightarrow> tunnel_pool \<Rightarrow> goerr option \<times> tunnel_pool" where
  "put_opened job pool = put_idle (fst job) (fst (snd job)) (snd (snd job)) pool"

interpretation refilled: idle_pool put_opened idle_count
proof unfold_locales
  fix t p e p'
  assume "put_opened t p = (Some e, p')"
  then show "idle_count p' = idle_count p"
    by (auto simp: put_opened_def put_idle_def put_idle_locked_def Let_def split: if_splits)
next
  fix t p p'
  assume "put_opened t p = (None, p')"
  then show "idle_count p \<le> idle_count p' \<and> idle_count p' \<le> Suc (idle_count p)"
    by (auto simp: put_opened_def put_idle_def put_idle_locked_def notify_locked_def Let_def
        idle_count_def length_put split: if_splits)
qed

text \<open>
  A refill under a normalised configuration never shrinks the pool, never fills it beyond
  the larger of what it held and the clamped target (hence never beyond the configured
  maximum unless it was there already), makes at most as many attempts as tunnels were
  missing, and when it reports no error every missing tunnel was opened and accepted.
\<close>

theorem refill_bounded_and_complete:
  assumes config: "normalize_refill_config c0 = Inr c"
    and run: "refill_to_target put_opened idle_count c target outs p = ((res, e), p')"
    and outcomes: "clamp_target_idle c target - int (idle_count p) \<le> int (length outs)"
  shows "idle_count p \<le> idle_count p'
    \<and> int (idle_count p') \<le> max (int (idle_count p)) (clamp_target_idle c target)
    \<and> clamp_target_idle c target \<le> rc_MaxIdleTunnels c
    \<and> AfterIdleCount res = int (idle_count p')
    \<and> int (OpenedCount res + FailedCount res)
        \<le> max 0 (clamp_target_idle c target - int (idle_count p))
    \<and> (e = None \<longrightarrow> int (idle_count p) < clamp_target_idle c target \<longrightarrow>
         int (OpenedCount res) = clamp_target_idle c target - int (idle_count p)
         \<and> FailedCount res = 0)"
proof -
  have ok: "refill_config_ok c" by (rule normalize_refill_config_ok [OF config])
  then have "clamp_target_idle c target \<le> rc_MaxIdleTunnels c"
    by (auto simp: clamp_target_idle_def refill_config_ok_def)
  then show ?thesis
    using refilled.refill_account [OF run] refilled.refill_complete [OF _ _ ok outcomes] run by blast
qed

definition two_jobs :: "(tunnel_state \<times> gotime \<times> tunnel) refill_job list" where
  "two_jobs = [Opened (TunnelStateIdle, 5, sample_tunnel ''a'') None, OpenFails ErrClosed]"

theorem refill_bounded_and_complete_witness:
  "let p = snd (pop_idle_locked sample_pool);
       ((res, e), p') = refill_to_target put_opened idle_count default_refill_config 3 two_jobs p
   in idle_count p = 1 \<and> idle_count p' = 2 \<and> e = Some ErrClosed
      \<and> OpenedCount res + FailedCount res \<le> 2"
proof -
  let ?p = "snd (pop_idle_locked sample_pool)"
  have config: "normalize_refill_config default_refill_config = Inr default_refill_config"
    by (simp add: normalize_refill_config_def default_refill_config_def Let_def)
  obtain res e p' where run:
    "refill_to_target put_opened idle_count default_refill_config 3 two_jobs ?p = ((res, e), p')"
    by (metis prod.collapse)
  have one: "idle_count ?p = 1"
    by (simp add: pop_idle_locked_def sample_pool_eq forget_idle_def idle_count_def)
  have target: "clamp_target_idle default_refill_config 3 = 3"
    by (simp add: clamp_target_idle_def default_refill_config_def)
  have "idle_count p' = 2 \<and> e = Some ErrClosed"
    using run
    by (auto simp: refill_to_target_def clamp_target_idle_def Let_def default_refill_config_def
        two_jobs_def record_failure_def put_opened_def put_idle_def put_idle_locked_def
        notify_locked_def pop_idle_locked_def sample_pool_eq forget_idle_def idle_count_def
        sample_tunnel_def trim_letters)
  then show ?thesis
    using refill_bounded_and_complete [OF config run] run one target
    by (simp add: two_jobs_def)
qed

text \<open>
  A refill request is carried out at most once within the deduplication period: after an
  attempt that was not itself a duplicate, whatever became of it, a valid request with the
  same identifier is answered as a duplicate without an error and without touching the pool.
\<close>

theorem refill_request_once:
  assumes first: "handle_refill_request put_opened idle_count c wall1 q1 outs1 d p = ((res1, e1), d1, p1)"
    and valid1: "validate_refill_request wall1 q1 = None"
    and fresh: "\<not> Deduplicated res1"
    and valid2: "validate_refill_request wall2 q2 = None"
    and same: "trim_space (req_id q2) = trim_space (req_id q1)"
    and clock: "wall2 - ttl d \<le> wall1" "\<not> is_zero wall1" "\<not> is_zero wall2"
  shows "let ((res2, e2), d2, p2) = handle_refill_request put_opened idle_count c wall2 q2 outs2 d1 p'
    in Deduplicated res2 \<and> e2 = None \<and> p2 = p' \<and> OpenedCount res2 = 0
       \<and> res_request_id res2 = trim_space (req_id q1)"
proof -
  have key: "trim_space (req_id q1) \<noteq> []"
    using valid1 by (auto simp: validate_refill_request_def normalize_refill_request_def Let_def
        split: if_splits)
  have "map_of (requestSeenAt d1) (trim_space (req_id q1)) = Some wall1 \<and> ttl d1 = ttl d"
    using first valid1 fresh key clock
    by (auto simp: handle_refill_request_valid mark_seen_def Let_def cleanup_seen_def
        split: if_splits prod.splits)
  then have "has_key (requestSeenAt (cleanup_seen wall2 d1)) (trim_space (req_id q1))"
    using clock map_of_SomeD [of "requestSeenAt d1" _ wall1]
    by (simp only: has_key_iff) (force simp: cleanup_seen_def Let_def image_iff)
  then have "mark_seen wall2 (trim_space (req_id q2)) wall2 d1 = (False, cleanup_seen wall2 d1)"
    using same key clock by (simp add: mark_seen_def Let_def)
  then show ?thesis
    using same by (simp add: handle_refill_request_valid [OF valid2] Let_def empty_refill_result_def
        split: prod.split)
qed

theorem refill_request_once_witness:
  "let q = \<lparr>req_session_id = ''s'', req_session_epoch = 1, req_id = ''r'', req_idle_delta = 1,
            req_reason = [], req_timestamp = 0\<rparr>;
       ((res1, e1), d1, p1) = handle_refill_request put_opened idle_count default_refill_config 5 q
          [OpenFails ErrClosed] (new_refill_deduplicator 10) sample_pool;
       ((res2, e2), d2, p2) = handle_refill_request put_opened idle_count default_refill_config 6 q
          [OpenFails ErrClosed] d1 p1
   in e1 = Some ErrClosed \<and> Deduplicated res2 \<and> e2 = None \<and> p2 = p1"
proof -
  let ?q = "\<lparr>req_session_id = ''s'', req_session_epoch = 1, req_id = ''r'', req_idle_delta = 1,
            req_reason = [], req_timestamp = 0\<rparr>"
  let ?h = "\<lambda>wall d p. handle_refill_request put_opened idle_count default_refill_config wall ?q
      [OpenFails ErrClosed] d p"
  have letters: "trim_space ''r'' = ''r''" "trim_space ''s'' = ''s''"
    by (rule trim_space_graphic; simp add: graphic_def)+
  have valid: "validate_refill_request w ?q = None" for w
    by (simp add: validate_refill_request_def normalize_refill_request_def letters)
  obtain res1 e1 d1 p1 where one: "?h 5 (new_refill_deduplicator 10) sample_pool = ((res1, e1), d1, p1)"
    by (metis prod.collapse)
  then have "e1 = Some ErrClosed \<and> \<not> Deduplicated res1"
    by (auto simp: handle_refill_request_valid valid letters mark_seen_def new_refill_deduplicator_def
        cleanup_seen_def refill_to_target_def clamp_target_idle_def default_refill_config_def
        idle_count_def sample_pool_eq Let_def record_failure_def zero_time_def)
  then show ?thesis
    using refill_request_once [OF one valid _ valid, where ?wall2.0 = 6 and ?p'="p1" and ?outs2.0 = "[OpenFails ErrClosed]"] one
    by (auto simp: new_refill_deduplicator_def zero_time_def Let_def split: prod.splits)
qed

end
