(* ===== verification/Tunnel_Manager.thy ===== *)
theory Tunnel_Manager
  imports Agent_Registry Refill
begin

text \<open>
  The tunnel manager of the agent and its helpers (\<open>manager.go, producer.go, reaper.go,
  ttl_reaper.go\<close> under \<open>agent-core/runtime/agent/tunnel\<close>): one reconcile round, requests for
  more tunnels, closing and recycling, and the reaction to the state of the session.

  The manager's operations are modelled one after the other. \<open>nowFn\<close> is a sequence of clock
  readings, counted by \<open>clockReads\<close>; what \<open>Close\<close> of a tunnel answers is the argument
  \<open>close_err\<close>. The token bucket of the producer works on floats and is part of the
  environment, like the opener: what becomes of each job is listed.
\<close>

section \<open>Configuration\<close>

text \<open>The sign of \<open>TunnelOpenRate\<close>, a float, is all that matters here.\<close>

record manager_config =
  MinIdle :: int
  MaxIdle :: int
  IdleTTL :: duration
  MaxReuseCount :: int
  RecycleTimeout :: duration
  MaxInflightOpens :: int
  TunnelOpenRate :: int
  TunnelOpenBurst :: int
  ReconcileInterval :: duration

definition err_invalid_manager_config :: goerr where
  "err_invalid_manager_config = OtherErr ''invalid manager config''"

definition default_manager_config :: manager_config where
  "default_manager_config =
     \<lparr>MinIdle = 8, MaxIdle = 32, IdleTTL = 10 * minute, MaxReuseCount = 256,
      RecycleTimeout = 3 * second, MaxInflightOpens = 4, TunnelOpenRate = 10,
      TunnelOpenBurst = 20, ReconcileInterval = second\<rparr>"

definition normalize_manager_config :: "manager_config \<Rightarrow> goerr + manager_config" where
  "normalize_manager_config config =
     (let d = default_manager_config;
          c2 = config\<lparr>MinIdle := (if MinIdle config < 0 then 0 else MinIdle config),
                      MaxIdle := (if MaxIdle config \<le> 0 then MaxIdle d else MaxIdle config)\<rparr>
      in if MinIdle c2 > MaxIdle c2 then Inl err_invalid_manager_config
         else if IdleTTL c2 < 0 then Inl err_invalid_manager_config
         else
           let c5 = c2\<lparr>MaxReuseCount := (if MaxReuseCount c2 \<le> 0 then MaxReuseCount d
                                          else MaxReuseCount c2),
                       RecycleTimeout := (if RecycleTimeout c2 \<le> 0 then RecycleTimeout d
                                          else RecycleTimeout c2),
                       MaxInflightOpens := (if MaxInflightOpens c2 \<le> 0 then MaxInflightOpens d
                                            else MaxInflightOpens c2)\<rparr>
           in if TunnelOpenRate c5 < 0 then Inl err_invalid_manager_config
              else
                let c6 = c5\<lparr>TunnelOpenRate := (if TunnelOpenRate c5 = 0 then TunnelOpenRate d
                                               else TunnelOpenRate c5)\<rparr>
                in if TunnelOpenBurst c6 < 0 then Inl err_invalid_manager_config
                   else Inr (c6\<lparr>TunnelOpenBurst := (if TunnelOpenBurst c6 = 0 then TunnelOpenBurst d
                                                    else TunnelOpenBurst c6),
                                 ReconcileInterval := (if ReconcileInterval c6 \<le> 0
                                                       then ReconcileInterval d
                                                       else ReconcileInterval c6)\<rparr>))"


section \<open>State\<close>

record tunnel_manager =
  mgr_config :: manager_config
  mgr_registry :: agent_registry
  nowFn :: "nat \<Rightarrow> gotime"
  clockReads :: nat
  pendingTargetIdle :: int
  pendingReason :: string
  suspendRefill :: bool
  refillSignal :: bool
  mgr_events :: "(string \<times> string) list"
  closedTunnels :: "tunnel list"

definition new_manager ::
    "manager_config \<Rightarrow> agent_registry \<Rightarrow> (nat \<Rightarrow> gotime) \<Rightarrow> goerr + tunnel_manager" where
  "new_manager config registry now =
     (case normalize_manager_config config of
        Inl e \<Rightarrow> Inl e
      | Inr c \<Rightarrow>
          Inr \<lparr>mgr_config = c, mgr_registry = registry, nowFn = now, clockReads = 0,
               pendingTargetIdle = MinIdle c, pendingReason = ''startup'',
               suspendRefill = False, refillSignal = False, mgr_events = [], closedTunnels = []\<rparr>)"

text \<open>A reading of the clock, and a registry operation that is given one.\<close>

definition at_now ::
    "(gotime \<Rightarrow> agent_registry \<Rightarrow> 'a \<times> agent_registry) \<Rightarrow> tunnel_manager \<Rightarrow> 'a \<times> tunnel_manager" where
  "at_now op m =
     (let (a, reg) = op (nowFn m (clockReads m)) (mgr_registry m)
      in (a, m\<lparr>mgr_registry := reg, clockReads := Suc (clockReads m)\<rparr>))"

definition emit_event_with_reason :: "string \<Rightarrow> string \<Rightarrow> tunnel_manager \<Rightarrow> tunnel_manager" where
  "emit_event_with_reason trigger reason m =
     (let t = trim_space trigger; t' = (if t = [] then ''pool_event'' else t)
      in m\<lparr>mgr_events := mgr_events m @ [(t', trim_space reason)]\<rparr>)"

definition emit_event :: "string \<Rightarrow> tunnel_manager \<Rightarrow> tunnel_manager" where
  "emit_event trigger = emit_event_with_reason trigger []"

definition enqueue_reconcile_signal :: "tunnel_manager \<Rightarrow> tunnel_manager" where
  "enqueue_reconcile_signal m = m\<lparr>refillSignal := True\<rparr>"

definition close_tunnel ::
    "(tunnel \<Rightarrow> goerr option) \<Rightarrow> tunnel \<Rightarrow> tunnel_manager \<Rightarrow> goerr option \<times> tunnel_manager" where
  "close_tunnel close_err t m = (close_err t, m\<lparr>closedTunnels := closedTunnels m @ [t]\<rparr>)"


section \<open>Reapers\<close>

definition reaper_mark_broken_and_remove ::
    "gotime \<Rightarrow> string \<Rightarrow> string \<Rightarrow> tunnel_manager \<Rightarrow> (goerr + agent_record) \<times> tunnel_manager" where
  "reaper_mark_broken_and_remove wall raw_id reason m =
     (let i = trim_space raw_id
      in if i = [] then (Inl err_agent_tunnel_not_found, m)
         else case at_now (\<lambda>now. mark_broken now i reason) m of
                (Some e, m1) \<Rightarrow> (Inl e, m1)
              | (None, m1) \<Rightarrow>
                  let (r, reg) = remove_terminal wall i (mgr_registry m1)
                  in (r, m1\<lparr>mgr_registry := reg\<rparr>))"

definition remove_closed_only ::
    "gotime \<Rightarrow> string \<Rightarrow> tunnel_manager \<Rightarrow> (goerr + agent_record) \<times> tunnel_manager" where
  "remove_closed_only wall raw_id m =
     (let i = trim_space raw_id
      in if i = [] then (Inl err_agent_tunnel_not_found, m)
         else case get_record i (mgr_registry m) of
                None \<Rightarrow> (Inl err_agent_tunnel_not_found, m)
              | Some r \<Rightarrow>
                  if ar_state r \<noteq> StateClosed then (Inl err_invalid_state_transition, m)
                  else let (res, reg) = remove_terminal wall i (mgr_registry m)
                       in (res, m\<lparr>mgr_registry := reg\<rparr>))"

record ttl_sweep_result =
  sweep_candidates :: nat
  sweep_closed :: nat
  sweep_failed :: nat
  sweep_first_error :: "goerr option"

definition sweep_failure :: "goerr \<Rightarrow> ttl_sweep_result \<Rightarrow> ttl_sweep_result" where
  "sweep_failure e r =
     r\<lparr>sweep_failed := Suc (sweep_failed r),
       sweep_first_error := (case sweep_first_error r of None \<Rightarrow> Some e | Some e0 \<Rightarrow> Some e0)\<rparr>"

definition with_registry ::
    "(agent_registry \<Rightarrow> 'a \<times> agent_registry) \<Rightarrow> tunnel_manager \<Rightarrow> 'a \<times> tunnel_manager" where
  "with_registry op m = (let (a, reg) = op (mgr_registry m) in (a, m\<lparr>mgr_registry := reg\<rparr>))"

definition sweep_one ::
    "gotime \<Rightarrow> gotime \<Rightarrow> (tunnel \<Rightarrow> goerr option) \<Rightarrow> string \<Rightarrow> ttl_sweep_result \<Rightarrow> tunnel_manager
       \<Rightarrow> ttl_sweep_result \<times> tunnel_manager" where
  "sweep_one now wall close_err i res m =
     (case get_record i (mgr_registry m) of
        None \<Rightarrow> (res, m)
      | Some r \<Rightarrow>
          if ar_state r \<noteq> StateIdle then (res, m)
          else
            case with_registry (mark_closing now i) m of
              (Some e, m1) \<Rightarrow> (sweep_failure e res, m1)
            | (None, m1) \<Rightarrow>
                (let (closed, m2) = close_tunnel close_err (ar_tunnel r) m1;
                     res2 = (case closed of Some e \<Rightarrow> sweep_failure e res | None \<Rightarrow> res)
                 in case with_registry (mark_closed now i) m2 of
                      (Some e, m3) \<Rightarrow> (sweep_failure e res2, m3)
                    | (None, m3) \<Rightarrow>
                        (case remove_closed_only wall i m3 of
                           (Inl e, m4) \<Rightarrow> (sweep_failure e res2, m4)
                         | (Inr _, m4) \<Rightarrow>
                             (res2\<lparr>sweep_closed := Suc (sweep_closed res2)\<rparr>, m4))))"

fun sweep_ids ::
    "gotime \<Rightarrow> gotime \<Rightarrow> (tunnel \<Rightarrow> goerr option) \<Rightarrow> string list \<Rightarrow> ttl_sweep_result \<Rightarrow> tunnel_manager
       \<Rightarrow> ttl_sweep_result \<times> tunnel_manager" where
  "sweep_ids now wall close_err [] res m = (res, m)"
| "sweep_ids now wall close_err (i # rest) res m =
     (let (res', m') = sweep_one now wall close_err i res m
      in sweep_ids now wall close_err rest res' m')"

definition ttl_sweep ::
    "gotime \<Rightarrow> (tunnel \<Rightarrow> goerr option) \<Rightarrow> tunnel_manager \<Rightarrow> ttl_sweep_result \<times> tunnel_manager" where
  "ttl_sweep wall close_err m =
     (let r0 = \<lparr>sweep_candidates = 0, sweep_closed = 0, sweep_failed = 0, sweep_first_error = None\<rparr>
      in if IdleTTL (mgr_config m) \<le> 0 then (r0, m)
         else
           let now = nowFn m (clockReads m);
               ids = expired_idle_ids now (IdleTTL (mgr_config m)) (mgr_registry m)
           in sweep_ids now wall close_err ids (r0\<lparr>sweep_candidates := length ids\<rparr>)
                (m\<lparr>clockReads := Suc (clockReads m)\<rparr>))"



section \<open>Requests for more tunnels\<close>

definition mgr_clamp_target_idle :: "manager_config \<Rightarrow> int \<Rightarrow> int" where
  "mgr_clamp_target_idle c target =
     (let t = (if target < MinIdle c then MinIdle c else target)
      in if t > MaxIdle c then MaxIdle c else t)"

definition request_refill :: "int \<Rightarrow> string \<Rightarrow> tunnel_manager \<Rightarrow> bool \<times> tunnel_manager" where
  "request_refill target reason m =
     (let effective = mgr_clamp_target_idle (mgr_config m) target
      in if effective \<le> 0 then (False, m)
         else if suspendRefill m then (False, m)
         else if effective > pendingTargetIdle m
         then (True, emit_event ''refill_requested'' (enqueue_reconcile_signal
                       (m\<lparr>pendingTargetIdle := effective, pendingReason := trim_space reason\<rparr>)))
         else (False, m))"

definition compute_target_idle :: "tunnel_manager \<Rightarrow> int \<times> int" where
  "compute_target_idle m =
     (if suspendRefill m then (0, 0)
      else let requested = (if pendingTargetIdle m < MinIdle (mgr_config m)
                            then MinIdle (mgr_config m) else pendingTargetIdle m)
           in (requested, mgr_clamp_target_idle (mgr_config m) requested))"

definition clear_pending_if_satisfied :: "int \<Rightarrow> tunnel_manager \<Rightarrow> tunnel_manager" where
  "clear_pending_if_satisfied idle m =
     (if pendingTargetIdle m \<le> 0 then m
      else if idle \<ge> pendingTargetIdle m then m\<lparr>pendingTargetIdle := 0, pendingReason := []\<rparr>
      else m)"

definition pending_reason_snapshot :: "string \<Rightarrow> tunnel_manager \<Rightarrow> string" where
  "pending_reason_snapshot fallback m =
     (let r = trim_space (pendingReason m);
          r' = (if r = [] then trim_space fallback else r)
      in if r' = [] then ''periodic'' else r')"


section \<open>The life of one tunnel\<close>

definition manager_acquire_idle ::
    "gotime \<Rightarrow> tunnel_manager \<Rightarrow> agent_record option \<times> tunnel_manager" where
  "manager_acquire_idle at m =
     (case (if is_zero at then at_now acquire_idle m else with_registry (acquire_idle at) m) of
        (None, m1) \<Rightarrow> (None, m1)
      | (Some r, m1) \<Rightarrow>
          (Some r, emit_event ''idle_acquired''
                     (snd (request_refill (MinIdle (mgr_config m1)) ''consume'' m1))))"

definition activate_idle :: "string \<Rightarrow> tunnel_manager \<Rightarrow> goerr option \<times> tunnel_manager" where
  "activate_idle raw_id m =
     (let i = trim_space raw_id
      in if i = [] then (Some err_agent_tunnel_not_found, m)
         else case at_now (\<lambda>now. activate_idle_by_id now i) m of
                (Inl e, m1) \<Rightarrow> (Some e, m1)
              | (Inr r, m1) \<Rightarrow>
                  (None, emit_event ''tunnel_active''
                           (snd (request_refill (MinIdle (mgr_config m1)) ''consume'' m1))))"

definition manager_mark_active :: "string \<Rightarrow> tunnel_manager \<Rightarrow> goerr option \<times> tunnel_manager" where
  "manager_mark_active raw_id m =
     (let i = trim_space raw_id
      in if i = [] then (Some err_agent_tunnel_not_found, m)
         else case at_now (\<lambda>now. mark_active now i) m of
                (Some e, m1) \<Rightarrow> (Some e, m1)
              | (None, m1) \<Rightarrow> (None, emit_event ''tunnel_active'' m1))"

definition recycle_to_idle ::
    "gotime \<Rightarrow> string \<Rightarrow> 64 word \<Rightarrow> tunnel_manager \<Rightarrow> goerr option \<times> tunnel_manager" where
  "recycle_to_idle wall raw_id recycle_seq m =
     (let i = trim_space raw_id
      in if i = [] then (Some err_agent_tunnel_not_found, m)
         else if recycle_seq = 0 then (Some err_invalid_manager_config, m)
         else case at_now (\<lambda>now. mark_idle_after_recycle wall now i recycle_seq) m of
                (Some e, m1) \<Rightarrow> (Some e, m1)
              | (None, m1) \<Rightarrow> (None, emit_event ''tunnel_recycled'' m1))"

definition after_close :: "bool \<Rightarrow> string \<Rightarrow> tunnel_manager \<Rightarrow> tunnel_manager" where
  "after_close refill reason m =
     emit_event_with_reason ''tunnel_closed'' reason
       (if refill then snd (request_refill (MinIdle (mgr_config m)) reason m) else m)"

definition close_and_remove ::
    "gotime \<Rightarrow> (tunnel \<Rightarrow> goerr option) \<Rightarrow> string \<Rightarrow> bool \<Rightarrow> string \<Rightarrow> tunnel_manager
       \<Rightarrow> goerr option \<times> tunnel_manager" where
  "close_and_remove wall close_err raw_id refill reason m =
     (let i = trim_space raw_id
      in if i = [] then (Some err_agent_tunnel_not_found, m)
         else case get_record i (mgr_registry m) of
           None \<Rightarrow> (Some err_agent_tunnel_not_found, m)
         | Some r \<Rightarrow>
             (case at_now (\<lambda>now. mark_closing now i) m of
                (Some e, m1) \<Rightarrow> (Some e, m1)
              | (None, m1) \<Rightarrow>
                  (case close_tunnel close_err (ar_tunnel r) m1 of
                     (Some e, m2) \<Rightarrow>
                       (case remove_closed_only wall i (snd (at_now (\<lambda>now. mark_closed now i) m2)) of
                          (Inl remove_err, m3) \<Rightarrow> (Some e, m3)
                        | (Inr _, m3) \<Rightarrow> (Some e, after_close refill reason m3))
                   | (None, m2) \<Rightarrow>
                       (case at_now (\<lambda>now. mark_closed now i) m2 of
                          (Some e, m3) \<Rightarrow> (Some e, m3)
                        | (None, m3) \<Rightarrow>
                            (case remove_closed_only wall i m3 of
                               (Inl e, m4) \<Rightarrow> (Some e, m4)
                             | (Inr _, m4) \<Rightarrow> (None, after_close refill reason m4))))))"

definition close_and_remove_with_reason ::
    "gotime \<Rightarrow> (tunnel \<Rightarrow> goerr option) \<Rightarrow> string \<Rightarrow> string \<Rightarrow> tunnel_manager
       \<Rightarrow> goerr option \<times> tunnel_manager" where
  "close_and_remove_with_reason wall close_err i reason =
     (let r = trim_space reason
      in close_and_remove wall close_err i True (if r = [] then ''close'' else r))"

definition manager_mark_broken_and_remove ::
    "gotime \<Rightarrow> string \<Rightarrow> string \<Rightarrow> tunnel_manager \<Rightarrow> goerr option \<times> tunnel_manager" where
  "manager_mark_broken_and_remove wall i reason m =
     (let why = trim_space reason
      in case reaper_mark_broken_and_remove wall (trim_space i) why m of
           (Inl e, m1) \<Rightarrow> (Some e, m1)
         | (Inr r, m1) \<Rightarrow>
             (None, emit_event_with_reason ''tunnel_broken'' why
                      (snd (request_refill (MinIdle (mgr_config m1)) ''broken'' m1))))"


section \<open>Reconciling\<close>

fun trim_ids ::
    "gotime \<Rightarrow> (tunnel \<Rightarrow> goerr option) \<Rightarrow> string list \<Rightarrow> nat \<Rightarrow> tunnel_manager
       \<Rightarrow> (nat \<times> goerr option) \<times> tunnel_manager" where
  "trim_ids wall close_err [] n m = ((n, None), m)"
| "trim_ids wall close_err (i # rest) n m =
     (case close_and_remove wall close_err i False ''trim'' m of
        (Some e, m1) \<Rightarrow> ((n, Some e), m1)
      | (None, m1) \<Rightarrow> trim_ids wall close_err rest (Suc n) m1)"

definition mgr_idle_count :: "tunnel_manager \<Rightarrow> int" where
  "mgr_idle_count m = int (IdleCount (registry_snapshot (mgr_registry m)))"

definition trim_excess_idle ::
    "gotime \<Rightarrow> (tunnel \<Rightarrow> goerr option) \<Rightarrow> tunnel_manager \<Rightarrow> (nat \<times> goerr option) \<times> tunnel_manager" where
  "trim_excess_idle wall close_err m =
     (let excess = mgr_idle_count m - MaxIdle (mgr_config m)
      in if excess \<le> 0 then ((0, None), m)
         else trim_ids wall close_err (idle_ids excess (mgr_registry m)) 0 m)"

text \<open>\<open>OpenBatch\<close>: every job is taken by some worker, whatever became of the others.\<close>

record produce_result =
  Requested :: int
  OpenedTunnels :: nat
  FailedTunnels :: nat
  FirstError :: "goerr option"

datatype 'j open_outcome = OpenFailed goerr | TunnelOpened 'j "goerr option"

definition open_failure :: "goerr \<Rightarrow> produce_result \<Rightarrow> produce_result" where
  "open_failure e r =
     r\<lparr>FailedTunnels := Suc (FailedTunnels r),
       FirstError := (case FirstError r of None \<Rightarrow> Some e | Some e0 \<Rightarrow> Some e0)\<rparr>"

fun open_jobs ::
    "('j \<Rightarrow> 'p \<Rightarrow> goerr option \<times> 'p) \<Rightarrow> nat \<Rightarrow> 'j open_outcome list \<Rightarrow> produce_result \<Rightarrow> 'p
       \<Rightarrow> produce_result \<times> 'p" where
  "open_jobs handler 0 outs r p = (r, p)"
| "open_jobs handler (Suc jobs) [] r p = (r, p)"
| "open_jobs handler (Suc jobs) (OpenFailed e # outs) r p =
     open_jobs handler jobs outs (open_failure e r) p"
| "open_jobs handler (Suc jobs) (TunnelOpened t close_err # outs) r p =
     (let (e, p') = handler t p
      in open_jobs handler jobs outs
           (case e of Some e \<Rightarrow> open_failure e r
            | None \<Rightarrow> r\<lparr>OpenedTunnels := Suc (OpenedTunnels r)\<rparr>) p')"

definition open_batch ::
    "('j \<Rightarrow> 'p \<Rightarrow> goerr option \<times> 'p) \<Rightarrow> int \<Rightarrow> 'j open_outcome list \<Rightarrow> 'p \<Rightarrow> produce_result \<times> 'p" where
  "open_batch handler count outs p =
     open_jobs handler (nat count) outs
       \<lparr>Requested = count, OpenedTunnels = 0, FailedTunnels = 0, FirstError = None\<rparr> p"

definition pool_handler :: "tunnel \<Rightarrow> tunnel_manager \<Rightarrow> goerr option \<times> tunnel_manager" where
  "pool_handler t m =
     (case at_now (\<lambda>now. try_add_opened_as_idle now t (MaxIdle (mgr_config m))) m of
        ((added, Some e), m1) \<Rightarrow> (Some e, m1)
      | ((added, None), m1) \<Rightarrow>
          (if \<not> added then Some err_invalid_state_transition else None, m1))"

record reconcile_result =
  Trigger :: string
  Before :: agent_snapshot
  After :: agent_snapshot
  ReqTargetIdle :: int
  EffTargetIdle :: int
  TrimmedIdleCount :: nat
  Produced :: produce_result
  TTLSweep :: ttl_sweep_result

definition no_production :: produce_result where
  "no_production = \<lparr>Requested = 0, OpenedTunnels = 0, FailedTunnels = 0, FirstError = None\<rparr>"

definition note_sweep :: "ttl_sweep_result \<Rightarrow> tunnel_manager \<Rightarrow> tunnel_manager" where
  "note_sweep sweep m =
     (if sweep_closed sweep > 0 then emit_event_with_reason ''ttl_reaped'' ''idle_ttl'' m else m)"

text \<open>The second half of the round, after sweep and trimming: \<open>r\<close> is the result so far.\<close>

definition reconcile_open ::
    "tunnel open_outcome list \<Rightarrow> string \<Rightarrow> reconcile_result \<Rightarrow> tunnel_manager
       \<Rightarrow> (reconcile_result \<times> goerr option) \<times> tunnel_manager" where
  "reconcile_open outs why r m =
     (let (requested, effective) = compute_target_idle m;
          r1 = r\<lparr>ReqTargetIdle := requested, EffTargetIdle := effective\<rparr>;
          sweep = TTLSweep r
      in if mgr_idle_count m \<ge> effective
         then ((r1, sweep_first_error sweep), clear_pending_if_satisfied (mgr_idle_count m) m)
         else
           let (produced, m4) = open_batch pool_handler (effective - mgr_idle_count m) outs m;
               m5 = clear_pending_if_satisfied (mgr_idle_count m4) m4;
               m6 = (if OpenedTunnels produced > 0
                     then emit_event_with_reason ''pool_rebuilt'' why m5 else m5);
               m7 = (if OpenedTunnels produced > 0 \<or> FailedTunnels produced > 0
                        \<or> sweep_closed sweep > 0 \<or> TrimmedIdleCount r > 0
                     then emit_event ''pool_changed'' m6 else m6);
               r2 = r1\<lparr>Produced := produced, After := registry_snapshot (mgr_registry m4)\<rparr>
           in ((r2, case FirstError produced of Some e \<Rightarrow> Some e
                    | None \<Rightarrow> sweep_first_error sweep), m7))"

definition reconcile_now ::
    "gotime \<Rightarrow> (tunnel \<Rightarrow> goerr option) \<Rightarrow> tunnel open_outcome list \<Rightarrow> string \<Rightarrow> tunnel_manager
       \<Rightarrow> (reconcile_result \<times> goerr option) \<times> tunnel_manager" where
  "reconcile_now wall close_err outs trigger m =
     (let why = pending_reason_snapshot (trim_space trigger) m;
          before = registry_snapshot (mgr_registry m);
          (sweep, m1) = ttl_sweep wall close_err m;
          ((trimmed, trim_err), m3) = trim_excess_idle wall close_err (note_sweep sweep m1);
          r0 = \<lparr>Trigger = trim_space trigger, Before = before,
                After = registry_snapshot (mgr_registry m3), ReqTargetIdle = 0, EffTargetIdle = 0,
                TrimmedIdleCount = trimmed, Produced = no_production, TTLSweep = sweep\<rparr>
      in case trim_err of
           Some e \<Rightarrow> ((r0, Some e), m3)
         | None \<Rightarrow> reconcile_open outs why r0 m3)"


section \<open>The state of the session\<close>

fun recycle_all ::
    "gotime \<Rightarrow> (tunnel \<Rightarrow> goerr option) \<Rightarrow> agent_record list \<Rightarrow> nat \<times> goerr option \<Rightarrow> tunnel_manager
       \<Rightarrow> (nat \<times> goerr option) \<times> tunnel_manager" where
  "recycle_all wall close_err [] res m = (res, m)"
| "recycle_all wall close_err (r # rest) res m =
     (if trim_space (ar_id r) = [] \<or> ar_state r = StateClosed \<or> ar_state r = StateBroken
      then recycle_all wall close_err rest res m
      else
        let (e, m1) = (if ar_state r = StateOpening \<or> ar_state r = StateClosing
                       then manager_mark_broken_and_remove wall (ar_id r) ''session_state_recycle'' m
                       else close_and_remove wall close_err (ar_id r) False ''session_state'' m)
        in recycle_all wall close_err rest
             (case e of
                None \<Rightarrow> (Suc (fst res), snd res)
              | Some e \<Rightarrow>
                  if e = err_agent_tunnel_not_found then res
                  else (fst res, case snd res of None \<Rightarrow> Some e | Some e0 \<Rightarrow> Some e0)) m1)"

definition recycle_all_session_tunnels ::
    "gotime \<Rightarrow> (tunnel \<Rightarrow> goerr option) \<Rightarrow> tunnel_manager \<Rightarrow> (nat \<times> goerr option) \<times> tunnel_manager" where
  "recycle_all_session_tunnels wall close_err m =
     recycle_all wall close_err (list_records 0 (mgr_registry m)) (0, None) m"

definition handle_session_state ::
    "gotime \<Rightarrow> (tunnel \<Rightarrow> goerr option) \<Rightarrow> string \<Rightarrow> tunnel_manager
       \<Rightarrow> (nat \<times> goerr option) \<times> tunnel_manager" where
  "handle_session_state wall close_err st m =
     (let s = to_upper (trim_space st)
      in if s = ''DRAINING'' \<or> s = ''STALE''
         then
           let (res, m1) = recycle_all_session_tunnels wall close_err
                 (m\<lparr>suspendRefill := True, pendingTargetIdle := 0, pendingReason := to_lower s\<rparr>)
           in (res, emit_event (''session_'' @ to_lower s) m1)
         else if s = ''ACTIVE''
         then
           ((0, None),
            emit_event ''session_active'' (enqueue_reconcile_signal
              (m\<lparr>suspendRefill := False,
                 pendingTargetIdle := (if pendingTargetIdle m < MinIdle (mgr_config m)
                                       then MinIdle (mgr_config m) else pendingTargetIdle m),
                 pendingReason := ''session_active''\<rparr>)))
         else ((0, None), m))"


section \<open>Closing a tunnel\<close>

lemma map_del_put_same [simp]: "map_del i (map_put i v m) = map_del i m"
  by (rule delete_update_same)

definition live :: "agent_record \<Rightarrow> bool" where
  "live r \<longleftrightarrow> ar_state r = StateIdle \<or> ar_state r = StateReserved \<or> ar_state r = StateActive"

lemma emit_fields [simp]:
  "mgr_registry (emit_event_with_reason t w m) = mgr_registry m"
  "mgr_config (emit_event_with_reason t w m) = mgr_config m"
  "suspendRefill (emit_event_with_reason t w m) = suspendRefill m"
  "pendingTargetIdle (emit_event_with_reason t w m) = pendingTargetIdle m"
  "mgr_registry (emit_event t m) = mgr_registry m"
  "mgr_config (emit_event t m) = mgr_config m"
  "suspendRefill (emit_event t m) = suspendRefill m"
  "pendingTargetIdle (emit_event t m) = pendingTargetIdle m"
  by (simp_all add: emit_event_def emit_event_with_reason_def Let_def)

lemma request_refill_fields [simp]:
  "mgr_registry (snd (request_refill k why m)) = mgr_registry m"
  "mgr_config (snd (request_refill k why m)) = mgr_config m"
  "suspendRefill (snd (request_refill k why m)) = suspendRefill m"
  by (simp_all add: request_refill_def enqueue_reconcile_signal_def Let_def)

lemma after_close_fields [simp]:
  "mgr_registry (after_close refill why m) = mgr_registry m"
  "mgr_config (after_close refill why m) = mgr_config m"
  "suspendRefill (after_close refill why m) = suspendRefill m"
  by (simp_all add: after_close_def)


lemma close_and_remove_live:
  assumes inv: "agent_inv (mgr_registry m)"
    and r: "map_of (records (mgr_registry m)) i = Some r" "live r"
    and run: "close_and_remove wall ce i refill why m = (e, m')"
  shows "e = ce (ar_tunnel r)"
    and "records (mgr_registry m') = map_del i (records (mgr_registry m))"
    and "idleOrder (mgr_registry m') = filter (\<lambda>j. j \<noteq> i) (idleOrder (mgr_registry m))"
    and "mgr_config m' = mgr_config m" and "suspendRefill m' = suspendRefill m"
proof -
  have i: "i \<noteq> []" "trim_space i = i" using agent_inv_filed [OF inv r(1)] by auto
  have order: "ar_state r \<noteq> StateIdle \<Longrightarrow>
      filter (\<lambda>j. j \<noteq> i) (idleOrder (mgr_registry m)) = idleOrder (mgr_registry m)"
    using agent_inv_mem [OF inv, of i] r(1) by (intro filter_True) (auto simp: is_idle_def)
  have "e = ce (ar_tunnel r) \<and> records (mgr_registry m') = map_del i (records (mgr_registry m))
      \<and> idleOrder (mgr_registry m') = filter (\<lambda>j. j \<noteq> i) (idleOrder (mgr_registry m))
      \<and> mgr_config m' = mgr_config m \<and> suspendRefill m' = suspendRefill m"
    using order i r run
    by (auto simp: close_and_remove_def get_record_def at_now_def mark_closing_def mark_closed_def
        transition_def Let_def close_tunnel_def remove_closed_only_def remove_terminal_def live_def
        split: option.splits)
  then show "e = ce (ar_tunnel r)"
    and "records (mgr_registry m') = map_del i (records (mgr_registry m))"
    and "idleOrder (mgr_registry m') = filter (\<lambda>j. j \<noteq> i) (idleOrder (mgr_registry m))"
    and "mgr_config m' = mgr_config m" and "suspendRefill m' = suspendRefill m"
    by blast+
qed


lemma mark_broken_starting:
  assumes inv: "agent_inv (mgr_registry m)"
    and r: "map_of (records (mgr_registry m)) i = Some r"
    and st: "ar_state r = StateOpening \<or> ar_state r = StateClosing"
    and run: "manager_mark_broken_and_remove wall i why m = (e, m')"
  shows "agent_inv (mgr_registry m')"
    and "records (mgr_registry m')
          = (if ar_state r = StateOpening then map_del i (records (mgr_registry m))
             else records (mgr_registry m))"
    and "e = (if ar_state r = StateOpening then None else Some err_invalid_state_transition)"
    and "mgr_config m' = mgr_config m" and "suspendRefill m' = suspendRefill m"
proof -
  have i: "i \<noteq> []" "trim_space i = i" using agent_inv_filed [OF inv r(1)] by auto
  have order: "filter (\<lambda>j. j \<noteq> i) (idleOrder (mgr_registry m)) = idleOrder (mgr_registry m)"
    using agent_inv_mem [OF inv, of i] r st by (intro filter_True) (auto simp: is_idle_def)
  have "idleOrder (mgr_registry m') = idleOrder (mgr_registry m)
      \<and> records (mgr_registry m')
          = (if ar_state r = StateOpening then map_del i (records (mgr_registry m))
             else records (mgr_registry m))
      \<and> e = (if ar_state r = StateOpening then None else Some err_invalid_state_transition)
      \<and> mgr_config m' = mgr_config m \<and> suspendRefill m' = suspendRefill m"
    using order i r st run
    by (auto simp: manager_mark_broken_and_remove_def reaper_mark_broken_and_remove_def at_now_def
        mark_broken_def transition_def Let_def remove_terminal_def split: option.splits)
  then show "records (mgr_registry m')
          = (if ar_state r = StateOpening then map_del i (records (mgr_registry m))
             else records (mgr_registry m))"
    and "e = (if ar_state r = StateOpening then None else Some err_invalid_state_transition)"
    and "mgr_config m' = mgr_config m" and "suspendRefill m' = suspendRefill m"
    and "agent_inv (mgr_registry m')"
    using inv order idle_index_del [OF agent_inv_index [OF inv], of i]
    by (auto simp: agent_inv_def filed_right_del split: if_splits)
qed

lemma close_and_remove_inv:
  assumes "agent_inv (mgr_registry m)" and "map_of (records (mgr_registry m)) i = Some r" "live r"
    and "close_and_remove wall ce i refill why m = (e, m')"
  shows "agent_inv (mgr_registry m')"
  using close_and_remove_live(2,3) [OF assms] idle_index_del [OF agent_inv_index [OF assms(1)], of i]
  by (simp add: agent_inv_def filed_right_del agent_inv_right [OF assms(1)])


section \<open>Draining\<close>

text \<open>\<open>rs\<close>: the records that are still to be visited.\<close>

definition to_visit :: "agent_record list \<Rightarrow> tunnel_manager \<Rightarrow> bool" where
  "to_visit rs m \<longleftrightarrow> agent_inv (mgr_registry m) \<and> distinct (map ar_id rs)
     \<and> (\<forall>r \<in> set rs. map_of (records (mgr_registry m)) (ar_id r) = Some r)
     \<and> (\<forall>i r. map_of (records (mgr_registry m)) i = Some r \<and> live r \<longrightarrow> r \<in> set rs)"

lemma to_visit_removed:
  assumes "to_visit (r # rs) m" and "agent_inv (mgr_registry m')"
    and "records (mgr_registry m') = map_del (ar_id r) (records (mgr_registry m))"
  shows "to_visit rs m'"
proof -
  let ?m = "records (mgr_registry m)"
  have v: "distinct (map ar_id (r # rs))" "map_of ?m (ar_id r') = Some r'" if "r' \<in> set (r # rs)" for r'
    using assms(1) that unfolding to_visit_def by blast+
  have "r' \<in> set rs" if "map_of (map_del (ar_id r) ?m) i = Some r'" "live r'" for i r'
  proof -
    have i: "i \<noteq> ar_id r" "map_of ?m i = Some r'"
      using that(1) by (simp_all add: fun_upd_def del: map_of_eq_Some_iff split: if_splits)
    have "r' \<in> set (r # rs)" using i(2) that(2) assms(1) unfolding to_visit_def by blast
    moreover have "ar_id r' = i"
      using agent_inv_filed [of "mgr_registry m" i r'] i(2) assms(1) unfolding to_visit_def by blast
    ultimately show ?thesis using i(1) by auto
  qed
  moreover have "map_of (map_del (ar_id r) ?m) (ar_id r') = Some r'" if "r' \<in> set rs" for r'
  proof -
    have "map_of ?m (ar_id r') = Some r'" and "ar_id r \<notin> ar_id ` set rs"
      using v [of r'] that by (auto simp del: map_of_eq_Some_iff)
    moreover from this(2) have "ar_id r' \<noteq> ar_id r" using that by (metis imageI)
    ultimately show ?thesis by (simp del: map_of_eq_Some_iff)
  qed
  ultimately show ?thesis
    using assms(2,3) v(1) [of r] by (auto simp: to_visit_def simp del: map_of_eq_Some_iff map_of_del)
qed

lemma to_visit_kept:
  assumes "to_visit (r # rs) m" and "\<not> live r" and "agent_inv (mgr_registry m')"
    and "records (mgr_registry m') = records (mgr_registry m)"
  shows "to_visit rs m'"
  using assms by (auto simp: to_visit_def simp del: map_of_eq_Some_iff)

lemma recycle_all_drains:
  "to_visit rs m \<Longrightarrow> recycle_all wall ce rs res m = (res', m') \<Longrightarrow>
     agent_inv (mgr_registry m')
     \<and> (\<forall>i r. map_of (records (mgr_registry m')) i = Some r \<longrightarrow> \<not> live r)
     \<and> suspendRefill m' = suspendRefill m \<and> mgr_config m' = mgr_config m"
proof (induction rs arbitrary: res m)
  case Nil
  then show ?case by (auto simp: to_visit_def)
next
  case (Cons r rs)
  have inv: "agent_inv (mgr_registry m)" and r: "map_of (records (mgr_registry m)) (ar_id r) = Some r"
    using Cons.prems(1) by (auto simp: to_visit_def)
  have key: "trim_space (ar_id r) \<noteq> []" using agent_inv_filed [OF inv r] by simp
  consider (rest) "ar_state r = StateClosed \<or> ar_state r = StateBroken"
    | (starting) "ar_state r = StateOpening \<or> ar_state r = StateClosing" | (live) "live r"
    by (cases "ar_state r") (auto simp: live_def)
  then show ?case
  proof cases
    case rest
    then have "to_visit rs m"
      using to_visit_kept [OF Cons.prems(1) _ inv] by (auto simp: live_def)
    then show ?thesis using Cons.IH [of m] Cons.prems(2) rest by auto
  next
    case starting
    obtain e m1 where one: "manager_mark_broken_and_remove wall (ar_id r) ''session_state_recycle'' m = (e, m1)"
      by fastforce
    note effect = mark_broken_starting [OF inv r starting one]
    have "to_visit rs m1"
    proof (cases "ar_state r = StateOpening")
      case True
      then show ?thesis using to_visit_removed [OF Cons.prems(1) effect(1)] effect(2) by simp
    next
      case False
      then show ?thesis
        using to_visit_kept [OF Cons.prems(1) _ effect(1)] effect(2) starting by (simp add: live_def)
    qed
    moreover have "\<exists>res1. recycle_all wall ce rs res1 m1 = (res', m')"
      using Cons.prems(2) one starting key by (auto simp del: split_paired_Ex)
    ultimately show ?thesis using Cons.IH effect(4,5) by fastforce
  next
    case live
    obtain e m1 where one: "close_and_remove wall ce (ar_id r) False ''session_state'' m = (e, m1)"
      by fastforce
    note effect = close_and_remove_live [OF inv r live one]
    have "to_visit rs m1"
      using to_visit_removed [OF Cons.prems(1) close_and_remove_inv [OF inv r live one]] effect(2) by simp
    moreover have "\<exists>res1. recycle_all wall ce rs res1 m1 = (res', m')"
      using Cons.prems(2) one live key by (auto simp: live_def simp del: split_paired_Ex)
    ultimately show ?thesis using Cons.IH effect(4,5) by fastforce
  qed
qed


lemma to_visit_all:
  assumes "agent_inv (mgr_registry m)"
  shows "to_visit (list_records 0 (mgr_registry m)) m"
proof -
  let ?reg = "mgr_registry m"
  let ?rs = "list_records 0 ?reg"
  have keys: "keys_distinct (records ?reg)"
    using agent_inv_index [OF assms] by (simp add: idle_index_def)
  have set: "set ?rs = snd ` set (records ?reg)"
    by (simp add: list_records_def Let_def)
  have "map ar_id (map snd (records ?reg)) = map fst (records ?reg)"
    using keys agent_inv_filed [OF assms] by auto
  then have "distinct (map ar_id (map snd (records ?reg)))" using keys by metis
  then have "distinct (map snd (records ?reg)) \<and> inj_on ar_id (snd ` set (records ?reg))"
    by (simp add: distinct_map comp_inj_on_iff [symmetric] inj_on_imageI del: map_map)
  then have "distinct (map ar_id ?rs)"
    by (simp add: list_records_def Let_def distinct_map)
  then show ?thesis
    using assms keys set agent_inv_filed [OF assms] by (fastforce simp: to_visit_def image_iff)
qed

text \<open>
  When the session starts draining or becomes stale, the agent's pool is emptied for good:
  whatever the tunnels answer when they are closed, no tunnel is idle, reserved or active
  afterwards, requests for more are refused, and a reconcile round opens none, until the
  session is active again.
\<close>

theorem draining_empties_the_pool:
  assumes "mgr_registry m = fold registry_exec calls new_registry"
    and "to_upper (trim_space st) = ''DRAINING'' \<or> to_upper (trim_space st) = ''STALE''"
  shows "let m' = snd (handle_session_state wall ce st m)
    in idleOrder (mgr_registry m') = [] \<and> lent (mgr_registry m') = {} \<and> suspendRefill m'
       \<and> \<not> fst (request_refill k why m')
       \<and> compute_target_idle m' = (0, 0)"
proof -
  let ?m = "m\<lparr>suspendRefill := True, pendingTargetIdle := 0,
             pendingReason := to_lower (to_upper (trim_space st))\<rparr>"
  obtain res m1 where run: "recycle_all wall ce (list_records 0 (mgr_registry ?m)) (0, None) ?m = (res, m1)"
    by fastforce
  have "agent_inv (mgr_registry ?m)"
    using agent_lease.ok_run [OF agent_inv_new, of calls] assms(1) by simp
  note gone = recycle_all_drains [OF to_visit_all [OF this] run]
  have "idleOrder (mgr_registry m1) = []"
  proof (rule ccontr)
    assume "idleOrder (mgr_registry m1) \<noteq> []"
    then obtain i where "i \<in> set (idleOrder (mgr_registry m1))" by (cases "idleOrder (mgr_registry m1)") auto
    then show False
      using gone agent_inv_mem [of "mgr_registry m1" i] by (auto simp: is_idle_def live_def)
  qed
  moreover have "lent (mgr_registry m1) = {}"
    using gone by (auto simp: lent_def live_def simp del: map_of_eq_Some_iff)
  moreover have "snd (handle_session_state wall ce st m)
      = emit_event (''session_'' @ to_lower (to_upper (trim_space st))) m1"
    using assms(2) run
    by (auto simp: handle_session_state_def recycle_all_session_tunnels_def Let_def)
  ultimately show ?thesis
    using gone by (simp add: Let_def request_refill_def compute_target_idle_def)
qed

definition sample_manager :: "agent_registry \<Rightarrow> tunnel_manager" where
  "sample_manager reg =
     \<lparr>mgr_config = default_manager_config\<lparr>MinIdle := 1\<rparr>, mgr_registry = reg, nowFn = int, clockReads = 0,
      pendingTargetIdle = 1, pendingReason = [], suspendRefill = False, refillSignal = False,
      mgr_events = [], closedTunnels = []\<rparr>"

lemma trim_draining: "trim_space ''draining'' = ''draining''"
  by (rule trim_space_graphic; simp add: graphic_def)

theorem draining_empties_the_pool_witness:
  "let reg = fold registry_exec [sample_add, AcquireIdle 2] new_registry;
       m' = snd (handle_session_state 9 (\<lambda>t. Some ErrClosed) '' draining'' (sample_manager reg))
   in lent reg = {''t''} \<and> lent (mgr_registry m') = {} \<and> suspendRefill m'"
proof -
  let ?reg = "fold registry_exec [sample_add, AcquireIdle 2] new_registry"
  have "lent ?reg = {''t''}"
    by (auto simp: lent_def sample_add_def try_add_opened_as_idle_def new_registry_def
        count_by_state_def acquire_idle_def Let_def trim_t split: if_splits)
  moreover have "to_upper ''draining'' = ''DRAINING''" by code_simp
  then have "to_upper (trim_space '' draining'') = ''DRAINING''"
    by (simp only: trim_space_blank trim_draining)
  ultimately show ?thesis
    using draining_empties_the_pool [of "sample_manager ?reg" "[sample_add, AcquireIdle 2]" "'' draining''"
        9 "\<lambda>t. Some ErrClosed"]
    by (simp add: Let_def sample_manager_def)
qed

text \<open>
  A tunnel that is closing can not be recycled by the reaction to a draining session: the
  fallback marks it as broken, which is not a legal transition from closing, so that the record
  stays and the call reports an invalid transition.
\<close>

lemma closing_tunnel_stays:
  assumes "agent_inv (mgr_registry m)" and "map_of (records (mgr_registry m)) i = Some r"
    and "ar_state r = StateClosing"
  shows "fst (manager_mark_broken_and_remove wall i why m) = Some err_invalid_state_transition
    \<and> records (mgr_registry (snd (manager_mark_broken_and_remove wall i why m))) = records (mgr_registry m)"
  using mark_broken_starting [OF assms(1,2) _ prod.collapse [symmetric]] assms(3) by simp



section \<open>What a reconcile round leaves behind\<close>

text \<open>A pool in which an accepted tunnel is one more.\<close>

locale counting_pool = idle_pool +
  assumes exact: "put t p = (None, p') \<Longrightarrow> count p' = Suc (count p)"
begin

lemma open_jobs_exact:
  "open_jobs put jobs outs r p = (r', p') \<Longrightarrow>
     count p' + OpenedTunnels r = count p + OpenedTunnels r'
     \<and> OpenedTunnels r \<le> OpenedTunnels r' \<and> OpenedTunnels r' \<le> OpenedTunnels r + jobs
     \<and> (FirstError r \<noteq> None \<longrightarrow> FirstError r' \<noteq> None)
     \<and> (FirstError r' = None \<and> jobs \<le> length outs \<longrightarrow> OpenedTunnels r' = OpenedTunnels r + jobs)"
proof (induction outs arbitrary: jobs r p)
  case Nil
  then show ?case by (cases jobs) auto
next
  case (Cons out outs)
  show ?case
  proof (cases jobs)
    case (Suc j)
    show ?thesis
    proof (cases out)
      case (OpenFailed e)
      then have "open_jobs put j outs (open_failure e r) p = (r', p')" using Cons.prems Suc by simp
      from Cons.IH [OF this] show ?thesis
        using Suc by (auto simp: open_failure_def split: option.splits)
    next
      case (TunnelOpened t close_err)
      obtain e p1 where one: "put t p = (e, p1)" by fastforce
      show ?thesis
      proof (cases e)
        case None
        then have "open_jobs put j outs (r\<lparr>OpenedTunnels := Suc (OpenedTunnels r)\<rparr>) p1 = (r', p')"
          using Cons.prems Suc TunnelOpened one by simp
        from Cons.IH [OF this] show ?thesis using exact [of t p p1] one None Suc by auto
      next
        case (Some err)
        then have "open_jobs put j outs (open_failure err r) p1 = (r', p')"
          using Cons.prems Suc TunnelOpened one by simp
        from Cons.IH [OF this] show ?thesis
          using refused [of t p err p1] one Some Suc
          by (auto simp: open_failure_def split: option.splits)
      qed
    qed
  qed (use Cons.prems in auto)
qed

end

lemma open_jobs_keeps:
  assumes "\<And>t p. I p \<Longrightarrow> I (snd (handler t p))"
  shows "I p \<Longrightarrow> I (snd (open_jobs handler jobs outs r p))"
proof (induction outs arbitrary: jobs r p)
  case (Cons out outs)
  show ?case
  proof (cases jobs)
    case (Suc j)
    then show ?thesis
      using Cons assms by (cases out) (simp_all add: case_prod_unfold Let_def)
  qed (use Cons.prems in simp)
next
  case Nil
  then show ?case by (cases jobs) simp_all
qed

definition order_length :: "tunnel_manager \<Rightarrow> nat" where
  "order_length m = length (idleOrder (mgr_registry m))"

interpretation agent_pool: counting_pool pool_handler order_length
  by unfold_locales
    (auto simp: pool_handler_def at_now_def try_add_opened_as_idle_def order_length_def Let_def
      split: if_splits)

lemma pool_handler_keeps:
  assumes "agent_inv (mgr_registry m) \<and> mgr_config m = c \<and> suspendRefill m = b"
  shows "agent_inv (mgr_registry (snd (pool_handler t m))) \<and> mgr_config (snd (pool_handler t m)) = c
    \<and> suspendRefill (snd (pool_handler t m)) = b"
  using assms agent_inv_add [of "mgr_registry m" "nowFn m (clockReads m)" t "MaxIdle (mgr_config m)"]
  by (auto simp: pool_handler_def at_now_def case_prod_unfold Let_def split: option.split)

text \<open>The sweep and the trimming: the registry stays sound, the configuration as it was.\<close>

definition keeps :: "tunnel_manager \<Rightarrow> tunnel_manager \<Rightarrow> bool" where
  "keeps m m' \<longleftrightarrow> (agent_inv (mgr_registry m) \<longrightarrow> agent_inv (mgr_registry m'))
     \<and> mgr_config m' = mgr_config m \<and> suspendRefill m' = suspendRefill m"

lemma keeps_refl [simp]: "keeps m m" by (simp add: keeps_def)

lemma keeps_trans: "keeps m m1 \<Longrightarrow> keeps m1 m2 \<Longrightarrow> keeps m m2" by (simp add: keeps_def)

lemma keeps_with_registry:
  "(\<And>reg. agent_inv reg \<Longrightarrow> agent_inv (snd (op reg))) \<Longrightarrow> keeps m (snd (with_registry op m))"
  by (simp add: keeps_def with_registry_def case_prod_unfold Let_def)

lemma keeps_close: "keeps m (snd (close_tunnel ce t m))"
  by (simp add: keeps_def close_tunnel_def)

lemma keeps_remove_closed: "keeps m (snd (remove_closed_only wall i m))"
  by (auto simp: keeps_def remove_closed_only_def Let_def case_prod_unfold agent_inv_remove split: option.split)

lemma keeps_marks:
  "keeps m (snd (with_registry (mark_closing now i) m))"
  "keeps m (snd (with_registry (mark_closed now i) m))"
  by (auto intro!: keeps_with_registry simp: mark_closing_def mark_closed_def agent_inv_transition)

lemma keeps_sweep_one: "keeps m (snd (sweep_one now wall ce i res m))"
proof (cases "get_record i (mgr_registry m)")
  case (Some r)
  obtain e1 m1 where one: "with_registry (mark_closing now i) m = (e1, m1)" by fastforce
  obtain m2 where two: "close_tunnel ce (ar_tunnel r) m1 = (ce (ar_tunnel r), m2)"
    by (simp add: close_tunnel_def)
  obtain e3 m3 where three: "with_registry (mark_closed now i) m2 = (e3, m3)" by fastforce
  obtain e4 m4 where four: "remove_closed_only wall i m3 = (e4, m4)" by fastforce
  have k1: "keeps m m1" using keeps_marks(1) [of m now i] one by simp
  have k2: "keeps m m2" using keeps_trans [OF k1 keeps_close [of m1 ce "ar_tunnel r"]] two by simp
  have k3: "keeps m m3" using keeps_trans [OF k2 keeps_marks(2) [of m2 now i]] three by simp
  have k4: "keeps m m4" using keeps_trans [OF k3 keeps_remove_closed [of m3 wall i]] four by simp
  show ?thesis
    using k1 k3 k4 Some by (simp add: sweep_one_def one two three four Let_def split: option.split sum.split)
qed (simp add: sweep_one_def)

lemma keeps_sweep: "keeps m (snd (ttl_sweep wall ce m))"
proof -
  have ids: "keeps m (snd (sweep_ids now wall ce ids res m))" for now ids res m
    by (induction ids arbitrary: res m)
      (simp_all add: case_prod_unfold Let_def, metis keeps_sweep_one keeps_trans)
  show ?thesis
    using ids by (simp add: ttl_sweep_def Let_def keeps_def)
qed

lemma drop_distinct: "distinct q \<Longrightarrow> filter (\<lambda>i. i \<notin> set (take k q)) q = drop k q"
proof (induction q arbitrary: k)
  case (Cons x q)
  show ?case
  proof (cases k)
    case (Suc j)
    have "filter (\<lambda>i. i \<noteq> x \<and> i \<notin> set (take j q)) q = filter (\<lambda>i. i \<notin> set (take j q)) q"
      using Cons.prems by (intro filter_cong) auto
    then show ?thesis using Cons Suc by simp
  qed simp
qed simp

lemma trim_ids_effect:
  "agent_inv (mgr_registry m) \<Longrightarrow> distinct ids \<Longrightarrow> set ids \<subseteq> set (idleOrder (mgr_registry m)) \<Longrightarrow>
   trim_ids wall (\<lambda>t. None) ids n m = ((n', e), m') \<Longrightarrow>
     e = None \<and> keeps m m'
     \<and> idleOrder (mgr_registry m') = filter (\<lambda>i. i \<notin> set ids) (idleOrder (mgr_registry m))"
proof (induction ids arbitrary: n m)
  case (Cons i ids)
  obtain r where r: "map_of (records (mgr_registry m)) i = Some r" "live r"
    using Cons.prems(3) agent_inv_mem [OF Cons.prems(1), of i] by (auto simp: is_idle_def live_def)
  obtain e1 m1 where one: "close_and_remove wall (\<lambda>t. None) i False ''trim'' m = (e1, m1)" by fastforce
  note effect = close_and_remove_live [OF Cons.prems(1) r one]
  have inv: "agent_inv (mgr_registry m1)" by (rule close_and_remove_inv [OF Cons.prems(1) r one])
  have "e = None \<and> keeps m1 m'
      \<and> idleOrder (mgr_registry m') = filter (\<lambda>i. i \<notin> set ids) (idleOrder (mgr_registry m1))"
    using Cons.prems effect(1,3) one by (intro Cons.IH [of m1 "Suc n"] inv) auto
  then show ?case using effect inv by (auto simp: keeps_def intro: filter_cong)
qed simp

lemma mgr_idle_count_order: "agent_inv (mgr_registry m) \<Longrightarrow> mgr_idle_count m = int (order_length m)"
  by (simp add: mgr_idle_count_def registry_snapshot_def count_idle order_length_def)

lemma trim_excess_effect:
  assumes inv: "agent_inv (mgr_registry m)" and max: "0 \<le> MaxIdle (mgr_config m)"
    and run: "trim_excess_idle wall (\<lambda>t. None) m = ((n, e), m')"
  shows "e = None \<and> keeps m m' \<and> int (order_length m') \<le> MaxIdle (mgr_config m)"
proof (cases "int (order_length m) \<le> MaxIdle (mgr_config m)")
  case True
  then show ?thesis
    using run by (auto simp: trim_excess_idle_def Let_def mgr_idle_count_order [OF inv])
next
  case False
  let ?k = "nat (int (order_length m) - MaxIdle (mgr_config m))"
  have q: "distinct (idleOrder (mgr_registry m))"
    using agent_inv_index [OF inv] by (simp add: idle_index_def)
  have "trim_ids wall (\<lambda>t. None) (take ?k (idleOrder (mgr_registry m))) 0 m = ((n, e), m')"
    using False run
    by (simp add: trim_excess_idle_def Let_def mgr_idle_count_order [OF inv] idle_ids_order [OF inv])
  from trim_ids_effect [OF inv _ _ this] have "e = None \<and> keeps m m'
      \<and> idleOrder (mgr_registry m') = drop ?k (idleOrder (mgr_registry m))"
    using q by (simp add: drop_distinct set_take_subset)
  then show ?thesis using False max by (simp add: order_length_def)
qed

lemma if_InrD: "(if b then Inl e else x) = Inr c \<Longrightarrow> \<not> b \<and> x = Inr c"
  by (simp split: if_splits)

lemma normalized_bounds:
  "normalize_manager_config c0 = Inr c \<Longrightarrow> 0 \<le> MinIdle c \<and> MinIdle c \<le> MaxIdle c \<and> 0 < MaxIdle c"
  unfolding normalize_manager_config_def Let_def
  by (auto dest!: if_InrD split del: if_split) (simp_all add: default_manager_config_def split: if_splits)

lemma compute_target_bounds:
  assumes "0 \<le> MinIdle (mgr_config m)" and "MinIdle (mgr_config m) \<le> MaxIdle (mgr_config m)"
  shows "snd (compute_target_idle m) \<le> MaxIdle (mgr_config m)
    \<and> (suspendRefill m \<longrightarrow> snd (compute_target_idle m) = 0)
    \<and> (\<not> suspendRefill m \<longrightarrow> MinIdle (mgr_config m) \<le> snd (compute_target_idle m))"
  using assms by (auto simp: compute_target_idle_def mgr_clamp_target_idle_def Let_def)

lemma clear_pending_fields [simp]:
  "mgr_registry (clear_pending_if_satisfied k m) = mgr_registry m"
  by (simp add: clear_pending_if_satisfied_def)

text \<open>
  A reconcile round keeps the pool within its bounds: with closings that succeed, no more than
  the maximum of idle tunnels is left, whatever was there before and whatever the opener
  delivers; while refilling is suspended nothing is opened; and otherwise, when no opening
  fails, at least the minimum of idle tunnels is there afterwards.
\<close>

theorem reconcile_keeps_bounds:
  assumes "mgr_registry m = fold registry_exec calls new_registry"
    and "normalize_manager_config c0 = Inr (mgr_config m)"
    and "MaxIdle (mgr_config m) \<le> int (length outs)"
    and "reconcile_now wall (\<lambda>t. None) outs trigger m = ((res, e), m')"
  shows "mgr_idle_count m' \<le> MaxIdle (mgr_config m)
    \<and> (suspendRefill m \<longrightarrow> OpenedTunnels (Produced res) = 0)
    \<and> (\<not> suspendRefill m \<and> FirstError (Produced res) = None
         \<longrightarrow> MinIdle (mgr_config m) \<le> mgr_idle_count m')"
proof -
  let ?c = "mgr_config m"
  note bounds = normalized_bounds [OF assms(2)]
  obtain sweep m1 where sweep: "ttl_sweep wall (\<lambda>t. None) m = (sweep, m1)" by fastforce
  define m2 where "m2 = note_sweep sweep m1"
  have "agent_inv (mgr_registry m)"
    using agent_lease.ok_run [OF agent_inv_new, of calls] assms(1) by simp
  then have m2: "agent_inv (mgr_registry m2) \<and> mgr_config m2 = ?c \<and> suspendRefill m2 = suspendRefill m"
    using keeps_sweep [of m wall "\<lambda>t. None"] sweep by (simp add: keeps_def m2_def note_sweep_def)
  obtain n te m3 where trim: "trim_excess_idle wall (\<lambda>t. None) m2 = ((n, te), m3)"
    by (metis prod.collapse)
  have m3: "te = None \<and> agent_inv (mgr_registry m3) \<and> mgr_config m3 = ?c
      \<and> suspendRefill m3 = suspendRefill m \<and> int (order_length m3) \<le> MaxIdle ?c"
    using trim_excess_effect [OF _ _ trim] m2 bounds by (simp add: keeps_def)
  define need where "need = snd (compute_target_idle m3) - mgr_idle_count m3"
  have target: "snd (compute_target_idle m3) \<le> MaxIdle ?c
      \<and> (suspendRefill m \<longrightarrow> snd (compute_target_idle m3) = 0)
      \<and> (\<not> suspendRefill m \<longrightarrow> MinIdle ?c \<le> snd (compute_target_idle m3))"
    using compute_target_bounds [of m3] m3 bounds by simp
  have "\<exists>r0 why. reconcile_open outs why r0 m3 = ((res, e), m') \<and> Produced r0 = no_production"
    using assms(4) sweep trim m3 by (force simp: reconcile_now_def m2_def)
  then obtain r0 why where half: "reconcile_open outs why r0 m3 = ((res, e), m')"
    and none: "Produced r0 = no_production"
    by blast
  have idle3: "mgr_idle_count m3 = int (order_length m3)" using m3 mgr_idle_count_order by blast
  show ?thesis
  proof (cases "need \<le> 0")
    case True
    then have "mgr_registry m' = mgr_registry m3 \<and> OpenedTunnels (Produced res) = 0"
      using half none by (auto simp: reconcile_open_def need_def no_production_def Let_def case_prod_unfold)
    then show ?thesis
      using True m3 target idle3 by (auto simp: need_def mgr_idle_count_def)
  next
    case False
    obtain pr m4 where open_: "open_batch pool_handler need outs m3 = (pr, m4)" by fastforce
    have end_: "mgr_registry m' = mgr_registry m4 \<and> Produced res = pr"
      using half False open_ by (auto simp: reconcile_open_def need_def Let_def case_prod_unfold)
    have "agent_inv (mgr_registry m4)"
      using open_jobs_keeps [of "\<lambda>m. agent_inv (mgr_registry m) \<and> mgr_config m = ?c
            \<and> suspendRefill m = suspendRefill m3" pool_handler m3] pool_handler_keeps m3 open_
      by (metis open_batch_def snd_conv)
    then have idle': "mgr_idle_count m' = int (order_length m4)"
      using mgr_idle_count_order [of m4] end_ by (simp add: mgr_idle_count_def)
    note jobs = agent_pool.open_jobs_exact [OF open_ [unfolded open_batch_def]]
    have "\<not> suspendRefill m" using False target idle3 by (auto simp: need_def)
    moreover have "int (order_length m4) \<le> snd (compute_target_idle m3)"
      using jobs False idle3 unfolding need_def by linarith
    moreover have "FirstError pr = None \<longrightarrow> int (order_length m4) = snd (compute_target_idle m3)"
      using jobs False idle3 target assms(3) unfolding need_def by linarith
    ultimately show ?thesis using target end_ idle' by simp
  qed
qed

theorem reconcile_keeps_bounds_witness:
  "let m = sample_manager (fold registry_exec [sample_add] new_registry);
       m' = snd (reconcile_now 9 (\<lambda>t. None) (replicate 32 (OpenFailed ErrTimeout)) ''periodic'' m)
   in mgr_config m = default_manager_config\<lparr>MinIdle := 1\<rparr> \<and> mgr_idle_count m' \<le> 32"
proof -
  let ?m = "sample_manager (fold registry_exec [sample_add] new_registry)"
  let ?outs = "replicate 32 (OpenFailed ErrTimeout)"
  obtain res e m' where run: "reconcile_now 9 (\<lambda>t. None) ?outs ''periodic'' ?m = ((res, e), m')"
    by (metis prod.collapse)
  have c: "mgr_config ?m = default_manager_config\<lparr>MinIdle := 1\<rparr>" by (simp add: sample_manager_def)
  have "normalize_manager_config (mgr_config ?m) = Inr (mgr_config ?m)"
    unfolding c
    by (simp add: normalize_manager_config_def default_manager_config_def minute_def second_def Let_def)
  moreover have max: "MaxIdle (mgr_config ?m) = 32"
    unfolding c by (simp add: default_manager_config_def)
  then have "MaxIdle (mgr_config ?m) \<le> int (length ?outs)" by simp
  ultimately have "mgr_idle_count m' \<le> 32"
    using reconcile_keeps_bounds [OF _ _ _ run, of "[sample_add]"] max
    by (metis sample_manager_def tunnel_manager.select_convs(2))
  then show ?thesis using c run by (simp only: Let_def snd_conv)
qed

end
