(* ===== verification/Token_Store.thy ===== *)
theory Token_Store
  imports Protocol_Types "HOL-Library.List_Lexorder" "HOL-Library.Char_ord" "HOL-Library.Multiset"
begin

text \<open>
  Connector tokens (\<open>cloud-bridge/runtime/bridge/auth\<close>): the records and their normalisation, the
  text form of a token, the store in memory (\<open>connector_token.go\<close>), the store in a file
  (\<open>token_store_file.go\<close>) and the administration of tokens (\<open>token_admin.go\<close>).

  Hashing a secret (argon2id with a random salt) and comparing a secret with a hash are arguments:
  \<open>hash\<close> and \<open>verify\<close>. YAML and the file system are not modelled beyond what they do for the store:
  the content of the file is the list of persisted records, and each access may fail as a whole.
\<close>

section \<open>Records\<close>

datatype token_status =
    TokenActive
  | TokenGrace
  | TokenRevoked
  | TokenExpired
  | TokenStatusOther string

type_synonym token_metadata = "(string \<times> string) list"

record token_record =
  tk_id :: string
  tk_connector :: string
  tk_hash :: string
  tk_algorithm :: string
  tk_version :: string
  tk_status :: token_status
  tk_issued :: gotime
  tk_expires :: gotime
  tk_rotated :: gotime
  tk_metadata :: token_metadata

type_synonym token_map = "(string, token_record) gomap"

definition is_token_char :: "char \<Rightarrow> bool" where
  "is_token_char c \<longleftrightarrow> (let n = of_char c :: nat in 48 \<le> n \<and> n \<le> 57 \<or> 97 \<le> n \<and> n \<le> 122 \<or> 65 \<le> n \<and> n \<le> 90 \<or> n = 95 \<or> n = 45)"

definition is_valid_token_id :: "string \<Rightarrow> bool" where
  "is_valid_token_id i \<longleftrightarrow> trim_space i \<noteq> [] \<and> list_all is_token_char i"

text \<open>An unknown status becomes the empty one.\<close>

definition normalize_token_status :: "token_status \<Rightarrow> token_status" where
  "normalize_token_status s =
     (case s of
        TokenStatusOther raw \<Rightarrow>
          (let t = to_lower (trim_space raw)
           in if t = ''active'' then TokenActive
              else if t = ''grace'' then TokenGrace
              else if t = ''revoked'' then TokenRevoked
              else if t = ''expired'' then TokenExpired
              else TokenStatusOther [])
      | known \<Rightarrow> known)"

definition normalize_token_metadata :: "token_metadata \<Rightarrow> token_metadata" where
  "normalize_token_metadata m =
     fold (\<lambda>(k, v) acc. if trim_space k = [] then acc else map_put (trim_space k) (trim_space v) acc) m []"

definition normalize_token_record :: "token_record \<Rightarrow> token_record option" where
  "normalize_token_record r =
     (let i = trim_space (tk_id r); h = trim_space (tk_hash r)
      in if i = [] \<or> \<not> is_valid_token_id i then None
         else if h = [] then None
         else Some \<lparr>tk_id = i, tk_connector = trim_space (tk_connector r), tk_hash = h,
                    tk_algorithm = trim_space (tk_algorithm r), tk_version = trim_space (tk_version r),
                    tk_status = normalize_token_status (tk_status r), tk_issued = tk_issued r, tk_expires = tk_expires r,
                    tk_rotated = tk_rotated r, tk_metadata = normalize_token_metadata (tk_metadata r)\<rparr>)"

text \<open>The loop over the records, with the identifiers that it has seen.\<close>

fun normalize_token_loop :: "token_record list \<Rightarrow> string list \<Rightarrow> string + token_record list" where
  "normalize_token_loop [] present = Inr []"
| "normalize_token_loop (r # rs) present =
     (case normalize_token_record r of
        None \<Rightarrow> Inl ''invalid connector token record''
      | Some n \<Rightarrow>
          if tk_id n \<in> set present then Inl ''duplicate connector token record''
          else case normalize_token_loop rs (tk_id n # present) of
                 Inl e \<Rightarrow> Inl e | Inr ns \<Rightarrow> Inr (n # ns))"

definition normalize_token_record_set :: "token_record list \<Rightarrow> string + token_record list" where
  "normalize_token_record_set rs =
     (case normalize_token_loop rs [] of Inl e \<Rightarrow> Inl e | Inr ns \<Rightarrow> Inr (sort_key tk_id ns))"

definition token_slice_to_map :: "token_record list \<Rightarrow> token_map" where
  "token_slice_to_map rs = fold (\<lambda>r m. map_put (tk_id r) r m) rs []"

definition sorted_token_records :: "token_map \<Rightarrow> token_record list" where
  "sorted_token_records m = sort_key tk_id (map snd m)"


section \<open>The text of a token\<close>

text \<open>\<open>strings.Cut\<close> at the first dot.\<close>

definition cut_dot :: "string \<Rightarrow> (string \<times> string) option" where
  "cut_dot s = (if CHR ''.'' \<in> set s
     then Some (takeWhile (\<lambda>c. c \<noteq> CHR ''.'') s, tl (dropWhile (\<lambda>c. c \<noteq> CHR ''.'') s)) else None)"

definition parse_connector_token :: "string \<Rightarrow> (string \<times> string) option" where
  "parse_connector_token raw =
     (let t = trim_space raw
      in if take 4 t \<noteq> ''dbt_'' then None
         else case cut_dot (drop 4 t) of
                None \<Rightarrow> None
              | Some (i0, s0) \<Rightarrow>
                  let i = trim_space i0; s = trim_space s0
                  in if i = [] \<or> s = [] then None
                     else if \<not> is_valid_token_id i then None else Some (i, s))"

definition build_connector_plaintext_token :: "string \<Rightarrow> string \<Rightarrow> string" where
  "build_connector_plaintext_token i s = ''dbt_'' @ i @ ''.'' @ s"


section \<open>The store in memory\<close>

definition mem_lookup :: "string \<Rightarrow> token_map \<Rightarrow> token_record option" where
  "mem_lookup raw m = (let i = trim_space raw in if i = [] then None else map_of m i)"

definition new_mem_store :: "token_record list \<Rightarrow> string + token_map" where
  "new_mem_store rs = (case normalize_token_record_set rs of Inl e \<Rightarrow> Inl e | Inr ns \<Rightarrow> Inr (token_slice_to_map ns))"

definition mem_upsert :: "token_record \<Rightarrow> token_map \<Rightarrow> string option \<times> token_map" where
  "mem_upsert r m =
     (case normalize_token_record r of
        None \<Rightarrow> (Some ''upsert connector token record: invalid token record'', m)
      | Some n \<Rightarrow> (None, map_put (tk_id n) n m))"

definition mem_delete :: "string \<Rightarrow> token_map \<Rightarrow> string option \<times> token_map" where
  "mem_delete raw m = (let i = trim_space raw in if i = [] then (None, m) else (None, map_del i m))"

definition mem_replace_all :: "token_record list \<Rightarrow> token_map \<Rightarrow> string option \<times> token_map" where
  "mem_replace_all rs m =
     (case normalize_token_record_set rs of
        Inl e \<Rightarrow> (Some (''replace all connector token records: '' @ e), m)
      | Inr ns \<Rightarrow> (None, token_slice_to_map ns))"


section \<open>The store in a file\<close>

text \<open>\<open>None\<close>: no file, or an empty one.\<close>

record token_file =
  tf_version :: int
  tf_tokens :: "token_record list"

record file_store =
  fs_map :: token_map
  fs_disk :: "token_file option"

text \<open>\<open>fault\<close>: reading or decoding the file fails.\<close>

definition load_token_file :: "bool \<Rightarrow> token_file option \<Rightarrow> string + token_map" where
  "load_token_file fault disk =
     (if fault then Inl ''load connector token store file''
      else case disk of
             None \<Rightarrow> Inr []
           | Some f \<Rightarrow>
               if tf_version f \<noteq> 0 \<and> tf_version f \<noteq> 1 then Inl ''load connector token store file: unsupported version''
               else case normalize_token_loop (tf_tokens f) [] of
                      Inl e \<Rightarrow> Inl (''load connector token store file: '' @ e)
                    | Inr ns \<Rightarrow> Inr (token_slice_to_map ns))"

definition new_file_store :: "bool \<Rightarrow> token_file option \<Rightarrow> string + file_store" where
  "new_file_store fault disk =
     (case load_token_file fault disk of Inl e \<Rightarrow> Inl e | Inr m \<Rightarrow> Inr \<lparr>fs_map = m, fs_disk = disk\<rparr>)"

text \<open>
  The new content is written to a temporary file that replaces the old one as the last step, so that
  a failure leaves the old content.
\<close>

definition persist_token_records :: "bool \<Rightarrow> token_record list \<Rightarrow> token_file option \<Rightarrow> string option \<times> token_file option" where
  "persist_token_records fault rs disk =
     (case normalize_token_record_set rs of
        Inl e \<Rightarrow> (Some (''persist connector token store file: '' @ e), disk)
      | Inr ns \<Rightarrow> if fault then (Some ''persist connector token store file'', disk)
                   else (None, Some \<lparr>tf_version = 1, tf_tokens = ns\<rparr>))"

definition commit_file_store :: "bool \<Rightarrow> token_record list \<Rightarrow> file_store \<Rightarrow> string option \<times> file_store" where
  "commit_file_store fault rs s =
     (case persist_token_records fault rs (fs_disk s) of
        (Some e, disk) \<Rightarrow> (Some e, s\<lparr>fs_disk := disk\<rparr>)
      | (None, disk) \<Rightarrow> (None, \<lparr>fs_map = token_slice_to_map rs, fs_disk = disk\<rparr>))"

definition file_lookup :: "string \<Rightarrow> file_store \<Rightarrow> token_record option" where
  "file_lookup raw s = (let i = trim_space raw in if i = [] then None else map_of (fs_map s) i)"

text \<open>The first record with the identifier is replaced; without one the record is appended.\<close>

fun replace_record :: "token_record \<Rightarrow> token_record list \<Rightarrow> token_record list" where
  "replace_record n [] = [n]"
| "replace_record n (r # rs) = (if tk_id r = tk_id n then n # rs else r # replace_record n rs)"

definition file_upsert :: "bool \<Rightarrow> token_record \<Rightarrow> file_store \<Rightarrow> string option \<times> file_store" where
  "file_upsert fault r s =
     (case normalize_token_record r of
        None \<Rightarrow> (Some ''upsert connector token record: invalid token record'', s)
      | Some n \<Rightarrow> commit_file_store fault (replace_record n (sorted_token_records (fs_map s))) s)"

definition file_delete :: "bool \<Rightarrow> string \<Rightarrow> file_store \<Rightarrow> string option \<times> file_store" where
  "file_delete fault raw s =
     (let i = trim_space raw
      in if i = [] then (None, s)
         else commit_file_store fault (filter (\<lambda>r. tk_id r \<noteq> i) (sorted_token_records (fs_map s))) s)"

definition file_replace_all :: "bool \<Rightarrow> token_record list \<Rightarrow> file_store \<Rightarrow> string option \<times> file_store" where
  "file_replace_all fault rs s =
     (case normalize_token_record_set rs of
        Inl e \<Rightarrow> (Some (''replace all connector token records: '' @ e), s)
      | Inr ns \<Rightarrow> commit_file_store fault ns s)"

definition file_save :: "bool \<Rightarrow> file_store \<Rightarrow> string option \<times> file_store" where
  "file_save fault s =
     (let (e, disk) = persist_token_records fault (sorted_token_records (fs_map s)) (fs_disk s) in (e, s\<lparr>fs_disk := disk\<rparr>))"

definition file_reload :: "bool \<Rightarrow> file_store \<Rightarrow> string option \<times> file_store" where
  "file_reload fault s =
     (case load_token_file fault (fs_disk s) of Inl e \<Rightarrow> (Some e, s) | Inr m \<Rightarrow> (None, s\<lparr>fs_map := m\<rparr>))"


section \<open>Normal records\<close>

lemma fold_map_put_new:
  "distinct (map fst xs) \<Longrightarrow> fst ` set xs \<inter> fst ` set acc = {} \<Longrightarrow> fold (\<lambda>(k, v). map_put k v) xs acc = acc @ xs"
proof (induction xs arbitrary: acc)
  case (Cons x xs)
  obtain k v where x: "x = (k, v)" by fastforce
  have "map_put k v acc = acc @ [(k, v)]"
    using Cons.prems(2) x by (induction acc) auto
  then show ?case using Cons x by auto
qed simp

lemma normal_metadata_keys:
  defines "ok \<equiv> \<lambda>m :: token_metadata. keys_distinct m \<and> (\<forall>(k, v) \<in> set m. k \<noteq> [] \<and> trim_space k = k \<and> trim_space v = v)"
  shows "ok (normalize_token_metadata m)"
proof -
  have "ok (if trim_space k = [] then acc else map_put (trim_space k) (trim_space v) acc)" if "ok acc" for k v acc
    using that by (auto simp: ok_def dest!: set_map_put)
  then have "ok acc \<Longrightarrow> ok (fold (\<lambda>(k, v) acc. if trim_space k = [] then acc else map_put (trim_space k) (trim_space v) acc) xs acc)" for xs acc
    by (induction xs arbitrary: acc) (auto simp del: if_split)
  from this [of "[]" m] have "ok (normalize_token_metadata m)" by (simp add: normalize_token_metadata_def ok_def)
  then show ?thesis .
qed

lemma normal_metadata_idem [simp]: "normalize_token_metadata (normalize_token_metadata m) = normalize_token_metadata m"
proof -
  let ?m = "normalize_token_metadata m"
  have "fold (\<lambda>(k, v) acc. if trim_space k = [] then acc else map_put (trim_space k) (trim_space v) acc) ?m []
      = fold (\<lambda>(k, v). map_put k v) ?m []"
    using normal_metadata_keys [of m] by (intro fold_cong) auto
  then show ?thesis
    using normal_metadata_keys [of m] fold_map_put_new [of ?m "[]"] by (simp add: normalize_token_metadata_def [of ?m])
qed

lemma normal_status_idem [simp]: "normalize_token_status (normalize_token_status s) = normalize_token_status s"
  by (auto simp: normalize_token_status_def Let_def split: token_status.splits)

lemma normalize_token_idem: "normalize_token_record r = Some n \<Longrightarrow> normalize_token_record n = Some n"
  by (auto simp: normalize_token_record_def Let_def split: if_splits)

lemma normalize_token_fields:
  "normalize_token_record r = Some n \<Longrightarrow> tk_id n = trim_space (tk_id r) \<and> tk_connector n = trim_space (tk_connector r)
     \<and> tk_hash n = trim_space (tk_hash r) \<and> tk_status n = normalize_token_status (tk_status r) \<and> tk_expires n = tk_expires r
     \<and> tk_id n \<noteq> [] \<and> trim_space (tk_id n) = tk_id n \<and> is_valid_token_id (tk_id n)"
  by (auto simp: normalize_token_record_def Let_def split: if_splits)

definition normal_record :: "token_record \<Rightarrow> bool" where
  "normal_record r \<longleftrightarrow> normalize_token_record r = Some r"

lemma normalize_loop_result:
  "normalize_token_loop rs present = Inr ns \<Longrightarrow>
     map normalize_token_record rs = map Some ns \<and> list_all normal_record ns \<and> distinct (map tk_id ns)
     \<and> set (map tk_id ns) \<inter> set present = {}"
proof (induction rs present arbitrary: ns rule: normalize_token_loop.induct)
  case (2 r rs present)
  then obtain n ns' where n: "normalize_token_record r = Some n" "tk_id n \<notin> set present"
      "normalize_token_loop rs (tk_id n # present) = Inr ns'" "ns = n # ns'"
    by (auto split: option.splits if_splits sum.splits)
  with "2.IH" [OF n(1,2,3)] normalize_token_idem [OF n(1)] show ?case by (auto simp: normal_record_def)
qed simp

lemma normalize_loop_normal:
  "list_all normal_record rs \<Longrightarrow> distinct (map tk_id rs) \<Longrightarrow> set (map tk_id rs) \<inter> set present = {} \<Longrightarrow>
   normalize_token_loop rs present = Inr rs"
  by (induction rs arbitrary: present) (auto simp: normal_record_def)

lemma normalize_set_result:
  assumes "normalize_token_record_set rs = Inr ns"
  shows "list_all normal_record ns" and "distinct (map tk_id ns)"
    and "\<And>n. n \<in> set ns \<longleftrightarrow> (\<exists>r \<in> set rs. normalize_token_record r = Some n)"
proof -
  obtain ms where loop: "normalize_token_loop rs [] = Inr ms" and ns: "ns = sort_key tk_id ms"
    using assms by (auto simp: normalize_token_record_set_def split: sum.splits)
  note res = normalize_loop_result [OF loop]
  show "list_all normal_record ns" using res by (simp add: ns list_all_iff)
  have "mset (map tk_id ns) = mset (map tk_id ms)" by (simp add: ns)
  then show "distinct (map tk_id ns)" using res by (metis mset_eq_imp_distinct_iff)
  have "Some ` set ms = normalize_token_record ` set rs" using res by (metis list.set_map)
  then have "Some n \<in> Some ` set ms \<longleftrightarrow> Some n \<in> normalize_token_record ` set rs" for n by simp
  then show "n \<in> set ns \<longleftrightarrow> (\<exists>r \<in> set rs. normalize_token_record r = Some n)" for n
    by (auto simp: ns image_iff) force
qed

lemma normalize_set_normal:
  assumes "list_all normal_record rs" "distinct (map tk_id rs)"
  shows "normalize_token_record_set rs = Inr (sort_key tk_id rs)"
  using normalize_loop_normal [OF assms, of "[]"] by (simp add: normalize_token_record_set_def)

lemma token_slice_entries: "distinct (map tk_id rs) \<Longrightarrow> token_slice_to_map rs = map (\<lambda>r. (tk_id r, r)) rs"
  using fold_map_put_new [of "map (\<lambda>r. (tk_id r, r)) rs" "[]"] by (simp add: token_slice_to_map_def fold_map comp_def)

lemma token_slice_lookup:
  "distinct (map tk_id rs) \<Longrightarrow> map_of (token_slice_to_map rs) i = Some r \<longleftrightarrow> r \<in> set rs \<and> tk_id r = i"
  by (auto simp: token_slice_entries comp_def)

definition tokens_inv :: "token_map \<Rightarrow> bool" where
  "tokens_inv m \<longleftrightarrow> keys_distinct m \<and> (\<forall>(k, r) \<in> set m. tk_id r = k \<and> normal_record r)"

lemma tokens_inv_slice: "list_all normal_record rs \<Longrightarrow> distinct (map tk_id rs) \<Longrightarrow> tokens_inv (token_slice_to_map rs)"
  by (auto simp: tokens_inv_def token_slice_entries comp_def list_all_iff)

lemma sorted_token_records:
  assumes "tokens_inv m"
  shows "list_all normal_record (sorted_token_records m)" and "distinct (map tk_id (sorted_token_records m))"
    and "r \<in> set (sorted_token_records m) \<longleftrightarrow> map_of m (tk_id r) = Some r"
proof -
  have keys: "map tk_id (map snd m) = map fst m" using assms by (auto simp: tokens_inv_def)
  show "list_all normal_record (sorted_token_records m)" using assms by (auto simp: tokens_inv_def sorted_token_records_def list_all_iff)
  have "mset (map tk_id (sorted_token_records m)) = mset (map fst m)" 
    unfolding keys [symmetric] sorted_token_records_def by (simp add: multiset.map_comp)
  then show "distinct (map tk_id (sorted_token_records m))" using assms by (metis mset_eq_imp_distinct_iff tokens_inv_def)
  show "r \<in> set (sorted_token_records m) \<longleftrightarrow> map_of m (tk_id r) = Some r"
    using assms by (force simp: tokens_inv_def sorted_token_records_def)
qed


section \<open>The interface of a store\<close>

text \<open>
  What both stores promise, each operation with an environment \<open>e\<close> that says whether the write
  fails. A failure leaves the store as it is.
\<close>

locale token_store =
  fixes lookup :: "string \<Rightarrow> 's \<Rightarrow> token_record option"
    and listing :: "'s \<Rightarrow> token_record list"
    and upsert :: "'e \<Rightarrow> token_record \<Rightarrow> 's \<Rightarrow> string option \<times> 's"
    and replace_all :: "'e \<Rightarrow> token_record list \<Rightarrow> 's \<Rightarrow> string option \<times> 's"
    and store_inv :: "'s \<Rightarrow> bool"
  assumes lookup_trim: "lookup (trim_space i) s = lookup i s"
    and lookup_normal: "store_inv s \<Longrightarrow> lookup i s = Some r \<Longrightarrow> tk_id r = trim_space i \<and> normal_record r"
    and listing_exact: "store_inv s \<Longrightarrow> r \<in> set (listing s) \<longleftrightarrow> lookup (tk_id r) s = Some r"
    and listing_distinct: "store_inv s \<Longrightarrow> distinct (map tk_id (listing s))"
    and upsert_exact: "store_inv s \<Longrightarrow> upsert e r s = (None, s') \<Longrightarrow>
      \<exists>n. normalize_token_record r = Some n \<and> store_inv s'
        \<and> (\<forall>i. lookup i s' = (if trim_space i = tk_id n then Some n else lookup i s))"
    and upsert_failed: "upsert e r s = (Some err, s') \<Longrightarrow> s' = s"
    and replace_exact: "store_inv s \<Longrightarrow> replace_all e rs s = (None, s') \<Longrightarrow>
      \<exists>ns. normalize_token_record_set rs = Inr ns \<and> store_inv s'
        \<and> (\<forall>i r. lookup i s' = Some r \<longleftrightarrow> r \<in> set ns \<and> tk_id r = trim_space i)"
    and replace_failed: "replace_all e rs s = (Some err, s') \<Longrightarrow> s' = s"

lemma mem_lookup_Some: "mem_lookup i m = Some r \<longleftrightarrow> trim_space i \<noteq> [] \<and> map_of m (trim_space i) = Some r"
  by (simp add: mem_lookup_def Let_def)

lemma tokens_inv_lookup:
  assumes "tokens_inv m" "map_of m i = Some r"
  shows "tk_id r = i \<and> normal_record r \<and> i \<noteq> [] \<and> trim_space i = i"
proof -
  have "(i, r) \<in> set m" using assms(2) by (rule map_of_SomeD)
  then have r: "tk_id r = i" "normal_record r" using assms(1) by (auto simp: tokens_inv_def)
  with normalize_token_fields [of r r] show ?thesis by (simp add: normal_record_def)
qed

lemma tokens_inv_put: "tokens_inv m \<Longrightarrow> normal_record n \<Longrightarrow> tokens_inv (map_put (tk_id n) n m)"
  by (auto simp: tokens_inv_def dest!: set_map_put)

interpretation mem: token_store mem_lookup sorted_token_records "\<lambda>e :: unit. mem_upsert" "\<lambda>e :: unit. mem_replace_all" tokens_inv
proof
  fix i s r assume "tokens_inv s" "mem_lookup i s = Some r"
  then show "tk_id r = trim_space i \<and> normal_record r"
    using tokens_inv_lookup [of s "trim_space i" r] by (simp add: mem_lookup_Some)
next
  fix r s assume "tokens_inv s"
  then show "r \<in> set (sorted_token_records s) \<longleftrightarrow> mem_lookup (tk_id r) s = Some r"
    using sorted_token_records(3) [of s r] tokens_inv_lookup [of s "tk_id r" r]
      tokens_inv_lookup [of s "trim_space (tk_id r)" r] by (auto simp: mem_lookup_Some)
next
  fix s :: token_map and e :: unit and r s' assume "tokens_inv s" "mem_upsert r s = (None, s')"
  then obtain n where n: "normalize_token_record r = Some n" "s' = map_put (tk_id n) n s"
    by (auto simp: mem_upsert_def split: option.splits)
  have "tokens_inv s'"
    using tokens_inv_put [OF \<open>tokens_inv s\<close>, of n] normalize_token_idem [OF n(1)] by (simp add: n(2) normal_record_def)
  with n normalize_token_fields [OF n(1)]
  show "\<exists>n. normalize_token_record r = Some n \<and> tokens_inv s'
        \<and> (\<forall>i. mem_lookup i s' = (if trim_space i = tk_id n then Some n else mem_lookup i s))"
    by (auto simp: mem_lookup_def Let_def)
next
  fix s :: token_map and e :: unit and rs s' assume "mem_replace_all rs s = (None, s')"
  then obtain ns where ns: "normalize_token_record_set rs = Inr ns" "s' = token_slice_to_map ns"
    by (auto simp: mem_replace_all_def split: sum.splits)
  note res = normalize_set_result [OF ns(1)]
  have "r \<in> set ns \<Longrightarrow> tk_id r \<noteq> []" for r
    using res(1) normalize_token_fields [of r r] by (auto simp: list_all_iff normal_record_def)
  with ns res(1,2) show "\<exists>ns. normalize_token_record_set rs = Inr ns \<and> tokens_inv s'
        \<and> (\<forall>i r. mem_lookup i s' = Some r \<longleftrightarrow> r \<in> set ns \<and> tk_id r = trim_space i)"
    by (auto simp: mem_lookup_Some token_slice_lookup tokens_inv_slice)
qed (auto simp: mem_lookup_def sorted_token_records mem_upsert_def mem_replace_all_def split: option.splits sum.splits)


text \<open>The file is in step with the memory: reading it back gives the same records.\<close>

definition file_inv :: "file_store \<Rightarrow> bool" where
  "file_inv s \<longleftrightarrow> tokens_inv (fs_map s)
     \<and> (\<exists>m. load_token_file False (fs_disk s) = Inr m \<and> map_of m = map_of (fs_map s))"

lemma commit_file_store:
  assumes "list_all normal_record rs" "distinct (map tk_id rs)" "commit_file_store fault rs s = (None, s')"
  shows "fs_map s' = token_slice_to_map rs" and "file_inv s'"
proof -
  note set = normalize_set_normal [OF assms(1,2)]
  have s': "s' = \<lparr>fs_map = token_slice_to_map rs, fs_disk = Some \<lparr>tf_version = 1, tf_tokens = sort_key tk_id rs\<rparr>\<rparr>"
    using assms(3) by (auto simp: commit_file_store_def persist_token_records_def set split: if_splits)
  then show "fs_map s' = token_slice_to_map rs" by simp
  note sorted = normalize_set_result [OF set]
  have "map_of (token_slice_to_map (sort_key tk_id rs)) = map_of (token_slice_to_map rs)"
  proof
    fix i
    show "map_of (token_slice_to_map (sort_key tk_id rs)) i = map_of (token_slice_to_map rs) i"
      using token_slice_lookup [OF sorted(2)] token_slice_lookup [OF assms(2)] by (metis not_None_eq set_sort)
  qed
  moreover have "load_token_file False (fs_disk s') = Inr (token_slice_to_map (sort_key tk_id rs))"
    using normalize_loop_normal [OF sorted(1,2), of "[]"] by (simp add: s' load_token_file_def)
  ultimately show "file_inv s'" using tokens_inv_slice [OF assms(1,2)] by (simp add: file_inv_def s')
qed

lemma commit_file_store_failed: "commit_file_store fault rs s = (Some e, s') \<Longrightarrow> s' = s"
  by (auto simp: commit_file_store_def persist_token_records_def split: sum.splits if_splits)

lemma replace_record_result:
  "list_all normal_record rs \<Longrightarrow> distinct (map tk_id rs) \<Longrightarrow> normal_record n \<Longrightarrow>
   list_all normal_record (replace_record n rs) \<and> distinct (map tk_id (replace_record n rs))
   \<and> set (map tk_id (replace_record n rs)) = insert (tk_id n) (set (map tk_id rs))
   \<and> set (replace_record n rs) = insert n {r \<in> set rs. tk_id r \<noteq> tk_id n}"
  by (induction rs) (auto simp: list_all_iff image_iff)

lemma slice_file_lookup:
  assumes "list_all normal_record rs" "distinct (map tk_id rs)" "fs_map s = token_slice_to_map rs"
  shows "file_lookup i s = Some r \<longleftrightarrow> r \<in> set rs \<and> tk_id r = trim_space i"
proof -
  have "r \<in> set rs \<Longrightarrow> tk_id r \<noteq> []"
    using assms(1) normalize_token_fields [of r r] by (auto simp: list_all_iff normal_record_def)
  then show ?thesis
    using token_slice_lookup [OF assms(2)] by (auto simp: file_lookup_def Let_def assms(3))
qed

lemma file_inv_new: "new_file_store fault disk = Inr s \<Longrightarrow> file_inv s"
proof -
  assume "new_file_store fault disk = Inr s"
  then obtain m where m: "load_token_file False disk = Inr m" "s = \<lparr>fs_map = m, fs_disk = disk\<rparr>"
    by (auto simp: new_file_store_def load_token_file_def split: sum.splits if_splits)
  have "tokens_inv m"
    using m(1) by (auto simp: load_token_file_def tokens_inv_def[of "[]"] split: option.splits if_splits sum.splits
        dest!: normalize_loop_result intro: tokens_inv_slice)
  with m show ?thesis by (simp add: file_inv_def)
qed

interpretation disk: token_store file_lookup "\<lambda>s. sorted_token_records (fs_map s)" file_upsert file_replace_all file_inv
proof
  fix i s r assume "file_inv s" "file_lookup i s = Some r"
  then show "tk_id r = trim_space i \<and> normal_record r"
    using tokens_inv_lookup [of "fs_map s" "trim_space i" r] by (simp add: file_lookup_def file_inv_def Let_def split: if_splits)
next
  fix r s assume "file_inv s"
  then have "tokens_inv (fs_map s)" by (simp add: file_inv_def)
  then show "r \<in> set (sorted_token_records (fs_map s)) \<longleftrightarrow> file_lookup (tk_id r) s = Some r"
    using sorted_token_records(3) [of "fs_map s" r] tokens_inv_lookup [of "fs_map s" "tk_id r" r]
      tokens_inv_lookup [of "fs_map s" "trim_space (tk_id r)" r]
    by (auto simp: file_lookup_def Let_def)
next
  fix s e r s' assume "file_inv s" and run: "file_upsert e r s = (None, s')"
  then have inv: "tokens_inv (fs_map s)" by (simp add: file_inv_def)
  let ?rs = "sorted_token_records (fs_map s)"
  obtain n where n: "normalize_token_record r = Some n" "commit_file_store e (replace_record n ?rs) s = (None, s')"
    using run by (auto simp: file_upsert_def split: option.splits)
  have "normal_record n" using normalize_token_idem [OF n(1)] by (simp add: normal_record_def)
  from replace_record_result [OF sorted_token_records(1,2) [OF inv] this]
  have res: "list_all normal_record (replace_record n ?rs)" "distinct (map tk_id (replace_record n ?rs))"
    "set (replace_record n ?rs) = insert n {r \<in> set ?rs. tk_id r \<noteq> tk_id n}" by simp_all
  note commit = commit_file_store [OF res(1,2) n(2)]
  have "file_lookup i s' = (if trim_space i = tk_id n then Some n else file_lookup i s)" for i
  proof -
    have old: "x \<in> set ?rs \<and> tk_id x = trim_space i \<longleftrightarrow> file_lookup i s = Some x" for x
      using sorted_token_records(3) [OF inv, of x] tokens_inv_lookup [OF inv, of "trim_space i" x]
      by (cases "tk_id x = trim_space i") (auto simp: file_lookup_def Let_def)
    have new: "file_lookup i s' = Some x \<longleftrightarrow> (if trim_space i = tk_id n then x = n else file_lookup i s = Some x)" for x
      unfolding slice_file_lookup [OF res(1,2) commit(1)] res(3) old [symmetric] by auto
    show ?thesis
    proof (cases "trim_space i = tk_id n")
      case True
      then show ?thesis using new [of n] by simp
    next
      case False
      then have "file_lookup i s' = Some x \<longleftrightarrow> file_lookup i s = Some x" for x using new [of x] by simp
      with False show ?thesis by (metis option.exhaust)
    qed
  qed
  with n(1) commit(2) show "\<exists>n. normalize_token_record r = Some n \<and> file_inv s'
        \<and> (\<forall>i. file_lookup i s' = (if trim_space i = tk_id n then Some n else file_lookup i s))" by blast
next
  fix s e rs s' assume run: "file_replace_all e rs s = (None, s')"
  obtain ns where ns: "normalize_token_record_set rs = Inr ns" "commit_file_store e ns s = (None, s')"
    using run by (auto simp: file_replace_all_def split: sum.splits)
  note res = normalize_set_result [OF ns(1)]
  note commit = commit_file_store [OF res(1,2) ns(2)]
  show "\<exists>ns. normalize_token_record_set rs = Inr ns \<and> file_inv s'
        \<and> (\<forall>i r. file_lookup i s' = Some r \<longleftrightarrow> r \<in> set ns \<and> tk_id r = trim_space i)"
    using ns(1) commit(2) slice_file_lookup [OF res(1,2) commit(1)] by blast
qed (auto simp: file_lookup_def file_inv_def sorted_token_records file_upsert_def file_replace_all_def
    split: option.splits sum.splits dest: commit_file_store_failed)


section \<open>Judging a token\<close>

definition auth_error_invalid_token :: string where "auth_error_invalid_token = ''auth_invalid_token''"
definition auth_error_token_expired :: string where "auth_error_token_expired = ''auth_token_expired''"
definition auth_error_token_revoked :: string where "auth_error_token_revoked = ''auth_token_revoked''"
definition auth_error_connector_mismatch :: string where "auth_error_connector_mismatch = ''auth_connector_mismatch''"
definition auth_error_internal :: string where "auth_error_internal = ''auth_internal_error''"

definition validate_token_state :: "token_record \<Rightarrow> gotime \<Rightarrow> (string \<times> string) option" where
  "validate_token_state r now =
     (case normalize_token_status (tk_status r) of
        TokenRevoked \<Rightarrow> Some (auth_error_token_revoked, ''token is revoked'')
      | TokenExpired \<Rightarrow> Some (auth_error_token_expired, ''token is expired'')
      | TokenStatusOther t \<Rightarrow> Some (auth_error_invalid_token, ''token status is invalid'')
      | _ \<Rightarrow> if \<not> is_zero (tk_expires r) \<and> now > tk_expires r then Some (auth_error_token_expired, ''token is expired'') else None)"

text \<open>
  The part of \<open>AuthenticateAndCommit\<close> that judges the token of a connector: error code and text, or
  the record.
\<close>

definition token_verdict ::
    "(string \<Rightarrow> 's \<Rightarrow> token_record option) \<Rightarrow> (string \<Rightarrow> string \<Rightarrow> string + bool) \<Rightarrow> gotime \<Rightarrow> string \<Rightarrow> string \<Rightarrow> 's
       \<Rightarrow> (string \<times> string) + token_record" where
  "token_verdict lookup verify now connector token store =
     (case parse_connector_token token of
        None \<Rightarrow> Inl (auth_error_invalid_token, ''invalid token format'')
      | Some (i, secret) \<Rightarrow>
          (case lookup i store of
             None \<Rightarrow> Inl (auth_error_invalid_token, ''token not found'')
           | Some r \<Rightarrow>
               if trim_space (tk_connector r) \<noteq> connector then Inl (auth_error_connector_mismatch, ''token connector_id mismatch'')
               else case verify secret (tk_hash r) of
                      Inl e \<Rightarrow> Inl (auth_error_internal, ''token hash verify failed'')
                    | Inr matched \<Rightarrow>
                        if \<not> matched then Inl (auth_error_invalid_token, ''token secret mismatch'')
                        else case validate_token_state r now of Some e \<Rightarrow> Inl e | None \<Rightarrow> Inr r))"


section \<open>Administration\<close>

datatype token_admin_err =
    ErrTokenAdminInvalidArgument
  | ErrTokenAdminNotFound
  | ErrTokenAdminStoreUnavailable
  | TokenAdminFailure string

record token_create_request =
  tcr_connector :: string
  tcr_expires :: gotime
  tcr_metadata :: token_metadata

record token_issue =
  ti_record :: token_record
  ti_plaintext :: string

text \<open>The answers of the generators in each attempt, and the hash of a secret.\<close>

record token_generator =
  tg_id :: "nat \<Rightarrow> string + string"
  tg_secret :: "nat \<Rightarrow> string + string"
  tg_hash :: "string \<Rightarrow> string + string"

fun generate_material_loop ::
    "(string \<Rightarrow> 's \<Rightarrow> token_record option) \<Rightarrow> token_generator \<Rightarrow> 's \<Rightarrow> nat list \<Rightarrow> string + (string \<times> string)" where
  "generate_material_loop lookup gen store [] = Inl ''generate token material: exhausted retries''"
| "generate_material_loop lookup gen store (a # attempts) =
     (case tg_id gen a of
        Inl e \<Rightarrow> Inl e
      | Inr raw \<Rightarrow>
          let i = trim_space raw
          in if \<not> is_valid_token_id i then generate_material_loop lookup gen store attempts
             else if lookup i store \<noteq> None then generate_material_loop lookup gen store attempts
             else case tg_secret gen a of
                    Inl e \<Rightarrow> Inl e
                  | Inr raw_secret \<Rightarrow>
                      let secret = trim_space raw_secret
                      in if secret = [] \<or> CHR ''.'' \<in> set secret then generate_material_loop lookup gen store attempts
                         else Inr (i, secret))"

definition generate_unique_token_material ::
    "(string \<Rightarrow> 's \<Rightarrow> token_record option) \<Rightarrow> token_generator \<Rightarrow> 's \<Rightarrow> string + (string \<times> string)" where
  "generate_unique_token_material lookup gen store = generate_material_loop lookup gen store [0..<16]"

definition fresh_token_record :: "string \<Rightarrow> string \<Rightarrow> string \<Rightarrow> gotime \<Rightarrow> gotime \<Rightarrow> token_metadata \<Rightarrow> token_record" where
  "fresh_token_record i connector h now expires metadata =
     \<lparr>tk_id = i, tk_connector = connector, tk_hash = h, tk_algorithm = ''argon2id'', tk_version = ''v1'',
      tk_status = TokenActive, tk_issued = now, tk_expires = expires, tk_rotated = zero_time, tk_metadata = metadata\<rparr>"

definition token_create ::
    "(string \<Rightarrow> 's \<Rightarrow> token_record option) \<Rightarrow> ('e \<Rightarrow> token_record \<Rightarrow> 's \<Rightarrow> string option \<times> 's) \<Rightarrow> token_generator \<Rightarrow> 'e \<Rightarrow> gotime
       \<Rightarrow> token_create_request \<Rightarrow> 's \<Rightarrow> (token_admin_err + token_issue) \<times> 's" where
  "token_create lookup upsert gen e now req store =
     (let connector = trim_space (tcr_connector req)
      in if connector = [] then (Inl ErrTokenAdminInvalidArgument, store)
         else if \<not> is_zero (tcr_expires req) \<and> \<not> tcr_expires req > now then (Inl ErrTokenAdminInvalidArgument, store)
         else case generate_unique_token_material lookup gen store of
                Inl msg \<Rightarrow> (Inl (TokenAdminFailure msg), store)
              | Inr (i, secret) \<Rightarrow>
                  (case tg_hash gen secret of
                     Inl msg \<Rightarrow> (Inl (TokenAdminFailure msg), store)
                   | Inr h \<Rightarrow>
                       let r = fresh_token_record i connector h now (tcr_expires req) (tcr_metadata req)
                       in case upsert e r store of
                            (Some msg, store') \<Rightarrow> (Inl (TokenAdminFailure msg), store')
                          | (None, store') \<Rightarrow>
                              (Inr \<lparr>ti_record = r, ti_plaintext = build_connector_plaintext_token i secret\<rparr>, store')))"

text \<open>The loop of a rotation: the first record with the identifier is revoked.\<close>

fun revoke_in_list :: "gotime \<Rightarrow> string \<Rightarrow> token_record list \<Rightarrow> token_record list option" where
  "revoke_in_list now i [] = None"
| "revoke_in_list now i (r # rs) =
     (if tk_id r = i then Some (r\<lparr>tk_status := TokenRevoked, tk_rotated := now\<rparr> # rs)
      else map_option ((#) r) (revoke_in_list now i rs))"

definition token_rotate ::
    "(string \<Rightarrow> 's \<Rightarrow> token_record option) \<Rightarrow> ('s \<Rightarrow> token_record list) \<Rightarrow> ('e \<Rightarrow> token_record list \<Rightarrow> 's \<Rightarrow> string option \<times> 's)
       \<Rightarrow> token_generator \<Rightarrow> 'e \<Rightarrow> gotime \<Rightarrow> string \<Rightarrow> 's \<Rightarrow> (token_admin_err + token_issue) \<times> 's" where
  "token_rotate lookup listing replace_all gen e now raw store =
     (let i = trim_space raw
      in if i = [] then (Inl ErrTokenAdminInvalidArgument, store)
         else case lookup i store of
                None \<Rightarrow> (Inl ErrTokenAdminNotFound, store)
              | Some old \<Rightarrow>
                  if tk_status old = TokenRevoked then (Inl ErrTokenAdminInvalidArgument, store)
                  else if validate_token_state old now \<noteq> None then (Inl ErrTokenAdminInvalidArgument, store)
                  else case generate_unique_token_material lookup gen store of
                         Inl msg \<Rightarrow> (Inl (TokenAdminFailure msg), store)
                       | Inr (j, secret) \<Rightarrow>
                           (case tg_hash gen secret of
                              Inl msg \<Rightarrow> (Inl (TokenAdminFailure msg), store)
                            | Inr h \<Rightarrow>
                                (case revoke_in_list now i (listing store) of
                                   None \<Rightarrow> (Inl ErrTokenAdminNotFound, store)
                                 | Some records \<Rightarrow>
                                     let r = fresh_token_record j (tk_connector old) h now (tk_expires old) (tk_metadata old)
                                     in case replace_all e (records @ [r]) store of
                                          (Some msg, store') \<Rightarrow> (Inl (TokenAdminFailure msg), store')
                                        | (None, store') \<Rightarrow>
                                            (Inr \<lparr>ti_record = r, ti_plaintext = build_connector_plaintext_token j secret\<rparr>, store'))))"

definition token_revoke ::
    "(string \<Rightarrow> 's \<Rightarrow> token_record option) \<Rightarrow> ('e \<Rightarrow> token_record \<Rightarrow> 's \<Rightarrow> string option \<times> 's) \<Rightarrow> 'e \<Rightarrow> string \<Rightarrow> 's
       \<Rightarrow> (token_admin_err + token_record) \<times> 's" where
  "token_revoke lookup upsert e raw store =
     (let i = trim_space raw
      in if i = [] then (Inl ErrTokenAdminInvalidArgument, store)
         else case lookup i store of
                None \<Rightarrow> (Inl ErrTokenAdminNotFound, store)
              | Some r \<Rightarrow>
                  let r' = r\<lparr>tk_status := TokenRevoked\<rparr>
                  in case upsert e r' store of
                       (Some msg, store') \<Rightarrow> (Inl (TokenAdminFailure msg), store')
                     | (None, store') \<Rightarrow> (Inr r', store'))"


section \<open>What the administration promises\<close>

lemma token_char_graphic: "is_token_char c \<Longrightarrow> graphic c"
  by (auto simp: is_token_char_def graphic_def Let_def)

lemma token_text_trimmed: "s \<noteq> [] \<Longrightarrow> list_all is_token_char s \<Longrightarrow> trim_space s = s"
  by (rule trim_space_graphic) (auto simp: list_all_iff token_char_graphic)

lemma cut_dot_build: "list_all is_token_char i \<Longrightarrow> cut_dot (i @ ''.'' @ s) = Some (i, s)"
proof -
  assume "list_all is_token_char i"
  then have i: "\<forall>c \<in> set i. c \<noteq> CHR ''.''" by (auto simp: list_all_iff is_token_char_def)
  then have "takeWhile (\<lambda>c. c \<noteq> CHR ''.'') (i @ ''.'' @ s) = i" "dropWhile (\<lambda>c. c \<noteq> CHR ''.'') (i @ ''.'' @ s) = ''.'' @ s"
    by simp_all
  then show ?thesis by (simp add: cut_dot_def)
qed

lemma token_text_parses:
  assumes "is_valid_token_id i" and "s \<noteq> []" and "graphic (hd s)" and "graphic (last s)"
  shows "parse_connector_token (build_connector_plaintext_token i s) = Some (i, s)"
proof -
  have i: "list_all is_token_char i" "i \<noteq> []" using assms(1) by (auto simp: is_valid_token_id_def)
  have s: "trim_space s = s" using assms(2-4) by (rule trim_space_graphic)
  let ?t = "build_connector_plaintext_token i s"
  have "trim_space ?t = ?t"
    using assms(2,4) by (intro trim_space_graphic) (simp_all add: build_connector_plaintext_token_def graphic_def)
  moreover have "drop 4 ?t = i @ ''.'' @ s" by (simp add: build_connector_plaintext_token_def)
  ultimately show ?thesis
    using assms(1,2) i s token_text_trimmed [OF i(2,1)] cut_dot_build [OF i(1), of s]
    by (simp add: parse_connector_token_def build_connector_plaintext_token_def)
qed

text \<open>
  The text of a token can be read back: identifier and secret come out as they went in, also if
  the secret contains dots.
\<close>

theorem token_text_roundtrip:
  assumes "is_valid_token_id i" and "s \<noteq> []" and "graphic (hd s)" and "graphic (last s)"
  shows "parse_connector_token (build_connector_plaintext_token i s) = Some (i, s)"
  using assms by (rule token_text_parses)

lemma parse_built:
  "is_valid_token_id i \<Longrightarrow> s \<noteq> [] \<Longrightarrow> list_all is_token_char s \<Longrightarrow>
   parse_connector_token (build_connector_plaintext_token i s) = Some (i, s)"
  by (rule token_text_parses) (auto simp: list_all_iff token_char_graphic)

text \<open>What the code relies on: secrets in the alphabet of URL-safe base64, hashes that match their secret.\<close>

definition generator_ok :: "token_generator \<Rightarrow> (string \<Rightarrow> string \<Rightarrow> string + bool) \<Rightarrow> bool" where
  "generator_ok gen verify \<longleftrightarrow>
     (\<forall>a s. tg_secret gen a = Inr s \<longrightarrow> s \<noteq> [] \<and> list_all is_token_char s)
     \<and> (\<forall>s h. s \<noteq> [] \<and> list_all is_token_char s \<and> tg_hash gen s = Inr h \<longrightarrow> trim_space h = h \<and> h \<noteq> [] \<and> verify s h = Inr True)"

lemma generated_material:
  assumes "\<forall>a s. tg_secret gen a = Inr s \<longrightarrow> s \<noteq> [] \<and> list_all is_token_char s"
    and "generate_material_loop lookup gen store attempts = Inr (i, s)"
  shows "is_valid_token_id i \<and> trim_space i = i \<and> lookup i store = None \<and> s \<noteq> [] \<and> list_all is_token_char s"
  using assms(2)
proof (induction attempts)
  case (Cons a attempts)
  then show ?case
    using assms(1) token_text_trimmed
    by (fastforce simp: Let_def split: sum.splits if_splits)
qed simp

lemma fresh_record_normal:
  assumes "is_valid_token_id i" "trim_space i = i" "trim_space h = h" "h \<noteq> []" "trim_space c = c"
  shows "normalize_token_record (fresh_token_record i c h now expires metadata)
    = Some (fresh_token_record i c h now expires (normalize_token_metadata metadata))"
proof -
  have "trim_space ''argon2id'' = ''argon2id''" "trim_space ''v1'' = ''v1''"
    by (rule trim_space_graphic; simp add: graphic_def)+
  with assms show ?thesis
  by (simp add: normalize_token_record_def fresh_token_record_def normalize_token_status_def is_valid_token_id_def Let_def)
qed

definition not_expired :: "gotime \<Rightarrow> gotime \<Rightarrow> bool" where
  "not_expired expires t \<longleftrightarrow> is_zero expires \<or> t \<le> expires"

lemma fresh_verdict:
  assumes "is_valid_token_id i" "s \<noteq> []" "list_all is_token_char s" "verify s h = Inr True"
    and "lookup i store = Some (fresh_token_record i c h now expires metadata)" "trim_space c = c" "not_expired expires t"
  shows "token_verdict lookup verify t c (build_connector_plaintext_token i s) store
    = Inr (fresh_token_record i c h now expires metadata)"
  using assms
  by (simp add: token_verdict_def parse_built fresh_token_record_def validate_token_state_def normalize_token_status_def
      not_expired_def not_less)

lemma normal_record_revoked: "normal_record r \<Longrightarrow> normal_record (r\<lparr>tk_status := TokenRevoked, tk_rotated := now\<rparr>)"
  by (cases r) (auto simp: normal_record_def normalize_token_record_def normalize_token_status_def Let_def split: if_splits)

lemma revoke_in_list_set:
  "revoke_in_list now i rs = Some rs' \<Longrightarrow> distinct (map tk_id rs) \<Longrightarrow> r0 \<in> set rs \<Longrightarrow> tk_id r0 = i \<Longrightarrow>
   x \<in> set rs' \<longleftrightarrow> x = r0\<lparr>tk_status := TokenRevoked, tk_rotated := now\<rparr> \<or> x \<in> set rs \<and> tk_id x \<noteq> i"
proof (induction rs arbitrary: rs')
  case (Cons r rs)
  show ?case
  proof (cases "tk_id r = i")
    case True
    then have "r = r0" and "\<And>y. y \<in> set rs \<Longrightarrow> tk_id y \<noteq> i" using Cons.prems(2-4) by (auto simp: image_iff)
    with True Cons.prems(1) show ?thesis by auto
  next
    case False
    then obtain ys where "revoke_in_list now i rs = Some ys" "rs' = r # ys" using Cons.prems(1) by auto
    moreover have "r0 \<in> set rs" using Cons.prems(3,4) False by auto
    ultimately show ?thesis using Cons.IH Cons.prems(2,4) False by auto
  qed
qed simp

context token_store
begin

lemma create_issues_token:
  assumes "store_inv s" "generator_ok gen verify" "token_create lookup upsert gen e now req s = (Inr issue, s')"
  shows "store_inv s'
    \<and> (not_expired (tcr_expires req) t \<longrightarrow>
        (\<exists>r. token_verdict lookup verify t (trim_space (tcr_connector req)) (ti_plaintext issue) s' = Inr r))
    \<and> (\<forall>j. trim_space j \<noteq> tk_id (ti_record issue) \<longrightarrow> lookup j s' = lookup j s)
    \<and> lookup (tk_id (ti_record issue)) s = None"
proof -
  let ?c = "trim_space (tcr_connector req)"
  obtain i secret h where gen: "generate_unique_token_material lookup gen s = Inr (i, secret)" and h: "tg_hash gen secret = Inr h"
    and up: "upsert e (fresh_token_record i ?c h now (tcr_expires req) (tcr_metadata req)) s = (None, s')"
    and issue: "issue = \<lparr>ti_record = fresh_token_record i ?c h now (tcr_expires req) (tcr_metadata req),
        ti_plaintext = build_connector_plaintext_token i secret\<rparr>"
    using assms(3) by (auto simp: token_create_def Let_def split: if_splits sum.splits prod.splits option.splits)
  have mat: "is_valid_token_id i" "trim_space i = i" "lookup i s = None" "secret \<noteq> []" "list_all is_token_char secret"
    using generated_material [of gen lookup s "[0..<16]" i secret] gen assms(2)
    by (auto simp: generator_ok_def generate_unique_token_material_def)
  have hash: "trim_space h = h" "h \<noteq> []" "verify secret h = Inr True" using assms(2) h mat(4,5) by (auto simp: generator_ok_def)
  let ?n = "fresh_token_record i ?c h now (tcr_expires req) (normalize_token_metadata (tcr_metadata req))"
  from upsert_exact [OF assms(1) up] fresh_record_normal [OF mat(1,2) hash(1,2), of ?c now "tcr_expires req" "tcr_metadata req"]
  have s': "store_inv s'" "\<forall>j. lookup j s' = (if trim_space j = i then Some ?n else lookup j s)"
    by (auto simp: fresh_token_record_def)
  then have "lookup i s' = Some ?n" using mat(2) by simp
  from fresh_verdict [where lookup = lookup and verify = verify and h = h and i = i and store = s' and s = secret and t = t,
      OF mat(1,4,5) hash(3) this] s' mat(2,3) show ?thesis
    by (auto simp: issue fresh_token_record_def)
qed

lemma revoked_never_accepted:
  assumes "lookup i s = Some r" "tk_status r = TokenRevoked" "parse_connector_token token = Some (i, secret)"
  shows "\<exists>e. token_verdict lookup verify t c token s = Inl e"
  using assms
  by (auto simp: token_verdict_def validate_token_state_def normalize_token_status_def split: sum.split)

lemma revoke_ends_token:
  assumes "store_inv s" "token_revoke lookup upsert e raw s = (Inr r, s')"
  shows "store_inv s' \<and> (\<exists>x. lookup raw s' = Some x \<and> tk_status x = TokenRevoked)
    \<and> (\<forall>j. trim_space j \<noteq> trim_space raw \<longrightarrow> lookup j s' = lookup j s)"
proof -
  obtain old where old: "lookup (trim_space raw) s = Some old" and up: "upsert e (old\<lparr>tk_status := TokenRevoked\<rparr>) s = (None, s')"
    using assms(2) by (auto simp: token_revoke_def Let_def split: if_splits option.splits prod.splits)
  obtain n where n: "normalize_token_record (old\<lparr>tk_status := TokenRevoked\<rparr>) = Some n" and s': "store_inv s'"
      "\<forall>i. lookup i s' = (if trim_space i = tk_id n then Some n else lookup i s)"
    using upsert_exact [OF assms(1) up] by blast
  have "tk_id old = trim_space raw" using lookup_normal [OF assms(1) old] by simp
  with normalize_token_fields [OF n] have "tk_id n = trim_space raw" "tk_status n = TokenRevoked"
    by (simp_all add: normalize_token_status_def)
  with s' show ?thesis by simp
qed

lemma rotate_replaces_token:
  assumes inv: "store_inv s" and gen_ok: "generator_ok gen verify"
    and run: "token_rotate lookup listing replace_all gen e now raw s = (Inr issue, s')"
  shows "store_inv s'
    \<and> (\<exists>old. lookup raw s = Some old
        \<and> (not_expired (tk_expires old) t \<longrightarrow>
              (\<exists>r. token_verdict lookup verify t (tk_connector old) (ti_plaintext issue) s' = Inr r)))
    \<and> (\<exists>x. lookup raw s' = Some x \<and> tk_status x = TokenRevoked)
    \<and> (\<forall>j. trim_space j \<noteq> trim_space raw \<and> trim_space j \<noteq> tk_id (ti_record issue) \<longrightarrow> lookup j s' = lookup j s)"
proof -
  let ?i = "trim_space raw"
  obtain old j secret h rs where old: "lookup ?i s = Some old" and gen: "generate_unique_token_material lookup gen s = Inr (j, secret)"
    and h: "tg_hash gen secret = Inr h" and rs: "revoke_in_list now ?i (listing s) = Some rs"
    and rep: "replace_all e (rs @ [fresh_token_record j (tk_connector old) h now (tk_expires old) (tk_metadata old)]) s = (None, s')"
    and issue: "issue = \<lparr>ti_record = fresh_token_record j (tk_connector old) h now (tk_expires old) (tk_metadata old),
        ti_plaintext = build_connector_plaintext_token j secret\<rparr>"
    using run by (auto simp: token_rotate_def Let_def split: if_splits sum.splits prod.splits option.splits)
  let ?new = "fresh_token_record j (tk_connector old) h now (tk_expires old) (tk_metadata old)"
  let ?old = "old\<lparr>tk_status := TokenRevoked, tk_rotated := now\<rparr>"
  have mat: "is_valid_token_id j" "trim_space j = j" "lookup j s = None" "secret \<noteq> []" "list_all is_token_char secret"
    using generated_material [of gen lookup s "[0..<16]" j secret] gen gen_ok
    by (auto simp: generator_ok_def generate_unique_token_material_def)
  have hash: "trim_space h = h" "h \<noteq> []" "verify secret h = Inr True" using gen_ok h mat(4,5) by (auto simp: generator_ok_def)
  have norm: "tk_id old = ?i" "normal_record old" using lookup_normal [OF inv old] by simp_all
  have c: "trim_space (tk_connector old) = tk_connector old"
    using norm(2) normalize_token_fields [of old old] by (simp add: normal_record_def)
  have meta: "normalize_token_metadata (tk_metadata old) = tk_metadata old"
    using norm(2) by (cases old) (auto simp: normal_record_def normalize_token_record_def Let_def split: if_splits)
  have listed: "x \<in> set (listing s) \<longleftrightarrow> lookup (tk_id x) s = Some x" for x by (rule listing_exact [OF inv])
  have mem: "old \<in> set (listing s)" using listed [of old] old norm(1) by simp
  note rs_set = revoke_in_list_set [OF rs listing_distinct [OF inv] mem norm(1)]
  have "normal_record x" if "x \<in> set (rs @ [?new])" for x
    using that rs_set [of x] normal_record_revoked [OF norm(2)] listed [of x] lookup_normal [OF inv]
      fresh_record_normal [OF mat(1,2) hash(1,2) c, of now "tk_expires old" "tk_metadata old"]
    by (auto simp: normal_record_def meta)
  then have "(\<exists>y \<in> set (rs @ [?new]). normalize_token_record y = Some x) \<longleftrightarrow> x \<in> set (rs @ [?new])" for x
    unfolding normal_record_def by (metis option.inject)
  moreover obtain ns where ns: "normalize_token_record_set (rs @ [?new]) = Inr ns" and s': "store_inv s'"
      "\<And>k r. lookup k s' = Some r \<longleftrightarrow> r \<in> set ns \<and> tk_id r = trim_space k"
    using replace_exact [OF inv rep] by blast
  ultimately have after: "lookup k s' = Some x \<longleftrightarrow>
      (x = ?old \<or> lookup (tk_id x) s = Some x \<and> tk_id x \<noteq> ?i \<or> x = ?new) \<and> tk_id x = trim_space k" for k x
    using normalize_set_result(3) [OF ns] rs_set listed by auto
  have new: "lookup j s' = Some ?new" using after [of j ?new] mat(2) by (simp add: fresh_token_record_def)
  note verdict = fresh_verdict [where lookup = lookup and verify = verify and h = h and i = j and store = s' and s = secret and t = t,
      OF mat(1,4,5) hash(3) new c]
  have revoked: "lookup raw s' = Some ?old" using after [of raw ?old] norm(1) by simp
  have "lookup k s' = lookup k s" if "trim_space k \<noteq> ?i" "trim_space k \<noteq> j" for k
  proof -
    have "lookup k s' = Some x \<longleftrightarrow> lookup k s = Some x" for x
      using after [of k x] that norm(1) lookup_normal [OF inv, of k x] lookup_trim [of k s]
      by (auto simp: fresh_token_record_def)
    then show ?thesis by (metis option.exhaust)
  qed
  moreover have "tk_id (ti_record issue) = j" by (simp add: issue fresh_token_record_def)
  moreover have "lookup raw s = Some old" using old lookup_trim by simp
  ultimately show ?thesis using s'(1) verdict revoked by (auto simp: issue)
qed

end


section \<open>The file store across restarts\<close>

inductive file_step :: "file_store \<Rightarrow> file_store \<Rightarrow> bool" where
  file_step_upsert: "file_step s (snd (file_upsert fault r s))"
| file_step_delete: "file_step s (snd (file_delete fault i s))"
| file_step_replace: "file_step s (snd (file_replace_all fault rs s))"
| file_step_save: "file_step s (snd (file_save fault s))"
| file_step_reload: "file_step s (snd (file_reload fault s))"

lemma file_inv_commit:
  assumes "file_inv s" "list_all normal_record rs" "distinct (map tk_id rs)"
  shows "file_inv (snd (commit_file_store fault rs s))"
  using assms commit_file_store(2) [OF assms(2,3), of fault s] commit_file_store_failed [of fault rs s]
  by (cases "commit_file_store fault rs s"; cases "fst (commit_file_store fault rs s)") auto

lemma file_inv_step: "file_step s s' \<Longrightarrow> file_inv s \<Longrightarrow> file_inv s'"
proof (induction rule: file_step.induct)
  case (file_step_upsert s fault r)
  then show ?case
    using disk.upsert_exact [of s fault r] disk.upsert_failed [of fault r s]
    by (cases "file_upsert fault r s"; cases "fst (file_upsert fault r s)") auto
next
  case (file_step_delete s fault i)
  then have inv: "tokens_inv (fs_map s)" by (simp add: file_inv_def)
  note sorted = sorted_token_records(1,2) [OF inv]
  have "list_all normal_record (filter (\<lambda>r. tk_id r \<noteq> trim_space i) (sorted_token_records (fs_map s)))"
    "distinct (map tk_id (filter (\<lambda>r. tk_id r \<noteq> trim_space i) (sorted_token_records (fs_map s))))"
    using sorted by (auto simp: list_all_iff distinct_map_filter)
  from file_inv_commit [OF file_step_delete this] file_step_delete show ?case by (simp add: file_delete_def Let_def)
next
  case (file_step_replace s fault rs)
  then show ?case
    using disk.replace_exact [of s fault rs] disk.replace_failed [of fault rs s]
    by (cases "file_replace_all fault rs s"; cases "fst (file_replace_all fault rs s)") auto
next
  case (file_step_save s fault)
  then have inv: "tokens_inv (fs_map s)" by (simp add: file_inv_def)
  note sorted = sorted_token_records(1,2) [OF inv]
  show ?case
  proof (cases fault)
    case True
    then show ?thesis
      using file_step_save by (simp add: file_save_def persist_token_records_def normalize_set_normal [OF sorted] Let_def)
  next
    case False
    have "snd (file_save fault s) = s\<lparr>fs_disk := Some \<lparr>tf_version = 1, tf_tokens = sort_key tk_id (sorted_token_records (fs_map s))\<rparr>\<rparr>"
      using False by (simp add: file_save_def persist_token_records_def normalize_set_normal [OF sorted] Let_def)
    moreover have "snd (commit_file_store fault (sorted_token_records (fs_map s)) s)
        = \<lparr>fs_map = token_slice_to_map (sorted_token_records (fs_map s)),
           fs_disk = Some \<lparr>tf_version = 1, tf_tokens = sort_key tk_id (sorted_token_records (fs_map s))\<rparr>\<rparr>"
      using False by (simp add: commit_file_store_def persist_token_records_def normalize_set_normal [OF sorted])
    moreover have "map_of (token_slice_to_map (sorted_token_records (fs_map s))) = map_of (fs_map s)"
    proof
      fix i
      have "map_of (token_slice_to_map (sorted_token_records (fs_map s))) i = Some r \<longleftrightarrow> map_of (fs_map s) i = Some r" for r
        using token_slice_lookup [OF sorted(2)] sorted_token_records(3) [OF inv, of r] tokens_inv_lookup [OF inv, of i r] by auto
      then show "map_of (token_slice_to_map (sorted_token_records (fs_map s))) i = map_of (fs_map s) i"
        by (metis option.exhaust)
    qed
    ultimately show ?thesis
      using file_inv_commit [OF file_step_save sorted, of fault] inv by (simp add: file_inv_def)
  qed
next
  case (file_step_reload s fault)
  then obtain m where m: "load_token_file False (fs_disk s) = Inr m" "map_of m = map_of (fs_map s)" by (auto simp: file_inv_def)
  have "tokens_inv m" using m(1) file_inv_new [of False "fs_disk s" "\<lparr>fs_map = m, fs_disk = fs_disk s\<rparr>"]
    by (simp add: new_file_store_def file_inv_def)
  with m file_step_reload show ?case
    by (cases fault) (auto simp: file_reload_def file_inv_def load_token_file_def)
qed

lemma file_inv_restart:
  assumes "file_inv s"
  obtains t where "new_file_store False (fs_disk s) = Inr t" "\<And>i. file_lookup i t = file_lookup i s"
proof -
  obtain m where m: "load_token_file False (fs_disk s) = Inr m" "map_of m = map_of (fs_map s)" using assms by (auto simp: file_inv_def)
  then show ?thesis
    using that [of "\<lparr>fs_map = m, fs_disk = fs_disk s\<rparr>"] by (simp add: new_file_store_def file_lookup_def Let_def)
qed

lemma file_inv_reachable: "file_step\<^sup>*\<^sup>* s s' \<Longrightarrow> file_inv s \<Longrightarrow> file_inv s'"
  by (induction rule: rtranclp_induct) (auto intro: file_inv_step)

text \<open>
  C29. A restart loses nothing: along any sequence of writes, removals, replacements, saves and
  reloads, whichever of them fail, opening the file again gives exactly the records that the store
  answers from memory.
\<close>

theorem token_file_survives_restart:
  assumes "new_file_store False disk = Inr s0" and "file_step\<^sup>*\<^sup>* s0 s"
  shows "\<exists>t. new_file_store False (fs_disk s) = Inr t \<and> (\<forall>i. file_lookup i t = file_lookup i s)"
  using file_inv_restart [OF file_inv_reachable [OF assms(2) file_inv_new [OF assms(1)]]] by metis


section \<open>The life of a token\<close>

lemma token_verdict_cong: "(\<And>i. lookup i s = lookup i t) \<Longrightarrow> token_verdict lookup verify now c token s = token_verdict lookup verify now c token t"
  by (simp add: token_verdict_def cong: option.case_cong)

text \<open>
  A token that was issued for a connector is accepted for this connector, also by a bridge that
  was restarted since, until it expires; no other token is touched.
\<close>

theorem issued_token_is_accepted:
  assumes "file_inv s" and "generator_ok gen verify"
    and "token_create file_lookup file_upsert gen fault now req s = (Inr issue, s')"
    and "not_expired (tcr_expires req) t" and "new_file_store False (fs_disk s') = Inr s''"
  shows "(\<exists>r. token_verdict file_lookup verify t (trim_space (tcr_connector req)) (ti_plaintext issue) s' = Inr r)
    \<and> (\<exists>r. token_verdict file_lookup verify t (trim_space (tcr_connector req)) (ti_plaintext issue) s'' = Inr r)
    \<and> (\<forall>j. trim_space j \<noteq> tk_id (ti_record issue) \<longrightarrow> file_lookup j s' = file_lookup j s)"
proof -
  note ok = disk.create_issues_token [OF assms(1-3), of t]
  then have "file_inv s'" by simp
  from file_inv_restart [OF this] assms(5) have "\<And>i. file_lookup i s'' = file_lookup i s'" by (metis sum.inject(2))
  from token_verdict_cong [of file_lookup s'' s', OF this] ok assms(4) show ?thesis by simp
qed

lemma restarted_verdict:
  assumes "file_inv s" and "new_file_store False (fs_disk s) = Inr s'"
  shows "token_verdict file_lookup verify t c token s' = token_verdict file_lookup verify t c token s"
proof -
  have "file_lookup i s' = file_lookup i s" for i
    using file_inv_restart [OF assms(1)] assms(2) by (metis sum.inject(2))
  from token_verdict_cong [of file_lookup s' s, OF this] show ?thesis .
qed

text \<open>
  C28. Rotating a token takes the old one out of use, in the running bridge and in one that is started
  from the file afterwards (which can be opened, and judges every token alike), and brings a new one, accepted for the same connector
  until the old one would have expired; revoking takes it out of use in both without a new one. Rotation does
  not touch tokens with other identifiers.
\<close>

theorem rotated_token_is_refused:
  assumes "file_inv s" and "generator_ok gen verify"
    and "token_rotate file_lookup (\<lambda>s. sorted_token_records (fs_map s)) file_replace_all gen fault now i s = (Inr issue, s')"
    and "parse_connector_token old_token = Some (trim_space i, secret)"
  shows "(\<exists>e. token_verdict file_lookup verify t c old_token s' = Inl e)
    \<and> (\<exists>s3. new_file_store False (fs_disk s') = Inr s3 \<and> (\<exists>e. token_verdict file_lookup verify t c old_token s3 = Inl e)
          \<and> (\<forall>c' token. token_verdict file_lookup verify t c' token s3 = token_verdict file_lookup verify t c' token s'))
    \<and> (\<exists>old. file_lookup i s = Some old \<and> (not_expired (tk_expires old) t \<longrightarrow>
          (\<exists>r. token_verdict file_lookup verify t (tk_connector old) (ti_plaintext issue) s' = Inr r)))
    \<and> (\<forall>j. trim_space j \<noteq> trim_space i \<and> trim_space j \<noteq> tk_id (ti_record issue) \<longrightarrow> file_lookup j s' = file_lookup j s)
    \<and> (\<forall>r s''. token_revoke file_lookup file_upsert fault' i s = (Inr r, s'') \<longrightarrow>
          (\<exists>e. token_verdict file_lookup verify t c old_token s'' = Inl e)
          \<and> (\<exists>s3. new_file_store False (fs_disk s'') = Inr s3 \<and> (\<exists>e. token_verdict file_lookup verify t c old_token s3 = Inl e)))"
proof -
  note rot = disk.rotate_replaces_token [OF assms(1-3), of t]
  have inv: "file_inv s'" using rot by blast
  from rot obtain x where "file_lookup i s' = Some x" "tk_status x = TokenRevoked" by blast
  then have refused: "\<exists>e. token_verdict file_lookup verify t c old_token s' = Inl e"
    using disk.revoked_never_accepted [of "trim_space i" s' x old_token secret verify t c] assms(4) disk.lookup_trim by simp
  have "(\<exists>e. token_verdict file_lookup verify t c old_token s'' = Inl e) \<and> file_inv s''"
    if revoke: "token_revoke file_lookup file_upsert fault' i s = (Inr r, s'')" for r s''
  proof -
    obtain x where "file_lookup i s'' = Some x" "tk_status x = TokenRevoked" "file_inv s''"
      using disk.revoke_ends_token [OF assms(1) revoke] by blast
    then show ?thesis
      using disk.revoked_never_accepted [of "trim_space i" s'' x old_token secret verify t c] assms(4) disk.lookup_trim by simp
  qed
  note ends = this
  have revoked: "(\<exists>e. token_verdict file_lookup verify t c old_token s'' = Inl e)
      \<and> (\<exists>s3. new_file_store False (fs_disk s'') = Inr s3 \<and> (\<exists>e. token_verdict file_lookup verify t c old_token s3 = Inl e))"
    if "token_revoke file_lookup file_upsert fault' i s = (Inr r, s'')" for r s''
  proof -
    have e: "\<exists>e. token_verdict file_lookup verify t c old_token s'' = Inl e" and inv2: "file_inv s''"
      using ends [OF that] by blast+
    obtain s3 where "new_file_store False (fs_disk s'') = Inr s3" using file_inv_restart [OF inv2] by blast
    with e restarted_verdict [OF inv2 this] show ?thesis by simp
  qed
  obtain s3 where s3: "new_file_store False (fs_disk s') = Inr s3" using file_inv_restart [OF inv] by blast
  note same = restarted_verdict [OF inv s3]
  have restarted: "\<exists>s3. new_file_store False (fs_disk s') = Inr s3 \<and> (\<exists>e. token_verdict file_lookup verify t c old_token s3 = Inl e)
      \<and> (\<forall>c' token. token_verdict file_lookup verify t c' token s3 = token_verdict file_lookup verify t c' token s')"
    using s3 refused same by (intro exI [of _ s3]) simp
  show ?thesis
    by (rule conjI [OF refused conjI [OF restarted]], intro conjI allI impI) (use rot revoked in blast)+
qed



section \<open>Examples\<close>

definition sample_generator :: token_generator where
  "sample_generator = \<lparr>tg_id = (\<lambda>a. Inr ''i''), tg_secret = (\<lambda>a. Inr ''s''), tg_hash = (\<lambda>s. Inr (CHR ''h'' # s))\<rparr>"

definition sample_verify :: "string \<Rightarrow> string \<Rightarrow> string + bool" where
  "sample_verify s h = Inr (h = CHR ''h'' # s)"

lemma trim_token_sample:
  "trim_space ''i'' = ''i''" "trim_space ''j'' = ''j''" "trim_space ''s'' = ''s''" "trim_space ''c'' = ''c''" "trim_space ''hs'' = ''hs''"
  "trim_space ''argon2id'' = ''argon2id''" "trim_space ''v1'' = ''v1''"
  by (rule trim_space_graphic; simp add: graphic_def)+

lemma sample_generator_ok: "generator_ok sample_generator sample_verify"
proof -
  have "trim_space (CHR ''h'' # s) = CHR ''h'' # s" if "list_all is_token_char s" for s
    using that by (intro token_text_trimmed) (simp_all add: is_token_char_def)
  then show ?thesis by (auto simp: generator_ok_def sample_generator_def sample_verify_def is_token_char_def)
qed

definition sample_token_request :: token_create_request where
  "sample_token_request = \<lparr>tcr_connector = ''c'', tcr_expires = 0, tcr_metadata = []\<rparr>"

definition empty_file_store :: file_store where "empty_file_store = \<lparr>fs_map = [], fs_disk = None\<rparr>"

lemma empty_file_inv: "file_inv empty_file_store"
  by (simp add: file_inv_def empty_file_store_def tokens_inv_def load_token_file_def)

definition sample_token_record :: token_record where
  "sample_token_record = fresh_token_record ''i'' ''c'' ''hs'' 1 0 []"

lemma sample_material: "file_lookup ''i'' s = None \<Longrightarrow> generate_unique_token_material file_lookup sample_generator s = Inr (''i'', ''s'')"
  by (simp add: generate_unique_token_material_def upt_conv_Cons sample_generator_def trim_token_sample is_valid_token_id_def
      is_token_char_def)

lemma sample_record_normal: "normalize_token_record sample_token_record = Some sample_token_record"
  by (simp add: sample_token_record_def fresh_record_normal trim_token_sample is_valid_token_id_def is_token_char_def
      normalize_token_metadata_def)

definition sample_file_store :: file_store where
  "sample_file_store = \<lparr>fs_map = [(''i'', sample_token_record)], fs_disk = Some \<lparr>tf_version = 1, tf_tokens = [sample_token_record]\<rparr>\<rparr>"

lemma sample_upsert: "file_upsert False sample_token_record empty_file_store = (None, sample_file_store)"
  by (simp add: file_upsert_def sample_record_normal commit_file_store_def persist_token_records_def empty_file_store_def
      sorted_token_records_def normalize_token_record_set_def sample_file_store_def token_slice_to_map_def)
     (simp add: sample_token_record_def fresh_token_record_def)

lemma sample_file_step: "file_step empty_file_store sample_file_store"
  using file_step_upsert [of empty_file_store False sample_token_record] by (simp add: sample_upsert)

lemma sample_file_inv: "file_inv sample_file_store"
  by (rule file_inv_step [OF sample_file_step empty_file_inv])

theorem token_text_roundtrip_witness:
  "parse_connector_token (build_connector_plaintext_token ''i'' ''a.b'') = Some (''i'', ''a.b'')"
  by (rule token_text_roundtrip) (simp_all add: is_valid_token_id_def trim_token_sample is_token_char_def graphic_def)

theorem token_file_survives_restart_witness:
  "\<exists>t. new_file_store False (fs_disk sample_file_store) = Inr t \<and> (\<forall>i. file_lookup i t = file_lookup i sample_file_store)"
proof -
  have "new_file_store False None = Inr empty_file_store"
    by (simp add: new_file_store_def load_token_file_def empty_file_store_def)
  then show ?thesis using sample_file_step by (intro token_file_survives_restart) auto
qed

theorem issued_token_is_accepted_witness:
  "\<exists>issue s' r. token_create file_lookup file_upsert sample_generator False 1 sample_token_request empty_file_store = (Inr issue, s')
     \<and> token_verdict file_lookup sample_verify 5 ''c'' (ti_plaintext issue) s' = Inr r"
proof -
  have run: "token_create file_lookup file_upsert sample_generator False 1 sample_token_request empty_file_store
      = (Inr \<lparr>ti_record = sample_token_record, ti_plaintext = build_connector_plaintext_token ''i'' ''s''\<rparr>, sample_file_store)"
    using sample_material [of empty_file_store] sample_upsert
    by (simp add: token_create_def sample_token_request_def trim_token_sample zero_time_def empty_file_store_def file_lookup_def
        sample_token_record_def) (simp add: sample_generator_def)
  obtain t where "new_file_store False (fs_disk sample_file_store) = Inr t"
    using file_inv_restart [OF sample_file_inv] by blast
  from issued_token_is_accepted [OF empty_file_inv sample_generator_ok run _ this, of 5] run show ?thesis
    by (simp add: sample_token_request_def trim_token_sample not_expired_def zero_time_def)
qed


theorem rotated_token_is_refused_witness:
  "\<exists>issue s' e r. token_rotate file_lookup (\<lambda>s. sorted_token_records (fs_map s)) file_replace_all
       (sample_generator\<lparr>tg_id := \<lambda>a. Inr ''j''\<rparr>) False 2 ''i'' sample_file_store = (Inr issue, s')
     \<and> token_verdict file_lookup sample_verify 5 ''c'' (build_connector_plaintext_token ''i'' ''s'') s' = Inl e
     \<and> token_verdict file_lookup sample_verify 5 ''c'' (ti_plaintext issue) s' = Inr r"
proof -
  let ?gen = "sample_generator\<lparr>tg_id := \<lambda>a. Inr ''j''\<rparr>"
  have gen: "generator_ok ?gen sample_verify" using sample_generator_ok by (simp add: generator_ok_def)
  have mat: "generate_unique_token_material file_lookup ?gen sample_file_store = Inr (''j'', ''s'')"
    by (simp add: generate_unique_token_material_def upt_conv_Cons sample_generator_def trim_token_sample is_valid_token_id_def
        is_token_char_def sample_file_store_def file_lookup_def)
  have look: "file_lookup ''i'' sample_file_store = Some sample_token_record"
    by (simp add: file_lookup_def sample_file_store_def trim_token_sample)
  let ?old = "sample_token_record\<lparr>tk_status := TokenRevoked, tk_rotated := 2\<rparr>"
  let ?new = "fresh_token_record ''j'' ''c'' ''hs'' 2 0 []"
  have list: "sorted_token_records (fs_map sample_file_store) = [sample_token_record]"
    by (simp add: sorted_token_records_def sample_file_store_def)
  have old: "normal_record ?old" by (rule normal_record_revoked) (simp add: normal_record_def sample_record_normal)
  have new: "normal_record ?new"
    by (simp add: normal_record_def fresh_record_normal trim_token_sample is_valid_token_id_def is_token_char_def
        normalize_token_metadata_def)
  have ids: "tk_id ?old = ''i''" "tk_id ?new = ''j''" by (simp_all add: sample_token_record_def fresh_token_record_def)
  have set: "normalize_token_record_set [?old, ?new] = Inr (sort_key tk_id [?old, ?new])"
    by (rule normalize_set_normal) (use old new ids in simp_all)
  have "list_all normal_record (sort_key tk_id [?old, ?new])" "distinct (map tk_id (sort_key tk_id [?old, ?new]))"
    using normalize_set_result [OF set] by simp_all
  from normalize_set_normal [OF this]
  have "fst (file_replace_all False [?old, ?new] sample_file_store) = None"
    by (simp only: file_replace_all_def set sum.case commit_file_store_def persist_token_records_def)
       (simp del: sort_key_simps)
  then obtain s' where rep: "file_replace_all False [?old, ?new] sample_file_store = (None, s')" by (metis prod.collapse)
  have run: "token_rotate file_lookup (\<lambda>s. sorted_token_records (fs_map s)) file_replace_all ?gen False 2 ''i'' sample_file_store
      = (Inr \<lparr>ti_record = ?new, ti_plaintext = build_connector_plaintext_token ''j'' ''s''\<rparr>, s')"
    using rep
    by (simp add: token_rotate_def trim_token_sample look mat list)
       (simp add: list sample_generator_def sample_token_record_def fresh_token_record_def validate_token_state_def
         normalize_token_status_def zero_time_def)
  have parse: "parse_connector_token (build_connector_plaintext_token ''i'' ''s'') = Some (trim_space ''i'', ''s'')"
    by (simp add: parse_built is_valid_token_id_def trim_token_sample is_token_char_def)
  from rotated_token_is_refused [OF sample_file_inv gen run parse, of 5 "''c''" False] run look show ?thesis
    by (auto simp: sample_token_record_def fresh_token_record_def not_expired_def zero_time_def)
qed

end
