(* ===== verification/Handshake_Guard.thy ===== *)
theory Handshake_Guard
  imports Protocol_Types
begin

text \<open>
  The protection of the bridge's handshake
  (\<open>cloud-bridge/runtime/bridge/auth/control_handshake_guard.go\<close>): a sliding window limit per key,
  bans after failed authentications, and budgets for connections that are not authenticated yet and
  for authentications under way. Each method is one step under its mutex; \<open>now\<close> is its reading of
  the clock.
\<close>

section \<open>The sliding window\<close>

record rate_limiter =
  rl_window :: duration
  rl_limit :: int
  rl_history :: "(string, gotime list) gomap"
  rl_cleanup :: gotime

definition new_rate_limiter :: "duration \<Rightarrow> int \<Rightarrow> rate_limiter" where
  "new_rate_limiter window limit =
     \<lparr>rl_window = (if window \<le> 0 then 1000000000 else window), rl_limit = (if limit \<le> 0 then 1 else limit),
      rl_history = [], rl_cleanup = zero_time\<rparr>"

definition cleanup_expired_history :: "gotime \<Rightarrow> (string, gotime list) gomap \<Rightarrow> (string, gotime list) gomap" where
  "cleanup_expired_history cutoff m =
     filter (\<lambda>(k, h). h \<noteq> []) (map (\<lambda>(k, h). (k, filter (\<lambda>t. \<not> t < cutoff) h)) m)"

definition limiter_history :: "string \<Rightarrow> rate_limiter \<Rightarrow> gotime list" where
  "limiter_history key l = (case map_of (rl_history l) key of None \<Rightarrow> [] | Some h \<Rightarrow> h)"

definition limiter_allow :: "string \<Rightarrow> gotime \<Rightarrow> rate_limiter \<Rightarrow> bool \<times> rate_limiter" where
  "limiter_allow raw now l =
     (let key = trim_space raw; cutoff = now - rl_window l
      in if key = [] then (True, l)
         else
           let l1 = (if is_zero (rl_cleanup l) \<or> \<not> now < rl_cleanup l + rl_window l
                     then l\<lparr>rl_history := cleanup_expired_history cutoff (rl_history l), rl_cleanup := now\<rparr> else l);
               kept = filter (\<lambda>t. \<not> t < cutoff) (limiter_history key l1)
           in if int (length kept) \<ge> rl_limit l1
              then (False, l1\<lparr>rl_history := map_put key kept (rl_history l1)\<rparr>)
              else (True, l1\<lparr>rl_history := map_put key (kept @ [now]) (rl_history l1)\<rparr>))"


section \<open>The guard\<close>

record handshake_guard_options =
  go_hello_window :: duration
  go_hello_source :: int
  go_hello_connector :: int
  go_failure_window :: duration
  go_failure_source :: int
  go_failure_connector :: int
  go_ban :: duration
  go_unauthenticated :: int
  go_concurrency :: int

record handshake_guard =
  hg_hello_source :: rate_limiter
  hg_hello_connector :: rate_limiter
  hg_failure_source :: rate_limiter
  hg_failure_connector :: rate_limiter
  hg_ban :: duration
  hg_ban_source :: "(string, gotime) gomap"
  hg_ban_connector :: "(string, gotime) gomap"
  hg_unauthenticated :: int
  hg_concurrency :: int
  hg_unauthenticated_budget :: int
  hg_concurrency_budget :: int

definition or_default :: "int \<Rightarrow> int \<Rightarrow> int" where
  "or_default v d = (if v \<le> 0 then d else v)"

definition new_handshake_guard :: "handshake_guard_options \<Rightarrow> handshake_guard" where
  "new_handshake_guard opt =
     (let hello = or_default (go_hello_window opt) 10000000000; failure = or_default (go_failure_window opt) 60000000000
      in \<lparr>hg_hello_source = new_rate_limiter hello (or_default (go_hello_source opt) 30),
          hg_hello_connector = new_rate_limiter hello (or_default (go_hello_connector opt) 20),
          hg_failure_source = new_rate_limiter failure (or_default (go_failure_source opt) 20),
          hg_failure_connector = new_rate_limiter failure (or_default (go_failure_connector opt) 10),
          hg_ban = or_default (go_ban opt) 120000000000, hg_ban_source = [], hg_ban_connector = [],
          hg_unauthenticated = 0, hg_concurrency = 0,
          hg_unauthenticated_budget = or_default (go_unauthenticated opt) 512,
          hg_concurrency_budget = or_default (go_concurrency opt) 128\<rparr>)"

definition allow_hello :: "gotime \<Rightarrow> string \<Rightarrow> string \<Rightarrow> handshake_guard \<Rightarrow> (bool \<times> string) \<times> handshake_guard" where
  "allow_hello now source connector g =
     (let s = trim_space source; c = trim_space connector;
          (source_ok, ls) = (if s = [] then (True, hg_hello_source g) else limiter_allow s now (hg_hello_source g));
          g1 = g\<lparr>hg_hello_source := ls\<rparr>
      in if \<not> source_ok then ((False, ''source_ip''), g1)
         else
           let (connector_ok, lc) = (if c = [] then (True, hg_hello_connector g1) else limiter_allow c now (hg_hello_connector g1));
               g2 = g1\<lparr>hg_hello_connector := lc\<rparr>
           in if \<not> connector_ok then ((False, ''connector_id''), g2) else ((True, []), g2))"

text \<open>The end of the ban if there is one, and the map without a ban that has ended.\<close>

definition check_ban :: "gotime \<Rightarrow> string \<Rightarrow> (string, gotime) gomap \<Rightarrow> gotime option \<times> (string, gotime) gomap" where
  "check_ban now key bans =
     (if key = [] then (None, bans)
      else case map_of bans key of
             None \<Rightarrow> (None, bans)
           | Some until \<Rightarrow> if until > now then (Some until, bans) else (None, map_del key bans))"

definition is_auth_banned ::
    "gotime \<Rightarrow> string \<Rightarrow> string \<Rightarrow> handshake_guard \<Rightarrow> (string \<times> gotime) option \<times> handshake_guard" where
  "is_auth_banned now source connector g =
     (case check_ban now (trim_space source) (hg_ban_source g) of
        (Some until, bans) \<Rightarrow> (Some (''source_ip'', until), g\<lparr>hg_ban_source := bans\<rparr>)
      | (None, bans) \<Rightarrow>
          let g1 = g\<lparr>hg_ban_source := bans\<rparr>
          in case check_ban now (trim_space connector) (hg_ban_connector g1) of
               (Some until, bans) \<Rightarrow> (Some (''connector_id'', until), g1\<lparr>hg_ban_connector := bans\<rparr>)
             | (None, bans) \<Rightarrow> (None, g1\<lparr>hg_ban_connector := bans\<rparr>))"

definition record_auth_failure ::
    "gotime \<Rightarrow> string \<Rightarrow> string \<Rightarrow> handshake_guard \<Rightarrow> (string \<times> gotime) option \<times> handshake_guard" where
  "record_auth_failure now source connector g =
     (let s = trim_space source; c = trim_space connector; until = now + hg_ban g;
          (source_ok, ls) = (if s = [] then (True, hg_failure_source g) else limiter_allow s now (hg_failure_source g));
          g1 = g\<lparr>hg_failure_source := ls\<rparr>
      in if \<not> source_ok then (Some (''source_ip'', until), g1\<lparr>hg_ban_source := map_put s until (hg_ban_source g1)\<rparr>)
         else
           let (connector_ok, lc) = (if c = [] then (True, hg_failure_connector g1) else limiter_allow c now (hg_failure_connector g1));
               g2 = g1\<lparr>hg_failure_connector := lc\<rparr>
           in if \<not> connector_ok
              then (Some (''connector_id'', until), g2\<lparr>hg_ban_connector := map_put c until (hg_ban_connector g2)\<rparr>)
              else (None, g2))"

definition try_acquire_unauthenticated :: "handshake_guard \<Rightarrow> bool \<times> handshake_guard" where
  "try_acquire_unauthenticated g =
     (if hg_unauthenticated g \<ge> hg_unauthenticated_budget g then (False, g)
      else (True, g\<lparr>hg_unauthenticated := hg_unauthenticated g + 1\<rparr>))"

definition release_unauthenticated :: "handshake_guard \<Rightarrow> handshake_guard" where
  "release_unauthenticated g =
     (if hg_unauthenticated g \<le> 0 then g\<lparr>hg_unauthenticated := 0\<rparr>
      else g\<lparr>hg_unauthenticated := hg_unauthenticated g - 1\<rparr>)"

definition try_acquire_concurrency :: "handshake_guard \<Rightarrow> bool \<times> handshake_guard" where
  "try_acquire_concurrency g =
     (if hg_concurrency g \<ge> hg_concurrency_budget g then (False, g)
      else (True, g\<lparr>hg_concurrency := hg_concurrency g + 1\<rparr>))"

definition release_concurrency :: "handshake_guard \<Rightarrow> handshake_guard" where
  "release_concurrency g =
     (if hg_concurrency g \<le> 0 then g\<lparr>hg_concurrency := 0\<rparr> else g\<lparr>hg_concurrency := hg_concurrency g - 1\<rparr>)"

definition should_count_for_auth_failure_ban :: "string \<Rightarrow> bool" where
  "should_count_for_auth_failure_ban code \<longleftrightarrow>
     trim_space code \<in> {''auth_invalid_method'', ''auth_invalid_token'', ''auth_token_expired'', ''auth_token_revoked'',
       ''auth_connector_mismatch''}"

definition normalize_public_auth_reject :: "string \<Rightarrow> string \<Rightarrow> string \<times> string" where
  "normalize_public_auth_reject code msg =
     (let c = trim_space code
      in if c \<in> {''auth_invalid_token'', ''auth_token_revoked'', ''auth_connector_mismatch''}
         then (''auth_invalid_token'', ''authentication rejected'')
         else if c = ''auth_rate_limited'' then (''auth_rate_limited'', ''authentication rejected'')
         else (c, trim_space msg))"


section \<open>The limiter against its specification\<close>

text \<open>
  Calls of a limiter in their order, and the specification: a call is let through iff fewer than
  \<open>limit\<close> calls with its key that were let through lie in the window that ends with it.
\<close>

fun limiter_run :: "(string \<times> gotime) list \<Rightarrow> rate_limiter \<Rightarrow> bool list \<times> rate_limiter" where
  "limiter_run [] l = ([], l)"
| "limiter_run ((key, now) # calls) l =
     (let (ok, l1) = limiter_allow key now l; (oks, l2) = limiter_run calls l1 in (ok # oks, l2))"

fun window_spec :: "duration \<Rightarrow> int \<Rightarrow> (string \<times> gotime) list \<Rightarrow> (string \<times> gotime) list \<Rightarrow> bool list" where
  "window_spec window limit past [] = []"
| "window_spec window limit past ((key, now) # calls) =
     (let k = trim_space key;
          ok = (k = [] \<or> int (length (filter (\<lambda>(j, t). j = k \<and> now - window \<le> t) past)) < limit)
      in ok # window_spec window limit (if ok then past @ [(k, now)] else past) calls)"

text \<open>The history has what the specification needs, from the last call on.\<close>

definition history_covers :: "gotime \<Rightarrow> (string \<times> gotime) list \<Rightarrow> rate_limiter \<Rightarrow> bool" where
  "history_covers latest past l \<longleftrightarrow> keys_distinct (rl_history l) \<and>
     (\<forall>k. k \<noteq> [] \<longrightarrow> filter (\<lambda>t. latest - rl_window l \<le> t) (limiter_history k l)
            = filter (\<lambda>t. latest - rl_window l \<le> t) (map snd (filter (\<lambda>(j, t). j = k) past)))"

lemma filter_stronger: "(\<And>x. P x \<Longrightarrow> Q x) \<Longrightarrow> filter P (filter Q xs) = filter P xs"
  by (induction xs) auto

lemma limiter_history_cleanup:
  "keys_distinct m \<Longrightarrow> limiter_history k (l\<lparr>rl_history := cleanup_expired_history cutoff m, rl_cleanup := now\<rparr>)
     = filter (\<lambda>t. \<not> t < cutoff) (limiter_history k (l\<lparr>rl_history := m\<rparr>))"
proof -
  assume "keys_distinct m"
  then have "(case map_of (cleanup_expired_history cutoff m) k of None \<Rightarrow> [] | Some h \<Rightarrow> h)
      = filter (\<lambda>t. \<not> t < cutoff) (case map_of m k of None \<Rightarrow> [] | Some h \<Rightarrow> h)"
  proof (induction m)
    case (Cons e m)
    obtain k' h where e: "e = (k', h)" by fastforce
    have "k = k' \<Longrightarrow> map_of (cleanup_expired_history cutoff m) k = None"
      using Cons.prems e by (force simp: cleanup_expired_history_def map_of_eq_None_iff)
    with Cons e show ?case by (auto simp: cleanup_expired_history_def)
  qed (simp add: cleanup_expired_history_def)
  then show ?thesis by (simp add: limiter_history_def)
qed


lemma cleanup_keys: "keys_distinct m \<Longrightarrow> keys_distinct (cleanup_expired_history cutoff m)"
  by (simp add: cleanup_expired_history_def distinct_map_filter case_prod_unfold comp_def)

lemma filter_past:
  "map snd (filter (\<lambda>(j, t). j = k \<and> c \<le> t) past) = filter (\<lambda>t. c \<le> t) (map snd (filter (\<lambda>(j, t). j = k) past))"
  by (induction past) auto

lemma limiter_step:
  assumes cov: "history_covers latest past l" and le: "latest \<le> now" and run: "limiter_allow key now l = (ok, l')"
  shows "ok = (trim_space key = [] \<or> int (length (filter (\<lambda>(j, t). j = trim_space key \<and> now - rl_window l \<le> t) past)) < rl_limit l)
    \<and> history_covers now (if ok then past @ [(trim_space key, now)] else past) l'
    \<and> rl_window l' = rl_window l \<and> rl_limit l' = rl_limit l"
proof -
  let ?w = "rl_window l" and ?k = "trim_space key"
  have dist: "keys_distinct (rl_history l)" using cov by (simp add: history_covers_def)
  have now: "filter (\<lambda>t. now - ?w \<le> t) (limiter_history k l)
      = filter (\<lambda>t. now - ?w \<le> t) (map snd (filter (\<lambda>(j, t). j = k) past))" if "k \<noteq> []" for k
  proof -
    have "filter (\<lambda>t. now - ?w \<le> t) (filter (\<lambda>t. latest - ?w \<le> t) xs) = filter (\<lambda>t. now - ?w \<le> t) xs" for xs
      by (rule filter_stronger) (use le in simp)
    then show ?thesis using cov that unfolding history_covers_def by metis
  qed
  show ?thesis
  proof (cases "?k = []")
    case True
    then show ?thesis using run now dist by (auto simp: limiter_allow_def history_covers_def)
  next
    case False
    define l1 where "l1 = (if is_zero (rl_cleanup l) \<or> \<not> now < rl_cleanup l + ?w
        then l\<lparr>rl_history := cleanup_expired_history (now - ?w) (rl_history l), rl_cleanup := now\<rparr> else l)"
    have l1: "rl_window l1 = ?w" "rl_limit l1 = rl_limit l" "keys_distinct (rl_history l1)"
      using dist by (simp_all add: l1_def cleanup_keys)
    have "filter (\<lambda>t. now - ?w \<le> t) (limiter_history k l1) = filter (\<lambda>t. now - ?w \<le> t) (limiter_history k l)" for k
      unfolding l1_def using limiter_history_cleanup [OF dist, where k = k and l = l and cutoff = "now - ?w" and now = now] by (simp add: not_less)
    with now have hist: "filter (\<lambda>t. now - ?w \<le> t) (limiter_history k l1)
        = filter (\<lambda>t. now - ?w \<le> t) (map snd (filter (\<lambda>(j, t). j = k) past))" if "k \<noteq> []" for k using that by simp
    let ?kept = "filter (\<lambda>t. \<not> t < now - ?w) (limiter_history ?k l1)"
    have kept: "?kept = filter (\<lambda>t. now - ?w \<le> t) (map snd (filter (\<lambda>(j, t). j = ?k) past))"
      using hist [OF False] by (simp add: not_less)
    then have len: "length ?kept = length (filter (\<lambda>(j, t). j = ?k \<and> now - ?w \<le> t) past)"
      by (metis filter_past length_map)
    have res: "ok = (int (length ?kept) < rl_limit l)"
        "l' = l1\<lparr>rl_history := map_put ?k (if ok then ?kept @ [now] else ?kept) (rl_history l1)\<rparr>"
      using run False l1(2) by (auto simp: limiter_allow_def Let_def l1_def [symmetric] split: if_splits)
    have look: "limiter_history k l' = (if k = ?k then (if ok then ?kept @ [now] else ?kept) else limiter_history k l1)" for k
      by (simp add: res(2) limiter_history_def)
    have win: "rl_window l' = ?w" "rl_limit l' = rl_limit l" "keys_distinct (rl_history l')"
      using l1 by (simp_all add: res(2))
    have "0 \<le> ?w \<or> ?w < 0" by auto
    have "filter (\<lambda>t. now - ?w \<le> t) (limiter_history k l')
        = filter (\<lambda>t. now - ?w \<le> t) (map snd (filter (\<lambda>(j, t). j = k) (if ok then past @ [(?k, now)] else past)))"
      if "k \<noteq> []" for k
      using hist [OF that] hist [OF False] by (auto simp: look not_less filter_stronger)
    then show ?thesis using res(1) len False win by (auto simp: history_covers_def)
  qed
qed

lemma limiter_run_spec:
  "history_covers latest past l \<Longrightarrow> sorted (latest # map snd calls) \<Longrightarrow>
   fst (limiter_run calls l) = window_spec (rl_window l) (rl_limit l) past calls"
proof (induction calls arbitrary: past l latest)
  case (Cons call calls)
  obtain key now where call: "call = (key, now)" by fastforce
  obtain ok l' where run: "limiter_allow key now l = (ok, l')" by fastforce
  have le: "latest \<le> now" "sorted (now # map snd calls)" using Cons.prems(2) call by auto
  note step = limiter_step [OF Cons.prems(1) le(1) run]
  from Cons.IH [of now "if ok then past @ [(trim_space key, now)] else past" l'] step le(2)
  show ?case by (cases ok) (auto simp: call run case_prod_unfold Let_def)
qed simp

lemma history_covers_new: "history_covers latest [] (new_rate_limiter window limit)"
  by (simp add: history_covers_def new_rate_limiter_def limiter_history_def)

text \<open>
  The limiter, with its histories that are thrown away now and then, decides like the plain rule:
  a call is let through iff fewer than the limit of the calls for its key that were let through lie
  in the window that ends with it.
\<close>

theorem limiter_decides_by_window:
  assumes "sorted (map snd calls)"
  shows "fst (limiter_run calls (new_rate_limiter window limit))
    = window_spec (rl_window (new_rate_limiter window limit)) (rl_limit (new_rate_limiter window limit)) [] calls"
proof (cases calls)
  case (Cons call rest)
  then show ?thesis
    using limiter_run_spec [OF history_covers_new, of "snd call" calls window limit] assms by (cases call) auto
qed simp


section \<open>Floods are bounded\<close>

definition in_window :: "string \<Rightarrow> gotime \<Rightarrow> duration \<Rightarrow> (string \<times> gotime) list \<Rightarrow> nat" where
  "in_window k u window past = length (filter (\<lambda>(j, t). j = k \<and> u \<le> t \<and> t \<le> u + window) past)"

definition window_bounded :: "duration \<Rightarrow> int \<Rightarrow> gotime \<Rightarrow> (string \<times> gotime) list \<Rightarrow> bool" where
  "window_bounded window limit latest past \<longleftrightarrow>
     (\<forall>e \<in> set past. snd e \<le> latest) \<and> (\<forall>k u. k \<noteq> [] \<longrightarrow> int (in_window k u window past) \<le> limit)"

lemma in_window_snoc:
  "in_window k u w (past @ [(j, t)]) = in_window k u w past + (if j = k \<and> u \<le> t \<and> t \<le> u + w then 1 else 0)"
  by (simp add: in_window_def)

lemma length_filter_mono: "(\<And>x. x \<in> set xs \<Longrightarrow> P x \<Longrightarrow> Q x) \<Longrightarrow> length (filter P xs) \<le> length (filter Q xs)"
  by (induction xs) (auto intro: le_SucI)

lemma window_bounded_step:
  assumes "window_bounded w limit latest past" "latest \<le> now"
    and "ok \<Longrightarrow> k = [] \<or> int (length (filter (\<lambda>(j, t). j = k \<and> now - w \<le> t) past)) < limit"
  shows "window_bounded w limit now (if ok then past @ [(k, now)] else past)"
proof -
  have "int (in_window j u w (past @ [(k, now)])) \<le> limit" if ok "j \<noteq> []" for j u
  proof (cases "j = k \<and> u \<le> now \<and> now \<le> u + w")
    case True
    have "in_window j u w past \<le> length (filter (\<lambda>(j', t). j' = k \<and> now - w \<le> t) past)"
      unfolding in_window_def by (rule length_filter_mono) (use True in auto)
    with True assms(3) that show ?thesis by (auto simp: in_window_snoc)
  next
    case False
    then show ?thesis using assms(1) that(2) by (auto simp: in_window_snoc window_bounded_def)
  qed
  then show ?thesis using assms(1,2) by (auto simp: window_bounded_def intro: order_trans)
qed

text \<open>The Hellos that are let through, with source, connector and time, oldest first.\<close>

fun hellos_allowed :: "(string \<times> string \<times> gotime) list \<Rightarrow> handshake_guard \<Rightarrow> (string \<times> string \<times> gotime) list" where
  "hellos_allowed [] g = []"
| "hellos_allowed ((s, c, now) # hellos) g =
     (let ((ok, dimension), g1) = allow_hello now s c g
      in (if ok then [(trim_space s, trim_space c, now)] else []) @ hellos_allowed hellos g1)"

definition limiter_ok :: "gotime \<Rightarrow> (string \<times> gotime) list \<Rightarrow> rate_limiter \<Rightarrow> bool" where
  "limiter_ok latest past l \<longleftrightarrow> history_covers latest past l \<and> window_bounded (rl_window l) (rl_limit l) latest past"

lemma limiter_ok_step:
  assumes "limiter_ok latest past l" "latest \<le> now" "limiter_allow key now l = (ok, l')"
  shows "limiter_ok now (if ok then past @ [(trim_space key, now)] else past) l' \<and> rl_window l' = rl_window l \<and> rl_limit l' = rl_limit l"
  using assms limiter_step [of latest past l now key ok l']
    window_bounded_step [of "rl_window l" "rl_limit l" latest past now ok "trim_space key"]
  by (auto simp: limiter_ok_def)

lemma limiter_ok_later: "limiter_ok latest past l \<Longrightarrow> latest \<le> now \<Longrightarrow> limiter_ok now past l"
proof -
  assume ok: "limiter_ok latest past l" "latest \<le> now"
  have "filter (\<lambda>t. now - rl_window l \<le> t) (filter (\<lambda>t. latest - rl_window l \<le> t) xs) = filter (\<lambda>t. now - rl_window l \<le> t) xs" for xs
    by (rule filter_stronger) (use ok(2) in simp)
  then have "history_covers now past l" using ok(1) unfolding limiter_ok_def history_covers_def by metis
  with ok show ?thesis by (auto simp: limiter_ok_def window_bounded_def)
qed

lemma allow_hello_step:
  assumes "limiter_ok latest ps (hg_hello_source g)" "limiter_ok latest pc (hg_hello_connector g)" "latest \<le> now"
    and run: "allow_hello now s c g = ((ok, dimension), g')"
  obtains ps' pc' where "limiter_ok now ps' (hg_hello_source g')" "limiter_ok now pc' (hg_hello_connector g')"
    "rl_window (hg_hello_source g') = rl_window (hg_hello_source g)" "rl_limit (hg_hello_source g') = rl_limit (hg_hello_source g)"
    "rl_window (hg_hello_connector g') = rl_window (hg_hello_connector g)" "rl_limit (hg_hello_connector g') = rl_limit (hg_hello_connector g)"
    "ps' = ps \<or> ps' = ps @ [(trim_space s, now)]" "pc' = pc \<or> pc' = pc @ [(trim_space c, now)]"
    "ok \<Longrightarrow> trim_space s \<noteq> [] \<Longrightarrow> ps' = ps @ [(trim_space s, now)]"
    "ok \<Longrightarrow> trim_space c \<noteq> [] \<Longrightarrow> pc' = pc @ [(trim_space c, now)]"
proof -
  obtain sok ls where s: "(if trim_space s = [] then (True, hg_hello_source g) else limiter_allow (trim_space s) now (hg_hello_source g))
      = (sok, ls)" by fastforce
  obtain cok lc where c: "(if trim_space c = [] then (True, hg_hello_connector g) else limiter_allow (trim_space c) now (hg_hello_connector g))
      = (cok, lc)" by fastforce
  define ps' where "ps' = (if trim_space s \<noteq> [] \<and> sok then ps @ [(trim_space s, now)] else ps)"
  define pc' where "pc' = (if trim_space c \<noteq> [] \<and> cok then pc @ [(trim_space c, now)] else pc)"
  have src: "limiter_ok now ps' ls \<and> rl_window ls = rl_window (hg_hello_source g) \<and> rl_limit ls = rl_limit (hg_hello_source g)"
    using s limiter_ok_step [OF assms(1,3), of "trim_space s" sok ls] limiter_ok_later [OF assms(1,3)]
    by (auto simp: ps'_def split: if_splits)
  have con: "limiter_ok now pc' lc \<and> rl_window lc = rl_window (hg_hello_connector g) \<and> rl_limit lc = rl_limit (hg_hello_connector g)"
    using c limiter_ok_step [OF assms(2,3), of "trim_space c" cok lc] limiter_ok_later [OF assms(2,3)]
    by (auto simp: pc'_def split: if_splits)
  have res: "ok = (sok \<and> cok)" "g' = (if sok then g\<lparr>hg_hello_source := ls, hg_hello_connector := lc\<rparr> else g\<lparr>hg_hello_source := ls\<rparr>)"
    using run s c by (auto simp: allow_hello_def Let_def case_prod_unfold split: if_splits)
  show ?thesis
  proof (cases sok)
    case True
    show ?thesis by (rule that [of ps' pc']) (use src con res True in \<open>auto simp: ps'_def pc'_def\<close>)
  next
    case False
    show ?thesis
      by (rule that [of ps' pc]) (use src res False limiter_ok_later [OF assms(2,3)] in \<open>auto simp: ps'_def\<close>)
  qed
qed


lemma in_window_append: "in_window k u w (xs @ ys) = in_window k u w xs + in_window k u w ys"
  by (simp add: in_window_def)

lemma hellos_allowed_bounded:
  assumes "limiter_ok latest ps (hg_hello_source g)" "limiter_ok latest pc (hg_hello_connector g)"
    and "sorted (latest # map (\<lambda>(s, c, t). t) hellos)" and "k \<noteq> []"
  shows "int (in_window k u (rl_window (hg_hello_source g)) (ps @ map (\<lambda>(s, c, t). (s, t)) (hellos_allowed hellos g)))
      \<le> rl_limit (hg_hello_source g)
    \<and> int (in_window k u (rl_window (hg_hello_connector g)) (pc @ map (\<lambda>(s, c, t). (c, t)) (hellos_allowed hellos g)))
      \<le> rl_limit (hg_hello_connector g)"
  using assms(1-3)
proof (induction hellos arbitrary: latest ps pc g)
  case Nil
  then show ?case using assms(4) by (auto simp: limiter_ok_def window_bounded_def)
next
  case (Cons hello hellos)
  obtain s c now where hello: "hello = (s, c, now)" by (cases hello) auto
  obtain ok dimension g' where run: "allow_hello now s c g = ((ok, dimension), g')" by (metis prod.collapse)
  have le: "latest \<le> now" "sorted (now # map (\<lambda>(s, c, t). t) hellos)" using Cons.prems(3) hello by auto
  obtain ps' pc' where step: "limiter_ok now ps' (hg_hello_source g')" "limiter_ok now pc' (hg_hello_connector g')"
    "rl_window (hg_hello_source g') = rl_window (hg_hello_source g)" "rl_limit (hg_hello_source g') = rl_limit (hg_hello_source g)"
    "rl_window (hg_hello_connector g') = rl_window (hg_hello_connector g)" "rl_limit (hg_hello_connector g') = rl_limit (hg_hello_connector g)"
    "ps' = ps \<or> ps' = ps @ [(trim_space s, now)]" "pc' = pc \<or> pc' = pc @ [(trim_space c, now)]"
    "ok \<Longrightarrow> trim_space s \<noteq> [] \<Longrightarrow> ps' = ps @ [(trim_space s, now)]"
    "ok \<Longrightarrow> trim_space c \<noteq> [] \<Longrightarrow> pc' = pc @ [(trim_space c, now)]"
    by (rule allow_hello_step [OF Cons.prems(1,2) le(1) run]) blast
  have run': "hellos_allowed (hello # hellos) g
      = (if ok then [(trim_space s, trim_space c, now)] else []) @ hellos_allowed hellos g'"
    by (simp add: hello run)
  let ?S = "rl_window (hg_hello_source g)" and ?C = "rl_window (hg_hello_connector g)"
  have "in_window k u ?S (ps @ (if ok then [(trim_space s, now)] else [])) \<le> in_window k u ?S ps'"
    using step(7,9) assms(4) by (cases ok; cases "trim_space s = []") (auto simp: in_window_append in_window_def)
  moreover have "in_window k u ?C (pc @ (if ok then [(trim_space c, now)] else [])) \<le> in_window k u ?C pc'"
    using step(8,10) assms(4) by (cases ok; cases "trim_space c = []") (auto simp: in_window_append in_window_def)
  ultimately show ?case
    using Cons.IH [OF step(1,2) le(2)] unfolding run' step(3-6) by (auto simp: in_window_append)
qed

text \<open>
  C31. In any time span as long as the window, no more Hellos are let through for one source address
  than its limit, and no more for one connector than its limit, whatever is sent and however the
  attempts are spread over sources and connectors.
\<close>

theorem hello_floods_are_bounded:
  assumes "sorted (map (\<lambda>(s, c, t). t) hellos)" and "k \<noteq> []"
  shows "int (length (filter (\<lambda>(s, c, t). s = k \<and> u \<le> t \<and> t \<le> u + rl_window (hg_hello_source (new_handshake_guard opt)))
           (hellos_allowed hellos (new_handshake_guard opt)))) \<le> rl_limit (hg_hello_source (new_handshake_guard opt))
    \<and> int (length (filter (\<lambda>(s, c, t). c = k \<and> u \<le> t \<and> t \<le> u + rl_window (hg_hello_connector (new_handshake_guard opt)))
           (hellos_allowed hellos (new_handshake_guard opt)))) \<le> rl_limit (hg_hello_connector (new_handshake_guard opt))"
proof (cases hellos)
  case (Cons hello rest)
  obtain s c t where hello: "hello = (s, c, t)" by (cases hello) auto
  let ?g = "new_handshake_guard opt"
  have new: "limiter_ok t [] (new_rate_limiter window limit)" for window limit
    using history_covers_new by (simp add: limiter_ok_def window_bounded_def in_window_def new_rate_limiter_def)
  have "limiter_ok t [] (hg_hello_source ?g)" "limiter_ok t [] (hg_hello_connector ?g)"
    using new by (simp_all add: new_handshake_guard_def Let_def)
  from hellos_allowed_bounded [OF this, of hellos k u] assms Cons hello
  show ?thesis by (simp add: in_window_def filter_map comp_def case_prod_unfold)
qed (simp add: new_handshake_guard_def new_rate_limiter_def Let_def)


section \<open>Bans\<close>

text \<open>
  A ban holds for exactly its duration: after the failure that starts it, every attempt with the
  same source and connector is found banned until then, and none at or after its end, as far as this
  ban is concerned.
\<close>

theorem ban_holds_until_its_end:
  assumes "record_auth_failure now source connector g = (Some (dimension, until), g')"
    and "is_auth_banned later source connector g' = (verdict, g'')"
  shows "until = now + hg_ban g
    \<and> (later < until \<longrightarrow> verdict \<noteq> None)
    \<and> (until \<le> later \<and> dimension = ''source_ip'' \<longrightarrow> map_of (hg_ban_source g'') (trim_space source) = None)
    \<and> (dimension = ''source_ip'' \<and> later < until \<longrightarrow> verdict = Some (''source_ip'', until))"
  using assms
  by (auto simp: record_auth_failure_def is_auth_banned_def check_ban_def Let_def case_prod_unfold
      split: if_splits option.splits)


section \<open>Budgets\<close>

datatype budget_call = AcquireConnection | ReleaseConnection | AcquireAuth | ReleaseAuth

fun budget_exec :: "budget_call \<Rightarrow> handshake_guard \<Rightarrow> handshake_guard" where
  "budget_exec AcquireConnection g = snd (try_acquire_unauthenticated g)"
| "budget_exec ReleaseConnection g = release_unauthenticated g"
| "budget_exec AcquireAuth g = snd (try_acquire_concurrency g)"
| "budget_exec ReleaseAuth g = release_concurrency g"

definition budgets_ok :: "handshake_guard \<Rightarrow> bool" where
  "budgets_ok g \<longleftrightarrow> 0 \<le> hg_unauthenticated g \<and> hg_unauthenticated g \<le> hg_unauthenticated_budget g
     \<and> 0 \<le> hg_concurrency g \<and> hg_concurrency g \<le> hg_concurrency_budget g"

lemma budgets_ok_exec: "budgets_ok g \<Longrightarrow> budgets_ok (budget_exec call g)"
  by (cases call)
     (auto simp: budgets_ok_def try_acquire_unauthenticated_def release_unauthenticated_def try_acquire_concurrency_def
       release_concurrency_def)

lemma budgets_ok_run: "budgets_ok (fold budget_exec calls (new_handshake_guard opt))"
proof -
  have "budgets_ok g \<Longrightarrow> budgets_ok (fold budget_exec calls g)" for g
    by (induction calls arbitrary: g) (simp_all add: budgets_ok_exec)
  moreover have "budgets_ok (new_handshake_guard opt)" by (simp add: budgets_ok_def new_handshake_guard_def or_default_def Let_def)
  ultimately show ?thesis by blast
qed


section \<open>Examples\<close>

definition sample_guard_options :: handshake_guard_options where
  "sample_guard_options = \<lparr>go_hello_window = 10, go_hello_source = 2, go_hello_connector = 1, go_failure_window = 10,
     go_failure_source = 1, go_failure_connector = 1, go_ban = 5, go_unauthenticated = 1, go_concurrency = 1\<rparr>"

lemma trim_guard_sample: "trim_space ''s'' = ''s''" "trim_space ''c'' = ''c''" "trim_space ''d'' = ''d''"
  by (rule trim_space_graphic; simp add: graphic_def)+

theorem limiter_decides_by_window_witness:
  "fst (limiter_run [(''s'', 1), (''s'', 2), (''s'', 12)] (new_rate_limiter 10 1)) = [True, False, True]"
proof -
  have "sorted (map snd [(''s'', 1::int), (''s'', 2), (''s'', 12)])" by simp
  from limiter_decides_by_window [OF this, of 10 1] show ?thesis
    by (simp add: trim_guard_sample new_rate_limiter_def)
qed

theorem hello_floods_are_bounded_witness:
  "length (filter (\<lambda>(s, c, t). s = ''s'' \<and> 0 \<le> t \<and> t \<le> 10)
     (hellos_allowed [(''s'', ''c'', 1), (''s'', ''d'', 2), (''s'', [], 3)] (new_handshake_guard sample_guard_options))) \<le> 2"
proof -
  have "sorted (map (\<lambda>(s, c, t). t) [(''s'', ''c'', 1::int), (''s'', ''d'', 2), (''s'', [], 3)])" by simp
  from hello_floods_are_bounded [OF this, of "''s''" 0 sample_guard_options] show ?thesis
    by (simp add: new_handshake_guard_def sample_guard_options_def new_rate_limiter_def or_default_def del: hellos_allowed.simps)
qed

theorem ban_holds_until_its_end_witness:
  "let g = snd (record_auth_failure 1 ''s'' ''c'' (new_handshake_guard sample_guard_options));
       (banned, g') = record_auth_failure 2 ''s'' ''c'' g
   in banned = Some (''source_ip'', 7) \<and> fst (is_auth_banned 6 ''s'' ''c'' g') = Some (''source_ip'', 7)"
proof -
  let ?g = "snd (record_auth_failure 1 ''s'' ''c'' (new_handshake_guard sample_guard_options))"
  have run: "record_auth_failure 2 ''s'' ''c'' ?g = (Some (''source_ip'', 7), snd (record_auth_failure 2 ''s'' ''c'' ?g))"
    by (simp add: record_auth_failure_def new_handshake_guard_def sample_guard_options_def new_rate_limiter_def or_default_def
        limiter_allow_def limiter_history_def cleanup_expired_history_def trim_guard_sample zero_time_def Let_def)
  from ban_holds_until_its_end [OF run prod.collapse [symmetric], of 6] run show ?thesis
    by (simp add: Let_def case_prod_unfold prod_eq_iff)
qed

end
