(* ===== verification/Bridge_Sessions.thy ===== *)
theory Bridge_Sessions
  imports Prelude
begin

text \<open>
  The session registry of the bridge
  (\<open>cloud-bridge/runtime/bridge/registry/session_registry.go\<close>): all sessions, and for each
  connector the session that speaks for it. Every operation is one section under the mutex.
\<close>

section \<open>State\<close>

datatype bridge_session_state =
    SessionActive
  | SessionDraining
  | SessionStale
  | SessionFailed
  | SessionClosed
  | SessionOther string

record session_runtime =
  sr_session :: string
  sr_connector :: string
  sr_epoch :: "64 word"
  sr_binding :: string
  sr_state :: bridge_session_state
  sr_heartbeat :: gotime
  sr_updated_at :: gotime

record session_registry =
  bySessionID :: "(string, session_runtime) gomap"
  byConnector :: "(string, string) gomap"

definition new_session_registry :: session_registry where
  "new_session_registry = \<lparr>bySessionID = [], byConnector = []\<rparr>"

record commit_result =
  PreviousSession :: "session_runtime option"
  PreviousStateChanged :: bool
  CurrentSession :: "session_runtime option"

definition no_commit :: commit_result where
  "no_commit = \<lparr>PreviousSession = None, PreviousStateChanged = False, CurrentSession = None\<rparr>"


section \<open>Operations\<close>

definition upsert_session :: "gotime \<Rightarrow> session_runtime \<Rightarrow> session_registry \<Rightarrow> session_registry" where
  "upsert_session now runtime reg =
     (let s = runtime\<lparr>sr_updated_at := now\<rparr>
      in reg\<lparr>bySessionID := map_put (sr_session s) s (bySessionID reg),
             byConnector := (if sr_connector s \<noteq> []
                             then map_put (sr_connector s) (sr_session s) (byConnector reg)
                             else byConnector reg)\<rparr>)"

definition authority_ended :: "bridge_session_state \<Rightarrow> bool" where
  "authority_ended st \<longleftrightarrow> st = SessionStale \<or> st = SessionFailed \<or> st = SessionClosed"

definition current_session :: "string \<Rightarrow> session_registry \<Rightarrow> session_runtime option" where
  "current_session c reg =
     (case map_of (byConnector reg) c of
        None \<Rightarrow> None
      | Some sid \<Rightarrow> map_of (bySessionID reg) sid)"

text \<open>
  The three steps of \<open>CommitAuthoritative\<close> under the lock: may the session take over from the
  current one, what happens to that one, and the new entry.
\<close>

definition may_take_over :: "string \<Rightarrow> 64 word \<Rightarrow> session_runtime \<Rightarrow> bool" where
  "may_take_over sid epoch current \<longleftrightarrow>
     trim_space (sr_session current) = sid
     \<or> (sr_epoch current > epoch \<longrightarrow> authority_ended (sr_state current))
       \<and> (sr_epoch current = epoch \<longrightarrow> authority_ended (sr_state current))"

definition drain_current ::
    "gotime \<Rightarrow> string \<Rightarrow> string \<Rightarrow> session_registry \<Rightarrow> commit_result \<times> session_registry" where
  "drain_current now c sid reg =
     (case current_session c reg of
        None \<Rightarrow> (no_commit, reg)
      | Some current \<Rightarrow>
          if trim_space (sr_session current) \<noteq> sid
             \<and> (sr_state current = SessionActive \<or> sr_state current = SessionDraining)
          then
            let drained = current\<lparr>sr_state := SessionDraining, sr_updated_at := now\<rparr>;
                key = the (map_of (byConnector reg) c)
            in (no_commit\<lparr>PreviousSession := Some drained, PreviousStateChanged := True\<rparr>,
                reg\<lparr>bySessionID := map_put key drained (bySessionID reg)\<rparr>)
          else (no_commit\<lparr>PreviousSession := Some current\<rparr>, reg))"

definition commit_authoritative ::
    "gotime \<Rightarrow> gotime \<Rightarrow> session_runtime \<Rightarrow> session_registry
       \<Rightarrow> (commit_result \<times> bool) \<times> session_registry" where
  "commit_authoritative wall now0 runtime reg =
     (let sid = trim_space (sr_session runtime); c = trim_space (sr_connector runtime)
      in if sid = [] \<or> c = [] \<or> sr_epoch runtime = 0 then ((no_commit, False), reg)
         else
           let now = now_or wall now0
           in if (case map_of (bySessionID reg) sid of
                    None \<Rightarrow> False | Some existing \<Rightarrow> sr_epoch existing > sr_epoch runtime)
              then ((no_commit, False), reg)
              else if (case current_session c reg of
                         None \<Rightarrow> False
                       | Some current \<Rightarrow> \<not> may_take_over sid (sr_epoch runtime) current)
              then ((no_commit\<lparr>PreviousSession := current_session c reg\<rparr>, False), reg)
              else
                let (result, reg1) = drain_current now c sid reg;
                    s = runtime\<lparr>sr_session := sid, sr_connector := c, sr_updated_at := now,
                          sr_heartbeat := (if sr_state runtime = SessionActive
                                              \<and> is_zero (sr_heartbeat runtime)
                                           then now else sr_heartbeat runtime)\<rparr>
                in ((result\<lparr>CurrentSession := Some s\<rparr>, True),
                    reg1\<lparr>bySessionID := map_put sid s (bySessionID reg1),
                         byConnector := map_put c sid (byConnector reg1)\<rparr>))"

definition mark_session_state ::
    "gotime \<Rightarrow> string \<Rightarrow> bridge_session_state \<Rightarrow> session_registry \<Rightarrow> bool \<times> session_registry" where
  "mark_session_state now sid st reg =
     (case map_of (bySessionID reg) sid of
        None \<Rightarrow> (False, reg)
      | Some s \<Rightarrow> (True, reg\<lparr>bySessionID :=
                     map_put sid (s\<lparr>sr_state := st, sr_updated_at := now\<rparr>) (bySessionID reg)\<rparr>))"

definition record_session_heartbeat ::
    "gotime \<Rightarrow> string \<Rightarrow> session_registry \<Rightarrow> bool \<times> session_registry" where
  "record_session_heartbeat now sid reg =
     (case map_of (bySessionID reg) sid of
        None \<Rightarrow> (False, reg)
      | Some s \<Rightarrow> (True, reg\<lparr>bySessionID :=
                     map_put sid (s\<lparr>sr_heartbeat := now, sr_updated_at := now\<rparr>) (bySessionID reg)\<rparr>))"

definition get_by_session :: "string \<Rightarrow> session_registry \<Rightarrow> session_runtime option" where
  "get_by_session sid reg = map_of (bySessionID reg) sid"

definition get_by_connector :: "string \<Rightarrow> session_registry \<Rightarrow> session_runtime option" where
  "get_by_connector c reg = current_session c reg"

definition remove_session :: "string \<Rightarrow> session_registry \<Rightarrow> session_registry" where
  "remove_session sid reg =
     (let index = (case map_of (bySessionID reg) sid of
                     None \<Rightarrow> byConnector reg
                   | Some s \<Rightarrow>
                       if sr_connector s \<noteq> [] \<and> map_of (byConnector reg) (sr_connector s) = Some sid
                       then map_del (sr_connector s) (byConnector reg) else byConnector reg)
      in reg\<lparr>byConnector := index, bySessionID := map_del sid (bySessionID reg)\<rparr>)"

definition list_sessions :: "session_registry \<Rightarrow> session_runtime list" where
  "list_sessions reg = map snd (bySessionID reg)"

text \<open>The loops of the two sweeps change every entry that meets a condition.\<close>

definition sweep_sessions ::
    "(session_runtime \<Rightarrow> bool) \<Rightarrow> bridge_session_state \<Rightarrow> gotime \<Rightarrow> session_registry
       \<Rightarrow> session_runtime list \<times> session_registry" where
  "sweep_sessions due st now reg =
     (let mark = (\<lambda>s. s\<lparr>sr_state := st, sr_updated_at := now\<rparr>)
      in (map (mark \<circ> snd) (filter (due \<circ> snd) (bySessionID reg)),
          reg\<lparr>bySessionID := map (\<lambda>(k, s). (k, if due s then mark s else s)) (bySessionID reg)\<rparr>))"

definition heartbeat_overdue :: "gotime \<Rightarrow> duration \<Rightarrow> session_runtime \<Rightarrow> bool" where
  "heartbeat_overdue now timeout s \<longleftrightarrow>
     (sr_state s = SessionActive \<or> sr_state s = SessionDraining)
     \<and> \<not> is_zero (sr_heartbeat s) \<and> time_sub now (sr_heartbeat s) > timeout"

definition sweep_heartbeat_timeout ::
    "gotime \<Rightarrow> duration \<Rightarrow> session_registry \<Rightarrow> session_runtime list \<times> session_registry" where
  "sweep_heartbeat_timeout now timeout reg =
     (if timeout \<le> 0 then ([], reg)
      else sweep_sessions (heartbeat_overdue now timeout) SessionStale now reg)"

definition stale_overdue :: "gotime \<Rightarrow> duration \<Rightarrow> session_runtime \<Rightarrow> bool" where
  "stale_overdue now ttl s \<longleftrightarrow> sr_state s = SessionStale \<and> time_sub now (sr_updated_at s) > ttl"

definition sweep_stale_to_closed ::
    "gotime \<Rightarrow> duration \<Rightarrow> session_registry \<Rightarrow> session_runtime list \<times> session_registry" where
  "sweep_stale_to_closed now ttl reg =
     (if ttl \<le> 0 then ([], reg)
      else sweep_sessions (stale_overdue now ttl) SessionClosed now reg)"


section \<open>One authority per connector\<close>

text \<open>
  Sessions are filed under their own identifier, and an active session is the one that the
  connector's index names.
\<close>

definition sessions_inv :: "session_registry \<Rightarrow> bool" where
  "sessions_inv reg \<longleftrightarrow> keys_distinct (bySessionID reg)
     \<and> (\<forall>k s. map_of (bySessionID reg) k = Some s \<longrightarrow> sr_session s = k)
     \<and> (\<forall>k s. map_of (bySessionID reg) k = Some s \<and> sr_state s = SessionActive
           \<longrightarrow> map_of (byConnector reg) (sr_connector s) = Some k)"

lemma sessions_invD:
  assumes "sessions_inv reg"
  shows "keys_distinct (bySessionID reg)"
    and "map_of (bySessionID reg) k = Some s \<Longrightarrow> sr_session s = k"
    and "map_of (bySessionID reg) k = Some s \<Longrightarrow> sr_state s = SessionActive \<Longrightarrow>
         map_of (byConnector reg) (sr_connector s) = Some k"
  using assms unfolding sessions_inv_def by blast+

lemma sessions_inv_new: "sessions_inv new_session_registry"
  by (simp add: sessions_inv_def new_session_registry_def)

lemma sessions_inv_entry:
  assumes "sessions_inv reg" and "map_of (bySessionID reg) k = Some s"
    and "sr_session s' = k" and "sr_connector s' = sr_connector s"
    and "sr_state s' = SessionActive \<longrightarrow> sr_state s = SessionActive"
  shows "sessions_inv (reg\<lparr>bySessionID := map_put k s' (bySessionID reg)\<rparr>)"
  using assms sessions_invD [OF assms(1)]
  by (auto simp: sessions_inv_def simp del: map_of_eq_Some_iff)

lemma sessions_inv_sweep:
  assumes "sessions_inv reg" and "st \<noteq> SessionActive"
  shows "sessions_inv (snd (sweep_sessions due st now reg))"
proof -
  have "map fst (map (\<lambda>(k, s). (k, f s)) m) = map fst m" for f :: "session_runtime \<Rightarrow> session_runtime"
    and m :: "(string, session_runtime) gomap"
    by (induction m) auto
  then show ?thesis
    using assms sessions_invD [OF assms(1)]
    by (auto simp: sessions_inv_def sweep_sessions_def Let_def map_of_map simp del: map_of_eq_Some_iff map_map)
qed

lemma sessions_inv_remove:
  assumes "sessions_inv reg"
  shows "sessions_inv (remove_session sid reg)"
proof (cases "map_of (bySessionID reg) sid")
  case (Some r)
  have "sr_connector s \<noteq> sr_connector r"
    if "map_of (bySessionID reg) k = Some s" "k \<noteq> sid" "sr_state s = SessionActive"
      "map_of (byConnector reg) (sr_connector r) = Some sid" for k s
    using sessions_invD(3) [OF assms that(1,3)] that(2,4) by force
  then show ?thesis
    using Some sessions_invD [OF assms]
    by (auto simp: sessions_inv_def remove_session_def Let_def simp del: map_of_eq_Some_iff)
qed (use sessions_invD [OF assms] in \<open>auto simp: sessions_inv_def remove_session_def Let_def
        simp del: map_of_eq_Some_iff\<close>)

lemma drain_current_effect:
  assumes "sessions_inv reg" and "drain_current now c sid reg = (res, reg1)"
  shows "sessions_inv reg1 \<and> byConnector reg1 = byConnector reg
    \<and> (\<forall>k. map_of (bySessionID reg1) k =
          (case map_of (bySessionID reg) k of None \<Rightarrow> None
           | Some s \<Rightarrow> Some (if map_of (byConnector reg) c = Some k \<and> trim_space k \<noteq> sid
                            \<and> (sr_state s = SessionActive \<or> sr_state s = SessionDraining)
                            then s\<lparr>sr_state := SessionDraining, sr_updated_at := now\<rparr> else s)))"
proof (cases "current_session c reg")
  case None
  then show ?thesis
    using assms by (auto simp: drain_current_def current_session_def simp del: map_of_eq_Some_iff split: option.splits)
next
  case (Some s)
  then obtain k where k: "map_of (byConnector reg) c = Some k" "map_of (bySessionID reg) k = Some s"
    by (auto simp: current_session_def simp del: map_of_eq_Some_iff split: option.splits)
  have "sr_session s = k" using sessions_invD(2) [OF assms(1)] k(2) by blast
  moreover have "sessions_inv (reg\<lparr>bySessionID := map_put k
      (s\<lparr>sr_state := SessionDraining, sr_updated_at := now\<rparr>) (bySessionID reg)\<rparr>)"
    by (rule sessions_inv_entry [OF assms(1) k(2)]) (simp_all add: \<open>sr_session s = k\<close>)
  ultimately show ?thesis
    using assms Some k
    by (auto simp: drain_current_def Let_def simp del: map_of_eq_Some_iff split: option.splits if_splits)
qed


definition commit_allowed :: "session_runtime \<Rightarrow> session_registry \<Rightarrow> bool" where
  "commit_allowed runtime reg \<longleftrightarrow>
     trim_space (sr_session runtime) \<noteq> [] \<and> trim_space (sr_connector runtime) \<noteq> [] \<and> sr_epoch runtime \<noteq> 0
     \<and> (\<forall>s. map_of (bySessionID reg) (trim_space (sr_session runtime)) = Some s
            \<longrightarrow> sr_epoch s \<le> sr_epoch runtime)
     \<and> (\<forall>s. current_session (trim_space (sr_connector runtime)) reg = Some s \<longrightarrow>
            trim_space (sr_session s) = trim_space (sr_session runtime)
            \<or> sr_epoch s < sr_epoch runtime \<or> authority_ended (sr_state s))"

definition committed_session :: "gotime \<Rightarrow> session_runtime \<Rightarrow> session_runtime" where
  "committed_session now runtime =
     runtime\<lparr>sr_session := trim_space (sr_session runtime), sr_connector := trim_space (sr_connector runtime),
       sr_updated_at := now,
       sr_heartbeat := (if sr_state runtime = SessionActive \<and> is_zero (sr_heartbeat runtime)
                        then now else sr_heartbeat runtime)\<rparr>"

lemma may_take_over_iff:
  "may_take_over sid epoch s \<longleftrightarrow>
   trim_space (sr_session s) = sid \<or> sr_epoch s < epoch \<or> authority_ended (sr_state s)"
  by (auto simp: may_take_over_def not_less)

lemma commit_allowed_iff:
  "commit_allowed runtime reg \<longleftrightarrow>
     \<not> (trim_space (sr_session runtime) = [] \<or> trim_space (sr_connector runtime) = [] \<or> sr_epoch runtime = 0)
     \<and> \<not> (case map_of (bySessionID reg) (trim_space (sr_session runtime)) of
            None \<Rightarrow> False | Some existing \<Rightarrow> sr_epoch existing > sr_epoch runtime)
     \<and> \<not> (case current_session (trim_space (sr_connector runtime)) reg of
            None \<Rightarrow> False
          | Some current \<Rightarrow> \<not> may_take_over (trim_space (sr_session runtime)) (sr_epoch runtime) current)"
  by (auto simp: commit_allowed_def may_take_over_iff not_less split: option.split)

lemma commit_rejected:
  assumes "\<not> commit_allowed runtime reg"
  shows "\<exists>res. commit_authoritative wall now runtime reg = ((res, False), reg)"
  using assms unfolding commit_allowed_iff de_Morgan_conj not_not
  by (elim disjE) (auto simp: commit_authoritative_def Let_def simp del: split_paired_Ex)

lemma commit_accepted:
  assumes "commit_allowed runtime reg"
  shows "commit_authoritative wall now runtime reg =
    (let (res, reg1) = drain_current (now_or wall now) (trim_space (sr_connector runtime))
           (trim_space (sr_session runtime)) reg;
         s = committed_session (now_or wall now) runtime
     in ((res\<lparr>CurrentSession := Some s\<rparr>, True),
         reg1\<lparr>bySessionID := map_put (trim_space (sr_session runtime)) s (bySessionID reg1),
              byConnector := map_put (trim_space (sr_connector runtime))
                (trim_space (sr_session runtime)) (byConnector reg1)\<rparr>))"
  using assms unfolding commit_allowed_iff
  by (simp add: commit_authoritative_def committed_session_def Let_def)

lemma commit_effect:
  assumes inv: "sessions_inv reg"
    and commit: "commit_authoritative wall now runtime reg = ((res, ok), reg')"
    and sid: "sid = trim_space (sr_session runtime)" and c: "c = trim_space (sr_connector runtime)"
  shows "ok = commit_allowed runtime reg \<and> (\<not> ok \<longrightarrow> reg' = reg)
    \<and> (ok \<longrightarrow> byConnector reg' = map_put c sid (byConnector reg)
        \<and> (\<forall>k. map_of (bySessionID reg') k =
             (if k = sid then Some (committed_session (now_or wall now) runtime)
              else case map_of (bySessionID reg) k of None \<Rightarrow> None
                   | Some s \<Rightarrow> Some (if map_of (byConnector reg) c = Some k \<and> trim_space k \<noteq> sid
                                    \<and> (sr_state s = SessionActive \<or> sr_state s = SessionDraining)
                                    then s\<lparr>sr_state := SessionDraining, sr_updated_at := now_or wall now\<rparr>
                                    else s)))
        \<and> keys_distinct (bySessionID reg'))"
proof (cases "commit_allowed runtime reg")
  case False
  then show ?thesis using commit_rejected [OF False, of wall now] commit by auto
next
  case True
  obtain res1 reg1 where drain: "drain_current (now_or wall now) c sid reg = (res1, reg1)" by fastforce
  note effect = drain_current_effect [OF inv drain]
  have "keys_distinct (bySessionID reg1)" using effect sessions_invD(1) by blast
  then show ?thesis
    using True commit effect drain unfolding commit_accepted [OF True] sid c
    by (auto simp: Let_def simp del: map_of_eq_Some_iff)
qed

lemma sessions_inv_commit:
  assumes inv: "sessions_inv reg" and commit: "commit_authoritative wall now runtime reg = ((res, ok), reg')"
    and unpadded: "\<And>k s. map_of (bySessionID reg) k = Some s \<Longrightarrow> trim_space k = k"
  shows "sessions_inv reg' \<and> (\<forall>k s. map_of (bySessionID reg') k = Some s \<longrightarrow> trim_space k = k)"
proof (cases ok)
  case False
  then show ?thesis using commit_effect [OF inv commit refl refl] inv unpadded by simp
next
  case True
  define sid c where "sid = trim_space (sr_session runtime)" and "c = trim_space (sr_connector runtime)"
  note effect = commit_effect [OF inv commit sid_def c_def]
  have old: "\<exists>s0. map_of (bySessionID reg) k = Some s0 \<and> sr_session s = k \<and> trim_space k = k
      \<and> (sr_state s = SessionActive \<longrightarrow> map_of (byConnector reg') (sr_connector s) = Some k)"
    if k: "map_of (bySessionID reg') k = Some s" "k \<noteq> sid" for k s
  proof -
    obtain s0 where s0: "map_of (bySessionID reg) k = Some s0"
      and s: "s = (if map_of (byConnector reg) c = Some k \<and> trim_space k \<noteq> sid
                      \<and> (sr_state s0 = SessionActive \<or> sr_state s0 = SessionDraining)
                   then s0\<lparr>sr_state := SessionDraining, sr_updated_at := now_or wall now\<rparr> else s0)"
      using effect True k by (auto simp del: map_of_eq_Some_iff split: option.splits)
    have "map_of (byConnector reg') (sr_connector s) = Some k" if "sr_state s = SessionActive"
    proof -
      have act: "s = s0" "sr_state s0 = SessionActive" using s that by (auto split: if_splits)
      then have "map_of (byConnector reg) (sr_connector s0) = Some k" using sessions_invD(3) [OF inv s0] by blast
      moreover from this have "sr_connector s0 \<noteq> c"
        using s that unpadded [OF s0] k(2) act(2) by auto
      ultimately show ?thesis using effect True act by simp
    qed
    then show ?thesis using s0 s sessions_invD(2) [OF inv s0] unpadded [OF s0] by auto
  qed
  have new: "map_of (bySessionID reg') sid = Some (committed_session (now_or wall now) runtime)"
    and index: "map_of (byConnector reg') c = Some sid"
    using effect True by simp_all
  have entries: "sr_session s = k \<and> trim_space k = k
      \<and> (sr_state s = SessionActive \<longrightarrow> map_of (byConnector reg') (sr_connector s) = Some k)"
    if "map_of (bySessionID reg') k = Some s" for k s
  proof (cases "k = sid")
    case True
    then have "s = committed_session (now_or wall now) runtime" using that new by simp
    then show ?thesis using True index by (simp add: committed_session_def sid_def c_def)
  qed (use old [OF that] in blast)
  have "keys_distinct (bySessionID reg')" using effect True by blast
  with entries show ?thesis unfolding sessions_inv_def by blast
qed


section \<open>Properties\<close>

text \<open>The calls of the control plane; \<open>Upsert\<close> writes an entry as it is and is not among them.\<close>

datatype session_registry_call =
    CommitAuthoritative gotime gotime session_runtime
  | MarkState gotime string bridge_session_state
  | RecordHeartbeat gotime string
  | RemoveSession string
  | SweepHeartbeatTimeout gotime duration
  | SweepStaleToClosed gotime duration

fun session_exec :: "session_registry_call \<Rightarrow> session_registry \<Rightarrow> session_registry" where
  "session_exec (CommitAuthoritative wall now runtime) reg = snd (commit_authoritative wall now runtime reg)"
| "session_exec (MarkState now sid st) reg = snd (mark_session_state now sid st reg)"
| "session_exec (RecordHeartbeat now sid) reg = snd (record_session_heartbeat now sid reg)"
| "session_exec (RemoveSession sid) reg = remove_session sid reg"
| "session_exec (SweepHeartbeatTimeout now timeout) reg = snd (sweep_heartbeat_timeout now timeout reg)"
| "session_exec (SweepStaleToClosed now ttl) reg = snd (sweep_stale_to_closed now ttl reg)"

fun activates_directly :: "session_registry_call \<Rightarrow> bool" where
  "activates_directly (MarkState now sid st) \<longleftrightarrow> st = SessionActive"
| "activates_directly call \<longleftrightarrow> False"

definition session_ok :: "session_registry \<Rightarrow> bool" where
  "session_ok reg \<longleftrightarrow> sessions_inv reg
     \<and> (\<forall>k s. map_of (bySessionID reg) k = Some s \<longrightarrow> trim_space k = k)"

lemma session_ok_new: "session_ok new_session_registry"
  using sessions_inv_new by (simp add: session_ok_def new_session_registry_def)

lemma sweep_keys:
  "map_of (bySessionID (snd (sweep_sessions due st now reg))) k
     = map_option (\<lambda>s. if due s then s\<lparr>sr_state := st, sr_updated_at := now\<rparr> else s) (map_of (bySessionID reg) k)"
  by (simp add: sweep_sessions_def Let_def map_of_map)

lemma session_ok_sweep: "session_ok reg \<Longrightarrow> st \<noteq> SessionActive \<Longrightarrow> session_ok (snd (sweep_sessions due st now reg))"
  using sessions_inv_sweep by (auto simp: session_ok_def sweep_keys simp del: map_of_eq_Some_iff)

lemma session_ok_exec:
  assumes "session_ok reg" and "\<not> activates_directly call"
  shows "session_ok (session_exec call reg)"
proof -
  have inv: "sessions_inv reg" and pad: "map_of (bySessionID reg) k = Some s \<Longrightarrow> trim_space k = k" for k s
    using assms(1) by (simp_all add: session_ok_def)
  show ?thesis
  proof (cases call)
    case (CommitAuthoritative wall now runtime)
    obtain res ok reg' where "commit_authoritative wall now runtime reg = ((res, ok), reg')"
      by (metis prod.collapse)
    then show ?thesis
      using sessions_inv_commit [OF inv _ pad] CommitAuthoritative unfolding session_ok_def by force
  next
    case (MarkState now sid st)
    then show ?thesis
      using assms sessions_invD(2) [OF inv] pad
      by (auto simp: session_ok_def mark_session_state_def simp del: map_of_eq_Some_iff
          intro!: sessions_inv_entry split: option.split)
  next
    case (RecordHeartbeat now sid)
    then show ?thesis
      using assms sessions_invD(2) [OF inv] pad
      by (auto simp: session_ok_def record_session_heartbeat_def simp del: map_of_eq_Some_iff
          intro!: sessions_inv_entry split: option.split)
  next
    case (RemoveSession sid)
    then show ?thesis
      using sessions_inv_remove [OF inv] pad
      by (auto simp: session_ok_def remove_session_def Let_def simp del: map_of_eq_Some_iff)
  qed (use assms(1) session_ok_sweep in
        \<open>auto simp: sweep_heartbeat_timeout_def sweep_stale_to_closed_def\<close>)
qed

lemma session_ok_run:
  "session_ok reg \<Longrightarrow> \<forall>call \<in> set calls. \<not> activates_directly call \<Longrightarrow> session_ok (fold session_exec calls reg)"
  by (induction calls arbitrary: reg) (simp_all add: session_ok_exec)

text \<open>
  A connector has at most one active session: after any sequence of commits, state changes,
  heartbeats, removals and sweeps, two active sessions of one connector are the same, and it
  is the session that a lookup by the connector returns.
\<close>

theorem one_active_session:
  assumes "\<forall>call \<in> set calls. \<not> activates_directly call"
    and "reg = fold session_exec calls new_session_registry"
    and "get_by_session i reg = Some s" and "sr_state s = SessionActive"
  shows "get_by_connector (sr_connector s) reg = Some s
    \<and> (\<forall>j t. get_by_session j reg = Some t \<and> sr_state t = SessionActive
          \<and> sr_connector t = sr_connector s \<longrightarrow> j = i)"
proof -
  have inv: "sessions_inv reg"
    using session_ok_run [OF session_ok_new assms(1)] assms(2) by (simp add: session_ok_def)
  note active = sessions_invD(3) [OF inv]
  have "map_of (byConnector reg) (sr_connector s) = Some i"
    using active assms(3,4) unfolding get_by_session_def by blast
  moreover have "j = i"
    if "get_by_session j reg = Some t" "sr_state t = SessionActive" "sr_connector t = sr_connector s" for j t
    using active [of j t] that calculation unfolding get_by_session_def by simp
  ultimately show ?thesis
    using assms(3) by (simp add: get_by_connector_def current_session_def get_by_session_def)
qed

definition sample_session_runtime :: "string \<Rightarrow> 64 word \<Rightarrow> session_runtime" where
  "sample_session_runtime i n = \<lparr>sr_session = i, sr_connector = ''c'', sr_epoch = n, sr_binding = ''tcp_framed'',
     sr_state = SessionActive, sr_heartbeat = 0, sr_updated_at = 0\<rparr>"

lemma trim_session_ids:
  "trim_space ''c'' = ''c''" "trim_space ''s'' = ''s''" "trim_space ''r'' = ''r''"
  by (rule trim_space_graphic; simp add: graphic_def)+

lemmas session_run = commit_authoritative_def drain_current_def current_session_def no_commit_def
  new_session_registry_def sample_session_runtime_def may_take_over_def authority_ended_def Let_def trim_session_ids
  now_or_def zero_time_def

theorem one_active_session_witness:
  "let reg = fold session_exec [CommitAuthoritative 1 1 (sample_session_runtime ''s'' 1),
         CommitAuthoritative 2 2 (sample_session_runtime ''r'' 2)] new_session_registry
   in \<exists>s. get_by_session ''r'' reg = Some s \<and> get_by_connector ''c'' reg = Some s"
proof -
  let ?calls = "[CommitAuthoritative 1 1 (sample_session_runtime ''s'' 1),
         CommitAuthoritative 2 2 (sample_session_runtime ''r'' 2)]"
  obtain s where s: "get_by_session ''r'' (fold session_exec ?calls new_session_registry) = Some s"
    "sr_state s = SessionActive" "sr_connector s = ''c''"
    by (simp add: session_run get_by_session_def)
  have "\<forall>call \<in> set ?calls. \<not> activates_directly call" by simp
  from one_active_session [OF this refl s(1,2)] s show ?thesis unfolding Let_def by metis
qed

text \<open>
  A session takes over a connector exactly when the current one allows it: the commit succeeds
  iff the session is named, its epoch is set and not behind an earlier one of the same session,
  and the current session of the connector is the same, has a smaller epoch, or is stale,
  failed or closed. A refused commit changes nothing; an accepted one makes the session the
  current one, and no other session of the registry is active for the connector.
\<close>

theorem takeover_fenced_by_epoch:
  assumes "\<forall>call \<in> set calls. \<not> activates_directly call"
    and "reg = fold session_exec calls new_session_registry"
    and "commit_authoritative wall now runtime reg = ((res, ok), reg')"
    and "sid = trim_space (sr_session runtime)" and "c = trim_space (sr_connector runtime)"
  shows "(ok \<longleftrightarrow> sid \<noteq> [] \<and> c \<noteq> [] \<and> sr_epoch runtime \<noteq> 0
          \<and> (\<forall>s. get_by_session sid reg = Some s \<longrightarrow> sr_epoch s \<le> sr_epoch runtime)
          \<and> (\<forall>s. get_by_connector c reg = Some s \<longrightarrow> sr_session s = sid \<or> sr_epoch s < sr_epoch runtime
                \<or> sr_state s \<in> {SessionStale, SessionFailed, SessionClosed}))
    \<and> (\<not> ok \<longrightarrow> reg' = reg)
    \<and> (ok \<longrightarrow> get_by_connector c reg' = CurrentSession res
          \<and> map_option sr_epoch (get_by_connector c reg') = Some (sr_epoch runtime)
          \<and> (\<forall>j t. get_by_session j reg' = Some t \<and> sr_state t = SessionActive \<and> sr_connector t = c
                \<longrightarrow> j = sid))"
proof -
  have ok: "session_ok reg"
    using session_ok_run [OF session_ok_new assms(1)] assms(2) by simp
  then have inv: "sessions_inv reg" and pad: "\<And>k s. map_of (bySessionID reg) k = Some s \<Longrightarrow> trim_space k = k"
    by (simp_all add: session_ok_def)
  note effect = commit_effect [OF inv assms(3,4,5)]
  have "sessions_inv reg'" by (rule conjunct1 [OF sessions_inv_commit [OF inv assms(3)]]) (rule pad)
  note active = sessions_invD(3) [OF this]
  have key: "trim_space (sr_session s) = sr_session s" if "current_session c reg = Some s" for s
    using that sessions_invD(2) [OF inv] pad
    by (auto simp: current_session_def simp del: map_of_eq_Some_iff split: option.splits)
  have "ok \<longleftrightarrow> sid \<noteq> [] \<and> c \<noteq> [] \<and> sr_epoch runtime \<noteq> 0
      \<and> (\<forall>s. get_by_session sid reg = Some s \<longrightarrow> sr_epoch s \<le> sr_epoch runtime)
      \<and> (\<forall>s. get_by_connector c reg = Some s \<longrightarrow> sr_session s = sid \<or> sr_epoch s < sr_epoch runtime
            \<or> sr_state s \<in> {SessionStale, SessionFailed, SessionClosed})"
    using effect key unfolding commit_allowed_def assms(4,5) get_by_session_def get_by_connector_def
    by (auto simp: authority_ended_def simp del: map_of_eq_Some_iff)
  moreover have "get_by_connector c reg' = CurrentSession res
      \<and> map_option sr_epoch (get_by_connector c reg') = Some (sr_epoch runtime)" if ok
  proof -
    have "CurrentSession res = Some (committed_session (now_or wall now) runtime)"
      using effect that assms(3) commit_accepted [of runtime reg wall now] by (auto simp: Let_def split: prod.splits)
    then show ?thesis
      using effect that by (simp add: get_by_connector_def current_session_def committed_session_def)
  qed
  moreover have "j = sid" if ok "get_by_session j reg' = Some t" "sr_state t = SessionActive" "sr_connector t = c" for j t
    using active [of j t] effect that unfolding get_by_session_def by simp
  ultimately show ?thesis using effect by blast
qed


theorem takeover_fenced_by_epoch_witness:
  "let reg = fold session_exec [CommitAuthoritative 1 1 (sample_session_runtime ''s'' 2)] new_session_registry
   in \<not> snd (fst (commit_authoritative 2 2 (sample_session_runtime ''r'' 2) reg))
      \<and> snd (fst (commit_authoritative 2 2 (sample_session_runtime ''r'' 3) reg))"
proof -
  let ?calls = "[CommitAuthoritative 1 1 (sample_session_runtime ''s'' 2)]"
  let ?reg = "fold session_exec ?calls new_session_registry"
  have calls: "\<forall>call \<in> set ?calls. \<not> activates_directly call" by simp
  obtain s where s: "get_by_connector ''c'' ?reg = Some s" "sr_session s = ''s''" "sr_epoch s = 2"
      "sr_state s = SessionActive"
    and none: "get_by_session ''r'' ?reg = None"
    by (simp add: session_run get_by_connector_def get_by_session_def)
  obtain res ok reg' where run: "commit_authoritative 2 2 (sample_session_runtime ''r'' 2) ?reg = ((res, ok), reg')"
    by (metis prod.collapse)
  obtain res3 ok3 reg3 where run3: "commit_authoritative 2 2 (sample_session_runtime ''r'' 3) ?reg = ((res3, ok3), reg3)"
    by (metis prod.collapse)
  have "\<not> ok"
    using conjunct1 [OF takeover_fenced_by_epoch [OF calls refl run refl refl]] s
    by (simp add: sample_session_runtime_def trim_session_ids)
  moreover have "ok3"
    using conjunct1 [OF takeover_fenced_by_epoch [OF calls refl run3 refl refl]] s none
    by (simp add: sample_session_runtime_def trim_session_ids)
  ultimately show ?thesis unfolding Let_def run run3 by simp
qed

text \<open>
  The heartbeat sweep is exact: it marks as stale and reports exactly the active and draining
  sessions with a recorded heartbeat older than the timeout, and leaves every other session
  and the index of connectors as they are.
\<close>

theorem heartbeat_sweep_exact:
  assumes "0 < timeout" and "sweep_heartbeat_timeout now timeout reg = (swept, reg')"
  shows "byConnector reg' = byConnector reg
    \<and> (\<forall>k. get_by_session k reg' = map_option (\<lambda>s.
          if (sr_state s = SessionActive \<or> sr_state s = SessionDraining)
             \<and> \<not> is_zero (sr_heartbeat s) \<and> timeout < time_sub now (sr_heartbeat s)
          then s\<lparr>sr_state := SessionStale, sr_updated_at := now\<rparr> else s) (get_by_session k reg))
    \<and> map sr_session swept = map sr_session (filter (heartbeat_overdue now timeout) (list_sessions reg))
    \<and> fst (sweep_heartbeat_timeout now timeout reg') = []"
proof -
  have run: "sweep_sessions (heartbeat_overdue now timeout) SessionStale now reg = (swept, reg')"
    using assms by (simp add: sweep_heartbeat_timeout_def)
  have "get_by_session k reg' = map_option (\<lambda>s. if heartbeat_overdue now timeout s
      then s\<lparr>sr_state := SessionStale, sr_updated_at := now\<rparr> else s) (get_by_session k reg)" for k
    using sweep_keys [of "heartbeat_overdue now timeout" SessionStale now reg k]
    by (simp add: get_by_session_def run)
  moreover have "byConnector reg' = byConnector reg"
    and "map sr_session swept = map sr_session (filter (heartbeat_overdue now timeout) (list_sessions reg))"
    and "filter (heartbeat_overdue now timeout \<circ> snd) (bySessionID reg') = []"
    using run by (auto simp: sweep_sessions_def Let_def list_sessions_def filter_map heartbeat_overdue_def
        filter_empty_conv split: if_splits)
  ultimately show ?thesis
    using assms(1) by (simp add: sweep_heartbeat_timeout_def sweep_sessions_def Let_def heartbeat_overdue_def)
qed

theorem heartbeat_sweep_exact_witness:
  "let reg = fold session_exec [CommitAuthoritative 1 1 (sample_session_runtime ''s'' 1)] new_session_registry
   in fst (sweep_heartbeat_timeout 9 5 (snd (sweep_heartbeat_timeout 9 5 reg))) = []"
proof -
  let ?reg = "fold session_exec [CommitAuthoritative 1 1 (sample_session_runtime ''s'' 1)] new_session_registry"
  obtain swept reg' where run: "sweep_heartbeat_timeout 9 5 ?reg = (swept, reg')" by fastforce
  have "(0::int) < 5" by simp
  from heartbeat_sweep_exact [OF this run] show ?thesis unfolding Let_def run by simp
qed

text \<open>
  A commit of a session under its own epoch makes it active again in whatever state it was, also
  when it had been closed.
\<close>

lemma closed_session_revived:
  assumes "session_ok reg" and "map_of (bySessionID reg) i = Some s" and "sr_state s = SessionClosed"
    and "i \<noteq> []" and "sr_connector s = trim_space (sr_connector s)" and "sr_connector s \<noteq> []"
    and "sr_epoch s \<noteq> 0" and "get_by_connector (sr_connector s) reg = Some s"
  shows "map_option sr_state (get_by_session i
     (snd (commit_authoritative wall now (s\<lparr>sr_state := SessionActive\<rparr>) reg))) = Some SessionActive"
proof -
  have inv: "sessions_inv reg" and i: "trim_space i = i" using assms(1,2) by (auto simp: session_ok_def)
  have s: "sr_session s = i" using sessions_invD(2) [OF inv assms(2)] .
  obtain res ok reg' where run: "commit_authoritative wall now (s\<lparr>sr_state := SessionActive\<rparr>) reg = ((res, ok), reg')"
    by (metis prod.collapse)
  have "commit_allowed (s\<lparr>sr_state := SessionActive\<rparr>) reg"
    using assms s i by (auto simp: commit_allowed_def get_by_connector_def authority_ended_def simp del: map_of_eq_Some_iff)
  then show ?thesis
    using commit_effect [OF inv run refl refl] s i run by (simp add: get_by_session_def committed_session_def)
qed

end
