(* ===== verification/Resources.thy ===== *)
theory Resources
  imports Prelude
begin

text \<open>
  The resources that agent and bridge exchange (\<open>ltfp/pb/types.go, resources.go\<close>): scopes,
  logical services and their instances, routes and what they match and point to.
\<close>

section \<open>Scopes and states\<close>

record scope =
  Namespace :: string
  Environment :: string

definition no_scope :: scope where
  "no_scope = \<lparr>Namespace = [], Environment = []\<rparr>"

datatype service_status =
    ServiceStatusActive
  | ServiceStatusInactive
  | ServiceStatusStale
  | ServiceStatusOther string

datatype health_status =
    HealthStatusHealthy
  | HealthStatusUnhealthy
  | HealthStatusUnknown
  | HealthStatusOther string

datatype ingress_mode =
    IngressModeL7Shared
  | IngressModeTLSSNIShared
  | IngressModeL4DedicatedPort
  | IngressModeOther string

text \<open>A label set is a map; reading a missing label gives the empty string.\<close>

type_synonym labels = "(string, string) gomap"

definition label :: "labels \<Rightarrow> string \<Rightarrow> string" where
  "label m k = (case map_of m k of None \<Rightarrow> [] | Some v \<Rightarrow> v)"


section \<open>Services\<close>

record service_endpoint =
  ep_id :: string
  ep_protocol :: string
  ep_host :: string
  ep_port :: "32 word"
  ep_tls_mode :: string
  ep_server_name :: string
  ep_dial_timeout :: "32 word"
  ep_read_timeout :: "32 word"
  ep_write_timeout :: "32 word"
  ep_weight :: "32 word"
  ep_metadata :: labels

record service_exposure =
  ex_ingress_mode :: ingress_mode
  ex_host :: string
  ex_listen_port :: "32 word"
  ex_sni_name :: string
  ex_path_prefix :: string
  ex_allow_export :: bool

record health_check_config =
  hc_type :: string
  hc_endpoint :: string
  hc_interval :: "32 word"
  hc_timeout :: "32 word"
  hc_healthy_threshold :: "32 word"
  hc_unhealthy_threshold :: "32 word"

record discovery_policy =
  dp_enabled :: bool
  dp_providers :: "string list"
  dp_external_name :: string
  dp_namespace :: string
  dp_group :: string
  dp_tags :: labels
  dp_metadata :: labels

text \<open>\<open>HeaderMatcher\<close> and \<open>QueryMatcher\<close> have the same fields.\<close>

record value_matcher =
  vm_name :: string
  vm_exact :: string
  vm_prefix :: string
  vm_regex :: string
  vm_present :: "bool option"

record route_hint =
  rh_headers :: "value_matcher list"
  rh_queries :: "value_matcher list"
  rh_priority :: "32 word"

record logical_service =
  ls_id :: string
  ls_name :: string
  ls_scope :: scope
  ls_status :: service_status
  ls_active_count :: "32 word"
  ls_healthy_count :: "32 word"
  ls_labels :: labels
  ls_version :: "64 word"
  ls_metadata :: labels

definition no_service :: logical_service where
  "no_service = \<lparr>ls_id = [], ls_name = [], ls_scope = no_scope, ls_status = ServiceStatusOther [],
     ls_active_count = 0, ls_healthy_count = 0, ls_labels = [], ls_version = 0, ls_metadata = []\<rparr>"

record service_instance =
  si_id :: string
  si_service :: string
  si_connector :: string
  si_session :: string
  si_epoch :: "64 word"
  si_status :: service_status
  si_health :: health_status
  si_version :: "64 word"
  si_endpoints :: "service_endpoint list"
  si_exposure :: service_exposure
  si_health_check :: health_check_config
  si_discovery :: discovery_policy
  si_route_hint :: route_hint
  si_labels :: labels
  si_metadata :: labels


section \<open>Routes\<close>

record service_selector =
  ss_service :: string
  ss_name :: string
  ss_scope :: scope
  ss_match_labels :: labels
  ss_instance_labels :: labels

record connector_service_target =
  ct_selector :: service_selector
  ct_instance_selector :: labels
  ct_load_balance :: string

record external_service_target =
  et_provider :: string
  et_namespace :: string
  et_environment :: string
  et_service :: string
  et_group :: string
  et_selector :: labels
  et_cache_ttl :: "32 word"
  et_stale_if_error :: "32 word"

datatype route_target_type =
    RouteTargetTypeConnectorService
  | RouteTargetTypeExternalService
  | RouteTargetTypeOther string

record route_target =
  rt_type :: route_target_type
  rt_connector :: "connector_service_target option"
  rt_external :: "external_service_target option"

record route_match =
  rm_protocol :: string
  rm_host :: string
  rm_authority :: string
  rm_listen_port :: "32 word"
  rm_path_prefix :: string
  rm_sni :: string
  rm_headers :: "value_matcher list"
  rm_queries :: "value_matcher list"

datatype scope_inject_policy =
    ScopeInjectPolicyDisabled
  | ScopeInjectPolicyAlways
  | ScopeInjectPolicyMissingOnly
  | ScopeInjectPolicyOther string

record scope_injection =
  InjectScope :: scope
  InjectPolicy :: scope_inject_policy

record route =
  r_id :: string
  r_scope :: scope
  r_injection :: scope_injection
  r_version :: "64 word"
  r_match :: route_match
  r_target :: route_target
  r_policy :: string
  r_priority :: "32 word"
  r_status :: string
  r_metadata :: labels

record external_fallback_config =
  ef_enabled :: bool

record scope_fallback_policy =
  fp_id :: string
  fp_namespace :: string
  fp_enabled :: bool
  fp_chain :: "scope list"
  fp_external :: external_fallback_config


section \<open>Shared helpers\<close>

text \<open>\<open>normalizeScope\<close>, \<open>normalizeResolverScope\<close>.\<close>

definition normalize_scope :: "scope \<Rightarrow> scope" where
  "normalize_scope s = \<lparr>Namespace = trim_space (Namespace s), Environment = trim_space (Environment s)\<rparr>"

lemma normalize_scope_fields [simp]:
  "Namespace (normalize_scope s) = trim_space (Namespace s)"
  "Environment (normalize_scope s) = trim_space (Environment s)"
  by (simp_all add: normalize_scope_def)

lemma normalize_scope_idem [simp]: "normalize_scope (normalize_scope s) = normalize_scope s"
  by (simp add: normalize_scope_def)

end
