(* ===== verification/Bridge_Services.thy ===== *)
theory Bridge_Services
  imports Resources Idle_Index
begin

text \<open>
  The service registry of the bridge
  (\<open>cloud-bridge/runtime/bridge/registry/service_registry.go\<close>): logical services, their
  instances, the indexes over them and the counts each service aggregates over its instances;
  and the route registry (\<open>route_registry.go\<close>). Every operation is one section under the mutex.
\<close>

section \<open>State\<close>

record service_snapshot =
  lss_service :: logical_service
  lss_updated_at :: gotime

record instance_snapshot =
  sis_service :: logical_service
  sis_instance :: service_instance
  sis_updated_at :: gotime

text \<open>A \<open>map[string]map[string]struct{}\<close>: keys with sets of identifiers.\<close>

type_synonym id_index = "(string, string list) gomap"

record service_registry =
  logicalServices :: "(string, service_snapshot) gomap"
  instances :: "(string, instance_snapshot) gomap"
  serviceIDByScopeName :: "(string, string) gomap"
  instanceIDsByService :: id_index
  instanceIDsByConnector :: id_index
  instanceIDByRuntime :: "(string, string) gomap"

definition new_service_registry :: service_registry where
  "new_service_registry = \<lparr>logicalServices = [], instances = [], serviceIDByScopeName = [],
     instanceIDsByService = [], instanceIDsByConnector = [], instanceIDByRuntime = []\<rparr>"


section \<open>Indexes\<close>

definition index_ids :: "id_index \<Rightarrow> string \<Rightarrow> string list" where
  "index_ids index key = (case map_of index key of None \<Rightarrow> [] | Some ids \<Rightarrow> ids)"

definition add_index :: "string \<Rightarrow> string \<Rightarrow> id_index \<Rightarrow> id_index" where
  "add_index raw_key raw_value index =
     (let key = trim_space raw_key; value = trim_space raw_value
      in if key = [] \<or> value = [] then index
         else let ids = index_ids index key
              in map_put key (if value \<in> set ids then ids else ids @ [value]) index)"

definition remove_index :: "string \<Rightarrow> string \<Rightarrow> id_index \<Rightarrow> id_index" where
  "remove_index raw_key raw_value index =
     (let key = trim_space raw_key; value = trim_space raw_value
      in if key = [] \<or> value = [] then index
         else case map_of index key of
                None \<Rightarrow> index
              | Some ids \<Rightarrow>
                  let rest = filter (\<lambda>i. i \<noteq> value) ids
                  in if rest = [] then map_del key index else map_put key rest index)"

definition service_scope_name_key :: "string \<Rightarrow> scope \<Rightarrow> string" where
  "service_scope_name_key raw_name s =
     (let name = trim_space raw_name; namespace = trim_space (Namespace s);
          environment = trim_space (Environment s)
      in if name = [] \<or> namespace = [] \<or> environment = [] then []
         else namespace @ ''|'' @ environment @ ''|'' @ name)"

definition runtime_instance_key :: "string \<Rightarrow> string \<Rightarrow> string \<Rightarrow> string" where
  "runtime_instance_key connector session service =
     trim_space connector @ ''|'' @ trim_space session @ ''|'' @ trim_space service"


section \<open>Writing\<close>

definition instances_by_service :: "string \<Rightarrow> service_registry \<Rightarrow> instance_snapshot list" where
  "instances_by_service sid reg =
     List.map_filter (\<lambda>i. map_of (instances reg) i)
       (index_ids (instanceIDsByService reg) (trim_space sid))"

text \<open>The loop writes the service (as it was) into each of its instances, through the pointer.\<close>

definition share_service :: "logical_service \<Rightarrow> string list \<Rightarrow> service_registry \<Rightarrow> service_registry" where
  "share_service s ids reg =
     reg\<lparr>instances := map (\<lambda>(i, r). (i, if i \<in> set ids then r\<lparr>sis_service := s\<rparr> else r)) (instances reg)\<rparr>"

definition is_active :: "service_instance \<Rightarrow> bool" where
  "is_active i \<longleftrightarrow> si_status i = ServiceStatusActive"

definition is_healthy :: "service_instance \<Rightarrow> bool" where
  "is_healthy i \<longleftrightarrow> si_status i = ServiceStatusActive \<and> si_health i = HealthStatusHealthy"

text \<open>The counters are \<open>int32\<close> and wrap around.\<close>

definition recalculate_service :: "string \<Rightarrow> service_registry \<Rightarrow> service_registry" where
  "recalculate_service raw_sid reg =
     (let sid = trim_space raw_sid
      in case map_of (logicalServices reg) sid of
           None \<Rightarrow> reg
         | Some record \<Rightarrow>
             let found = instances_by_service raw_sid reg;
                 active = of_nat (length (filter (is_active \<circ> sis_instance) found));
                 healthy = of_nat (length (filter (is_healthy \<circ> sis_instance) found));
                 s = lss_service record;
                 s' = s\<lparr>ls_active_count := active, ls_healthy_count := healthy,
                        ls_status := (if active = 0 then ServiceStatusInactive
                                      else ServiceStatusActive)\<rparr>;
                 reg1 = share_service s (index_ids (instanceIDsByService reg) sid) reg
             in reg1\<lparr>logicalServices := map_put sid (record\<lparr>lss_service := s'\<rparr>) (logicalServices reg1)\<rparr>)"

definition recalculate_all :: "service_registry \<Rightarrow> service_registry" where
  "recalculate_all reg = fold recalculate_service (map fst (logicalServices reg)) reg"

definition unindex_previous :: "string \<Rightarrow> service_registry \<Rightarrow> service_registry" where
  "unindex_previous i reg =
     (case map_of (instances reg) i of
        None \<Rightarrow> reg
      | Some previous \<Rightarrow>
          let p = sis_instance previous
          in reg\<lparr>instanceIDsByConnector := remove_index (si_connector p) i (instanceIDsByConnector reg),
                 instanceIDsByService := remove_index (si_service p) i (instanceIDsByService reg),
                 instanceIDByRuntime :=
                   map_del (runtime_instance_key (si_connector p) (si_session p) (si_service p))
                     (instanceIDByRuntime reg)\<rparr>)"

definition upsert_instance :: "gotime \<Rightarrow> service_instance \<Rightarrow> service_registry \<Rightarrow> service_registry" where
  "upsert_instance now inst reg =
     (let i = trim_space (si_id inst); sid = trim_space (si_service inst)
      in if i = [] then reg
         else
           let s = (case map_of (logicalServices reg) sid of
                      None \<Rightarrow> no_service | Some record \<Rightarrow> lss_service record);
               reg1 = unindex_previous i reg
           in reg1\<lparr>instances := map_put i \<lparr>sis_service = s, sis_instance = inst, sis_updated_at = now\<rparr>
                                  (instances reg1),
                   instanceIDsByConnector := add_index (si_connector inst) i (instanceIDsByConnector reg1),
                   instanceIDsByService := add_index (si_service inst) i (instanceIDsByService reg1),
                   instanceIDByRuntime :=
                     map_put (runtime_instance_key (si_connector inst) (si_session inst) (si_service inst)) i
                       (instanceIDByRuntime reg1)\<rparr>)"

definition put_service :: "gotime \<Rightarrow> logical_service \<Rightarrow> service_registry \<Rightarrow> service_registry" where
  "put_service now s reg =
     (let sid = trim_space (ls_id s)
      in reg\<lparr>logicalServices := map_put sid \<lparr>lss_service = s, lss_updated_at = now\<rparr> (logicalServices reg),
             serviceIDByScopeName :=
               map_put (service_scope_name_key (ls_name s) (ls_scope s)) sid (serviceIDByScopeName reg)\<rparr>)"

text \<open>\<open>Upsert\<close>; \<open>normalizeRegistryTime\<close> is \<open>now_or\<close>.\<close>

definition upsert_service ::
    "gotime \<Rightarrow> gotime \<Rightarrow> logical_service \<Rightarrow> service_instance \<Rightarrow> service_registry \<Rightarrow> service_registry" where
  "upsert_service wall now0 s inst reg =
     (let now = now_or wall now0
      in recalculate_service (trim_space (ls_id s)) (upsert_instance now inst (put_service now s reg)))"

definition drop_instance :: "string \<Rightarrow> service_instance \<Rightarrow> service_registry \<Rightarrow> service_registry" where
  "drop_instance i p reg =
     (let sid = trim_space (si_service p)
      in reg\<lparr>instances := map_del i (instances reg),
             instanceIDsByConnector := remove_index (si_connector p) i (instanceIDsByConnector reg),
             instanceIDsByService := remove_index sid i (instanceIDsByService reg),
             instanceIDByRuntime :=
               map_del (runtime_instance_key (si_connector p) (si_session p) sid) (instanceIDByRuntime reg)\<rparr>)"

definition remove_instance :: "string \<Rightarrow> service_registry \<Rightarrow> bool \<times> service_registry" where
  "remove_instance i reg =
     (case map_of (instances reg) i of
        None \<Rightarrow> (False, reg)
      | Some record \<Rightarrow>
          let p = sis_instance record
          in (True, recalculate_service (trim_space (si_service p)) (drop_instance i p reg)))"

text \<open>\<open>removeInstanceLocked\<close> for a list of records, by the identifiers inside them.\<close>

definition remove_instances :: "instance_snapshot list \<Rightarrow> service_registry \<Rightarrow> bool \<times> service_registry" where
  "remove_instances rs reg =
     fold (\<lambda>r (removed, reg). let (ok, reg') = remove_instance (si_id (sis_instance r)) reg
                              in (removed \<or> ok, reg')) rs (False, reg)"

definition remove_logical_service :: "string \<Rightarrow> service_registry \<Rightarrow> bool \<times> service_registry" where
  "remove_logical_service raw_sid reg =
     (let sid = trim_space raw_sid
      in if sid = [] then (False, reg)
         else case map_of (logicalServices reg) sid of
                None \<Rightarrow> (False, reg)
              | Some record \<Rightarrow>
                  let s = lss_service record;
                      reg1 = reg\<lparr>logicalServices := map_del sid (logicalServices reg),
                                 serviceIDByScopeName :=
                                   map_del (service_scope_name_key (ls_name s) (ls_scope s))
                                     (serviceIDByScopeName reg)\<rparr>
                  in (True, snd (remove_instances (instances_by_service sid reg1) reg1)))"

definition remove_instance_by_id :: "string \<Rightarrow> service_registry \<Rightarrow> bool \<times> service_registry" where
  "remove_instance_by_id raw_id reg =
     (let i = trim_space raw_id in if i = [] then (False, reg) else remove_instance i reg)"

definition of_runtime :: "string \<Rightarrow> string \<Rightarrow> instance_snapshot \<Rightarrow> bool" where
  "of_runtime connector session r \<longleftrightarrow>
     (connector = [] \<or> trim_space (si_connector (sis_instance r)) = connector)
     \<and> (session = [] \<or> trim_space (si_session (sis_instance r)) = session)"

definition remove_instance_by_service_and_runtime ::
    "string \<Rightarrow> string \<Rightarrow> string \<Rightarrow> service_registry \<Rightarrow> bool \<times> service_registry" where
  "remove_instance_by_service_and_runtime raw_sid connector session reg =
     (let sid = trim_space raw_sid
      in if sid = [] then (False, reg)
         else remove_instances
                (filter (of_runtime (trim_space connector) (trim_space session)) (instances_by_service sid reg)) reg)"

definition replace_all_services ::
    "gotime \<Rightarrow> gotime \<Rightarrow> logical_service list \<Rightarrow> service_instance list \<Rightarrow> service_registry" where
  "replace_all_services wall now0 services insts =
     (let now = now_or wall now0
      in recalculate_all
           (fold (upsert_instance now) insts (fold (put_service now) services new_service_registry)))"

definition mark_lifecycle ::
    "gotime \<Rightarrow> gotime \<Rightarrow> string \<Rightarrow> string \<Rightarrow> service_status \<Rightarrow> health_status \<Rightarrow> service_registry
       \<Rightarrow> nat \<times> service_registry" where
  "mark_lifecycle wall now0 connector session st health reg =
     (let c = trim_space connector; sess = trim_space session; now = now_or wall now0
      in if c = [] then (0, reg)
         else
           let hit = (\<lambda>(i, r). of_runtime c sess r);
               mark = (\<lambda>r. r\<lparr>sis_instance := (sis_instance r)\<lparr>si_status := st, si_health := health\<rparr>,
                             sis_updated_at := now\<rparr>);
               affected = remdups (map (\<lambda>(i, r). trim_space (si_service (sis_instance r)))
                                     (filter hit (instances reg)));
               reg1 = reg\<lparr>instances := map (\<lambda>(i, r). (i, if hit (i, r) then mark r else r)) (instances reg)\<rparr>
           in (length (filter hit (instances reg)), fold recalculate_service affected reg1))"


section \<open>Reading\<close>

definition get_logical_service :: "string \<Rightarrow> service_registry \<Rightarrow> logical_service option" where
  "get_logical_service raw_sid reg =
     (let sid = trim_space raw_sid
      in if sid = [] then None else map_option lss_service (map_of (logicalServices reg) sid))"

definition find_service_by_name_scope :: "string \<Rightarrow> scope \<Rightarrow> service_registry \<Rightarrow> logical_service option" where
  "find_service_by_name_scope name s reg =
     (let key = service_scope_name_key name s
      in if key = [] then None
         else case map_of (serviceIDByScopeName reg) key of
                None \<Rightarrow> None
              | Some sid \<Rightarrow> map_option lss_service (map_of (logicalServices reg) sid))"

definition get_instance :: "string \<Rightarrow> service_registry \<Rightarrow> instance_snapshot option" where
  "get_instance raw_id reg =
     (let i = trim_space raw_id in if i = [] then None else map_of (instances reg) i)"

definition find_instance_by_connector_service ::
    "string \<Rightarrow> string \<Rightarrow> service_registry \<Rightarrow> instance_snapshot option" where
  "find_instance_by_connector_service connector raw_sid reg =
     (let c = trim_space connector; sid = trim_space raw_sid
      in if c = [] \<or> sid = [] then None
         else find (\<lambda>r. trim_space (si_connector (sis_instance r)) = c) (instances_by_service sid reg))"

definition list_instances_by_service :: "string \<Rightarrow> service_registry \<Rightarrow> instance_snapshot list" where
  "list_instances_by_service raw_sid reg =
     (let sid = trim_space raw_sid in if sid = [] then [] else instances_by_service sid reg)"

definition list_instances :: "service_registry \<Rightarrow> instance_snapshot list" where
  "list_instances reg = map snd (instances reg)"

definition list_services :: "service_registry \<Rightarrow> logical_service list" where
  "list_services reg = map (lss_service \<circ> snd) (logicalServices reg)"

definition list_service_ids_by_runtime :: "string \<Rightarrow> string \<Rightarrow> service_registry \<Rightarrow> string list" where
  "list_service_ids_by_runtime connector session reg =
     (let c = trim_space connector; sess = trim_space session
      in if c = [] then []
         else filter (\<lambda>sid. list_ex (of_runtime c sess) (instances_by_service sid reg))
                (map fst (logicalServices reg)))"

definition current_version :: "string \<Rightarrow> string \<Rightarrow> service_registry \<Rightarrow> 64 word" where
  "current_version raw_sid raw_id reg =
     (let sid = trim_space raw_sid; i = trim_space raw_id
      in case (if i = [] then None else map_of (instances reg) i) of
           Some r \<Rightarrow> si_version (sis_instance r)
         | None \<Rightarrow>
             (case (if sid = [] then None else map_of (logicalServices reg) sid) of
                Some record \<Rightarrow> ls_version (lss_service record)
              | None \<Rightarrow> 0))"


section \<open>The route registry\<close>

record route_snapshot =
  rs_route :: route
  rs_updated_at :: gotime

type_synonym route_registry = "(string, route_snapshot) gomap"

definition upsert_route :: "gotime \<Rightarrow> route \<Rightarrow> route_registry \<Rightarrow> route_registry" where
  "upsert_route now r reg =
     (let i = trim_space (r_id r)
      in if i = [] then reg else map_put i \<lparr>rs_route = r\<lparr>r_id := i\<rparr>, rs_updated_at = now\<rparr> reg)"

definition remove_route :: "string \<Rightarrow> route_registry \<Rightarrow> bool \<times> route_registry" where
  "remove_route raw_id reg =
     (let i = trim_space raw_id
      in if i = [] then (False, reg) else if \<not> has_key reg i then (False, reg) else (True, map_del i reg))"

definition get_route :: "string \<Rightarrow> route_registry \<Rightarrow> route option" where
  "get_route raw_id reg =
     (let i = trim_space raw_id in if i = [] then None else map_option rs_route (map_of reg i))"

definition current_route_version :: "string \<Rightarrow> route_registry \<Rightarrow> 64 word" where
  "current_route_version raw_id reg =
     (let i = trim_space raw_id
      in if i = [] then 0 else case map_of reg i of None \<Rightarrow> 0 | Some s \<Rightarrow> r_version (rs_route s))"

definition replace_all_routes :: "gotime \<Rightarrow> route list \<Rightarrow> route_registry" where
  "replace_all_routes now routes = fold (upsert_route now) routes []"

definition list_routes :: "route_registry \<Rightarrow> route list" where
  "list_routes reg = map (rs_route \<circ> snd) reg"


section \<open>The indexes are exact\<close>

text \<open>The index \<open>idx\<close> files the keys of \<open>m\<close> under the key \<open>f\<close> of their records.\<close>

definition indexes :: "('r \<Rightarrow> string) \<Rightarrow> id_index \<Rightarrow> (string, 'r) gomap \<Rightarrow> bool" where
  "indexes f idx m \<longleftrightarrow> (\<forall>k. distinct (index_ids idx k))
     \<and> (\<forall>k i. i \<in> set (index_ids idx k) \<longleftrightarrow> k \<noteq> [] \<and> (\<exists>r. map_of m i = Some r \<and> f r = k))"

lemma index_ids_add:
  "index_ids (add_index k v idx) k' =
     (if trim_space k \<noteq> [] \<and> trim_space v \<noteq> [] \<and> k' = trim_space k \<and> trim_space v \<notin> set (index_ids idx k')
      then index_ids idx k' @ [trim_space v] else index_ids idx k')"
  by (auto simp: add_index_def index_ids_def Let_def)

lemma index_ids_remove:
  "index_ids (remove_index k v idx) k' =
     (if trim_space k \<noteq> [] \<and> trim_space v \<noteq> [] \<and> k' = trim_space k
      then filter (\<lambda>i. i \<noteq> trim_space v) (index_ids idx k') else index_ids idx k')"
  by (auto simp: remove_index_def index_ids_def Let_def split: option.split)

lemma indexes_mem:
  "indexes f idx m \<Longrightarrow> i \<in> set (index_ids idx k) \<longleftrightarrow> k \<noteq> [] \<and> (\<exists>r. map_of m i = Some r \<and> f r = k)"
  by (simp add: indexes_def)

lemma indexes_distinct: "indexes f idx m \<Longrightarrow> distinct (index_ids idx k)"
  by (simp add: indexes_def)

lemma indexes_empty: "indexes f [] []"
  by (simp add: indexes_def index_ids_def)

lemma indexes_without:
  assumes "indexes f idx m" and "map_of m i = Some r" and "f r = trim_space k" and "trim_space i = i" and "i \<noteq> []"
  shows "indexes f (remove_index k i idx) (map_del i m)"
proof -
  note mem = indexes_mem [OF assms(1)]
  have "j \<in> set (index_ids (remove_index k i idx) k')
      \<longleftrightarrow> k' \<noteq> [] \<and> (\<exists>r. map_of (map_del i m) j = Some r \<and> f r = k')" for j k'
  proof (cases "j = i")
    case True
    have "i \<notin> set (index_ids idx k')" if "k' \<noteq> trim_space k \<or> k' = []"
      using that assms(2,3) unfolding mem by auto
    then show ?thesis using True assms(4,5) by (auto simp: index_ids_remove)
  next
    case False
    then show ?thesis using mem [of j k'] assms(4)
      by (auto simp: index_ids_remove simp del: map_of_eq_Some_iff)
  qed
  moreover have "distinct (index_ids (remove_index k i idx) k')" for k'
    using indexes_distinct [OF assms(1), of k'] by (auto simp: index_ids_remove)
  ultimately show ?thesis by (simp add: indexes_def)
qed

lemma indexes_with:
  assumes "indexes f idx (map_del i m)" and "f r = trim_space k" and "trim_space i = i" and "i \<noteq> []"
  shows "indexes f (add_index k i idx) (map_put i r m)"
proof -
  note mem = indexes_mem [OF assms(1)]
  have fresh: "i \<notin> set (index_ids idx k')" for k' using mem [of i k'] by simp
  have "j \<in> set (index_ids (add_index k i idx) k')
      \<longleftrightarrow> k' \<noteq> [] \<and> (\<exists>s. map_of (map_put i r m) j = Some s \<and> f s = k')" for j k'
  proof (cases "j = i")
    case True
    then show ?thesis
      using assms(2-) fresh [of k'] by (auto simp: index_ids_add simp del: map_of_eq_Some_iff)
  next
    case False
    then show ?thesis using mem [of j k'] assms(3)
      by (auto simp: index_ids_add simp del: map_of_eq_Some_iff)
  qed
  moreover have "distinct (index_ids (add_index k i idx) k')" for k'
    using indexes_distinct [OF assms(1), of k'] by (auto simp: index_ids_add)
  ultimately show ?thesis unfolding indexes_def by blast
qed

text \<open>What an index does not see may change.\<close>

lemma indexes_map:
  assumes "indexes f idx m" and "\<And>i r. f (g i r) = f r"
  shows "indexes f idx (map (\<lambda>(i, r). (i, g i r)) m)"
proof -
  have "map_of (map (\<lambda>(i, r). (i, g i r)) m) j = map_option (g j) (map_of m j)" for j
    by (induction m) auto
  then show ?thesis using assms by (auto simp: indexes_def simp del: map_of_eq_Some_iff)
qed

definition service_of :: "instance_snapshot \<Rightarrow> string" where
  "service_of r = trim_space (si_service (sis_instance r))"

definition connector_of :: "instance_snapshot \<Rightarrow> string" where
  "connector_of r = trim_space (si_connector (sis_instance r))"

definition services_indexed :: "service_registry \<Rightarrow> bool" where
  "services_indexed reg \<longleftrightarrow> keys_distinct (instances reg) \<and> keys_distinct (logicalServices reg)
     \<and> (\<forall>i r. map_of (instances reg) i = Some r \<longrightarrow> trim_space (si_id (sis_instance r)) = i \<and> i \<noteq> [])
     \<and> (\<forall>sid s. map_of (logicalServices reg) sid = Some s \<longrightarrow> trim_space sid = sid)
     \<and> indexes service_of (instanceIDsByService reg) (instances reg)
     \<and> indexes connector_of (instanceIDsByConnector reg) (instances reg)"

lemma services_indexedD:
  assumes "services_indexed reg"
  shows "keys_distinct (instances reg)" and "keys_distinct (logicalServices reg)"
    and "map_of (instances reg) i = Some r \<Longrightarrow> trim_space (si_id (sis_instance r)) = i \<and> i \<noteq> [] \<and> trim_space i = i"
    and "indexes service_of (instanceIDsByService reg) (instances reg)"
    and "indexes connector_of (instanceIDsByConnector reg) (instances reg)"
    and "map_of (logicalServices reg) sid = Some s \<Longrightarrow> trim_space sid = sid"
proof -
  have "map_of (instances reg) i = Some r \<Longrightarrow> trim_space (si_id (sis_instance r)) = i \<and> i \<noteq> []"
    using assms unfolding services_indexed_def by blast
  then show "map_of (instances reg) i = Some r \<Longrightarrow>
      trim_space (si_id (sis_instance r)) = i \<and> i \<noteq> [] \<and> trim_space i = i"
    by (metis trim_space_idem)
qed (use assms in \<open>auto simp: services_indexed_def simp del: map_of_eq_Some_iff\<close>)

lemma services_indexed_new: "services_indexed new_service_registry"
  by (simp add: services_indexed_def new_service_registry_def indexes_empty)

lemma share_service_fields [simp]:
  "logicalServices (share_service s ids reg) = logicalServices reg"
  "instanceIDsByService (share_service s ids reg) = instanceIDsByService reg"
  "instanceIDsByConnector (share_service s ids reg) = instanceIDsByConnector reg"
  "instances (share_service s ids reg)
     = map (\<lambda>(i, r). (i, if i \<in> set ids then r\<lparr>sis_service := s\<rparr> else r)) (instances reg)"
  by (simp_all add: share_service_def)

lemma map_of_share: "map_of (map (\<lambda>(i, r). (i, g i r)) m) j = map_option (g j) (map_of m j)"
  by (induction m) auto

lemma keys_map: "map fst (map (\<lambda>(i, r). (i, g i r)) m) = map fst m"
  by (induction m) auto

lemma recalculate_fields [simp]:
  "instanceIDsByService (recalculate_service sid reg) = instanceIDsByService reg"
  "instanceIDsByConnector (recalculate_service sid reg) = instanceIDsByConnector reg"
  by (simp_all add: recalculate_service_def Let_def split: option.split)

lemma services_indexed_recalculate:
  assumes "services_indexed reg"
  shows "services_indexed (recalculate_service sid reg)"
proof (cases "map_of (logicalServices reg) (trim_space sid)")
  case (Some snap)
  note facts = services_indexedD [OF assms]
  let ?g = "\<lambda>i r. if i \<in> set (index_ids (instanceIDsByService reg) (trim_space sid))
      then r\<lparr>sis_service := lss_service snap\<rparr> else r"
  have "indexes service_of (instanceIDsByService reg) (map (\<lambda>(i, r). (i, ?g i r)) (instances reg))"
    and "indexes connector_of (instanceIDsByConnector reg) (map (\<lambda>(i, r). (i, ?g i r)) (instances reg))"
    using facts(4,5) by (auto intro!: indexes_map simp: service_of_def connector_of_def)
  moreover have "trim_space (si_id (sis_instance r)) = i \<and> i \<noteq> []"
    if "map_of (map (\<lambda>(i, r). (i, ?g i r)) (instances reg)) i = Some r" for i r
    using that facts(3) by (auto simp: map_of_share split: if_splits simp del: map_of_eq_Some_iff)
  ultimately show ?thesis
    using Some facts(1,2,6)
    by (auto simp: services_indexed_def recalculate_service_def Let_def keys_map
        simp del: map_map map_of_eq_Some_iff)
qed (use assms in \<open>simp add: recalculate_service_def Let_def\<close>)


lemma services_indexed_put_service:
  "services_indexed reg \<Longrightarrow> services_indexed (put_service now s reg)"
  by (auto simp: services_indexed_def put_service_def Let_def simp del: map_of_eq_Some_iff)

lemma unindex_fields [simp]:
  "instances (unindex_previous i reg) = instances reg"
  "logicalServices (unindex_previous i reg) = logicalServices reg"
  by (simp_all add: unindex_previous_def Let_def split: option.split)

lemma unindex_indexes:
  assumes "services_indexed reg" and "trim_space i = i" and "i \<noteq> []"
  shows "indexes service_of (instanceIDsByService (unindex_previous i reg)) (map_del i (instances reg))
    \<and> indexes connector_of (instanceIDsByConnector (unindex_previous i reg)) (map_del i (instances reg))"
proof (cases "map_of (instances reg) i")
  case None
  then have "map_del i (instances reg) = instances reg"
    by (metis delete_id map_of_eq_None_iff list.set_map)
  then show ?thesis using services_indexedD(4,5) [OF assms(1)] None by (simp add: unindex_previous_def)
next
  case (Some r)
  then show ?thesis
    using indexes_without [OF services_indexedD(4) [OF assms(1)] Some _ assms(2,3)]
      indexes_without [OF services_indexedD(5) [OF assms(1)] Some _ assms(2,3)]
    by (simp add: unindex_previous_def Let_def service_of_def connector_of_def)
qed

lemma services_indexed_upsert_instance:
  assumes "services_indexed reg"
  shows "services_indexed (upsert_instance now inst reg)"
proof (cases "trim_space (si_id inst) = []")
  case False
  let ?i = "trim_space (si_id inst)"
  let ?s = "case map_of (logicalServices reg) (trim_space (si_service inst)) of
      None \<Rightarrow> no_service | Some record \<Rightarrow> lss_service record"
  let ?r = "\<lparr>sis_service = ?s, sis_instance = inst, sis_updated_at = now\<rparr>"
  note facts = services_indexedD [OF assms]
  note un = unindex_indexes [OF assms trim_space_idem False]
  have "indexes service_of (add_index (si_service inst) ?i (instanceIDsByService (unindex_previous ?i reg)))
      (map_put ?i ?r (instances reg))"
    by (rule indexes_with) (use un False in \<open>simp_all add: service_of_def\<close>)
  moreover have "indexes connector_of
      (add_index (si_connector inst) ?i (instanceIDsByConnector (unindex_previous ?i reg)))
      (map_put ?i ?r (instances reg))"
    by (rule indexes_with) (use un False in \<open>simp_all add: connector_of_def\<close>)
  moreover have "trim_space (si_id (sis_instance r)) = j \<and> j \<noteq> []"
    if "map_of (map_put ?i ?r (instances reg)) j = Some r" for j r
    using that facts(3) False by (auto split: if_splits simp del: map_of_eq_Some_iff)
  ultimately show ?thesis
    using False facts(1,2,6) by (simp add: services_indexed_def upsert_instance_def Let_def del: map_of_eq_Some_iff)
qed (use assms in \<open>simp add: upsert_instance_def Let_def\<close>)

lemma services_indexed_drop:
  assumes "services_indexed reg" and "map_of (instances reg) i = Some r"
  shows "services_indexed (drop_instance i (sis_instance r) reg)"
proof -
  note facts = services_indexedD [OF assms(1)]
  have i: "trim_space i = i" "i \<noteq> []" using facts(3) [OF assms(2)] by simp_all
  have "remove_index (trim_space k) i idx = remove_index k i idx" for k idx
    by (simp add: remove_index_def Let_def)
  then show ?thesis
    using unindex_indexes [OF assms(1) i] facts(1,2,3,6) assms(2)
    by (simp add: drop_instance_def services_indexed_def unindex_previous_def Let_def del: map_of_eq_Some_iff)
qed


section \<open>The counts of a service are exact\<close>

definition count_in :: "(service_instance \<Rightarrow> bool) \<Rightarrow> string \<Rightarrow> service_registry \<Rightarrow> 32 word" where
  "count_in P sid reg =
     of_nat (length (filter (\<lambda>(i, r). service_of r = sid \<and> P (sis_instance r)) (instances reg)))"

definition counts_right :: "string \<Rightarrow> logical_service \<Rightarrow> service_registry \<Rightarrow> bool" where
  "counts_right sid s reg \<longleftrightarrow> ls_active_count s = count_in is_active sid reg
     \<and> ls_healthy_count s = count_in is_healthy sid reg
     \<and> ls_status s = (if count_in is_active sid reg = 0 then ServiceStatusInactive else ServiceStatusActive)"

definition counted_except :: "string set \<Rightarrow> service_registry \<Rightarrow> bool" where
  "counted_except S reg \<longleftrightarrow> (\<forall>sid r. map_of (logicalServices reg) sid = Some r \<and> sid \<noteq> [] \<and> sid \<notin> S
     \<longrightarrow> counts_right sid (lss_service r) reg)"

lemma counted_exceptD:
  "counted_except S reg \<Longrightarrow> map_of (logicalServices reg) sid = Some r \<Longrightarrow> sid \<noteq> [] \<Longrightarrow> sid \<notin> S \<Longrightarrow>
   counts_right sid (lss_service r) reg"
  unfolding counted_except_def by blast

lemma filter_put:
  "\<not> Q (i, r) \<Longrightarrow> (\<And>r0. map_of m i = Some r0 \<Longrightarrow> \<not> Q (i, r0)) \<Longrightarrow> filter Q (map_put i r m) = filter Q m"
  by (induction m) (auto simp del: map_of_eq_Some_iff split: if_splits)

lemma filter_del:
  assumes "keys_distinct m" and "\<And>r0. map_of m i = Some r0 \<Longrightarrow> \<not> Q (i, r0)"
  shows "filter Q (map_del i m) = filter Q m"
proof -
  have "\<not> Q e" if "e \<in> set m" "fst e = i" for e
    using that assms map_of_is_SomeI [OF assms(1), of i "snd e"] by (cases e) auto
  then have "filter Q (filter (\<lambda>e. i \<noteq> fst e) m) = filter Q m"
    by (auto simp: filter_filter intro!: filter_cong)
  then show ?thesis by (simp add: AList.delete_eq case_prod_unfold)
qed

text \<open>The instances that the index finds are those that the count goes over.\<close>

lemma found_count:
  assumes "services_indexed reg" and "trim_space sid = sid" and "sid \<noteq> []"
  shows "of_nat (length (filter (P \<circ> sis_instance) (instances_by_service sid reg))) = count_in P sid reg"
proof -
  let ?ids = "index_ids (instanceIDsByService reg) sid"
  let ?P = "\<lambda>i. P (sis_instance (the (map_of (instances reg) i)))"
  note mem = indexes_mem [OF services_indexedD(4) [OF assms(1)], of _ sid]
  have found: "length (filter (P \<circ> sis_instance) (List.map_filter (map_of (instances reg)) ids)) = length (filter ?P ids)"
    if "\<forall>i \<in> set ids. \<exists>r. map_of (instances reg) i = Some r" for ids
    using that by (induction ids) (auto simp: map_filter_simps simp del: map_of_eq_Some_iff)
  have "\<forall>i \<in> set ?ids. \<exists>r. map_of (instances reg) i = Some r" using mem by blast
  from found [OF this]
  have "length (filter (P \<circ> sis_instance) (instances_by_service sid reg)) = length (filter ?P ?ids)"
    using assms(2) by (simp add: instances_by_service_def)
  moreover have "idle_index (\<lambda>r. service_of r = sid \<and> P (sis_instance r)) (instances reg) (filter ?P ?ids)"
    using mem assms(3) services_indexedD(1) [OF assms(1)] indexes_distinct [OF services_indexedD(4) [OF assms(1)]]
    by (auto simp: idle_index_def simp del: map_of_eq_Some_iff)
  ultimately show ?thesis unfolding count_in_def using idle_index_length by metis
qed


lemma counted_except_mono: "counted_except S reg \<Longrightarrow> S \<subseteq> T \<Longrightarrow> counted_except T reg"
  unfolding counted_except_def by blast

lemma filter_map_values:
  "(\<And>i r. Q (i, g i r) \<longleftrightarrow> Q (i, r)) \<Longrightarrow>
   length (filter Q (map (\<lambda>(i, r). (i, g i r)) m)) = length (filter Q m)"
  by (induction m) auto

lemma count_in_share [simp]: "count_in P sid (share_service s ids reg) = count_in P sid reg"
  unfolding count_in_def share_service_fields
  by (subst filter_map_values) (auto simp: service_of_def)

lemma count_in_services [simp]:
  "count_in P sid (reg\<lparr>logicalServices := m\<rparr>) = count_in P sid reg"
  "count_in P sid (put_service now s reg) = count_in P sid reg"
  by (simp_all add: count_in_def put_service_def Let_def)

lemma count_in_recalculate [simp]: "count_in P sid (recalculate_service sid' reg) = count_in P sid reg"
  by (simp add: recalculate_service_def Let_def split: option.split)

lemma keys_recalculate: "has_key (logicalServices (recalculate_service sid reg)) k \<longleftrightarrow> has_key (logicalServices reg) k"
  by (auto simp: recalculate_service_def Let_def split: option.split)

lemma counted_recalculate:
  assumes "services_indexed reg" and "counted_except S reg"
  shows "counted_except (S - {trim_space sid}) (recalculate_service sid reg)"
proof (cases "map_of (logicalServices reg) (trim_space sid)")
  case None
  then show ?thesis
    using assms(2) by (auto simp: counted_except_def recalculate_service_def Let_def simp del: map_of_eq_Some_iff)
next
  case (Some snap)
  let ?sid = "trim_space sid"
  let ?reg = "recalculate_service sid reg"
  have found: "?sid \<noteq> [] \<Longrightarrow>
      of_nat (length (filter (P \<circ> sis_instance) (instances_by_service sid reg))) = count_in P ?sid reg" for P
    using found_count [OF assms(1) trim_space_idem] by (simp add: instances_by_service_def)
  have "counts_right k (lss_service r) ?reg"
    if "map_of (logicalServices ?reg) k = Some r" "k \<noteq> []" "k \<notin> S - {?sid}" for k r
  proof (cases "k = ?sid")
    case True
    then show ?thesis
      using that(1,2) Some found [of is_active] found [of is_healthy]
      by (auto simp: counts_right_def recalculate_service_def Let_def)
  next
    case False
    then show ?thesis
      using that Some counted_exceptD [OF assms(2), of k r]
      by (auto simp: counts_right_def recalculate_service_def Let_def simp del: map_of_eq_Some_iff)
  qed
  then show ?thesis unfolding counted_except_def by blast
qed

lemma counted_recalculate_fold:
  "services_indexed reg \<Longrightarrow> counted_except S reg \<Longrightarrow>
   services_indexed (fold recalculate_service sids reg)
   \<and> counted_except (S - trim_space ` set sids) (fold recalculate_service sids reg)
   \<and> (\<forall>k. has_key (logicalServices (fold recalculate_service sids reg)) k \<longleftrightarrow> has_key (logicalServices reg) k)"
proof (induction sids arbitrary: reg S)
  case (Cons sid sids)
  have "S - trim_space ` set (sid # sids) = S - {trim_space sid} - trim_space ` set sids" by auto
  then show ?case
    using Cons.IH [OF services_indexed_recalculate [OF Cons.prems(1)] counted_recalculate [OF Cons.prems]]
      keys_recalculate [of sid reg]
    by simp
qed simp

lemma upsert_instance_services [simp]: "logicalServices (upsert_instance now inst reg) = logicalServices reg"
  by (simp add: upsert_instance_def Let_def)

lemma counted_upsert_instance:
  assumes "counted_except S reg"
    and "\<And>r. map_of (instances reg) (trim_space (si_id inst)) = Some r \<Longrightarrow> service_of r \<in> S"
    and "trim_space (si_service inst) \<in> S"
  shows "counted_except S (upsert_instance now inst reg)"
proof (cases "trim_space (si_id inst) = []")
  case False
  have "count_in P sid (upsert_instance now inst reg) = count_in P sid reg" if "sid \<notin> S" for P sid
  proof -
    let ?Q = "\<lambda>(i::string, r). service_of r = sid \<and> P (sis_instance r)"
    have "filter ?Q (map_put (trim_space (si_id inst))
        \<lparr>sis_service = s, sis_instance = inst, sis_updated_at = now\<rparr> (instances reg)) = filter ?Q (instances reg)" for s
      by (rule filter_put) (use that assms(2,3) in \<open>auto simp: service_of_def simp del: map_of_eq_Some_iff\<close>)
    then show ?thesis using False by (simp add: count_in_def upsert_instance_def Let_def)
  qed
  then show ?thesis using assms(1) by (auto simp: counted_except_def counts_right_def simp del: map_of_eq_Some_iff)
qed (use assms(1) in \<open>simp add: upsert_instance_def Let_def\<close>)

lemma counted_put_service:
  "counted_except S reg \<Longrightarrow> trim_space (ls_id s) \<in> S \<Longrightarrow> counted_except S (put_service now s reg)"
  by (auto simp: counted_except_def counts_right_def put_service_def count_in_def Let_def simp del: map_of_eq_Some_iff)

text \<open>The registry is indexed, and every service but those of \<open>S\<close> is counted exactly.\<close>

definition services_ok_but :: "string set \<Rightarrow> service_registry \<Rightarrow> bool" where
  "services_ok_but S reg \<longleftrightarrow> services_indexed reg \<and> counted_except S reg"

definition services_ok :: "service_registry \<Rightarrow> bool" where
  "services_ok reg \<longleftrightarrow> services_indexed reg \<and> counted_except {} reg"

lemma services_ok_but_empty: "services_ok reg \<longleftrightarrow> services_ok_but {} reg"
  by (simp add: services_ok_def services_ok_but_def)

lemma services_ok_but_recalculate:
  "services_indexed reg \<Longrightarrow> counted_except T reg \<Longrightarrow> T - {trim_space sid} \<subseteq> S \<Longrightarrow> services_ok_but S (recalculate_service sid reg)"
  using counted_recalculate [of reg T sid] counted_except_mono services_indexed_recalculate
  unfolding services_ok_but_def by blast

lemma services_ok_but_remove:
  assumes "services_ok_but S reg"
  shows "services_ok_but S (snd (remove_instance i reg))"
proof (cases "map_of (instances reg) i")
  case (Some r)
  have idx: "services_indexed reg" and cnt: "counted_except S reg" using assms by (simp_all add: services_ok_but_def)
  let ?reg = "drop_instance i (sis_instance r) reg"
  have "count_in P sid ?reg = count_in P sid reg" if "sid \<noteq> service_of r" for P sid
  proof -
    let ?Q = "\<lambda>(i::string, r). service_of r = sid \<and> P (sis_instance r)"
    have "filter ?Q (map_del i (instances reg)) = filter ?Q (instances reg)"
      by (rule filter_del [OF services_indexedD(1) [OF idx]]) (use that Some in auto)
    then show ?thesis by (simp add: count_in_def drop_instance_def Let_def)
  qed
  then have "counted_except (insert (service_of r) S) ?reg"
    using cnt
    by (auto simp: counted_except_def counts_right_def drop_instance_def Let_def simp del: map_of_eq_Some_iff)
  from services_ok_but_recalculate [OF services_indexed_drop [OF idx Some] this, of "service_of r" S]
  show ?thesis using Some by (auto simp: remove_instance_def Let_def service_of_def)
qed (use assms in \<open>simp add: remove_instance_def\<close>)

lemma services_ok_but_remove_all: "services_ok_but S reg \<Longrightarrow> services_ok_but S (snd (remove_instances rs reg))"
proof -
  have "services_ok_but S (snd acc) \<Longrightarrow> services_ok_but S (snd (fold (\<lambda>r (removed, reg).
      let (ok, reg') = remove_instance (si_id (sis_instance r)) reg in (removed \<or> ok, reg')) rs acc))" for acc
    by (induction rs arbitrary: acc) (auto simp: Let_def case_prod_unfold services_ok_but_remove)
  then show "services_ok_but S reg \<Longrightarrow> ?thesis" by (simp add: remove_instances_def)
qed

lemmas services_ok_remove = services_ok_but_remove [of "{}", folded services_ok_but_empty]
lemmas services_ok_remove_all = services_ok_but_remove_all [of "{}", folded services_ok_but_empty]


text \<open>
  A publication recalculates the service that it names. It leaves the count behind of another
  service that the instance moves away from, and of the service the instance names when
  that is another one.
\<close>

definition left_behind :: "logical_service \<Rightarrow> service_instance \<Rightarrow> service_registry \<Rightarrow> string set" where
  "left_behind s inst reg =
     (if trim_space (si_id inst) = [] then {}
      else insert (trim_space (si_service inst)) (case get_instance (si_id inst) reg of None \<Rightarrow> {} | Some r \<Rightarrow> {service_of r}))"

lemma services_ok_but_upsert:
  assumes "services_ok_but S reg"
  shows "services_ok_but (S \<union> left_behind s inst reg - {trim_space (ls_id s)}) (upsert_service wall now s inst reg)"
proof -
  let ?sid = "trim_space (ls_id s)" and ?L = "left_behind s inst reg"
  let ?reg = "put_service (now_or wall now) s reg" and ?S = "insert (trim_space (ls_id s)) (S \<union> left_behind s inst reg)"
  have idx: "services_indexed ?reg"
    using assms by (simp add: services_ok_but_def services_indexed_put_service)
  have cnt: "counted_except ?S ?reg"
    using assms counted_put_service [of ?S reg s] counted_except_mono [of S reg ?S]
    by (auto simp: services_ok_but_def)
  have "counted_except ?S (upsert_instance (now_or wall now) inst ?reg)"
  proof (cases "trim_space (si_id inst) = []")
    case True
    then show ?thesis using cnt by (simp add: upsert_instance_def Let_def)
  next
    case False
    have "service_of r \<in> ?S" if "map_of (instances ?reg) (trim_space (si_id inst)) = Some r" for r
      using that False by (simp add: put_service_def left_behind_def get_instance_def Let_def)
    with cnt show ?thesis by (rule counted_upsert_instance) (use False in \<open>simp_all add: left_behind_def\<close>)
  qed
  from services_ok_but_recalculate [OF services_indexed_upsert_instance [OF idx] this,
      of ?sid "S \<union> left_behind s inst reg - {?sid}"]
  show ?thesis by (auto simp: upsert_service_def Let_def)
qed

text \<open>An instance that is published together with its own service, and stays with it.\<close>

definition publishes_aligned :: "logical_service \<Rightarrow> service_instance \<Rightarrow> service_registry \<Rightarrow> bool" where
  "publishes_aligned s inst reg \<longleftrightarrow> trim_space (si_service inst) = trim_space (ls_id s)
     \<and> (\<forall>r. get_instance (si_id inst) reg = Some r \<longrightarrow> service_of r = trim_space (ls_id s))"

lemma services_ok_upsert:
  assumes "services_ok reg" and "publishes_aligned s inst reg"
  shows "services_ok (upsert_service wall now s inst reg)"
proof -
  have none: "{} \<union> left_behind s inst reg - {trim_space (ls_id s)} = {}"
    using assms(2) by (auto simp: left_behind_def publishes_aligned_def split: option.split)
  show ?thesis
    using services_ok_but_upsert [of "{}" reg s inst wall now] assms(1) unfolding services_ok_but_empty none by simp
qed

lemma services_ok_but_remove_service:
  assumes "services_ok_but S reg"
  shows "services_ok_but S (snd (remove_logical_service sid reg))"
proof -
  let ?reg = "\<lambda>names. reg\<lparr>logicalServices := map_del (trim_space sid) (logicalServices reg),
      serviceIDByScopeName := names\<rparr>"
  have "services_ok_but S (?reg names)" for names
    using assms
    by (auto simp: services_ok_but_def services_indexed_def counted_except_def counts_right_def count_in_def
        simp del: map_of_eq_Some_iff)
  then show ?thesis
    using assms by (simp add: remove_logical_service_def Let_def services_ok_but_remove_all split: option.split)
qed

lemma services_ok_but_mark:
  assumes "services_ok_but S reg"
  shows "services_ok_but S (snd (mark_lifecycle wall now c s st h reg))"
proof (cases "trim_space c = []")
  case False
  define hit where "hit = (\<lambda>(i::string, r). of_runtime (trim_space c) (trim_space s) r)"
  define g where "g = (\<lambda>i r. if hit (i, r)
      then r\<lparr>sis_instance := (sis_instance r)\<lparr>si_status := st, si_health := h\<rparr>, sis_updated_at := now_or wall now\<rparr>
      else r)"
  define reg1 where "reg1 = reg\<lparr>instances := map (\<lambda>(i, r). (i, g i r)) (instances reg)\<rparr>"
  define affected where "affected = remdups (map (\<lambda>(i, r). trim_space (si_service (sis_instance r)))
      (filter hit (instances reg)))"
  have idx: "services_indexed reg" and cnt: "counted_except S reg" using assms by (simp_all add: services_ok_but_def)
  note facts = services_indexedD [OF idx]
  have g: "si_id (sis_instance (g i r)) = si_id (sis_instance r)" "service_of (g i r) = service_of r"
      "connector_of (g i r) = connector_of r" for i r
    by (simp_all add: g_def service_of_def connector_of_def)
  have "services_indexed reg1"
    using facts(1,2,3,6) indexes_map [OF facts(4), of g] indexes_map [OF facts(5), of g] g(2,3)
    by (auto simp: services_indexed_def reg1_def keys_map map_of_share g simp del: map_map map_of_eq_Some_iff)
  moreover have "count_in P sid reg1 = count_in P sid reg" if "sid \<notin> set affected" for P sid
  proof -
    let ?Q = "\<lambda>(i::string, r). service_of r = sid \<and> P (sis_instance r)"
    have "\<not> hit (i, r)" if "(i, r) \<in> set (instances reg)" "service_of r = sid" for i r
    proof
      assume "hit (i, r)"
      with that have "sid \<in> (\<lambda>(i, r). trim_space (si_service (sis_instance r))) ` set (filter hit (instances reg))"
        by (intro rev_image_eqI [of "(i, r)"]) (simp_all add: service_of_def)
      then show False using \<open>sid \<notin> set affected\<close> by (simp add: affected_def)
    qed
    then have "filter (?Q \<circ> (\<lambda>(i, r). (i, g i r))) (instances reg) = filter ?Q (instances reg)"
      using g(2) by (auto simp: g_def intro!: filter_cong)
    then show ?thesis by (simp add: count_in_def reg1_def length_filter_map)
  qed
  then have "counted_except (S \<union> set affected) reg1"
    using cnt by (auto simp: counted_except_def counts_right_def reg1_def simp del: map_of_eq_Some_iff)
  moreover have "trim_space ` set affected = set affected"
    by (auto simp: affected_def image_image case_prod_unfold)
  ultimately have "services_ok_but S (fold recalculate_service affected reg1)"
    using counted_recalculate_fold [of reg1 "S \<union> set affected" affected] counted_except_mono [of "S \<union> set affected - set affected" _ S]
    by (auto simp: services_ok_but_def)
  moreover have "snd (mark_lifecycle wall now c s st h reg) = fold recalculate_service affected reg1"
    using False by (simp add: mark_lifecycle_def Let_def affected_def reg1_def g_def hit_def)
  ultimately show ?thesis by simp
qed (use assms in \<open>simp add: mark_lifecycle_def\<close>)

lemmas services_ok_remove_service = services_ok_but_remove_service [of "{}", folded services_ok_but_empty]
lemmas services_ok_mark = services_ok_but_mark [of "{}", folded services_ok_but_empty]

lemma services_ok_replace: "services_ok (replace_all_services wall now ss insts)"
proof -
  have put: "services_indexed (fold (put_service t) ss reg)" if "services_indexed reg" for t reg ss
    using that by (induction ss arbitrary: reg) (simp_all add: services_indexed_put_service)
  have ups: "services_indexed (fold (upsert_instance t) insts reg)" if "services_indexed reg" for t reg insts
    using that by (induction insts arbitrary: reg) (simp_all add: services_indexed_upsert_instance)
  define reg where "reg = fold (upsert_instance (now_or wall now)) insts
      (fold (put_service (now_or wall now)) ss new_service_registry)"
  define sids where "sids = map fst (logicalServices reg)"
  have idx: "services_indexed reg" unfolding reg_def by (intro ups put services_indexed_new)
  have "counted_except UNIV reg" by (simp add: counted_except_def)
  note all = counted_recalculate_fold [OF idx this, of sids]
  have mem: "k \<in> trim_space ` set sids" if "map_of (logicalServices (fold recalculate_service sids reg)) k = Some r" for k r
  proof -
    have "has_key (logicalServices reg) k" using all that by blast
    then have "k \<in> set sids" unfolding sids_def has_key_iff by simp
    moreover have "trim_space k = k" using services_indexedD(6) [OF idx] \<open>has_key (logicalServices reg) k\<close> by blast
    ultimately show ?thesis by (metis image_eqI)
  qed
  have "counts_right k (lss_service r) (fold recalculate_service sids reg)"
    if "map_of (logicalServices (fold recalculate_service sids reg)) k = Some r" "k \<noteq> []" for k r
    using counted_exceptD [OF conjunct1 [OF conjunct2 [OF all]] that] mem [OF that(1)] by simp
  then have "counted_except {} (fold recalculate_service sids reg)"
    unfolding counted_except_def by blast
  then show ?thesis
    using all by (simp add: services_ok_def replace_all_services_def recalculate_all_def reg_def [symmetric] sids_def Let_def)
qed


section \<open>Properties\<close>

text \<open>
  Any sequence of the registry's operations from the empty registry. The set is the services whose
  counts a publication has left behind and that have not been published since.
\<close>

inductive service_run :: "string set \<Rightarrow> service_registry \<Rightarrow> bool" where
  service_new: "service_run {} new_service_registry"
| service_upsert: "service_run S reg \<Longrightarrow>
    service_run (S \<union> left_behind s inst reg - {trim_space (ls_id s)}) (upsert_service wall now s inst reg)"
| service_remove: "service_run S reg \<Longrightarrow> service_run S (snd (remove_logical_service sid reg))"
| service_remove_instance: "service_run S reg \<Longrightarrow> service_run S (snd (remove_instance_by_id i reg))"
| service_remove_runtime: "service_run S reg \<Longrightarrow>
    service_run S (snd (remove_instance_by_service_and_runtime sid c session reg))"
| service_mark: "service_run S reg \<Longrightarrow> service_run S (snd (mark_lifecycle wall now c session st h reg))"
| service_replace: "service_run S reg \<Longrightarrow> service_run {} (replace_all_services wall now services insts)"

lemma services_ok_new: "services_ok new_service_registry"
  using services_indexed_new by (simp add: services_ok_def counted_except_def new_service_registry_def)

lemma service_run_ok: "service_run S reg \<Longrightarrow> services_ok_but S reg"
  by (induction rule: service_run.induct)
    (simp_all add: services_ok_new [unfolded services_ok_but_empty] services_ok_but_upsert services_ok_but_remove_service
      services_ok_but_mark services_ok_replace [unfolded services_ok_but_empty] services_ok_but_remove
      services_ok_but_remove_all remove_instance_by_id_def remove_instance_by_service_and_runtime_def Let_def)

lemma count_in_list:
  "count_in P sid reg
     = of_nat (length (filter (\<lambda>r. trim_space (si_service (sis_instance r)) = sid \<and> P (sis_instance r))
                      (list_instances reg)))"
  by (simp add: count_in_def list_instances_def filter_map comp_def case_prod_unfold service_of_def)

lemma count32: "n < 2 ^ 31 \<Longrightarrow> sint (of_nat n :: 32 word) = int n"
  by (simp add: sint_uint unsigned_of_nat signed_take_bit_int_eq_self take_bit_nat_eq_self)

text \<open>
  C40. The bridge's view of a service agrees with its instances: along any sequence of publications,
  removals, lifecycle changes and full synchronisations of the registry, a service
  that no publication has left behind (by publishing an instance of it under another service, or
  by moving one away, until it is published itself) carries as its \<open>int32\<close> counts the numbers of its active
  and of its healthy instances in the registry, modulo \<open>2 ^ 32\<close>, and is active iff its active count is not 0;
  with fewer than \<open>2 ^ 31\<close> instances the counts are exact. The index lists
  exactly the instances of any service, each once.
\<close>

theorem service_counts_exact:
  assumes "service_run S reg" and "get_logical_service raw_sid reg = Some s"
    and "sid = trim_space raw_sid"
    and "active = length (filter (\<lambda>r. trim_space (si_service (sis_instance r)) = sid
      \<and> si_status (sis_instance r) = ServiceStatusActive) (list_instances reg))"
    and "healthy = length (filter (\<lambda>r. trim_space (si_service (sis_instance r)) = sid
      \<and> si_status (sis_instance r) = ServiceStatusActive \<and> si_health (sis_instance r) = HealthStatusHealthy) (list_instances reg))"
  shows "(sid \<notin> S \<longrightarrow> ls_active_count s = of_nat active \<and> ls_healthy_count s = of_nat healthy
        \<and> (ls_status s = ServiceStatusActive \<longleftrightarrow> ls_active_count s \<noteq> 0)
        \<and> (length (list_instances reg) < 2 ^ 31 \<longrightarrow>
             sint (ls_active_count s) = int active \<and> sint (ls_healthy_count s) = int healthy
             \<and> (ls_status s = ServiceStatusActive \<longleftrightarrow> 0 < active)))
    \<and> set (list_instances_by_service sid reg)
        = {r \<in> set (list_instances reg). trim_space (si_service (sis_instance r)) = sid}
    \<and> distinct (map (\<lambda>r. trim_space (si_id (sis_instance r))) (list_instances_by_service sid reg))"
proof -
  have ok: "services_indexed reg" "counted_except S reg"
    using service_run_ok [OF assms(1)] by (simp_all add: services_ok_but_def)
  obtain r where r: "map_of (logicalServices reg) sid = Some r" "sid \<noteq> []" "s = lss_service r"
    using assms(2,3) by (auto simp: get_logical_service_def Let_def simp del: map_of_eq_Some_iff split: if_splits)
  have right: "ls_active_count s = of_nat active \<and> ls_healthy_count s = of_nat healthy
      \<and> (ls_status s = ServiceStatusActive \<longleftrightarrow> ls_active_count s \<noteq> 0)" if "sid \<notin> S"
    using counted_exceptD [OF ok(2) r(1,2) that] r(3)
    by (auto simp: counts_right_def count_in_list is_active_def is_healthy_def assms(4,5))
  have "active \<le> length (list_instances reg)" "healthy \<le> length (list_instances reg)"
    by (simp_all add: assms(4,5))
  then have small: "sint (of_nat active :: 32 word) = int active" "sint (of_nat healthy :: 32 word) = int healthy"
    if "length (list_instances reg) < 2 ^ 31"
    using that by (simp_all add: count32)
  have "ls_active_count s \<noteq> 0 \<longleftrightarrow> 0 < active" if "sid \<notin> S" "length (list_instances reg) < 2 ^ 31"
  proof -
    have "ls_active_count s = of_nat active" using right [OF that(1)] by simp
    then show ?thesis using small(1) [OF that(2)] by (cases "active = 0") auto
  qed
  note counts = right small this
  note facts = services_indexedD [OF ok(1)]
  let ?ids = "index_ids (instanceIDsByService reg) sid"
  note mem = indexes_mem [OF facts(4), of _ sid]
  have found: "list_instances_by_service sid reg = map (\<lambda>i. the (map_of (instances reg) i)) ?ids"
  proof -
    have all: "List.map_filter (map_of (instances reg)) ids = map (\<lambda>i. the (map_of (instances reg) i)) ids"
      if "\<forall>i \<in> set ids. \<exists>r. map_of (instances reg) i = Some r" for ids
      using that by (induction ids) (auto simp: map_filter_simps simp del: map_of_eq_Some_iff)
    have "\<forall>i \<in> set ?ids. \<exists>r. map_of (instances reg) i = Some r" using mem by blast
    from all [OF this] show ?thesis
      using r(2) assms(3) by (simp add: list_instances_by_service_def instances_by_service_def)
  qed
  have "set (list_instances_by_service sid reg)
      = {r \<in> set (list_instances reg). trim_space (si_service (sis_instance r)) = sid}"
  proof (intro set_eqI iffI)
    fix x
    assume "x \<in> set (list_instances_by_service sid reg)"
    then obtain i where "i \<in> set ?ids" "x = the (map_of (instances reg) i)" unfolding found by auto
    moreover from this(1) obtain r' where "map_of (instances reg) i = Some r'" "service_of r' = sid"
      unfolding mem by blast
    ultimately show "x \<in> {r \<in> set (list_instances reg). trim_space (si_service (sis_instance r)) = sid}"
      by (force simp: list_instances_def service_of_def dest: map_of_SomeD)
  next
    fix x
    assume "x \<in> {r \<in> set (list_instances reg). trim_space (si_service (sis_instance r)) = sid}"
    then obtain i where "(i, x) \<in> set (instances reg)" "service_of x = sid"
      by (auto simp: list_instances_def service_of_def)
    then have "map_of (instances reg) i = Some x" "i \<in> set ?ids"
      using map_of_is_SomeI [OF facts(1)] r(2) unfolding mem by blast+
    then show "x \<in> set (list_instances_by_service sid reg)" unfolding found by force
  qed
  moreover have "map (\<lambda>r. trim_space (si_id (sis_instance r))) (list_instances_by_service sid reg) = ?ids"
  proof -
    have "trim_space (si_id (sis_instance (the (map_of (instances reg) i)))) = i" if "i \<in> set ?ids" for i
      using that facts(3) unfolding mem by (metis option.sel)
    then show ?thesis unfolding found by (simp add: map_idI)
  qed
  ultimately show ?thesis
    using counts indexes_distinct [OF facts(4)] by simp
qed


definition sample_service :: logical_service where
  "sample_service = no_service\<lparr>ls_id := ''s'', ls_name := ''s'', ls_scope := \<lparr>Namespace = ''n'', Environment = ''e''\<rparr>\<rparr>"

definition sample_instance :: service_instance where
  "sample_instance = \<lparr>si_id = ''i'', si_service = ''s'', si_connector = ''c'', si_session = ''x'', si_epoch = 1,
     si_status = ServiceStatusActive, si_health = HealthStatusHealthy, si_version = 1, si_endpoints = [],
     si_exposure = \<lparr>ex_ingress_mode = IngressModeL7Shared, ex_host = [], ex_listen_port = 0, ex_sni_name = [],
       ex_path_prefix = [], ex_allow_export = False\<rparr>,
     si_health_check = \<lparr>hc_type = [], hc_endpoint = [], hc_interval = 0, hc_timeout = 0,
       hc_healthy_threshold = 0, hc_unhealthy_threshold = 0\<rparr>,
     si_discovery = \<lparr>dp_enabled = False, dp_providers = [], dp_external_name = [], dp_namespace = [], dp_group = [],
       dp_tags = [], dp_metadata = []\<rparr>,
     si_route_hint = \<lparr>rh_headers = [], rh_queries = [], rh_priority = 0\<rparr>, si_labels = [], si_metadata = []\<rparr>"

lemma trim_sample:
  "trim_space ''s'' = ''s''" "trim_space ''i'' = ''i''" "trim_space ''c'' = ''c''" "trim_space ''x'' = ''x''"
  "trim_space ''n'' = ''n''" "trim_space ''e'' = ''e''"
  by (rule trim_space_graphic; simp add: graphic_def)+

theorem service_counts_exact_witness:
  "let reg = upsert_service 1 1 sample_service sample_instance new_service_registry
   in \<exists>s. get_logical_service ''s'' reg = Some s \<and> ls_active_count s = 1 \<and> ls_status s = ServiceStatusActive"
proof -
  let ?reg = "upsert_service 1 1 sample_service sample_instance new_service_registry"
  note run = sample_service_def sample_instance_def no_service_def new_service_registry_def upsert_service_def
    put_service_def upsert_instance_def unindex_previous_def recalculate_service_def share_service_def
    instances_by_service_def index_ids_def add_index_def map_filter_simps now_or_def Let_def trim_sample
    list_instances_def get_logical_service_def
  have "left_behind sample_service sample_instance new_service_registry = {''s''}"
    by (simp add: left_behind_def get_instance_def run)
  then have step: "service_run {} ?reg"
    using service_upsert [OF service_new, of sample_service sample_instance 1 1]
    by (simp add: sample_service_def no_service_def trim_sample)
  obtain s where s: "get_logical_service ''s'' ?reg = Some s" by (simp add: run)
  have "length (filter (\<lambda>r. trim_space (si_service (sis_instance r)) = ''s''
      \<and> si_status (sis_instance r) = ServiceStatusActive) (list_instances ?reg)) = 1"
    by (simp add: run)
  then have "ls_active_count s = 1 \<and> ls_status s = ServiceStatusActive"
    using service_counts_exact [OF step s trim_sample(1) [symmetric] refl refl] by simp
  then show ?thesis using s unfolding Let_def by blast
qed

end
