(* ===== verification/Bridge_Tunnels.thy ===== *)
theory Bridge_Tunnels
  imports Idle_Index Transport_Types "HOL-Library.List_Lexorder" "HOL-Library.Char_ord"
    "HOL-Library.Product_Lexorder"
begin

text \<open>
  The tunnel registry of the bridge
  (\<open>cloud-bridge/runtime/bridge/registry/tunnel_registry.go\<close>): the tunnels of all connectors
  and, per connector, the FIFO queue of its idle ones. Every operation is one section under the
  registry's mutex; tunnels that a purge takes out are closed after it and returned.
\<close>

section \<open>State\<close>

datatype bridge_tunnel_state =
    BridgeTunnelIdle
  | BridgeTunnelReserved
  | BridgeTunnelActive
  | BridgeTunnelClosed
  | BridgeTunnelBroken

definition err_bridge_tunnel_not_found :: goerr where
  "err_bridge_tunnel_not_found = OtherErr ''tunnel not found''"

definition err_bridge_duplicate_tunnel_id :: goerr where
  "err_bridge_duplicate_tunnel_id = OtherErr ''duplicate tunnel id''"

definition err_invalid_tunnel_state_transition :: goerr where
  "err_invalid_tunnel_state_transition = OtherErr ''invalid tunnel state transition''"

definition err_tunnel_registry_dependency_missing :: goerr where
  "err_tunnel_registry_dependency_missing = OtherErr ''tunnel registry dependency missing''"

record tunnel_runtime =
  bt_tunnel :: tunnel
  bt_id :: string
  bt_connector :: string
  bt_session :: string
  bt_binding :: string
  bt_traffic :: string
  bt_reuse_count :: int
  bt_recycle_seq :: "64 word"
  bt_state :: bridge_tunnel_state
  bt_last_error :: string
  bt_created_at :: gotime
  bt_updated_at :: gotime

record tunnel_registry =
  byTunnelID :: "(string, tunnel_runtime) gomap"
  idleByConnector :: "(string, string list) gomap"
  tr_updated_at :: gotime

definition new_tunnel_registry :: tunnel_registry where
  "new_tunnel_registry = \<lparr>byTunnelID = [], idleByConnector = [], tr_updated_at = zero_time\<rparr>"

text \<open>Reading a missing key of a Go map gives the zero value, here the empty slice.\<close>

definition idle_queue :: "string \<Rightarrow> tunnel_registry \<Rightarrow> string list" where
  "idle_queue c reg = (case map_of (idleByConnector reg) c of None \<Rightarrow> [] | Some q \<Rightarrow> q)"

definition set_idle_queue :: "string \<Rightarrow> string list \<Rightarrow> tunnel_registry \<Rightarrow> tunnel_registry" where
  "set_idle_queue c q reg = reg\<lparr>idleByConnector := map_put c q (idleByConnector reg)\<rparr>"

definition set_runtime :: "string \<Rightarrow> tunnel_runtime \<Rightarrow> tunnel_registry \<Rightarrow> tunnel_registry" where
  "set_runtime i r reg = reg\<lparr>byTunnelID := map_put i r (byTunnelID reg)\<rparr>"


section \<open>Operations\<close>

fun binding_text :: "binding_type \<Rightarrow> string" where
  "binding_text BindingTypeGRPCH2 = ''grpc_h2''"
| "binding_text BindingTypeTCPFramed = ''tcp_framed''"
| "binding_text BindingTypeQUICNative = ''quic_native''"
| "binding_text BindingTypeH3Stream = ''h3_stream''"
| "binding_text (BindingTypeOther s) = s"

text \<open>\<open>aware\<close> is \<open>BindingType()\<close> of a tunnel that has this method.\<close>

definition binding_type_from_runtime_tunnel :: "binding_type option \<Rightarrow> string" where
  "binding_type_from_runtime_tunnel aware =
     (case aware of None \<Rightarrow> [] | Some b \<Rightarrow> trim_space (binding_text b))"

definition upsert_idle ::
    "gotime \<Rightarrow> gotime \<Rightarrow> string \<Rightarrow> string \<Rightarrow> tunnel \<Rightarrow> binding_type option \<Rightarrow> tunnel_registry
       \<Rightarrow> (goerr + tunnel_runtime) \<times> tunnel_registry" where
  "upsert_idle wall now0 connector session t aware reg =
     (let c = trim_space connector; i = trim_space (tunnel_id t)
      in if c = [] then (Inl err_tunnel_registry_dependency_missing, reg)
         else if i = [] then (Inl err_tunnel_registry_dependency_missing, reg)
         else let now = now_or wall now0
         in if has_key (byTunnelID reg) i then (Inl err_bridge_duplicate_tunnel_id, reg)
         else
           let r = \<lparr>bt_tunnel = t, bt_id = i, bt_connector = c, bt_session = trim_space session,
                    bt_binding = binding_type_from_runtime_tunnel aware, bt_traffic = [],
                    bt_reuse_count = 0, bt_recycle_seq = 0, bt_state = BridgeTunnelIdle,
                    bt_last_error = [], bt_created_at = now, bt_updated_at = now\<rparr>
           in (Inr r, (set_idle_queue c (idle_queue c reg @ [i]) (set_runtime i r reg))
                        \<lparr>tr_updated_at := now\<rparr>))"

fun acquire_from ::
    "gotime \<Rightarrow> string \<Rightarrow> string list \<Rightarrow> tunnel_registry \<Rightarrow> tunnel_runtime option \<times> tunnel_registry" where
  "acquire_from now c [] reg = (None, set_idle_queue c [] reg)"
| "acquire_from now c (i # queue) reg =
     (case map_of (byTunnelID reg) i of
        None \<Rightarrow> acquire_from now c queue reg
      | Some r \<Rightarrow>
          if bt_state r \<noteq> BridgeTunnelIdle then acquire_from now c queue reg
          else
            let r' = r\<lparr>bt_state := BridgeTunnelReserved, bt_updated_at := now\<rparr>
            in (Some r', (set_idle_queue c queue (set_runtime i r' reg))\<lparr>tr_updated_at := now\<rparr>))"

definition acquire_idle_tunnel ::
    "gotime \<Rightarrow> gotime \<Rightarrow> string \<Rightarrow> tunnel_registry \<Rightarrow> tunnel_runtime option \<times> tunnel_registry" where
  "acquire_idle_tunnel wall now connector reg =
     (let c = trim_space connector
      in if c = [] then (None, reg)
         else acquire_from (now_or wall now) c (idle_queue c reg) reg)"

definition mark_tunnel_active ::
    "gotime \<Rightarrow> gotime \<Rightarrow> string \<Rightarrow> string \<Rightarrow> tunnel_registry \<Rightarrow> goerr option \<times> tunnel_registry" where
  "mark_tunnel_active wall now0 raw_id traffic reg =
     (let now = now_or wall now0; i = trim_space raw_id
      in if i = [] then (Some err_bridge_tunnel_not_found, reg)
         else case map_of (byTunnelID reg) i of
                None \<Rightarrow> (Some err_bridge_tunnel_not_found, reg)
              | Some r \<Rightarrow>
                  if bt_state r \<noteq> BridgeTunnelReserved
                  then (Some err_invalid_tunnel_state_transition, reg)
                  else (None, (set_runtime i
                          (r\<lparr>bt_state := BridgeTunnelActive, bt_traffic := trim_space traffic,
                             bt_updated_at := now\<rparr>) reg)\<lparr>tr_updated_at := now\<rparr>))"

definition mark_tunnel_idle_after_recycle ::
    "gotime \<Rightarrow> gotime \<Rightarrow> string \<Rightarrow> 64 word \<Rightarrow> tunnel_registry \<Rightarrow> goerr option \<times> tunnel_registry" where
  "mark_tunnel_idle_after_recycle wall now0 raw_id recycle_seq reg =
     (let now = now_or wall now0; i = trim_space raw_id
      in if i = [] then (Some err_bridge_tunnel_not_found, reg)
         else case map_of (byTunnelID reg) i of
                None \<Rightarrow> (Some err_bridge_tunnel_not_found, reg)
              | Some r \<Rightarrow>
                  if bt_state r \<noteq> BridgeTunnelActive \<and> bt_state r \<noteq> BridgeTunnelReserved
                  then (Some err_invalid_tunnel_state_transition, reg)
                  else if recycle_seq = 0 \<or> recycle_seq \<le> bt_recycle_seq r
                  then (Some err_invalid_tunnel_state_transition, reg)
                  else
                    let r' = r\<lparr>bt_state := BridgeTunnelIdle, bt_traffic := [],
                               bt_recycle_seq := recycle_seq,
                               bt_reuse_count := bt_reuse_count r + 1, bt_updated_at := now\<rparr>;
                        c = bt_connector r
                    in (None, (set_idle_queue c (idle_queue c reg @ [bt_id r]) (set_runtime i r' reg))
                                \<lparr>tr_updated_at := now\<rparr>))"

definition remove_idle_locked :: "string \<Rightarrow> string \<Rightarrow> tunnel_registry \<Rightarrow> tunnel_registry" where
  "remove_idle_locked c i reg =
     (let queue = idle_queue c reg
      in if queue = [] then reg else set_idle_queue c (filter (\<lambda>j. j \<noteq> i) queue) reg)"

fun is_valid_tunnel_transition :: "bridge_tunnel_state \<Rightarrow> bridge_tunnel_state \<Rightarrow> bool" where
  "is_valid_tunnel_transition BridgeTunnelIdle target \<longleftrightarrow>
     target = BridgeTunnelReserved \<or> target = BridgeTunnelBroken"
| "is_valid_tunnel_transition BridgeTunnelReserved target \<longleftrightarrow>
     target = BridgeTunnelActive \<or> target = BridgeTunnelIdle \<or> target = BridgeTunnelClosed
     \<or> target = BridgeTunnelBroken"
| "is_valid_tunnel_transition BridgeTunnelActive target \<longleftrightarrow>
     target = BridgeTunnelIdle \<or> target = BridgeTunnelClosed \<or> target = BridgeTunnelBroken"
| "is_valid_tunnel_transition BridgeTunnelClosed target \<longleftrightarrow> False"
| "is_valid_tunnel_transition BridgeTunnelBroken target \<longleftrightarrow> False"

definition transition_tunnel ::
    "gotime \<Rightarrow> gotime \<Rightarrow> string \<Rightarrow> bridge_tunnel_state \<Rightarrow> string \<Rightarrow> tunnel_registry
       \<Rightarrow> goerr option \<times> tunnel_registry" where
  "transition_tunnel wall now0 raw_id target message reg =
     (let i = trim_space raw_id
      in if i = [] then (Some err_bridge_tunnel_not_found, reg)
         else let now = now_or wall now0
         in case map_of (byTunnelID reg) i of
              None \<Rightarrow> (Some err_bridge_tunnel_not_found, reg)
            | Some r \<Rightarrow>
                if \<not> is_valid_tunnel_transition (bt_state r) target
                then (Some err_invalid_tunnel_state_transition, reg)
                else
                  let reg1 = (if bt_state r = BridgeTunnelIdle
                              then remove_idle_locked (bt_connector r) (bt_id r) reg else reg);
                      r' = r\<lparr>bt_state := target, bt_updated_at := now,
                             bt_last_error := (if target = BridgeTunnelBroken
                                               then trim_space message else bt_last_error r)\<rparr>
                  in (None, (set_runtime i r' reg1)\<lparr>tr_updated_at := now\<rparr>))"

definition mark_tunnel_closed ::
    "gotime \<Rightarrow> gotime \<Rightarrow> string \<Rightarrow> tunnel_registry \<Rightarrow> goerr option \<times> tunnel_registry" where
  "mark_tunnel_closed wall now i = transition_tunnel wall now i BridgeTunnelClosed []"

definition mark_tunnel_broken ::
    "gotime \<Rightarrow> gotime \<Rightarrow> string \<Rightarrow> string \<Rightarrow> tunnel_registry \<Rightarrow> goerr option \<times> tunnel_registry" where
  "mark_tunnel_broken wall now i message = transition_tunnel wall now i BridgeTunnelBroken message"

text \<open>Taking a record out of both indexes, as \<open>RemoveTerminal\<close> and the two purges do.\<close>

definition forget_tunnel :: "string \<Rightarrow> string \<Rightarrow> tunnel_registry \<Rightarrow> tunnel_registry" where
  "forget_tunnel c i reg =
     remove_idle_locked c i (reg\<lparr>byTunnelID := map_del i (byTunnelID reg)\<rparr>)"

definition remove_terminal_tunnel ::
    "gotime \<Rightarrow> string \<Rightarrow> tunnel_registry \<Rightarrow> (goerr + tunnel_runtime) \<times> tunnel_registry" where
  "remove_terminal_tunnel wall raw_id reg =
     (let i = trim_space raw_id
      in if i = [] then (Inl err_bridge_tunnel_not_found, reg)
         else case map_of (byTunnelID reg) i of
                None \<Rightarrow> (Inl err_bridge_tunnel_not_found, reg)
              | Some r \<Rightarrow>
                  if bt_state r \<noteq> BridgeTunnelClosed \<and> bt_state r \<noteq> BridgeTunnelBroken
                  then (Inl err_invalid_tunnel_state_transition, reg)
                  else (Inr r, (forget_tunnel (bt_connector r) i reg)\<lparr>tr_updated_at := wall\<rparr>))"

definition get_tunnel :: "string \<Rightarrow> tunnel_registry \<Rightarrow> tunnel_runtime option" where
  "get_tunnel raw_id reg =
     (let i = trim_space raw_id in if i = [] then None else map_of (byTunnelID reg) i)"

record tunnel_snapshot =
  ts_IdleCount :: nat
  ts_ReservedCount :: nat
  ts_ActiveCount :: nat
  ts_ClosedCount :: nat
  ts_BrokenCount :: nat
  ts_TotalCount :: nat
  ts_UpdatedAt :: gotime

definition tunnels_in :: "bridge_tunnel_state \<Rightarrow> tunnel_registry \<Rightarrow> nat" where
  "tunnels_in st reg = length (filter (\<lambda>(i, r). bt_state r = st) (byTunnelID reg))"

definition tunnel_registry_snapshot :: "tunnel_registry \<Rightarrow> tunnel_snapshot" where
  "tunnel_registry_snapshot reg =
     \<lparr>ts_IdleCount = tunnels_in BridgeTunnelIdle reg,
      ts_ReservedCount = tunnels_in BridgeTunnelReserved reg,
      ts_ActiveCount = tunnels_in BridgeTunnelActive reg,
      ts_ClosedCount = tunnels_in BridgeTunnelClosed reg,
      ts_BrokenCount = tunnels_in BridgeTunnelBroken reg,
      ts_TotalCount = length (byTunnelID reg), ts_UpdatedAt = tr_updated_at reg\<rparr>"

definition list_tunnels :: "tunnel_registry \<Rightarrow> tunnel_runtime list" where
  "list_tunnels reg = map snd (byTunnelID reg)"

text \<open>One round of the loop of \<open>PurgeBySession\<close>.\<close>

definition purged_runtime :: "gotime \<Rightarrow> string \<Rightarrow> tunnel_runtime \<Rightarrow> tunnel_runtime" where
  "purged_runtime now reason r =
     r\<lparr>bt_state := (if bt_state r \<noteq> BridgeTunnelClosed \<and> bt_state r \<noteq> BridgeTunnelBroken
                   then BridgeTunnelBroken else bt_state r),
       bt_last_error := (if reason \<noteq> [] \<and> trim_space (bt_last_error r) = []
                         then reason else bt_last_error r),
       bt_updated_at := now\<rparr>"

definition purge_one ::
    "gotime \<Rightarrow> string \<Rightarrow> string \<times> tunnel_runtime
       \<Rightarrow> tunnel_runtime list \<times> tunnel_registry \<Rightarrow> tunnel_runtime list \<times> tunnel_registry" where
  "purge_one now reason entry acc =
     (let (i, r) = entry; (purged, reg) = acc
      in (purged @ [purged_runtime now reason r], forget_tunnel (bt_connector r) i reg))"

definition in_session :: "string \<Rightarrow> tunnel_runtime \<Rightarrow> bool" where
  "in_session session r \<longleftrightarrow> trim_space (bt_session r) = session"

text \<open>The result also says which tunnels are closed after the section.\<close>

definition purge_by_session ::
    "gotime \<Rightarrow> gotime \<Rightarrow> string \<Rightarrow> string \<Rightarrow> tunnel_registry \<Rightarrow> tunnel_runtime list \<times> tunnel_registry" where
  "purge_by_session wall now0 session reason reg =
     (let s = trim_space session
      in if s = [] then ([], reg)
         else
           let now = now_or wall now0;
               (purged, reg') = fold (purge_one now (trim_space reason))
                  (filter (\<lambda>(i, r). in_session s r) (byTunnelID reg)) ([], reg)
           in (purged, if purged \<noteq> [] then reg'\<lparr>tr_updated_at := now\<rparr> else reg'))"

definition recycled_runtime :: "gotime \<Rightarrow> string \<Rightarrow> tunnel_runtime \<Rightarrow> tunnel_runtime" where
  "recycled_runtime now reason r =
     r\<lparr>bt_state := BridgeTunnelBroken,
       bt_last_error := (if reason \<noteq> [] then reason else bt_last_error r), bt_updated_at := now\<rparr>"

definition recycle_one ::
    "gotime \<Rightarrow> string \<Rightarrow> tunnel_runtime
       \<Rightarrow> tunnel_runtime list \<times> tunnel_registry \<Rightarrow> tunnel_runtime list \<times> tunnel_registry" where
  "recycle_one now reason r acc =
     (let (recycled, reg) = acc
      in (recycled @ [recycled_runtime now reason r], forget_tunnel (bt_connector r) (bt_id r) reg))"

definition recycle_candidates :: "string \<Rightarrow> tunnel_registry \<Rightarrow> tunnel_runtime list" where
  "recycle_candidates s reg =
     sort_key (\<lambda>r. (bt_updated_at r, bt_id r))
       (filter (\<lambda>r. in_session s r \<and> bt_state r = BridgeTunnelIdle) (map snd (byTunnelID reg)))"

definition recycle_idle_by_session ::
    "gotime \<Rightarrow> gotime \<Rightarrow> string \<Rightarrow> int \<Rightarrow> string \<Rightarrow> tunnel_registry
       \<Rightarrow> tunnel_runtime list \<times> tunnel_registry" where
  "recycle_idle_by_session wall now0 session limit reason reg =
     (let s = trim_space session
      in if s = [] \<or> limit \<le> 0 then ([], reg)
         else
           let now = now_or wall now0; candidates = recycle_candidates s reg
           in if candidates = [] then ([], reg)
              else
                let n = (if limit > int (length candidates) then length candidates else nat limit);
                    (recycled, reg') = fold (recycle_one now (trim_space reason))
                       (take n candidates) ([], reg)
                in (recycled, if recycled \<noteq> [] then reg'\<lparr>tr_updated_at := now\<rparr> else reg'))"


section \<open>The queues index the idle tunnels\<close>

definition idle_at :: "string \<Rightarrow> tunnel_runtime \<Rightarrow> bool" where
  "idle_at c r \<longleftrightarrow> bt_state r = BridgeTunnelIdle \<and> bt_connector r = c"

definition tunnels_filed :: "(string, tunnel_runtime) gomap \<Rightarrow> bool" where
  "tunnels_filed m \<longleftrightarrow> (\<forall>i r. map_of m i = Some r \<longrightarrow> bt_id r = i \<and> i \<noteq> [] \<and> trim_space i = i
     \<and> trim_space (bt_connector r) = bt_connector r)"

definition bridge_inv :: "tunnel_registry \<Rightarrow> bool" where
  "bridge_inv reg \<longleftrightarrow> (\<forall>c. idle_index (idle_at c) (byTunnelID reg) (idle_queue c reg))
     \<and> tunnels_filed (byTunnelID reg)"

lemma set_idle_queue_fields [simp]:
  "byTunnelID (set_idle_queue c q reg) = byTunnelID reg"
  "idle_queue c' (set_idle_queue c q reg) = (if c' = c then q else idle_queue c' reg)"
  by (simp_all add: set_idle_queue_def idle_queue_def)

lemma set_runtime_fields [simp]:
  "byTunnelID (set_runtime i r reg) = map_put i r (byTunnelID reg)"
  "idle_queue c (set_runtime i r reg) = idle_queue c reg"
  by (simp_all add: set_runtime_def idle_queue_def)

lemma idle_queue_other [simp]:
  "idle_queue c (reg\<lparr>tr_updated_at := now\<rparr>) = idle_queue c reg"
  "idle_queue c (reg\<lparr>byTunnelID := m\<rparr>) = idle_queue c reg"
  by (simp_all add: idle_queue_def)

lemma remove_idle_locked_fields [simp]:
  "byTunnelID (remove_idle_locked c i reg) = byTunnelID reg"
  "idle_queue c' (remove_idle_locked c i reg)
     = (if c' = c then filter (\<lambda>j. j \<noteq> i) (idle_queue c reg) else idle_queue c' reg)"
  by (simp_all add: remove_idle_locked_def Let_def)

lemma forget_tunnel_fields [simp]:
  "byTunnelID (forget_tunnel c i reg) = map_del i (byTunnelID reg)"
  "idle_queue c' (forget_tunnel c i reg)
     = (if c' = c then filter (\<lambda>j. j \<noteq> i) (idle_queue c reg) else idle_queue c' reg)"
  by (simp_all add: forget_tunnel_def)

lemma bridge_inv_index: "bridge_inv reg \<Longrightarrow> idle_index (idle_at c) (byTunnelID reg) (idle_queue c reg)"
  by (simp add: bridge_inv_def)

lemma bridge_inv_filed:
  "bridge_inv reg \<Longrightarrow> map_of (byTunnelID reg) i = Some r \<Longrightarrow>
   bt_id r = i \<and> i \<noteq> [] \<and> trim_space i = i \<and> trim_space (bt_connector r) = bt_connector r"
  unfolding bridge_inv_def tunnels_filed_def by blast

lemma bridge_inv_tunnels: "bridge_inv reg \<Longrightarrow> tunnels_filed (byTunnelID reg)"
  by (simp add: bridge_inv_def)

lemma bridge_inv_mem:
  "bridge_inv reg \<Longrightarrow>
   i \<in> set (idle_queue c reg) \<longleftrightarrow> (\<exists>r. map_of (byTunnelID reg) i = Some r \<and> idle_at c r)"
  using idle_index_mem [OF bridge_inv_index] by fast

lemma bridge_inv_distinct: "bridge_inv reg \<Longrightarrow> keys_distinct (byTunnelID reg)"
  using bridge_inv_index [of reg "[]"] by (simp add: idle_index_def)

lemma tunnels_filed_put:
  "tunnels_filed m \<Longrightarrow> bt_id r = i \<Longrightarrow> i \<noteq> [] \<Longrightarrow> trim_space i = i \<Longrightarrow>
   trim_space (bt_connector r) = bt_connector r \<Longrightarrow> tunnels_filed (map_put i r m)"
  by (simp add: tunnels_filed_def)

lemma tunnels_filed_del: "tunnels_filed m \<Longrightarrow> tunnels_filed (map_del i m)"
  by (simp add: tunnels_filed_def)

lemma bridge_inv_new: "bridge_inv new_tunnel_registry"
  by (simp add: bridge_inv_def new_tunnel_registry_def idle_queue_def tunnels_filed_def)

text \<open>
  The three ways in which a call changes the indexes: a record that is not idle before or after,
  a record that becomes idle, and a record that leaves the idle state or the registry.
\<close>

lemma bridge_inv_set:
  assumes "bridge_inv reg" and "map_of (byTunnelID reg) i = Some r"
    and "bt_state r \<noteq> BridgeTunnelIdle" and "bt_state r' \<noteq> BridgeTunnelIdle"
    and "bt_id r' = i" and "bt_connector r' = bt_connector r"
    and "byTunnelID reg' = map_put i r' (byTunnelID reg)"
    and "\<And>c. idle_queue c reg' = idle_queue c reg"
  shows "bridge_inv reg'"
proof -
  have "i \<notin> set (idle_queue c reg)" for c
    using assms(2,3) by (simp add: bridge_inv_mem [OF assms(1)] idle_at_def)
  then have "idle_index (idle_at c) (byTunnelID reg') (idle_queue c reg')" for c
    using bridge_inv_index [OF assms(1)] assms(4,7,8) by (simp add: idle_index_put idle_at_def)
  then show ?thesis
    using assms bridge_inv_filed [OF assms(1,2)]
    by (simp add: bridge_inv_def tunnels_filed_put)
qed

lemma bridge_inv_enter:
  assumes "bridge_inv reg" and "bt_state r' = BridgeTunnelIdle"
    and "\<And>r. map_of (byTunnelID reg) i = Some r \<Longrightarrow> bt_state r \<noteq> BridgeTunnelIdle"
    and "bt_id r' = i" and "i \<noteq> []" and "trim_space i = i"
    and "trim_space (bt_connector r') = bt_connector r'"
    and "byTunnelID reg' = map_put i r' (byTunnelID reg)"
    and "\<And>c. idle_queue c reg'
          = (if c = bt_connector r' then idle_queue c reg @ [i] else idle_queue c reg)"
  shows "bridge_inv reg'"
proof -
  have "i \<notin> set (idle_queue c reg)" for c
    using assms(3) by (auto simp: bridge_inv_mem [OF assms(1)] idle_at_def)
  then have "idle_index (idle_at c) (byTunnelID reg') (idle_queue c reg')" for c
    using bridge_inv_index [OF assms(1)] assms(2,8,9)
    by (cases "c = bt_connector r'") (simp_all add: idle_index_push idle_index_put idle_at_def)
  then show ?thesis
    using assms by (simp add: bridge_inv_def tunnels_filed_put)
qed

lemma bridge_inv_leave:
  assumes "bridge_inv reg" and "map_of (byTunnelID reg) i = Some r"
    and "bt_state r' \<noteq> BridgeTunnelIdle" and "bt_id r' = i" and "bt_connector r' = bt_connector r"
    and "byTunnelID reg' = map_put i r' (byTunnelID reg) \<or> byTunnelID reg' = map_del i (byTunnelID reg)"
    and "\<And>c. idle_queue c reg' = (if c = bt_connector r then filter (\<lambda>j. j \<noteq> i) (idle_queue c reg)
                                   else idle_queue c reg)"
  shows "bridge_inv reg'"
proof -
  have "idle_index (idle_at c) (byTunnelID reg') (idle_queue c reg')" for c
  proof (cases "c = bt_connector r")
    case True
    then show ?thesis
      using bridge_inv_index [OF assms(1), of c] assms(3,6,7)
      by (auto simp: idle_index_drop idle_index_del idle_at_def)
  next
    case False
    then have "i \<notin> set (idle_queue c reg)"
      using assms(2) by (simp add: bridge_inv_mem [OF assms(1)] idle_at_def)
    then show ?thesis
      using False bridge_inv_index [OF assms(1), of c] assms(3,6,7)
      by (auto simp: idle_index_put idle_index_forget idle_at_def)
  qed
  then show ?thesis
    using assms bridge_inv_filed [OF assms(1,2)]
    by (auto simp: bridge_inv_def tunnels_filed_put tunnels_filed_del)
qed

lemma bridge_inv_stamp [simp]: "bridge_inv (reg\<lparr>tr_updated_at := now\<rparr>) \<longleftrightarrow> bridge_inv reg"
  by (simp add: bridge_inv_def)


lemma bridge_inv_set':
  assumes "bridge_inv reg" and "map_of (byTunnelID reg) i = Some r"
    and "bt_state r \<noteq> BridgeTunnelIdle" and "bt_state r' \<noteq> BridgeTunnelIdle"
    and "bt_id r' = i" and "bt_connector r' = bt_connector r"
  shows "bridge_inv (set_runtime i r' reg)"
  by (rule bridge_inv_set [OF assms]) simp_all

lemma bridge_inv_enter':
  assumes "bridge_inv reg" and "bt_state r' = BridgeTunnelIdle"
    and "\<And>r. map_of (byTunnelID reg) i = Some r \<Longrightarrow> bt_state r \<noteq> BridgeTunnelIdle"
    and "bt_id r' = i" and "i \<noteq> []" and "trim_space i = i" and "trim_space c = c" and "c = bt_connector r'"
  shows "bridge_inv (set_idle_queue c (idle_queue c reg @ [i]) (set_runtime i r' reg))"
  by (rule bridge_inv_enter [OF assms(1-6)]) (use assms(7,8) in simp_all)

lemma bridge_inv_leave':
  assumes "bridge_inv reg" and "map_of (byTunnelID reg) i = Some r"
    and "bt_state r' \<noteq> BridgeTunnelIdle" and "bt_id r' = i" and "bt_connector r' = bt_connector r"
  shows "bridge_inv (set_runtime i r' (remove_idle_locked (bt_connector r) i reg))"
  by (rule bridge_inv_leave [OF assms]) simp_all

lemma bridge_inv_upsert:
  assumes "bridge_inv reg"
  shows "bridge_inv (snd (upsert_idle wall now c session t aware reg))"
proof (cases "trim_space c = [] \<or> trim_space (tunnel_id t) = [] \<or> has_key (byTunnelID reg) (trim_space (tunnel_id t))")
  case False
  then show ?thesis
    using assms by (auto simp: upsert_idle_def Let_def intro!: bridge_inv_enter')
qed (use assms in \<open>auto simp: upsert_idle_def Let_def\<close>)

lemma bridge_inv_acquire:
  assumes "bridge_inv reg"
  shows "bridge_inv (snd (acquire_idle_tunnel wall now connector reg))"
proof (cases "idle_queue (trim_space connector) reg")
  case Nil
  then show ?thesis
    using assms bridge_inv_index [OF assms, of "trim_space connector"]
    by (simp add: acquire_idle_tunnel_def Let_def bridge_inv_def)
next
  case (Cons i queue)
  let ?c = "trim_space connector"
  have "i \<in> set (idle_queue ?c reg)" using Cons by simp
  then obtain r where r: "map_of (byTunnelID reg) i = Some r" and idle: "idle_at ?c r"
    unfolding bridge_inv_mem [OF assms] by blast
  have "distinct (i # queue)"
    using bridge_inv_index [OF assms, of ?c] Cons by (simp add: idle_index_def)
  then have "filter (\<lambda>j. j \<noteq> i) (i # queue) = queue" by (auto intro: filter_True)
  then show ?thesis
    using assms r idle Cons bridge_inv_filed [OF assms r]
    by (auto simp: acquire_idle_tunnel_def Let_def idle_at_def
        intro!: bridge_inv_leave [OF assms r, of "r\<lparr>bt_state := BridgeTunnelReserved, bt_updated_at := now_or wall now\<rparr>"])
qed

lemma bridge_inv_active:
  assumes "bridge_inv reg"
  shows "bridge_inv (snd (mark_tunnel_active wall now i traffic reg))"
proof (cases "map_of (byTunnelID reg) (trim_space i)")
  case (Some r)
  then show ?thesis
    using assms bridge_inv_filed [OF assms Some]
    by (auto simp: mark_tunnel_active_def Let_def intro!: bridge_inv_set')
qed (use assms in \<open>simp add: mark_tunnel_active_def Let_def\<close>)

lemma bridge_inv_recycled:
  assumes "bridge_inv reg"
  shows "bridge_inv (snd (mark_tunnel_idle_after_recycle wall now i n reg))"
proof (cases "map_of (byTunnelID reg) (trim_space i)")
  case (Some r)
  then show ?thesis
    using assms bridge_inv_filed [OF assms Some]
    by (auto simp: mark_tunnel_idle_after_recycle_def Let_def intro!: bridge_inv_enter')
qed (use assms in \<open>simp add: mark_tunnel_idle_after_recycle_def Let_def\<close>)

lemma bridge_inv_transition:
  assumes "bridge_inv reg" and "target \<noteq> BridgeTunnelIdle"
  shows "bridge_inv (snd (transition_tunnel wall now i target message reg))"
proof (cases "map_of (byTunnelID reg) (trim_space i)")
  case (Some r)
  show ?thesis
  proof (cases "bt_state r = BridgeTunnelIdle")
    case True
    then show ?thesis
      using assms Some bridge_inv_filed [OF assms(1) Some]
      by (auto simp: transition_tunnel_def Let_def intro!: bridge_inv_leave')
  next
    case False
    then show ?thesis
      using assms Some bridge_inv_filed [OF assms(1) Some]
      by (auto simp: transition_tunnel_def Let_def intro!: bridge_inv_set')
  qed
qed (use assms in \<open>simp add: transition_tunnel_def Let_def\<close>)

lemma bridge_inv_forget:
  assumes "bridge_inv reg" and "map_of (byTunnelID reg) i = Some r"
  shows "bridge_inv (forget_tunnel (bt_connector r) i reg)"
proof (rule bridge_inv_leave [OF assms, of "r\<lparr>bt_state := BridgeTunnelClosed\<rparr>"])
  show "bt_id (r\<lparr>bt_state := BridgeTunnelClosed\<rparr>) = i" using bridge_inv_filed [OF assms] by simp
qed simp_all

lemma bridge_inv_remove:
  "bridge_inv reg \<Longrightarrow> bridge_inv (snd (remove_terminal_tunnel wall i reg))"
  by (auto simp: remove_terminal_tunnel_def Let_def bridge_inv_forget split: option.split)


section \<open>Purging a session\<close>

definition forget_all :: "(string \<times> tunnel_runtime) list \<Rightarrow> tunnel_registry \<Rightarrow> tunnel_registry" where
  "forget_all es = fold (\<lambda>(i, r). forget_tunnel (bt_connector r) i) es"

lemma fold_purge:
  "fold (purge_one now reason) es (p, reg)
     = (p @ map (\<lambda>e. purged_runtime now reason (snd e)) es, forget_all es reg)"
  by (induction es arbitrary: p reg)
    (simp_all add: purge_one_def forget_all_def case_prod_unfold)

lemma fold_recycle:
  "fold (recycle_one now reason) rs (p, reg)
     = (p @ map (recycled_runtime now reason) rs, forget_all (map (\<lambda>r. (bt_id r, r)) rs) reg)"
  by (induction rs arbitrary: p reg)
    (simp_all add: recycle_one_def forget_all_def case_prod_unfold)

lemma forget_all_effect:
  "bridge_inv reg \<Longrightarrow> distinct (map fst es) \<Longrightarrow>
   \<forall>(i, r) \<in> set es. map_of (byTunnelID reg) i = Some r \<Longrightarrow>
   bridge_inv (forget_all es reg)
   \<and> byTunnelID (forget_all es reg) = filter (\<lambda>(i, r). i \<notin> fst ` set es) (byTunnelID reg)
   \<and> (\<forall>c. idle_queue c (forget_all es reg) = filter (\<lambda>i. i \<notin> fst ` set es) (idle_queue c reg))"
proof (induction es arbitrary: reg)
  case Nil
  show ?case using Nil.prems(1) by (simp add: forget_all_def)
next
  case (Cons e es)
  obtain i r where e: "e = (i, r)" by fastforce
  let ?reg = "forget_tunnel (bt_connector r) i reg"
  have i: "map_of (byTunnelID reg) i = Some r" using Cons.prems(3) e by simp
  have "bridge_inv ?reg" by (rule bridge_inv_forget [OF Cons.prems(1) i])
  moreover have "\<forall>(j, s) \<in> set es. map_of (byTunnelID ?reg) j = Some s"
  proof (clarify)
    fix j s
    assume js: "(j, s) \<in> set es"
    then have "j \<noteq> i" using Cons.prems(2) e by force
    then show "map_of (byTunnelID ?reg) j = Some s" using Cons.prems(3) js by auto
  qed
  ultimately have IH: "bridge_inv (forget_all es ?reg)
      \<and> byTunnelID (forget_all es ?reg) = filter (\<lambda>(i, r). i \<notin> fst ` set es) (byTunnelID ?reg)
      \<and> (\<forall>c. idle_queue c (forget_all es ?reg) = filter (\<lambda>i. i \<notin> fst ` set es) (idle_queue c ?reg))"
    using Cons.IH [of ?reg] Cons.prems(2) by simp
  have queue: "idle_queue c ?reg = filter (\<lambda>j. j \<noteq> i) (idle_queue c reg)" for c
  proof (cases "c = bt_connector r")
    case False
    then have "i \<notin> set (idle_queue c reg)"
      using i by (simp add: bridge_inv_mem [OF Cons.prems(1)] idle_at_def)
    then show ?thesis using False by (auto intro!: filter_True [symmetric])
  qed simp
  have all: "forget_all (e # es) reg = forget_all es ?reg" by (simp add: forget_all_def e)
  have "filter (\<lambda>(i, r). i \<notin> fst ` set es) (map_del i (byTunnelID reg))
      = filter (\<lambda>(j, r). j \<notin> fst ` set (e # es)) (byTunnelID reg)"
    by (auto simp: map_del_filter e case_prod_unfold intro!: filter_cong)
  moreover have "filter (\<lambda>i. i \<notin> fst ` set es) (filter (\<lambda>j. j \<noteq> i) (idle_queue c reg))
      = filter (\<lambda>j. j \<notin> fst ` set (e # es)) (idle_queue c reg)" for c
    by (auto simp: e intro!: filter_cong)
  ultimately show ?case using IH unfolding all queue forget_tunnel_fields(1) by (simp del: forget_tunnel_fields)
qed

lemma session_entries:
  assumes "bridge_inv reg"
  shows "distinct (map fst (filter (\<lambda>(i, r). P r) (byTunnelID reg)))
    \<and> (\<forall>(i, r) \<in> set (filter (\<lambda>(i, r). P r) (byTunnelID reg)). map_of (byTunnelID reg) i = Some r)"
  using bridge_inv_distinct [OF assms] by (auto simp del: map_of_eq_Some_iff intro: map_of_is_SomeI)

text \<open>What a purge does, for a registry whose indexes are right.\<close>

lemma purge_effect:
  assumes inv: "bridge_inv reg" and s: "trim_space session \<noteq> []"
    and purge: "purge_by_session wall now session reason reg = (purged, reg')"
  shows "bridge_inv reg'
    \<and> byTunnelID reg' = filter (\<lambda>(i, r). \<not> in_session (trim_space session) r) (byTunnelID reg)
    \<and> purged = map (\<lambda>e. purged_runtime (now_or wall now) (trim_space reason) (snd e))
                 (filter (\<lambda>(i, r). in_session (trim_space session) r) (byTunnelID reg))"
proof -
  let ?es = "filter (\<lambda>(i, r). in_session (trim_space session) r) (byTunnelID reg)"
  note effect = forget_all_effect [OF inv conjunct1 [OF session_entries [OF inv]] conjunct2 [OF session_entries [OF inv]],
      of "in_session (trim_space session)"]
  have mem: "i \<in> fst ` set ?es \<longleftrightarrow> in_session (trim_space session) r" if "(i, r) \<in> set (byTunnelID reg)" for i r
    using that bridge_inv_distinct [OF inv] by (force dest: eq_key_imp_eq_value)
  have "filter (\<lambda>(i, r). i \<notin> fst ` set ?es) (byTunnelID reg)
      = filter (\<lambda>(i, r). \<not> in_session (trim_space session) r) (byTunnelID reg)"
    using mem by (auto intro!: filter_cong)
  moreover have "purged = map (\<lambda>e. purged_runtime (now_or wall now) (trim_space reason) (snd e)) ?es
      \<and> byTunnelID reg' = byTunnelID (forget_all ?es reg) \<and> (bridge_inv (forget_all ?es reg) \<longrightarrow> bridge_inv reg')"
    using s purge by (auto simp: purge_by_session_def Let_def fold_purge)
  ultimately show ?thesis using effect by simp
qed


lemma runtime_filed:
  assumes "bridge_inv reg" and "r \<in> set (map snd (byTunnelID reg))"
  shows "map_of (byTunnelID reg) (bt_id r) = Some r"
proof -
  obtain i where "(i, r) \<in> set (byTunnelID reg)" using assms(2) by auto
  then have "map_of (byTunnelID reg) i = Some r"
    using bridge_inv_distinct [OF assms(1)] by (rule map_of_is_SomeI [rotated])
  then show ?thesis using bridge_inv_filed [OF assms(1)] by simp
qed

lemma runtimes_distinct:
  assumes "bridge_inv reg"
  shows "distinct (map snd (byTunnelID reg))"
proof -
  have "map bt_id (map snd (byTunnelID reg)) = map fst (byTunnelID reg)"
    using bridge_inv_filed [OF assms] map_of_is_SomeI [OF bridge_inv_distinct [OF assms]] by auto
  then have "distinct (map bt_id (map snd (byTunnelID reg)))"
    using bridge_inv_distinct [OF assms] by metis
  then show ?thesis using distinct_map by blast
qed

lemma candidates_set:
  "set (recycle_candidates s reg)
     = {r \<in> set (map snd (byTunnelID reg)). in_session s r \<and> bt_state r = BridgeTunnelIdle}"
  by (simp add: recycle_candidates_def)

lemma candidate_entries:
  assumes "bridge_inv reg"
  shows "distinct (map fst (map (\<lambda>r. (bt_id r, r)) (take n (recycle_candidates s reg))))
    \<and> (\<forall>(i, r) \<in> set (map (\<lambda>r. (bt_id r, r)) (take n (recycle_candidates s reg))).
         map_of (byTunnelID reg) i = Some r)"
proof
  have r: "map_of (byTunnelID reg) (bt_id r) = Some r" if "r \<in> set (recycle_candidates s reg)" for r
    using that runtime_filed [OF assms] by (simp add: candidates_set)
  then have "inj_on bt_id (set (recycle_candidates s reg))" by (intro inj_onI) (metis option.inject)
  moreover have "distinct (recycle_candidates s reg)"
    using runtimes_distinct [OF assms] by (simp add: recycle_candidates_def)
  ultimately have "distinct (take n (map bt_id (recycle_candidates s reg)))" by (simp add: distinct_map)
  then show "distinct (map fst (map (\<lambda>r. (bt_id r, r)) (take n (recycle_candidates s reg))))"
    by (simp add: comp_def take_map)
  show "\<forall>(i, r) \<in> set (map (\<lambda>r. (bt_id r, r)) (take n (recycle_candidates s reg))).
         map_of (byTunnelID reg) i = Some r"
    using r by (auto dest: in_set_takeD)
qed

lemma recycle_effect:
  assumes inv: "bridge_inv reg" and s: "trim_space session \<noteq> []"
    and run: "recycle_idle_by_session wall now session limit reason reg = (recycled, reg')"
  shows "bridge_inv reg'
    \<and> byTunnelID reg' = filter (\<lambda>(i, r). i \<notin> bt_id ` set (take (nat limit)
         (recycle_candidates (trim_space session) reg))) (byTunnelID reg)
    \<and> recycled = map (recycled_runtime (now_or wall now) (trim_space reason))
         (take (nat limit) (recycle_candidates (trim_space session) reg))"
proof -
  let ?cs = "recycle_candidates (trim_space session) reg"
  let ?es = "map (\<lambda>r. (bt_id r, r)) (take (nat limit) ?cs)"
  note effect = forget_all_effect [OF inv conjunct1 [OF candidate_entries [OF inv]]
      conjunct2 [OF candidate_entries [OF inv]], of "nat limit" "trim_space session"]
  have "fst ` set ?es = bt_id ` set (take (nat limit) ?cs)" by (simp add: image_image)
  moreover have "recycled = map (recycled_runtime (now_or wall now) (trim_space reason)) (take (nat limit) ?cs)
      \<and> byTunnelID reg' = byTunnelID (forget_all ?es reg) \<and> (bridge_inv (forget_all ?es reg) \<longrightarrow> bridge_inv reg')"
  proof (cases "limit \<le> 0 \<or> ?cs = []")
    case True
    then show ?thesis
      using s run by (auto simp: recycle_idle_by_session_def Let_def forget_all_def split: if_splits)
  next
    case False
    have "take (if limit > int (length ?cs) then length ?cs else nat limit) ?cs = take (nat limit) ?cs"
      by auto
    then show ?thesis
      using False s run by (auto simp: recycle_idle_by_session_def Let_def fold_recycle)
  qed
  ultimately show ?thesis using effect by simp
qed


section \<open>Every history of the registry\<close>

datatype bridge_call =
    UpsertIdle gotime gotime string string tunnel "binding_type option"
  | BridgeAcquireIdle gotime gotime string
  | BridgeMarkActive gotime gotime string string
  | BridgeMarkIdleAfterRecycle gotime gotime string "64 word"
  | BridgeMarkClosed gotime gotime string
  | BridgeMarkBroken gotime gotime string string
  | BridgeRemoveTerminal gotime string
  | PurgeBySession gotime gotime string string
  | RecycleIdleBySession gotime gotime string int string

fun bridge_exec :: "bridge_call \<Rightarrow> tunnel_registry \<Rightarrow> tunnel_registry" where
  "bridge_exec (UpsertIdle wall now c s t aware) reg = snd (upsert_idle wall now c s t aware reg)"
| "bridge_exec (BridgeAcquireIdle wall now c) reg = snd (acquire_idle_tunnel wall now c reg)"
| "bridge_exec (BridgeMarkActive wall now i traffic) reg = snd (mark_tunnel_active wall now i traffic reg)"
| "bridge_exec (BridgeMarkIdleAfterRecycle wall now i n) reg =
     snd (mark_tunnel_idle_after_recycle wall now i n reg)"
| "bridge_exec (BridgeMarkClosed wall now i) reg = snd (mark_tunnel_closed wall now i reg)"
| "bridge_exec (BridgeMarkBroken wall now i message) reg = snd (mark_tunnel_broken wall now i message reg)"
| "bridge_exec (BridgeRemoveTerminal wall i) reg = snd (remove_terminal_tunnel wall i reg)"
| "bridge_exec (PurgeBySession wall now s reason) reg = snd (purge_by_session wall now s reason reg)"
| "bridge_exec (RecycleIdleBySession wall now s limit reason) reg =
     snd (recycle_idle_by_session wall now s limit reason reg)"

fun bridge_granted :: "bridge_call \<Rightarrow> tunnel_registry \<Rightarrow> string option" where
  "bridge_granted (BridgeAcquireIdle wall now c) reg =
     map_option bt_id (fst (acquire_idle_tunnel wall now c reg))"
| "bridge_granted call reg = None"

text \<open>A purge takes back the tunnels of its session.\<close>

fun bridge_gives_back :: "bridge_call \<Rightarrow> tunnel_registry \<Rightarrow> string set" where
  "bridge_gives_back (BridgeMarkIdleAfterRecycle wall now i n) reg = {trim_space i}"
| "bridge_gives_back (BridgeMarkClosed wall now i) reg = {trim_space i}"
| "bridge_gives_back (BridgeMarkBroken wall now i message) reg = {trim_space i}"
| "bridge_gives_back (PurgeBySession wall now s reason) reg =
     {i. \<exists>r. map_of (byTunnelID reg) i = Some r \<and> in_session (trim_space s) r}"
| "bridge_gives_back call reg = {}"

definition bridge_lent :: "tunnel_registry \<Rightarrow> string set" where
  "bridge_lent reg = {i. \<exists>r. map_of (byTunnelID reg) i = Some r
                        \<and> (bt_state r = BridgeTunnelReserved \<or> bt_state r = BridgeTunnelActive)}"

lemma bridge_inv_purge: "bridge_inv reg \<Longrightarrow> bridge_inv (snd (purge_by_session wall now s reason reg))"
  by (cases "trim_space s = []")
    (simp_all add: purge_effect [OF _ _ surjective_pairing], simp add: purge_by_session_def)

lemma bridge_inv_recycle_idle:
  "bridge_inv reg \<Longrightarrow> bridge_inv (snd (recycle_idle_by_session wall now s limit reason reg))"
  by (cases "trim_space s = []")
    (simp_all add: recycle_effect [OF _ _ surjective_pairing], simp add: recycle_idle_by_session_def)

lemma bridge_inv_exec: "bridge_inv reg \<Longrightarrow> bridge_inv (bridge_exec call reg)"
  by (cases call)
    (simp_all add: bridge_inv_upsert bridge_inv_acquire bridge_inv_active bridge_inv_recycled
      bridge_inv_transition bridge_inv_remove bridge_inv_purge bridge_inv_recycle_idle
      mark_tunnel_closed_def mark_tunnel_broken_def)


lemma acquire_idle_head:
  assumes "bridge_inv reg" and "idle_queue (trim_space c) reg = i # queue" and "trim_space c \<noteq> []"
  obtains r where "map_of (byTunnelID reg) i = Some r" and "idle_at (trim_space c) r"
    and "acquire_idle_tunnel wall now c reg =
      (let r' = r\<lparr>bt_state := BridgeTunnelReserved, bt_updated_at := now_or wall now\<rparr>
       in (Some r', (set_idle_queue (trim_space c) queue (set_runtime i r' reg))
                      \<lparr>tr_updated_at := now_or wall now\<rparr>))"
proof -
  have "i \<in> set (idle_queue (trim_space c) reg)" using assms(2) by simp
  then obtain r where "map_of (byTunnelID reg) i = Some r" and "idle_at (trim_space c) r"
    unfolding bridge_inv_mem [OF assms(1)] by blast
  then show thesis
    using assms(2,3) that by (simp add: acquire_idle_tunnel_def idle_at_def Let_def)
qed

lemma bridge_lentI:
  "map_of (byTunnelID reg) i = Some r \<Longrightarrow> bt_state r \<in> {BridgeTunnelReserved, BridgeTunnelActive} \<Longrightarrow>
   i \<in> bridge_lent reg"
  by (auto simp: bridge_lent_def)

lemma transition_tunnel_other:
  "j \<noteq> trim_space i \<Longrightarrow>
   map_of (byTunnelID (snd (transition_tunnel wall now i target message reg))) j = map_of (byTunnelID reg) j"
  by (auto simp: transition_tunnel_def Let_def split: option.split)

lemma purge_keeps_others:
  assumes "bridge_inv reg" and "map_of (byTunnelID reg) i = Some r" and "\<not> in_session (trim_space s) r"
  shows "map_of (byTunnelID (snd (purge_by_session wall now s reason reg))) i = Some r"
proof (cases "trim_space s = []")
  case False
  show ?thesis
    using purge_effect [OF assms(1) False surjective_pairing, of wall now reason] assms(2,3)
      bridge_inv_distinct [OF assms(1)]
    by (simp add: map_of_filter_key del: map_of_eq_Some_iff)
qed (use assms in \<open>simp add: purge_by_session_def\<close>)

lemma recycle_idle_keeps_busy:
  assumes "bridge_inv reg" and "map_of (byTunnelID reg) i = Some r" and "bt_state r \<noteq> BridgeTunnelIdle"
  shows "map_of (byTunnelID (snd (recycle_idle_by_session wall now s limit reason reg))) i = Some r"
proof (cases "trim_space s = []")
  case False
  have "i \<noteq> bt_id r'" if "r' \<in> set (take (nat limit) (recycle_candidates (trim_space s) reg))" for r'
  proof
    assume "i = bt_id r'"
    have r': "r' \<in> set (map snd (byTunnelID reg))" "bt_state r' = BridgeTunnelIdle"
      using in_set_takeD [OF that] by (simp_all add: candidates_set)
    then show False using runtime_filed [OF assms(1) r'(1)] \<open>i = bt_id r'\<close> assms(2,3) by simp
  qed
  then show ?thesis
    using recycle_effect [OF assms(1) False surjective_pairing, of wall now limit reason] assms(2)
      bridge_inv_distinct [OF assms(1)]
    by (auto simp: map_of_filter_key simp del: map_of_eq_Some_iff)
qed (use assms in \<open>simp add: recycle_idle_by_session_def\<close>)

interpretation bridge_lease: lease_book bridge_exec bridge_granted bridge_gives_back bridge_lent bridge_inv
proof unfold_locales
  fix reg call
  assume "bridge_inv reg"
  then show "bridge_inv (bridge_exec call reg)" by (rule bridge_inv_exec)
next
  fix reg call i
  assume inv: "bridge_inv reg" and granted: "bridge_granted call reg = Some i"
  then obtain wall now c where call: "call = BridgeAcquireIdle wall now c" by (cases call) auto
  have c: "trim_space c \<noteq> []" using granted by (auto simp: call acquire_idle_tunnel_def)
  show "i \<notin> bridge_lent reg \<and> i \<in> bridge_lent (bridge_exec call reg)"
  proof (cases "idle_queue (trim_space c) reg")
    case (Cons j queue)
    obtain r where r: "map_of (byTunnelID reg) j = Some r" "idle_at (trim_space c) r"
      and run: "acquire_idle_tunnel wall now c reg =
        (let r' = r\<lparr>bt_state := BridgeTunnelReserved, bt_updated_at := now_or wall now\<rparr>
         in (Some r', (set_idle_queue (trim_space c) queue (set_runtime j r' reg))
                        \<lparr>tr_updated_at := now_or wall now\<rparr>))"
      by (rule acquire_idle_head [OF inv Cons c])
    then have "i = j" using granted bridge_inv_filed [OF inv r(1)] by (simp add: call Let_def)
    then show ?thesis using r run by (auto simp: call Let_def bridge_lent_def idle_at_def)
  qed (use granted c in \<open>simp add: call acquire_idle_tunnel_def\<close>)
next
  fix reg call i
  assume inv: "bridge_inv reg" and lent: "i \<in> bridge_lent reg" and kept: "i \<notin> bridge_gives_back call reg"
  obtain r where r: "map_of (byTunnelID reg) i = Some r"
    "bt_state r = BridgeTunnelReserved \<or> bt_state r = BridgeTunnelActive"
    using lent by (auto simp: bridge_lent_def)
  show "i \<in> bridge_lent (bridge_exec call reg)"
  proof (cases call)
    case (UpsertIdle wall now c s t aware)
    then show ?thesis using r by (auto simp: upsert_idle_def Let_def bridge_lent_def)
  next
    case (BridgeAcquireIdle wall now c)
    show ?thesis
    proof (cases "trim_space c = [] \<or> idle_queue (trim_space c) reg = []")
      case True
      then show ?thesis using r BridgeAcquireIdle by (auto simp: acquire_idle_tunnel_def bridge_lent_def Let_def)
    next
      case False
      then obtain j queue where queue: "idle_queue (trim_space c) reg = j # queue" by (meson list.exhaust)
      obtain r' where "map_of (byTunnelID reg) j = Some r'" "idle_at (trim_space c) r'"
        and run: "acquire_idle_tunnel wall now c reg =
          (let r' = r'\<lparr>bt_state := BridgeTunnelReserved, bt_updated_at := now_or wall now\<rparr>
           in (Some r', (set_idle_queue (trim_space c) queue (set_runtime j r' reg))
                          \<lparr>tr_updated_at := now_or wall now\<rparr>))"
        using False by (blast intro: acquire_idle_head [OF inv queue])
      then have "i \<noteq> j" using r by (auto simp: idle_at_def)
      then show ?thesis using r run BridgeAcquireIdle by (auto simp: Let_def intro!: bridge_lentI)
    qed
  next
    case (BridgeMarkActive wall now raw traffic)
    then show ?thesis
      using r by (auto simp: mark_tunnel_active_def Let_def bridge_lent_def split: option.split)
  next
    case (BridgeMarkIdleAfterRecycle wall now raw n)
    then show ?thesis
      using r kept by (auto simp: mark_tunnel_idle_after_recycle_def Let_def bridge_lent_def split: option.split)
  next
    case (BridgeRemoveTerminal wall raw)
    then show ?thesis
      using r by (auto simp: remove_terminal_tunnel_def Let_def bridge_lent_def split: option.split)
  next
    case (PurgeBySession wall now s reason)
    then show ?thesis
      using purge_keeps_others [OF inv r(1)] r kept by (auto intro: bridge_lentI)
  next
    case (RecycleIdleBySession wall now s limit reason)
    then show ?thesis
      using recycle_idle_keeps_busy [OF inv r(1)] r by (auto intro: bridge_lentI)
  qed (use r kept in \<open>auto simp: mark_tunnel_closed_def mark_tunnel_broken_def transition_tunnel_other intro!: bridge_lentI\<close>)
qed


section \<open>Properties\<close>

lemma sorted_take_drop:
  assumes "sorted (map f xs)" and "x \<in> set (take n xs)" and "y \<in> set (drop n xs)"
  shows "f x \<le> f y"
proof -
  have "map f (take n xs) @ map f (drop n xs) = map f xs"
    by (metis append_take_drop_id map_append)
  then have "sorted (map f (take n xs) @ map f (drop n xs))" using assms(1) by simp
  then show ?thesis using assms(2,3) unfolding sorted_append by auto
qed

lemma tunnels_all_states:
  "tunnels_in BridgeTunnelIdle reg + tunnels_in BridgeTunnelReserved reg + tunnels_in BridgeTunnelActive reg
   + tunnels_in BridgeTunnelClosed reg + tunnels_in BridgeTunnelBroken reg = length (byTunnelID reg)"
proof -
  have "length (filter (\<lambda>(i, r). bt_state r = BridgeTunnelIdle) m)
      + length (filter (\<lambda>(i, r). bt_state r = BridgeTunnelReserved) m)
      + length (filter (\<lambda>(i, r). bt_state r = BridgeTunnelActive) m)
      + length (filter (\<lambda>(i, r). bt_state r = BridgeTunnelClosed) m)
      + length (filter (\<lambda>(i, r). bt_state r = BridgeTunnelBroken) m) = length m"
    for m :: "(string, tunnel_runtime) gomap"
  proof (induction m)
    case (Cons x m)
    then show ?case by (cases x; cases "bt_state (snd x)") simp_all
  qed simp
  then show ?thesis by (simp add: tunnels_in_def)
qed

text \<open>
  After any sequence of calls on the bridge's registry, purges included, the idle queue of
  each connector lists exactly the idle tunnels of that connector, each once, and the counts
  of a snapshot add up to the number of records.
\<close>

theorem bridge_queues_exact:
  "let reg = fold bridge_exec calls new_tunnel_registry
   in distinct (idle_queue c reg)
      \<and> set (idle_queue c reg) = {i. \<exists>r. map_of (byTunnelID reg) i = Some r
            \<and> bt_state r = BridgeTunnelIdle \<and> bt_connector r = c}
      \<and> ts_TotalCount (tunnel_registry_snapshot reg)
          = ts_IdleCount (tunnel_registry_snapshot reg) + ts_ReservedCount (tunnel_registry_snapshot reg)
            + ts_ActiveCount (tunnel_registry_snapshot reg) + ts_ClosedCount (tunnel_registry_snapshot reg)
            + ts_BrokenCount (tunnel_registry_snapshot reg)"
proof -
  let ?reg = "fold bridge_exec calls new_tunnel_registry"
  have inv: "bridge_inv ?reg" by (rule bridge_lease.ok_run [OF bridge_inv_new])
  have "set (idle_queue c ?reg) = {i. \<exists>r. map_of (byTunnelID ?reg) i = Some r
      \<and> bt_state r = BridgeTunnelIdle \<and> bt_connector r = c}"
    using bridge_inv_mem [OF inv, of _ c] by (auto simp: idle_at_def simp del: map_of_eq_Some_iff)
  then show ?thesis
    using bridge_inv_index [OF inv, of c] tunnels_all_states [of ?reg]
    by (simp add: Let_def idle_index_def tunnel_registry_snapshot_def del: map_of_eq_Some_iff)
qed

text \<open>
  C39. The bridge never hands one tunnel to two streams: between two calls of \<open>AcquireIdle\<close> that
  return the same tunnel there is a call that took it back: a recycling, a closing or a
  failure of this tunnel, or a purge of the session it belonged to at that moment.
\<close>

theorem bridge_tunnel_exclusive:
  assumes "bridge_granted call (fold bridge_exec before new_tunnel_registry) = Some i"
    and "bridge_granted call' (fold bridge_exec (before @ call # between) new_tunnel_registry) = Some i"
  shows "\<exists>pre d post. between = pre @ d # post
    \<and> i \<in> bridge_gives_back d (fold bridge_exec (before @ call # pre) new_tunnel_registry)"
  using bridge_lease.exclusive [OF bridge_lease.ok_run [OF bridge_inv_new] assms(1), of call' between] assms(2)
  by simp

definition sample_upsert :: bridge_call where
  "sample_upsert = UpsertIdle 1 1 ''c'' ''s'' \<lparr>tunnel_object = 1, tunnel_id = ''t''\<rparr> None"

lemma trim_one:
  "trim_space ''t'' = ''t''" "trim_space ''c'' = ''c''" "trim_space ''s'' = ''s''"
  by (rule trim_space_graphic; simp add: graphic_def)+

theorem bridge_tunnel_exclusive_witness:
  "bridge_granted (BridgeAcquireIdle 2 2 ''c'') (fold bridge_exec [sample_upsert] new_tunnel_registry) = Some ''t''
   \<and> (\<exists>pre d post. [BridgeMarkIdleAfterRecycle 3 3 ''t'' 1] = pre @ d # post
        \<and> ''t'' \<in> bridge_gives_back d
             (fold bridge_exec ([sample_upsert] @ BridgeAcquireIdle 2 2 ''c'' # pre) new_tunnel_registry))"
proof -
  note run = sample_upsert_def upsert_idle_def new_tunnel_registry_def set_idle_queue_def set_runtime_def
    idle_queue_def acquire_idle_tunnel_def mark_tunnel_idle_after_recycle_def Let_def trim_one now_or_def
    zero_time_def
  have one: "bridge_granted (BridgeAcquireIdle 2 2 ''c'')
      (fold bridge_exec [sample_upsert] new_tunnel_registry) = Some ''t''"
    by (simp add: run)
  have "bridge_granted (BridgeAcquireIdle 4 4 ''c'')
      (fold bridge_exec ([sample_upsert] @ BridgeAcquireIdle 2 2 ''c'' # [BridgeMarkIdleAfterRecycle 3 3 ''t'' 1])
        new_tunnel_registry) = Some ''t''"
    by (simp add: run)
  from one bridge_tunnel_exclusive [OF one this] show ?thesis by blast
qed

text \<open>
  Purging a session is complete and exact: afterwards no record and no queue of any
  connector holds a tunnel of the session, every other tunnel is untouched, and the purged
  tunnels, all of them in a terminal state, are handed out to be closed.
\<close>

theorem purge_complete_and_exact:
  assumes "reg = fold bridge_exec calls new_tunnel_registry" and "trim_space session \<noteq> []"
    and "purge_by_session wall now session reason reg = (purged, reg')"
  shows "(\<forall>i r. map_of (byTunnelID reg') i = Some r
            \<longleftrightarrow> map_of (byTunnelID reg) i = Some r \<and> trim_space (bt_session r) \<noteq> trim_space session)
    \<and> (\<forall>i. i \<in> set (idle_queue c reg') \<longrightarrow> (\<exists>r. map_of (byTunnelID reg) i = Some r
            \<and> trim_space (bt_session r) \<noteq> trim_space session))
    \<and> map bt_tunnel purged = map (\<lambda>e. bt_tunnel (snd e))
        (filter (\<lambda>e. trim_space (bt_session (snd e)) = trim_space session) (byTunnelID reg))
    \<and> (\<forall>r \<in> set purged. bt_state r = BridgeTunnelClosed \<or> bt_state r = BridgeTunnelBroken)"
proof -
  have inv: "bridge_inv reg" unfolding assms(1) by (rule bridge_lease.ok_run [OF bridge_inv_new])
  note effect = purge_effect [OF inv assms(2,3)]
  have records: "map_of (byTunnelID reg') i = Some r
      \<longleftrightarrow> map_of (byTunnelID reg) i = Some r \<and> trim_space (bt_session r) \<noteq> trim_space session" for i r
    using effect bridge_inv_distinct [OF inv]
    by (auto simp: map_of_filter_key in_session_def simp del: map_of_eq_Some_iff split: option.split)
  moreover have "\<exists>r. map_of (byTunnelID reg) i = Some r \<and> trim_space (bt_session r) \<noteq> trim_space session"
    if "i \<in> set (idle_queue c reg')" for i
    using that records bridge_inv_mem [of reg' i c] effect by blast
  moreover have "map bt_tunnel purged = map (\<lambda>e. bt_tunnel (snd e))
      (filter (\<lambda>e. trim_space (bt_session (snd e)) = trim_space session) (byTunnelID reg))"
    using effect by (simp add: purged_runtime_def in_session_def case_prod_unfold comp_def)
  moreover have "\<forall>r \<in> set purged. bt_state r = BridgeTunnelClosed \<or> bt_state r = BridgeTunnelBroken"
    using effect by (auto simp: purged_runtime_def)
  ultimately show ?thesis by blast
qed

theorem purge_complete_and_exact_witness:
  "let reg = fold bridge_exec [sample_upsert] new_tunnel_registry
   in map_of (byTunnelID (snd (purge_by_session 2 2 ''s'' ''gone'' reg))) ''t'' = None
      \<and> map bt_tunnel (fst (purge_by_session 2 2 ''s'' ''gone'' reg)) = [\<lparr>tunnel_object = 1, tunnel_id = ''t''\<rparr>]"
proof -
  note run = sample_upsert_def upsert_idle_def new_tunnel_registry_def set_idle_queue_def set_runtime_def
    idle_queue_def Let_def trim_one now_or_def zero_time_def
  let ?reg = "fold bridge_exec [sample_upsert] new_tunnel_registry"
  obtain purged reg' where purge: "purge_by_session 2 2 ''s'' ''gone'' ?reg = (purged, reg')"
    by (metis prod.collapse)
  obtain r where reg: "byTunnelID ?reg = [(''t'', r)]" and r: "trim_space (bt_session r) = trim_space ''s''"
    and object: "bt_tunnel r = \<lparr>tunnel_object = 1, tunnel_id = ''t''\<rparr>"
    by (simp add: run)
  have "trim_space ''s'' \<noteq> []" by (simp add: trim_one)
  note exact = purge_complete_and_exact [OF refl this purge]
  have "map_of (byTunnelID reg') ''t'' = None"
    using conjunct1 [OF exact] reg r by (cases "map_of (byTunnelID reg') ''t''") auto
  moreover have "map bt_tunnel purged = [\<lparr>tunnel_object = 1, tunnel_id = ''t''\<rparr>]"
    using exact unfolding reg by (simp add: r object)
  ultimately show ?thesis unfolding Let_def purge by simp
qed

text \<open>
  \<open>RecycleIdleBySession\<close> takes the tunnels that were idle longest: it removes exactly the
  first \<open>limit\<close> idle tunnels of the session in the order of their last use, and never a
  tunnel that is handed out.
\<close>

theorem recycle_takes_oldest_idle:
  assumes "reg = fold bridge_exec calls new_tunnel_registry" and "trim_space session \<noteq> []"
    and "recycle_idle_by_session wall now session limit reason reg = (recycled, reg')"
  shows "length recycled = min (nat limit) (length (recycle_candidates (trim_space session) reg))
    \<and> (\<forall>i r. map_of (byTunnelID reg) i = Some r \<and> bt_state r \<noteq> BridgeTunnelIdle
          \<longrightarrow> map_of (byTunnelID reg') i = Some r)
    \<and> (\<forall>i r. map_of (byTunnelID reg) i = Some r \<and> map_of (byTunnelID reg') i = None
          \<longrightarrow> in_session (trim_space session) r
            \<and> (\<forall>j s. map_of (byTunnelID reg') j = Some s \<and> bt_state s = BridgeTunnelIdle
                  \<and> in_session (trim_space session) s
                  \<longrightarrow> (bt_updated_at r, i) \<le> (bt_updated_at s, j)))"
proof -
  have inv: "bridge_inv reg" unfolding assms(1) by (rule bridge_lease.ok_run [OF bridge_inv_new])
  let ?cs = "recycle_candidates (trim_space session) reg"
  note effect = recycle_effect [OF inv assms(2,3)]
  have records: "map_of (byTunnelID reg') i = (case map_of (byTunnelID reg) i of None \<Rightarrow> None
      | Some r \<Rightarrow> if i \<notin> bt_id ` set (take (nat limit) ?cs) then Some r else None)" for i
    using effect bridge_inv_distinct [OF inv] by (simp add: map_of_filter_key split: option.split)
  have sorted: "sorted (map (\<lambda>r. (bt_updated_at r, bt_id r)) ?cs)"
    by (simp add: recycle_candidates_def)
  have "in_session (trim_space session) r
      \<and> (\<forall>j s. map_of (byTunnelID reg') j = Some s \<and> bt_state s = BridgeTunnelIdle
            \<and> in_session (trim_space session) s \<longrightarrow> (bt_updated_at r, i) \<le> (bt_updated_at s, j))"
    if r: "map_of (byTunnelID reg) i = Some r" and gone: "map_of (byTunnelID reg') i = None" for i r
  proof -
    obtain r' where r': "r' \<in> set (take (nat limit) ?cs)" "bt_id r' = i"
      using records [of i] r gone by (auto split: if_splits)
    have "r' = r"
      using runtime_filed [OF inv, of r'] in_set_takeD [OF r'(1)] r r'(2) by (simp add: candidates_set)
    have "(bt_updated_at r, i) \<le> (bt_updated_at s, j)"
      if s: "map_of (byTunnelID reg') j = Some s" "bt_state s = BridgeTunnelIdle" "in_session (trim_space session) s"
      for j s
    proof -
      have s': "map_of (byTunnelID reg) j = Some s" "j \<notin> bt_id ` set (take (nat limit) ?cs)"
        using records [of j] s(1) by (auto split: option.splits if_splits)
      have "s \<in> set ?cs" using s' s(2,3) by (force simp: candidates_set dest: map_of_SomeD)
      moreover have "s \<notin> set (take (nat limit) ?cs)"
        using s'(2) bridge_inv_filed [OF inv s'(1)] by force
      ultimately have "s \<in> set (drop (nat limit) ?cs)"
        by (metis Un_iff append_take_drop_id set_append)
      from sorted_take_drop [OF sorted r'(1) this] show ?thesis
        using r'(2) \<open>r' = r\<close> bridge_inv_filed [OF inv s'(1)] by metis
    qed
    then show ?thesis using in_set_takeD [OF r'(1)] \<open>r' = r\<close> by (simp add: candidates_set)
  qed
  moreover have "map_of (byTunnelID reg') i = Some r"
    if "map_of (byTunnelID reg) i = Some r" and "bt_state r \<noteq> BridgeTunnelIdle" for i r
    using recycle_idle_keeps_busy [OF inv that, of wall now session limit reason] assms(3) by simp
  moreover have "length recycled = min (nat limit) (length ?cs)"
    using effect by (simp add: min.commute)
  ultimately show ?thesis by blast
qed


theorem recycle_takes_oldest_idle_witness:
  "let reg = fold bridge_exec [sample_upsert] new_tunnel_registry
   in length (fst (recycle_idle_by_session 2 2 ''s'' 3 ''surplus'' reg)) = 1"
proof -
  note run = sample_upsert_def upsert_idle_def new_tunnel_registry_def set_idle_queue_def set_runtime_def
    idle_queue_def Let_def trim_one now_or_def zero_time_def recycle_candidates_def in_session_def
  let ?reg = "fold bridge_exec [sample_upsert] new_tunnel_registry"
  obtain recycled reg' where recycle: "recycle_idle_by_session 2 2 ''s'' 3 ''surplus'' ?reg = (recycled, reg')"
    by (metis prod.collapse)
  have "length (recycle_candidates (trim_space ''s'') ?reg) = 1" by (simp add: run)
  then show ?thesis
    using recycle_takes_oldest_idle [OF refl _ recycle] unfolding Let_def recycle by (simp add: trim_one)
qed

end
