(* ===== verification/Bridge_Reports.thy ===== *)
theory Bridge_Reports
  imports Protocol_Types "HOL-Library.List_Lexorder" "HOL-Library.Char_ord" "HOL-Library.Product_Lexorder"
begin

text \<open>
  The tunnel pool reports that the bridge keeps
  (\<open>cloud-bridge/runtime/bridge/control/tunnel_pool_report_store.go\<close>): the latest report of each
  connector, and an index by session and epoch.
\<close>

section \<open>State and operations\<close>

record pool_report =
  pr_IdleCount :: int
  pr_InUseCount :: int
  pr_TargetIdleCount :: int
  pr_Trigger :: string
  pr_TimestampUnix :: int

record pool_report_runtime =
  rr_connector :: string
  rr_session :: string
  rr_epoch :: "64 word"
  rr_idle :: int
  rr_in_use :: int
  rr_target :: int
  rr_trigger :: string
  rr_reported_at :: gotime
  rr_updated_at :: gotime

record report_store =
  reportByConnector :: "(string, pool_report_runtime) gomap"
  connectorBySessionKey :: "(string, string) gomap"

definition new_report_store :: report_store where
  "new_report_store = \<lparr>reportByConnector = [], connectorBySessionKey = []\<rparr>"

definition report_session_key :: "string \<Rightarrow> 64 word \<Rightarrow> string" where
  "report_session_key session epoch = trim_space session @ ''#'' @ show_nat (unat epoch)"

definition max_int :: "int \<Rightarrow> int \<Rightarrow> int" where
  "max_int v fallback = (if v < fallback then fallback else v)"

text \<open>\<open>unix\<close> is \<open>time.Unix\<close> on the clock of the model.\<close>

definition report_of ::
    "(int \<Rightarrow> gotime) \<Rightarrow> gotime \<Rightarrow> string \<Rightarrow> string \<Rightarrow> 64 word \<Rightarrow> pool_report \<Rightarrow> pool_report_runtime" where
  "report_of unix now c session epoch report =
     \<lparr>rr_connector = c, rr_session = session, rr_epoch = epoch,
      rr_idle = max_int (pr_IdleCount report) 0, rr_in_use = max_int (pr_InUseCount report) 0,
      rr_target = max_int (pr_TargetIdleCount report) 0, rr_trigger = trim_space (pr_Trigger report),
      rr_reported_at = (if pr_TimestampUnix report > 0 then unix (pr_TimestampUnix report) else now),
      rr_updated_at = now\<rparr>"

definition upsert_report ::
    "(int \<Rightarrow> gotime) \<Rightarrow> gotime \<Rightarrow> gotime \<Rightarrow> string \<Rightarrow> string \<Rightarrow> 64 word \<Rightarrow> pool_report
       \<Rightarrow> report_store \<Rightarrow> report_store" where
  "upsert_report unix wall now0 connector session epoch report store =
     (let c = trim_space connector; s = trim_space session
      in if c = [] \<or> s = [] \<or> epoch = 0 then store
         else
           let now = now_or wall now0; key = report_session_key s epoch;
               existing = map_of (reportByConnector store) c
           in if (case existing of None \<Rightarrow> False | Some r \<Rightarrow> rr_epoch r > epoch) then store
              else
                let keys1 = (case existing of
                               None \<Rightarrow> connectorBySessionKey store
                             | Some r \<Rightarrow>
                                 let old = report_session_key (rr_session r) (rr_epoch r)
                                 in if old \<noteq> key then map_del old (connectorBySessionKey store)
                                    else connectorBySessionKey store);
                    reports1 = (case map_of keys1 key of
                                  None \<Rightarrow> reportByConnector store
                                | Some c' \<Rightarrow> if c' \<noteq> c then map_del c' (reportByConnector store)
                                           else reportByConnector store)
                in \<lparr>reportByConnector = map_put c (report_of unix now c s epoch report) reports1,
                    connectorBySessionKey = map_put key c keys1\<rparr>)"

definition remove_report_by_session :: "string \<Rightarrow> 64 word \<Rightarrow> report_store \<Rightarrow> report_store" where
  "remove_report_by_session session epoch store =
     (let s = trim_space session
      in if s = [] \<or> epoch = 0 then store
         else case map_of (connectorBySessionKey store) (report_session_key s epoch) of
                None \<Rightarrow> store
              | Some c \<Rightarrow>
                  \<lparr>reportByConnector = map_del c (reportByConnector store),
                   connectorBySessionKey = map_del (report_session_key s epoch) (connectorBySessionKey store)\<rparr>)"

text \<open>Newest first, then by connector.\<close>

definition list_reports :: "report_store \<Rightarrow> pool_report_runtime list" where
  "list_reports store =
     sort_key (\<lambda>r. (- rr_updated_at r, rr_connector r)) (map snd (reportByConnector store))"


section \<open>The two maps are inverse\<close>

lemma show_nat_digits: "set (show_nat n) \<subseteq> {c. 48 \<le> (of_char c :: nat) \<and> (of_char c :: nat) \<le> 57}"
proof (induction n rule: show_nat.induct)
  case (1 n)
  have "48 + n mod 10 < 256" by (simp add: trans_less_add1)
  then have "(of_char (char_of (48 + n mod 10)) :: nat) = 48 + n mod 10" by simp
  then show ?case
    using 1 by (subst show_nat.simps) (auto simp: of_char_of take_bit_eq_mod)
qed

lemma hash_free: "CHR ''#'' \<notin> set (show_nat n)"
proof -
  have "(of_char (CHR ''#'') :: nat) = 35" by simp
  then show ?thesis using show_nat_digits [of n] by force
qed

lemma show_nat_value: "foldl (\<lambda>v c. 10 * v + (of_char c - 48)) 0 (show_nat n) = n"
proof (induction n rule: show_nat.induct)
  case (1 n)
  show ?case
  proof (cases "n < 10")
    case True
    then show ?thesis by (subst show_nat.simps) (simp add: of_char_of take_bit_eq_mod)
  next
    case False
    have "(of_char (char_of (48 + n mod 10) :: char) :: nat) = 48 + n mod 10"
      by (simp add: of_char_of take_bit_eq_mod trans_less_add1)
    then show ?thesis using False 1 by (subst show_nat.simps) simp
  qed
qed

lemma show_nat_inject: "show_nat m = show_nat n \<longleftrightarrow> m = n"
  using show_nat_value by metis

lemma split_at_last:
  "c \<notin> set ys \<Longrightarrow> c \<notin> set ys' \<Longrightarrow> xs @ c # ys = xs' @ c # ys' \<Longrightarrow> xs = xs' \<and> ys = ys'"
proof (induction xs arbitrary: xs')
  case Nil
  then show ?case by (cases xs') auto
next
  case (Cons x xs)
  then show ?case by (cases xs') auto
qed

lemma report_session_key_inject:
  "report_session_key s e = report_session_key s' e' \<longleftrightarrow> trim_space s = trim_space s' \<and> e = e'"
proof
  assume "report_session_key s e = report_session_key s' e'"
  then have "trim_space s @ CHR ''#'' # show_nat (unat e) = trim_space s' @ CHR ''#'' # show_nat (unat e')"
    by (simp add: report_session_key_def)
  from split_at_last [OF hash_free hash_free this] show "trim_space s = trim_space s' \<and> e = e'"
    by (simp add: show_nat_inject word_unat_eq_iff)
qed (simp add: report_session_key_def)

definition report_key :: "pool_report_runtime \<Rightarrow> string" where
  "report_key r = report_session_key (rr_session r) (rr_epoch r)"

definition reports_ok :: "report_store \<Rightarrow> bool" where
  "reports_ok store \<longleftrightarrow>
     (\<forall>c r. map_of (reportByConnector store) c = Some r
        \<longrightarrow> rr_connector r = c \<and> map_of (connectorBySessionKey store) (report_key r) = Some c)
     \<and> (\<forall>k c. map_of (connectorBySessionKey store) k = Some c
        \<longrightarrow> (\<exists>r. map_of (reportByConnector store) c = Some r \<and> report_key r = k))"

lemma reports_okD:
  assumes "reports_ok store"
  shows "map_of (reportByConnector store) c = Some r \<Longrightarrow> rr_connector r = c"
    and "map_of (reportByConnector store) c = Some r \<Longrightarrow> map_of (connectorBySessionKey store) (report_key r) = Some c"
    and "map_of (connectorBySessionKey store) k = Some c \<Longrightarrow>
         \<exists>r. map_of (reportByConnector store) c = Some r \<and> report_key r = k"
  using assms unfolding reports_ok_def by blast+

lemma reports_ok_remove:
  assumes "reports_ok store"
  shows "reports_ok (remove_report_by_session s e store)"
proof (cases "map_of (connectorBySessionKey store) (report_session_key (trim_space s) e)")
  case (Some c)
  let ?k = "report_session_key (trim_space s) e"
  obtain r where r: "map_of (reportByConnector store) c = Some r" "report_key r = ?k"
    using reports_okD(3) [OF assms Some] by blast
  have one: "report_key r' \<noteq> ?k" if "map_of (reportByConnector store) c' = Some r'" "c' \<noteq> c" for c' r'
    using reports_okD(2) [OF assms that(1)] that(2) Some by force
  have two: "c' \<noteq> c" if "map_of (connectorBySessionKey store) k = Some c'" "k \<noteq> ?k" for k c'
    using reports_okD(3) [OF assms that(1)] that(2) r by force
  show ?thesis
    using Some assms one two reports_okD [OF assms]
    by (auto simp: remove_report_by_session_def Let_def reports_ok_def simp del: map_of_eq_Some_iff)
qed (use assms in \<open>simp add: remove_report_by_session_def Let_def\<close>)


lemma reports_ok_upsert:
  assumes "reports_ok store"
  shows "reports_ok (upsert_report unix wall now connector session e report store)"
proof (cases "trim_space connector = [] \<or> trim_space session = [] \<or> e = 0
    \<or> (\<exists>r. map_of (reportByConnector store) (trim_space connector) = Some r \<and> rr_epoch r > e)")
  case True
  then show ?thesis using assms by (auto simp: upsert_report_def Let_def simp del: map_of_eq_Some_iff)
next
  case False
  let ?c = "trim_space connector" and ?k = "report_session_key (trim_space session) e"
  let ?new = "report_of unix (now_or wall now) ?c (trim_space session) e report"
  let ?store = "upsert_report unix wall now connector session e report store"
  note ok = reports_okD [OF assms]
  have new: "report_key ?new = ?k" "rr_connector ?new = ?c" by (simp_all add: report_key_def report_of_def)
  have keys: "map_of (connectorBySessionKey ?store) k =
      (if k = ?k then Some ?c
       else if (\<exists>r. map_of (reportByConnector store) ?c = Some r \<and> report_key r = k) then None
       else map_of (connectorBySessionKey store) k)" for k
    using False by (auto simp: upsert_report_def Let_def report_key_def simp del: map_of_eq_Some_iff split: option.split)
  have other: "map_of (reportByConnector store) c' = Some r \<Longrightarrow> c' \<noteq> ?c \<Longrightarrow>
      \<not> (\<exists>r'. map_of (reportByConnector store) ?c = Some r' \<and> report_key r' = report_key r)" for c' r
    using ok(2) by (metis option.inject)
  have reports: "map_of (reportByConnector ?store) c' =
      (if c' = ?c then Some ?new
       else if map_of (connectorBySessionKey store) ?k = Some c' then None
       else map_of (reportByConnector store) c')" for c'
    using False ok(3) [of ?k] ok(2) [of ?c]
    by (auto simp: upsert_report_def Let_def report_key_def simp del: map_of_eq_Some_iff split: option.split)
  show ?thesis
    unfolding reports_ok_def
  proof (intro conjI allI impI)
    fix c' r
    assume r: "map_of (reportByConnector ?store) c' = Some r"
    show "rr_connector r = c'"
      using r ok(1) new unfolding reports by (auto split: if_splits simp del: map_of_eq_Some_iff)
    show "map_of (connectorBySessionKey ?store) (report_key r) = Some c'"
    proof (cases "c' = ?c")
      case True
      then show ?thesis using r new unfolding reports keys by auto
    next
      case c': False
      then have old: "map_of (reportByConnector store) c' = Some r"
        and "map_of (connectorBySessionKey store) ?k \<noteq> Some c'"
        using r unfolding reports by (auto split: if_splits simp del: map_of_eq_Some_iff)
      then have "report_key r \<noteq> ?k" using ok(2) [OF old] by auto
      then show ?thesis using ok(2) [OF old] other [OF old c'] unfolding keys by (simp del: map_of_eq_Some_iff)
    qed
  next
    fix k c'
    assume k: "map_of (connectorBySessionKey ?store) k = Some c'"
    show "\<exists>r. map_of (reportByConnector ?store) c' = Some r \<and> report_key r = k"
    proof (cases "k = ?k")
      case True
      then have "c' = ?c" using k unfolding keys by simp
      then show ?thesis using True new unfolding reports by simp
    next
      case False
      then have old: "map_of (connectorBySessionKey store) k = Some c'"
        and none: "\<not> (\<exists>r. map_of (reportByConnector store) ?c = Some r \<and> report_key r = k)"
        using k unfolding keys by (auto split: if_splits simp del: map_of_eq_Some_iff)
      obtain r where r: "map_of (reportByConnector store) c' = Some r" "report_key r = k"
        using ok(3) [OF old] by blast
      then have "c' \<noteq> ?c" using none by blast
      moreover have "map_of (connectorBySessionKey store) ?k \<noteq> Some c'"
      proof
        assume "map_of (connectorBySessionKey store) ?k = Some c'"
        from ok(3) [OF this] r False show False by (metis option.inject)
      qed
      ultimately have "map_of (reportByConnector ?store) c' = Some r" unfolding reports using r(1) by simp
      then show ?thesis using r(2) by blast
    qed
  qed
qed


section \<open>Properties\<close>

datatype report_call =
    UpsertReport gotime gotime string string "64 word" pool_report
  | RemoveReportBySession string "64 word"

fun report_exec :: "(int \<Rightarrow> gotime) \<Rightarrow> report_call \<Rightarrow> report_store \<Rightarrow> report_store" where
  "report_exec unix (UpsertReport wall now c s e report) store = upsert_report unix wall now c s e report store"
| "report_exec unix (RemoveReportBySession s e) store = remove_report_by_session s e store"

lemma reports_ok_run: "reports_ok (fold (report_exec unix) calls new_report_store)"
proof -
  have "reports_ok store \<Longrightarrow> reports_ok (fold (report_exec unix) calls store)" for store
  proof (induction calls arbitrary: store)
    case (Cons call calls)
    then show ?case by (cases call) (simp_all add: reports_ok_upsert reports_ok_remove)
  qed simp
  moreover have "reports_ok new_report_store" by (simp add: reports_ok_def new_report_store_def)
  ultimately show ?thesis by blast
qed

text \<open>
  The report store is consistent after any sequence of calls: a report is filed under its own
  connector, no two connectors hold a report of the same session and epoch, removing a
  session's report leaves none of that session and epoch, and a report of an older epoch never
  replaces a newer one.
\<close>

theorem reports_consistent:
  fixes unix :: "int \<Rightarrow> gotime"
  assumes "store = fold (report_exec unix) calls new_report_store"
  shows "(\<forall>c r. map_of (reportByConnector store) c = Some r \<longrightarrow> rr_connector r = c)
    \<and> (\<forall>c c' r r'. map_of (reportByConnector store) c = Some r \<and> map_of (reportByConnector store) c' = Some r'
          \<and> trim_space (rr_session r) = trim_space (rr_session r') \<and> rr_epoch r = rr_epoch r' \<longrightarrow> c = c')
    \<and> (\<forall>s e c r. trim_space s \<noteq> [] \<and> e \<noteq> 0
          \<and> map_of (reportByConnector (remove_report_by_session s e store)) c = Some r
          \<longrightarrow> \<not> (trim_space (rr_session r) = trim_space s \<and> rr_epoch r = e))
    \<and> (\<forall>r. map_of (reportByConnector store) (trim_space c) = Some r \<and> e < rr_epoch r
          \<longrightarrow> upsert_report unix wall now c s e report store = store)"
proof (intro conjI allI impI)
  have ok: "reports_ok store" using reports_ok_run assms by simp
  note facts = reports_okD [OF ok]
  fix c r
  assume "map_of (reportByConnector store) c = Some r"
  then show "rr_connector r = c" by (rule facts(1))
next
  have ok: "reports_ok store" using reports_ok_run assms by simp
  fix c c' r r'
  assume "map_of (reportByConnector store) c = Some r \<and> map_of (reportByConnector store) c' = Some r'
      \<and> trim_space (rr_session r) = trim_space (rr_session r') \<and> rr_epoch r = rr_epoch r'"
  moreover from this have "report_key r = report_key r'" by (simp add: report_key_def report_session_key_inject)
  ultimately show "c = c'"
    using reports_okD(2) [OF ok, of c r] reports_okD(2) [OF ok, of c' r'] by (metis option.inject)
next
  have ok: "reports_ok store" using reports_ok_run assms by simp
  fix s e c r
  assume r: "trim_space s \<noteq> [] \<and> e \<noteq> 0
      \<and> map_of (reportByConnector (remove_report_by_session s e store)) c = Some r"
  let ?store = "remove_report_by_session s e store"
  have "reports_ok ?store" by (rule reports_ok_remove [OF ok])
  from reports_okD(2) [OF this, of c r] r have "map_of (connectorBySessionKey ?store) (report_key r) = Some c" by blast
  moreover have "map_of (connectorBySessionKey ?store) (report_session_key (trim_space s) e) = None"
    using r by (auto simp: remove_report_by_session_def Let_def split: option.split)
  ultimately show "\<not> (trim_space (rr_session r) = trim_space s \<and> rr_epoch r = e)"
    by (auto simp: report_key_def report_session_key_def)
next
  fix r
  assume "map_of (reportByConnector store) (trim_space c) = Some r \<and> e < rr_epoch r"
  then show "upsert_report unix wall now c s e report store = store"
    by (simp add: upsert_report_def Let_def)
qed

definition sample_report :: pool_report where
  "sample_report = \<lparr>pr_IdleCount = 3, pr_InUseCount = 1, pr_TargetIdleCount = 4, pr_Trigger = [], pr_TimestampUnix = 0\<rparr>"

lemma trim_report_ids: "trim_space ''c'' = ''c''" "trim_space ''s'' = ''s''"
  by (rule trim_space_graphic; simp add: graphic_def)+

theorem reports_consistent_witness:
  "let store = fold (report_exec (\<lambda>t. t)) [UpsertReport 1 1 ''c'' ''s'' 2 sample_report] new_report_store
   in map_of (reportByConnector store) ''c'' \<noteq> None
      \<and> upsert_report (\<lambda>t. t) 2 2 ''c'' ''r'' 1 sample_report store = store"
proof -
  let ?store = "fold (report_exec (\<lambda>t. t)) [UpsertReport 1 1 ''c'' ''s'' 2 sample_report] new_report_store"
  obtain r where r: "map_of (reportByConnector ?store) (trim_space ''c'') = Some r" "rr_epoch r = 2"
    by (simp add: upsert_report_def new_report_store_def report_of_def trim_report_ids Let_def)
  then have "1 < rr_epoch r" by simp
  with r(1) reports_consistent [OF refl] have "upsert_report (\<lambda>t. t) 2 2 ''c'' ''r'' 1 sample_report ?store = ?store"
    by blast
  then show ?thesis using r(1) unfolding Let_def trim_report_ids by simp
qed

end
