(* ===== verification/Bridge_Lifecycle.thy ===== *)
theory Bridge_Lifecycle
  imports Bridge_Sessions Bridge_Services Bridge_Tunnels Bridge_Reports Consistency Control_Message
    Protocol_Session
begin

text \<open>
  How the control plane of the bridge keeps its registries together
  (\<open>cloud-bridge/runtime/bridge/app/control_plane.go\<close>, \<open>control/session_handler.go\<close>,
  \<open>control/health_handler.go\<close> and the draining of \<open>app/admin_runtime_ops.go\<close>): a
  session that leaves the active state loses its pool report, its service instances and its
  tunnels, and an incoming tunnel is filed under an active session.

  The dependencies of the dispatcher are all present, as \<open>newControlPlaneServer\<close> wires them.
  \<open>wall\<close> and \<open>now\<close> are readings of the clock; the decoded payloads are arguments,
  \<open>None\<close> where the payload is missing or does not decode.
\<close>

section \<open>State\<close>

record bridge_state =
  bs_sessions :: session_registry
  bs_services :: service_registry
  bs_routes :: route_registry
  bs_guard :: resource_event_guard
  bs_tunnels :: tunnel_registry
  bs_reports :: report_store
  lastSessionID :: string
  lastSessionEpoch :: "64 word"
  lastResourceVer :: "64 word"

definition new_bridge_state :: "int \<Rightarrow> bridge_state" where
  "new_bridge_state window =
     \<lparr>bs_sessions = new_session_registry, bs_services = new_service_registry, bs_routes = [],
      bs_guard = new_resource_event_guard window, bs_tunnels = new_tunnel_registry,
      bs_reports = new_report_store, lastSessionID = [], lastSessionEpoch = 0, lastResourceVer = 0\<rparr>"


section \<open>Reconnect baseline and full synchronisation\<close>

definition session_reconnect_plan :: "string \<Rightarrow> 64 word \<Rightarrow> bridge_state \<Rightarrow> reconnect_sync_plan" where
  "session_reconnect_plan session epoch st =
     build_reconnect_sync_plan (lastSessionID st) (lastSessionEpoch st) session epoch (lastResourceVer st)"

definition mark_reconnect_baseline :: "string \<Rightarrow> 64 word \<Rightarrow> 64 word \<Rightarrow> bridge_state \<Rightarrow> bridge_state" where
  "mark_reconnect_baseline session epoch version st =
     st\<lparr>lastSessionID := session, lastSessionEpoch := epoch, lastResourceVer := version\<rparr>"

definition current_baseline :: "bridge_state \<Rightarrow> string \<times> 64 word \<times> 64 word" where
  "current_baseline st = (lastSessionID st, lastSessionEpoch st, lastResourceVer st)"

record full_sync_snapshot =
  fs_completed :: bool
  fs_services :: "logical_service list"
  fs_instances :: "service_instance list"
  fs_routes :: "route list"
  fs_version :: "64 word"
  fs_epoch :: "64 word"

definition snapshot_version_map :: "full_sync_snapshot \<Rightarrow> (string, 64 word) gomap" where
  "snapshot_version_map snap =
     fold (\<lambda>r m. if r_id r = [] then m else map_put (''route:'' @ r_id r) (r_version r) m) (fs_routes snap)
       (fold (\<lambda>i m. if si_id i = [] then m else map_put (''service_instance:'' @ si_id i) (si_version i) m)
          (fs_instances snap)
          (fold (\<lambda>s m. if ls_id s = [] then m else map_put (''logical_service:'' @ ls_id s) (ls_version s) m)
             (fs_services snap) []))"

definition apply_full_sync_snapshot ::
    "gotime \<Rightarrow> gotime \<Rightarrow> full_sync_snapshot \<Rightarrow> bridge_state \<Rightarrow> bridge_state" where
  "apply_full_sync_snapshot wall now snap st =
     (if \<not> fs_completed snap then st
      else st\<lparr>bs_services := replace_all_services wall now (fs_services snap) (fs_instances snap),
              bs_routes := replace_all_routes now (fs_routes snap),
              bs_guard := replace_all_versions (snapshot_version_map snap) (bs_guard st),
              lastSessionEpoch := (if fs_epoch snap > lastSessionEpoch st then fs_epoch snap
                                   else lastSessionEpoch st),
              lastResourceVer := fs_version snap\<rparr>)"


section \<open>The life of a session\<close>

fun normalize_registry_session_state :: "pb_session_state \<Rightarrow> bridge_session_state option" where
  "normalize_registry_session_state PbActive = Some SessionActive"
| "normalize_registry_session_state PbDraining = Some SessionDraining"
| "normalize_registry_session_state PbStale = Some SessionStale"
| "normalize_registry_session_state PbClosed = Some SessionClosed"
| "normalize_registry_session_state other = None"

definition is_current_connector_session :: "session_runtime \<Rightarrow> session_registry \<Rightarrow> bool" where
  "is_current_connector_session s reg \<longleftrightarrow>
     trim_space (sr_connector s) \<noteq> []
     \<and> (case get_by_connector (trim_space (sr_connector s)) reg of
          None \<Rightarrow> False
        | Some current \<Rightarrow> trim_space (sr_session current) = trim_space (sr_session s)
                         \<and> sr_epoch current = sr_epoch s)"

text \<open>What a session takes with it: its report, its instances when they are its own, its tunnels.\<close>

definition withdraw_session ::
    "gotime \<Rightarrow> gotime \<Rightarrow> session_runtime \<Rightarrow> bool \<Rightarrow> service_status \<Rightarrow> string \<Rightarrow> bridge_state \<Rightarrow> bridge_state" where
  "withdraw_session wall now s services status reason st =
     st\<lparr>bs_reports := remove_report_by_session (sr_session s) (sr_epoch s) (bs_reports st),
        bs_services := (if services
                        then snd (mark_lifecycle wall now (sr_connector s) (sr_session s) status
                                    HealthStatusUnknown (bs_services st))
                        else bs_services st),
        bs_tunnels := snd (purge_by_session wall now (sr_session s) reason (bs_tunnels st))\<rparr>"

definition apply_session_lifecycle_effects ::
    "gotime \<Rightarrow> gotime \<Rightarrow> session_runtime \<Rightarrow> string \<Rightarrow> bridge_state \<Rightarrow> bridge_state" where
  "apply_session_lifecycle_effects wall now s raw_reason st =
     (let reason = trim_space raw_reason
      in case sr_state s of
           SessionDraining \<Rightarrow>
             withdraw_session wall now s
               (reason = ''session_epoch_takeover'' \<or> is_current_connector_session s (bs_sessions st))
               ServiceStatusInactive (''session_draining:'' @ reason) st
         | SessionStale \<Rightarrow>
             withdraw_session wall now s (is_current_connector_session s (bs_sessions st))
               ServiceStatusStale (''session_terminal:'' @ reason) st
         | SessionFailed \<Rightarrow>
             withdraw_session wall now s (is_current_connector_session s (bs_sessions st))
               ServiceStatusStale (''session_terminal:'' @ reason) st
         | SessionClosed \<Rightarrow>
             withdraw_session wall now s (is_current_connector_session s (bs_sessions st))
               ServiceStatusStale (''session_terminal:'' @ reason) st
         | _ \<Rightarrow> st)"

text \<open>Connector and binding that a commit leaves out are those of the session so far.\<close>

definition complete_session :: "session_runtime \<Rightarrow> session_registry \<Rightarrow> session_runtime" where
  "complete_session s reg =
     (let sid = trim_space (sr_session s); existing = get_by_session sid reg;
          c = (if trim_space (sr_connector s) = []
               then case existing of None \<Rightarrow> [] | Some e \<Rightarrow> trim_space (sr_connector e)
               else trim_space (sr_connector s));
          b = (if trim_space (sr_binding s) = []
               then case existing of None \<Rightarrow> trim_space (sr_binding s) | Some e \<Rightarrow> trim_space (sr_binding e)
               else trim_space (sr_binding s))
      in s\<lparr>sr_session := sid, sr_connector := c, sr_binding := b\<rparr>)"

definition commit_authenticated_session ::
    "gotime \<Rightarrow> gotime \<Rightarrow> session_runtime \<Rightarrow> 64 word \<Rightarrow> bridge_state \<Rightarrow> bridge_state" where
  "commit_authenticated_session wall now runtime version st =
     (if trim_space (sr_session runtime) = [] \<or> sr_epoch runtime = 0 then st
      else
        let s0 = complete_session runtime (bs_sessions st);
            s = s0\<lparr>sr_state := SessionActive,
                   sr_heartbeat := (if is_zero (sr_heartbeat s0) then now else sr_heartbeat s0)\<rparr>;
            ((result, committed), sessions) = commit_authoritative wall now s (bs_sessions st);
            st1 = st\<lparr>bs_sessions := sessions\<rparr>
        in if \<not> committed then st1
           else
             let st2 = (case PreviousSession result of
                          None \<Rightarrow> st1
                        | Some previous \<Rightarrow>
                            if PreviousStateChanged result
                            then apply_session_lifecycle_effects wall now previous ''session_epoch_takeover'' st1
                            else st1)
             in (case CurrentSession result of
                   None \<Rightarrow> st2
                 | Some current \<Rightarrow> mark_reconnect_baseline (sr_session current) (sr_epoch current) version st2))"



text \<open>A new state of a session, under the epoch that the caller expects (0: any).\<close>

definition transition_session_state ::
    "gotime \<Rightarrow> gotime \<Rightarrow> string \<Rightarrow> 64 word \<Rightarrow> bridge_session_state \<Rightarrow> string \<Rightarrow> bridge_state \<Rightarrow> bridge_state" where
  "transition_session_state wall now session epoch target reason st =
     (let sid = trim_space session
      in if sid = [] then st
         else case get_by_session sid (bs_sessions st) of
                None \<Rightarrow> st
              | Some current \<Rightarrow>
                  if epoch > 0 \<and> sr_epoch current \<noteq> epoch then st
                  else if sr_state current = target then st
                  else
                    let (ok, sessions) = mark_session_state now sid target (bs_sessions st);
                        st1 = st\<lparr>bs_sessions := sessions\<rparr>
                    in if \<not> ok then st1
                       else apply_session_lifecycle_effects wall now
                              (current\<lparr>sr_state := target, sr_updated_at := now\<rparr>) reason st1)"

definition upsert_active_session ::
    "gotime \<Rightarrow> gotime \<Rightarrow> string \<Rightarrow> 64 word \<Rightarrow> string \<Rightarrow> string \<Rightarrow> 64 word \<Rightarrow> bridge_state \<Rightarrow> bridge_state" where
  "upsert_active_session wall now session epoch connector binding version st =
     (let sid = trim_space session
      in if sid = [] \<or> epoch = 0 then st
         else commit_authenticated_session wall now
                \<lparr>sr_session = sid, sr_connector = trim_space connector, sr_epoch = epoch,
                 sr_binding = trim_space binding, sr_state = SessionActive,
                 sr_heartbeat = now, sr_updated_at = now\<rparr> version st)"


section \<open>Messages that touch sessions\<close>

record connector_auth_ack =
  aa_success :: bool
  aa_session :: string
  aa_epoch :: "64 word"

definition apply_auth_ack_session ::
    "gotime \<Rightarrow> gotime \<Rightarrow> control_envelope \<Rightarrow> connector_auth_ack option \<Rightarrow> bridge_state \<Rightarrow> bridge_state" where
  "apply_auth_ack_session wall now env ack st =
     (case ack of
        None \<Rightarrow> st
      | Some a \<Rightarrow>
          if \<not> aa_success a then st
          else
            let sid = (if trim_space (aa_session a) = [] then trim_space (SessionID env)
                       else trim_space (aa_session a));
                epoch = (if aa_epoch a = 0 then SessionEpoch env else aa_epoch a)
            in if sid = [] \<or> epoch = 0 then st
               else upsert_active_session wall now sid epoch (trim_space (ConnectorID env)) []
                      (ResourceVersion env) st)"

text \<open>Any business message refreshes its session, unless the session is ahead or no longer active.\<close>

definition upsert_session_from_envelope ::
    "gotime \<Rightarrow> gotime \<Rightarrow> control_envelope \<Rightarrow> bridge_state \<Rightarrow> bridge_state" where
  "upsert_session_from_envelope wall now env st =
     (let sid = trim_space (SessionID env); existing = get_by_session sid (bs_sessions st)
      in if sid = [] \<or> SessionEpoch env = 0 then st
         else if (case existing of None \<Rightarrow> False | Some s \<Rightarrow> sr_epoch s > SessionEpoch env) then st
         else if (case existing of None \<Rightarrow> False
                  | Some s \<Rightarrow> sr_epoch s = SessionEpoch env
                      \<and> sr_state s \<in> {SessionDraining, SessionStale, SessionFailed, SessionClosed}) then st
         else
           let c = (if trim_space (ConnectorID env) = []
                    then case existing of None \<Rightarrow> [] | Some s \<Rightarrow> sr_connector s
                    else trim_space (ConnectorID env))
           in upsert_active_session wall now sid (SessionEpoch env) c [] (ResourceVersion env) st)"

definition handle_heartbeat ::
    "gotime \<Rightarrow> gotime \<Rightarrow> control_envelope \<Rightarrow> pb_session_state option \<Rightarrow> bridge_state \<Rightarrow> bridge_state" where
  "handle_heartbeat wall now env heartbeat st =
     (let sid = trim_space (SessionID env)
      in if sid = [] \<or> SessionEpoch env = 0 then st
         else
           let st1 = upsert_active_session wall now sid (SessionEpoch env) (trim_space (ConnectorID env)) []
                       (ResourceVersion env) st
           in case heartbeat of
                None \<Rightarrow> st1
              | Some reported \<Rightarrow>
                  (case normalize_registry_session_state reported of
                     None \<Rightarrow> st1
                   | Some target \<Rightarrow>
                       if target = SessionActive then st1
                       else transition_session_state wall now sid (SessionEpoch env) target
                              ''heartbeat_state_report'' st1))"

text \<open>
  The session that an envelope names for its connection: its own fields, or those of the
  acknowledgement it carries.
\<close>

definition resolve_envelope_session ::
    "control_envelope \<Rightarrow> connector_auth_ack option \<Rightarrow> (string \<times> 64 word) option" where
  "resolve_envelope_session env ack =
     (if trim_space (SessionID env) \<noteq> [] \<and> SessionEpoch env > 0
      then Some (trim_space (SessionID env), SessionEpoch env)
      else if MessageType env \<noteq> ''ConnectorAuthAck'' then None
      else case ack of
             None \<Rightarrow> None
           | Some a \<Rightarrow>
               if \<not> aa_success a then None
               else if trim_space (aa_session a) = [] \<or> aa_epoch a = 0 then None
               else Some (trim_space (aa_session a), aa_epoch a))"

definition refresh_session_heartbeat ::
    "gotime \<Rightarrow> string \<Rightarrow> 64 word \<Rightarrow> bridge_state \<Rightarrow> bridge_state" where
  "refresh_session_heartbeat now session epoch st =
     (let sid = trim_space session
      in if sid = [] then st
         else case get_by_session sid (bs_sessions st) of
                None \<Rightarrow> st
              | Some s \<Rightarrow>
                  if epoch > 0 \<and> sr_epoch s \<noteq> epoch then st
                  else st\<lparr>bs_sessions := snd (record_session_heartbeat now sid (bs_sessions st))\<rparr>)"

definition sweep_session_lifecycle ::
    "gotime \<Rightarrow> gotime \<Rightarrow> duration \<Rightarrow> duration \<Rightarrow> bridge_state \<Rightarrow> bridge_state" where
  "sweep_session_lifecycle wall now0 timeout ttl st =
     (let now = now_or wall now0;
          (stale, sessions1) = sweep_heartbeat_timeout now timeout (bs_sessions st);
          st1 = fold (\<lambda>s. apply_session_lifecycle_effects wall now s ''heartbeat_timeout'') stale
                  (st\<lparr>bs_sessions := sessions1\<rparr>);
          (closed, sessions2) = sweep_stale_to_closed now ttl (bs_sessions st1)
      in fold (\<lambda>s. apply_session_lifecycle_effects wall now s ''stale_ttl_expired'') closed
           (st1\<lparr>bs_sessions := sessions2\<rparr>))"


section \<open>Draining by an administrator\<close>

datatype admin_err =
    ErrAdminInvalidArgument
  | ErrAdminResourceNotFound

record drain_result =
  dr_session :: string
  dr_connector :: string
  dr_previous :: bridge_session_state
  dr_current :: bridge_session_state
  dr_services :: nat
  dr_tunnels :: nat
  dr_result :: string

definition drain_session_for_admin ::
    "gotime \<Rightarrow> gotime \<Rightarrow> string \<Rightarrow> string \<Rightarrow> bridge_state \<Rightarrow> (admin_err + drain_result) \<times> bridge_state" where
  "drain_session_for_admin wall now0 session reason st =
     (let sid = trim_space session; now = now_or wall now0
      in if sid = [] then (Inl ErrAdminInvalidArgument, st)
         else case get_by_session sid (bs_sessions st) of
                None \<Rightarrow> (Inl ErrAdminResourceNotFound, st)
              | Some s \<Rightarrow>
                  let (current, label) =
                        (case sr_state s of
                           SessionActive \<Rightarrow> (SessionDraining, ''drained'')
                         | SessionDraining \<Rightarrow> (SessionDraining, ''already_draining'')
                         | SessionStale \<Rightarrow> (sr_state s, ''already_terminal'')
                         | SessionFailed \<Rightarrow> (sr_state s, ''already_terminal'')
                         | SessionClosed \<Rightarrow> (sr_state s, ''already_terminal'')
                         | SessionOther _ \<Rightarrow> (SessionDraining, ''drained''));
                      st1 = (if sr_state s = SessionActive
                             then st\<lparr>bs_sessions := snd (mark_session_state now sid SessionDraining (bs_sessions st))\<rparr>
                             else st);
                      (updated, services) =
                        (if is_current_connector_session s (bs_sessions st1)
                         then mark_lifecycle wall now (sr_connector s) (sr_session s) ServiceStatusInactive
                                HealthStatusUnknown (bs_services st1)
                         else (0, bs_services st1));
                      (purged, tunnels) = purge_by_session wall now sid
                        (''admin_drain:'' @ (if trim_space reason = [] then ''admin_manual_drain''
                                             else trim_space reason)) (bs_tunnels st1)
                  in (Inr \<lparr>dr_session = sid, dr_connector = trim_space (sr_connector s),
                           dr_previous = sr_state s, dr_current = current, dr_services = updated,
                           dr_tunnels = length purged, dr_result = label\<rparr>,
                      st1\<lparr>bs_services := services, bs_tunnels := tunnels\<rparr>))"

definition drain_connector_for_admin ::
    "gotime \<Rightarrow> gotime \<Rightarrow> string \<Rightarrow> string \<Rightarrow> bridge_state \<Rightarrow> (admin_err + drain_result) \<times> bridge_state" where
  "drain_connector_for_admin wall now connector reason st =
     (let c = trim_space connector
      in if c = [] then (Inl ErrAdminInvalidArgument, st)
         else case get_by_connector c (bs_sessions st) of
                None \<Rightarrow> (Inl ErrAdminResourceNotFound, st)
              | Some s \<Rightarrow>
                  (case drain_session_for_admin wall now (sr_session s) reason st of
                     (Inl e, st1) \<Rightarrow> (Inl e, st1)
                   | (Inr result, st1) \<Rightarrow> (Inr (result\<lparr>dr_connector := c\<rparr>), st1)))"


section \<open>Incoming tunnels\<close>

text \<open>
  An incoming tunnel with what its stream metadata says (empty and 0 where it says nothing).
\<close>

record incoming_tunnel =
  it_tunnel :: tunnel
  it_session :: string
  it_epoch :: "64 word"
  it_id_source :: string

definition better_owner :: "session_runtime \<Rightarrow> session_runtime \<Rightarrow> session_runtime" where
  "better_owner candidate best =
     (if sr_epoch candidate > sr_epoch best then candidate
      else if sr_epoch candidate < sr_epoch best then best
      else if sr_updated_at candidate > sr_updated_at best then candidate
      else if sr_updated_at candidate = sr_updated_at best \<and> sr_heartbeat candidate > sr_heartbeat best
      then candidate else best)"

definition owner_candidates :: "session_registry \<Rightarrow> session_runtime list" where
  "owner_candidates reg =
     filter (\<lambda>s. sr_connector s \<noteq> [] \<and> sr_session s \<noteq> [])
       (map (\<lambda>s. s\<lparr>sr_connector := trim_space (sr_connector s), sr_session := trim_space (sr_session s)\<rparr>)
          (filter (\<lambda>s. sr_state s = SessionActive) (list_sessions reg)))"

definition resolve_single_active_session_owner :: "session_registry \<Rightarrow> (string \<times> string \<times> 64 word) option" where
  "resolve_single_active_session_owner reg =
     (case owner_candidates reg of
        [] \<Rightarrow> None
      | first # rest \<Rightarrow>
          let c = sr_connector first
          in if \<exists>s \<in> set rest. sr_connector s \<noteq> c then None
             else
               let best = fold better_owner rest first;
                   fallback = Some (trim_space (sr_connector best), trim_space (sr_session best), sr_epoch best)
               in case get_by_connector c reg of
                    None \<Rightarrow> fallback
                  | Some current \<Rightarrow>
                      if sr_state current = SessionActive \<and> trim_space (sr_session current) \<noteq> []
                         \<and> trim_space (sr_connector current) = c
                      then Some (c, trim_space (sr_session current), sr_epoch current)
                      else fallback)"

text \<open>
  The polling loops: \<open>polls\<close> is the registry at each round, as many as the deadline allows.
\<close>

fun first_found :: "('s \<Rightarrow> 'r option) \<Rightarrow> 's list \<Rightarrow> 'r option" where
  "first_found f [] = None"
| "first_found f (s # polls) = (case f s of None \<Rightarrow> first_found f polls | Some r \<Rightarrow> Some r)"

definition session_owner :: "string \<Rightarrow> 64 word \<Rightarrow> session_registry \<Rightarrow> string option" where
  "session_owner session epoch reg =
     (case get_by_session session reg of
        None \<Rightarrow> None
      | Some s \<Rightarrow> if sr_state s = SessionActive \<and> sr_epoch s = epoch \<and> trim_space (sr_connector s) \<noteq> []
                  then Some (trim_space (sr_connector s)) else None)"

definition wait_session_owner :: "string \<Rightarrow> 64 word \<Rightarrow> session_registry list \<Rightarrow> string option" where
  "wait_session_owner session epoch polls =
     (if trim_space session = [] \<or> epoch = 0 then None
      else first_found (session_owner (trim_space session) epoch) polls)"

definition tunnel_has_session_meta :: "incoming_tunnel \<Rightarrow> bool" where
  "tunnel_has_session_meta t \<longleftrightarrow> trim_space (it_session t) \<noteq> [] \<and> it_epoch t > 0"

definition resolve_tunnel_owner_by_session_meta ::
    "incoming_tunnel \<Rightarrow> session_registry list \<Rightarrow> (string \<times> string \<times> 64 word) option" where
  "resolve_tunnel_owner_by_session_meta t polls =
     (if trim_space (it_session t) = [] \<or> it_epoch t = 0 then None
      else case wait_session_owner (trim_space (it_session t)) (it_epoch t) polls of
             None \<Rightarrow> None
           | Some c \<Rightarrow> Some (c, trim_space (it_session t), it_epoch t))"

definition resolve_accepted_tunnel_owner ::
    "incoming_tunnel \<Rightarrow> binding_type \<Rightarrow> session_registry list \<Rightarrow> (string \<times> string \<times> 64 word) option" where
  "resolve_accepted_tunnel_owner t binding polls =
     (if binding \<noteq> BindingTypeGRPCH2 \<and> binding \<noteq> BindingTypeQUICNative
      then first_found resolve_single_active_session_owner (take 1 polls)
      else case resolve_tunnel_owner_by_session_meta t polls of
             Some owner \<Rightarrow> Some owner
           | None \<Rightarrow>
               if tunnel_has_session_meta t then None
               else first_found resolve_single_active_session_owner polls)"

text \<open>A tunnel is registered, or it is closed, with or without an error for the acceptor.\<close>

datatype registration =
    TunnelRegistered tunnel_runtime
  | TunnelDropped
  | RegistrationFailed goerr

definition runtime_bridge_tunnel_adapter :: "tunnel \<Rightarrow> string \<Rightarrow> tunnel" where
  "runtime_bridge_tunnel_adapter raw i =
     raw\<lparr>tunnel_id := (if trim_space (trim_space i) \<noteq> [] then trim_space (trim_space i)
                       else trim_space (tunnel_id raw))\<rparr>"

definition register_accepted_tunnel_with_owner ::
    "gotime \<Rightarrow> gotime \<Rightarrow> tunnel \<Rightarrow> binding_type \<Rightarrow> string \<Rightarrow> string \<Rightarrow> string \<Rightarrow> bridge_state
       \<Rightarrow> registration \<times> bridge_state" where
  "register_accepted_tunnel_with_owner wall now raw binding connector session i st =
     (let c = trim_space connector; s = trim_space session
      in if c = [] \<or> s = [] then (TunnelDropped, st)
         else case upsert_idle wall now c s (runtime_bridge_tunnel_adapter raw i) (Some binding) (bs_tunnels st) of
                (Inl e, tunnels) \<Rightarrow> (RegistrationFailed e, st\<lparr>bs_tunnels := tunnels\<rparr>)
              | (Inr r, tunnels) \<Rightarrow> (TunnelRegistered r, st\<lparr>bs_tunnels := tunnels\<rparr>))"

text \<open>\<open>st\<close> is the state when the tunnel is entered, after the polls.\<close>

definition register_accepted_tunnel ::
    "gotime \<Rightarrow> gotime \<Rightarrow> incoming_tunnel \<Rightarrow> binding_type \<Rightarrow> session_registry list \<Rightarrow> bridge_state
       \<Rightarrow> registration \<times> bridge_state" where
  "register_accepted_tunnel wall now t binding polls st =
     (case resolve_accepted_tunnel_owner t binding polls of
        None \<Rightarrow> (TunnelDropped, st)
      | Some (c, s, epoch) \<Rightarrow>
          if binding = BindingTypeGRPCH2 \<and> trim_space (it_id_source t) \<noteq> ''stream_metadata''
          then (TunnelDropped, st)
          else register_accepted_tunnel_with_owner wall now (it_tunnel t) binding c s
                 (trim_space (tunnel_id (it_tunnel t))) st)"

record tunnel_dial_announce =
  td_tunnel :: string
  td_session :: string
  td_epoch :: "64 word"

text \<open>
  A TCP tunnel: the owner is resolved on the registry \<open>before\<close>, then the handshake is read
  (\<open>None\<close>: it failed) and the tunnel opened (\<open>opened\<close>), then it is entered.
\<close>

definition handle_accepted_tcp_tunnel ::
    "gotime \<Rightarrow> gotime \<Rightarrow> session_registry \<Rightarrow> tunnel_dial_announce option \<Rightarrow> goerr + tunnel \<Rightarrow> bridge_state
       \<Rightarrow> registration \<times> bridge_state" where
  "handle_accepted_tcp_tunnel wall now before handshake opened st =
     (case resolve_single_active_session_owner before of
        None \<Rightarrow> (TunnelDropped, st)
      | Some (c, s, epoch) \<Rightarrow>
          (case handshake of
             None \<Rightarrow> (TunnelDropped, st)
           | Some h \<Rightarrow>
               if trim_space (td_tunnel h) = [] then (TunnelDropped, st)
               else if trim_space (td_session h) \<noteq> [] \<and> trim_space (td_session h) \<noteq> s then (TunnelDropped, st)
               else if td_epoch h \<noteq> 0 \<and> td_epoch h \<noteq> epoch then (TunnelDropped, st)
               else (case opened of
                       Inl e \<Rightarrow> (RegistrationFailed e, st)
                     | Inr raw \<Rightarrow>
                         register_accepted_tunnel_with_owner wall now raw BindingTypeTCPFramed c s
                           (trim_space (td_tunnel h)) st)))"

text \<open>A tunnel that ended while it was idle or reserved; \<open>raw_err\<close> is its own \<open>Err()\<close>.\<close>

definition recycle_accepted_idle_tunnel ::
    "gotime \<Rightarrow> gotime \<Rightarrow> string \<Rightarrow> binding_type \<Rightarrow> goerr option \<Rightarrow> goerr option \<Rightarrow> bridge_state \<Rightarrow> bridge_state" where
  "recycle_accepted_idle_tunnel wall now raw_id binding cause raw_err st =
     (let i = trim_space raw_id
      in if i = [] then st
         else case get_tunnel i (bs_tunnels st) of
                None \<Rightarrow> st
              | Some r \<Rightarrow>
                  if bt_state r \<noteq> BridgeTunnelIdle \<and> bt_state r \<noteq> BridgeTunnelReserved then st
                  else
                    let effective = (case cause of None \<Rightarrow> raw_err | Some e \<Rightarrow> Some e);
                        text0 = (case effective of
                                   None \<Rightarrow> ''incoming_tunnel_closed''
                                 | Some e \<Rightarrow>
                                     if e = ErrClosed \<or> trim_space (err_text e) = [] then ''incoming_tunnel_closed''
                                     else trim_space (err_text e));
                        text1 = (if binding_text binding \<noteq> [] then text0 @ '' binding='' @ binding_text binding
                                 else text0);
                        (markErr, tunnels1) = mark_tunnel_broken wall now i text1 (bs_tunnels st)
                    in if markErr \<noteq> None \<and> markErr \<noteq> Some err_bridge_tunnel_not_found
                          \<and> markErr \<noteq> Some err_invalid_tunnel_state_transition
                       then st\<lparr>bs_tunnels := tunnels1\<rparr>
                       else st\<lparr>bs_tunnels := snd (remove_terminal_tunnel wall i tunnels1)\<rparr>)"


section \<open>Every tunnel belongs to an active session\<close>

definition session_active :: "session_registry \<Rightarrow> string \<Rightarrow> bool" where
  "session_active reg k \<longleftrightarrow> (\<exists>s. map_of (bySessionID reg) k = Some s \<and> sr_state s = SessionActive)"

definition owned_except :: "string set \<Rightarrow> session_registry \<Rightarrow> tunnel_registry \<Rightarrow> bool" where
  "owned_except K sessions tunnels \<longleftrightarrow>
     (\<forall>i r. map_of (byTunnelID tunnels) i = Some r \<longrightarrow> bt_session r \<in> K \<or> session_active sessions (bt_session r))"

definition ids_valid :: "session_registry \<Rightarrow> bool" where
  "ids_valid reg \<longleftrightarrow> (\<forall>k s. map_of (bySessionID reg) k = Some s \<longrightarrow> k \<noteq> [] \<and> sr_epoch s \<noteq> 0)"

definition registries_ok :: "bridge_state \<Rightarrow> bool" where
  "registries_ok st \<longleftrightarrow> session_ok (bs_sessions st) \<and> ids_valid (bs_sessions st)
     \<and> bridge_inv (bs_tunnels st) \<and> reports_ok (bs_reports st)"

text \<open>
  The registries are consistent, and every tunnel belongs to an active session; but for the
  sessions of \<open>K\<close>, which a tunnel reached too late.
\<close>

definition bridge_ok_but :: "string set \<Rightarrow> bridge_state \<Rightarrow> bool" where
  "bridge_ok_but K st \<longleftrightarrow> registries_ok st \<and> owned_except K (bs_sessions st) (bs_tunnels st)"

abbreviation bridge_ok :: "bridge_state \<Rightarrow> bool" where
  "bridge_ok \<equiv> bridge_ok_but {}"

lemma session_okD:
  assumes "session_ok reg" and "map_of (bySessionID reg) k = Some s"
  shows "sr_session s = k" and "trim_space k = k"
  using assms sessions_invD(2) unfolding session_ok_def by blast+

lemma owned_exceptD:
  "owned_except K sessions tunnels \<Longrightarrow> map_of (byTunnelID tunnels) i = Some r \<Longrightarrow>
   bt_session r \<in> K \<or> session_active sessions (bt_session r)"
  by (simp add: owned_except_def)

lemma bridge_ok_new: "bridge_ok_but K (new_bridge_state window)"
  using session_ok_new bridge_inv_new reports_ok_run [of "\<lambda>t. t" "[]"]
  by (simp add: bridge_ok_but_def registries_ok_def new_bridge_state_def owned_except_def new_tunnel_registry_def
      ids_valid_def new_session_registry_def)

definition leaves_active :: "bridge_session_state \<Rightarrow> bool" where
  "leaves_active state \<longleftrightarrow> state \<in> {SessionDraining, SessionStale, SessionFailed, SessionClosed}"

lemma owned_purge:
  assumes "bridge_inv tunnels" and "k \<noteq> []" and "trim_space k = k"
    and "owned_except (insert k K) sessions tunnels"
  shows "owned_except K sessions (snd (purge_by_session wall now k reason tunnels))"
  unfolding owned_except_def
proof (intro allI impI)
  fix i r
  have "trim_space k \<noteq> []" using assms(2,3) by simp
  from purge_effect [OF assms(1) this surjective_pairing, of wall now reason]
  have eq: "byTunnelID (snd (purge_by_session wall now k reason tunnels))
      = filter (\<lambda>(i, r). \<not> in_session k r) (byTunnelID tunnels)"
    using assms(3) by simp
  assume "map_of (byTunnelID (snd (purge_by_session wall now k reason tunnels))) i = Some r"
  then have mem: "(i, r) \<in> set (byTunnelID tunnels)" and out: "\<not> in_session k r"
    unfolding eq using map_of_SomeD by fastforce+
  have "map_of (byTunnelID tunnels) i = Some r"
    using mem by (rule map_of_is_SomeI [OF bridge_inv_distinct [OF assms(1)]])
  from owned_exceptD [OF assms(4) this] out assms(3)
  show "bt_session r \<in> K \<or> session_active sessions (bt_session r)"
    by (auto simp: in_session_def)
qed

lemma effects_sessions [simp]:
  "bs_sessions (apply_session_lifecycle_effects wall now s reason st) = bs_sessions st"
  by (simp add: apply_session_lifecycle_effects_def withdraw_session_def Let_def
      split: bridge_session_state.split)

lemma effects_tunnels:
  assumes "leaves_active (sr_state s)"
  obtains reason' where "bs_tunnels (apply_session_lifecycle_effects wall now s reason st)
     = snd (purge_by_session wall now (sr_session s) reason' (bs_tunnels st))"
  using assms that
  by (cases "sr_state s")
    (auto simp: leaves_active_def apply_session_lifecycle_effects_def withdraw_session_def Let_def)

lemma effects_reports:
  "reports_ok (bs_reports st) \<Longrightarrow> reports_ok (bs_reports (apply_session_lifecycle_effects wall now s reason st))"
  by (simp add: apply_session_lifecycle_effects_def withdraw_session_def Let_def reports_ok_remove
      split: bridge_session_state.split)

lemma effects_restore:
  assumes "registries_ok st" and "leaves_active (sr_state s)"
    and "sr_session s \<noteq> []" and "trim_space (sr_session s) = sr_session s"
    and "owned_except (insert (sr_session s) K) (bs_sessions st) (bs_tunnels st)"
  shows "registries_ok (apply_session_lifecycle_effects wall now s reason st)
    \<and> owned_except K (bs_sessions st) (bs_tunnels (apply_session_lifecycle_effects wall now s reason st))"
proof -
  obtain reason' where eq: "bs_tunnels (apply_session_lifecycle_effects wall now s reason st)
     = snd (purge_by_session wall now (sr_session s) reason' (bs_tunnels st))"
    by (rule effects_tunnels [OF assms(2)])
  have inv: "bridge_inv (bs_tunnels st)" using assms(1) by (simp add: registries_ok_def)
  show ?thesis
    unfolding eq registries_ok_def effects_sessions
    using assms(1) owned_purge [OF inv assms(3,4,5)] bridge_inv_purge [OF inv] effects_reports [of st]
    by (simp add: registries_ok_def)
qed

text \<open>The sweeps: every session of the list is withdrawn.\<close>

lemma effects_restore_all:
  assumes "registries_ok st"
    and "\<And>s. s \<in> set ss \<Longrightarrow> leaves_active (sr_state s) \<and> sr_session s \<noteq> [] \<and> trim_space (sr_session s) = sr_session s"
    and "owned_except (sr_session ` set ss \<union> K) (bs_sessions st) (bs_tunnels st)"
  shows "registries_ok (fold (\<lambda>s. apply_session_lifecycle_effects wall now s reason) ss st)
    \<and> bs_sessions (fold (\<lambda>s. apply_session_lifecycle_effects wall now s reason) ss st) = bs_sessions st
    \<and> owned_except K (bs_sessions st)
        (bs_tunnels (fold (\<lambda>s. apply_session_lifecycle_effects wall now s reason) ss st))"
  using assms
proof (induction ss arbitrary: st)
  case (Cons s ss)
  let ?st = "apply_session_lifecycle_effects wall now s reason st"
  have s: "leaves_active (sr_state s)" "sr_session s \<noteq> []" "trim_space (sr_session s) = sr_session s"
    using Cons.prems(2) by simp_all
  have "owned_except (insert (sr_session s) (sr_session ` set ss \<union> K)) (bs_sessions st) (bs_tunnels st)"
    using Cons.prems(3) by simp
  from effects_restore [OF Cons.prems(1) s this, of wall now reason]
  have "registries_ok ?st" "owned_except (sr_session ` set ss \<union> K) (bs_sessions ?st) (bs_tunnels ?st)" by simp_all
  from Cons.IH [OF this(1) _ this(2)] Cons.prems(2) show ?case by simp
qed simp


lemma owned_mono:
  assumes "owned_except K sessions tunnels"
    and "\<And>k. session_active sessions k \<Longrightarrow> k \<in> K' \<or> session_active sessions' k" and "K \<subseteq> K'"
  shows "owned_except K' sessions' tunnels"
  unfolding owned_except_def
proof (intro allI impI)
  fix i r assume "map_of (byTunnelID tunnels) i = Some r"
  from owned_exceptD [OF assms(1) this]
  show "bt_session r \<in> K' \<or> session_active sessions' (bt_session r)"
  proof
    assume "bt_session r \<in> K"
    with assms(3) show ?thesis by (auto dest: subsetD)
  qed (rule assms(2))
qed

lemma drain_current_result:
  assumes "session_ok reg" and "drain_current now c sid reg = (res, reg1)"
  shows "PreviousStateChanged res \<longleftrightarrow> (\<exists>k s. map_of (byConnector reg) c = Some k \<and> map_of (bySessionID reg) k = Some s
      \<and> k \<noteq> sid \<and> (sr_state s = SessionActive \<or> sr_state s = SessionDraining))"
    and "PreviousStateChanged res \<Longrightarrow> \<exists>k s. PreviousSession res = Some (s\<lparr>sr_state := SessionDraining, sr_updated_at := now\<rparr>)
      \<and> map_of (byConnector reg) c = Some k \<and> map_of (bySessionID reg) k = Some s"
proof -
  have "trim_space (sr_session s) = k" if "map_of (bySessionID reg) k = Some s" for k s
    using session_okD [OF assms(1) that] by simp
  then show "PreviousStateChanged res \<longleftrightarrow> (\<exists>k s. map_of (byConnector reg) c = Some k \<and> map_of (bySessionID reg) k = Some s
      \<and> k \<noteq> sid \<and> (sr_state s = SessionActive \<or> sr_state s = SessionDraining))"
    and "PreviousStateChanged res \<Longrightarrow> \<exists>k s. PreviousSession res = Some (s\<lparr>sr_state := SessionDraining, sr_updated_at := now\<rparr>)
      \<and> map_of (byConnector reg) c = Some k \<and> map_of (bySessionID reg) k = Some s"
    using assms(2)
    by (auto simp: drain_current_def current_session_def no_commit_def Let_def simp del: map_of_eq_Some_iff
        split: option.splits if_splits)
qed

lemma session_ok_commit:
  assumes "session_ok reg" and "commit_authoritative wall now runtime reg = ((res, ok), reg')"
  shows "session_ok reg'"
  using session_ok_exec [OF assms(1), of "CommitAuthoritative wall now runtime"] assms(2) by simp

lemma ids_valid_commit:
  assumes "session_ok reg" and "ids_valid reg"
    and "commit_authoritative wall now runtime reg = ((res, ok), reg')"
  shows "ids_valid reg'"
proof -
  have inv: "sessions_inv reg" using assms(1) by (simp add: session_ok_def)
  show ?thesis
    using commit_effect [OF inv assms(3) refl refl] assms(2)
    by (cases ok) (auto simp: ids_valid_def commit_allowed_def committed_session_def simp del: map_of_eq_Some_iff
        split: if_splits option.splits)
qed

text \<open>
  What a commit leaves of the active sessions: all but the one that it drains, and that is the
  previous session of the result.
\<close>

lemma commit_keeps_active:
  assumes ok: "session_ok reg"
    and commit: "commit_authoritative wall now runtime reg = ((res, True), reg')"
    and state: "sr_state runtime = SessionActive"
    and active: "session_active reg k"
  shows "session_active reg' k
    \<or> PreviousStateChanged res
      \<and> (\<exists>p. PreviousSession res = Some p \<and> sr_session p = k \<and> sr_state p = SessionDraining)"
proof -
  let ?sid = "trim_space (sr_session runtime)" and ?c = "trim_space (sr_connector runtime)"
  have inv: "sessions_inv reg" using ok by (simp add: session_ok_def)
  obtain s where s: "map_of (bySessionID reg) k = Some s" "sr_state s = SessionActive"
    using active by (auto simp: session_active_def)
  note keys = session_okD [OF ok s(1)]
  have allowed: "commit_allowed runtime reg"
    and entry: "map_of (bySessionID reg') k =
      (if k = ?sid then Some (committed_session (now_or wall now) runtime)
       else case map_of (bySessionID reg) k of None \<Rightarrow> None
            | Some s \<Rightarrow> Some (if map_of (byConnector reg) ?c = Some k \<and> trim_space k \<noteq> ?sid
                             \<and> (sr_state s = SessionActive \<or> sr_state s = SessionDraining)
                             then s\<lparr>sr_state := SessionDraining, sr_updated_at := now_or wall now\<rparr> else s))"
    using commit_effect [OF inv commit refl refl] by simp_all
  show ?thesis
  proof (cases "k = ?sid \<or> map_of (byConnector reg) ?c \<noteq> Some k")
    case True
    then show ?thesis
      using s state unfolding session_active_def entry by (auto simp: committed_session_def)
  next
    case False
    obtain res1 reg1 where drain: "drain_current (now_or wall now) ?c ?sid reg = (res1, reg1)" by fastforce
    have res: "res = res1\<lparr>CurrentSession := Some (committed_session (now_or wall now) runtime)\<rparr>"
      using commit drain unfolding commit_accepted [OF allowed] by (simp add: Let_def)
    have changed: "PreviousStateChanged res1"
      using drain_current_result(1) [OF ok drain] False s by blast
    from drain_current_result(2) [OF ok drain this] False s
    show ?thesis using changed keys res by auto
  qed
qed


lemma registries_ok_sessions:
  "registries_ok st \<Longrightarrow> session_ok reg \<Longrightarrow> ids_valid reg \<Longrightarrow> registries_ok (st\<lparr>bs_sessions := reg\<rparr>)"
  by (simp add: registries_ok_def)

lemma bridge_ok_baseline [simp]: "bridge_ok_but K (mark_reconnect_baseline s e v st) \<longleftrightarrow> bridge_ok_but K st"
  by (simp add: mark_reconnect_baseline_def bridge_ok_but_def registries_ok_def)

lemma bridge_ok_commit:
  assumes "bridge_ok_but K st"
  shows "bridge_ok_but K (commit_authenticated_session wall now runtime version st)"
proof (cases "trim_space (sr_session runtime) = [] \<or> sr_epoch runtime = 0")
  case False
  let ?reg = "bs_sessions st"
  define s where "s = (complete_session runtime ?reg)\<lparr>sr_state := SessionActive,
    sr_heartbeat := (if is_zero (sr_heartbeat (complete_session runtime ?reg)) then now
                     else sr_heartbeat (complete_session runtime ?reg))\<rparr>"
  obtain res ok reg' where commit: "commit_authoritative wall now s ?reg = ((res, ok), reg')"
    by (metis prod.collapse)
  let ?st1 = "st\<lparr>bs_sessions := reg'\<rparr>"
  have so: "session_ok ?reg" "ids_valid ?reg" and reg: "registries_ok st"
    and owned: "owned_except K ?reg (bs_tunnels st)"
    using assms by (simp_all add: bridge_ok_but_def registries_ok_def)
  have st1: "registries_ok ?st1"
    by (rule registries_ok_sessions [OF reg session_ok_commit [OF so(1) commit] ids_valid_commit [OF so commit]])
  note unfold = commit_authenticated_session_def Let_def s_def [symmetric] commit
  show ?thesis
  proof (cases ok)
    case no: False
    then have "reg' = ?reg"
      using commit_effect [OF _ commit refl refl] so(1) by (simp add: session_ok_def)
    then show ?thesis using False no assms by (simp add: unfold)
  next
    case True
    have "commit_authoritative wall now s ?reg = ((res, True), reg')" using commit True by simp
    note keeps = commit_keeps_active [OF so(1) this]
    have active: "sr_state s = SessionActive" by (simp add: s_def)
    show ?thesis
    proof (cases "PreviousStateChanged res")
      case changed: True
      obtain k p0 p where prev: "PreviousSession res = Some p" "map_of (bySessionID ?reg) k = Some p0"
        and p: "sr_session p = sr_session p0" "sr_state p = SessionDraining"
      proof -
        obtain res1 reg1 where drain: "drain_current (now_or wall now) (trim_space (sr_connector s))
            (trim_space (sr_session s)) ?reg = (res1, reg1)" by fastforce
        have "commit_allowed s ?reg"
          using commit_effect [OF _ commit refl refl] so(1) True by (simp add: session_ok_def)
        then have "res = res1\<lparr>CurrentSession := CurrentSession res\<rparr>"
          using commit drain by (auto simp: commit_accepted Let_def)
        then have "PreviousStateChanged res1" "PreviousSession res = PreviousSession res1"
          using changed by (metis commit_result.select_convs commit_result.surjective
              commit_result.update_convs(3))+
        from drain_current_result(2) [OF so(1) drain this(1)] this(2) that show thesis by fastforce
      qed
      have key: "sr_session p = k" "k \<noteq> []" "trim_space k = k"
        using session_okD [OF so(1) prev(2)] p so(2) prev(2) by (auto simp: ids_valid_def simp del: map_of_eq_Some_iff)
      have "owned_except (insert (sr_session p) K) (bs_sessions ?st1) (bs_tunnels ?st1)"
        using owned keeps [OF active] prev(1) by (auto intro: owned_mono)
      from effects_restore [OF st1 _ _ _ this, of wall now "''session_epoch_takeover''"]
      have "bridge_ok_but K (apply_session_lifecycle_effects wall now p ''session_epoch_takeover'' ?st1)"
        using key p(2) by (simp add: bridge_ok_but_def leaves_active_def)
      then show ?thesis
        using False True changed prev(1) by (simp add: unfold split: option.split)
    next
      case unchanged: False
      have "owned_except K (bs_sessions ?st1) (bs_tunnels ?st1)"
        using owned keeps [OF active] unchanged by (auto intro: owned_mono)
      then have "bridge_ok_but K ?st1" using st1 by (simp add: bridge_ok_but_def)
      then show ?thesis
        using False True unchanged by (simp add: unfold split: option.split)
    qed
  qed
qed (use assms in \<open>simp add: commit_authenticated_session_def\<close>)


lemma mark_session_effect:
  assumes "registries_ok st" and "owned_except K (bs_sessions st) (bs_tunnels st)" and "target \<noteq> SessionActive"
  shows "registries_ok (st\<lparr>bs_sessions := snd (mark_session_state now sid target (bs_sessions st))\<rparr>)
    \<and> owned_except (insert sid K) (snd (mark_session_state now sid target (bs_sessions st))) (bs_tunnels st)"
proof
  let ?reg = "snd (mark_session_state now sid target (bs_sessions st))"
  have "session_ok ?reg"
    using session_ok_exec [of "bs_sessions st" "MarkState now sid target"] assms(1,3)
    by (simp add: registries_ok_def)
  moreover have "ids_valid ?reg"
    using assms(1) by (auto simp: registries_ok_def ids_valid_def mark_session_state_def
        simp del: map_of_eq_Some_iff split: option.split)
  ultimately show "registries_ok (st\<lparr>bs_sessions := ?reg\<rparr>)" by (rule registries_ok_sessions [OF assms(1)])
  show "owned_except (insert sid K) ?reg (bs_tunnels st)"
    using assms(2) by (rule owned_mono)
      (auto simp: session_active_def mark_session_state_def simp del: map_of_eq_Some_iff split: option.split)
qed

lemma bridge_ok_transition:
  assumes "bridge_ok_but K st" and "leaves_active target"
  shows "bridge_ok_but K (transition_session_state wall now session epoch target reason st)"
proof (cases "get_by_session (trim_space session) (bs_sessions st)")
  case (Some s)
  let ?sid = "trim_space session"
  let ?reg = "snd (mark_session_state now ?sid target (bs_sessions st))"
  let ?s = "s\<lparr>sr_state := target, sr_updated_at := now\<rparr>"
  show ?thesis
  proof (cases "?sid = [] \<or> epoch > 0 \<and> sr_epoch s \<noteq> epoch \<or> sr_state s = target")
    case False
    have reg: "registries_ok st" and owned: "owned_except K (bs_sessions st) (bs_tunnels st)"
      using assms(1) by (simp_all add: bridge_ok_but_def)
    have "target \<noteq> SessionActive" using assms(2) by (auto simp: leaves_active_def)
    note mark = mark_session_effect [OF reg owned this, of now ?sid]
    have key: "sr_session s = ?sid"
      using session_okD(1) [of "bs_sessions st"] Some reg by (simp add: registries_ok_def get_by_session_def del: map_of_eq_Some_iff)
    have "fst (mark_session_state now ?sid target (bs_sessions st))"
      using Some by (simp add: mark_session_state_def get_by_session_def)
    then have eq: "transition_session_state wall now session epoch target reason st =
        apply_session_lifecycle_effects wall now ?s reason (st\<lparr>bs_sessions := ?reg\<rparr>)"
      using False Some by (auto simp: transition_session_state_def Let_def case_prod_unfold)
    have "owned_except (insert (sr_session ?s) K) (bs_sessions (st\<lparr>bs_sessions := ?reg\<rparr>)) (bs_tunnels (st\<lparr>bs_sessions := ?reg\<rparr>))"
      using mark key by simp
    from effects_restore [OF conjunct1 [OF mark] _ _ _ this, of wall now reason] assms(2) key False
    show ?thesis unfolding eq bridge_ok_but_def by simp
  qed (use Some assms(1) in \<open>auto simp: transition_session_state_def Let_def\<close>)
qed (use assms(1) in \<open>simp add: transition_session_state_def Let_def\<close>)

lemma bridge_ok_upsert_active:
  "bridge_ok_but K st \<Longrightarrow> bridge_ok_but K (upsert_active_session wall now session epoch connector binding version st)"
  by (simp add: upsert_active_session_def Let_def bridge_ok_commit)

lemma bridge_ok_heartbeat:
  assumes "bridge_ok_but K st"
  shows "bridge_ok_but K (handle_heartbeat wall now env heartbeat st)"
proof -
  have "leaves_active target"
    if "normalize_registry_session_state p = Some target" "target \<noteq> SessionActive" for p target
    using that by (cases p) (auto simp: leaves_active_def)
  then show ?thesis
    using assms by (auto simp: handle_heartbeat_def Let_def bridge_ok_upsert_active
        intro!: bridge_ok_transition split: option.split)
qed

lemma bridge_ok_envelope:
  "bridge_ok_but K st \<Longrightarrow> bridge_ok_but K (upsert_session_from_envelope wall now env st)"
  "bridge_ok_but K st \<Longrightarrow> bridge_ok_but K (apply_auth_ack_session wall now env ack st)"
  by (auto simp: upsert_session_from_envelope_def apply_auth_ack_session_def Let_def bridge_ok_upsert_active
      split: option.split)

lemma bridge_ok_refresh:
  assumes "bridge_ok_but K st"
  shows "bridge_ok_but K (refresh_session_heartbeat now session epoch st)"
proof -
  let ?reg = "snd (record_session_heartbeat now (trim_space session) (bs_sessions st))"
  have "session_ok ?reg"
    using session_ok_exec [of "bs_sessions st" "RecordHeartbeat now (trim_space session)"] assms
    by (simp add: bridge_ok_but_def registries_ok_def)
  moreover have "ids_valid ?reg"
    using assms by (auto simp: bridge_ok_but_def registries_ok_def ids_valid_def record_session_heartbeat_def
        simp del: map_of_eq_Some_iff split: option.split)
  moreover have "owned_except K ?reg (bs_tunnels st)"
    using conjunct2 [OF assms [unfolded bridge_ok_but_def]]
    by (rule owned_mono) (auto simp: session_active_def record_session_heartbeat_def
        simp del: map_of_eq_Some_iff split: option.split)
  ultimately have "bridge_ok_but K (st\<lparr>bs_sessions := ?reg\<rparr>)"
    using assms by (simp add: bridge_ok_but_def registries_ok_def)
  then show ?thesis using assms by (simp add: refresh_session_heartbeat_def Let_def split: option.split)
qed

lemma sweep_effect:
  assumes "bridge_ok_but K st" and "leaves_active state"
    and "sweep_sessions due state now (bs_sessions st) = (swept, reg)"
  shows "bridge_ok_but K (fold (\<lambda>s. apply_session_lifecycle_effects wall now s reason) swept (st\<lparr>bs_sessions := reg\<rparr>))"
proof -
  let ?st = "st\<lparr>bs_sessions := reg\<rparr>"
  have so: "session_ok (bs_sessions st)" "ids_valid (bs_sessions st)" and reg: "registries_ok st"
    and owned: "owned_except K (bs_sessions st) (bs_tunnels st)"
    using assms(1) by (simp_all add: bridge_ok_but_def registries_ok_def)
  have keys: "map_of (bySessionID reg) k = map_option (\<lambda>s. if due s then s\<lparr>sr_state := state, sr_updated_at := now\<rparr> else s)
      (map_of (bySessionID (bs_sessions st)) k)" for k
    using sweep_keys [of due state now "bs_sessions st" k] assms(3) by simp
  have "state \<noteq> SessionActive" using assms(2) by (auto simp: leaves_active_def)
  then have "session_ok reg" using session_ok_sweep [OF so(1)] assms(3) by (metis snd_conv)
  moreover have "ids_valid reg"
    using so(2) by (auto simp: ids_valid_def keys simp del: map_of_eq_Some_iff)
  ultimately have st: "registries_ok ?st" by (rule registries_ok_sessions [OF reg])
  have swept: "swept = map (\<lambda>e. (snd e)\<lparr>sr_state := state, sr_updated_at := now\<rparr>)
      (filter (\<lambda>e. due (snd e)) (bySessionID (bs_sessions st)))"
    using assms(3) by (simp add: sweep_sessions_def Let_def comp_def)
  have dist: "keys_distinct (bySessionID (bs_sessions st))"
    using sessions_invD(1) so(1) by (simp add: session_ok_def)
  have entry: "\<exists>k s0. map_of (bySessionID (bs_sessions st)) k = Some s0 \<and> due s0
      \<and> s = s0\<lparr>sr_state := state, sr_updated_at := now\<rparr>" if "s \<in> set swept" for s
  proof -
    from that obtain k s0 where "(k, s0) \<in> set (bySessionID (bs_sessions st))" "due s0"
      "s = s0\<lparr>sr_state := state, sr_updated_at := now\<rparr>"
      unfolding swept by auto
    then show ?thesis using map_of_is_SomeI [OF dist] by blast
  qed
  have wf: "leaves_active (sr_state s) \<and> sr_session s \<noteq> [] \<and> trim_space (sr_session s) = sr_session s"
    if mem: "s \<in> set swept" for s
  proof -
    obtain k s0 where s0: "map_of (bySessionID (bs_sessions st)) k = Some s0"
      and s: "s = s0\<lparr>sr_state := state, sr_updated_at := now\<rparr>"
      using entry [OF mem] by blast
    have "k \<noteq> []" using so(2) s0 unfolding ids_valid_def by blast
    then show ?thesis using session_okD [OF so(1) s0] assms(2) s by simp
  qed
  have gone: "k \<in> sr_session ` set swept \<union> K \<or> session_active reg k" if active: "session_active (bs_sessions st) k" for k
  proof -
    obtain s where s: "map_of (bySessionID (bs_sessions st)) k = Some s" "sr_state s = SessionActive"
      using active unfolding session_active_def by blast
    show ?thesis
    proof (cases "due s")
      case True
      have "(k, s) \<in> set (bySessionID (bs_sessions st))" using map_of_SomeD [OF s(1)] .
      then have "s\<lparr>sr_state := state, sr_updated_at := now\<rparr> \<in> set swept" using True unfolding swept by force
      then have "sr_session (s\<lparr>sr_state := state, sr_updated_at := now\<rparr>) \<in> sr_session ` set swept" by (rule imageI)
      then show ?thesis using session_okD(1) [OF so(1) s(1)] by simp
    next
      case False
      then show ?thesis using s by (auto simp: session_active_def keys simp del: map_of_eq_Some_iff)
    qed
  qed
  have "owned_except (sr_session ` set swept \<union> K) (bs_sessions ?st) (bs_tunnels ?st)"
    using owned_mono [OF owned gone] by simp
  from effects_restore_all [OF st wf this] show ?thesis by (simp add: bridge_ok_but_def)
qed

lemma bridge_ok_sweep:
  assumes "bridge_ok_but K st"
  shows "bridge_ok_but K (sweep_session_lifecycle wall now0 timeout ttl st)"
proof -
  let ?now = "now_or wall now0"
  obtain stale reg1 where one: "sweep_heartbeat_timeout ?now timeout (bs_sessions st) = (stale, reg1)" by fastforce
  let ?st1 = "fold (\<lambda>s. apply_session_lifecycle_effects wall ?now s ''heartbeat_timeout'') stale (st\<lparr>bs_sessions := reg1\<rparr>)"
  have "bridge_ok_but K ?st1"
  proof (cases "timeout \<le> 0")
    case True
    then show ?thesis using one assms by (auto simp: sweep_heartbeat_timeout_def)
  next
    case False
    then show ?thesis
      using one by (intro sweep_effect [OF assms]) (auto simp: sweep_heartbeat_timeout_def leaves_active_def)
  qed
  moreover obtain closed reg2 where two: "sweep_stale_to_closed ?now ttl (bs_sessions ?st1) = (closed, reg2)" by fastforce
  ultimately have "bridge_ok_but K (fold (\<lambda>s. apply_session_lifecycle_effects wall ?now s ''stale_ttl_expired'') closed
      (?st1\<lparr>bs_sessions := reg2\<rparr>))"
  proof (cases "ttl \<le> 0")
    case True
    with \<open>bridge_ok_but K ?st1\<close> show ?thesis using two by (auto simp: sweep_stale_to_closed_def)
  next
    case False
    then show ?thesis
      using two by (intro sweep_effect [OF \<open>bridge_ok_but K ?st1\<close>]) (auto simp: sweep_stale_to_closed_def leaves_active_def)
  qed
  then show ?thesis by (simp add: sweep_session_lifecycle_def Let_def one two)
qed


lemma bridge_ok_drain_session:
  assumes "bridge_ok_but K st"
  shows "bridge_ok_but K (snd (drain_session_for_admin wall now0 session reason st))"
proof (cases "get_by_session (trim_space session) (bs_sessions st)")
  case (Some s)
  let ?sid = "trim_space session" and ?now = "now_or wall now0"
  have reg: "registries_ok st" and owned: "owned_except K (bs_sessions st) (bs_tunnels st)"
    using assms by (simp_all add: bridge_ok_but_def)
  define sessions where "sessions = (if sr_state s = SessionActive
      then snd (mark_session_state ?now ?sid SessionDraining (bs_sessions st)) else bs_sessions st)"
  have marked: "registries_ok (st\<lparr>bs_sessions := sessions\<rparr>) \<and> owned_except (insert ?sid K) sessions (bs_tunnels st)"
    using mark_session_effect [OF reg owned, of SessionDraining ?now ?sid] reg owned
    by (auto simp: sessions_def intro: owned_mono)
  show ?thesis
  proof (cases "?sid = []")
    case False
    let ?reason = "''admin_drain:'' @ (if trim_space reason = [] then ''admin_manual_drain'' else trim_space reason)"
    let ?st = "snd (drain_session_for_admin wall now0 session reason st)"
    have eq: "bs_sessions ?st = sessions"
        "bs_tunnels ?st = snd (purge_by_session wall ?now ?sid ?reason (bs_tunnels st))"
        "bs_reports ?st = bs_reports st"
      using False Some by (simp_all add: drain_session_for_admin_def Let_def sessions_def case_prod_unfold)
    have inv: "bridge_inv (bs_tunnels st)" using reg by (simp add: registries_ok_def)
    have "trim_space ?sid = ?sid" by simp
    from owned_purge [OF inv False this, of K sessions wall ?now ?reason] marked
      bridge_inv_purge [OF inv, of wall ?now ?sid ?reason]
    show ?thesis unfolding bridge_ok_but_def registries_ok_def eq by (simp add: registries_ok_def)
  qed (use assms in \<open>simp add: drain_session_for_admin_def\<close>)
qed (use assms in \<open>simp add: drain_session_for_admin_def Let_def\<close>)

lemma bridge_ok_drain_connector:
  assumes "bridge_ok_but K st"
  shows "bridge_ok_but K (snd (drain_connector_for_admin wall now connector reason st))"
  using assms bridge_ok_drain_session [OF assms]
  by (auto simp: drain_connector_for_admin_def Let_def split: option.split prod.split sum.split)
    (metis snd_conv)+

text \<open>A tunnel keeps its session through every call but the one that enters it.\<close>

definition keeps_owners :: "tunnel_registry \<Rightarrow> tunnel_registry \<Rightarrow> bool" where
  "keeps_owners tunnels tunnels' \<longleftrightarrow>
     (\<forall>i r. map_of (byTunnelID tunnels') i = Some r
        \<longrightarrow> (\<exists>r0. map_of (byTunnelID tunnels) i = Some r0 \<and> bt_session r0 = bt_session r))"

lemma keeps_owners_refl [simp]: "keeps_owners t t"
  by (simp add: keeps_owners_def)

lemma keeps_owners_set:
  "map_of (byTunnelID t) i = Some r0 \<Longrightarrow> bt_session r = bt_session r0 \<Longrightarrow>
   byTunnelID t' = byTunnelID (set_runtime i r t) \<Longrightarrow> keeps_owners t t'"
  by (auto simp: keeps_owners_def set_runtime_def simp del: map_of_eq_Some_iff)

lemma keeps_owners_sub:
  "keys_distinct (byTunnelID t) \<Longrightarrow> byTunnelID t' = filter P (byTunnelID t) \<Longrightarrow> keeps_owners t t'"
  unfolding keeps_owners_def by (auto dest!: map_of_SomeD)

lemma keeps_owners_acquire: "keeps_owners t (snd (acquire_from now c q t))"
proof (induction q)
  case (Cons i q)
  then show ?case
    by (auto simp: Let_def split: option.split
        intro: keeps_owners_set [where r = "r\<lparr>bt_state := BridgeTunnelReserved, bt_updated_at := now\<rparr>" for r])
qed (simp add: keeps_owners_def)

lemma keeps_owners_transition: "keeps_owners t (snd (transition_tunnel wall now i target message t))"
  by (auto simp: transition_tunnel_def Let_def keeps_owners_def simp del: map_of_eq_Some_iff split: option.split)

lemma keeps_owners_call:
  assumes "bridge_inv t" and "\<And>wall now c s u aware. call \<noteq> UpsertIdle wall now c s u aware"
  shows "keeps_owners t (bridge_exec call t)"
proof (cases call)
  case (PurgeBySession wall now s reason)
  show ?thesis
  proof (cases "trim_space s = []")
    case False
    from purge_effect [OF assms(1) this surjective_pairing] PurgeBySession show ?thesis
      by (intro keeps_owners_sub [OF bridge_inv_distinct [OF assms(1)]]) simp
  qed (simp add: PurgeBySession purge_by_session_def)
next
  case (RecycleIdleBySession wall now s limit reason)
  show ?thesis
  proof (cases "trim_space s = []")
    case False
    from recycle_effect [OF assms(1) this surjective_pairing] RecycleIdleBySession show ?thesis
      by (intro keeps_owners_sub [OF bridge_inv_distinct [OF assms(1)]]) simp
  qed (simp add: RecycleIdleBySession recycle_idle_by_session_def)
next
  case (BridgeAcquireIdle wall now c)
  then show ?thesis by (simp add: acquire_idle_tunnel_def Let_def keeps_owners_acquire)
next
  case (BridgeMarkActive wall now i traffic)
  then show ?thesis
    by (auto simp: mark_tunnel_active_def Let_def keeps_owners_def simp del: map_of_eq_Some_iff split: option.split)
next
  case (BridgeMarkIdleAfterRecycle wall now i n)
  then show ?thesis
    by (auto simp: mark_tunnel_idle_after_recycle_def Let_def keeps_owners_def simp del: map_of_eq_Some_iff
        split: option.split)
next
  case (BridgeRemoveTerminal wall i)
  then show ?thesis
    by (auto simp: remove_terminal_tunnel_def Let_def keeps_owners_def simp del: map_of_eq_Some_iff
        split: option.split)
qed (use assms(2) in \<open>auto simp: keeps_owners_transition mark_tunnel_closed_def mark_tunnel_broken_def\<close>)

lemma bridge_ok_tunnels:
  assumes "bridge_ok_but K st" and "bridge_inv tunnels" and "keeps_owners (bs_tunnels st) tunnels"
  shows "bridge_ok_but K (st\<lparr>bs_tunnels := tunnels\<rparr>)"
proof -
  have "owned_except K (bs_sessions st) tunnels"
    using assms(1,3) unfolding bridge_ok_but_def owned_except_def keeps_owners_def by metis
  then show ?thesis using assms(1,2) by (simp add: bridge_ok_but_def registries_ok_def)
qed

lemma bridge_ok_recycle_accepted:
  assumes "bridge_ok_but K st"
  shows "bridge_ok_but K (recycle_accepted_idle_tunnel wall now raw_id binding cause raw_err st)"
proof -
  have inv: "bridge_inv (bs_tunnels st)" using assms by (simp add: bridge_ok_but_def registries_ok_def)
  have one: "bridge_ok_but K (st\<lparr>bs_tunnels := snd (mark_tunnel_broken wall now i msg (bs_tunnels st))\<rparr>)" for i msg
    using bridge_inv_exec [OF inv, of "BridgeMarkBroken wall now i msg"] keeps_owners_call [OF inv, of "BridgeMarkBroken wall now i msg"]
    by (intro bridge_ok_tunnels [OF assms]) simp_all
  have two: "bridge_ok_but K (st\<lparr>bs_tunnels := snd (remove_terminal_tunnel wall j
      (snd (mark_tunnel_broken wall now i msg (bs_tunnels st))))\<rparr>)" for i j msg
  proof -
    let ?st = "st\<lparr>bs_tunnels := snd (mark_tunnel_broken wall now i msg (bs_tunnels st))\<rparr>"
    have inv': "bridge_inv (bs_tunnels ?st)" using one [of i msg] by (simp only: bridge_ok_but_def registries_ok_def)
    have "bridge_ok_but K (?st\<lparr>bs_tunnels := snd (remove_terminal_tunnel wall j (bs_tunnels ?st))\<rparr>)"
      using bridge_inv_exec [OF inv', of "BridgeRemoveTerminal wall j"]
        keeps_owners_call [OF inv', of "BridgeRemoveTerminal wall j"]
      by (intro bridge_ok_tunnels [OF one]) simp_all
    then show ?thesis by simp
  qed
  show ?thesis
    using assms one two
    by (auto simp: recycle_accepted_idle_tunnel_def Let_def case_prod_unfold split: option.split)
qed


lemma fold_better_owner: "fold better_owner ss s \<in> insert s (set ss)"
proof (induction ss arbitrary: s)
  case (Cons t ss)
  have "better_owner t s \<in> {t, s}" by (simp add: better_owner_def)
  with Cons.IH [of "better_owner t s"] show ?case by auto
qed simp

lemma owner_candidates_active:
  assumes "session_ok reg" and "s \<in> set (owner_candidates reg)"
  shows "session_active reg (sr_session s) \<and> trim_space (sr_session s) = sr_session s"
proof -
  obtain k s0 where mem: "(k, s0) \<in> set (bySessionID reg)" "sr_state s0 = SessionActive"
      "sr_session s = trim_space (sr_session s0)"
    using assms(2) by (auto simp: owner_candidates_def list_sessions_def)
  have "keys_distinct (bySessionID reg)" using assms(1) sessions_invD(1) by (simp add: session_ok_def)
  then have s0: "map_of (bySessionID reg) k = Some s0" using mem(1) by (rule map_of_is_SomeI)
  from session_okD [OF assms(1) s0] show ?thesis using s0 mem(2,3) unfolding session_active_def by auto
qed

lemma resolve_single_active:
  assumes ok: "session_ok reg" and res: "resolve_single_active_session_owner reg = Some (c, sid, epoch)"
  shows "session_active reg sid \<and> trim_space sid = sid"
proof -
  obtain s0 ss where cand: "owner_candidates reg = s0 # ss"
    using res by (auto simp: resolve_single_active_session_owner_def split: list.splits)
  have best: "session_active reg (sr_session (fold better_owner ss s0))
      \<and> trim_space (sr_session (fold better_owner ss s0)) = sr_session (fold better_owner ss s0)"
    using fold_better_owner [of ss s0] by (intro owner_candidates_active [OF ok]) (simp add: cand)
  have current: "session_active reg (trim_space (sr_session s))"
    if cur: "get_by_connector (sr_connector s0) reg = Some s" "sr_state s = SessionActive" for s
  proof -
    obtain k where k: "map_of (bySessionID reg) k = Some s"
      using cur(1) by (auto simp: get_by_connector_def current_session_def simp del: map_of_eq_Some_iff split: option.splits)
    then show ?thesis using session_okD [OF ok k] cur(2) unfolding session_active_def by simp
  qed
  show ?thesis
    using res cand best current
    by (auto simp: resolve_single_active_session_owner_def Let_def simp del: map_of_eq_Some_iff
        split: option.splits if_splits)
qed

lemma first_found_mem: "first_found f polls = Some r \<Longrightarrow> \<exists>s \<in> set polls. f s = Some r"
  by (induction polls) (auto split: option.splits)

lemma session_owner_active: "session_owner sid epoch reg = Some c \<Longrightarrow> session_active reg sid"
  by (auto simp: session_owner_def get_by_session_def session_active_def simp del: map_of_eq_Some_iff
      split: option.splits if_splits)

text \<open>The owner of a tunnel was active in one of the registries that were polled.\<close>

lemma accepted_owner_active:
  assumes ok: "\<And>reg. reg \<in> set polls \<Longrightarrow> session_ok reg"
    and res: "resolve_accepted_tunnel_owner t binding polls = Some (c, sid, epoch)"
  shows "(\<exists>reg \<in> set polls. session_active reg sid) \<and> trim_space sid = sid"
proof (cases "\<exists>polls'. set polls' \<subseteq> set polls \<and> first_found resolve_single_active_session_owner polls' = Some (c, sid, epoch)")
  case True
  then obtain polls' where sub: "set polls' \<subseteq> set polls"
    and found: "first_found resolve_single_active_session_owner polls' = Some (c, sid, epoch)" by (elim exE conjE)
  from first_found_mem [OF found] obtain reg where reg: "reg \<in> set polls'"
    and one: "resolve_single_active_session_owner reg = Some (c, sid, epoch)" by (rule bexE)
  from sub reg have mem: "reg \<in> set polls" by (rule subsetD)
  from resolve_single_active [OF ok [OF mem] one] mem show ?thesis by (intro conjI bexI) simp_all
next
  case False
  have not: "first_found resolve_single_active_session_owner polls' \<noteq> Some (c, sid, epoch)" if "set polls' \<subseteq> set polls" for polls'
    using False that by blast
  have "resolve_tunnel_owner_by_session_meta t polls = Some (c, sid, epoch)"
    using res not [of polls] not [OF set_take_subset]
    by (simp add: resolve_accepted_tunnel_owner_def split: if_splits option.splits)
  then have found: "first_found (session_owner (trim_space (it_session t)) (it_epoch t)) polls = Some c"
      and sid: "sid = trim_space (it_session t)"
    by (simp_all add: resolve_tunnel_owner_by_session_meta_def wait_session_owner_def split: if_splits option.splits)
  then obtain reg where "reg \<in> set polls" "session_active reg sid"
    using first_found_mem [OF found] session_owner_active by blast
  then show ?thesis using sid by auto
qed

lemma bridge_ok_register_owner:
  assumes st: "bridge_ok_but K st" and active: "sid \<in> K \<or> session_active (bs_sessions st) sid" and trimmed: "trim_space sid = sid"
  shows "bridge_ok_but K (snd (register_accepted_tunnel_with_owner wall now raw binding c sid i st))"
proof -
  let ?t = "runtime_bridge_tunnel_adapter raw i"
  let ?tunnels = "snd (upsert_idle wall now (trim_space c) sid ?t (Some binding) (bs_tunnels st))"
  have inv: "bridge_inv ?tunnels"
    using bridge_inv_exec [of "bs_tunnels st" "UpsertIdle wall now (trim_space c) sid ?t (Some binding)"] st
    by (simp add: bridge_ok_but_def registries_ok_def)
  have "owned_except K (bs_sessions st) ?tunnels"
    using st active trimmed
    by (auto simp: bridge_ok_but_def owned_except_def upsert_idle_def Let_def set_idle_queue_def set_runtime_def
        simp del: map_of_eq_Some_iff)
  with st inv have "bridge_ok_but K (st\<lparr>bs_tunnels := ?tunnels\<rparr>)" by (simp add: bridge_ok_but_def registries_ok_def)
  then show ?thesis
    using st trimmed
    by (auto simp: register_accepted_tunnel_with_owner_def Let_def split: prod.split sum.split)
qed

lemma bridge_ok_register:
  assumes "bridge_ok_but K st"
  shows "bridge_ok_but K (snd (register_accepted_tunnel wall now t binding [bs_sessions st] st))"
proof -
  have so: "session_ok (bs_sessions st)" using assms by (simp add: bridge_ok_but_def registries_ok_def)
  show ?thesis
    using assms accepted_owner_active [of "[bs_sessions st]"] so
    by (auto simp: register_accepted_tunnel_def intro!: bridge_ok_register_owner split: option.split)
qed

lemma bridge_ok_register_tcp:
  assumes "bridge_ok_but K st"
  shows "bridge_ok_but K (snd (handle_accepted_tcp_tunnel wall now (bs_sessions st) handshake opened st))"
proof -
  have so: "session_ok (bs_sessions st)" using assms by (simp add: bridge_ok_but_def registries_ok_def)
  show ?thesis
    using assms resolve_single_active [OF so]
    by (auto simp: handle_accepted_tcp_tunnel_def bridge_ok_register_owner split: option.split sum.split)
qed


section \<open>Properties\<close>

text \<open>
  The steps of the bridge, each run to its end before the next one: messages, the end of a
  connection, the periodic sweep, the administrator, the acceptors of tunnels, the dispatcher's
  calls on the tunnel registry, and the handlers that leave sessions and tunnels alone.
\<close>

inductive bridge_step :: "bridge_state \<Rightarrow> bridge_state \<Rightarrow> bool" where
  commit: "bridge_step st (commit_authenticated_session wall now runtime version st)"
| envelope: "bridge_step st (upsert_session_from_envelope wall now env st)"
| auth_ack: "bridge_step st (apply_auth_ack_session wall now env ack st)"
| heartbeat: "bridge_step st (handle_heartbeat wall now env beat st)"
| refresh: "bridge_step st (refresh_session_heartbeat now session epoch st)"
| connection_failed: "bridge_step st (transition_session_state wall now session epoch SessionFailed reason st)"
| connection_closed: "bridge_step st (transition_session_state wall now session epoch SessionClosed reason st)"
| sweep: "bridge_step st (sweep_session_lifecycle wall now timeout ttl st)"
| drain_session: "bridge_step st (snd (drain_session_for_admin wall now session reason st))"
| drain_connector: "bridge_step st (snd (drain_connector_for_admin wall now connector reason st))"
| full_sync: "bridge_step st (apply_full_sync_snapshot wall now snap st)"
| tunnel: "bridge_step st (snd (register_accepted_tunnel wall now t binding [bs_sessions st] st))"
| tcp_tunnel: "bridge_step st (snd (handle_accepted_tcp_tunnel wall now (bs_sessions st) handshake opened st))"
| tunnel_ended: "bridge_step st (recycle_accepted_idle_tunnel wall now i binding cause raw_err st)"
| tunnel_call: "(\<And>w n c s u a. call \<noteq> UpsertIdle w n c s u a) \<Longrightarrow>
    bridge_step st (st\<lparr>bs_tunnels := bridge_exec call (bs_tunnels st)\<rparr>)"
| report_call: "bridge_step st (st\<lparr>bs_reports := report_exec unix rcall (bs_reports st)\<rparr>)"
| resources: "bs_sessions st' = bs_sessions st \<Longrightarrow> bs_tunnels st' = bs_tunnels st \<Longrightarrow>
    bs_reports st' = bs_reports st \<Longrightarrow> bridge_step st st'"

lemma bridge_ok_step:
  assumes "bridge_step st st'" and "bridge_ok_but K st"
  shows "bridge_ok_but K st'"
  using assms
proof (induction rule: bridge_step.induct)
  case (tunnel_call call st)
  have inv: "bridge_inv (bs_tunnels st)" using tunnel_call.prems by (simp add: bridge_ok_but_def registries_ok_def)
  show ?case
    by (rule bridge_ok_tunnels [OF tunnel_call.prems bridge_inv_exec [OF inv]
        keeps_owners_call [OF inv tunnel_call.hyps]])
next
  case (report_call st unix rcall)
  have "reports_ok (report_exec unix rcall (bs_reports st))"
    using report_call by (cases rcall) (simp_all add: bridge_ok_but_def registries_ok_def reports_ok_upsert reports_ok_remove)
  then show ?case using report_call by (simp add: bridge_ok_but_def registries_ok_def)
qed (simp_all add: bridge_ok_commit bridge_ok_envelope bridge_ok_heartbeat bridge_ok_refresh bridge_ok_transition
    leaves_active_def bridge_ok_sweep bridge_ok_drain_session bridge_ok_drain_connector bridge_ok_register
    bridge_ok_register_tcp bridge_ok_recycle_accepted apply_full_sync_snapshot_def
    bridge_ok_but_def [of KK "st\<lparr>bs_services := a, bs_routes := b, bs_guard := c, lastSessionEpoch := d, lastResourceVer := e\<rparr>" for KK st a b c d e]
    registries_ok_def [of "st\<lparr>bs_services := a, bs_routes := b, bs_guard := c, lastSessionEpoch := d, lastResourceVer := e\<rparr>" for st a b c d e],
    simp_all add: bridge_ok_but_def registries_ok_def)

lemma bridge_ok_reachable: "bridge_step\<^sup>*\<^sup>* (new_bridge_state window) st \<Longrightarrow> bridge_ok st"
  by (induction rule: rtranclp_induct) (use bridge_ok_new bridge_ok_step in blast)+

text \<open>
  C20. Every tunnel belongs to an active session: whatever messages, ended connections, sweeps,
  administrative drains and incoming tunnels the bridge handles, one after the other, each
  tunnel of the registry, in use or idle, belongs to a session that is registered and active.
\<close>

theorem tunnels_belong_to_active_sessions:
  assumes "bridge_step\<^sup>*\<^sup>* (new_bridge_state window) st"
    and "get_tunnel i (bs_tunnels st) = Some r"
  shows "\<exists>s. get_by_session (bt_session r) (bs_sessions st) = Some s \<and> sr_state s = SessionActive
    \<and> sr_session s = bt_session r"
proof -
  have ok: "bridge_ok st" using assms(1) by (rule bridge_ok_reachable)
  then have so: "session_ok (bs_sessions st)" by (simp add: bridge_ok_but_def registries_ok_def)
  have "map_of (byTunnelID (bs_tunnels st)) (trim_space i) = Some r"
    using assms(2) by (simp add: get_tunnel_def Let_def split: if_splits)
  then have "session_active (bs_sessions st) (bt_session r)"
    using ok owned_exceptD by (fastforce simp: bridge_ok_but_def)
  then obtain s where s: "map_of (bySessionID (bs_sessions st)) (bt_session r) = Some s" "sr_state s = SessionActive"
    unfolding session_active_def by blast
  with session_okD(1) [OF so s(1)] show ?thesis unfolding get_by_session_def by blast
qed


text \<open>Marking a life cycle changes instances only where it says so.\<close>

lemma recalculate_instances:
  "map (sis_instance \<circ> snd) (instances (recalculate_service sid reg)) = map (sis_instance \<circ> snd) (instances reg)"
  by (simp add: recalculate_service_def share_service_def Let_def comp_def case_prod_unfold split: option.split)

lemma recalculate_fold_instances:
  "map (sis_instance \<circ> snd) (instances (fold recalculate_service sids reg)) = map (sis_instance \<circ> snd) (instances reg)"
  by (induction sids arbitrary: reg) (simp_all add: recalculate_instances)

lemma mark_lifecycle_instances:
  assumes "trim_space connector \<noteq> []"
  shows "map sis_instance (list_instances (snd (mark_lifecycle wall now connector session status health reg)))
    = map (\<lambda>r. if of_runtime (trim_space connector) (trim_space session) r
                then (sis_instance r)\<lparr>si_status := status, si_health := health\<rparr> else sis_instance r) (list_instances reg)"
  using assms
  by (simp add: mark_lifecycle_def Let_def list_instances_def recalculate_fold_instances comp_def case_prod_unfold
      if_distrib [of sis_instance] cong: if_cong)
    (simp add: recalculate_fold_instances [unfolded comp_def] comp_def case_prod_unfold if_distrib [of sis_instance]
      cong: if_cong)

lemma effects_withdraw:
  assumes "leaves_active (sr_state s)" and "is_current_connector_session s (bs_sessions st)"
    and "inst \<in> set (map sis_instance (list_instances (bs_services (apply_session_lifecycle_effects wall now s reason st))))"
    and "trim_space (si_connector inst) = trim_space (sr_connector s)"
    and "trim_space (si_session inst) = trim_space (sr_session s)"
  shows "si_status inst \<in> {ServiceStatusInactive, ServiceStatusStale} \<and> si_health inst = HealthStatusUnknown"
proof -
  obtain status where status: "status \<in> {ServiceStatusInactive, ServiceStatusStale}"
    and eq: "bs_services (apply_session_lifecycle_effects wall now s reason st) =
      snd (mark_lifecycle wall now (sr_connector s) (sr_session s) status HealthStatusUnknown (bs_services st))"
    using assms(1,2)
    by (cases "sr_state s")
      (auto simp: leaves_active_def apply_session_lifecycle_effects_def withdraw_session_def Let_def)
  have "trim_space (sr_connector s) \<noteq> []" using assms(2) by (simp add: is_current_connector_session_def)
  have "inst \<in> (\<lambda>r. if of_runtime (trim_space (sr_connector s)) (trim_space (sr_session s)) r
        then (sis_instance r)\<lparr>si_status := status, si_health := HealthStatusUnknown\<rparr> else sis_instance r)
      ` set (list_instances (bs_services st))"
    using assms(3) [unfolded eq mark_lifecycle_instances [OF \<open>trim_space (sr_connector s) \<noteq> []\<close>]] by (simp only: set_map)
  then obtain r where
    r: "inst = (if of_runtime (trim_space (sr_connector s)) (trim_space (sr_session s)) r
        then (sis_instance r)\<lparr>si_status := status, si_health := HealthStatusUnknown\<rparr> else sis_instance r)"
    by (rule imageE)
  show ?thesis
    using assms(4,5) status unfolding r by (auto simp: of_runtime_def split: if_splits)
qed


definition sample_bridge :: bridge_state where
  "sample_bridge = commit_authenticated_session 1 1 (sample_session_runtime ''s'' 1) 0 (new_bridge_state 8)"

definition sample_incoming :: incoming_tunnel where
  "sample_incoming = \<lparr>it_tunnel = \<lparr>tunnel_object = 0, tunnel_id = ''t''\<rparr>, it_session = ''s'', it_epoch = 1,
     it_id_source = ''stream_metadata''\<rparr>"

lemma trim_tunnel_samples:
  "trim_space ''t'' = ''t''" "trim_space ''stream_metadata'' = ''stream_metadata''"
  "trim_space ''tcp_framed'' = ''tcp_framed''" "trim_space ''grpc_h2'' = ''grpc_h2''"
  by (rule trim_space_graphic; simp add: graphic_def)+

lemma sample_bridge_eq:
  "sample_bridge = (new_bridge_state 8)\<lparr>bs_sessions :=
     \<lparr>bySessionID = [(''s'', (sample_session_runtime ''s'' 1)\<lparr>sr_heartbeat := 1, sr_updated_at := 1\<rparr>)],
      byConnector = [(''c'', ''s'')]\<rparr>, lastSessionID := ''s'', lastSessionEpoch := 1, lastResourceVer := 0\<rparr>"
  by (simp add: sample_bridge_def commit_authenticated_session_def complete_session_def new_bridge_state_def session_run
      get_by_session_def mark_reconnect_baseline_def trim_tunnel_samples)

lemma sample_reachable: "bridge_step\<^sup>*\<^sup>* (new_bridge_state 8) sample_bridge"
  unfolding sample_bridge_def by (rule r_into_rtranclp) (rule bridge_step.commit)

lemma sample_tunnel:
  "get_tunnel ''t'' (bs_tunnels (snd (register_accepted_tunnel 2 2 sample_incoming BindingTypeGRPCH2
     [bs_sessions sample_bridge] st))) \<noteq> None \<longleftrightarrow>
   get_tunnel ''t'' (bs_tunnels (snd (register_accepted_tunnel_with_owner 2 2 (it_tunnel sample_incoming)
     BindingTypeGRPCH2 ''c'' ''s'' ''t'' st))) \<noteq> None"
  by (simp add: register_accepted_tunnel_def resolve_accepted_tunnel_owner_def resolve_tunnel_owner_by_session_meta_def
      wait_session_owner_def session_owner_def get_by_session_def sample_bridge_eq sample_incoming_def
      sample_session_runtime_def trim_session_ids trim_tunnel_samples)

theorem tunnels_belong_to_active_sessions_witness:
  "\<exists>(st :: bridge_state) r s. get_tunnel ''t'' (bs_tunnels st) = Some r \<and> get_by_session (bt_session r) (bs_sessions st) = Some s
     \<and> sr_state s = SessionActive"
proof -
  define st where
    "st = snd (register_accepted_tunnel 2 2 sample_incoming BindingTypeGRPCH2 [bs_sessions sample_bridge] sample_bridge)"
  have step: "bridge_step\<^sup>*\<^sup>* (new_bridge_state 8) st"
    unfolding st_def using sample_reachable bridge_step.tunnel by (rule rtranclp.rtrancl_into_rtrancl)
  have "get_tunnel ''t'' (bs_tunnels st) \<noteq> None"
    unfolding st_def sample_tunnel
    by (simp add: register_accepted_tunnel_with_owner_def upsert_idle_def runtime_bridge_tunnel_adapter_def Let_def
        sample_bridge_eq sample_incoming_def new_bridge_state_def new_tunnel_registry_def set_idle_queue_def
        set_runtime_def get_tunnel_def trim_session_ids trim_tunnel_samples)
  then obtain r where r: "get_tunnel ''t'' (bs_tunnels st) = Some r" by blast
  from tunnels_belong_to_active_sessions [OF step this]
  show ?thesis using r by blast
qed

text \<open>
  A session that leaves the active state is withdrawn: when a heartbeat, the end of its
  connection or a sweep moves it on, the registry shows the new state, its tunnels are gone and
  all other tunnels stay, its pool report is gone, and, if it was the connector's current
  session, none of its service instances counts as active or healthy any more.
\<close>

theorem session_withdrawn:
  assumes reach: "bridge_step\<^sup>*\<^sup>* (new_bridge_state window) st"
    and s: "get_by_session sid (bs_sessions st) = Some s" and epoch: "epoch = 0 \<or> epoch = sr_epoch s"
    and target: "target \<in> {SessionDraining, SessionStale, SessionFailed, SessionClosed}" "sr_state s \<noteq> target"
    and st': "st' = transition_session_state wall now sid epoch target reason st"
  shows "get_by_session sid (bs_sessions st') = Some (s\<lparr>sr_state := target, sr_updated_at := now\<rparr>)
    \<and> (\<forall>i r. get_tunnel i (bs_tunnels st') = Some r \<longleftrightarrow> get_tunnel i (bs_tunnels st) = Some r \<and> bt_session r \<noteq> sid)
    \<and> (\<forall>c r. map_of (reportByConnector (bs_reports st')) c = Some r
          \<longrightarrow> trim_space (rr_session r) \<noteq> sid \<or> rr_epoch r \<noteq> sr_epoch s)
    \<and> (\<forall>inst \<in> set (map sis_instance (list_instances (bs_services st'))).
          get_by_connector (trim_space (sr_connector s)) (bs_sessions st) = Some s \<and> trim_space (sr_connector s) \<noteq> []
          \<and> trim_space (si_connector inst) = trim_space (sr_connector s) \<and> trim_space (si_session inst) = sid
          \<longrightarrow> \<not> is_active inst \<and> \<not> is_healthy inst)"
proof -
  have ok: "bridge_ok st" using reach by (rule bridge_ok_reachable)
  then have so: "session_ok (bs_sessions st)" and ids: "ids_valid (bs_sessions st)" and inv: "bridge_inv (bs_tunnels st)"
    and rep: "reports_ok (bs_reports st)" and owned: "owned_except {} (bs_sessions st) (bs_tunnels st)"
    by (simp_all add: bridge_ok_but_def registries_ok_def)
  have key: "sr_session s = sid" "trim_space sid = sid" "sid \<noteq> []" "sr_epoch s \<noteq> 0"
    using session_okD [OF so] ids s by (auto simp: get_by_session_def ids_valid_def simp del: map_of_eq_Some_iff)
  define sessions where "sessions = snd (mark_session_state now sid target (bs_sessions st))"
  let ?s = "s\<lparr>sr_state := target, sr_updated_at := now\<rparr>"
  let ?st1 = "st\<lparr>bs_sessions := sessions\<rparr>"
  have "fst (mark_session_state now sid target (bs_sessions st))"
    using s by (simp add: mark_session_state_def get_by_session_def)
  then have eq: "st' = apply_session_lifecycle_effects wall now ?s reason ?st1"
    using s epoch target key unfolding st' sessions_def
    by (auto simp: transition_session_state_def Let_def case_prod_unfold)
  have leaves: "leaves_active (sr_state ?s)" using target by (simp add: leaves_active_def)
  have sess: "bs_sessions st' = sessions" by (simp add: eq)
  have new: "get_by_session sid sessions = Some ?s"
    using s by (simp add: sessions_def mark_session_state_def get_by_session_def)
  obtain reason' where tun: "bs_tunnels st' = snd (purge_by_session wall now sid reason' (bs_tunnels st))"
    using effects_tunnels [OF leaves, of wall now reason ?st1] key eq by auto
  have sid: "trim_space sid \<noteq> []" using key by simp
  have filter: "byTunnelID (bs_tunnels st') = filter (\<lambda>(i, r). \<not> in_session sid r) (byTunnelID (bs_tunnels st))"
    using purge_effect [OF inv sid surjective_pairing, of wall now reason'] key(2) unfolding tun by simp
  have trimmed: "trim_space (bt_session r) = bt_session r" if "map_of (byTunnelID (bs_tunnels st)) i = Some r" for i r
    using owned_exceptD [OF owned that] session_okD(2) [OF so] by (auto simp: session_active_def simp del: map_of_eq_Some_iff)
  have tunnels: "get_tunnel i (bs_tunnels st') = Some r \<longleftrightarrow> get_tunnel i (bs_tunnels st) = Some r \<and> bt_session r \<noteq> sid" for i r
    using trimmed bridge_inv_distinct [OF inv]
    by (auto simp: get_tunnel_def Let_def filter map_of_filter_key in_session_def simp del: map_of_eq_Some_iff
        split: option.splits if_splits)
  have reports: "bs_reports st' = remove_report_by_session sid (sr_epoch s) (bs_reports st)"
    using leaves key(1) unfolding eq
    by (cases target) (auto simp: leaves_active_def apply_session_lifecycle_effects_def withdraw_session_def Let_def)
  have rep': "reports_ok (bs_reports st')" unfolding reports using rep by (rule reports_ok_remove)
  have gone: "map_of (connectorBySessionKey (bs_reports st')) (report_session_key sid (sr_epoch s)) = None"
    using key unfolding reports by (auto simp: remove_report_by_session_def Let_def split: option.split)
  have noreport: "trim_space (rr_session r) \<noteq> sid \<or> rr_epoch r \<noteq> sr_epoch s"
    if "map_of (reportByConnector (bs_reports st')) c = Some r" for c r
    using reports_okD(2) [OF rep' that] gone key(2) report_session_key_inject [of "rr_session r" "rr_epoch r" sid "sr_epoch s"]
    by (auto simp: report_key_def)
  have current: "is_current_connector_session ?s sessions"
    if "get_by_connector (trim_space (sr_connector s)) (bs_sessions st) = Some s" "trim_space (sr_connector s) \<noteq> []"
    using that key s
    by (auto simp: is_current_connector_session_def get_by_connector_def current_session_def sessions_def
        mark_session_state_def get_by_session_def simp del: map_of_eq_Some_iff split: option.splits)
  have services: "\<not> is_active inst \<and> \<not> is_healthy inst"
    if "inst \<in> set (map sis_instance (list_instances (bs_services st')))"
      "get_by_connector (trim_space (sr_connector s)) (bs_sessions st) = Some s" "trim_space (sr_connector s) \<noteq> []"
      "trim_space (si_connector inst) = trim_space (sr_connector s)" "trim_space (si_session inst) = sid" for inst
    using effects_withdraw [OF leaves, of ?st1 inst wall now reason] current [OF that(2,3)] that key eq
    by (auto simp: is_active_def is_healthy_def)
  show ?thesis unfolding sess using new tunnels noreport services by blast
qed


theorem session_withdrawn_witness:
  "map_option sr_state (get_by_session ''s'' (bs_sessions
     (transition_session_state 2 2 ''s'' 1 SessionClosed ''agent_stop'' sample_bridge))) = Some SessionClosed"
proof -
  obtain s where s: "get_by_session ''s'' (bs_sessions sample_bridge) = Some s" "sr_epoch s = 1" "sr_state s = SessionActive"
    by (simp add: sample_bridge_eq get_by_session_def sample_session_runtime_def)
  have "(1 :: 64 word) = 0 \<or> 1 = sr_epoch s" "SessionClosed \<in> {SessionDraining, SessionStale, SessionFailed, SessionClosed}"
    "sr_state s \<noteq> SessionClosed" using s by simp_all
  from conjunct1 [OF session_withdrawn [OF sample_reachable s(1) this refl, of 2 2 "''agent_stop''"]]
  show ?thesis by simp
qed

text \<open>
  The operations are not one section, though: the owner of a TCP tunnel is resolved before the
  handshake of the tunnel is read. When its session is closed in between, the tunnel is entered
  for a closed session, behind the purge that should have caught it.
\<close>

lemma late_tunnel_outlives_session:
  assumes reach: "bridge_step\<^sup>*\<^sup>* (new_bridge_state window) st"
    and owner: "resolve_single_active_session_owner (bs_sessions st) = Some (c, sid, epoch)" "trim_space c \<noteq> []"
    and closed: "st1 = transition_session_state wall now sid 0 SessionClosed reason st"
    and h: "trim_space (td_tunnel h) = i" "i \<noteq> []" "trim_space (td_session h) \<in> {[], sid}" "td_epoch h \<in> {0, epoch}"
    and free: "get_tunnel i (bs_tunnels st) = None"
    and late: "handle_accepted_tcp_tunnel wall now (bs_sessions st) (Some h) (Inr raw) st1 = (res, st2)"
  shows "\<exists>r. res = TunnelRegistered r \<and> get_tunnel i (bs_tunnels st2) = Some r \<and> bt_session r = sid
    \<and> map_option sr_state (get_by_session sid (bs_sessions st2)) = Some SessionClosed"
proof -
  have ok: "bridge_ok st" using reach by (rule bridge_ok_reachable)
  then have so: "session_ok (bs_sessions st)" and ids: "ids_valid (bs_sessions st)" and inv: "bridge_inv (bs_tunnels st)"
    by (simp_all add: bridge_ok_but_def registries_ok_def)
  note act = resolve_single_active [OF so owner(1)]
  obtain s where s: "map_of (bySessionID (bs_sessions st)) sid = Some s" "sr_state s = SessionActive"
    using act by (auto simp: session_active_def)
  have sid: "sid \<noteq> []" "trim_space sid = sid" "sr_session s = sid"
    using ids s act session_okD(1) [OF so s(1)] by (auto simp: ids_valid_def)
  have "fst (mark_session_state now sid SessionClosed (bs_sessions st))" using s by (simp add: mark_session_state_def)
  then have st1: "st1 = apply_session_lifecycle_effects wall now (s\<lparr>sr_state := SessionClosed, sr_updated_at := now\<rparr>) reason
      (st\<lparr>bs_sessions := snd (mark_session_state now sid SessionClosed (bs_sessions st))\<rparr>)"
    using s sid unfolding closed by (simp add: transition_session_state_def get_by_session_def Let_def case_prod_unfold)
  have now_closed: "map_option sr_state (get_by_session sid (bs_sessions st1)) = Some SessionClosed"
    using s by (simp add: st1 mark_session_state_def get_by_session_def)
  obtain reason' where tun: "bs_tunnels st1 = snd (purge_by_session wall now sid reason' (bs_tunnels st))"
    using effects_tunnels [of "s\<lparr>sr_state := SessionClosed, sr_updated_at := now\<rparr>" wall now reason
        "st\<lparr>bs_sessions := snd (mark_session_state now sid SessionClosed (bs_sessions st))\<rparr>"] sid
    by (auto simp: leaves_active_def st1)
  have trimmed: "trim_space i = i" using h(1) by auto
  have "keeps_owners (bs_tunnels st) (bs_tunnels st1)"
    using keeps_owners_call [OF inv, of "PurgeBySession wall now sid reason'"] by (simp add: tun)
  then have kept: "map_of (byTunnelID (bs_tunnels st1)) i = Some r \<Longrightarrow> map_of (byTunnelID (bs_tunnels st)) i \<noteq> None" for r
    unfolding keeps_owners_def by blast
  have "map_of (byTunnelID (bs_tunnels st)) i = None" using free h(2) trimmed by (simp add: get_tunnel_def Let_def)
  then have none: "map_of (byTunnelID (bs_tunnels st1)) i = None"
    using kept by (cases "map_of (byTunnelID (bs_tunnels st1)) i") blast+
  have "register_accepted_tunnel_with_owner wall now raw BindingTypeTCPFramed c sid i st1 = (res, st2)"
    using late owner h sid by (auto simp: handle_accepted_tcp_tunnel_def)
  then show ?thesis
    using owner(2) h(2) trimmed sid none now_closed
    by (auto simp: register_accepted_tunnel_with_owner_def upsert_idle_def runtime_bridge_tunnel_adapter_def Let_def
        set_idle_queue_def set_runtime_def get_tunnel_def)
qed

end
