(* ===== verification/Bridge_Auth.thy ===== *)
theory Bridge_Auth
  imports Token_Store Handshake_Guard Bridge_Lifecycle
begin

text \<open>
  The authentication of a connector
  (\<open>cloud-bridge/runtime/bridge/auth/control_auth.go\<close>): the checks in their fixed order, the limit on
  how often a connector may take over from itself, and the commit of the new session. The lock per
  connector makes one authentication one step. Metrics are not modelled.

  The token store (\<open>lookup\<close>) and the comparison of secrets (\<open>verify\<close>) are those of \<open>Token_Store\<close>;
  \<open>now\<close> and \<open>session_id\<close> are the answers of the clock and of the generator of session identifiers.
\<close>

section \<open>The coordinator\<close>

record auth_coordinator =
  ac_window :: duration
  ac_limit :: int
  ac_history :: "(string, gotime list) gomap"

definition new_auth_coordinator :: "duration \<Rightarrow> int \<Rightarrow> auth_coordinator" where
  "new_auth_coordinator window limit =
     \<lparr>ac_window = (if window \<le> 0 then 60000000000 else window), ac_limit = (if limit \<le> 0 then 3 else limit), ac_history = []\<rparr>"

record auth_request =
  aq_connector :: string
  aq_epoch :: "64 word"
  aq_method :: string
  aq_token :: string

record auth_result =
  ar_success :: bool
  ar_session :: string
  ar_epoch :: "64 word"
  ar_code :: string
  ar_message :: string

record 's auth_env =
  ae_lookup :: "string \<Rightarrow> 's \<Rightarrow> token_record option"
  ae_verify :: "string \<Rightarrow> string \<Rightarrow> string + bool"
  ae_store :: 's
  ae_now :: gotime
  ae_session_id :: string

definition auth_failed :: "string \<Rightarrow> string \<Rightarrow> auth_result" where
  "auth_failed code message =
     \<lparr>ar_success = False, ar_session = [], ar_epoch = 0, ar_code = code, ar_message = message\<rparr>"

definition prune_supersede_history :: "string \<Rightarrow> gotime \<Rightarrow> auth_coordinator \<Rightarrow> gotime list \<times> auth_coordinator" where
  "prune_supersede_history connector now ac =
     (let c = trim_space connector
      in if c = [] then ([], ac)
         else
           let cutoff = now - ac_window ac;
               history = (case map_of (ac_history ac) c of None \<Rightarrow> [] | Some h \<Rightarrow> h)
           in if history = [] then ([], ac)
              else
                let kept = filter (\<lambda>t. \<not> t < cutoff) history
                in if kept = [] then ([], ac\<lparr>ac_history := map_del c (ac_history ac)\<rparr>)
                   else (kept, ac\<lparr>ac_history := map_put c kept (ac_history ac)\<rparr>))"

definition is_supersede_rate_limited :: "string \<Rightarrow> gotime \<Rightarrow> auth_coordinator \<Rightarrow> bool \<times> auth_coordinator" where
  "is_supersede_rate_limited connector now ac =
     (let (history, ac') = prune_supersede_history connector now ac in (int (length history) \<ge> ac_limit ac', ac'))"

definition record_successful_supersede :: "string \<Rightarrow> gotime \<Rightarrow> auth_coordinator \<Rightarrow> auth_coordinator" where
  "record_successful_supersede connector now ac =
     (let c = trim_space connector
      in if c = [] then ac
         else let (history, ac') = prune_supersede_history c now ac
              in ac'\<lparr>ac_history := map_put c (history @ [now]) (ac_history ac')\<rparr>)"

text \<open>A session that is over: its connector may be taken over whatever its epoch.\<close>

definition session_over :: "session_runtime \<Rightarrow> bool" where
  "session_over s \<longleftrightarrow> sr_state s = SessionStale \<or> sr_state s = SessionFailed \<or> sr_state s = SessionClosed"

definition is_supersede_attempt :: "session_runtime option \<Rightarrow> bool" where
  "is_supersede_attempt current \<longleftrightarrow>
     (case current of
        None \<Rightarrow> False
      | Some s \<Rightarrow> trim_space (sr_session s) \<noteq> [] \<and> sr_epoch s > 0
                  \<and> (sr_state s = SessionActive \<or> sr_state s = SessionDraining))"

text \<open>The checks before the registry is looked at: an error, or the trimmed connector.\<close>

definition check_credentials :: "'s auth_env \<Rightarrow> auth_request \<Rightarrow> (string \<times> string) + string" where
  "check_credentials env q =
     (if to_lower (trim_space (aq_method q)) \<noteq> ''token'' then Inl (''auth_invalid_method'', ''unsupported auth_method'')
      else
        let c = trim_space (aq_connector q)
        in if c = [] then Inl (auth_error_connector_mismatch, ''connector_id is required'')
           else case token_verdict (ae_lookup env) (ae_verify env) (ae_now env) c (aq_token q) (ae_store env) of
                  Inl e \<Rightarrow> Inl e
                | Inr r \<Rightarrow>
                    if aq_epoch q = 0 then Inl (auth_error_internal, ''assigned_session_epoch is required'') else Inr c)"

text \<open>\<open>AuthenticateAndCommit\<close>; \<open>commit\<close> is the callback, which never fails in this program.\<close>

definition authenticate_and_commit ::
    "'s auth_env \<Rightarrow> auth_request \<Rightarrow> (gotime \<Rightarrow> session_runtime \<Rightarrow> bridge_state \<Rightarrow> bridge_state)
       \<Rightarrow> auth_coordinator \<times> bridge_state \<Rightarrow> auth_result \<times> auth_coordinator \<times> bridge_state" where
  "authenticate_and_commit env q commit = (\<lambda>(ac, st).
     (case check_credentials env q of
        Inl (code, message) \<Rightarrow> (auth_failed code message, ac, st)
      | Inr c \<Rightarrow>
          let current = get_by_connector c (bs_sessions st); now = ae_now env
          in if (case current of None \<Rightarrow> False | Some s \<Rightarrow> sr_epoch s \<ge> aq_epoch q \<and> \<not> session_over s)
             then (auth_failed ''auth_session_superseded'' ''session epoch has been superseded'', ac, st)
             else
               let attempt = is_supersede_attempt current;
                   (limited, ac1) = (if attempt then is_supersede_rate_limited c now ac else (False, ac))
               in if limited then (auth_failed ''auth_rate_limited'' ''session supersede rate limited'', ac1, st)
                  else
                    let sid = ae_session_id env;
                        st1 = commit now \<lparr>sr_session = sid, sr_connector = c, sr_epoch = aq_epoch q, sr_binding = [],
                                sr_state = SessionActive, sr_heartbeat = now, sr_updated_at = now\<rparr> st
                    in if (case get_by_connector c (bs_sessions st1) of
                             None \<Rightarrow> True
                           | Some s \<Rightarrow> trim_space (sr_session s) \<noteq> sid \<or> sr_epoch s \<noteq> aq_epoch q)
                       then (auth_failed auth_error_internal ''auth commit is not authoritative'', ac1, st1)
                       else (\<lparr>ar_success = True, ar_session = sid, ar_epoch = aq_epoch q, ar_code = [], ar_message = []\<rparr>,
                             if attempt then record_successful_supersede c now ac1 else ac1, st1)))"

text \<open>
  The state is changed only by a request whose token is accepted for its connector, and a request is
  successful only then; the session that it returns is the current one of the connector.
\<close>

lemma check_credentials_Inr:
  "check_credentials env q = Inr c \<Longrightarrow>
   c = trim_space (aq_connector q) \<and> c \<noteq> [] \<and> aq_epoch q \<noteq> 0
   \<and> (\<exists>r. token_verdict (ae_lookup env) (ae_verify env) (ae_now env) c (aq_token q) (ae_store env) = Inr r)"
  by (auto simp: check_credentials_def Let_def split: if_splits sum.splits)

lemma token_verdict_Inr:
  "token_verdict lookup verify now c token store = Inr r \<Longrightarrow>
   \<exists>i secret. parse_connector_token token = Some (i, secret) \<and> lookup i store = Some r \<and> trim_space (tk_connector r) = c
     \<and> verify secret (tk_hash r) = Inr True \<and> normalize_token_status (tk_status r) \<in> {TokenActive, TokenGrace}
     \<and> (is_zero (tk_expires r) \<or> now \<le> tk_expires r)"
  by (auto simp: token_verdict_def validate_token_state_def split: option.splits if_splits sum.splits token_status.splits)


section \<open>Properties\<close>

text \<open>One of three things happens: nothing, only the history is pruned, or the session is committed.\<close>

lemma authenticate_cases:
  assumes "authenticate_and_commit env q commit (ac, st) = (r, ac', st')"
  obtains (refused) "\<not> ar_success r" "ac' = ac" "st' = st"
  | (limited) c s where "check_credentials env q = Inr c" "get_by_connector c (bs_sessions st) = Some s"
      "\<not> ar_success r" "st' = st" "ac' = snd (is_supersede_rate_limited c (ae_now env) ac)"
  | (committed) c where "check_credentials env q = Inr c"
      "\<And>s. get_by_connector c (bs_sessions st) = Some s \<Longrightarrow> sr_epoch s < aq_epoch q \<or> session_over s"
      "st' = commit (ae_now env) \<lparr>sr_session = ae_session_id env, sr_connector = c, sr_epoch = aq_epoch q, sr_binding = [],
                sr_state = SessionActive, sr_heartbeat = ae_now env, sr_updated_at = ae_now env\<rparr> st"
      "ar_success r \<longleftrightarrow> (\<exists>s. get_by_connector c (bs_sessions st') = Some s
         \<and> trim_space (sr_session s) = ae_session_id env \<and> sr_epoch s = aq_epoch q)"
      "ar_success r \<Longrightarrow> ar_session r = ae_session_id env \<and> ar_epoch r = aq_epoch q"
      "ac' = (let attempt = is_supersede_attempt (get_by_connector c (bs_sessions st));
                  ac1 = (if attempt then snd (is_supersede_rate_limited c (ae_now env) ac) else ac)
              in if ar_success r \<and> attempt then record_successful_supersede c (ae_now env) ac1 else ac1)"
      "is_supersede_attempt (get_by_connector c (bs_sessions st)) \<Longrightarrow> \<not> fst (is_supersede_rate_limited c (ae_now env) ac)"
proof (cases "check_credentials env q")
  case (Inl e)
  then show ?thesis using assms refused by (cases e) (auto simp: authenticate_and_commit_def auth_failed_def)
next
  case (Inr c)
  let ?current = "get_by_connector c (bs_sessions st)"
  let ?limit = "is_supersede_rate_limited c (ae_now env) ac"
  show ?thesis
  proof (cases "case ?current of None \<Rightarrow> False | Some s \<Rightarrow> sr_epoch s \<ge> aq_epoch q \<and> \<not> session_over s")
    case True
    then show ?thesis using assms Inr refused by (auto simp: authenticate_and_commit_def auth_failed_def Let_def)
  next
    case False
    show ?thesis
    proof (cases "is_supersede_attempt ?current \<and> fst ?limit")
      case True
      then obtain s where "?current = Some s" by (auto simp: is_supersede_attempt_def split: option.splits)
      with True False assms Inr limited [of c s] show ?thesis
        by (auto simp: authenticate_and_commit_def auth_failed_def Let_def case_prod_unfold)
    next
      case no: False
      let ?s = "\<lparr>sr_session = ae_session_id env, sr_connector = c, sr_epoch = aq_epoch q, sr_binding = [],
                sr_state = SessionActive, sr_heartbeat = ae_now env, sr_updated_at = ae_now env\<rparr>"
      let ?st = "commit (ae_now env) ?s st"
      have eq: "authenticate_and_commit env q commit (ac, st) =
        (let ac1 = (if is_supersede_attempt ?current then snd ?limit else ac)
         in if (case get_by_connector c (bs_sessions ?st) of
                  None \<Rightarrow> True | Some s \<Rightarrow> trim_space (sr_session s) \<noteq> ae_session_id env \<or> sr_epoch s \<noteq> aq_epoch q)
            then (auth_failed auth_error_internal ''auth commit is not authoritative'', ac1, ?st)
            else (\<lparr>ar_success = True, ar_session = ae_session_id env, ar_epoch = aq_epoch q, ar_code = [], ar_message = []\<rparr>,
                  if is_supersede_attempt ?current then record_successful_supersede c (ae_now env) ac1 else ac1, ?st))"
        using False no Inr by (auto simp: authenticate_and_commit_def Let_def case_prod_unfold)
      show ?thesis
        by (rule committed [OF Inr])
           (use assms False no in \<open>auto simp: eq auth_failed_def Let_def not_le split: if_splits option.splits\<close>)
    qed
  qed
qed

lemma authenticate_needs_token:
  assumes "authenticate_and_commit env q commit (ac, st) = (r, ac', st')"
    and "ar_success r \<or> st' \<noteq> st \<or> ac' \<noteq> ac"
  shows "\<exists>i secret t. parse_connector_token (aq_token q) = Some (i, secret) \<and> ae_lookup env i (ae_store env) = Some t
     \<and> trim_space (tk_connector t) = trim_space (aq_connector q) \<and> trim_space (aq_connector q) \<noteq> []
     \<and> ae_verify env secret (tk_hash t) = Inr True \<and> normalize_token_status (tk_status t) \<in> {TokenActive, TokenGrace}
     \<and> (is_zero (tk_expires t) \<or> ae_now env \<le> tk_expires t)"
proof -
  obtain c where "check_credentials env q = Inr c"
    by (rule authenticate_cases [OF assms(1)]) (use assms(2) in blast)+
  from check_credentials_Inr [OF this] token_verdict_Inr show ?thesis by metis
qed

text \<open>
  C4. A request changes the bridge, or the history of takeovers, or is answered with success, only
  with a token that parses, is on record for exactly this connector, has the right secret, is
  active or in its grace period and has not expired.
\<close>

theorem only_valid_tokens_get_in:
  assumes "authenticate_and_commit env q commit (ac, st) = (r, ac', st')"
    and "ar_success r \<or> st' \<noteq> st \<or> ac' \<noteq> ac"
  shows "\<exists>i secret t. parse_connector_token (aq_token q) = Some (i, secret) \<and> ae_lookup env i (ae_store env) = Some t
     \<and> trim_space (tk_connector t) = trim_space (aq_connector q) \<and> trim_space (aq_connector q) \<noteq> []
     \<and> ae_verify env secret (tk_hash t) = Inr True \<and> normalize_token_status (tk_status t) \<in> {TokenActive, TokenGrace}
     \<and> (is_zero (tk_expires t) \<or> ae_now env \<le> tk_expires t)"
  using assms by (rule authenticate_needs_token)

text \<open>
  C24. A successful request never takes over backwards: the session that was current for the
  connector is over or has a smaller epoch than the one assigned, which is not 0, and afterwards the
  session in the answer is the current one, under that epoch.
\<close>

theorem authentication_is_fenced:
  assumes "authenticate_and_commit env q commit (ac, st) = (r, ac', st')" and "ar_success r"
  shows "ar_epoch r = aq_epoch q \<and> aq_epoch q \<noteq> 0
    \<and> (\<forall>s. get_by_connector (trim_space (aq_connector q)) (bs_sessions st) = Some s
         \<longrightarrow> sr_epoch s < ar_epoch r \<or> session_over s)
    \<and> (\<exists>s. get_by_connector (trim_space (aq_connector q)) (bs_sessions st') = Some s
         \<and> trim_space (sr_session s) = ar_session r \<and> sr_epoch s = ar_epoch r)"
proof (rule authenticate_cases [OF assms(1)])
  fix c
  assume c: "check_credentials env q = Inr c"
    and rest: "\<And>s. get_by_connector c (bs_sessions st) = Some s \<Longrightarrow> sr_epoch s < aq_epoch q \<or> session_over s"
      "ar_success r \<longleftrightarrow> (\<exists>s. get_by_connector c (bs_sessions st') = Some s
         \<and> trim_space (sr_session s) = ae_session_id env \<and> sr_epoch s = aq_epoch q)"
      "ar_success r \<Longrightarrow> ar_session r = ae_session_id env \<and> ar_epoch r = aq_epoch q"
  with assms(2) check_credentials_Inr [OF c] show ?thesis by auto
qed (use assms(2) in simp_all)


section \<open>Takeovers are bounded\<close>

definition supersede_history :: "string \<Rightarrow> auth_coordinator \<Rightarrow> gotime list" where
  "supersede_history c ac = (case map_of (ac_history ac) c of None \<Rightarrow> [] | Some h \<Rightarrow> h)"

text \<open>
  Requests in their order, each against the state of the bridge at its time, and the takeovers among
  them: the successful ones whose connector has a session that is active or draining.
\<close>

fun takeovers ::
    "('s auth_env \<times> auth_request \<times> (gotime \<Rightarrow> session_runtime \<Rightarrow> bridge_state \<Rightarrow> bridge_state) \<times> bridge_state) list
       \<Rightarrow> auth_coordinator \<Rightarrow> (string \<times> gotime) list" where
  "takeovers [] ac = []"
| "takeovers ((env, q, commit, st) # requests) ac =
     (let (r, ac', st') = authenticate_and_commit env q commit (ac, st); c = trim_space (aq_connector q)
      in (if ar_success r \<and> is_supersede_attempt (get_by_connector c (bs_sessions st)) then [(c, ae_now env)] else [])
         @ takeovers requests ac')"

definition takeovers_ok :: "gotime \<Rightarrow> (string \<times> gotime) list \<Rightarrow> auth_coordinator \<Rightarrow> bool" where
  "takeovers_ok latest past ac \<longleftrightarrow> window_bounded (ac_window ac) (ac_limit ac) latest past
     \<and> (\<forall>k. filter (\<lambda>t. latest - ac_window ac \<le> t) (supersede_history k ac)
          = filter (\<lambda>t. latest - ac_window ac \<le> t) (map snd (filter (\<lambda>(j, t). j = k) past)))"

lemma prune_effect:
  assumes "trim_space c \<noteq> []"
  shows "fst (prune_supersede_history c now ac) = filter (\<lambda>t. now - ac_window ac \<le> t) (supersede_history (trim_space c) ac)"
    and "supersede_history k (snd (prune_supersede_history c now ac))
      = (if k = trim_space c then filter (\<lambda>t. now - ac_window ac \<le> t) (supersede_history k ac) else supersede_history k ac)"
    and "ac_window (snd (prune_supersede_history c now ac)) = ac_window ac"
    and "ac_limit (snd (prune_supersede_history c now ac)) = ac_limit ac"
  using assms
  by (auto simp: prune_supersede_history_def supersede_history_def Let_def not_less simp del: map_of_eq_Some_iff split: option.split)

lemma takeovers_ok_later:
  assumes "takeovers_ok latest past ac" "latest \<le> now"
  shows "takeovers_ok now past ac"
proof -
  have "filter (\<lambda>t. now - ac_window ac \<le> t) (filter (\<lambda>t. latest - ac_window ac \<le> t) xs) = filter (\<lambda>t. now - ac_window ac \<le> t) xs" for xs
    by (rule filter_stronger) (use assms(2) in simp)
  then have "filter (\<lambda>t. now - ac_window ac \<le> t) (supersede_history k ac)
      = filter (\<lambda>t. now - ac_window ac \<le> t) (map snd (filter (\<lambda>(j, t). j = k) past))" for k
    using assms(1) unfolding takeovers_ok_def by metis
  with assms show ?thesis by (auto simp: takeovers_ok_def window_bounded_def)
qed

lemma takeovers_ok_prune:
  assumes "takeovers_ok now past ac" "trim_space c \<noteq> []"
  shows "takeovers_ok now past (snd (prune_supersede_history c now ac))"
  using assms by (simp add: takeovers_ok_def prune_effect)

lemma is_limited_iff:
  assumes "takeovers_ok now past ac" "trim_space c \<noteq> []"
  shows "fst (is_supersede_rate_limited c now ac)
    \<longleftrightarrow> ac_limit ac \<le> int (length (filter (\<lambda>(j, t). j = trim_space c \<and> now - ac_window ac \<le> t) past))"
proof -
  have "length (filter (\<lambda>t. now - ac_window ac \<le> t) (supersede_history (trim_space c) ac))
      = length (filter (\<lambda>(j, t). j = trim_space c \<and> now - ac_window ac \<le> t) past)"
    using assms(1) unfolding takeovers_ok_def by (metis filter_past length_map)
  then show ?thesis
    by (simp add: is_supersede_rate_limited_def Let_def case_prod_unfold prune_effect [OF assms(2)])
qed

lemma snd_limited: "snd (is_supersede_rate_limited c now ac) = snd (prune_supersede_history c now ac)"
  by (simp add: is_supersede_rate_limited_def case_prod_unfold Let_def)

lemma takeovers_ok_record:
  assumes "takeovers_ok now past ac" "trim_space c \<noteq> []"
    and "int (length (filter (\<lambda>(j, t). j = trim_space c \<and> now - ac_window ac \<le> t) past)) < ac_limit ac" "0 \<le> ac_window ac"
  shows "takeovers_ok now (past @ [(trim_space c, now)]) (record_successful_supersede c now ac)
    \<and> ac_window (record_successful_supersede c now ac) = ac_window ac \<and> ac_limit (record_successful_supersede c now ac) = ac_limit ac"
proof -
  let ?c = "trim_space c" and ?ac = "record_successful_supersede c now ac"
  have c: "trim_space ?c \<noteq> []" "trim_space ?c = ?c" using assms(2) by simp_all
  have rec: "?ac = (snd (prune_supersede_history ?c now ac))\<lparr>ac_history :=
      map_put ?c (fst (prune_supersede_history ?c now ac) @ [now]) (ac_history (snd (prune_supersede_history ?c now ac)))\<rparr>"
    using assms(2) by (simp add: record_successful_supersede_def Let_def case_prod_unfold)
  have hist: "supersede_history k ?ac = (if k = ?c
      then filter (\<lambda>t. now - ac_window ac \<le> t) (supersede_history ?c ac) @ [now] else supersede_history k ac)" for k
    using prune_effect(1,2) [OF c(1), where now = now and ac = ac] c by (auto simp: rec supersede_history_def)
  have dims: "ac_window ?ac = ac_window ac" "ac_limit ?ac = ac_limit ac" by (simp_all add: rec prune_effect [OF c(1)])
  have "window_bounded (ac_window ac) (ac_limit ac) now past" using assms(1) by (simp add: takeovers_ok_def)
  from window_bounded_step [OF this order_refl, of True ?c] assms(3)
  have "window_bounded (ac_window ac) (ac_limit ac) now (past @ [(?c, now)])" by simp
  moreover have "filter (\<lambda>t. now - ac_window ac \<le> t) (supersede_history k ?ac)
      = filter (\<lambda>t. now - ac_window ac \<le> t) (map snd (filter (\<lambda>(j, t). j = k) (past @ [(?c, now)])))" for k
    using assms(1,4) by (simp add: hist takeovers_ok_def)
  ultimately show ?thesis by (simp add: takeovers_ok_def dims)
qed


lemma authenticate_takeover_step:
  assumes ok: "takeovers_ok latest past ac" and le: "latest \<le> ae_now env" and pos: "0 \<le> ac_window ac"
    and run: "authenticate_and_commit env q commit (ac, st) = (r, ac', st')"
  shows "takeovers_ok (ae_now env)
      (past @ (if ar_success r \<and> is_supersede_attempt (get_by_connector (trim_space (aq_connector q)) (bs_sessions st))
               then [(trim_space (aq_connector q), ae_now env)] else [])) ac'
    \<and> ac_window ac' = ac_window ac \<and> ac_limit ac' = ac_limit ac"
proof (rule authenticate_cases [OF run])
  note now = takeovers_ok_later [OF ok le]
  {
    fix c assume cred: "check_credentials env q = Inr c"
    then have c: "c = trim_space (aq_connector q)" "trim_space c \<noteq> []" "trim_space c = c"
      using check_credentials_Inr [OF cred] by auto
    note pruned = takeovers_ok_prune [OF now c(2)] prune_effect(3,4) [OF c(2), of "ae_now env" ac]
    note c pruned
  } note cred = this
  show ?thesis if "\<not> ar_success r" "ac' = ac" using that now by simp
  show ?thesis if "check_credentials env q = Inr c" "\<not> ar_success r"
      "ac' = snd (is_supersede_rate_limited c (ae_now env) ac)" for c
    using that(2,3) cred(4-6) [OF that(1)] by (simp add: snd_limited)
  fix c
  let ?attempt = "is_supersede_attempt (get_by_connector c (bs_sessions st))"
  let ?ac1 = "if ?attempt then snd (is_supersede_rate_limited c (ae_now env) ac) else ac"
  assume c: "check_credentials env q = Inr c"
    and ac': "ac' = (let attempt = ?attempt; ac1 = (if attempt then snd (is_supersede_rate_limited c (ae_now env) ac) else ac)
              in if ar_success r \<and> attempt then record_successful_supersede c (ae_now env) ac1 else ac1)"
    and free: "?attempt \<Longrightarrow> \<not> fst (is_supersede_rate_limited c (ae_now env) ac)"
  note c = cred [OF c]
  have ac1: "takeovers_ok (ae_now env) past ?ac1" "ac_window ?ac1 = ac_window ac" "ac_limit ?ac1 = ac_limit ac"
    using c(4-6) now by (simp_all add: snd_limited)
  show ?thesis
  proof (cases "ar_success r \<and> ?attempt")
    case True
    have "int (length (filter (\<lambda>(j, t). j = trim_space c \<and> ae_now env - ac_window ?ac1 \<le> t) past)) < ac_limit ?ac1"
      using free True is_limited_iff [OF now c(2)] c(5,6) by (simp add: snd_limited)
    from takeovers_ok_record [OF ac1(1) c(2) this] pos ac1(2,3) True c(1,3) ac' show ?thesis by (simp add: Let_def)
  next
    case False
    then have "ac' = ?ac1" using ac' by (simp add: Let_def)
    with ac1 False c(1) show ?thesis by auto
  qed
qed

lemma takeovers_bounded:
  assumes "takeovers_ok latest past ac" "sorted (latest # map (\<lambda>request. ae_now (fst request)) requests)" "0 \<le> ac_window ac"
    and "k \<noteq> []"
  shows "int (in_window k u (ac_window ac) (past @ takeovers requests ac)) \<le> ac_limit ac"
  using assms(1-3)
proof (induction requests arbitrary: latest past ac)
  case Nil
  then show ?case using assms(4) by (auto simp: takeovers_ok_def window_bounded_def)
next
  case (Cons request requests)
  obtain env q commit st where request: "request = (env, q, commit, st)" by (cases request)
  obtain r ac' st' where run: "authenticate_and_commit env q commit (ac, st) = (r, ac', st')" by (metis prod.collapse)
  have le: "latest \<le> ae_now env" "sorted (ae_now env # map (\<lambda>request. ae_now (fst request)) requests)"
    using Cons.prems(2) by (auto simp: request)
  note step = authenticate_takeover_step [OF Cons.prems(1) le(1) Cons.prems(3) run]
  from Cons.IH [OF conjunct1 [OF step] le(2)] step Cons.prems(3) run show ?case by (simp add: request Let_def)
qed

text \<open>
  However often a connector authenticates, in any time span as long as the window its active
  session is taken over at most \<open>limit\<close> times.
\<close>

theorem takeovers_are_bounded:
  assumes "sorted (map (\<lambda>request. ae_now (fst request)) requests)" and "c \<noteq> []"
  shows "int (length (filter (\<lambda>(j, t). j = c \<and> u \<le> t \<and> t \<le> u + ac_window (new_auth_coordinator window limit))
      (takeovers requests (new_auth_coordinator window limit)))) \<le> ac_limit (new_auth_coordinator window limit)"
proof (cases requests)
  case (Cons request rest)
  let ?ac = "new_auth_coordinator window limit" and ?t = "ae_now (fst request)"
  have "takeovers_ok ?t [] ?ac"
    by (simp add: takeovers_ok_def window_bounded_def in_window_def new_auth_coordinator_def supersede_history_def)
  moreover have "sorted (?t # map (\<lambda>request. ae_now (fst request)) requests)"
    using assms(1) by (simp add: Cons)
  moreover have "0 \<le> ac_window ?ac" by (simp add: new_auth_coordinator_def)
  ultimately show ?thesis using takeovers_bounded [of ?t "[]" ?ac requests c u] assms(2) by (simp add: in_window_def)
qed (simp add: new_auth_coordinator_def)


section \<open>Valid tokens get in\<close>

text \<open>
  The callback of the control plane: the binding of the connection and the version of the envelope
  are added, and the session is committed.
\<close>

definition commit_handshake ::
    "gotime \<Rightarrow> string \<Rightarrow> 64 word \<Rightarrow> gotime \<Rightarrow> session_runtime \<Rightarrow> bridge_state \<Rightarrow> bridge_state" where
  "commit_handshake wall binding version now s =
     commit_authenticated_session wall now (s\<lparr>sr_binding := trim_space binding\<rparr>) version"

lemma commit_handshake_current:
  assumes inv: "sessions_inv (bs_sessions st)"
    and sid: "sid \<noteq> []" "trim_space sid = sid" "get_by_session sid (bs_sessions st) = None"
    and c: "c \<noteq> []" "trim_space c = c" and e: "epoch \<noteq> 0"
    and free: "\<And>s. get_by_connector c (bs_sessions st) = Some s \<Longrightarrow> sr_epoch s < epoch \<or> session_over s"
    and s: "s = \<lparr>sr_session = sid, sr_connector = c, sr_epoch = epoch, sr_binding = [],
                sr_state = SessionActive, sr_heartbeat = now, sr_updated_at = now\<rparr>"
  shows "\<exists>t. get_by_connector c (bs_sessions (commit_handshake wall binding version now s st)) = Some t
     \<and> sr_session t = sid \<and> sr_connector t = c \<and> sr_epoch t = epoch \<and> sr_state t = SessionActive"
proof -
  let ?reg = "bs_sessions st"
  define p where "p = (complete_session (s\<lparr>sr_binding := trim_space binding\<rparr>) ?reg)\<lparr>sr_state := SessionActive,
     sr_heartbeat := (if is_zero (sr_heartbeat (complete_session (s\<lparr>sr_binding := trim_space binding\<rparr>) ?reg)) then now
                      else sr_heartbeat (complete_session (s\<lparr>sr_binding := trim_space binding\<rparr>) ?reg))\<rparr>"
  have p: "sr_session p = sid" "sr_connector p = c" "sr_epoch p = epoch" "sr_state p = SessionActive"
    using sid c by (simp_all add: p_def complete_session_def s Let_def)
  obtain res ok reg' where commit: "commit_authoritative wall now p ?reg = ((res, ok), reg')" by (metis prod.collapse)
  note effect = commit_effect [OF inv commit refl refl]
  have "commit_allowed p ?reg"
    using sid c e free
    by (auto simp: commit_allowed_def p get_by_session_def get_by_connector_def authority_ended_def session_over_def)
  with effect have ok: ok by simp
  have st': "bs_sessions (commit_handshake wall binding version now s st) = reg'"
  proof -
    have "trim_space (sr_session (s\<lparr>sr_binding := trim_space binding\<rparr>)) \<noteq> []" "sr_epoch (s\<lparr>sr_binding := trim_space binding\<rparr>) \<noteq> 0"
      using sid e s by simp_all
    then show ?thesis
      unfolding commit_handshake_def commit_authenticated_session_def Let_def p_def [symmetric] commit
      using ok by (simp add: mark_reconnect_baseline_def split: option.split)
  qed
  show ?thesis
    using effect ok p sid c unfolding st'
    by (simp add: get_by_connector_def current_session_def committed_session_def)
qed

lemma valid_token_accepted:
  assumes "sessions_inv (bs_sessions st)" and "check_credentials env q = Inr c"
    and "\<forall>s. get_by_connector c (bs_sessions st) = Some s \<longrightarrow> sr_epoch s < aq_epoch q \<or> session_over s"
    and "ae_session_id env \<noteq> []" and "trim_space (ae_session_id env) = ae_session_id env"
    and "get_by_session (ae_session_id env) (bs_sessions st) = None"
    and "is_supersede_attempt (get_by_connector c (bs_sessions st)) \<longrightarrow> \<not> fst (is_supersede_rate_limited c (ae_now env) ac)"
    and "authenticate_and_commit env q (commit_handshake wall binding version) (ac, st) = (r, ac', st')"
  shows "ar_success r \<and> ar_session r = ae_session_id env \<and> ar_epoch r = aq_epoch q
    \<and> (\<exists>s. get_by_connector c (bs_sessions st') = Some s \<and> sr_session s = ae_session_id env
         \<and> sr_epoch s = aq_epoch q \<and> sr_state s = SessionActive)"
proof -
  let ?s = "\<lparr>sr_session = ae_session_id env, sr_connector = c, sr_epoch = aq_epoch q, sr_binding = [],
                sr_state = SessionActive, sr_heartbeat = ae_now env, sr_updated_at = ae_now env\<rparr>"
  have c: "c \<noteq> []" "trim_space c = c" "aq_epoch q \<noteq> 0" using check_credentials_Inr [OF assms(2)] by auto
  obtain t where t: "get_by_connector c (bs_sessions (commit_handshake wall binding version (ae_now env) ?s st)) = Some t"
      "sr_session t = ae_session_id env" "sr_epoch t = aq_epoch q" "sr_state t = SessionActive"
    using commit_handshake_current [OF assms(1,4,5,6) c _ refl, where now = "ae_now env" and wall = wall and binding = binding and version = version] assms(3) by blast
  have "\<not> (case get_by_connector c (bs_sessions st) of None \<Rightarrow> False | Some s \<Rightarrow> sr_epoch s \<ge> aq_epoch q \<and> \<not> session_over s)"
    using assms(3) by (auto simp: not_le split: option.split)
  then have "authenticate_and_commit env q (commit_handshake wall binding version) (ac, st)
     = (\<lparr>ar_success = True, ar_session = ae_session_id env, ar_epoch = aq_epoch q, ar_code = [], ar_message = []\<rparr>,
        fst (snd (authenticate_and_commit env q (commit_handshake wall binding version) (ac, st))),
        commit_handshake wall binding version (ae_now env) ?s st)"
    using assms(2,5,7) t by (auto simp: authenticate_and_commit_def Let_def case_prod_unfold)
  with assms(8) have "ar_success r \<and> ar_session r = ae_session_id env \<and> ar_epoch r = aq_epoch q
      \<and> st' = commit_handshake wall binding version (ae_now env) ?s st" by auto
  with t show ?thesis by blast
qed

text \<open>
  Nobody with a valid token is locked out: when the token is accepted, the assigned epoch is
  above that of the session which is current and not over, the generated identifier is new and the
  limit of takeovers is not used up, then the request is successful and its session is the
  active, current one of the connector.
\<close>

theorem valid_token_gets_in:
  assumes "sessions_inv (bs_sessions st)" and "check_credentials env q = Inr c"
    and "\<forall>s. get_by_connector c (bs_sessions st) = Some s \<longrightarrow> sr_epoch s < aq_epoch q \<or> session_over s"
    and "ae_session_id env \<noteq> []" and "trim_space (ae_session_id env) = ae_session_id env"
    and "get_by_session (ae_session_id env) (bs_sessions st) = None"
    and "is_supersede_attempt (get_by_connector c (bs_sessions st)) \<longrightarrow> \<not> fst (is_supersede_rate_limited c (ae_now env) ac)"
    and "authenticate_and_commit env q (commit_handshake wall binding version) (ac, st) = (r, ac', st')"
  shows "ar_success r \<and> ar_session r = ae_session_id env \<and> ar_epoch r = aq_epoch q
    \<and> (\<exists>s. get_by_connector c (bs_sessions st') = Some s \<and> sr_session s = ae_session_id env
         \<and> sr_epoch s = aq_epoch q \<and> sr_state s = SessionActive)"
  using assms by (rule valid_token_accepted)


section \<open>Examples\<close>

definition sample_auth_env :: "gotime \<Rightarrow> string \<Rightarrow> file_store auth_env" where
  "sample_auth_env now sid = \<lparr>ae_lookup = file_lookup, ae_verify = sample_verify, ae_store = sample_file_store,
     ae_now = now, ae_session_id = sid\<rparr>"

definition sample_auth_request :: "64 word \<Rightarrow> auth_request" where
  "sample_auth_request epoch = \<lparr>aq_connector = ''c'', aq_epoch = epoch, aq_method = ''token'',
     aq_token = build_connector_plaintext_token ''i'' ''s''\<rparr>"

lemma trim_auth_sample: "trim_space ''token'' = ''token''" "trim_space ''x'' = ''x''" "trim_space ''y'' = ''y''"
  by (rule trim_space_graphic; simp add: graphic_def)+

lemma lower_token: "to_lower ''token'' = ''token''" by code_simp

lemma sample_credentials: "epoch \<noteq> 0 \<Longrightarrow> check_credentials (sample_auth_env now sid) (sample_auth_request epoch) = Inr ''c''"
proof -
  have "parse_connector_token (build_connector_plaintext_token ''i'' ''s'') = Some (''i'', ''s'')"
    by (rule token_text_parses) (simp_all add: is_valid_token_id_def trim_token_sample is_token_char_def graphic_def)
  moreover assume "epoch \<noteq> 0"
  ultimately show ?thesis
    by (simp add: check_credentials_def sample_auth_env_def sample_auth_request_def trim_auth_sample trim_token_sample lower_token
        token_verdict_def validate_token_state_def file_lookup_def sample_file_store_def sample_token_record_def
        fresh_token_record_def sample_verify_def normalize_token_status_def zero_time_def Let_def del: to_lower.simps)
qed

definition sample_auth_run :: "auth_result \<times> auth_coordinator \<times> bridge_state" where
  "sample_auth_run = authenticate_and_commit (sample_auth_env 5 ''x'') (sample_auth_request 1) (commit_handshake 5 ''tcp'' 0)
     (new_auth_coordinator 0 0, new_bridge_state 8)"

lemma sample_auth_state: "sessions_inv (bs_sessions (new_bridge_state 8))"
    "get_by_connector c (bs_sessions (new_bridge_state 8)) = None" "get_by_session s (bs_sessions (new_bridge_state 8)) = None"
  using session_ok_new
  by (simp_all add: new_bridge_state_def session_ok_def new_session_registry_def get_by_connector_def current_session_def
      get_by_session_def)

lemma sample_auth_accepted: "sample_auth_run = (r, ac', st') \<Longrightarrow> ar_success r \<and> ar_session r = ''x'' \<and> ar_epoch r = 1"
  using valid_token_accepted [OF sample_auth_state(1) sample_credentials [of 1 5 "''x''"], where ac = "new_auth_coordinator 0 0"
      and r = r and ac' = ac' and st' = st' and wall = 5 and binding = "''tcp''" and version = 0]
  unfolding sample_auth_run_def
  by (simp add: sample_auth_env_def sample_auth_request_def trim_auth_sample sample_auth_state is_supersede_attempt_def)

theorem valid_token_gets_in_witness:
  "ar_success (fst sample_auth_run) \<and> ar_session (fst sample_auth_run) = ''x''"
proof -
  obtain r ac' st' where run: "sample_auth_run = (r, ac', st')" by (metis prod.collapse)
  from valid_token_gets_in [OF sample_auth_state(1) sample_credentials _ _ _ _ _ run [unfolded sample_auth_run_def]]
  have "ar_success r \<and> ar_session r = ''x''"
    by (simp add: sample_auth_env_def trim_auth_sample sample_auth_state is_supersede_attempt_def)
  then show ?thesis unfolding run by simp
qed

theorem only_valid_tokens_get_in_witness:
  "\<exists>i secret. parse_connector_token (aq_token (sample_auth_request 1)) = Some (i, secret) \<and> sample_verify secret ''hs'' = Inr True"
proof -
  obtain r ac' st' where run: "sample_auth_run = (r, ac', st')" by (metis prod.collapse)
  have "ar_success r" using sample_auth_accepted [OF run] by blast
  with only_valid_tokens_get_in [OF run [unfolded sample_auth_run_def]]
  obtain i secret t where t: "parse_connector_token (aq_token (sample_auth_request 1)) = Some (i, secret)"
    "file_lookup i sample_file_store = Some t" "sample_verify secret (tk_hash t) = Inr True"
    by (auto simp: sample_auth_env_def)
  have "tk_hash t = ''hs''"
    using t(2) by (auto simp: file_lookup_def sample_file_store_def sample_token_record_def fresh_token_record_def Let_def split: if_splits)
  with t show ?thesis by auto
qed

theorem authentication_is_fenced_witness:
  "\<exists>s. get_by_connector ''c'' (bs_sessions (snd (snd sample_auth_run))) = Some s \<and> sr_epoch s = 1"
proof -
  obtain r ac' st' where run: "sample_auth_run = (r, ac', st')" by (metis prod.collapse)
  from authentication_is_fenced [OF run [unfolded sample_auth_run_def]] sample_auth_accepted [OF run] show ?thesis
    unfolding run by (auto simp: sample_auth_request_def trim_token_sample)
qed

theorem takeovers_are_bounded_witness:
  "length (filter (\<lambda>(j, t). j = ''c'' \<and> 0 \<le> t \<and> t \<le> 60000000000)
     (takeovers [(sample_auth_env 5 ''x'', sample_auth_request 1, commit_handshake 5 ''tcp'' 0, new_bridge_state 8),
                 (sample_auth_env 6 ''y'', sample_auth_request 2, commit_handshake 6 ''tcp'' 0, snd (snd sample_auth_run))]
        (new_auth_coordinator 0 0))) \<le> 3"
proof -
  let ?requests = "[(sample_auth_env 5 ''x'', sample_auth_request 1, commit_handshake 5 ''tcp'' 0, new_bridge_state 8),
                 (sample_auth_env 6 ''y'', sample_auth_request 2, commit_handshake 6 ''tcp'' 0, snd (snd sample_auth_run))]"
  have "sorted (map (\<lambda>request. ae_now (fst request)) ?requests)" by (simp add: sample_auth_env_def)
  from takeovers_are_bounded [OF this, of "''c''" 0 0 0] show ?thesis
    by (simp add: new_auth_coordinator_def del: takeovers.simps)
qed
end
