(* ===== verification/Control_Connection.thy ===== *)
theory Control_Connection
  imports Bridge_Auth
begin

text \<open>
  The bridge's side of one control connection
  (\<open>cloud-bridge/runtime/bridge/app/control_plane.go\<close>, \<open>controlChannelSessionState\<close>): its life cycle,
  what the handshake has agreed on, and the budget of connections that are not authenticated. Each
  method is one step under the mutex of the connection.
\<close>

section \<open>The life cycle\<close>

datatype lifecycle =
    StateConnecting | StateConnected | StateControlReady | StateAuthenticated | StateDraining | StateClosed | StateFailed

fun lifecycle_transitions :: "lifecycle \<Rightarrow> lifecycle list" where
  "lifecycle_transitions StateConnecting = [StateConnected, StateFailed, StateClosed]"
| "lifecycle_transitions StateConnected = [StateControlReady, StateFailed, StateClosed]"
| "lifecycle_transitions StateControlReady = [StateAuthenticated, StateFailed, StateClosed]"
| "lifecycle_transitions StateAuthenticated = [StateDraining, StateFailed, StateClosed]"
| "lifecycle_transitions StateDraining = [StateClosed, StateFailed]"
| "lifecycle_transitions StateFailed = [StateClosed]"
| "lifecycle_transitions StateClosed = []"

text \<open>\<open>ch_signalled\<close>: the channel \<open>authenticatedChannel\<close> has been closed.\<close>

record channel_state =
  ch_session :: string
  ch_epoch :: "64 word"
  ch_connector :: string
  ch_binding :: string
  ch_lifecycle :: lifecycle
  ch_source :: string
  ch_assigned :: "64 word"
  ch_hello :: bool
  ch_reserved :: bool
  ch_signalled :: bool

definition new_channel_state :: "string \<Rightarrow> channel_state" where
  "new_channel_state source =
     \<lparr>ch_session = [], ch_epoch = 0, ch_connector = [], ch_binding = [], ch_lifecycle = StateConnecting,
      ch_source = source, ch_assigned = 0, ch_hello = False, ch_reserved = False, ch_signalled = False\<rparr>"

definition set_preferred_binding :: "string \<Rightarrow> channel_state \<Rightarrow> channel_state" where
  "set_preferred_binding binding ch = ch\<lparr>ch_binding := binding\<rparr>"

definition set_session :: "string \<Rightarrow> 64 word \<Rightarrow> channel_state \<Rightarrow> channel_state" where
  "set_session session epoch ch =
     (let sid = trim_space session
      in if sid = [] \<or> epoch = 0 then ch else ch\<lparr>ch_session := sid, ch_epoch := epoch\<rparr>)"

definition transition_lifecycle :: "lifecycle \<Rightarrow> channel_state \<Rightarrow> channel_state" where
  "transition_lifecycle next ch =
     (if ch_lifecycle ch = next then ch
      else if next \<in> set (lifecycle_transitions (ch_lifecycle ch)) then ch\<lparr>ch_lifecycle := next\<rparr> else ch)"

definition mark_connected :: "channel_state \<Rightarrow> channel_state" where
  "mark_connected ch = transition_lifecycle StateConnected ch"

definition mark_control_ready :: "channel_state \<Rightarrow> channel_state" where
  "mark_control_ready ch = transition_lifecycle StateControlReady (mark_connected ch)"

definition mark_authenticated :: "channel_state \<Rightarrow> channel_state" where
  "mark_authenticated ch = (transition_lifecycle StateAuthenticated (mark_control_ready ch))\<lparr>ch_signalled := True\<rparr>"

definition mark_draining :: "channel_state \<Rightarrow> channel_state" where
  "mark_draining ch =
     (if ch_lifecycle ch \<noteq> StateAuthenticated then ch else transition_lifecycle StateDraining ch)"

definition mark_failed :: "channel_state \<Rightarrow> channel_state" where
  "mark_failed ch = (if ch_lifecycle ch = StateClosed then ch else transition_lifecycle StateFailed ch)"

definition mark_closed :: "channel_state \<Rightarrow> channel_state" where
  "mark_closed ch =
     transition_lifecycle StateClosed
       (if ch_lifecycle ch = StateAuthenticated then transition_lifecycle StateDraining ch else ch)"

definition is_authenticated :: "channel_state \<Rightarrow> bool" where
  "is_authenticated ch \<longleftrightarrow> ch_lifecycle ch = StateAuthenticated"

definition set_hello_context :: "string \<Rightarrow> 64 word \<Rightarrow> channel_state \<Rightarrow> channel_state" where
  "set_hello_context connector epoch ch =
     (let c = trim_space connector
      in if c = [] \<or> epoch = 0 then ch
         else mark_control_ready (ch\<lparr>ch_connector := c, ch_assigned := epoch, ch_hello := True\<rparr>))"

definition try_mark_reserved :: "channel_state \<Rightarrow> bool \<times> channel_state" where
  "try_mark_reserved ch =
     (if ch_reserved ch \<or> is_authenticated ch then (False, ch) else (True, ch\<lparr>ch_reserved := True\<rparr>))"

definition clear_reserved :: "channel_state \<Rightarrow> bool \<times> channel_state" where
  "clear_reserved ch = (if \<not> ch_reserved ch then (False, ch) else (True, ch\<lparr>ch_reserved := False\<rparr>))"


section \<open>The budget of unauthenticated connections\<close>

definition reserve_connection :: "channel_state \<Rightarrow> handshake_guard \<Rightarrow> bool \<times> channel_state \<times> handshake_guard" where
  "reserve_connection ch g =
     (if ch_reserved ch \<or> is_authenticated ch then (True, ch, g)
      else
        let (allowed, g1) = try_acquire_unauthenticated g
        in if \<not> allowed then (False, ch, g1)
           else
             let (marked, ch1) = try_mark_reserved ch
             in if \<not> marked then (True, ch1, release_unauthenticated g1) else (True, ch1, g1))"

definition release_connection :: "channel_state \<Rightarrow> handshake_guard \<Rightarrow> channel_state \<times> handshake_guard" where
  "release_connection ch g =
     (let (cleared, ch1) = clear_reserved ch in if cleared then (ch1, release_unauthenticated g) else (ch1, g))"

definition mark_session_authenticated :: "channel_state \<Rightarrow> handshake_guard \<Rightarrow> channel_state \<times> handshake_guard" where
  "mark_session_authenticated ch g = release_connection (mark_authenticated ch) g"


section \<open>The end of a connection\<close>

definition mark_session_failed_from_state ::
    "gotime \<Rightarrow> gotime \<Rightarrow> string \<Rightarrow> channel_state \<Rightarrow> bridge_state \<Rightarrow> channel_state \<times> bridge_state" where
  "mark_session_failed_from_state wall now reason ch st =
     (if \<not> is_authenticated ch then (ch, st)
      else (mark_failed ch, transition_session_state wall now (ch_session ch) (ch_epoch ch) SessionFailed reason st))"

definition close_session_from_state ::
    "gotime \<Rightarrow> gotime \<Rightarrow> string \<Rightarrow> channel_state \<Rightarrow> bridge_state \<Rightarrow> channel_state \<times> bridge_state" where
  "close_session_from_state wall now reason ch st =
     (if \<not> is_authenticated ch then (ch, st)
      else (mark_closed (mark_draining ch),
            transition_session_state wall now (ch_session ch) (ch_epoch ch) SessionClosed reason st))"


section \<open>Lemmas\<close>

lemmas lifecycle_defs = transition_lifecycle_def mark_connected_def mark_control_ready_def mark_authenticated_def
  mark_draining_def mark_failed_def mark_closed_def set_hello_context_def set_session_def

lemma ch_frame [simp]:
  "ch_session (transition_lifecycle l ch) = ch_session ch" "ch_epoch (transition_lifecycle l ch) = ch_epoch ch"
  "ch_reserved (transition_lifecycle l ch) = ch_reserved ch" "ch_hello (transition_lifecycle l ch) = ch_hello ch"
  "ch_connector (transition_lifecycle l ch) = ch_connector ch" "ch_assigned (transition_lifecycle l ch) = ch_assigned ch"
  "ch_source (transition_lifecycle l ch) = ch_source ch" "ch_binding (transition_lifecycle l ch) = ch_binding ch"
  by (simp_all add: transition_lifecycle_def)

lemma ch_frame_mark [simp]:
  "ch_session (mark_control_ready ch) = ch_session ch" "ch_reserved (mark_control_ready ch) = ch_reserved ch"
  "ch_session (mark_authenticated ch) = ch_session ch" "ch_reserved (mark_authenticated ch) = ch_reserved ch"
  "ch_hello (mark_control_ready ch) = ch_hello ch" "ch_connector (mark_control_ready ch) = ch_connector ch"
  "ch_assigned (mark_control_ready ch) = ch_assigned ch" "ch_source (mark_control_ready ch) = ch_source ch"
  "ch_binding (mark_control_ready ch) = ch_binding ch" "ch_epoch (mark_control_ready ch) = ch_epoch ch"
  "ch_reserved (set_session s e ch) = ch_reserved ch" "ch_lifecycle (set_session s e ch) = ch_lifecycle ch"
  "ch_reserved (set_hello_context c e ch) = ch_reserved ch" "ch_session (set_hello_context c e ch) = ch_session ch"
  by (simp_all add: mark_control_ready_def mark_connected_def mark_authenticated_def set_session_def set_hello_context_def Let_def)

lemma lifecycle_ready:
  "ch_lifecycle (mark_control_ready ch) =
     (if ch_lifecycle ch \<in> {StateConnecting, StateConnected} then StateControlReady else ch_lifecycle ch)"
  by (cases "ch_lifecycle ch") (auto simp: lifecycle_defs)

lemma lifecycle_authenticated:
  "ch_lifecycle (mark_authenticated ch) =
     (if ch_lifecycle ch \<in> {StateConnecting, StateConnected, StateControlReady} then StateAuthenticated else ch_lifecycle ch)"
  by (cases "ch_lifecycle ch") (auto simp: lifecycle_defs)

text \<open>A connection holds one unit of the budget at most, and gives it back when it is authenticated.\<close>

definition reserved_units :: "channel_state \<Rightarrow> int" where
  "reserved_units ch = (if ch_reserved ch then 1 else 0)"

lemma reserve_connection_units:
  assumes "reserve_connection ch g = (ok, ch', g')"
  shows "hg_unauthenticated g' - reserved_units ch' = hg_unauthenticated g - reserved_units ch"
    and "hg_unauthenticated_budget g' = hg_unauthenticated_budget g" and "hg_concurrency g' = hg_concurrency g"
    and "hg_concurrency_budget g' = hg_concurrency_budget g"
    and "hg_unauthenticated g \<le> hg_unauthenticated_budget g \<Longrightarrow> hg_unauthenticated g' \<le> hg_unauthenticated_budget g"
    and "ok \<Longrightarrow> ch_reserved ch' \<or> is_authenticated ch'" and "ch_lifecycle ch' = ch_lifecycle ch"
    and "ch_session ch' = ch_session ch"
  using assms
  by (auto simp: reserve_connection_def try_acquire_unauthenticated_def try_mark_reserved_def release_unauthenticated_def
      reserved_units_def is_authenticated_def Let_def split: if_splits)

lemma release_connection_units:
  assumes "release_connection ch g = (ch', g')" and "reserved_units ch \<le> hg_unauthenticated g"
  shows "hg_unauthenticated g' = hg_unauthenticated g - reserved_units ch" and "reserved_units ch' = 0"
    and "hg_unauthenticated_budget g' = hg_unauthenticated_budget g" and "hg_concurrency g' = hg_concurrency g"
    and "hg_concurrency_budget g' = hg_concurrency_budget g"
    and "ch' = ch\<lparr>ch_reserved := False\<rparr>"
  using assms by (auto simp: release_connection_def clear_reserved_def release_unauthenticated_def reserved_units_def split: if_splits)

end
