(* ===== verification/Route_Matching.thy ===== *)
theory Route_Matching
  imports Resources "HOL-Library.List_Lexorder" "HOL-Library.Char_ord" "HOL-Library.Product_Lexorder"
    "HOL-Library.Multiset"
begin

text \<open>
  Which routes an incoming request matches, and in which order
  (\<open>cloud-bridge/runtime/bridge/routing/matcher.go\<close>), with the parts of \<open>net\<close>,
  \<open>strings\<close> and \<open>strconv\<close> that routing uses. Regular expressions are a parameter:
  \<open>compile r\<close> is \<open>None\<close> where \<open>regexp.Compile\<close> fails and otherwise \<open>MatchString\<close>.
\<close>

section \<open>Strings and addresses of the standard library\<close>

text \<open>\<open>strings.Cut\<close>, \<open>TrimPrefix\<close> and \<open>TrimSuffix\<close> for one byte, \<open>strings.LastIndex\<close>.\<close>

fun cut_at :: "char \<Rightarrow> string \<Rightarrow> (string \<times> string) option" where
  "cut_at c [] = None"
| "cut_at c (d # s) = (if d = c then Some ([], s)
                      else case cut_at c s of None \<Rightarrow> None | Some (before, after) \<Rightarrow> Some (d # before, after))"

definition cut_at_last :: "char \<Rightarrow> string \<Rightarrow> (string \<times> string) option" where
  "cut_at_last c s = (case cut_at c (rev s) of None \<Rightarrow> None | Some (after, before) \<Rightarrow> Some (rev before, rev after))"

definition trim_prefix_char :: "char \<Rightarrow> string \<Rightarrow> string" where
  "trim_prefix_char c s = (if s \<noteq> [] \<and> hd s = c then tl s else s)"

definition trim_suffix_char :: "char \<Rightarrow> string \<Rightarrow> string" where
  "trim_suffix_char c s = (if s \<noteq> [] \<and> last s = c then butlast s else s)"

text \<open>
  \<open>net.SplitHostPort\<close>: the port follows the last colon; a host in brackets ends right before
  it; a host without brackets has no colon; no other brackets occur.
\<close>

definition split_host_port :: "string \<Rightarrow> (string \<times> string) option" where
  "split_host_port s =
     (case cut_at_last (CHR '':'') s of
        None \<Rightarrow> None
      | Some (before, port) \<Rightarrow>
          if s \<noteq> [] \<and> hd s = CHR ''[''
          then case cut_at (CHR '']'') s of
                 None \<Rightarrow> None
               | Some (bracketed, rest) \<Rightarrow>
                   if rest = CHR '':'' # port \<and> CHR ''['' \<notin> set (tl bracketed) \<and> CHR ''['' \<notin> set rest
                      \<and> CHR '']'' \<notin> set rest
                   then Some (tl bracketed, port) else None
          else if CHR '':'' \<in> set before then None
          else if CHR ''['' \<in> set s \<or> CHR '']'' \<in> set s then None
          else Some (before, port))"

definition join_host_port :: "string \<Rightarrow> string \<Rightarrow> string" where
  "join_host_port host port =
     (if CHR '':'' \<in> set host then ''['' @ host @ '']:'' @ port else host @ '':'' @ port)"

text \<open>\<open>strconv.Atoi\<close>: a sign, digits, in the range of \<open>int64\<close>.\<close>

definition is_digit :: "char \<Rightarrow> bool" where
  "is_digit c \<longleftrightarrow> 48 \<le> (of_char c :: nat) \<and> (of_char c :: nat) \<le> 57"

definition digits_value :: "string \<Rightarrow> int" where
  "digits_value s = foldl (\<lambda>v c. 10 * v + (of_char c - 48)) 0 s"

definition atoi :: "string \<Rightarrow> int option" where
  "atoi s =
     (let (sign, ds) = (case s of
            [] \<Rightarrow> (1, [])
          | c # rest \<Rightarrow> if c = CHR ''-'' then (-1, rest) else if c = CHR ''+'' then (1, rest) else (1, s));
          v = sign * digits_value ds
      in if ds = [] \<or> \<not> list_all is_digit ds then None
         else if v < min_int64 \<or> v > max_int64 then None else Some v)"


section \<open>Hosts, authorities, paths\<close>

definition is_numeric_port :: "string \<Rightarrow> bool" where
  "is_numeric_port value =
     (let normalized = trim_space value
      in if normalized = [] then False
         else case atoi normalized of None \<Rightarrow> False | Some port \<Rightarrow> 0 \<le> port \<and> port \<le> 65535)"

definition normalize_route_host_value :: "string \<Rightarrow> string" where
  "normalize_route_host_value host =
     (let normalized = to_lower (trim_space host)
      in if normalized = [] then []
         else
           let h = (case split_host_port normalized of
                      Some (parsed, port) \<Rightarrow> parsed
                    | None \<Rightarrow>
                        (case cut_at (CHR '':'') normalized of
                           Some (raw_host, raw_port) \<Rightarrow>
                             if is_numeric_port raw_port then raw_host else normalized
                         | None \<Rightarrow> normalized))
           in trim_suffix_char (CHR ''.'') (trim_suffix_char (CHR '']'') (trim_prefix_char (CHR ''['') h)))"

definition normalize_route_authority_value :: "string \<Rightarrow> string" where
  "normalize_route_authority_value authority =
     (let normalized = to_lower (trim_space authority)
      in if normalized = [] then []
         else case split_host_port normalized of
                None \<Rightarrow>
                  (case cut_at (CHR '':'') normalized of
                     Some (raw_host, raw_port) \<Rightarrow>
                       if is_numeric_port raw_port
                       then trim_suffix_char (CHR ''.'') (trim_space raw_host) @ '':'' @ raw_port
                       else trim_suffix_char (CHR ''.'') normalized
                   | None \<Rightarrow> trim_suffix_char (CHR ''.'') normalized)
              | Some (host, port) \<Rightarrow>
                  let h = normalize_route_host_value host
                  in if h = [] then [] else join_host_port h port)"

definition extract_authority_port :: "string \<Rightarrow> string option" where
  "extract_authority_port authority =
     (let normalized = trim_space authority
      in if normalized = [] then None
         else case split_host_port normalized of
                Some (host, port) \<Rightarrow> Some port
              | None \<Rightarrow>
                  (case cut_at (CHR '':'') normalized of
                     None \<Rightarrow> None
                   | Some (before, port) \<Rightarrow> if is_numeric_port port then Some (trim_space port) else None))"

definition route_authority_matches :: "string \<Rightarrow> string \<Rightarrow> string \<Rightarrow> bool" where
  "route_authority_matches route_authority request_authority request_host =
     (let ra = normalize_route_authority_value route_authority;
          qa = normalize_route_authority_value request_authority
      in if ra = qa then True
         else if (case (extract_authority_port ra, extract_authority_port qa) of
                    (Some p, Some q) \<Rightarrow> p \<noteq> q | _ \<Rightarrow> False) then False
         else
           let rh = normalize_route_host_value ra; qh0 = normalize_route_host_value qa;
               qh = (if qh0 = [] then normalize_route_host_value request_host else qh0)
           in rh \<noteq> [] \<and> rh = qh)"

definition normalize_path :: "string \<Rightarrow> string" where
  "normalize_path path =
     (let normalized = trim_space path
      in if normalized = [] then ''/'' else if \<not> prefix ''/'' normalized then ''/'' @ normalized else normalized)"



section \<open>Requests\<close>

type_synonym value_map = "(string, string list) gomap"

record route_lookup_request =
  rq_mode :: ingress_mode
  rq_protocol :: string
  rq_host :: string
  rq_authority :: string
  rq_path :: string
  rq_sni :: string
  rq_port :: "32 word"
  rq_namespace :: string
  rq_environment :: string
  rq_metadata :: labels
  rq_headers :: value_map
  rq_queries :: value_map

text \<open>Values of names that are equal once normalized are appended to each other.\<close>

definition collected :: "value_map \<Rightarrow> string \<Rightarrow> string list" where
  "collected m name = (case map_of m name of None \<Rightarrow> [] | Some vs \<Rightarrow> vs)"

definition normalize_lookup_headers :: "value_map \<Rightarrow> value_map" where
  "normalize_lookup_headers headers =
     fold (\<lambda>(name, vs) m.
             let n = to_lower (trim_space name)
             in if n = [] then m
                else let all = collected m n @ filter (\<lambda>v. v \<noteq> []) (map trim_space vs)
                     in if all = [] then m else AList.update n all m) headers []"

definition normalize_lookup_query_params :: "value_map \<Rightarrow> value_map" where
  "normalize_lookup_query_params queries =
     fold (\<lambda>(name, vs) m.
             let n = trim_space name
             in if n = [] then m else AList.update n (collected m n @ map trim_space vs) m) queries []"

definition normalize_matchers :: "(string \<Rightarrow> string) \<Rightarrow> value_matcher list \<Rightarrow> value_matcher list" where
  "normalize_matchers norm ms =
     map (\<lambda>m. \<lparr>vm_name = norm (vm_name m), vm_exact = trim_space (vm_exact m), vm_prefix = trim_space (vm_prefix m),
                vm_regex = trim_space (vm_regex m), vm_present = vm_present m\<rparr>)
         (filter (\<lambda>m. norm (vm_name m) \<noteq> []) ms)"

definition normalize_route_header_matchers :: "value_matcher list \<Rightarrow> value_matcher list" where
  "normalize_route_header_matchers = normalize_matchers (\<lambda>s. to_lower (trim_space s))"

definition normalize_route_query_matchers :: "value_matcher list \<Rightarrow> value_matcher list" where
  "normalize_route_query_matchers = normalize_matchers trim_space"

definition normalize_lookup_request :: "route_lookup_request \<Rightarrow> route_lookup_request" where
  "normalize_lookup_request q =
     (let host = normalize_route_host_value (rq_host q);
          authority = normalize_route_authority_value (rq_authority q)
      in q \<lparr>rq_protocol := to_lower (trim_space (rq_protocol q)),
            rq_host := host,
            rq_authority := (if authority = [] \<and> host \<noteq> [] then host else authority),
            rq_path := normalize_path (rq_path q),
            rq_sni := to_lower (trim_space (rq_sni q)),
            rq_namespace := trim_space (rq_namespace q),
            rq_environment := trim_space (rq_environment q),
            rq_headers := normalize_lookup_headers (rq_headers q),
            rq_queries := normalize_lookup_query_params (rq_queries q)\<rparr>)"


section \<open>Matching\<close>

type_synonym compiler = "string \<Rightarrow> (string \<Rightarrow> bool) option"

definition lookup_compiled_regex :: "compiler \<Rightarrow> string \<Rightarrow> (string \<Rightarrow> bool) option" where
  "lookup_compiled_regex compile pattern = (let p = trim_space pattern in if p = [] then None else compile p)"

definition value_matches :: "compiler \<Rightarrow> value_matcher \<Rightarrow> string \<Rightarrow> bool" where
  "value_matches compile m v =
     (if vm_exact m \<noteq> [] then v = vm_exact m
      else if vm_prefix m \<noteq> [] then prefix (vm_prefix m) v
      else if vm_regex m \<noteq> [] then (case lookup_compiled_regex compile (vm_regex m) of None \<Rightarrow> False | Some re \<Rightarrow> re v)
      else v \<noteq> [])"

definition match_lookup_value :: "compiler \<Rightarrow> value_matcher \<Rightarrow> string list \<Rightarrow> bool" where
  "match_lookup_value compile m vs =
     (case vm_present m of
        Some p \<Rightarrow> p = (vs \<noteq> [])
      | None \<Rightarrow> list_ex (value_matches compile m) vs)"

definition lookup_key_values :: "value_map \<Rightarrow> string \<Rightarrow> bool \<Rightarrow> string list option" where
  "lookup_key_values vals key case_sensitive =
     (if \<not> case_sensitive then map_of vals key
      else map_option snd (find (\<lambda>(k, vs). trim_space k = trim_space key) vals))"

definition match_lookup_key_values :: "compiler \<Rightarrow> value_matcher list \<Rightarrow> value_map \<Rightarrow> bool \<Rightarrow> bool" where
  "match_lookup_key_values compile ms vals case_sensitive =
     (if ms = [] then True
      else if vals = [] then list_all (\<lambda>m. vm_present m = Some False) ms
      else list_all (\<lambda>m. case lookup_key_values vals (vm_name m) case_sensitive of
                           Some (v # vs) \<Rightarrow> match_lookup_value compile m (v # vs)
                         | _ \<Rightarrow> vm_present m = Some False) ms)"

definition match_lookup_headers :: "compiler \<Rightarrow> value_matcher list \<Rightarrow> value_map \<Rightarrow> bool" where
  "match_lookup_headers compile ms vals = match_lookup_key_values compile ms vals False"

definition match_lookup_queries :: "compiler \<Rightarrow> value_matcher list \<Rightarrow> value_map \<Rightarrow> bool" where
  "match_lookup_queries compile ms vals = match_lookup_key_values compile ms vals True"

text \<open>A criterion the route states must be satisfied and then adds to the score.\<close>

definition criterion :: "bool \<Rightarrow> bool \<Rightarrow> int \<Rightarrow> int option \<Rightarrow> int option" where
  "criterion stated satisfied points score =
     (if \<not> stated then score else if satisfied then map_option (\<lambda>s. s + points) score else None)"

definition score_route_match :: "compiler \<Rightarrow> route_lookup_request \<Rightarrow> route_match \<Rightarrow> int option" where
  "score_route_match compile q m =
     (let protocol = to_lower (trim_space (rm_protocol m));
          host = normalize_route_host_value (rm_host m);
          authority = normalize_route_authority_value (rm_authority m);
          path = normalize_path (rm_path_prefix m);
          sni = to_lower (trim_space (rm_sni m));
          queries = normalize_route_query_matchers (rm_queries m);
          headers = normalize_route_header_matchers (rm_headers m);
          s = criterion (protocol \<noteq> []) (protocol = rq_protocol q) 8 (Some 0);
          s = criterion (host \<noteq> []) (host = rq_host q) 10 s;
          s = criterion (authority \<noteq> []) (route_authority_matches authority (rq_authority q) (rq_host q)) 10 s;
          s = criterion (rm_listen_port m \<noteq> 0) (rm_listen_port m = rq_port q) 6 s;
          s = criterion (trim_space (rm_path_prefix m) \<noteq> []) (prefix path (rq_path q)) (int (length path)) s;
          s = criterion (sni \<noteq> []) (sni = rq_sni q) 10 s;
          s = criterion (queries \<noteq> []) (match_lookup_queries compile queries (rq_queries q)) (int (length queries) * 5) s
      in criterion (headers \<noteq> []) (match_lookup_headers compile headers (rq_headers q)) (int (length headers) * 6) s)"

text \<open>The mode that the match of a route implies.\<close>

definition ingress_mode_of_match :: "route_match \<Rightarrow> ingress_mode" where
  "ingress_mode_of_match m =
     (let protocol = to_lower (trim_space (rm_protocol m))
      in if trim_space (rm_sni m) \<noteq> [] then IngressModeTLSSNIShared
         else if rm_listen_port m \<noteq> 0 \<and> trim_space (rm_host m) = [] \<and> trim_space (rm_authority m) = []
                 \<and> trim_space (rm_path_prefix m) = [] \<and> (protocol = [] \<or> protocol = ''tcp'')
              then IngressModeL4DedicatedPort
              else IngressModeL7Shared)"

definition resolve_route_ingress_mode :: "route \<Rightarrow> ingress_mode" where
  "resolve_route_ingress_mode r =
     (case map_option trim_space (map_of (r_metadata r) ''ingress_mode'') of
        Some t \<Rightarrow> if t = ''l7_shared'' then IngressModeL7Shared
                  else if t = ''tls_sni_shared'' then IngressModeTLSSNIShared
                  else if t = ''l4_dedicated_port'' then IngressModeL4DedicatedPort
                  else ingress_mode_of_match (r_match r)
      | None \<Rightarrow> ingress_mode_of_match (r_match r))"

text \<open>
  \<open>Match\<close>: the matching routes, by priority, then score, then id. \<open>sort.Slice\<close> is not stable,
  which shows only where two routes have the same id; a registry has none.
\<close>

definition scored_routes :: "compiler \<Rightarrow> route_lookup_request \<Rightarrow> route list \<Rightarrow> (int \<times> route) list" where
  "scored_routes compile request routes =
     (let q = normalize_lookup_request request
      in List.map_filter
           (\<lambda>r. if resolve_route_ingress_mode r \<noteq> rq_mode q then None
                else map_option (\<lambda>s. (s, r)) (score_route_match compile q (r_match r))) routes)"

definition rank :: "int \<times> route \<Rightarrow> int \<times> int \<times> string" where
  "rank c = (- int (unat (r_priority (snd c))), - fst c, r_id (snd c))"

definition match_routes :: "compiler \<Rightarrow> route_lookup_request \<Rightarrow> route list \<Rightarrow> route list" where
  "match_routes compile request routes = map snd (sort_key rank (scored_routes compile request routes))"



section \<open>What matching promises\<close>

lemma criterion_Some_iff [simp]:
  "criterion stated satisfied points score = Some s \<longleftrightarrow>
     (\<exists>s0. score = Some s0 \<and> (stated \<longrightarrow> satisfied) \<and> s = s0 + (if stated then points else 0))"
  by (auto simp: criterion_def)

text \<open>The criteria a request has to meet, whatever they add to the score.\<close>

definition meets :: "compiler \<Rightarrow> route_lookup_request \<Rightarrow> route_match \<Rightarrow> bool" where
  "meets compile q m \<longleftrightarrow>
     to_lower (trim_space (rm_protocol m)) \<in> {[], rq_protocol q}
     \<and> normalize_route_host_value (rm_host m) \<in> {[], rq_host q}
     \<and> (normalize_route_authority_value (rm_authority m) = []
        \<or> route_authority_matches (normalize_route_authority_value (rm_authority m)) (rq_authority q) (rq_host q))
     \<and> rm_listen_port m \<in> {0, rq_port q}
     \<and> (trim_space (rm_path_prefix m) = [] \<or> prefix (normalize_path (rm_path_prefix m)) (rq_path q))
     \<and> to_lower (trim_space (rm_sni m)) \<in> {[], rq_sni q}
     \<and> match_lookup_queries compile (normalize_route_query_matchers (rm_queries m)) (rq_queries q)
     \<and> match_lookup_headers compile (normalize_route_header_matchers (rm_headers m)) (rq_headers q)"

lemma no_matchers [simp]: "match_lookup_key_values compile [] vals cs"
  by (simp add: match_lookup_key_values_def)

lemma score_route_match_meets: "(\<exists>s. score_route_match compile q m = Some s) \<longleftrightarrow> meets compile q m"
  by (auto simp: score_route_match_def meets_def Let_def match_lookup_queries_def match_lookup_headers_def)

lemma score_nonneg: "score_route_match compile q m = Some s \<Longrightarrow> 0 \<le> s"
  by (auto simp: score_route_match_def Let_def)

lemma normalize_lookup_request_mode [simp]: "rq_mode (normalize_lookup_request q) = rq_mode q"
  by (simp add: normalize_lookup_request_def Let_def)

lemma mset_map_filter_cong: "mset xs = mset ys \<Longrightarrow> mset (List.map_filter f xs) = mset (List.map_filter f ys)"
  by (simp add: map_filter_def mset_filter del: not_None_eq)

lemma scored_routes_iff:
  "(s, r) \<in> set (scored_routes compile request routes) \<longleftrightarrow>
     r \<in> set routes \<and> resolve_route_ingress_mode r = rq_mode request
     \<and> score_route_match compile (normalize_lookup_request request) (r_match r) = Some s"
  by (force simp: scored_routes_def Let_def map_filter_def)

lemma match_routes_iff:
  "r \<in> set (match_routes compile request routes) \<longleftrightarrow>
     r \<in> set routes \<and> resolve_route_ingress_mode r = rq_mode request
     \<and> meets compile (normalize_lookup_request request) (r_match r)"
proof -
  have "r \<in> set (match_routes compile request routes) \<longleftrightarrow> (\<exists>s. (s, r) \<in> set (scored_routes compile request routes))"
    by (force simp: match_routes_def)
  also have "\<dots> \<longleftrightarrow> r \<in> set routes \<and> resolve_route_ingress_mode r = rq_mode request
      \<and> (\<exists>s. score_route_match compile (normalize_lookup_request request) (r_match r) = Some s)"
    by (auto simp: scored_routes_iff)
  finally show ?thesis by (simp only: score_route_match_meets)
qed

lemma scored_routes_ids:
  assumes "distinct (map r_id routes)"
  shows "inj_on rank (set (scored_routes compile request routes))"
proof (rule inj_onI)
  fix c d assume c: "c \<in> set (scored_routes compile request routes)" and d: "d \<in> set (scored_routes compile request routes)"
    and eq: "rank c = rank d"
  have "snd c \<in> set routes" "snd d \<in> set routes"
    using c d scored_routes_iff by (metis prod.collapse)+
  moreover have "r_id (snd c) = r_id (snd d)" "fst c = fst d" using eq by (auto simp: rank_def)
  ultimately show "c = d" using assms by (auto simp: distinct_map inj_on_def prod_eq_iff)
qed

text \<open>
  The outcome of matching does not depend on the order in which the registry lists its
  routes (it iterates over a map): routes with distinct ids are matched to the same list,
  whichever way they are arranged.
\<close>

theorem match_routes_order_free:
  assumes "distinct (map r_id routes)" "mset routes' = mset routes"
  shows "match_routes compile request routes' = match_routes compile request routes"
proof -
  have *: "mset (scored_routes compile request routes') = mset (scored_routes compile request routes)"
    unfolding scored_routes_def Let_def by (rule mset_map_filter_cong [OF assms(2)])
  have "inj_on rank (set (scored_routes compile request routes'))"
    using scored_routes_ids [OF assms(1)] * by (metis mset_eq_setD)
  then have "sort_key rank (scored_routes compile request routes') = sort_key rank (scored_routes compile request routes)"
    by (intro sort_key_inj_key_eq) (simp_all add: *)
  then show ?thesis by (simp add: match_routes_def)
qed

lemma match_routes_order_free_witness:
  "\<exists>compile request r s. r_id r \<noteq> r_id s
     \<and> match_routes compile request [s, r] = match_routes compile request [r, s]
     \<and> map r_id (match_routes compile request [r, s]) = [''a'', ''b'']"
proof -
  let ?r = "\<lambda>i. \<lparr>r_id = i, r_scope = no_scope, r_injection = \<lparr>InjectScope = no_scope, InjectPolicy = ScopeInjectPolicyDisabled\<rparr>,
      r_version = 1, r_match = \<lparr>rm_protocol = [], rm_host = [], rm_authority = [], rm_listen_port = 0,
        rm_path_prefix = [], rm_sni = [], rm_headers = [], rm_queries = []\<rparr>,
      r_target = \<lparr>rt_type = RouteTargetTypeOther [], rt_connector = None, rt_external = None\<rparr>, r_policy = [],
      r_priority = 0, r_status = [], r_metadata = []\<rparr>"
  let ?q = "\<lparr>rq_mode = IngressModeL7Shared, rq_protocol = [], rq_host = [], rq_authority = [], rq_path = [],
      rq_sni = [], rq_port = 0, rq_namespace = [], rq_environment = [], rq_metadata = [], rq_headers = [], rq_queries = []\<rparr>"
  have "match_routes (\<lambda>_. None) ?q [?r ''b'', ?r ''a''] = match_routes (\<lambda>_. None) ?q [?r ''a'', ?r ''b'']"
    by (rule match_routes_order_free) simp_all
  moreover have "map r_id (match_routes (\<lambda>_. None) ?q [?r ''a'', ?r ''b'']) = [''a'', ''b'']"
    by (simp add: match_routes_def scored_routes_def normalize_lookup_request_def resolve_route_ingress_mode_def
      ingress_mode_of_match_def score_route_match_def criterion_def rank_def Let_def map_filter_def
      normalize_route_host_value_def normalize_route_authority_value_def normalize_route_query_matchers_def
      normalize_route_header_matchers_def normalize_matchers_def)
  ultimately show ?thesis by (intro exI [of _ "\<lambda>_. None"] exI [of _ ?q] exI [of _ "?r ''a''"] exI [of _ "?r ''b''"]) simp
qed

text \<open>
  What matching returns: exactly the routes of the request's ingress mode whose every stated
  criterion the request meets; ordered so that no route comes after one of lower priority, nor
  after one of the same priority and a lower score.
\<close>

theorem match_routes_selects:
  "(\<forall>r. r \<in> set (match_routes compile request routes) \<longleftrightarrow>
        r \<in> set routes \<and> resolve_route_ingress_mode r = rq_mode request
        \<and> meets compile (normalize_lookup_request request) (r_match r))
   \<and> sorted_wrt (\<lambda>r s. r_priority s < r_priority r
        \<or> (r_priority s = r_priority r
           \<and> the (score_route_match compile (normalize_lookup_request request) (r_match s))
               \<le> the (score_route_match compile (normalize_lookup_request request) (r_match r))))
       (match_routes compile request routes)"
proof -
  let ?cs = "sort_key rank (scored_routes compile request routes)"
  have "sorted_wrt (\<lambda>c d. rank c \<le> rank d) ?cs" using sorted_sort_key [of rank] by (simp add: sorted_map)
  then have "sorted_wrt (\<lambda>c d. r_priority (snd d) < r_priority (snd c)
      \<or> (r_priority (snd d) = r_priority (snd c) \<and> fst d \<le> fst c)) ?cs"
    by (rule sorted_wrt_mono_rel [rotated]) (auto simp: rank_def less_eq_prod_def word_less_def word_uint_eq_iff)
  then have "sorted_wrt (\<lambda>c d. r_priority (snd d) < r_priority (snd c)
      \<or> (r_priority (snd d) = r_priority (snd c)
         \<and> the (score_route_match compile (normalize_lookup_request request) (r_match (snd d)))
             \<le> the (score_route_match compile (normalize_lookup_request request) (r_match (snd c))))) ?cs"
    by (rule sorted_wrt_mono_rel [rotated]) (auto simp: scored_routes_iff)
  then show ?thesis by (simp add: match_routes_iff) (simp add: match_routes_def sorted_wrt_map)
qed

end
