(* ===== verification/Instance_Selection.thy ===== *)
theory Instance_Selection
  imports Bridge_Sessions Bridge_Services Route_Matching
begin

text \<open>
  Which instance of a service serves a request: the selection algorithms
  (\<open>cloud-bridge/runtime/bridge/routing/instance_selector.go\<close>) against one contract, the locale
  \<open>instance_selector\<close>, and the table that keeps a traffic on its instance
  (\<open>traffic_affinity.go\<close>).
\<close>

section \<open>Traffic affinity\<close>

record affinity_entry =
  ae_instance :: string
  ae_expires :: gotime

record affinity_store =
  af_ttl :: duration
  af_capacity :: int
  af_entries :: "(string, affinity_entry) gomap"

definition default_traffic_affinity_ttl :: duration where
  "default_traffic_affinity_ttl = 2 * 60 * 1000000000"

definition default_traffic_affinity_capacity :: int where
  "default_traffic_affinity_capacity = 16384"

definition new_traffic_affinity_store :: "duration \<Rightarrow> int \<Rightarrow> affinity_store" where
  "new_traffic_affinity_store ttl capacity =
     \<lparr>af_ttl = (if ttl \<le> 0 then default_traffic_affinity_ttl else ttl),
      af_capacity = (if capacity \<le> 0 then default_traffic_affinity_capacity else capacity),
      af_entries = []\<rparr>"

definition affinity_load :: "gotime \<Rightarrow> string \<Rightarrow> gotime \<Rightarrow> affinity_store \<Rightarrow> string option \<times> affinity_store" where
  "affinity_load wall traffic now0 st =
     (let t = trim_space traffic; now = now_or wall now0
      in if t = [] then (None, st)
         else case map_of (af_entries st) t of
                None \<Rightarrow> (None, st)
              | Some e \<Rightarrow>
                  if \<not> now < ae_expires e then (None, st\<lparr>af_entries := map_del t (af_entries st)\<rparr>)
                  else (Some (ae_instance e), st))"

definition cleanup_expired :: "gotime \<Rightarrow> affinity_store \<Rightarrow> affinity_store" where
  "cleanup_expired now st = st\<lparr>af_entries := filter (\<lambda>(t, e). now < ae_expires e) (af_entries st)\<rparr>"

definition oldest_entry :: "(string, affinity_entry) gomap \<Rightarrow> string \<times> gotime" where
  "oldest_entry m =
     fold (\<lambda>(t, e) (oldest, at). if oldest = [] \<or> ae_expires e < at then (t, ae_expires e) else (oldest, at)) m ([], zero_time)"

definition evict_oldest :: "affinity_store \<Rightarrow> affinity_store" where
  "evict_oldest st =
     (let oldest = fst (oldest_entry (af_entries st))
      in if oldest \<noteq> [] then st\<lparr>af_entries := map_del oldest (af_entries st)\<rparr> else st)"

definition affinity_put :: "gotime \<Rightarrow> string \<Rightarrow> string \<Rightarrow> gotime \<Rightarrow> affinity_store \<Rightarrow> affinity_store" where
  "affinity_put wall traffic inst now0 st =
     (let t = trim_space traffic; i = trim_space inst; now = now_or wall now0
      in if t = [] \<or> i = [] then st
         else
           let st1 = (if \<not> has_key (af_entries st) t \<and> int (length (af_entries st)) \<ge> af_capacity st
                      then let cleaned = cleanup_expired now st
                           in if int (length (af_entries cleaned)) \<ge> af_capacity st then evict_oldest cleaned else cleaned
                      else st)
           in st1\<lparr>af_entries := map_put t \<lparr>ae_instance = i, ae_expires = now + af_ttl st\<rparr> (af_entries st1)\<rparr>)"

text \<open>Every operation of the store.\<close>

inductive affinity_step :: "affinity_store \<Rightarrow> affinity_store \<Rightarrow> bool" where
  load: "affinity_step st (snd (affinity_load wall traffic now st))"
| put: "affinity_step st (affinity_put wall traffic inst now st)"

inductive_simps affinity_step_iff: "affinity_step st st'"


section \<open>Selection algorithms\<close>

text \<open>A candidate of a connector target.\<close>

record connector_resolution =
  cr_service :: logical_service
  cr_instance :: service_instance
  cr_session :: session_runtime

record selection_request =
  Policy :: string
  StickyKey :: string

text \<open>
  A selector maps its sequence number, the request and the candidates to the chosen candidate
  and the next sequence number; \<open>None\<close> is the empty resolution it returns without candidates.
\<close>

definition candidate_id :: "connector_resolution \<Rightarrow> string" where
  "candidate_id c = trim_space (si_id (cr_instance c))"

definition round_robin_select ::
    "64 word \<Rightarrow> selection_request \<Rightarrow> connector_resolution list \<Rightarrow> connector_resolution option \<times> 64 word" where
  "round_robin_select seq request cs =
     (if cs = [] then (None, seq)
      else if length cs = 1 then (Some (hd cs), seq)
      else (Some (cs ! unat (seq mod word_of_nat (length cs))), seq + 1))"

text \<open>\<open>rng.Intn\<close> is the environment's.\<close>

definition random_select ::
    "(nat \<Rightarrow> nat) \<Rightarrow> 64 word \<Rightarrow> selection_request \<Rightarrow> connector_resolution list \<Rightarrow> connector_resolution option \<times> 64 word" where
  "random_select intn seq request cs =
     (if cs = [] then (None, seq)
      else if length cs = 1 then (Some (hd cs), seq)
      else (Some (cs ! intn (length cs)), seq))"

text \<open>\<open>fnv.New64a\<close>.\<close>

definition fnv64a :: "string \<Rightarrow> 64 word" where
  "fnv64a s = foldl (\<lambda>h c. xor h (of_char c) * 1099511628211) 14695981039346656037 s"

definition sticky_select ::
    "64 word \<Rightarrow> selection_request \<Rightarrow> connector_resolution list \<Rightarrow> connector_resolution option \<times> 64 word" where
  "sticky_select seq request cs =
     (if cs = [] then (None, seq)
      else if length cs = 1 then (Some (hd cs), seq)
      else let key = trim_space (StickyKey request)
           in if key = [] then round_robin_select seq request cs
              else let sorted = sort_key candidate_id cs
                   in (Some (sorted ! unat (fnv64a key mod word_of_nat (length sorted))), seq))"

definition parse_positive_weight :: "string \<Rightarrow> int" where
  "parse_positive_weight raw =
     (let t = trim_space raw
      in if t = [] then 0 else case atoi t of None \<Rightarrow> 0 | Some w \<Rightarrow> if w \<le> 0 then 0 else w)"

definition resolve_candidate_weight :: "connector_resolution \<Rightarrow> int" where
  "resolve_candidate_weight c =
     (let w = parse_positive_weight (label (si_metadata (cr_instance c)) ''weight'')
      in if w > 0 then w
         else let w' = parse_positive_weight (label (si_labels (cr_instance c)) ''weight'')
              in if w' > 0 then w' else 1)"

fun first_beyond :: "int \<Rightarrow> int \<Rightarrow> connector_resolution list \<Rightarrow> connector_resolution option" where
  "first_beyond cursor acc [] = None"
| "first_beyond cursor acc (c # cs) =
     (let acc' = wrap64 (acc + resolve_candidate_weight c)
      in if cursor < acc' then Some c else first_beyond cursor acc' cs)"

definition weighted_select ::
    "64 word \<Rightarrow> selection_request \<Rightarrow> connector_resolution list \<Rightarrow> connector_resolution option \<times> 64 word" where
  "weighted_select seq request cs =
     (if cs = [] then (None, seq)
      else if length cs = 1 then (Some (hd cs), seq)
      else let total = foldl (\<lambda>t c. wrap64 (t + resolve_candidate_weight c)) 0 cs
           in if total \<le> 0 then (Some (hd cs), seq)
              else (case first_beyond (uint (seq mod word_of_int total)) 0 cs of
                      Some c \<Rightarrow> Some c | None \<Rightarrow> Some (last cs),
                    seq + 1))"

text \<open>The selectors a resolver keeps, one of each kind, by the name of the algorithm.\<close>

datatype algorithm = RoundRobin | Random | Sticky | Weighted

definition normalize_load_balance_policy :: "string \<Rightarrow> algorithm" where
  "normalize_load_balance_policy policy =
     (let p = to_lower (trim_space policy)
      in if p = ''random'' then Random else if p = ''sticky'' then Sticky
         else if p = ''weighted'' then Weighted else RoundRobin)"

record selector_set =
  sel_round_robin :: "64 word"
  sel_sticky :: "64 word"
  sel_weighted :: "64 word"

definition run_selector ::
    "(nat \<Rightarrow> nat) \<Rightarrow> algorithm \<Rightarrow> selection_request \<Rightarrow> connector_resolution list \<Rightarrow> selector_set
       \<Rightarrow> connector_resolution option \<times> selector_set" where
  "run_selector intn algorithm request cs s =
     (case algorithm of
        RoundRobin \<Rightarrow> let (c, n) = round_robin_select (sel_round_robin s) request cs in (c, s\<lparr>sel_round_robin := n\<rparr>)
      | Random \<Rightarrow> (fst (random_select intn 0 request cs), s)
      | Sticky \<Rightarrow> let (c, n) = sticky_select (sel_sticky s) request cs in (c, s\<lparr>sel_sticky := n\<rparr>)
      | Weighted \<Rightarrow> let (c, n) = weighted_select (sel_weighted s) request cs in (c, s\<lparr>sel_weighted := n\<rparr>))"



section \<open>What every selector promises\<close>

locale instance_selector =
  fixes select :: "64 word \<Rightarrow> selection_request \<Rightarrow> connector_resolution list \<Rightarrow> connector_resolution option \<times> 64 word"
  assumes chooses: "cs \<noteq> [] \<Longrightarrow> \<exists>c \<in> set cs. fst (select seq request cs) = Some c"
    and no_candidates: "fst (select seq request []) = None"
begin

lemma chosen_mem: "fst (select seq request cs) = Some c \<Longrightarrow> c \<in> set cs"
  using chooses [of cs seq request] no_candidates by (cases "cs = []") auto

lemma single [simp]: "fst (select seq request [c]) = Some c"
  using chooses [of "[c]"] by simp

end

lemma unat_mod_less: "0 < n \<Longrightarrow> n < 2 ^ 64 \<Longrightarrow> unat (w mod word_of_nat n :: 64 word) = unat w mod n"
  by (simp add: unat_mod_distrib unat_of_nat)

lemma residue_less: "cs \<noteq> [] \<Longrightarrow> unat (w mod word_of_nat (length cs) :: 64 word) < length cs
    \<or> 2 ^ 64 \<le> length cs"
  by (cases "length cs < 2 ^ 64") (simp_all add: unat_mod_less)

lemma residue_nth: "cs \<noteq> [] \<Longrightarrow> cs ! unat (w mod word_of_nat (length cs) :: 64 word) \<in> set cs"
proof (cases "length cs < 2 ^ 64")
  case False
  have "unat (w mod word_of_nat (length cs) :: 64 word) < 2 ^ 64" using unsigned_less [where ?'b = 64, of "w mod word_of_nat (length cs)"] by simp
  with False show ?thesis by (intro nth_mem) linarith
qed (simp add: unat_mod_less)

interpretation round_robin: instance_selector round_robin_select
  by unfold_locales (auto simp: round_robin_select_def residue_nth)

interpretation sticky: instance_selector sticky_select
proof unfold_locales
  show "\<exists>c \<in> set cs. fst (sticky_select seq request cs) = Some c" if "cs \<noteq> []" for cs seq request
  proof -
    have "sort_key candidate_id cs ! unat (w mod word_of_nat (length (sort_key candidate_id cs))) \<in> set cs" for w :: "64 word"
      using residue_nth [of "sort_key candidate_id cs" w] that by (metis length_sort list.size(3) length_0_conv set_sort)
    then show ?thesis
      using that round_robin.chooses [OF that] by (auto simp: sticky_select_def Let_def)
  qed
qed (simp add: sticky_select_def)

lemma first_beyond_mem: "first_beyond cursor acc cs = Some c \<Longrightarrow> c \<in> set cs"
  by (induction cs arbitrary: acc) (auto simp: Let_def split: if_splits)

interpretation weighted: instance_selector weighted_select
  by unfold_locales (auto simp: weighted_select_def Let_def dest: first_beyond_mem split: option.splits)

lemma run_selector_chooses:
  assumes "cs \<noteq> []" "\<And>n. 0 < n \<Longrightarrow> intn n < n"
  shows "\<exists>c \<in> set cs. fst (run_selector intn algorithm request cs s) = Some c"
proof (cases algorithm)
  case Random
  have "cs ! intn (length cs) \<in> set cs" using assms by simp
  with Random assms(1) show ?thesis by (auto simp: run_selector_def random_select_def)
qed (use round_robin.chooses [OF assms(1)] sticky.chooses [OF assms(1)] weighted.chooses [OF assms(1)]
     in \<open>simp_all add: run_selector_def case_prod_unfold Let_def\<close>)

text \<open>
  Whatever the algorithm, the state of its counters and the answers of the random source, a
  selector chooses one of the candidates it is given.
\<close>

theorem selection_is_a_candidate:
  assumes "cs \<noteq> []" "\<And>n. 0 < n \<Longrightarrow> intn n < n"
  shows "\<exists>c \<in> set cs. fst (run_selector intn algorithm request cs s) = Some c"
  using assms by (rule run_selector_chooses)

section \<open>Fairness\<close>

text \<open>The choices of \<open>n\<close> consecutive calls with the same candidates.\<close>

fun choices :: "(64 word \<Rightarrow> connector_resolution option \<times> 64 word) \<Rightarrow> nat \<Rightarrow> 64 word \<Rightarrow> connector_resolution option list" where
  "choices select 0 seq = []"
| "choices select (Suc n) seq = (let (c, seq') = select seq in c # choices select n seq')"

lemma choices_counting:
  assumes "\<And>s. unat s < unat seq + n \<Longrightarrow> select s = (f (unat s), s + 1)" "unat seq + n < 2 ^ 64"
  shows "choices select n seq = map (\<lambda>j. f (unat seq + j)) [0..<n]"
  using assms
proof (induction n arbitrary: seq)
  case (Suc n)
  have next_seq: "unat (seq + 1) = unat seq + 1"
    using Suc.prems(2) by (simp add: unat_word_ariths)
  have "choices select n (seq + 1) = map (\<lambda>j. f (unat (seq + 1) + j)) [0..<n]"
    using Suc.prems by (intro Suc.IH) (auto simp: next_seq)
  moreover have "select seq = (f (unat seq), seq + 1)" using Suc.prems by simp
  ultimately show ?case by (simp add: next_seq map_upt_Suc del: upt_Suc)
qed simp

lemma residues_rotate:
  "map (\<lambda>j. xs ! ((s + j) mod length xs)) [0..<length xs] = rotate s xs"
  by (rule nth_equalityI) (auto simp: nth_rotate)


lemma mset_rotate [simp]: "mset (rotate n xs) = mset xs"
  by (metis append_take_drop_id mset_append rotate_drop_take union_commute)

text \<open>
  Round robin serves every candidate: of as many consecutive calls as there are candidates,
  each candidate gets exactly one (its counter not wrapping around on the way).
\<close>

theorem round_robin_serves_all:
  assumes "unat seq + length cs < 2 ^ 64"
  shows "mset (choices (\<lambda>s. round_robin_select s request cs) (length cs) seq) = mset (map Some cs)"
proof (cases "length cs \<le> 1")
  case True
  then show ?thesis by (cases cs) (auto simp: round_robin_select_def)
next
  case False
  then have "choices (\<lambda>s. round_robin_select s request cs) (length cs) seq
      = map (\<lambda>j. Some (cs ! ((unat seq + j) mod length cs))) [0..<length cs]"
    using assms by (intro choices_counting) (auto simp: round_robin_select_def unat_mod_less)
  also have "\<dots> = map Some (rotate (unat seq) cs)" by (simp flip: residues_rotate)
  finally show ?thesis by (metis mset_map mset_rotate)
qed

text \<open>Weighted selection is round robin over the candidates, each repeated as often as it weighs.\<close>

definition total_weight :: "connector_resolution list \<Rightarrow> int" where
  "total_weight cs = sum_list (map resolve_candidate_weight cs)"

definition weighed_out :: "connector_resolution list \<Rightarrow> connector_resolution list" where
  "weighed_out cs = concat (map (\<lambda>c. replicate (nat (resolve_candidate_weight c)) c) cs)"

lemma weight_pos: "0 < resolve_candidate_weight c"
  by (simp add: resolve_candidate_weight_def Let_def)

lemma total_weight_Cons [simp]: "total_weight (c # cs) = resolve_candidate_weight c + total_weight cs"
  by (simp add: total_weight_def)

lemma total_weight_nonneg [simp]: "0 \<le> total_weight cs"
  unfolding total_weight_def by (rule sum_list_nonneg) (auto intro: less_imp_le weight_pos)

lemma length_weighed_out: "int (length (weighed_out cs)) = total_weight cs"
  by (induction cs) (simp_all add: weighed_out_def total_weight_def less_imp_le weight_pos)

lemma wrap_weight:
  assumes "0 \<le> t" "t + total_weight (c # cs) \<le> max_int64"
  shows "wrap64 (t + resolve_candidate_weight c) = t + resolve_candidate_weight c"
proof (rule wrap64_id)
  show "min_int64 \<le> t + resolve_candidate_weight c"
    using assms(1) weight_pos [of c] by (simp add: min_int64_def)
  show "t + resolve_candidate_weight c \<le> max_int64"
    using assms(2) total_weight_nonneg [of cs] unfolding total_weight_Cons by linarith
qed

lemma foldl_total:
  "0 \<le> t \<Longrightarrow> t + total_weight cs \<le> max_int64 \<Longrightarrow>
   foldl (\<lambda>t c. wrap64 (t + resolve_candidate_weight c)) t cs = t + total_weight cs"
proof (induction cs arbitrary: t)
  case (Cons c cs)
  have "wrap64 (t + resolve_candidate_weight c) = t + resolve_candidate_weight c"
    using Cons.prems by (intro wrap_weight)
  then show ?case using Cons.prems Cons.IH [of "t + resolve_candidate_weight c"] weight_pos [of c] by simp
qed (simp add: total_weight_def)

lemma first_beyond_nth:
  "0 \<le> acc \<Longrightarrow> acc \<le> cursor \<Longrightarrow> cursor < acc + total_weight cs \<Longrightarrow> acc + total_weight cs \<le> max_int64 \<Longrightarrow>
   first_beyond cursor acc cs = Some (weighed_out cs ! nat (cursor - acc))"
proof (induction cs arbitrary: acc)
  case (Cons c cs)
  let ?w = "resolve_candidate_weight c"
  have w: "wrap64 (acc + ?w) = acc + ?w"
    using Cons.prems by (intro wrap_weight)
  show ?case
  proof (cases "cursor < acc + ?w")
    case True
    then show ?thesis using Cons.prems by (simp add: w weighed_out_def nth_append)
  next
    case False
    then have "first_beyond cursor (acc + ?w) cs = Some (weighed_out cs ! nat (cursor - (acc + ?w)))"
      using Cons.prems weight_pos [of c] by (intro Cons.IH) auto
    moreover have "nat (cursor - acc) = nat ?w + nat (cursor - (acc + ?w))"
      using False weight_pos [of c] by linarith
    ultimately show ?thesis using False by (simp add: w weighed_out_def nth_append)
  qed
qed (simp add: total_weight_def)

lemma weighted_select_nth:
  assumes "2 \<le> length cs" "total_weight cs \<le> max_int64"
  shows "weighted_select s request cs
    = (Some (weighed_out cs ! (unat s mod length (weighed_out cs))), s + 1)"
proof -
  let ?t = "total_weight cs"
  have pos: "0 < ?t" using assms(1) weight_pos [of "hd cs"] by (cases cs) (auto intro: add_pos_nonneg)
  have lt: "?t < 2 ^ 64" using assms(2) by (simp add: max_int64_def)
  have t: "uint (word_of_int ?t :: 64 word) = ?t" using pos lt by (simp add: unsigned_of_int take_bit_int_eq_self)
  have m: "uint (s mod word_of_int ?t) = uint s mod ?t" by (simp add: uint_mod_distrib t)
  have l: "length (weighed_out cs) = nat ?t" using length_weighed_out [of cs] by linarith
  have "foldl (\<lambda>t c. wrap64 (t + resolve_candidate_weight c)) 0 cs = ?t"
    using foldl_total [of 0 cs] assms(2) by simp
  moreover have "first_beyond (uint s mod ?t) 0 cs = Some (weighed_out cs ! nat (uint s mod ?t))"
    using first_beyond_nth [of 0 "uint s mod ?t" cs] pos assms(2) by simp
  moreover have "nat (uint s mod ?t) = unat s mod length (weighed_out cs)"
    using pos by (simp add: l nat_mod_distrib)
  ultimately show ?thesis using assms(1) pos by (auto simp: weighted_select_def m Let_def)
qed

text \<open>
  Weighted selection is proportional: of as many consecutive calls as the weights add up to,
  each candidate gets exactly as many as it weighs.
\<close>

theorem weighted_shares:
  assumes "total_weight cs \<le> max_int64" "uint seq + total_weight cs < 2 ^ 64"
  shows "mset (choices (\<lambda>s. weighted_select s request cs) (nat (total_weight cs)) seq) = mset (map Some (weighed_out cs))"
proof (cases "length cs \<le> 1")
  case True
  have "choices (\<lambda>s. weighted_select s request [c]) n seq = replicate n (Some c)" for c n
    by (induction n) (simp_all add: weighted_select_def)
  then show ?thesis using True by (cases cs) (auto simp: weighed_out_def total_weight_def)
next
  case False
  have l: "length (weighed_out cs) = nat (total_weight cs)" using length_weighed_out [of cs] by linarith
  have s: "int (unat seq) = uint seq" by simp
  have "choices (\<lambda>s. weighted_select s request cs) (nat (total_weight cs)) seq
      = map (\<lambda>j. Some (weighed_out cs ! ((unat seq + j) mod length (weighed_out cs)))) [0..<nat (total_weight cs)]"
  proof (rule choices_counting)
    show "unat seq + nat (total_weight cs) < 2 ^ 64"
      using assms(2) total_weight_nonneg [of cs] s by (simp only: of_nat_less_iff [symmetric, where 'a=int]) simp
  qed (use assms(1) False in \<open>simp add: weighted_select_nth\<close>)
  also have "\<dots> = map Some (rotate (unat seq) (weighed_out cs))" by (simp flip: residues_rotate l)
  finally show ?thesis by (metis mset_map mset_rotate)
qed



section \<open>Stickiness\<close>

lemma sort_ids_order_free:
  assumes "distinct (map candidate_id cs)" "mset cs' = mset cs"
  shows "sort_key candidate_id cs' = sort_key candidate_id cs"
  using assms by (intro sort_key_inj_key_eq) (auto simp: distinct_map dest: mset_eq_setD)

text \<open>
  A sticky selection depends on the key and on the set of candidates alone: neither the order
  in which the registry lists them nor the selections made before change it.
\<close>

theorem sticky_is_stable:
  assumes "trim_space (StickyKey request) \<noteq> []" "distinct (map candidate_id cs)" "mset cs' = mset cs"
  shows "fst (sticky_select seq' request cs') = fst (sticky_select seq request cs)"
proof -
  have l: "length cs' = length cs" using assms(3) by (metis size_mset)
  show ?thesis
  proof (cases "length cs = 1")
    case True
    then have "cs' = cs" using assms(3) l by (cases cs; cases cs') auto
    with True show ?thesis by (auto simp: sticky_select_def)
  next
    case False
    then show ?thesis using assms(1) l sort_ids_order_free [OF assms(2, 3)] by (auto simp: sticky_select_def Let_def)
  qed
qed

section \<open>The affinity table\<close>

text \<open>Keys are not blank, and there are at most as many entries as the capacity allows.\<close>

definition affinity_ok :: "affinity_store \<Rightarrow> bool" where
  "affinity_ok st \<longleftrightarrow> keys_distinct (af_entries st) \<and> [] \<notin> fst ` set (af_entries st)
     \<and> 0 < af_capacity st \<and> int (length (af_entries st)) \<le> af_capacity st"

lemma oldest_entry_key:
  assumes "[] \<notin> fst ` set m" "m \<noteq> []"
  shows "fst (oldest_entry m) \<in> fst ` set m"
proof -
  have "fst (fold (\<lambda>(t, e) (oldest, at). if oldest = [] \<or> ae_expires e < at then (t, ae_expires e) else (oldest, at)) m a)
      \<in> fst ` set m \<union> ({fst a} - {[]})" if "m \<noteq> [] \<or> fst a \<noteq> []" "[] \<notin> fst ` set m" for a :: "string \<times> gotime" and m
    using that
  proof (induction m arbitrary: a)
    case (Cons p m)
    let ?f = "\<lambda>(t, e) (oldest, at). if oldest = [] \<or> ae_expires e < at then (t, ae_expires e) else (oldest, at :: gotime)"
    have "fst (?f p a) \<noteq> []" "fst (?f p a) \<in> {fst p, fst a}"
      using Cons.prems(2) by (auto simp: case_prod_unfold)
    with Cons.IH [of "?f p a"] Cons.prems(2) show ?case by (auto simp: case_prod_unfold split: if_splits)
  qed auto
  from this [of m "([], zero_time)"] assms show ?thesis by (auto simp: oldest_entry_def)
qed

lemma evict_oldest_ok:
  assumes "affinity_ok st"
  shows "affinity_ok (evict_oldest st) \<and> int (length (af_entries (evict_oldest st))) < af_capacity st"
proof (cases "af_entries st = []")
  case True
  then show ?thesis using assms by (simp add: evict_oldest_def oldest_entry_def affinity_ok_def)
next
  case False
  let ?k = "fst (oldest_entry (af_entries st))"
  have k: "?k \<in> fst ` set (af_entries st)" using oldest_entry_key False assms by (auto simp: affinity_ok_def)
  then have "?k \<noteq> []" "has_key (af_entries st) ?k" using assms unfolding has_key_iff affinity_ok_def by metis+
  moreover from this have "Suc (length (map_del ?k (af_entries st))) = length (af_entries st)"
    using assms by (intro length_del) (auto simp: affinity_ok_def)
  ultimately show ?thesis using assms by (auto simp: evict_oldest_def Let_def affinity_ok_def)
qed

lemma affinity_ok_cleanup: "affinity_ok st \<Longrightarrow> affinity_ok (cleanup_expired now st)"
proof -
  assume ok: "affinity_ok st"
  have "length (filter (\<lambda>(t, e). now < ae_expires e) (af_entries st)) \<le> length (af_entries st)" by (rule length_filter_le)
  then have "int (length (filter (\<lambda>(t, e). now < ae_expires e) (af_entries st))) \<le> af_capacity st"
    using ok unfolding affinity_ok_def by linarith
  with ok show ?thesis by (auto simp: affinity_ok_def cleanup_expired_def image_iff)
qed

lemma affinity_ok_write:
  assumes "affinity_ok st" "t \<noteq> []" "has_key (af_entries st) t \<or> int (length (af_entries st)) < af_capacity st"
  shows "affinity_ok (st\<lparr>af_entries := map_put t e (af_entries st)\<rparr>)"
  using assms by (fastforce simp: affinity_ok_def length_put image_iff dest!: set_map_put)

lemma affinity_fields [simp]:
  "af_capacity (cleanup_expired now st) = af_capacity st" "af_ttl (cleanup_expired now st) = af_ttl st"
  "af_capacity (evict_oldest st) = af_capacity st" "af_ttl (evict_oldest st) = af_ttl st"
  by (simp_all add: cleanup_expired_def evict_oldest_def Let_def)

lemma affinity_ok_put:
  assumes "affinity_ok st"
  shows "affinity_ok (affinity_put wall traffic inst now0 st)"
proof -
  define t where "t = trim_space traffic"
  define now where "now = now_or wall now0"
  define e where "e = \<lparr>ae_instance = trim_space inst, ae_expires = now + af_ttl st\<rparr>"
  have w: "affinity_ok (st'\<lparr>af_entries := map_put t e (af_entries st')\<rparr>)"
    if "t \<noteq> []" "affinity_ok st'" "af_capacity st' = af_capacity st"
       "has_key (af_entries st') t \<or> int (length (af_entries st')) < af_capacity st" for st'
    using that by (intro affinity_ok_write) auto
  have c: "affinity_ok (cleanup_expired now st)" using assms by (rule affinity_ok_cleanup)
  show ?thesis
    using assms w [of st] w [OF _ c] w [of "evict_oldest (cleanup_expired now st)"] evict_oldest_ok [OF c]
    unfolding affinity_put_def Let_def t_def [symmetric] now_def [symmetric] e_def [symmetric]
    by (simp split del: if_split split: if_split)
qed

lemma affinity_ok_step: "affinity_step st st' \<Longrightarrow> affinity_ok st \<Longrightarrow> affinity_ok st'"
proof (induction rule: affinity_step.induct)
  case (load st wall traffic now)
  have "length (map_del k (af_entries st)) \<le> length (af_entries st)" for k by (rule length_del_le)
  then have "int (length (map_del k (af_entries st))) \<le> af_capacity st" for k
    using load by (meson affinity_ok_def of_nat_le_iff order_trans)
  with load show ?case by (auto simp: affinity_load_def affinity_ok_def Let_def split: option.split)
qed (rule affinity_ok_put)

text \<open>
  The affinity table is bounded: whatever is loaded and stored, and at whatever times, it
  never holds more entries than its capacity, nor two for one traffic.
\<close>

theorem affinity_bounded:
  assumes "affinity_step\<^sup>*\<^sup>* (new_traffic_affinity_store ttl capacity) st"
  shows "int (length (af_entries st)) \<le> af_capacity st \<and> keys_distinct (af_entries st)
     \<and> af_capacity st = (if capacity \<le> 0 then default_traffic_affinity_capacity else capacity)"
proof -
  have "affinity_ok st \<and> af_capacity st = (if capacity \<le> 0 then default_traffic_affinity_capacity else capacity)"
    using assms
  proof induction
    case base
    show ?case by (simp add: new_traffic_affinity_store_def affinity_ok_def default_traffic_affinity_capacity_def)
  next
    case (step y z)
    moreover have "af_capacity z = af_capacity y"
      using step(2) by (auto simp: affinity_step_iff affinity_load_def affinity_put_def Let_def split: option.split)
    ultimately show ?case using affinity_ok_step by metis
  qed
  then show ?thesis by (simp add: affinity_ok_def)
qed

text \<open>A traffic stays on its instance until the entry expires.\<close>

lemma affinity_remembers:
  assumes "trim_space traffic \<noteq> []" "trim_space inst \<noteq> []" "now_or wall' now' < now_or wall now + af_ttl st"
  shows "affinity_load wall' traffic now' (affinity_put wall traffic inst now st)
    = (Some (trim_space inst), affinity_put wall traffic inst now st)"
  using assms by (simp add: affinity_load_def affinity_put_def Let_def)



section \<open>Examples\<close>

definition sample_candidate :: "string \<Rightarrow> connector_resolution" where
  "sample_candidate i = \<lparr>cr_service = sample_service, cr_instance = sample_instance\<lparr>si_id := i\<rparr>,
     cr_session = \<lparr>sr_session = ''x'', sr_connector = ''c'', sr_epoch = 1, sr_binding = [], sr_state = SessionActive,
       sr_heartbeat = 1, sr_updated_at = 1\<rparr>\<rparr>"

definition sample_candidates :: "connector_resolution list" where
  "sample_candidates = [sample_candidate ''i'', sample_candidate ''x'']"

lemma sample_weight: "resolve_candidate_weight (sample_candidate i) = 1"
  by (simp add: resolve_candidate_weight_def sample_candidate_def sample_instance_def label_def parse_positive_weight_def)

lemma sample_candidate_ids: "map candidate_id sample_candidates = [''i'', ''x'']"
  by (simp add: sample_candidates_def sample_candidate_def candidate_id_def trim_sample)

definition sample_selection :: selection_request where
  "sample_selection = \<lparr>Policy = [], StickyKey = ''c''\<rparr>"

lemma selection_is_a_candidate_witness:
  "\<exists>c \<in> set sample_candidates.
     fst (run_selector (\<lambda>n. n - 1) Random sample_selection sample_candidates
            \<lparr>sel_round_robin = 0, sel_sticky = 0, sel_weighted = 0\<rparr>) = Some c"
  by (rule selection_is_a_candidate) (simp_all add: sample_candidates_def)

lemma round_robin_serves_all_witness:
  "mset (choices (\<lambda>s. round_robin_select s sample_selection sample_candidates) 2 7) = mset (map Some sample_candidates)"
proof -
  have l: "length sample_candidates = 2" by (simp add: sample_candidates_def)
  show ?thesis using round_robin_serves_all [of 7 sample_candidates sample_selection] by (simp add: l)
qed

lemma weighted_shares_witness:
  "mset (choices (\<lambda>s. weighted_select s sample_selection sample_candidates) 2 7) = mset (map Some (weighed_out sample_candidates))"
proof -
  have t: "total_weight sample_candidates = 2"
    by (simp add: sample_candidates_def sample_weight) (simp add: total_weight_def)
  show ?thesis
    using weighted_shares [of sample_candidates 7 sample_selection] by (simp add: t max_int64_def)
qed

lemma sticky_is_stable_witness:
  "fst (sticky_select 3 sample_selection (rev sample_candidates)) = fst (sticky_select 0 sample_selection sample_candidates)"
  by (rule sticky_is_stable) (simp_all add: sample_candidate_ids sample_selection_def trim_sample)

lemma affinity_bounded_witness:
  "int (length (af_entries (affinity_put 1 ''s'' ''i'' 1 (new_traffic_affinity_store 1 1)))) \<le> 1
   \<and> map fst (af_entries (affinity_put 1 ''s'' ''i'' 1 (new_traffic_affinity_store 1 1))) = [''s'']"
proof -
  let ?st = "affinity_put 1 ''s'' ''i'' 1 (new_traffic_affinity_store 1 1)"
  have "affinity_step\<^sup>*\<^sup>* (new_traffic_affinity_store 1 1) ?st" by (intro r_into_rtranclp affinity_step.put)
  from affinity_bounded [OF this] show ?thesis
    by (simp add: affinity_put_def Let_def trim_sample new_traffic_affinity_store_def now_or_def zero_time_def)
qed

end
