(* ===== verification/Route_Resolver.thy ===== *)
theory Route_Resolver
  imports Instance_Selection Protocol_Types
begin

text \<open>
  The route resolver of the bridge (\<open>cloud-bridge/runtime/bridge/routing/resolver.go\<close>): from a
  request over the matching routes, the chain of scopes and the target of the route to an
  instance with its session, or to an external service. Metrics are not modelled.
\<close>

section \<open>State\<close>

record resolver =
  rv_routes :: route_registry
  rv_services :: service_registry
  rv_sessions :: session_registry
  rv_default_selector :: algorithm
  rv_default_scope :: scope
  rv_policies :: "(string, scope_fallback_policy) gomap"

text \<open>What a resolution changes: the counters of the selectors and the affinity table.\<close>

record resolver_state =
  rv_selectors :: selector_set
  rv_affinity :: affinity_store

text \<open>
  The environment of one resolution: regular expressions, the \<open>sticky_by\<close> of a policy in JSON,
  cookies of a header, and, per route tried, the two readings of the clock and the random source;
  and the selector that was put into the options, if any.
\<close>

type_synonym injected_selector = "connector_resolution list \<Rightarrow> selection_request \<Rightarrow> connector_resolution"

record resolve_env =
  re_compile :: compiler
  re_sticky_by :: "string \<Rightarrow> string option"
  re_cookie :: "string \<Rightarrow> string \<Rightarrow> string option"
  re_load_at :: "string \<Rightarrow> gotime"
  re_store_at :: "string \<Rightarrow> gotime"
  re_intn :: "string \<Rightarrow> nat \<Rightarrow> nat"
  re_selector :: "injected_selector option"

record resolve_result =
  rr_route :: route
  rr_kind :: route_target_type
  rr_mode :: ingress_mode
  rr_connector :: "connector_resolution option"
  rr_external :: "external_service_target option"
  rr_fallback :: bool
  rr_request_scope :: scope
  rr_matched_scope :: scope
  rr_path :: "scope list"

definition code_ingress_route_mismatch :: string where "code_ingress_route_mismatch = ''INGRESS_ROUTE_MISMATCH''"
definition code_resolve_service_not_found :: string where "code_resolve_service_not_found = ''RESOLVE_SERVICE_NOT_FOUND''"
definition code_resolve_service_unavailable :: string where
  "code_resolve_service_unavailable = ''RESOLVE_SERVICE_UNAVAILABLE''"
definition code_resolve_session_not_active :: string where
  "code_resolve_session_not_active = ''RESOLVE_SESSION_NOT_ACTIVE''"
definition code_invalid_scope :: string where "code_invalid_scope = ''INVALID_SCOPE''"

lemmas resolve_code_defs = code_ingress_route_mismatch_def code_resolve_service_not_found_def
  code_resolve_service_unavailable_def code_resolve_session_not_active_def code_invalid_scope_def


section \<open>Scopes\<close>

definition is_valid_scope :: "scope \<Rightarrow> bool" where
  "is_valid_scope s \<longleftrightarrow> trim_space (Namespace s) \<noteq> [] \<and> trim_space (Environment s) \<noteq> []"

definition scopes_equal :: "scope \<Rightarrow> scope \<Rightarrow> bool" where
  "scopes_equal s t \<longleftrightarrow> normalize_scope s = normalize_scope t"

definition scope_key :: "scope \<Rightarrow> string" where
  "scope_key s = trim_space (Namespace s) @ ''|'' @ trim_space (Environment s)"

definition build_fallback_policy_index :: "scope_fallback_policy list \<Rightarrow> (string, scope_fallback_policy) gomap" where
  "build_fallback_policy_index policies =
     fold (\<lambda>p m. let n = trim_space (fp_namespace p)
                 in if n = [] then m else map_put n (p\<lparr>fp_id := trim_space (fp_id p), fp_namespace := n\<rparr>) m)
       policies []"

definition resolve_request_scope :: "resolver \<Rightarrow> route_lookup_request \<Rightarrow> scope" where
  "resolve_request_scope rv q =
     (let n = trim_space (rq_namespace q); e = trim_space (rq_environment q); d = normalize_scope (rv_default_scope rv)
      in \<lparr>Namespace = (if n = [] then Namespace d else n), Environment = (if e = [] then Environment d else e)\<rparr>)"

text \<open>The loop over the chain of a policy, with the scopes seen so far.\<close>

fun extend_chain :: "scope list \<Rightarrow> string list \<Rightarrow> scope list" where
  "extend_chain [] seen = []"
| "extend_chain (step # steps) seen =
     (let s = normalize_scope step
      in if Namespace s = [] \<or> Environment s = [] \<or> scope_key s \<in> set seen then extend_chain steps seen
         else s # extend_chain steps (scope_key s # seen))"

definition build_scope_chain :: "resolver \<Rightarrow> scope \<Rightarrow> scope list" where
  "build_scope_chain rv request_scope =
     (let s = normalize_scope request_scope
      in if Namespace s = [] \<or> Environment s = [] then []
         else case map_of (rv_policies rv) (Namespace s) of
                None \<Rightarrow> [s]
              | Some p \<Rightarrow> if fp_enabled p then s # extend_chain (fp_chain p) [scope_key s] else [s])"

definition lookup_fallback_policy :: "resolver \<Rightarrow> scope \<Rightarrow> scope_fallback_policy option" where
  "lookup_fallback_policy rv s =
     (let n = trim_space (Namespace s) in if n = [] then None else map_of (rv_policies rv) n)"

definition is_external_fallback_enabled :: "resolver \<Rightarrow> scope \<Rightarrow> bool" where
  "is_external_fallback_enabled rv s =
     (case lookup_fallback_policy rv s of None \<Rightarrow> False | Some p \<Rightarrow> fp_enabled p \<and> ef_enabled (fp_external p))"

definition normalize_scope_inject_policy :: "scope_inject_policy \<Rightarrow> scope_inject_policy" where
  "normalize_scope_inject_policy p =
     (case p of
        ScopeInjectPolicyOther s \<Rightarrow>
          (let t = to_lower (trim_space s)
           in if t = ''always'' then ScopeInjectPolicyAlways
              else if t = ''missing_only'' then ScopeInjectPolicyMissingOnly else ScopeInjectPolicyDisabled)
      | _ \<Rightarrow> p)"

text \<open>\<open>strconv.ParseBool\<close>.\<close>

definition parse_bool :: "string \<Rightarrow> bool option" where
  "parse_bool s =
     (if s \<in> {''1'', ''t'', ''T'', ''TRUE'', ''true'', ''True''} then Some True
      else if s \<in> {''0'', ''f'', ''F'', ''FALSE'', ''false'', ''False''} then Some False else None)"

definition resolve_request_scope_headers_complete :: "route_lookup_request \<Rightarrow> bool" where
  "resolve_request_scope_headers_complete q =
     (let complete = trim_space (rq_namespace q) \<noteq> [] \<and> trim_space (rq_environment q) \<noteq> [];
          v = trim_space (label (rq_metadata q) ''request_scope_headers_complete'')
      in if rq_metadata q = [] \<or> v = [] then complete else parse_bool v = Some True)"

definition resolve_effective_request_scope :: "scope \<Rightarrow> bool \<Rightarrow> scope_injection \<Rightarrow> scope" where
  "resolve_effective_request_scope base headers_complete injection =
     (let b = normalize_scope base; s = normalize_scope (InjectScope injection)
      in case normalize_scope_inject_policy (InjectPolicy injection) of
           ScopeInjectPolicyAlways \<Rightarrow> if is_valid_scope s then s else b
         | ScopeInjectPolicyMissingOnly \<Rightarrow>
             if headers_complete then b else if is_valid_scope s then s else b
         | _ \<Rightarrow> b)"

fun index_where :: "('a \<Rightarrow> bool) \<Rightarrow> 'a list \<Rightarrow> nat option" where
  "index_where P [] = None"
| "index_where P (x # xs) = (if P x then Some 0 else map_option Suc (index_where P xs))"

definition find_scope_index :: "scope list \<Rightarrow> scope \<Rightarrow> nat option" where
  "find_scope_index scopes target =
     (let t = normalize_scope target
      in if \<not> is_valid_scope t then None else index_where (\<lambda>s. scopes_equal s t) scopes)"


section \<open>Candidates\<close>

record scoped_candidate =
  sc_route :: route
  sc_matched :: scope
  sc_index :: nat
  sc_request :: scope
  sc_path :: "scope list"

definition target_type_of_string :: "string \<Rightarrow> route_target_type" where
  "target_type_of_string s =
     (let t = trim_space s
      in if t = ''connector_service'' then RouteTargetTypeConnectorService
         else if t = ''external_service'' then RouteTargetTypeExternalService else RouteTargetTypeOther t)"

definition normalize_route_target_type :: "route_target \<Rightarrow> route_target_type" where
  "normalize_route_target_type target =
     (let t = (case rt_type target of RouteTargetTypeOther s \<Rightarrow> target_type_of_string s | t \<Rightarrow> t)
      in case t of
           RouteTargetTypeOther s \<Rightarrow>
             if rt_connector target \<noteq> None then RouteTargetTypeConnectorService
             else if rt_external target \<noteq> None then RouteTargetTypeExternalService else t
         | _ \<Rightarrow> t)"

definition build_scoped_route_candidates ::
    "resolver \<Rightarrow> route_lookup_request \<Rightarrow> route list \<Rightarrow> scoped_candidate list" where
  "build_scoped_route_candidates rv q routes =
     (let base = resolve_request_scope rv q; complete = resolve_request_scope_headers_complete q
      in List.map_filter
           (\<lambda>r. let s = resolve_effective_request_scope base complete (r_injection r);
                    chain = build_scope_chain rv s
                in map_option (\<lambda>i. \<lparr>sc_route = r, sc_matched = normalize_scope (r_scope r), sc_index = i,
                                    sc_request = s, sc_path = take (i + 1) chain\<rparr>)
                     (find_scope_index chain (r_scope r)))
           routes)"

definition find_candidate :: "scoped_candidate list \<Rightarrow> string \<Rightarrow> scoped_candidate option" where
  "find_candidate cs i =
     (let t = trim_space i in if t = [] then None else find (\<lambda>c. trim_space (r_id (sc_route c)) = t) cs)"

fun remove_first :: "('a \<Rightarrow> bool) \<Rightarrow> 'a list \<Rightarrow> 'a list" where
  "remove_first P [] = []"
| "remove_first P (x # xs) = (if P x then xs else x # remove_first P xs)"

definition remove_candidate :: "scoped_candidate list \<Rightarrow> string \<Rightarrow> scoped_candidate list" where
  "remove_candidate cs i =
     (let t = trim_space i in if t = [] then cs else remove_first (\<lambda>c. trim_space (r_id (sc_route c)) = t) cs)"



section \<open>Services and instances of a target\<close>

definition validate_route_scope :: "scope \<Rightarrow> scope \<Rightarrow> chain_err option" where
  "validate_route_scope route_scope target_scope =
     (let rn = trim_space (Namespace route_scope); tn = trim_space (Namespace target_scope);
          re = trim_space (Environment route_scope); te = trim_space (Environment target_scope)
      in if rn \<noteq> [] \<and> tn \<noteq> [] \<and> rn \<noteq> tn
         then Some (new_error code_invalid_scope ''route namespace must equal target namespace'')
         else if re \<noteq> [] \<and> te \<noteq> [] \<and> re \<noteq> te
         then Some (new_error code_invalid_scope ''route environment must equal target environment'')
         else None)"

definition match_labels :: "labels \<Rightarrow> labels \<Rightarrow> bool" where
  "match_labels ls selector = list_all (\<lambda>(k, e). trim_space (label ls k) = trim_space e) selector"

definition merge_string_maps :: "labels \<Rightarrow> labels \<Rightarrow> labels" where
  "merge_string_maps left right = fold (\<lambda>(k, v) m. map_put k v m) right (fold (\<lambda>(k, v) m. map_put k v m) left [])"

text \<open>The scope of a selector, its missing parts taken from the route.\<close>

definition selector_scope :: "service_selector \<Rightarrow> scope \<Rightarrow> scope" where
  "selector_scope sel fallback =
     \<lparr>Namespace = (if trim_space (Namespace (ss_scope sel)) = [] then trim_space (Namespace fallback) else Namespace (ss_scope sel)),
      Environment = (if trim_space (Environment (ss_scope sel)) = [] then trim_space (Environment fallback) else Environment (ss_scope sel))\<rparr>"

definition resolve_logical_service_by_labels ::
    "resolver \<Rightarrow> service_selector \<Rightarrow> scope \<Rightarrow> chain_err + logical_service" where
  "resolve_logical_service_by_labels rv sel fallback =
     (let s = selector_scope sel fallback
      in if trim_space (Namespace s) = [] \<or> trim_space (Environment s) = []
         then Inl (new_error code_missing_required_field ''selector.scope is required for match_labels lookup'')
         else case filter (\<lambda>l. scopes_equal (ls_scope l) s \<and> match_labels (ls_labels l) (ss_match_labels sel))
                     (list_services (rv_services rv)) of
                [] \<Rightarrow> Inl (new_error code_resolve_service_not_found ''logical service is not found by selector.match_labels'')
              | [l] \<Rightarrow> Inr l
              | _ \<Rightarrow> Inl (new_error code_unsupported_value ''selector.match_labels matches multiple logical services''))"

definition resolve_logical_service :: "resolver \<Rightarrow> service_selector \<Rightarrow> scope \<Rightarrow> chain_err + logical_service" where
  "resolve_logical_service rv sel fallback =
     (if trim_space (ss_service sel) \<noteq> []
      then case get_logical_service (ss_service sel) (rv_services rv) of
             None \<Rightarrow> Inl (new_error code_resolve_service_not_found ''logical service is not found by logicalServiceId'')
           | Some l \<Rightarrow> Inr l
      else if trim_space (ss_name sel) = []
      then if ss_match_labels sel = []
           then Inl (new_error code_missing_required_field ''connector_service.selector is required'')
           else resolve_logical_service_by_labels rv sel fallback
      else case find_service_by_name_scope (ss_name sel) (selector_scope sel fallback) (rv_services rv) of
             None \<Rightarrow> Inl (new_error code_resolve_service_not_found ''logical service is not found by selector'')
           | Some l \<Rightarrow> Inr l)"

definition resolve_service_session :: "resolver \<Rightarrow> service_instance \<Rightarrow> string \<Rightarrow> session_runtime option" where
  "resolve_service_session rv i connector =
     (let sid = trim_space (si_session i)
      in if sid \<noteq> []
         then case get_by_session sid (rv_sessions rv) of
                None \<Rightarrow> None
              | Some s \<Rightarrow> if trim_space (sr_connector s) \<noteq> trim_space connector then None else Some s
         else get_by_connector connector (rv_sessions rv))"

text \<open>One round of the loop over the instances: skipped, with or without an error to report, or a candidate.\<close>

definition judge_instance ::
    "resolver \<Rightarrow> logical_service \<Rightarrow> labels \<Rightarrow> service_instance \<Rightarrow> chain_err option + connector_resolution" where
  "judge_instance rv l selector i =
     (if si_status i \<noteq> ServiceStatusActive \<or> si_health i \<noteq> HealthStatusHealthy
      then Inl (Some (new_error code_resolve_service_unavailable ''instance unavailable''))
      else if \<not> match_labels (si_labels i) selector then Inl None
      else let connector = trim_space (si_connector i)
           in if connector = [] then Inl (Some (new_error code_resolve_service_unavailable ''empty connector_id''))
              else case resolve_service_session rv i connector of
                     None \<Rightarrow> Inl (Some (new_error code_resolve_service_unavailable ''connector offline''))
                   | Some s \<Rightarrow>
                       if sr_state s \<noteq> SessionActive
                       then Inl (Some (new_error code_resolve_session_not_active ''session not active''))
                       else Inr \<lparr>cr_service = l, cr_instance = i, cr_session = s\<rparr>)"

definition candidates_of :: "(chain_err option + connector_resolution) list \<Rightarrow> connector_resolution list" where
  "candidates_of = List.map_filter (\<lambda>v. case v of Inl e \<Rightarrow> None | Inr c \<Rightarrow> Some c)"

definition first_error :: "(chain_err option + connector_resolution) list \<Rightarrow> chain_err option" where
  "first_error vs =
     (case List.map_filter (\<lambda>v. case v of Inl e \<Rightarrow> e | Inr c \<Rightarrow> None) vs of [] \<Rightarrow> None | e # es \<Rightarrow> Some e)"


section \<open>Selecting an instance\<close>

text \<open>\<open>strings.EqualFold\<close>, with the letters beyond ASCII that fold to an ASCII letter.\<close>

fun fold_case :: "string \<Rightarrow> string" where
  "fold_case [] = []"
| "fold_case [c] = [lower_char c]"
| "fold_case (c # d # s) =
     (if [c, d] = map char_of [197 :: nat, 191] then CHR ''s'' # fold_case s
      else if c = char_of (226 :: nat) \<and> d = char_of (132 :: nat) \<and> s \<noteq> [] \<and> hd s = char_of (170 :: nat)
      then CHR ''k'' # fold_case (tl s)
      else lower_char c # fold_case (d # s))"

definition equal_fold :: "string \<Rightarrow> string \<Rightarrow> bool" where
  "equal_fold s t \<longleftrightarrow> fold_case s = fold_case t"

definition resolve_header_sticky_value :: "value_map \<Rightarrow> string \<Rightarrow> string" where
  "resolve_header_sticky_value headers name =
     (let n = trim_space name
      in if n = [] then []
         else case filter (\<lambda>v. v \<noteq> []) (map trim_space (concat (map snd
                     (filter (\<lambda>(k, vs). equal_fold (trim_space k) n) headers)))) of
                [] \<Rightarrow> [] | v # vs \<Rightarrow> v)"

definition resolve_cookie_sticky_value :: "resolve_env \<Rightarrow> value_map \<Rightarrow> string \<Rightarrow> string" where
  "resolve_cookie_sticky_value env headers name =
     (let n = trim_space name
      in if n = [] then []
         else let header = resolve_header_sticky_value headers ''Cookie''
              in if header = [] then []
                 else case re_cookie env header n of None \<Rightarrow> [] | Some v \<Rightarrow> trim_space v)"

definition resolve_sticky_selection_key :: "resolve_env \<Rightarrow> route \<Rightarrow> route_lookup_request \<Rightarrow> string" where
  "resolve_sticky_selection_key env r q =
     (let policy = trim_space (r_policy r);
          parsed = (if policy = [] then [] else case re_sticky_by env policy of None \<Rightarrow> [] | Some s \<Rightarrow> trim_space s);
          by = (if parsed = [] then ''client_ip'' else parsed)
      in if equal_fold by ''client_ip'' then trim_space (label (rq_metadata q) ''client_ip'')
         else if prefix ''header:'' (to_lower by) then resolve_header_sticky_value (rq_headers q) (trim_space (drop 7 by))
         else if prefix ''cookie:'' (to_lower by) then resolve_cookie_sticky_value env (rq_headers q) (trim_space (drop 7 by))
         else [])"

definition resolve_lookup_traffic_id :: "route_lookup_request \<Rightarrow> string" where
  "resolve_lookup_traffic_id q = trim_space (label (rq_metadata q) ''traffic_id'')"

definition algorithm_name :: "algorithm \<Rightarrow> string" where
  "algorithm_name a =
     (case a of RoundRobin \<Rightarrow> ''round_robin'' | Random \<Rightarrow> ''random'' | Sticky \<Rightarrow> ''sticky'' | Weighted \<Rightarrow> ''weighted'')"

text \<open>An injected selector comes first; the others are those of the resolver, by the name of their algorithm.\<close>

definition resolve_service_instance_selector :: "resolver \<Rightarrow> resolve_env \<Rightarrow> string \<Rightarrow> injected_selector + algorithm" where
  "resolve_service_instance_selector rv env policy =
     (case re_selector env of
        Some select \<Rightarrow> Inl select
      | None \<Rightarrow> Inr (if trim_space policy = [] then rv_default_selector rv else normalize_load_balance_policy policy))"

text \<open>
  \<open>selectConnectorResolution\<close>. The first alternative for an empty choice is never taken
  (\<open>selection_is_a_candidate\<close>).
\<close>

definition ordered :: "connector_resolution list \<Rightarrow> connector_resolution list" where
  "ordered = sort_key (\<lambda>c. (candidate_id c, trim_space (sr_connector (cr_session c))))"

definition select_fresh ::
    "resolver \<Rightarrow> resolve_env \<Rightarrow> route \<Rightarrow> connector_service_target \<Rightarrow> connector_resolution list
       \<Rightarrow> route_lookup_request \<Rightarrow> resolver_state \<Rightarrow> connector_resolution \<times> resolver_state" where
  "select_fresh rv env r target cs q st =
     (let policy = algorithm_name (normalize_load_balance_policy (trim_space (ct_load_balance target)));
          request = \<lparr>Policy = policy, StickyKey = resolve_sticky_selection_key env r q\<rparr>;
          (choice, selectors) =
            (case resolve_service_instance_selector rv env policy of
               Inl select \<Rightarrow> (Some (select cs request), rv_selectors st)
             | Inr algorithm \<Rightarrow> run_selector (re_intn env (r_id r)) algorithm request cs (rv_selectors st));
          selected = (case choice of None \<Rightarrow> hd cs | Some c \<Rightarrow> c);
          traffic = resolve_lookup_traffic_id q;
          i = candidate_id selected
      in (selected,
          st\<lparr>rv_selectors := selectors,
             rv_affinity := (if traffic \<noteq> [] \<and> i \<noteq> []
                             then affinity_put (re_store_at env (r_id r)) traffic i (re_store_at env (r_id r)) (rv_affinity st)
                             else rv_affinity st)\<rparr>))"

definition select_connector_resolution ::
    "resolver \<Rightarrow> resolve_env \<Rightarrow> route \<Rightarrow> connector_service_target \<Rightarrow> connector_resolution list
       \<Rightarrow> route_lookup_request \<Rightarrow> resolver_state \<Rightarrow> (chain_err + connector_resolution) \<times> resolver_state" where
  "select_connector_resolution rv env r target cs q st =
     (if cs = [] then (Inl (new_error code_resolve_service_unavailable ''logical service unavailable''), st)
      else
        let traffic = resolve_lookup_traffic_id q; at = re_load_at env (r_id r);
            (sticky, affinity) = (if traffic = [] then (None, rv_affinity st) else affinity_load at traffic at (rv_affinity st));
            st1 = st\<lparr>rv_affinity := affinity\<rparr>
        in case sticky of
             Some i \<Rightarrow>
               (case find (\<lambda>c. candidate_id c = i) (ordered cs) of
                  Some c \<Rightarrow> (Inr c, st1)
                | None \<Rightarrow> (Inl (new_error code_resolve_service_unavailable ''sticky traffic target unavailable''), st1))
           | None \<Rightarrow>
               let (selected, st2) = select_fresh rv env r target (ordered cs) q st1 in (Inr selected, st2))"



section \<open>Targets\<close>

definition resolve_connector_target ::
    "resolver \<Rightarrow> resolve_env \<Rightarrow> route \<Rightarrow> connector_service_target option \<Rightarrow> route_lookup_request \<Rightarrow> resolver_state
       \<Rightarrow> (chain_err + connector_resolution) \<times> resolver_state" where
  "resolve_connector_target rv env r payload q st =
     (case payload of
        None \<Rightarrow> (Inl (new_error code_invalid_payload ''connector_service target payload is empty''), st)
      | Some target \<Rightarrow>
          (case resolve_logical_service rv (ct_selector target) (r_scope r) of
             Inl e \<Rightarrow> (Inl e, st)
           | Inr l \<Rightarrow>
               (case validate_route_scope (r_scope r) (ls_scope l) of
                  Some e \<Rightarrow> (Inl e, st)
                | None \<Rightarrow>
                    if \<not> match_labels (ls_labels l) (ss_match_labels (ct_selector target))
                    then (Inl (new_error code_resolve_service_not_found ''logical service does not match selector labels''), st)
                    else if ls_status l \<noteq> ServiceStatusActive
                    then (Inl (new_error code_resolve_service_unavailable ''logical service is not active''), st)
                    else
                      let selector = merge_string_maps (ss_instance_labels (ct_selector target)) (ct_instance_selector target);
                          snapshots = list_instances_by_service (ls_id l) (rv_services rv);
                          verdicts = map (\<lambda>s. judge_instance rv l selector (sis_instance s)) snapshots
                      in if snapshots = [] then (Inl (new_error code_resolve_service_not_found ''no service instances found''), st)
                         else if candidates_of verdicts = []
                         then (Inl (case first_error verdicts of Some e \<Rightarrow> e
                                    | None \<Rightarrow> new_error code_resolve_service_unavailable ''logical service unavailable''), st)
                         else select_connector_resolution rv env r target (candidates_of verdicts) q st)))"

definition resolve_external_target :: "route \<Rightarrow> external_service_target option \<Rightarrow> chain_err + external_service_target" where
  "resolve_external_target r payload =
     (case payload of
        None \<Rightarrow> Inl (new_error code_invalid_payload ''external_service target payload is empty'')
      | Some t \<Rightarrow>
          if trim_space (et_service t) = []
          then Inl (new_error code_missing_required_field ''external_service.service_name is required'')
          else let n = trim_space (et_namespace t); n = (if n = [] then trim_space (Namespace (r_scope r)) else n);
                   e = trim_space (et_environment t); e = (if e = [] then trim_space (Environment (r_scope r)) else e)
               in case validate_route_scope (r_scope r) \<lparr>Namespace = n, Environment = e\<rparr> of
                    Some err \<Rightarrow> Inl err
                  | None \<Rightarrow> Inr (t\<lparr>et_namespace := n, et_environment := e\<rparr>))"

text \<open>The part of the result that comes from the target.\<close>

datatype resolved_target =
    ToConnector connector_resolution
  | ToExternal external_service_target

definition resolve_target ::
    "resolver \<Rightarrow> resolve_env \<Rightarrow> route \<Rightarrow> route_lookup_request \<Rightarrow> resolver_state
       \<Rightarrow> (chain_err + resolved_target) \<times> resolver_state" where
  "resolve_target rv env r q st =
     (case normalize_route_target_type (r_target r) of
        RouteTargetTypeConnectorService \<Rightarrow>
          (case resolve_connector_target rv env r (rt_connector (r_target r)) q st of
             (Inl e, st1) \<Rightarrow> (Inl e, st1)
           | (Inr c, st1) \<Rightarrow> (Inr (ToConnector c), st1))
      | RouteTargetTypeExternalService \<Rightarrow>
          (case resolve_external_target r (rt_external (r_target r)) of
             Inl e \<Rightarrow> (Inl e, st)
           | Inr t \<Rightarrow> (Inr (ToExternal t), st))
      | RouteTargetTypeOther s \<Rightarrow> (Inl (new_error code_unsupported_value ''unsupported route target type''), st))"

definition should_continue_scope_fallback :: "chain_err \<Rightarrow> bool" where
  "should_continue_scope_fallback e \<longleftrightarrow> extract_code (Some e) = code_resolve_service_not_found"

definition result_of :: "scoped_candidate \<Rightarrow> resolved_target \<Rightarrow> bool \<Rightarrow> resolve_result" where
  "result_of c t fallback =
     \<lparr>rr_route = sc_route c,
      rr_kind = (case t of ToConnector _ \<Rightarrow> RouteTargetTypeConnectorService | ToExternal _ \<Rightarrow> RouteTargetTypeExternalService),
      rr_mode = resolve_route_ingress_mode (sc_route c),
      rr_connector = (case t of ToConnector x \<Rightarrow> Some x | ToExternal _ \<Rightarrow> None),
      rr_external = (case t of ToExternal x \<Rightarrow> Some x | ToConnector _ \<Rightarrow> None),
      rr_fallback = fallback, rr_request_scope = sc_request c, rr_matched_scope = sc_matched c, rr_path = sc_path c\<rparr>"


section \<open>Resolving\<close>

text \<open>
  The inner loop, over the connector candidates of one scope. It takes the first candidate,
  looks it up again by its id and drops it by its id; a blank id is neither found nor dropped,
  and the loop spins. \<open>None\<close> in the result: no candidate was resolved; the error is the one
  that ended the loop.
\<close>

partial_function (option) connector_loop ::
    "resolver \<Rightarrow> resolve_env \<Rightarrow> route_lookup_request \<Rightarrow> scoped_candidate list \<Rightarrow> resolver_state
       \<Rightarrow> ((chain_err option + resolve_result) \<times> resolver_state) option" where
  "connector_loop rv env q cs st =
     (case cs of
        [] \<Rightarrow> Some (Inl None, st)
      | c # rest \<Rightarrow>
          (case find_candidate cs (r_id (sc_route c)) of
             None \<Rightarrow> connector_loop rv env q (remove_candidate cs (r_id (sc_route c))) st
           | Some found \<Rightarrow>
               (case resolve_target rv env (sc_route c) q st of
                  (Inl e, st1) \<Rightarrow>
                    if should_continue_scope_fallback e
                    then connector_loop rv env q (remove_candidate cs (r_id (sc_route c))) st1
                    else Some (Inl (Some e), st1)
                | (Inr t, st1) \<Rightarrow> Some (Inr ((result_of found t False)\<lparr>rr_route := sc_route c\<rparr>), st1))))"

text \<open>The outer loop, over the scopes; \<open>err\<close> is \<open>firstFilterError\<close>.\<close>

fun scope_loop ::
    "resolver \<Rightarrow> resolve_env \<Rightarrow> route_lookup_request \<Rightarrow> scoped_candidate list list \<Rightarrow> chain_err option \<Rightarrow> resolver_state
       \<Rightarrow> ((chain_err option + resolve_result) \<times> resolver_state) option" where
  "scope_loop rv env q [] err st = Some (Inl err, st)"
| "scope_loop rv env q (cs # scopes) err st =
     (case connector_loop rv env q cs st of
        None \<Rightarrow> None
      | Some (Inr result, st1) \<Rightarrow> Some (Inr result, st1)
      | Some (Inl e, st1) \<Rightarrow> scope_loop rv env q scopes (if err = None then e else err) st1)"

definition targets_connector :: "scoped_candidate \<Rightarrow> bool" where
  "targets_connector c \<longleftrightarrow> normalize_route_target_type (r_target (sc_route c)) = RouteTargetTypeConnectorService"

definition targets_external :: "scoped_candidate \<Rightarrow> bool" where
  "targets_external c \<longleftrightarrow> normalize_route_target_type (r_target (sc_route c)) = RouteTargetTypeExternalService"

fun resolve_external_fallback ::
    "resolver \<Rightarrow> resolve_env \<Rightarrow> scoped_candidate list \<Rightarrow> route_lookup_request \<Rightarrow> resolver_state
       \<Rightarrow> (chain_err + resolve_result) \<times> resolver_state" where
  "resolve_external_fallback rv env [] q st =
     (Inl (new_error code_ingress_route_mismatch ''no external fallback route passes resolver filters''), st)"
| "resolve_external_fallback rv env (c # cs) q st =
     (if \<not> is_external_fallback_enabled rv (sc_request c) then resolve_external_fallback rv env cs q st
      else case resolve_target rv env (sc_route c) q st of
             (Inl e, st1) \<Rightarrow> if should_continue_scope_fallback e then resolve_external_fallback rv env cs q st1 else (Inl e, st1)
           | (Inr t, st1) \<Rightarrow> (Inr (result_of c t True), st1))"

definition max_scope_index :: "scoped_candidate list \<Rightarrow> nat" where
  "max_scope_index cs = fold max (map sc_index cs) 0"

definition resolve ::
    "resolver \<Rightarrow> resolve_env \<Rightarrow> route_lookup_request \<Rightarrow> resolver_state
       \<Rightarrow> ((chain_err + resolve_result) \<times> resolver_state) option" where
  "resolve rv env q st =
     (let candidates = match_routes (re_compile env) q (list_routes (rv_routes rv));
          scoped = sort_key sc_index (build_scoped_route_candidates rv q candidates);
          of_scope = (\<lambda>i. filter (\<lambda>c. sc_index c = i) scoped);
          scopes = [0..<max_scope_index scoped + 1];
          externals = concat (map (filter targets_external \<circ> of_scope) scopes)
      in if candidates = []
         then Some (Inl (new_error code_ingress_route_mismatch ''no route matches current ingress request''), st)
         else if scoped = []
         then Some (Inl (new_error code_ingress_route_mismatch ''no route passes scope injection and fallback policy''), st)
         else
           case scope_loop rv env q (map (filter targets_connector \<circ> of_scope) scopes) None st of
             None \<Rightarrow> None
           | Some (Inr result, st1) \<Rightarrow> Some (Inr result, st1)
           | Some (Inl err, st1) \<Rightarrow>
               let mismatch = new_error code_ingress_route_mismatch ''no route passes resolver filters''
               in if externals = [] then Some (Inl (case err of Some e \<Rightarrow> e | None \<Rightarrow> mismatch), st1)
                  else case resolve_external_fallback rv env externals q st1 of
                         (Inr result, st2) \<Rightarrow> Some (Inr result, st2)
                       | (Inl e, st2) \<Rightarrow> Some (Inl (case err of Some e' \<Rightarrow> e' | None \<Rightarrow> e), st2))"



section \<open>The route registry\<close>

text \<open>Routes are filed under their ids, which are trimmed and not empty.\<close>

definition routes_ok :: "route_registry \<Rightarrow> bool" where
  "routes_ok reg \<longleftrightarrow> keys_distinct reg
     \<and> (\<forall>(i, s) \<in> set reg. r_id (rs_route s) = i \<and> trim_space i = i \<and> i \<noteq> [])"

lemma routes_ok_upsert: "routes_ok reg \<Longrightarrow> routes_ok (upsert_route now r reg)"
  by (auto simp: routes_ok_def upsert_route_def Let_def dest!: set_map_put)

lemma routes_ok_remove: "routes_ok reg \<Longrightarrow> routes_ok (snd (remove_route i reg))"
  by (auto simp: routes_ok_def remove_route_def Let_def dest!: set_map_del)

lemma routes_ok_replace: "routes_ok (replace_all_routes now routes)"
proof -
  have "routes_ok reg \<Longrightarrow> routes_ok (fold (upsert_route now) routes reg)" for reg
    by (induction routes arbitrary: reg) (simp_all add: routes_ok_upsert)
  from this [of "[]"] show ?thesis unfolding replace_all_routes_def by (simp add: routes_ok_def)
qed

lemma routes_ok_distinct: "routes_ok reg \<Longrightarrow> distinct (map r_id (list_routes reg))"
proof -
  assume ok: "routes_ok reg"
  then have "map r_id (list_routes reg) = map fst reg" by (auto simp: routes_ok_def list_routes_def)
  with ok show ?thesis by (simp add: routes_ok_def)
qed

lemma routes_ok_id: "routes_ok reg \<Longrightarrow> r \<in> set (list_routes reg) \<Longrightarrow> trim_space (r_id r) = r_id r \<and> r_id r \<noteq> []"
  by (auto simp: routes_ok_def list_routes_def)


section \<open>The inner loop returns\<close>

text \<open>The inner loop as it runs on candidates whose ids are not blank.\<close>

fun try_candidates ::
    "resolver \<Rightarrow> resolve_env \<Rightarrow> route_lookup_request \<Rightarrow> scoped_candidate list \<Rightarrow> resolver_state
       \<Rightarrow> (chain_err option + resolve_result) \<times> resolver_state" where
  "try_candidates rv env q [] st = (Inl None, st)"
| "try_candidates rv env q (c # cs) st =
     (case resolve_target rv env (sc_route c) q st of
        (Inl e, st1) \<Rightarrow> if should_continue_scope_fallback e then try_candidates rv env q cs st1 else (Inl (Some e), st1)
      | (Inr t, st1) \<Rightarrow> (Inr (result_of c t False), st1))"

definition ids_usable :: "scoped_candidate list \<Rightarrow> bool" where
  "ids_usable cs \<longleftrightarrow> (\<forall>c \<in> set cs. trim_space (r_id (sc_route c)) \<noteq> [])"

lemma find_head: "trim_space (r_id (sc_route c)) \<noteq> [] \<Longrightarrow> find_candidate (c # cs) (r_id (sc_route c)) = Some c"
  by (simp add: find_candidate_def)

lemma remove_head: "trim_space (r_id (sc_route c)) \<noteq> [] \<Longrightarrow> remove_candidate (c # cs) (r_id (sc_route c)) = cs"
  by (simp add: remove_candidate_def)

lemma result_of_route [simp]: "(result_of c t f)\<lparr>rr_route := sc_route c\<rparr> = result_of c t f"
  by (simp add: result_of_def)

lemma connector_loop_returns:
  "ids_usable cs \<Longrightarrow> connector_loop rv env q cs st = Some (try_candidates rv env q cs st)"
proof (induction cs arbitrary: st)
  case Nil
  show ?case by (simp add: connector_loop.simps)
next
  case (Cons c cs)
  then have "trim_space (r_id (sc_route c)) \<noteq> []" "ids_usable cs" by (simp_all add: ids_usable_def)
  with Cons.IH show ?case
    by (subst connector_loop.simps) (simp add: find_head remove_head split: prod.split sum.split)
qed

text \<open>On a blank id the loop does not end.\<close>

lemma blank_id_spins:
  assumes "trim_space (r_id (sc_route c)) = []"
  shows "connector_loop rv env q (c # cs) st = None"
proof -
  have "xs = [] \<or> trim_space (r_id (sc_route (hd xs))) \<noteq> []" if "connector_loop rv env q xs st = Some y" for xs y
    using that
  proof (induction rule: connector_loop.raw_induct [rotated 1, consumes 1])
    case (1 loop rv env q cs st y)
    show ?case
    proof (cases cs)
      case (Cons d ds)
      have "trim_space (r_id (sc_route d)) \<noteq> []"
      proof
        assume "trim_space (r_id (sc_route d)) = []"
        with 1(2) Cons have "loop rv env q cs st = Some y" by (simp add: find_candidate_def remove_candidate_def)
        from 1(1) [OF this] Cons \<open>trim_space (r_id (sc_route d)) = []\<close> show False by simp
      qed
      with Cons show ?thesis by simp
    qed simp
  qed
  from this [of "c # cs"] assms show ?thesis by (cases "connector_loop rv env q (c # cs) st") auto
qed

text \<open>The outer loop, likewise.\<close>

fun try_scopes ::
    "resolver \<Rightarrow> resolve_env \<Rightarrow> route_lookup_request \<Rightarrow> scoped_candidate list list \<Rightarrow> chain_err option \<Rightarrow> resolver_state
       \<Rightarrow> (chain_err option + resolve_result) \<times> resolver_state" where
  "try_scopes rv env q [] err st = (Inl err, st)"
| "try_scopes rv env q (cs # scopes) err st =
     (case try_candidates rv env q cs st of
        (Inr result, st1) \<Rightarrow> (Inr result, st1)
      | (Inl e, st1) \<Rightarrow> try_scopes rv env q scopes (if err = None then e else err) st1)"

lemma scope_loop_returns:
  "\<forall>cs \<in> set scopes. ids_usable cs \<Longrightarrow> scope_loop rv env q scopes err st = Some (try_scopes rv env q scopes err st)"
  by (induction scopes arbitrary: err st) (auto simp: connector_loop_returns split: prod.split sum.split)



section \<open>Where a result comes from\<close>

lemma index_where_Some: "index_where P xs = Some i \<Longrightarrow> i < length xs \<and> P (xs ! i)"
  by (induction xs arbitrary: i) (auto split: if_splits)

lemma extend_chain_normal: "s \<in> set (extend_chain steps seen) \<Longrightarrow> normalize_scope s = s"
  by (induction steps arbitrary: seen) (auto simp: Let_def split: if_splits)

lemma build_scope_chain_normal: "s \<in> set (build_scope_chain rv x) \<Longrightarrow> normalize_scope s = s"
  by (auto simp: build_scope_chain_def Let_def split: if_splits option.splits dest: extend_chain_normal)

lemma build_scoped_mem:
  assumes "c \<in> set (build_scoped_route_candidates rv q routes)"
  shows "sc_route c \<in> set routes" "sc_matched c = normalize_scope (r_scope (sc_route c))"
    and "sc_request c = resolve_effective_request_scope (resolve_request_scope rv q)
           (resolve_request_scope_headers_complete q) (r_injection (sc_route c))"
    and "sc_index c < length (build_scope_chain rv (sc_request c))"
    and "build_scope_chain rv (sc_request c) ! sc_index c = sc_matched c"
    and "sc_path c = take (sc_index c + 1) (build_scope_chain rv (sc_request c))"
proof -
  let ?chain = "build_scope_chain rv (sc_request c)"
  have *: "sc_route c \<in> set routes \<and> sc_matched c = normalize_scope (r_scope (sc_route c))
    \<and> sc_request c = resolve_effective_request_scope (resolve_request_scope rv q)
         (resolve_request_scope_headers_complete q) (r_injection (sc_route c))
    \<and> sc_path c = take (sc_index c + 1) ?chain \<and> find_scope_index ?chain (r_scope (sc_route c)) = Some (sc_index c)"
    using assms by (auto simp: build_scoped_route_candidates_def Let_def map_filter_def)
  then have i: "index_where (\<lambda>s. scopes_equal s (normalize_scope (r_scope (sc_route c)))) ?chain = Some (sc_index c)"
    by (auto simp: find_scope_index_def Let_def split: if_splits)
  then have "sc_index c < length ?chain" "scopes_equal (?chain ! sc_index c) (sc_matched c)"
    using index_where_Some [OF i] * by auto
  moreover from this have "normalize_scope (?chain ! sc_index c) = ?chain ! sc_index c"
    by (intro build_scope_chain_normal [of _ rv "sc_request c"] nth_mem)
  ultimately show "sc_route c \<in> set routes" "sc_matched c = normalize_scope (r_scope (sc_route c))"
    "sc_request c = resolve_effective_request_scope (resolve_request_scope rv q)
       (resolve_request_scope_headers_complete q) (r_injection (sc_route c))"
    "sc_index c < length ?chain" "?chain ! sc_index c = sc_matched c" "sc_path c = take (sc_index c + 1) ?chain"
    using * by (auto simp: scopes_equal_def)
qed

text \<open>A result is that of the target of some candidate, resolved in some state.\<close>

definition comes_from :: "resolver \<Rightarrow> resolve_env \<Rightarrow> route_lookup_request \<Rightarrow> scoped_candidate \<Rightarrow> bool \<Rightarrow> resolve_result \<Rightarrow> bool" where
  "comes_from rv env q c fallback result \<longleftrightarrow>
     (\<exists>t st1 st2. resolve_target rv env (sc_route c) q st1 = (Inr t, st2) \<and> result = result_of c t fallback)"

lemma try_candidates_from:
  "try_candidates rv env q cs st = (Inr result, st') \<Longrightarrow> \<exists>c \<in> set cs. comes_from rv env q c False result"
  by (induction cs arbitrary: st)
     (fastforce simp: comes_from_def split: prod.splits sum.splits if_splits)+

lemma try_scopes_from:
  "try_scopes rv env q scopes err st = (Inr result, st') \<Longrightarrow>
   \<exists>cs \<in> set scopes. \<exists>c \<in> set cs. comes_from rv env q c False result"
  by (induction scopes arbitrary: err st) (auto split: prod.splits sum.splits dest: try_candidates_from)

lemma external_fallback_from:
  "resolve_external_fallback rv env cs q st = (Inr result, st') \<Longrightarrow>
   \<exists>c \<in> set cs. is_external_fallback_enabled rv (sc_request c) \<and> comes_from rv env q c True result"
  by (induction cs arbitrary: st)
     (fastforce simp: comes_from_def split: prod.splits sum.splits if_splits)+

definition scoped_routes :: "resolver \<Rightarrow> resolve_env \<Rightarrow> route_lookup_request \<Rightarrow> scoped_candidate list" where
  "scoped_routes rv env q =
     build_scoped_route_candidates rv q (match_routes (re_compile env) q (list_routes (rv_routes rv)))"

lemma match_routes_subset: "set (match_routes compile q routes) \<subseteq> set routes"
  by (auto simp: match_routes_iff)

lemma scoped_routes_usable:
  assumes "routes_ok (rv_routes rv)" "set cs \<subseteq> set (scoped_routes rv env q)"
  shows "ids_usable cs"
proof -
  have "trim_space (r_id (sc_route c)) \<noteq> []" if "c \<in> set cs" for c
  proof -
    have "sc_route c \<in> set (list_routes (rv_routes rv))"
      using that assms(2) build_scoped_mem(1) match_routes_subset unfolding scoped_routes_def by blast
    with routes_ok_id [OF assms(1)] show ?thesis by metis
  qed
  then show ?thesis by (simp add: ids_usable_def)
qed


text \<open>
  C35. Resolving ends: whatever the request, the registries, the policies and the environment,
  \<open>Resolve\<close> returns a result or an error. What it rests on is that a registry holds no route
  without an id (\<open>routes_ok_upsert\<close>, \<open>routes_ok_remove\<close>, \<open>routes_ok_replace\<close>); on such a route the
  inner loop would not end (\<open>blank_id_spins\<close>).
\<close>

theorem resolve_returns:
  assumes "routes_ok (rv_routes rv)"
  shows "\<exists>outcome. resolve rv env q st = Some outcome"
proof -
  define scoped where "scoped = sort_key sc_index (scoped_routes rv env q)"
  define scopes where "scopes = map (filter targets_connector \<circ> (\<lambda>i. filter (\<lambda>c. sc_index c = i) scoped)) [0..<max_scope_index scoped + 1]"
  have "ids_usable cs" if "cs \<in> set scopes" for cs
    using that by (intro scoped_routes_usable [OF assms, where q = q and env = env]) (auto simp: scopes_def scoped_def)
  then have "scope_loop rv env q scopes None st = Some (try_scopes rv env q scopes None st)"
    by (intro scope_loop_returns) auto
  then show ?thesis
    by (auto simp: resolve_def Let_def scopes_def scoped_def scoped_routes_def split: option.split sum.split prod.split)
qed

lemma resolve_from:
  assumes ok: "routes_ok (rv_routes rv)" and res: "resolve rv env q st = Some (Inr result, st')"
  shows "\<exists>c \<in> set (scoped_routes rv env q). \<exists>fallback. comes_from rv env q c fallback result
     \<and> (if fallback then targets_external c \<and> is_external_fallback_enabled rv (sc_request c) else targets_connector c)"
proof -
  define scoped where "scoped = sort_key sc_index (scoped_routes rv env q)"
  define of_scope where "of_scope = (\<lambda>i. filter (\<lambda>c. sc_index c = i) scoped)"
  define scopes where "scopes = map (filter targets_connector \<circ> of_scope) [0..<max_scope_index scoped + 1]"
  define externals where "externals = concat (map (filter targets_external \<circ> of_scope) [0..<max_scope_index scoped + 1])"
  have "ids_usable cs" if "cs \<in> set scopes" for cs
    using that by (intro scoped_routes_usable [OF ok, where q = q and env = env]) (auto simp: scopes_def of_scope_def scoped_def)
  then have loop: "scope_loop rv env q scopes None st = Some (try_scopes rv env q scopes None st)"
    by (intro scope_loop_returns) auto
  have "(\<exists>st1. try_scopes rv env q scopes None st = (Inr result, st1))
      \<or> (\<exists>st1 st2. resolve_external_fallback rv env externals q st1 = (Inr result, st2))"
    using res
    unfolding resolve_def Let_def scoped_routes_def [symmetric] scoped_def [symmetric] of_scope_def [symmetric]
      scopes_def [symmetric] externals_def [symmetric] loop
    by (auto split: if_splits sum.splits prod.splits)
  then show ?thesis
  proof (elim disjE exE)
    fix st1 assume "try_scopes rv env q scopes None st = (Inr result, st1)"
    from try_scopes_from [OF this] obtain cs c where "cs \<in> set scopes" "c \<in> set cs" "comes_from rv env q c False result"
      by blast
    then show ?thesis by (intro bexI [of _ c] exI [of _ False]) (auto simp: scopes_def of_scope_def scoped_def)
  next
    fix st1 st2 assume "resolve_external_fallback rv env externals q st1 = (Inr result, st2)"
    from external_fallback_from [OF this] obtain c where "c \<in> set externals" "is_external_fallback_enabled rv (sc_request c)"
      "comes_from rv env q c True result" by blast
    then show ?thesis by (intro bexI [of _ c] exI [of _ True]) (auto simp: externals_def of_scope_def scoped_def)
  qed
qed



section \<open>What resolving promises\<close>

text \<open>
  The index of the connectors leads to sessions of theirs. It may not: a session that is committed again
  for another connector stays in the index of the first one (\<open>index_follows_no_connector\<close>).
\<close>

definition connectors_indexed :: "session_registry \<Rightarrow> bool" where
  "connectors_indexed reg \<longleftrightarrow>
     (\<forall>c k. map_of (byConnector reg) c = Some k
        \<longrightarrow> (\<exists>s. map_of (bySessionID reg) k = Some s \<and> sr_connector s = c))"

lemma connectors_indexed_new: "connectors_indexed new_session_registry"
  by (simp add: connectors_indexed_def new_session_registry_def)


text \<open>It does as long as no session changes its connector.\<close>

lemma connectors_indexed_commit:
  assumes "sessions_inv reg" and "connectors_indexed reg"
    and same: "\<And>s. map_of (bySessionID reg) (trim_space (sr_session runtime)) = Some s \<Longrightarrow>
      sr_connector s = trim_space (sr_connector runtime)"
    and run: "commit_authoritative wall now runtime reg = ((res, ok), reg')"
  shows "connectors_indexed reg'"
proof (cases ok)
  case False
  then show ?thesis using commit_effect [OF assms(1) run refl refl] assms(2) by simp
next
  case True
  let ?sid = "trim_space (sr_session runtime)" and ?c = "trim_space (sr_connector runtime)"
  have sessions: "map_of (bySessionID reg') k =
      (if k = ?sid then Some (committed_session (now_or wall now) runtime)
       else case map_of (bySessionID reg) k of None \<Rightarrow> None
            | Some s \<Rightarrow> Some (if map_of (byConnector reg) ?c = Some k \<and> trim_space k \<noteq> ?sid
                             \<and> (sr_state s = SessionActive \<or> sr_state s = SessionDraining)
                             then s\<lparr>sr_state := SessionDraining, sr_updated_at := now_or wall now\<rparr> else s))"
    and index: "map_of (byConnector reg') c = (if c = ?c then Some ?sid else map_of (byConnector reg) c)" for k c
    using commit_effect [OF assms(1) run refl refl] True by simp_all
  have "\<exists>s. map_of (bySessionID reg') k = Some s \<and> sr_connector s = c" if c: "map_of (byConnector reg') c = Some k" for c k
  proof (cases "c = ?c")
    case True
    then show ?thesis using c unfolding sessions index by (simp add: committed_session_def)
  next
    case False
    then have "map_of (byConnector reg) c = Some k" using c unfolding index by simp
    then obtain s where s: "map_of (bySessionID reg) k = Some s" "sr_connector s = c"
      using assms(2) unfolding connectors_indexed_def by blast
    moreover from this False have "k \<noteq> ?sid" using same by auto
    ultimately show ?thesis unfolding sessions by simp
  qed
  then show ?thesis unfolding connectors_indexed_def by blast
qed






lemma ordered_set [simp]: "set (ordered cs) = set cs"
  by (simp add: ordered_def)

lemma ordered_Nil [simp]: "ordered cs = [] \<longleftrightarrow> cs = []"
  by (metis ordered_set set_empty)

text \<open>The random source stays in its range, and an injected selector picks one of the candidates.\<close>

definition env_ok :: "resolve_env \<Rightarrow> bool" where
  "env_ok env \<longleftrightarrow> (\<forall>r n. 0 < n \<longrightarrow> re_intn env r n < n)
     \<and> (\<forall>select cs request. re_selector env = Some select \<and> cs \<noteq> [] \<longrightarrow> select cs request \<in> set cs)"

lemma select_fresh_mem:
  assumes "env_ok env" "cs \<noteq> []"
  shows "fst (select_fresh rv env r target cs q st) \<in> set cs"
proof -
  define policy where "policy = algorithm_name (normalize_load_balance_policy (trim_space (ct_load_balance target)))"
  define request where "request = \<lparr>Policy = policy, StickyKey = resolve_sticky_selection_key env r q\<rparr>"
  show ?thesis
  proof (cases "re_selector env")
    case None
    define algorithm where "algorithm = (if trim_space policy = [] then rv_default_selector rv else normalize_load_balance_policy policy)"
    obtain c where "c \<in> set cs" "fst (run_selector (re_intn env (r_id r)) algorithm request cs (rv_selectors st)) = Some c"
      using run_selector_chooses [of cs "re_intn env (r_id r)" algorithm request "rv_selectors st"] assms
      unfolding env_ok_def by blast
    moreover have "resolve_service_instance_selector rv env policy = Inr algorithm"
      by (simp add: resolve_service_instance_selector_def None algorithm_def)
    ultimately show ?thesis
      unfolding select_fresh_def Let_def case_prod_unfold policy_def [symmetric] request_def [symmetric] by simp
  next
    case (Some select)
    then have "select cs request \<in> set cs" using assms unfolding env_ok_def by blast
    moreover have "resolve_service_instance_selector rv env policy = Inl select"
      by (simp add: resolve_service_instance_selector_def Some)
    ultimately show ?thesis
      unfolding select_fresh_def Let_def case_prod_unfold policy_def [symmetric] request_def [symmetric] by simp
  qed
qed






lemma resolved_scope_facts:
  assumes "routes_ok (rv_routes rv)" "resolve rv env q st = Some (Inr result, st')"
  defines "chain \<equiv> build_scope_chain rv (rr_request_scope result)"
  shows "rr_matched_scope result = normalize_scope (r_scope (rr_route result))"
    and "\<exists>i < length chain. chain ! i = rr_matched_scope result \<and> rr_path result = take (i + 1) chain"
    and "(\<forall>p. lookup_fallback_policy rv (rr_request_scope result) = Some p \<longrightarrow> \<not> fp_enabled p) \<longrightarrow>
           rr_matched_scope result = normalize_scope (rr_request_scope result) \<and> \<not> rr_fallback result"
    and "rr_external result \<noteq> None \<longrightarrow>
           rr_fallback result \<and> is_external_fallback_enabled rv (rr_request_scope result)"
proof -
  from resolve_from [OF assms(1, 2)] obtain s fallback where s: "s \<in> set (scoped_routes rv env q)"
    and from_s: "comes_from rv env q s fallback result"
    and kind: "if fallback then targets_external s \<and> is_external_fallback_enabled rv (sc_request s) else targets_connector s"
    by blast
  from from_s obtain t st1 st2 where t: "resolve_target rv env (sc_route s) q st1 = (Inr t, st2)"
    and r: "result = result_of s t fallback" by (auto simp: comes_from_def)
  note fields = build_scoped_mem [OF s [unfolded scoped_routes_def]]
  have chain: "chain = build_scope_chain rv (sc_request s)" by (simp add: chain_def r result_of_def)
  show "rr_matched_scope result = normalize_scope (r_scope (rr_route result))" by (simp add: r result_of_def fields(2))
  show on: "\<exists>i < length chain. chain ! i = rr_matched_scope result \<and> rr_path result = take (i + 1) chain"
    using fields(4-6) by (auto simp: chain r result_of_def)
  show "(\<forall>p. lookup_fallback_policy rv (rr_request_scope result) = Some p \<longrightarrow> \<not> fp_enabled p) \<longrightarrow>
      rr_matched_scope result = normalize_scope (rr_request_scope result) \<and> \<not> rr_fallback result"
  proof
    assume off: "\<forall>p. lookup_fallback_policy rv (rr_request_scope result) = Some p \<longrightarrow> \<not> fp_enabled p"
    then have "chain \<in> {[], [normalize_scope (rr_request_scope result)]}"
      by (auto simp: chain_def build_scope_chain_def lookup_fallback_policy_def Let_def split: option.splits if_splits)
    with on have "rr_matched_scope result = normalize_scope (rr_request_scope result)" by auto
    moreover have "\<not> fallback" using kind off
      by (auto simp: is_external_fallback_enabled_def r result_of_def split: if_splits option.splits)
    ultimately show "rr_matched_scope result = normalize_scope (rr_request_scope result) \<and> \<not> rr_fallback result"
      by (simp add: r result_of_def)
  qed
  show "rr_external result \<noteq> None \<longrightarrow> rr_fallback result \<and> is_external_fallback_enabled rv (rr_request_scope result)"
    using t kind by (auto simp: r result_of_def resolve_target_def targets_connector_def
      split: if_splits resolved_target.splits prod.splits sum.splits)
qed

text \<open>
  Scopes are isolated unless a policy opens them: the route of a result lies in a scope of
  the chain of the request's scope, at the end of the reported fallback path; without an enabled
  policy for the namespace this is the request's scope itself; and an external service is used
  only as a fallback, and only where the policy of the namespace enables it.
\<close>

theorem resolved_scope_allowed:
  assumes "routes_ok (rv_routes rv)" "resolve rv env q st = Some (Inr result, st')"
  shows "rr_matched_scope result = normalize_scope (r_scope (rr_route result))
     \<and> (\<exists>i < length (build_scope_chain rv (rr_request_scope result)).
          build_scope_chain rv (rr_request_scope result) ! i = rr_matched_scope result
          \<and> rr_path result = take (i + 1) (build_scope_chain rv (rr_request_scope result)))
     \<and> ((\<forall>p. lookup_fallback_policy rv (rr_request_scope result) = Some p \<longrightarrow> \<not> fp_enabled p) \<longrightarrow>
          rr_matched_scope result = normalize_scope (rr_request_scope result) \<and> \<not> rr_fallback result)
     \<and> (rr_external result \<noteq> None \<longrightarrow>
          rr_fallback result \<and> is_external_fallback_enabled rv (rr_request_scope result))"
  using resolved_scope_facts [OF assms] by blast



text \<open>
  A traffic stays on its instance: once a request of a traffic has been given an instance,
  the next one of the same traffic before the entry expires is given the same instance or none,
  with whatever candidates, policies and targets it comes.
\<close>

theorem traffic_keeps_instance:
  assumes "select_connector_resolution rv env r target cs q st = (Inr c, st1)"
    and "select_connector_resolution rv' env' r' target' cs' q' st1 = (Inr c', st2)"
    and "resolve_lookup_traffic_id q \<noteq> []" "resolve_lookup_traffic_id q' = resolve_lookup_traffic_id q"
    and "fst (affinity_load (re_load_at env (r_id r)) (resolve_lookup_traffic_id q) (re_load_at env (r_id r)) (rv_affinity st)) = None"
    and "candidate_id c \<noteq> []"
    and "re_load_at env' (r_id r') < re_store_at env (r_id r) + af_ttl (rv_affinity st)"
  shows "candidate_id c' = candidate_id c"
proof -
  let ?t = "resolve_lookup_traffic_id q" and ?l = "re_load_at env (r_id r)" and ?s = "re_store_at env (r_id r)"
    and ?l' = "re_load_at env' (r_id r')"
  have trim: "trim_space ?t = ?t" "trim_space (candidate_id c) = candidate_id c"
    by (simp_all add: resolve_lookup_traffic_id_def candidate_id_def)
  define st0 where "st0 = st\<lparr>rv_affinity := snd (affinity_load ?l ?t ?l (rv_affinity st))\<rparr>"
  have "select_fresh rv env r target (ordered cs) q st0 = (c, st1)"
    using assms(1, 3, 5) unfolding select_connector_resolution_def Let_def st0_def
    by (auto simp: case_prod_unfold split: if_splits)
  then have put: "rv_affinity st1 = affinity_put ?s ?t (candidate_id c) ?s (rv_affinity st0)"
    using assms(3, 6) unfolding select_fresh_def Let_def by (auto simp: case_prod_unfold)
  have "af_ttl (rv_affinity st0) = af_ttl (rv_affinity st)"
    by (simp add: st0_def affinity_load_def Let_def split: option.split)
  then have "affinity_load ?l' ?t ?l' (rv_affinity st1) = (Some (candidate_id c), rv_affinity st1)"
    unfolding put using affinity_remembers [of ?t "candidate_id c" ?l' ?l' ?s ?s "rv_affinity st0"] assms(3, 6, 7)
    by (simp add: trim now_or_def)
  with assms(2, 3, 4) show ?thesis
    by (auto simp: select_connector_resolution_def Let_def find_Some_iff split: if_splits option.splits)
qed

text \<open>
  The configured default algorithm is never consulted: the policy of the target is replaced by
  the name of an algorithm, round robin if it is blank, before the default would be looked up.
\<close>

lemma algorithm_name_nonblank: "trim_space (algorithm_name a) = algorithm_name a"
  by (cases a) (simp_all add: algorithm_name_def trim_space_graphic graphic_def)

lemma default_selector_unused:
  "select_fresh (rv\<lparr>rv_default_selector := a\<rparr>) env r target cs q st = select_fresh rv env r target cs q st"
proof -
  have "resolve_service_instance_selector rv' env (algorithm_name b)
      = (case re_selector env of Some select \<Rightarrow> Inl select | None \<Rightarrow> Inr (normalize_load_balance_policy (algorithm_name b)))" for rv' b
    by (simp add: resolve_service_instance_selector_def algorithm_name_nonblank split: option.split)
       (cases b; simp add: algorithm_name_def)
  then show ?thesis by (simp add: select_fresh_def)
qed



text \<open>
  A session committed again for another connector answers for its former connector as well: an
  instance of that connector that names no session is then served by a stranger's session.
\<close>

lemma index_follows_no_connector:
  assumes run1: "commit_authoritative wall now1 r1 new_session_registry = ((res1, True), reg1)"
    and run2: "commit_authoritative wall now2 r2 reg1 = ((res2, True), reg2)"
    and same: "trim_space (sr_session r2) = trim_space (sr_session r1)" "trim_space (sr_connector r2) \<noteq> trim_space (sr_connector r1)"
    and i: "trim_space (si_session i) = []" "trim_space (si_connector i) = trim_space (sr_connector r1)"
  shows "\<exists>s. resolve_service_session (rv\<lparr>rv_sessions := reg2\<rparr>) i (trim_space (si_connector i)) = Some s
    \<and> sr_connector s = trim_space (sr_connector r2) \<and> sr_state s = sr_state r2"
proof -
  have inv1: "sessions_inv reg1"
    using session_ok_exec [OF session_ok_new, of "CommitAuthoritative wall now1 r1"] run1 by (simp add: session_ok_def)
  have "map_of (byConnector reg1) (trim_space (sr_connector r1)) = Some (trim_space (sr_session r1))"
    using commit_effect [OF sessions_inv_new run1 refl refl] by simp
  then have "map_of (byConnector reg2) (trim_space (sr_connector r1)) = Some (trim_space (sr_session r1))"
    "map_of (bySessionID reg2) (trim_space (sr_session r1)) = Some (committed_session (now_or wall now2) r2)"
    using commit_effect [OF inv1 run2 refl refl] same by simp_all
  then show ?thesis
    using i by (simp add: resolve_service_session_def get_by_connector_def current_session_def committed_session_def)
qed


section \<open>Examples\<close>

definition sample_target :: connector_service_target where
  "sample_target = \<lparr>ct_selector = \<lparr>ss_service = ''s'', ss_name = [], ss_scope = no_scope, ss_match_labels = [],
     ss_instance_labels = []\<rparr>, ct_instance_selector = [], ct_load_balance = []\<rparr>"

definition sample_route :: route where
  "sample_route = \<lparr>r_id = ''s'', r_scope = \<lparr>Namespace = ''n'', Environment = ''e''\<rparr>,
     r_injection = \<lparr>InjectScope = no_scope, InjectPolicy = ScopeInjectPolicyDisabled\<rparr>,
     r_version = 1, r_match = \<lparr>rm_protocol = [], rm_host = [], rm_authority = [], rm_listen_port = 0,
       rm_path_prefix = [], rm_sni = [], rm_headers = [], rm_queries = []\<rparr>,
     r_target = \<lparr>rt_type = RouteTargetTypeConnectorService, rt_connector = Some sample_target, rt_external = None\<rparr>,
     r_policy = [], r_priority = 0, r_status = [], r_metadata = []\<rparr>"

definition sample_request :: route_lookup_request where
  "sample_request = \<lparr>rq_mode = IngressModeL7Shared, rq_protocol = [], rq_host = [], rq_authority = [], rq_path = [],
     rq_sni = [], rq_port = 0, rq_namespace = ''n'', rq_environment = ''e'', rq_metadata = [], rq_headers = [],
     rq_queries = []\<rparr>"

definition sample_active_service :: logical_service where
  "sample_active_service = sample_service\<lparr>ls_status := ServiceStatusActive\<rparr>"

definition sample_resolver :: resolver where
  "sample_resolver = \<lparr>rv_routes = [(''s'', \<lparr>rs_route = sample_route, rs_updated_at = 1\<rparr>)],
     rv_services = new_service_registry\<lparr>
       logicalServices := [(''s'', \<lparr>lss_service = sample_active_service, lss_updated_at = 1\<rparr>)],
       instances := [(''i'', \<lparr>sis_service = sample_active_service, sis_instance = sample_instance, sis_updated_at = 1\<rparr>)],
       instanceIDsByService := [(''s'', [''i''])]\<rparr>,
     rv_sessions = \<lparr>bySessionID = [(''x'', cr_session (sample_candidate ''i''))], byConnector = [(''c'', ''x'')]\<rparr>,
     rv_default_selector = RoundRobin, rv_default_scope = no_scope, rv_policies = []\<rparr>"

definition sample_env :: resolve_env where
  "sample_env = \<lparr>re_compile = (\<lambda>_. None), re_sticky_by = (\<lambda>_. None), re_cookie = (\<lambda>_ _. None), re_load_at = (\<lambda>_. 1),
     re_store_at = (\<lambda>_. 1), re_intn = (\<lambda>_ n. n - 1), re_selector = None\<rparr>"

definition sample_resolver_state :: resolver_state where
  "sample_resolver_state = \<lparr>rv_selectors = \<lparr>sel_round_robin = 0, sel_sticky = 0, sel_weighted = 0\<rparr>,
     rv_affinity = new_traffic_affinity_store 0 0\<rparr>"

definition sample_resolution :: connector_resolution where
  "sample_resolution = \<lparr>cr_service = sample_active_service, cr_instance = sample_instance,
     cr_session = cr_session (sample_candidate ''i'')\<rparr>"

lemma sample_routes_ok: "routes_ok (rv_routes sample_resolver)"
  by (simp add: routes_ok_def sample_resolver_def sample_route_def trim_sample)

lemma sample_env_ok: "env_ok sample_env"
  by (simp add: env_ok_def sample_env_def)

lemma sample_match: "match_routes (re_compile sample_env) sample_request (list_routes (rv_routes sample_resolver)) = [sample_route]"
  by (simp add: match_routes_def scored_routes_def normalize_lookup_request_def resolve_route_ingress_mode_def
      ingress_mode_of_match_def score_route_match_def criterion_def rank_def Let_def map_filter_def
      normalize_route_host_value_def normalize_route_authority_value_def normalize_route_query_matchers_def
      normalize_route_header_matchers_def normalize_matchers_def sample_request_def sample_resolver_def
      list_routes_def sample_route_def)

lemma sample_target_resolved:
  "\<exists>st. resolve_target sample_resolver sample_env sample_route sample_request sample_resolver_state
     = (Inr (ToConnector sample_resolution), st)"
proof -
  have service: "resolve_logical_service sample_resolver (ct_selector sample_target) (r_scope sample_route) = Inr sample_active_service"
    by (simp add: resolve_logical_service_def sample_target_def get_logical_service_def sample_resolver_def trim_sample)
  have inst: "list_instances_by_service (ls_id sample_active_service) (rv_services sample_resolver)
      = [\<lparr>sis_service = sample_active_service, sis_instance = sample_instance, sis_updated_at = 1\<rparr>]"
    by (simp add: list_instances_by_service_def sample_active_service_def sample_service_def trim_sample
        instances_by_service_def sample_resolver_def index_ids_def map_filter_def no_service_def Let_def)
  have judged: "judge_instance sample_resolver sample_active_service ls sample_instance = Inr sample_resolution" if "ls = []" for ls
    using that by (simp add: judge_instance_def sample_instance_def match_labels_def resolve_service_session_def get_by_session_def
        sample_resolver_def sample_candidate_def trim_sample sample_resolution_def Let_def)
  have fields: "ls_status sample_active_service = ServiceStatusActive"
    "validate_route_scope (r_scope sample_route) (ls_scope sample_active_service) = None"
    "match_labels (ls_labels sample_active_service) (ss_match_labels (ct_selector sample_target))"
    "merge_string_maps (ss_instance_labels (ct_selector sample_target)) (ct_instance_selector sample_target) = []"
    by (simp_all add: sample_active_service_def sample_service_def sample_route_def validate_route_scope_def match_labels_def
        sample_target_def merge_string_maps_def no_service_def)
  have "resolve_connector_target sample_resolver sample_env sample_route (Some sample_target) sample_request sample_resolver_state
      = select_connector_resolution sample_resolver sample_env sample_route sample_target [sample_resolution] sample_request
          sample_resolver_state"
    by (simp add: resolve_connector_target_def service inst Let_def fields judged candidates_of_def map_filter_def)
  moreover have "\<exists>st. select_connector_resolution sample_resolver sample_env sample_route sample_target [sample_resolution]
      sample_request sample_resolver_state = (Inr sample_resolution, st)"
  proof -
    have "fst (select_fresh sample_resolver sample_env sample_route sample_target [sample_resolution] sample_request st)
        = sample_resolution" for st
      using select_fresh_mem [OF sample_env_ok, of "[sample_resolution]"] by simp
    then show ?thesis
      by (simp add: select_connector_resolution_def resolve_lookup_traffic_id_def sample_request_def label_def Let_def
          case_prod_unfold ordered_def)
  qed
  ultimately obtain st where "resolve_connector_target sample_resolver sample_env sample_route (Some sample_target) sample_request
      sample_resolver_state = (Inr sample_resolution, st)" by auto
  then have "resolve_target sample_resolver sample_env sample_route sample_request sample_resolver_state
      = (Inr (ToConnector sample_resolution), st)"
    by (simp add: resolve_target_def normalize_route_target_type_def) (simp add: sample_route_def normalize_route_target_type_def)
  then show ?thesis by blast
qed


lemma sample_resolved:
  "\<exists>(result :: resolve_result) st. resolve sample_resolver sample_env sample_request sample_resolver_state = Some (Inr result, st)
     \<and> rr_connector result = Some sample_resolution"
proof -
  have scoped: "scoped_routes sample_resolver sample_env sample_request
      = [\<lparr>sc_route = sample_route, sc_matched = r_scope sample_route, sc_index = 0, sc_request = r_scope sample_route,
          sc_path = [r_scope sample_route]\<rparr>]" (is "_ = [?c]")
    by (simp add: scoped_routes_def sample_match)
       (simp add: build_scoped_route_candidates_def map_filter_def sample_request_def sample_resolver_def sample_route_def
         resolve_request_scope_def resolve_effective_request_scope_def normalize_scope_inject_policy_def Let_def
         build_scope_chain_def find_scope_index_def is_valid_scope_def scopes_equal_def normalize_scope_def trim_sample no_scope_def)
  obtain st where t: "resolve_target sample_resolver sample_env sample_route sample_request sample_resolver_state
     = (Inr (ToConnector sample_resolution), st)" using sample_target_resolved by blast
  have "targets_connector ?c" by (simp add: targets_connector_def sample_route_def normalize_route_target_type_def)
  then have scopes: "map (filter targets_connector \<circ> (\<lambda>i. filter (\<lambda>c. sc_index c = i) [?c])) [0..<max_scope_index [?c] + 1] = [[?c]]"
    by (simp add: max_scope_index_def)
  have "ids_usable [?c]" by (simp add: ids_usable_def sample_route_def trim_sample)
  then have loop: "scope_loop sample_resolver sample_env sample_request [[?c]] None sample_resolver_state
      = Some (Inr (result_of ?c (ToConnector sample_resolution) False), st)"
    by (simp add: connector_loop_returns t)
  have sorted: "sort_key sc_index [?c] = [?c]" by simp
  have "resolve sample_resolver sample_env sample_request sample_resolver_state
      = Some (Inr (result_of ?c (ToConnector sample_resolution) False), st)"
    unfolding resolve_def Let_def scoped_routes_def [symmetric] scoped unfolding sample_match sorted scopes loop by simp
  then show ?thesis by (simp add: result_of_def)
qed

lemma resolve_returns_witness: "\<exists>outcome. resolve sample_resolver sample_env sample_request sample_resolver_state = Some outcome"
  by (rule resolve_returns) (rule sample_routes_ok)


lemma resolved_scope_allowed_witness:
  "\<exists>(result :: resolve_result) st. resolve sample_resolver sample_env sample_request sample_resolver_state = Some (Inr result, st)
     \<and> rr_matched_scope result = normalize_scope (r_scope (rr_route result))"
proof -
  obtain result st where r: "resolve sample_resolver sample_env sample_request sample_resolver_state = Some (Inr result, st)"
    using sample_resolved by blast
  from resolved_scope_allowed [OF sample_routes_ok r] r show ?thesis by blast
qed

lemma traffic_keeps_instance_witness:
  "\<exists>st1 st2 c c'. select_connector_resolution sample_resolver sample_env sample_route sample_target [sample_resolution]
       (sample_request\<lparr>rq_metadata := [(''traffic_id'', ''x'')]\<rparr>) sample_resolver_state = (Inr c, st1)
     \<and> select_connector_resolution sample_resolver sample_env sample_route sample_target [sample_resolution]
         (sample_request\<lparr>rq_metadata := [(''traffic_id'', ''x'')]\<rparr>) st1 = (Inr c', st2)
     \<and> candidate_id c' = candidate_id c"
proof -
  let ?q = "sample_request\<lparr>rq_metadata := [(''traffic_id'', ''x'')]\<rparr>"
  let ?sel = "select_connector_resolution sample_resolver sample_env sample_route sample_target [sample_resolution] ?q"
  let ?fresh = "select_fresh sample_resolver sample_env sample_route sample_target [sample_resolution] ?q"
  have traffic: "resolve_lookup_traffic_id ?q = ''x''" by (simp add: resolve_lookup_traffic_id_def label_def trim_sample)
  have times: "re_load_at sample_env i = 1" "re_store_at sample_env i = 1" for i by (simp_all add: sample_env_def)
  have empty: "affinity_load 1 ''x'' 1 (rv_affinity sample_resolver_state) = (None, rv_affinity sample_resolver_state)"
    by (simp add: affinity_load_def sample_resolver_state_def new_traffic_affinity_store_def trim_sample Let_def)
  have ids: "candidate_id sample_resolution = ''i''"
    by (simp add: candidate_id_def sample_resolution_def sample_instance_def trim_sample)
  have fresh: "fst (?fresh sample_resolver_state) = sample_resolution"
    using select_fresh_mem [OF sample_env_ok, of "[sample_resolution]"] by simp
  define st1 where "st1 = snd (?fresh sample_resolver_state)"
  have one: "?sel sample_resolver_state = (Inr sample_resolution, st1)"
    by (simp add: select_connector_resolution_def traffic times empty Let_def ordered_def case_prod_unfold fresh st1_def)
  have "rv_affinity st1 = affinity_put 1 ''x'' ''i'' 1 (rv_affinity sample_resolver_state)"
    using fresh by (simp add: st1_def select_fresh_def Let_def case_prod_unfold traffic times ids)
  then have "affinity_load 1 ''x'' 1 (rv_affinity st1) = (Some ''i'', rv_affinity st1)"
    using affinity_remembers [of "''x''" "''i''" 1 1 1 1 "rv_affinity sample_resolver_state"]
    by (simp add: trim_sample sample_resolver_state_def new_traffic_affinity_store_def default_traffic_affinity_ttl_def)
  then have two: "?sel st1 = (Inr sample_resolution, st1)"
    by (simp add: select_connector_resolution_def traffic times Let_def ordered_def ids)
  have "candidate_id sample_resolution = candidate_id sample_resolution"
    by (rule traffic_keeps_instance [OF one two])
       (simp_all add: traffic times empty ids, simp add: sample_resolver_state_def new_traffic_affinity_store_def
          default_traffic_affinity_ttl_def)
  with one two show ?thesis by blast
qed

end
