(* ===== verification/Route_Admission.thy ===== *)
theory Route_Admission
  imports Route_Resolver
begin

text \<open>
  The check that routes pass before they are registered
  (\<open>cloud-bridge/runtime/bridge/admission/route_conflict.go\<close>): a route is refused when an existing
  one has the same match and the same priority but another target, and is admitted with a
  warning when the priorities differ.
\<close>

section \<open>Normalized routes\<close>

text \<open>The bodies of these functions are those of the matcher.\<close>

definition normalize_admission_protocol :: "string \<Rightarrow> string" where
  "normalize_admission_protocol p = to_lower (trim_space p)"

definition normalize_admission_sni :: "string \<Rightarrow> string" where
  "normalize_admission_sni s = to_lower (trim_space s)"

definition normalize_admission_host :: "string \<Rightarrow> string" where
  "normalize_admission_host = normalize_route_host_value"

definition normalize_admission_authority :: "string \<Rightarrow> string" where
  "normalize_admission_authority = normalize_route_authority_value"

definition normalize_admission_path_prefix :: "string \<Rightarrow> string" where
  "normalize_admission_path_prefix = normalize_path"

definition normalize_admission_scope_injection :: "scope_injection \<Rightarrow> scope_injection" where
  "normalize_admission_scope_injection i =
     \<lparr>InjectScope = normalize_scope (InjectScope i), InjectPolicy = normalize_scope_inject_policy (InjectPolicy i)\<rparr>"

text \<open>\<open>strings.Join\<close>.\<close>

fun join_strings :: "string \<Rightarrow> string list \<Rightarrow> string" where
  "join_strings sep [] = []"
| "join_strings sep [s] = s"
| "join_strings sep (s # t # ss) = s @ sep @ join_strings sep (t # ss)"

definition format_bool :: "bool \<Rightarrow> string" where
  "format_bool b = (if b then ''true'' else ''false'')"

definition build_matcher_entry :: "(string \<Rightarrow> string) \<Rightarrow> value_matcher \<Rightarrow> string" where
  "build_matcher_entry norm m =
     join_strings '':'' [norm (vm_name m), trim_space (vm_exact m), trim_space (vm_prefix m), trim_space (vm_regex m),
       case vm_present m of None \<Rightarrow> [] | Some b \<Rightarrow> format_bool b]"

definition build_header_matcher_entry :: "value_matcher \<Rightarrow> string" where
  "build_header_matcher_entry = build_matcher_entry (\<lambda>s. to_lower (trim_space s))"

definition build_query_matcher_entry :: "value_matcher \<Rightarrow> string" where
  "build_query_matcher_entry = build_matcher_entry trim_space"

definition normalize_admission_header_matchers :: "value_matcher list \<Rightarrow> value_matcher list" where
  "normalize_admission_header_matchers ms = sort_key build_header_matcher_entry (normalize_route_header_matchers ms)"

definition normalize_admission_query_matchers :: "value_matcher list \<Rightarrow> value_matcher list" where
  "normalize_admission_query_matchers ms = sort_key build_query_matcher_entry (normalize_route_query_matchers ms)"

definition build_header_matcher_signature :: "value_matcher list \<Rightarrow> string" where
  "build_header_matcher_signature ms =
     join_strings ''|'' (map build_header_matcher_entry (normalize_admission_header_matchers ms))"

definition build_query_matcher_signature :: "value_matcher list \<Rightarrow> string" where
  "build_query_matcher_signature ms =
     join_strings ''|'' (map build_query_matcher_entry (normalize_admission_query_matchers ms))"

definition normalize_admission_route :: "route \<Rightarrow> route" where
  "normalize_admission_route r =
     r\<lparr>r_id := trim_space (r_id r), r_scope := normalize_scope (r_scope r),
       r_injection := normalize_admission_scope_injection (r_injection r),
       r_match := (r_match r)\<lparr>rm_protocol := normalize_admission_protocol (rm_protocol (r_match r)),
         rm_host := normalize_admission_host (rm_host (r_match r)),
         rm_authority := normalize_admission_authority (rm_authority (r_match r)),
         rm_path_prefix := normalize_admission_path_prefix (rm_path_prefix (r_match r)),
         rm_sni := normalize_admission_sni (rm_sni (r_match r)),
         rm_headers := normalize_admission_header_matchers (rm_headers (r_match r)),
         rm_queries := normalize_admission_query_matchers (rm_queries (r_match r))\<rparr>\<rparr>"

definition resolve_admission_ingress_mode :: "route \<Rightarrow> ingress_mode" where
  "resolve_admission_ingress_mode r =
     (let m = r_match r; protocol = normalize_admission_protocol (rm_protocol m);
          implied = (if normalize_admission_sni (rm_sni m) \<noteq> [] then IngressModeTLSSNIShared
                     else if rm_listen_port m \<noteq> 0 \<and> normalize_admission_host (rm_host m) = []
                             \<and> normalize_admission_authority (rm_authority m) = []
                             \<and> normalize_admission_path_prefix (rm_path_prefix m) = ''/''
                             \<and> (protocol = [] \<or> protocol = ''tcp'')
                     then IngressModeL4DedicatedPort else IngressModeL7Shared)
      in case map_option trim_space (map_of (r_metadata r) ''ingress_mode'') of
           None \<Rightarrow> implied
         | Some t \<Rightarrow> if t = ''l7_shared'' then IngressModeL7Shared
                     else if t = ''tls_sni_shared'' then IngressModeTLSSNIShared
                     else if t = ''l4_dedicated_port'' then IngressModeL4DedicatedPort else implied)"


section \<open>The same match\<close>

definition routes_overlap_under_scope_rules :: "route \<Rightarrow> route \<Rightarrow> bool" where
  "routes_overlap_under_scope_rules left right \<longleftrightarrow>
     normalize_scope_inject_policy (InjectPolicy (r_injection left)) \<noteq> ScopeInjectPolicyDisabled
     \<or> normalize_scope_inject_policy (InjectPolicy (r_injection right)) \<noteq> ScopeInjectPolicyDisabled
     \<or> normalize_scope (r_scope left) = normalize_scope (r_scope right)"

definition routes_share_exact_admission_match :: "route \<Rightarrow> route \<Rightarrow> bool" where
  "routes_share_exact_admission_match left right \<longleftrightarrow>
     (let l = r_match left; r = r_match right
      in resolve_admission_ingress_mode left = resolve_admission_ingress_mode right
         \<and> normalize_admission_protocol (rm_protocol l) = normalize_admission_protocol (rm_protocol r)
         \<and> normalize_admission_host (rm_host l) = normalize_admission_host (rm_host r)
         \<and> normalize_admission_authority (rm_authority l) = normalize_admission_authority (rm_authority r)
         \<and> normalize_admission_path_prefix (rm_path_prefix l) = normalize_admission_path_prefix (rm_path_prefix r)
         \<and> normalize_admission_sni (rm_sni l) = normalize_admission_sni (rm_sni r)
         \<and> rm_listen_port l = rm_listen_port r
         \<and> build_header_matcher_signature (rm_headers l) = build_header_matcher_signature (rm_headers r)
         \<and> build_query_matcher_signature (rm_queries l) = build_query_matcher_signature (rm_queries r)
         \<and> routes_overlap_under_scope_rules left right)"


section \<open>Targets\<close>

definition build_sorted_string_map :: "labels \<Rightarrow> string" where
  "build_sorted_string_map m =
     join_strings ''&'' (map (\<lambda>k. trim_space k @ ''='' @ trim_space (label m k)) (sort (map fst m)))"

definition resolve_target_identity :: "service_registry \<Rightarrow> route \<Rightarrow> string" where
  "resolve_target_identity services r =
     (case rt_type (r_target r) of
        RouteTargetTypeConnectorService \<Rightarrow>
          (case rt_connector (r_target r) of
             None \<Rightarrow> []
           | Some target \<Rightarrow>
               let sel = ct_selector target;
                   s = \<lparr>Namespace = (if trim_space (Namespace (ss_scope sel)) = [] then Namespace (r_scope r) else Namespace (ss_scope sel)),
                        Environment = (if trim_space (Environment (ss_scope sel)) = [] then Environment (r_scope r) else Environment (ss_scope sel))\<rparr>;
                   path = trim_space (Namespace s) @ ''/'' @ trim_space (Environment s) @ ''/'';
                   by_name = (if trim_space (ss_name sel) = [] then None else find_service_by_name_scope (ss_name sel) s services);
                   by_labels = (if ss_match_labels sel = [] then None
                                else find (\<lambda>l. scopes_equal (ls_scope l) s \<and> match_labels (ls_labels l) (ss_match_labels sel))
                                       (list_services services))
               in if trim_space (ss_service sel) \<noteq> [] then ''logical_service_id:'' @ trim_space (ss_service sel)
                  else case by_name of
                         Some l \<Rightarrow> ''logical_service_id:'' @ trim_space (ls_id l)
                       | None \<Rightarrow>
                           (case by_labels of
                              Some l \<Rightarrow> ''logical_service_id:'' @ trim_space (ls_id l)
                            | None \<Rightarrow>
                                if trim_space (ss_name sel) \<noteq> [] then ''service_name:'' @ path @ trim_space (ss_name sel)
                                else if ss_match_labels sel \<noteq> []
                                then ''selector_labels:'' @ path @ build_sorted_string_map (ss_match_labels sel)
                                else []))
      | RouteTargetTypeExternalService \<Rightarrow>
          (case rt_external (r_target r) of
             None \<Rightarrow> []
           | Some t \<Rightarrow>
               let n = trim_space (et_namespace t); n = (if n = [] then trim_space (Namespace (r_scope r)) else n);
                   e = trim_space (et_environment t); e = (if e = [] then trim_space (Environment (r_scope r)) else e)
               in ''external:'' @ trim_space (et_provider t) @ ''/'' @ n @ ''/'' @ e @ ''/'' @ trim_space (et_service t)
                  @ ''/'' @ build_sorted_string_map (et_selector t))
      | RouteTargetTypeOther s \<Rightarrow> [])"


section \<open>Admission\<close>

datatype admission_error =
    RouteConflict string
  | AdmissionFailed chain_err

definition build_shadow_warning :: "string \<Rightarrow> string \<Rightarrow> string" where
  "build_shadow_warning i existing =
     ''route '' @ trim_space i @ '' has identical match conditions with existing route '' @ trim_space existing
     @ '' but different priority; lower-priority route may never be matched''"

text \<open>The loop over the registry; \<open>new\<close> is the normalized route, \<open>identity\<close> its target.\<close>

fun admit_loop :: "service_registry \<Rightarrow> route \<Rightarrow> string \<Rightarrow> route list \<Rightarrow> string list \<Rightarrow> admission_error + string list" where
  "admit_loop services new identity [] warnings = Inr warnings"
| "admit_loop services new identity (r # rs) warnings =
     (let existing = normalize_admission_route r; other = resolve_target_identity services existing
      in if trim_space (r_id existing) = trim_space (r_id new) then admit_loop services new identity rs warnings
         else if \<not> routes_share_exact_admission_match existing new then admit_loop services new identity rs warnings
         else if other = [] then admit_loop services new identity rs warnings
         else if identity = other then admit_loop services new identity rs warnings
         else if r_priority existing \<noteq> r_priority new
         then admit_loop services new identity rs (warnings @ [build_shadow_warning (r_id new) (r_id existing)])
         else Inl (RouteConflict (trim_space (r_id existing))))"

definition admit :: "route_registry \<Rightarrow> service_registry \<Rightarrow> route \<Rightarrow> admission_error + string list" where
  "admit routes services r =
     (let new = normalize_admission_route r; identity = resolve_target_identity services new
      in if identity = []
         then Inl (AdmissionFailed (new_error code_unsupported_value ''route target identity cannot be resolved''))
         else admit_loop services new identity (list_routes routes) [])"



section \<open>What admission promises\<close>

text \<open>Two routes clash if they have the same match and resolvable, different targets.\<close>

definition clash :: "service_registry \<Rightarrow> route \<Rightarrow> route \<Rightarrow> bool" where
  "clash services a b \<longleftrightarrow>
     trim_space (r_id a) \<noteq> trim_space (r_id b)
     \<and> routes_share_exact_admission_match (normalize_admission_route a) (normalize_admission_route b)
     \<and> resolve_target_identity services (normalize_admission_route a) \<noteq> []
     \<and> resolve_target_identity services (normalize_admission_route b) \<noteq> []
     \<and> resolve_target_identity services (normalize_admission_route a)
         \<noteq> resolve_target_identity services (normalize_admission_route b)"

lemma share_sym: "routes_share_exact_admission_match a b \<longleftrightarrow> routes_share_exact_admission_match b a"
  by (auto simp: routes_share_exact_admission_match_def routes_overlap_under_scope_rules_def Let_def)

lemma clash_sym: "clash services a b \<longleftrightarrow> clash services b a"
  unfolding clash_def using share_sym by metis

lemma normalize_admission_fields [simp]:
  "r_id (normalize_admission_route r) = trim_space (r_id r)"
  "r_priority (normalize_admission_route r) = r_priority r"
  by (simp_all add: normalize_admission_route_def)

lemma build_shadow_warning_trim [simp]:
  "build_shadow_warning (trim_space i) (trim_space j) = build_shadow_warning i j"
  by (simp add: build_shadow_warning_def)

lemma admit_loop_Cons:
  assumes "identity = resolve_target_identity services (normalize_admission_route r)" "identity \<noteq> []"
  shows "admit_loop services (normalize_admission_route r) identity (e # rs) ws =
    (if \<not> clash services e r then admit_loop services (normalize_admission_route r) identity rs ws
     else if r_priority e \<noteq> r_priority r
     then admit_loop services (normalize_admission_route r) identity rs (ws @ [build_shadow_warning (r_id r) (r_id e)])
     else Inl (RouteConflict (trim_space (r_id e))))"
  using assms by (auto simp: Let_def clash_def)

lemma admit_loop_exact:
  assumes "identity = resolve_target_identity services (normalize_admission_route r)" "identity \<noteq> []"
  shows "admit_loop services (normalize_admission_route r) identity rs ws =
    (case find (\<lambda>e. clash services e r \<and> r_priority e = r_priority r) rs of
       Some e \<Rightarrow> Inl (RouteConflict (trim_space (r_id e)))
     | None \<Rightarrow> Inr (ws @ map (\<lambda>e. build_shadow_warning (r_id r) (r_id e)) (filter (\<lambda>e. clash services e r) rs)))"
  by (induction rs arbitrary: ws) (simp_all add: admit_loop_Cons [OF assms] del: admit_loop.simps(2) split: option.split)

lemma admit_result:
  "admit routes services r =
     (if resolve_target_identity services (normalize_admission_route r) = []
      then Inl (AdmissionFailed (new_error code_unsupported_value ''route target identity cannot be resolved''))
      else case find (\<lambda>e. clash services e r \<and> r_priority e = r_priority r) (list_routes routes) of
             Some e \<Rightarrow> Inl (RouteConflict (trim_space (r_id e)))
           | None \<Rightarrow> Inr (map (\<lambda>e. build_shadow_warning (r_id r) (r_id e)) (filter (\<lambda>e. clash services e r) (list_routes routes))))"
  by (simp add: admit_def Let_def admit_loop_exact split: option.split)

text \<open>
  C34. Admission, exactly: a route whose target cannot be named is refused; otherwise it is
  refused in favour of the first registered route that clashes with it at the same priority, and
  if there is none it is admitted, with one warning for each route that clashes with it at
  another priority.
\<close>

theorem admit_exact:
  "admit routes services r =
     (if resolve_target_identity services (normalize_admission_route r) = []
      then Inl (AdmissionFailed (new_error code_unsupported_value ''route target identity cannot be resolved''))
      else case find (\<lambda>e. clash services e r \<and> r_priority e = r_priority r) (list_routes routes) of
             Some e \<Rightarrow> Inl (RouteConflict (trim_space (r_id e)))
           | None \<Rightarrow> Inr (map (\<lambda>e. build_shadow_warning (r_id r) (r_id e)) (filter (\<lambda>e. clash services e r) (list_routes routes))))"
  by (rule admit_result)

text \<open>No two routes of the registry clash at the same priority.\<close>

definition conflict_free :: "service_registry \<Rightarrow> route_registry \<Rightarrow> bool" where
  "conflict_free services routes \<longleftrightarrow>
     (\<forall>a \<in> set (list_routes routes). \<forall>b \<in> set (list_routes routes). \<not> (clash services a b \<and> r_priority a = r_priority b))"

lemma admitted_no_conflict:
  assumes "admit routes services r = Inr ws" "e \<in> set (list_routes routes)" "r_priority e = r_priority r"
  shows "\<not> clash services e r"
proof -
  have "find (\<lambda>e. clash services e r \<and> r_priority e = r_priority r) (list_routes routes) = None"
    using assms(1) by (auto simp: admit_def Let_def admit_loop_exact split: if_splits option.splits)
  with assms(2, 3) show ?thesis by (auto simp: find_None_iff)
qed

lemma clash_trimmed [simp]: "clash services e (r\<lparr>r_id := trim_space (r_id r)\<rparr>) = clash services e r"
proof -
  have "normalize_admission_route (r\<lparr>r_id := trim_space (r_id r)\<rparr>) = normalize_admission_route r"
    by (simp add: normalize_admission_route_def)
  then show ?thesis by (simp add: clash_def)
qed

lemma clash_irrefl [simp]: "\<not> clash services r r"
  by (simp add: clash_def)

lemma list_routes_upsert:
  "set (list_routes (upsert_route now r routes)) \<subseteq> insert (r\<lparr>r_id := trim_space (r_id r)\<rparr>) (set (list_routes routes))"
  by (auto simp: list_routes_def upsert_route_def Let_def dest!: set_map_put)

lemma conflict_free_upsert:
  assumes "conflict_free services routes" "admit routes services r = Inr ws"
  shows "conflict_free services (upsert_route now r routes)"
  unfolding conflict_free_def
proof (intro ballI notI)
  let ?r = "r\<lparr>r_id := trim_space (r_id r)\<rparr>"
  fix a b assume "a \<in> set (list_routes (upsert_route now r routes))" "b \<in> set (list_routes (upsert_route now r routes))"
    and c: "clash services a b \<and> r_priority a = r_priority b"
  then have ab: "a = ?r \<or> a \<in> set (list_routes routes)" "b = ?r \<or> b \<in> set (list_routes routes)"
    using list_routes_upsert [of now r routes] by auto
  have "\<not> clash services e r" if "e \<in> set (list_routes routes)" "r_priority e = r_priority r" for e
    using admitted_no_conflict [OF assms(2) that] .
  moreover have "clash services ?r e \<longleftrightarrow> clash services e r" for e using clash_sym clash_trimmed by metis
  ultimately show False
    using ab c assms(1) by (auto simp: conflict_free_def simp del: clash_trimmed) (metis clash_irrefl clash_trimmed)+
qed

text \<open>
  C16. Admission keeps the registry unambiguous: if no two of its routes clash at the same
  priority, this is still so after an admitted route is registered (for the services as they are
  at that moment).
\<close>

theorem admission_keeps_conflict_free:
  assumes "conflict_free services routes" "admit routes services r = Inr ws"
  shows "conflict_free services (upsert_route now r routes)"
  using assms by (rule conflict_free_upsert)



section \<open>Admission and matching\<close>

lemma normalized_request_path: "prefix ''/'' (rq_path (normalize_lookup_request q))"
  by (auto simp: normalize_lookup_request_def normalize_path_def Let_def)

text \<open>
  What admission compares is what the matcher looks at: two routes with the same match (and
  no conditions on headers or queries) are matched by the same requests.
\<close>

theorem same_match_same_requests:
  assumes "routes_share_exact_admission_match a b"
    and "rm_headers (r_match a) = []" "rm_headers (r_match b) = []"
    and "rm_queries (r_match a) = []" "rm_queries (r_match b) = []"
  shows "meets compile (normalize_lookup_request q) (r_match a) = meets compile (normalize_lookup_request q) (r_match b)"
proof -
  let ?q = "normalize_lookup_request q"
  have path: "(trim_space p = [] \<or> prefix (normalize_path p) (rq_path ?q)) \<longleftrightarrow> prefix (normalize_path p) (rq_path ?q)" for p
    using normalized_request_path [of q] by (auto simp: normalize_path_def)
  show ?thesis
    using assms unfolding meets_def path
    by (simp add: routes_share_exact_admission_match_def Let_def normalize_admission_protocol_def
        normalize_admission_host_def normalize_admission_authority_def normalize_admission_path_prefix_def
        normalize_admission_sni_def)
qed

text \<open>
  The signature of the header conditions joins their fields with colons without quoting them:
  conditions that accept different values have the same signature, so that admission takes
  routes for equal that are not.
\<close>

lemma header_signature_ambiguous:
  defines "m \<equiv> \<lambda>e p. \<lparr>vm_name = ''n'', vm_exact = e, vm_prefix = p, vm_regex = [], vm_present = None\<rparr>"
  shows "build_header_matcher_signature [m ''x:'' ''c''] = build_header_matcher_signature [m ''x'' '':c'']
     \<and> value_matches compile (m ''x:'' ''c'') ''x:'' \<and> \<not> value_matches compile (m ''x'' '':c'') ''x:''"
proof -
  have t: "trim_space ''x:'' = ''x:''" "trim_space '':c'' = '':c''" "trim_space ''x'' = ''x''" "trim_space ''c'' = ''c''"
    "trim_space ''n'' = ''n''"
    by (rule trim_space_graphic; simp add: graphic_def)+
  have l: "to_lower ''n'' = ''n''" by (simp add: lower_char_def)
  show ?thesis
    by (simp add: m_def build_header_matcher_signature_def normalize_admission_header_matchers_def
        normalize_route_header_matchers_def normalize_matchers_def build_header_matcher_entry_def build_matcher_entry_def
        value_matches_def t l)
qed

text \<open>
  A route on a dedicated port with the path prefix \<open>/\<close> has another mode for admission than for
  the matcher, which takes only a blank prefix for none.
\<close>

lemma admission_mode_differs:
  assumes "rm_path_prefix (r_match r) = ''/''" "rm_listen_port (r_match r) \<noteq> 0" "rm_host (r_match r) = []"
    "rm_authority (r_match r) = []" "rm_sni (r_match r) = []" "rm_protocol (r_match r) = []" "r_metadata r = []"
  shows "resolve_admission_ingress_mode r = IngressModeL4DedicatedPort"
    and "resolve_route_ingress_mode r = IngressModeL7Shared"
proof -
  have "trim_space ''/'' = ''/''" by (rule trim_space_graphic) (simp_all add: graphic_def)
  then show "resolve_admission_ingress_mode r = IngressModeL4DedicatedPort" "resolve_route_ingress_mode r = IngressModeL7Shared"
    using assms
    by (simp_all add: resolve_admission_ingress_mode_def resolve_route_ingress_mode_def ingress_mode_of_match_def Let_def
        normalize_admission_protocol_def normalize_admission_host_def normalize_admission_authority_def
        normalize_admission_path_prefix_def normalize_admission_sni_def normalize_route_host_value_def
        normalize_route_authority_value_def normalize_path_def)
qed


section \<open>Examples\<close>

lemma admission_keeps_conflict_free_witness:
  "conflict_free new_service_registry (upsert_route 1 sample_route [])
   \<and> list_routes (upsert_route 1 sample_route []) = [sample_route]"
proof -
  have free: "conflict_free new_service_registry []" by (simp add: conflict_free_def list_routes_def)
  have "admit [] new_service_registry sample_route = Inr []"
    by (simp add: admit_result list_routes_def)
       (simp add: resolve_target_identity_def normalize_admission_route_def sample_route_def sample_target_def trim_sample)
  from admission_keeps_conflict_free [OF free this] show ?thesis
    by (simp add: upsert_route_def list_routes_def sample_route_def trim_sample Let_def)
qed

lemma same_match_same_requests_witness:
  "meets (re_compile sample_env) (normalize_lookup_request sample_request) (r_match sample_route)
   = meets (re_compile sample_env) (normalize_lookup_request sample_request)
       (r_match (sample_route\<lparr>r_match := (r_match sample_route)\<lparr>rm_path_prefix := ''/''\<rparr>\<rparr>))"
proof -
  have "trim_space ''/'' = ''/''" by (rule trim_space_graphic) (simp_all add: graphic_def)
  then show ?thesis
    by (intro same_match_same_requests)
       (simp_all add: routes_share_exact_admission_match_def Let_def resolve_admission_ingress_mode_def sample_route_def
         normalize_admission_path_prefix_def normalize_path_def routes_overlap_under_scope_rules_def)
qed

end
