(* ===== verification/Host_Deriver.thy ===== *)
theory Host_Deriver
  imports Route_Admission
begin

text \<open>
  Host names derived from a service and its scope
  (\<open>cloud-bridge/runtime/bridge/ingress/hostderiver/deriver.go\<close>). The loop over the runes of a label
  is one over its bytes here: a rune beyond ASCII and each of its bytes give a hyphen, and
  hyphens do not repeat.
\<close>

section \<open>Operations\<close>

text \<open>\<open>strings.Trim\<close> and \<open>strings.Split\<close> for one byte.\<close>

definition trim_char :: "char \<Rightarrow> string \<Rightarrow> string" where
  "trim_char c s = rev (dropWhile (\<lambda>x. x = c) (rev (dropWhile (\<lambda>x. x = c) s)))"

fun split_char :: "char \<Rightarrow> string \<Rightarrow> string list" where
  "split_char c [] = [[]]"
| "split_char c (x # s) = (if x = c then [] # split_char c s
                          else case split_char c s of [] \<Rightarrow> [[x]] | p # ps \<Rightarrow> (x # p) # ps)"

definition is_label_char :: "char \<Rightarrow> bool" where
  "is_label_char c \<longleftrightarrow> (97 \<le> (of_char c :: nat) \<and> (of_char c :: nat) \<le> 122) \<or> is_digit c"

fun sanitize_chars :: "bool \<Rightarrow> string \<Rightarrow> string" where
  "sanitize_chars previous_hyphen [] = []"
| "sanitize_chars previous_hyphen (c # s) =
     (if is_label_char c then c # sanitize_chars False s
      else if previous_hyphen then sanitize_chars True s
      else CHR ''-'' # sanitize_chars True s)"

definition sanitize_host_label :: "string \<Rightarrow> string" where
  "sanitize_host_label raw =
     (let t = to_lower (trim_space raw) in if t = [] then [] else trim_char (CHR ''-'') (sanitize_chars False t))"

definition normalize_base_domain :: "string \<Rightarrow> string option" where
  "normalize_base_domain base =
     (let t = trim_char (CHR ''.'') (to_lower (trim_space base))
      in if t = [] then None
         else let labels = map sanitize_host_label (split_char (CHR ''.'') t)
              in if [] \<in> set labels then None else Some (join_strings ''.'' labels))"

definition derive_host :: "string \<Rightarrow> string \<Rightarrow> scope \<Rightarrow> string option" where
  "derive_host base name s =
     (let n = sanitize_host_label name; namespace = sanitize_host_label (Namespace s);
          environment = sanitize_host_label (Environment s)
      in case normalize_base_domain (trim_space base) of
           None \<Rightarrow> None
         | Some domain \<Rightarrow>
             if n = [] then None else if namespace = [] \<or> environment = [] then None
             else Some (join_strings ''.'' [n, environment, namespace, domain]))"


section \<open>Derived hosts are host names\<close>

text \<open>A label: letters, digits and single hyphens, none at the ends.\<close>

definition label_ok :: "string \<Rightarrow> bool" where
  "label_ok l \<longleftrightarrow> l \<noteq> [] \<and> list_all (\<lambda>c. is_label_char c \<or> c = CHR ''-'') l
     \<and> hd l \<noteq> CHR ''-'' \<and> last l \<noteq> CHR ''-'' \<and> \<not> sublist ''--'' l"

definition host_ok :: "string \<Rightarrow> bool" where
  "host_ok h \<longleftrightarrow> (\<exists>labels. 4 \<le> length labels \<and> list_all label_ok labels \<and> h = join_strings ''.'' labels)"

lemma sanitize_chars_set: "c \<in> set (sanitize_chars b s) \<Longrightarrow> is_label_char c \<or> c = CHR ''-''"
  by (induction b s rule: sanitize_chars.induct) (auto split: if_splits)

lemma hyphen_not_label: "\<not> is_label_char (CHR ''-'')"
  by (simp add: is_label_char_def is_digit_def)

lemma sanitize_chars_single:
  "\<not> sublist ''--'' (sanitize_chars b s) \<and> (b \<longrightarrow> sanitize_chars b s = [] \<or> hd (sanitize_chars b s) \<noteq> CHR ''-'')"
proof (induction b s rule: sanitize_chars.induct)
  case (2 b c s)
  then show ?case
    using hyphen_not_label by (cases "sanitize_chars True s") (auto simp: sublist_Cons_right prefix_Cons)
qed simp

lemma trim_char_sublist: "sublist (trim_char c s) s"
proof -
  have "suffix (dropWhile P xs) xs" for P and xs :: string by (rule suffix_dropWhile)
  then have "prefix (rev (dropWhile (\<lambda>x. x = c) (rev xs))) xs" for xs
    by (metis rev_rev_ident suffix_to_prefix)
  then show ?thesis unfolding trim_char_def
    by (meson prefix_imp_sublist suffix_dropWhile suffix_imp_sublist sublist_order.order_trans)
qed

lemma trim_char_ends:
  assumes "trim_char c s \<noteq> []"
  shows "hd (trim_char c s) \<noteq> c" "last (trim_char c s) \<noteq> c"
proof -
  let ?d = "dropWhile (\<lambda>x. x = c) s" and ?e = "dropWhile (\<lambda>x. x = c) (rev (dropWhile (\<lambda>x. x = c) s))"
  have e: "?e \<noteq> []" using assms by (simp add: trim_char_def)
  then have "hd ?e \<noteq> c" by (rule hd_dropWhile)
  then show "last (trim_char c s) \<noteq> c" by (simp add: trim_char_def last_rev)
  have "?d \<noteq> []"
  proof
    assume "?d = []"
    with e show False by (simp only: rev.simps dropWhile.simps)
  qed
  then have "hd ?d \<noteq> c" by (rule hd_dropWhile)
  moreover obtain r where r: "rev ?d = r @ ?e" using suffix_dropWhile [of _ "rev ?d"] unfolding suffix_def by blast
  then have "?d = rev ?e @ rev r" by (metis rev_append rev_rev_ident)
  ultimately have "hd (rev ?e) \<noteq> c" using e by (metis hd_append2 rev_is_Nil_conv)
  then show "hd (trim_char c s) \<noteq> c" by (simp add: trim_char_def)
qed

lemma sanitize_host_label_ok:
  assumes "sanitize_host_label raw \<noteq> []"
  shows "label_ok (sanitize_host_label raw)"
proof -
  define t where "t = sanitize_chars False (to_lower (trim_space raw))"
  have l: "sanitize_host_label raw = trim_char (CHR ''-'') t"
    using assms by (auto simp: sanitize_host_label_def Let_def t_def split: if_splits)
  have sub: "sublist (trim_char (CHR ''-'') t) t" by (rule trim_char_sublist)
  have "\<not> sublist ''--'' (trim_char (CHR ''-'') t)"
    using sanitize_chars_single sub unfolding t_def by (meson sublist_order.order_trans)
  moreover have "set (trim_char (CHR ''-'') t) \<subseteq> set t" using sub by (rule set_mono_sublist)
  then have "list_all (\<lambda>c. is_label_char c \<or> c = CHR ''-'') (trim_char (CHR ''-'') t)"
    using sanitize_chars_set unfolding t_def list_all_iff by blast
  ultimately show ?thesis using trim_char_ends [of "CHR ''-''" t] assms by (simp add: label_ok_def l)
qed

lemma join_strings_append:
  "xs \<noteq> [] \<Longrightarrow> ys \<noteq> [] \<Longrightarrow> join_strings sep (xs @ ys) = join_strings sep xs @ sep @ join_strings sep ys"
proof (induction xs rule: join_strings.induct [of _ sep])
  case (2 _ s)
  then show ?case by (cases ys) simp_all
qed simp_all

lemma split_char_nonempty: "split_char c s \<noteq> []"
  by (cases s) (simp_all split: list.split)

text \<open>
  A derived host is a host name: at least four labels joined by dots, each made of lower case
  letters, digits and single hyphens, with no hyphen at an end, whatever the names it is derived from.
\<close>

theorem derived_host_ok:
  assumes "derive_host base name s = Some host"
  shows "host_ok host"
proof -
  define bases where "bases = map sanitize_host_label (split_char (CHR ''.'') (trim_char (CHR ''.'') (to_lower (trim_space (trim_space base)))))"
  define ls where "ls = [sanitize_host_label name, sanitize_host_label (Environment s), sanitize_host_label (Namespace s)]"
  have host: "host = join_strings ''.'' (ls @ [join_strings ''.'' bases])" and ne: "[] \<notin> set (ls @ bases)"
    using assms by (auto simp: derive_host_def normalize_base_domain_def Let_def bases_def ls_def split: if_splits option.splits)
  have b: "bases \<noteq> []" by (simp add: bases_def split_char_nonempty)
  then have "host = join_strings ''.'' (ls @ bases)"
    unfolding host by (subst (1 2) join_strings_append) (simp_all add: ls_def)
  moreover have "4 \<le> length (ls @ bases)" using b by (cases bases) (simp_all add: ls_def)
  moreover have "list_all label_ok (ls @ bases)"
    unfolding list_all_iff
  proof
    fix l assume l: "l \<in> set (ls @ bases)"
    then obtain raw where "l = sanitize_host_label raw" by (auto simp: ls_def bases_def)
    moreover have "l \<noteq> []" using l ne by metis
    ultimately show "label_ok l" using sanitize_host_label_ok by blast
  qed
  ultimately show ?thesis unfolding host_ok_def by blast
qed



lemma derived_host_ok_witness:
  "derive_host ''d'' ''s'' \<lparr>Namespace = ''n'', Environment = ''e''\<rparr> = Some ''s.e.n.d'' \<and> host_ok ''s.e.n.d''"
proof -
  have trim: "trim_space ''d'' = ''d''" by (rule trim_space_graphic) (simp_all add: graphic_def)
  have "derive_host ''d'' ''s'' \<lparr>Namespace = ''n'', Environment = ''e''\<rparr> = Some ''s.e.n.d''"
    by (simp add: derive_host_def normalize_base_domain_def sanitize_host_label_def trim trim_sample lower_char_def
        trim_char_def is_label_char_def is_digit_def Let_def)
  from this derived_host_ok [OF this] show ?thesis by simp
qed

end
