(* ===== verification/Resource_Handlers.thy ===== *)
theory Resource_Handlers
  imports Bridge_Lifecycle Control_Message Host_Deriver
begin

text \<open>
  The handlers of resource messages: publishing and withdrawing services
  (\<open>cloud-bridge/runtime/bridge/control/publish_handler.go\<close>), assigning and revoking routes
  (\<open>route_handler.go\<close>), health reports (\<open>health_handler.go\<close>), with the validation of
  \<open>ltfp/validate\<close>. They work on the \<open>bridge_state\<close> of \<open>Bridge_Lifecycle\<close>, whose guard and
  registries they share. Metrics and audit logs are not modelled.
\<close>

section \<open>Messages\<close>

record publish_service =
  ps_instance :: string
  ps_name :: string
  ps_scope :: scope
  ps_labels :: labels
  ps_metadata :: labels
  ps_type :: string
  ps_endpoints :: "service_endpoint list"
  ps_exposure :: service_exposure
  ps_health_check :: health_check_config
  ps_discovery :: discovery_policy
  ps_route_hint :: route_hint

record unpublish_service =
  us_instance :: string
  us_service :: string
  us_name :: string
  us_scope :: scope

record route_assign =
  ra_id :: string
  ra_scope :: scope
  ra_match :: route_match
  ra_target :: route_target
  ra_priority :: "32 word"
  ra_policy :: string
  ra_metadata :: labels
  ra_injection :: scope_injection

record health_report =
  hr_instance :: string
  hr_status :: health_status

text \<open>
  The environment of a handler: regular expressions, the field names of a payload in JSON (\<open>None\<close>
  if it is no object), the base domain of the host deriver (\<open>None\<close> without one), the generators
  of identifiers and the readings of the clock.
\<close>

record handler_env =
  he_compile :: compiler
  he_fields :: "byte list \<Rightarrow> string list option"
  he_deriver :: "string option"
  he_service_id :: string
  he_instance_id :: string
  he_wall :: gotime
  he_now :: gotime
  he_route_now :: gotime

definition code_unsupported_legacy_protocol :: string where
  "code_unsupported_legacy_protocol = ''UNSUPPORTED_LEGACY_PROTOCOL''"
definition code_instance_ownership_mismatch :: string where
  "code_instance_ownership_mismatch = ''INSTANCE_OWNERSHIP_MISMATCH''"
definition code_stale_session_epoch :: string where "code_stale_session_epoch = ''STALE_SESSION_EPOCH''"
definition code_stale_epoch_event :: string where "code_stale_epoch_event = ''STALE_EPOCH_EVENT''"


section \<open>Validation\<close>

definition is_reserved_scope_header :: "string \<Rightarrow> bool" where
  "is_reserved_scope_header name \<longleftrightarrow>
     to_lower (trim_space name) \<in> {''x-bridge-namespace'', ''x-bridge-environment''}"

definition validate_no_legacy_fields :: "handler_env \<Rightarrow> byte list \<Rightarrow> string list \<Rightarrow> chain_err option" where
  "validate_no_legacy_fields env payload names =
     (if payload = [] \<or> names = [] then None
      else case he_fields env payload of
             None \<Rightarrow> None
           | Some present \<Rightarrow>
               if list_ex (\<lambda>n. n \<in> set present) names
               then Some (new_error code_unsupported_legacy_protocol ''legacy field is not supported'') else None)"

text \<open>The loops over matchers and endpoints return the error of the first one that has an error.\<close>

fun first_some :: "('a \<Rightarrow> 'e option) \<Rightarrow> 'a list \<Rightarrow> 'e option" where
  "first_some f [] = None"
| "first_some f (x # xs) = (case f x of Some e \<Rightarrow> Some e | None \<Rightarrow> first_some f xs)"

definition validate_matcher_regex :: "compiler \<Rightarrow> value_matcher \<Rightarrow> chain_err option" where
  "validate_matcher_regex compile m =
     (let p = trim_space (vm_regex m)
      in if p = [] then None
         else case compile p of None \<Rightarrow> Some (new_error code_unsupported_value ''regex is invalid'') | Some re \<Rightarrow> None)"

definition validate_route_hint :: "compiler \<Rightarrow> route_hint \<Rightarrow> chain_err option" where
  "validate_route_hint compile h =
     (let no_name = new_error code_missing_required_field ''routeHint matcher name is required'';
          header = (\<lambda>m. if trim_space (vm_name m) = [] then Some no_name
                        else if is_reserved_scope_header (vm_name m)
                        then Some (new_error code_unsupported_value ''routeHint matcher name uses reserved scope header'')
                        else validate_matcher_regex compile m);
          query = (\<lambda>m. if trim_space (vm_name m) = [] then Some no_name else validate_matcher_regex compile m)
      in case first_some header (rh_headers h) of
           Some e \<Rightarrow> Some e | None \<Rightarrow> first_some query (rh_queries h))"

fun validate_endpoints :: "string \<Rightarrow> service_endpoint list \<Rightarrow> chain_err option" where
  "validate_endpoints protocol [] = None"
| "validate_endpoints protocol (ep # eps) =
     (let p = to_lower (trim_space (ep_protocol ep))
      in if p = [] then Some (new_error code_missing_required_field ''endpoint.protocol is required'')
         else if protocol \<noteq> [] \<and> protocol \<noteq> p
         then Some (new_error code_unsupported_value ''all endpoints in one publish service must use the same protocol'')
         else if trim_space (ep_host ep) = [] then Some (new_error code_missing_required_field ''endpoint.host is required'')
         else if ep_port ep = 0 then Some (new_error code_unsupported_value ''endpoint.port must be greater than 0'')
         else validate_endpoints p eps)"

definition validate_publish_service :: "compiler \<Rightarrow> publish_service \<Rightarrow> chain_err option" where
  "validate_publish_service compile m =
     (let name = trim_space (ps_name m)
      in if name = [] then Some (new_error code_missing_required_field ''serviceName is required'')
         else if CHR ''/'' \<in> set name then Some (new_error code_unsupported_value ''serviceName must not contain a slash'')
         else if trim_space (Namespace (ps_scope m)) = []
         then Some (new_error code_missing_required_field ''scope.namespace is required'')
         else if trim_space (Environment (ps_scope m)) = []
         then Some (new_error code_missing_required_field ''scope.environment is required'')
         else if ps_endpoints m = [] then Some (new_error code_missing_required_field ''at least one endpoint is required'')
         else case validate_endpoints [] (ps_endpoints m) of
                Some e \<Rightarrow> Some e
              | None \<Rightarrow> validate_route_hint compile (ps_route_hint m))"

definition validate_unpublish_service :: "unpublish_service \<Rightarrow> chain_err option" where
  "validate_unpublish_service m =
     (if trim_space (us_instance m) = [] \<and> trim_space (us_service m) = []
      then Some (new_error code_missing_required_field ''instanceId or logicalServiceId is required'')
      else if trim_space (us_instance m) \<noteq> [] then None
      else if trim_space (us_name m) = []
      then Some (new_error code_missing_required_field ''serviceName is required when instanceId is empty'')
      else if trim_space (Namespace (us_scope m)) = []
      then Some (new_error code_missing_required_field ''scope.namespace is required when instanceId is empty'')
      else if trim_space (Environment (us_scope m)) = []
      then Some (new_error code_missing_required_field ''scope.environment is required when instanceId is empty'')
      else None)"

text \<open>
  \<open>validateSessionEpoch\<close> of both handlers; they differ in the code of the first two errors. The
  session identifier is not trimmed.
\<close>

definition validate_session_epoch :: "string \<Rightarrow> control_envelope \<Rightarrow> bridge_state \<Rightarrow> chain_err option" where
  "validate_session_epoch stale_code envelope st =
     (case get_by_session (SessionID envelope) (bs_sessions st) of
        None \<Rightarrow> Some (new_error stale_code ''session not found for resource event'')
      | Some s \<Rightarrow>
          if sr_epoch s \<noteq> SessionEpoch envelope
          then Some (new_error stale_code ''session epoch mismatch for resource event'')
          else if sr_state s \<noteq> SessionActive
          then Some (new_error code_invalid_state_transition ''session state does not allow resource mutation'')
          else None)"



section \<open>Publishing\<close>

definition service_key :: "string \<Rightarrow> scope \<Rightarrow> string" where
  "service_key name s = trim_space (Namespace s) @ ''|'' @ trim_space (Environment s) @ ''|'' @ trim_space name"

definition clone_service_exposure :: "service_exposure \<Rightarrow> service_exposure" where
  "clone_service_exposure e =
     e\<lparr>ex_host := to_lower (trim_space (ex_host e)), ex_sni_name := trim_space (ex_sni_name e),
       ex_path_prefix := trim_space (ex_path_prefix e)\<rparr>"

definition clone_discovery_policy :: "discovery_policy \<Rightarrow> discovery_policy" where
  "clone_discovery_policy p =
     p\<lparr>dp_external_name := trim_space (dp_external_name p), dp_namespace := trim_space (dp_namespace p),
       dp_group := trim_space (dp_group p)\<rparr>"

definition clone_matchers :: "value_matcher list \<Rightarrow> value_matcher list" where
  "clone_matchers =
     map (\<lambda>m. m\<lparr>vm_name := trim_space (vm_name m), vm_exact := trim_space (vm_exact m), vm_prefix := trim_space (vm_prefix m),
               vm_regex := trim_space (vm_regex m)\<rparr>)"

definition clone_route_hint :: "route_hint \<Rightarrow> route_hint" where
  "clone_route_hint h = h\<lparr>rh_headers := clone_matchers (rh_headers h), rh_queries := clone_matchers (rh_queries h)\<rparr>"

definition should_derive_publish_host :: "publish_service \<Rightarrow> bool" where
  "should_derive_publish_host m \<longleftrightarrow>
     trim_space (ex_host (ps_exposure m)) = []
     \<and> ex_ingress_mode (ps_exposure m) \<in> {IngressModeOther [], IngressModeL7Shared}
     \<and> to_lower (trim_space (ps_type m)) \<in> {''http'', ''https'', ''grpc'', ''grpc_h2'', ''grpc-h2''}"

definition derive_failed :: chain_err where
  "derive_failed = PlainError ''derive host''"

definition normalize_publish_message :: "handler_env \<Rightarrow> publish_service \<Rightarrow> chain_err + publish_service" where
  "normalize_publish_message env m =
     (let n = m\<lparr>ps_name := trim_space (ps_name m), ps_scope := normalize_scope (ps_scope m),
                ps_exposure := clone_service_exposure (ps_exposure m), ps_discovery := clone_discovery_policy (ps_discovery m),
                ps_route_hint := clone_route_hint (ps_route_hint m)\<rparr>
      in if \<not> should_derive_publish_host n \<or> ex_host (ps_exposure n) \<noteq> [] then Inr n
         else case he_deriver env of
                None \<Rightarrow> Inr n
              | Some base \<Rightarrow>
                  (case derive_host base (ps_name n) (ps_scope n) of
                     None \<Rightarrow> Inl derive_failed
                   | Some host \<Rightarrow> Inr (n\<lparr>ps_exposure := (ps_exposure n)\<lparr>ex_host := host\<rparr>\<rparr>)))"

definition resolve_connector_id :: "control_envelope \<Rightarrow> bridge_state \<Rightarrow> string" where
  "resolve_connector_id envelope st =
     (let c = trim_space (ConnectorID envelope)
      in if c \<noteq> [] then c
         else case get_by_session (SessionID envelope) (bs_sessions st) of
                None \<Rightarrow> [] | Some s \<Rightarrow> trim_space (sr_connector s))"

definition resolve_or_create_logical_service ::
    "handler_env \<Rightarrow> publish_service \<Rightarrow> 64 word \<Rightarrow> service_registry \<Rightarrow> logical_service" where
  "resolve_or_create_logical_service env m version reg =
     (case find_service_by_name_scope (ps_name m) (ps_scope m) reg of
        Some l \<Rightarrow> l\<lparr>ls_labels := ps_labels m, ls_metadata := ps_metadata m, ls_version := version\<rparr>
      | None \<Rightarrow>
          \<lparr>ls_id = he_service_id env, ls_name = trim_space (ps_name m), ls_scope = ps_scope m, ls_status = ServiceStatusActive,
           ls_active_count = 0, ls_healthy_count = 0, ls_labels = ps_labels m, ls_version = version, ls_metadata = ps_metadata m\<rparr>)"

definition apply_publish_payload :: "publish_service \<Rightarrow> service_instance \<Rightarrow> service_instance" where
  "apply_publish_payload m i =
     i\<lparr>si_endpoints := ps_endpoints m, si_exposure := clone_service_exposure (ps_exposure m),
       si_health_check := ps_health_check m, si_discovery := clone_discovery_policy (ps_discovery m),
       si_route_hint := clone_route_hint (ps_route_hint m), si_labels := ps_labels m, si_metadata := ps_metadata m\<rparr>"

text \<open>An instance the connector has published before, renewed by this event.\<close>

definition renew_instance :: "publish_service \<Rightarrow> control_envelope \<Rightarrow> service_instance \<Rightarrow> service_instance" where
  "renew_instance m envelope i =
     apply_publish_payload m
       (i\<lparr>si_session := trim_space (SessionID envelope), si_epoch := SessionEpoch envelope, si_status := ServiceStatusActive,
          si_version := ResourceVersion envelope\<rparr>)"

definition fresh_instance :: "handler_env \<Rightarrow> publish_service \<Rightarrow> logical_service \<Rightarrow> string \<Rightarrow> control_envelope \<Rightarrow> service_instance" where
  "fresh_instance env m l connector envelope =
     apply_publish_payload m
       \<lparr>si_id = (if trim_space (ps_instance m) = [] then he_instance_id env else trim_space (ps_instance m)),
        si_service = ls_id l, si_connector = trim_space connector, si_session = trim_space (SessionID envelope),
        si_epoch = SessionEpoch envelope, si_status = ServiceStatusActive, si_health = HealthStatusUnknown,
        si_version = ResourceVersion envelope, si_endpoints = ps_endpoints m, si_exposure = ps_exposure m,
        si_health_check = ps_health_check m, si_discovery = ps_discovery m, si_route_hint = ps_route_hint m,
        si_labels = ps_labels m, si_metadata = ps_metadata m\<rparr>"

definition resolve_or_create_instance ::
    "handler_env \<Rightarrow> publish_service \<Rightarrow> logical_service \<Rightarrow> string \<Rightarrow> control_envelope \<Rightarrow> service_registry
       \<Rightarrow> chain_err + service_instance" where
  "resolve_or_create_instance env m l connector envelope reg =
     (let hint = trim_space (ps_instance m); c = trim_space connector;
          other = (case find_instance_by_connector_service c (ls_id l) reg of
                     Some s \<Rightarrow> Inr (renew_instance m envelope (sis_instance s))
                   | None \<Rightarrow> Inr (fresh_instance env m l c envelope))
      in case (if hint = [] then None else get_instance hint reg) of
           None \<Rightarrow> other
         | Some s \<Rightarrow>
             if trim_space (si_connector (sis_instance s)) \<noteq> c
             then Inl (new_error code_instance_ownership_mismatch ''instance_id is owned by a different connector'')
             else if trim_space (si_service (sis_instance s)) \<noteq> trim_space (ls_id l)
             then Inl (new_error code_instance_ownership_mismatch ''instance_id belongs to a different logical service'')
             else Inr (renew_instance m envelope (sis_instance s)))"

definition service_instance_resource_id :: "string \<Rightarrow> string \<Rightarrow> string \<Rightarrow> string" where
  "service_instance_resource_id i connector session =
     (if trim_space i \<noteq> [] then trim_space i else trim_space connector @ ''|'' @ trim_space session)"


section \<open>The route of a published service\<close>

definition normalize_publish_auto_route_protocol :: "publish_service \<Rightarrow> string" where
  "normalize_publish_auto_route_protocol m =
     (let t = to_lower (trim_space (ps_type m));
          p = (if t \<noteq> [] then t
               else case filter (\<lambda>x. x \<noteq> []) (map (\<lambda>ep. to_lower (trim_space (ep_protocol ep))) (ps_endpoints m)) of
                      [] \<Rightarrow> [] | x # xs \<Rightarrow> x)
      in if p \<in> {''http'', ''https''} then ''http''
         else if p \<in> {''grpc'', ''grpc_h2'', ''grpc-h2''} then ''grpc'' else [])"

definition normalize_publish_auto_route_ingress_mode :: "publish_service \<Rightarrow> ingress_mode" where
  "normalize_publish_auto_route_ingress_mode m =
     (case ex_ingress_mode (ps_exposure m) of
        IngressModeOther s \<Rightarrow>
          (let t = trim_space s
           in if t = [] \<or> t = ''l7_shared'' then IngressModeL7Shared
              else if t = ''tls_sni_shared'' then IngressModeTLSSNIShared
              else if t = ''l4_dedicated_port'' then IngressModeL4DedicatedPort
              else IngressModeOther t)
      | mode \<Rightarrow> mode)"

definition ingress_mode_text :: "ingress_mode \<Rightarrow> string" where
  "ingress_mode_text mode =
     (case mode of IngressModeL7Shared \<Rightarrow> ''l7_shared'' | IngressModeTLSSNIShared \<Rightarrow> ''tls_sni_shared''
      | IngressModeL4DedicatedPort \<Rightarrow> ''l4_dedicated_port'' | IngressModeOther s \<Rightarrow> s)"

definition empty_match :: route_match where
  "empty_match = \<lparr>rm_protocol = [], rm_host = [], rm_authority = [], rm_listen_port = 0, rm_path_prefix = [], rm_sni = [],
     rm_headers = [], rm_queries = []\<rparr>"

definition build_publish_auto_route_match :: "publish_service \<Rightarrow> chain_err + (route_match \<times> ingress_mode) option" where
  "build_publish_auto_route_match m =
     (let mode = normalize_publish_auto_route_ingress_mode m; e = ps_exposure m
      in case mode of
           IngressModeL7Shared \<Rightarrow>
             (let protocol = normalize_publish_auto_route_protocol m; path = trim_space (ex_path_prefix e)
              in if protocol = [] then Inr None
                 else Inr (Some (empty_match\<lparr>rm_protocol := protocol, rm_host := to_lower (trim_space (ex_host e)),
                        rm_path_prefix := (if path = [] then ''/'' else path),
                        rm_headers := clone_matchers (rh_headers (ps_route_hint m)),
                        rm_queries := clone_matchers (rh_queries (ps_route_hint m))\<rparr>, mode)))
         | IngressModeTLSSNIShared \<Rightarrow>
             (let sni = to_lower (trim_space (ex_sni_name e))
              in if sni = [] then Inl (new_error code_missing_required_field ''exposure.sni_name is required for tls_sni_shared'')
                 else Inr (Some (empty_match\<lparr>rm_protocol := ''tls'', rm_listen_port := ex_listen_port e, rm_sni := sni\<rparr>, mode)))
         | IngressModeL4DedicatedPort \<Rightarrow>
             if ex_listen_port e = 0
             then Inl (new_error code_missing_required_field ''exposure.listen_port is required for l4_dedicated_port'')
             else Inr (Some (empty_match\<lparr>rm_protocol := ''tcp'', rm_listen_port := ex_listen_port e\<rparr>, mode))
         | IngressModeOther s \<Rightarrow> Inl (new_error code_unsupported_value ''unsupported exposure.ingress_mode''))"

definition sanitize_resource_id :: "string \<Rightarrow> string" where
  "sanitize_resource_id =
     map (\<lambda>c. if c \<in> {CHR ''/'', CHR 0x5C, CHR '':'', CHR ''.'', CHR '' ''} then CHR ''-'' else c)"

definition build_publish_auto_route_id :: "string \<Rightarrow> string \<Rightarrow> scope \<Rightarrow> string" where
  "build_publish_auto_route_id sid name s =
     (let t = trim_space sid; i = (if t = [] then service_key name s else t)
      in if i = [] then [] else ''agent-auto-route-'' @ sanitize_resource_id i)"

definition auto_route_target :: "logical_service \<Rightarrow> route_target" where
  "auto_route_target l =
     \<lparr>rt_type = RouteTargetTypeConnectorService,
      rt_connector = Some \<lparr>ct_selector = \<lparr>ss_service = trim_space (ls_id l), ss_name = trim_space (ls_name l),
          ss_scope = ls_scope l, ss_match_labels = [], ss_instance_labels = []\<rparr>,
        ct_instance_selector = [], ct_load_balance = []\<rparr>,
      rt_external = None\<rparr>"

definition build_auto_route ::
    "handler_env \<Rightarrow> publish_service \<Rightarrow> logical_service \<Rightarrow> service_instance \<Rightarrow> 64 word \<Rightarrow> chain_err + route option" where
  "build_auto_route env m l i version =
     (let rid = build_publish_auto_route_id (ls_id l) (ls_name l) (ls_scope l)
      in if rid = [] then Inr None
         else case validate_route_hint (he_compile env) (ps_route_hint m) of
                Some e \<Rightarrow> Inl e
              | None \<Rightarrow>
                  (case build_publish_auto_route_match m of
                     Inl e \<Rightarrow> Inl e
                   | Inr None \<Rightarrow> Inr None
                   | Inr (Some (match, mode)) \<Rightarrow>
                       Inr (Some \<lparr>r_id = rid, r_scope = ls_scope l,
                         r_injection = \<lparr>InjectScope = ls_scope l, InjectPolicy = ScopeInjectPolicyAlways\<rparr>,
                         r_version = version, r_match = match, r_target = auto_route_target l, r_policy = [],
                         r_priority = rh_priority (ps_route_hint m), r_status = [],
                         r_metadata = [(''source'', ''bridge.auto_route''), (''logical_service_id'', trim_space (ls_id l)),
                           (''instance_id'', trim_space (si_id i)), (''service_name'', trim_space (ls_name l)),
                           (''ingress_mode'', ingress_mode_text mode)]\<rparr>)))"

definition remove_auto_route :: "logical_service \<Rightarrow> route_registry \<Rightarrow> route_registry" where
  "remove_auto_route l routes =
     (let rid = build_publish_auto_route_id (ls_id l) (ls_name l) (ls_scope l)
      in if rid = [] then routes else snd (remove_route rid routes))"

text \<open>\<open>runAdmission\<close>: every refusal becomes \<open>INGRESS_ROUTE_MISMATCH\<close>.\<close>

definition run_admission :: "route \<Rightarrow> bridge_state \<Rightarrow> chain_err + string list" where
  "run_admission r st =
     (case admit (bs_routes st) (bs_services st) r of
        Inr warnings \<Rightarrow> Inr warnings
      | Inl (AdmissionFailed e) \<Rightarrow>
          if is_code (Some e) code_ingress_route_mismatch then Inl e
          else Inl (new_error code_ingress_route_mismatch (error_text e))
      | Inl (RouteConflict i) \<Rightarrow> Inl (new_error code_ingress_route_mismatch ''route conflict''))"



section \<open>Handlers of services\<close>

definition extract_error_code :: "chain_err \<Rightarrow> string" where
  "extract_error_code e = (let c = extract_code (Some e) in if c \<noteq> [] then c else code_invalid_payload)"

definition resolve_current_publish_version :: "publish_service \<Rightarrow> service_registry \<Rightarrow> string \<times> 64 word" where
  "resolve_current_publish_version m reg =
     (case (if trim_space (ps_instance m) = [] then None else get_instance (ps_instance m) reg) of
        Some s \<Rightarrow> (si_service (sis_instance s), si_version (sis_instance s))
      | None \<Rightarrow>
          (case find_service_by_name_scope (ps_name m) (ps_scope m) reg of
             Some l \<Rightarrow> (ls_id l, ls_version l)
           | None \<Rightarrow> ([], 0)))"

definition reject_publish_ack :: "publish_service \<Rightarrow> chain_err \<Rightarrow> bridge_state \<Rightarrow> resource_ack" where
  "reject_publish_ack m e st =
     (let (sid, version) = resolve_current_publish_version m (bs_services st)
      in build_publish_service_ack EventStatusRejected sid (trim_space (ps_instance m)) (trim_space (ps_name m))
           [Namespace (ps_scope m), Environment (ps_scope m)] version version (extract_error_code e) (error_text e))"

definition instance_event :: "control_envelope \<Rightarrow> string \<Rightarrow> string \<Rightarrow> resource_event_meta" where
  "instance_event envelope resource_type resource_id =
     \<lparr>meta_session_id = SessionID envelope, meta_session_epoch = SessionEpoch envelope, meta_event_id = EventID envelope,
      meta_resource_type = resource_type, meta_resource_id = resource_id,
      meta_resource_version = ResourceVersion envelope\<rparr>"

definition legacy_fields :: "string list" where
  "legacy_fields = [''serviceKey'', ''serviceId'', ''namespace'', ''environment'']"

text \<open>The checks before anything is resolved.\<close>

definition check_publish :: "handler_env \<Rightarrow> control_envelope \<Rightarrow> publish_service \<Rightarrow> bridge_state \<Rightarrow> chain_err + publish_service" where
  "check_publish env envelope m st =
     (case validate_control_envelope envelope of
        Some e \<Rightarrow> Inl e
      | None \<Rightarrow>
          (case validate_no_legacy_fields env (EnvelopePayload envelope) legacy_fields of
             Some e \<Rightarrow> Inl e
           | None \<Rightarrow>
               (case validate_publish_service (he_compile env) m of
                  Some e \<Rightarrow> Inl e
                | None \<Rightarrow>
                    (case validate_session_epoch code_stale_session_epoch envelope st of
                       Some e \<Rightarrow> Inl e
                     | None \<Rightarrow> normalize_publish_message env m))))"

text \<open>
  What an accepted event does: the route of the service is checked before anything is written,
  and registered or removed after the service and its instance.
\<close>

definition apply_publish ::
    "handler_env \<Rightarrow> publish_service \<Rightarrow> logical_service \<Rightarrow> service_instance \<Rightarrow> 64 word \<Rightarrow> bridge_state
       \<Rightarrow> chain_err option \<times> bridge_state" where
  "apply_publish env n l i version st =
     (case build_auto_route env n l i version of
        Inl e \<Rightarrow> (Some e, st)
      | Inr auto_route \<Rightarrow>
          (case (case auto_route of None \<Rightarrow> Inr [] | Some r \<Rightarrow> run_admission r st) of
             Inl e \<Rightarrow> (Some e, st)
           | Inr warnings \<Rightarrow>
               (None, st\<lparr>bs_services := upsert_service (he_wall env) (he_now env) l i (bs_services st),
                         bs_routes := (case auto_route of
                            Some r \<Rightarrow> upsert_route (he_route_now env) r (bs_routes st)
                          | None \<Rightarrow> remove_auto_route l (bs_routes st))\<rparr>)))"

definition handle_publish ::
    "handler_env \<Rightarrow> control_envelope \<Rightarrow> publish_service \<Rightarrow> bridge_state \<Rightarrow> resource_ack \<times> bridge_state" where
  "handle_publish env envelope m st =
     (case check_publish env envelope m st of
        Inl e \<Rightarrow> (reject_publish_ack m e st, st)
      | Inr n \<Rightarrow>
          let connector = resolve_connector_id envelope st;
              l = resolve_or_create_logical_service env n (ResourceVersion envelope) (bs_services st)
          in case resolve_or_create_instance env n l connector envelope (bs_services st) of
               Inl e \<Rightarrow> (reject_publish_ack n e st, st)
             | Inr i \<Rightarrow>
                 let rid = service_instance_resource_id (si_id i) connector (SessionID envelope);
                     (d, guard) = evaluate (instance_event envelope ''service_instance'' rid) (bs_guard st);
                     st1 = st\<lparr>bs_guard := guard\<rparr>;
                     (failed, st2) = (if Status d = Some EventStatusAccepted
                                      then apply_publish env n l i (ResourceVersion envelope) st1 else (None, st1))
                 in case failed of
                      Some e \<Rightarrow> (reject_publish_ack n e st2, st2)
                    | None \<Rightarrow>
                        (build_publish_service_ack (the (Status d)) (ls_id l) (si_id i) (ls_name l)
                           [Namespace (ls_scope l), Environment (ls_scope l)] (AcceptedResourceVersion d)
                           (CurrentResourceVersion d) (ErrorCode d) (ErrorMessage d), st2))"

definition reject_unpublish_ack :: "unpublish_service \<Rightarrow> chain_err \<Rightarrow> bridge_state \<Rightarrow> resource_ack" where
  "reject_unpublish_ack m e st =
     (let version = current_version (us_service m) (us_instance m) (bs_services st)
      in build_unpublish_service_ack EventStatusRejected (trim_space (us_service m)) (trim_space (us_instance m)) version version
           (extract_error_code e) (error_text e))"

text \<open>The service and the instance that are withdrawn; the latter empty if no instance is found.\<close>

definition resolve_unpublish_target ::
    "unpublish_service \<Rightarrow> string \<Rightarrow> string \<Rightarrow> service_registry \<Rightarrow> chain_err + string \<times> string" where
  "resolve_unpublish_target m connector session reg =
     (let i = trim_space (us_instance m); sid = trim_space (us_service m); c = trim_space connector; sess = trim_space session
      in if i \<noteq> []
         then case get_instance i reg of
                None \<Rightarrow> Inr (sid, i)
              | Some s \<Rightarrow>
                  let p = sis_instance s
                  in if c \<noteq> [] \<and> trim_space (si_connector p) \<noteq> c
                     then Inl (new_error code_instance_ownership_mismatch ''instance_id is owned by a different connector'')
                     else if sess \<noteq> [] \<and> trim_space (si_session p) \<noteq> [] \<and> trim_space (si_session p) \<noteq> sess
                     then Inl (new_error code_instance_ownership_mismatch ''instance_id is owned by a different session'')
                     else if sid \<noteq> [] \<and> trim_space (si_service p) \<noteq> sid
                     then Inl (new_error code_instance_ownership_mismatch ''instance_id belongs to a different logical service'')
                     else Inr (trim_space (si_service p), i)
         else let sid = (if sid \<noteq> [] then sid
                         else case find_service_by_name_scope (us_name m) (us_scope m) reg of
                                Some l \<Rightarrow> trim_space (ls_id l) | None \<Rightarrow> [])
              in case (if sid = [] then None else find_instance_by_connector_service connector sid reg) of
                   None \<Rightarrow> Inr (sid, [])
                 | Some s \<Rightarrow>
                     if sess = [] \<or> trim_space (si_session (sis_instance s)) = sess
                     then Inr (sid, trim_space (si_id (sis_instance s))) else Inr (sid, []))"

definition reconcile_auto_route_on_unpublish :: "string \<Rightarrow> bridge_state \<Rightarrow> bridge_state" where
  "reconcile_auto_route_on_unpublish raw_sid st =
     (let sid = trim_space raw_sid
      in if sid = [] then st
         else case get_logical_service sid (bs_services st) of
                None \<Rightarrow> st
              | Some l \<Rightarrow> if 0 < sint (ls_active_count l) then st else st\<lparr>bs_routes := remove_auto_route l (bs_routes st)\<rparr>)"

definition apply_unpublish :: "string \<Rightarrow> string \<Rightarrow> string \<Rightarrow> string \<Rightarrow> bridge_state \<Rightarrow> bridge_state" where
  "apply_unpublish sid i connector session st =
     reconcile_auto_route_on_unpublish sid
       (st\<lparr>bs_services :=
             (if trim_space i \<noteq> [] then snd (remove_instance_by_id i (bs_services st))
              else if trim_space sid \<noteq> []
              then snd (remove_instance_by_service_and_runtime sid connector session (bs_services st))
              else bs_services st)\<rparr>)"

definition check_unpublish :: "handler_env \<Rightarrow> control_envelope \<Rightarrow> unpublish_service \<Rightarrow> bridge_state \<Rightarrow> chain_err option" where
  "check_unpublish env envelope m st =
     (case validate_control_envelope envelope of
        Some e \<Rightarrow> Some e
      | None \<Rightarrow>
          (case validate_no_legacy_fields env (EnvelopePayload envelope) legacy_fields of
             Some e \<Rightarrow> Some e
           | None \<Rightarrow>
               (case validate_unpublish_service m of
                  Some e \<Rightarrow> Some e
                | None \<Rightarrow> validate_session_epoch code_stale_session_epoch envelope st)))"

definition handle_unpublish ::
    "handler_env \<Rightarrow> control_envelope \<Rightarrow> unpublish_service \<Rightarrow> bridge_state \<Rightarrow> resource_ack \<times> bridge_state" where
  "handle_unpublish env envelope m st =
     (case check_unpublish env envelope m st of
        Some e \<Rightarrow> (reject_unpublish_ack m e st, st)
      | None \<Rightarrow>
          let connector = resolve_connector_id envelope st
          in case resolve_unpublish_target m connector (SessionID envelope) (bs_services st) of
               Inl e \<Rightarrow> (reject_unpublish_ack m e st, st)
             | Inr (sid, i) \<Rightarrow>
                 let rid0 = service_instance_resource_id i connector (SessionID envelope);
                     rid = (if rid0 = [] then trim_space sid else rid0);
                     (d, guard) = evaluate (instance_event envelope ''service_instance'' rid) (bs_guard st);
                     st1 = st\<lparr>bs_guard := guard\<rparr>;
                     st2 = (if Status d = Some EventStatusAccepted
                            then apply_unpublish sid i connector (SessionID envelope) st1 else st1)
                 in (build_unpublish_service_ack (the (Status d)) sid i (AcceptedResourceVersion d) (CurrentResourceVersion d)
                       (ErrorCode d) (ErrorMessage d), st2))"

text \<open>\<open>ReconcileFromFullSync\<close> of the publish handler.\<close>

definition reconcile_services_from_full_sync :: "handler_env \<Rightarrow> full_sync_snapshot \<Rightarrow> bridge_state \<Rightarrow> bridge_state" where
  "reconcile_services_from_full_sync env snap st =
     (if \<not> fs_completed snap then st
      else
        let put = (\<lambda>prefix i v m. if trim_space i = [] then m else map_put (prefix @ trim_space i) v m);
            m1 = fold (\<lambda>l. put ''logical_service:'' (ls_id l) (ls_version l)) (fs_services snap) [];
            m2 = fold (\<lambda>i. put ''service_instance:'' (si_id i) (si_version i)) (fs_instances snap) m1
        in st\<lparr>bs_services := replace_all_services (he_wall env) (he_now env) (fs_services snap) (fs_instances snap),
              bs_guard := replace_all_versions m2 (bs_guard st)\<rparr>)"



section \<open>Handlers of routes\<close>

definition normalize_scope_injection :: "scope_injection \<Rightarrow> scope_injection" where
  "normalize_scope_injection i =
     \<lparr>InjectScope = normalize_scope (InjectScope i),
      InjectPolicy = (case InjectPolicy i of
         ScopeInjectPolicyOther s \<Rightarrow>
           (let t = to_lower (trim_space s)
            in if t = [] \<or> t = ''disabled'' then ScopeInjectPolicyDisabled
               else if t = ''always'' then ScopeInjectPolicyAlways
               else if t = ''missing_only'' then ScopeInjectPolicyMissingOnly else ScopeInjectPolicyOther t)
       | p \<Rightarrow> p)\<rparr>"

definition validate_route_match_regex :: "compiler \<Rightarrow> route_match \<Rightarrow> chain_err option" where
  "validate_route_match_regex compile m =
     (case first_some (\<lambda>h. if is_reserved_scope_header (vm_name h)
                           then Some (new_error code_unsupported_value ''route.match.headers.name uses reserved scope header'')
                           else validate_matcher_regex compile h) (rm_headers m) of
        Some e \<Rightarrow> Some e
      | None \<Rightarrow> first_some (validate_matcher_regex compile) (rm_queries m))"

definition validate_scope_injection :: "scope_injection \<Rightarrow> chain_err option" where
  "validate_scope_injection i =
     (case InjectPolicy i of
        ScopeInjectPolicyDisabled \<Rightarrow> None
      | ScopeInjectPolicyOther s \<Rightarrow>
          Some (new_error code_unsupported_value ''route.scopeInjection.injectPolicy must be disabled/always/missing_only'')
      | _ \<Rightarrow>
          if trim_space (Namespace (InjectScope i)) = []
          then Some (new_error code_missing_required_field ''route.scopeInjection.injectScope.namespace is required'')
          else if trim_space (Environment (InjectScope i)) = []
          then Some (new_error code_missing_required_field ''route.scopeInjection.injectScope.environment is required'')
          else None)"

definition validate_route_target :: "route_target \<Rightarrow> chain_err option" where
  "validate_route_target t =
     (case rt_type t of
        RouteTargetTypeConnectorService \<Rightarrow>
          if rt_connector t = None
          then Some (new_error code_missing_required_field ''route.target.connectorService is required'') else None
      | RouteTargetTypeExternalService \<Rightarrow>
          if rt_external t = None
          then Some (new_error code_missing_required_field ''route.target.externalService is required'') else None
      | RouteTargetTypeOther s \<Rightarrow>
          Some (new_error code_unsupported_value ''route.target.type must be connector_service or external_service''))"

definition should_derive_route_host :: "route_assign \<Rightarrow> bool" where
  "should_derive_route_host m \<longleftrightarrow>
     trim_space (rm_host (ra_match m)) = [] \<and> trim_space (rm_authority (ra_match m)) = []
     \<and> rt_type (ra_target m) = RouteTargetTypeConnectorService \<and> rt_connector (ra_target m) \<noteq> None
     \<and> to_lower (trim_space (rm_protocol (ra_match m))) \<in> {''http'', ''grpc''}"

definition resolve_route_service_identity :: "route_assign \<Rightarrow> service_registry \<Rightarrow> (string \<times> scope) option" where
  "resolve_route_service_identity m reg =
     (let sel = ct_selector (the (rt_connector (ra_target m))); name = trim_space (ss_name sel);
          n = trim_space (Namespace (ss_scope sel)); n = (if n = [] then trim_space (Namespace (ra_scope m)) else n);
          e = trim_space (Environment (ss_scope sel)); e = (if e = [] then trim_space (Environment (ra_scope m)) else e)
      in if name \<noteq> [] \<and> n \<noteq> [] \<and> e \<noteq> [] then Some (name, \<lparr>Namespace = n, Environment = e\<rparr>)
         else if trim_space (ss_service sel) = [] then None
         else case get_logical_service (ss_service sel) reg of
                None \<Rightarrow> None
              | Some l \<Rightarrow> Some (trim_space (ls_name l), normalize_scope (ls_scope l)))"

text \<open>\<open>pb.RouteTargetType(strings.TrimSpace(..))\<close>.\<close>

definition trim_target_type :: "route_target_type \<Rightarrow> route_target_type" where
  "trim_target_type t = (case t of RouteTargetTypeOther s \<Rightarrow> target_type_of_string s | _ \<Rightarrow> t)"

definition normalize_assign_message :: "handler_env \<Rightarrow> route_assign \<Rightarrow> service_registry \<Rightarrow> chain_err + route_assign" where
  "normalize_assign_message env m reg =
     (let n = m\<lparr>ra_id := trim_space (ra_id m), ra_scope := normalize_scope (ra_scope m),
                ra_match := (ra_match m)\<lparr>rm_host := to_lower (trim_space (rm_host (ra_match m))),
                               rm_authority := to_lower (trim_space (rm_authority (ra_match m)))\<rparr>,
                ra_target := (ra_target m)\<lparr>rt_type := trim_target_type (rt_type (ra_target m))\<rparr>,
                ra_injection := normalize_scope_injection (ra_injection m)\<rparr>
      in case validate_route_match_regex (he_compile env) (ra_match n) of
           Some e \<Rightarrow> Inl e
         | None \<Rightarrow>
             (case validate_scope_injection (ra_injection n) of
                Some e \<Rightarrow> Inl e
              | None \<Rightarrow>
                  (case validate_route_target (ra_target n) of
                     Some e \<Rightarrow> Inl e
                   | None \<Rightarrow>
                       if \<not> should_derive_route_host n then Inr n
                       else case he_deriver env of
                              None \<Rightarrow> Inr n
                            | Some base \<Rightarrow>
                                (case resolve_route_service_identity n reg of
                                   None \<Rightarrow> Inr n
                                 | Some (name, s) \<Rightarrow>
                                     (case derive_host base name s of
                                        None \<Rightarrow> Inl derive_failed
                                      | Some host \<Rightarrow> Inr (n\<lparr>ra_match := (ra_match n)\<lparr>rm_host := host\<rparr>\<rparr>))))))"

definition route_of_assign :: "route_assign \<Rightarrow> 64 word \<Rightarrow> route" where
  "route_of_assign n version =
     \<lparr>r_id = ra_id n, r_scope = ra_scope n, r_injection = ra_injection n, r_version = version, r_match = ra_match n,
      r_target = ra_target n, r_policy = ra_policy n, r_priority = ra_priority n, r_status = [], r_metadata = ra_metadata n\<rparr>"

definition resolve_route_resource_id :: "string \<Rightarrow> string \<Rightarrow> string" where
  "resolve_route_resource_id resource_id i =
     (if trim_space resource_id \<noteq> [] then trim_space resource_id else trim_space i)"

definition reject_route_ack ::
    "(event_status \<Rightarrow> string \<Rightarrow> 64 word \<Rightarrow> 64 word \<Rightarrow> string \<Rightarrow> string \<Rightarrow> resource_ack) \<Rightarrow> string \<Rightarrow> chain_err \<Rightarrow> bridge_state
       \<Rightarrow> resource_ack" where
  "reject_route_ack build i e st =
     (let version = current_route_version i (bs_routes st)
      in build EventStatusRejected i version version (extract_error_code e) (error_text e))"

definition check_route :: "control_envelope \<Rightarrow> string \<Rightarrow> bridge_state \<Rightarrow> chain_err option" where
  "check_route envelope i st =
     (case validate_control_envelope envelope of
        Some e \<Rightarrow> Some e
      | None \<Rightarrow>
          if trim_space i = [] then Some (new_error code_missing_required_field ''routeId is required'')
          else validate_session_epoch code_stale_epoch_event envelope st)"

text \<open>The acknowledgement and, of a refusal or an admission, the warnings.\<close>

definition handle_assign ::
    "handler_env \<Rightarrow> control_envelope \<Rightarrow> route_assign \<Rightarrow> bridge_state \<Rightarrow> (resource_ack \<times> string list) \<times> bridge_state" where
  "handle_assign env envelope m st =
     (case (case check_route envelope (ra_id m) st of Some e \<Rightarrow> Inl e | None \<Rightarrow> normalize_assign_message env m (bs_services st)) of
        Inl e \<Rightarrow> ((reject_route_ack build_route_assign_ack (ra_id m) e st, []), st)
      | Inr n \<Rightarrow>
          let rid = resolve_route_resource_id (ResourceID envelope) (ra_id n);
              (d, guard) = evaluate (instance_event envelope ''route'' rid) (bs_guard st);
              st1 = st\<lparr>bs_guard := guard\<rparr>;
              r = route_of_assign n (ResourceVersion envelope);
              ack = build_route_assign_ack (the (Status d)) (ra_id n) (AcceptedResourceVersion d) (CurrentResourceVersion d)
                      (ErrorCode d) (ErrorMessage d)
          in if Status d \<noteq> Some EventStatusAccepted then ((ack, []), st1)
             else case run_admission r st1 of
                    Inl e \<Rightarrow> ((reject_route_ack build_route_assign_ack (ra_id n) e st1, []), st1)
                  | Inr warnings \<Rightarrow>
                      ((ack, warnings), st1\<lparr>bs_routes := upsert_route (he_route_now env) r (bs_routes st1)\<rparr>))"

definition handle_revoke :: "control_envelope \<Rightarrow> string \<Rightarrow> bridge_state \<Rightarrow> resource_ack \<times> bridge_state" where
  "handle_revoke envelope i st =
     (case check_route envelope i st of
        Some e \<Rightarrow> (reject_route_ack build_route_revoke_ack i e st, st)
      | None \<Rightarrow>
          let rid = resolve_route_resource_id (ResourceID envelope) i;
              (d, guard) = evaluate (instance_event envelope ''route'' rid) (bs_guard st);
              st1 = st\<lparr>bs_guard := guard\<rparr>;
              st2 = (if Status d = Some EventStatusAccepted then st1\<lparr>bs_routes := snd (remove_route i (bs_routes st1))\<rparr> else st1)
          in (build_route_revoke_ack (the (Status d)) i (AcceptedResourceVersion d) (CurrentResourceVersion d)
                (ErrorCode d) (ErrorMessage d), st2))"


section \<open>Health reports\<close>

definition normalize_health_status :: "health_status \<Rightarrow> health_status" where
  "normalize_health_status h = (case h of HealthStatusOther s \<Rightarrow> HealthStatusUnknown | _ \<Rightarrow> h)"

definition health_session_valid :: "control_envelope \<Rightarrow> bridge_state \<Rightarrow> bool" where
  "health_session_valid envelope st =
     (let sid = trim_space (SessionID envelope)
      in if sid = [] \<or> SessionEpoch envelope = 0 then False
         else case get_by_session sid (bs_sessions st) of
                None \<Rightarrow> False
              | Some s \<Rightarrow> sr_epoch s = SessionEpoch envelope \<and> sr_state s = SessionActive)"

definition handle_health_report :: "handler_env \<Rightarrow> control_envelope \<Rightarrow> health_report \<Rightarrow> bridge_state \<Rightarrow> bridge_state" where
  "handle_health_report env envelope report st =
     (let c = trim_space (ConnectorID envelope); sess = trim_space (SessionID envelope)
      in if \<not> health_session_valid envelope st then st
         else case get_instance (trim_space (hr_instance report)) (bs_services st) of
                None \<Rightarrow> st
              | Some s \<Rightarrow>
                  let i = sis_instance s
                  in if c \<noteq> [] \<and> trim_space (si_connector i) \<noteq> c then st
                     else if sess \<noteq> [] \<and> trim_space (si_session i) \<noteq> [] \<and> trim_space (si_session i) \<noteq> sess then st
                     else st\<lparr>bs_services := upsert_service (he_wall env) (he_now env) (sis_service s)
                               (i\<lparr>si_health := normalize_health_status (hr_status report)\<rparr>) (bs_services st)\<rparr>)"

end
