(* ===== verification/Handler_Safety.thy ===== *)
theory Handler_Safety
  imports Resource_Handlers
begin

text \<open>
  What the handlers of resource messages promise: events of a session that is not the active one
  change nothing, a connector never touches the instances of another one, an accepted publication
  is registered, and the registries stay consistent.
\<close>

section \<open>Fencing\<close>

definition session_admits :: "control_envelope \<Rightarrow> bridge_state \<Rightarrow> bool" where
  "session_admits envelope st \<longleftrightarrow>
     (\<exists>s. get_by_session (SessionID envelope) (bs_sessions st) = Some s
        \<and> sr_epoch s = SessionEpoch envelope \<and> sr_state s = SessionActive)"

lemma validate_session_epoch_iff: "validate_session_epoch code envelope st = None \<longleftrightarrow> session_admits envelope st"
  by (auto simp: validate_session_epoch_def session_admits_def split: option.splits)

lemma reject_acks [simp]:
  "\<not> ack_is_accepted (reject_publish_ack m e st)" "\<not> ack_is_accepted (reject_unpublish_ack u e st)"
  "\<not> ack_is_accepted (reject_route_ack build_route_assign_ack i e st)"
  "\<not> ack_is_accepted (reject_route_ack build_route_revoke_ack i e st)"
  by (simp_all add: reject_publish_ack_def reject_unpublish_ack_def reject_route_ack_def build_publish_service_ack_def
      build_unpublish_service_ack_def build_route_assign_ack_def build_route_revoke_ack_def ack_accepted_def Let_def
      case_prod_unfold)

lemma check_publish_admits: "check_publish env envelope m st = Inr n \<Longrightarrow> session_admits envelope st"
  by (auto simp: check_publish_def simp flip: validate_session_epoch_iff [of code_stale_session_epoch] split: option.splits)

lemma check_unpublish_admits: "check_unpublish env envelope m st = None \<Longrightarrow> session_admits envelope st"
  by (auto simp: check_unpublish_def simp flip: validate_session_epoch_iff [of code_stale_session_epoch] split: option.splits)

lemma check_route_admits: "check_route envelope i st = None \<Longrightarrow> session_admits envelope st"
  by (auto simp: check_route_def simp flip: validate_session_epoch_iff [of code_stale_epoch_event]
      split: option.splits if_splits)

text \<open>
  C12. Fencing: unless the session of an envelope is registered, active and of the epoch that the
  envelope carries, publishing, withdrawing, assigning and revoking are refused and change nothing
  at all, not even the record of events that have been seen; a health report changes nothing
  either.
\<close>

theorem stale_sessions_change_nothing:
  assumes "\<not> session_admits envelope st" and "trim_space (SessionID envelope) = SessionID envelope"
  shows "\<not> ack_is_accepted (fst (handle_publish env envelope m st)) \<and> snd (handle_publish env envelope m st) = st
    \<and> \<not> ack_is_accepted (fst (handle_unpublish env envelope u st)) \<and> snd (handle_unpublish env envelope u st) = st
    \<and> \<not> ack_is_accepted (fst (fst (handle_assign env envelope a st))) \<and> snd (handle_assign env envelope a st) = st
    \<and> \<not> ack_is_accepted (fst (handle_revoke envelope i st)) \<and> snd (handle_revoke envelope i st) = st
    \<and> handle_health_report env envelope h st = st"
proof -
  obtain e1 where "check_publish env envelope m st = Inl e1"
    using assms(1) check_publish_admits by (cases "check_publish env envelope m st") blast+
  moreover obtain e2 where "check_unpublish env envelope u st = Some e2"
    using assms(1) check_unpublish_admits by (cases "check_unpublish env envelope u st") blast+
  moreover obtain e3 where "check_route envelope (ra_id a) st = Some e3"
    using assms(1) check_route_admits by (cases "check_route envelope (ra_id a) st") blast+
  moreover obtain e4 where "check_route envelope i st = Some e4"
    using assms(1) check_route_admits by (cases "check_route envelope i st") blast+
  moreover have "\<not> health_session_valid envelope st"
    using assms by (auto simp: health_session_valid_def session_admits_def Let_def split: option.splits)
  ultimately show ?thesis
    by (simp add: handle_publish_def handle_unpublish_def handle_assign_def handle_revoke_def handle_health_report_def Let_def)
qed


section \<open>Ownership\<close>

text \<open>The instances as a function of their identifiers, and what the operations do to it.\<close>

definition inst_of :: "service_registry \<Rightarrow> string \<Rightarrow> service_instance option" where
  "inst_of reg i = map_option sis_instance (map_of (instances reg) i)"

lemma inst_of_recalculate [simp]: "inst_of (recalculate_service sid reg) = inst_of reg"
  by (rule ext)
     (auto simp: inst_of_def recalculate_service_def Let_def map_of_share option.map_comp comp_def
        simp del: map_map split: option.split intro!: option.map_cong0)

lemma inst_of_put_service [simp]: "inst_of (put_service now l reg) = inst_of reg"
  by (rule ext) (simp add: inst_of_def put_service_def Let_def)

lemma inst_of_upsert_instance:
  "trim_space (si_id inst) \<noteq> [] \<Longrightarrow>
   inst_of (upsert_instance now inst reg) = (inst_of reg)(trim_space (si_id inst) \<mapsto> inst)"
  by (rule ext) (simp add: inst_of_def upsert_instance_def Let_def)

lemma inst_of_upsert_service:
  "trim_space (si_id inst) \<noteq> [] \<Longrightarrow>
   inst_of (upsert_service wall now l inst reg) = (inst_of reg)(trim_space (si_id inst) \<mapsto> inst)"
  by (simp add: upsert_service_def Let_def inst_of_upsert_instance)

lemma upsert_service_blank:
  "trim_space (si_id inst) = [] \<Longrightarrow> inst_of (upsert_service wall now l inst reg) = inst_of reg"
  by (simp add: upsert_service_def Let_def upsert_instance_def)

lemma inst_of_drop: "inst_of (drop_instance i p reg) = (inst_of reg)(i := None)"
  by (rule ext) (simp add: inst_of_def drop_instance_def Let_def)

lemma inst_of_remove: "inst_of (snd (remove_instance i reg)) = (inst_of reg)(i := None)"
proof (cases "map_of (instances reg) i")
  case None
  then have "inst_of reg i = None" by (simp add: inst_of_def)
  then have "inst_of reg = (inst_of reg)(i := None)" by (metis fun_upd_triv)
  with None show ?thesis by (simp add: remove_instance_def)
next
  case (Some r)
  then show ?thesis by (simp add: remove_instance_def Let_def inst_of_drop)
qed

lemma inst_of_remove_all:
  "inst_of (snd (remove_instances rs reg)) j =
     (if j \<in> (\<lambda>r. si_id (sis_instance r)) ` set rs then None else inst_of reg j)"
proof -
  have "inst_of (snd (fold (\<lambda>r (removed, reg). let (ok, reg') = remove_instance (si_id (sis_instance r)) reg
      in (removed \<or> ok, reg')) rs acc)) j
    = (if j \<in> (\<lambda>r. si_id (sis_instance r)) ` set rs then None else inst_of (snd acc) j)" for acc
    by (induction rs arbitrary: acc) (auto simp: Let_def case_prod_unfold inst_of_remove)
  then show ?thesis by (simp add: remove_instances_def)
qed

lemma get_instance_inst_of: "get_instance i reg = Some s \<Longrightarrow> inst_of reg (trim_space i) = Some (sis_instance s)"
  by (auto simp: get_instance_def inst_of_def Let_def split: if_splits)

lemma inst_of_none: "get_instance i reg = None \<Longrightarrow> trim_space i \<noteq> [] \<Longrightarrow> inst_of reg (trim_space i) = None"
  by (auto simp: get_instance_def inst_of_def Let_def split: if_splits)

lemma inst_of_id:
  "services_indexed reg \<Longrightarrow> inst_of reg i = Some p \<Longrightarrow> trim_space (si_id p) = i \<and> i \<noteq> [] \<and> trim_space i = i"
  using services_indexedD(3) by (auto simp: inst_of_def simp del: map_of_eq_Some_iff)

lemma found_instance:
  assumes "services_indexed reg" and "find_instance_by_connector_service c sid reg = Some s"
  shows "inst_of reg (trim_space (si_id (sis_instance s))) = Some (sis_instance s)"
    and "connector_of s = trim_space c" and "service_of s = trim_space sid" and "trim_space sid \<noteq> []"
proof -
  have mem: "s \<in> set (instances_by_service (trim_space sid) reg)" and c: "connector_of s = trim_space c" and "trim_space sid \<noteq> []"
    using assms(2)
    by (auto simp: find_instance_by_connector_service_def Let_def connector_of_def find_Some_iff instances_by_service_def
        split: if_splits dest: nth_mem)
  then obtain i where i: "i \<in> set (index_ids (instanceIDsByService reg) (trim_space sid))" "map_of (instances reg) i = Some s"
    by (auto simp: instances_by_service_def List.map_filter_def simp del: map_of_eq_Some_iff)
  moreover have "trim_space (si_id (sis_instance s)) = i" using services_indexedD(3) [OF assms(1) i(2)] by simp
  ultimately show "inst_of reg (trim_space (si_id (sis_instance s))) = Some (sis_instance s)" "service_of s = trim_space sid"
    using indexes_mem [OF services_indexedD(4) [OF assms(1)], of i "trim_space sid"] by (auto simp: inst_of_def simp del: map_of_eq_Some_iff)
  show "connector_of s = trim_space c" "trim_space sid \<noteq> []" by fact+
qed


text \<open>The guard notes a version for exactly the events that it newly accepts.\<close>

definition noted :: "resource_event_guard \<Rightarrow> resource_event_guard \<Rightarrow> bool" where
  "noted g g' \<longleftrightarrow> resourceVersions g' \<noteq> resourceVersions g"

lemma noted_refl [simp]: "\<not> noted g g"
  by (simp add: noted_def)

lemma noted_accepted: "noted g (snd (evaluate meta g)) \<longleftrightarrow> Status (fst (evaluate meta g)) = Some EventStatusAccepted"
proof -
  have put: "map_put k v m \<noteq> m" if "version_of m k < v" for k v and m :: "(string, 64 word) gomap"
  proof
    assume "map_put k v m = m"
    then have "map_of m k = (map_of (map_put k v m)) k" by simp
    then have "map_of m k = Some v" by (simp del: map_of_eq_Some_iff)
    with that show False by (simp add: version_of_def)
  qed
  obtain d ok where keys: "validate_and_build_keys meta = (d, ok)" by fastforce
  have rejected: "Status d \<noteq> Some EventStatusAccepted" if "\<not> ok"
    using keys that
    by (auto simp: validate_and_build_keys_def rejected_with_def Let_def split: if_splits option.splits sum.splits)
  show ?thesis
    using put rejected
    by (cases ok) (auto simp: evaluate_def keys noted_def Let_def case_prod_unfold compare_resource_version_def split: if_splits)
qed

text \<open>
  A publication leaves the registries alone, or it is newly accepted and writes one service and its
  instance and one route.
\<close>

lemma handle_publish_cases:
  assumes "snd (handle_publish env envelope m st) = st'"
  obtains (same) guard where "st' = st\<lparr>bs_guard := guard\<rparr>"
      "\<not> (ack_is_accepted (fst (handle_publish env envelope m st)) \<and> noted (bs_guard st) guard)"
  | (published) n l i auto_route ws guard where
      "check_publish env envelope m st = Inr n"
      "l = resolve_or_create_logical_service env n (ResourceVersion envelope) (bs_services st)"
      "resolve_or_create_instance env n l (resolve_connector_id envelope st) envelope (bs_services st) = Inr i"
      "build_auto_route env n l i (ResourceVersion envelope) = Inr auto_route"
      "(case auto_route of None \<Rightarrow> Inr [] | Some r \<Rightarrow> run_admission r (st\<lparr>bs_guard := guard\<rparr>)) = Inr ws"
      "st' = st\<lparr>bs_guard := guard, bs_services := upsert_service (he_wall env) (he_now env) l i (bs_services st),
                bs_routes := (case auto_route of Some r \<Rightarrow> upsert_route (he_route_now env) r (bs_routes st)
                              | None \<Rightarrow> remove_auto_route l (bs_routes st))\<rparr>"
      "ack_is_accepted (fst (handle_publish env envelope m st))"
      "ack_ids (fst (handle_publish env envelope m st))
         = [ls_id l, si_id i, ls_name l, Namespace (ls_scope l), Environment (ls_scope l)]"
      "noted (bs_guard st) guard"
proof (cases "check_publish env envelope m st")
  case (Inl e)
  then show ?thesis using assms same [of "bs_guard st"] by (simp add: handle_publish_def)
next
  case (Inr n)
  define l where "l = resolve_or_create_logical_service env n (ResourceVersion envelope) (bs_services st)"
  define c where "c = resolve_connector_id envelope st"
  show ?thesis
  proof (cases "resolve_or_create_instance env n l c envelope (bs_services st)")
    case (Inl e)
    then show ?thesis using assms Inr same [of "bs_guard st"] by (simp add: handle_publish_def Let_def l_def c_def)
  next
    case inst: (Inr i)
    define ev where "ev = evaluate (instance_event envelope ''service_instance''
        (service_instance_resource_id (si_id i) c (SessionID envelope))) (bs_guard st)"
    have ack: "fst (handle_publish env envelope m st)
        = build_publish_service_ack (the (Status (fst ev))) (ls_id l) (si_id i) (ls_name l)
            [Namespace (ls_scope l), Environment (ls_scope l)] (AcceptedResourceVersion (fst ev))
            (CurrentResourceVersion (fst ev)) (ErrorCode (fst ev)) (ErrorMessage (fst ev))"
      if "fst (apply_publish env n l i (ResourceVersion envelope) (st\<lparr>bs_guard := snd ev\<rparr>)) = None"
      using that Inr inst
      by (auto simp: handle_publish_def Let_def l_def [symmetric] c_def [symmetric] ev_def [symmetric] case_prod_unfold
          split: option.splits)
    have st': "st' = (if Status (fst ev) = Some EventStatusAccepted
        then snd (apply_publish env n l i (ResourceVersion envelope) (st\<lparr>bs_guard := snd ev\<rparr>)) else st\<lparr>bs_guard := snd ev\<rparr>)"
      using assms Inr inst
      by (auto simp: handle_publish_def Let_def l_def [symmetric] c_def [symmetric] ev_def [symmetric] case_prod_unfold
          split: option.splits)
    have noted: "noted (bs_guard st) (snd ev) \<longleftrightarrow> Status (fst ev) = Some EventStatusAccepted"
      unfolding ev_def by (rule noted_accepted)
    have failed: "\<not> ack_is_accepted (fst (handle_publish env envelope m st))"
      if "Status (fst ev) = Some EventStatusAccepted"
        "fst (apply_publish env n l i (ResourceVersion envelope) (st\<lparr>bs_guard := snd ev\<rparr>)) = Some e" for e
      using that Inr inst
      by (auto simp: handle_publish_def Let_def l_def [symmetric] c_def [symmetric] ev_def [symmetric] case_prod_unfold
          split: option.splits)
    show ?thesis
    proof (cases "Status (fst ev) = Some EventStatusAccepted")
      case False
      then show ?thesis using st' same noted by simp
    next
      case True
      then have st': "st' = snd (apply_publish env n l i (ResourceVersion envelope) (st\<lparr>bs_guard := snd ev\<rparr>))"
        using st' by simp
      show ?thesis
      proof (cases "build_auto_route env n l i (ResourceVersion envelope)")
        case (Inl e)
        then show ?thesis using st' same failed [OF True, of e] by (simp add: apply_publish_def)
      next
        case built: (Inr auto_route)
        show ?thesis
        proof (cases "case auto_route of None \<Rightarrow> Inr [] | Some r \<Rightarrow> run_admission r (st\<lparr>bs_guard := snd ev\<rparr>)")
          case (Inl e)
          then show ?thesis using st' built same failed [OF True, of e] by (simp add: apply_publish_def cong: option.case_cong)
        next
          case admitted: (Inr ws)
          then show ?thesis
            using st' built inst True ack noted
            by (intro published [OF Inr l_def _ built admitted])
               (simp_all add: apply_publish_def c_def build_publish_service_ack_def ack_accepted_def cong: option.case_cong)
        qed
      qed
    qed
  qed
qed

text \<open>The instance that is published belongs to the connector, or its identifier is new.\<close>

definition carries_publication ::
    "publish_service \<Rightarrow> control_envelope \<Rightarrow> string \<Rightarrow> service_instance option \<Rightarrow> service_instance \<Rightarrow> bool" where
  "carries_publication n envelope connector old i \<longleftrightarrow>
     trim_space (si_connector i) = trim_space connector
     \<and> si_session i = trim_space (SessionID envelope) \<and> si_epoch i = SessionEpoch envelope
     \<and> si_version i = ResourceVersion envelope \<and> si_status i = ServiceStatusActive
     \<and> si_health i = (case old of None \<Rightarrow> HealthStatusUnknown | Some p \<Rightarrow> si_health p)
     \<and> si_endpoints i = ps_endpoints n \<and> si_exposure i = clone_service_exposure (ps_exposure n)
     \<and> si_health_check i = ps_health_check n \<and> si_discovery i = clone_discovery_policy (ps_discovery n)
     \<and> si_route_hint i = clone_route_hint (ps_route_hint n) \<and> si_labels i = ps_labels n \<and> si_metadata i = ps_metadata n"

lemma published_instance:
  assumes "services_indexed reg" and "get_instance (he_instance_id env) reg = None" and "trim_space (he_instance_id env) \<noteq> []"
    and "resolve_or_create_instance env m l connector envelope reg = Inr i"
  shows "(\<forall>p. inst_of reg (trim_space (si_id i)) = Some p \<longrightarrow> trim_space (si_connector p) = trim_space connector
              \<and> trim_space (si_service p) = trim_space (ls_id l))
    \<and> trim_space (si_connector i) = trim_space connector \<and> trim_space (si_service i) = trim_space (ls_id l)
    \<and> trim_space (si_id i) \<noteq> []
    \<and> carries_publication m envelope connector (inst_of reg (trim_space (si_id i))) i"
proof -
  let ?hint = "trim_space (ps_instance m)" and ?c = "trim_space connector"
  consider (renewed) s where "get_instance ?hint reg = Some s" "i = renew_instance m envelope (sis_instance s)"
      "trim_space (si_connector (sis_instance s)) = ?c" "trim_space (si_service (sis_instance s)) = trim_space (ls_id l)" "?hint \<noteq> []"
    | (found) s where "find_instance_by_connector_service ?c (ls_id l) reg = Some s" "i = renew_instance m envelope (sis_instance s)"
    | (fresh) "i = fresh_instance env m l ?c envelope" "?hint \<noteq> [] \<Longrightarrow> get_instance ?hint reg = None"
    using assms(4) by (auto simp: resolve_or_create_instance_def Let_def split: option.splits if_splits)
  then show ?thesis
  proof cases
    case renewed
    note p = get_instance_inst_of [OF renewed(1)]
    have "trim_space (si_id (sis_instance s)) = ?hint" using inst_of_id [OF assms(1) p] by simp
    with renewed p show ?thesis by (simp add: renew_instance_def apply_publish_payload_def carries_publication_def)
  next
    case found
    note f = found_instance [OF assms(1) found(1)]
    with found(2) inst_of_id [OF assms(1) f(1)] show ?thesis
      by (simp add: renew_instance_def apply_publish_payload_def connector_of_def service_of_def carries_publication_def)
  next
    case fresh
    then show ?thesis
      using assms(2,3) inst_of_none [of "he_instance_id env" reg] inst_of_none [of ?hint reg]
      by (auto simp: fresh_instance_def apply_publish_payload_def carries_publication_def)
  qed
qed


lemma apply_unpublish_services:
  "inst_of (bs_services (apply_unpublish sid i c session st)) j =
     (if trim_space i \<noteq> [] then if j = trim_space i then None else inst_of (bs_services st) j
      else if trim_space sid \<noteq> []
      then if j \<in> (\<lambda>r. si_id (sis_instance r)) ` set (filter (of_runtime (trim_space c) (trim_space session))
                (instances_by_service (trim_space sid) (bs_services st))) then None else inst_of (bs_services st) j
      else inst_of (bs_services st) j)"
proof -
  have "bs_services (reconcile_auto_route_on_unpublish sid st') = bs_services st'" for st'
    by (simp add: reconcile_auto_route_on_unpublish_def Let_def split: option.split)
  then show ?thesis
    by (simp add: apply_unpublish_def remove_instance_by_id_def remove_instance_by_service_and_runtime_def Let_def
        inst_of_remove inst_of_remove_all)
qed

lemma unpublish_target:
  assumes "resolve_unpublish_target m c session reg = Inr (sid, i)" "trim_space i \<noteq> []" "trim_space c \<noteq> []"
    and "services_indexed reg" "inst_of reg (trim_space i) = Some p"
  shows "trim_space (si_connector p) = trim_space c"
proof (cases "trim_space (us_instance m) = []")
  case False
  then show ?thesis
    using assms inst_of_none [of "trim_space (us_instance m)" reg] get_instance_inst_of [of "trim_space (us_instance m)" reg]
    by (auto simp: resolve_unpublish_target_def Let_def split: option.splits if_splits)
next
  case True
  then obtain s sid' where "find_instance_by_connector_service c sid' reg = Some s" "i = trim_space (si_id (sis_instance s))"
    using assms(1,2) by (auto simp: resolve_unpublish_target_def Let_def split: option.splits if_splits)
  then show ?thesis using found_instance [OF assms(4), of c sid' s] assms(5) by (simp add: connector_of_def)
qed

lemma instances_by_service_mem:
  assumes "services_indexed reg" "r \<in> set (instances_by_service sid reg)"
  shows "inst_of reg (trim_space (si_id (sis_instance r))) = Some (sis_instance r)"
proof -
  obtain i where i: "map_of (instances reg) i = Some r"
    using assms(2) by (auto simp: instances_by_service_def List.map_filter_def simp del: map_of_eq_Some_iff)
  with services_indexedD(3) [OF assms(1) this] show ?thesis by (simp add: inst_of_def)
qed

lemma unpublish_keeps_others:
  assumes "services_indexed (bs_services st)" "trim_space c \<noteq> []"
    and "resolve_unpublish_target m c session (bs_services st) = Inr (sid, i)"
    and "inst_of (bs_services st) j = Some p" "trim_space (si_connector p) \<noteq> trim_space c"
  shows "inst_of (bs_services (apply_unpublish sid i c session st)) j = Some p"
proof (cases "trim_space i = []")
  case False
  then have "j \<noteq> trim_space i" using unpublish_target [OF assms(3) _ assms(2,1)] assms(4,5) by blast
  with False assms(4) show ?thesis by (simp add: apply_unpublish_services)
next
  case True
  have False if r: "r \<in> set (instances_by_service sid' (bs_services st))" "j = si_id (sis_instance r)"
      "of_runtime (trim_space c) s r" for r s sid'
  proof -
    have "trim_space j = j" using inst_of_id [OF assms(1,4)] by simp
    with r instances_by_service_mem [OF assms(1) r(1)] assms(4) have "sis_instance r = p" by simp
    with r(3) assms(2,5) show False by (auto simp: of_runtime_def)
  qed
  with True assms(4) show ?thesis by (auto simp: apply_unpublish_services)
qed

lemma handle_unpublish_cases:
  obtains (same) guard where "snd (handle_unpublish env envelope m st) = st\<lparr>bs_guard := guard\<rparr>"
  | (removed) sid i guard where
      "resolve_unpublish_target m (resolve_connector_id envelope st) (SessionID envelope) (bs_services st) = Inr (sid, i)"
      "snd (handle_unpublish env envelope m st)
         = apply_unpublish sid i (resolve_connector_id envelope st) (SessionID envelope) (st\<lparr>bs_guard := guard\<rparr>)"
proof (cases "check_unpublish env envelope m st")
  case (Some e)
  then show ?thesis using same [of "bs_guard st"] by (simp add: handle_unpublish_def)
next
  case None
  show ?thesis
  proof (cases "resolve_unpublish_target m (resolve_connector_id envelope st) (SessionID envelope) (bs_services st)")
    case (Inl e)
    then show ?thesis using None same [of "bs_guard st"] by (simp add: handle_unpublish_def Let_def)
  next
    case (Inr t)
    obtain sid i where t: "t = (sid, i)" by fastforce
    let ?rid0 = "service_instance_resource_id i (resolve_connector_id envelope st) (SessionID envelope)"
    let ?ev = "evaluate (instance_event envelope ''service_instance'' (if ?rid0 = [] then trim_space sid else ?rid0)) (bs_guard st)"
    have "snd (handle_unpublish env envelope m st) = (if Status (fst ?ev) = Some EventStatusAccepted
        then apply_unpublish sid i (resolve_connector_id envelope st) (SessionID envelope) (st\<lparr>bs_guard := snd ?ev\<rparr>)
        else st\<lparr>bs_guard := snd ?ev\<rparr>)"
      using None Inr t by (simp add: handle_unpublish_def Let_def case_prod_unfold)
    then show ?thesis using removed [OF Inr [unfolded t]] same by metis
  qed
qed

text \<open>
  C22. Ownership: whatever a connector publishes or withdraws, every instance of another connector
  stays as it is (for publishing, if the identifier that is generated for a new instance is new).
\<close>

theorem other_connectors_keep_their_instances:
  assumes "services_ok (bs_services st)" and "trim_space (resolve_connector_id envelope st) \<noteq> []"
    and "get_instance (he_instance_id env) (bs_services st) = None" and "trim_space (he_instance_id env) \<noteq> []"
    and "inst_of (bs_services st) j = Some p"
    and "trim_space (si_connector p) \<noteq> trim_space (resolve_connector_id envelope st)"
  shows "inst_of (bs_services (snd (handle_publish env envelope m st))) j = Some p
    \<and> inst_of (bs_services (snd (handle_unpublish env envelope u st))) j = Some p"
proof
  have idx: "services_indexed (bs_services st)" using assms(1) by (simp add: services_ok_def)
  show "inst_of (bs_services (snd (handle_publish env envelope m st))) j = Some p"
  proof (rule handle_publish_cases [OF refl, of env envelope m st])
    fix n l i auto_route ws guard
    assume inst: "resolve_or_create_instance env n l (resolve_connector_id envelope st) envelope (bs_services st) = Inr i"
      and st': "snd (handle_publish env envelope m st)
        = st\<lparr>bs_guard := guard, bs_services := upsert_service (he_wall env) (he_now env) l i (bs_services st),
                bs_routes := (case auto_route of Some r \<Rightarrow> upsert_route (he_route_now env) r (bs_routes st)
                              | None \<Rightarrow> remove_auto_route l (bs_routes st))\<rparr>"
    note pub = published_instance [OF idx assms(3,4) inst]
    with assms(5,6) have "j \<noteq> trim_space (si_id i)" by auto
    with pub assms(5) show ?thesis unfolding st' by (simp add: inst_of_upsert_service)
  qed (use assms(5) in simp)
  show "inst_of (bs_services (snd (handle_unpublish env envelope u st))) j = Some p"
  proof (rule handle_unpublish_cases [of env envelope u st])
    fix sid i guard
    assume t: "resolve_unpublish_target u (resolve_connector_id envelope st) (SessionID envelope) (bs_services st) = Inr (sid, i)"
      and st': "snd (handle_unpublish env envelope u st)
         = apply_unpublish sid i (resolve_connector_id envelope st) (SessionID envelope) (st\<lparr>bs_guard := guard\<rparr>)"
    show ?thesis
      unfolding st' by (rule unpublish_keeps_others [OF _ assms(2) _ _ assms(6)]) (use idx t assms(5) in simp_all)
  qed (use assms(5) in simp)
qed


section \<open>Accepted publications\<close>

lemma get_route_other:
  "trim_space j \<noteq> trim_space (r_id r) \<Longrightarrow> get_route j (upsert_route now r routes) = get_route j routes"
  "trim_space j \<noteq> trim_space i \<Longrightarrow> get_route j (snd (remove_route i routes)) = get_route j routes"
  by (simp_all add: get_route_def upsert_route_def remove_route_def Let_def)

lemma check_publish_normal: "check_publish env envelope m st = Inr n \<Longrightarrow> normalize_publish_message env m = Inr n"
  by (auto simp: check_publish_def split: option.splits)

lemma upsert_service_writes:
  "\<exists>r. map_of (logicalServices (upsert_service wall now l i reg)) (trim_space (ls_id l)) = Some r
     \<and> ls_labels (lss_service r) = ls_labels l \<and> ls_metadata (lss_service r) = ls_metadata l \<and> ls_version (lss_service r) = ls_version l"
  "k \<noteq> trim_space (ls_id l) \<Longrightarrow>
     map_of (logicalServices (upsert_service wall now l i reg)) k = map_of (logicalServices reg) k"
  by (simp_all add: upsert_service_def recalculate_service_def put_service_def Let_def del: map_of_eq_Some_iff)

lemma resolved_service_fields:
  "ls_labels (resolve_or_create_logical_service env n v reg) = ps_labels n"
  "ls_metadata (resolve_or_create_logical_service env n v reg) = ps_metadata n"
  "ls_version (resolve_or_create_logical_service env n v reg) = v"
  by (simp_all add: resolve_or_create_logical_service_def split: option.split)

lemma auto_route_id:
  "build_auto_route env n l i version = Inr (Some r) \<Longrightarrow> r_id r = build_publish_auto_route_id (ls_id l) (ls_name l) (ls_scope l)"
  by (auto simp: build_auto_route_def Let_def split: if_splits option.splits sum.splits)

text \<open>
  C26. What a publication does. If it is acknowledged as accepted and the guard has noted its version
  (it is not a duplicate), then its session is the active one, and exactly one instance is written, under the
  identifier of the acknowledgement and with the contents of the normalized message, for the service that
  the acknowledgement names; that service, and no other, is written with the labels, the metadata and the version
  of the message; and of the routes only the one generated for this service can change.
  In every other case, duplicates and refusals of any kind, nothing but the guard changes.
\<close>

theorem publish_writes_one_instance:
  assumes "services_ok (bs_services st)"
    and "get_instance (he_instance_id env) (bs_services st) = None" and "trim_space (he_instance_id env) \<noteq> []"
    and run: "handle_publish env envelope m st = (ack, st')"
  shows "if ack_is_accepted ack \<and> resourceVersions (bs_guard st') \<noteq> resourceVersions (bs_guard st)
    then session_admits envelope st
      \<and> (\<exists>n i (l :: logical_service) r. normalize_publish_message env m = Inr n
           \<and> inst_of (bs_services st') = (inst_of (bs_services st))(trim_space (si_id i) \<mapsto> i)
           \<and> carries_publication n envelope (resolve_connector_id envelope st)
               (inst_of (bs_services st) (trim_space (si_id i))) i
           \<and> trim_space (si_service i) = trim_space (ls_id l)
           \<and> ack_ids ack = [ls_id l, si_id i, ls_name l, Namespace (ls_scope l), Environment (ls_scope l)]
           \<and> map_of (logicalServices (bs_services st')) (trim_space (ls_id l)) = Some r
           \<and> ls_labels (lss_service r) = ps_labels n \<and> ls_metadata (lss_service r) = ps_metadata n
           \<and> ls_version (lss_service r) = ResourceVersion envelope
           \<and> (\<forall>k. k \<noteq> trim_space (ls_id l) \<longrightarrow>
                map_of (logicalServices (bs_services st')) k = map_of (logicalServices (bs_services st)) k)
           \<and> (\<forall>j. trim_space j \<noteq> trim_space (build_publish_auto_route_id (ls_id l) (ls_name l) (ls_scope l))
                \<longrightarrow> get_route j (bs_routes st') = get_route j (bs_routes st)))
    else st' = st\<lparr>bs_guard := bs_guard st'\<rparr>"
proof -
  have st: "snd (handle_publish env envelope m st) = st'" and ack: "fst (handle_publish env envelope m st) = ack"
    by (simp_all add: run)
  show ?thesis
  proof (rule handle_publish_cases [OF st])
    fix guard
    assume same: "st' = st\<lparr>bs_guard := guard\<rparr>"
      and "\<not> (ack_is_accepted (fst (handle_publish env envelope m st)) \<and> noted (bs_guard st) guard)"
    then have not: "\<not> (ack_is_accepted ack \<and> resourceVersions (bs_guard st') \<noteq> resourceVersions (bs_guard st))"
      by (simp add: ack noted_def)
    show ?thesis unfolding if_not_P [OF not] by (simp add: same)
  next
    fix n l i auto_route ws guard
    assume n: "check_publish env envelope m st = Inr n"
      and l: "l = resolve_or_create_logical_service env n (ResourceVersion envelope) (bs_services st)"
      and inst: "resolve_or_create_instance env n l (resolve_connector_id envelope st) envelope (bs_services st) = Inr i"
      and built: "build_auto_route env n l i (ResourceVersion envelope) = Inr auto_route"
      and st': "st' = st\<lparr>bs_guard := guard, bs_services := upsert_service (he_wall env) (he_now env) l i (bs_services st),
                bs_routes := (case auto_route of Some r \<Rightarrow> upsert_route (he_route_now env) r (bs_routes st)
                              | None \<Rightarrow> remove_auto_route l (bs_routes st))\<rparr>"
      and acks: "ack_is_accepted (fst (handle_publish env envelope m st))" "ack_ids (fst (handle_publish env envelope m st))
         = [ls_id l, si_id i, ls_name l, Namespace (ls_scope l), Environment (ls_scope l)]"
      and noted: "noted (bs_guard st) guard"
    have "services_indexed (bs_services st)" using assms(1) by (simp add: services_ok_def)
    note pub = published_instance [OF this assms(2,3) inst]
    have services: "bs_services st' = upsert_service (he_wall env) (he_now env) l i (bs_services st)" by (simp add: st')
    have routes: "get_route j (bs_routes st') = get_route j (bs_routes st)"
      if "trim_space j \<noteq> trim_space (build_publish_auto_route_id (ls_id l) (ls_name l) (ls_scope l))" for j
      using that built auto_route_id [of env n l i "ResourceVersion envelope"]
      by (auto simp: st' remove_auto_route_def Let_def get_route_other split: option.split)
    have new: "ack_is_accepted ack \<and> resourceVersions (bs_guard st') \<noteq> resourceVersions (bs_guard st)"
      using acks(1) noted by (simp add: ack noted_def st')
    obtain r where r: "map_of (logicalServices (bs_services st')) (trim_space (ls_id l)) = Some r"
      "ls_labels (lss_service r) = ls_labels l" "ls_metadata (lss_service r) = ls_metadata l" "ls_version (lss_service r) = ls_version l"
      unfolding services using upsert_service_writes(1) by blast
    have insts: "inst_of (bs_services st') = (inst_of (bs_services st))(trim_space (si_id i) \<mapsto> i)"
      unfolding services using pub by (simp add: inst_of_upsert_service)
    have others: "map_of (logicalServices (bs_services st')) k = map_of (logicalServices (bs_services st)) k"
      if "k \<noteq> trim_space (ls_id l)" for k
      unfolding services by (rule upsert_service_writes(2) [OF that])
    have "session_admits envelope st" by (rule check_publish_admits [OF n])
    then show ?thesis
      unfolding if_P [OF new]
      using check_publish_normal [OF n] insts pub acks(2) r others routes
      by (intro conjI exI [of _ n] exI [of _ i] exI [of _ l] exI [of _ r])
         (simp_all add: ack resolved_service_fields l [symmetric] del: map_of_eq_Some_iff, simp_all add: l resolved_service_fields)
  qed
qed

section \<open>Refused events that are sent again\<close>

lemma check_route_guard: "check_route envelope i (st\<lparr>bs_guard := g\<rparr>) = check_route envelope i st"
proof -
  have "validate_session_epoch code envelope (st\<lparr>bs_guard := g\<rparr>) = validate_session_epoch code envelope st" for code
    by (simp add: validate_session_epoch_def)
  then show ?thesis by (simp add: check_route_def cong: option.case_cong)
qed

lemma retried_event:
  assumes "window_inv (replayWindow g)" "validate_and_build_keys meta = (d0, True)"
  shows "Status (fst (evaluate meta (snd (evaluate meta g)))) = Some EventStatusDuplicate"
proof -
  obtain b w where b: "seen_or_add (DedupKey d0) (replayWindow g) = (b, w)" by fastforce
  have "replayWindow (snd (evaluate meta g)) = w"
    using assms(2) b by (auto simp: evaluate_def Let_def split: version_relation.split)
  moreover have "DedupKey d0 \<in> seen w" using seen_after_add [OF assms(1), of "DedupKey d0"] b by simp
  then have "seen_or_add (DedupKey d0) w = (True, w)" by (simp add: seen_or_add_def)
  ultimately show ?thesis using assms(2) by (simp add: evaluate_def Let_def)
qed

text \<open>
  C38. The guard records an event before admission decides on the route. So when a route assignment is
  refused although the guard has taken the event (which shows in a changed state: a refusal by the
  validation or for a stale session changes nothing), sending the very same event again is acknowledged
  as accepted, while the route is still not registered.
\<close>

theorem refused_assignment_accepted_on_retry:
  assumes "window_inv (replayWindow (bs_guard st))"
    and "\<not> ack_is_accepted (fst (fst (handle_assign env envelope m st)))"
    and "snd (handle_assign env envelope m st) \<noteq> st"
  shows "ack_is_accepted (fst (fst (handle_assign env envelope m (snd (handle_assign env envelope m st)))))
    \<and> bs_routes (snd (handle_assign env envelope m (snd (handle_assign env envelope m st)))) = bs_routes st"
proof -
  obtain n where check: "check_route envelope (ra_id m) st = None" and n: "normalize_assign_message env m (bs_services st) = Inr n"
    using assms(3) by (auto simp: handle_assign_def split: option.splits sum.splits)
  define meta where "meta = instance_event envelope ''route'' (resolve_route_resource_id (ResourceID envelope) (ra_id n))"
  define ev where "ev = evaluate meta (bs_guard st)"
  have first: "snd (handle_assign env envelope m st) = st\<lparr>bs_guard := snd ev\<rparr>"
    using assms(2) check n
    by (auto simp: handle_assign_def Let_def case_prod_unfold meta_def [symmetric] ev_def [symmetric]
        build_route_assign_ack_def ack_accepted_def split: sum.splits if_splits)
  have "snd ev \<noteq> bs_guard st" using assms(3) first by auto
  then obtain d0 where keys: "validate_and_build_keys meta = (d0, True)"
    by (cases "validate_and_build_keys meta") (auto simp: ev_def evaluate_def split: if_splits bool.splits)
  let ?ev = "evaluate meta (snd ev)"
  have again: "Status (fst ?ev) = Some EventStatusDuplicate"
    unfolding ev_def by (rule retried_event [OF assms(1) keys])
  have "check_route envelope (ra_id m) (st\<lparr>bs_guard := snd ev\<rparr>) = None"
    using check by (simp add: check_route_guard)
  then show ?thesis
    using again n unfolding first
    by (simp add: handle_assign_def Let_def case_prod_unfold meta_def [symmetric] build_route_assign_ack_def ack_accepted_def)
qed


section \<open>Samples\<close>

definition sample_handler_env :: handler_env where
  "sample_handler_env = \<lparr>he_compile = (\<lambda>p. None), he_fields = (\<lambda>b. None), he_deriver = None, he_service_id = ''s'',
     he_instance_id = ''i'', he_wall = 1, he_now = 1, he_route_now = 1\<rparr>"

definition sample_handler_state :: bridge_state where
  "sample_handler_state = (new_bridge_state 8)\<lparr>bs_sessions := \<lparr>bySessionID =
     [(''s'', (sample_session_runtime ''s'' 1)\<lparr>sr_state := SessionActive\<rparr>)], byConnector = [(''c'', ''s'')]\<rparr>\<rparr>"

definition sample_resource_envelope :: "string \<Rightarrow> control_envelope" where
  "sample_resource_envelope t = sample_envelope\<lparr>MessageType := t, SessionID := ''s'', SessionEpoch := 1,
     EventID := ''e'', ResourceVersion := 1, ConnectorID := ''c''\<rparr>"

definition sample_publish :: publish_service where
  "sample_publish = \<lparr>ps_instance = [], ps_name = ''n'', ps_scope = \<lparr>Namespace = ''n'', Environment = ''e''\<rparr>, ps_labels = [],
     ps_metadata = [], ps_type = ''x'',
     ps_endpoints = [\<lparr>ep_id = [], ep_protocol = ''x'', ep_host = ''c'', ep_port = 1, ep_tls_mode = [], ep_server_name = [], ep_dial_timeout = 0, ep_read_timeout = 0, ep_write_timeout = 0, ep_weight = 0, ep_metadata = []\<rparr>],
     ps_exposure = si_exposure sample_instance, ps_health_check = si_health_check sample_instance,
     ps_discovery = si_discovery sample_instance, ps_route_hint = si_route_hint sample_instance\<rparr>"

definition sample_unpublish :: unpublish_service where
  "sample_unpublish = \<lparr>us_instance = ''i'', us_service = [], us_name = [], us_scope = \<lparr>Namespace = [], Environment = []\<rparr>\<rparr>"

definition sample_assign :: route_assign where
  "sample_assign = \<lparr>ra_id = ''x'', ra_scope = \<lparr>Namespace = ''n'', Environment = ''e''\<rparr>, ra_match = empty_match,
     ra_target = \<lparr>rt_type = RouteTargetTypeConnectorService,
       rt_connector = Some \<lparr>ct_selector = \<lparr>ss_service = [], ss_name = [], ss_scope = \<lparr>Namespace = [], Environment = []\<rparr>,
            ss_match_labels = [], ss_instance_labels = []\<rparr>, ct_instance_selector = [], ct_load_balance = []\<rparr>,
       rt_external = None\<rparr>,
     ra_priority = 0, ra_policy = [], ra_metadata = [],
     ra_injection = \<lparr>InjectScope = \<lparr>Namespace = [], Environment = []\<rparr>, InjectPolicy = ScopeInjectPolicyDisabled\<rparr>\<rparr>"

theorem stale_sessions_change_nothing_witness:
  "snd (handle_publish sample_handler_env sample_envelope sample_publish (new_bridge_state 8)) = new_bridge_state 8
   \<and> handle_health_report sample_handler_env sample_envelope \<lparr>hr_instance = ''i'', hr_status = HealthStatusHealthy\<rparr>
       (new_bridge_state 8) = new_bridge_state 8"
proof -
  have "\<not> session_admits sample_envelope (new_bridge_state 8)"
    by (simp add: session_admits_def sample_envelope_def new_bridge_state_def new_session_registry_def get_by_session_def)
  moreover have "trim_space (SessionID sample_envelope) = SessionID sample_envelope" by (simp add: sample_envelope_def)
  ultimately show ?thesis using stale_sessions_change_nothing by blast
qed


lemma inst_of_sample: "inst_of (upsert_service 1 1 sample_service sample_instance new_service_registry) = [''i'' \<mapsto> sample_instance]"
proof -
  have "inst_of new_service_registry = Map.empty" by (simp add: fun_eq_iff inst_of_def new_service_registry_def)
  then show ?thesis
    using inst_of_upsert_service [of sample_instance 1 1 sample_service new_service_registry] by (simp add: sample_instance_def trim_sample)
qed

theorem other_connectors_keep_their_instances_witness:
  "let env = sample_handler_env\<lparr>he_instance_id := ''x''\<rparr>;
       st = sample_handler_state\<lparr>bs_services := upsert_service 1 1 sample_service sample_instance new_service_registry\<rparr>;
       envelope = (sample_resource_envelope ''UnpublishService'')\<lparr>ConnectorID := ''n''\<rparr>
   in inst_of (bs_services (snd (handle_unpublish env envelope sample_unpublish st))) ''i'' = Some sample_instance"
proof -
  let ?reg = "upsert_service 1 1 sample_service sample_instance new_service_registry"
  let ?st = "sample_handler_state\<lparr>bs_services := ?reg\<rparr>"
  let ?envelope = "(sample_resource_envelope ''UnpublishService'')\<lparr>ConnectorID := ''n''\<rparr>"
  have "publishes_aligned sample_service sample_instance new_service_registry"
    by (simp add: publishes_aligned_def get_instance_def new_service_registry_def sample_service_def sample_instance_def Let_def)
  then have ok: "services_ok (bs_services ?st)" by (simp add: services_ok_upsert services_ok_new)
  have "inst_of ?reg ''x'' = None" by (simp add: inst_of_sample)
  then have none: "get_instance ''x'' ?reg = None" by (simp add: inst_of_def get_instance_def trim_sample split: option.splits)
  have "resolve_connector_id ?envelope ?st = ''n''" by (simp add: resolve_connector_id_def trim_sample)
  then show ?thesis
    using other_connectors_keep_their_instances [of ?st ?envelope "sample_handler_env\<lparr>he_instance_id := ''x''\<rparr>" "''i''" sample_instance] ok none
    by (simp add: inst_of_sample trim_sample) (simp add: sample_instance_def trim_sample)
qed

lemma sample_evaluated:
  assumes "trim_space rt = rt" "rt \<noteq> []" "trim_space rid = rid" "rid \<noteq> []"
  shows "evaluate (instance_event (sample_resource_envelope t) rt rid) (new_resource_event_guard 8) =
    (empty_decision\<lparr>DedupKey := ''s:e'', ResourceKey := rt @ '':'' @ rid, Status := Some EventStatusAccepted,
       CurrentResourceVersion := 1, AcceptedResourceVersion := 1\<rparr>,
     \<lparr>replayWindow = \<lparr>capacity = 8, order = [''s:e''], seen = {''s:e''}\<rparr>, resourceVersions = [(rt @ '':'' @ rid, 1)]\<rparr>)"
  using assms
  by (simp add: evaluate_def instance_event_def sample_resource_envelope_def validate_and_build_keys_def
      validate_resource_meta_def build_dedup_key_def build_resource_key_def trim_samples new_resource_event_guard_def
      new_replay_window_def seen_or_add_def version_of_def compare_resource_version_def Let_def)

lemma sample_route_check: "check_route (sample_resource_envelope ''RouteAssign'') ''x'' sample_handler_state = None"
  using message_types_trimmed [of "''RouteAssign''" frame_type_route_assign]
  by (simp add: check_route_def sample_resource_envelope_def sample_envelope_def validate_control_envelope_def trim_sample
      is_known_control_message_type_def known_control_message_types_def requires_resource_meta_def validate_resource_meta_def
      validate_session_epoch_def sample_handler_state_def get_by_session_def sample_session_runtime_def message_type_frames_def)

theorem refused_assignment_accepted_on_retry_witness:
  "let envelope = sample_resource_envelope ''RouteAssign'';
       again = handle_assign sample_handler_env envelope sample_assign
                 (snd (handle_assign sample_handler_env envelope sample_assign sample_handler_state))
   in ack_is_accepted (fst (fst again)) \<and> bs_routes (snd again) = []"
proof -
  let ?envelope = "sample_resource_envelope ''RouteAssign''"
  have t: "trim_space ''route'' = ''route''" by (rule trim_space_graphic; simp add: graphic_def)
  have norm: "normalize_assign_message sample_handler_env sample_assign (bs_services sample_handler_state)
      = Inr (sample_assign\<lparr>ra_match := empty_match\<rparr>)"
    by (simp add: normalize_assign_message_def sample_assign_def empty_match_def Let_def normalize_scope_def trim_sample
        normalize_scope_injection_def validate_route_match_regex_def validate_scope_injection_def trim_target_type_def
        validate_route_target_def should_derive_route_host_def)
  have refused: "\<exists>e. run_admission (route_of_assign (sample_assign\<lparr>ra_match := empty_match\<rparr>) v) (sample_handler_state\<lparr>bs_guard := g\<rparr>) = Inl e"
    for v g
    by (simp add: run_admission_def admit_def resolve_target_identity_def normalize_admission_route_def route_of_assign_def
        sample_assign_def Let_def)
  have guard: "bs_guard sample_handler_state = new_resource_event_guard 8"
    by (simp add: sample_handler_state_def new_bridge_state_def)
  have ids: "ra_id sample_assign = ''x''" "trim_space (ResourceID ?envelope) = []"
    by (simp_all add: sample_assign_def sample_resource_envelope_def sample_envelope_def)
  note run = handle_assign_def sample_route_check norm guard ids resolve_route_resource_id_def sample_evaluated t trim_sample
  let ?g = "\<lparr>replayWindow = \<lparr>capacity = 8, order = [''s:e''], seen = {''s:e''}\<rparr>, resourceVersions = [(''route:x'', 1)]\<rparr>"
  let ?st1 = "sample_handler_state\<lparr>bs_guard := ?g\<rparr>"
  obtain e where e: "run_admission (route_of_assign (sample_assign\<lparr>ra_match := empty_match\<rparr>) (ResourceVersion ?envelope)) ?st1 = Inl e"
    using refused by blast
  have first: "handle_assign sample_handler_env ?envelope sample_assign sample_handler_state
      = ((reject_route_ack build_route_assign_ack ''x'' e ?st1, []), ?st1)"
    by (simp add: run Let_def e)
  have "?st1 \<noteq> sample_handler_state"
    by (simp add: sample_handler_state_def new_bridge_state_def new_resource_event_guard_def)
  moreover have "window_inv (replayWindow (bs_guard sample_handler_state))"
    by (simp add: guard new_resource_event_guard_def window_inv_new)
  moreover have "bs_routes sample_handler_state = []" by (simp add: sample_handler_state_def new_bridge_state_def)
  ultimately show ?thesis
    using refused_assignment_accepted_on_retry [of sample_handler_state sample_handler_env ?envelope sample_assign] first by simp
qed

lemma sample_publish_check:
  "check_publish sample_handler_env (sample_resource_envelope ''PublishService'') sample_publish sample_handler_state = Inr sample_publish"
proof -
  have s: "validate_session_epoch c (sample_resource_envelope ''PublishService'') sample_handler_state = None" for c
    by (simp add: validate_session_epoch_def sample_resource_envelope_def sample_handler_state_def get_by_session_def
        sample_session_runtime_def trim_sample)
  have v: "validate_control_envelope (sample_resource_envelope ''PublishService'') = None"
    by (simp add: sample_resource_envelope_def sample_envelope_def validate_control_envelope_def trim_sample
      is_known_control_message_type_def known_control_message_types_def requires_resource_meta_def validate_resource_meta_def
      trim_publish_service)
  have p: "validate_publish_service c sample_publish = None" for c
    by (simp add: validate_publish_service_def sample_publish_def sample_instance_def trim_sample validate_route_hint_def Let_def)
  have n: "normalize_publish_message sample_handler_env sample_publish = Inr sample_publish"
    by (simp add: normalize_publish_message_def sample_publish_def sample_instance_def trim_sample should_derive_publish_host_def
        normalize_scope_def clone_service_exposure_def clone_discovery_policy_def clone_route_hint_def clone_matchers_def Let_def)
  have l: "validate_no_legacy_fields sample_handler_env (EnvelopePayload (sample_resource_envelope ''PublishService'')) f = None" for f
    by (simp add: validate_no_legacy_fields_def sample_resource_envelope_def sample_envelope_def)
  show ?thesis by (simp add: check_publish_def s v p n l)
qed

theorem publish_writes_one_instance_witness:
  "let r = handle_publish sample_handler_env (sample_resource_envelope ''PublishService'') sample_publish sample_handler_state
   in ack_is_accepted (fst r) \<and> (\<exists>i. inst_of (bs_services (snd r)) = [trim_space (si_id i) \<mapsto> i] \<and> si_session i = ''s''
        \<and> si_health i = HealthStatusUnknown)"
proof -
  let ?envelope = "sample_resource_envelope ''PublishService''"
  let ?r = "handle_publish sample_handler_env ?envelope sample_publish sample_handler_state"
  let ?l = "resolve_or_create_logical_service sample_handler_env sample_publish 1 new_service_registry"
  have l: "?l = \<lparr>ls_id = ''s'', ls_name = ''n'', ls_scope = \<lparr>Namespace = ''n'', Environment = ''e''\<rparr>, ls_status = ServiceStatusActive,
     ls_active_count = 0, ls_healthy_count = 0, ls_labels = [], ls_version = 1, ls_metadata = []\<rparr>"
    by (simp add: resolve_or_create_logical_service_def find_service_by_name_scope_def new_service_registry_def Let_def
        sample_publish_def sample_handler_env_def trim_sample)
  obtain i where i: "resolve_or_create_instance sample_handler_env sample_publish ?l ''c'' ?envelope new_service_registry = Inr i"
      "si_id i = ''i''" "si_session i = ''s''"
    by (simp add: resolve_or_create_instance_def l sample_publish_def find_instance_by_connector_service_def
        instances_by_service_def index_ids_def new_service_registry_def map_filter_simps fresh_instance_def apply_publish_payload_def
        sample_handler_env_def sample_resource_envelope_def trim_sample Let_def)
  have t: "trim_space ''service_instance'' = ''service_instance''" by (rule trim_space_graphic; simp add: graphic_def)
  have none: "build_auto_route sample_handler_env sample_publish ?l i v = Inr None" for v
    by (simp add: build_auto_route_def l build_publish_auto_route_id_def trim_sample sample_publish_def sample_instance_def
        validate_route_hint_def build_publish_auto_route_match_def normalize_publish_auto_route_ingress_mode_def
        normalize_publish_auto_route_protocol_def Let_def)
  have st: "bs_services sample_handler_state = new_service_registry" "bs_guard sample_handler_state = new_resource_event_guard 8"
    "resolve_connector_id ?envelope sample_handler_state = ''c''" "ResourceVersion ?envelope = 1" "SessionID ?envelope = ''s''"
    by (simp_all add: sample_handler_state_def new_bridge_state_def resolve_connector_id_def sample_resource_envelope_def trim_sample)
  have env: "he_wall sample_handler_env = 1" "he_now sample_handler_env = 1" by (simp_all add: sample_handler_env_def)
  have acc: "ack_is_accepted (fst ?r)" "bs_services (snd ?r) = upsert_service 1 1 ?l i new_service_registry"
    by (simp_all add: handle_publish_def sample_publish_check st i service_instance_resource_id_def trim_sample
        sample_evaluated t apply_publish_def none build_publish_service_ack_def ack_accepted_def env Let_def)
  have ok: "services_ok (bs_services sample_handler_state)" by (simp add: st services_ok_new)
  have g: "get_instance (he_instance_id sample_handler_env) (bs_services sample_handler_state) = None"
      "trim_space (he_instance_id sample_handler_env) \<noteq> []"
    by (simp_all add: st get_instance_def new_service_registry_def sample_handler_env_def trim_sample)
  have versions: "resourceVersions (bs_guard (snd ?r)) \<noteq> resourceVersions (bs_guard sample_handler_state)"
    by (simp add: handle_publish_def sample_publish_check st i service_instance_resource_id_def trim_sample
        sample_evaluated t apply_publish_def none Let_def) (simp add: new_resource_event_guard_def)
  have new: "ack_is_accepted (fst ?r) \<and> resourceVersions (bs_guard (snd ?r)) \<noteq> resourceVersions (bs_guard sample_handler_state)"
    using acc(1) versions by (rule conjI)
  have "inst_of (bs_services sample_handler_state) = Map.empty"
    by (simp add: st fun_eq_iff inst_of_def new_service_registry_def)
  then obtain i' n where "inst_of (bs_services (snd ?r)) = [trim_space (si_id i') \<mapsto> i']"
    "carries_publication n ?envelope (resolve_connector_id ?envelope sample_handler_state) None i'"
    using publish_writes_one_instance [OF ok g surjective_pairing, of ?envelope sample_publish, unfolded if_P [OF new]] by auto
  then show ?thesis
    using acc(1) unfolding Let_def by (auto simp: carries_publication_def st trim_sample)
qed
end
