(* ===== verification/Service_Links.thy ===== *)
theory Service_Links
  imports Handler_Safety
begin

text \<open>
  Every instance of the service registry carries the service that it belongs to, or it is an orphan:
  its service is not registered and it carries none. With this the handlers of publications,
  withdrawals, health reports and lifecycle changes keep the registry of services consistent without
  any condition on the messages.
\<close>

section \<open>The invariant\<close>

definition services_keyed :: "service_registry \<Rightarrow> bool" where
  "services_keyed reg \<longleftrightarrow> (\<forall>k s. map_of (logicalServices reg) k = Some s \<longrightarrow> trim_space (ls_id (lss_service s)) = k)"

definition linked :: "service_registry \<Rightarrow> instance_snapshot \<Rightarrow> bool" where
  "linked reg r \<longleftrightarrow> trim_space (ls_id (sis_service r)) = service_of r
     \<or> \<not> has_key (logicalServices reg) (service_of r) \<and> ls_id (sis_service r) = []"

definition linked_except :: "string set \<Rightarrow> service_registry \<Rightarrow> bool" where
  "linked_except S reg \<longleftrightarrow> services_keyed reg
     \<and> (\<forall>i r. map_of (instances reg) i = Some r \<longrightarrow> service_of r \<in> S \<or> linked reg r)"

lemma linked_exceptD:
  assumes "linked_except S reg"
  shows "map_of (logicalServices reg) k = Some s \<Longrightarrow> trim_space (ls_id (lss_service s)) = k"
    and "map_of (instances reg) i = Some r \<Longrightarrow> service_of r \<in> S \<or> linked reg r"
  using assms unfolding linked_except_def services_keyed_def by blast+

lemma linked_new: "linked_except {} new_service_registry"
  by (simp add: linked_except_def services_keyed_def new_service_registry_def)

lemma keyed_recalculate: "services_keyed reg \<Longrightarrow> services_keyed (recalculate_service sid reg)"
  by (auto simp: services_keyed_def recalculate_service_def Let_def simp del: map_of_eq_Some_iff split: option.split)

lemma linked_recalculate:
  assumes idx: "services_indexed reg" and link: "linked_except S reg"
    and there: "S \<subseteq> {} \<or> has_key (logicalServices reg) (trim_space sid) \<and> trim_space sid \<noteq> []"
  shows "linked_except (S - {trim_space sid}) (recalculate_service sid reg)"
proof (cases "map_of (logicalServices reg) (trim_space sid)")
  case None
  then have "recalculate_service sid reg = reg" by (simp add: recalculate_service_def Let_def)
  with None there link show ?thesis by auto
next
  case (Some snap)
  let ?reg = "recalculate_service sid reg"
  let ?ids = "index_ids (instanceIDsByService reg) (trim_space sid)"
  have keyed: "services_keyed ?reg" using link keyed_recalculate by (simp add: linked_except_def)
  have "service_of r \<in> S - {trim_space sid} \<or> linked ?reg r" if r: "map_of (instances ?reg) i = Some r" for i r
  proof -
    obtain r0 where r0: "map_of (instances reg) i = Some r0"
        and req: "r = (if i \<in> set ?ids then r0\<lparr>sis_service := lss_service snap\<rparr> else r0)"
      using r Some by (auto simp: recalculate_service_def Let_def map_of_share simp del: map_map map_of_eq_Some_iff)
    have svc: "service_of r = service_of r0" by (simp add: req service_of_def)
    show ?thesis
    proof (cases "i \<in> set ?ids")
      case True
      then have "service_of r0 = trim_space sid"
        using indexes_mem [OF services_indexedD(4) [OF idx]] r0 by (metis option.sel)
      moreover have "trim_space (ls_id (lss_service snap)) = trim_space sid" using linked_exceptD(1) [OF link Some] .
      ultimately show ?thesis using True svc by (simp add: linked_def req)
    next
      case False
      have "service_of r0 = trim_space sid \<Longrightarrow> trim_space sid = []"
        using False indexes_mem [OF services_indexedD(4) [OF idx], of i "trim_space sid"] r0 by blast
      moreover have "service_of r0 \<in> S \<or> linked reg r0" using linked_exceptD(2) [OF link r0] .
      ultimately show ?thesis using False there svc keys_recalculate [of sid reg] by (auto simp: req linked_def)
    qed
  qed
  with keyed show ?thesis unfolding linked_except_def by blast
qed


lemma linked_put_service:
  assumes "linked_except {} reg"
  shows "linked_except ({trim_space (ls_id l)} - {[]}) (put_service now l reg)"
proof -
  have trim: "trim_space (service_of r) = service_of r" for r by (simp add: service_of_def)
  show ?thesis
    using assms trim
    by (fastforce simp: linked_except_def services_keyed_def put_service_def Let_def linked_def
        simp del: map_of_eq_Some_iff split: if_splits)
qed

lemma linked_upsert_instance:
  assumes "linked_except S reg"
  shows "linked_except S (upsert_instance now inst reg)"
proof (cases "trim_space (si_id inst) = []")
  case False
  let ?new = "\<lparr>sis_service = (case map_of (logicalServices reg) (trim_space (si_service inst)) of
      None \<Rightarrow> no_service | Some record \<Rightarrow> lss_service record), sis_instance = inst, sis_updated_at = now\<rparr>"
  have "linked reg ?new"
    using linked_exceptD(1) [OF assms, of "trim_space (si_service inst)"]
    by (cases "map_of (logicalServices reg) (trim_space (si_service inst))")
       (auto simp: linked_def service_of_def no_service_def simp del: map_of_eq_Some_iff)
  then show ?thesis
    using assms False
    by (auto simp: linked_except_def services_keyed_def upsert_instance_def Let_def linked_def simp del: map_of_eq_Some_iff
        split: if_splits)
qed (use assms in \<open>simp add: upsert_instance_def Let_def\<close>)

lemma keys_upsert_instance [simp]: "has_key (logicalServices (put_service now l reg)) (trim_space (ls_id l))"
  by (simp add: put_service_def Let_def)

lemma linked_upsert_service:
  assumes "services_indexed reg" "linked_except {} reg"
  shows "linked_except {} (upsert_service wall now l inst reg)"
proof -
  let ?sid = "trim_space (ls_id l)"
  let ?reg = "upsert_instance (now_or wall now) inst (put_service (now_or wall now) l reg)"
  have "linked_except ({?sid} - {[]}) ?reg" by (intro linked_upsert_instance linked_put_service assms(2))
  moreover have "services_indexed ?reg"
    by (intro services_indexed_upsert_instance services_indexed_put_service assms(1))
  ultimately have "linked_except (({?sid} - {[]}) - {trim_space ?sid}) (recalculate_service ?sid ?reg)"
    by (intro linked_recalculate) auto
  moreover have "({?sid} - {[]}) - {trim_space ?sid} = {}" by auto
  ultimately show ?thesis by (simp only: upsert_service_def Let_def)
qed

lemma linked_fold_recalculate:
  "services_indexed reg \<Longrightarrow> linked_except {} reg \<Longrightarrow> linked_except {} (fold recalculate_service sids reg)"
proof (induction sids arbitrary: reg)
  case (Cons sid sids)
  then show ?case using linked_recalculate [OF Cons.prems, of sid] services_indexed_recalculate by simp
qed simp

lemma linked_remove:
  assumes "services_indexed reg" "linked_except {} reg"
  shows "linked_except {} (snd (remove_instance i reg))"
proof (cases "map_of (instances reg) i")
  case (Some r)
  have "linked_except {} (drop_instance i (sis_instance r) reg)"
    using assms(2)
    by (auto simp: linked_except_def services_keyed_def drop_instance_def Let_def linked_def simp del: map_of_eq_Some_iff
        split: if_splits)
  from linked_recalculate [OF services_indexed_drop [OF assms(1) Some] this, of "trim_space (si_service (sis_instance r))"]
  show ?thesis using Some by (simp add: remove_instance_def Let_def)
qed (use assms in \<open>simp add: remove_instance_def\<close>)

lemma linked_remove_all:
  assumes "services_ok reg" "linked_except {} reg"
  shows "linked_except {} (snd (remove_instances rs reg))"
proof -
  have "services_ok (snd acc) \<and> linked_except {} (snd acc) \<Longrightarrow> linked_except {} (snd (fold (\<lambda>r (removed, reg).
      let (ok, reg') = remove_instance (si_id (sis_instance r)) reg in (removed \<or> ok, reg')) rs acc))" for acc
    by (induction rs arbitrary: acc)
       (auto simp: Let_def case_prod_unfold services_ok_remove linked_remove services_ok_def [THEN iffD1])
  then show ?thesis using assms by (simp add: remove_instances_def)
qed

lemma services_indexed_map:
  assumes "services_indexed reg" and "\<And>i r. si_id (sis_instance (g i r)) = si_id (sis_instance r)"
    and "\<And>i r. service_of (g i r) = service_of r" "\<And>i r. connector_of (g i r) = connector_of r"
  shows "services_indexed (reg\<lparr>instances := map (\<lambda>(i, r). (i, g i r)) (instances reg)\<rparr>)"
proof -
  note facts = services_indexedD [OF assms(1)]
  show ?thesis
    using facts(1,2,3,6) indexes_map [OF facts(4), of g] indexes_map [OF facts(5), of g] assms(2-4)
    by (auto simp: services_indexed_def keys_map map_of_share simp del: map_map map_of_eq_Some_iff)
qed

lemma linked_mark:
  assumes "services_ok reg" "linked_except {} reg"
  shows "linked_except {} (snd (mark_lifecycle wall now c s st h reg))"
proof (cases "trim_space c = []")
  case False
  define hit where "hit = (\<lambda>(i::string, r). of_runtime (trim_space c) (trim_space s) r)"
  define g where "g = (\<lambda>i r. if hit (i, r)
      then r\<lparr>sis_instance := (sis_instance r)\<lparr>si_status := st, si_health := h\<rparr>, sis_updated_at := now_or wall now\<rparr>
      else r)"
  define reg1 where "reg1 = reg\<lparr>instances := map (\<lambda>(i, r). (i, g i r)) (instances reg)\<rparr>"
  have idx: "services_indexed reg" using assms(1) by (simp add: services_ok_def)
  have g: "si_id (sis_instance (g i r)) = si_id (sis_instance r)" "service_of (g i r) = service_of r"
      "connector_of (g i r) = connector_of r" "sis_service (g i r) = sis_service r" for i r
    by (simp_all add: g_def service_of_def connector_of_def)
  have "services_indexed reg1" unfolding reg1_def by (rule services_indexed_map [OF idx g(1-3)])
  moreover have "linked reg1 (g i r) \<longleftrightarrow> linked reg r" for i r by (simp add: linked_def g reg1_def)
  then have "linked_except {} reg1"
    using assms(2) unfolding linked_except_def services_keyed_def reg1_def
    by (fastforce simp: map_of_share simp del: map_map map_of_eq_Some_iff)
  ultimately show ?thesis
    using False by (simp add: mark_lifecycle_def Let_def linked_fold_recalculate reg1_def g_def hit_def)
qed (use assms in \<open>simp add: mark_lifecycle_def\<close>)

lemma linked_replace: "linked_except {} (replace_all_services wall now ss insts)"
proof -
  have keyed: "services_keyed (put_service t l reg)" if "services_keyed reg" for t l reg
    using that by (auto simp: services_keyed_def put_service_def Let_def simp del: map_of_eq_Some_iff)
  have put: "services_indexed (fold (put_service t) ss reg) \<and> linked_except {} (fold (put_service t) ss reg)"
    if "services_indexed reg" "services_keyed reg" "instances reg = []" for t reg ss
    using that
  proof (induction ss arbitrary: reg)
    case (Cons l ss)
    show ?case
      using Cons.IH [of "put_service t l reg"] Cons.prems keyed services_indexed_put_service
      by (simp add: put_service_def Let_def)
  qed (simp add: linked_except_def)
  have ups: "services_indexed (fold (upsert_instance t) insts reg) \<and> linked_except {} (fold (upsert_instance t) insts reg)"
    if "services_indexed reg" "linked_except {} reg" for t reg insts
    using that by (induction insts arbitrary: reg) (simp_all add: services_indexed_upsert_instance linked_upsert_instance)
  have "services_indexed new_service_registry" "services_keyed new_service_registry" "instances new_service_registry = []"
    using services_indexed_new by (simp_all add: services_keyed_def new_service_registry_def)
  from put [OF this] ups show ?thesis
    unfolding replace_all_services_def recalculate_all_def Let_def by (blast intro: linked_fold_recalculate)
qed


section \<open>The operations keep it\<close>

definition services_good :: "service_registry \<Rightarrow> bool" where
  "services_good reg \<longleftrightarrow> services_ok reg \<and> linked_except {} reg"

lemma services_good_new: "services_good new_service_registry"
  by (simp add: services_good_def services_ok_new linked_new)

lemma services_good_upsert:
  "services_good reg \<Longrightarrow> publishes_aligned l inst reg \<Longrightarrow> services_good (upsert_service wall now l inst reg)"
  by (simp add: services_good_def services_ok_upsert linked_upsert_service services_ok_def [THEN iffD1])

lemma services_good_remove:
  "services_good reg \<Longrightarrow> services_good (snd (remove_instance i reg))"
  "services_good reg \<Longrightarrow> services_good (snd (remove_instances rs reg))"
  by (simp_all add: services_good_def services_ok_remove services_ok_remove_all linked_remove_all linked_remove
      services_ok_def [THEN iffD1])

lemma services_good_mark: "services_good reg \<Longrightarrow> services_good (snd (mark_lifecycle wall now c s st h reg))"
  by (simp add: services_good_def services_ok_mark linked_mark)

lemma services_good_replace: "services_good (replace_all_services wall now ss insts)"
  by (simp add: services_good_def services_ok_replace linked_replace)

text \<open>An orphan is written with a blank service; no count depends on it.\<close>

lemma services_ok_upsert_orphan:
  assumes "services_ok reg" "trim_space (ls_id l) = []" "\<not> has_key (logicalServices reg) (trim_space (si_service inst))"
    and "\<And>r. get_instance (si_id inst) reg = Some r \<Longrightarrow> service_of r = trim_space (si_service inst)"
  shows "services_ok (upsert_service wall now l inst reg)"
proof -
  let ?x = "trim_space (si_service inst)"
  let ?put = "put_service (now_or wall now) l reg"
  let ?reg = "upsert_instance (now_or wall now) inst ?put"
  have idx: "services_indexed ?reg"
    using assms(1) by (intro services_indexed_upsert_instance services_indexed_put_service) (simp add: services_ok_def)
  have "counted_except {[], ?x} reg" using assms(1) counted_except_mono [of "{}" reg] by (simp add: services_ok_def)
  then have cnt: "counted_except {[], ?x} ?put" by (rule counted_put_service) (simp add: assms(2))
  have "service_of r \<in> {[], ?x}" if r: "map_of (instances ?put) (trim_space (si_id inst)) = Some r" for r
  proof -
    have "map_of (instances reg) (trim_space (si_id inst)) = Some r" using r by (simp add: put_service_def Let_def)
    moreover from this have "trim_space (si_id inst) \<noteq> []" using services_indexedD(3) assms(1) by (auto simp: services_ok_def)
    ultimately show ?thesis using assms(4) by (simp add: get_instance_def Let_def)
  qed
  from counted_upsert_instance [OF cnt this] have "counted_except {[], ?x} ?reg" by simp
  from counted_recalculate [OF idx this, of "[]"]
  have "counted_except {?x} (recalculate_service [] ?reg)" by (auto elim: counted_except_mono)
  moreover have "\<not> has_key (logicalServices (recalculate_service [] ?reg)) ?x \<or> ?x = []"
    using assms(2,3) keys_recalculate [of "[]" ?reg ?x] by (auto simp: put_service_def Let_def)
  ultimately have "counted_except {} (recalculate_service [] ?reg)"
    unfolding counted_except_def by (metis empty_iff insertE option.discI option.sel)
  then show ?thesis
    using services_indexed_recalculate [OF idx, of "[]"] assms(2) by (simp add: services_ok_def upsert_service_def Let_def)
qed

lemma services_good_health:
  assumes "services_good reg" "get_instance i reg = Some s"
  shows "services_good (upsert_service wall now (sis_service s) ((sis_instance s)\<lparr>si_health := h\<rparr>) reg)"
proof -
  have idx: "services_indexed reg" using assms(1) by (simp add: services_good_def services_ok_def)
  have s: "map_of (instances reg) (trim_space i) = Some s" "trim_space i \<noteq> []"
    using assms(2) by (auto simp: get_instance_def Let_def split: if_splits)
  then have id: "get_instance (si_id (sis_instance s)) reg = Some s"
    using services_indexedD(3) [OF idx s(1)] by (simp add: get_instance_def)
  have "linked reg s" using assms(1) linked_exceptD(2) [of "{}" reg, OF _ s(1)] by (simp add: services_good_def)
  then show ?thesis
  proof (cases "trim_space (ls_id (sis_service s)) = service_of s")
    case True
    then show ?thesis
      using id assms(1) by (intro services_good_upsert) (simp_all add: publishes_aligned_def service_of_def)
  next
    case False
    with \<open>linked reg s\<close> have "ls_id (sis_service s) = []" "\<not> has_key (logicalServices reg) (service_of s)"
      by (simp_all add: linked_def)
    then show ?thesis
      using assms(1) id idx
      by (auto simp: services_good_def service_of_def intro!: services_ok_upsert_orphan linked_upsert_service)
  qed
qed

lemma services_good_unpublish:
  "services_good (bs_services st) \<Longrightarrow> services_good (bs_services (snd (handle_unpublish env envelope u st)))"
proof -
  assume good: "services_good (bs_services st)"
  have "bs_services (reconcile_auto_route_on_unpublish sid st') = bs_services st'" for sid st'
    by (simp add: reconcile_auto_route_on_unpublish_def Let_def split: option.split)
  then have removed: "services_good (bs_services (apply_unpublish sid i c s (st\<lparr>bs_guard := g\<rparr>)))" for sid i c s g
    using good
    by (simp add: apply_unpublish_def remove_instance_by_id_def remove_instance_by_service_and_runtime_def Let_def
        services_good_remove)
  show ?thesis by (rule handle_unpublish_cases [of env envelope u st]) (simp_all add: good removed)
qed

lemma published_aligned:
  assumes "services_indexed reg" and "get_instance (he_instance_id env) reg = None" and "trim_space (he_instance_id env) \<noteq> []"
    and "resolve_or_create_instance env m l connector envelope reg = Inr i"
  shows "publishes_aligned l i reg"
  using published_instance [OF assms] get_instance_inst_of [of "si_id i" reg]
  by (auto simp: publishes_aligned_def service_of_def)

lemma services_good_publish:
  assumes "services_good (bs_services st)"
    and "get_instance (he_instance_id env) (bs_services st) = None" and "trim_space (he_instance_id env) \<noteq> []"
  shows "services_good (bs_services (snd (handle_publish env envelope m st)))"
proof -
  have idx: "services_indexed (bs_services st)" using assms(1) by (simp add: services_good_def services_ok_def)
  show ?thesis
    by (rule handle_publish_cases [OF refl, of env envelope m st])
       (simp_all add: assms(1) services_good_upsert published_aligned [OF idx assms(2,3)])
qed

lemma services_good_health_report:
  "services_good (bs_services st) \<Longrightarrow> services_good (bs_services (handle_health_report env envelope h st))"
  by (auto simp: handle_health_report_def Let_def services_good_health split: option.split)

lemma services_good_routes [simp]:
  "bs_services (snd (handle_assign env envelope a st)) = bs_services st"
  "bs_services (snd (handle_revoke envelope i st)) = bs_services st"
  by (auto simp: handle_assign_def handle_revoke_def Let_def case_prod_unfold split: option.split sum.split)

end
