(* ===== verification/Tunnel_Reports.thy ===== *)
theory Tunnel_Reports
  imports Bridge_Lifecycle "HOL-Library.Sublist"
begin

text \<open>
  The reports that an agent sends of its tunnel pool, and the bridge's decision to ask for more
  tunnels (\<open>cloud-bridge/runtime/bridge/control/refill_controller.go\<close> and
  \<open>tunnel_report_handler.go\<close>). The handler works on the \<open>bridge_state\<close> of
  \<open>Bridge_Lifecycle\<close> with all its dependencies present.
\<close>

section \<open>The refill controller\<close>

record refill_controller_config =
  fc_TriggerThreshold :: int
  fc_RequestCooldown :: duration
  fc_MinRequestDelta :: int
  fc_MaxRequestDelta :: int

definition normalize_refill_controller_config :: "refill_controller_config \<Rightarrow> refill_controller_config" where
  "normalize_refill_controller_config c =
     (let threshold = (if fc_TriggerThreshold c < 0 then 0 else fc_TriggerThreshold c);
          threshold = (if threshold = 0 then 2 else threshold);
          cooldown = (if fc_RequestCooldown c \<le> 0 then 600000000 else fc_RequestCooldown c);
          least = (if fc_MinRequestDelta c \<le> 0 then 1 else fc_MinRequestDelta c);
          most = (if fc_MaxRequestDelta c \<le> 0 then 32 else fc_MaxRequestDelta c);
          most = (if most < least then least else most)
      in \<lparr>fc_TriggerThreshold = threshold, fc_RequestCooldown = cooldown, fc_MinRequestDelta = least,
          fc_MaxRequestDelta = most\<rparr>)"

record refill_request_state =
  RequestedAt :: gotime
  RequestedDelta :: int

record refill_controller =
  fctl_config :: refill_controller_config
  lastRequestByStream :: "(string, refill_request_state) gomap"

definition new_refill_controller :: "refill_controller_config \<Rightarrow> refill_controller" where
  "new_refill_controller c = \<lparr>fctl_config = normalize_refill_controller_config c, lastRequestByStream = []\<rparr>"

text \<open>The report as a control message: that of \<open>Bridge_Reports\<close> with the session it is about.\<close>

record session_pool_report = pool_report +
  pr_SessionID :: string
  pr_SessionEpoch :: "64 word"

record pb_refill_request =
  pq_session :: string
  pq_epoch :: "64 word"
  pq_request :: string
  pq_delta :: int
  pq_reason :: string
  pq_timestamp :: int
  pq_metadata :: labels

text \<open>Readings of the clock, and times as Unix seconds and nanoseconds (the latter as text).\<close>

record report_env =
  re_wall :: gotime
  re_now :: gotime
  re_requested_at :: gotime
  re_from_unix :: "int \<Rightarrow> gotime"
  re_unix :: "gotime \<Rightarrow> int"
  re_unix_nano_text :: "gotime \<Rightarrow> string"

definition contains :: "string \<Rightarrow> string \<Rightarrow> bool" where
  "contains s t = sublist t s"

definition resolve_refill_reason :: "string \<Rightarrow> string" where
  "resolve_refill_reason trigger =
     (let t = trim_space (to_lower trigger)
      in if contains t ''acquire_timeout'' then ''acquire_timeout''
         else if contains t ''startup'' then ''startup''
         else if contains t ''manual'' then ''manual'' else ''low_watermark'')"

definition allow_request :: "string \<Rightarrow> int \<Rightarrow> gotime \<Rightarrow> refill_controller \<Rightarrow> bool \<times> refill_controller" where
  "allow_request stream delta requested_at ctl =
     (if (case map_of (lastRequestByStream ctl) stream of
            None \<Rightarrow> False
          | Some previous \<Rightarrow> time_sub requested_at (RequestedAt previous) < fc_RequestCooldown (fctl_config ctl)
                        \<and> delta \<le> RequestedDelta previous)
      then (False, ctl)
      else (True, ctl\<lparr>lastRequestByStream :=
              map_put stream \<lparr>RequestedAt = requested_at, RequestedDelta = delta\<rparr> (lastRequestByStream ctl)\<rparr>))"

definition requested_idle_delta :: "refill_controller_config \<Rightarrow> int \<Rightarrow> int" where
  "requested_idle_delta c missing =
     (let d = (if missing < fc_MinRequestDelta c then fc_MinRequestDelta c else missing)
      in if d > fc_MaxRequestDelta c then fc_MaxRequestDelta c else d)"

definition replace_spaces :: "string \<Rightarrow> string" where
  "replace_spaces = map (\<lambda>c. if c = CHR '' '' then CHR ''_'' else c)"

definition build_refill_request ::
    "report_env \<Rightarrow> string \<Rightarrow> 64 word \<Rightarrow> session_pool_report \<Rightarrow> refill_controller
       \<Rightarrow> pb_refill_request option \<times> refill_controller" where
  "build_refill_request env raw_session epoch report ctl =
     (let session = trim_space raw_session; target = pr_TargetIdleCount report;
          in_use = (if pr_InUseCount report < 0 then 0 else pr_InUseCount report);
          trigger = to_lower (trim_space (pr_Trigger report));
          idle = (if pr_IdleCount report < 0 then 0 else pr_IdleCount report)
      in if session = [] \<or> epoch = 0 then (None, ctl)
         else if target \<le> 0 then (None, ctl)
         else if contains trigger ''session_active'' then (None, ctl)
         else if in_use = 0 \<and> \<not> contains trigger ''acquire_timeout'' then (None, ctl)
         else if idle > fc_TriggerThreshold (fctl_config ctl) then (None, ctl)
         else if target - idle \<le> 0 then (None, ctl)
         else
           let delta = requested_idle_delta (fctl_config ctl) (target - idle);
               stream = session @ '':'' @ show_nat (unat epoch); at = re_requested_at env;
               (allowed, ctl') = allow_request stream delta at ctl
           in if \<not> allowed then (None, ctl')
              else (Some \<lparr>pq_session = session, pq_epoch = epoch,
                          pq_request = ''refill-'' @ replace_spaces session @ ''-'' @ re_unix_nano_text env at,
                          pq_delta = delta, pq_reason = resolve_refill_reason (pr_Trigger report),
                          pq_timestamp = re_unix env at,
                          pq_metadata = [(''idle_count'', show_nat (nat idle)),
                            (''target_idle_count'', show_nat (nat target)),
                            (''trigger'', trim_space (pr_Trigger report))]\<rparr>, ctl'))"


section \<open>The handler of reports\<close>

definition report_session_valid :: "string \<Rightarrow> 64 word \<Rightarrow> bridge_state \<Rightarrow> bool" where
  "report_session_valid session epoch st \<longleftrightarrow>
     trim_space session \<noteq> [] \<and> epoch \<noteq> 0
     \<and> (case get_by_session session (bs_sessions st) of
          None \<Rightarrow> False | Some s \<Rightarrow> sr_epoch s = epoch \<and> sr_state s = SessionActive)"

definition snapshot_bridge_pool_by_session :: "string \<Rightarrow> tunnel_registry \<Rightarrow> nat \<times> nat" where
  "snapshot_bridge_pool_by_session raw_session reg =
     (let session = trim_space raw_session;
          own = filter (\<lambda>r. trim_space (bt_session r) = session) (list_tunnels reg)
      in if session = [] then (0, 0)
         else (length (filter (\<lambda>r. bt_state r = BridgeTunnelIdle) own),
               length (filter (\<lambda>r. bt_state r = BridgeTunnelReserved \<or> bt_state r = BridgeTunnelActive) own)))"

definition should_reconcile_bridge_idle :: "string \<Rightarrow> bool" where
  "should_reconcile_bridge_idle trigger \<longleftrightarrow> to_lower (trim_space trigger) = ''periodic''"

definition reconcile_bridge_idle ::
    "gotime \<Rightarrow> gotime \<Rightarrow> string \<Rightarrow> session_pool_report \<Rightarrow> tunnel_registry \<Rightarrow> nat \<times> tunnel_registry" where
  "reconcile_bridge_idle wall now raw_session report reg =
     (let session = trim_space raw_session;
          agent_idle = (if pr_IdleCount report < 0 then 0 else pr_IdleCount report);
          excess = int (fst (snapshot_bridge_pool_by_session session reg)) - agent_idle
      in if session = [] then (0, reg)
         else if excess \<le> 0 then (0, reg)
         else let (recycled, reg') = recycle_idle_by_session wall now session excess ''agent_pool_reconcile'' reg
              in (length recycled, reg'))"

definition handle_tunnel_report ::
    "report_env \<Rightarrow> control_envelope \<Rightarrow> session_pool_report \<Rightarrow> refill_controller \<Rightarrow> bridge_state
       \<Rightarrow> pb_refill_request option \<times> refill_controller \<times> bridge_state" where
  "handle_tunnel_report env envelope report ctl st =
     (let session = (if trim_space (pr_SessionID report) = [] then trim_space (SessionID envelope)
                     else trim_space (pr_SessionID report));
          epoch = (if pr_SessionEpoch report = 0 then SessionEpoch envelope else pr_SessionEpoch report)
      in if \<not> report_session_valid session epoch st then (None, ctl, st)
         else
           let connector = (if trim_space (ConnectorID envelope) \<noteq> [] then trim_space (ConnectorID envelope)
                            else case get_by_session session (bs_sessions st) of
                                   None \<Rightarrow> [] | Some s \<Rightarrow> trim_space (sr_connector s));
               st1 = st\<lparr>bs_reports := upsert_report (re_from_unix env) (re_wall env) (re_now env) connector session epoch
                          (pool_report.truncate report) (bs_reports st)\<rparr>;
               (recycled, tunnels) =
                 (if should_reconcile_bridge_idle (pr_Trigger report)
                  then reconcile_bridge_idle (re_wall env) (re_now env) session report (bs_tunnels st1)
                  else (0, bs_tunnels st1));
               st2 = st1\<lparr>bs_tunnels := tunnels\<rparr>;
               (request, ctl') = build_refill_request env session epoch report ctl
           in case request of
                None \<Rightarrow> (None, ctl', st2)
              | Some q \<Rightarrow>
                  let (idle, in_use) = snapshot_bridge_pool_by_session session tunnels
                  in (Some (q\<lparr>pq_metadata := map_put ''bridge_idle_recycled_count'' (show_nat recycled)
                                (map_put ''bridge_in_use_count'' (show_nat in_use)
                                  (map_put ''bridge_idle_count'' (show_nat idle) (pq_metadata q)))\<rparr>), ctl', st2))"


section \<open>Properties\<close>

definition refill_config_valid :: "refill_controller_config \<Rightarrow> bool" where
  "refill_config_valid c \<longleftrightarrow> 0 < fc_TriggerThreshold c \<and> 0 < fc_RequestCooldown c \<and> 0 < fc_MinRequestDelta c
     \<and> fc_MinRequestDelta c \<le> fc_MaxRequestDelta c"

lemma normalized_refill_config_valid: "refill_config_valid (normalize_refill_controller_config c)"
  by (simp add: refill_config_valid_def normalize_refill_controller_config_def Let_def)

lemma requested_idle_delta_bounds:
  "refill_config_valid c \<Longrightarrow> fc_MinRequestDelta c \<le> requested_idle_delta c d \<and> requested_idle_delta c d \<le> fc_MaxRequestDelta c"
  by (auto simp: refill_config_valid_def requested_idle_delta_def Let_def)

lemma allow_request_config [simp]: "fctl_config (snd (allow_request s d t ctl)) = fctl_config ctl"
  by (simp add: allow_request_def)

lemma build_refill_request_Some:
  assumes "build_refill_request env session epoch report ctl = (Some q, ctl')"
  shows "pq_session q = trim_space session \<and> pq_epoch q = epoch
    \<and> pq_delta q = requested_idle_delta (fctl_config ctl) (pr_TargetIdleCount report - max 0 (pr_IdleCount report))
    \<and> max 0 (pr_IdleCount report) \<le> fc_TriggerThreshold (fctl_config ctl)
    \<and> max 0 (pr_IdleCount report) < pr_TargetIdleCount report"
  using assms
  by (auto simp: build_refill_request_def Let_def case_prod_unfold split: if_splits)

text \<open>
  The bridge asks for tunnels only for the active session that the report is about, with its
  current epoch, when the agent has at most the threshold of idle tunnels and fewer than it wants;
  and the number it asks for is between the configured bounds.
\<close>

theorem refill_requests_are_bounded:
  assumes "fctl_config ctl = normalize_refill_controller_config c"
    and "handle_tunnel_report env envelope report ctl st = (Some q, ctl', st')"
  shows "(\<exists>s. get_by_session (pq_session q) (bs_sessions st) = Some s \<and> sr_epoch s = pq_epoch q \<and> sr_state s = SessionActive)
    \<and> max 0 (pr_IdleCount report) \<le> fc_TriggerThreshold (fctl_config ctl)
    \<and> max 0 (pr_IdleCount report) < pr_TargetIdleCount report
    \<and> fc_MinRequestDelta (fctl_config ctl) \<le> pq_delta q \<and> pq_delta q \<le> fc_MaxRequestDelta (fctl_config ctl)
    \<and> 0 < pq_delta q"
proof -
  have ok: "refill_config_valid (fctl_config ctl)" using assms(1) normalized_refill_config_valid by simp
  define session where "session = (if trim_space (pr_SessionID report) = [] then trim_space (SessionID envelope)
      else trim_space (pr_SessionID report))"
  define epoch where "epoch = (if pr_SessionEpoch report = 0 then SessionEpoch envelope else pr_SessionEpoch report)"
  have trim: "trim_space session = session" by (simp add: session_def)
  have valid: "report_session_valid session epoch st"
    using assms(2) by (auto simp: handle_tunnel_report_def Let_def session_def [symmetric] epoch_def [symmetric] split: if_splits)
  then have active: "\<exists>s. get_by_session session (bs_sessions st) = Some s \<and> sr_epoch s = epoch \<and> sr_state s = SessionActive"
    by (auto simp: report_session_valid_def split: option.splits)
  define b where "b = build_refill_request env session epoch report ctl"
  have "\<exists>q0. fst b = Some q0 \<and> pq_delta q = pq_delta q0 \<and> pq_session q = pq_session q0 \<and> pq_epoch q = pq_epoch q0"
    using assms(2) valid
    by (auto simp: handle_tunnel_report_def Let_def session_def [symmetric] epoch_def [symmetric] b_def [symmetric]
        case_prod_unfold split: option.splits)
  then obtain q0 where "build_refill_request env session epoch report ctl = (Some q0, snd b)"
      "pq_delta q = pq_delta q0" "pq_session q = pq_session q0" "pq_epoch q = pq_epoch q0"
    unfolding b_def by (metis prod.collapse)
  with build_refill_request_Some [OF this(1)] active trim requested_idle_delta_bounds [OF ok] ok show ?thesis
    by (auto simp: refill_config_valid_def intro: less_le_trans)
qed

text \<open>The requests of one stream, in the order of the reports, and those that are let through.\<close>

fun allowed_requests :: "string \<Rightarrow> (gotime \<times> int) list \<Rightarrow> refill_controller \<Rightarrow> (gotime \<times> int) list" where
  "allowed_requests stream [] ctl = []"
| "allowed_requests stream (r # rs) ctl =
     (let (allowed, ctl') = allow_request stream (snd r) (fst r) ctl
      in (if allowed then [r] else []) @ allowed_requests stream rs ctl')"

lemma allowed_requests_sub: "set (allowed_requests stream rs ctl) \<subseteq> set rs"
  by (induction rs arbitrary: ctl) (fastforce simp: Let_def case_prod_unfold)+

lemma allowed_requests_spaced:
  assumes "0 < cooldown" "cooldown \<le> max_int64" "sorted (map fst rs)" "fc_RequestCooldown (fctl_config ctl) = cooldown"
  shows "sorted_wrt (\<lambda>a b. fst b - fst a < cooldown \<longrightarrow> snd a < snd b) (allowed_requests stream rs ctl)
    \<and> (\<forall>prev. map_of (lastRequestByStream ctl) stream = Some prev \<and> (\<forall>r \<in> set rs. RequestedAt prev \<le> fst r) \<longrightarrow>
         (\<forall>b \<in> set (allowed_requests stream rs ctl). fst b - RequestedAt prev < cooldown \<longrightarrow> RequestedDelta prev < snd b))"
  using assms(3,4)
proof (induction rs arbitrary: ctl)
  case (Cons r rs)
  have sub: "time_sub (fst r) t < cooldown \<longleftrightarrow> fst r - t < cooldown" for t
    using assms(1,2) by (intro time_sub_less) (simp_all add: min_int64_def)
  define ctl' where "ctl' = snd (allow_request stream (snd r) (fst r) ctl)"
  have cd: "fc_RequestCooldown (fctl_config ctl') = cooldown" using Cons.prems(2) by (simp add: ctl'_def)
  have sorted: "sorted (map fst rs)" and later: "\<forall>x \<in> set rs. fst r \<le> fst x" using Cons.prems(1) by auto
  note ih = Cons.IH [OF sorted cd]
  show ?case
  proof (cases "fst (allow_request stream (snd r) (fst r) ctl)")
    case False
    then have "ctl' = ctl" by (auto simp: ctl'_def allow_request_def split: if_splits)
    with False ih show ?thesis by (simp add: Let_def case_prod_unfold ctl'_def [symmetric])
  next
    case True
    have last: "map_of (lastRequestByStream ctl') stream = Some \<lparr>RequestedAt = fst r, RequestedDelta = snd r\<rparr>"
      using True by (auto simp: ctl'_def allow_request_def split: if_splits)
    have ih1: "sorted_wrt (\<lambda>a b. fst b - fst a < cooldown \<longrightarrow> snd a < snd b) (allowed_requests stream rs ctl')"
      and ih2: "\<And>b. b \<in> set (allowed_requests stream rs ctl') \<Longrightarrow> fst b - fst r < cooldown \<Longrightarrow> snd r < snd b"
      using ih last later by simp_all
    have head: "RequestedDelta prev < snd r"
      if "map_of (lastRequestByStream ctl) stream = Some prev" "fst r - RequestedAt prev < cooldown" for prev
      using True that Cons.prems(2) sub by (auto simp: allow_request_def split: if_splits)
    have chain: "RequestedDelta prev < snd b"
      if p: "map_of (lastRequestByStream ctl) stream = Some prev" "RequestedAt prev \<le> fst r"
        and b: "b \<in> set (allowed_requests stream rs ctl')" "fst b - RequestedAt prev < cooldown" for prev b
    proof -
      have "fst r \<le> fst b" using b(1) allowed_requests_sub later by blast
      with b(2) p(2) have "fst r - RequestedAt prev < cooldown" "fst b - fst r < cooldown" by simp_all
      with head [OF p(1)] ih2 [OF b(1)] show ?thesis by simp
    qed
    have run: "allowed_requests stream (r # rs) ctl = r # allowed_requests stream rs ctl'"
      using True by (simp add: Let_def case_prod_unfold ctl'_def)
    show ?thesis unfolding run using ih1 ih2 head chain by auto
  qed
qed simp

text \<open>
  A stream of reports cannot flood the agent: in any time shorter than the cooldown, the
  requests that are let through for one session ask for more and more tunnels, so that there are at
  most as many of them as there are values between the bounds.
\<close>

theorem refill_burst_is_bounded:
  assumes "refill_config_valid (fctl_config ctl)" "fc_RequestCooldown (fctl_config ctl) \<le> max_int64"
    and "sorted (map fst rs)"
    and "\<forall>r \<in> set rs. \<exists>missing. snd r = requested_idle_delta (fctl_config ctl) missing"
  shows "int (length (filter (\<lambda>r. t \<le> fst r \<and> fst r < t + fc_RequestCooldown (fctl_config ctl)) (allowed_requests stream rs ctl)))
    \<le> fc_MaxRequestDelta (fctl_config ctl) - fc_MinRequestDelta (fctl_config ctl) + 1"
proof -
  let ?c = "fctl_config ctl" and ?xs = "filter (\<lambda>r. t \<le> fst r \<and> fst r < t + fc_RequestCooldown (fctl_config ctl))
      (allowed_requests stream rs ctl)"
  have "sorted_wrt (\<lambda>a b. fst b - fst a < fc_RequestCooldown ?c \<longrightarrow> snd a < snd b) (allowed_requests stream rs ctl)"
    using allowed_requests_spaced [of "fc_RequestCooldown ?c" rs ctl stream] assms(1-3) by (simp add: refill_config_valid_def)
  then have "sorted_wrt (\<lambda>a b. fst b - fst a < fc_RequestCooldown ?c \<longrightarrow> snd a < snd b) ?xs" by (rule sorted_wrt_filter)
  then have "sorted_wrt (\<lambda>a b. snd a < snd b) ?xs" by (rule sorted_wrt_mono_rel [rotated]) auto
  then have "distinct (map snd ?xs)" by (simp add: sorted_wrt_map [symmetric] strict_sorted_iff)
  moreover have "set (map snd ?xs) \<subseteq> {fc_MinRequestDelta ?c..fc_MaxRequestDelta ?c}"
  proof
    fix d assume "d \<in> set (map snd ?xs)"
    then obtain r where "r \<in> set rs" "d = snd r" using allowed_requests_sub by fastforce
    with assms(4) requested_idle_delta_bounds [OF assms(1)] show "d \<in> {fc_MinRequestDelta ?c..fc_MaxRequestDelta ?c}" by auto
  qed
  ultimately have "length (map snd ?xs) \<le> card {fc_MinRequestDelta ?c..fc_MaxRequestDelta ?c}"
    by (metis distinct_card card_mono finite_atLeastAtMost_int)
  then show ?thesis using assms(1) by (simp add: refill_config_valid_def le_nat_iff)
qed


definition sample_pool_report :: session_pool_report where
  "sample_pool_report = \<lparr>pr_IdleCount = 0, pr_InUseCount = 1, pr_TargetIdleCount = 4, pr_Trigger = [], pr_TimestampUnix = 0,
     pr_SessionID = ''s'', pr_SessionEpoch = 1\<rparr>"

definition default_refill_controller :: refill_controller where
  "default_refill_controller = new_refill_controller \<lparr>fc_TriggerThreshold = 0, fc_RequestCooldown = 0, fc_MinRequestDelta = 0,
     fc_MaxRequestDelta = 0\<rparr>"

definition sample_report_env :: report_env where
  "sample_report_env = \<lparr>re_wall = 1, re_now = 1, re_requested_at = 1, re_from_unix = (\<lambda>s. s), re_unix = (\<lambda>t. t),
     re_unix_nano_text = (\<lambda>t. ''1'')\<rparr>"

definition sample_active_state :: bridge_state where
  "sample_active_state = (new_bridge_state 8)\<lparr>bs_sessions := \<lparr>bySessionID =
     [(''s'', (sample_session_runtime ''s'' 1)\<lparr>sr_state := SessionActive\<rparr>)], byConnector = [(''c'', ''s'')]\<rparr>\<rparr>"

lemma default_refill_config:
  "fctl_config default_refill_controller
     = \<lparr>fc_TriggerThreshold = 2, fc_RequestCooldown = 600000000, fc_MinRequestDelta = 1, fc_MaxRequestDelta = 32\<rparr>"
  by (simp add: default_refill_controller_def new_refill_controller_def normalize_refill_controller_config_def)

theorem refill_requests_are_bounded_witness:
  "\<exists>q ctl' st'. handle_tunnel_report sample_report_env sample_envelope sample_pool_report default_refill_controller
      sample_active_state = (Some q, ctl', st') \<and> 0 < pq_delta q \<and> pq_delta q \<le> 32"
proof -
  let ?r = "handle_tunnel_report sample_report_env sample_envelope sample_pool_report default_refill_controller sample_active_state"
  have "fst ?r \<noteq> None"
    by (simp add: handle_tunnel_report_def sample_pool_report_def default_refill_controller_def sample_report_env_def
        sample_active_state_def sample_envelope_def trim_report_ids report_session_valid_def get_by_session_def
        new_bridge_state_def sample_session_runtime_def build_refill_request_def new_refill_controller_def
        normalize_refill_controller_config_def contains_def allow_request_def Let_def case_prod_unfold
        should_reconcile_bridge_idle_def)
  then obtain q ctl' st' where r: "?r = (Some q, ctl', st')" by (metis option.collapse prod.collapse)
  have "fctl_config default_refill_controller = normalize_refill_controller_config
      \<lparr>fc_TriggerThreshold = 0, fc_RequestCooldown = 0, fc_MinRequestDelta = 0, fc_MaxRequestDelta = 0\<rparr>"
    by (simp add: default_refill_controller_def new_refill_controller_def)
  from refill_requests_are_bounded [OF this r] r show ?thesis by (simp add: default_refill_config)
qed

theorem refill_burst_is_bounded_witness:
  "length (filter (\<lambda>r. 0 \<le> fst r \<and> fst r < 600000000) (allowed_requests ''s:1'' [(0, 4), (1, 4), (2, 6)] default_refill_controller)) \<le> 32
   \<and> allowed_requests ''s:1'' [(0, 4), (1, 4), (2, 6)] default_refill_controller = [(0, 4), (2, 6)]"
proof -
  let ?c = "fctl_config default_refill_controller"
  have "requested_idle_delta ?c 4 = 4" "requested_idle_delta ?c 6 = 6"
    by (simp_all add: requested_idle_delta_def default_refill_config)
  then have "\<exists>missing. 4 = requested_idle_delta ?c missing" "\<exists>missing. 6 = requested_idle_delta ?c missing" by metis+
  then have "\<forall>r \<in> set [(0, 4), (1, 4), (2, 6)]. \<exists>missing. snd r = requested_idle_delta ?c missing" by simp
  moreover have "refill_config_valid ?c" "fc_RequestCooldown ?c \<le> max_int64"
    by (simp_all add: default_refill_config refill_config_valid_def max_int64_def)
  moreover have "sorted (map fst [(0::int, 4::int), (1, 4), (2, 6)])" by simp
  ultimately have "int (length (filter (\<lambda>r. 0 \<le> fst r \<and> fst r < 0 + fc_RequestCooldown ?c)
      (allowed_requests ''s:1'' [(0, 4), (1, 4), (2, 6)] default_refill_controller)))
    \<le> fc_MaxRequestDelta ?c - fc_MinRequestDelta ?c + 1"
    by (intro refill_burst_is_bounded)
  moreover have "allowed_requests ''s:1'' [(0, 4), (1, 4), (2, 6)] default_refill_controller = [(0, 4), (2, 6)]"
    by (simp add: default_refill_controller_def new_refill_controller_def normalize_refill_controller_config_def allow_request_def
         time_sub_def min_int64_def max_int64_def)
  ultimately show ?thesis by (simp add: default_refill_config)
qed

end
