(* ===== verification/Control_Dispatch.thy ===== *)
theory Control_Dispatch
  imports Control_Connection Service_Links Tunnel_Reports Control_Queue
begin

text \<open>
  The dispatcher of the control plane (\<open>cloud-bridge/runtime/bridge/app/control_plane.go\<close>): one
  control frame of a connection, from decoding to the reply. \<open>encoding/json\<close> is the record
  \<open>control_codec\<close>; the readings of the clock and the generated identifiers are \<open>dispatch_env\<close>.
  Logging and metrics are not modelled.
\<close>

section \<open>Messages and their codec\<close>

record connector_hello =
  hl_connector :: string
  hl_bindings :: "string list"

record connector_welcome =
  cw_binding :: string
  cw_major :: "32 word"
  cw_minor :: "32 word"
  cw_heartbeat :: "32 word"
  cw_epoch :: "64 word"
  cw_tls :: string

record connector_auth =
  cn_method :: string
  cn_token :: string

record auth_ack_payload = connector_auth_ack +
  aa_code :: string
  aa_message :: string

text \<open>\<open>json.Unmarshal\<close> into each kind of payload and \<open>json.Marshal\<close> of each; \<open>None\<close> is a failure.\<close>

record control_codec =
  jc_envelope :: "byte list \<Rightarrow> chain_err + control_envelope"
  jc_hello :: "byte list \<Rightarrow> connector_hello option"
  jc_auth :: "byte list \<Rightarrow> connector_auth option"
  jc_auth_ack :: "byte list \<Rightarrow> connector_auth_ack option"
  jc_heartbeat :: "byte list \<Rightarrow> pb_session_state option"
  jc_publish :: "byte list \<Rightarrow> publish_service option"
  jc_unpublish :: "byte list \<Rightarrow> unpublish_service option"
  jc_health :: "byte list \<Rightarrow> health_report option"
  jc_report :: "byte list \<Rightarrow> session_pool_report option"
  jc_assign :: "byte list \<Rightarrow> route_assign option"
  jc_revoke :: "byte list \<Rightarrow> string option"
  jm_envelope :: "control_envelope \<Rightarrow> chain_err + byte list"
  jm_welcome :: "connector_welcome \<Rightarrow> byte list option"
  jm_auth_ack :: "auth_ack_payload \<Rightarrow> byte list option"
  jm_ack :: "resource_ack \<Rightarrow> string list \<Rightarrow> byte list option"
  jm_refill :: "pb_refill_request \<Rightarrow> byte list option"

record 's dispatch_env =
  de_codec :: control_codec
  de_handler :: handler_env
  de_report :: report_env
  de_auth :: "'s auth_env"
  de_wall :: gotime
  de_now :: gotime
  de_guard_now :: gotime
  de_failure_now :: gotime
  de_event_id :: string

record dispatcher =
  d_bridge :: bridge_state
  d_refill :: refill_controller
  d_guard :: handshake_guard
  d_auth :: auth_coordinator
  d_tls_mode :: string


section \<open>Replies\<close>

definition or_version :: "32 word \<Rightarrow> 32 word \<Rightarrow> 32 word" where
  "or_version v d = (if v = 0 then d else v)"

definition marshal_failed :: chain_err where "marshal_failed = PlainError ''marshal payload failed''"

definition decode_control_payload :: "(byte list \<Rightarrow> 'm option) \<Rightarrow> byte list \<Rightarrow> chain_err + 'm" where
  "decode_control_payload decode payload =
     (if payload = [] then Inl (PlainError ''control payload is empty'')
      else case decode payload of None \<Rightarrow> Inl (PlainError ''decode control payload failed'') | Some m \<Rightarrow> Inr m)"

definition build_ack_envelope ::
    "control_codec \<Rightarrow> control_envelope \<Rightarrow> control_message_type \<Rightarrow> resource_ack \<Rightarrow> string list \<Rightarrow> chain_err + control_envelope" where
  "build_ack_envelope codec request t ack warnings =
     (case jm_ack codec ack warnings of
        None \<Rightarrow> Inl marshal_failed
      | Some payload \<Rightarrow>
          Inr \<lparr>VersionMajor = or_version (VersionMajor request) 2, VersionMinor = or_version (VersionMinor request) 1,
               MessageType = t, RequestID = RequestID request, SessionID = SessionID request,
               SessionEpoch = SessionEpoch request, ConnectorID = ConnectorID request, ResourceType = ResourceType request,
               ResourceID = ResourceID request, EventID = EventID request,
               ResourceVersion = (if ack_current_version ack = 0 then ResourceVersion request else ack_current_version ack),
               EnvelopePayload = payload\<rparr>)"

definition build_connector_welcome_envelope ::
    "control_codec \<Rightarrow> control_envelope \<Rightarrow> string \<Rightarrow> connector_welcome \<Rightarrow> chain_err + control_envelope" where
  "build_connector_welcome_envelope codec request connector welcome =
     (case jm_welcome codec welcome of
        None \<Rightarrow> Inl marshal_failed
      | Some payload \<Rightarrow>
          Inr \<lparr>VersionMajor = or_version (VersionMajor request) 2, VersionMinor = or_version (VersionMinor request) 1,
               MessageType = ''ConnectorWelcome'', RequestID = RequestID request, SessionID = [], SessionEpoch = 0,
               ConnectorID = trim_space connector, ResourceType = [], ResourceID = [], EventID = [], ResourceVersion = 0,
               EnvelopePayload = payload\<rparr>)"

definition build_connector_auth_ack_envelope ::
    "control_codec \<Rightarrow> control_envelope \<Rightarrow> bool \<Rightarrow> string \<Rightarrow> 64 word \<Rightarrow> string \<Rightarrow> string \<Rightarrow> chain_err + control_envelope" where
  "build_connector_auth_ack_envelope codec request success session epoch code msg =
     (case jm_auth_ack codec \<lparr>aa_success = success, aa_session = trim_space session, aa_epoch = epoch,
              aa_code = trim_space code, aa_message = trim_space msg\<rparr> of
        None \<Rightarrow> Inl marshal_failed
      | Some payload \<Rightarrow>
          Inr \<lparr>VersionMajor = or_version (VersionMajor request) 2, VersionMinor = or_version (VersionMinor request) 1,
               MessageType = ''ConnectorAuthAck'', RequestID = RequestID request, SessionID = trim_space session,
               SessionEpoch = epoch, ConnectorID = trim_space (ConnectorID request), ResourceType = [], ResourceID = [],
               EventID = [], ResourceVersion = 0, EnvelopePayload = payload\<rparr>)"

definition build_tunnel_refill_envelope ::
    "control_codec \<Rightarrow> string \<Rightarrow> control_envelope \<Rightarrow> pb_refill_request \<Rightarrow> chain_err + control_envelope" where
  "build_tunnel_refill_envelope codec event request q =
     (case jm_refill codec q of
        None \<Rightarrow> Inl marshal_failed
      | Some payload \<Rightarrow>
          Inr \<lparr>VersionMajor = or_version (VersionMajor request) 2, VersionMinor = or_version (VersionMinor request) 1,
               MessageType = ''TunnelRefillRequest'', RequestID = pq_request q, SessionID = pq_session q,
               SessionEpoch = pq_epoch q, ConnectorID = ConnectorID request, ResourceType = ''tunnel_pool'',
               ResourceID = ''default'', EventID = event, ResourceVersion = ResourceVersion request,
               EnvelopePayload = payload\<rparr>)"


section \<open>Handshake\<close>

definition allocate_assigned_session_epoch :: "string \<Rightarrow> bridge_state \<Rightarrow> 64 word" where
  "allocate_assigned_session_epoch connector st =
     (let c = trim_space connector
      in if c = [] then 1
         else case get_by_connector c (bs_sessions st) of None \<Rightarrow> 1 | Some s \<Rightarrow> sr_epoch s + 1)"

definition default_welcome_binding :: string where "default_welcome_binding = ''tcp_framed''"

definition select_welcome_binding :: "string list \<Rightarrow> string \<Rightarrow> string" where
  "select_welcome_binding supported preferred =
     (let p = trim_space preferred; named = filter (\<lambda>b. b \<noteq> []) (map trim_space supported)
      in if preferred \<noteq> [] \<and> p \<in> trim_space ` set supported then p
         else case named of [] \<Rightarrow> default_welcome_binding | b # bs \<Rightarrow> b)"

text \<open>The checks of a Hello: a refusal, or the connector.\<close>

definition check_hello :: "control_codec \<Rightarrow> control_envelope \<Rightarrow> (string \<times> string) + connector_hello" where
  "check_hello codec envelope =
     (case decode_control_payload (jc_hello codec) (EnvelopePayload envelope) of
        Inl e \<Rightarrow> Inl (auth_error_internal, ''decode connector hello payload failed'')
      | Inr hello \<Rightarrow>
          let c = trim_space (hl_connector hello); named = trim_space (ConnectorID envelope)
          in if c = [] then Inl (auth_error_internal, ''invalid connector hello payload'')
             else if named \<noteq> [] \<and> named \<noteq> c
             then Inl (auth_error_connector_mismatch, ''connector_id mismatch between envelope and hello payload'')
             else Inr hello)"

definition handle_connector_hello ::
    "'s dispatch_env \<Rightarrow> control_envelope \<Rightarrow> channel_state \<times> dispatcher
       \<Rightarrow> (chain_err + control_envelope) \<times> channel_state \<times> dispatcher" where
  "handle_connector_hello env envelope = (\<lambda>(ch, d).
     (let codec = de_codec env; reject = build_connector_auth_ack_envelope codec envelope False [] 0
      in case check_hello codec envelope of
           Inl (code, msg) \<Rightarrow> (reject code msg, ch, d)
         | Inr hello \<Rightarrow>
             let c = trim_space (hl_connector hello);
                 ((allowed, dimension), g) = allow_hello (de_guard_now env) (trim_space (ch_source ch)) c (d_guard d);
                 d1 = d\<lparr>d_guard := g\<rparr>
             in if \<not> allowed then (reject ''auth_rate_limited'' ''authentication rejected'', ch, d1)
                else
                  let epoch = allocate_assigned_session_epoch c (d_bridge d1); ch1 = set_hello_context c epoch ch
                  in (build_connector_welcome_envelope codec envelope c
                        \<lparr>cw_binding = select_welcome_binding (hl_bindings hello) (ch_binding ch1),
                         cw_major = VersionMajor envelope, cw_minor = VersionMinor envelope, cw_heartbeat = 5,
                         cw_epoch = epoch, cw_tls = trim_space (d_tls_mode d1)\<rparr>,
                      ch1, d1)))"

text \<open>The checks of an authentication before the guard is asked.\<close>

definition check_auth :: "control_codec \<Rightarrow> control_envelope \<Rightarrow> channel_state \<Rightarrow> (string \<times> string) + string \<times> connector_auth" where
  "check_auth codec envelope ch =
     (if \<not> ch_hello ch then Inl (auth_error_internal, ''connector_welcome is required before connector_auth'')
      else case decode_control_payload (jc_auth codec) (EnvelopePayload envelope) of
             Inl e \<Rightarrow> Inl (auth_error_internal, ''decode connector auth payload failed'')
           | Inr auth \<Rightarrow>
               let c = trim_space (ch_connector ch); named = trim_space (ConnectorID envelope)
               in if c = [] then Inl (auth_error_connector_mismatch, ''connector_id is missing in handshake context'')
                  else if named \<noteq> [] \<and> named \<noteq> c
                  then Inl (auth_error_connector_mismatch, ''connector_id mismatch between hello and auth'')
                  else Inr (c, auth))"

definition auth_request_of :: "channel_state \<Rightarrow> string \<Rightarrow> connector_auth \<Rightarrow> auth_request" where
  "auth_request_of ch c auth =
     \<lparr>aq_connector = c, aq_epoch = ch_assigned ch, aq_method = cn_method auth, aq_token = cn_token auth\<rparr>"

definition handle_connector_auth ::
    "'s dispatch_env \<Rightarrow> control_envelope \<Rightarrow> channel_state \<times> dispatcher
       \<Rightarrow> (chain_err + control_envelope) \<times> channel_state \<times> dispatcher" where
  "handle_connector_auth env envelope = (\<lambda>(ch, d).
     (let codec = de_codec env; reject = build_connector_auth_ack_envelope codec envelope False [] 0
      in case check_auth codec envelope ch of
           Inl (code, msg) \<Rightarrow> (reject code msg, ch, d)
         | Inr (c, auth) \<Rightarrow>
             let source = trim_space (ch_source ch);
                 (ban, g1) = is_auth_banned (de_guard_now env) source c (d_guard d)
             in if ban \<noteq> None then (reject ''auth_rate_limited'' ''authentication rejected'', ch, d\<lparr>d_guard := g1\<rparr>)
                else
                  let (acquired, g2) = try_acquire_concurrency g1
                  in if \<not> acquired then (reject ''auth_rate_limited'' ''authentication rejected'', ch, d\<lparr>d_guard := g2\<rparr>)
                     else
                       let (r, ac, st) = authenticate_and_commit (de_auth env) (auth_request_of ch c auth)
                             (commit_handshake (de_wall env) (ch_binding ch) (ResourceVersion envelope)) (d_auth d, d_bridge d);
                           d1 = d\<lparr>d_auth := ac, d_bridge := st\<rparr>
                       in if \<not> ar_success r
                          then
                            let g3 = (if should_count_for_auth_failure_ban (ar_code r)
                                      then snd (record_auth_failure (de_failure_now env) source c g2) else g2);
                                (code, msg) = normalize_public_auth_reject (ar_code r) (ar_message r)
                            in (reject code msg, ch, d1\<lparr>d_guard := release_concurrency g3\<rparr>)
                          else
                            let ch1 = set_session (ar_session r) (ar_epoch r) ch;
                                (ch2, g3) = mark_session_authenticated ch1 g2
                            in (build_connector_auth_ack_envelope codec envelope True (ar_session r) (ar_epoch r) [] [],
                                ch2, d1\<lparr>d_guard := release_concurrency g3\<rparr>)))"


section \<open>Business messages\<close>

definition payload_of :: "(byte list \<Rightarrow> 'm option) \<Rightarrow> control_envelope \<Rightarrow> 'm option" where
  "payload_of decode envelope = (if EnvelopePayload envelope = [] then None else decode (EnvelopePayload envelope))"

text \<open>A message with an answer: its handler, then the acknowledgement around the envelope.\<close>

definition acknowledged ::
    "'s dispatch_env \<Rightarrow> control_envelope \<Rightarrow> control_message_type \<Rightarrow> (byte list \<Rightarrow> 'm option)
       \<Rightarrow> ('m \<Rightarrow> bridge_state \<Rightarrow> (resource_ack \<times> string list) \<times> bridge_state) \<Rightarrow> dispatcher
       \<Rightarrow> (chain_err + control_envelope option) \<times> dispatcher" where
  "acknowledged env envelope t decode handler d =
     (case decode_control_payload decode (EnvelopePayload envelope) of
        Inl e \<Rightarrow> (Inl e, d)
      | Inr m \<Rightarrow>
          let ((ack, warnings), st) = handler m (d_bridge d)
          in (case build_ack_envelope (de_codec env) envelope t ack warnings of Inl e \<Rightarrow> Inl e | Inr reply \<Rightarrow> Inr (Some reply),
              d\<lparr>d_bridge := st\<rparr>))"

definition no_warnings :: "resource_ack \<times> 'b \<Rightarrow> (resource_ack \<times> string list) \<times> 'b" where
  "no_warnings r = ((fst r, []), snd r)"

definition dispatch_envelope ::
    "'s dispatch_env \<Rightarrow> control_envelope \<Rightarrow> dispatcher \<Rightarrow> (chain_err + control_envelope option) \<times> dispatcher" where
  "dispatch_envelope env envelope d0 =
     (let codec = de_codec env; h = de_handler env; wall = de_wall env; now = de_now env; t = MessageType envelope;
          d = d0\<lparr>d_bridge := upsert_session_from_envelope wall now envelope (d_bridge d0)\<rparr>
      in if t = ''Heartbeat''
         then (Inr None, d\<lparr>d_bridge := handle_heartbeat wall now envelope (payload_of (jc_heartbeat codec) envelope) (d_bridge d)\<rparr>)
         else if t = ''PublishService''
         then acknowledged env envelope ''PublishServiceAck'' (jc_publish codec)
                (\<lambda>m st. no_warnings (handle_publish h envelope m st)) d
         else if t = ''UnpublishService''
         then acknowledged env envelope ''UnpublishServiceAck'' (jc_unpublish codec)
                (\<lambda>m st. no_warnings (handle_unpublish h envelope m st)) d
         else if t = ''ServiceHealthReport''
         then (case decode_control_payload (jc_health codec) (EnvelopePayload envelope) of
                 Inl e \<Rightarrow> (Inl e, d)
               | Inr m \<Rightarrow> (Inr None, d\<lparr>d_bridge := handle_health_report h envelope m (d_bridge d)\<rparr>))
         else if t = ''TunnelPoolReport''
         then (case decode_control_payload (jc_report codec) (EnvelopePayload envelope) of
                 Inl e \<Rightarrow> (Inl e, d)
               | Inr m \<Rightarrow>
                   let (request, ctl, st) = handle_tunnel_report (de_report env) envelope m (d_refill d) (d_bridge d);
                       d1 = d\<lparr>d_refill := ctl, d_bridge := st\<rparr>
                   in (case request of
                         None \<Rightarrow> Inr None
                       | Some q \<Rightarrow> (case build_tunnel_refill_envelope codec (de_event_id env) envelope q of
                                      Inl e \<Rightarrow> Inl e | Inr reply \<Rightarrow> Inr (Some reply)), d1))
         else if t = ''RouteAssign''
         then acknowledged env envelope ''RouteAssignAck'' (jc_assign codec) (\<lambda>m st. handle_assign h envelope m st) d
         else if t = ''RouteRevoke''
         then acknowledged env envelope ''RouteRevokeAck'' (jc_revoke codec)
                (\<lambda>m st. no_warnings (handle_revoke envelope m st)) d
         else if t = ''ConnectorAuthAck''
         then (Inr None, d\<lparr>d_bridge := apply_auth_ack_session wall now envelope (payload_of (jc_auth_ack codec) envelope) (d_bridge d)\<rparr>)
         else (Inr None, d))"


section \<open>One frame of a connection\<close>

definition frame_reply ::
    "control_codec \<Rightarrow> control_envelope \<Rightarrow> chain_err + (control_frame \<times> control_message_priority) option" where
  "frame_reply codec reply =
     (case encode_business_control_envelope_frame (jm_envelope codec) reply of
        Inl e \<Rightarrow> Inl e
      | Inr fr \<Rightarrow> Inr (Some (fr, recommend_control_frame_priority (Type fr))))"

definition refresh_heartbeat_from_state :: "gotime \<Rightarrow> channel_state \<Rightarrow> dispatcher \<Rightarrow> dispatcher" where
  "refresh_heartbeat_from_state now ch d =
     d\<lparr>d_bridge := refresh_session_heartbeat now (ch_session ch) (ch_epoch ch) (d_bridge d)\<rparr>"

text \<open>Errors end the connection; \<open>None\<close> is no reply.\<close>

definition handle_frame ::
    "'s dispatch_env \<Rightarrow> control_frame \<Rightarrow> channel_state \<times> dispatcher
       \<Rightarrow> (chain_err + (control_frame \<times> control_message_priority) option) \<times> channel_state \<times> dispatcher" where
  "handle_frame env fr = (\<lambda>(ch, d).
     (let codec = de_codec env; pong = \<lparr>Type = frame_type_heartbeat_pong, Payload = []\<rparr>
      in if Type fr = frame_type_heartbeat_ping
         then (Inr (Some (pong, recommend_control_frame_priority (Type pong))), ch, refresh_heartbeat_from_state (de_now env) ch d)
         else if Type fr = frame_type_heartbeat_pong
         then (Inr None, ch, refresh_heartbeat_from_state (de_now env) ch d)
         else case control_message_type_for_frame_type (Type fr) of
                Inl e \<Rightarrow> (Inr None, ch, d)
              | Inr t \<Rightarrow>
                  (case decode_business_control_envelope_frame (jc_envelope codec) fr of
                     Inl e \<Rightarrow> (Inl e, ch, d)
                   | Inr envelope \<Rightarrow>
                       if MessageType envelope = ''ConnectorHello'' \<or> MessageType envelope = ''ConnectorAuth''
                       then
                         let (reply, ch1, d1) = (if MessageType envelope = ''ConnectorHello''
                                                 then handle_connector_hello env envelope (ch, d)
                                                 else handle_connector_auth env envelope (ch, d))
                         in ((case reply of Inl e \<Rightarrow> Inl e | Inr r \<Rightarrow> frame_reply codec r), ch1, d1)
                       else if \<not> is_authenticated ch then (Inr None, ch, d)
                       else
                         let ch1 = (case resolve_envelope_session envelope (payload_of (jc_auth_ack codec) envelope) of
                                      None \<Rightarrow> ch | Some (sid, epoch) \<Rightarrow> set_session sid epoch ch);
                             (reply, d1) = dispatch_envelope env envelope d
                         in ((case reply of Inl e \<Rightarrow> Inl e | Inr None \<Rightarrow> Inr None | Inr (Some r) \<Rightarrow> frame_reply codec r), ch1, d1))))"


section \<open>A connection from its start to its end\<close>

definition open_connection :: "string \<Rightarrow> string \<Rightarrow> dispatcher \<Rightarrow> bool \<times> channel_state \<times> dispatcher" where
  "open_connection source binding d =
     (let ch = mark_control_ready (mark_connected (set_preferred_binding binding (new_channel_state source)));
          (ok, ch1, g) = reserve_connection ch (d_guard d)
      in (ok, ch1, d\<lparr>d_guard := g\<rparr>))"

text \<open>The deferred end; \<open>failed\<close> if the loop ended with an error other than of the context.\<close>

definition end_connection ::
    "gotime \<Rightarrow> gotime \<Rightarrow> bool \<Rightarrow> string \<Rightarrow> channel_state \<Rightarrow> dispatcher \<Rightarrow> channel_state \<times> dispatcher" where
  "end_connection wall now failed reason ch d =
     (let (ch1, g) = release_connection ch (d_guard d);
          (ch2, st) = (if failed then mark_session_failed_from_state wall now reason ch1 (d_bridge d)
                       else close_session_from_state wall now reason ch1 (d_bridge d))
      in (ch2, d\<lparr>d_guard := g, d_bridge := st\<rparr>))"

text \<open>
  What the loop meets: a cancelled or expired context, a failed read, a frame and the fate of the
  reply. An error is one that says the channel is closed, an expired deadline, or another one.
\<close>

datatype channel_err = ChannelClosed | DeadlineExpired | OtherChannelErr

datatype 's loop_input =
    ContextDone
  | ReadFailed channel_err
  | FrameRead "'s dispatch_env" control_frame "channel_err option"

text \<open>How the loop returns: without an error, with one of the context, or with another one.\<close>

datatype serve_result = ServeOk | ServeContextErr | ServeErr

definition read_result :: "channel_err \<Rightarrow> serve_result" where
  "read_result e = (case e of ChannelClosed \<Rightarrow> ServeOk | DeadlineExpired \<Rightarrow> ServeContextErr | OtherChannelErr \<Rightarrow> ServeErr)"

text \<open>\<open>None\<close>: the loop waits for more input.\<close>

fun serve_frames ::
    "'s loop_input list \<Rightarrow> channel_state \<times> dispatcher \<Rightarrow> serve_result option \<times> channel_state \<times> dispatcher" where
  "serve_frames [] s = (None, s)"
| "serve_frames (ContextDone # inputs) s = (Some ServeContextErr, s)"
| "serve_frames (ReadFailed e # inputs) s = (Some (read_result e), s)"
| "serve_frames (FrameRead env fr write # inputs) s =
     (case handle_frame env fr s of
        (Inl e, s') \<Rightarrow> (Some ServeErr, s')
      | (Inr None, s') \<Rightarrow> serve_frames inputs s'
      | (Inr (Some reply), s') \<Rightarrow>
          (case write of None \<Rightarrow> serve_frames inputs s' | Some e \<Rightarrow> (Some (read_result e), s')))"

definition control_channel_close_reason :: "string \<Rightarrow> string \<Rightarrow> string" where
  "control_channel_close_reason binding ending =
     (let s = (if trim_space ending = [] then ''closed'' else trim_space ending)
      in if binding = [] then ''control_channel_'' @ s else binding @ ''_control_channel_'' @ s)"

definition serve_control_channel ::
    "gotime \<Rightarrow> gotime \<Rightarrow> string \<Rightarrow> string \<Rightarrow> 's loop_input list \<Rightarrow> dispatcher \<Rightarrow> serve_result option \<times> channel_state \<times> dispatcher" where
  "serve_control_channel wall now source binding inputs d =
     (let (ok, ch, d1) = open_connection source binding d;
          (result, ch1, d2) = (if ok then serve_frames inputs (ch, d1) else (Some ServeOk, ch, d1))
      in case result of
           None \<Rightarrow> (None, ch1, d2)
         | Some r \<Rightarrow>
             let failed = (r = ServeErr)
             in (Some r, end_connection wall now failed
                   (control_channel_close_reason binding (if failed then ''failed'' else ''closed'')) ch1 d2))"
end
