(* ===== verification/Dispatch_Safety.thy ===== *)
theory Dispatch_Safety
  imports Control_Dispatch
begin

text \<open>
  What the dispatcher keeps: the invariants of the registries over every message, the fences around
  connections that are not authenticated, the exact account of their budget, and two gaps: an
  authenticated connection may speak for a session that is not its own, and the largest epoch
  locks its connector out.
\<close>

section \<open>The registries under the handlers\<close>

definition bridge_good :: "string set \<Rightarrow> bridge_state \<Rightarrow> bool" where
  "bridge_good K st \<longleftrightarrow> bridge_ok_but K st \<and> services_good (bs_services st)"

text \<open>The handlers of resources leave sessions, tunnels and reports alone.\<close>

definition keeps_connections :: "bridge_state \<Rightarrow> bridge_state \<Rightarrow> bool" where
  "keeps_connections st st' \<longleftrightarrow> bs_sessions st' = bs_sessions st \<and> bs_tunnels st' = bs_tunnels st \<and> bs_reports st' = bs_reports st"

lemma keeps_publish: "keeps_connections st (snd (handle_publish env envelope m st))"
  by (rule handle_publish_cases [OF refl, of env envelope m st]) (simp_all add: keeps_connections_def)

lemma keeps_apply_unpublish: "keeps_connections st (apply_unpublish sid i c s (st\<lparr>bs_guard := g\<rparr>))"
  by (simp add: keeps_connections_def apply_unpublish_def reconcile_auto_route_on_unpublish_def Let_def split: option.split)

lemma keeps_unpublish: "keeps_connections st (snd (handle_unpublish env envelope u st))"
  by (rule handle_unpublish_cases [of env envelope u st]) (simp_all add: keeps_connections_def keeps_apply_unpublish [unfolded keeps_connections_def])

lemma keeps_routes:
  "keeps_connections st (snd (handle_assign env envelope a st))" "keeps_connections st (snd (handle_revoke envelope i st))"
  by (auto simp: keeps_connections_def handle_assign_def handle_revoke_def Let_def case_prod_unfold split: option.split sum.split)

lemma keeps_health: "keeps_connections st (handle_health_report env envelope h st)"
  by (auto simp: keeps_connections_def handle_health_report_def Let_def split: option.split)

lemma bridge_ok_keeps: "keeps_connections st st' \<Longrightarrow> bridge_ok_but K st \<Longrightarrow> bridge_ok_but K st'"
  using bridge_ok_step [OF bridge_step.resources] by (simp add: keeps_connections_def)

lemma bridge_ok_tunnel_report:
  assumes "bridge_ok_but K st"
  shows "bridge_ok_but K (snd (snd (handle_tunnel_report env envelope report ctl st)))"
proof -
  have put: "bridge_ok_but K (s\<lparr>bs_reports := upsert_report u w n c i e r (bs_reports s)\<rparr>)" if "bridge_ok_but K s" for s u w n c i e r
    using bridge_ok_step [OF bridge_step.report_call [of s u "UpsertReport w n c i e r"] that] by simp
  have rec: "bridge_ok_but K (s\<lparr>bs_tunnels := snd (recycle_idle_by_session w n i l r (bs_tunnels s))\<rparr>)" if "bridge_ok_but K s" for s w n i l r
    using bridge_ok_step [OF bridge_step.tunnel_call [of "RecycleIdleBySession w n i l r" s] that] by simp
  have "bridge_ok_but K (s\<lparr>bs_tunnels := snd (reconcile_bridge_idle w n i report (bs_tunnels s))\<rparr>)" if "bridge_ok_but K s" for s w n i
    using rec [OF that] that by (simp add: reconcile_bridge_idle_def Let_def case_prod_unfold)
  from this [OF put]
  have "bridge_ok_but K (s\<lparr>bs_reports := upsert_report u w n c i e r (bs_reports s), bs_tunnels := snd (reconcile_bridge_idle w' n' i' report (bs_tunnels s))\<rparr>)"
    if "bridge_ok_but K s" for s u w n c i e r w' n' i' using that by simp
  note both = this
  have last: "snd (snd (case x of None \<Rightarrow> (a, b, s) | Some q \<Rightarrow> (f q, g q, s))) = s" for x a b s f g
    by (cases x) simp_all
  show ?thesis
    unfolding handle_tunnel_report_def Let_def case_prod_unfold
    by (simp only: if_distrib [of snd] last snd_conv) (simp add: put both assms)
qed

lemma tunnel_report_services [simp]:
  "bs_services (snd (snd (handle_tunnel_report env envelope report ctl st))) = bs_services st"
proof -
  have last: "snd (snd (case x of None \<Rightarrow> (a, b, s) | Some q \<Rightarrow> (f q, g q, s))) = s" for x a b s f g
    by (cases x) simp_all
  show ?thesis
    unfolding handle_tunnel_report_def Let_def case_prod_unfold
    by (simp only: if_distrib [of snd] last snd_conv) simp
qed


section \<open>Services under the life cycle of sessions\<close>

text \<open>What happens to services when sessions change: nothing, or instances are marked.\<close>

inductive marks :: "service_registry \<Rightarrow> service_registry \<Rightarrow> bool" where
  marks_refl: "marks reg reg"
| marks_mark: "marks reg reg' \<Longrightarrow> marks reg (snd (mark_lifecycle wall now c s st h reg'))"

lemma marks_good: "marks reg reg' \<Longrightarrow> services_good reg \<Longrightarrow> services_good reg'"
  by (induction rule: marks.induct) (simp_all add: services_good_mark)

lemma mark_keys: "map_of (instances (snd (mark_lifecycle wall now c s st h reg))) i = None \<longleftrightarrow> map_of (instances reg) i = None"
proof -
  have keys: "fst ` set (instances (fold recalculate_service sids reg)) = fst ` set (instances reg)" for sids reg
  proof (induction sids arbitrary: reg)
    case (Cons sid sids)
    have "fst ` set (instances (recalculate_service sid reg)) = fst ` set (instances reg)" for reg
      by (force simp: recalculate_service_def Let_def image_iff split: option.split)
    then show ?case using Cons by simp
  qed simp
  have "fst ` set (instances (snd (mark_lifecycle wall now c s st h reg))) = fst ` set (instances reg)"
    by (simp add: mark_lifecycle_def Let_def keys image_image case_prod_unfold)
  then show ?thesis by (simp add: map_of_eq_None_iff)
qed

lemma marks_fresh: "marks reg reg' \<Longrightarrow> get_instance i reg = None \<Longrightarrow> get_instance i reg' = None"
  by (induction rule: marks.induct) (auto simp: get_instance_def Let_def mark_keys split: if_splits)

lemma marks_trans: "marks b c \<Longrightarrow> marks a b \<Longrightarrow> marks a c"
  by (induction rule: marks.induct) (auto intro: marks.intros)

lemma marks_effects: "marks (bs_services st) (bs_services (apply_session_lifecycle_effects wall now s reason st))"
  by (cases "sr_state s")
     (auto simp: apply_session_lifecycle_effects_def withdraw_session_def Let_def intro: marks.intros)

lemma marks_commit: "marks (bs_services st) (bs_services (commit_authenticated_session wall now runtime version st))"
proof -
  have "marks (bs_services st) (bs_services (apply_session_lifecycle_effects wall now p r (st\<lparr>bs_sessions := x\<rparr>)))" for p r x
    using marks_effects [of "st\<lparr>bs_sessions := x\<rparr>"] by simp
  then show ?thesis
    by (auto simp: commit_authenticated_session_def mark_reconnect_baseline_def Let_def case_prod_unfold
        intro: marks_refl split: option.split)
qed

lemma marks_transition: "marks (bs_services st) (bs_services (transition_session_state wall now session epoch target reason st))"
proof -
  have "marks (bs_services st) (bs_services (apply_session_lifecycle_effects wall now p r (st\<lparr>bs_sessions := x\<rparr>)))" for p r x
    using marks_effects [of "st\<lparr>bs_sessions := x\<rparr>"] by simp
  then show ?thesis
    by (auto simp: transition_session_state_def Let_def case_prod_unfold intro: marks_refl split: option.split)
qed

lemma marks_upsert: "marks (bs_services st) (bs_services (upsert_active_session wall now session epoch connector binding version st))"
  by (auto simp: upsert_active_session_def Let_def intro: marks_refl marks_commit)

lemma marks_envelope:
  "marks (bs_services st) (bs_services (upsert_session_from_envelope wall now env st))"
  "marks (bs_services st) (bs_services (apply_auth_ack_session wall now env ack st))"
  by (auto simp: upsert_session_from_envelope_def apply_auth_ack_session_def Let_def
      intro: marks_refl marks_upsert split: option.split)

lemma marks_heartbeat: "marks (bs_services st) (bs_services (handle_heartbeat wall now env beat st))"
  by (auto simp: handle_heartbeat_def Let_def intro: marks_refl marks_upsert marks_trans [OF marks_transition marks_upsert]
      split: option.split)

lemma marks_refresh: "marks (bs_services st) (bs_services (refresh_session_heartbeat now session epoch st))"
  by (auto simp: refresh_session_heartbeat_def Let_def intro: marks_refl split: option.split)

lemma marks_sweep: "marks (bs_services st) (bs_services (sweep_session_lifecycle wall now timeout ttl st))"
proof -
  have fold: "marks (bs_services st) (bs_services (fold (\<lambda>s. apply_session_lifecycle_effects wall n s r) ss st))" for n r ss st
    by (induction ss arbitrary: st) (auto intro: marks_refl marks_trans [OF _ marks_effects])
  then have "marks (bs_services st) (bs_services (fold (\<lambda>s. apply_session_lifecycle_effects wall n s r) ss (st\<lparr>bs_sessions := x\<rparr>)))"
    for n r ss st x using fold [where st = "st\<lparr>bs_sessions := x\<rparr>"] by simp
  note this = marks_trans [OF this this]
  then show ?thesis unfolding sweep_session_lifecycle_def Let_def case_prod_unfold by simp
qed

lemma marks_drain: "marks (bs_services st) (bs_services (snd (drain_session_for_admin wall now session reason st)))"
  by (auto simp: drain_session_for_admin_def Let_def case_prod_unfold intro: marks.intros
      split: option.split bridge_session_state.split)


section \<open>The registries under any message\<close>

text \<open>A publication may generate an identifier; it is taken to be new.\<close>

definition fresh_ids :: "handler_env \<Rightarrow> bridge_state \<Rightarrow> bool" where
  "fresh_ids h st \<longleftrightarrow> get_instance (he_instance_id h) (bs_services st) = None \<and> trim_space (he_instance_id h) \<noteq> []"

lemma bridge_good_marks: "bridge_ok_but K st' \<Longrightarrow> marks (bs_services st) (bs_services st') \<Longrightarrow> bridge_good K st \<Longrightarrow> bridge_good K st'"
  by (auto simp: bridge_good_def marks_good)

lemma fresh_ids_marks: "marks (bs_services st) (bs_services st') \<Longrightarrow> fresh_ids h st \<Longrightarrow> fresh_ids h st'"
  by (auto simp: fresh_ids_def marks_fresh)

lemma bridge_good_handlers:
  assumes "bridge_good K st"
  shows "fresh_ids h st \<Longrightarrow> bridge_good K (snd (handle_publish h envelope m st))"
    and "bridge_good K (snd (handle_unpublish h envelope u st))"
    and "bridge_good K (snd (handle_assign h envelope a st))"
    and "bridge_good K (snd (handle_revoke envelope i st))"
    and "bridge_good K (handle_health_report h envelope r st)"
    and "bridge_good K (snd (snd (handle_tunnel_report e envelope report ctl st)))"
  using assms
  by (auto simp: bridge_good_def fresh_ids_def services_good_publish services_good_unpublish services_good_health_report
      bridge_ok_tunnel_report
      intro: bridge_ok_keeps [OF keeps_publish] bridge_ok_keeps [OF keeps_unpublish] bridge_ok_keeps [OF keeps_routes(1)]
        bridge_ok_keeps [OF keeps_routes(2)] bridge_ok_keeps [OF keeps_health])

lemma bridge_good_sessions:
  assumes good: "bridge_good K st"
  shows "bridge_good K (commit_authenticated_session wall now runtime version st)"
    and "bridge_good K (upsert_session_from_envelope wall now env st)"
    and "bridge_good K (apply_auth_ack_session wall now env ack st)"
    and "bridge_good K (handle_heartbeat wall now env beat st)"
    and "bridge_good K (refresh_session_heartbeat now session epoch st)"
    and "leaves_active target \<Longrightarrow> bridge_good K (transition_session_state wall now session epoch target reason st)"
    and "bridge_good K (sweep_session_lifecycle wall now timeout ttl st)"
    and "bridge_good K (snd (drain_session_for_admin wall now session reason st))"
proof -
  have ok: "bridge_ok_but K st" using good by (simp add: bridge_good_def)
  show "bridge_good K (commit_authenticated_session wall now runtime version st)"
    by (rule bridge_good_marks [OF bridge_ok_commit [OF ok] marks_commit good])
  show "bridge_good K (upsert_session_from_envelope wall now env st)"
    by (rule bridge_good_marks [OF bridge_ok_envelope(1) [OF ok] marks_envelope(1) good])
  show "bridge_good K (apply_auth_ack_session wall now env ack st)"
    by (rule bridge_good_marks [OF bridge_ok_envelope(2) [OF ok] marks_envelope(2) good])
  show "bridge_good K (handle_heartbeat wall now env beat st)"
    by (rule bridge_good_marks [OF bridge_ok_heartbeat [OF ok] marks_heartbeat good])
  show "bridge_good K (refresh_session_heartbeat now session epoch st)"
    by (rule bridge_good_marks [OF bridge_ok_refresh [OF ok] marks_refresh good])
  show "bridge_good K (transition_session_state wall now session epoch target reason st)" if "leaves_active target"
    by (rule bridge_good_marks [OF bridge_ok_transition [OF ok that] marks_transition good])
  show "bridge_good K (sweep_session_lifecycle wall now timeout ttl st)"
    by (rule bridge_good_marks [OF bridge_ok_sweep [OF ok] marks_sweep good])
  show "bridge_good K (snd (drain_session_for_admin wall now session reason st))"
    by (rule bridge_good_marks [OF bridge_ok_drain_session [OF ok] marks_drain good])
qed

text \<open>The dispatcher, message by message.\<close>

definition refreshed :: "'s dispatch_env \<Rightarrow> control_envelope \<Rightarrow> dispatcher \<Rightarrow> dispatcher" where
  "refreshed env envelope d = d\<lparr>d_bridge := upsert_session_from_envelope (de_wall env) (de_now env) envelope (d_bridge d)\<rparr>"

lemma refreshed_frame [simp]:
  "d_guard (refreshed env envelope d) = d_guard d" "d_auth (refreshed env envelope d) = d_auth d"
  "d_bridge (refreshed env envelope d) = upsert_session_from_envelope (de_wall env) (de_now env) envelope (d_bridge d)"
  by (simp_all add: refreshed_def)

lemma dispatch_by_type:
  "MessageType e = ''Heartbeat'' \<Longrightarrow> dispatch_envelope env e d = (Inr None, (refreshed env e d)\<lparr>d_bridge :=
     handle_heartbeat (de_wall env) (de_now env) e (payload_of (jc_heartbeat (de_codec env)) e) (d_bridge (refreshed env e d))\<rparr>)"
  "MessageType e = ''PublishService'' \<Longrightarrow> dispatch_envelope env e d = acknowledged env e ''PublishServiceAck'' (jc_publish (de_codec env))
     (\<lambda>m st. no_warnings (handle_publish (de_handler env) e m st)) (refreshed env e d)"
  "MessageType e = ''UnpublishService'' \<Longrightarrow> dispatch_envelope env e d = acknowledged env e ''UnpublishServiceAck'' (jc_unpublish (de_codec env))
     (\<lambda>m st. no_warnings (handle_unpublish (de_handler env) e m st)) (refreshed env e d)"
  "MessageType e = ''RouteAssign'' \<Longrightarrow> dispatch_envelope env e d = acknowledged env e ''RouteAssignAck'' (jc_assign (de_codec env))
     (\<lambda>m st. handle_assign (de_handler env) e m st) (refreshed env e d)"
  "MessageType e = ''RouteRevoke'' \<Longrightarrow> dispatch_envelope env e d = acknowledged env e ''RouteRevokeAck'' (jc_revoke (de_codec env))
     (\<lambda>m st. no_warnings (handle_revoke e m st)) (refreshed env e d)"
  "MessageType e = ''ConnectorAuthAck'' \<Longrightarrow> dispatch_envelope env e d = (Inr None, (refreshed env e d)\<lparr>d_bridge :=
     apply_auth_ack_session (de_wall env) (de_now env) e (payload_of (jc_auth_ack (de_codec env)) e) (d_bridge (refreshed env e d))\<rparr>)"
  by (simp_all add: dispatch_envelope_def refreshed_def Let_def)

lemma dispatch_health:
  "MessageType e = ''ServiceHealthReport'' \<Longrightarrow> snd (dispatch_envelope env e d) = refreshed env e d
   \<or> (\<exists>m. snd (dispatch_envelope env e d)
        = (refreshed env e d)\<lparr>d_bridge := handle_health_report (de_handler env) e m (d_bridge (refreshed env e d))\<rparr>)"
  by (auto simp: dispatch_envelope_def refreshed_def Let_def split: sum.split)

lemma dispatch_report:
  "MessageType e = ''TunnelPoolReport'' \<Longrightarrow> snd (dispatch_envelope env e d) = refreshed env e d
   \<or> (\<exists>m. snd (dispatch_envelope env e d)
        = (refreshed env e d)\<lparr>d_refill := fst (snd (handle_tunnel_report (de_report env) e m (d_refill d) (d_bridge (refreshed env e d)))),
             d_bridge := snd (snd (handle_tunnel_report (de_report env) e m (d_refill d) (d_bridge (refreshed env e d))))\<rparr>)"
  by (auto simp: dispatch_envelope_def refreshed_def Let_def case_prod_unfold split: sum.split)

lemma dispatch_other:
  "MessageType e \<notin> {''Heartbeat'', ''PublishService'', ''UnpublishService'', ''ServiceHealthReport'', ''TunnelPoolReport'',
     ''RouteAssign'', ''RouteRevoke'', ''ConnectorAuthAck''} \<Longrightarrow> dispatch_envelope env e d = (Inr None, refreshed env e d)"
  by (simp add: dispatch_envelope_def refreshed_def Let_def)

lemma dispatch_cases:
  obtains "MessageType e = ''Heartbeat''" | "MessageType e = ''PublishService''" | "MessageType e = ''UnpublishService''"
    | "MessageType e = ''ServiceHealthReport''" | "MessageType e = ''TunnelPoolReport''" | "MessageType e = ''RouteAssign''"
    | "MessageType e = ''RouteRevoke''" | "MessageType e = ''ConnectorAuthAck''"
    | "MessageType e \<notin> {''Heartbeat'', ''PublishService'', ''UnpublishService'', ''ServiceHealthReport'', ''TunnelPoolReport'',
     ''RouteAssign'', ''RouteRevoke'', ''ConnectorAuthAck''}"
  by blast

lemma acknowledged_good:
  assumes "bridge_good K (d_bridge d)" and "\<And>m. bridge_good K (snd (handler m (d_bridge d)))"
  shows "bridge_good K (d_bridge (snd (acknowledged env envelope t decode handler d)))"
  using assms by (auto simp: acknowledged_def Let_def case_prod_unfold split: sum.split)

lemma dispatch_good:
  assumes "bridge_good K (d_bridge d)" and "fresh_ids (de_handler env) (d_bridge d)"
  shows "bridge_good K (d_bridge (snd (dispatch_envelope env envelope d)))"
proof -
  let ?st = "upsert_session_from_envelope (de_wall env) (de_now env) envelope (d_bridge d)"
  have good: "bridge_good K ?st" by (rule bridge_good_sessions(2) [OF assms(1)])
  have fresh: "fresh_ids (de_handler env) ?st" by (rule fresh_ids_marks [OF marks_envelope(1) assms(2)])
  note handled = bridge_good_handlers(1) [OF good fresh] bridge_good_handlers(2-6) [OF good]
    bridge_good_sessions(3,4) [OF good]
  show ?thesis
  proof (rule dispatch_cases [of envelope])
    assume "MessageType envelope = ''ServiceHealthReport''"
    from dispatch_health [OF this, of env d] show ?thesis using good handled by auto
  next
    assume "MessageType envelope = ''TunnelPoolReport''"
    from dispatch_report [OF this, of env d] show ?thesis using good handled by auto
  qed (simp_all add: dispatch_by_type dispatch_other no_warnings_def acknowledged_good handled good)
qed

lemma acknowledged_guard [simp]:
  "d_guard (snd (acknowledged env e t decode handler d)) = d_guard d" "d_auth (snd (acknowledged env e t decode handler d)) = d_auth d"
  by (simp_all add: acknowledged_def Let_def case_prod_unfold split: sum.split)

lemma dispatch_guard [simp]:
  "d_guard (snd (dispatch_envelope env e d)) = d_guard d \<and> d_auth (snd (dispatch_envelope env e d)) = d_auth d"
proof (rule dispatch_cases [of e])
  assume "MessageType e = ''ServiceHealthReport''"
  from dispatch_health [OF this, of env d] show ?thesis by auto
next
  assume "MessageType e = ''TunnelPoolReport''"
  from dispatch_report [OF this, of env d] show ?thesis by auto
qed (simp_all add: dispatch_by_type dispatch_other)


section \<open>The guard under a handshake\<close>

text \<open>What hellos and authentications leave of the budgets.\<close>

definition same_budgets :: "handshake_guard \<Rightarrow> handshake_guard \<Rightarrow> bool" where
  "same_budgets g g' \<longleftrightarrow> hg_unauthenticated g' = hg_unauthenticated g \<and> hg_unauthenticated_budget g' = hg_unauthenticated_budget g
     \<and> hg_concurrency g' = hg_concurrency g \<and> hg_concurrency_budget g' = hg_concurrency_budget g"

lemma guard_calls_budgets [simp]:
  "same_budgets g g" "same_budgets g (snd (allow_hello now s c g))" "same_budgets g (snd (is_auth_banned now s c g))"
  "same_budgets g (snd (record_auth_failure now s c g))"
  by (auto simp: same_budgets_def allow_hello_def is_auth_banned_def record_auth_failure_def Let_def case_prod_unfold
      split: option.split)

lemma same_budgetsD:
  "same_budgets g g' \<Longrightarrow> hg_unauthenticated g' = hg_unauthenticated g"
  "same_budgets g g' \<Longrightarrow> hg_unauthenticated_budget g' = hg_unauthenticated_budget g"
  "same_budgets g g' \<Longrightarrow> hg_concurrency g' = hg_concurrency g"
  "same_budgets g g' \<Longrightarrow> hg_concurrency_budget g' = hg_concurrency_budget g"
  by (simp_all add: same_budgets_def)


section \<open>One frame\<close>

text \<open>A connection in its loop: ready with its unit of the budget, or authenticated without it.\<close>

definition channel_ok :: "channel_state \<Rightarrow> bool" where
  "channel_ok ch \<longleftrightarrow> ch_lifecycle ch = StateControlReady \<and> ch_reserved ch \<and> ch_session ch = []
     \<or> ch_lifecycle ch = StateAuthenticated \<and> \<not> ch_reserved ch"

text \<open>The budgets account for one connection: what it holds besides, and nothing under way.\<close>

definition accounts :: "int \<Rightarrow> channel_state \<Rightarrow> handshake_guard \<Rightarrow> bool" where
  "accounts others ch g \<longleftrightarrow> hg_unauthenticated g = others + reserved_units ch \<and> 0 \<le> others
     \<and> hg_unauthenticated g \<le> hg_unauthenticated_budget g \<and> hg_concurrency g = 0"

lemma accounts_same: "same_budgets g g' \<Longrightarrow> accounts others ch g \<Longrightarrow> accounts others ch g'"
  by (simp add: accounts_def same_budgets_def)

lemma accounts_units: "reserved_units ch' = reserved_units ch \<Longrightarrow> accounts others ch' g = accounts others ch g"
  by (simp add: accounts_def)

lemma channel_ok_hello: "channel_ok ch \<Longrightarrow> channel_ok (set_hello_context c e ch) \<and> reserved_units (set_hello_context c e ch) = reserved_units ch"
  by (auto simp: channel_ok_def set_hello_context_def Let_def lifecycle_ready reserved_units_def)

lemma channel_ok_session:
  "channel_ok ch \<Longrightarrow> is_authenticated ch \<Longrightarrow> channel_ok (set_session s e ch) \<and> reserved_units (set_session s e ch) = reserved_units ch"
  by (auto simp: channel_ok_def is_authenticated_def set_session_def Let_def reserved_units_def)

lemma hello_keeps:
  assumes "handle_connector_hello env envelope (ch, d) = (reply, ch', d')" and "channel_ok ch" and "accounts others ch (d_guard d)"
  shows "channel_ok ch' \<and> accounts others ch' (d_guard d') \<and> d_bridge d' = d_bridge d \<and> d_auth d' = d_auth d"
proof (cases "check_hello (de_codec env) envelope")
  case (Inl e)
  then show ?thesis using assms by (cases e) (auto simp: handle_connector_hello_def Let_def)
next
  case (Inr hello)
  let ?c = "trim_space (hl_connector hello)"
  obtain allowed dimension g where g: "allow_hello (de_guard_now env) (trim_space (ch_source ch)) ?c (d_guard d) = ((allowed, dimension), g)"
    by (metis prod.collapse)
  have acc: "accounts others ch g" using accounts_same [OF guard_calls_budgets(2) assms(3)] g by (metis snd_conv)
  have out: "d' = d\<lparr>d_guard := g\<rparr> \<and> (ch' = ch \<or> (\<exists>epoch. ch' = set_hello_context ?c epoch ch))"
  proof (cases allowed)
    case True
    then have "snd (handle_connector_hello env envelope (ch, d))
        = (set_hello_context ?c (allocate_assigned_session_epoch ?c (d_bridge d)) ch, d\<lparr>d_guard := g\<rparr>)"
      by (simp add: handle_connector_hello_def Inr g Let_def)
    with assms(1) show ?thesis by auto
  next
    case False
    then have "snd (handle_connector_hello env envelope (ch, d)) = (ch, d\<lparr>d_guard := g\<rparr>)"
      by (simp add: handle_connector_hello_def Inr g Let_def)
    with assms(1) show ?thesis by auto
  qed
  have "accounts others (set_hello_context ?c epoch ch) g" for epoch
    using accounts_units [of "set_hello_context ?c epoch ch" ch] channel_ok_hello [OF assms(2)] acc by simp
  then show ?thesis using out acc assms(2) channel_ok_hello [OF assms(2)] by auto
qed

lemma authenticated_keeps:
  assumes "mark_session_authenticated (set_session s e ch) g = (ch', g')" and "channel_ok ch"
    and "hg_unauthenticated g = others + reserved_units ch" "0 \<le> others"
  shows "channel_ok ch' \<and> is_authenticated ch' \<and> hg_unauthenticated g' = others + reserved_units ch' \<and> reserved_units ch' = 0
    \<and> hg_unauthenticated_budget g' = hg_unauthenticated_budget g \<and> hg_concurrency g' = hg_concurrency g
    \<and> hg_concurrency_budget g' = hg_concurrency_budget g"
proof -
  let ?ch = "mark_authenticated (set_session s e ch)"
  have units: "reserved_units ?ch = reserved_units ch" by (simp add: reserved_units_def)
  have "reserved_units ?ch \<le> hg_unauthenticated g" using assms(3,4) units by (simp add: reserved_units_def)
  note rel = release_connection_units [OF assms(1) [unfolded mark_session_authenticated_def] this]
  have "ch_lifecycle ?ch = StateAuthenticated" using assms(2) by (auto simp: lifecycle_authenticated channel_ok_def)
  then show ?thesis using rel assms(3) units by (simp add: channel_ok_def is_authenticated_def)
qed

lemma auth_keeps:
  assumes run: "handle_connector_auth env envelope (ch, d) = (reply, ch', d')"
    and ok: "channel_ok ch" and acc: "accounts others ch (d_guard d)"
  shows "channel_ok ch' \<and> accounts others ch' (d_guard d')"
proof (cases "check_auth (de_codec env) envelope ch")
  case (Inl e)
  then show ?thesis using assms by (cases e) (auto simp: handle_connector_auth_def Let_def)
next
  case (Inr q)
  obtain c auth where q: "q = (c, auth)" by fastforce
  let ?source = "trim_space (ch_source ch)"
  obtain ban g1 where ban: "is_auth_banned (de_guard_now env) ?source c (d_guard d) = (ban, g1)" by fastforce
  have acc1: "accounts others ch g1" using accounts_same [OF guard_calls_budgets(3) acc] ban by (metis snd_conv)
  obtain acquired g2 where acq: "try_acquire_concurrency g1 = (acquired, g2)" by fastforce
  obtain r ac st where auth: "authenticate_and_commit (de_auth env) (auth_request_of ch c auth)
      (commit_handshake (de_wall env) (ch_binding ch) (ResourceVersion envelope)) (d_auth d, d_bridge d) = (r, ac, st)"
    by (metis prod.collapse)
  note eq = handle_connector_auth_def Inr q ban acq auth Let_def
  show ?thesis
  proof (cases "ban \<noteq> None \<or> \<not> acquired")
    case True
    then show ?thesis using run ok acc1 acq
      by (auto simp: eq try_acquire_concurrency_def split: if_splits)
  next
    case False
    then have g2: "g2 = g1\<lparr>hg_concurrency := 1\<rparr>" using acq acc1
      by (auto simp: try_acquire_concurrency_def accounts_def split: if_splits)
    have released: "accounts others ch (release_concurrency g3)" if "same_budgets g2 g3" for g3
      using that acc1 by (simp add: accounts_def same_budgets_def release_concurrency_def g2)
    show ?thesis
    proof (cases "ar_success r")
      case no: False
      then show ?thesis using run ok released False by (auto simp: eq case_prod_unfold)
    next
      case True
      obtain ch2 g3 where mark: "mark_session_authenticated (set_session (ar_session r) (ar_epoch r) ch) g2 = (ch2, g3)" by fastforce
      from authenticated_keeps [OF mark ok, of others] acc1
      have "channel_ok ch2 \<and> accounts others ch2 (release_concurrency g3)"
        by (auto simp: accounts_def g2 release_concurrency_def reserved_units_def split: if_splits)
      then show ?thesis using run False True mark by (auto simp: eq case_prod_unfold)
    qed
  qed
qed

lemma auth_good:
  assumes "handle_connector_auth env envelope (ch, d) = (reply, ch', d')" and good: "bridge_good K (d_bridge d)"
  shows "bridge_good K (d_bridge d')"
proof -
  have "bridge_good K (snd (snd (authenticate_and_commit e q (commit_handshake w b v) (ac, d_bridge d))))" for e q w b v ac
  proof -
    obtain r ac' st' where run: "authenticate_and_commit e q (commit_handshake w b v) (ac, d_bridge d) = (r, ac', st')"
      by (metis prod.collapse)
    show ?thesis
      by (rule authenticate_cases [OF run])
         (use good run in \<open>simp_all add: commit_handshake_def bridge_good_sessions(1)\<close>)
  qed
  then show ?thesis
    using assms by (auto simp: handle_connector_auth_def Let_def case_prod_unfold split: sum.splits if_splits)
qed

lemma frame_keeps:
  assumes run: "handle_frame env fr (ch, d) = (reply, ch', d')" and ok: "channel_ok ch"
    and acc: "accounts others ch (d_guard d)" and good: "bridge_good K (d_bridge d)" and fresh: "fresh_ids (de_handler env) (d_bridge d)"
  shows "channel_ok ch' \<and> accounts others ch' (d_guard d') \<and> bridge_good K (d_bridge d')"
proof -
  have hello: "channel_ok ch1 \<and> accounts others ch1 (d_guard d1) \<and> bridge_good K (d_bridge d1)"
    if "handle_connector_hello env e (ch, d) = (rep, ch1, d1)" for e rep ch1 d1
    using hello_keeps [OF that ok acc] good by simp
  have auth: "channel_ok ch1 \<and> accounts others ch1 (d_guard d1) \<and> bridge_good K (d_bridge d1)"
    if "handle_connector_auth env e (ch, d) = (rep, ch1, d1)" for e rep ch1 d1
    using auth_keeps [OF that ok acc] auth_good [OF that good] by simp
  have beat: "bridge_good K (d_bridge (refresh_heartbeat_from_state n ch d))" "d_guard (refresh_heartbeat_from_state n ch d) = d_guard d" for n
    using good by (simp_all add: refresh_heartbeat_from_state_def bridge_good_sessions(5))
  show ?thesis
  proof (cases "Type fr = frame_type_heartbeat_ping \<or> Type fr = frame_type_heartbeat_pong")
    case True
    then show ?thesis using run ok acc beat by (auto simp: handle_frame_def Let_def split: if_splits)
  next
    case business: False
    show ?thesis
    proof (cases "decode_business_control_envelope_frame (jc_envelope (de_codec env)) fr")
      case (Inl e)
      then show ?thesis using business run ok acc good by (auto simp: handle_frame_def Let_def split: sum.splits)
    next
      case (Inr e)
      obtain t where t: "control_message_type_for_frame_type (Type fr) = Inr t"
        using Inr by (auto simp: decode_business_control_envelope_frame_def split: sum.splits)
      obtain r1 ch1 d1 where h: "handle_connector_hello env e (ch, d) = (r1, ch1, d1)" by (metis prod.collapse)
      obtain r2 ch2 d2 where a: "handle_connector_auth env e (ch, d) = (r2, ch2, d2)" by (metis prod.collapse)
      obtain r3 d3 where b: "dispatch_envelope env e d = (r3, d3)" by (metis prod.collapse)
      let ?ch3 = "case resolve_envelope_session e (payload_of (jc_auth_ack (de_codec env)) e) of
          None \<Rightarrow> ch | Some (sid, epoch) \<Rightarrow> set_session sid epoch ch"
      have "(ch', d') = (if MessageType e = ''ConnectorHello'' then (ch1, d1) else if MessageType e = ''ConnectorAuth'' then (ch2, d2)
          else if \<not> is_authenticated ch then (ch, d) else (?ch3, d3))"
        using run business Inr t h a b by (auto simp: handle_frame_def Let_def)
      moreover have "bridge_good K (d_bridge d3)" "d_guard d3 = d_guard d"
        using dispatch_good [OF good fresh, of e] dispatch_guard [of env e d] b by simp_all
      moreover have "channel_ok ?ch3 \<and> reserved_units ?ch3 = reserved_units ch" if "is_authenticated ch"
        using ok that by (auto simp: channel_ok_session split: option.split)
      ultimately show ?thesis
        using hello [OF h] auth [OF a] ok acc good accounts_units [of ?ch3 ch others] by (auto split: if_splits)
    qed
  qed
qed


section \<open>All connections together\<close>

text \<open>
  What changes the registries besides messages: sweeps, draining by an administrator, tunnels that
  end, and the calls on the tunnel registry that enter none.
\<close>

inductive background :: "bridge_state \<Rightarrow> bridge_state \<Rightarrow> bool" where
  bg_sweep: "background st (sweep_session_lifecycle wall now timeout ttl st)"
| bg_drain: "background st (snd (drain_session_for_admin wall now session reason st))"
| bg_tunnel_ended: "background st (recycle_accepted_idle_tunnel wall now i binding cause raw_err st)"
| bg_tunnel_call: "(\<And>w n c s u a. call \<noteq> UpsertIdle w n c s u a) \<Longrightarrow>
    background st (st\<lparr>bs_tunnels := bridge_exec call (bs_tunnels st)\<rparr>)"

text \<open>
  The connections that are open, and the dispatcher they share. A connection without a place in the
  budget is ended at once. Tokens are looked up in a file store; another store can take its place,
  since the environment also carries the lookup itself.
\<close>

inductive control_step ::
    "(nat, channel_state) gomap \<times> dispatcher \<Rightarrow> (nat, channel_state) gomap \<times> dispatcher \<Rightarrow> bool" where
  connect: "\<not> has_key chs i \<Longrightarrow> open_connection source binding d = (True, ch, d') \<Longrightarrow>
    control_step (chs, d) (map_put i ch chs, d')"
| turned_away: "open_connection source binding d = (False, ch, d') \<Longrightarrow>
    control_step (chs, d) (chs, snd (end_connection wall now False reason ch d'))"
| frame: "map_of chs i = Some ch \<Longrightarrow> fresh_ids (de_handler env) (d_bridge d) \<Longrightarrow>
    handle_frame (env :: file_store dispatch_env) fr (ch, d) = (reply, ch', d') \<Longrightarrow> control_step (chs, d) (map_put i ch' chs, d')"
| ended: "map_of chs i = Some ch \<Longrightarrow>
    control_step (chs, d) (map_del i chs, snd (end_connection wall now failed reason ch d))"
| aside: "background (d_bridge d) st \<Longrightarrow> control_step (chs, d) (chs, d\<lparr>d_bridge := st\<rparr>)"

definition held :: "(nat, channel_state) gomap \<Rightarrow> int" where
  "held chs = sum_list (map (\<lambda>e. reserved_units (snd e)) chs)"

fun plane_ok :: "string set \<Rightarrow> (nat, channel_state) gomap \<times> dispatcher \<Rightarrow> bool" where
  "plane_ok K (chs, d) \<longleftrightarrow> keys_distinct chs \<and> bridge_good K (d_bridge d) \<and> (\<forall>e \<in> set chs. channel_ok (snd e))
     \<and> hg_unauthenticated (d_guard d) = held chs \<and> held chs \<le> hg_unauthenticated_budget (d_guard d)
     \<and> hg_concurrency (d_guard d) = 0"

lemma held_nonneg: "0 \<le> held chs"
  unfolding held_def by (rule sum_list_nonneg) (auto simp: reserved_units_def)

lemma held_del: "keys_distinct chs \<Longrightarrow> map_of chs i = Some ch \<Longrightarrow> held (map_del i chs) = held chs - reserved_units ch"
proof (induction chs)
  case (Cons e chs)
  have "filter (\<lambda>x. fst x \<noteq> fst e) chs = chs"
    by (rule filter_True) (use Cons.prems(1) in \<open>auto simp: image_iff eq_commute\<close>)
  then show ?case
    using Cons by (cases "fst e = i") (auto simp: held_def map_del_filter simp del: map_of_eq_Some_iff)
qed simp

lemma held_put_new: "map_of chs i = None \<Longrightarrow> held (map_put i ch chs) = held chs + reserved_units ch"
  by (induction chs) (auto simp: held_def)

lemma held_put: "map_of chs i = Some ch \<Longrightarrow> held (map_put i ch' chs) = held chs - reserved_units ch + reserved_units ch'"
  by (induction chs) (auto simp: held_def)

lemma registered_services [simp]:
  "bs_services (snd (register_accepted_tunnel_with_owner wall now raw binding c s i st)) = bs_services st"
  by (auto simp: register_accepted_tunnel_with_owner_def Let_def split: prod.split sum.split)

lemma registered_sessions [simp]:
  "bs_sessions (snd (register_accepted_tunnel_with_owner wall now raw binding c s i st)) = bs_sessions st"
  by (auto simp: register_accepted_tunnel_with_owner_def Let_def split: prod.split sum.split)

lemma background_good: "background st st' \<Longrightarrow> bridge_good K st \<Longrightarrow> bridge_good K st'"
proof (induction rule: background.induct)
  case (bg_tunnel_ended st wall now i binding cause raw_err)
  then show ?case
    using bridge_ok_step [OF bridge_step.tunnel_ended [of st wall now i binding cause raw_err]]
    by (auto simp: bridge_good_def recycle_accepted_idle_tunnel_def Let_def case_prod_unfold split: option.splits)
next
  case (bg_tunnel_call call st)
  then show ?case using bridge_ok_step [OF bridge_step.tunnel_call [of call st]] by (simp add: bridge_good_def)
qed (simp_all add: bridge_good_sessions)


lemma end_connection_keeps:
  assumes good: "bridge_good K (d_bridge d)" and le: "reserved_units ch \<le> hg_unauthenticated (d_guard d)"
  shows "bridge_good K (d_bridge (snd (end_connection wall now failed reason ch d)))"
    and "hg_unauthenticated (d_guard (snd (end_connection wall now failed reason ch d))) = hg_unauthenticated (d_guard d) - reserved_units ch"
    and "hg_unauthenticated_budget (d_guard (snd (end_connection wall now failed reason ch d))) = hg_unauthenticated_budget (d_guard d)"
    and "hg_concurrency (d_guard (snd (end_connection wall now failed reason ch d))) = hg_concurrency (d_guard d)"
proof -
  obtain ch1 g where rel: "release_connection ch (d_guard d) = (ch1, g)" by fastforce
  show "bridge_good K (d_bridge (snd (end_connection wall now failed reason ch d)))"
    using good by (simp add: end_connection_def rel Let_def case_prod_unfold mark_session_failed_from_state_def
        close_session_from_state_def bridge_good_sessions(6) leaves_active_def)
qed (use release_connection_units [OF surjective_pairing le] in \<open>simp_all add: end_connection_def Let_def case_prod_unfold\<close>)

lemma open_connection_keeps:
  assumes "open_connection source binding d = (ok, ch, d')" and "hg_unauthenticated (d_guard d) \<le> hg_unauthenticated_budget (d_guard d)"
  shows "d_bridge d' = d_bridge d" "hg_unauthenticated (d_guard d') = hg_unauthenticated (d_guard d) + reserved_units ch"
    "hg_unauthenticated (d_guard d') \<le> hg_unauthenticated_budget (d_guard d)"
    "hg_unauthenticated_budget (d_guard d') = hg_unauthenticated_budget (d_guard d)"
    "hg_concurrency (d_guard d') = hg_concurrency (d_guard d)" "ok \<Longrightarrow> channel_ok ch"
proof -
  let ?ch = "mark_control_ready (mark_connected (set_preferred_binding binding (new_channel_state source)))"
  obtain ok0 ch0 g where run: "reserve_connection ?ch (d_guard d) = (ok0, ch0, g)" by (metis prod.collapse)
  then have res: "reserve_connection ?ch (d_guard d) = (ok, ch, g)" and d': "d' = d\<lparr>d_guard := g\<rparr>"
    using assms(1) by (simp_all add: open_connection_def Let_def)
  have new: "ch_lifecycle ?ch = StateControlReady" "ch_session ?ch = []" "reserved_units ?ch = 0"
    by (simp_all add: lifecycle_defs set_preferred_binding_def new_channel_state_def reserved_units_def)
  note units = reserve_connection_units [OF res]
  show "d_bridge d' = d_bridge d" by (simp add: d')
  show "hg_unauthenticated (d_guard d') = hg_unauthenticated (d_guard d) + reserved_units ch" using units(1) new by (simp add: d')
  show "hg_unauthenticated (d_guard d') \<le> hg_unauthenticated_budget (d_guard d)" using units(5) assms(2) by (simp add: d')
  show "hg_unauthenticated_budget (d_guard d') = hg_unauthenticated_budget (d_guard d)"
    "hg_concurrency (d_guard d') = hg_concurrency (d_guard d)" using units(2,3) by (simp_all add: d')
  show "channel_ok ch" if ok using units(6-8) that new by (auto simp: channel_ok_def is_authenticated_def)
qed

lemma set_map_put_ok: "(\<forall>e \<in> set m. P (snd e)) \<Longrightarrow> P v \<Longrightarrow> (\<forall>e \<in> set (map_put k v m). P (snd e))"
  by (auto dest!: set_map_put)

lemma held_member: "map_of chs i = Some ch \<Longrightarrow> keys_distinct chs \<Longrightarrow> reserved_units ch \<le> held chs"
  using held_del [of chs i ch] held_nonneg [of "map_del i chs"] by linarith

lemma plane_ok_step: "control_step s s' \<Longrightarrow> plane_ok K s \<Longrightarrow> plane_ok K s'"
proof (induction rule: control_step.induct)
  case (connect chs i source binding d ch d')
  then have "hg_unauthenticated (d_guard d) \<le> hg_unauthenticated_budget (d_guard d)" by simp
  note out = open_connection_keeps [OF connect.hyps(2) this]
  have new: "map_of chs i = None" using connect.hyps(1) by blast
  show ?case
    using connect.prems out set_map_put_ok [of chs channel_ok ch i] by (simp add: held_put_new [OF new])
next
  case (turned_away source binding d ch d' chs wall now reason)
  then have le: "hg_unauthenticated (d_guard d) \<le> hg_unauthenticated_budget (d_guard d)" by simp
  note out = open_connection_keeps [OF turned_away.hyps le]
  have units: "reserved_units ch \<le> hg_unauthenticated (d_guard d')" using out(2) turned_away.prems held_nonneg [of chs] by simp
  have good: "bridge_good K (d_bridge d')" using out(1) turned_away.prems by simp
  show ?case using turned_away.prems out end_connection_keeps [OF good units] by simp
next
  case (frame chs i ch env d fr reply ch' d')
  have ok: "channel_ok ch" using frame.prems frame.hyps(1) by (fastforce dest: map_of_SomeD simp del: map_of_eq_Some_iff)
  have mem: "reserved_units ch \<le> held chs" using held_member frame.prems frame.hyps(1) by simp
  have "accounts (held chs - reserved_units ch) ch (d_guard d)" using frame.prems mem by (simp add: accounts_def)
  from frame_keeps [OF frame.hyps(3) ok this _ frame.hyps(2), of K] frame.prems
  have out: "channel_ok ch'" "accounts (held chs - reserved_units ch) ch' (d_guard d')" "bridge_good K (d_bridge d')" by simp_all
  have "hg_unauthenticated_budget (d_guard d') = hg_unauthenticated_budget (d_guard d) \<or> True" by simp
  then show ?case
    using frame.prems out set_map_put_ok [of chs channel_ok ch' i] by (simp add: accounts_def held_put [OF frame.hyps(1)])
next
  case (ended chs i ch d wall now failed reason)
  have mem: "reserved_units ch \<le> hg_unauthenticated (d_guard d)" using held_member ended.prems ended.hyps by simp
  have good: "bridge_good K (d_bridge d)" and dist: "keys_distinct chs" using ended.prems by simp_all
  have "\<forall>e \<in> set (map_del i chs). channel_ok (snd e)" using ended.prems by (auto dest: set_map_del)
  moreover have "0 \<le> reserved_units ch" by (simp add: reserved_units_def)
  ultimately show ?case
    using ended.prems end_connection_keeps [OF good mem] by (simp add: held_del [OF dist ended.hyps])
next
  case (aside d st chs)
  then show ?case using background_good by simp
qed

text \<open>
  A tunnel is accepted in two steps that others come between: its owner is looked up, in one or several
  of the session registries that there were so far (\<open>history\<close>), and much later, after a handshake for a TCP tunnel, it is entered for
  that owner. When the session has ended meanwhile, the tunnel is late; \<open>late\<close> are the sessions of such tunnels.
\<close>

definition late_after :: "registration \<Rightarrow> string \<Rightarrow> bridge_state \<Rightarrow> string set \<Rightarrow> string set" where
  "late_after res sid st late =
     (case res of
        TunnelRegistered r \<Rightarrow> if session_active (bs_sessions st) sid then late else insert sid late
      | _ \<Rightarrow> late)"

inductive control_run ::
    "dispatcher \<Rightarrow> session_registry list \<Rightarrow> string set \<Rightarrow> (nat, channel_state) gomap \<times> dispatcher \<Rightarrow> bool" for start where
  run_start: "control_run start [bs_sessions (d_bridge start)] {} ([], start)"
| run_step: "control_run start history late s \<Longrightarrow> control_step s (chs, d) \<Longrightarrow>
    control_run start (bs_sessions (d_bridge d) # history) late (chs, d)"
| run_tunnel: "control_run start history late (chs, d) \<Longrightarrow> set polls \<subseteq> set history \<Longrightarrow>
    resolve_accepted_tunnel_owner t binding polls = Some (c, sid, epoch) \<Longrightarrow>
    register_accepted_tunnel wall now t binding polls (d_bridge d) = (res, st) \<Longrightarrow>
    control_run start history (late_after res sid (d_bridge d) late) (chs, d\<lparr>d_bridge := st\<rparr>)"
| run_tcp_tunnel: "control_run start history late (chs, d) \<Longrightarrow> before \<in> set history \<Longrightarrow>
    resolve_single_active_session_owner before = Some (c, sid, epoch) \<Longrightarrow>
    handle_accepted_tcp_tunnel wall now before handshake opened (d_bridge d) = (res, st) \<Longrightarrow>
    control_run start history (late_after res sid (d_bridge d) late) (chs, d\<lparr>d_bridge := st\<rparr>)"

lemma bridge_ok_but_mono: "bridge_ok_but K st \<Longrightarrow> K \<subseteq> L \<Longrightarrow> bridge_ok_but L st"
  by (auto simp: bridge_ok_but_def intro: owned_mono)

lemma upsert_idle_failed: "upsert_idle wall now c sid t b reg = (Inl e, reg') \<Longrightarrow> reg' = reg"
  by (auto simp: upsert_idle_def Let_def split: if_splits option.splits)

lemma register_owner_late:
  assumes "bridge_ok_but K st" and "trim_space sid = sid"
    and run: "register_accepted_tunnel_with_owner wall now raw binding c sid i st = (res, st')"
  shows "bridge_ok_but (late_after res sid st K) st'"
proof (cases "\<exists>r. res = TunnelRegistered r")
  case True
  let ?L = "late_after res sid st K"
  have "K \<subseteq> ?L" "sid \<in> ?L \<or> session_active (bs_sessions st) sid" using True by (auto simp: late_after_def)
  from bridge_ok_register_owner [OF bridge_ok_but_mono [OF assms(1) this(1)] this(2) assms(2)] show ?thesis
    using run by (metis snd_conv)
next
  case False
  then have "st' = st"
    using run by (auto simp: register_accepted_tunnel_with_owner_def Let_def dest: upsert_idle_failed split: if_splits prod.splits sum.splits)
  moreover have "late_after res sid st K = K" using False by (auto simp: late_after_def split: registration.split)
  ultimately show ?thesis using assms(1) by simp
qed

lemma dropped_late: "bridge_ok_but K st \<Longrightarrow> (TunnelDropped, st) = (res, st') \<Longrightarrow> bridge_ok_but (late_after res sid st K) st'"
  "bridge_ok_but K st \<Longrightarrow> (RegistrationFailed e, st) = (res, st') \<Longrightarrow> bridge_ok_but (late_after res sid st K) st'"
  by (auto simp: late_after_def)

lemma register_tunnel_late:
  assumes "bridge_ok_but K st" and "trim_space sid = sid"
    and "resolve_accepted_tunnel_owner t binding polls = Some (c, sid, epoch)"
    and "register_accepted_tunnel wall now t binding polls st = (res, st')"
  shows "bridge_ok_but (late_after res sid st K) st'" "bs_services st' = bs_services st" "bs_sessions st' = bs_sessions st"
proof -
  have eq: "(if binding = BindingTypeGRPCH2 \<and> trim_space (it_id_source t) \<noteq> ''stream_metadata'' then (TunnelDropped, st)
      else register_accepted_tunnel_with_owner wall now (it_tunnel t) binding c sid (trim_space (tunnel_id (it_tunnel t))) st) = (res, st')"
    using assms(3,4) by (simp add: register_accepted_tunnel_def split: if_splits)
  then show "bridge_ok_but (late_after res sid st K) st'"
    using dropped_late(1) [OF assms(1)] register_owner_late [OF assms(1,2)] by (simp split: if_splits)
  show "bs_services st' = bs_services st" "bs_sessions st' = bs_sessions st"
    using eq registered_services registered_sessions by (metis snd_conv)+
qed

lemma register_tcp_late:
  assumes "bridge_ok_but K st" and "trim_space sid = sid"
    and "resolve_single_active_session_owner before = Some (c, sid, epoch)"
    and "handle_accepted_tcp_tunnel wall now before handshake opened st = (res, st')"
  shows "bridge_ok_but (late_after res sid st K) st'" "bs_services st' = bs_services st" "bs_sessions st' = bs_sessions st"
proof -
  have "(TunnelDropped, st) = (res, st') \<or> (\<exists>e. (RegistrationFailed e, st) = (res, st'))
      \<or> (\<exists>raw i. register_accepted_tunnel_with_owner wall now raw BindingTypeTCPFramed c sid i st = (res, st'))"
    using assms(3,4) by (auto simp: handle_accepted_tcp_tunnel_def split: option.splits if_splits sum.splits)
  then show "bridge_ok_but (late_after res sid st K) st'" "bs_services st' = bs_services st" "bs_sessions st' = bs_sessions st"
    using dropped_late [OF assms(1)] register_owner_late [OF assms(1,2)] registered_services registered_sessions
    by (metis snd_conv)+
qed

definition run_ok :: "session_registry list \<Rightarrow> string set \<Rightarrow> (nat, channel_state) gomap \<times> dispatcher \<Rightarrow> bool" where
  "run_ok history late s \<longleftrightarrow> plane_ok late s \<and> bs_sessions (d_bridge (snd s)) \<in> set history
     \<and> (\<forall>reg \<in> set history. session_ok reg) \<and> (\<forall>sid \<in> late. \<exists>reg \<in> set history. session_active reg sid)"

text \<open>Whatever enters a tunnel: its owner was active in a registry of the history.\<close>

lemma run_ok_entered:
  assumes "run_ok history late (chs, d)" and "reg \<in> set history" and "session_active reg sid"
    and "bridge_ok_but (late_after res sid (d_bridge d) late) st"
    and "bs_services st = bs_services (d_bridge d)" and "bs_sessions st = bs_sessions (d_bridge d)"
  shows "run_ok history (late_after res sid (d_bridge d) late) (chs, d\<lparr>d_bridge := st\<rparr>)"
proof -
  have "x \<in> late \<or> x = sid" if "x \<in> late_after res sid (d_bridge d) late" for x
    using that by (auto simp: late_after_def split: registration.splits if_splits)
  then have "\<forall>x \<in> late_after res sid (d_bridge d) late. \<exists>reg \<in> set history. session_active reg x"
    using assms(1-3) unfolding run_ok_def by blast
  then show ?thesis using assms by (simp add: run_ok_def bridge_good_def)
qed

lemma plane_sessions_ok: "plane_ok K (chs, d) \<Longrightarrow> session_ok (bs_sessions (d_bridge d))"
  by (simp add: bridge_good_def bridge_ok_but_def registries_ok_def)

lemma control_run_ok: "control_run start history late s \<Longrightarrow> (\<And>K. plane_ok K ([], start)) \<Longrightarrow> run_ok history late s"
proof (induction rule: control_run.induct)
  case run_start
  then show ?case using plane_sessions_ok [of "{}" "[]" start] by (simp add: run_ok_def del: plane_ok.simps)
next
  case (run_step history late s chs d)
  then have ok: "run_ok history late s" by blast
  then have plane: "plane_ok late (chs, d)" using plane_ok_step [OF run_step.hyps(2)] by (simp add: run_ok_def del: plane_ok.simps)
  then show ?case using ok plane_sessions_ok [OF plane] by (auto simp: run_ok_def simp del: plane_ok.simps)
next
  case (run_tunnel history late chs d polls t binding c sid epoch wall now res st)
  then have ok: "run_ok history late (chs, d)" by blast
  then have "session_ok reg" if "reg \<in> set polls" for reg using that run_tunnel.hyps(2) by (auto simp: run_ok_def)
  from accepted_owner_active [OF this run_tunnel.hyps(3)]
  obtain reg where reg: "reg \<in> set history" "session_active reg sid" and sid: "trim_space sid = sid"
    using run_tunnel.hyps(2) by blast
  have "bridge_ok_but late (d_bridge d)" using ok by (simp add: run_ok_def bridge_good_def)
  from register_tunnel_late [OF this sid run_tunnel.hyps(3,4)] show ?case by (rule run_ok_entered [OF ok reg])
next
  case (run_tcp_tunnel history late chs d before c sid epoch wall now handshake opened res st)
  then have ok: "run_ok history late (chs, d)" by blast
  then have "session_ok before" using run_tcp_tunnel.hyps(2) by (simp add: run_ok_def)
  from resolve_single_active [OF this run_tcp_tunnel.hyps(3)] have act: "session_active before sid" and sid: "trim_space sid = sid" by simp_all
  have "bridge_ok_but late (d_bridge d)" using ok by (simp add: run_ok_def bridge_good_def)
  from register_tcp_late [OF this sid run_tcp_tunnel.hyps(3,4)] show ?case
    by (rule run_ok_entered [OF ok run_tcp_tunnel.hyps(2) act])
qed

lemma plane_ok_start:
  assumes "d_bridge d = new_bridge_state w" and "d_guard d = new_handshake_guard opt"
  shows "plane_ok K ([], d)"
  using assms bridge_ok_new services_good_new
  by (simp add: bridge_good_def held_def new_handshake_guard_def or_default_def Let_def) (simp add: new_bridge_state_def)

lemma held_unauthenticated: "\<forall>e \<in> set chs. channel_ok (snd e) \<Longrightarrow> held chs = int (length (filter (\<lambda>(i, ch). \<not> is_authenticated ch) chs))"
  by (induction chs) (auto simp: held_def channel_ok_def is_authenticated_def reserved_units_def)

text \<open>
  C2. The control plane as a whole. Whatever connections come, whatever frames they send, however
  they are interleaved with each other, with sweeps, with draining, with tunnels that end and with
  tunnels that are entered long after their owner was looked up: the registries stay
  consistent, every service counts its instances exactly, and every tunnel belongs to an active session
  or to one that was active when the owner of a tunnel was looked up and had ended when that tunnel
  was entered; the budget of unauthenticated connections is spent by exactly the open connections that
  are not authenticated and is never exceeded, and no authentication slot leaks. Each frame, sweep,
  drain and end of a connection is one step; an identifier that a publication generates is new.
\<close>

theorem control_plane_invariant:
  assumes "control_run start history late (chs, d)"
    and "d_bridge start = new_bridge_state w" and "d_guard start = new_handshake_guard opt"
  shows "registries_ok (d_bridge d) \<and> services_ok (bs_services (d_bridge d))
    \<and> (\<forall>i r. get_tunnel i (bs_tunnels (d_bridge d)) = Some r \<longrightarrow>
          session_active (bs_sessions (d_bridge d)) (bt_session r) \<or> bt_session r \<in> late)
    \<and> (\<forall>sid \<in> late. \<exists>reg \<in> set history. session_active reg sid)
    \<and> hg_unauthenticated (d_guard d) = int (length (filter (\<lambda>(i, ch). \<not> is_authenticated ch) chs))
    \<and> hg_unauthenticated (d_guard d) \<le> hg_unauthenticated_budget (d_guard d)
    \<and> hg_concurrency (d_guard d) = 0"
proof -
  have ok: "run_ok history late (chs, d)" by (rule control_run_ok [OF assms(1) plane_ok_start [OF assms(2,3)]])
  then have good: "bridge_ok_but late (d_bridge d)" by (simp add: run_ok_def bridge_good_def)
  have "session_active (bs_sessions (d_bridge d)) (bt_session r) \<or> bt_session r \<in> late"
    if "get_tunnel i (bs_tunnels (d_bridge d)) = Some r" for i r
    using good that owned_exceptD [of late] by (auto simp: bridge_ok_but_def get_tunnel_def Let_def simp del: map_of_eq_Some_iff split: if_splits)
  then show ?thesis
    using ok good held_unauthenticated [of chs] by (simp add: run_ok_def bridge_good_def services_good_def bridge_ok_but_def)
qed


section \<open>Connections that are not authenticated\<close>

lemma hello_bridge:
  "handle_connector_hello env e (ch, d) = (reply, ch', d') \<Longrightarrow> d_bridge d' = d_bridge d \<and> is_authenticated ch' = is_authenticated ch"
proof (cases "check_hello (de_codec env) e")
  case (Inr hello)
  obtain allowed dimension g where g: "allow_hello (de_guard_now env) (trim_space (ch_source ch)) (trim_space (hl_connector hello)) (d_guard d)
      = ((allowed, dimension), g)" by (metis prod.collapse)
  assume "handle_connector_hello env e (ch, d) = (reply, ch', d')"
  moreover have "is_authenticated (set_hello_context c epoch ch) = is_authenticated ch" for c epoch
    by (auto simp: is_authenticated_def set_hello_context_def Let_def lifecycle_ready)
  ultimately show ?thesis by (auto simp: handle_connector_hello_def Inr g Let_def split: if_splits)
qed (auto simp: handle_connector_hello_def Let_def)

text \<open>An authentication that changes anything but the guard has passed the coordinator.\<close>

lemma auth_passes_coordinator:
  assumes "handle_connector_auth env e (ch, d) = (reply, ch', d')"
    and "d_bridge d' \<noteq> d_bridge d \<or> ch' \<noteq> ch"
  obtains c auth r ac st where "check_auth (de_codec env) e ch = Inr (c, auth)"
    "authenticate_and_commit (de_auth env) (auth_request_of ch c auth)
       (commit_handshake (de_wall env) (ch_binding ch) (ResourceVersion e)) (d_auth d, d_bridge d) = (r, ac, st)"
    "d_bridge d' = st" "ar_success r \<or> st \<noteq> d_bridge d"
proof (cases "check_auth (de_codec env) e ch")
  case (Inl x)
  then have False using assms by (cases x) (auto simp: handle_connector_auth_def Let_def)
  then show ?thesis ..
next
  case (Inr q)
  obtain c auth where q: "q = (c, auth)" by fastforce
  obtain ban g1 where ban: "is_auth_banned (de_guard_now env) (trim_space (ch_source ch)) c (d_guard d) = (ban, g1)" by fastforce
  obtain acquired g2 where acq: "try_acquire_concurrency g1 = (acquired, g2)" by fastforce
  obtain r ac st where auth: "authenticate_and_commit (de_auth env) (auth_request_of ch c auth)
      (commit_handshake (de_wall env) (ch_binding ch) (ResourceVersion e)) (d_auth d, d_bridge d) = (r, ac, st)"
    by (metis prod.collapse)
  show ?thesis
  proof (cases "ban \<noteq> None \<or> \<not> acquired")
    case True
    then have "snd (handle_connector_auth env e (ch, d)) = (ch, d\<lparr>d_guard := g1\<rparr>) \<or> snd (handle_connector_auth env e (ch, d)) = (ch, d\<lparr>d_guard := g2\<rparr>)"
      by (cases "ban \<noteq> None") (simp_all add: handle_connector_auth_def Inr q ban acq Let_def)
    then show ?thesis using assms by auto
  next
    case False
    have same: "ch' = ch" if "\<not> ar_success r"
    proof -
      have "fst (snd (handle_connector_auth env e (ch, d))) = ch"
        using False that by (simp add: handle_connector_auth_def Inr q ban acq auth Let_def case_prod_unfold)
      then show ?thesis using assms(1) by simp
    qed
    have "d_bridge (snd (snd (handle_connector_auth env e (ch, d)))) = st"
      using False by (simp add: handle_connector_auth_def Inr q ban acq auth Let_def case_prod_unfold)
    then have "d_bridge d' = st" using assms(1) by simp
    then show ?thesis using that [OF Inr [unfolded q] auth] assms(2) same by blast
  qed
qed

lemma check_auth_Inr:
  "check_auth codec e ch = Inr (c, auth) \<Longrightarrow> ch_hello ch \<and> c = trim_space (ch_connector ch) \<and> c \<noteq> []
     \<and> payload_of (jc_auth codec) e = Some auth"
  by (auto simp: check_auth_def decode_control_payload_def payload_of_def Let_def split: if_splits sum.splits option.splits)

text \<open>
  C5. A connection that is not authenticated changes nothing of the bridge, and stays
  unauthenticated, whatever it sends: unless it has said Hello for a connector and now sends an
  authentication with a token of this very connector that is known, has the right secret, is in
  force and has not expired.
\<close>

theorem unauthenticated_frames_are_fenced:
  assumes "handle_frame env fr (ch, d) = (reply, ch', d')" and "\<not> is_authenticated ch" and "ch_session ch = []"
    and "d_bridge d' \<noteq> d_bridge d \<or> is_authenticated ch'"
  shows "\<exists>e auth i secret t. decode_business_control_envelope_frame (jc_envelope (de_codec env)) fr = Inr e
     \<and> MessageType e = ''ConnectorAuth'' \<and> ch_hello ch \<and> payload_of (jc_auth (de_codec env)) e = Some auth
     \<and> parse_connector_token (cn_token auth) = Some (i, secret) \<and> ae_lookup (de_auth env) i (ae_store (de_auth env)) = Some t
     \<and> trim_space (tk_connector t) = trim_space (ch_connector ch) \<and> trim_space (ch_connector ch) \<noteq> []
     \<and> ae_verify (de_auth env) secret (tk_hash t) = Inr True
     \<and> normalize_token_status (tk_status t) \<in> {TokenActive, TokenGrace}
     \<and> (is_zero (tk_expires t) \<or> ae_now (de_auth env) \<le> tk_expires t)"
proof -
  have beat: "d_bridge (refresh_heartbeat_from_state n ch d) = d_bridge d" for n
    using assms(3) by (simp add: refresh_heartbeat_from_state_def refresh_session_heartbeat_def)
  have business: "Type fr \<noteq> frame_type_heartbeat_ping" "Type fr \<noteq> frame_type_heartbeat_pong"
    using assms beat by (auto simp: handle_frame_def Let_def split: if_splits)
  obtain t0 where t0: "control_message_type_for_frame_type (Type fr) = Inr t0"
    using assms business by (auto simp: handle_frame_def Let_def split: sum.splits)
  obtain e where e: "decode_business_control_envelope_frame (jc_envelope (de_codec env)) fr = Inr e"
    using assms business t0 by (auto simp: handle_frame_def Let_def split: sum.splits)
  obtain r1 ch1 d1 where h: "handle_connector_hello env e (ch, d) = (r1, ch1, d1)" by (metis prod.collapse)
  obtain r2 ch2 d2 where a: "handle_connector_auth env e (ch, d) = (r2, ch2, d2)" by (metis prod.collapse)
  have out: "(ch', d') = (if MessageType e = ''ConnectorHello'' then (ch1, d1)
      else if MessageType e = ''ConnectorAuth'' then (ch2, d2) else (ch, d))"
    using assms(1,2) business t0 e h a by (auto simp: handle_frame_def Let_def)
  then have type: "MessageType e = ''ConnectorAuth''" "ch' = ch2" "d' = d2"
    using assms(2,4) hello_bridge [OF h] by (auto split: if_splits)
  obtain c auth r ac st where p: "check_auth (de_codec env) e ch = Inr (c, auth)"
    "authenticate_and_commit (de_auth env) (auth_request_of ch c auth)
       (commit_handshake (de_wall env) (ch_binding ch) (ResourceVersion e)) (d_auth d, d_bridge d) = (r, ac, st)"
    "ar_success r \<or> st \<noteq> d_bridge d"
    by (rule auth_passes_coordinator [OF a]) (use type assms(2,4) in auto)
  from authenticate_needs_token [OF p(2)] p(3) check_auth_Inr [OF p(1)] e type(1) show ?thesis
    by (auto simp: auth_request_of_def)
qed


section \<open>A handshake that succeeds\<close>

lemma hello_accepted:
  assumes "check_hello (de_codec env) e = Inr hello"
    and "allow_hello (de_guard_now env) (trim_space (ch_source ch)) (trim_space (hl_connector hello)) (d_guard d) = ((True, dimension), g)"
  shows "snd (handle_connector_hello env e (ch, d))
    = (let c = trim_space (hl_connector hello) in (set_hello_context c (allocate_assigned_session_epoch c (d_bridge d)) ch, d\<lparr>d_guard := g\<rparr>))"
  using assms by (simp add: handle_connector_hello_def Let_def)

lemma check_hello_Inr: "check_hello codec e = Inr hello \<Longrightarrow> trim_space (hl_connector hello) \<noteq> []"
  by (auto simp: check_hello_def Let_def split: sum.splits if_splits)

lemma check_auth_accepts:
  assumes "ch_hello ch" and "payload_of (jc_auth codec) e = Some auth" and "trim_space (ch_connector ch) \<noteq> []"
    and "trim_space (ConnectorID e) \<in> {[], trim_space (ch_connector ch)}"
  shows "check_auth codec e ch = Inr (trim_space (ch_connector ch), auth)"
  using assms by (auto simp: check_auth_def decode_control_payload_def payload_of_def Let_def split: if_splits)

lemma auth_accepted:
  assumes "check_auth (de_codec env) e ch = Inr (c, auth)"
    and "is_auth_banned (de_guard_now env) (trim_space (ch_source ch)) c (d_guard d) = (None, g1)"
    and "try_acquire_concurrency g1 = (True, g2)"
    and "authenticate_and_commit (de_auth env) (auth_request_of ch c auth)
      (commit_handshake (de_wall env) (ch_binding ch) (ResourceVersion e)) (d_auth d, d_bridge d) = (r, ac, st)" and "ar_success r"
  shows "fst (snd (handle_connector_auth env e (ch, d))) = fst (mark_session_authenticated (set_session (ar_session r) (ar_epoch r) ch) g2)"
    and "d_bridge (snd (snd (handle_connector_auth env e (ch, d)))) = st"
  using assms by (simp_all add: handle_connector_auth_def Let_def case_prod_unfold)

lemma next_epoch: "(e::64 word) + 1 \<noteq> 0 \<Longrightarrow> e < e + 1"
  by unat_arith

lemma allocated_epoch_is_later:
  assumes "trim_space c \<noteq> []" and "allocate_assigned_session_epoch c st \<noteq> 0"
    and "get_by_connector (trim_space c) (bs_sessions st) = Some s"
  shows "sr_epoch s < allocate_assigned_session_epoch c st"
  using assms next_epoch by (simp add: allocate_assigned_session_epoch_def Let_def)

lemma authenticated_channel:
  assumes "ch_lifecycle ch = StateControlReady" and "trim_space sid \<noteq> []" and "epoch \<noteq> 0"
  shows "is_authenticated (fst (mark_session_authenticated (set_session sid epoch ch) g))"
    and "ch_session (fst (mark_session_authenticated (set_session sid epoch ch) g)) = trim_space sid"
    and "ch_epoch (fst (mark_session_authenticated (set_session sid epoch ch) g)) = epoch"
    and "\<not> ch_reserved (fst (mark_session_authenticated (set_session sid epoch ch) g))"
  using assms
  by (auto simp: mark_session_authenticated_def release_connection_def clear_reserved_def is_authenticated_def
      lifecycle_defs Let_def case_prod_unfold)

text \<open>
  C19. The handshake succeeds when nothing stands against it. On a connection that is ready for control
  messages, a Hello that the limiter lets pass, with an authentication directly after it whose token is
  accepted for the connector of the Hello, makes the connection an authenticated one without a share in
  the budget, bound to a new active session that is the connector's current one, under the epoch after the
  last (the first is 1). What may stand against it: a ban of the source or the connector, no free slot, a
  takeover beyond the limit of takeovers, no epoch after the last one (it is the largest), a session
  identifier that is blank, untrimmed or in use, and an inconsistent session registry.
\<close>

theorem handshake_succeeds:
  fixes env :: "'s dispatch_env"
  defines "c \<equiv> \<lambda>hello. trim_space (hl_connector hello)"
  assumes hello: "handle_connector_hello env0 eh (ch, d) = (r1, ch1, d1)" "check_hello (de_codec env0) eh = Inr hello"
      "fst (fst (allow_hello (de_guard_now env0) (trim_space (ch_source ch)) (c hello) (d_guard d)))"
    and state: "ch_lifecycle ch = StateControlReady" "sessions_inv (bs_sessions (d_bridge d))"
      "allocate_assigned_session_epoch (c hello) (d_bridge d) \<noteq> 0"
    and auth: "handle_connector_auth env ea (ch1, d1) = (r2, ch2, d2)" "payload_of (jc_auth (de_codec env)) ea = Some auth"
      "trim_space (ConnectorID ea) \<in> {[], c hello}"
      "check_credentials (de_auth env) (auth_request_of ch1 (c hello) auth) = Inr (c hello)"
    and guard: "is_auth_banned (de_guard_now env) (trim_space (ch_source ch1)) (c hello) (d_guard d1) = (None, g1)"
      "fst (try_acquire_concurrency g1)"
      "is_supersede_attempt (get_by_connector (c hello) (bs_sessions (d_bridge d)))
        \<longrightarrow> \<not> fst (is_supersede_rate_limited (c hello) (ae_now (de_auth env)) (d_auth d1))"
    and fresh: "ae_session_id (de_auth env) \<noteq> []" "trim_space (ae_session_id (de_auth env)) = ae_session_id (de_auth env)"
      "get_by_session (ae_session_id (de_auth env)) (bs_sessions (d_bridge d)) = None"
  shows "is_authenticated ch2 \<and> \<not> ch_reserved ch2 \<and> ch_session ch2 = ae_session_id (de_auth env)
    \<and> (\<exists>s. get_by_connector (c hello) (bs_sessions (d_bridge d2)) = Some s \<and> sr_session s = ch_session ch2
         \<and> sr_state s = SessionActive \<and> sr_epoch s = ch_epoch ch2
         \<and> ch_epoch ch2 = (case get_by_connector (c hello) (bs_sessions (d_bridge d)) of None \<Rightarrow> 1 | Some old \<Rightarrow> sr_epoch old + 1))"
proof -
  let ?c = "c hello" and ?epoch = "allocate_assigned_session_epoch (c hello) (d_bridge d)"
  have c: "?c \<noteq> []" "trim_space ?c = ?c" using check_hello_Inr [OF hello(2)] by (simp_all add: c_def)
  obtain dim g where g: "allow_hello (de_guard_now env0) (trim_space (ch_source ch)) ?c (d_guard d) = ((True, dim), g)"
    using hello(3) by (metis prod.collapse)
  have ch1: "ch1 = set_hello_context ?c ?epoch ch" "d1 = d\<lparr>d_guard := g\<rparr>"
    using hello_accepted [OF hello(2) g [unfolded c_def]] hello(1) by (simp_all add: c_def Let_def)
  have fields: "ch_hello ch1" "ch_connector ch1 = ?c" "ch_assigned ch1 = ?epoch" "ch_lifecycle ch1 = StateControlReady"
    using state(1,3) c by (simp_all add: ch1 set_hello_context_def Let_def lifecycle_ready)
  have check: "check_auth (de_codec env) ea ch1 = Inr (?c, auth)"
    using check_auth_accepts [OF fields(1) auth(2)] auth(3) c by (simp add: fields)
  obtain g2 where slot: "try_acquire_concurrency g1 = (True, g2)" using guard(2) by (metis prod.collapse)
  obtain r ac st where run: "authenticate_and_commit (de_auth env) (auth_request_of ch1 ?c auth)
      (commit_handshake (de_wall env) (ch_binding ch1) (ResourceVersion ea)) (d_auth d1, d_bridge d1) = (r, ac, st)"
    by (metis prod.collapse)
  have same: "d_bridge d1 = d_bridge d" and epoch: "aq_epoch (auth_request_of ch1 ?c auth) = ?epoch"
    by (simp_all add: ch1(2) auth_request_of_def fields)
  have later: "\<forall>s. get_by_connector ?c (bs_sessions (d_bridge d)) = Some s
      \<longrightarrow> sr_epoch s < aq_epoch (auth_request_of ch1 ?c auth) \<or> session_over s"
    using allocated_epoch_is_later [of ?c "d_bridge d"] c state(3) by (simp add: epoch)
  from valid_token_accepted [OF state(2) auth(4) later fresh guard(3) run [unfolded same]]
  obtain s where r: "ar_success r" "ar_session r = ae_session_id (de_auth env)" "ar_epoch r = ?epoch"
    and s: "get_by_connector ?c (bs_sessions st) = Some s" "sr_session s = ae_session_id (de_auth env)" "sr_epoch s = ?epoch" "sr_state s = SessionActive"
    unfolding epoch by blast
  from auth_accepted [OF check guard(1) slot run r(1)] auth(1)
  have out: "ch2 = fst (mark_session_authenticated (set_session (ae_session_id (de_auth env)) ?epoch ch1) g2)" "d_bridge d2 = st"
    by (simp_all add: r)
  note bound = authenticated_channel [OF fields(4), of "ae_session_id (de_auth env)" ?epoch g2]
  show ?thesis
    using bound fresh state(3) c(1) s unfolding out
    by (simp add: c(2) allocate_assigned_session_epoch_def Let_def split: option.split)
qed


section \<open>Two gaps\<close>

text \<open>
  A connection speaks for whatever session its envelopes name. Once it is authenticated, nothing
  ties it to the session and the connector of its own handshake: it takes over the name and the
  epoch of the envelope, and when it ends with an error that session is failed.
\<close>

theorem foreign_session_ended:
  assumes "is_authenticated ch" and "Type fr \<noteq> frame_type_heartbeat_ping" "Type fr \<noteq> frame_type_heartbeat_pong"
    and "control_message_type_for_frame_type (Type fr) = Inr t"
    and "decode_business_control_envelope_frame (jc_envelope (de_codec env)) fr = Inr e"
    and "MessageType e \<noteq> ''ConnectorHello''" "MessageType e \<noteq> ''ConnectorAuth''"
    and "trim_space (SessionID e) \<noteq> []" "SessionEpoch e > 0"
    and "handle_frame env fr (ch, d) = (reply, ch', d')"
  shows "ch_session ch' = trim_space (SessionID e) \<and> ch_epoch ch' = SessionEpoch e
    \<and> d_bridge (snd (end_connection wall now True reason ch' d'))
      = transition_session_state wall now (trim_space (SessionID e)) (SessionEpoch e) SessionFailed reason (d_bridge d')"
proof -
  have "resolve_envelope_session e ack = Some (trim_space (SessionID e), SessionEpoch e)" for ack
    using assms(8,9) by (simp add: resolve_envelope_session_def)
  then have "fst (snd (handle_frame env fr (ch, d))) = set_session (trim_space (SessionID e)) (SessionEpoch e) ch"
    using assms(1-7) by (simp add: handle_frame_def Let_def case_prod_unfold)
  then have ch': "ch' = set_session (trim_space (SessionID e)) (SessionEpoch e) ch" using assms(10) by simp
  have bound: "ch_session ch' = trim_space (SessionID e)" "ch_epoch ch' = SessionEpoch e" "is_authenticated ch'"
    using assms(1,8,9) by (auto simp: ch' set_session_def is_authenticated_def Let_def)
  have "is_authenticated (ch'\<lparr>ch_reserved := False\<rparr>)" using bound(3) by (simp add: is_authenticated_def)
  then show ?thesis using bound
    by (simp add: end_connection_def release_connection_def clear_reserved_def mark_session_failed_from_state_def case_prod_unfold)
qed

text \<open>
  After the largest epoch comes 0, which no connection accepts: its connector stays out, with any
  token, until the session is removed from the registry.
\<close>

theorem largest_epoch_locks_out:
  assumes "get_by_connector (trim_space (hl_connector hello)) (bs_sessions (d_bridge d)) = Some s" and "sr_epoch s = - 1"
    and "check_hello (de_codec env) e = Inr hello" and "\<not> ch_hello ch"
    and "handle_connector_hello env e (ch, d) = (r1, ch1, d1)"
  shows "ch1 = ch \<and> handle_connector_auth env' e' (ch1, d1)
    = (build_connector_auth_ack_envelope (de_codec env') e' False [] 0 auth_error_internal
         ''connector_welcome is required before connector_auth'', ch, d1)"
proof -
  obtain allowed dim g where g: "allow_hello (de_guard_now env) (trim_space (ch_source ch)) (trim_space (hl_connector hello)) (d_guard d)
      = ((allowed, dim), g)" by (metis prod.collapse)
  have "allocate_assigned_session_epoch (trim_space (hl_connector hello)) (d_bridge d) = 0"
    using assms(1,2) check_hello_Inr [OF assms(3)] by (simp add: allocate_assigned_session_epoch_def Let_def)
  then have "fst (snd (handle_connector_hello env e (ch, d))) = ch"
    by (simp add: handle_connector_hello_def assms(3) g Let_def set_hello_context_def)
  then have "ch1 = ch" using assms(5) by simp
  with assms(4) show ?thesis by (simp add: handle_connector_auth_def check_auth_def)
qed


section \<open>Examples\<close>

definition sample_control_envelope :: "control_message_type \<Rightarrow> control_envelope" where
  "sample_control_envelope t =
     \<lparr>VersionMajor = 2, VersionMinor = 1, MessageType = t, RequestID = [], SessionID = [], SessionEpoch = 0, ConnectorID = [],
      ResourceType = [], ResourceID = [], EventID = [], ResourceVersion = 0, EnvelopePayload = [1]\<rparr>"

definition sample_codec :: control_codec where
  "sample_codec =
     \<lparr>jc_envelope = \<lambda>bs. Inr (sample_control_envelope ''ConnectorAuth''),
      jc_hello = \<lambda>bs. Some \<lparr>hl_connector = ''c'', hl_bindings = [''tcp'']\<rparr>,
      jc_auth = \<lambda>bs. Some \<lparr>cn_method = ''token'', cn_token = build_connector_plaintext_token ''i'' ''s''\<rparr>,
      jc_auth_ack = \<lambda>bs. None, jc_heartbeat = \<lambda>bs. None, jc_publish = \<lambda>bs. None, jc_unpublish = \<lambda>bs. None,
      jc_health = \<lambda>bs. None, jc_report = \<lambda>bs. None, jc_assign = \<lambda>bs. None, jc_revoke = \<lambda>bs. None,
      jm_envelope = \<lambda>e. Inr [1], jm_welcome = \<lambda>w. Some [1], jm_auth_ack = \<lambda>a. Some [1], jm_ack = \<lambda>a ws. Some [1],
      jm_refill = \<lambda>q. Some [1]\<rparr>"

definition sample_dispatch_env :: "file_store dispatch_env" where
  "sample_dispatch_env =
     \<lparr>de_codec = sample_codec, de_handler = sample_handler_env, de_report = sample_report_env,
      de_auth = sample_auth_env 5 ''x'', de_wall = 5, de_now = 5, de_guard_now = 5, de_failure_now = 5, de_event_id = ''e''\<rparr>"

definition sample_dispatcher :: dispatcher where
  "sample_dispatcher =
     \<lparr>d_bridge = new_bridge_state 8, d_refill = default_refill_controller, d_guard = new_handshake_guard sample_guard_options,
      d_auth = new_auth_coordinator 0 0, d_tls_mode = ''tls''\<rparr>"

definition sample_channel :: channel_state where
  "sample_channel = mark_control_ready (set_preferred_binding ''tcp'' (new_channel_state ''s''))"

definition sample_greeted :: channel_state where
  "sample_greeted = set_hello_context ''c'' 1 sample_channel"

lemmas sample_dispatch_defs = sample_dispatch_env_def sample_codec_def sample_dispatcher_def sample_control_envelope_def

lemma sample_channel_fields:
  "ch_lifecycle sample_channel = StateControlReady" "ch_source sample_channel = ''s''" "ch_source sample_greeted = ''s''"
  "ch_binding sample_greeted = ''tcp''" "ch_connector sample_greeted = ''c''" "ch_assigned sample_greeted = 1" "ch_hello sample_greeted"
  "ch_lifecycle sample_greeted = StateControlReady" "ch_session sample_greeted = []"
  by (simp_all add: sample_greeted_def sample_channel_def lifecycle_defs set_preferred_binding_def new_channel_state_def
      trim_guard_sample Let_def)

lemma sample_request: "auth_request_of sample_greeted ''c'' \<lparr>cn_method = ''token'', cn_token = build_connector_plaintext_token ''i'' ''s''\<rparr>
    = sample_auth_request 1"
  by (simp add: auth_request_of_def sample_auth_request_def sample_channel_fields)

lemma sample_auth_step:
  assumes "d_bridge d = new_bridge_state 8" "d_auth d = new_auth_coordinator 0 0"
    and "hg_ban_source (d_guard d) = []" "hg_ban_connector (d_guard d) = []" "hg_concurrency (d_guard d) < hg_concurrency_budget (d_guard d)"
  shows "is_authenticated (fst (snd (handle_connector_auth sample_dispatch_env (sample_control_envelope t) (sample_greeted, d))))"
proof -
  let ?e = "sample_control_envelope t" and ?env = sample_dispatch_env
  let ?auth = "\<lparr>cn_method = ''token'', cn_token = build_connector_plaintext_token ''i'' ''s''\<rparr>"
  have check: "check_auth (de_codec ?env) ?e sample_greeted = Inr (''c'', ?auth)"
    by (simp add: check_auth_def decode_control_payload_def sample_dispatch_defs sample_channel_fields trim_guard_sample Let_def)
  have ban: "is_auth_banned (de_guard_now ?env) (trim_space (ch_source sample_greeted)) ''c'' (d_guard d) = (None, d_guard d)"
    using assms(3,4) by (simp add: is_auth_banned_def check_ban_def trim_guard_sample sample_channel_fields)
  obtain g where slot: "try_acquire_concurrency (d_guard d) = (True, g)" using assms(5) by (simp add: try_acquire_concurrency_def)
  obtain r ac st where run: "sample_auth_run = (r, ac, st)" by (metis prod.collapse)
  have "authenticate_and_commit (de_auth ?env) (auth_request_of sample_greeted ''c'' ?auth)
      (commit_handshake (de_wall ?env) (ch_binding sample_greeted) (ResourceVersion ?e)) (d_auth d, d_bridge d) = (r, ac, st)"
    using run by (simp add: sample_request assms sample_auth_run_def sample_dispatch_env_def sample_channel_fields sample_control_envelope_def)
  from auth_accepted(1) [OF check ban slot this] sample_auth_accepted [OF run]
  have "fst (snd (handle_connector_auth ?env ?e (sample_greeted, d))) = fst (mark_session_authenticated (set_session ''x'' 1 sample_greeted) g)"
    by simp
  then show ?thesis using authenticated_channel(1) [OF sample_channel_fields(8), of "''x''" 1] trim_auth_sample by simp
qed

lemma sample_guard_fields:
  "hg_ban_source (d_guard sample_dispatcher) = []" "hg_ban_connector (d_guard sample_dispatcher) = []"
  "hg_concurrency (d_guard sample_dispatcher) < hg_concurrency_budget (d_guard sample_dispatcher)"
  "d_bridge sample_dispatcher = new_bridge_state 8" "d_auth sample_dispatcher = new_auth_coordinator 0 0"
  by (simp_all add: sample_dispatcher_def new_handshake_guard_def sample_guard_options_def or_default_def)

theorem control_plane_invariant_witness:
  "hg_unauthenticated (d_guard (snd (snd (open_connection ''s'' ''tcp'' sample_dispatcher)))) = 1"
proof -
  obtain ok ch d where opened: "open_connection ''s'' ''tcp'' sample_dispatcher = (ok, ch, d)" by (metis prod.collapse)
  have out: "ok" "\<not> is_authenticated ch"
    using opened
    by (auto simp: open_connection_def sample_dispatcher_def new_handshake_guard_def sample_guard_options_def or_default_def
        reserve_connection_def try_acquire_unauthenticated_def try_mark_reserved_def set_preferred_binding_def new_channel_state_def
        is_authenticated_def lifecycle_defs Let_def)
  have "control_step ([], sample_dispatcher) (map_put 0 ch [], d)"
    by (rule connect) (use opened out(1) in simp_all)
  from run_step [OF run_start this]
  have run: "control_run sample_dispatcher [bs_sessions (d_bridge d), bs_sessions (d_bridge sample_dispatcher)] {} (map_put 0 ch [], d)" .
  from control_plane_invariant [OF run] out(2) show ?thesis unfolding opened by (simp add: sample_dispatcher_def)
qed

lemma auth_frame:
  assumes "Type fr \<noteq> frame_type_heartbeat_ping" "Type fr \<noteq> frame_type_heartbeat_pong"
    and "control_message_type_for_frame_type (Type fr) = Inr t"
    and "decode_business_control_envelope_frame (jc_envelope (de_codec env)) fr = Inr e" and "MessageType e = ''ConnectorAuth''"
  shows "fst (snd (handle_frame env fr (ch, d))) = fst (snd (handle_connector_auth env e (ch, d)))"
  using assms by (simp add: handle_frame_def Let_def case_prod_unfold)

lemma auth_frame_type: "frame_type_connector_auth \<noteq> frame_type_heartbeat_ping" "frame_type_connector_auth \<noteq> frame_type_heartbeat_pong"
  by (simp_all add: frame_type_defs)

theorem unauthenticated_frames_are_fenced_witness:
  "is_authenticated (fst (snd (handle_frame sample_dispatch_env \<lparr>Type = frame_type_connector_auth, Payload = [1]\<rparr> (sample_greeted, sample_dispatcher))))
   \<and> (\<exists>i secret. parse_connector_token (build_connector_plaintext_token ''i'' ''s'') = Some (i, secret) \<and> sample_verify secret ''hs'' = Inr True)"
proof -
  let ?fr = "\<lparr>Type = frame_type_connector_auth, Payload = [1]\<rparr>" and ?e = "sample_control_envelope ''ConnectorAuth''"
  obtain reply ch' d' where run: "handle_frame sample_dispatch_env ?fr (sample_greeted, sample_dispatcher) = (reply, ch', d')"
    by (metis prod.collapse)
  have t: "control_message_type_for_frame_type frame_type_connector_auth = Inr ''ConnectorAuth''"
    by (simp add: control_message_type_for_frame_type_def frame_message_types_def frame_type_defs)
  have e: "decode_business_control_envelope_frame (jc_envelope (de_codec sample_dispatch_env)) ?fr = Inr ?e"
    using trim_space_graphic [of "''ConnectorAuth''"]
    by (simp add: decode_business_control_envelope_frame_def t sample_dispatch_defs graphic_def)
  have "fst (snd (handle_frame sample_dispatch_env ?fr (sample_greeted, sample_dispatcher)))
      = fst (snd (handle_connector_auth sample_dispatch_env ?e (sample_greeted, sample_dispatcher)))"
    using auth_frame [of ?fr, OF _ _ _ e] t by (auto simp: auth_frame_type sample_control_envelope_def)
  then have ch': "is_authenticated ch'"
    using sample_auth_step [of sample_dispatcher] sample_guard_fields run by simp
  have start: "\<not> is_authenticated sample_greeted" by (simp add: is_authenticated_def sample_channel_fields)
  from unauthenticated_frames_are_fenced [OF run start sample_channel_fields(9)] ch' e
  obtain auth i secret tk where w: "payload_of (jc_auth (de_codec sample_dispatch_env)) ?e = Some auth"
      "parse_connector_token (cn_token auth) = Some (i, secret)" "file_lookup i sample_file_store = Some tk"
      "sample_verify secret (tk_hash tk) = Inr True"
    by (auto simp: sample_dispatch_env_def sample_auth_env_def)
  have "tk_hash tk = ''hs''"
    using w(3) by (auto simp: file_lookup_def sample_file_store_def sample_token_record_def fresh_token_record_def Let_def split: if_splits)
  moreover have "cn_token auth = build_connector_plaintext_token ''i'' ''s''"
    using w(1) by (auto simp: payload_of_def sample_dispatch_defs)
  ultimately show ?thesis using w ch' run by auto
qed

theorem handshake_succeeds_witness:
  "let (r1, ch1, d1) = handle_connector_hello sample_dispatch_env (sample_control_envelope ''ConnectorHello'') (sample_channel, sample_dispatcher)
   in is_authenticated (fst (snd (handle_connector_auth sample_dispatch_env (sample_control_envelope ''ConnectorAuth'') (ch1, d1))))"
proof -
  let ?hello = "\<lparr>hl_connector = ''c'', hl_bindings = [''tcp'']\<rparr>"
  let ?auth = "\<lparr>cn_method = ''token'', cn_token = build_connector_plaintext_token ''i'' ''s''\<rparr>"
  let ?eh = "sample_control_envelope ''ConnectorHello''" and ?ea = "sample_control_envelope ''ConnectorAuth''"
  obtain r1 ch1 d1 where h: "handle_connector_hello sample_dispatch_env ?eh (sample_channel, sample_dispatcher) = (r1, ch1, d1)"
    by (metis prod.collapse)
  obtain r2 ch2 d2 where a: "handle_connector_auth sample_dispatch_env ?ea (ch1, d1) = (r2, ch2, d2)" by (metis prod.collapse)
  have hello: "check_hello (de_codec sample_dispatch_env) ?eh = Inr ?hello"
    by (simp add: check_hello_def decode_control_payload_def sample_dispatch_defs trim_guard_sample Let_def)
  obtain dim g where g: "allow_hello 5 ''s'' ''c'' (d_guard sample_dispatcher) = ((True, dim), g)"
    and bans: "hg_ban_source g = []" "hg_ban_connector g = []" "hg_concurrency g < hg_concurrency_budget g"
    by (simp add: allow_hello_def sample_dispatcher_def new_handshake_guard_def sample_guard_options_def or_default_def
        new_rate_limiter_def limiter_allow_def limiter_history_def cleanup_expired_history_def trim_guard_sample zero_time_def Let_def)
  have now: "de_guard_now sample_dispatch_env = 5" by (simp add: sample_dispatch_env_def)
  have epoch: "allocate_assigned_session_epoch ''c'' (d_bridge sample_dispatcher) = 1"
    using sample_auth_state by (simp add: allocate_assigned_session_epoch_def sample_guard_fields trim_guard_sample Let_def)
  have out: "ch1 = sample_greeted" "d1 = sample_dispatcher\<lparr>d_guard := g\<rparr>"
    using hello_accepted [OF hello, of sample_channel sample_dispatcher dim g] h g
    by (simp_all add: now sample_channel_fields trim_guard_sample epoch sample_greeted_def Let_def)
  have ban: "is_auth_banned 5 ''s'' ''c'' g = (None, g)"
    using bans by (simp add: is_auth_banned_def check_ban_def trim_guard_sample)
  have slot: "fst (try_acquire_concurrency g)" using bans by (simp add: try_acquire_concurrency_def)
  from handshake_succeeds [OF h hello _ sample_channel_fields(1) _ _ a, where auth = ?auth and ?g1.0 = g]
  have "is_authenticated ch2"
    using g ban slot epoch sample_credentials [of 1 5 "''x''"]
    by (simp add: now out sample_channel_fields trim_guard_sample sample_guard_fields sample_auth_state sample_request
        payload_of_def sample_dispatch_defs is_supersede_attempt_def sample_auth_env_def trim_auth_sample)
  then show ?thesis using a by (simp add: h)
qed
end
