(* ===== verification/Inbound_Tcp.thy ===== *)
theory Inbound_Tcp
  imports Tcp_Framing Control_Message
begin

text \<open>
  How the bridge tells control channels from tunnels on its one TCP port
  (\<open>cloud-bridge/runtime/bridge/app/control_plane.go\<close>, \<open>classifyTCPInboundConnection\<close>): by the
  first two bytes, which are kept and given back to whoever reads the connection next.
\<close>

section \<open>The first two bytes\<close>

text \<open>The outcome of reading them: both, a time-out before the first one, or another failure.\<close>

datatype prefix_read = PrefixRead byte byte | PrefixTimeout | PrefixFailed

definition is_known_control_frame_type :: "16 word \<Rightarrow> bool" where
  "is_known_control_frame_type t \<longleftrightarrow>
     t = frame_type_heartbeat_ping \<or> t = frame_type_heartbeat_pong
     \<or> (case control_message_type_for_frame_type t of Inl e \<Rightarrow> False | Inr m \<Rightarrow> True)"

definition upper_byte :: "byte \<Rightarrow> byte" where
  "upper_byte b = (if 97 \<le> b \<and> b \<le> 122 then b - 32 else b)"

text \<open>The prefixes GE, HE, PO, PU, DE, OP, PA, TR, CO and PR, in any case.\<close>

definition is_likely_http_prefix :: "byte list \<Rightarrow> bool" where
  "is_likely_http_prefix bs \<longleftrightarrow>
     length bs \<ge> 2 \<and> map upper_byte bs \<in> {[71, 69], [72, 69], [80, 79], [80, 85], [68, 69], [79, 80], [80, 65], [84, 82], [67, 79], [80, 82]}"

text \<open>A connection: bytes already read that come first, then those of the network.\<close>

record prefixed_conn =
  pc_prefix :: "byte list"
  pc_network :: "byte list"

datatype classify_error = ClassifyReadPrefix | ClassifyNotLtfp

text \<open>An error, or the connection and whether it is a control channel.\<close>

definition classify_tcp_inbound :: "prefix_read \<Rightarrow> byte list \<Rightarrow> classify_error + prefixed_conn \<times> bool" where
  "classify_tcp_inbound r network =
     (case r of
        PrefixTimeout \<Rightarrow> Inr (\<lparr>pc_prefix = [], pc_network = network\<rparr>, False)
      | PrefixFailed \<Rightarrow> Inl ClassifyReadPrefix
      | PrefixRead a b \<Rightarrow>
          let t = be_word [a, b]; conn = \<lparr>pc_prefix = [a, b], pc_network = network\<rparr>
          in if \<not> is_known_control_frame_type t
             then (if is_likely_http_prefix [a, b] then Inl ClassifyNotLtfp else Inr (conn, False))
             else Inr (conn, True))"


section \<open>Reading it again\<close>

text \<open>One \<open>Read\<close> into a buffer of \<open>room\<close> bytes; the network would give \<open>given\<close> bytes now.\<close>

definition prefixed_read :: "nat \<Rightarrow> nat \<Rightarrow> prefixed_conn \<Rightarrow> byte list \<times> prefixed_conn" where
  "prefixed_read room given c =
     (if pc_prefix c = []
      then (let n = min room given in (take n (pc_network c), c\<lparr>pc_network := drop n (pc_network c)\<rparr>))
      else (take room (pc_prefix c), c\<lparr>pc_prefix := drop room (pc_prefix c)\<rparr>))"

text \<open>The connection that the transport is given: the raw one once the prefix is used up.\<close>

definition conn_for_transport_open :: "prefixed_conn \<Rightarrow> prefixed_conn + byte list" where
  "conn_for_transport_open c = (if pc_prefix c \<noteq> [] then Inl c else Inr (pc_network c))"

fun prefixed_reads :: "(nat \<times> nat) list \<Rightarrow> prefixed_conn \<Rightarrow> byte list \<times> prefixed_conn" where
  "prefixed_reads [] c = ([], c)"
| "prefixed_reads ((room, given) # calls) c =
     (let (bs, c1) = prefixed_read room given c; (rest, c2) = prefixed_reads calls c1 in (bs @ rest, c2))"

lemma prefixed_read_keeps:
  "fst (prefixed_read room given c) @ pc_prefix (snd (prefixed_read room given c)) @ pc_network (snd (prefixed_read room given c))
     = pc_prefix c @ pc_network c"
  by (simp add: prefixed_read_def Let_def)

lemma prefixed_reads_keep:
  "fst (prefixed_reads calls c) @ pc_prefix (snd (prefixed_reads calls c)) @ pc_network (snd (prefixed_reads calls c))
     = pc_prefix c @ pc_network c"
proof (induction calls arbitrary: c)
  case (Cons call calls)
  obtain room given where "call = (room, given)" by fastforce
  then show ?case using Cons [of "snd (prefixed_read room given c)"] prefixed_read_keeps [of room given c]
    by (simp add: case_prod_unfold Let_def)
qed simp


section \<open>Properties\<close>

lemma http_is_no_control_frame:
  assumes "is_likely_http_prefix [a, b]"
  shows "\<not> is_known_control_frame_type (be_word [a, b])"
proof -
  have "upper_byte x \<in> {65..90} \<Longrightarrow> x \<in> {65..90} \<union> {97..122}" for x
    by (auto simp: upper_byte_def split: if_splits)
  moreover have "upper_byte a \<in> {65..90}" "upper_byte b \<in> {65..90}"
    using assms by (auto simp: is_likely_http_prefix_def)
  ultimately have "a \<in> {65..90} \<union> {97..122}" by blast
  then have ab: "65 \<le> a" "a \<le> 122" by (auto simp: word_le_nat_alt)
  have be: "be_word [a, b] = (push_bit 8 (ucast a) OR ucast b :: 16 word)" by (simp add: be_word_def)
  have small: "unat (ucast a :: 16 word) = unat a"
  proof -
    have "unat a < 256" using unsigned_less [of a, where 'a = nat] by simp
    then show ?thesis by (simp add: unsigned_ucast_eq take_bit_nat_eq_self)
  qed
  have "drop_bit 8 (be_word [a, b] :: 16 word) = ucast a"
    unfolding be by (rule bit_word_eqI) (auto simp: bit_simps dest: bit_imp_le_length)
  then have top: "drop_bit 8 (be_word [a, b] :: 16 word) \<in> {65..122}"
    using ab by (simp add: word_le_nat_alt small)
  have "drop_bit 8 t \<notin> {65..122}" if "is_known_control_frame_type t" for t
    using that
    by (auto simp: is_known_control_frame_type_def control_message_type_for_frame_type_def frame_message_types_def frame_type_defs word_le_nat_alt
        split: option.splits if_splits)
  then show ?thesis using top by blast
qed

text \<open>
  C36. Looking at the first bytes costs nothing: whatever buffers the readers use, what they get and
  what is left together are the bytes that the peer has sent, from the first one on. A connection
  is refused exactly if it begins like an HTTP request, which no frame of the protocol does, and is
  a control channel exactly if it begins with the type of a control frame.
\<close>

theorem classification_is_transparent:
  "case classify_tcp_inbound (PrefixRead a b) network of
     Inl e \<Rightarrow> e = ClassifyNotLtfp \<and> is_likely_http_prefix [a, b]
   | Inr (c, control) \<Rightarrow>
       \<not> is_likely_http_prefix [a, b] \<and> (control \<longleftrightarrow> is_known_control_frame_type (be_word [a, b]))
       \<and> fst (prefixed_reads calls c) @ pc_prefix (snd (prefixed_reads calls c)) @ pc_network (snd (prefixed_reads calls c))
         = [a, b] @ network"
  using http_is_no_control_frame [of a b] prefixed_reads_keep [of calls]
  by (auto simp: classify_tcp_inbound_def Let_def)

end
