(* ===== verification/Traffic_Payloads.thy ===== *)
theory Traffic_Payloads
  imports Protocol_Types Transport_Types
begin

text \<open>
  The messages of a tunnel (\<open>ltfp/pb/types.go\<close>, \<open>StreamPayload\<close>) and their validation
  (\<open>ltfp/validate/validator.go\<close>).
\<close>

section \<open>Messages\<close>

record traffic_open =
  to_TrafficID :: string
  to_RouteID :: string
  to_LogicalServiceID :: string
  to_InstanceID :: string
  to_SourceAddr :: string
  to_ProtocolHint :: string
  to_TraceID :: string
  to_EndpointSelectionHint :: "(string, string) gomap"
  to_Metadata :: "(string, string) gomap"

record traffic_open_ack =
  ta_TrafficID :: string
  ta_Success :: bool
  ta_ErrorCode :: string
  ta_ErrorMessage :: string
  ta_Metadata :: "(string, string) gomap"

record traffic_close =
  tc_TrafficID :: string
  tc_Reason :: string

record traffic_close_ack =
  tca_TrafficID :: string
  tca_Accepted :: bool
  tca_ErrorCode :: string
  tca_ErrorMessage :: string

record traffic_reset =
  tr_TrafficID :: string
  tr_ErrorCode :: string
  tr_ErrorMessage :: string

record tunnel_recycle =
  rc_TunnelID :: string
  rc_RecycleSeq :: "64 word"
  rc_IsFinal :: bool

record tunnel_recycle_ack =
  ra_TunnelID :: string
  ra_RecycleSeq :: "64 word"
  ra_Accepted :: bool
  ra_ErrorCode :: string
  ra_ErrorMessage :: string

text \<open>The alternatives as pointers and bytes, of which one should be set.\<close>

record stream_payload =
  sp_OpenReq :: "traffic_open option"
  sp_OpenAck :: "traffic_open_ack option"
  sp_Data :: "byte list"
  sp_Close :: "traffic_close option"
  sp_CloseAck :: "traffic_close_ack option"
  sp_Reset :: "traffic_reset option"
  sp_Recycle :: "tunnel_recycle option"
  sp_RecycleAck :: "tunnel_recycle_ack option"

definition empty_payload :: stream_payload where
  "empty_payload = \<lparr>sp_OpenReq = None, sp_OpenAck = None, sp_Data = [], sp_Close = None, sp_CloseAck = None,
     sp_Reset = None, sp_Recycle = None, sp_RecycleAck = None\<rparr>"

text \<open>A field of a Go map that is missing reads as the empty string.\<close>

definition map_field :: "string \<Rightarrow> (string, string) gomap \<Rightarrow> string" where
  "map_field k m = (case map_of m k of None \<Rightarrow> [] | Some v \<Rightarrow> v)"


section \<open>Validation\<close>

definition active_payload_count :: "stream_payload \<Rightarrow> nat" where
  "active_payload_count p =
     (if sp_OpenReq p \<noteq> None then 1 else 0) + (if sp_OpenAck p \<noteq> None then 1 else 0)
     + (if length (sp_Data p) > 0 then 1 else 0) + (if sp_Close p \<noteq> None then 1 else 0)
     + (if sp_CloseAck p \<noteq> None then 1 else 0) + (if sp_Reset p \<noteq> None then 1 else 0)
     + (if sp_Recycle p \<noteq> None then 1 else 0) + (if sp_RecycleAck p \<noteq> None then 1 else 0)"

definition code_traffic_invalid_logical_service_id :: string where
  "code_traffic_invalid_logical_service_id = ''TRAFFIC_INVALID_LOGICAL_SERVICE_ID''"
definition code_traffic_invalid_instance_id :: string where
  "code_traffic_invalid_instance_id = ''TRAFFIC_INVALID_INSTANCE_ID''"
definition code_traffic_invalid_oneof :: string where
  "code_traffic_invalid_oneof = ''TRAFFIC_INVALID_ONEOF''"

definition validate_traffic_open :: "traffic_open \<Rightarrow> chain_err option" where
  "validate_traffic_open m =
     (if trim_space (to_TrafficID m) = [] then Some (new_error code_missing_required_field ''trafficId is required'')
      else if trim_space (to_LogicalServiceID m) = []
      then Some (new_error code_traffic_invalid_logical_service_id ''logicalServiceId is required'')
      else if trim_space (to_InstanceID m) = []
      then Some (new_error code_traffic_invalid_instance_id ''instanceId is required'')
      else None)"

definition validate_stream_payload :: "stream_payload \<Rightarrow> chain_err option" where
  "validate_stream_payload p =
     (if active_payload_count p \<noteq> 1
      then Some (new_error code_traffic_invalid_oneof ''stream payload must contain exactly one active field'')
      else case sp_OpenReq p of None \<Rightarrow> None | Some m \<Rightarrow> validate_traffic_open m)"

end
