(* ===== verification/Connector_Proxy.thy ===== *)
theory Connector_Proxy
  imports Traffic_Payloads Bridge_Tunnels
begin

text \<open>
  The path of one request through the bridge (\<open>cloud-bridge/runtime/bridge/connectorproxy\<close>): take
  an idle tunnel, open the traffic on it, relay until the peer closes, and give the tunnel back or
  close it. An error is the list of the sentinels that \<open>errors.Is\<close> finds in it, in its order; the
  empty list is \<open>nil\<close>. Metrics, logs and the goroutine that drains a late acknowledgement of a
  tunnel that is closed anyway are not modelled.
\<close>

section \<open>Errors\<close>

datatype io_err = IoCanceled | IoDeadline | IoUnsupported | IoOther string

datatype proxy_sentinel =
    PErrNoTunnel
  | PErrNoIdleTunnel
  | PErrTunnelStale
  | PErrDependencyMissing
  | PErrOpenAckTimeout
  | PErrInvalidOpenAck
  | PErrOpenRejected traffic_open_ack
  | PErrRelayReset string string
  | PErrIo io_err
  | PErrRegistry goerr
  | PErrProtocol chain_err
  | PErrOther string

type_synonym proxy_err = "proxy_sentinel list"

record mapped_failure =
  mf_HTTPStatus :: int
  mf_Code :: string

definition code_connector_dial_failed :: string where "code_connector_dial_failed = ''CONNECTOR_DIAL_FAILED''"

text \<open>\<open>errors.As\<close> finds the first rejection.\<close>

fun first_rejection :: "proxy_err \<Rightarrow> traffic_open_ack option" where
  "first_rejection [] = None"
| "first_rejection (PErrOpenRejected ack # e) = Some ack"
| "first_rejection (s # e) = first_rejection e"

definition is_connector_dial_failed :: "proxy_err \<Rightarrow> bool" where
  "is_connector_dial_failed e \<longleftrightarrow>
     (case first_rejection e of None \<Rightarrow> False | Some ack \<Rightarrow> ta_ErrorCode ack = code_connector_dial_failed)"

fun is_relay_reset :: "proxy_sentinel \<Rightarrow> bool" where
  "is_relay_reset (PErrRelayReset code message) \<longleftrightarrow> True"
| "is_relay_reset s \<longleftrightarrow> False"

definition map_failure :: "proxy_err \<Rightarrow> mapped_failure" where
  "map_failure e =
     (if PErrNoIdleTunnel \<in> set e \<or> PErrNoTunnel \<in> set e
      then \<lparr>mf_HTTPStatus = 503, mf_Code = ''CONNECTOR_NO_IDLE_TUNNEL''\<rparr>
      else if is_connector_dial_failed e then \<lparr>mf_HTTPStatus = 502, mf_Code = ''CONNECTOR_DIAL_FAILED''\<rparr>
      else if first_rejection e \<noteq> None then \<lparr>mf_HTTPStatus = 503, mf_Code = ''CONNECTOR_OPEN_REJECTED''\<rparr>
      else if PErrOpenAckTimeout \<in> set e then \<lparr>mf_HTTPStatus = 504, mf_Code = ''CONNECTOR_OPEN_ACK_TIMEOUT''\<rparr>
      else if list_ex is_relay_reset e then \<lparr>mf_HTTPStatus = 502, mf_Code = ''CONNECTOR_RELAY_FAILED''\<rparr>
      else \<lparr>mf_HTTPStatus = 502, mf_Code = ''CONNECTOR_PROXY_FAILED''\<rparr>)"

definition opt_err :: "('e \<Rightarrow> proxy_sentinel) \<Rightarrow> 'e option \<Rightarrow> proxy_err" where
  "opt_err wrap e = (case e of None \<Rightarrow> [] | Some x \<Rightarrow> [wrap x])"


section \<open>A tunnel in use\<close>

text \<open>
  What the tunnel will answer: to reads and writes in their order, to \<open>Close\<close>, and to the optional
  \<open>Recyclable\<close> and \<open>Flush\<close>. What has been written is kept, with the state of the adapter
  (\<open>app/tunnel_runtime_adapter.go\<close>): acknowledged closes, and the mark against recycling. When the
  answers run out the call waits, and the result is \<open>None\<close>.
\<close>

record tunnel_io =
  io_reads :: "(io_err + stream_payload) list"
  io_writes :: "io_err option list"
  io_close :: "io_err option"
  io_recyclable :: "bool option"
  io_flush :: "io_err option option"
  io_sent :: "stream_payload list"
  io_closed :: bool
  io_ack_sent :: "string list"
  io_unsafe :: "string \<times> string"

definition read_payload_from :: "tunnel_io \<Rightarrow> ((io_err + stream_payload) \<times> tunnel_io) option" where
  "read_payload_from io = (case io_reads io of [] \<Rightarrow> None | a # as \<Rightarrow> Some (a, io\<lparr>io_reads := as\<rparr>))"

definition write_payload_to :: "stream_payload \<Rightarrow> tunnel_io \<Rightarrow> (io_err option \<times> tunnel_io) option" where
  "write_payload_to p io =
     (case io_writes io of
        [] \<Rightarrow> None
      | None # as \<Rightarrow> Some (None, io\<lparr>io_writes := as, io_sent := io_sent io @ [p]\<rparr>)
      | Some e # as \<Rightarrow> Some (Some e, io\<lparr>io_writes := as\<rparr>))"

definition close_io :: "tunnel_io \<Rightarrow> io_err option \<times> tunnel_io" where
  "close_io io = (io_close io, io\<lparr>io_closed := True\<rparr>)"

definition try_mark_close_ack_sent :: "string \<Rightarrow> tunnel_io \<Rightarrow> bool \<times> tunnel_io" where
  "try_mark_close_ack_sent traffic io =
     (let t = trim_space traffic
      in if t = [] then (False, io)
         else if t \<in> set (io_ack_sent io) then (False, io)
         else (True, io\<lparr>io_ack_sent := t # io_ack_sent io\<rparr>))"

definition clear_close_ack_sent :: "string \<Rightarrow> tunnel_io \<Rightarrow> tunnel_io" where
  "clear_close_ack_sent traffic io =
     (let t = trim_space traffic
      in if t = [] then io else io\<lparr>io_ack_sent := filter (\<lambda>x. x \<noteq> t) (io_ack_sent io)\<rparr>)"

definition mark_unsafe_to_recycle :: "string \<Rightarrow> string \<Rightarrow> tunnel_io \<Rightarrow> tunnel_io" where
  "mark_unsafe_to_recycle code reason io = io\<lparr>io_unsafe := (trim_space code, trim_space reason)\<rparr>"

definition consume_unsafe_to_recycle :: "tunnel_io \<Rightarrow> (string \<times> string) option \<times> tunnel_io" where
  "consume_unsafe_to_recycle io =
     (let (code, reason) = (trim_space (fst (io_unsafe io)), trim_space (snd (io_unsafe io)))
      in if code = [] \<and> reason = [] then (None, io) else (Some (code, reason), io\<lparr>io_unsafe := ([], [])\<rparr>))"

definition is_bridge_tunnel_reusable :: "tunnel_io \<Rightarrow> bool" where
  "is_bridge_tunnel_reusable io = (case io_recyclable io of None \<Rightarrow> False | Some b \<Rightarrow> b)"

definition flush_before_recycle :: "tunnel_io \<Rightarrow> proxy_err" where
  "flush_before_recycle io =
     (case io_flush io of None \<Rightarrow> [PErrOther ''bridge tunnel flush capability missing''] | Some e \<Rightarrow> opt_err PErrIo e)"


section \<open>Taking a tunnel\<close>

record acquirer =
  aq_wait_hint :: duration
  aq_poll_interval :: duration
  aq_max_retry :: int
  aq_refill_reason :: string
  aq_enable_wait :: bool

definition new_tunnel_acquirer :: "duration \<Rightarrow> duration \<Rightarrow> int \<Rightarrow> string \<Rightarrow> bool \<Rightarrow> acquirer" where
  "new_tunnel_acquirer wait poll retry reason enable =
     (let hint = (if wait < 0 then 0 else wait)
      in \<lparr>aq_wait_hint = hint, aq_poll_interval = (if poll \<le> 0 then 10000000 else poll),
          aq_max_retry = (if retry \<le> 0 then 3 else retry),
          aq_refill_reason = (if trim_space reason = [] then ''acquire_timeout'' else trim_space reason),
          aq_enable_wait = (enable \<or> hint > 0)\<rparr>)"

text \<open>The registry, the refills that were asked for, and the tunnels that were closed.\<close>

record proxy_world =
  pw_registry :: tunnel_registry
  pw_refills :: "(string \<times> string) list"
  pw_closed :: "tunnel list"

text \<open>
  One round of the waiting loop: what others have done to the registry before it, the context, the
  two readings of the clock, and the context while the timer runs.
\<close>

record wait_round =
  wr_others :: "tunnel_registry \<Rightarrow> tunnel_registry"
  wr_context :: "io_err option"
  wr_now :: gotime
  wr_checked :: gotime
  wr_context_timer :: "io_err option"

fun wait_for_idle ::
    "gotime \<Rightarrow> string \<Rightarrow> gotime \<Rightarrow> wait_round list \<Rightarrow> tunnel_registry
       \<Rightarrow> ((proxy_err + tunnel_runtime) \<times> tunnel_registry) option" where
  "wait_for_idle wall c deadline [] reg = None"
| "wait_for_idle wall c deadline (p # ps) reg =
     (let reg1 = wr_others p reg
      in case wr_context p of
           Some e \<Rightarrow> Some (Inl [PErrIo e], reg1)
         | None \<Rightarrow>
             (case acquire_idle_tunnel wall (wr_now p) c reg1 of
                (Some r, reg2) \<Rightarrow> Some (Inr r, reg2)
              | (None, reg2) \<Rightarrow>
                  if deadline - wr_checked p \<le> 0 then Some (Inl [PErrNoIdleTunnel, PErrNoTunnel], reg2)
                  else case wr_context_timer p of
                         Some e \<Rightarrow> Some (Inl [PErrIo e], reg2)
                       | None \<Rightarrow> wait_for_idle wall c deadline ps reg2))"

text \<open>
  One attempt: the clock at the first try and at the start of the wait, the rounds of the wait, the
  answer of the probe (\<open>None\<close>: healthy or without a probe), what others do meanwhile, the answer of
  closing the tunnel, and the clock then.
\<close>

record attempt =
  at_first :: gotime
  at_start :: gotime
  at_rounds :: "wait_round list"
  at_probe :: "io_err option"
  at_others :: "tunnel_registry \<Rightarrow> tunnel_registry"
  at_close :: "io_err option"
  at_end :: gotime

definition acquire_idle_or_wait ::
    "acquirer \<Rightarrow> gotime \<Rightarrow> string \<Rightarrow> attempt \<Rightarrow> proxy_world \<Rightarrow> ((proxy_err + tunnel_runtime) \<times> proxy_world) option" where
  "acquire_idle_or_wait aq wall c a w =
     (case acquire_idle_tunnel wall (at_first a) c (pw_registry w) of
        (Some r, reg) \<Rightarrow> Some (Inr r, w\<lparr>pw_registry := reg\<rparr>)
      | (None, reg) \<Rightarrow>
          let w1 = w\<lparr>pw_registry := reg, pw_refills := pw_refills w @ [(c, aq_refill_reason aq)]\<rparr>
          in if \<not> aq_enable_wait aq \<or> aq_wait_hint aq = 0 then Some (Inl [PErrNoIdleTunnel, PErrNoTunnel], w1)
             else case wait_for_idle wall c (at_start a + aq_wait_hint aq) (at_rounds a) reg of
                    None \<Rightarrow> None
                  | Some (r, reg1) \<Rightarrow> Some (r, w1\<lparr>pw_registry := reg1\<rparr>))"

text \<open>Closing a tunnel and taking its record out, as the three recycling functions do.\<close>

definition registry_err :: "goerr + 'a \<Rightarrow> proxy_err" where
  "registry_err r = (case r of Inl e \<Rightarrow> [PErrRegistry e] | Inr x \<Rightarrow> [])"

definition discard_tunnel ::
    "gotime \<Rightarrow> (string \<Rightarrow> tunnel_registry \<Rightarrow> goerr option \<times> tunnel_registry) \<Rightarrow> io_err option \<Rightarrow> tunnel_runtime \<Rightarrow> proxy_world
       \<Rightarrow> proxy_err \<times> proxy_world" where
  "discard_tunnel wall mark close_answer r w =
     (let (marked, reg1) = mark (bt_id r) (pw_registry w); (removed, reg2) = remove_terminal_tunnel wall (bt_id r) reg1
      in (opt_err PErrIo close_answer @ opt_err PErrRegistry marked @ registry_err removed,
          w\<lparr>pw_registry := reg2, pw_closed := pw_closed w @ [bt_tunnel r]\<rparr>))"

definition recycle_stale_tunnel ::
    "gotime \<Rightarrow> gotime \<Rightarrow> string \<Rightarrow> io_err option \<Rightarrow> tunnel_runtime \<Rightarrow> proxy_world \<Rightarrow> proxy_err \<times> proxy_world" where
  "recycle_stale_tunnel wall now reason close_answer r w =
     discard_tunnel wall
       (\<lambda>i. mark_tunnel_broken wall now i (if trim_space reason = [] then ''tunnel stale'' else trim_space reason)) close_answer r w"

text \<open>A probe that is not supported counts as healthy.\<close>

definition probe_acquired_tunnel :: "io_err option \<Rightarrow> io_err option" where
  "probe_acquired_tunnel answer = (if answer = Some IoUnsupported then None else answer)"

fun io_text :: "io_err \<Rightarrow> string" where
  "io_text IoCanceled = ''context canceled''"
| "io_text IoDeadline = ''context deadline exceeded''"
| "io_text IoUnsupported = ''unsupported''"
| "io_text (IoOther s) = s"

fun acquire_attempts ::
    "acquirer \<Rightarrow> gotime \<Rightarrow> string \<Rightarrow> (nat \<Rightarrow> attempt) \<Rightarrow> nat \<Rightarrow> nat \<Rightarrow> proxy_err \<Rightarrow> proxy_world
       \<Rightarrow> ((proxy_err + tunnel_runtime) \<times> proxy_world) option" where
  "acquire_attempts aq wall c attempts n 0 stale w = Some (Inl ([PErrNoTunnel, PErrNoIdleTunnel] @ stale), w)"
| "acquire_attempts aq wall c attempts n (Suc left) stale w =
     (let a = attempts n
      in case acquire_idle_or_wait aq wall c a w of
           None \<Rightarrow> None
         | Some (Inl e, w1) \<Rightarrow> Some (Inl (e @ stale), w1)
         | Some (Inr r, w1) \<Rightarrow>
             (case probe_acquired_tunnel (at_probe a) of
                None \<Rightarrow> Some (Inr r, w1)
              | Some e \<Rightarrow>
                  if e = IoCanceled \<or> e = IoDeadline then Some (Inl [PErrIo e], w1)
                  else
                    let w2 = w1\<lparr>pw_refills := pw_refills w1 @ [(c, aq_refill_reason aq)], pw_registry := at_others a (pw_registry w1)\<rparr>;
                        (failed, w3) = recycle_stale_tunnel wall (at_end a) (io_text e) (at_close a) r w2
                    in if failed \<noteq> [] then Some (Inl ([PErrTunnelStale] @ failed), w3)
                       else acquire_attempts aq wall c attempts (Suc n) left [PErrTunnelStale] w3))"

definition acquire_idle_tunnel_for ::
    "acquirer \<Rightarrow> gotime \<Rightarrow> string \<Rightarrow> (nat \<Rightarrow> attempt) \<Rightarrow> proxy_world \<Rightarrow> ((proxy_err + tunnel_runtime) \<times> proxy_world) option" where
  "acquire_idle_tunnel_for aq wall connector attempts w =
     (let c = trim_space connector
      in if c = [] then Some (Inl [PErrDependencyMissing], w)
         else acquire_attempts aq wall c attempts 0 (nat (aq_max_retry aq)) [] w)"


section \<open>Opening the traffic\<close>

record cancel_handler =
  ch_ResetCode :: string
  ch_ResetMessage :: string

definition new_cancel_handler :: "string \<Rightarrow> string \<Rightarrow> cancel_handler" where
  "new_cancel_handler code message =
     \<lparr>ch_ResetCode = (if trim_space code = [] then ''TRAFFIC_OPEN_ACK_TIMEOUT'' else trim_space code),
      ch_ResetMessage = (if trim_space message = [] then ''bridge open ack timeout'' else trim_space message)\<rparr>"

definition handle_open_ack_timeout :: "cancel_handler \<Rightarrow> traffic_open \<Rightarrow> tunnel_io \<Rightarrow> (proxy_err \<times> tunnel_io) option" where
  "handle_open_ack_timeout h open io =
     (let t = trim_space (to_TrafficID open)
      in if t = [] then Some ([PErrDependencyMissing], io)
         else case write_payload_to (empty_payload\<lparr>sp_Reset :=
                     Some \<lparr>tr_TrafficID = t, tr_ErrorCode = ch_ResetCode h, tr_ErrorMessage = ch_ResetMessage h\<rparr>\<rparr>) io of
                None \<Rightarrow> None
              | Some (None, io1) \<Rightarrow> Some ([], io1)
              | Some (Some e, io1) \<Rightarrow>
                  let (closed, io2) = close_io io1 in Some (PErrIo e # opt_err PErrIo closed, io2))"

text \<open>\<open>expired\<close>: the deadline of the read had passed when the read failed.\<close>

definition execute_open_handshake ::
    "cancel_handler \<Rightarrow> bool \<Rightarrow> traffic_open \<Rightarrow> tunnel_io \<Rightarrow> ((proxy_err + traffic_open_ack) \<times> tunnel_io) option" where
  "execute_open_handshake h expired open io =
     (case validate_traffic_open open of
        Some e \<Rightarrow> Some (Inl [PErrProtocol e], io)
      | None \<Rightarrow>
          (case write_payload_to (empty_payload\<lparr>sp_OpenReq := Some open\<rparr>) io of
             None \<Rightarrow> None
           | Some (Some e, io1) \<Rightarrow> Some (Inl [PErrIo e], io1)
           | Some (None, io1) \<Rightarrow>
               (case read_payload_from io1 of
                  None \<Rightarrow> None
                | Some (Inl e, io2) \<Rightarrow>
                    if e = IoDeadline \<or> expired
                    then (case handle_open_ack_timeout h open io2 of
                            None \<Rightarrow> None
                          | Some (failed, io3) \<Rightarrow> Some (Inl (PErrOpenAckTimeout # failed), io3))
                    else Some (Inl [PErrIo e], io2)
                | Some (Inr p, io2) \<Rightarrow>
                    (case sp_OpenAck p of
                       None \<Rightarrow> Some (Inl [PErrInvalidOpenAck], io2)
                     | Some ack \<Rightarrow>
                         if trim_space (ta_TrafficID ack) \<noteq> trim_space (to_TrafficID open) then Some (Inl [PErrInvalidOpenAck], io2)
                         else if \<not> ta_Success ack then Some (Inl [PErrOpenRejected ack], io2)
                         else Some (Inr ack, io2)))))"

definition is_actual_endpoint_override :: "traffic_open \<Rightarrow> traffic_open_ack \<Rightarrow> bool" where
  "is_actual_endpoint_override open ack =
     (let actual_id = trim_space (map_field ''actual_endpoint_id'' (ta_Metadata ack));
          actual_addr = trim_space (map_field ''actual_endpoint_addr'' (ta_Metadata ack));
          hint_id = trim_space (map_field ''endpoint_id'' (to_EndpointSelectionHint open));
          hint_addr = trim_space (map_field ''endpoint_addr'' (to_EndpointSelectionHint open))
      in if actual_id = [] \<and> actual_addr = [] then False
         else hint_id \<noteq> [] \<and> actual_id \<noteq> [] \<and> hint_id \<noteq> actual_id
              \<or> hint_addr \<noteq> [] \<and> actual_addr \<noteq> [] \<and> hint_addr \<noteq> actual_addr)"


section \<open>Relaying and closing\<close>

definition close_names :: "string \<Rightarrow> stream_payload \<Rightarrow> bool" where
  "close_names t p \<longleftrightarrow> (case sp_Close p of None \<Rightarrow> False | Some c \<Rightarrow> trim_space (tc_TrafficID c) = t)"

definition reset_for :: "string \<Rightarrow> stream_payload \<Rightarrow> traffic_reset option" where
  "reset_for t p = (case sp_Reset p of None \<Rightarrow> None | Some r \<Rightarrow> if trim_space (tr_TrafficID r) = t then Some r else None)"

definition accepting_close_ack :: "string \<Rightarrow> stream_payload" where
  "accepting_close_ack t = empty_payload\<lparr>sp_CloseAck :=
     Some \<lparr>tca_TrafficID = t, tca_Accepted = True, tca_ErrorCode = [], tca_ErrorMessage = []\<rparr>\<rparr>"

text \<open>The answer to the peer's close: written once per traffic.\<close>

definition answer_close :: "string \<Rightarrow> tunnel_io \<Rightarrow> (io_err option \<times> tunnel_io) option" where
  "answer_close t io =
     (let (first, io1) = try_mark_close_ack_sent t io
      in if first then write_payload_to (accepting_close_ack t) io1 else Some (None, io1))"

text \<open>The loops run over the answers that are left; \<open>as\<close> is \<open>io_reads\<close> of the tunnel.\<close>

fun relay_loop :: "string \<Rightarrow> (io_err + stream_payload) list \<Rightarrow> tunnel_io \<Rightarrow> (proxy_err \<times> tunnel_io) option" where
  "relay_loop t [] io = None"
| "relay_loop t (a # as) io =
     (let io1 = io\<lparr>io_reads := as\<rparr>
      in case a of
           Inl e \<Rightarrow> Some ([PErrIo e], io1)
         | Inr p \<Rightarrow>
             if close_names t p
             then (case answer_close t io1 of None \<Rightarrow> None | Some (e, io2) \<Rightarrow> Some (opt_err PErrIo e, io2))
             else case reset_for t p of
                    Some r \<Rightarrow> Some ([PErrRelayReset (trim_space (tr_ErrorCode r)) (trim_space (tr_ErrorMessage r))], io1)
                  | None \<Rightarrow> relay_loop t as io1)"

definition relay :: "string \<Rightarrow> tunnel_io \<Rightarrow> (proxy_err \<times> tunnel_io) option" where
  "relay traffic io =
     (let t = trim_space traffic
      in if t = [] then Some ([PErrDependencyMissing], io) else relay_loop t (io_reads io) io)"

text \<open>A handshake for closing that fails marks the tunnel.\<close>

definition fail_close_handshake :: "string \<Rightarrow> chain_err \<Rightarrow> tunnel_io \<Rightarrow> proxy_err \<times> tunnel_io" where
  "fail_close_handshake message cause io =
     (let e = wrap_tunnel_recycle_error code_tunnel_recycle_close_ack_required message (Some cause)
      in ([PErrProtocol e], mark_unsafe_to_recycle (extract_tunnel_recycle_code (Some e)) (extract_tunnel_recycle_message (Some e)) io))"

fun io_cause :: "io_err \<Rightarrow> chain_err" where
  "io_cause IoDeadline = DeadlineError"
| "io_cause e = PlainError (io_text e)"

fun await_close_ack :: "string \<Rightarrow> (io_err + stream_payload) list \<Rightarrow> tunnel_io \<Rightarrow> (proxy_err \<times> tunnel_io) option" where
  "await_close_ack t [] io = None"
| "await_close_ack t (a # as) io =
     (let io1 = io\<lparr>io_reads := as\<rparr>
      in case a of
           Inl e \<Rightarrow> Some (fail_close_handshake ''wait close ack failed'' (io_cause e) io1)
         | Inr p \<Rightarrow>
             if close_names t p
             then (case answer_close t io1 of
                     None \<Rightarrow> None
                   | Some (None, io2) \<Rightarrow> Some ([], io2)
                   | Some (Some e, io2) \<Rightarrow> Some (fail_close_handshake ''write peer close ack failed'' (io_cause e) io2))
             else if reset_for t p \<noteq> None
             then Some (fail_close_handshake ''peer reset before recycle'' (PlainError ''relay reset'') io1)
             else case sp_CloseAck p of
                    None \<Rightarrow> await_close_ack t as io1
                  | Some ack \<Rightarrow>
                      if trim_space (tca_TrafficID ack) \<noteq> t then await_close_ack t as io1
                      else if \<not> tca_Accepted ack
                      then Some (fail_close_handshake ''peer rejected close before recycle'' (PlainError ''close rejected'') io1)
                      else Some ([], io1))"

definition write_traffic_close_and_await_ack :: "string \<Rightarrow> string \<Rightarrow> tunnel_io \<Rightarrow> (proxy_err \<times> tunnel_io) option" where
  "write_traffic_close_and_await_ack traffic reason io =
     (let t = trim_space traffic
      in if t = [] then Some ([PErrOther ''write traffic close and await ack: empty traffic id''], io)
         else case write_payload_to (empty_payload\<lparr>sp_Close := Some \<lparr>tc_TrafficID = t, tc_Reason = trim_space reason\<rparr>\<rparr>) io of
                None \<Rightarrow> None
              | Some (Some e, io1) \<Rightarrow> Some (fail_close_handshake ''write traffic close failed'' (io_cause e) io1)
              | Some (None, io1) \<Rightarrow> await_close_ack t (io_reads io1) io1)"


section \<open>Recycling\<close>

fun await_recycle_ack ::
    "string \<Rightarrow> 64 word \<Rightarrow> (io_err + stream_payload) list \<Rightarrow> tunnel_io \<Rightarrow> (proxy_err \<times> tunnel_io) option" where
  "await_recycle_ack i seq [] io = None"
| "await_recycle_ack i seq (a # as) io =
     (let io1 = io\<lparr>io_reads := as\<rparr>
      in case a of
           Inl e \<Rightarrow> Some ([PErrProtocol (wrap_tunnel_recycle_error code_tunnel_recycle_tunnel_unhealthy
                         ''wait tunnel recycle ack failed'' (Some (io_cause e)))], io1)
         | Inr p \<Rightarrow>
             (case sp_RecycleAck p of
                None \<Rightarrow> await_recycle_ack i seq as io1
              | Some ack \<Rightarrow>
                  if trim_space (ra_TunnelID ack) \<noteq> i then await_recycle_ack i seq as io1
                  else if ra_RecycleSeq ack \<noteq> seq
                  then Some ([PErrProtocol (new_tunnel_recycle_error code_tunnel_recycle_invalid_seq ''recycle ack seq mismatch'')], io1)
                  else if \<not> ra_Accepted ack
                  then Some ([PErrProtocol (new_tunnel_recycle_error
                         (normalize_tunnel_recycle_code_or_default (trim_space (ra_ErrorCode ack)) code_tunnel_recycle_tunnel_unhealthy)
                         (if trim_space (ra_ErrorMessage ack) = [] then ''peer rejected tunnel recycle''
                          else trim_space (ra_ErrorMessage ack)))], io1)
                  else Some ([], io1)))"

definition execute_tunnel_recycle_handshake ::
    "string \<Rightarrow> 64 word \<Rightarrow> bool \<Rightarrow> tunnel_io \<Rightarrow> (proxy_err \<times> tunnel_io) option" where
  "execute_tunnel_recycle_handshake raw seq final io =
     (let i = trim_space raw
      in if i = [] then Some ([PErrOther ''execute tunnel recycle handshake: empty tunnel id''], io)
         else if seq = 0 then Some ([PErrOther ''execute tunnel recycle handshake: recycle seq must be greater than 0''], io)
         else case write_payload_to (empty_payload\<lparr>sp_Recycle := Some \<lparr>rc_TunnelID = i, rc_RecycleSeq = seq, rc_IsFinal = final\<rparr>\<rparr>) io of
                None \<Rightarrow> None
              | Some (Some e, io1) \<Rightarrow>
                  Some ([PErrProtocol (wrap_tunnel_recycle_error code_tunnel_recycle_tunnel_unhealthy
                    ''write tunnel recycle request failed'' (Some (io_cause e)))], io1)
              | Some (None, io1) \<Rightarrow> await_recycle_ack i seq (io_reads io1) io1)"


section \<open>Dispatching a request\<close>

text \<open>
  \<open>px_open\<close>, \<open>px_relay\<close>, \<open>px_recycle\<close>: what others do to the registry while the request opens its
  traffic, relays it and recycles its tunnel.
\<close>

record proxy_env =
  px_acquirer :: acquirer
  px_cancel :: cancel_handler
  px_max_reuse :: int
  px_wall :: gotime
  px_attempts :: "nat \<Rightarrow> attempt"
  px_active_now :: gotime
  px_end_now :: gotime
  px_expired :: bool
  px_mark :: "tunnel_registry \<Rightarrow> tunnel_registry"
  px_open :: "tunnel_registry \<Rightarrow> tunnel_registry"
  px_relay :: "tunnel_registry \<Rightarrow> tunnel_registry"
  px_recycle :: "tunnel_registry \<Rightarrow> tunnel_registry"

record dispatch_result =
  dr_TunnelID :: string
  dr_OpenAck :: "traffic_open_ack option"
  dr_HTTPStatus :: int
  dr_ErrorCode :: string

definition fail_result :: "dispatch_result \<Rightarrow> proxy_err \<Rightarrow> dispatch_result" where
  "fail_result r e = r\<lparr>dr_HTTPStatus := mf_HTTPStatus (map_failure e), dr_ErrorCode := mf_Code (map_failure e)\<rparr>"

definition recycle_tunnel_closed ::
    "proxy_env \<Rightarrow> tunnel_runtime \<Rightarrow> tunnel_io \<Rightarrow> proxy_world \<Rightarrow> proxy_err \<times> tunnel_io \<times> proxy_world" where
  "recycle_tunnel_closed env r io w =
     (let (closed, io1) = close_io io;
          (e, w1) = discard_tunnel (px_wall env) (mark_tunnel_closed (px_wall env) (px_end_now env)) closed r w
      in (e, io1, w1))"

definition recycle_tunnel_broken ::
    "proxy_env \<Rightarrow> string \<Rightarrow> tunnel_runtime \<Rightarrow> tunnel_io \<Rightarrow> proxy_world \<Rightarrow> proxy_err \<times> tunnel_io \<times> proxy_world" where
  "recycle_tunnel_broken env reason r io w =
     (let (closed, io1) = close_io io;
          (e, w1) = discard_tunnel (px_wall env) (\<lambda>i. mark_tunnel_broken (px_wall env) (px_end_now env) i reason) closed r w
      in (e, io1, w1))"

definition downgrade_recycle_to_close ::
    "proxy_env \<Rightarrow> string \<Rightarrow> string \<Rightarrow> tunnel_runtime \<Rightarrow> tunnel_io \<Rightarrow> proxy_world \<Rightarrow> proxy_err \<times> tunnel_io \<times> proxy_world" where
  "downgrade_recycle_to_close env code reason r io w =
     (let c = normalize_tunnel_recycle_code_or_default code code_tunnel_recycle_tunnel_unhealthy;
          (closed, io1, w1) = recycle_tunnel_closed env r io w
      in if closed \<noteq> [] then (PErrProtocol (new_tunnel_recycle_error c (trim_space reason)) # closed, io1, w1)
         else ([], io1, w1))"

text \<open>
  \<open>describe\<close> stands for \<open>Error()\<close>, the text kept with a broken tunnel. The deferred end forgets
  the acknowledgement of the traffic.
\<close>

definition recycle_agreed ::
    "proxy_env \<Rightarrow> (proxy_err \<Rightarrow> string) \<Rightarrow> tunnel_runtime \<Rightarrow> tunnel_io \<Rightarrow> proxy_world
       \<Rightarrow> (proxy_err \<times> tunnel_io \<times> proxy_world) option" where
  "recycle_agreed env describe r io w =
     (let seq = (if bt_recycle_seq r + 1 = 0 then 1 else bt_recycle_seq r + 1);
          final = (bt_reuse_count r + 1 \<ge> px_max_reuse env)
      in case execute_tunnel_recycle_handshake (bt_id r) seq final io of
           None \<Rightarrow> None
         | Some (e, io1) \<Rightarrow>
             let w1 = w\<lparr>pw_registry := px_recycle env (pw_registry w)\<rparr>
             in if e \<noteq> [] then let (failed, io2, w2) = recycle_tunnel_broken env (describe e) r io1 w1 in Some (e @ failed, io2, w2)
                else if final then Some (recycle_tunnel_closed env r io1 w1)
                else let (marked, reg) = mark_tunnel_idle_after_recycle (px_wall env) (px_end_now env) (bt_id r) seq (pw_registry w1)
                     in Some (opt_err PErrRegistry marked, io1, w1\<lparr>pw_registry := reg\<rparr>))"

definition recycle_tunnel_reusable ::
    "proxy_env \<Rightarrow> (proxy_err \<Rightarrow> string) \<Rightarrow> string \<Rightarrow> tunnel_runtime \<Rightarrow> tunnel_io \<Rightarrow> proxy_world
       \<Rightarrow> (proxy_err \<times> tunnel_io \<times> proxy_world) option" where
  "recycle_tunnel_reusable env describe traffic r io w =
     (let (unsafe, io1) = consume_unsafe_to_recycle io;
          outcome = (case unsafe of
              Some (code, reason) \<Rightarrow> Some (downgrade_recycle_to_close env code reason r io1 w)
            | None \<Rightarrow>
                if \<not> is_bridge_tunnel_reusable io1
                then Some (downgrade_recycle_to_close env code_tunnel_recycle_tunnel_unhealthy ''tunnel not recyclable'' r io1 w)
                else if flush_before_recycle io1 \<noteq> []
                then Some (downgrade_recycle_to_close env code_tunnel_recycle_buffer_dirty ''flush before recycle failed'' r io1 w)
                else recycle_agreed env describe r io1 w)
      in case outcome of None \<Rightarrow> None | Some (e, io2, w1) \<Rightarrow> Some (e, clear_close_ack_sent traffic io2, w1))"

text \<open>\<open>tunnels\<close>: how the acquired tunnel will answer; its state at the end is returned.\<close>

definition fail_dispatch ::
    "proxy_env \<Rightarrow> (proxy_err \<Rightarrow> string) \<Rightarrow> tunnel_runtime \<Rightarrow> dispatch_result \<Rightarrow> proxy_err \<Rightarrow> tunnel_io \<Rightarrow> proxy_world
       \<Rightarrow> dispatch_result \<times> proxy_err \<times> tunnel_io option \<times> proxy_world" where
  "fail_dispatch env describe r result e io w =
     (let (failed, io1, w1) = recycle_tunnel_broken env (describe e) r io w
      in (fail_result result (e @ failed), e @ failed, Some io1, w1))"

definition dispatch_on ::
    "proxy_env \<Rightarrow> (proxy_err \<Rightarrow> string) \<Rightarrow> traffic_open \<Rightarrow> tunnel_runtime \<Rightarrow> tunnel_io \<Rightarrow> proxy_world
       \<Rightarrow> (dispatch_result \<times> proxy_err \<times> tunnel_io option \<times> proxy_world) option" where
  "dispatch_on env describe open r io w =
     (let traffic = trim_space (to_TrafficID open);
          result = \<lparr>dr_TunnelID = bt_id r, dr_OpenAck = None, dr_HTTPStatus = 200, dr_ErrorCode = []\<rparr>;
          (marked, reg) = mark_tunnel_active (px_wall env) (px_active_now env) (bt_id r) traffic (px_mark env (pw_registry w));
          w1 = w\<lparr>pw_registry := reg\<rparr>
      in if marked \<noteq> None then Some (fail_dispatch env describe r result (opt_err PErrRegistry marked) io w1)
         else case execute_open_handshake (px_cancel env) (px_expired env) open io of
           None \<Rightarrow> None
         | Some (opened, io1) \<Rightarrow>
             let w2 = w1\<lparr>pw_registry := px_open env (pw_registry w1)\<rparr>
             in case opened of
                  Inl e \<Rightarrow> Some (fail_dispatch env describe r (result\<lparr>dr_OpenAck := first_rejection e\<rparr>) e io1 w2)
                | Inr ack \<Rightarrow>
                    let result1 = result\<lparr>dr_OpenAck := Some ack\<rparr>
                    in (case relay (to_TrafficID open) io1 of
                          None \<Rightarrow> None
                        | Some (e, io2) \<Rightarrow>
                            let w3 = w2\<lparr>pw_registry := px_relay env (pw_registry w2)\<rparr>
                            in if e \<noteq> [] then Some (fail_dispatch env describe r result1 e io2 w3)
                               else (case recycle_tunnel_reusable env describe traffic r io2 w3 of
                                       None \<Rightarrow> None
                                     | Some (e, io3, w4) \<Rightarrow>
                                         Some (if e \<noteq> [] then fail_result result1 e else result1, e, Some io3, w4))))"

definition dispatch ::
    "proxy_env \<Rightarrow> (proxy_err \<Rightarrow> string) \<Rightarrow> (tunnel_runtime \<Rightarrow> tunnel_io) \<Rightarrow> string \<Rightarrow> traffic_open \<Rightarrow> proxy_world
       \<Rightarrow> (dispatch_result \<times> proxy_err \<times> tunnel_io option \<times> proxy_world) option" where
  "dispatch env describe tunnels connector open w =
     (let c = trim_space connector; empty = \<lparr>dr_TunnelID = [], dr_OpenAck = None, dr_HTTPStatus = 0, dr_ErrorCode = []\<rparr>
      in if c = [] then Some (empty, [PErrDependencyMissing], None, w)
         else case acquire_idle_tunnel_for (px_acquirer env) (px_wall env) c (px_attempts env) w of
                None \<Rightarrow> None
              | Some (Inl e, w1) \<Rightarrow> Some (fail_result empty e, e, None, w1)
              | Some (Inr r, w1) \<Rightarrow> dispatch_on env describe open r (tunnels r) w1)"
end
