(* ===== verification/Proxy_Safety.thy ===== *)
theory Proxy_Safety
  imports Connector_Proxy
begin

text \<open>
  What a dispatched request leaves behind: its tunnel is given back or closed and forgotten, it is
  given back only after both ends have agreed, and every error has its status. One path does leave
  a tunnel behind: a request that is cancelled while its tunnel is probed.
\<close>

section \<open>Discarding a tunnel\<close>

definition found :: "string \<Rightarrow> proxy_world \<Rightarrow> tunnel_runtime option" where
  "found i w = map_of (byTunnelID (pw_registry w)) i"

definition world_ok :: "proxy_world \<Rightarrow> bool" where
  "world_ok w \<longleftrightarrow> bridge_inv (pw_registry w)"

text \<open>
  Others keep the registry in order, and the tunnel \<open>i\<close> they leave alone, mark as broken, or take out:
  the watcher of an accepted tunnel that has ended does the one and then the other
  (\<open>recycleAcceptedIdleTunnel\<close>), in two steps.
\<close>

definition keeps_registry :: "(tunnel_registry \<Rightarrow> tunnel_registry) \<Rightarrow> bool" where
  "keeps_registry f \<longleftrightarrow> (\<forall>reg. bridge_inv reg \<longrightarrow> bridge_inv (f reg))"

definition spares :: "string \<Rightarrow> (tunnel_registry \<Rightarrow> tunnel_registry) \<Rightarrow> bool" where
  "spares i f \<longleftrightarrow> keeps_registry f
     \<and> (\<forall>reg x. map_of (byTunnelID (f reg)) i = Some x \<longrightarrow>
          map_of (byTunnelID reg) i = Some x \<or> bt_state x = BridgeTunnelBroken)"

text \<open>They do not break it.\<close>

definition breaks_not :: "string \<Rightarrow> (tunnel_registry \<Rightarrow> tunnel_registry) \<Rightarrow> bool" where
  "breaks_not i f \<longleftrightarrow>
     (\<forall>reg x. map_of (byTunnelID (f reg)) i = Some x \<longrightarrow> map_of (byTunnelID reg) i = Some x)"

text \<open>
  The tunnel \<open>i\<close> is lent, as \<open>r\<close> up to its state, or has been taken out, or, where \<open>b\<close> allows it,
  been broken.
\<close>

definition lent_or_gone :: "bool \<Rightarrow> tunnel_runtime \<Rightarrow> proxy_world \<Rightarrow> bool" where
  "lent_or_gone b r w \<longleftrightarrow> world_ok w \<and> bt_id r \<noteq> [] \<and> trim_space (bt_id r) = bt_id r
     \<and> (\<forall>x. found (bt_id r) w = Some x \<longrightarrow>
          bt_state x \<in> {BridgeTunnelReserved, BridgeTunnelActive} \<and> bt_recycle_seq x = bt_recycle_seq r
          \<or> bt_state x = BridgeTunnelBroken \<and> b)"

lemma lent_or_gone_others:
  assumes "spares (bt_id r) f" "b \<or> breaks_not (bt_id r) f" "lent_or_gone b r w"
  shows "lent_or_gone b r (w\<lparr>pw_registry := f (pw_registry w)\<rparr>)"
proof -
  have "found (bt_id r) w = Some x \<or> bt_state x = BridgeTunnelBroken \<and> b"
    if "found (bt_id r) (w\<lparr>pw_registry := f (pw_registry w)\<rparr>) = Some x" for x
    using assms(1,2) that unfolding spares_def breaks_not_def found_def by auto
  with assms(1,3) show ?thesis unfolding lent_or_gone_def spares_def keeps_registry_def world_ok_def by auto
qed

lemma remove_terminal_effect:
  assumes "trim_space i = i" "i \<noteq> []"
  shows "map_of (byTunnelID (snd (remove_terminal_tunnel wall i reg))) i
    = (case map_of (byTunnelID reg) i of None \<Rightarrow> None
       | Some r \<Rightarrow> if bt_state r = BridgeTunnelClosed \<or> bt_state r = BridgeTunnelBroken then None else Some r)"
  using assms by (auto simp: remove_terminal_tunnel_def Let_def simp del: map_of_eq_Some_iff split: option.split)

lemma transition_effect:
  assumes "trim_space i = i" "i \<noteq> []"
  shows "map_of (byTunnelID (snd (transition_tunnel wall now i target message reg))) i = None
      \<longleftrightarrow> map_of (byTunnelID reg) i = None"
    and "map_of (byTunnelID reg) i = Some r \<Longrightarrow>
      \<exists>x. map_of (byTunnelID (snd (transition_tunnel wall now i target message reg))) i = Some x
        \<and> bt_state x = (if is_valid_tunnel_transition (bt_state r) target then target else bt_state r)"
  using assms
  by (auto simp: transition_tunnel_def Let_def simp del: map_of_eq_Some_iff split: option.split)

lemma becomes_broken: "is_valid_tunnel_transition st BridgeTunnelBroken \<or> st = BridgeTunnelClosed \<or> st = BridgeTunnelBroken"
  by (cases st) simp_all

lemma discard_broken:
  assumes "bt_id r \<noteq> []" "trim_space (bt_id r) = bt_id r" "world_ok w"
    and "discard_tunnel wall (\<lambda>i. mark_tunnel_broken wall now i message) answer r w = (e, w')"
  shows "found (bt_id r) w' = None" "world_ok w'" "bt_tunnel r \<in> set (pw_closed w')"
proof -
  let ?reg = "snd (mark_tunnel_broken wall now (bt_id r) message (pw_registry w))"
  have w': "w' = w\<lparr>pw_registry := snd (remove_terminal_tunnel wall (bt_id r) ?reg), pw_closed := pw_closed w @ [bt_tunnel r]\<rparr>"
    using assms(4) by (auto simp: discard_tunnel_def case_prod_unfold Let_def)
  have "bridge_inv ?reg"
    using assms(3) bridge_inv_transition [of "pw_registry w" BridgeTunnelBroken] by (simp add: world_ok_def mark_tunnel_broken_def)
  then show "world_ok w'" by (simp add: w' world_ok_def bridge_inv_remove)
  show "found (bt_id r) w' = None"
  proof (cases "map_of (byTunnelID (pw_registry w)) (bt_id r)")
    case None
    then have "map_of (byTunnelID ?reg) (bt_id r) = None"
      unfolding mark_tunnel_broken_def by (simp add: transition_effect(1) [OF assms(2,1)])
    then show ?thesis by (simp add: w' found_def remove_terminal_effect [OF assms(2,1)])
  next
    case (Some x)
    from transition_effect(2) [OF assms(2,1) Some, of wall now BridgeTunnelBroken message]
    obtain y where "map_of (byTunnelID ?reg) (bt_id r) = Some y" "bt_state y = BridgeTunnelClosed \<or> bt_state y = BridgeTunnelBroken"
      using becomes_broken [of "bt_state x"] unfolding mark_tunnel_broken_def by (auto split: if_splits)
    then show ?thesis by (simp add: w' found_def remove_terminal_effect [OF assms(2,1)] del: map_of_eq_Some_iff)
  qed
  show "bt_tunnel r \<in> set (pw_closed w')" by (simp add: w')
qed

lemma discard_closed:
  assumes "lent_or_gone b r w" and "discard_tunnel wall (mark_tunnel_closed wall now) answer r w = (e, w')"
  shows "found (bt_id r) w' = None" "world_ok w'" "bt_tunnel r \<in> set (pw_closed w')"
proof -
  have i: "trim_space (bt_id r) = bt_id r" "bt_id r \<noteq> []" and ok: "world_ok w" using assms(1) by (simp_all add: lent_or_gone_def)
  let ?reg = "snd (mark_tunnel_closed wall now (bt_id r) (pw_registry w))"
  have w': "w' = w\<lparr>pw_registry := snd (remove_terminal_tunnel wall (bt_id r) ?reg), pw_closed := pw_closed w @ [bt_tunnel r]\<rparr>"
    using assms(2) by (auto simp: discard_tunnel_def case_prod_unfold Let_def)
  have "bridge_inv ?reg"
    using ok bridge_inv_transition [of "pw_registry w" BridgeTunnelClosed] by (simp add: world_ok_def mark_tunnel_closed_def)
  then show "world_ok w'" by (simp add: w' world_ok_def bridge_inv_remove)
  show "found (bt_id r) w' = None"
  proof (cases "map_of (byTunnelID (pw_registry w)) (bt_id r)")
    case None
    then have "map_of (byTunnelID ?reg) (bt_id r) = None"
      unfolding mark_tunnel_closed_def by (simp add: transition_effect(1) [OF i])
    then show ?thesis by (simp add: w' found_def remove_terminal_effect [OF i])
  next
    case (Some x)
    have "bt_state x \<in> {BridgeTunnelReserved, BridgeTunnelActive, BridgeTunnelBroken}"
      using assms(1) Some by (auto simp: lent_or_gone_def found_def simp del: map_of_eq_Some_iff)
    with transition_effect(2) [OF i Some, of wall now BridgeTunnelClosed "[]"]
    obtain y where "map_of (byTunnelID ?reg) (bt_id r) = Some y" "bt_state y = BridgeTunnelClosed \<or> bt_state y = BridgeTunnelBroken"
      unfolding mark_tunnel_closed_def by auto
    then show ?thesis by (simp add: w' found_def remove_terminal_effect [OF i] del: map_of_eq_Some_iff)
  qed
  show "bt_tunnel r \<in> set (pw_closed w')" by (simp add: w')
qed


section \<open>The end of a request\<close>

text \<open>
  How a request leaves its tunnel: closed and forgotten, idle again, worn out by recycling, or, where \<open>b\<close>
  allows it, broken by somebody else.
\<close>

definition settled :: "bool \<Rightarrow> tunnel_runtime \<Rightarrow> proxy_world \<Rightarrow> bool" where
  "settled b r w \<longleftrightarrow> world_ok w
     \<and> (found (bt_id r) w = None
        \<or> (\<exists>x. found (bt_id r) w = Some x
             \<and> (bt_state x = BridgeTunnelIdle \<or> bt_recycle_seq x = - 1 \<or> bt_state x = BridgeTunnelBroken \<and> b)))"

lemma broken_settled: "lent_or_gone b r w \<Longrightarrow> settled b r (snd (snd (recycle_tunnel_broken env message r io w)))"
  using discard_broken [of r w "px_wall env" "px_end_now env" message "fst (close_io io)", OF _ _ _ prod.collapse [symmetric]]
  by (simp add: recycle_tunnel_broken_def settled_def lent_or_gone_def case_prod_unfold Let_def)

lemma closed_settled: "lent_or_gone b r w \<Longrightarrow> settled b r (snd (snd (recycle_tunnel_closed env r io w)))"
  using discard_closed [of b r w "px_wall env" "px_end_now env" "fst (close_io io)", OF _ prod.collapse [symmetric]]
  by (simp add: recycle_tunnel_closed_def settled_def case_prod_unfold Let_def)

lemma downgrade_settled: "lent_or_gone b r w \<Longrightarrow> settled b r (snd (snd (downgrade_recycle_to_close env code reason r io w)))"
  using closed_settled [of b r w env io] by (simp add: downgrade_recycle_to_close_def case_prod_unfold Let_def)

lemma fail_settled: "lent_or_gone b r w \<Longrightarrow> settled b r (snd (snd (snd (fail_dispatch env describe r result e io w))))"
  using broken_settled [of b r w env "describe e" io] by (simp add: fail_dispatch_def case_prod_unfold Let_def)

lemma successor_greater: "(s::64 word) + 1 \<noteq> 0 \<Longrightarrow> s < s + 1"
  by unat_arith

lemma successor_later: "(s::64 word) \<noteq> - 1 \<Longrightarrow> s + 1 \<noteq> 0 \<and> \<not> s + 1 \<le> s"
proof -
  assume s: "s \<noteq> - 1"
  have "s + 1 \<noteq> 0"
  proof
    assume "s + 1 = 0"
    with s show False using eq_neg_iff_add_eq_0 [of s 1] by simp
  qed
  with successor_greater [of s] show ?thesis by (simp add: not_le)
qed

lemma idle_again_settled:
  assumes "lent_or_gone b r w"
  shows "settled b r (w\<lparr>pw_registry := snd (mark_tunnel_idle_after_recycle wall now (bt_id r)
    (if bt_recycle_seq r + 1 = 0 then 1 else bt_recycle_seq r + 1) (pw_registry w))\<rparr>)"
proof (cases "found (bt_id r) w")
  case None
  then show ?thesis
    using assms by (simp add: settled_def lent_or_gone_def world_ok_def found_def bridge_inv_recycled mark_tunnel_idle_after_recycle_def Let_def)
next
  case (Some x)
  let ?w = "w\<lparr>pw_registry := snd (mark_tunnel_idle_after_recycle wall now (bt_id r)
    (if bt_recycle_seq r + 1 = 0 then 1 else bt_recycle_seq r + 1) (pw_registry w))\<rparr>"
  have id: "bt_id r \<noteq> []" "trim_space (bt_id r) = bt_id r" "bridge_inv (pw_registry w)"
    using assms by (auto simp: lent_or_gone_def world_ok_def)
  have ok: "world_ok ?w" using id(3) by (simp add: world_ok_def bridge_inv_recycled)
  consider (broken) "bt_state x = BridgeTunnelBroken" "b"
    | (lent) "bt_state x \<in> {BridgeTunnelReserved, BridgeTunnelActive}" "bt_recycle_seq x = bt_recycle_seq r"
    using assms Some by (auto simp: lent_or_gone_def)
  then show ?thesis
  proof cases
    case broken
    then have "found (bt_id r) ?w = Some x"
      using id Some by (simp add: found_def mark_tunnel_idle_after_recycle_def Let_def del: map_of_eq_Some_iff)
    with ok broken show ?thesis unfolding settled_def by blast
  next
  case lent
  note x = lent id
  show ?thesis
  proof (cases "bt_recycle_seq r = - 1")
    case True
    then have worn: "bt_recycle_seq y = - 1" if "found (bt_id r) ?w = Some y" for y
      using that x Some by (auto simp: found_def mark_tunnel_idle_after_recycle_def Let_def simp del: map_of_eq_Some_iff split: if_splits)
    show ?thesis
    proof (cases "found (bt_id r) ?w")
      case None
      then show ?thesis using ok by (simp only: settled_def) simp
    next
      case (Some y)
      then show ?thesis using ok worn [OF Some] by (simp only: settled_def) blast
    qed
  next
    case False
    then have "bt_recycle_seq r + 1 \<noteq> 0" "\<not> bt_recycle_seq r + 1 \<le> bt_recycle_seq r"
      using successor_later by blast+
    then have "\<exists>y. found (bt_id r) ?w = Some y \<and> bt_state y = BridgeTunnelIdle"
      using x(2-4) Some x(1) unfolding found_def mark_tunnel_idle_after_recycle_def Let_def
      by (cases "bt_state x") (simp_all del: map_of_eq_Some_iff)
    then show ?thesis using ok unfolding settled_def by blast
  qed
  qed
qed

lemma recycle_agreed_settled:
  assumes "lent_or_gone b r w" "spares (bt_id r) (px_recycle env)" "b \<or> breaks_not (bt_id r) (px_recycle env)" "recycle_agreed env describe r io w = Some (e, io', w')"
  shows "settled b r w'"
proof -
  let ?w = "w\<lparr>pw_registry := px_recycle env (pw_registry w)\<rparr>"
  have w: "lent_or_gone b r ?w" by (rule lent_or_gone_others [OF assms(2,3,1)])
  obtain e1 io1 where x: "execute_tunnel_recycle_handshake (bt_id r) (if bt_recycle_seq r + 1 = 0 then 1 else bt_recycle_seq r + 1)
      (px_max_reuse env \<le> bt_reuse_count r + 1) io = Some (e1, io1)"
    using assms(4) by (auto simp: recycle_agreed_def Let_def split: option.splits)
  have "w' = snd (snd (the (recycle_agreed env describe r io w)))" using assms(4) by simp
  also have "\<dots> = (if e1 \<noteq> [] then snd (snd (recycle_tunnel_broken env (describe e1) r io1 ?w))
      else if bt_reuse_count r + 1 \<ge> px_max_reuse env then snd (snd (recycle_tunnel_closed env r io1 ?w))
      else ?w\<lparr>pw_registry := snd (mark_tunnel_idle_after_recycle (px_wall env) (px_end_now env) (bt_id r)
                 (if bt_recycle_seq r + 1 = 0 then 1 else bt_recycle_seq r + 1) (pw_registry ?w))\<rparr>)"
    by (simp add: recycle_agreed_def Let_def x case_prod_unfold)
  finally show ?thesis
    using broken_settled [OF w, of env "describe e1" io1] closed_settled [OF w, of env io1]
      idle_again_settled [OF w, of "px_wall env" "px_end_now env"] by (simp split: if_splits)
qed

lemma recycle_reusable_settled:
  assumes "lent_or_gone b r w" "spares (bt_id r) (px_recycle env)" "b \<or> breaks_not (bt_id r) (px_recycle env)"
    and "recycle_tunnel_reusable env describe traffic r io w = Some (e, io', w')"
  shows "settled b r w'"
proof -
  obtain u io1 where u: "consume_unsafe_to_recycle io = (u, io1)" by fastforce
  have closing: "settled b r (snd (snd (downgrade_recycle_to_close env code reason r io1 w)))" for code reason
    by (rule downgrade_settled [OF assms(1)])
  have "settled b r (snd (snd x))"
    if "(case u of Some (code, reason) \<Rightarrow> Some (downgrade_recycle_to_close env code reason r io1 w)
         | None \<Rightarrow> if \<not> is_bridge_tunnel_reusable io1
              then Some (downgrade_recycle_to_close env code_tunnel_recycle_tunnel_unhealthy ''tunnel not recyclable'' r io1 w)
              else if flush_before_recycle io1 \<noteq> []
              then Some (downgrade_recycle_to_close env code_tunnel_recycle_buffer_dirty ''flush before recycle failed'' r io1 w)
              else recycle_agreed env describe r io1 w) = Some x" for x
    using that closing recycle_agreed_settled [OF assms(1-3), of describe io1 "fst x" "fst (snd x)" "snd (snd x)"]
    by (auto split: option.splits if_splits)
  then show ?thesis using assms(4) unfolding recycle_tunnel_reusable_def u Let_def by (auto split: option.splits)
qed

text \<open>The part of a request that has its tunnel.\<close>

definition env_spares :: "string \<Rightarrow> proxy_env \<Rightarrow> bool" where
  "env_spares i env \<longleftrightarrow> spares i (px_mark env) \<and> spares i (px_open env) \<and> spares i (px_relay env) \<and> spares i (px_recycle env)"

definition env_breaks_not :: "string \<Rightarrow> proxy_env \<Rightarrow> bool" where
  "env_breaks_not i env \<longleftrightarrow>
     breaks_not i (px_mark env) \<and> breaks_not i (px_open env) \<and> breaks_not i (px_relay env) \<and> breaks_not i (px_recycle env)"

lemma lent_or_gone_marked:
  assumes "lent_or_gone b r w"
  shows "lent_or_gone b r (w\<lparr>pw_registry := snd (mark_tunnel_active wall now (bt_id r) traffic (pw_registry w))\<rparr>)"
proof -
  have "bt_state y \<in> {BridgeTunnelReserved, BridgeTunnelActive} \<and> bt_recycle_seq y = bt_recycle_seq r
      \<or> bt_state y = BridgeTunnelBroken \<and> b"
    if "map_of (byTunnelID (snd (mark_tunnel_active wall now (bt_id r) traffic (pw_registry w)))) (bt_id r) = Some y" for y
    using that assms
    by (auto simp: lent_or_gone_def found_def mark_tunnel_active_def Let_def simp del: map_of_eq_Some_iff split: option.splits if_splits)
  then show ?thesis using assms by (simp add: lent_or_gone_def world_ok_def found_def bridge_inv_active del: map_of_eq_Some_iff)
qed

definition marked_registry :: "proxy_env \<Rightarrow> traffic_open \<Rightarrow> tunnel_runtime \<Rightarrow> proxy_world \<Rightarrow> tunnel_registry" where
  "marked_registry env open r w = snd (mark_tunnel_active (px_wall env) (px_active_now env) (bt_id r) (trim_space (to_TrafficID open))
     (px_mark env (pw_registry w)))"

lemma open_handshake_error: "execute_open_handshake h ex open io = Some (Inl x, io1) \<Longrightarrow> x \<noteq> []"
  by (auto simp: execute_open_handshake_def split: option.splits sum.splits if_splits)

text \<open>A request that has its tunnel fails and breaks it, or comes to the end of the traffic.\<close>

lemma dispatch_on_cases:
  assumes run: "dispatch_on env describe open r io w = Some out"
  obtains (failed) res x io1 reg where "out = fail_dispatch env describe r res x io1 (w\<lparr>pw_registry := reg\<rparr>)"
      "dr_TunnelID res = bt_id r" "x \<noteq> []"
      "reg \<in> {marked_registry env open r w, px_open env (marked_registry env open r w), px_relay env (px_open env (marked_registry env open r w))}"
  | (relayed) ack io1 io2 y io3 w4 where "execute_open_handshake (px_cancel env) (px_expired env) open io = Some (Inr ack, io1)"
      "relay (to_TrafficID open) io1 = Some ([], io2)"
      "recycle_tunnel_reusable env describe (trim_space (to_TrafficID open)) r io2
         (w\<lparr>pw_registry := px_relay env (px_open env (marked_registry env open r w))\<rparr>) = Some (y, io3, w4)"
      "out = (if y \<noteq> [] then fail_result \<lparr>dr_TunnelID = bt_id r, dr_OpenAck = Some ack, dr_HTTPStatus = 200, dr_ErrorCode = []\<rparr> y
         else \<lparr>dr_TunnelID = bt_id r, dr_OpenAck = Some ack, dr_HTTPStatus = 200, dr_ErrorCode = []\<rparr>, y, Some io3, w4)"
proof -
  obtain marked reg where m: "mark_tunnel_active (px_wall env) (px_active_now env) (bt_id r) (trim_space (to_TrafficID open))
      (px_mark env (pw_registry w)) = (marked, reg)" by fastforce
  have reg: "marked_registry env open r w = reg" by (simp add: marked_registry_def m)
  consider (unmarked) "marked \<noteq> None" | (marked) "marked = None" by blast
  then show thesis
  proof cases
    case unmarked
    then have "out = fail_dispatch env describe r \<lparr>dr_TunnelID = bt_id r, dr_OpenAck = None, dr_HTTPStatus = 200, dr_ErrorCode = []\<rparr> (opt_err PErrRegistry marked) io (w\<lparr>pw_registry := reg\<rparr>)"
      using run by (simp add: dispatch_on_def m Let_def)
    from failed [OF this] unmarked show thesis by (auto simp: reg opt_err_def)
  next
    case marked
    obtain opened io1 where o: "execute_open_handshake (px_cancel env) (px_expired env) open io = Some (opened, io1)"
      using run marked by (auto simp: dispatch_on_def m Let_def split: option.splits)
    show thesis
    proof (cases opened)
      case (Inl x)
      then have "out = fail_dispatch env describe r \<lparr>dr_TunnelID = bt_id r, dr_OpenAck = first_rejection x, dr_HTTPStatus = 200, dr_ErrorCode = []\<rparr> x io1 (w\<lparr>pw_registry := px_open env reg\<rparr>)"
        using run marked by (simp add: dispatch_on_def m o Let_def)
      from failed [OF this] open_handshake_error [OF o [unfolded Inl]] show thesis by (simp add: reg)
    next
      case (Inr ack)
      obtain x io2 where rel: "relay (to_TrafficID open) io1 = Some (x, io2)"
        using run marked Inr by (auto simp: dispatch_on_def m o Let_def split: option.splits)
      show thesis
      proof (cases "x = []")
        case False
        then have "out = fail_dispatch env describe r \<lparr>dr_TunnelID = bt_id r, dr_OpenAck = Some ack, dr_HTTPStatus = 200, dr_ErrorCode = []\<rparr> x io2
            (w\<lparr>pw_registry := px_relay env (px_open env reg)\<rparr>)"
          using run marked Inr by (simp add: dispatch_on_def m o rel Let_def)
        from failed [OF this] False show thesis by (simp add: reg)
      next
        case True
        then obtain y io3 w4 where rec: "recycle_tunnel_reusable env describe (trim_space (to_TrafficID open)) r io2
            (w\<lparr>pw_registry := px_relay env (px_open env reg)\<rparr>) = Some (y, io3, w4)"
          using run marked Inr by (auto simp: dispatch_on_def m o rel Let_def split: option.splits)
        show thesis
          by (rule relayed [OF o [unfolded Inr] rel [unfolded True] rec [folded reg]])
             (use run marked Inr True rec in \<open>auto simp: dispatch_on_def m o rel Let_def\<close>)
      qed
    qed
  qed
qed

lemma dispatch_on_settled:
  assumes lent: "lent_or_gone b r w" and env: "env_spares (bt_id r) env" and unbroken: "b \<or> env_breaks_not (bt_id r) env"
    and run: "dispatch_on env describe open r io w = Some (result, e, io', w')"
  shows "settled b r w'"
proof -
  have others: "spares (bt_id r) f \<and> (b \<or> breaks_not (bt_id r) f)" if "f \<in> {px_mark env, px_open env, px_relay env, px_recycle env}" for f
    using env unbroken that unfolding env_spares_def env_breaks_not_def by blast
  have "lent_or_gone b r (w\<lparr>pw_registry := px_mark env (pw_registry w)\<rparr>)" using lent_or_gone_others [OF _ _ lent] others by blast
  from lent_or_gone_marked [OF this, of "px_wall env" "px_active_now env" "trim_space (to_TrafficID open)"]
  have w1: "lent_or_gone b r (w\<lparr>pw_registry := marked_registry env open r w\<rparr>)" by (simp add: marked_registry_def)
  have w2: "lent_or_gone b r (w\<lparr>pw_registry := px_open env (marked_registry env open r w)\<rparr>)"
    using lent_or_gone_others [OF _ _ w1, of "px_open env"] others [of "px_open env"] by simp
  have w3: "lent_or_gone b r (w\<lparr>pw_registry := px_relay env (px_open env (marked_registry env open r w))\<rparr>)"
    using lent_or_gone_others [OF _ _ w2, of "px_relay env"] others [of "px_relay env"] by simp
  show ?thesis
    using run
  proof (cases rule: dispatch_on_cases)
    case (failed res x io1 reg)
    then have "lent_or_gone b r (w\<lparr>pw_registry := reg\<rparr>)" using w1 w2 w3 by blast
    from fail_settled [OF this, of env describe res x io1] failed(1) show ?thesis by (metis snd_conv)
  next
    case (relayed ack io1 io2 y io3 w4)
    with recycle_reusable_settled [OF w3 _ _ relayed(3)] others [of "px_recycle env"] show ?thesis by simp
  qed
qed

lemma fail_dispatch_result:
  "fst (fail_dispatch env describe r res x io w) = fail_result res (fst (snd (fail_dispatch env describe r res x io w)))"
  "x \<noteq> [] \<Longrightarrow> fst (snd (fail_dispatch env describe r res x io w)) \<noteq> []"
  by (simp_all add: fail_dispatch_def case_prod_unfold Let_def)

lemma dispatch_on_tunnel:
  assumes "dispatch_on env describe open r io w = Some out" shows "dr_TunnelID (fst out) = bt_id r"
  using assms
proof (cases rule: dispatch_on_cases)
  case (failed res x io1 reg)
  then show ?thesis using fail_dispatch_result(1) [of env describe r res x io1] by (simp add: fail_result_def)
next
  case (relayed ack io1 io2 y io3 w4)
  then show ?thesis by (simp add: fail_result_def)
qed


section \<open>Taking a tunnel\<close>

definition attempt_keeps :: "attempt \<Rightarrow> bool" where
  "attempt_keeps a \<longleftrightarrow> keeps_registry (at_others a) \<and> (\<forall>p \<in> set (at_rounds a). keeps_registry (wr_others p))"

lemma acquired_lent:
  assumes "bridge_inv reg" "acquire_idle_tunnel wall now c reg = (x, reg')"
  shows "bridge_inv reg'" "x = Some r \<Longrightarrow> map_of (byTunnelID reg') (bt_id r) = Some r \<and> bt_state r = BridgeTunnelReserved
    \<and> bt_id r \<noteq> [] \<and> trim_space (bt_id r) = bt_id r"
proof -
  show inv: "bridge_inv reg'" using bridge_inv_acquire [OF assms(1), of wall now c] assms(2) by simp
  assume x: "x = Some r"
  have c: "trim_space c \<noteq> []" using assms(2) x by (auto simp: acquire_idle_tunnel_def Let_def)
  show "map_of (byTunnelID reg') (bt_id r) = Some r \<and> bt_state r = BridgeTunnelReserved
    \<and> bt_id r \<noteq> [] \<and> trim_space (bt_id r) = bt_id r"
  proof (cases "idle_queue (trim_space c) reg")
    case Nil
    then show ?thesis using assms(2) x c by (auto simp: acquire_idle_tunnel_def Let_def)
  next
    case (Cons i queue)
    from acquire_idle_head [OF assms(1) Cons c, of wall now] obtain r0 where r0: "map_of (byTunnelID reg) i = Some r0"
      "acquire_idle_tunnel wall now c reg = (let r' = r0\<lparr>bt_state := BridgeTunnelReserved, bt_updated_at := now_or wall now\<rparr>
        in (Some r', (set_idle_queue (trim_space c) queue (set_runtime i r' reg))\<lparr>tr_updated_at := now_or wall now\<rparr>))"
      by blast
    have i: "bt_id r0 = i" "i \<noteq> []" "trim_space i = i" using bridge_inv_filed [OF assms(1) r0(1)] by simp_all
    with r0 assms(2) x show ?thesis by (auto simp: Let_def)
  qed
qed

lemma wait_for_idle_keeps:
  assumes "wait_for_idle wall c deadline ps reg = Some (x, reg')" "bridge_inv reg" "\<forall>p \<in> set ps. keeps_registry (wr_others p)"
  shows "bridge_inv reg' \<and> (\<forall>r. x = Inr r \<longrightarrow> map_of (byTunnelID reg') (bt_id r) = Some r \<and> bt_state r = BridgeTunnelReserved
    \<and> bt_id r \<noteq> [] \<and> trim_space (bt_id r) = bt_id r)"
  using assms
proof (induction ps arbitrary: reg)
  case (Cons p ps)
  have reg1: "bridge_inv (wr_others p reg)" using Cons.prems(2,3) by (simp add: keeps_registry_def)
  obtain y reg2 where y: "acquire_idle_tunnel wall (wr_now p) c (wr_others p reg) = (y, reg2)" by fastforce
  note acq = acquired_lent [OF reg1 y]
  show ?case
  proof (cases "wr_context p")
    case (Some e)
    then show ?thesis using Cons.prems(1) reg1 by (auto simp: Let_def)
  next
    case None
    show ?thesis
    proof (cases y)
      case (Some r)
      then show ?thesis using Cons.prems(1) None y acq by (auto simp: Let_def)
    next
      case yNone: None
      show ?thesis
      proof (cases "deadline - wr_checked p \<le> 0 \<or> wr_context_timer p \<noteq> None")
        case True
        then show ?thesis using Cons.prems(1) None y yNone acq(1) by (auto simp: Let_def split: if_splits)
      next
        case False
        then have "wait_for_idle wall c deadline ps reg2 = Some (x, reg')" using Cons.prems(1) None y yNone by (simp add: Let_def)
        from Cons.IH [OF this acq(1)] Cons.prems(3) show ?thesis by simp
      qed
    qed
  qed
qed simp

lemma acquire_or_wait_keeps:
  assumes "acquire_idle_or_wait aq wall c a w = Some (x, w')" "world_ok w" "attempt_keeps a"
  shows "world_ok w'" "x = Inr r \<Longrightarrow> found (bt_id r) w' = Some r \<and> bt_state r = BridgeTunnelReserved
    \<and> bt_id r \<noteq> [] \<and> trim_space (bt_id r) = bt_id r"
proof -
  obtain y reg where y: "acquire_idle_tunnel wall (at_first a) c (pw_registry w) = (y, reg)" by fastforce
  note acq = acquired_lent [OF assms(2) [unfolded world_ok_def] y]
  have "world_ok w' \<and> (\<forall>r. x = Inr r \<longrightarrow> found (bt_id r) w' = Some r \<and> bt_state r = BridgeTunnelReserved
    \<and> bt_id r \<noteq> [] \<and> trim_space (bt_id r) = bt_id r)"
  proof (cases y)
    case (Some r)
    then show ?thesis using assms(1) y acq by (auto simp: acquire_idle_or_wait_def world_ok_def found_def)
  next
    case None
    show ?thesis
    proof (cases "\<not> aq_enable_wait aq \<or> aq_wait_hint aq = 0")
      case True
      then show ?thesis using assms(1) None y acq(1) by (auto simp: acquire_idle_or_wait_def world_ok_def Let_def)
    next
      case False
      then obtain reg1 where "wait_for_idle wall c (at_start a + aq_wait_hint aq) (at_rounds a) reg = Some (x, reg1)"
          "pw_registry w' = reg1"
        using assms(1) None y by (auto simp: acquire_idle_or_wait_def Let_def split: option.splits)
      with wait_for_idle_keeps [OF _ acq(1)] assms(3) show ?thesis by (auto simp: attempt_keeps_def world_ok_def found_def)
    qed
  qed
  then show "world_ok w'" "x = Inr r \<Longrightarrow> found (bt_id r) w' = Some r \<and> bt_state r = BridgeTunnelReserved
    \<and> bt_id r \<noteq> [] \<and> trim_space (bt_id r) = bt_id r" by blast+
qed

lemma acquire_attempts_lent:
  assumes "acquire_attempts aq wall c attempts n left stale w = Some (Inr r, w')" "world_ok w" "\<forall>n. attempt_keeps (attempts n)"
  shows "found (bt_id r) w' = Some r \<and> bt_state r = BridgeTunnelReserved \<and> lent_or_gone b r w'"
  using assms(1,2)
proof (induction left arbitrary: n stale w)
  case (Suc left)
  let ?a = "attempts n"
  obtain x w1 where x: "acquire_idle_or_wait aq wall c ?a w = Some (x, w1)"
    using Suc.prems(1) by (auto simp: Let_def split: option.splits)
  note acq = acquire_or_wait_keeps [OF x Suc.prems(2) assms(3) [rule_format]]
  obtain r1 where r1: "x = Inr r1" using Suc.prems(1) x by (cases x) (auto simp: Let_def)
  note got = acq(2) [OF r1]
  show ?case
  proof (cases "probe_acquired_tunnel (at_probe ?a)")
    case None
    then have "r1 = r" "w1 = w'" using Suc.prems(1) x r1 by (simp_all add: Let_def)
    with got acq(1) show ?thesis by (simp add: lent_or_gone_def del: map_of_eq_Some_iff)
  next
    case (Some e)
    let ?w2 = "w1\<lparr>pw_refills := pw_refills w1 @ [(c, aq_refill_reason aq)], pw_registry := at_others ?a (pw_registry w1)\<rparr>"
    obtain failed w3 where f: "recycle_stale_tunnel wall (at_end ?a) (io_text e) (at_close ?a) r1 ?w2 = (failed, w3)" by fastforce
    have "\<not> (e = IoCanceled \<or> e = IoDeadline)" using Suc.prems(1) x r1 Some by (auto simp: Let_def)
    moreover from this have "failed = []" using Suc.prems(1) x r1 Some f by (auto simp: Let_def split: if_splits)
    ultimately have "acquire_attempts aq wall c attempts (Suc n) left [PErrTunnelStale] w3 = Some (Inr r, w')"
      using Suc.prems(1) x r1 Some f by (simp add: Let_def)
    moreover have "world_ok ?w2"
      using acq(1) assms(3) [rule_format, of n] by (simp add: world_ok_def attempt_keeps_def keeps_registry_def)
    then have "world_ok w3"
      using discard_broken(2) [of r1 ?w2] got f unfolding recycle_stale_tunnel_def by blast
    ultimately show ?thesis by (rule Suc.IH)
  qed
qed simp


section \<open>Properties\<close>

text \<open>
  C6. No request leaves its tunnel behind. Whatever the agent answers and whatever fails: when a
  request that got a tunnel is over, the tunnel is out of the registry, or idle again, and the
  registry is in order. Others may do anything to other tunnels meanwhile; this one they may
  take out or mark as broken, as the watcher of an ended tunnel and the purge of a session do, but they
  enter no tunnel of the same identifier. Two exceptions: a tunnel that was recycled \<open>2 ^ 64 - 1\<close> times stays
  as it is, and one that another broke is left for it to take out.
\<close>

theorem dispatch_settles_its_tunnel:
  assumes "dispatch env describe tunnels connector open w = Some (result, e, io, w')" and "dr_TunnelID result \<noteq> []"
    and "world_ok w" and "\<forall>n. attempt_keeps (px_attempts env n)" and "env_spares (dr_TunnelID result) env"
  shows "world_ok w' \<and> (found (dr_TunnelID result) w' = None
    \<or> (\<exists>x. found (dr_TunnelID result) w' = Some x \<and> (bt_state x = BridgeTunnelIdle \<or> bt_recycle_seq x = - 1
         \<or> bt_state x = BridgeTunnelBroken \<and> \<not> env_breaks_not (dr_TunnelID result) env)))"
proof -
  have c: "trim_space connector \<noteq> []" using assms(1,2) by (auto simp: dispatch_def Let_def)
  obtain x w1 where x: "acquire_idle_tunnel_for (px_acquirer env) (px_wall env) (trim_space connector) (px_attempts env) w = Some (x, w1)"
    using assms(1) c by (auto simp: dispatch_def Let_def split: option.splits)
  obtain r where r: "x = Inr r" using assms(1,2) c x by (cases x) (auto simp: dispatch_def fail_result_def Let_def)
  have run: "dispatch_on env describe open r (tunnels r) w1 = Some (result, e, io, w')"
    using assms(1) c x r by (simp add: dispatch_def Let_def)
  have lent: "lent_or_gone (\<not> env_breaks_not (bt_id r) env) r w1"
    using acquire_attempts_lent [OF _ assms(3,4)] x c unfolding r acquire_idle_tunnel_for_def by (simp add: Let_def)
  have "dr_TunnelID result = bt_id r" using dispatch_on_tunnel [OF run] by simp
  with dispatch_on_settled [OF lent _ _ run] assms(5) show ?thesis by (simp add: settled_def)
qed


section \<open>What a reused tunnel has seen\<close>

definition same_tunnel :: "tunnel_io \<Rightarrow> tunnel_io \<Rightarrow> bool" where
  "same_tunnel io io' \<longleftrightarrow> io_recyclable io' = io_recyclable io \<and> io_flush io' = io_flush io
     \<and> (io_closed io \<longrightarrow> io_closed io')"

lemma same_tunnel_trans: "same_tunnel a b \<Longrightarrow> same_tunnel b c \<Longrightarrow> same_tunnel a c"
  by (simp add: same_tunnel_def)












lemma failed_status: "mf_HTTPStatus (map_failure e) \<in> {502, 503, 504}" "mf_Code (map_failure e) \<noteq> []"
  by (simp_all add: map_failure_def)

definition status_right :: "dispatch_result \<Rightarrow> proxy_err \<Rightarrow> bool" where
  "status_right res e \<longleftrightarrow> (if e = [] then dr_HTTPStatus res = 200 \<and> dr_ErrorCode res = [] \<and> (\<exists>ack. dr_OpenAck res = Some ack)
     else dr_HTTPStatus res = mf_HTTPStatus (map_failure e) \<and> dr_ErrorCode res = mf_Code (map_failure e))"

lemma status_failed: "x \<noteq> [] \<Longrightarrow> status_right (fail_result res x) x"
  by (simp add: status_right_def fail_result_def)

lemma dispatch_on_status:
  assumes "dispatch_on env describe open r io w = Some out" shows "status_right (fst out) (fst (snd out))"
  using assms
proof (cases rule: dispatch_on_cases)
  case (failed res x io1 reg)
  then show ?thesis using status_failed [OF fail_dispatch_result(2)] fail_dispatch_result(1) by simp
next
  case (relayed ack io1 io2 y io3 w4)
  then show ?thesis using status_failed by (simp add: status_right_def)
qed

lemma wait_fails: "wait_for_idle wall c deadline ps reg = Some (Inl x, reg') \<Longrightarrow> x \<noteq> []"
  by (induction ps arbitrary: reg) (auto simp: Let_def split: option.splits prod.splits if_splits)

lemma acquire_fails: "acquire_attempts aq wall c attempts n left stale w = Some (Inl x, w1) \<Longrightarrow> x \<noteq> []"
proof (induction left arbitrary: n stale w)
  case (Suc left)
  have "y \<noteq> []" if "acquire_idle_or_wait aq wall c a w = Some (Inl y, w1)" for a w y w1
    using that wait_fails by (auto simp: acquire_idle_or_wait_def Let_def split: option.splits prod.splits if_splits)
  then show ?case using Suc by (auto simp: Let_def split: option.splits sum.splits prod.splits if_splits)
qed auto

text \<open>
  A client hears 200 exactly when nothing failed, and then the agent has accepted the traffic.
  Any error is answered by the status and the code of the failure map: 503 without a tunnel, 504
  when the agent did not answer in time, 502 or 503 otherwise.
\<close>

theorem dispatch_status:
  assumes "dispatch env describe tunnels connector open w = Some (result, e, io, w')" and "trim_space connector \<noteq> []"
  shows "if e = [] then dr_HTTPStatus result = 200 \<and> dr_ErrorCode result = [] \<and> (\<exists>ack. dr_OpenAck result = Some ack)
    else dr_HTTPStatus result = mf_HTTPStatus (map_failure e) \<and> dr_ErrorCode result = mf_Code (map_failure e)
      \<and> dr_HTTPStatus result \<in> {502, 503, 504}
      \<and> (PErrNoTunnel \<in> set e \<longrightarrow> dr_HTTPStatus result = 503)"
proof -
  obtain x w1 where x: "acquire_idle_tunnel_for (px_acquirer env) (px_wall env) (trim_space connector) (px_attempts env) w = Some (x, w1)"
    using assms by (auto simp: dispatch_def Let_def split: option.splits)
  have "status_right result e"
  proof (cases x)
    case (Inl y)
    then have "result = fail_result \<lparr>dr_TunnelID = [], dr_OpenAck = None, dr_HTTPStatus = 0, dr_ErrorCode = []\<rparr> e" "e = y"
      using assms x by (auto simp: dispatch_def Let_def)
    moreover have "y \<noteq> []" using x assms(2) acquire_fails unfolding Inl acquire_idle_tunnel_for_def by (auto simp: Let_def)
    ultimately show ?thesis using status_failed by simp
  next
    case (Inr r)
    then have "dispatch_on env describe open r (tunnels r) w1 = Some (result, e, io, w')" using assms x by (simp add: dispatch_def Let_def)
    from dispatch_on_status [OF this] show ?thesis by simp
  qed
  then show ?thesis using failed_status(1) [of e] by (auto simp: status_right_def map_failure_def)
qed


lemma wait_returns: "\<exists>p \<in> set ps. deadline \<le> wr_checked p \<Longrightarrow> wait_for_idle wall c deadline ps reg \<noteq> None"
  by (induction ps arbitrary: reg) (auto simp: Let_def split: option.split prod.split)

lemma acquire_or_wait_returns:
  assumes "\<exists>p \<in> set (at_rounds a). at_start a + aq_wait_hint aq \<le> wr_checked p"
  shows "acquire_idle_or_wait aq wall c a w \<noteq> None"
  using wait_returns [OF assms] by (simp add: acquire_idle_or_wait_def Let_def del: not_None_eq split: prod.split option.split)

lemma acquire_attempts_return:
  assumes "\<And>n. \<exists>p \<in> set (at_rounds (attempts n)). at_start (attempts n) + aq_wait_hint aq \<le> wr_checked p"
  shows "acquire_attempts aq wall c attempts n left stale w \<noteq> None"
proof (induction left arbitrary: n stale w)
  case (Suc left)
  obtain x w1 where "acquire_idle_or_wait aq wall c (attempts n) w = Some (x, w1)"
    using acquire_or_wait_returns [OF assms] by fastforce
  then show ?case using Suc by (auto simp: Let_def split: sum.split option.split prod.split)
qed simp

text \<open>
  C33. Waiting for a tunnel ends: when the clock passes the end of the wait in every attempt, the
  acquirer returns, with a tunnel or an error, whatever the probes say and whoever else takes
  tunnels meanwhile.
\<close>

theorem acquire_returns:
  assumes "\<And>n. \<exists>p \<in> set (at_rounds (attempts n)). at_start (attempts n) + aq_wait_hint aq \<le> wr_checked p"
  shows "\<exists>x w'. acquire_idle_tunnel_for aq wall connector attempts w = Some (x, w')"
  using acquire_attempts_return [of attempts aq, OF assms] by (auto simp: acquire_idle_tunnel_for_def Let_def)

text \<open>
  A request whose context ends while its tunnel is probed leaves the tunnel reserved: it is not
  closed, not given back, and no one knows of it any more.
\<close>

theorem cancelled_probe_leaks_tunnel:
  assumes "acquire_idle_tunnel wall (at_first (attempts 0)) c (pw_registry w) = (Some r, reg)" and "world_ok w"
    and "at_probe (attempts 0) = Some IoCanceled" and "trim_space c = c" "c \<noteq> []" and "0 < aq_max_retry aq"
  shows "acquire_idle_tunnel_for aq wall c attempts w = Some (Inl [PErrIo IoCanceled], w\<lparr>pw_registry := reg\<rparr>)"
    and "map_of (byTunnelID reg) (bt_id r) = Some r \<and> bt_state r = BridgeTunnelReserved"
proof -
  obtain left where "nat (aq_max_retry aq) = Suc left" using assms(6) by (cases "nat (aq_max_retry aq)") simp_all
  then show "acquire_idle_tunnel_for aq wall c attempts w = Some (Inl [PErrIo IoCanceled], w\<lparr>pw_registry := reg\<rparr>)"
    using assms by (simp add: acquire_idle_tunnel_for_def acquire_idle_or_wait_def probe_acquired_tunnel_def Let_def)
  show "map_of (byTunnelID reg) (bt_id r) = Some r \<and> bt_state r = BridgeTunnelReserved"
    using acquired_lent(2) [OF assms(2) [unfolded world_ok_def] assms(1)] by simp
qed


section \<open>Examples\<close>

definition proxy_registry :: tunnel_registry where
  "proxy_registry = snd (upsert_idle 1 1 ''c'' ''s'' \<lparr>tunnel_object = 0, tunnel_id = ''t''\<rparr> None new_tunnel_registry)"

definition sample_attempt :: attempt where
  "sample_attempt = \<lparr>at_first = 2, at_start = 2, at_rounds = [\<lparr>wr_others = \<lambda>reg. reg, wr_context = None, wr_now = 3, wr_checked = 3,
     wr_context_timer = None\<rparr>], at_probe = None, at_others = \<lambda>reg. reg, at_close = None, at_end = 4\<rparr>"

definition sample_proxy_env :: proxy_env where
  "sample_proxy_env = \<lparr>px_acquirer = \<lparr>aq_wait_hint = 1, aq_poll_interval = 1, aq_max_retry = 1, aq_refill_reason = ''r'', aq_enable_wait = True\<rparr>,
     px_cancel = new_cancel_handler [] [], px_max_reuse = 2, px_wall = 2, px_attempts = \<lambda>n. sample_attempt, px_active_now = 2,
     px_end_now = 3, px_expired = False, px_mark = \<lambda>reg. reg, px_open = \<lambda>reg. reg, px_relay = \<lambda>reg. reg, px_recycle = \<lambda>reg. reg\<rparr>"

definition sample_open :: traffic_open where
  "sample_open = \<lparr>to_TrafficID = ''x'', to_RouteID = [], to_LogicalServiceID = ''l'', to_InstanceID = ''i'', to_SourceAddr = [],
     to_ProtocolHint = [], to_TraceID = [], to_EndpointSelectionHint = [], to_Metadata = []\<rparr>"

definition sample_io :: tunnel_io where
  "sample_io = \<lparr>io_reads = [Inr (empty_payload\<lparr>sp_OpenAck := Some \<lparr>ta_TrafficID = ''x'', ta_Success = True, ta_ErrorCode = [],
        ta_ErrorMessage = [], ta_Metadata = []\<rparr>\<rparr>),
      Inr (empty_payload\<lparr>sp_Data := [1]\<rparr>),
      Inr (empty_payload\<lparr>sp_Close := Some \<lparr>tc_TrafficID = ''x'', tc_Reason = []\<rparr>\<rparr>),
      Inr (empty_payload\<lparr>sp_RecycleAck := Some \<lparr>ra_TunnelID = ''t'', ra_RecycleSeq = 1, ra_Accepted = True, ra_ErrorCode = [],
        ra_ErrorMessage = []\<rparr>\<rparr>)],
     io_writes = [None, None, None], io_close = None, io_recyclable = Some True, io_flush = Some None, io_sent = [],
     io_closed = False, io_ack_sent = [], io_unsafe = ([], [])\<rparr>"

definition sample_world :: proxy_world where
  "sample_world = \<lparr>pw_registry = proxy_registry, pw_refills = [], pw_closed = []\<rparr>"

lemma trim_proxy_sample: "trim_space ''c'' = ''c''" "trim_space ''t'' = ''t''" "trim_space ''x'' = ''x''" "trim_space ''l'' = ''l''"
  "trim_space ''i'' = ''i''" "trim_space ''s'' = ''s''"
  by (rule trim_space_graphic; simp add: graphic_def)+

definition sample_dispatch :: "(dispatch_result \<times> proxy_err \<times> tunnel_io option \<times> proxy_world) option" where
  "sample_dispatch = dispatch sample_proxy_env (\<lambda>e. ''failed'') (\<lambda>r. sample_io) ''c'' sample_open sample_world"

lemma sample_world_ok: "world_ok sample_world"
  by (simp add: world_ok_def sample_world_def proxy_registry_def bridge_inv_upsert bridge_inv_new)

lemma sample_acquired:
  "\<exists>r reg. acquire_idle_tunnel 2 2 ''c'' proxy_registry = (Some r, reg) \<and> bt_id r = ''t'' \<and> bt_state r = BridgeTunnelReserved
     \<and> bt_recycle_seq r = 0 \<and> bt_reuse_count r = 0 \<and> map_of (byTunnelID reg) ''t'' = Some r"
  by (simp add: acquire_idle_tunnel_def proxy_registry_def upsert_idle_def new_tunnel_registry_def trim_proxy_sample
      binding_type_from_runtime_tunnel_def set_idle_queue_def set_runtime_def idle_queue_def Let_def)

lemma sample_dispatch_runs:
  "\<exists>result io' w'. sample_dispatch = Some (result, [], Some io', w') \<and> dr_TunnelID result = ''t'' \<and> \<not> io_closed io'"
proof -
  obtain r reg where r: "acquire_idle_tunnel 2 2 ''c'' proxy_registry = (Some r, reg)" "bt_id r = ''t''" "bt_state r = BridgeTunnelReserved"
    "bt_recycle_seq r = 0" "bt_reuse_count r = 0" "map_of (byTunnelID reg) ''t'' = Some r" using sample_acquired by blast
  have acq: "acquire_idle_tunnel_for (px_acquirer sample_proxy_env) (px_wall sample_proxy_env) ''c'' (px_attempts sample_proxy_env) sample_world
      = Some (Inr r, sample_world\<lparr>pw_registry := reg\<rparr>)"
    by (simp add: acquire_idle_tunnel_for_def sample_proxy_env_def sample_attempt_def sample_world_def acquire_idle_or_wait_def r(1)
        probe_acquired_tunnel_def trim_proxy_sample Let_def)
  have run: "sample_dispatch = dispatch_on sample_proxy_env (\<lambda>e. ''failed'') sample_open r sample_io (sample_world\<lparr>pw_registry := reg\<rparr>)"
    by (simp add: sample_dispatch_def dispatch_def trim_proxy_sample acq Let_def)
  show ?thesis
    unfolding run by (simp add: trim_proxy_sample dispatch_on_def mark_tunnel_active_def r
        sample_proxy_env_def sample_open_def sample_io_def execute_open_handshake_def validate_traffic_open_def write_payload_to_def
        read_payload_from_def empty_payload_def relay_def close_names_def reset_for_def answer_close_def try_mark_close_ack_sent_def
        accepting_close_ack_def opt_err_def recycle_tunnel_reusable_def consume_unsafe_to_recycle_def is_bridge_tunnel_reusable_def
        flush_before_recycle_def recycle_agreed_def execute_tunnel_recycle_handshake_def mark_tunnel_idle_after_recycle_def
        clear_close_ack_sent_def Let_def)
qed

lemma spares_id: "spares i (\<lambda>reg. reg)" "keeps_registry (\<lambda>reg. reg)" "breaks_not i (\<lambda>reg. reg)"
  by (simp_all add: spares_def keeps_registry_def breaks_not_def)

theorem dispatch_settles_its_tunnel_witness:
  "\<exists>result e io w'. sample_dispatch = Some (result, e, io, w') \<and> dr_TunnelID result = ''t''
     \<and> (found ''t'' w' = None \<or> (\<exists>x. found ''t'' w' = Some x \<and> (bt_state x = BridgeTunnelIdle \<or> bt_recycle_seq x = - 1)))"
proof -
  obtain result io' w' where run: "sample_dispatch = Some (result, [], Some io', w')" "dr_TunnelID result = ''t''"
    using sample_dispatch_runs by blast
  have "\<forall>n. attempt_keeps (px_attempts sample_proxy_env n)"
    by (simp add: sample_proxy_env_def attempt_keeps_def sample_attempt_def spares_id)
  moreover have "env_spares (dr_TunnelID result) sample_proxy_env"
    "env_breaks_not (dr_TunnelID result) sample_proxy_env"
    by (simp_all add: env_spares_def env_breaks_not_def sample_proxy_env_def spares_id)
  ultimately have "found ''t'' w' = None \<or> (\<exists>x. found ''t'' w' = Some x \<and> (bt_state x = BridgeTunnelIdle \<or> bt_recycle_seq x = - 1))"
    using dispatch_settles_its_tunnel [OF run(1) [unfolded sample_dispatch_def] _ sample_world_ok] unfolding run(2) by auto
  with run show ?thesis by blast
qed


theorem dispatch_status_witness:
  "\<exists>result io' w'. sample_dispatch = Some (result, [], Some io', w') \<and> dr_HTTPStatus result = 200"
proof -
  obtain result io' w' where run: "sample_dispatch = Some (result, [], Some io', w')" using sample_dispatch_runs by blast
  from dispatch_status [OF run [unfolded sample_dispatch_def]] have "dr_HTTPStatus result = 200" by (simp add: trim_proxy_sample)
  with run show ?thesis by blast
qed

theorem acquire_returns_witness:
  "\<exists>x w'. acquire_idle_tunnel_for (px_acquirer sample_proxy_env) 2 ''c'' (\<lambda>n. sample_attempt) sample_world = Some (x, w')"
  by (rule acquire_returns) (simp add: sample_attempt_def sample_proxy_env_def)
end
