(* ===== verification/Traffic_Protocol.thy ===== *)
theory Traffic_Protocol
  imports Tcp_Framing
begin

text \<open>
  The frame protocol of the library's traffic runtime (\<open>ltfp/runtime/types.go\<close>,
  \<open>ltfp/runtime/protocol.go\<close>): the frames and their validation, and the format
  ``type, length, payload'' on a tunnel. The tunnel is the environment: the outcomes its
  \<open>Read\<close> and \<open>Write\<close> calls will have. \<open>encoding/json\<close> is a parameter (a record of
  one encoder and one decoder per payload).
\<close>

section \<open>Frames\<close>

record traffic_meta =
  tm_TrafficID :: string
  tm_SessionID :: string
  tm_SessionEpoch :: "64 word"
  tm_LogicalServiceID :: string
  tm_Labels :: "(string, string) gomap"
  tm_DeadlineAt :: "gotime option"

definition validate_traffic_meta :: "traffic_meta \<Rightarrow> goerr option" where
  "validate_traffic_meta m =
     (if trim_space (tm_TrafficID m) = [] then Some ErrInvalidArgument
      else if trim_space (tm_LogicalServiceID m) = [] then Some ErrInvalidArgument
      else None)"

datatype traffic_frame_type =
    TrafficFrameOpen
  | TrafficFrameOpenAck
  | TrafficFrameData
  | TrafficFrameClose
  | TrafficFrameCloseAck
  | TrafficFrameReset
  | TrafficFrameRecycle
  | TrafficFrameRecycleAck
  | TrafficFrameOther string

record runtime_open_ack =
  roa_Accepted :: bool
  roa_Code :: string
  roa_Message :: string

record runtime_close =
  rcl_Code :: string
  rcl_Message :: string

record runtime_close_ack =
  rca_Accepted :: bool
  rca_Code :: string
  rca_Message :: string

record runtime_reset =
  rrs_Code :: string
  rrs_Message :: string

record runtime_recycle =
  rrc_TunnelID :: string
  rrc_RecycleSeq :: "64 word"
  rrc_IsFinal :: bool
  rrc_CompletedTrafficCount :: "32 word"

record runtime_recycle_ack =
  rra_TunnelID :: string
  rra_RecycleSeq :: "64 word"
  rra_Accepted :: bool
  rra_ErrorCode :: string
  rra_Message :: string

record traffic_frame =
  tf_Type :: traffic_frame_type
  tf_Open :: "traffic_meta option"
  tf_OpenAck :: "runtime_open_ack option"
  tf_Data :: "byte list"
  tf_Close :: "runtime_close option"
  tf_CloseAck :: "runtime_close_ack option"
  tf_Reset :: "runtime_reset option"
  tf_Recycle :: "runtime_recycle option"
  tf_RecycleAck :: "runtime_recycle_ack option"

definition bare_frame :: "traffic_frame_type \<Rightarrow> traffic_frame" where
  "bare_frame ty = \<lparr>tf_Type = ty, tf_Open = None, tf_OpenAck = None, tf_Data = [], tf_Close = None,
     tf_CloseAck = None, tf_Reset = None, tf_Recycle = None, tf_RecycleAck = None\<rparr>"

definition data_frame :: "byte list \<Rightarrow> traffic_frame" where
  "data_frame bs = (bare_frame TrafficFrameData)\<lparr>tf_Data := bs\<rparr>"

definition validate_traffic_frame :: "traffic_frame \<Rightarrow> goerr option" where
  "validate_traffic_frame f =
     (case tf_Type f of
        TrafficFrameOpen \<Rightarrow>
          (case tf_Open f of None \<Rightarrow> Some ErrInvalidArgument
           | Some m \<Rightarrow>
               (case validate_traffic_meta m of Some e \<Rightarrow> Some e
                | None \<Rightarrow>
                    if tf_OpenAck f \<noteq> None \<or> length (tf_Data f) > 0 \<or> tf_Close f \<noteq> None \<or> tf_CloseAck f \<noteq> None
                       \<or> tf_Reset f \<noteq> None \<or> tf_Recycle f \<noteq> None \<or> tf_RecycleAck f \<noteq> None
                    then Some ErrInvalidArgument else None))
      | TrafficFrameOpenAck \<Rightarrow>
          if tf_OpenAck f = None then Some ErrInvalidArgument
          else if tf_Open f \<noteq> None \<or> length (tf_Data f) > 0 \<or> tf_Close f \<noteq> None \<or> tf_CloseAck f \<noteq> None
                  \<or> tf_Reset f \<noteq> None \<or> tf_Recycle f \<noteq> None \<or> tf_RecycleAck f \<noteq> None
          then Some ErrInvalidArgument else None
      | TrafficFrameData \<Rightarrow>
          if tf_Open f \<noteq> None \<or> tf_OpenAck f \<noteq> None \<or> tf_Close f \<noteq> None \<or> tf_CloseAck f \<noteq> None
             \<or> tf_Reset f \<noteq> None \<or> tf_Recycle f \<noteq> None \<or> tf_RecycleAck f \<noteq> None
          then Some ErrInvalidArgument else None
      | TrafficFrameClose \<Rightarrow>
          if tf_Close f = None then Some ErrInvalidArgument
          else if tf_Open f \<noteq> None \<or> tf_OpenAck f \<noteq> None \<or> length (tf_Data f) > 0 \<or> tf_CloseAck f \<noteq> None
                  \<or> tf_Reset f \<noteq> None \<or> tf_Recycle f \<noteq> None \<or> tf_RecycleAck f \<noteq> None
          then Some ErrInvalidArgument else None
      | TrafficFrameCloseAck \<Rightarrow>
          if tf_CloseAck f = None then Some ErrInvalidArgument
          else if tf_Open f \<noteq> None \<or> tf_OpenAck f \<noteq> None \<or> length (tf_Data f) > 0 \<or> tf_Close f \<noteq> None
                  \<or> tf_Reset f \<noteq> None \<or> tf_Recycle f \<noteq> None \<or> tf_RecycleAck f \<noteq> None
          then Some ErrInvalidArgument else None
      | TrafficFrameReset \<Rightarrow>
          if tf_Reset f = None then Some ErrInvalidArgument
          else if tf_Open f \<noteq> None \<or> tf_OpenAck f \<noteq> None \<or> length (tf_Data f) > 0 \<or> tf_Close f \<noteq> None
                  \<or> tf_CloseAck f \<noteq> None \<or> tf_Recycle f \<noteq> None \<or> tf_RecycleAck f \<noteq> None
          then Some ErrInvalidArgument else None
      | TrafficFrameRecycle \<Rightarrow>
          if tf_Recycle f = None then Some ErrInvalidArgument
          else if tf_Open f \<noteq> None \<or> tf_OpenAck f \<noteq> None \<or> length (tf_Data f) > 0 \<or> tf_Close f \<noteq> None
                  \<or> tf_CloseAck f \<noteq> None \<or> tf_Reset f \<noteq> None \<or> tf_RecycleAck f \<noteq> None
          then Some ErrInvalidArgument else None
      | TrafficFrameRecycleAck \<Rightarrow>
          if tf_RecycleAck f = None then Some ErrInvalidArgument
          else if tf_Open f \<noteq> None \<or> tf_OpenAck f \<noteq> None \<or> length (tf_Data f) > 0 \<or> tf_Close f \<noteq> None
                  \<or> tf_CloseAck f \<noteq> None \<or> tf_Reset f \<noteq> None \<or> tf_Recycle f \<noteq> None
          then Some ErrInvalidArgument else None
      | TrafficFrameOther _ \<Rightarrow> Some ErrInvalidArgument)"


section \<open>Types on the wire and payloads\<close>

fun encode_wire_type :: "traffic_frame_type \<Rightarrow> goerr + byte" where
  "encode_wire_type TrafficFrameOpen = Inr 1"
| "encode_wire_type TrafficFrameOpenAck = Inr 2"
| "encode_wire_type TrafficFrameData = Inr 3"
| "encode_wire_type TrafficFrameClose = Inr 4"
| "encode_wire_type TrafficFrameCloseAck = Inr 5"
| "encode_wire_type TrafficFrameReset = Inr 6"
| "encode_wire_type TrafficFrameRecycle = Inr 7"
| "encode_wire_type TrafficFrameRecycleAck = Inr 8"
| "encode_wire_type (TrafficFrameOther _) = Inl ErrInvalidArgument"

definition decode_wire_type :: "byte \<Rightarrow> goerr + traffic_frame_type" where
  "decode_wire_type w =
     (if w = 1 then Inr TrafficFrameOpen
      else if w = 2 then Inr TrafficFrameOpenAck
      else if w = 3 then Inr TrafficFrameData
      else if w = 4 then Inr TrafficFrameClose
      else if w = 5 then Inr TrafficFrameCloseAck
      else if w = 6 then Inr TrafficFrameReset
      else if w = 7 then Inr TrafficFrameRecycle
      else if w = 8 then Inr TrafficFrameRecycleAck
      else Inl ErrInvalidArgument)"

text \<open>\<open>json.Marshal\<close> of a pointer and \<open>json.Unmarshal\<close>, per payload type.\<close>

record frame_json =
  enc_open :: "traffic_meta option \<Rightarrow> goerr + byte list"
  dec_open :: "byte list \<Rightarrow> goerr + traffic_meta"
  enc_open_ack :: "runtime_open_ack option \<Rightarrow> goerr + byte list"
  dec_open_ack :: "byte list \<Rightarrow> goerr + runtime_open_ack"
  enc_close :: "runtime_close option \<Rightarrow> goerr + byte list"
  dec_close :: "byte list \<Rightarrow> goerr + runtime_close"
  enc_close_ack :: "runtime_close_ack option \<Rightarrow> goerr + byte list"
  dec_close_ack :: "byte list \<Rightarrow> goerr + runtime_close_ack"
  enc_reset :: "runtime_reset option \<Rightarrow> goerr + byte list"
  dec_reset :: "byte list \<Rightarrow> goerr + runtime_reset"
  enc_recycle :: "runtime_recycle option \<Rightarrow> goerr + byte list"
  dec_recycle :: "byte list \<Rightarrow> goerr + runtime_recycle"
  enc_recycle_ack :: "runtime_recycle_ack option \<Rightarrow> goerr + byte list"
  dec_recycle_ack :: "byte list \<Rightarrow> goerr + runtime_recycle_ack"

definition encode_frame_payload :: "frame_json \<Rightarrow> traffic_frame \<Rightarrow> goerr + byte list" where
  "encode_frame_payload js f =
     (case tf_Type f of
        TrafficFrameOpen \<Rightarrow> enc_open js (tf_Open f)
      | TrafficFrameOpenAck \<Rightarrow> enc_open_ack js (tf_OpenAck f)
      | TrafficFrameData \<Rightarrow> Inr (tf_Data f)
      | TrafficFrameClose \<Rightarrow> enc_close js (tf_Close f)
      | TrafficFrameCloseAck \<Rightarrow> enc_close_ack js (tf_CloseAck f)
      | TrafficFrameReset \<Rightarrow> enc_reset js (tf_Reset f)
      | TrafficFrameRecycle \<Rightarrow> enc_recycle js (tf_Recycle f)
      | TrafficFrameRecycleAck \<Rightarrow> enc_recycle_ack js (tf_RecycleAck f)
      | TrafficFrameOther _ \<Rightarrow> Inl ErrInvalidArgument)"

definition decode_frame_payload :: "frame_json \<Rightarrow> traffic_frame_type \<Rightarrow> byte list \<Rightarrow> goerr + traffic_frame" where
  "decode_frame_payload js ty bs =
     (case ty of
        TrafficFrameOpen \<Rightarrow>
          (case dec_open js bs of Inl e \<Rightarrow> Inl e | Inr m \<Rightarrow> Inr ((bare_frame ty)\<lparr>tf_Open := Some m\<rparr>))
      | TrafficFrameOpenAck \<Rightarrow>
          (case dec_open_ack js bs of Inl e \<Rightarrow> Inl e | Inr m \<Rightarrow> Inr ((bare_frame ty)\<lparr>tf_OpenAck := Some m\<rparr>))
      | TrafficFrameData \<Rightarrow> Inr (data_frame bs)
      | TrafficFrameClose \<Rightarrow>
          (case dec_close js bs of Inl e \<Rightarrow> Inl e | Inr m \<Rightarrow> Inr ((bare_frame ty)\<lparr>tf_Close := Some m\<rparr>))
      | TrafficFrameCloseAck \<Rightarrow>
          (case dec_close_ack js bs of Inl e \<Rightarrow> Inl e | Inr m \<Rightarrow> Inr ((bare_frame ty)\<lparr>tf_CloseAck := Some m\<rparr>))
      | TrafficFrameReset \<Rightarrow>
          (case dec_reset js bs of Inl e \<Rightarrow> Inl e | Inr m \<Rightarrow> Inr ((bare_frame ty)\<lparr>tf_Reset := Some m\<rparr>))
      | TrafficFrameRecycle \<Rightarrow>
          (case dec_recycle js bs of Inl e \<Rightarrow> Inl e | Inr m \<Rightarrow> Inr ((bare_frame ty)\<lparr>tf_Recycle := Some m\<rparr>))
      | TrafficFrameRecycleAck \<Rightarrow>
          (case dec_recycle_ack js bs of Inl e \<Rightarrow> Inl e
           | Inr m \<Rightarrow> Inr ((bare_frame ty)\<lparr>tf_RecycleAck := Some m\<rparr>))
      | TrafficFrameOther _ \<Rightarrow> Inl ErrInvalidArgument)"

text \<open>The documented law of \<open>encoding/json\<close>, for the payload of one frame.\<close>

definition json_keeps :: "frame_json \<Rightarrow> traffic_frame \<Rightarrow> bool" where
  "json_keeps js f =
     (case tf_Type f of
        TrafficFrameOpen \<Rightarrow>
          (case enc_open js (tf_Open f) of Inl _ \<Rightarrow> False
           | Inr bs \<Rightarrow> (case dec_open js bs of Inl _ \<Rightarrow> False | Inr m \<Rightarrow> tf_Open f = Some m))
      | TrafficFrameOpenAck \<Rightarrow>
          (case enc_open_ack js (tf_OpenAck f) of Inl _ \<Rightarrow> False
           | Inr bs \<Rightarrow> (case dec_open_ack js bs of Inl _ \<Rightarrow> False | Inr m \<Rightarrow> tf_OpenAck f = Some m))
      | TrafficFrameData \<Rightarrow> True
      | TrafficFrameClose \<Rightarrow>
          (case enc_close js (tf_Close f) of Inl _ \<Rightarrow> False
           | Inr bs \<Rightarrow> (case dec_close js bs of Inl _ \<Rightarrow> False | Inr m \<Rightarrow> tf_Close f = Some m))
      | TrafficFrameCloseAck \<Rightarrow>
          (case enc_close_ack js (tf_CloseAck f) of Inl _ \<Rightarrow> False
           | Inr bs \<Rightarrow> (case dec_close_ack js bs of Inl _ \<Rightarrow> False | Inr m \<Rightarrow> tf_CloseAck f = Some m))
      | TrafficFrameReset \<Rightarrow>
          (case enc_reset js (tf_Reset f) of Inl _ \<Rightarrow> False
           | Inr bs \<Rightarrow> (case dec_reset js bs of Inl _ \<Rightarrow> False | Inr m \<Rightarrow> tf_Reset f = Some m))
      | TrafficFrameRecycle \<Rightarrow>
          (case enc_recycle js (tf_Recycle f) of Inl _ \<Rightarrow> False
           | Inr bs \<Rightarrow> (case dec_recycle js bs of Inl _ \<Rightarrow> False | Inr m \<Rightarrow> tf_Recycle f = Some m))
      | TrafficFrameRecycleAck \<Rightarrow>
          (case enc_recycle_ack js (tf_RecycleAck f) of Inl _ \<Rightarrow> False
           | Inr bs \<Rightarrow> (case dec_recycle_ack js bs of Inl _ \<Rightarrow> False | Inr m \<Rightarrow> tf_RecycleAck f = Some m))
      | TrafficFrameOther _ \<Rightarrow> False)"

lemma decode_encode_wire_type:
  "encode_wire_type ty = Inr w \<Longrightarrow> decode_wire_type w = Inr ty"
  by (cases ty) (auto simp: decode_wire_type_def)


section \<open>The tunnel\<close>

text \<open>
  A read event is a run of bytes that arrives, with the error, if any, that \<open>Read\<close> reports
  together with its last byte. A write answer is the number of bytes a \<open>Write\<close> takes (by the
  contract of \<open>io.Writer\<close> at most those it is given) and its error. With no event or
  answer left, a call blocks: \<open>None\<close>.
\<close>

datatype read_event = Arrives "byte list" "goerr option"

record tunnel_end =
  te_ID :: string
  te_In :: "read_event list"
  te_Answers :: "(nat \<times> goerr option) list"
  te_Out :: "byte list"

fun tunnel_read :: "nat \<Rightarrow> read_event list \<Rightarrow> (byte list \<times> goerr option \<times> read_event list) option" where
  "tunnel_read k [] = None"
| "tunnel_read k (Arrives bs e # es) =
     Some (if length bs \<le> k then (bs, e, es) else (take k bs, None, Arrives (drop k bs) e # es))"

fun read_events_size :: "read_event list \<Rightarrow> nat" where
  "read_events_size [] = 0"
| "read_events_size (Arrives bs e # es) = Suc (length bs) + read_events_size es"

lemma tunnel_read_smaller:
  assumes "tunnel_read k es = Some (bs, e, es')" and "0 < k"
  shows "read_events_size es' < read_events_size es"
  using assms by (cases es rule: read_events_size.cases) (auto split: if_splits)

definition err_eof :: goerr where "err_eof = OtherErr ''EOF''"
definition err_short_write :: goerr where "err_short_write = OtherErr ''short write''"

text \<open>\<open>io.ReadFull\<close>: the error that comes with the last byte needed is dropped.\<close>

function read_at_least ::
    "nat \<Rightarrow> byte list \<Rightarrow> read_event list \<Rightarrow> ((goerr + byte list) \<times> read_event list) option" where
  "read_at_least n got es =
     (if n \<le> length got then Some (Inr got, es)
      else case tunnel_read (n - length got) es of
          None \<Rightarrow> None
        | Some (bs, e, es') \<Rightarrow>
            if n \<le> length (got @ bs) then Some (Inr (got @ bs), es')
            else (case e of
                None \<Rightarrow> read_at_least n (got @ bs) es'
              | Some err \<Rightarrow>
                  Some (Inl (if err = err_eof \<and> got @ bs \<noteq> [] then err_unexpected_eof else err), es')))"
  by pat_completeness auto
termination
  by (relation "measure (\<lambda>(n, got, es). read_events_size es)") (auto dest: tunnel_read_smaller)

declare read_at_least.simps [simp del]

text \<open>\<open>readFull\<close>: the errors that match the result under \<open>errors.Is\<close>.\<close>

definition read_full ::
    "nat \<Rightarrow> read_event list \<Rightarrow> ((goerr list + byte list) \<times> read_event list) option" where
  "read_full n es =
     (case read_at_least n [] es of
        None \<Rightarrow> None
      | Some (Inr bs, es') \<Rightarrow> Some (Inr bs, es')
      | Some (Inl e, es') \<Rightarrow>
          Some (Inl (if e = err_eof \<or> e = err_unexpected_eof then [ErrTunnelClosed, e] else [e]), es'))"

text \<open>\<open>writeFull\<close>: the bytes written, the error and the answers left.\<close>

fun write_full ::
    "byte list \<Rightarrow> (nat \<times> goerr option) list
      \<Rightarrow> (byte list \<times> goerr option \<times> (nat \<times> goerr option) list) option" where
  "write_full [] as = Some ([], None, as)"
| "write_full (b # bs) [] = None"
| "write_full (b # bs) ((n, e) # as) =
     (case e of
        Some err \<Rightarrow> Some (take n (b # bs), Some err, as)
      | None \<Rightarrow>
          if n = 0 then Some ([], Some err_short_write, as)
          else (case write_full (drop n (b # bs)) as of
              None \<Rightarrow> None
            | Some (w, e', as') \<Rightarrow> Some (take n (b # bs) @ w, e', as')))"


section \<open>The protocol\<close>

record traffic_protocol_config =
  MaxFramePayloadBytes :: int

definition default_max_frame_payload_bytes :: int where
  "default_max_frame_payload_bytes = 8 * 1024 * 1024"

definition normalize_protocol_config :: "traffic_protocol_config \<Rightarrow> traffic_protocol_config" where
  "normalize_protocol_config c =
     (if MaxFramePayloadBytes c \<le> 0 then c\<lparr>MaxFramePayloadBytes := default_max_frame_payload_bytes\<rparr> else c)"

definition default_protocol_config :: traffic_protocol_config where
  "default_protocol_config = \<lparr>MaxFramePayloadBytes = default_max_frame_payload_bytes\<rparr>"

definition normalize_tunnel_id :: "tunnel_end option \<Rightarrow> goerr + string" where
  "normalize_tunnel_id t =
     (case t of None \<Rightarrow> Inl ErrInvalidArgument
      | Some te \<Rightarrow>
          if trim_space (te_ID te) = [] then Inl ErrInvalidArgument else Inr (trim_space (te_ID te)))"

text \<open>
  The lock of a tunnel: \<open>Load\<close> finds it in \<open>m\<close>, or \<open>LoadOrStore\<close> in \<open>m'\<close>, what
  the map has become by then, takes the lock found there or stores the new one.
\<close>

definition writer_lock_for_tunnel ::
    "string \<Rightarrow> (string, 'l) gomap \<Rightarrow> (string, 'l) gomap \<Rightarrow> 'l \<Rightarrow> 'l \<times> (string, 'l) gomap" where
  "writer_lock_for_tunnel i m m' new =
     (case map_of m i of
        Some l \<Rightarrow> (l, m)
      | None \<Rightarrow> (case map_of m' i of Some l \<Rightarrow> (l, m') | None \<Rightarrow> (new, map_put i new m')))"

text \<open>\<open>WriteFrame\<close>: header and payload under the lock of the tunnel.\<close>

definition frame_header :: "byte \<Rightarrow> nat \<Rightarrow> byte list" where
  "frame_header wt n = wt # be_bytes 4 (of_nat n :: 32 word)"

definition write_traffic_frame ::
    "frame_json \<Rightarrow> traffic_protocol_config \<Rightarrow> tunnel_end option \<Rightarrow> traffic_frame
      \<Rightarrow> (goerr option \<times> tunnel_end option) option" where
  "write_traffic_frame js c t f =
     (case normalize_tunnel_id t of
        Inl e \<Rightarrow> Some (Some e, t)
      | Inr _ \<Rightarrow>
        (case validate_traffic_frame f of
           Some e \<Rightarrow> Some (Some e, t)
         | None \<Rightarrow>
           (case encode_wire_type (tf_Type f) of
              Inl e \<Rightarrow> Some (Some e, t)
            | Inr wt \<Rightarrow>
              (case encode_frame_payload js f of
                 Inl e \<Rightarrow> Some (Some e, t)
               | Inr bs \<Rightarrow>
                   if int (length bs) > MaxFramePayloadBytes c then Some (Some ErrInvalidArgument, t)
                   else (case t of
                       None \<Rightarrow> None
                     | Some te \<Rightarrow>
                         (case write_full (frame_header wt (length bs)) (te_Answers te) of
                            None \<Rightarrow> None
                          | Some (w1, Some e, as) \<Rightarrow>
                              Some (Some e, Some (te\<lparr>te_Answers := as, te_Out := te_Out te @ w1\<rparr>))
                          | Some (w1, None, as) \<Rightarrow>
                              (case write_full bs as of
                                 None \<Rightarrow> None
                               | Some (w2, e2, as') \<Rightarrow>
                                   Some (e2, Some (te\<lparr>te_Answers := as',
                                                       te_Out := te_Out te @ w1 @ w2\<rparr>)))))))))"

definition read_traffic_frame ::
    "frame_json \<Rightarrow> traffic_protocol_config \<Rightarrow> tunnel_end option
      \<Rightarrow> ((goerr list + traffic_frame) \<times> tunnel_end option) option" where
  "read_traffic_frame js c t =
     (case t of
        None \<Rightarrow> Some (Inl [ErrInvalidArgument], None)
      | Some te \<Rightarrow>
        (case read_full 5 (te_In te) of
           None \<Rightarrow> None
         | Some (Inl es, ins) \<Rightarrow> Some (Inl es, Some (te\<lparr>te_In := ins\<rparr>))
         | Some (Inr header, ins) \<Rightarrow>
           (case decode_wire_type (header ! 0) of
              Inl e \<Rightarrow> Some (Inl [e], Some (te\<lparr>te_In := ins\<rparr>))
            | Inr ty \<Rightarrow>
              (let payload_size = unat (be_word (drop 1 header) :: 32 word)
               in if int payload_size > MaxFramePayloadBytes c
                  then Some (Inl [ErrInvalidArgument], Some (te\<lparr>te_In := ins\<rparr>))
                  else (case read_full payload_size ins of
                      None \<Rightarrow> None
                    | Some (Inl es, ins') \<Rightarrow> Some (Inl es, Some (te\<lparr>te_In := ins'\<rparr>))
                    | Some (Inr bs, ins') \<Rightarrow>
                        Some (case decode_frame_payload js ty bs of
                                Inl e \<Rightarrow> Inl [e]
                              | Inr f \<Rightarrow> (case validate_traffic_frame f of Some e \<Rightarrow> Inl [e] | None \<Rightarrow> Inr f),
                              Some (te\<lparr>te_In := ins'\<rparr>)))))))"


section \<open>What a write puts on the tunnel\<close>

lemma write_full_whole: "write_full bs as = Some (w, None, as') \<Longrightarrow> w = bs"
proof (induction bs as arbitrary: w rule: write_full.induct)
  case (3 b bs n e as)
  then show ?case
    by (auto simp del: take_Suc_Cons drop_Suc_Cons split: option.splits if_splits prod.splits)
qed simp_all

text \<open>The bytes of a frame on the wire, and the frames that can be sent faithfully.\<close>

definition traffic_frame_bytes :: "frame_json \<Rightarrow> traffic_frame \<Rightarrow> byte list" where
  "traffic_frame_bytes js f =
     (case encode_wire_type (tf_Type f) of Inl _ \<Rightarrow> []
      | Inr wt \<Rightarrow> (case encode_frame_payload js f of Inl _ \<Rightarrow> []
                    | Inr bs \<Rightarrow> frame_header wt (length bs) @ bs))"

definition sendable :: "frame_json \<Rightarrow> traffic_protocol_config \<Rightarrow> traffic_frame \<Rightarrow> bool" where
  "sendable js c f \<longleftrightarrow> validate_traffic_frame f = None \<and> json_keeps js f
     \<and> (case encode_frame_payload js f of Inl _ \<Rightarrow> False
        | Inr bs \<Rightarrow> int (length bs) \<le> MaxFramePayloadBytes c \<and> length bs < 2 ^ 32)"

lemma sendable_parts:
  assumes "sendable js c f"
  obtains wt bs where "encode_wire_type (tf_Type f) = Inr wt" and "encode_frame_payload js f = Inr bs"
    and "int (length bs) \<le> MaxFramePayloadBytes c" and "length bs < 2 ^ 32"
    and "decode_frame_payload js (tf_Type f) bs = Inr f" and "validate_traffic_frame f = None"
proof -
  have v: "validate_traffic_frame f = None" and k: "json_keeps js f"
    using assms by (auto simp: sendable_def)
  obtain bs where bs: "encode_frame_payload js f = Inr bs" "int (length bs) \<le> MaxFramePayloadBytes c"
      "length bs < 2 ^ 32"
    using assms by (auto simp: sendable_def split: sum.splits)
  obtain ty a b d e g h r s where f: "f = \<lparr>tf_Type = ty, tf_Open = a, tf_OpenAck = b, tf_Data = d, tf_Close = e,
     tf_CloseAck = g, tf_Reset = h, tf_Recycle = r, tf_RecycleAck = s\<rparr>"
    by (cases f) blast
  have "decode_frame_payload js (tf_Type f) bs = Inr f"
    using v k bs(1) unfolding f
    by (cases ty; simp add: validate_traffic_frame_def json_keeps_def encode_frame_payload_def
        decode_frame_payload_def bare_frame_def data_frame_def split: if_splits option.split_asm sum.split_asm)
  moreover obtain wt where "encode_wire_type (tf_Type f) = Inr wt"
    using v unfolding f by (cases ty) (auto simp: validate_traffic_frame_def)
  ultimately show thesis using that bs v by blast
qed

lemma write_traffic_frame_ok:
  assumes "write_traffic_frame js c (Some te) f = Some (None, t')"
  obtains te' where "t' = Some te'" and "te_Out te' = te_Out te @ traffic_frame_bytes js f"
    and "te_In te' = te_In te" and "te_ID te' = te_ID te" and "validate_traffic_frame f = None"
  using assms
  by (auto simp: write_traffic_frame_def traffic_frame_bytes_def split: sum.splits option.splits if_splits
      prod.splits dest!: write_full_whole)


section \<open>What a read takes from the tunnel\<close>

text \<open>The bytes that arrive up to the first error.\<close>

fun promised :: "read_event list \<Rightarrow> byte list" where
  "promised [] = []"
| "promised (Arrives bs None # es) = bs @ promised es"
| "promised (Arrives bs (Some e) # es) = bs"

lemma read_at_least_promised:
  "n \<le> length got + length (promised es) \<Longrightarrow> length got \<le> n \<Longrightarrow>
     \<exists>es' more. read_at_least n got es = Some (Inr (got @ take (n - length got) (promised es)), es')
        \<and> promised es' = drop (n - length got) (promised es) @ more"
proof (induction n got es rule: read_at_least.induct)
  case (1 n got es)
  show ?case
  proof (cases "n \<le> length got")
    case True
    then show ?thesis using 1(3) by (auto simp: read_at_least.simps)
  next
    case False
    then obtain bs e es0 where es: "es = Arrives bs e # es0"
      using 1(2) by (cases es rule: promised.cases) auto
    show ?thesis
    proof (cases "length bs < n - length got")
      case True
      then have e: "e = None" using 1(2) by (cases e) (auto simp: es)
      have "\<exists>es' more. read_at_least n (got @ bs) es0
              = Some (Inr ((got @ bs) @ take (n - length (got @ bs)) (promised es0)), es')
            \<and> promised es' = drop (n - length (got @ bs)) (promised es0) @ more"
        using 1(1)[of "(bs, e, es0)" bs "(e, es0)" e es0] False True 1(2) by (simp add: es e)
      then show ?thesis
        using False True by (simp add: read_at_least.simps[of n got] es e diff_diff_left)
    next
      case big: False
      then show ?thesis
        using False by (cases e) (auto simp: read_at_least.simps[of n got] es)
    qed
  qed
qed

lemma read_full_promised:
  assumes "n \<le> length (promised es)"
  obtains es' more where "read_full n es = Some (Inr (take n (promised es)), es')"
    and "promised es' = drop n (promised es) @ more"
  using read_at_least_promised[of n "[]" es] assms by (auto simp: read_full_def)

lemma read_traffic_frame_sent:
  assumes "sendable js c f" and p: "promised (te_In te) = traffic_frame_bytes js f @ rest"
  obtains te' more where "read_traffic_frame js c (Some te) = Some (Inr f, Some te')"
    and "promised (te_In te') = rest @ more" and "te_ID te' = te_ID te"
proof -
  obtain wt bs where f: "encode_wire_type (tf_Type f) = Inr wt" "encode_frame_payload js f = Inr bs"
      "int (length bs) \<le> MaxFramePayloadBytes c" "length bs < 2 ^ 32"
      "decode_frame_payload js (tf_Type f) bs = Inr f" "validate_traffic_frame f = None"
    using sendable_parts[OF assms(1)] .
  have p': "promised (te_In te) = frame_header wt (length bs) @ bs @ rest"
    using p f by (simp add: traffic_frame_bytes_def)
  have len: "length (frame_header wt (length bs)) = 5" by (simp add: frame_header_def)
  obtain es1 m1 where r1: "read_full 5 (te_In te) = Some (Inr (frame_header wt (length bs)), es1)"
      "promised es1 = bs @ rest @ m1"
    using read_full_promised[of 5 "te_In te"] len p' by (auto simp: append_eq_conv_conj)
  have sz: "unat (be_word (drop 1 (frame_header wt (length bs))) :: 32 word) = length bs"
    using f(4) by (simp add: frame_header_def unat_of_nat_small)
  obtain es2 m2 where r2: "read_full (length bs) es1 = Some (Inr bs, es2)" "promised es2 = rest @ m1 @ m2"
    using read_full_promised[of "length bs" es1] r1(2) by auto
  have "read_traffic_frame js c (Some te) = Some (Inr f, Some (te\<lparr>te_In := es2\<rparr>))"
    using f r1(1) r2(1) sz decode_encode_wire_type[OF f(1)]
    by (simp add: read_traffic_frame_def Let_def frame_header_def)
  then show thesis using that[of "te\<lparr>te_In := es2\<rparr>" "m1 @ m2"] r2(2) by simp
qed


lemma write_full_eager:
  "\<forall>a\<in>set as. 0 < fst a \<and> snd a = None \<Longrightarrow> length bs \<le> length as \<Longrightarrow>
     \<exists>as'. write_full bs as = Some (bs, None, as') \<and> set as' \<subseteq> set as \<and> length as \<le> length as' + length bs"
proof (induction bs as rule: write_full.induct)
  case (3 b bs n e as)
  then have n: "0 < n" "e = None" and len: "length (drop n (b # bs)) \<le> length as"
    and ok: "\<forall>a\<in>set as. 0 < fst a \<and> snd a = None"
    by (auto simp del: drop_Suc_Cons)
  obtain as' where as': "write_full (drop n (b # bs)) as = Some (drop n (b # bs), None, as')"
      "set as' \<subseteq> set as" "length as \<le> length as' + length (drop n (b # bs))"
    using 3(1)[OF n(2)] n(1) ok len by blast
  have "write_full (b # bs) ((n, e) # as) = Some (b # bs, None, as')"
    using n as'(1) by (simp del: take_Suc_Cons drop_Suc_Cons)
  moreover have "length ((n, e) # as) \<le> length as' + length (b # bs)"
    using as'(3) n(1) by simp
  ultimately show ?case using as'(2) by (meson set_subset_Cons subset_trans)
qed auto

text \<open>A tunnel that takes the next \<open>n\<close> bytes whatever the sizes of the runs it takes them in.\<close>

definition takes_bytes :: "tunnel_end option \<Rightarrow> nat \<Rightarrow> bool" where
  "takes_bytes t n = (case t of None \<Rightarrow> False
     | Some te \<Rightarrow> trim_space (te_ID te) \<noteq> [] \<and> n \<le> length (te_Answers te)
         \<and> list_all (\<lambda>a. 0 < fst a \<and> snd a = None) (te_Answers te))"

lemma write_traffic_frame_eager:
  assumes f: "sendable js c f" and room: "takes_bytes t (length (traffic_frame_bytes js f) + n)"
  shows "\<exists>t'. write_traffic_frame js c t f = Some (None, t') \<and> takes_bytes t' n"
proof -
  obtain te where te: "t = Some te" "trim_space (te_ID te) \<noteq> []"
      "\<forall>a\<in>set (te_Answers te). 0 < fst a \<and> snd a = None"
      "length (traffic_frame_bytes js f) + n \<le> length (te_Answers te)"
    using room by (auto simp: takes_bytes_def list_all_iff split: option.splits)
  obtain wt bs where p: "encode_wire_type (tf_Type f) = Inr wt" "encode_frame_payload js f = Inr bs"
      "int (length bs) \<le> MaxFramePayloadBytes c" "validate_traffic_frame f = None"
    using sendable_parts[OF f] by metis
  have len: "length (frame_header wt (length bs)) + length bs + n \<le> length (te_Answers te)"
    using te(4) p by (simp add: traffic_frame_bytes_def)
  obtain as1 where as1: "write_full (frame_header wt (length bs)) (te_Answers te)
        = Some (frame_header wt (length bs), None, as1)" "set as1 \<subseteq> set (te_Answers te)"
      "length (te_Answers te) \<le> length as1 + length (frame_header wt (length bs))"
    using write_full_eager[OF te(3), of "frame_header wt (length bs)"] len by auto
  have room2: "length bs \<le> length as1" using as1(3) len by linarith
  have ok2: "\<forall>a\<in>set as1. 0 < fst a \<and> snd a = None" using te(3) as1(2) by blast
  obtain as2 where as2: "write_full bs as1 = Some (bs, None, as2)" "set as2 \<subseteq> set as1"
      "length as1 \<le> length as2 + length bs"
    using room2 ok2 write_full_eager[of as1 bs] by blast
  have "write_traffic_frame js c t f
      = Some (None, Some (te\<lparr>te_Answers := as2, te_Out := te_Out te @ frame_header wt (length bs) @ bs\<rparr>))"
    using te(1,2) p as1(1) as2(1) by (simp add: write_traffic_frame_def normalize_tunnel_id_def)
  moreover have "takes_bytes (Some (te\<lparr>te_Answers := as2, te_Out := te_Out te @ frame_header wt (length bs) @ bs\<rparr>)) n"
    using te(2,3) as1(2,3) as2(2,3) len by (auto simp: takes_bytes_def list_all_iff)
  ultimately show ?thesis by blast
qed


section \<open>Frames cut short, and lengths that do not fit\<close>

text \<open>A tunnel whose bytes end, with \<open>io.EOF\<close>, in the middle of what a read needs.\<close>

lemma read_at_least_short:
  "length got + length (concat bss) < n \<Longrightarrow>
     \<exists>es'. read_at_least n got (map (\<lambda>bs. Arrives bs None) bss @ [Arrives [] (Some err_eof)])
       = Some (Inl (if got @ concat bss \<noteq> [] then err_unexpected_eof else err_eof), es')"
proof (induction bss arbitrary: got)
  case Nil
  then show ?case by (simp add: read_at_least.simps)
next
  case (Cons bs bss)
  then have "length got + length bs < n" by simp
  then have "\<not> n \<le> length got" and "length bs \<le> n - length got" and "\<not> n \<le> length (got @ bs)" by simp_all
  then show ?case
    using Cons.IH[of "got @ bs"] Cons.prems
    by (simp add: read_at_least.simps[of n got "Arrives bs None # es" for es] add.assoc)
qed

lemma read_full_short:
  assumes "length (concat bss) < n"
  obtains e es' where "read_full n (map (\<lambda>bs. Arrives bs None) bss @ [Arrives [] (Some err_eof)])
      = Some (Inl [ErrTunnelClosed, e], es')"
  using read_at_least_short[of "[]" bss n] assms
  by (auto simp: read_full_def split: if_splits)

text \<open>
  With a limit of \<open>2 ^ 32\<close> bytes or more, which the configuration does not refuse, the length
  of a frame no longer fits the header: the frame is written without an error and announces
  another length.
\<close>

lemma oversized_frame_announces_nothing:
  assumes c: "2 ^ 32 \<le> MaxFramePayloadBytes c" and n: "length bs = 2 ^ 32"
    and room: "takes_bytes (Some te) (5 + 2 ^ 32)"
  shows "\<exists>te'. write_traffic_frame js (normalize_protocol_config c) (Some te) (data_frame bs) = Some (None, Some te')
           \<and> te_Out te' = te_Out te @ [3, 0, 0, 0, 0] @ bs"
proof -
  have h: "frame_header 3 (2 ^ 32) = [3, 0, 0, 0, 0]"
  proof -
    have "(of_nat (2 ^ 32) :: 32 word) = 2 ^ 32" by (simp only: of_nat_power of_nat_numeral)
    also have "\<dots> = 0" by simp
    finally have z: "(of_nat (2 ^ 32) :: 32 word) = 0" .
    show ?thesis unfolding frame_header_def z by (simp add: be_bytes_def upt_rec)
  qed
  have ok: "\<forall>a\<in>set (te_Answers te). 0 < fst a \<and> snd a = None" "trim_space (te_ID te) \<noteq> []"
    and len: "5 + 2 ^ 32 \<le> length (te_Answers te)"
    using room by (auto simp: takes_bytes_def list_all_iff)
  obtain as1 where as1: "write_full [3, 0, 0, 0, 0] (te_Answers te) = Some ([3, 0, 0, 0, 0], None, as1)"
      "set as1 \<subseteq> set (te_Answers te)" "length (te_Answers te) \<le> length as1 + 5"
    using write_full_eager[OF ok(1), of "[3, 0, 0, 0, 0]"] len by auto
  have "length bs \<le> length as1" using as1(3) len n by linarith
  then obtain as2 where as2: "write_full bs as1 = Some (bs, None, as2)"
    using write_full_eager[of as1 bs] as1(2) ok(1) by blast
  show ?thesis
    using c n ok(2) h as1(1) as2
    by (simp add: write_traffic_frame_def normalize_protocol_config_def normalize_tunnel_id_def
        validate_traffic_frame_def encode_frame_payload_def data_frame_def bare_frame_def)
qed


lemma read_at_least_runs:
  "length got \<le> n \<Longrightarrow> n \<le> length got + length (concat bss) \<Longrightarrow>
     \<exists>bss'. read_at_least n got (map (\<lambda>bs. Arrives bs None) bss @ es)
         = Some (Inr (got @ take (n - length got) (concat bss)), map (\<lambda>bs. Arrives bs None) bss' @ es)
       \<and> concat bss' = drop (n - length got) (concat bss)"
proof (induction bss arbitrary: got)
  case Nil
  then show ?case by (auto simp: read_at_least.simps intro: exI[of _ "[]"])
next
  case (Cons bs bss)
  consider "n = length got" | "length got < n" "n \<le> length (got @ bs)" | "length (got @ bs) < n"
    using Cons.prems(1) by fastforce
  then show ?case
  proof cases
    case 1
    then show ?thesis by (auto simp: read_at_least.simps intro: exI[of _ "bs # bss"])
  next
    case 2
    then have n: "n - length got \<le> length bs" by simp
    show ?thesis
    proof (cases "length bs = n - length got")
      case True
      then show ?thesis using 2
        by (auto simp: read_at_least.simps[of n got] intro: exI[of _ bss])
    next
      case False
      then show ?thesis using 2 n
        by (auto simp: read_at_least.simps[of n got] intro: exI[of _ "drop (n - length got) bs # bss"])
    qed
  next
    case 3
    then have "\<not> n \<le> length got" "length bs \<le> n - length got" "\<not> n \<le> length (got @ bs)" by simp_all
    moreover obtain bss' where "read_at_least n (got @ bs) (map (\<lambda>bs. Arrives bs None) bss @ es)
         = Some (Inr ((got @ bs) @ take (n - length (got @ bs)) (concat bss)), map (\<lambda>bs. Arrives bs None) bss' @ es)"
       "concat bss' = drop (n - length (got @ bs)) (concat bss)"
      using Cons.IH[of "got @ bs"] 3 Cons.prems(2) by auto
    ultimately show ?thesis
      by (auto simp: read_at_least.simps[of n got] diff_diff_left intro: exI[of _ bss'])
  qed
qed

text \<open>C30. A frame cut short by the end of the tunnel, in its header or in its payload, is reported as a
  closed tunnel (an error that matches \<open>ErrTunnelClosed\<close>), never as a frame.\<close>

theorem cut_frame_is_closed_tunnel:
  assumes f: "sendable js c f"
    and ins: "te_In te = map (\<lambda>bs. Arrives bs None) bss @ [Arrives [] (Some err_eof)]"
    and cut: "traffic_frame_bytes js f = concat bss @ missing" "missing \<noteq> []"
  shows "\<exists>e te'. read_traffic_frame js c (Some te) = Some (Inl [ErrTunnelClosed, e], Some te')"
proof -
  obtain wt bs where p: "encode_wire_type (tf_Type f) = Inr wt" "encode_frame_payload js f = Inr bs"
      "int (length bs) \<le> MaxFramePayloadBytes c" "length bs < 2 ^ 32"
    using sendable_parts[OF f] by metis
  have w: "frame_header wt (length bs) @ bs = concat bss @ missing"
    using cut(1) p by (simp add: traffic_frame_bytes_def)
  have len5: "length (frame_header wt (length bs)) = 5" by (simp add: frame_header_def)
  show ?thesis
  proof (cases "length (concat bss) < 5")
    case True
    then obtain e es' where "read_full 5 (te_In te) = Some (Inl [ErrTunnelClosed, e], es')"
      unfolding ins by (rule read_full_short)
    then show ?thesis by (simp add: read_traffic_frame_def)
  next
    case False
    then have h: "take 5 (concat bss) = frame_header wt (length bs)"
      using arg_cong[OF w, of "take 5"] len5 by simp
    obtain bss' where r: "read_full 5 (te_In te) = Some (Inr (frame_header wt (length bs)),
          map (\<lambda>bs. Arrives bs None) bss' @ [Arrives [] (Some err_eof)])"
        "concat bss' = drop 5 (concat bss)"
      using read_at_least_runs[of "[]" 5 bss "[Arrives [] (Some err_eof)]"] False h ins
      by (auto simp: read_full_def)
    have "length (concat bss') < length bs"
      using arg_cong[OF w, of length] r(2) len5 cut(2) False by (cases missing) auto
    then obtain e es' where e: "read_full (length bs)
        (map (\<lambda>bs. Arrives bs None) bss' @ [Arrives [] (Some err_eof)]) = Some (Inl [ErrTunnelClosed, e], es')"
      by (rule read_full_short)
    have sz: "unat (be_word (drop 1 (frame_header wt (length bs))) :: 32 word) = length bs"
      using p(4) by (simp add: frame_header_def unat_of_nat_small)
    have "read_traffic_frame js c (Some te) = Some (Inl [ErrTunnelClosed, e], Some (te\<lparr>te_In := es'\<rparr>))"
      using p(3) r(1) e sz decode_encode_wire_type[OF p(1)]
      by (simp add: read_traffic_frame_def Let_def frame_header_def)
    then show ?thesis by blast
  qed
qed

text \<open>A codec for the witnesses: only the payload of a close frame, by its message.\<close>

definition sample_json :: frame_json where
  "sample_json = \<lparr>enc_open = \<lambda>_. Inl ErrUnsupported, dec_open = \<lambda>_. Inl ErrUnsupported,
     enc_open_ack = \<lambda>_. Inl ErrUnsupported, dec_open_ack = \<lambda>_. Inl ErrUnsupported,
     enc_close = \<lambda>m. Inr (case m of None \<Rightarrow> [] | Some x \<Rightarrow> map (\<lambda>ch. of_nat (of_char ch)) (rcl_Message x)),
     dec_close = \<lambda>bs. Inr \<lparr>rcl_Code = [], rcl_Message = map (char_of \<circ> unat) bs\<rparr>,
     enc_close_ack = \<lambda>_. Inl ErrUnsupported, dec_close_ack = \<lambda>_. Inl ErrUnsupported,
     enc_reset = \<lambda>_. Inl ErrUnsupported, dec_reset = \<lambda>_. Inl ErrUnsupported,
     enc_recycle = \<lambda>_. Inl ErrUnsupported, dec_recycle = \<lambda>_. Inl ErrUnsupported,
     enc_recycle_ack = \<lambda>_. Inl ErrUnsupported, dec_recycle_ack = \<lambda>_. Inl ErrUnsupported\<rparr>"

lemma sendable_data:
  "int (length bs) \<le> MaxFramePayloadBytes c \<Longrightarrow> length bs < 2 ^ 32 \<Longrightarrow> sendable js c (data_frame bs)"
  by (simp add: sendable_def validate_traffic_frame_def json_keeps_def encode_frame_payload_def
      data_frame_def bare_frame_def)

lemma data_frame_bytes: "traffic_frame_bytes js (data_frame bs) = frame_header 3 (length bs) @ bs"
  by (simp add: traffic_frame_bytes_def encode_frame_payload_def data_frame_def bare_frame_def)

theorem cut_frame_is_closed_tunnel_witness:
  "\<exists>e te'. read_traffic_frame sample_json default_protocol_config
       (Some \<lparr>te_ID = ''t1'', te_In = [Arrives [3, 0] None, Arrives [0, 0, 2, 7] None, Arrives [] (Some err_eof)],
              te_Answers = [], te_Out = []\<rparr>) = Some (Inl [ErrTunnelClosed, e], Some te')"
  by (rule cut_frame_is_closed_tunnel[where f = "data_frame [7, 8]" and bss = "[[3, 0], [0, 0, 2, 7]]" and missing = "[8]"])
    (simp_all add: sendable_data default_protocol_config_def default_max_frame_payload_bytes_def
      data_frame_bytes frame_header_def be_bytes_def upt_rec)

end
