(* ===== verification/Traffic_Stream.thy ===== *)
theory Traffic_Stream
  imports Traffic_Protocol
begin

text \<open>
  The byte stream over the traffic protocol (\<open>ltfp/runtime/stream.go\<close>): \<open>Write\<close> cuts the
  bytes into data frames, \<open>Read\<close> hands them out whatever the size of the caller's buffer. The
  protocol is an interface of the code (\<open>TrafficProtocol\<close>): the operations take it as a record,
  and the locale \<open>frame_transport\<close> states what its two methods promise each other.
\<close>

section \<open>State\<close>

record stream_config =
  MaxDataFrameSize :: int

definition default_max_data_frame_size_bytes :: int where
  "default_max_data_frame_size_bytes = 1 * 1024 * 1024"

definition normalize_stream_config :: "stream_config \<Rightarrow> stream_config" where
  "normalize_stream_config c =
     (if MaxDataFrameSize c \<le> 0 then c\<lparr>MaxDataFrameSize := default_max_data_frame_size_bytes\<rparr> else c)"

definition default_stream_config :: stream_config where
  "default_stream_config = \<lparr>MaxDataFrameSize = default_max_data_frame_size_bytes\<rparr>"

text \<open>An error matches some sentinels, or is a \<open>TrafficResetError\<close> (code and message).\<close>

datatype stream_error = StreamSentinels "goerr list" | TrafficResetError string string

definition is_traffic_reset :: "stream_error \<Rightarrow> bool" where
  "is_traffic_reset e = (case e of TrafficResetError _ _ \<Rightarrow> True | StreamSentinels _ \<Rightarrow> False)"

definition reset_error_text :: "(string \<times> string) option \<Rightarrow> string" where
  "reset_error_text e =
     (case e of None \<Rightarrow> ''traffic reset''
      | Some (code, message) \<Rightarrow>
          if code = [] \<and> message = [] then ''traffic reset''
          else ''traffic reset'' @ '': code='' @ code @ '' message='' @ message)"

record traffic_data_stream =
  ds_maxDataFrameSize :: int
  ds_pendingRead :: "byte list"
  ds_reachedEOF :: bool
  ds_terminalReadError :: "(string \<times> string) option"

definition new_traffic_data_stream_with_config ::
    "bool \<Rightarrow> bool \<Rightarrow> stream_config \<Rightarrow> goerr + traffic_data_stream" where
  "new_traffic_data_stream_with_config tunnel_nil protocol_nil c =
     (if tunnel_nil then Inl ErrInvalidArgument
      else if protocol_nil then Inl ErrInvalidArgument
      else Inr \<lparr>ds_maxDataFrameSize = MaxDataFrameSize (normalize_stream_config c), ds_pendingRead = [],
                ds_reachedEOF = False, ds_terminalReadError = None\<rparr>)"

definition new_traffic_data_stream :: "bool \<Rightarrow> bool \<Rightarrow> goerr + traffic_data_stream" where
  "new_traffic_data_stream tunnel_nil protocol_nil =
     new_traffic_data_stream_with_config tunnel_nil protocol_nil default_stream_config"

definition terminal_error :: "traffic_data_stream \<Rightarrow> stream_error option" where
  "terminal_error s =
     (case ds_terminalReadError s of
        Some (code, message) \<Rightarrow> Some (TrafficResetError code message)
      | None \<Rightarrow> if ds_reachedEOF s then Some (StreamSentinels [err_eof]) else None)"


section \<open>Operations\<close>

text \<open>\<open>TrafficProtocol\<close>; \<open>None\<close>: the call does not return.\<close>

record 't protocol_ops =
  op_WriteFrame :: "'t \<Rightarrow> traffic_frame \<Rightarrow> (goerr option \<times> 't) option"
  op_ReadFrame :: "'t \<Rightarrow> ((goerr list + traffic_frame) \<times> 't) option"

definition length_prefixed :: "frame_json \<Rightarrow> traffic_protocol_config \<Rightarrow> tunnel_end option protocol_ops" where
  "length_prefixed js c = \<lparr>op_WriteFrame = write_traffic_frame js c, op_ReadFrame = read_traffic_frame js c\<rparr>"

text \<open>
  \<open>Write\<close>. Another goroutine may read while this one writes: \<open>terms n\<close> is the terminal error
  that the check finds once \<open>n\<close> bytes are written.
\<close>

partial_function (option) stream_write_loop ::
    "'t protocol_ops \<Rightarrow> (nat \<Rightarrow> stream_error option) \<Rightarrow> int \<Rightarrow> byte list \<Rightarrow> nat \<Rightarrow> 't
      \<Rightarrow> (nat \<times> stream_error option \<times> 't) option" where
  "stream_write_loop ops terms mx bs written t =
     (if written < length bs then
        (case terms written of
           Some e \<Rightarrow> Some (written, Some e, t)
         | None \<Rightarrow>
             (let remaining = int (length bs - written);
                  chunk = (if remaining < mx then remaining else mx)
              in case op_WriteFrame ops t (data_frame (take (nat chunk) (drop written bs))) of
                   None \<Rightarrow> None
                 | Some (Some err, t') \<Rightarrow> Some (written, Some (StreamSentinels [err]), t')
                 | Some (None, t') \<Rightarrow> stream_write_loop ops terms mx bs (written + nat chunk) t'))
      else Some (written, None, t))"

definition stream_write ::
    "'t protocol_ops \<Rightarrow> (nat \<Rightarrow> stream_error option) \<Rightarrow> traffic_data_stream \<Rightarrow> byte list \<Rightarrow> 't
      \<Rightarrow> (nat \<times> stream_error option \<times> 't) option" where
  "stream_write ops terms s bs t =
     (if bs = [] then Some (0, None, t)
      else stream_write_loop ops terms (ds_maxDataFrameSize s) bs 0 t)"

text \<open>\<open>Read\<close> with a buffer of \<open>k\<close> bytes.\<close>

partial_function (option) stream_read_loop ::
    "'t protocol_ops \<Rightarrow> nat \<Rightarrow> traffic_data_stream \<Rightarrow> 't
      \<Rightarrow> (byte list \<times> stream_error option \<times> traffic_data_stream \<times> 't) option" where
  "stream_read_loop ops k s t =
     (case op_ReadFrame ops t of
        None \<Rightarrow> None
      | Some (Inl es, t') \<Rightarrow> Some ([], Some (StreamSentinels es), s, t')
      | Some (Inr f, t') \<Rightarrow>
          (if tf_Type f = TrafficFrameData then
             (if length (tf_Data f) = 0 then stream_read_loop ops k s t'
              else Some (take k (tf_Data f), None,
                         if k < length (tf_Data f) then s\<lparr>ds_pendingRead := drop k (tf_Data f)\<rparr> else s, t'))
           else if tf_Type f = TrafficFrameClose then
             Some ([], Some (StreamSentinels [err_eof]), s\<lparr>ds_reachedEOF := True\<rparr>, t')
           else if tf_Type f = TrafficFrameReset then
             (let code = (case tf_Reset f of None \<Rightarrow> [] | Some r \<Rightarrow> rrs_Code r);
                  message = (case tf_Reset f of None \<Rightarrow> [] | Some r \<Rightarrow> rrs_Message r)
              in Some ([], Some (TrafficResetError code message),
                       s\<lparr>ds_terminalReadError := Some (code, message)\<rparr>, t'))
           else Some ([], Some (StreamSentinels [ErrStateTransition]), s, t')))"

definition stream_read ::
    "'t protocol_ops \<Rightarrow> nat \<Rightarrow> traffic_data_stream \<Rightarrow> 't
      \<Rightarrow> (byte list \<times> stream_error option \<times> traffic_data_stream \<times> 't) option" where
  "stream_read ops k s t =
     (if k = 0 then Some ([], None, s, t)
      else if length (ds_pendingRead s) > 0
      then Some (take k (ds_pendingRead s), None, s\<lparr>ds_pendingRead := drop k (ds_pendingRead s)\<rparr>, t)
      else if ds_reachedEOF s then Some ([], Some (StreamSentinels [err_eof]), s, t)
      else case ds_terminalReadError s of
          Some (code, message) \<Rightarrow> Some ([], Some (TrafficResetError code message), s, t)
        | None \<Rightarrow> stream_read_loop ops k s t)"

text \<open>A caller that reads with buffers of the given sizes until an error.\<close>

fun read_with_sizes ::
    "'t protocol_ops \<Rightarrow> nat list \<Rightarrow> traffic_data_stream \<Rightarrow> 't
      \<Rightarrow> (byte list \<times> stream_error option \<times> traffic_data_stream \<times> 't) option" where
  "read_with_sizes ops [] s t = Some ([], None, s, t)"
| "read_with_sizes ops (k # ks) s t =
     (case stream_read ops k s t of
        None \<Rightarrow> None
      | Some (bs, Some e, s', t') \<Rightarrow> Some (bs, Some e, s', t')
      | Some (bs, None, s', t') \<Rightarrow>
          (case read_with_sizes ops ks s' t' of
             None \<Rightarrow> None
           | Some (bs', e, s'', t'') \<Rightarrow> Some (bs @ bs', e, s'', t'')))"


section \<open>What the stream needs of the protocol\<close>

text \<open>
  \<open>incoming t fs\<close>: the next frames that \<open>t\<close> delivers. \<open>sent t fs t'\<close>: between \<open>t\<close> and
  \<open>t'\<close> just these frames were written. \<open>room t n\<close>: \<open>t\<close> takes the next \<open>n\<close> units of cost
  without blocking or failing.
\<close>

locale frame_transport =
  fixes ops :: "'t protocol_ops"
    and good :: "traffic_frame \<Rightarrow> bool"
    and cost :: "traffic_frame \<Rightarrow> nat"
    and incoming :: "'t \<Rightarrow> traffic_frame list \<Rightarrow> bool"
    and sent :: "'t \<Rightarrow> traffic_frame list \<Rightarrow> 't \<Rightarrow> bool"
    and room :: "'t \<Rightarrow> nat \<Rightarrow> bool"
  assumes read_next: "incoming t (f # fs) \<Longrightarrow> \<exists>t'. op_ReadFrame ops t = Some (Inr f, t') \<and> incoming t' fs"
    and write_room: "good f \<Longrightarrow> room t (cost f + n) \<Longrightarrow> \<exists>t'. op_WriteFrame ops t f = Some (None, t') \<and> room t' n"
    and write_sent: "op_WriteFrame ops t f = Some (None, t') \<Longrightarrow> sent t [f] t'"
    and sent_nil: "room t n \<Longrightarrow> sent t [] t"
    and sent_trans: "sent t fs t' \<Longrightarrow> sent t' gs t'' \<Longrightarrow> sent t (fs @ gs) t''"


section \<open>The stream over such a protocol\<close>

function chunks :: "nat \<Rightarrow> 'a list \<Rightarrow> 'a list list" where
  "chunks k xs = (if xs = [] \<or> k = 0 then [] else take k xs # chunks k (drop k xs))"
  by pat_completeness auto
termination by (relation "measure (\<lambda>(k, xs). length xs)") auto

declare chunks.simps [simp del]

lemma chunks_Nil [simp]: "chunks k [] = []"
  by (simp add: chunks.simps)

lemma chunks_step: "xs \<noteq> [] \<Longrightarrow> 0 < k \<Longrightarrow> chunks k xs = take k xs # chunks k (drop k xs)"
  by (simp add: chunks.simps[of k xs])

lemma concat_frame_chunks: "0 < k \<Longrightarrow> concat (chunks k xs) = xs"
proof (induction k xs rule: chunks.induct)
  case (1 k xs)
  then show ?case by (cases "xs = []") (simp_all add: chunks_step)
qed

lemma set_chunks: "0 < k \<Longrightarrow> d \<in> set (chunks k xs) \<Longrightarrow> length d \<le> k \<and> d \<noteq> []"
proof (induction k xs rule: chunks.induct)
  case (1 k xs)
  then show ?case by (cases "xs = []") (auto simp: chunks_step)
qed

lemma data_frame_simps [simp]:
  "tf_Type (data_frame d) = TrafficFrameData" "tf_Data (data_frame d) = d"
  by (simp_all add: data_frame_def bare_frame_def)

context frame_transport begin

lemma write_loop_sends:
  assumes mx: "0 < mx" and terms: "\<And>n. terms n = None"
  shows "\<forall>d\<in>set (chunks (nat mx) (drop written bs)). good (data_frame d) \<Longrightarrow> written \<le> length bs \<Longrightarrow>
      room t (sum_list (map (cost \<circ> data_frame) (chunks (nat mx) (drop written bs))) + n) \<Longrightarrow>
      \<exists>t'. stream_write_loop ops terms mx bs written t = Some (length bs, None, t') \<and> room t' n
         \<and> sent t (map data_frame (chunks (nat mx) (drop written bs))) t'"
proof (induction "length bs - written" arbitrary: written t rule: less_induct)
  case less
  define xs where "xs = drop written bs"
  show ?case
  proof (cases "written < length bs")
    case False
    then have "written = length bs" using less.prems(2) by simp
    moreover have "stream_write_loop ops terms mx bs (length bs) t = Some (length bs, None, t)"
      by (simp add: stream_write_loop.simps[of ops terms mx bs "length bs"])
    ultimately show ?thesis using less.prems(3) sent_nil by auto
  next
    case True
    define c where "c = (if int (length bs - written) < mx then int (length bs - written) else mx)"
    have c: "0 < nat c" "written + nat c \<le> length bs" "take (nat c) xs = take (nat mx) xs"
        "drop (written + nat c) bs = drop (nat mx) xs"
      using True mx by (auto simp: c_def xs_def add.commute)
    have ch: "chunks (nat mx) xs = take (nat mx) xs # chunks (nat mx) (drop (nat mx) xs)"
      using True mx by (intro chunks_step) (simp_all add: xs_def)
    have good1: "good (data_frame (take (nat mx) xs))"
      and good2: "\<forall>d\<in>set (chunks (nat mx) (drop (written + nat c) bs)). good (data_frame d)"
      using less.prems(1) ch c(4) unfolding xs_def[symmetric] by auto
    have "room t (cost (data_frame (take (nat mx) xs))
        + (sum_list (map (cost \<circ> data_frame) (chunks (nat mx) (drop (written + nat c) bs))) + n))"
      using less.prems(3) unfolding xs_def[symmetric] ch c(4) by (simp add: add.assoc)
    then obtain t1 where t1: "op_WriteFrame ops t (data_frame (take (nat mx) xs)) = Some (None, t1)"
        "room t1 (sum_list (map (cost \<circ> data_frame) (chunks (nat mx) (drop (written + nat c) bs))) + n)"
      using write_room[OF good1] by blast
    have less_step: "length bs - (written + nat c) < length bs - written" using c(1) True by linarith
    obtain t' where t': "stream_write_loop ops terms mx bs (written + nat c) t1 = Some (length bs, None, t')"
        "room t' n" "sent t1 (map data_frame (chunks (nat mx) (drop (nat mx) xs))) t'"
      using less.hyps[of "written + nat c", OF less_step good2 c(2) t1(2)] c(4) by auto
    have "stream_write_loop ops terms mx bs written t = Some (length bs, None, t')"
      unfolding stream_write_loop.simps[of ops terms mx bs written t] Let_def c_def[symmetric]
        xs_def[symmetric] c(3) t1(1)
      using True t'(1) terms[of written] by simp
    moreover have "sent t (map data_frame (chunks (nat mx) xs)) t'"
      using sent_trans[OF write_sent[OF t1(1)] t'(3)] ch by simp
    ultimately show ?thesis using t'(2) unfolding xs_def by blast
  qed
qed

lemma write_sends:
  assumes "0 < ds_maxDataFrameSize s" and "\<And>n. terms n = None"
    and "\<forall>d\<in>set (chunks (nat (ds_maxDataFrameSize s)) bs). good (data_frame d)"
    and "room t (sum_list (map (cost \<circ> data_frame) (chunks (nat (ds_maxDataFrameSize s)) bs)) + n)"
  shows "\<exists>t'. stream_write ops terms s bs t = Some (length bs, None, t') \<and> room t' n
      \<and> sent t (map data_frame (chunks (nat (ds_maxDataFrameSize s)) bs)) t'"
  using write_loop_sends[of "ds_maxDataFrameSize s" terms 0 bs t n] assms
  by (auto simp: stream_write_def sent_nil)

lemma read_loop_takes:
  assumes "concat ds \<noteq> []" and "0 < k" and "ds_pendingRead s = []"
  shows "incoming t (map data_frame ds @ fs) \<Longrightarrow>
      \<exists>bs s' t' ds'. stream_read_loop ops k s t = Some (bs, None, s', t') \<and> bs \<noteq> [] \<and> length bs \<le> k
        \<and> incoming t' (map data_frame ds' @ fs) \<and> bs @ ds_pendingRead s' @ concat ds' = concat ds
        \<and> ds_reachedEOF s' = ds_reachedEOF s \<and> ds_terminalReadError s' = ds_terminalReadError s"
  using assms(1)
proof (induction ds arbitrary: t)
  case (Cons d ds)
  obtain t1 where t1: "op_ReadFrame ops t = Some (Inr (data_frame d), t1)" "incoming t1 (map data_frame ds @ fs)"
    using read_next[of t "data_frame d" "map data_frame ds @ fs"] Cons.prems(1) by auto
  show ?case
  proof (cases "d = []")
    case True
    then show ?thesis
      using Cons.IH[OF t1(2)] Cons.prems(2) t1(1) by (simp add: stream_read_loop.simps[of ops k s t])
  next
    case False
    then have "stream_read_loop ops k s t
        = Some (take k d, None, if k < length d then s\<lparr>ds_pendingRead := drop k d\<rparr> else s, t1)"
      using t1(1) by (simp add: stream_read_loop.simps[of ops k s t])
    then show ?thesis
      using t1(2) False assms(2,3) by (cases "k < length d") fastforce+
  qed
qed simp

lemma read_takes:
  assumes "ds_pendingRead s @ concat ds \<noteq> []" and "0 < k"
    and "\<not> ds_reachedEOF s" and "ds_terminalReadError s = None"
    and "incoming t (map data_frame ds @ fs)"
  shows "\<exists>bs s' t' ds'. stream_read ops k s t = Some (bs, None, s', t') \<and> bs \<noteq> [] \<and> length bs \<le> k
      \<and> incoming t' (map data_frame ds' @ fs)
      \<and> bs @ ds_pendingRead s' @ concat ds' = ds_pendingRead s @ concat ds
      \<and> \<not> ds_reachedEOF s' \<and> ds_terminalReadError s' = None"
proof (cases "ds_pendingRead s = []")
  case True
  then show ?thesis
    using read_loop_takes[of ds k s t fs] assms by (simp add: stream_read_def) 
next
  case False
  define s1 where "s1 = s\<lparr>ds_pendingRead := drop k (ds_pendingRead s)\<rparr>"
  have "stream_read ops k s t = Some (take k (ds_pendingRead s), None, s1, t)"
    using False assms(2) by (simp add: stream_read_def s1_def)
  moreover have "take k (ds_pendingRead s) @ ds_pendingRead s1 @ concat ds = ds_pendingRead s @ concat ds"
    by (simp add: s1_def)
  moreover have "\<not> ds_reachedEOF s1" "ds_terminalReadError s1 = None"
    using assms(3,4) by (simp_all add: s1_def)
  moreover have "take k (ds_pendingRead s) \<noteq> []" "length (take k (ds_pendingRead s)) \<le> k"
    using False assms(2) by simp_all
  ultimately show ?thesis using assms(5) by blast
qed

lemma read_loop_ends:
  assumes "concat ds = []" and "tf_Type g = TrafficFrameClose"
  shows "incoming t (map data_frame ds @ g # fs) \<Longrightarrow>
      \<exists>t'. stream_read_loop ops k s t = Some ([], Some (StreamSentinels [err_eof]), s\<lparr>ds_reachedEOF := True\<rparr>, t')"
  using assms(1)
proof (induction ds arbitrary: t)
  case Nil
  then obtain t1 where "op_ReadFrame ops t = Some (Inr g, t1)" using read_next by fastforce
  then show ?case using assms(2) by (simp add: stream_read_loop.simps[of ops k s t])
next
  case (Cons d ds)
  obtain t1 where t1: "op_ReadFrame ops t = Some (Inr (data_frame d), t1)"
      "incoming t1 (map data_frame ds @ g # fs)"
    using read_next[of t "data_frame d" "map data_frame ds @ g # fs"] Cons.prems(1) by auto
  then show ?case
    using Cons.IH[OF t1(2)] Cons.prems(2) by (simp add: stream_read_loop.simps[of ops k s t])
qed

lemma reads_give_everything:
  assumes close: "tf_Type g = TrafficFrameClose"
  shows "\<forall>k\<in>set ks. 0 < k \<Longrightarrow> length (ds_pendingRead s @ concat ds) < length ks \<Longrightarrow>
      \<not> ds_reachedEOF s \<Longrightarrow> ds_terminalReadError s = None \<Longrightarrow> incoming t (map data_frame ds @ g # fs) \<Longrightarrow>
      \<exists>s' t'. read_with_sizes ops ks s t
          = Some (ds_pendingRead s @ concat ds, Some (StreamSentinels [err_eof]), s', t') \<and> ds_reachedEOF s'"
proof (induction ks arbitrary: s t ds)
  case (Cons k ks)
  show ?case
  proof (cases "ds_pendingRead s @ concat ds = []")
    case True
    then obtain t' where "stream_read ops k s t
        = Some ([], Some (StreamSentinels [err_eof]), s\<lparr>ds_reachedEOF := True\<rparr>, t')"
      using read_loop_ends[OF _ close, of ds t fs k s] Cons.prems by (auto simp: stream_read_def)
    then show ?thesis using True by simp
  next
    case False
    obtain bs s1 t1 ds1 where r: "stream_read ops k s t = Some (bs, None, s1, t1)" "bs \<noteq> []"
        "incoming t1 (map data_frame ds1 @ g # fs)"
        "bs @ ds_pendingRead s1 @ concat ds1 = ds_pendingRead s @ concat ds"
        "\<not> ds_reachedEOF s1" "ds_terminalReadError s1 = None"
      using read_takes[OF False, of k t "g # fs"] Cons.prems by auto
    have "length (bs @ ds_pendingRead s1 @ concat ds1) < length (k # ks)" using Cons.prems(2) r(4) by simp
    then have "length (ds_pendingRead s1 @ concat ds1) < length ks" using r(2) by (cases bs) auto
    then obtain s' t' where "read_with_sizes ops ks s1 t1
        = Some (ds_pendingRead s1 @ concat ds1, Some (StreamSentinels [err_eof]), s', t')" "ds_reachedEOF s'"
      using Cons.IH[of s1 ds1 t1] Cons.prems(1) r by auto
    then show ?thesis using r(1,4) by auto
  qed
qed simp

end


section \<open>Over the length-prefixed protocol\<close>

definition arriving :: "frame_json \<Rightarrow> traffic_protocol_config \<Rightarrow> tunnel_end option \<Rightarrow> traffic_frame list \<Rightarrow> bool" where
  "arriving js c t fs =
     (case t of None \<Rightarrow> False
      | Some te \<Rightarrow> list_all (sendable js c) fs
          \<and> (let w = concat (map (traffic_frame_bytes js) fs) in take (length w) (promised (te_In te)) = w))"

definition put_on :: "frame_json \<Rightarrow> tunnel_end option \<Rightarrow> traffic_frame list \<Rightarrow> tunnel_end option \<Rightarrow> bool" where
  "put_on js t fs t' =
     (case t of None \<Rightarrow> False
      | Some te \<Rightarrow> (case t' of None \<Rightarrow> False
          | Some te' \<Rightarrow> te_Out te' = te_Out te @ concat (map (traffic_frame_bytes js) fs)))"

lemma arriving_read:
  assumes "arriving js c t (f # fs)"
  shows "\<exists>t'. read_traffic_frame js c t = Some (Inr f, t') \<and> arriving js c t' fs"
proof -
  define w where "w = concat (map (traffic_frame_bytes js) fs)"
  obtain te where te: "t = Some te" "sendable js c f" "list_all (sendable js c) fs"
      "take (length (traffic_frame_bytes js f @ w)) (promised (te_In te)) = traffic_frame_bytes js f @ w"
    using assms by (cases t) (simp_all add: arriving_def w_def Let_def)
  define r where "r = drop (length (traffic_frame_bytes js f @ w)) (promised (te_In te))"
  have "promised (te_In te) = traffic_frame_bytes js f @ (w @ r)"
    using append_take_drop_id[of "length (traffic_frame_bytes js f @ w)" "promised (te_In te)"] te(4)
    unfolding r_def[symmetric] by simp
  then obtain te' more where r: "read_traffic_frame js c t = Some (Inr f, Some te')"
      "promised (te_In te') = (w @ r) @ more"
    unfolding te(1) by (rule read_traffic_frame_sent[OF te(2)])
  have "arriving js c (Some te') fs"
    using te(3) r(2) by (simp add: arriving_def w_def[symmetric] Let_def)
  then show ?thesis using r(1) by blast
qed

lemma put_on_write:
  assumes "write_traffic_frame js c t f = Some (None, t')"
  shows "put_on js t [f] t'"
proof -
  obtain te where te: "t = Some te"
    using assms by (cases t) (auto simp: write_traffic_frame_def normalize_tunnel_id_def)
  obtain te' where "t' = Some te'" "te_Out te' = te_Out te @ traffic_frame_bytes js f"
    by (rule write_traffic_frame_ok[OF assms[unfolded te]])
  then show ?thesis by (simp add: put_on_def te)
qed

interpretation lp: frame_transport "length_prefixed js c" "sendable js c"
    "\<lambda>f. length (traffic_frame_bytes js f)" "arriving js c" "put_on js" takes_bytes for js c
proof
  fix t t' t'' f fs gs n
  show "\<exists>t'. op_ReadFrame (length_prefixed js c) t = Some (Inr f, t') \<and> arriving js c t' fs"
    if "arriving js c t (f # fs)"
    using arriving_read[OF that] by (simp add: length_prefixed_def)
  show "\<exists>t'. op_WriteFrame (length_prefixed js c) t f = Some (None, t') \<and> takes_bytes t' n"
    if "sendable js c f" "takes_bytes t (length (traffic_frame_bytes js f) + n)"
    using write_traffic_frame_eager[OF that] by (simp add: length_prefixed_def)
  show "put_on js t [f] t'" if "op_WriteFrame (length_prefixed js c) t f = Some (None, t')"
    using put_on_write that by (simp add: length_prefixed_def)
  show "put_on js t [] t" if "takes_bytes t n"
    using that by (simp add: put_on_def takes_bytes_def split: option.splits)
  show "put_on js t (fs @ gs) t''" if "put_on js t fs t'" "put_on js t' gs t''"
    using that by (auto simp: put_on_def split: option.splits)
qed

lemma stream_cost:
  "sum_list (map ((\<lambda>f. length (traffic_frame_bytes js f)) \<circ> data_frame) ds) = 5 * length ds + length (concat ds)"
  by (induction ds) (simp_all add: data_frame_bytes frame_header_def)

text \<open>C9. What is written to a stream is read from it: on a tunnel that takes the bytes, in runs of any
  size, \<open>Write\<close> returns the number of all its bytes, and a reader that receives what was put on the
  tunnel, followed by a close frame, in runs of any size, gets exactly these bytes and then
  \<open>io.EOF\<close>, whatever the sizes of the buffers it reads with.\<close>

theorem stream_carries_the_bytes:
  assumes mx: "0 < ds_maxDataFrameSize ws" "ds_maxDataFrameSize ws \<le> MaxFramePayloadBytes c"
      "ds_maxDataFrameSize ws < 2 ^ 32"
    and terms: "\<forall>n. terms n = None"
    and room: "takes_bytes t (5 * length (chunks (nat (ds_maxDataFrameSize ws)) bs) + length bs)"
    and g: "tf_Type g = TrafficFrameClose" "sendable js c g"
    and rs: "ds_pendingRead rs = []" "\<not> ds_reachedEOF rs" "ds_terminalReadError rs = None"
    and ks: "list_all (\<lambda>k. 0 < k) ks" "length bs < length ks"
    and network: "\<And>w. promised (te_In (deliver w)) = w @ traffic_frame_bytes js g @ rest"
  shows "\<exists>te te' w. t = Some te
      \<and> stream_write (length_prefixed js c) terms ws bs t = Some (length bs, None, Some te')
      \<and> te_Out te' = te_Out te @ w
      \<and> (\<exists>s' t'. read_with_sizes (length_prefixed js c) ks rs (Some (deliver w))
            = Some (bs, Some (StreamSentinels [err_eof]), s', t'))"
proof -
  define ds where "ds = chunks (nat (ds_maxDataFrameSize ws)) bs"
  have bs: "concat ds = bs" using mx(1) by (simp add: ds_def concat_frame_chunks)
  have good: "\<forall>d\<in>set ds. sendable js c (data_frame d)"
    using set_chunks[of "nat (ds_maxDataFrameSize ws)" _ bs] mx by (fastforce simp: ds_def intro!: sendable_data)
  obtain t' where w: "stream_write (length_prefixed js c) terms ws bs t = Some (length bs, None, t')"
      "put_on js t (map data_frame ds) t'"
    using lp.write_sends[of ws terms bs js c t 0] mx(1) terms good room bs
    unfolding ds_def[symmetric] by (auto simp: stream_cost)
  obtain te te' where te: "t = Some te" "t' = Some te'"
      "te_Out te' = te_Out te @ concat (map (traffic_frame_bytes js) (map data_frame ds))"
    using w(2) by (auto simp: put_on_def split: option.splits)
  have reads: "\<exists>s' t'. read_with_sizes (length_prefixed js c) ks rs (Some re)
          = Some (bs, Some (StreamSentinels [err_eof]), s', t')"
    if "promised (te_In re) = concat (map (traffic_frame_bytes js) (map data_frame ds)) @ traffic_frame_bytes js g @ rest"
    for re
  proof -
    have "arriving js c (Some re) (map data_frame ds @ g # [])"
      using that good g(2) by (simp add: arriving_def list_all_iff Let_def)
    then show ?thesis
      using lp.reads_give_everything[OF g(1), of ks rs ds js c "Some re" "[]"] rs ks bs
      by (auto simp: list_all_iff)
  qed
  from reads[OF network] show ?thesis using w(1) te by blast
qed


definition sample_close :: traffic_frame where
  "sample_close = (bare_frame TrafficFrameClose)\<lparr>tf_Close := Some \<lparr>rcl_Code = [], rcl_Message = ''bye''\<rparr>\<rparr>"

lemma sample_json_char: "char_of (unat (of_nat (of_char ch) :: byte)) = ch"
proof -
  have "(of_char ch :: nat) < 2 ^ LENGTH(8)" using nat_of_char_less_256[of ch] by simp
  then show ?thesis by (simp add: unat_of_nat_small)
qed

lemma sendable_sample_close: "sendable sample_json default_protocol_config sample_close"
  by (simp add: sendable_def sample_close_def bare_frame_def validate_traffic_frame_def json_keeps_def
      encode_frame_payload_def sample_json_def default_protocol_config_def default_max_frame_payload_bytes_def
      sample_json_char comp_def del: of_char_Char)

definition sample_stream :: traffic_data_stream where
  "sample_stream = \<lparr>ds_maxDataFrameSize = 2, ds_pendingRead = [], ds_reachedEOF = False, ds_terminalReadError = None\<rparr>"

definition sample_tunnel :: tunnel_end where
  "sample_tunnel = \<lparr>te_ID = ''t1'', te_In = [], te_Answers = replicate 13 (1, None), te_Out = []\<rparr>"

lemma sample_tunnel_room: "takes_bytes (Some sample_tunnel) 13"
proof -
  have "trim_space ''t1'' = ''t1''" by (rule trim_space_graphic; simp add: graphic_def)
  then show ?thesis by (simp add: takes_bytes_def sample_tunnel_def list_all_iff)
qed

lemma sample_chunks: "chunks 2 [1, 2, 3 :: byte] = [[1, 2], [3]]"
  by (simp add: chunks_step)

lemma sample_limit: "MaxFramePayloadBytes default_protocol_config = 8388608"
  and sample_close_type: "tf_Type sample_close = TrafficFrameClose"
  by (simp_all add: default_protocol_config_def default_max_frame_payload_bytes_def sample_close_def bare_frame_def)

definition sample_network :: "byte list \<Rightarrow> tunnel_end" where
  "sample_network w = \<lparr>te_ID = ''t1'',
     te_In = [Arrives (take 3 w) None, Arrives (drop 3 w) None,
              Arrives (traffic_frame_bytes sample_json sample_close) None], te_Answers = [], te_Out = []\<rparr>"

theorem stream_carries_the_bytes_witness:
  "\<exists>te te' w. Some sample_tunnel = Some te
      \<and> stream_write (length_prefixed sample_json default_protocol_config) (\<lambda>_. None) sample_stream [1, 2, 3]
          (Some sample_tunnel) = Some (length [1, 2, 3 :: byte], None, Some te')
      \<and> te_Out te' = te_Out te @ w
      \<and> (\<exists>s' t'. read_with_sizes (length_prefixed sample_json default_protocol_config) [2, 1, 5, 1] sample_stream
            (Some (sample_network w)) = Some ([1, 2, 3], Some (StreamSentinels [err_eof]), s', t'))"
  by (rule stream_carries_the_bytes[where rest = "[]" and g = sample_close])
    (simp_all add: sample_stream_def sample_chunks sample_tunnel_room sendable_sample_close sample_limit
      sample_close_type sample_network_def)

text \<open>
  The end of the stream and a reset are final: once the bytes kept back are handed out, every
  read repeats the error without touching the tunnel, and a write writes nothing.
\<close>

lemma stream_end_is_final:
  assumes "ds_reachedEOF s \<or> ds_terminalReadError s \<noteq> None" and "ds_pendingRead s = []" and "0 < k" and "bs \<noteq> []"
  shows "\<exists>e. stream_read ops k s t = Some ([], Some e, s, t)"
    and "\<exists>e. stream_write ops (\<lambda>_. terminal_error s) s bs t = Some (0, Some e, t)"
proof -
  show "\<exists>e. stream_read ops k s t = Some ([], Some e, s, t)"
    using assms by (auto simp: stream_read_def)
  obtain e where "terminal_error s = Some e" using assms(1) by (cases "ds_terminalReadError s") (auto simp: terminal_error_def)
  then show "\<exists>e. stream_write ops (\<lambda>_. terminal_error s) s bs t = Some (0, Some e, t)"
    using assms(4) by (simp add: stream_write_def stream_write_loop.simps)
qed

end
