(* ===== verification/Agent_Traffic.thy ===== *)
theory Agent_Traffic
  imports Traffic_Payloads
begin

text \<open>
  The agent's end of a traffic (\<open>agent-core/runtime/agent/traffic\<close>): the acceptor, which lets one
  reader wait for the first frame of a tunnel (\<open>acceptor.go\<close>), and the opener, which answers the
  open, dials the upstream, runs the relay and ends the traffic (\<open>opener.go\<close>). An error is its
  text with the sentinels that \<open>errors.Is\<close> finds in it. What the tunnel, the selector, the
  dialer, the relay and the clock answer are arguments; the log is not modelled.
\<close>

section \<open>Errors\<close>

record op_error =
  oe_Is :: "goerr list"
  oe_Text :: string

definition err_acceptor_dependency_missing :: goerr where
  "err_acceptor_dependency_missing = OtherErr ''traffic acceptor dependency missing''"
definition err_tunnel_reader_already_owned :: goerr where
  "err_tunnel_reader_already_owned = OtherErr ''tunnel reader already owned''"
definition err_first_frame_not_traffic_open :: goerr where
  "err_first_frame_not_traffic_open = OtherErr ''first frame is not traffic open''"
definition err_runtime_dependency_missing :: goerr where
  "err_runtime_dependency_missing = OtherErr ''traffic runtime dependency missing''"

definition wrap_op :: "string \<Rightarrow> op_error \<Rightarrow> op_error" where
  "wrap_op s e = e\<lparr>oe_Text := s @ oe_Text e\<rparr>"

text \<open>\<open>errors.Join\<close>: \<open>nil\<close> errors are left out.\<close>

definition join_errors :: "op_error \<Rightarrow> op_error option \<Rightarrow> op_error" where
  "join_errors e e' =
     (case e' of None \<Rightarrow> e
      | Some x \<Rightarrow> \<lparr>oe_Is = oe_Is e @ oe_Is x, oe_Text = oe_Text e @ [CHR 0x0A] @ oe_Text x\<rparr>)"


section \<open>Who reads a tunnel\<close>

text \<open>\<open>ownedTunnelReads\<close> as the set of its keys; a lease is released at most once.\<close>

record acceptor =
  ownedTunnelReads :: "string list"

record reader_lease =
  ls_tunnelID :: string
  ls_released :: bool

definition new_acceptor :: acceptor where
  "new_acceptor = \<lparr>ownedTunnelReads = []\<rparr>"

definition claim_reader :: "string \<Rightarrow> acceptor \<Rightarrow> (goerr + reader_lease) \<times> acceptor" where
  "claim_reader i a =
     (if i \<in> set (ownedTunnelReads a) then (Inl err_tunnel_reader_already_owned, a)
      else (Inr \<lparr>ls_tunnelID = i, ls_released = False\<rparr>, a\<lparr>ownedTunnelReads := i # ownedTunnelReads a\<rparr>))"

definition release_reader :: "string \<Rightarrow> acceptor \<Rightarrow> acceptor" where
  "release_reader i a = a\<lparr>ownedTunnelReads := filter (\<lambda>j. j \<noteq> i) (ownedTunnelReads a)\<rparr>"

definition lease_release :: "reader_lease \<Rightarrow> acceptor \<Rightarrow> reader_lease \<times> acceptor" where
  "lease_release l a =
     (if ls_released l then (l, a)
      else (l\<lparr>ls_released := True\<rparr>, release_reader (ls_tunnelID l) a))"

definition is_reader_owned :: "string \<Rightarrow> acceptor \<Rightarrow> bool" where
  "is_reader_owned i a \<longleftrightarrow> trim_space i \<noteq> [] \<and> trim_space i \<in> set (ownedTunnelReads a)"

record open_handoff =
  oh_TunnelID :: string
  oh_Open :: traffic_open

text \<open>
  \<open>WaitTrafficOpen\<close> up to the read, which runs without the acceptor's mutex, and from its answer
  on. The acceptor has moved on in between, by the calls of other goroutines.
\<close>

definition wait_open_start :: "bool \<Rightarrow> bool \<Rightarrow> string \<Rightarrow> acceptor \<Rightarrow> (goerr + reader_lease) \<times> acceptor" where
  "wait_open_start acceptor_nil reader_nil i a =
     (if acceptor_nil then (Inl err_acceptor_dependency_missing, a)
      else if reader_nil then (Inl err_acceptor_dependency_missing, a)
      else if trim_space i = [] then (Inl err_acceptor_dependency_missing, a)
      else claim_reader (trim_space i) a)"

definition wait_open_finish ::
    "reader_lease \<Rightarrow> op_error + stream_payload \<Rightarrow> acceptor \<Rightarrow> (goerr list + open_handoff) \<times> reader_lease \<times> acceptor" where
  "wait_open_finish l answer a =
     (case answer of
        Inl e \<Rightarrow> (Inl (oe_Is e), lease_release l a)
      | Inr p \<Rightarrow>
          (case sp_OpenReq p of
             None \<Rightarrow> (Inl [err_first_frame_not_traffic_open], lease_release l a)
           | Some m \<Rightarrow>
               if active_payload_count p \<noteq> 1
               then (Inl [err_first_frame_not_traffic_open], lease_release l a)
               else (Inr \<lparr>oh_TunnelID = ls_tunnelID l, oh_Open = m\<rparr>, l, a)))"

text \<open>
  Any number of goroutines: each starts a wait (and holds a lease when it gets one), finishes a
  wait, or releases a lease it holds, in any order and, for the release, more than once.
\<close>

type_synonym acceptor_system = "acceptor \<times> reader_lease list"

inductive acceptor_step :: "acceptor_system \<Rightarrow> acceptor_system \<Rightarrow> bool" where
  start: "wait_open_start False False i a = (Inr l, a') \<Longrightarrow> acceptor_step (a, ls) (a', ls @ [l])"
| start_refused: "wait_open_start False False i a = (Inl e, a') \<Longrightarrow> acceptor_step (a, ls) (a', ls)"
| finish: "n < length ls \<Longrightarrow> wait_open_finish (ls ! n) answer a = (r, l', a') \<Longrightarrow>
    acceptor_step (a, ls) (a', ls[n := l'])"
| release: "n < length ls \<Longrightarrow> lease_release (ls ! n) a = (l', a') \<Longrightarrow> acceptor_step (a, ls) (a', ls[n := l'])"

inductive acceptor_run :: "acceptor_system \<Rightarrow> bool" where
  init: "acceptor_run (new_acceptor, [])"
| step: "acceptor_run s \<Longrightarrow> acceptor_step s s' \<Longrightarrow> acceptor_run s'"

abbreviation held :: "reader_lease list \<Rightarrow> string list" where
  "held ls \<equiv> map ls_tunnelID (filter (\<lambda>l. \<not> ls_released l) ls)"

definition acceptor_inv :: "acceptor_system \<Rightarrow> bool" where
  "acceptor_inv s \<longleftrightarrow> distinct (held (snd s)) \<and> set (held (snd s)) = set (ownedTunnelReads (fst s))"

lemma held_release:
  assumes "distinct (held ls)" and "n < length ls" and "\<not> ls_released (ls ! n)"
  shows "distinct (held (ls[n := (ls ! n)\<lparr>ls_released := True\<rparr>]))"
    and "set (held (ls[n := (ls ! n)\<lparr>ls_released := True\<rparr>])) = set (held ls) - {ls_tunnelID (ls ! n)}"
proof -
  have ls: "ls = take n ls @ ls ! n # drop (Suc n) ls"
    using assms(2) by (simp add: Cons_nth_drop_Suc)
  have up: "ls[n := (ls ! n)\<lparr>ls_released := True\<rparr>]
      = take n ls @ (ls ! n)\<lparr>ls_released := True\<rparr> # drop (Suc n) ls"
    using assms(2) by (simp add: upd_conv_take_nth_drop)
  have h: "held ls = held (take n ls) @ ls_tunnelID (ls ! n) # held (drop (Suc n) ls)"
    using assms(3) by (subst ls) simp
  have hu: "held (ls[n := (ls ! n)\<lparr>ls_released := True\<rparr>]) = held (take n ls) @ held (drop (Suc n) ls)"
    unfolding up by simp
  show "distinct (held (ls[n := (ls ! n)\<lparr>ls_released := True\<rparr>]))"
    using assms(1) unfolding h hu by auto
  show "set (held (ls[n := (ls ! n)\<lparr>ls_released := True\<rparr>])) = set (held ls) - {ls_tunnelID (ls ! n)}"
    using assms(1) unfolding h hu by auto
qed

lemma lease_release_inv:
  assumes inv: "acceptor_inv (a, ls)" and n: "n < length ls" and r: "lease_release (ls ! n) a = (l', a')"
  shows "acceptor_inv (a', ls[n := l'])"
proof (cases "ls_released (ls ! n)")
  case True
  then show ?thesis using inv r n by (auto simp: lease_release_def)
next
  case False
  then have "l' = (ls ! n)\<lparr>ls_released := True\<rparr>" "a' = release_reader (ls_tunnelID (ls ! n)) a"
    using r by (auto simp: lease_release_def)
  then show ?thesis
    using inv held_release[OF _ n False] by (auto simp: acceptor_inv_def release_reader_def)
qed

lemma wait_open_start_inv:
  "acceptor_inv (a, ls) \<Longrightarrow> wait_open_start False False i a = (Inr l, a') \<Longrightarrow> acceptor_inv (a', ls @ [l])"
  "acceptor_inv (a, ls) \<Longrightarrow> wait_open_start False False i a = (Inl e, a') \<Longrightarrow> acceptor_inv (a', ls)"
  by (auto simp: acceptor_inv_def wait_open_start_def claim_reader_def split: if_splits)

lemma wait_open_finish_inv:
  assumes inv: "acceptor_inv (a, ls)" and n: "n < length ls"
    and f: "wait_open_finish (ls ! n) answer a = (r, l', a')"
  shows "acceptor_inv (a', ls[n := l'])"
proof -
  have "lease_release (ls ! n) a = (l', a') \<or> (l', a') = (ls ! n, a)"
    using f by (auto simp: wait_open_finish_def split: sum.splits option.splits if_splits)
  then show ?thesis using lease_release_inv[OF inv n] inv by auto
qed

lemma acceptor_step_inv:
  assumes "acceptor_step s s'" and "acceptor_inv s"
  shows "acceptor_inv s'"
  using assms
  by (induction rule: acceptor_step.induct)
    (auto intro: wait_open_start_inv wait_open_finish_inv lease_release_inv)

lemma acceptor_run_inv: "acceptor_run s \<Longrightarrow> acceptor_inv s"
proof (induction rule: acceptor_run.induct)
  case init
  show ?case by (simp add: acceptor_inv_def new_acceptor_def)
next
  case (step s s')
  then show ?case by (blast intro: acceptor_step_inv)
qed

text \<open>C25. At any time at most one unreleased lease exists for a tunnel, whatever the order in which
  goroutines wait for opens, fail, and release (also twice); and the acceptor reports a tunnel as
  owned exactly while one does.\<close>

theorem one_reader_per_tunnel:
  assumes "acceptor_run s"
  shows "distinct (held (snd s))
    \<and> is_reader_owned i (fst s) = (trim_space i \<noteq> [] \<and> trim_space i \<in> set (held (snd s)))"
  using acceptor_run_inv[OF assms] by (simp add: acceptor_inv_def is_reader_owned_def)

theorem one_reader_per_tunnel_witness:
  "distinct (held (snd (\<lparr>ownedTunnelReads = [''t'']\<rparr>, [\<lparr>ls_tunnelID = ''t'', ls_released = False\<rparr>])))
    \<and> is_reader_owned ''t'' (fst (\<lparr>ownedTunnelReads = [''t'']\<rparr>, [\<lparr>ls_tunnelID = ''t'', ls_released = False\<rparr>]))
      = (trim_space ''t'' \<noteq> []
         \<and> trim_space ''t'' \<in> set (held (snd (\<lparr>ownedTunnelReads = [''t'']\<rparr>,
                                              [\<lparr>ls_tunnelID = ''t'', ls_released = False\<rparr>]))))"
proof (rule one_reader_per_tunnel)
  have "trim_space ''t'' = ''t''" by (rule trim_space_graphic; simp add: graphic_def)
  then have "wait_open_start False False ''t'' new_acceptor
      = (Inr \<lparr>ls_tunnelID = ''t'', ls_released = False\<rparr>, \<lparr>ownedTunnelReads = [''t'']\<rparr>)"
    by (simp add: wait_open_start_def claim_reader_def new_acceptor_def)
  then have "acceptor_step (new_acceptor, []) (\<lparr>ownedTunnelReads = [''t'']\<rparr>, [] @ [\<lparr>ls_tunnelID = ''t'', ls_released = False\<rparr>])"
    by (rule acceptor_step.start)
  then show "acceptor_run (\<lparr>ownedTunnelReads = [''t'']\<rparr>, [\<lparr>ls_tunnelID = ''t'', ls_released = False\<rparr>])"
    using acceptor_run.step[OF acceptor_run.init] by simp
qed


section \<open>The opener\<close>

record traffic_endpoint =
  en_ID :: string
  en_Addr :: string
  en_Protocol :: string
  en_ServerName :: string

record handle_result =
  hr_TrafficID :: string
  hr_Endpoint :: traffic_endpoint
  hr_OpenAckLatencyMS :: "64 word"
  hr_UpstreamDialLatencyMS :: "64 word"

text \<open>
  What a \<open>Handle\<close> does to the outside, in its order. A frame is written under the caller's
  context without its cancellation, or under the execution context, which ends when the caller's
  does or the tunnel closes.
\<close>

datatype write_context = TerminalContext | ExecutionContext

datatype opener_action =
    WroteFrame write_context stream_payload
  | ObservedOpenAck duration
  | ObservedDial duration
  | DialedTo traffic_endpoint
  | RanRelay string
  | ClosedUpstream
  | ReleasedLease

text \<open>The answers of the dependencies, and the clock when it is read.\<close>

record opener_env =
  ov_Select :: "string \<Rightarrow> (string, string) gomap \<Rightarrow> op_error + traffic_endpoint"
  ov_Dial :: "traffic_endpoint \<Rightarrow> op_error option"
  ov_Relay :: "string \<Rightarrow> op_error option"
  ov_Write :: "stream_payload \<Rightarrow> op_error option"
  ov_HandleStarted :: gotime
  ov_DialStarted :: gotime
  ov_DialDone :: gotime
  ov_AckDone :: gotime

definition new_opener :: "bool \<Rightarrow> bool \<Rightarrow> bool \<Rightarrow> goerr option" where
  "new_opener selector_nil dialer_nil relay_nil =
     (if selector_nil then Some err_runtime_dependency_missing
      else if dialer_nil then Some err_runtime_dependency_missing
      else if relay_nil then Some err_runtime_dependency_missing
      else None)"

text \<open>\<open>observeOpenAckLatency\<close> and \<open>observeDialLatency\<close>: what is observed, and the milliseconds.\<close>

definition observe_latency :: "gotime \<Rightarrow> gotime \<Rightarrow> duration \<times> 64 word" where
  "observe_latency started now =
     (let latency0 = time_sub now started; latency = (if latency0 < 0 then 0 else latency0)
      in (latency, of_int (latency div 1000000)))"

definition opener_validate_open :: "traffic_open \<Rightarrow> chain_err option" where
  "opener_validate_open m =
     (if trim_space (to_TrafficID m) = [] then Some (new_error code_missing_required_field ''trafficId is required'')
      else if trim_space (to_LogicalServiceID m) = []
      then Some (new_error code_traffic_invalid_logical_service_id ''logicalServiceId is required'')
      else None)"

definition open_ack_frame :: "traffic_open_ack \<Rightarrow> stream_payload" where
  "open_ack_frame ack = empty_payload\<lparr>sp_OpenAck := Some ack\<rparr>"

definition rejecting_ack :: "string \<Rightarrow> string \<Rightarrow> string \<Rightarrow> traffic_open_ack" where
  "rejecting_ack tid code message = \<lparr>ta_TrafficID = tid, ta_Success = False, ta_ErrorCode = code,
     ta_ErrorMessage = message, ta_Metadata = []\<rparr>"

definition accepting_ack :: "string \<Rightarrow> traffic_endpoint \<Rightarrow> traffic_open_ack" where
  "accepting_ack tid ep = \<lparr>ta_TrafficID = tid, ta_Success = True, ta_ErrorCode = [], ta_ErrorMessage = [],
     ta_Metadata = [(''actual_endpoint_id'', trim_space (en_ID ep)),
                    (''actual_endpoint_addr'', trim_space (en_Addr ep))]\<rparr>"

definition reset_frame :: "string \<Rightarrow> string \<Rightarrow> string \<Rightarrow> stream_payload" where
  "reset_frame tid code message =
     empty_payload\<lparr>sp_Reset := Some \<lparr>tr_TrafficID = tid, tr_ErrorCode = code, tr_ErrorMessage = message\<rparr>\<rparr>"

definition close_frame :: "string \<Rightarrow> stream_payload" where
  "close_frame tid = empty_payload\<lparr>sp_Close := Some \<lparr>tc_TrafficID = tid, tc_Reason = ''relay_completed''\<rparr>\<rparr>"

definition write_open_ack :: "opener_env \<Rightarrow> traffic_open_ack \<Rightarrow> op_error option" where
  "write_open_ack env ack = map_option (wrap_op ''write open ack: '') (ov_Write env (open_ack_frame ack))"

text \<open>An open that is refused: the acknowledgement, the latency, and the joined error.\<close>

definition refuse_open ::
    "opener_env \<Rightarrow> traffic_open_ack \<Rightarrow> op_error \<Rightarrow> (op_error + handle_result) \<times> opener_action list" where
  "refuse_open env ack e =
     (Inl (join_errors e (write_open_ack env ack)),
      [WroteFrame TerminalContext (open_ack_frame ack),
       ObservedOpenAck (fst (observe_latency (ov_HandleStarted env) (ov_AckDone env)))])"

definition reset_code_for :: "op_error \<Rightarrow> string" where
  "reset_code_for e =
     (if Canceled \<in> set (oe_Is e) \<or> DeadlineExceeded \<in> set (oe_Is e) then ''TRAFFIC_CANCELED''
      else ''TRAFFIC_RELAY_FAILED'')"

text \<open>From the dialed upstream on; its \<open>Close\<close> is deferred.\<close>

definition handle_connected ::
    "opener_env \<Rightarrow> traffic_open \<Rightarrow> traffic_endpoint \<Rightarrow> 64 word
      \<Rightarrow> (op_error + handle_result) \<times> opener_action list" where
  "handle_connected env m ep dial_ms =
     (let ack = accepting_ack (to_TrafficID m) ep;
          latency = observe_latency (ov_HandleStarted env) (ov_AckDone env);
          opened = [WroteFrame TerminalContext (open_ack_frame ack), ObservedOpenAck (fst latency)]
      in case write_open_ack env ack of
           Some e \<Rightarrow> (Inl (wrap_op ''handle traffic open: write open ack: '' e), opened)
         | None \<Rightarrow>
             (case ov_Relay env (to_TrafficID m) of
                Some e \<Rightarrow>
                  (let reset = reset_frame (to_TrafficID m) (reset_code_for e) (oe_Text e)
                   in (Inl (join_errors (wrap_op ''handle traffic open: relay: '' e) (ov_Write env reset)),
                       opened @ [RanRelay (to_TrafficID m), WroteFrame TerminalContext reset]))
              | None \<Rightarrow>
                  (let acts = opened @ [RanRelay (to_TrafficID m),
                                        WroteFrame ExecutionContext (close_frame (to_TrafficID m))]
                   in case ov_Write env (close_frame (to_TrafficID m)) of
                        Some e \<Rightarrow> (Inl (wrap_op ''handle traffic open: write close: '' e), acts)
                      | None \<Rightarrow>
                          (Inr \<lparr>hr_TrafficID = to_TrafficID m, hr_Endpoint = ep,
                                hr_OpenAckLatencyMS = snd latency, hr_UpstreamDialLatencyMS = dial_ms\<rparr>, acts))))"

definition handle_open_body ::
    "opener_env \<Rightarrow> traffic_open \<Rightarrow> (op_error + handle_result) \<times> opener_action list" where
  "handle_open_body env m =
     (case opener_validate_open m of
        Some e \<Rightarrow>
          (let code0 = extract_code (Some e);
               code = (if trim_space code0 = [] then code_invalid_payload else code0)
           in refuse_open env (rejecting_ack (trim_space (to_TrafficID m)) code (error_text e))
                \<lparr>oe_Is = [], oe_Text = error_text e\<rparr>)
      | None \<Rightarrow>
          (case ov_Select env (to_LogicalServiceID m) (to_EndpointSelectionHint m) of
             Inl e \<Rightarrow>
               refuse_open env (rejecting_ack (to_TrafficID m) ''TRAFFIC_OPEN_REJECTED'' (oe_Text e))
                 (wrap_op ''handle traffic open: select endpoint: '' e)
           | Inr ep \<Rightarrow>
               (let dialed = observe_latency (ov_DialStarted env) (ov_DialDone env)
                in case ov_Dial env ep of
                     Some e \<Rightarrow>
                       (let (r, acts) = refuse_open env
                              (rejecting_ack (to_TrafficID m) ''CONNECTOR_DIAL_FAILED'' (oe_Text e))
                              (wrap_op ''handle traffic open: dial upstream: '' e)
                        in (r, DialedTo ep # ObservedDial (fst dialed) # acts))
                   | None \<Rightarrow>
                       (let (r, acts) = handle_connected env m ep (snd dialed)
                        in (r, DialedTo ep # ObservedDial (fst dialed) # acts @ [ClosedUpstream])))))"

text \<open>\<open>Handle\<close>, with or without a lease in the handoff.\<close>

definition handle_traffic_open ::
    "opener_env \<Rightarrow> bool \<Rightarrow> bool \<Rightarrow> bool \<Rightarrow> open_handoff \<Rightarrow> (op_error + handle_result) \<times> opener_action list" where
  "handle_traffic_open env opener_nil tunnel_nil has_lease h =
     (let released = (if has_lease then [ReleasedLease] else [])
      in if opener_nil
         then (Inl \<lparr>oe_Is = [err_runtime_dependency_missing],
                    oe_Text = ''handle traffic open: traffic runtime dependency missing''\<rparr>, released)
         else if tunnel_nil
         then (Inl \<lparr>oe_Is = [err_runtime_dependency_missing],
                    oe_Text = ''handle traffic open: traffic runtime dependency missing: nil tunnel io''\<rparr>, released)
         else (let (r, acts) = handle_open_body env (oh_Open h) in (r, acts @ released)))"

fun frames_written :: "opener_action list \<Rightarrow> (write_context \<times> stream_payload) list" where
  "frames_written [] = []"
| "frames_written (WroteFrame c p # acts) = (c, p) # frames_written acts"
| "frames_written (_ # acts) = frames_written acts"

lemma frames_written_append [simp]: "frames_written (xs @ ys) = frames_written xs @ frames_written ys"
  by (induction xs rule: frames_written.induct) simp_all

text \<open>The endpoint an open is connected to, and the acknowledgement it deserves.\<close>

definition connected_endpoint :: "opener_env \<Rightarrow> traffic_open \<Rightarrow> traffic_endpoint option" where
  "connected_endpoint env m =
     (if opener_validate_open m \<noteq> None then None
      else case ov_Select env (to_LogicalServiceID m) (to_EndpointSelectionHint m) of
          Inl _ \<Rightarrow> None | Inr ep \<Rightarrow> if ov_Dial env ep = None then Some ep else None)"

lemma handle_connected_frames:
  "frames_written (snd (handle_connected env m ep ms)) =
     (TerminalContext, open_ack_frame (accepting_ack (to_TrafficID m) ep))
     # (if write_open_ack env (accepting_ack (to_TrafficID m) ep) \<noteq> None then []
        else case ov_Relay env (to_TrafficID m) of
            Some e \<Rightarrow> [(TerminalContext, reset_frame (to_TrafficID m) (reset_code_for e) (oe_Text e))]
          | None \<Rightarrow> [(ExecutionContext, close_frame (to_TrafficID m))])"
  "count_list (snd (handle_connected env m ep ms)) ClosedUpstream = 0"
  "count_list (snd (handle_connected env m ep ms)) ReleasedLease = 0"
  "isl (fst (handle_connected env m ep ms)) = (write_open_ack env (accepting_ack (to_TrafficID m) ep) \<noteq> None
     \<or> ov_Relay env (to_TrafficID m) \<noteq> None \<or> ov_Write env (close_frame (to_TrafficID m)) \<noteq> None)"
  by (auto simp: handle_connected_def Let_def split: option.splits)

lemma refuse_open_simps:
  "frames_written (snd (refuse_open env ack e)) = [(TerminalContext, open_ack_frame ack)]"
  "count_list (snd (refuse_open env ack e)) ClosedUpstream = 0"
  "count_list (snd (refuse_open env ack e)) ReleasedLease = 0"
  "isl (fst (refuse_open env ack e))"
  by (simp_all add: refuse_open_def)

definition open_acknowledged :: "opener_env \<Rightarrow> traffic_open \<Rightarrow> bool" where
  "open_acknowledged env m =
     (case connected_endpoint env m of None \<Rightarrow> False
      | Some ep \<Rightarrow> ov_Write env (open_ack_frame (accepting_ack (to_TrafficID m) ep)) = None)"

definition last_frames :: "opener_env \<Rightarrow> traffic_open \<Rightarrow> (write_context \<times> stream_payload) list" where
  "last_frames env m =
     (if \<not> open_acknowledged env m then []
      else case ov_Relay env (to_TrafficID m) of
          Some e \<Rightarrow> [(TerminalContext, reset_frame (to_TrafficID m) (reset_code_for e) (oe_Text e))]
        | None \<Rightarrow> [(ExecutionContext, close_frame (to_TrafficID m))])"

lemma write_open_ack_None: "write_open_ack env ack = None \<longleftrightarrow> ov_Write env (open_ack_frame ack) = None"
  by (simp add: write_open_ack_def)

lemma handle_open_body_cases:
  obtains (refused) ack e pre where "connected_endpoint env m = None" and "\<not> ta_Success ack"
      and "fst (handle_open_body env m) = fst (refuse_open env ack e)"
      and "snd (handle_open_body env m) = pre @ snd (refuse_open env ack e)"
      and "frames_written pre = []" and "count_list pre ClosedUpstream = 0" and "count_list pre ReleasedLease = 0"
  | (connected) ep ms d where "connected_endpoint env m = Some ep"
      and "fst (handle_open_body env m) = fst (handle_connected env m ep ms)"
      and "snd (handle_open_body env m)
        = DialedTo ep # ObservedDial d # snd (handle_connected env m ep ms) @ [ClosedUpstream]"
proof (cases "opener_validate_open m")
  case (Some e)
  show thesis
    by (rule refused[of "rejecting_ack (trim_space (to_TrafficID m))
            (if trim_space (extract_code (Some e)) = [] then code_invalid_payload else extract_code (Some e)) (error_text e)"
          "\<lparr>oe_Is = [], oe_Text = error_text e\<rparr>" "[]"])
      (simp_all add: Some handle_open_body_def connected_endpoint_def rejecting_ack_def Let_def)
next
  case valid: None
  show thesis
  proof (cases "ov_Select env (to_LogicalServiceID m) (to_EndpointSelectionHint m)")
    case (Inl e)
    show thesis
      by (rule refused[of "rejecting_ack (to_TrafficID m) ''TRAFFIC_OPEN_REJECTED'' (oe_Text e)"
            "wrap_op ''handle traffic open: select endpoint: '' e" "[]"])
        (simp_all add: valid Inl handle_open_body_def connected_endpoint_def rejecting_ack_def)
  next
    case (Inr ep)
    show thesis
    proof (cases "ov_Dial env ep")
      case (Some e)
      show thesis
        by (rule refused[of "rejecting_ack (to_TrafficID m) ''CONNECTOR_DIAL_FAILED'' (oe_Text e)"
              "wrap_op ''handle traffic open: dial upstream: '' e"
              "[DialedTo ep, ObservedDial (fst (observe_latency (ov_DialStarted env) (ov_DialDone env)))]"])
          (simp_all add: valid Inr Some handle_open_body_def connected_endpoint_def rejecting_ack_def Let_def
            case_prod_unfold)
    next
      case None
      show thesis
        by (rule connected[of ep "snd (observe_latency (ov_DialStarted env) (ov_DialDone env))"
              "fst (observe_latency (ov_DialStarted env) (ov_DialDone env))"])
          (simp_all add: valid Inr None handle_open_body_def connected_endpoint_def Let_def case_prod_unfold)
    qed
  qed
qed

lemma handle_traffic_open_body:
  "fst (handle_traffic_open env False False has_lease h) = fst (handle_open_body env (oh_Open h))"
  "snd (handle_traffic_open env False False has_lease h)
     = snd (handle_open_body env (oh_Open h)) @ (if has_lease then [ReleasedLease] else [])"
  by (simp_all add: handle_traffic_open_def Let_def case_prod_unfold)

text \<open>C7. Every open that reaches the opener is answered by exactly one acknowledgement, written first and
  under the context that outlives a cancellation; it accepts exactly when an endpoint was selected
  and dialed. After an accepted open comes at most one more frame, a reset when the relay failed
  and a close when it did not. An upstream that was dialed is closed once, the lease is released
  once and last, and \<open>Handle\<close> succeeds exactly when the traffic was accepted, relayed and closed.\<close>

theorem open_is_answered_once:
  "\<exists>ack acts. snd (handle_traffic_open env False False has_lease h) = acts @ (if has_lease then [ReleasedLease] else [])
     \<and> frames_written acts = (TerminalContext, open_ack_frame ack) # last_frames env (oh_Open h)
     \<and> ta_Success ack = (connected_endpoint env (oh_Open h) \<noteq> None)
     \<and> count_list acts ClosedUpstream = (if connected_endpoint env (oh_Open h) = None then 0 else 1)
     \<and> count_list acts ReleasedLease = 0
     \<and> isl (fst (handle_traffic_open env False False has_lease h))
         = (\<not> (open_acknowledged env (oh_Open h) \<and> ov_Relay env (to_TrafficID (oh_Open h)) = None
              \<and> ov_Write env (close_frame (to_TrafficID (oh_Open h))) = None))"
proof -
  let ?m = "oh_Open h"
  have "\<exists>ack. frames_written (snd (handle_open_body env ?m)) = (TerminalContext, open_ack_frame ack) # last_frames env ?m
     \<and> ta_Success ack = (connected_endpoint env ?m \<noteq> None)
     \<and> count_list (snd (handle_open_body env ?m)) ClosedUpstream = (if connected_endpoint env ?m = None then 0 else 1)
     \<and> count_list (snd (handle_open_body env ?m)) ReleasedLease = 0
     \<and> isl (fst (handle_open_body env ?m))
         = (\<not> (open_acknowledged env ?m \<and> ov_Relay env (to_TrafficID ?m) = None
              \<and> ov_Write env (close_frame (to_TrafficID ?m)) = None))"
  proof (cases rule: handle_open_body_cases[of env ?m])
    case (refused ack e pre)
    then show ?thesis by (intro exI[of _ ack]) (simp add: refuse_open_simps last_frames_def open_acknowledged_def)
  next
    case (connected ep ms d)
    then show ?thesis
      by (intro exI[of _ "accepting_ack (to_TrafficID ?m) ep"])
        (auto simp: handle_connected_frames last_frames_def open_acknowledged_def write_open_ack_None accepting_ack_def)
  qed
  then show ?thesis by (simp add: handle_traffic_open_body)
qed

end
