(* ===== verification/Agent_Relay.thy ===== *)
theory Agent_Relay
  imports Agent_Traffic Traffic_Protocol
begin

text \<open>
  The agent's relay (\<open>agent-core/runtime/agent/traffic/relay.go\<close>): four workers move the bytes of
  a traffic between the tunnel and the upstream through two bounded channels, and the relay decides
  from their results when to stop and what to return. A worker is a function of the answers its
  calls get, in their order; with no answer left it waits, and its value is \<open>None\<close>. An error is
  the list of the sentinels that \<open>errors.Is\<close> finds in it. The counters of bytes are not modelled.
\<close>

section \<open>Options\<close>

definition err_relay_dependency_missing :: goerr where
  "err_relay_dependency_missing = OtherErr ''traffic relay dependency missing''"
definition err_relay_backpressure_timeout :: goerr where
  "err_relay_backpressure_timeout = OtherErr ''traffic relay backpressure timeout''"
definition err_relay_reset_by_peer :: goerr where
  "err_relay_reset_by_peer = OtherErr ''traffic relay reset by peer''"

record stream_relay =
  sr_bufferFrames :: int
  sr_maxDataFrameBytes :: int
  sr_backpressureTimeout :: duration

definition default_relay_buffer_frames :: int where "default_relay_buffer_frames = 32"
definition default_relay_max_data_frame_bytes :: int where "default_relay_max_data_frame_bytes = 16 * 1024"
definition default_relay_backpressure :: duration where "default_relay_backpressure = 5 * second"

definition new_stream_relay :: "stream_relay \<Rightarrow> stream_relay" where
  "new_stream_relay o1 =
     \<lparr>sr_bufferFrames = (if sr_bufferFrames o1 \<le> 0 then default_relay_buffer_frames else sr_bufferFrames o1),
      sr_maxDataFrameBytes =
        (if sr_maxDataFrameBytes o1 \<le> 0 then default_relay_max_data_frame_bytes else sr_maxDataFrameBytes o1),
      sr_backpressureTimeout =
        (if sr_backpressureTimeout o1 \<le> 0 then default_relay_backpressure else sr_backpressureTimeout o1)\<rparr>"


section \<open>The workers\<close>

text \<open>What \<open>ctx.Err()\<close> is once the context is done.\<close>

datatype ctx_err = CtxCanceled | CtxDeadlineExceeded

fun ctx_error :: "ctx_err \<Rightarrow> goerr" where
  "ctx_error CtxCanceled = Canceled"
| "ctx_error CtxDeadlineExceeded = DeadlineExceeded"

text \<open>Which case of \<open>sendWithBackpressure\<close>'s \<open>select\<close> is taken.\<close>

datatype send_outcome = Sent | SendDone ctx_err | SendTimer

definition send_with_backpressure :: "stream_relay \<Rightarrow> send_outcome \<Rightarrow> goerr list option option" where
  "send_with_backpressure r oc =
     (case oc of
        Sent \<Rightarrow> Some None
      | SendDone e \<Rightarrow> Some (Some [ctx_error e])
      | SendTimer \<Rightarrow> if sr_backpressureTimeout r \<le> 0 then None else Some (Some [err_relay_backpressure_timeout]))"

text \<open>
  What the tunnel can do about close acknowledgements: \<open>TryMarkCloseAckSent\<close> (when it has it) with
  its answer, \<open>MarkCloseAckObserved\<close>, and the answer to writing one.
\<close>

record close_ack_tunnel =
  ct_Tracks :: bool
  ct_FirstMark :: bool
  ct_Observes :: bool
  ct_AckWrite :: "goerr list option"

definition should_write_close_ack_once :: "close_ack_tunnel \<Rightarrow> bool" where
  "should_write_close_ack_once ct \<longleftrightarrow> (if \<not> ct_Tracks ct then True else ct_FirstMark ct)"

record reader_outcome =
  ro_Error :: "goerr list"
  ro_Chunks :: "byte list list"
  ro_Acks :: "stream_payload list"
  ro_Observed :: bool

definition close_ack_frame :: "string \<Rightarrow> stream_payload" where
  "close_ack_frame tid = empty_payload\<lparr>sp_CloseAck :=
     Some \<lparr>tca_TrafficID = tid, tca_Accepted = True, tca_ErrorCode = [], tca_ErrorMessage = []\<rparr>\<rparr>"

definition closes_traffic :: "string \<Rightarrow> stream_payload \<Rightarrow> bool" where
  "closes_traffic tid p = (case sp_Close p of None \<Rightarrow> False | Some c \<Rightarrow> trim_space (tc_TrafficID c) = tid)"

definition resets_traffic :: "string \<Rightarrow> stream_payload \<Rightarrow> bool" where
  "resets_traffic tid p = (case sp_Reset p of None \<Rightarrow> False | Some c \<Rightarrow> trim_space (tr_TrafficID c) = tid)"

fun read_tunnel_to_upstream ::
    "stream_relay \<Rightarrow> close_ack_tunnel \<Rightarrow> string \<Rightarrow> ((goerr list + stream_payload) \<times> send_outcome) list
      \<Rightarrow> reader_outcome option" where
  "read_tunnel_to_upstream r ct tid [] = None"
| "read_tunnel_to_upstream r ct tid ((Inl e, oc) # as) =
     Some \<lparr>ro_Error = e, ro_Chunks = [], ro_Acks = [], ro_Observed = False\<rparr>"
| "read_tunnel_to_upstream r ct tid ((Inr p, oc) # as) =
     (if closes_traffic tid p then
        (if should_write_close_ack_once ct then
           (case ct_AckWrite ct of
              Some e \<Rightarrow> Some \<lparr>ro_Error = e, ro_Chunks = [], ro_Acks = [close_ack_frame tid], ro_Observed = False\<rparr>
            | None \<Rightarrow> Some \<lparr>ro_Error = [err_eof], ro_Chunks = [], ro_Acks = [close_ack_frame tid],
                            ro_Observed = ct_Observes ct\<rparr>)
         else Some \<lparr>ro_Error = [err_eof], ro_Chunks = [], ro_Acks = [], ro_Observed = ct_Observes ct\<rparr>)
      else if resets_traffic tid p then
        Some \<lparr>ro_Error = [err_relay_reset_by_peer], ro_Chunks = [], ro_Acks = [], ro_Observed = False\<rparr>
      else if length (sp_Data p) = 0 then read_tunnel_to_upstream r ct tid as
      else (case send_with_backpressure r oc of
          None \<Rightarrow> None
        | Some (Some e) \<Rightarrow> Some \<lparr>ro_Error = e, ro_Chunks = [], ro_Acks = [], ro_Observed = False\<rparr>
        | Some None \<Rightarrow>
            (case read_tunnel_to_upstream r ct tid as of
               None \<Rightarrow> None
             | Some ro \<Rightarrow> Some (ro\<lparr>ro_Chunks := sp_Data p # ro_Chunks ro\<rparr>))))"

text \<open>
  \<open>writeAll\<close>: an answer is \<open>ctx.Err()\<close> when the context is done at the check, and what
  \<open>Write\<close> takes and returns. The value: the bytes written, the error, the answers left.
\<close>

type_synonym write_answer = "ctx_err option \<times> nat \<times> goerr list option"

fun write_all :: "byte list \<Rightarrow> write_answer list \<Rightarrow> (byte list \<times> goerr list option \<times> write_answer list) option" where
  "write_all [] as = Some ([], None, as)"
| "write_all (b # bs) [] = None"
| "write_all (b # bs) ((Some done_err, n, e) # as) = Some ([], Some [ctx_error done_err], as)"
| "write_all (b # bs) ((None, n, e) # as) =
     (case e of
        Some err \<Rightarrow> Some (take n (b # bs), Some err, as)
      | None \<Rightarrow>
          if n = 0 then Some ([], Some [err_short_write], as)
          else (case write_all (drop n (b # bs)) as of
              None \<Rightarrow> None
            | Some (w, e', as') \<Rightarrow> Some (take n (b # bs) @ w, e', as')))"

text \<open>Which case of a writer's \<open>select\<close> is taken.\<close>

datatype recv_outcome = RecvDone ctx_err | RecvChunk "byte list" | RecvClosed

fun write_tunnel_data_to_upstream ::
    "recv_outcome list \<Rightarrow> write_answer list \<Rightarrow> (goerr list option \<times> byte list) option" where
  "write_tunnel_data_to_upstream [] as = None"
| "write_tunnel_data_to_upstream (RecvDone e # rs) as = Some (Some [ctx_error e], [])"
| "write_tunnel_data_to_upstream (RecvClosed # rs) as = Some (None, [])"
| "write_tunnel_data_to_upstream (RecvChunk chunk # rs) as =
     (if length chunk = 0 then write_tunnel_data_to_upstream rs as
      else (case write_all chunk as of
          None \<Rightarrow> None
        | Some (w, Some e, as') \<Rightarrow> Some (Some e, w)
        | Some (w, None, as') \<Rightarrow>
            (case write_tunnel_data_to_upstream rs as' of
               None \<Rightarrow> None | Some (e, out) \<Rightarrow> Some (e, w @ out))))"

text \<open>
  An answer to the upstream's reader: the context at the check, the bytes and the error of
  \<open>Read\<close> (at most \<open>maxDataFrameBytes\<close>, the size of the buffer), and the case of the send.
\<close>

fun read_upstream_to_tunnel ::
    "stream_relay \<Rightarrow> (ctx_err option \<times> byte list \<times> goerr list option \<times> send_outcome) list
      \<Rightarrow> (goerr list \<times> byte list list) option" where
  "read_upstream_to_tunnel r [] = None"
| "read_upstream_to_tunnel r ((Some e, bs, err, oc) # as) = Some ([ctx_error e], [])"
| "read_upstream_to_tunnel r ((None, bs, err, oc) # as) =
     (let buf = take (nat (sr_maxDataFrameBytes r)) bs;
          sent = (if length buf > 0 then send_with_backpressure r oc else Some None);
          chunk = (if length buf > 0 then [buf] else [])
      in case sent of
           None \<Rightarrow> None
         | Some (Some e) \<Rightarrow> Some (e, [])
         | Some None \<Rightarrow>
             (case err of
                Some e \<Rightarrow> Some (if err_eof \<in> set e then [err_eof] else e, chunk)
              | None \<Rightarrow>
                  (case read_upstream_to_tunnel r as of
                     None \<Rightarrow> None | Some (e, cs) \<Rightarrow> Some (e, chunk @ cs))))"

fun write_upstream_data_to_tunnel ::
    "recv_outcome list \<Rightarrow> goerr list option list \<Rightarrow> (goerr list option \<times> stream_payload list) option" where
  "write_upstream_data_to_tunnel [] as = None"
| "write_upstream_data_to_tunnel (RecvDone e # rs) as = Some (Some [ctx_error e], [])"
| "write_upstream_data_to_tunnel (RecvClosed # rs) as = Some (None, [])"
| "write_upstream_data_to_tunnel (RecvChunk chunk # rs) as =
     (if length chunk = 0 then write_upstream_data_to_tunnel rs as
      else (case as of
          [] \<Rightarrow> None
        | Some e # as' \<Rightarrow> Some (Some e, [empty_payload\<lparr>sp_Data := chunk\<rparr>])
        | None # as' \<Rightarrow>
            (case write_upstream_data_to_tunnel rs as' of
               None \<Rightarrow> None
             | Some (e, out) \<Rightarrow> Some (e, empty_payload\<lparr>sp_Data := chunk\<rparr> # out))))"


section \<open>The decision\<close>

datatype relay_worker = WorkerReadTunnel | WorkerWriteUpstream | WorkerReadUpstream | WorkerWriteTunnel

type_synonym worker_result = "relay_worker \<times> goerr list option"

record relay_state =
  rl_Error :: "goerr list option"
  rl_ReadTunnelEOF :: bool
  rl_ReadUpstreamEOF :: bool
  rl_WriteUpstreamDone :: bool
  rl_WriteTunnelDone :: bool
  rl_StopByEOF :: bool
  rl_Stopped :: bool

definition relay_start :: relay_state where
  "relay_start = \<lparr>rl_Error = None, rl_ReadTunnelEOF = False, rl_ReadUpstreamEOF = False,
     rl_WriteUpstreamDone = False, rl_WriteTunnelDone = False, rl_StopByEOF = False, rl_Stopped = False\<rparr>"

definition stop_by_eof :: "relay_state \<Rightarrow> relay_state" where
  "stop_by_eof s = s\<lparr>rl_StopByEOF := True, rl_Stopped := True\<rparr>"

definition is_cancel :: "goerr list \<Rightarrow> bool" where
  "is_cancel e \<longleftrightarrow> Canceled \<in> set e \<or> DeadlineExceeded \<in> set e"

text \<open>One round of the loop over \<open>resultChannel\<close>; \<open>stopRelay\<close> cancels the context and closes the
  upstream.\<close>

definition relay_round :: "worker_result \<Rightarrow> relay_state \<Rightarrow> relay_state" where
  "relay_round wr s0 =
     (let s = (case fst wr of
                 WorkerWriteUpstream \<Rightarrow> s0\<lparr>rl_WriteUpstreamDone := True\<rparr>
               | WorkerWriteTunnel \<Rightarrow> s0\<lparr>rl_WriteTunnelDone := True\<rparr>
               | _ \<Rightarrow> s0)
      in case snd wr of
           None \<Rightarrow>
             (let s1 = (if rl_ReadTunnelEOF s \<and> rl_WriteUpstreamDone s then stop_by_eof s else s)
              in if rl_ReadUpstreamEOF s1 \<and> rl_WriteTunnelDone s1 then stop_by_eof s1 else s1)
         | Some e \<Rightarrow>
             if rl_Error s \<noteq> None then s
             else if err_eof \<in> set e then
               (case fst wr of
                  WorkerReadTunnel \<Rightarrow>
                    (let s1 = s\<lparr>rl_ReadTunnelEOF := True\<rparr>
                     in if rl_WriteUpstreamDone s1 then stop_by_eof s1 else s1)
                | WorkerReadUpstream \<Rightarrow>
                    (let s1 = s\<lparr>rl_ReadUpstreamEOF := True\<rparr>
                     in if rl_WriteTunnelDone s1 then stop_by_eof s1 else s1)
                | _ \<Rightarrow> s)
             else if rl_StopByEOF s \<and> is_cancel e then s
             else s\<lparr>rl_Error := Some e, rl_Stopped := True\<rparr>)"

definition relay_verdict :: "relay_state \<Rightarrow> goerr list option" where
  "relay_verdict s =
     (if (rl_ReadTunnelEOF s \<or> rl_ReadUpstreamEOF s) \<and> rl_Error s = None then None else rl_Error s)"

text \<open>\<open>Relay\<close>, given the results of its workers in the order they arrive.\<close>

definition relay :: "bool \<Rightarrow> string \<Rightarrow> worker_result list \<Rightarrow> goerr list option" where
  "relay something_nil tid results =
     (if something_nil then Some [err_relay_dependency_missing]
      else if trim_space tid = [] then Some [err_relay_dependency_missing]
      else relay_verdict (fold relay_round results relay_start))"


section \<open>What arrives on the other side\<close>

text \<open>
  A channel hands its receiver the chunks in the order they were sent, and is closed only once
  all of them are received.
\<close>

fun channel_delivers :: "byte list list \<Rightarrow> recv_outcome list \<Rightarrow> bool" where
  "channel_delivers cs [] = True"
| "channel_delivers cs (RecvDone e # rs) = channel_delivers cs rs"
| "channel_delivers cs (RecvClosed # rs) = (cs = [])"
| "channel_delivers cs (RecvChunk d # rs) =
     (case cs of [] \<Rightarrow> False | c # cs' \<Rightarrow> c = d \<and> channel_delivers cs' rs)"

lemma write_all_prefix:
  "write_all bs as = Some (w, e, as') \<Longrightarrow> (\<exists>rest. bs = w @ rest) \<and> (e = None \<longrightarrow> w = bs)"
proof (induction bs as arbitrary: w e as' rule: write_all.induct)
  case (4 b bs n e0 as)
  have split_b: "b # bs = take n (b # bs) @ drop n (b # bs)" by (rule append_take_drop_id[symmetric])
  show ?case
  proof (cases "e0 = None \<and> n \<noteq> 0")
    case True
    then obtain w' where w': "write_all (drop n (b # bs)) as = Some (w', e, as')" "w = take n (b # bs) @ w'"
      using "4.prems" by (auto split: option.splits prod.splits simp del: take_Suc_Cons drop_Suc_Cons)
    have "(\<exists>rest. drop n (b # bs) = w' @ rest) \<and> (e = None \<longrightarrow> w' = drop n (b # bs))"
      using "4.IH"[OF conjunct1[OF True] conjunct2[OF True] w'(1)] .
    then show ?thesis using w'(2) split_b by (metis append_assoc)
  next
    case False
    then have "w = [] \<or> w = take n (b # bs)" "e \<noteq> None"
      using "4.prems" by (auto split: option.splits simp del: take_Suc_Cons)
    then show ?thesis using split_b by (metis append_Nil)
  qed
qed auto

lemma write_upstream_prefix:
  "channel_delivers cs rs \<Longrightarrow> write_tunnel_data_to_upstream rs as = Some (e, out) \<Longrightarrow>
     (\<exists>rest. concat cs = out @ rest) \<and> (e = None \<longrightarrow> out = concat cs)"
proof (induction rs as arbitrary: cs e out rule: write_tunnel_data_to_upstream.induct)
  case (4 chunk rs as)
  then obtain cs' where cs: "cs = chunk # cs'" "channel_delivers cs' rs"
    by (auto split: list.splits)
  show ?case
  proof (cases "chunk = []")
    case True
    then show ?thesis using "4.IH"(1)[OF _ cs(2)] "4.prems"(2) cs(1) by simp
  next
    case False
    then obtain w e1 as' where w: "write_all chunk as = Some (w, e1, as')"
      using "4.prems"(2) by (auto split: option.splits)
    show ?thesis
    proof (cases e1)
      case (Some x)
      then have "out = w" "e = Some x" using w False "4.prems"(2) by auto
      then show ?thesis using write_all_prefix[OF w] cs(1) by auto
    next
      case None
      then have "w = chunk" using write_all_prefix[OF w] by simp
      moreover obtain out' where o: "write_tunnel_data_to_upstream rs as' = Some (e, out')" "out = w @ out'"
        using None w False "4.prems"(2) by (auto split: option.splits)
      moreover have "(\<exists>rest. concat cs' = out' @ rest) \<and> (e = None \<longrightarrow> out' = concat cs')"
        using "4.IH"(2)[OF _ w refl refl None cs(2)] False o(1) by simp
      ultimately show ?thesis using o(2) cs(1) by auto
    qed
  qed
qed (auto)

lemma write_tunnel_prefix:
  "channel_delivers cs rs \<Longrightarrow> write_upstream_data_to_tunnel rs as = Some (e, out) \<Longrightarrow>
     (\<exists>rest. concat cs = concat (map sp_Data out) @ rest) \<and> (e = None \<longrightarrow> concat (map sp_Data out) = concat cs)"
proof (induction rs as arbitrary: cs e out rule: write_upstream_data_to_tunnel.induct)
  case (4 chunk rs as)
  then obtain cs' where cs: "cs = chunk # cs'" "channel_delivers cs' rs"
    by (auto split: list.splits)
  show ?case
  proof (cases "chunk = []")
    case True
    then show ?thesis using "4.IH"(1)[OF _ cs(2)] "4.prems"(2) cs(1) by simp
  next
    case False
    then obtain a as' where as: "as = a # as'" using "4.prems"(2) by (cases as) auto
    show ?thesis
    proof (cases a)
      case (Some x)
      then show ?thesis using False as "4.prems"(2) cs(1) by auto
    next
      case None
      then obtain out' where o: "write_upstream_data_to_tunnel rs as' = Some (e, out')"
          "out = empty_payload\<lparr>sp_Data := chunk\<rparr> # out'"
        using False as "4.prems"(2) by (auto split: option.splits)
      then show ?thesis using "4.IH"(2)[OF _ as None cs(2) o(1)] False cs(1) by auto
    qed
  qed
qed auto

text \<open>The bytes that the tunnel, and the upstream, deliver until they end.\<close>

fun tunnel_data :: "string \<Rightarrow> ((goerr list + stream_payload) \<times> send_outcome) list \<Rightarrow> byte list" where
  "tunnel_data tid [] = []"
| "tunnel_data tid ((Inl e, oc) # as) = []"
| "tunnel_data tid ((Inr p, oc) # as) =
     (if closes_traffic tid p \<or> resets_traffic tid p then [] else sp_Data p @ tunnel_data tid as)"

fun upstream_data ::
    "stream_relay \<Rightarrow> (ctx_err option \<times> byte list \<times> goerr list option \<times> send_outcome) list \<Rightarrow> byte list" where
  "upstream_data r [] = []"
| "upstream_data r ((Some e, bs, err, oc) # as) = []"
| "upstream_data r ((None, bs, err, oc) # as) =
     take (nat (sr_maxDataFrameBytes r)) bs @ (if err = None then upstream_data r as else [])"

lemma ctx_error_not_eof [simp]: "err_eof \<noteq> ctx_error e" "ctx_error e \<noteq> err_eof"
  by (cases e; simp add: err_eof_def)+

lemma backpressure_not_eof: "err_eof \<noteq> err_relay_backpressure_timeout"
  by (simp add: err_eof_def err_relay_backpressure_timeout_def)

lemma send_error_not_eof: "send_with_backpressure r oc = Some (Some e) \<Longrightarrow> err_eof \<notin> set e"
  by (auto simp: send_with_backpressure_def backpressure_not_eof split: send_outcome.splits if_splits)

lemma read_tunnel_prefix:
  "read_tunnel_to_upstream r ct tid as = Some ro \<Longrightarrow>
     (\<exists>rest. tunnel_data tid as = concat (ro_Chunks ro) @ rest)
     \<and> (err_eof \<in> set (ro_Error ro) \<longrightarrow> concat (ro_Chunks ro) = tunnel_data tid as)"
proof (induction r ct tid as arbitrary: ro rule: read_tunnel_to_upstream.induct)
  case (3 r ct tid p oc as)
  show ?case
  proof (cases "closes_traffic tid p \<or> resets_traffic tid p")
    case True
    then show ?thesis using "3.prems" by (auto split: if_splits option.splits)
  next
    case go: False
    show ?thesis
    proof (cases "sp_Data p = []")
      case True
      then show ?thesis using "3.IH"(1) "3.prems" go by auto
    next
      case False
      show ?thesis
      proof (cases "send_with_backpressure r oc = Some None")
        case True
        then obtain ro' where "read_tunnel_to_upstream r ct tid as = Some ro'" "ro = ro'\<lparr>ro_Chunks := sp_Data p # ro_Chunks ro'\<rparr>"
          using "3.prems" go False by (auto split: option.splits)
        then show ?thesis using "3.IH"(2)[OF _ _ _ True] go False by auto
      next
        case not_sent: False
        then obtain e where e: "send_with_backpressure r oc = Some (Some e)" "ro_Error ro = e" "ro_Chunks ro = []"
          using "3.prems" go False by (auto split: option.splits)
        then show ?thesis using send_error_not_eof by auto
      qed
    qed
  qed
qed auto

lemma read_upstream_prefix:
  "read_upstream_to_tunnel r as = Some (e, cs) \<Longrightarrow>
     (\<exists>rest. upstream_data r as = concat cs @ rest) \<and> (err_eof \<in> set e \<longrightarrow> concat cs = upstream_data r as)"
proof (induction r as arbitrary: e cs rule: read_upstream_to_tunnel.induct)
  case (3 r bs err oc as)
  let ?buf = "take (nat (sr_maxDataFrameBytes r)) bs"
  define sent where "sent = (if length ?buf > 0 then send_with_backpressure r oc else Some None)"
  have run: "read_upstream_to_tunnel r ((None, bs, err, oc) # as)
      = (case sent of None \<Rightarrow> None | Some (Some e) \<Rightarrow> Some (e, [])
         | Some None \<Rightarrow>
             (case err of Some e \<Rightarrow> Some (if err_eof \<in> set e then [err_eof] else e, if length ?buf > 0 then [?buf] else [])
              | None \<Rightarrow> (case read_upstream_to_tunnel r as of None \<Rightarrow> None
                  | Some (e, cs) \<Rightarrow> Some (e, (if length ?buf > 0 then [?buf] else []) @ cs))))"
    by (simp only: read_upstream_to_tunnel.simps Let_def sent_def)
  have chunk: "concat (if length ?buf > 0 then [?buf] else []) = ?buf" by simp
  show ?case
  proof (cases "sent = Some None")
    case True
    show ?thesis
    proof (cases err)
      case (Some x)
      then have "cs = (if length ?buf > 0 then [?buf] else [])" using "3.prems" run True by auto
      then show ?thesis using chunk Some by simp
    next
      case None
      then obtain cs' where cs': "read_upstream_to_tunnel r as = Some (e, cs')"
          "cs = (if length ?buf > 0 then [?buf] else []) @ cs'"
        using "3.prems" run True by (auto split: option.splits)
      have "(\<exists>rest. upstream_data r as = concat cs' @ rest) \<and> (err_eof \<in> set e \<longrightarrow> concat cs' = upstream_data r as)"
        using "3.IH" cs'(1) None True sent_def by auto
      then show ?thesis using cs'(2) chunk None by auto
    qed
  next
    case False
    then obtain x where x: "sent = Some (Some x)" "e = x" "cs = []" using "3.prems" run by (auto split: option.splits)
    then show ?thesis using send_error_not_eof[of r oc] by (auto simp: sent_def split: if_splits)
  qed
qed (auto)


section \<open>When the relay reports success\<close>

definition relay_inv :: "worker_result set \<Rightarrow> relay_state \<Rightarrow> bool" where
  "relay_inv seen s \<longleftrightarrow> rl_Error s = None \<longrightarrow>
     (rl_ReadTunnelEOF s \<longrightarrow> (\<exists>e. (WorkerReadTunnel, Some e) \<in> seen \<and> err_eof \<in> set e))
     \<and> (rl_ReadUpstreamEOF s \<longrightarrow> (\<exists>e. (WorkerReadUpstream, Some e) \<in> seen \<and> err_eof \<in> set e))
     \<and> (rl_WriteUpstreamDone s \<longrightarrow> (WorkerWriteUpstream, None) \<in> seen \<or> rl_StopByEOF s)
     \<and> (rl_WriteTunnelDone s \<longrightarrow> (WorkerWriteTunnel, None) \<in> seen \<or> rl_StopByEOF s)
     \<and> (rl_StopByEOF s \<longrightarrow> (rl_ReadTunnelEOF s \<and> (WorkerWriteUpstream, None) \<in> seen)
          \<or> (rl_ReadUpstreamEOF s \<and> (WorkerWriteTunnel, None) \<in> seen))
     \<and> (\<forall>e. (WorkerReadTunnel, Some e) \<in> seen \<longrightarrow> rl_ReadTunnelEOF s \<or> rl_StopByEOF s)
     \<and> (\<forall>x. (WorkerWriteUpstream, x) \<in> seen \<longrightarrow> rl_WriteUpstreamDone s)"

definition writer_without_eof :: "worker_result \<Rightarrow> bool" where
  "writer_without_eof wr \<longleftrightarrow> (case snd wr of None \<Rightarrow> True
     | Some e \<Rightarrow> err_eof \<notin> set e \<or> fst wr = WorkerReadTunnel \<or> fst wr = WorkerReadUpstream)"

lemma relay_inv_start: "relay_inv {} relay_start"
  by (simp add: relay_inv_def relay_start_def)

lemma relay_round_keeps_error: "rl_Error s \<noteq> None \<Longrightarrow> rl_Error (relay_round wr s) \<noteq> None"
  by (auto simp: relay_round_def stop_by_eof_def Let_def split: option.splits relay_worker.splits)

lemma relay_round_nil:
  assumes "relay_inv seen s" and "rl_Error s = None"
  shows "relay_inv (insert (w, None) seen) (relay_round (w, None) s)"
  using assms by (cases w) (auto simp: relay_inv_def relay_round_def stop_by_eof_def Let_def)

lemma relay_inv_failed: "rl_Error s \<noteq> None \<Longrightarrow> relay_inv seen s"
  by (simp add: relay_inv_def del: not_None_eq)

lemma relay_round_fails:
  "rl_Error s = None \<Longrightarrow> err_eof \<notin> set e \<Longrightarrow> \<not> (rl_StopByEOF s \<and> is_cancel e) \<Longrightarrow>
     rl_Error (relay_round (w, Some e) s) \<noteq> None"
  by (cases w) (auto simp: relay_round_def Let_def)

lemma relay_round_suppresses:
  "rl_Error s = None \<Longrightarrow> err_eof \<notin> set e \<Longrightarrow> rl_StopByEOF s \<Longrightarrow> is_cancel e \<Longrightarrow>
     relay_round (w, Some e) s =
       (case w of WorkerWriteUpstream \<Rightarrow> s\<lparr>rl_WriteUpstreamDone := True\<rparr>
        | WorkerWriteTunnel \<Rightarrow> s\<lparr>rl_WriteTunnelDone := True\<rparr> | _ \<Rightarrow> s)"
  by (cases w) (simp_all add: relay_round_def Let_def)

lemma relay_round_suppressed_inv:
  assumes "relay_inv seen s" and "rl_Error s = None" and "rl_StopByEOF s"
  shows "relay_inv (insert (w, Some e) seen)
       (case w of WorkerWriteUpstream \<Rightarrow> s\<lparr>rl_WriteUpstreamDone := True\<rparr>
        | WorkerWriteTunnel \<Rightarrow> s\<lparr>rl_WriteTunnelDone := True\<rparr> | _ \<Rightarrow> s)"
  using assms by (cases w) (simp_all add: relay_inv_def, blast+)

lemma relay_round_eof_inv:
  assumes "relay_inv seen s" and "rl_Error s = None" and "err_eof \<in> set e"
    and "w = WorkerReadTunnel \<or> w = WorkerReadUpstream"
  shows "relay_inv (insert (w, Some e) seen) (relay_round (w, Some e) s)"
proof (cases "w = WorkerReadTunnel")
  case True
  then have "relay_round (w, Some e) s =
      (if rl_WriteUpstreamDone s then stop_by_eof (s\<lparr>rl_ReadTunnelEOF := True\<rparr>) else s\<lparr>rl_ReadTunnelEOF := True\<rparr>)"
    using assms(2,3) by (simp add: relay_round_def Let_def)
  then show ?thesis
    using assms(1,2,3) True by (cases "rl_WriteUpstreamDone s") (simp_all add: relay_inv_def stop_by_eof_def, blast+)
next
  case False
  then have "relay_round (w, Some e) s =
      (if rl_WriteTunnelDone s then stop_by_eof (s\<lparr>rl_ReadUpstreamEOF := True\<rparr>) else s\<lparr>rl_ReadUpstreamEOF := True\<rparr>)"
    using assms(2,3,4) by (simp add: relay_round_def Let_def)
  then show ?thesis
    using assms(1,2,3,4) False by (cases "rl_WriteTunnelDone s") (simp_all add: relay_inv_def stop_by_eof_def, blast+)
qed

lemma relay_round_error:
  assumes "relay_inv seen s" and "rl_Error s = None" and "writer_without_eof (w, Some e)"
  shows "relay_inv (insert (w, Some e) seen) (relay_round (w, Some e) s)"
proof (cases "err_eof \<in> set e")
  case True
  then show ?thesis using relay_round_eof_inv[OF assms(1,2) True] assms(3) by (auto simp: writer_without_eof_def)
next
  case no_eof: False
  show ?thesis
  proof (cases "rl_StopByEOF s \<and> is_cancel e")
    case True
    then show ?thesis
      using relay_round_suppressed_inv[OF assms(1,2)] relay_round_suppresses[OF assms(2) no_eof] by simp
  next
    case False
    then show ?thesis using relay_inv_failed relay_round_fails[OF assms(2) no_eof] by blast
  qed
qed

lemma relay_inv_run:
  "list_all writer_without_eof rs \<Longrightarrow> relay_inv (set rs) (fold relay_round rs relay_start)"
proof (induction rs rule: rev_induct)
  case Nil
  then show ?case by (simp add: relay_inv_start)
next
  case (snoc wr rs)
  let ?s = "fold relay_round rs relay_start"
  obtain w x where wr: "wr = (w, x)" by (cases wr)
  show ?case
  proof (cases "rl_Error ?s = None")
    case True
    then show ?thesis
      using snoc wr relay_round_nil[of "set rs" ?s w] relay_round_error[of "set rs" ?s w] by (cases x) auto
  next
    case False
    then have "relay_inv (set (rs @ [wr])) (relay_round wr ?s)"
      by (intro relay_inv_failed relay_round_keeps_error)
    then show ?thesis by simp
  qed
qed

lemma relay_success:
  assumes "list_all writer_without_eof rs" and "relay False tid rs = None"
    and "(WorkerReadTunnel, Some e) \<in> set rs" and "(WorkerWriteUpstream, x) \<in> set rs"
  obtains (down) e' where "(WorkerReadTunnel, Some e') \<in> set rs" and "err_eof \<in> set e'"
      and "(WorkerWriteUpstream, None) \<in> set rs"
  | (up) e' where "(WorkerReadUpstream, Some e') \<in> set rs" and "err_eof \<in> set e'"
      and "(WorkerWriteTunnel, None) \<in> set rs"
proof -
  let ?s = "fold relay_round rs relay_start"
  have "rl_Error ?s = None" using assms(2) by (auto simp: relay_def relay_verdict_def split: if_splits)
  then show thesis
    using relay_inv_run[OF assms(1)] assms(3,4) down up unfolding relay_inv_def by blast
qed

text \<open>C3. The relay carries bytes in order and loses none silently: once the four workers have ended,
  whatever the answers of the tunnel, the upstream, the channels and the context, and whatever the
  relay then reports, what was written to each side is a prefix of what the other side delivered;
  and when the relay reports success and no writer ended with \<open>io.EOF\<close>, one of the two directions
  is complete.\<close>

theorem relay_carries_bytes:
  assumes workers: "read_tunnel_to_upstream r ct (trim_space tid) tunnel_answers = Some ro"
      "write_tunnel_data_to_upstream recvs upstream_writes = Some (wu, to_upstream)"
      "read_upstream_to_tunnel r upstream_answers = Some (ru, cs)"
      "write_upstream_data_to_tunnel recvs' tunnel_writes = Some (wt, to_tunnel)"
    and channels: "channel_delivers (ro_Chunks ro) recvs" "channel_delivers cs recvs'"
    and results: "set rs = {(WorkerReadTunnel, Some (ro_Error ro)), (WorkerWriteUpstream, wu),
                             (WorkerReadUpstream, Some ru), (WorkerWriteTunnel, wt)}"
  shows "(\<exists>rest. tunnel_data (trim_space tid) tunnel_answers = to_upstream @ rest)
    \<and> (\<exists>rest. upstream_data r upstream_answers = concat (map sp_Data to_tunnel) @ rest)
    \<and> (relay False tid rs = None \<and> list_all writer_without_eof rs \<longrightarrow>
         to_upstream = tunnel_data (trim_space tid) tunnel_answers
         \<or> concat (map sp_Data to_tunnel) = upstream_data r upstream_answers)"
proof -
  note a = read_tunnel_prefix[OF workers(1)] and b = write_upstream_prefix[OF channels(1) workers(2)]
    and c = read_upstream_prefix[OF workers(3)] and d = write_tunnel_prefix[OF channels(2) workers(4)]
  have "(WorkerReadTunnel, Some (ro_Error ro)) \<in> set rs" "(WorkerWriteUpstream, wu) \<in> set rs"
    using results by simp_all
  then have "to_upstream = tunnel_data (trim_space tid) tunnel_answers
       \<or> concat (map sp_Data to_tunnel) = upstream_data r upstream_answers"
    if success: "relay False tid rs = None" and no_eof: "list_all writer_without_eof rs"
    by (cases rule: relay_success[OF no_eof success]) (use a b c d results in auto)
  moreover have "\<exists>rest. tunnel_data (trim_space tid) tunnel_answers = to_upstream @ rest"
    using a b by (metis append_assoc)
  moreover have "\<exists>rest. upstream_data r upstream_answers = concat (map sp_Data to_tunnel) @ rest"
    using c d by (metis append_assoc)
  ultimately show ?thesis by blast
qed

text \<open>
  Without the hypothesis on the writers the last part fails: an \<open>io.EOF\<close> that a write to the
  tunnel returns is taken for the end of a reader, the relay goes on, and reports success when the
  upstream ends, though what the upstream said after the failed write is lost.
\<close>

lemma writer_eof_passes_for_success:
  assumes "trim_space tid \<noteq> []"
  shows "relay False tid [(WorkerWriteTunnel, Some [err_eof]), (WorkerReadUpstream, Some [err_eof]),
      (WorkerReadTunnel, Some [Canceled]), (WorkerWriteUpstream, Some [Canceled])] = None"
  using assms
  by (simp add: relay_def relay_verdict_def relay_start_def relay_round_def stop_by_eof_def is_cancel_def
      err_eof_def)

definition sample_relay :: stream_relay where
  "sample_relay = \<lparr>sr_bufferFrames = 2, sr_maxDataFrameBytes = 4, sr_backpressureTimeout = second\<rparr>"

definition sample_acks :: close_ack_tunnel where
  "sample_acks = \<lparr>ct_Tracks = False, ct_FirstMark = False, ct_Observes = True, ct_AckWrite = None\<rparr>"

definition sample_tunnel_answers :: "((goerr list + stream_payload) \<times> send_outcome) list" where
  "sample_tunnel_answers = [(Inr (empty_payload\<lparr>sp_Data := [1, 2]\<rparr>), Sent),
     (Inr (empty_payload\<lparr>sp_Close := Some \<lparr>tc_TrafficID = ''t'', tc_Reason = []\<rparr>\<rparr>), Sent)]"

lemma trim_relay_t: "trim_space ''t'' = ''t''"
  by (rule trim_space_graphic; simp add: graphic_def)

definition sample_results :: "worker_result list" where
  "sample_results = [(WorkerReadTunnel, Some [err_eof]), (WorkerWriteUpstream, None),
     (WorkerReadUpstream, Some [Canceled]), (WorkerWriteTunnel, Some [Canceled])]"

lemma sample_relay_succeeds: "relay False ''t'' sample_results = None" "list_all writer_without_eof sample_results"
  by (simp_all add: sample_results_def writer_without_eof_def relay_def relay_verdict_def relay_start_def relay_round_def
      stop_by_eof_def is_cancel_def err_eof_def trim_relay_t)

text \<open>
  The tunnel delivers two bytes and closes, the upstream's last byte is not written: the relay succeeds, and
  the direction to the upstream is the complete one.
\<close>

theorem relay_carries_bytes_witness:
  "relay False ''t'' sample_results = None
    \<and> tunnel_data ''t'' sample_tunnel_answers = [1, 2]
    \<and> (\<exists>rest. upstream_data sample_relay [(None, [7, 8, 9], None, Sent), (None, [6], None, Sent), (Some CtxCanceled, [], None, Sent)]
         = [7, 8, 9] @ rest)"
proof -
  let ?ups = "[(None, [7, 8, 9], None, Sent), (None, [6], None, Sent), (Some CtxCanceled, [], None, Sent)]"
  let ?data = "[empty_payload\<lparr>sp_Data := [7, 8, 9]\<rparr>]"
  have "(\<exists>rest. tunnel_data (trim_space ''t'') sample_tunnel_answers = [1, 2] @ rest)
    \<and> (\<exists>rest. upstream_data sample_relay ?ups = concat (map sp_Data ?data) @ rest)
    \<and> (relay False ''t'' sample_results = None \<and> list_all writer_without_eof sample_results \<longrightarrow>
         [1, 2] = tunnel_data (trim_space ''t'') sample_tunnel_answers
         \<or> concat (map sp_Data ?data) = upstream_data sample_relay ?ups)"
    by (rule relay_carries_bytes[where ct = sample_acks and recvs = "[RecvChunk [1, 2], RecvClosed]"
        and upstream_writes = "[(None, 1, None), (None, 1, None)]" and recvs' = "[RecvChunk [7, 8, 9], RecvDone CtxCanceled]"
        and tunnel_writes = "[None]" and wu = None and ru = "[Canceled]" and cs = "[[7, 8, 9], [6]]" and wt = "Some [Canceled]"
        and ro = "\<lparr>ro_Error = [err_eof], ro_Chunks = [[1, 2]], ro_Acks = [close_ack_frame ''t''], ro_Observed = True\<rparr>"])
      (auto simp: sample_results_def sample_tunnel_answers_def sample_relay_def sample_acks_def trim_relay_t closes_traffic_def
        resets_traffic_def empty_payload_def send_with_backpressure_def should_write_close_ack_once_def
        is_cancel_def err_eof_def close_ack_frame_def)
  moreover have "concat (map sp_Data ?data) \<noteq> upstream_data sample_relay ?ups" by (simp add: sample_relay_def empty_payload_def)
  ultimately show ?thesis using sample_relay_succeeds by (simp add: trim_relay_t empty_payload_def)
qed

end
