(* ===== verification/Runtime_Registry.thy ===== *)
theory Runtime_Registry
  imports Resources "HOL-Library.Word"
begin

text \<open>
  The records of running traffics (\<open>ltfp/registry/runtime.go\<close>): state, bytes, failures and audit
  data of each, written by events in any order. A record comes into being with the first event
  that names it. The instants of a write are arguments: the one that \<open>CreatedAt\<close> gets when it is
  still zero, and the one for \<open>UpdatedAt\<close>.
\<close>

record pb_traffic =
  tk_id :: string
  tk_route :: string
  tk_target :: route_target_type
  tk_service :: string
  tk_instance :: string
  tk_connector :: string
  tk_source :: string
  tk_addr :: string
  tk_trace :: string
  tk_request_scope :: scope
  tk_matched_scope :: scope
  tk_fallback_path :: "scope list"
  tk_state :: string
  tk_started :: gotime
  tk_metadata :: labels

record runtime_audit =
  ra_created :: gotime
  ra_updated :: gotime
  ra_event :: string

record runtime_traffic =
  rt_traffic :: pb_traffic
  rt_upstream :: "64 word"
  rt_downstream :: "64 word"
  rt_error :: string
  rt_reject :: string
  rt_path :: route_target_type
  rt_fallback :: string
  rt_audit :: runtime_audit

type_synonym runtime_registry = "(string, runtime_traffic) gomap"

text \<open>The zero values of Go.\<close>

definition zero_traffic :: pb_traffic where
  "zero_traffic = \<lparr>tk_id = [], tk_route = [], tk_target = RouteTargetTypeOther [], tk_service = [], tk_instance = [],
     tk_connector = [], tk_source = [], tk_addr = [], tk_trace = [], tk_request_scope = no_scope,
     tk_matched_scope = no_scope, tk_fallback_path = [], tk_state = [], tk_started = zero_time, tk_metadata = []\<rparr>"

definition zero_runtime_traffic :: runtime_traffic where
  "zero_runtime_traffic = \<lparr>rt_traffic = zero_traffic, rt_upstream = 0, rt_downstream = 0, rt_error = [],
     rt_reject = [], rt_path = RouteTargetTypeOther [], rt_fallback = [],
     rt_audit = \<lparr>ra_created = zero_time, ra_updated = zero_time, ra_event = []\<rparr>\<rparr>"

definition current_traffic :: "string \<Rightarrow> runtime_registry \<Rightarrow> runtime_traffic" where
  "current_traffic i reg = (case map_of reg i of None \<Rightarrow> zero_runtime_traffic | Some t \<Rightarrow> t)"

text \<open>The audit update that every event makes; \<open>RecordRejectReason\<close> leaves the event alone.\<close>

definition touch_created :: "gotime \<Rightarrow> gotime \<Rightarrow> runtime_audit \<Rightarrow> runtime_audit" where
  "touch_created created now a =
     (let a1 = (if is_zero (ra_created a) then a\<lparr>ra_created := created\<rparr> else a) in a1\<lparr>ra_updated := now\<rparr>)"

definition touch_runtime_audit :: "gotime \<Rightarrow> gotime \<Rightarrow> string \<Rightarrow> runtime_audit \<Rightarrow> runtime_audit" where
  "touch_runtime_audit created now ev a = (touch_created created now a)\<lparr>ra_event := trim_space ev\<rparr>"

definition upsert_traffic ::
    "gotime \<Rightarrow> gotime \<Rightarrow> pb_traffic \<Rightarrow> route_target_type \<Rightarrow> string \<Rightarrow> runtime_registry \<Rightarrow> runtime_registry" where
  "upsert_traffic created now t path ev reg =
     (let i = trim_space (tk_id t); cur = current_traffic i reg
      in map_put i (cur\<lparr>rt_traffic := t, rt_path := path,
                        rt_audit := touch_runtime_audit created now ev (rt_audit cur)\<rparr>) reg)"

definition update_traffic_state ::
    "gotime \<Rightarrow> gotime \<Rightarrow> string \<Rightarrow> string \<Rightarrow> string \<Rightarrow> runtime_registry \<Rightarrow> runtime_registry" where
  "update_traffic_state created now tid st ev reg =
     (let i = trim_space tid; cur = current_traffic i reg
      in map_put i (cur\<lparr>rt_traffic := (rt_traffic cur)\<lparr>tk_state := st\<rparr>,
                        rt_audit := touch_runtime_audit created now ev (rt_audit cur)\<rparr>) reg)"

definition record_bytes ::
    "gotime \<Rightarrow> gotime \<Rightarrow> string \<Rightarrow> 64 word \<Rightarrow> 64 word \<Rightarrow> string \<Rightarrow> runtime_registry \<Rightarrow> runtime_registry" where
  "record_bytes created now tid up down ev reg =
     (let i = trim_space tid; cur = current_traffic i reg
      in map_put i (cur\<lparr>rt_upstream := rt_upstream cur + up, rt_downstream := rt_downstream cur + down,
                        rt_audit := touch_runtime_audit created now ev (rt_audit cur)\<rparr>) reg)"

definition record_failure ::
    "gotime \<Rightarrow> gotime \<Rightarrow> string \<Rightarrow> string \<Rightarrow> string \<Rightarrow> string \<Rightarrow> runtime_registry \<Rightarrow> runtime_registry" where
  "record_failure created now tid code reason ev reg =
     (let i = trim_space tid; cur = current_traffic i reg
      in map_put i (cur\<lparr>rt_error := trim_space code, rt_fallback := trim_space reason,
                        rt_audit := touch_runtime_audit created now ev (rt_audit cur)\<rparr>) reg)"

definition record_reject_reason ::
    "gotime \<Rightarrow> gotime \<Rightarrow> string \<Rightarrow> string \<Rightarrow> runtime_registry \<Rightarrow> runtime_registry" where
  "record_reject_reason created now tid reason reg =
     (let i = trim_space tid; cur = current_traffic i reg
      in map_put i (cur\<lparr>rt_reject := trim_space reason, rt_audit := touch_created created now (rt_audit cur)\<rparr>) reg)"

definition get_traffic :: "string \<Rightarrow> runtime_registry \<Rightarrow> runtime_traffic option" where
  "get_traffic tid reg = map_of reg (trim_space tid)"

definition list_traffics :: "runtime_registry \<Rightarrow> runtime_traffic list" where
  "list_traffics reg = map snd reg"

definition list_traffics_by_path :: "route_target_type \<Rightarrow> runtime_registry \<Rightarrow> runtime_traffic list" where
  "list_traffics_by_path path reg = filter (\<lambda>t. rt_path t = path) (map snd reg)"

record runtime_snapshot =
  rs_traffics :: "runtime_traffic list"
  rs_generated :: gotime

definition runtime_snapshot_of :: "gotime \<Rightarrow> runtime_registry \<Rightarrow> runtime_snapshot" where
  "runtime_snapshot_of now reg = \<lparr>rs_traffics = map snd reg, rs_generated = now\<rparr>"

definition build_trace_key :: "string \<Rightarrow> string \<Rightarrow> string" where
  "build_trace_key trace tid =
     (if trim_space trace = [] then ''trace:traffic:'' @ trim_space tid else ''trace:id:'' @ trim_space trace)"


section \<open>Counters and audit data\<close>

datatype traffic_event =
    EventUpsert pb_traffic route_target_type string
  | EventState string string string
  | EventBytes string "64 word" "64 word" string
  | EventFailure string string string string
  | EventReject string string

fun event_traffic :: "traffic_event \<Rightarrow> string" where
  "event_traffic (EventUpsert t path ev) = trim_space (tk_id t)"
| "event_traffic (EventState tid st ev) = trim_space tid"
| "event_traffic (EventBytes tid up down ev) = trim_space tid"
| "event_traffic (EventFailure tid code reason ev) = trim_space tid"
| "event_traffic (EventReject tid reason) = trim_space tid"

fun event_upstream :: "traffic_event \<Rightarrow> 64 word" where
  "event_upstream (EventBytes tid up down ev) = up"
| "event_upstream _ = 0"

fun event_downstream :: "traffic_event \<Rightarrow> 64 word" where
  "event_downstream (EventBytes tid up down ev) = down"
| "event_downstream _ = 0"

fun traffic_apply :: "(gotime \<times> gotime) \<times> traffic_event \<Rightarrow> runtime_registry \<Rightarrow> runtime_registry" where
  "traffic_apply ((created, now), EventUpsert t path ev) reg = upsert_traffic created now t path ev reg"
| "traffic_apply ((created, now), EventState tid st ev) reg = update_traffic_state created now tid st ev reg"
| "traffic_apply ((created, now), EventBytes tid up down ev) reg = record_bytes created now tid up down ev reg"
| "traffic_apply ((created, now), EventFailure tid code reason ev) reg =
     record_failure created now tid code reason ev reg"
| "traffic_apply ((created, now), EventReject tid reason) reg = record_reject_reason created now tid reason reg"

lemma traffic_apply_counters:
  "rt_upstream (current_traffic i (traffic_apply (w, e) reg))
     = rt_upstream (current_traffic i reg) + (if event_traffic e = i then event_upstream e else 0)"
  "rt_downstream (current_traffic i (traffic_apply (w, e) reg))
     = rt_downstream (current_traffic i reg) + (if event_traffic e = i then event_downstream e else 0)"
  by (cases w; cases e; simp add: upsert_traffic_def update_traffic_state_def record_bytes_def record_failure_def
      record_reject_reason_def current_traffic_def Let_def)+

lemma traffic_apply_known: "map_of (traffic_apply (w, e) reg) i \<noteq> None
    \<longleftrightarrow> event_traffic e = i \<or> map_of reg i \<noteq> None"
  by (cases w; cases e; simp add: upsert_traffic_def update_traffic_state_def record_bytes_def record_failure_def
      record_reject_reason_def Let_def)

lemma traffic_run:
  "rt_upstream (current_traffic i (fold traffic_apply es reg))
     = rt_upstream (current_traffic i reg) + (\<Sum>(w, e)\<leftarrow>es. if event_traffic e = i then event_upstream e else 0)"
  "rt_downstream (current_traffic i (fold traffic_apply es reg))
     = rt_downstream (current_traffic i reg) + (\<Sum>(w, e)\<leftarrow>es. if event_traffic e = i then event_downstream e else 0)"
  "map_of (fold traffic_apply es reg) i \<noteq> None \<longleftrightarrow> (\<exists>x\<in>set es. event_traffic (snd x) = i) \<or> map_of reg i \<noteq> None"
proof (induction es arbitrary: reg)
  case (Cons x es)
  obtain w e where x: "x = (w, e)" by (cases x)
  { case 1
    show ?case using Cons.IH(1)[of "traffic_apply x reg"] by (simp add: x traffic_apply_counters add.assoc)
  next
    case 2
    show ?case using Cons.IH(2)[of "traffic_apply x reg"] by (simp add: x traffic_apply_counters add.assoc)
  next
    case 3
    show ?case using Cons.IH(3)[of "traffic_apply x reg"] traffic_apply_known[of w e reg i]
      by (simp add: x disj_assoc del: not_None_eq) blast
  }
qed simp_all

text \<open>No order of events loses bytes: a traffic is known exactly when some event named it, and its
  counters are the sums of the deltas recorded for it (modulo \<open>2 ^ 64\<close>), whatever upserts, state
  changes and failures came before, between and after, and whatever happened to other traffics.\<close>

theorem byte_counters_are_sums:
  "(get_traffic tid (fold traffic_apply es []) \<noteq> None) = list_ex (\<lambda>x. event_traffic (snd x) = trim_space tid) es
   \<and> rt_upstream (current_traffic (trim_space tid) (fold traffic_apply es []))
       = (\<Sum>(w, e)\<leftarrow>es. if event_traffic e = trim_space tid then event_upstream e else 0)
   \<and> rt_downstream (current_traffic (trim_space tid) (fold traffic_apply es []))
       = (\<Sum>(w, e)\<leftarrow>es. if event_traffic e = trim_space tid then event_downstream e else 0)"
proof -
  have "current_traffic (trim_space tid) [] = zero_runtime_traffic" by (simp add: current_traffic_def)
  then show ?thesis
    using traffic_run[where i = "trim_space tid" and es = es and reg = "[]"] by (simp add: get_traffic_def zero_runtime_traffic_def list_ex_iff)
qed

end
