(* ===== verification/Negotiation.thy ===== *)
theory Negotiation
  imports Protocol_Types "HOL-Library.List_Lexorder" "HOL-Library.Char_ord"
begin

text \<open>
  The negotiation of versions and features (\<open>ltfp/negotiation/negotiation.go, profile_adapter.go\<close>).
  A set of features is a list without repetition, in the order of the iteration; the result is
  sorted, so that the order has no influence on it. \<open>strings.ToLower\<close> is the parameter \<open>lower\<close>:
  nothing here depends on what it does to a letter.
\<close>

section \<open>Feature lists\<close>

type_synonym lowering = "string \<Rightarrow> string"

definition normalize_feature :: "lowering \<Rightarrow> string \<Rightarrow> string" where
  "normalize_feature lower f = trim_space (lower f)"

definition normalize_feature_list :: "lowering \<Rightarrow> string list \<Rightarrow> string list" where
  "normalize_feature_list lower fs = sort (remdups (filter (\<lambda>f. f \<noteq> []) (map (normalize_feature lower) fs)))"

definition make_feature_set :: "lowering \<Rightarrow> string list \<Rightarrow> string list" where
  "make_feature_set lower fs = normalize_feature_list lower fs"

definition intersect_feature_set :: "string list \<Rightarrow> string list \<Rightarrow> string list" where
  "intersect_feature_set left right = filter (\<lambda>f. f \<in> set right) left"

definition has_feature :: "lowering \<Rightarrow> string list \<Rightarrow> string \<Rightarrow> bool" where
  "has_feature lower fs target \<longleftrightarrow>
     (if normalize_feature lower target = [] then False
      else list_ex (\<lambda>f. normalize_feature lower f = normalize_feature lower target) fs)"


section \<open>Negotiation\<close>

record profile =
  pr_major :: "32 word"
  pr_minor :: "32 word"
  pr_required :: "string list"
  pr_optional :: "string list"

record negotiation =
  ng_accepted :: bool
  ng_features :: "string list"
  ng_missing :: "string list"

definition no_negotiation :: negotiation where
  "no_negotiation = \<lparr>ng_accepted = False, ng_features = [], ng_missing = []\<rparr>"

definition code_negotiation_invalid_profile :: string where
  "code_negotiation_invalid_profile = ''NEGOTIATION_INVALID_PROFILE''"
definition code_negotiation_unsupported_feature :: string where
  "code_negotiation_unsupported_feature = ''NEGOTIATION_UNSUPPORTED_FEATURE''"

text \<open>\<open>strings.Join\<close>.\<close>

fun join_features :: "string \<Rightarrow> string list \<Rightarrow> string" where
  "join_features sep [] = []"
| "join_features sep [s] = s"
| "join_features sep (s # t # ss) = s @ sep @ join_features sep (t # ss)"

definition evaluate_negotiation :: "lowering \<Rightarrow> profile \<Rightarrow> profile \<Rightarrow> negotiation \<times> chain_err option" where
  "evaluate_negotiation lower here there =
     (if pr_major here = 0 \<or> pr_major there = 0
      then (no_negotiation, Some (new_error code_negotiation_invalid_profile ''version major must be greater than 0''))
      else if pr_major here \<noteq> pr_major there
      then (no_negotiation, Some (new_error code_negotiation_unsupported_version ''version major mismatch''))
      else
        (let supported_here = make_feature_set lower (pr_required here @ pr_optional here);
             supported_there = make_feature_set lower (pr_required there @ pr_optional there);
             missing = filter (\<lambda>f. f \<notin> set supported_here) (normalize_feature_list lower (pr_required there))
         in if missing \<noteq> []
            then (\<lparr>ng_accepted = False, ng_features = [], ng_missing = missing\<rparr>,
                  Some (new_error code_negotiation_unsupported_feature
                          (''missing required features: '' @ join_features '','' missing)))
            else (\<lparr>ng_accepted = True, ng_features = sort (intersect_feature_set supported_here supported_there),
                    ng_missing = []\<rparr>, None)))"

record pb_negotiation_result =
  nr_accepted :: bool
  nr_features :: "string list"
  nr_missing :: "string list"
  nr_code :: string
  nr_message :: string

definition evaluate_profiles :: "lowering \<Rightarrow> profile \<Rightarrow> profile \<Rightarrow> pb_negotiation_result \<times> chain_err option" where
  "evaluate_profiles lower here there =
     (let (r, err) = evaluate_negotiation lower here there
      in case err of
           Some e \<Rightarrow> (\<lparr>nr_accepted = False, nr_features = [], nr_missing = ng_missing r,
                        nr_code = (case as_protocol_error e of None \<Rightarrow> [] | Some (c, m) \<Rightarrow> c),
                        nr_message = error_text e\<rparr>, Some e)
         | None \<Rightarrow> (\<lparr>nr_accepted = ng_accepted r, nr_features = ng_features r, nr_missing = ng_missing r,
                      nr_code = [], nr_message = []\<rparr>, None))"


section \<open>What is agreed\<close>

lemma set_normalized [simp]: "set (normalize_feature_list lower fs) = normalize_feature lower ` set fs - {[]}"
  by (auto simp: normalize_feature_list_def)

lemma has_feature_iff: "has_feature lower fs f \<longleftrightarrow> normalize_feature lower f \<in> set (normalize_feature_list lower fs)"
  by (auto simp: has_feature_def list_ex_iff image_iff) (metis)

lemma normalized_sorted [simp]: "sorted (normalize_feature_list lower fs)" "distinct (normalize_feature_list lower fs)"
  by (simp_all add: normalize_feature_list_def)

lemma intersect_commute:
  "sort (intersect_feature_set (make_feature_set lower xs) (make_feature_set lower ys))
     = sort (intersect_feature_set (make_feature_set lower ys) (make_feature_set lower xs))"
  by (rule sorted_distinct_set_unique) (auto simp: intersect_feature_set_def make_feature_set_def)

lemma evaluate_same_major:
  assumes "pr_major here = pr_major there" and "pr_major here \<noteq> 0"
  shows "ng_accepted (fst (evaluate_negotiation lower here there))
      = list_all (\<lambda>f. normalize_feature lower f = [] \<or> has_feature lower (pr_required here @ pr_optional here) f)
          (pr_required there)"
    and "snd (evaluate_negotiation lower here there) = None \<longleftrightarrow> ng_accepted (fst (evaluate_negotiation lower here there))"
    and "ng_features (fst (evaluate_negotiation lower here there))
      = (if ng_accepted (fst (evaluate_negotiation lower here there))
         then sort (intersect_feature_set (make_feature_set lower (pr_required here @ pr_optional here))
                (make_feature_set lower (pr_required there @ pr_optional there))) else [])"
  using assms
  by (auto simp: evaluate_negotiation_def Let_def filter_empty_conv list_all_iff has_feature_iff make_feature_set_def)

text \<open>Two ends of the same major version agree exactly when the local one supports every feature that
  the remote one requires, up to case and surrounding space; what they agree on is then sorted,
  without repetition, and consists of the features both support; and when each accepts the other,
  both compute the same list.\<close>

theorem negotiation_agrees:
  assumes "pr_major here = pr_major there" and "pr_major here \<noteq> 0"
  shows "ng_accepted (fst (evaluate_negotiation lower here there))
      = list_all (\<lambda>f. normalize_feature lower f = [] \<or> has_feature lower (pr_required here @ pr_optional here) f)
          (pr_required there)
    \<and> (snd (evaluate_negotiation lower here there) = None) = ng_accepted (fst (evaluate_negotiation lower here there))
    \<and> sorted (ng_features (fst (evaluate_negotiation lower here there)))
    \<and> distinct (ng_features (fst (evaluate_negotiation lower here there)))
    \<and> set (ng_features (fst (evaluate_negotiation lower here there)))
        = (if ng_accepted (fst (evaluate_negotiation lower here there))
           then {g. g \<noteq> [] \<and> g \<in> normalize_feature lower ` set (pr_required here @ pr_optional here)
                    \<and> g \<in> normalize_feature lower ` set (pr_required there @ pr_optional there)} else {})
    \<and> (if ng_accepted (fst (evaluate_negotiation lower here there))
          \<and> ng_accepted (fst (evaluate_negotiation lower there here))
       then ng_features (fst (evaluate_negotiation lower here there)) = ng_features (fst (evaluate_negotiation lower there here))
       else True)"
  using assms
  by (simp add: evaluate_same_major intersect_commute[of lower "pr_required here @ pr_optional here"])
    (auto simp: intersect_feature_set_def make_feature_set_def)

definition sample_profile :: "string list \<Rightarrow> string list \<Rightarrow> profile" where
  "sample_profile req opt = \<lparr>pr_major = 1, pr_minor = 0, pr_required = req, pr_optional = opt\<rparr>"

theorem negotiation_agrees_witness:
  "ng_accepted (fst (evaluate_negotiation to_lower (sample_profile [''a''] [''b'']) (sample_profile [''A''] [])))
      = list_all (\<lambda>f. normalize_feature to_lower f = [] \<or> has_feature to_lower
            (pr_required (sample_profile [''a''] [''b'']) @ pr_optional (sample_profile [''a''] [''b''])) f)
          (pr_required (sample_profile [''A''] []))"
  using negotiation_agrees[of "sample_profile [''a''] [''b'']" "sample_profile [''A''] []" to_lower]
  by (simp add: sample_profile_def)

end
