(* ===== verification/Canonical_Registry.thy ===== *)
theory Canonical_Registry
  imports Resources Protocol_Session
begin

text \<open>
  The registries of the protocol library (\<open>ltfp/registry/canonical.go, runtime.go\<close>): configuration
  objects with secondary indexes and audit data, and the records of running traffics with their
  byte counters. Every operation is one section under the registry's mutex; the instant of a
  write is an argument.
\<close>

section \<open>Resources\<close>

record pb_connector =
  pc_id :: string
  pc_namespace :: string
  pc_environment :: string
  pc_node :: string
  pc_display :: string
  pc_version :: string
  pc_labels :: labels
  pc_capabilities :: "string list"
  pc_status :: string
  pc_metadata :: labels

record pb_session =
  ps_id :: string
  ps_connector :: string
  ps_epoch :: "64 word"
  ps_binding :: string
  ps_state :: pb_session_state
  ps_authenticated :: bool
  ps_created :: gotime
  ps_last_seen :: gotime
  ps_remote :: string
  ps_heartbeat :: gotime
  ps_metadata :: labels

record discovery_projection =
  pj_id :: string
  pj_service :: string
  pj_instance :: string
  pj_provider :: string
  pj_namespace :: string
  pj_environment :: string
  pj_addr :: string
  pj_status :: string
  pj_metadata :: labels

record audit_info =
  au_created :: gotime
  au_updated :: gotime
  au_event :: string
  au_version :: "64 word"


section \<open>Secondary indexes\<close>

text \<open>A \<open>map[string]map[string]struct{}\<close>: the values under a key as a list without repetition.\<close>

type_synonym index = "(string, string list) gomap"

definition bucket :: "index \<Rightarrow> string \<Rightarrow> string list" where
  "bucket idx k = (case map_of idx k of None \<Rightarrow> [] | Some vs \<Rightarrow> vs)"

definition canonical_add_index :: "string \<Rightarrow> string \<Rightarrow> index \<Rightarrow> index" where
  "canonical_add_index key val idx =
     (let k = trim_space key; v = trim_space val
      in if k = [] \<or> v = [] then idx
         else map_put k (if v \<in> set (bucket idx k) then bucket idx k else bucket idx k @ [v]) idx)"

definition canonical_remove_index :: "string \<Rightarrow> string \<Rightarrow> index \<Rightarrow> index" where
  "canonical_remove_index key val idx =
     (let k = trim_space key
      in if k = [] then idx
         else case map_of idx k of
             None \<Rightarrow> idx
           | Some vs \<Rightarrow>
               (let v = trim_space val
                in if v = [] then map_del k idx
                   else (let vs' = filter (\<lambda>x. x \<noteq> v) vs
                         in if vs' = [] then map_del k idx else map_put k vs' idx)))"

text \<open>
  What every upsert does with an index: \<open>old\<close> is the key of the object it replaces, \<open>k\<close> that of
  the new one.
\<close>

definition move_index :: "string option \<Rightarrow> string \<Rightarrow> string \<Rightarrow> index \<Rightarrow> index" where
  "move_index old k i idx =
     canonical_add_index k i (case old of None \<Rightarrow> idx
                    | Some ok \<Rightarrow> if ok \<noteq> [] \<and> ok \<noteq> k then canonical_remove_index ok i idx else idx)"

definition move_route_index :: "string option \<Rightarrow> string \<Rightarrow> string \<Rightarrow> index \<Rightarrow> index" where
  "move_route_index old k i idx =
     (let idx1 = (case old of None \<Rightarrow> idx | Some ok \<Rightarrow> if ok \<noteq> [] then canonical_remove_index ok i idx else idx)
      in if k \<noteq> [] then canonical_add_index k i idx1 else idx1)"


section \<open>The canonical registry\<close>

record canonical_registry =
  cr_connectors :: "(string, pb_connector) gomap"
  cr_sessions :: "(string, pb_session) gomap"
  cr_services :: "(string, logical_service) gomap"
  cr_instances :: "(string, service_instance) gomap"
  cr_routes :: "(string, route) gomap"
  cr_projections :: "(string, discovery_projection) gomap"
  cr_serviceByScopeName :: "(string, string) gomap"
  cr_sessionsByConnector :: index
  cr_instancesByConnector :: index
  cr_instancesByService :: index
  cr_routesByService :: index
  cr_audits :: "(string, audit_info) gomap"

definition new_canonical_registry :: canonical_registry where
  "new_canonical_registry =
     \<lparr>cr_connectors = [], cr_sessions = [], cr_services = [], cr_instances = [], cr_routes = [],
      cr_projections = [], cr_serviceByScopeName = [], cr_sessionsByConnector = [], cr_instancesByConnector = [],
      cr_instancesByService = [], cr_routesByService = [], cr_audits = []\<rparr>"

definition audit_key :: "string \<Rightarrow> string \<Rightarrow> string" where
  "audit_key ty i = trim_space ty @ ''|'' @ trim_space i"

definition touch_audit ::
    "gotime \<Rightarrow> string \<Rightarrow> string \<Rightarrow> string \<Rightarrow> 64 word \<Rightarrow> canonical_registry \<Rightarrow> canonical_registry" where
  "touch_audit now ty i ev ver reg =
     (let key = audit_key ty i;
          created = (case map_of (cr_audits reg) key of None \<Rightarrow> now | Some a \<Rightarrow> au_created a)
      in reg\<lparr>cr_audits := map_put key
               \<lparr>au_created = created, au_updated = now, au_event = trim_space ev, au_version = ver\<rparr> (cr_audits reg)\<rparr>)"

definition scope_name_key :: "string \<Rightarrow> scope \<Rightarrow> string" where
  "scope_name_key name s =
     trim_space (Namespace s) @ ''|'' @ trim_space (Environment s) @ ''|'' @ trim_space name"

definition route_logical_service_id :: "route \<Rightarrow> string" where
  "route_logical_service_id r =
     (case rt_type (r_target r) of
        RouteTargetTypeConnectorService \<Rightarrow>
          (case rt_connector (r_target r) of None \<Rightarrow> [] | Some t \<Rightarrow> trim_space (ss_service (ct_selector t)))
      | _ \<Rightarrow> [])"

definition same_canonical_scope :: "scope \<Rightarrow> scope \<Rightarrow> bool" where
  "same_canonical_scope a b \<longleftrightarrow> trim_space (Namespace a) = trim_space (Namespace b)
     \<and> trim_space (Environment a) = trim_space (Environment b)"

definition upsert_connector ::
    "gotime \<Rightarrow> pb_connector \<Rightarrow> string \<Rightarrow> 64 word \<Rightarrow> canonical_registry \<Rightarrow> canonical_registry" where
  "upsert_connector now c ev ver reg =
     (let i = trim_space (pc_id c)
      in touch_audit now ''connector'' i ev ver (reg\<lparr>cr_connectors := map_put i c (cr_connectors reg)\<rparr>))"

definition canonical_upsert_session ::
    "gotime \<Rightarrow> pb_session \<Rightarrow> string \<Rightarrow> 64 word \<Rightarrow> canonical_registry \<Rightarrow> canonical_registry" where
  "canonical_upsert_session now s ev ver reg =
     (let i = trim_space (ps_id s); c = trim_space (ps_connector s);
          old = map_option (\<lambda>x. trim_space (ps_connector x)) (map_of (cr_sessions reg) i)
      in touch_audit now ''session'' i ev ver
           (reg\<lparr>cr_sessions := map_put i s (cr_sessions reg),
                cr_sessionsByConnector := move_index old c i (cr_sessionsByConnector reg)\<rparr>))"

definition upsert_logical_service ::
    "gotime \<Rightarrow> logical_service \<Rightarrow> string \<Rightarrow> 64 word \<Rightarrow> canonical_registry \<Rightarrow> canonical_registry" where
  "upsert_logical_service now s ev ver reg =
     (let i = trim_space (ls_id s); key = scope_name_key (ls_name s) (ls_scope s);
          names = (case map_of (cr_services reg) i of
                     None \<Rightarrow> cr_serviceByScopeName reg
                   | Some x \<Rightarrow>
                       (let old_key = scope_name_key (ls_name x) (ls_scope x)
                        in if old_key \<noteq> [] \<and> old_key \<noteq> key then map_del old_key (cr_serviceByScopeName reg)
                           else cr_serviceByScopeName reg))
      in touch_audit now ''logical_service'' i ev ver
           (reg\<lparr>cr_services := map_put i s (cr_services reg),
                cr_serviceByScopeName := (if i \<noteq> [] \<and> key \<noteq> [] then map_put key i names else names)\<rparr>))"

definition upsert_service_instance ::
    "gotime \<Rightarrow> service_instance \<Rightarrow> string \<Rightarrow> 64 word \<Rightarrow> canonical_registry \<Rightarrow> canonical_registry" where
  "upsert_service_instance now s ev ver reg =
     (let i = trim_space (si_id s); c = trim_space (si_connector s); l = trim_space (si_service s);
          old = map_of (cr_instances reg) i
      in touch_audit now ''service_instance'' i ev ver
           (reg\<lparr>cr_instances := map_put i s (cr_instances reg),
                cr_instancesByConnector :=
                  move_index (map_option (\<lambda>x. trim_space (si_connector x)) old) c i (cr_instancesByConnector reg),
                cr_instancesByService :=
                  move_index (map_option (\<lambda>x. trim_space (si_service x)) old) l i (cr_instancesByService reg)\<rparr>))"

definition upsert_canonical_route ::
    "gotime \<Rightarrow> route \<Rightarrow> string \<Rightarrow> 64 word \<Rightarrow> canonical_registry \<Rightarrow> canonical_registry" where
  "upsert_canonical_route now r ev ver reg =
     (let i = trim_space (r_id r)
      in touch_audit now ''route'' i ev ver
           (reg\<lparr>cr_routes := map_put i r (cr_routes reg),
                cr_routesByService :=
                  move_route_index (map_option route_logical_service_id (map_of (cr_routes reg) i))
                    (route_logical_service_id r) i (cr_routesByService reg)\<rparr>))"

definition upsert_projection ::
    "gotime \<Rightarrow> discovery_projection \<Rightarrow> string \<Rightarrow> 64 word \<Rightarrow> canonical_registry \<Rightarrow> canonical_registry" where
  "upsert_projection now p ev ver reg =
     (let i = trim_space (pj_id p)
      in touch_audit now ''projection'' i ev ver (reg\<lparr>cr_projections := map_put i p (cr_projections reg)\<rparr>))"

text \<open>Lookups and lists, in the iteration order of the maps.\<close>

definition canonical_get_service :: "string \<Rightarrow> canonical_registry \<Rightarrow> logical_service option" where
  "canonical_get_service i reg = map_of (cr_services reg) (trim_space i)"

definition canonical_find_service :: "string \<Rightarrow> scope \<Rightarrow> canonical_registry \<Rightarrow> logical_service option" where
  "canonical_find_service name s reg =
     (case map_of (cr_serviceByScopeName reg) (scope_name_key name s) of
        None \<Rightarrow> None | Some i \<Rightarrow> map_of (cr_services reg) i)"

definition get_connector :: "string \<Rightarrow> canonical_registry \<Rightarrow> pb_connector option" where
  "get_connector i reg = map_of (cr_connectors reg) (trim_space i)"

definition get_pb_session :: "string \<Rightarrow> canonical_registry \<Rightarrow> pb_session option" where
  "get_pb_session i reg = map_of (cr_sessions reg) (trim_space i)"

definition list_indexed :: "index \<Rightarrow> (string, 'a) gomap \<Rightarrow> string \<Rightarrow> 'a list" where
  "list_indexed idx objs k = List.map_filter (map_of objs) (bucket idx k)"

definition list_sessions_by_connector :: "string \<Rightarrow> canonical_registry \<Rightarrow> pb_session list" where
  "list_sessions_by_connector c reg = list_indexed (cr_sessionsByConnector reg) (cr_sessions reg) (trim_space c)"

definition find_active_session_by_connector :: "string \<Rightarrow> canonical_registry \<Rightarrow> pb_session option" where
  "find_active_session_by_connector c reg =
     find (\<lambda>s. ps_connector s = trim_space c \<and> ps_state s = PbActive) (map snd (cr_sessions reg))"

definition list_instances_by_connector :: "string \<Rightarrow> canonical_registry \<Rightarrow> service_instance list" where
  "list_instances_by_connector c reg = list_indexed (cr_instancesByConnector reg) (cr_instances reg) (trim_space c)"

definition canonical_list_instances :: "string \<Rightarrow> canonical_registry \<Rightarrow> service_instance list" where
  "canonical_list_instances l reg = list_indexed (cr_instancesByService reg) (cr_instances reg) (trim_space l)"

definition list_services_by_scope :: "scope \<Rightarrow> canonical_registry \<Rightarrow> logical_service list" where
  "list_services_by_scope s reg = filter (\<lambda>x. same_canonical_scope (ls_scope x) s) (map snd (cr_services reg))"

definition get_canonical_route :: "string \<Rightarrow> canonical_registry \<Rightarrow> route option" where
  "get_canonical_route i reg = map_of (cr_routes reg) (trim_space i)"

definition list_routes_by_scope :: "scope \<Rightarrow> canonical_registry \<Rightarrow> route list" where
  "list_routes_by_scope s reg = filter (\<lambda>x. same_canonical_scope (r_scope x) s) (map snd (cr_routes reg))"

definition list_routes_by_service :: "string \<Rightarrow> canonical_registry \<Rightarrow> route list" where
  "list_routes_by_service l reg = list_indexed (cr_routesByService reg) (cr_routes reg) (trim_space l)"

definition get_projection :: "string \<Rightarrow> canonical_registry \<Rightarrow> discovery_projection option" where
  "get_projection i reg = map_of (cr_projections reg) (trim_space i)"

definition get_audit_info :: "string \<Rightarrow> string \<Rightarrow> canonical_registry \<Rightarrow> audit_info option" where
  "get_audit_info ty i reg = map_of (cr_audits reg) (audit_key ty i)"

record canonical_snapshot =
  cs_connectors :: "pb_connector list"
  cs_sessions :: "pb_session list"
  cs_services :: "logical_service list"
  cs_instances :: "service_instance list"
  cs_routes :: "route list"
  cs_projections :: "discovery_projection list"
  cs_generated :: gotime

definition canonical_snapshot_of :: "gotime \<Rightarrow> canonical_registry \<Rightarrow> canonical_snapshot" where
  "canonical_snapshot_of now reg =
     \<lparr>cs_connectors = map snd (cr_connectors reg), cs_sessions = map snd (cr_sessions reg),
      cs_services = map snd (cr_services reg), cs_instances = map snd (cr_instances reg),
      cs_routes = map snd (cr_routes reg), cs_projections = map snd (cr_projections reg), cs_generated = now\<rparr>"


section \<open>Indexes mirror the objects\<close>

lemma bucket_add:
  "set (bucket (canonical_add_index k v idx) k')
     = set (bucket idx k') \<union> (if k' = trim_space k \<and> trim_space k \<noteq> [] \<and> trim_space v \<noteq> [] then {trim_space v} else {})"
  by (auto simp: canonical_add_index_def bucket_def Let_def split: option.splits)

lemma bucket_remove:
  "set (bucket (canonical_remove_index k v idx) k')
     = (if k' = trim_space k \<and> trim_space k \<noteq> []
        then (if trim_space v = [] then {} else set (bucket idx k') - {trim_space v})
        else set (bucket idx k'))"
  by (auto simp: canonical_remove_index_def bucket_def Let_def filter_empty_conv split: option.splits)

definition index_ok :: "('a \<Rightarrow> string) \<Rightarrow> (string, 'a) gomap \<Rightarrow> index \<Rightarrow> bool" where
  "index_ok key objs idx \<longleftrightarrow>
     (\<forall>k v. v \<in> set (bucket idx k) \<longleftrightarrow> k \<noteq> [] \<and> (\<exists>x. map_of objs v = Some x \<and> key x = k))"

lemma index_ok_empty: "index_ok key [] []"
  by (simp add: index_ok_def bucket_def)

lemma bucket_move:
  assumes "i \<noteq> []" and "trim_space i = i" and "trim_space k = k" and "\<forall>ok. old = Some ok \<longrightarrow> trim_space ok = ok"
  shows "set (bucket (move_index old k i idx) k')
     = (set (bucket idx k') - (if old = Some k' \<and> k' \<noteq> [] \<and> k' \<noteq> k then {i} else {})) \<union> (if k' = k \<and> k \<noteq> [] then {i} else {})"
  using assms by (cases old) (auto simp: move_index_def bucket_add bucket_remove)

lemma index_ok_move:
  assumes ok: "index_ok key objs idx" and i: "i \<noteq> []" "trim_space i = i"
    and trimmed: "\<And>x. trim_space (key x) = key x"
  shows "index_ok key (map_put i x objs) (move_index (map_option key (map_of objs i)) (key x) i idx)"
proof -
  have old: "\<forall>ok. map_option key (map_of objs i) = Some ok \<longrightarrow> trim_space ok = ok" using trimmed by auto
  have b: "v \<in> set (bucket (move_index (map_option key (map_of objs i)) (key x) i idx) k)
      \<longleftrightarrow> (v \<in> set (bucket idx k) \<and> \<not> (v = i \<and> map_option key (map_of objs i) = Some k \<and> k \<noteq> [] \<and> k \<noteq> key x))
          \<or> (v = i \<and> k = key x \<and> k \<noteq> [])" for v k
    using bucket_move[OF i trimmed[of x] old, where idx = idx and k' = k] by (auto split: if_splits)
  show ?thesis
    unfolding index_ok_def b using ok[unfolded index_ok_def] by (auto split: if_splits)
qed

lemma move_route_index_sets:
  assumes "i \<noteq> []" and "trim_space i = i" and "trim_space k = k" and "\<forall>ok. old = Some ok \<longrightarrow> trim_space ok = ok"
  shows "set (bucket (move_route_index old k i idx) k')
     = (set (bucket idx k') - (if old = Some k' \<and> k' \<noteq> [] then {i} else {})) \<union> (if k' = k \<and> k \<noteq> [] then {i} else {})"
  using assms by (cases old) (auto simp: move_route_index_def bucket_add bucket_remove Let_def)

lemma index_ok_move_route:
  assumes ok: "index_ok key objs idx" and i: "i \<noteq> []" "trim_space i = i"
    and trimmed: "\<And>x. trim_space (key x) = key x"
  shows "index_ok key (map_put i x objs) (move_route_index (map_option key (map_of objs i)) (key x) i idx)"
proof -
  have old: "\<forall>ok. map_option key (map_of objs i) = Some ok \<longrightarrow> trim_space ok = ok" using trimmed by auto
  have b: "v \<in> set (bucket (move_route_index (map_option key (map_of objs i)) (key x) i idx) k)
      \<longleftrightarrow> (v \<in> set (bucket idx k) \<and> \<not> (v = i \<and> map_option key (map_of objs i) = Some k \<and> k \<noteq> []))
          \<or> (v = i \<and> k = key x \<and> k \<noteq> [])" for v k
    using move_route_index_sets[OF i trimmed[of x] old, where idx = idx and k' = k] by (auto split: if_splits)
  show ?thesis
    unfolding index_ok_def b using ok[unfolded index_ok_def] by (auto split: if_splits)
qed

lemma list_indexed_exact:
  assumes "index_ok key objs idx" and "k \<noteq> []"
  shows "set (list_indexed idx objs k) = {x \<in> ran (map_of objs). key x = k}"
proof -
  have "set (List.map_filter f xs) = {x. \<exists>v\<in>set xs. f v = Some x}" for f :: "string \<Rightarrow> 'a option" and xs
    by (auto simp: List.map_filter_def image_iff) (metis option.sel option.distinct(1))+
  then show ?thesis using assms by (auto simp: list_indexed_def index_ok_def ran_def)
qed

text \<open>Every write to the registry, in any order.\<close>

datatype canonical_write =
    WriteConnector pb_connector
  | WriteSession pb_session
  | WriteService logical_service
  | WriteInstance service_instance
  | WriteRoute route
  | WriteProjection discovery_projection

fun canonical_apply ::
    "gotime \<times> canonical_write \<times> string \<times> 64 word \<Rightarrow> canonical_registry \<Rightarrow> canonical_registry" where
  "canonical_apply (now, WriteConnector c, ev, ver) reg = upsert_connector now c ev ver reg"
| "canonical_apply (now, WriteSession s, ev, ver) reg = canonical_upsert_session now s ev ver reg"
| "canonical_apply (now, WriteService s, ev, ver) reg = upsert_logical_service now s ev ver reg"
| "canonical_apply (now, WriteInstance s, ev, ver) reg = upsert_service_instance now s ev ver reg"
| "canonical_apply (now, WriteRoute r, ev, ver) reg = upsert_canonical_route now r ev ver reg"
| "canonical_apply (now, WriteProjection p, ev, ver) reg = upsert_projection now p ev ver reg"

fun has_identity :: "gotime \<times> canonical_write \<times> string \<times> 64 word \<Rightarrow> bool" where
  "has_identity (now, WriteSession s, ev, ver) \<longleftrightarrow> trim_space (ps_id s) \<noteq> []"
| "has_identity (now, WriteInstance s, ev, ver) \<longleftrightarrow> trim_space (si_id s) \<noteq> []"
| "has_identity (now, WriteRoute r, ev, ver) \<longleftrightarrow> trim_space (r_id r) \<noteq> []"
| "has_identity _ \<longleftrightarrow> True"

definition indexes_ok :: "canonical_registry \<Rightarrow> bool" where
  "indexes_ok reg \<longleftrightarrow>
     index_ok (\<lambda>s. trim_space (ps_connector s)) (cr_sessions reg) (cr_sessionsByConnector reg)
     \<and> index_ok (\<lambda>s. trim_space (si_connector s)) (cr_instances reg) (cr_instancesByConnector reg)
     \<and> index_ok (\<lambda>s. trim_space (si_service s)) (cr_instances reg) (cr_instancesByService reg)
     \<and> index_ok route_logical_service_id (cr_routes reg) (cr_routesByService reg)"

lemma trim_route_service [simp]: "trim_space (route_logical_service_id r) = route_logical_service_id r"
  by (simp add: route_logical_service_id_def split: route_target_type.splits option.splits)

lemma touch_audit_frame [simp]:
  "indexes_ok (touch_audit now ty i ev ver reg) = indexes_ok reg"
  by (simp add: indexes_ok_def touch_audit_def Let_def)

lemmas index_ok_moves =
  index_ok_move[where key = "\<lambda>s. trim_space (ps_connector s)"]
  index_ok_move[where key = "\<lambda>s. trim_space (si_connector s)"]
  index_ok_move[where key = "\<lambda>s. trim_space (si_service s)"]
  index_ok_move_route[where key = route_logical_service_id]

lemma canonical_apply_indexes:
  "has_identity w \<Longrightarrow> indexes_ok reg \<Longrightarrow> indexes_ok (canonical_apply w reg)"
  by (induction w reg rule: canonical_apply.induct)
    (simp_all add: upsert_connector_def canonical_upsert_session_def upsert_logical_service_def upsert_service_instance_def
      upsert_canonical_route_def upsert_projection_def Let_def,
     simp_all add: indexes_ok_def index_ok_moves)

lemma canonical_run_indexes:
  "list_all has_identity ws \<Longrightarrow> indexes_ok reg \<Longrightarrow> indexes_ok (fold canonical_apply ws reg)"
  by (induction ws arbitrary: reg) (simp_all add: canonical_apply_indexes)

text \<open>The indexed lists of the canonical registry are the plain ones: after any sequence of writes
  whose sessions, instances and routes have an identity, the sessions and instances listed for a
  connector and the instances and routes listed for a service are exactly the stored ones that name
  it, moves from one connector or service to another included.\<close>

theorem indexed_lists_are_exact:
  assumes "list_all has_identity ws" and "trim_space k \<noteq> []"
    and reg: "reg = fold canonical_apply ws new_canonical_registry"
  shows "set (list_sessions_by_connector k reg) = {s \<in> ran (map_of (cr_sessions reg)). trim_space (ps_connector s) = trim_space k}
    \<and> set (list_instances_by_connector k reg) = {s \<in> ran (map_of (cr_instances reg)). trim_space (si_connector s) = trim_space k}
    \<and> set (canonical_list_instances k reg) = {s \<in> ran (map_of (cr_instances reg)). trim_space (si_service s) = trim_space k}
    \<and> set (list_routes_by_service k reg) = {r \<in> ran (map_of (cr_routes reg)). route_logical_service_id r = trim_space k}"
proof -
  have "indexes_ok new_canonical_registry"
    by (simp add: indexes_ok_def new_canonical_registry_def index_ok_empty)
  then have "indexes_ok reg" unfolding reg by (rule canonical_run_indexes[OF assms(1)])
  then show ?thesis
    using assms(2)
    by (simp add: indexes_ok_def list_sessions_by_connector_def list_instances_by_connector_def
        canonical_list_instances_def list_routes_by_service_def list_indexed_exact)
qed

definition sample_exposure :: service_exposure where
  "sample_exposure = \<lparr>ex_ingress_mode = IngressModeL7Shared, ex_host = [], ex_listen_port = 0, ex_sni_name = [],
     ex_path_prefix = [], ex_allow_export = False\<rparr>"

definition sample_session_of :: "string \<Rightarrow> string \<Rightarrow> pb_session" where
  "sample_session_of i c = \<lparr>ps_id = i, ps_connector = c, ps_epoch = 1, ps_binding = [], ps_state = PbActive,
     ps_authenticated = True, ps_created = 0, ps_last_seen = 0, ps_remote = [], ps_heartbeat = 0, ps_metadata = []\<rparr>"

definition sample_writes :: "(gotime \<times> canonical_write \<times> string \<times> 64 word) list" where
  "sample_writes = [(1, WriteSession (sample_session_of ''s'' ''c''), [], 0),
                    (2, WriteSession (sample_session_of ''s'' ''d''), [], 0)]"

lemma trim_canonical: "trim_space ''s'' = ''s''" "trim_space ''c'' = ''c''" "trim_space ''d'' = ''d''"
  by (rule trim_space_graphic; simp add: graphic_def)+

theorem indexed_lists_are_exact_witness:
  "set (list_sessions_by_connector ''d'' (fold canonical_apply sample_writes new_canonical_registry))
      = {s \<in> ran (map_of (cr_sessions (fold canonical_apply sample_writes new_canonical_registry))).
           trim_space (ps_connector s) = trim_space ''d''}
    \<and> set (list_instances_by_connector ''d'' (fold canonical_apply sample_writes new_canonical_registry))
      = {s \<in> ran (map_of (cr_instances (fold canonical_apply sample_writes new_canonical_registry))).
           trim_space (si_connector s) = trim_space ''d''}
    \<and> set (canonical_list_instances ''d'' (fold canonical_apply sample_writes new_canonical_registry))
      = {s \<in> ran (map_of (cr_instances (fold canonical_apply sample_writes new_canonical_registry))).
           trim_space (si_service s) = trim_space ''d''}
    \<and> set (list_routes_by_service ''d'' (fold canonical_apply sample_writes new_canonical_registry))
      = {r \<in> ran (map_of (cr_routes (fold canonical_apply sample_writes new_canonical_registry))).
           route_logical_service_id r = trim_space ''d''}"
  by (rule indexed_lists_are_exact[OF _ _ refl])
    (simp_all add: sample_writes_def sample_session_of_def trim_canonical)

text \<open>
  Two writes that break the second-level maps. A session without an identity that changes its
  connector removes the whole bucket of its old connector; and a service that is renamed removes
  the name from the index even when another service has taken that name meanwhile.
\<close>

lemma blank_session_empties_bucket:
  "list_sessions_by_connector ''c'' (fold canonical_apply
     [(1, WriteSession (sample_session_of ''s'' ''c''), [], 0), (2, WriteSession (sample_session_of [] ''c''), [], 0),
      (3, WriteSession (sample_session_of [] ''d''), [], 0)] new_canonical_registry) = []"
  by (simp add: sample_session_of_def trim_canonical canonical_upsert_session_def touch_audit_def new_canonical_registry_def
      move_index_def canonical_add_index_def canonical_remove_index_def bucket_def Let_def list_sessions_by_connector_def list_indexed_def
      List.map_filter_def)

definition named_service :: "string \<Rightarrow> string \<Rightarrow> logical_service" where
  "named_service i name = no_service\<lparr>ls_id := i, ls_name := name\<rparr>"

lemma renamed_service_hides_another:
  "canonical_find_service ''c'' no_scope (fold canonical_apply
     [(1, WriteService (named_service ''s'' ''c''), [], 0), (2, WriteService (named_service ''d'' ''c''), [], 0),
      (3, WriteService (named_service ''s'' ''d''), [], 0)] new_canonical_registry) = None"
  by (simp add: named_service_def no_service_def no_scope_def trim_canonical upsert_logical_service_def touch_audit_def
      new_canonical_registry_def scope_name_key_def Let_def canonical_find_service_def)

end
