(* ===== verification/Library_Resolver.thy ===== *)
theory Library_Resolver
  imports Canonical_Registry Traffic_Payloads
begin

text \<open>
  The route resolver of the protocol library (\<open>ltfp/routing/resolver.go\<close>). It reads a registry
  through the interface \<open>RegistryReader\<close>, a record of functions here; the canonical registry is
  one. Lists come in the iteration order of their maps.
\<close>

section \<open>Requests and results\<close>

record registry_reader =
  rr_ServiceByID :: "string \<Rightarrow> logical_service option"
  rr_ServiceByNameScope :: "string \<Rightarrow> scope \<Rightarrow> logical_service option"
  rr_InstancesByService :: "string \<Rightarrow> service_instance list"
  rr_ConnectorByID :: "string \<Rightarrow> pb_connector option"
  rr_ActiveSession :: "string \<Rightarrow> pb_session option"

definition canonical_reader :: "canonical_registry \<Rightarrow> registry_reader" where
  "canonical_reader reg =
     \<lparr>rr_ServiceByID = (\<lambda>i. canonical_get_service i reg),
      rr_ServiceByNameScope = (\<lambda>n s. canonical_find_service n s reg),
      rr_InstancesByService = (\<lambda>l. canonical_list_instances l reg),
      rr_ConnectorByID = (\<lambda>c. get_connector c reg),
      rr_ActiveSession = (\<lambda>c. find_active_session_by_connector c reg)\<rparr>"

record library_request =
  lq_Route :: route
  lq_TrafficID :: string
  lq_SourceAddr :: string
  lq_ProtocolHint :: string
  lq_TraceID :: string
  lq_Hint :: "(string, string) gomap"

record discovery_query =
  dq_Provider :: string
  dq_Namespace :: string
  dq_Environment :: string
  dq_ServiceName :: string
  dq_Group :: string
  dq_CacheTTL :: duration
  dq_StaleIfErrorTTL :: duration

record library_result =
  lr_PathKind :: route_target_type
  lr_RouteID :: string
  lr_LogicalServiceID :: string
  lr_InstanceID :: string
  lr_ConnectorID :: string
  lr_SessionID :: string
  lr_SessionEpoch :: "64 word"
  lr_TrafficOpen :: "traffic_open option"
  lr_ExternalQuery :: "discovery_query option"

definition code_library_service_not_found :: string where
  "code_library_service_not_found = ''RESOLVE_SERVICE_NOT_FOUND''"
definition code_library_service_unavailable :: string where
  "code_library_service_unavailable = ''RESOLVE_SERVICE_UNAVAILABLE''"
definition code_library_session_not_active :: string where
  "code_library_session_not_active = ''RESOLVE_SESSION_NOT_ACTIVE''"
definition code_scope_mismatch :: string where
  "code_scope_mismatch = ''INVALID_SCOPE''"


section \<open>Steps\<close>

definition match_instance_labels :: "labels \<Rightarrow> labels \<Rightarrow> bool" where
  "match_instance_labels ls selector \<longleftrightarrow>
     list_all (\<lambda>(k, expected). trim_space (label ls k) = trim_space expected) selector"

definition is_connector_offline :: "pb_connector \<Rightarrow> bool" where
  "is_connector_offline c \<longleftrightarrow>
     (let status = to_lower (trim_space (pc_status c))
      in status = ''offline'' \<or> status = ''stale'' \<or> status = ''closed'')"

definition validate_route_to_service_scope :: "scope \<Rightarrow> scope \<Rightarrow> chain_err option" where
  "validate_route_to_service_scope rs ss =
     (if trim_space (Namespace rs) \<noteq> [] \<and> trim_space (Namespace ss) \<noteq> []
         \<and> trim_space (Namespace rs) \<noteq> trim_space (Namespace ss)
      then Some (new_error code_scope_mismatch ''route scope does not match logical service scope'')
      else if trim_space (Environment rs) \<noteq> [] \<and> trim_space (Environment ss) \<noteq> []
         \<and> trim_space (Environment rs) \<noteq> trim_space (Environment ss)
      then Some (new_error code_scope_mismatch ''route scope does not match logical service scope'')
      else None)"

definition library_logical_service ::
    "registry_reader \<Rightarrow> service_selector \<Rightarrow> scope \<Rightarrow> chain_err + logical_service" where
  "library_logical_service rr sel fallback =
     (if trim_space (ss_service sel) \<noteq> []
      then (case rr_ServiceByID rr (ss_service sel) of
              None \<Rightarrow> Inl (new_error code_library_service_not_found ''logical service is not found by logicalServiceId'')
            | Some s \<Rightarrow> Inr s)
      else if trim_space (ss_name sel) = []
      then Inl (new_error code_missing_required_field ''connectorService.selector is required'')
      else
        (let s0 = ss_scope sel;
             s1 = (if trim_space (Namespace s0) = [] then s0\<lparr>Namespace := trim_space (Namespace fallback)\<rparr> else s0);
             s2 = (if trim_space (Environment s1) = [] then s1\<lparr>Environment := trim_space (Environment fallback)\<rparr> else s1)
         in case rr_ServiceByNameScope rr (ss_name sel) s2 of
              None \<Rightarrow> Inl (new_error code_library_service_not_found ''logical service is not found by selector'')
            | Some s \<Rightarrow> Inr s))"

definition pick_healthy_instance :: "registry_reader \<Rightarrow> string \<Rightarrow> labels \<Rightarrow> chain_err + service_instance" where
  "pick_healthy_instance rr l selector =
     (case find (\<lambda>x. si_status x = ServiceStatusActive \<and> si_health x = HealthStatusHealthy
                     \<and> match_instance_labels (si_labels x) selector) (rr_InstancesByService rr l) of
        None \<Rightarrow> Inl (new_error code_library_service_unavailable ''no healthy instance is available'')
      | Some x \<Rightarrow> Inr x)"

definition library_connector_target ::
    "registry_reader \<Rightarrow> route \<Rightarrow> connector_service_target option \<Rightarrow> library_request \<Rightarrow> chain_err + library_result" where
  "library_connector_target rr r target req =
     (case target of
        None \<Rightarrow> Inl (new_error code_missing_required_field ''route.target.connectorService is required'')
      | Some t \<Rightarrow>
        (case library_logical_service rr (ct_selector t) (r_scope r) of
           Inl e \<Rightarrow> Inl e
         | Inr svc \<Rightarrow>
           (case validate_route_to_service_scope (r_scope r) (ls_scope svc) of
              Some e \<Rightarrow> Inl e
            | None \<Rightarrow>
              if ls_status svc \<noteq> ServiceStatusActive
              then Inl (new_error code_library_service_unavailable ''logical service is not active'')
              else
              (case pick_healthy_instance rr (ls_id svc) (ct_instance_selector t) of
                 Inl e \<Rightarrow> Inl e
               | Inr x \<Rightarrow>
                 (case rr_ConnectorByID rr (si_connector x) of
                    None \<Rightarrow> Inl (new_error code_library_service_unavailable ''connector is not found'')
                  | Some c \<Rightarrow>
                    if is_connector_offline c
                    then Inl (new_error code_library_service_unavailable ''connector is offline'')
                    else
                    (case rr_ActiveSession rr (si_connector x) of
                       None \<Rightarrow> Inl (new_error code_library_session_not_active ''connector session is not active'')
                     | Some s \<Rightarrow>
                       if ps_state s \<noteq> PbActive
                       then Inl (new_error code_library_session_not_active ''connector session is not active'')
                       else Inr \<lparr>lr_PathKind = RouteTargetTypeConnectorService, lr_RouteID = trim_space (r_id r),
                              lr_LogicalServiceID = trim_space (ls_id svc), lr_InstanceID = trim_space (si_id x),
                              lr_ConnectorID = trim_space (si_connector x), lr_SessionID = trim_space (ps_id s),
                              lr_SessionEpoch = ps_epoch s,
                              lr_TrafficOpen = Some \<lparr>to_TrafficID = trim_space (lq_TrafficID req),
                                to_RouteID = trim_space (r_id r), to_LogicalServiceID = trim_space (ls_id svc),
                                to_InstanceID = trim_space (si_id x), to_SourceAddr = trim_space (lq_SourceAddr req),
                                to_ProtocolHint = trim_space (lq_ProtocolHint req),
                                to_TraceID = trim_space (lq_TraceID req), to_EndpointSelectionHint = lq_Hint req,
                                to_Metadata = []\<rparr>,
                              lr_ExternalQuery = None\<rparr>))))))"

definition library_external_target ::
    "route \<Rightarrow> external_service_target option \<Rightarrow> chain_err + library_result" where
  "library_external_target r target =
     (case target of
        None \<Rightarrow> Inl (new_error code_missing_required_field ''route.target.externalService is required'')
      | Some t \<Rightarrow>
          if trim_space (et_service t) = []
          then Inl (new_error code_missing_required_field ''externalService.serviceName is required'')
          else
            (let ns = (if trim_space (et_namespace t) = [] then trim_space (Namespace (r_scope r))
                       else trim_space (et_namespace t));
                 en = (if trim_space (et_environment t) = [] then trim_space (Environment (r_scope r))
                       else trim_space (et_environment t))
             in Inr \<lparr>lr_PathKind = RouteTargetTypeExternalService, lr_RouteID = trim_space (r_id r),
                  lr_LogicalServiceID = [], lr_InstanceID = [], lr_ConnectorID = [], lr_SessionID = [],
                  lr_SessionEpoch = 0, lr_TrafficOpen = None,
                  lr_ExternalQuery = Some \<lparr>dq_Provider = trim_space (et_provider t), dq_Namespace = ns,
                    dq_Environment = en, dq_ServiceName = trim_space (et_service t),
                    dq_Group = trim_space (et_group t), dq_CacheTTL = uint (et_cache_ttl t) * 1000000000,
                    dq_StaleIfErrorTTL = uint (et_stale_if_error t) * 1000000000\<rparr>\<rparr>))"

definition resolve_library_route :: "registry_reader \<Rightarrow> library_request \<Rightarrow> chain_err + library_result" where
  "resolve_library_route rr req =
     (let r = lq_Route req
      in case rt_type (r_target r) of
           RouteTargetTypeConnectorService \<Rightarrow> library_connector_target rr r (rt_connector (r_target r)) req
         | RouteTargetTypeExternalService \<Rightarrow> library_external_target r (rt_external (r_target r))
         | RouteTargetTypeOther ty \<Rightarrow>
             Inl (new_error code_unsupported_value (''unsupported route target type: '' @ ty)))"


section \<open>What a resolved route guarantees\<close>

lemma library_connector_target_ok:
  assumes "library_connector_target rr r target req = Inr res"
  obtains t svc x c s where "target = Some t" and "library_logical_service rr (ct_selector t) (r_scope r) = Inr svc"
    and "validate_route_to_service_scope (r_scope r) (ls_scope svc) = None" and "ls_status svc = ServiceStatusActive"
    and "pick_healthy_instance rr (ls_id svc) (ct_instance_selector t) = Inr x"
    and "rr_ConnectorByID rr (si_connector x) = Some c" and "\<not> is_connector_offline c"
    and "rr_ActiveSession rr (si_connector x) = Some s" and "ps_state s = PbActive"
    and "lr_InstanceID res = trim_space (si_id x)" and "lr_SessionID res = trim_space (ps_id s)"
    and "lr_SessionEpoch res = ps_epoch s" and "lr_LogicalServiceID res = trim_space (ls_id svc)"
    and "lr_TrafficOpen res \<noteq> None"
  using assms by (auto simp: library_connector_target_def split: option.splits sum.splits if_splits)

lemma pick_healthy_instance_ok:
  assumes "pick_healthy_instance rr l sel = Inr x"
  shows "x \<in> set (rr_InstancesByService rr l)" "si_status x = ServiceStatusActive" "si_health x = HealthStatusHealthy"
    "match_instance_labels (si_labels x) sel"
  using assms by (auto simp: pick_healthy_instance_def find_Some_iff split: option.splits)

text \<open>C21. A route resolved to a connector over the canonical registry, after any writes with identities, can
  carry the traffic: its instance is stored, belongs to the resolved service, is active, healthy and
  has the labels the route asks for; the service is active; and the session is a stored, active one
  of the connector that the instance names.\<close>

theorem library_resolution_is_routable:
  assumes ws: "list_all has_identity ws" and reg: "reg = fold canonical_apply ws new_canonical_registry"
    and target: "rt_type (r_target (lq_Route req)) = RouteTargetTypeConnectorService"
    and res: "resolve_library_route (canonical_reader reg) req = Inr res" and svc: "lr_LogicalServiceID res \<noteq> []"
  shows "\<exists>t x s sv. rt_connector (r_target (lq_Route req)) = Some t
     \<and> x \<in> ran (map_of (cr_instances reg)) \<and> trim_space (si_service x) = lr_LogicalServiceID res
     \<and> trim_space (si_id x) = lr_InstanceID res
     \<and> si_status x = ServiceStatusActive \<and> si_health x = HealthStatusHealthy
     \<and> match_instance_labels (si_labels x) (ct_instance_selector t)
     \<and> s \<in> set (map snd (cr_sessions reg)) \<and> ps_state s = PbActive \<and> ps_connector s = trim_space (si_connector x)
     \<and> lr_SessionID res = trim_space (ps_id s) \<and> lr_SessionEpoch res = ps_epoch s
     \<and> sv \<in> ran (map_of (cr_services reg)) \<and> ls_status sv = ServiceStatusActive
     \<and> trim_space (ls_id sv) = lr_LogicalServiceID res"
proof -
  let ?rr = "canonical_reader reg" and ?r = "lq_Route req"
  have "library_connector_target ?rr ?r (rt_connector (r_target ?r)) req = Inr res"
    using res target by (simp add: resolve_library_route_def Let_def)
  then obtain t sv x c s where *: "rt_connector (r_target ?r) = Some t"
      "library_logical_service ?rr (ct_selector t) (r_scope ?r) = Inr sv" "ls_status sv = ServiceStatusActive"
      "pick_healthy_instance ?rr (ls_id sv) (ct_instance_selector t) = Inr x"
      "rr_ActiveSession ?rr (si_connector x) = Some s" "ps_state s = PbActive"
      "lr_InstanceID res = trim_space (si_id x)" "lr_SessionID res = trim_space (ps_id s)"
      "lr_SessionEpoch res = ps_epoch s" "lr_LogicalServiceID res = trim_space (ls_id sv)"
    by (rule library_connector_target_ok)
  have ok: "indexes_ok reg"
    unfolding reg by (rule canonical_run_indexes[OF ws]) (simp add: indexes_ok_def new_canonical_registry_def index_ok_empty)
  have x: "x \<in> ran (map_of (cr_instances reg))" "trim_space (si_service x) = trim_space (ls_id sv)"
    using pick_healthy_instance_ok(1)[OF *(4)] ok svc *(10)
    by (auto simp: canonical_reader_def canonical_list_instances_def indexes_ok_def list_indexed_exact)
  have s: "s \<in> set (map snd (cr_sessions reg))" "ps_connector s = trim_space (si_connector x)"
    using *(5) by (auto simp: canonical_reader_def find_active_session_by_connector_def find_Some_iff)
  have "sv \<in> ran (map_of (cr_services reg))"
    using *(2)
    by (auto simp: library_logical_service_def canonical_reader_def canonical_get_service_def
        canonical_find_service_def Let_def ran_def split: if_splits option.splits)
  then show ?thesis
    using * x s pick_healthy_instance_ok[OF *(4)] by metis
qed


definition sample_instance_of :: "string \<Rightarrow> string \<Rightarrow> string \<Rightarrow> service_instance" where
  "sample_instance_of i l c = \<lparr>si_id = i, si_service = l, si_connector = c, si_session = [], si_epoch = 1,
     si_status = ServiceStatusActive, si_health = HealthStatusHealthy, si_version = 1, si_endpoints = [],
     si_exposure = sample_exposure,
     si_health_check = \<lparr>hc_type = [], hc_endpoint = [], hc_interval = 0, hc_timeout = 0, hc_healthy_threshold = 0,
       hc_unhealthy_threshold = 0\<rparr>,
     si_discovery = \<lparr>dp_enabled = False, dp_providers = [], dp_external_name = [], dp_namespace = [], dp_group = [],
       dp_tags = [], dp_metadata = []\<rparr>,
     si_route_hint = \<lparr>rh_headers = [], rh_queries = [], rh_priority = 0\<rparr>, si_labels = [], si_metadata = []\<rparr>"

definition sample_library_route :: "string \<Rightarrow> route" where
  "sample_library_route l = \<lparr>r_id = ''s'', r_scope = no_scope,
     r_injection = \<lparr>InjectScope = no_scope, InjectPolicy = ScopeInjectPolicyDisabled\<rparr>, r_version = 1,
     r_match = \<lparr>rm_protocol = [], rm_host = [], rm_authority = [], rm_listen_port = 0, rm_path_prefix = [],
       rm_sni = [], rm_headers = [], rm_queries = []\<rparr>,
     r_target = \<lparr>rt_type = RouteTargetTypeConnectorService,
       rt_connector = Some \<lparr>ct_selector = \<lparr>ss_service = l, ss_name = [], ss_scope = no_scope, ss_match_labels = [],
         ss_instance_labels = []\<rparr>, ct_instance_selector = [], ct_load_balance = []\<rparr>, rt_external = None\<rparr>,
     r_policy = [], r_priority = 0, r_status = [], r_metadata = []\<rparr>"

definition sample_library_request :: library_request where
  "sample_library_request = \<lparr>lq_Route = sample_library_route ''d'', lq_TrafficID = ''s'', lq_SourceAddr = [],
     lq_ProtocolHint = [], lq_TraceID = [], lq_Hint = []\<rparr>"

definition sample_pb_connector :: "string \<Rightarrow> pb_connector" where
  "sample_pb_connector c = \<lparr>pc_id = c, pc_namespace = [], pc_environment = [], pc_node = [], pc_display = [],
     pc_version = [], pc_labels = [], pc_capabilities = [], pc_status = [], pc_metadata = []\<rparr>"

definition routable_writes :: "(gotime \<times> canonical_write \<times> string \<times> 64 word) list" where
  "routable_writes =
     [(1, WriteConnector (sample_pb_connector ''c''), [], 0), (2, WriteSession (sample_session_of ''s'' ''c''), [], 0),
      (3, WriteService (no_service\<lparr>ls_id := ''d'', ls_status := ServiceStatusActive\<rparr>), [], 0),
      (4, WriteInstance (sample_instance_of ''s'' ''d'' ''c''), [], 0)]"

definition routable_registry :: canonical_registry where
  "routable_registry = fold canonical_apply routable_writes new_canonical_registry"

definition routable_result :: library_result where
  "routable_result = \<lparr>lr_PathKind = RouteTargetTypeConnectorService, lr_RouteID = ''s'', lr_LogicalServiceID = ''d'',
     lr_InstanceID = ''s'', lr_ConnectorID = ''c'', lr_SessionID = ''s'', lr_SessionEpoch = 1,
     lr_TrafficOpen = Some \<lparr>to_TrafficID = ''s'', to_RouteID = ''s'', to_LogicalServiceID = ''d'',
       to_InstanceID = ''s'', to_SourceAddr = [], to_ProtocolHint = [], to_TraceID = [],
       to_EndpointSelectionHint = [], to_Metadata = []\<rparr>, lr_ExternalQuery = None\<rparr>"

lemmas canonical_writes_simps =
  upsert_connector_def canonical_upsert_session_def upsert_logical_service_def upsert_service_instance_def touch_audit_def
  new_canonical_registry_def move_index_def canonical_add_index_def bucket_def Let_def scope_name_key_def

lemma routable_registry_parts:
  "cr_connectors routable_registry = [(''c'', sample_pb_connector ''c'')]"
  "cr_sessions routable_registry = [(''s'', sample_session_of ''s'' ''c'')]"
  "cr_services routable_registry = [(''d'', no_service\<lparr>ls_id := ''d'', ls_status := ServiceStatusActive\<rparr>)]"
  "cr_instances routable_registry = [(''s'', sample_instance_of ''s'' ''d'' ''c'')]"
  "cr_instancesByService routable_registry = [(''d'', [''s''])]"
  by (simp_all add: routable_registry_def routable_writes_def canonical_writes_simps sample_pb_connector_def
      sample_session_of_def sample_instance_of_def no_service_def no_scope_def trim_canonical)

lemma routable_resolves:
  "resolve_library_route (canonical_reader routable_registry) sample_library_request = Inr routable_result"
  by (simp add: resolve_library_route_def library_connector_target_def library_logical_service_def canonical_reader_def
      canonical_get_service_def validate_route_to_service_scope_def pick_healthy_instance_def canonical_list_instances_def
      list_indexed_def bucket_def List.map_filter_def match_instance_labels_def get_connector_def is_connector_offline_def
      find_active_session_by_connector_def routable_registry_parts sample_library_request_def sample_library_route_def
      sample_pb_connector_def sample_session_of_def sample_instance_of_def no_service_def no_scope_def trim_canonical
      routable_result_def Let_def to_lower.simps)

theorem library_resolution_is_routable_witness:
  "\<exists>t x s sv. rt_connector (r_target (lq_Route sample_library_request)) = Some t
     \<and> x \<in> ran (map_of (cr_instances routable_registry)) \<and> trim_space (si_service x) = lr_LogicalServiceID routable_result
     \<and> trim_space (si_id x) = lr_InstanceID routable_result
     \<and> si_status x = ServiceStatusActive \<and> si_health x = HealthStatusHealthy
     \<and> match_instance_labels (si_labels x) (ct_instance_selector t)
     \<and> s \<in> set (map snd (cr_sessions routable_registry)) \<and> ps_state s = PbActive \<and> ps_connector s = trim_space (si_connector x)
     \<and> lr_SessionID routable_result = trim_space (ps_id s) \<and> lr_SessionEpoch routable_result = ps_epoch s
     \<and> sv \<in> ran (map_of (cr_services routable_registry)) \<and> ls_status sv = ServiceStatusActive
     \<and> trim_space (ls_id sv) = lr_LogicalServiceID routable_result"
  by (rule library_resolution_is_routable[OF _ routable_registry_def _ routable_resolves])
    (simp_all add: routable_writes_def sample_session_of_def sample_instance_of_def trim_canonical
      sample_library_request_def sample_library_route_def routable_result_def)

end
