(* ===== verification/Discovery.thy ===== *)
theory Discovery
  imports Library_Resolver
begin

text \<open>
  Discovery of external endpoints (\<open>ltfp/discovery/manager.go, selector.go, dial_guard.go\<close>): a
  cache in front of providers, with a security policy, the choice of an endpoint, and the guard of
  dials. A provider is a parameter, and so are \<open>netip.ParseAddr\<close> and \<open>Prefix.Contains\<close>; the
  semaphore of the queries is the environment: a query that waits for it and is cancelled gets the
  context's error.
\<close>

section \<open>Manager\<close>

record endpoint =
  ep_Host :: string
  ep_Port :: "32 word"
  ep_Health :: health_status
  ep_Metadata :: labels

datatype query_mode = QueryModeCacheFirst | QueryModeRefreshOnMiss | QueryModeStaleIfError | QueryModeOther string

record cache_entry =
  ce_endpoints :: "endpoint list"
  ce_expires :: gotime
  ce_stale_until :: gotime

text \<open>An address is of type \<open>'ip\<close>; a prefix is the set of addresses it contains.\<close>

record 'ip security_policy =
  sp_Providers :: "string list"
  sp_Namespaces :: "string list"
  sp_Services :: "string list"
  sp_Allow :: "('ip \<Rightarrow> bool) list"
  sp_Deny :: "('ip \<Rightarrow> bool) list"

record discovery_manager =
  dm_providers :: "string list"
  dm_cache :: "(string, cache_entry) gomap"

definition new_discovery_manager :: discovery_manager where
  "new_discovery_manager = \<lparr>dm_providers = [], dm_cache = []\<rparr>"

definition register_provider :: "string \<Rightarrow> discovery_manager \<Rightarrow> discovery_manager" where
  "register_provider name m = m\<lparr>dm_providers := List.insert (trim_space name) (dm_providers m)\<rparr>"

definition code_discovery_provider_not_allowed :: string where
  "code_discovery_provider_not_allowed = ''DISCOVERY_PROVIDER_NOT_ALLOWED''"
definition code_discovery_namespace_not_allowed :: string where
  "code_discovery_namespace_not_allowed = ''DISCOVERY_NAMESPACE_NOT_ALLOWED''"
definition code_discovery_service_not_allowed :: string where
  "code_discovery_service_not_allowed = ''DISCOVERY_SERVICE_NOT_ALLOWED''"
definition code_discovery_endpoint_denied :: string where
  "code_discovery_endpoint_denied = ''DISCOVERY_ENDPOINT_DENIED''"
definition code_discovery_no_endpoint :: string where
  "code_discovery_no_endpoint = ''DISCOVERY_NO_ENDPOINT''"
definition code_discovery_provider_unavailable :: string where
  "code_discovery_provider_unavailable = ''DISCOVERY_PROVIDER_UNAVAILABLE''"

definition validate_security :: "'ip security_policy \<Rightarrow> discovery_query \<Rightarrow> chain_err option" where
  "validate_security pol q =
     (if sp_Providers pol \<noteq> [] \<and> trim_space (dq_Provider q) \<notin> set (sp_Providers pol)
      then Some (new_error code_discovery_provider_not_allowed ''provider is not in allowlist'')
      else if sp_Namespaces pol \<noteq> [] \<and> trim_space (dq_Namespace q) \<notin> set (sp_Namespaces pol)
      then Some (new_error code_discovery_namespace_not_allowed ''namespace is not in allowlist'')
      else if sp_Services pol \<noteq> [] \<and> trim_space (dq_ServiceName q) \<notin> set (sp_Services pol)
      then Some (new_error code_discovery_service_not_allowed ''serviceName is not in allowlist'')
      else None)"

definition build_cache_key :: "discovery_query \<Rightarrow> string" where
  "build_cache_key q =
     trim_space (dq_Provider q) @ ''|'' @ trim_space (dq_Namespace q) @ ''|'' @ trim_space (dq_Environment q)
       @ ''|'' @ trim_space (dq_ServiceName q) @ ''|'' @ trim_space (dq_Group q)"

definition load_fresh_cache :: "string \<Rightarrow> gotime \<Rightarrow> discovery_manager \<Rightarrow> endpoint list option" where
  "load_fresh_cache k now m =
     (case map_of (dm_cache m) k of None \<Rightarrow> None
      | Some e \<Rightarrow> if now > ce_expires e then None else Some (ce_endpoints e))"

definition load_stale_cache :: "string \<Rightarrow> gotime \<Rightarrow> discovery_manager \<Rightarrow> endpoint list option" where
  "load_stale_cache k now m =
     (case map_of (dm_cache m) k of None \<Rightarrow> None
      | Some e \<Rightarrow> if now > ce_stale_until e then None else Some (ce_endpoints e))"

definition store_cache ::
    "string \<Rightarrow> endpoint list \<Rightarrow> duration \<Rightarrow> duration \<Rightarrow> gotime \<Rightarrow> discovery_manager \<Rightarrow> discovery_manager" where
  "store_cache k es cache_ttl stale_ttl now m =
     (let c = (if cache_ttl \<le> 0 then 5000000000 else cache_ttl);
          s = (if stale_ttl \<le> 0 then 15000000000 else stale_ttl)
      in m\<lparr>dm_cache := map_put k \<lparr>ce_endpoints = es, ce_expires = now + c, ce_stale_until = now + s\<rparr> (dm_cache m)\<rparr>)"

text \<open>\<open>isEndpointAllowed\<close>: a host that is no address passes; \<open>False\<close> never comes without an error.\<close>

definition is_endpoint_allowed :: "(string \<Rightarrow> 'ip option) \<Rightarrow> 'ip security_policy \<Rightarrow> string \<Rightarrow> chain_err option" where
  "is_endpoint_allowed parse_addr pol host =
     (case parse_addr (trim_space host) of
        None \<Rightarrow> None
      | Some ip \<Rightarrow>
          if list_ex (\<lambda>p. p ip) (sp_Deny pol)
          then Some (new_error code_discovery_endpoint_denied ''endpoint host is denied by cidr policy'')
          else if sp_Allow pol = [] then None
          else if list_ex (\<lambda>p. p ip) (sp_Allow pol) then None
          else Some (new_error code_discovery_endpoint_denied ''endpoint host is not in allow cidr list''))"

fun filter_endpoints ::
    "(string \<Rightarrow> 'ip option) \<Rightarrow> 'ip security_policy \<Rightarrow> endpoint list \<Rightarrow> chain_err + endpoint list" where
  "filter_endpoints parse_addr pol [] = Inr []"
| "filter_endpoints parse_addr pol (e # es) =
     (if ep_Port e = 0 \<or> trim_space (ep_Host e) = [] then filter_endpoints parse_addr pol es
      else if ep_Health e = HealthStatusUnhealthy then filter_endpoints parse_addr pol es
      else case is_endpoint_allowed parse_addr pol (ep_Host e) of
          Some err \<Rightarrow> Inl err
        | None \<Rightarrow> (case filter_endpoints parse_addr pol es of Inl err \<Rightarrow> Inl err | Inr rest \<Rightarrow> Inr (e # rest)))"

text \<open>
  \<open>queryProvider\<close>: the answer of the provider, or of the wait for the semaphore, is an argument.
\<close>

definition query_provider ::
    "(discovery_query \<Rightarrow> chain_err + endpoint list) \<Rightarrow> discovery_query \<Rightarrow> discovery_manager \<Rightarrow> chain_err + endpoint list" where
  "query_provider provider q m =
     (if trim_space (dq_Provider q) \<notin> set (dm_providers m)
      then Inl (new_error code_discovery_provider_unavailable ''provider is not registered'')
      else provider q)"

text \<open>\<open>Query\<close>. Others may write the cache while the provider is asked: \<open>m'\<close> is the manager then.\<close>

definition discovery_query_run ::
    "(string \<Rightarrow> 'ip option) \<Rightarrow> 'ip security_policy \<Rightarrow> (discovery_query \<Rightarrow> chain_err + endpoint list) \<Rightarrow> gotime
      \<Rightarrow> query_mode \<Rightarrow> discovery_query \<Rightarrow> discovery_manager \<Rightarrow> discovery_manager
      \<Rightarrow> (chain_err + endpoint list) \<times> discovery_manager" where
  "discovery_query_run parse_addr pol provider now mode q m m' =
     (case validate_security pol q of
        Some e \<Rightarrow> (Inl e, m)
      | None \<Rightarrow>
        (let k = build_cache_key q;
             cached = (if mode = QueryModeCacheFirst \<or> mode = QueryModeRefreshOnMiss \<or> mode = QueryModeStaleIfError
                       then load_fresh_cache k now m else None)
         in case cached of
              Some es \<Rightarrow> (Inr es, m)
            | None \<Rightarrow>
              (case query_provider provider q m of
                 Inr es \<Rightarrow>
                   (case filter_endpoints parse_addr pol es of
                      Inl e \<Rightarrow> (Inl e, m')
                    | Inr ok \<Rightarrow>
                        if ok = []
                        then (Inl (new_error code_discovery_no_endpoint ''discovery returned no usable endpoint''), m')
                        else (Inr ok, store_cache k ok (dq_CacheTTL q) (dq_StaleIfErrorTTL q) now m'))
               | Inl e \<Rightarrow>
                   (case (if mode = QueryModeStaleIfError then load_stale_cache k now m' else None) of
                      Some es \<Rightarrow> (Inr es, m')
                    | None \<Rightarrow>
                        (Inl (wrap_error code_discovery_provider_unavailable ''discovery provider query failed'' e), m')))))"


section \<open>Choice and dial\<close>

definition filter_usable_endpoints :: "endpoint list \<Rightarrow> endpoint list" where
  "filter_usable_endpoints es =
     filter (\<lambda>e. \<not> (trim_space (ep_Host e) = [] \<or> ep_Port e = 0) \<and> ep_Health e \<noteq> HealthStatusUnhealthy) es"

datatype select_strategy = SelectStrategyRoundRobin | SelectStrategyRandom | SelectStrategyOther string

text \<open>The state is the counter; \<open>random n\<close> is the next \<open>Intn(n)\<close>.\<close>

definition select_endpoint ::
    "(nat \<Rightarrow> nat) \<Rightarrow> select_strategy \<Rightarrow> endpoint list \<Rightarrow> 64 word \<Rightarrow> (chain_err + endpoint) \<times> 64 word" where
  "select_endpoint random strategy es counter =
     (let usable = filter_usable_endpoints es
      in if usable = [] then (Inl (new_error code_discovery_no_endpoint ''no usable endpoint for selection''), counter)
         else case strategy of
             SelectStrategyRoundRobin \<Rightarrow> (Inr (usable ! unat (counter mod of_nat (length usable))), counter + 1)
           | SelectStrategyRandom \<Rightarrow> (Inr (usable ! random (length usable)), counter)
           | SelectStrategyOther s \<Rightarrow>
               (Inl (new_error code_unsupported_value (''unsupported endpoint select strategy: '' @ s)), counter))"

record dial_guard =
  dg_max :: nat
  dg_timeout :: duration

definition new_dial_guard :: "int \<Rightarrow> duration \<Rightarrow> dial_guard" where
  "new_dial_guard max_concurrent timeout =
     \<lparr>dg_max = (if max_concurrent \<le> 0 then 1 else nat max_concurrent),
      dg_timeout = (if timeout \<le> 0 then 3000000000 else timeout)\<rparr>"

text \<open>
  \<open>Do\<close> as its two sections: taking a slot of the semaphore (\<open>used\<close> are taken), and what becomes of
  the dial's answer when the slot is given back. \<open>timed_out\<close>: the guard's own deadline passed.
\<close>

definition dial_guard_acquire :: "dial_guard \<Rightarrow> nat \<Rightarrow> chain_err option \<times> nat" where
  "dial_guard_acquire g used =
     (if used < dg_max g then (None, used + 1)
      else (Some (new_error ''DIRECT_PROXY_CONCURRENCY_LIMIT'' ''direct proxy concurrent dial limit reached''), used))"

definition dial_guard_finish :: "chain_err option \<Rightarrow> bool \<Rightarrow> nat \<Rightarrow> chain_err option \<times> nat" where
  "dial_guard_finish answer timed_out used =
     (case answer of
        None \<Rightarrow> None
      | Some e \<Rightarrow>
          if is_deadline e \<or> timed_out then Some (wrap_error ''DIRECT_PROXY_TIMEOUT'' ''direct proxy dial timed out'' e)
          else Some (wrap_error ''DIRECT_PROXY_DIAL_FAILED'' ''direct proxy dial failed'' e), used - 1)"


section \<open>What a query hands out\<close>

definition endpoint_ok :: "(string \<Rightarrow> 'ip option) \<Rightarrow> 'ip security_policy \<Rightarrow> endpoint \<Rightarrow> bool" where
  "endpoint_ok parse_addr pol e \<longleftrightarrow>
     ep_Port e \<noteq> 0 \<and> trim_space (ep_Host e) \<noteq> [] \<and> ep_Health e \<noteq> HealthStatusUnhealthy
     \<and> is_endpoint_allowed parse_addr pol (ep_Host e) = None"

lemma filter_endpoints_ok:
  "filter_endpoints parse_addr pol es = Inr ok \<Longrightarrow> set ok \<subseteq> set es \<and> list_all (endpoint_ok parse_addr pol) ok"
proof (induction es arbitrary: ok)
  case (Cons e es)
  show ?case
  proof (cases "ep_Port e = 0 \<or> trim_space (ep_Host e) = [] \<or> ep_Health e = HealthStatusUnhealthy")
    case True
    then have "filter_endpoints parse_addr pol es = Inr ok" using Cons.prems by (auto split: if_splits)
    from Cons.IH[OF this] show ?thesis by auto
  next
    case False
    then obtain rest where r: "is_endpoint_allowed parse_addr pol (ep_Host e) = None"
        "filter_endpoints parse_addr pol es = Inr rest" "ok = e # rest"
      using Cons.prems by (simp split: option.splits sum.splits)
    from Cons.IH[OF r(2)] show ?thesis using r(1,3) False by (auto simp: endpoint_ok_def)
  qed
qed simp

text \<open>An entry of the history: the query, its instant, and what the provider answered.\<close>

type_synonym answers = "(discovery_query \<times> gotime \<times> endpoint list) list"

definition cache_ttl_of :: "discovery_query \<Rightarrow> duration" where
  "cache_ttl_of q = (if dq_CacheTTL q \<le> 0 then 5000000000 else dq_CacheTTL q)"

definition stale_ttl_of :: "discovery_query \<Rightarrow> duration" where
  "stale_ttl_of q = (if dq_StaleIfErrorTTL q \<le> 0 then 15000000000 else dq_StaleIfErrorTTL q)"

definition answered ::
    "(string \<Rightarrow> 'ip option) \<Rightarrow> 'ip security_policy \<Rightarrow> answers \<Rightarrow> string \<Rightarrow> (discovery_query \<Rightarrow> gotime \<Rightarrow> bool)
      \<Rightarrow> endpoint list \<Rightarrow> bool" where
  "answered parse_addr pol h k timely es \<longleftrightarrow>
     (\<exists>(q, t, raw)\<in>set h. build_cache_key q = k \<and> filter_endpoints parse_addr pol raw = Inr es \<and> timely q t)"

definition cache_sound :: "(string \<Rightarrow> 'ip option) \<Rightarrow> 'ip security_policy \<Rightarrow> answers \<Rightarrow> discovery_manager \<Rightarrow> bool" where
  "cache_sound parse_addr pol h m \<longleftrightarrow>
     (\<forall>k e. map_of (dm_cache m) k = Some e \<longrightarrow> ce_endpoints e \<noteq> []
        \<and> answered parse_addr pol h k
             (\<lambda>q t. ce_expires e = t + cache_ttl_of q \<and> ce_stale_until e = t + stale_ttl_of q) (ce_endpoints e))"

lemma answered_mono:
  assumes "answered parse_addr pol h k timely es" and "\<And>q t. timely q t \<Longrightarrow> timely' q t"
  shows "answered parse_addr pol (h @ h') k timely' es"
proof -
  obtain q t raw where "(q, t, raw) \<in> set h" "build_cache_key q = k" "filter_endpoints parse_addr pol raw = Inr es" "timely q t"
    using assms(1) by (auto simp: answered_def)
  then show ?thesis unfolding answered_def by (intro bexI[of _ "(q, t, raw)"]) (simp_all add: assms(2))
qed

lemma cache_sound_more: "cache_sound parse_addr pol h m \<Longrightarrow> cache_sound parse_addr pol (h @ h') m"
  unfolding cache_sound_def by (meson answered_mono)

lemma cache_sound_put:
  assumes "cache_sound parse_addr pol h m" and "ce_endpoints e \<noteq> []"
    and "answered parse_addr pol h k
           (\<lambda>q t. ce_expires e = t + cache_ttl_of q \<and> ce_stale_until e = t + stale_ttl_of q) (ce_endpoints e)"
  shows "cache_sound parse_addr pol h (m\<lparr>dm_cache := map_put k e (dm_cache m)\<rparr>)"
  unfolding cache_sound_def
proof (intro allI impI)
  fix k' e'
  assume a: "map_of (dm_cache (m\<lparr>dm_cache := map_put k e (dm_cache m)\<rparr>)) k' = Some e'"
  show "ce_endpoints e' \<noteq> [] \<and> answered parse_addr pol h k'
          (\<lambda>q t. ce_expires e' = t + cache_ttl_of q \<and> ce_stale_until e' = t + stale_ttl_of q) (ce_endpoints e')"
  proof (cases "k' = k")
    case True
    then have "e' = e" using a by simp
    then show ?thesis using assms(2,3) True by simp
  next
    case False
    then have "map_of (dm_cache m) k' = Some e'" using a by simp
    then show ?thesis using assms(1) by (simp add: cache_sound_def)
  qed
qed

lemma answered_last:
  "filter_endpoints parse_addr pol raw = Inr ok \<Longrightarrow> timely q now
     \<Longrightarrow> answered parse_addr pol (h @ [(q, now, raw)]) (build_cache_key q) timely ok"
  unfolding answered_def by (rule bexI[of _ "(q, now, raw)"]) simp_all

lemma cache_sound_store:
  assumes "cache_sound parse_addr pol h m" and "filter_endpoints parse_addr pol raw = Inr ok" and "ok \<noteq> []"
  shows "cache_sound parse_addr pol (h @ [(q, now, raw)])
           (store_cache (build_cache_key q) ok (dq_CacheTTL q) (dq_StaleIfErrorTTL q) now m)"
proof -
  let ?e = "\<lparr>ce_endpoints = ok, ce_expires = now + cache_ttl_of q, ce_stale_until = now + stale_ttl_of q\<rparr>"
  have "store_cache (build_cache_key q) ok (dq_CacheTTL q) (dq_StaleIfErrorTTL q) now m
      = m\<lparr>dm_cache := map_put (build_cache_key q) ?e (dm_cache m)\<rparr>"
    by (simp add: store_cache_def Let_def cache_ttl_of_def stale_ttl_of_def)
  then show ?thesis
    using cache_sound_put[OF cache_sound_more[OF assms(1), of "[(q, now, raw)]"], where e = ?e and k = "build_cache_key q"] assms(2,3) answered_last[OF assms(2)]
    by simp
qed

lemma fresh_is_answered:
  assumes "cache_sound parse_addr pol h m" and "load_fresh_cache k now m = Some es"
  shows "es \<noteq> [] \<and> answered parse_addr pol h k (\<lambda>q t. now \<le> t + cache_ttl_of q) es"
proof -
  obtain e where e: "map_of (dm_cache m) k = Some e" "now \<le> ce_expires e" "es = ce_endpoints e"
    using assms(2) by (auto simp: load_fresh_cache_def split: option.splits if_splits)
  then have "es \<noteq> []" and "answered parse_addr pol h k
      (\<lambda>q t. ce_expires e = t + cache_ttl_of q \<and> ce_stale_until e = t + stale_ttl_of q) es"
    using assms(1) by (auto simp: cache_sound_def)
  from answered_mono[OF this(2), where h' = "[]" and timely' = "\<lambda>q t. now \<le> t + cache_ttl_of q"] e(2) this(1)
  show ?thesis by simp
qed

lemma stale_is_answered:
  assumes "cache_sound parse_addr pol h m" and "load_stale_cache k now m = Some es"
  shows "es \<noteq> [] \<and> answered parse_addr pol h k (\<lambda>q t. now \<le> t + stale_ttl_of q) es"
proof -
  obtain e where e: "map_of (dm_cache m) k = Some e" "now \<le> ce_stale_until e" "es = ce_endpoints e"
    using assms(2) by (auto simp: load_stale_cache_def split: option.splits if_splits)
  then have "es \<noteq> []" and "answered parse_addr pol h k
      (\<lambda>q t. ce_expires e = t + cache_ttl_of q \<and> ce_stale_until e = t + stale_ttl_of q) es"
    using assms(1) by (auto simp: cache_sound_def)
  from answered_mono[OF this(2), where h' = "[]" and timely' = "\<lambda>q t. now \<le> t + stale_ttl_of q"] e(2) this(1)
  show ?thesis by simp
qed

text \<open>
  The history a query leaves, when it starts on \<open>m\<close>: the provider's answer, if it was asked and
  gave one.
\<close>

definition asks_provider ::
    "'ip security_policy \<Rightarrow> gotime \<Rightarrow> query_mode \<Rightarrow> discovery_query \<Rightarrow> discovery_manager \<Rightarrow> bool" where
  "asks_provider pol now mode q m \<longleftrightarrow>
     validate_security pol q = None
     \<and> ((\<exists>s. mode = QueryModeOther s) \<or> load_fresh_cache (build_cache_key q) now m = None)
     \<and> trim_space (dq_Provider q) \<in> set (dm_providers m)"

definition answers_of ::
    "'ip security_policy \<Rightarrow> (discovery_query \<Rightarrow> chain_err + endpoint list) \<Rightarrow> gotime \<Rightarrow> query_mode \<Rightarrow> discovery_query
      \<Rightarrow> discovery_manager \<Rightarrow> answers" where
  "answers_of pol provider now mode q m =
     (if asks_provider pol now mode q m
      then (case provider q of Inl e \<Rightarrow> [] | Inr es \<Rightarrow> [(q, now, es)]) else [])"

text \<open>The outcomes of a query.\<close>

lemma discovery_query_cases:
  assumes "discovery_query_run parse_addr pol provider now mode q m m' = (r, m'')"
  obtains (refused) e where "r = Inl e" "m'' = m"
  | (fresh) es where "r = Inr es" "m'' = m" "validate_security pol q = None"
      "load_fresh_cache (build_cache_key q) now m = Some es"
  | (failed) e where "r = Inl e" "m'' = m'"
  | (stale) es where "r = Inr es" "m'' = m'" "validate_security pol q = None" "mode = QueryModeStaleIfError"
      "load_stale_cache (build_cache_key q) now m' = Some es"
  | (stored) raw ok where "r = Inr ok" "validate_security pol q = None" "asks_provider pol now mode q m"
      "provider q = Inr raw" "filter_endpoints parse_addr pol raw = Inr ok" "ok \<noteq> []"
      "m'' = store_cache (build_cache_key q) ok (dq_CacheTTL q) (dq_StaleIfErrorTTL q) now m'"
proof (cases "validate_security pol q")
  case (Some e)
  then show thesis using assms refused by (auto simp: discovery_query_run_def)
next
  case v: None
  define cached where "cached = (if mode = QueryModeCacheFirst \<or> mode = QueryModeRefreshOnMiss \<or> mode = QueryModeStaleIfError
    then load_fresh_cache (build_cache_key q) now m else None)"
  show thesis
  proof (cases cached)
    case (Some es)
    then show thesis using assms v fresh[of es] by (auto simp: discovery_query_run_def Let_def cached_def split: if_splits)
  next
    case miss: None
    then have asked: "(\<exists>s. mode = QueryModeOther s) \<or> load_fresh_cache (build_cache_key q) now m = None"
      by (cases mode) (simp_all add: cached_def)
    have run: "(r, m'') = (case query_provider provider q m of
        Inr es \<Rightarrow> (case filter_endpoints parse_addr pol es of
            Inl e \<Rightarrow> (Inl e, m')
          | Inr ok \<Rightarrow> if ok = [] then (Inl (new_error code_discovery_no_endpoint ''discovery returned no usable endpoint''), m')
              else (Inr ok, store_cache (build_cache_key q) ok (dq_CacheTTL q) (dq_StaleIfErrorTTL q) now m'))
      | Inl e \<Rightarrow> (case (if mode = QueryModeStaleIfError then load_stale_cache (build_cache_key q) now m' else None) of
            Some es \<Rightarrow> (Inr es, m')
          | None \<Rightarrow> (Inl (wrap_error code_discovery_provider_unavailable ''discovery provider query failed'' e), m')))"
      using assms v miss by (simp add: discovery_query_run_def Let_def cached_def[symmetric])
    show thesis
    proof (cases "query_provider provider q m")
      case (Inl e)
      then show thesis using run v failed stale by (auto split: option.splits if_splits)
    next
      case (Inr raw)
      then have p: "asks_provider pol now mode q m" "provider q = Inr raw"
        using v asked by (auto simp: query_provider_def asks_provider_def split: if_splits)
      show thesis
      proof (cases "filter_endpoints parse_addr pol raw")
        case (Inl e)
        then show thesis using run Inr failed by simp
      next
        case ok: (Inr ok)
        then show thesis using run Inr failed stored[OF _ v p ok] by (auto split: if_splits)
      qed
    qed
  qed
qed


text \<open>The age an answer to \<open>q\<close> may have when it is handed out in a mode.\<close>

definition age_limit :: "query_mode \<Rightarrow> discovery_query \<Rightarrow> duration" where
  "age_limit mode q = (if mode = QueryModeStaleIfError then max (cache_ttl_of q) (stale_ttl_of q) else cache_ttl_of q)"

lemma answered_weaken:
  "answered parse_addr pol h k timely es \<Longrightarrow> (\<And>q t. timely q t \<Longrightarrow> timely' q t)
     \<Longrightarrow> answered parse_addr pol h k timely' es"
  by (drule answered_mono[where h' = "[]"], assumption) simp

lemma discovery_query_sound:
  assumes m: "cache_sound parse_addr pol h m" and m': "cache_sound parse_addr pol (h @ h') m'"
    and run: "discovery_query_run parse_addr pol provider now mode q m m' = (r, m'')"
  shows "cache_sound parse_addr pol (h @ h' @ answers_of pol provider now mode q m) m''"
    and "r = Inr es \<Longrightarrow> validate_security pol q = None \<and> es \<noteq> []
       \<and> answered parse_addr pol (h @ h' @ answers_of pol provider now mode q m) (build_cache_key q)
           (\<lambda>q' t. now \<le> t + age_limit mode q') es"
proof -
  let ?h = "h @ h' @ answers_of pol provider now mode q m"
  have keep: "cache_sound parse_addr pol ?h m" "cache_sound parse_addr pol ?h m'"
    using cache_sound_more[OF m] cache_sound_more[OF m'] by simp_all
  have grown: "cache_sound parse_addr pol ?h m'' \<and> (\<forall>es. r = Inr es \<longrightarrow> validate_security pol q = None \<and> es \<noteq> []
     \<and> answered parse_addr pol ?h (build_cache_key q)
         (\<lambda>q' t. now \<le> t + age_limit mode q') es)"
    using run
  proof (cases rule: discovery_query_cases)
    case (fresh es)
    note a = fresh_is_answered[OF keep(1) fresh(4)]
    have "answered parse_addr pol ?h (build_cache_key q) (\<lambda>q' t. now \<le> t + age_limit mode q') es"
    proof (rule answered_weaken)
      show "answered parse_addr pol ?h (build_cache_key q) (\<lambda>q' t. now \<le> t + cache_ttl_of q') es" using a by blast
      show "now \<le> t + cache_ttl_of q' \<Longrightarrow> now \<le> t + age_limit mode q'" for q' t by (simp add: age_limit_def max_def)
    qed
    then show ?thesis using a fresh keep by simp
  next
    case (stale es)
    note a = stale_is_answered[OF keep(2) stale(5)]
    have "answered parse_addr pol ?h (build_cache_key q) (\<lambda>q' t. now \<le> t + age_limit mode q') es"
    proof (rule answered_weaken)
      show "answered parse_addr pol ?h (build_cache_key q) (\<lambda>q' t. now \<le> t + stale_ttl_of q') es" using a by blast
      show "now \<le> t + stale_ttl_of q' \<Longrightarrow> now \<le> t + age_limit mode q'" for q' t by (simp add: age_limit_def stale(4) max_def)
    qed
    then show ?thesis using a stale keep by simp
  next
    case (stored raw ok)
    then have h: "?h = (h @ h') @ [(q, now, raw)]" by (simp add: answers_of_def)
    have "0 \<le> cache_ttl_of q" by (simp add: cache_ttl_of_def)
    then have "answered parse_addr pol ?h (build_cache_key q)
        (\<lambda>q' t. now \<le> t + age_limit mode q') ok"
      unfolding h by (intro answered_last stored) (simp add: age_limit_def max_def)
    moreover have "cache_sound parse_addr pol ?h m''"
      unfolding h stored(7) by (rule cache_sound_store[OF m' stored(5,6)])
    ultimately show ?thesis using stored by simp
  qed (use keep in simp_all)
  show "cache_sound parse_addr pol ?h m''" using grown by blast
  show "r = Inr es \<Longrightarrow> validate_security pol q = None \<and> es \<noteq> []
       \<and> answered parse_addr pol ?h (build_cache_key q)
           (\<lambda>q' t. now \<le> t + age_limit mode q') es"
    using grown by blast
qed

text \<open>
  The managers a program can reach, with the answers its providers gave: providers are registered,
  and queries run, during which other operations may run (\<open>m'\<close> is reached from \<open>m\<close> by them).
\<close>

inductive discovery_reach ::
    "(string \<Rightarrow> 'ip option) \<Rightarrow> 'ip security_policy \<Rightarrow> answers \<Rightarrow> discovery_manager \<Rightarrow> bool"
  for parse_addr pol where
  reach_new: "discovery_reach parse_addr pol [] new_discovery_manager"
| reach_register: "discovery_reach parse_addr pol h m \<Longrightarrow> discovery_reach parse_addr pol h (register_provider name m)"
| reach_query: "discovery_reach parse_addr pol h m \<Longrightarrow> discovery_reach parse_addr pol (h @ h') m'
     \<Longrightarrow> discovery_query_run parse_addr pol provider now mode q m m' = (r, m'')
     \<Longrightarrow> discovery_reach parse_addr pol (h @ h' @ answers_of pol provider now mode q m) m''"

lemma reach_cache_sound: "discovery_reach parse_addr pol h m \<Longrightarrow> cache_sound parse_addr pol h m"
proof (induction rule: discovery_reach.induct)
  case reach_new
  show ?case by (simp add: cache_sound_def new_discovery_manager_def)
next
  case (reach_register h m name)
  then show ?case by (simp add: cache_sound_def register_provider_def)
next
  case (reach_query h m h' m' provider now mode q r m'')
  show ?case by (rule discovery_query_sound(1)[OF reach_query.IH reach_query.hyps(3)])
qed

text \<open>C13. What discovery hands out is allowed and timely: whatever queries ran before or run meanwhile,
  a query that returns endpoints has passed the allowlists of provider, namespace and service, and
  returns a non-empty list, each with a host and a port, not unhealthy, and with an address the
  policy allows; the list is the filtered answer of a provider to a query with the same cache key,
  no older than the cache lifetime that query asked for, or its stale lifetime in the mode
  \<open>stale_if_error\<close>.\<close>

theorem discovered_endpoints_are_allowed:
  assumes m: "discovery_reach parse_addr pol h m" and m': "discovery_reach parse_addr pol (h @ h') m'"
    and run: "discovery_query_run parse_addr pol provider now mode q m m' = (Inr es, m'')"
  shows "validate_security pol q = None \<and> es \<noteq> [] \<and> list_all (endpoint_ok parse_addr pol) es
    \<and> (\<exists>(q', t, raw)\<in>set (h @ h' @ answers_of pol provider now mode q m).
         build_cache_key q' = build_cache_key q \<and> set es \<subseteq> set raw
         \<and> now \<le> t + age_limit mode q')"
proof -
  have s: "validate_security pol q = None" "es \<noteq> []"
    "answered parse_addr pol (h @ h' @ answers_of pol provider now mode q m) (build_cache_key q)
       (\<lambda>q' t. now \<le> t + age_limit mode q') es"
    using discovery_query_sound(2)[OF reach_cache_sound[OF m] reach_cache_sound[OF m'] run refl] by blast+
  then obtain q' t raw where "(q', t, raw) \<in> set (h @ h' @ answers_of pol provider now mode q m)"
      "build_cache_key q' = build_cache_key q" "filter_endpoints parse_addr pol raw = Inr es"
      "now \<le> t + age_limit mode q'"
    by (auto simp: answered_def)
  then show ?thesis using s(1,2) filter_endpoints_ok[of parse_addr pol raw es] by (intro conjI bexI[of _ "(q', t, raw)"]) simp_all
qed


definition sample_query :: discovery_query where
  "sample_query = \<lparr>dq_Provider = ''s'', dq_Namespace = [], dq_Environment = [], dq_ServiceName = ''c'', dq_Group = [],
     dq_CacheTTL = 0, dq_StaleIfErrorTTL = 0\<rparr>"

definition sample_endpoint :: endpoint where
  "sample_endpoint = \<lparr>ep_Host = ''c'', ep_Port = 80, ep_Health = HealthStatusHealthy, ep_Metadata = []\<rparr>"

definition open_policy :: "nat security_policy" where
  "open_policy = \<lparr>sp_Providers = [''s''], sp_Namespaces = [], sp_Services = [], sp_Allow = [], sp_Deny = []\<rparr>"

definition sample_discovery :: discovery_manager where
  "sample_discovery = register_provider ''s'' new_discovery_manager"

lemma sample_discovery_reached: "discovery_reach (\<lambda>_. None) open_policy [] sample_discovery"
  unfolding sample_discovery_def by (intro reach_register reach_new)

lemma sample_query_runs:
  "discovery_query_run (\<lambda>_. None) open_policy (\<lambda>_. Inr [sample_endpoint]) 7 QueryModeCacheFirst sample_query
     sample_discovery sample_discovery
   = (Inr [sample_endpoint], store_cache (build_cache_key sample_query) [sample_endpoint] 0 0 7 sample_discovery)"
  by (simp add: discovery_query_run_def validate_security_def open_policy_def sample_query_def sample_discovery_def
      register_provider_def new_discovery_manager_def load_fresh_cache_def query_provider_def sample_endpoint_def
      is_endpoint_allowed_def trim_canonical Let_def)

theorem discovered_endpoints_are_allowed_witness:
  "validate_security open_policy sample_query = None \<and> [sample_endpoint] \<noteq> []
    \<and> list_all (endpoint_ok (\<lambda>_. None) open_policy) [sample_endpoint]
    \<and> (\<exists>(q', t, raw)\<in>set ([] @ [] @ answers_of open_policy (\<lambda>_. Inr [sample_endpoint]) 7 QueryModeCacheFirst sample_query
            sample_discovery).
         build_cache_key q' = build_cache_key sample_query \<and> set [sample_endpoint] \<subseteq> set raw
         \<and> 7 \<le> t + age_limit QueryModeCacheFirst q')"
  by (rule discovered_endpoints_are_allowed[OF _ _ sample_query_runs])
    (use sample_discovery_reached in simp_all)

text \<open>
  The key of the cache joins the fields of a query with bars and escapes none: a service name with
  a bar in it meets another query's group.
\<close>

lemma cache_keys_collide:
  "build_cache_key (sample_query\<lparr>dq_ServiceName := ''c|s'', dq_Group := []\<rparr>)
     = build_cache_key (sample_query\<lparr>dq_ServiceName := ''c'', dq_Group := ''s|''\<rparr>)"
proof -
  have "trim_space ''c|s'' = ''c|s''" "trim_space ''s|'' = ''s|''"
    by (rule trim_space_graphic; simp add: graphic_def)+
  then show ?thesis by (simp add: build_cache_key_def sample_query_def trim_canonical)
qed


section \<open>The choice and the guard\<close>

lemma select_endpoint_usable:
  assumes "\<And>n. 0 < n \<Longrightarrow> random n < n" and "length es < 2 ^ 64"
    and "select_endpoint random strategy es counter = (Inr e, counter')"
  shows "e \<in> set es \<and> ep_Port e \<noteq> 0 \<and> trim_space (ep_Host e) \<noteq> [] \<and> ep_Health e \<noteq> HealthStatusUnhealthy"
proof -
  let ?u = "filter_usable_endpoints es"
  have ne: "?u \<noteq> []" using assms(3) by (auto simp: select_endpoint_def Let_def)
  have "length ?u < 2 ^ 64"
    unfolding filter_usable_endpoints_def by (rule le_less_trans[OF length_filter_le assms(2)])
  then have "unat (of_nat (length ?u) :: 64 word) = length ?u" by (simp add: unat_of_nat)
  then have "unat (counter mod of_nat (length ?u)) < length ?u" using ne by (simp add: unat_mod)
  then have "e \<in> set ?u"
    using assms(1,3) ne by (cases strategy) (auto simp: select_endpoint_def Let_def intro!: nth_mem)
  then show ?thesis by (auto simp: filter_usable_endpoints_def)
qed

text \<open>The slots taken, under any sequence of acquires and finishes of those that acquired.\<close>

datatype guard_step = GuardAcquire | GuardFinish "chain_err option" bool

fun guard_apply :: "dial_guard \<Rightarrow> guard_step \<Rightarrow> nat \<Rightarrow> nat" where
  "guard_apply g GuardAcquire used = snd (dial_guard_acquire g used)"
| "guard_apply g (GuardFinish answer timed_out) used = snd (dial_guard_finish answer timed_out used)"

lemma dials_are_bounded: "used \<le> dg_max g \<Longrightarrow> fold (guard_apply g) steps used \<le> dg_max g"
proof (induction steps arbitrary: used)
  case (Cons s steps)
  have "guard_apply g s used \<le> dg_max g"
    using Cons.prems by (cases s) (auto simp: dial_guard_acquire_def dial_guard_finish_def)
  then show ?case using Cons.IH by simp
qed simp

lemma new_guard_dials: "0 < dg_max (new_dial_guard n timeout)" "0 < dg_timeout (new_dial_guard n timeout)"
  by (simp_all add: new_dial_guard_def)

end
