(* ===== verification/Direct_Proxy.thy ===== *)
theory Direct_Proxy
  imports Discovery "HOL-Library.List_Lexorder" "HOL-Library.Char_ord"
begin

text \<open>
  The direct path of the bridge (\<open>cloud-bridge/runtime/bridge/directproxy/*.go\<close>): external services
  are found by a discovery provider, their endpoints cached, dialled in order, and relayed. The
  provider, the dialer's transport, the relay and the connections answer as the environment
  chooses; the instants and the writes of other executions between the sections of one execution
  are arguments.
\<close>

section \<open>Errors\<close>

datatype direct_error =
    DirectFault chain_err
  | ErrDiscoveryNoEndpoint
  | ErrDirectDialFailed
  | ErrDirectDependencyMissing string
  | DirectWrapped string direct_error string
  | DirectJoined "direct_error list"

text \<open>\<open>errors.As\<close> for a protocol error: depth first, so that \<open>ExtractCode\<close> gives the first code.\<close>

fun direct_as :: "direct_error \<Rightarrow> (string \<times> string) option" where
  "direct_as (DirectFault e) = as_protocol_error e"
| "direct_as (DirectWrapped s e t) = direct_as e"
| "direct_as (DirectJoined []) = None"
| "direct_as (DirectJoined (e # es)) = (case direct_as e of Some p \<Rightarrow> Some p | None \<Rightarrow> direct_as (DirectJoined es))"
| "direct_as _ = None"

definition direct_code :: "direct_error \<Rightarrow> string" where
  "direct_code e = (case direct_as e of None \<Rightarrow> [] | Some (code, message) \<Rightarrow> code)"

fun is_direct_error :: "direct_error \<Rightarrow> direct_error \<Rightarrow> bool" where
  "is_direct_error target (DirectWrapped s e t) \<longleftrightarrow> is_direct_error target e"
| "is_direct_error target (DirectJoined es) \<longleftrightarrow> list_ex (is_direct_error target) es"
| "is_direct_error target e \<longleftrightarrow> e = target"

datatype failure_kind =
    FailureKindDiscoveryMiss
  | FailureKindDiscoveryRefresh
  | FailureKindDirectDial
  | FailureKindRelay
  | FailureKindClose
  | FailureKindOther string

record mapped_failure =
  mf_HTTPStatus :: int
  mf_Code :: string

definition code_external_proxy_failed :: string where
  "code_external_proxy_failed = ''EXTERNAL_PROXY_FAILED''"
definition code_discovery_refresh_failed :: string where
  "code_discovery_refresh_failed = ''DISCOVERY_REFRESH_FAILED''"
definition code_direct_proxy_dial_failed :: string where
  "code_direct_proxy_dial_failed = ''DIRECT_PROXY_DIAL_FAILED''"
definition code_direct_proxy_relay_failed :: string where
  "code_direct_proxy_relay_failed = ''DIRECT_PROXY_RELAY_FAILED''"

text \<open>\<open>FailureMapper.Map\<close>; its message is the text of the error, which the executor does not pass on.\<close>

definition map_discovery_failure :: "direct_error \<Rightarrow> mapped_failure" where
  "map_discovery_failure e =
     (let code = direct_code e
      in if code \<in> {code_discovery_no_endpoint, code_discovery_provider_unavailable}
         then \<lparr>mf_HTTPStatus = 503, mf_Code = code\<rparr>
         else if code \<in> {code_discovery_provider_not_allowed, code_discovery_namespace_not_allowed,
                         code_discovery_service_not_allowed, code_discovery_endpoint_denied}
         then \<lparr>mf_HTTPStatus = 403, mf_Code = code\<rparr>
         else if code \<in> {code_missing_required_field, code_invalid_payload, code_scope_mismatch, code_unsupported_value}
         then \<lparr>mf_HTTPStatus = 400, mf_Code = code\<rparr>
         else if is_direct_error ErrDiscoveryNoEndpoint e
         then \<lparr>mf_HTTPStatus = 503, mf_Code = code_discovery_no_endpoint\<rparr>
         else \<lparr>mf_HTTPStatus = 503, mf_Code = code_discovery_provider_unavailable\<rparr>)"

definition map_failure :: "direct_error option \<Rightarrow> failure_kind \<Rightarrow> mapped_failure" where
  "map_failure err kind =
     (case err of
        None \<Rightarrow> \<lparr>mf_HTTPStatus = 502, mf_Code = code_external_proxy_failed\<rparr>
      | Some e \<Rightarrow>
          (case kind of
             FailureKindDiscoveryMiss \<Rightarrow> map_discovery_failure e
           | FailureKindDiscoveryRefresh \<Rightarrow> \<lparr>mf_HTTPStatus = 503, mf_Code = code_discovery_refresh_failed\<rparr>
           | FailureKindDirectDial \<Rightarrow> \<lparr>mf_HTTPStatus = 502, mf_Code = code_direct_proxy_dial_failed\<rparr>
           | FailureKindRelay \<Rightarrow> \<lparr>mf_HTTPStatus = 502, mf_Code = code_direct_proxy_relay_failed\<rparr>
           | FailureKindClose \<Rightarrow> \<lparr>mf_HTTPStatus = 502, mf_Code = code_direct_proxy_relay_failed\<rparr>
           | FailureKindOther s \<Rightarrow>
               if is_direct_error ErrDiscoveryNoEndpoint e
               then \<lparr>mf_HTTPStatus = 503, mf_Code = code_discovery_no_endpoint\<rparr>
               else if is_direct_error ErrDirectDialFailed e
               then \<lparr>mf_HTTPStatus = 502, mf_Code = code_direct_proxy_dial_failed\<rparr>
               else \<lparr>mf_HTTPStatus = 502, mf_Code = code_external_proxy_failed\<rparr>))"


section \<open>Discovery\<close>

record external_endpoint =
  xe_EndpointID :: string
  xe_Address :: string
  xe_Metadata :: labels

record discovery_request =
  dr_Provider :: string
  dr_Namespace :: string
  dr_Environment :: string
  dr_ServiceName :: string
  dr_Group :: string
  dr_Selector :: labels
  dr_RequestScope :: scope

type_synonym discovery_provider = "discovery_request \<Rightarrow> direct_error + external_endpoint list"

definition discovery_scope :: "external_service_target \<Rightarrow> scope \<Rightarrow> scope" where
  "discovery_scope t s =
     \<lparr>Namespace = (if trim_space (Namespace s) = [] then trim_space (et_namespace t) else trim_space (Namespace s)),
      Environment = (if trim_space (Environment s) = [] then trim_space (et_environment t)
                     else trim_space (Environment s))\<rparr>"

definition discovery_request_of :: "external_service_target \<Rightarrow> scope \<Rightarrow> discovery_request" where
  "discovery_request_of t s =
     \<lparr>dr_Provider = trim_space (et_provider t), dr_Namespace = Namespace (discovery_scope t s),
      dr_Environment = Environment (discovery_scope t s), dr_ServiceName = trim_space (et_service t),
      dr_Group = trim_space (et_group t), dr_Selector = et_selector t, dr_RequestScope = discovery_scope t s\<rparr>"

definition filter_external :: "external_endpoint list \<Rightarrow> external_endpoint list" where
  "filter_external es =
     map (\<lambda>e. e\<lparr>xe_EndpointID := trim_space (xe_EndpointID e), xe_Address := trim_space (xe_Address e)\<rparr>)
       (filter (\<lambda>e. trim_space (xe_Address e) \<noteq> []) es)"

definition adapter_discover ::
    "discovery_provider \<Rightarrow> external_service_target \<Rightarrow> scope \<Rightarrow> direct_error + external_endpoint list" where
  "adapter_discover provider t s =
     (if trim_space (et_service t) = []
      then Inl (DirectFault (new_error code_missing_required_field ''external_service.service_name is required''))
      else (let q = discovery_request_of t s
            in case provider q of
                 Inl e \<Rightarrow> Inl (DirectWrapped ''direct discovery failed: '' e [])
               | Inr es \<Rightarrow>
                   if filter_external es = []
                   then Inl (DirectWrapped ''direct discovery failed: '' ErrDiscoveryNoEndpoint
                          ('': provider='' @ dr_Provider q @ '' namespace='' @ dr_Namespace q @ '' environment=''
                            @ dr_Environment q @ '' service='' @ dr_ServiceName q @ '' group='' @ dr_Group q))
                   else Inr (filter_external es)))"


section \<open>Endpoint cache\<close>

record endpoint_cache_record =
  ec_endpoints :: "external_endpoint list"
  ec_freshUntil :: gotime
  ec_staleUntil :: gotime
  ec_updatedAt :: gotime

type_synonym endpoint_cache = "(string, endpoint_cache_record) gomap"

record cache_lookup =
  cl_Endpoints :: "external_endpoint list"
  cl_Hit :: bool
  cl_Stale :: bool

fun join_with :: "string \<Rightarrow> string list \<Rightarrow> string" where
  "join_with sep [] = []"
| "join_with sep [s] = s"
| "join_with sep (s # ss) = s @ sep @ join_with sep ss"

definition direct_cache_key :: "external_service_target \<Rightarrow> scope \<Rightarrow> string" where
  "direct_cache_key t s =
     join_with ''|''
       [trim_space (et_provider t), trim_space (Namespace s), trim_space (Environment s), trim_space (et_service t),
        trim_space (et_group t),
        join_with ''&'' (map (\<lambda>k. k @ ''='' @ label (et_selector t) k) (sort (remdups (map fst (et_selector t)))))]"

definition no_lookup :: cache_lookup where
  "no_lookup = \<lparr>cl_Endpoints = [], cl_Hit = False, cl_Stale = False\<rparr>"

definition record_lookup :: "gotime \<Rightarrow> endpoint_cache_record \<Rightarrow> cache_lookup" where
  "record_lookup now r =
     \<lparr>cl_Endpoints = ec_endpoints r, cl_Hit = True, cl_Stale = (\<not> is_zero (ec_freshUntil r) \<and> now > ec_freshUntil r)\<rparr>"

definition record_expired :: "gotime \<Rightarrow> endpoint_cache_record \<Rightarrow> bool" where
  "record_expired now r \<longleftrightarrow> \<not> is_zero (ec_staleUntil r) \<and> now > ec_staleUntil r"

text \<open>\<open>recheckOrEvictExpired\<close> is a section of its own: others may write between it and the read.\<close>

definition recheck_or_evict ::
    "string \<Rightarrow> gotime \<Rightarrow> endpoint_cache \<Rightarrow> endpoint_cache_record option \<times> endpoint_cache" where
  "recheck_or_evict k now cache =
     (case map_of cache k of
        None \<Rightarrow> (None, cache)
      | Some r \<Rightarrow> if record_expired now r then (None, map_del k cache) else (Some r, cache))"

definition cache_get ::
    "(endpoint_cache \<Rightarrow> endpoint_cache) \<Rightarrow> gotime \<Rightarrow> external_service_target \<Rightarrow> scope \<Rightarrow> endpoint_cache
      \<Rightarrow> cache_lookup \<times> endpoint_cache" where
  "cache_get others now t s cache =
     (let k = direct_cache_key t s
      in case map_of cache k of
           None \<Rightarrow> (no_lookup, cache)
         | Some r \<Rightarrow>
             if record_expired now r
             then (case recheck_or_evict k now (others cache) of
                     (None, cache') \<Rightarrow> (no_lookup, cache')
                   | (Some r', cache') \<Rightarrow> (record_lookup now r', cache'))
             else (record_lookup now r, cache))"

definition normalize_cache_ttl :: "32 word \<Rightarrow> duration" where
  "normalize_cache_ttl seconds = (if seconds = 0 then 30000000000 else uint seconds * 1000000000)"

definition cache_put ::
    "gotime \<Rightarrow> external_service_target \<Rightarrow> scope \<Rightarrow> external_endpoint list \<Rightarrow> endpoint_cache \<Rightarrow> endpoint_cache" where
  "cache_put now t s es cache =
     (let fresh = normalize_cache_ttl (et_cache_ttl t); stale = normalize_cache_ttl (et_stale_if_error t)
      in map_put (direct_cache_key t s)
           \<lparr>ec_endpoints = es, ec_freshUntil = now + fresh, ec_staleUntil = now + (fresh + stale), ec_updatedAt = now\<rparr>
           cache)"


section \<open>Dial, relay, execution\<close>

text \<open>What an execution does to the world; a connection is a number, \<open>None\<close> is the nil connection.\<close>

datatype direct_event =
    DirectDiscovered discovery_request
  | DirectDialFailed external_endpoint direct_error
  | DirectDialed external_endpoint "nat option"
  | DirectRelayed "nat option" string
  | DirectClosed nat

text \<open>
  The answers of the environment: of the provider, of the dial of the endpoint at a position, of
  the relay and of the close of a connection.
\<close>

record direct_answers =
  dx_Provider :: discovery_provider
  dx_Dial :: "nat \<Rightarrow> external_endpoint \<Rightarrow> direct_error + nat option"
  dx_Relay :: "nat option \<Rightarrow> string \<Rightarrow> direct_error option"
  dx_Close :: "nat \<Rightarrow> direct_error option"

definition join_direct :: "direct_error option \<Rightarrow> direct_error option \<Rightarrow> direct_error option" where
  "join_direct e f =
     (case (e, f) of
        (None, None) \<Rightarrow> None
      | (Some a, None) \<Rightarrow> Some (DirectJoined [a])
      | (None, Some b) \<Rightarrow> Some (DirectJoined [b])
      | (Some a, Some b) \<Rightarrow> Some (DirectJoined [a, b]))"

fun dial_from ::
    "(nat \<Rightarrow> external_endpoint \<Rightarrow> direct_error + nat option) \<Rightarrow> nat \<Rightarrow> direct_error option \<Rightarrow> external_endpoint list
      \<Rightarrow> (direct_error + external_endpoint \<times> nat option) \<times> direct_event list" where
  "dial_from dial n err [] =
     (Inl (DirectWrapped ''direct dial: ''
        (DirectJoined [ErrDirectDialFailed, case err of None \<Rightarrow> ErrDirectDialFailed | Some e \<Rightarrow> e]) []), [])"
| "dial_from dial n err (x # xs) =
     (case dial n x of
        Inl e \<Rightarrow> (case dial_from dial (n + 1) (join_direct err (Some e)) xs of
                    (r, evs) \<Rightarrow> (r, DirectDialFailed x e # evs))
      | Inr c \<Rightarrow> (Inr (x, c), [DirectDialed x c]))"

definition dialer_dial ::
    "(nat \<Rightarrow> external_endpoint \<Rightarrow> direct_error + nat option) \<Rightarrow> external_endpoint list
      \<Rightarrow> (direct_error + external_endpoint \<times> nat option) \<times> direct_event list" where
  "dialer_dial dial es =
     (if es = [] then (Inl (DirectWrapped ''direct dial: '' ErrDirectDialFailed '': empty endpoint list''), [])
      else dial_from dial 0 None es)"

text \<open>The default relay: it looks at the connection and the context only.\<close>

definition default_relay :: "chain_err option \<Rightarrow> nat option \<Rightarrow> string \<Rightarrow> direct_error option" where
  "default_relay context_error conn tid =
     (case conn of
        None \<Rightarrow> Some (ErrDirectDependencyMissing ''direct relay dependency missing'')
      | Some c \<Rightarrow> map_option DirectFault context_error)"

record execute_request =
  xr_TrafficID :: string
  xr_Target :: external_service_target
  xr_RequestScope :: scope
  xr_RouteID :: string
  xr_IsExternalFallback :: bool

record execute_result =
  xs_Endpoint :: external_endpoint
  xs_FromCache :: bool
  xs_UsedStale :: bool
  xs_HTTPStatus :: int
  xs_ErrorCode :: string

definition no_result :: execute_result where
  "no_result = \<lparr>xs_Endpoint = \<lparr>xe_EndpointID = [], xe_Address = [], xe_Metadata = []\<rparr>, xs_FromCache = False,
     xs_UsedStale = False, xs_HTTPStatus = 0, xs_ErrorCode = []\<rparr>"

definition failed_result :: "mapped_failure \<Rightarrow> execute_result" where
  "failed_result f = no_result\<lparr>xs_HTTPStatus := mf_HTTPStatus f, xs_ErrorCode := mf_Code f\<rparr>"

text \<open>
  The candidates of an execution: the first half of \<open>Execute\<close>. \<open>now\<close> is the instant of the lookup,
  \<open>put_at\<close> that of the write; \<open>others\<close> and \<open>others'\<close> are what other executions do to the cache
  before the recheck and before the write.
\<close>

definition choose_candidates ::
    "(endpoint_cache \<Rightarrow> endpoint_cache) \<Rightarrow> (endpoint_cache \<Rightarrow> endpoint_cache) \<Rightarrow> gotime \<Rightarrow> gotime \<Rightarrow> direct_answers
      \<Rightarrow> execute_request \<Rightarrow> endpoint_cache
      \<Rightarrow> (direct_error + external_endpoint list \<times> bool \<times> bool) \<times> endpoint_cache \<times> direct_event list" where
  "choose_candidates others others' now put_at env q cache =
     (let t = xr_Target q; s = xr_RequestScope q;
          (found, cache1) = cache_get others now t s cache;
          asked = [DirectDiscovered (discovery_request_of t s)]
      in if cl_Endpoints found = []
         then (case adapter_discover (dx_Provider env) t s of
                 Inl e \<Rightarrow> (Inl e, cache1, asked)
               | Inr es \<Rightarrow> (Inr (es, False, False), cache_put put_at t s es (others' cache1), asked))
         else if cl_Stale found
         then (case adapter_discover (dx_Provider env) t s of
                 Inl e \<Rightarrow> (Inr (cl_Endpoints found, cl_Hit found, True), cache1, asked)
               | Inr es \<Rightarrow>
                   if es \<noteq> [] then (Inr (es, False, False), cache_put put_at t s es (others' cache1), asked)
                   else (Inr (cl_Endpoints found, cl_Hit found, True), cache1, asked))
         else (Inr (cl_Endpoints found, cl_Hit found, False), cache1, []))"

text \<open>The second half: dial, relay, close.\<close>

definition dial_and_relay ::
    "direct_answers \<Rightarrow> execute_request \<Rightarrow> external_endpoint list \<Rightarrow> bool \<Rightarrow> bool
      \<Rightarrow> (execute_result \<times> direct_error option) \<times> direct_event list" where
  "dial_and_relay env q candidates from_cache used_stale =
     (case dialer_dial (dx_Dial env) candidates of
        (Inl e, evs) \<Rightarrow>
          ((failed_result (map_failure (Some e) FailureKindDirectDial), Some (DirectWrapped ''direct execute: dial: '' e [])), evs)
      | (Inr (x, c), evs) \<Rightarrow>
          (let closing = (case c of None \<Rightarrow> [] | Some n \<Rightarrow> [DirectClosed n]);
               close_err = (case c of None \<Rightarrow> None | Some n \<Rightarrow> dx_Close env n);
               evs' = evs @ [DirectRelayed c (xr_TrafficID q)] @ closing
           in case dx_Relay env c (xr_TrafficID q) of
                Some e \<Rightarrow>
                  (let joined = DirectJoined (e # (case close_err of None \<Rightarrow> [] | Some f \<Rightarrow> [f]))
                   in ((failed_result (map_failure (Some joined) FailureKindRelay),
                        Some (DirectWrapped ''direct execute: relay: '' joined [])), evs'))
              | None \<Rightarrow>
                  (case close_err of
                     Some e \<Rightarrow> ((failed_result (map_failure (Some e) FailureKindClose),
                                 Some (DirectWrapped ''direct execute: close upstream: '' e [])), evs')
                   | None \<Rightarrow> ((\<lparr>xs_Endpoint = x, xs_FromCache = from_cache, xs_UsedStale = used_stale,
                                xs_HTTPStatus = 200, xs_ErrorCode = []\<rparr>, None), evs'))))"

definition execute_direct ::
    "(endpoint_cache \<Rightarrow> endpoint_cache) \<Rightarrow> (endpoint_cache \<Rightarrow> endpoint_cache) \<Rightarrow> gotime \<Rightarrow> gotime \<Rightarrow> direct_answers
      \<Rightarrow> execute_request \<Rightarrow> endpoint_cache
      \<Rightarrow> (execute_result \<times> direct_error option) \<times> endpoint_cache \<times> direct_event list" where
  "execute_direct others others' now put_at env q cache =
     (if trim_space (xr_TrafficID q) = []
      then ((no_result, Some (DirectFault (new_error code_missing_required_field ''traffic_id is required for direct executor''))),
            cache, [])
      else if trim_space (et_service (xr_Target q)) = []
      then ((no_result, Some (DirectFault (new_error code_missing_required_field ''external_service.service_name is required''))),
            cache, [])
      else case choose_candidates others others' now put_at env q cache of
          (Inl e, cache', evs) \<Rightarrow>
            ((failed_result (map_failure (Some e) FailureKindDiscoveryMiss),
              Some (DirectWrapped ''direct execute: discovery: '' e [])), cache', evs)
        | (Inr (es, from_cache, used_stale), cache', evs) \<Rightarrow>
            (case dial_and_relay env q es from_cache used_stale of (r, evs') \<Rightarrow> (r, cache', evs @ evs')))"


section \<open>Connections and results\<close>

definition opened_conns :: "direct_event list \<Rightarrow> nat list" where
  "opened_conns evs = concat (map (\<lambda>e. case e of DirectDialed x (Some n) \<Rightarrow> [n] | _ \<Rightarrow> []) evs)"

definition closed_conns :: "direct_event list \<Rightarrow> nat list" where
  "closed_conns evs = concat (map (\<lambda>e. case e of DirectClosed n \<Rightarrow> [n] | _ \<Rightarrow> []) evs)"

definition conn_list :: "nat option \<Rightarrow> nat list" where
  "conn_list c = (case c of None \<Rightarrow> [] | Some n \<Rightarrow> [n])"

lemma conns_simps [simp]:
  "opened_conns [] = []" "closed_conns [] = []"
  "opened_conns (a @ b) = opened_conns a @ opened_conns b" "closed_conns (a @ b) = closed_conns a @ closed_conns b"
  "opened_conns (DirectDialFailed x e # evs) = opened_conns evs" "closed_conns (DirectDialFailed x e # evs) = closed_conns evs"
  "opened_conns (DirectDialed x c # evs) = conn_list c @ opened_conns evs" "closed_conns (DirectDialed x c # evs) = closed_conns evs"
  "opened_conns (DirectRelayed c s # evs) = opened_conns evs" "closed_conns (DirectRelayed c s # evs) = closed_conns evs"
  "opened_conns (DirectDiscovered q # evs) = opened_conns evs" "closed_conns (DirectDiscovered q # evs) = closed_conns evs"
  "opened_conns (DirectClosed n # evs) = opened_conns evs" "closed_conns (DirectClosed n # evs) = n # closed_conns evs"
  by (simp_all add: opened_conns_def closed_conns_def conn_list_def split: option.splits)

lemma dial_from_accounts:
  "dial_from dial n err es = (r, evs) \<Longrightarrow> closed_conns evs = []
     \<and> (case r of Inl e \<Rightarrow> opened_conns evs = [] | Inr (x, c) \<Rightarrow> x \<in> set es \<and> opened_conns evs = conn_list c)"
proof (induction es arbitrary: n err r evs)
  case (Cons x xs)
  show ?case
  proof (cases "dial n x")
    case (Inl e)
    then obtain evs' where "dial_from dial (n + 1) (join_direct err (Some e)) xs = (r, evs')" "evs = DirectDialFailed x e # evs'"
      using Cons.prems by (auto split: prod.splits)
    with Cons.IH[OF this(1)] show ?thesis by (auto split: sum.splits)
  next
    case (Inr c)
    then show ?thesis using Cons.prems by auto
  qed
qed auto

lemma dialer_accounts:
  "dialer_dial dial es = (r, evs) \<Longrightarrow> closed_conns evs = []
     \<and> (case r of Inl e \<Rightarrow> opened_conns evs = [] | Inr (x, c) \<Rightarrow> x \<in> set es \<and> opened_conns evs = conn_list c)"
  using dial_from_accounts[of dial 0 None es r evs] by (auto simp: dialer_dial_def split: if_splits)

lemma map_failure_not_ok: "mf_HTTPStatus (map_failure e kind) \<noteq> 200"
  by (simp add: map_failure_def map_discovery_failure_def Let_def split: option.splits failure_kind.splits)

lemma dial_and_relay_accounts:
  assumes "dial_and_relay env q es from_cache used_stale = ((r, err), evs)"
  shows "opened_conns evs = closed_conns evs \<and> length (opened_conns evs) \<le> 1 \<and> (err = None \<longleftrightarrow> xs_HTTPStatus r = 200)"
    and "err = None \<Longrightarrow> xs_Endpoint r \<in> set es \<and> xs_FromCache r = from_cache \<and> xs_UsedStale r = used_stale"
proof -
  obtain d evs0 where d: "dialer_dial (dx_Dial env) es = (d, evs0)" by (cases "dialer_dial (dx_Dial env) es")
  note a = dialer_accounts[OF d]
  show "opened_conns evs = closed_conns evs \<and> length (opened_conns evs) \<le> 1 \<and> (err = None \<longleftrightarrow> xs_HTTPStatus r = 200)"
    using assms a d
    by (cases d) (auto simp: dial_and_relay_def failed_result_def no_result_def map_failure_not_ok conn_list_def Let_def
        split: option.splits prod.splits)
  show "err = None \<Longrightarrow> xs_Endpoint r \<in> set es \<and> xs_FromCache r = from_cache \<and> xs_UsedStale r = used_stale"
    using assms a d by (cases d) (auto simp: dial_and_relay_def Let_def split: option.splits prod.splits)
qed

lemma choose_candidates_opens_nothing:
  "choose_candidates others others' now put_at env q cache = (r, cache', evs) \<Longrightarrow> opened_conns evs = [] \<and> closed_conns evs = []"
  by (auto simp: choose_candidates_def Let_def split: prod.splits if_splits sum.splits)

text \<open>C10. A direct execution leaves no connection behind, whatever the provider, the dialer, the relay and
  the connections answer: every upstream connection it opened, at most one, is closed exactly once,
  also when the relay or the close fails; and it reports the status 200 if and only if it returns no
  error.\<close>

theorem direct_execution_accounts:
  "case execute_direct others others' now put_at env q cache of
     ((r, err), cache', evs) \<Rightarrow>
       opened_conns evs = closed_conns evs \<and> length (opened_conns evs) \<le> 1 \<and> (err = None \<longleftrightarrow> xs_HTTPStatus r = 200)"
proof (cases "trim_space (xr_TrafficID q) = [] \<or> trim_space (et_service (xr_Target q)) = []")
  case True
  then show ?thesis by (auto simp: execute_direct_def no_result_def)
next
  case False
  obtain ch cache1 evs1 where ch: "choose_candidates others others' now put_at env q cache = (ch, cache1, evs1)"
    by (cases "choose_candidates others others' now put_at env q cache") auto
  note none = choose_candidates_opens_nothing[OF ch]
  show ?thesis
  proof (cases ch)
    case (Inl e)
    then show ?thesis using False ch none
      by (simp add: execute_direct_def failed_result_def no_result_def map_failure_not_ok)
  next
    case (Inr c)
    obtain es f u where c: "c = (es, f, u)" by (cases c) auto
    obtain r err evs2 where d: "dial_and_relay env q es f u = ((r, err), evs2)"
      by (cases "dial_and_relay env q es f u") auto
    show ?thesis
      using dial_and_relay_accounts(1)[OF d] False none Inr c by (auto simp: execute_direct_def ch d)
  qed
qed


text \<open>Where the candidates come from.\<close>

definition stored_candidates ::
    "(endpoint_cache \<Rightarrow> endpoint_cache) \<Rightarrow> gotime \<Rightarrow> execute_request \<Rightarrow> endpoint_cache \<Rightarrow> endpoint_cache_record \<Rightarrow> bool" where
  "stored_candidates others now q cache r \<longleftrightarrow>
     (map_of cache (direct_cache_key (xr_Target q) (xr_RequestScope q)) = Some r
      \<or> map_of (others cache) (direct_cache_key (xr_Target q) (xr_RequestScope q)) = Some r)
     \<and> \<not> record_expired now r"

lemma cache_get_stored:
  assumes "cache_get others now (xr_Target q) (xr_RequestScope q) cache = (found, cache')" and "cl_Endpoints found \<noteq> []"
  shows "\<exists>r. stored_candidates others now q cache r \<and> found = record_lookup now r"
  using assms
  by (auto simp: cache_get_def stored_candidates_def recheck_or_evict_def no_lookup_def Let_def
      split: option.splits if_splits prod.splits)

lemma choose_candidates_origin:
  assumes "choose_candidates others others' now put_at env q cache = (Inr (es, f, u), cache', evs)"
  shows "(\<not> f \<and> \<not> u \<and> adapter_discover (dx_Provider env) (xr_Target q) (xr_RequestScope q) = Inr es)
    \<or> (f \<and> (\<exists>r. stored_candidates others now q cache r \<and> es = ec_endpoints r
             \<and> u = (\<not> is_zero (ec_freshUntil r) \<and> ec_freshUntil r < now)
             \<and> (u \<longrightarrow> (\<exists>e. adapter_discover (dx_Provider env) (xr_Target q) (xr_RequestScope q) = Inl e))))"
proof -
  obtain found cache1 where g: "cache_get others now (xr_Target q) (xr_RequestScope q) cache = (found, cache1)"
    by (cases "cache_get others now (xr_Target q) (xr_RequestScope q) cache")
  have ne: "adapter_discover (dx_Provider env) (xr_Target q) (xr_RequestScope q) \<noteq> Inr []"
    by (auto simp: adapter_discover_def Let_def split: sum.splits if_splits)
  show ?thesis
  proof (cases "cl_Endpoints found = []")
    case True
    then show ?thesis using assms g by (auto simp: choose_candidates_def Let_def split: sum.splits)
  next
    case False
    obtain r where r: "stored_candidates others now q cache r" "found = record_lookup now r"
      using cache_get_stored[OF g False] by blast
    show ?thesis
    proof (cases "cl_Stale found")
      case True
      then show ?thesis
        using assms g False ne r by (auto simp: choose_candidates_def Let_def record_lookup_def split: sum.splits if_splits)
    next
      case fresh: False
      then have "es = ec_endpoints r \<and> f \<and> \<not> u \<and> \<not> (\<not> is_zero (ec_freshUntil r) \<and> ec_freshUntil r < now)"
        using assms g False r by (auto simp: choose_candidates_def Let_def record_lookup_def)
      then show ?thesis using r(1) by blast
    qed
  qed
qed

text \<open>C15. The endpoint of a successful direct execution was discovered for it, or comes from the cache
  entry of its key within its lifetime; an endpoint that is no longer fresh is used only when it is
  reported as stale, and only after the provider was asked and failed.\<close>

theorem direct_endpoint_is_timely:
  assumes run: "execute_direct others others' now put_at env q cache = ((r, None), cache', evs)"
  shows "(\<not> xs_FromCache r \<and> \<not> xs_UsedStale r
      \<and> (\<exists>es. adapter_discover (dx_Provider env) (xr_Target q) (xr_RequestScope q) = Inr es \<and> xs_Endpoint r \<in> set es))
    \<or> (xs_FromCache r \<and> (\<exists>rec. stored_candidates others now q cache rec \<and> xs_Endpoint r \<in> set (ec_endpoints rec)
         \<and> xs_UsedStale r = (\<not> is_zero (ec_freshUntil rec) \<and> ec_freshUntil rec < now)
         \<and> (xs_UsedStale r \<longrightarrow> (\<exists>e. adapter_discover (dx_Provider env) (xr_Target q) (xr_RequestScope q) = Inl e))))"
proof -
  obtain ch cache1 evs1 where ch: "choose_candidates others others' now put_at env q cache = (ch, cache1, evs1)"
    by (cases "choose_candidates others others' now put_at env q cache") auto
  obtain es f u where c: "ch = Inr (es, f, u)"
    using run ch by (cases ch) (auto simp: execute_direct_def split: if_splits)
  obtain evs2 where d: "dial_and_relay env q es f u = ((r, None), evs2)"
    using run ch c by (auto simp: execute_direct_def split: if_splits prod.splits)
  from choose_candidates_origin[OF ch[unfolded c]] dial_and_relay_accounts(2)[OF d refl] show ?thesis by auto
qed


definition sample_external :: "string \<Rightarrow> execute_request" where
  "sample_external namespace =
     \<lparr>xr_TrafficID = ''s'',
      xr_Target = \<lparr>et_provider = ''s'', et_namespace = namespace, et_environment = [], et_service = ''c'', et_group = [],
        et_selector = [], et_cache_ttl = 0, et_stale_if_error = 0\<rparr>,
      xr_RequestScope = no_scope, xr_RouteID = [], xr_IsExternalFallback = False\<rparr>"

definition namespaced_endpoint :: "string \<Rightarrow> external_endpoint" where
  "namespaced_endpoint namespace = \<lparr>xe_EndpointID = namespace, xe_Address = namespace, xe_Metadata = []\<rparr>"

text \<open>A provider with one endpoint in every namespace.\<close>

definition namespaced_answers :: direct_answers where
  "namespaced_answers =
     \<lparr>dx_Provider = (\<lambda>q. Inr [namespaced_endpoint (dr_Namespace q)]), dx_Dial = (\<lambda>n x. Inr (Some n)),
      dx_Relay = (\<lambda>c s. None), dx_Close = (\<lambda>n. None)\<rparr>"

lemmas direct_eval =
  execute_direct_def choose_candidates_def cache_get_def adapter_discover_def discovery_request_of_def discovery_scope_def
  filter_external_def direct_cache_key_def cache_put_def normalize_cache_ttl_def dial_and_relay_def dialer_dial_def
  record_expired_def record_lookup_def no_lookup_def sample_external_def namespaced_endpoint_def namespaced_answers_def
  no_scope_def trim_canonical zero_time_def Let_def

lemma first_execution_runs:
  "execute_direct id id 1 1 namespaced_answers (sample_external ''c'') []
   = ((\<lparr>xs_Endpoint = namespaced_endpoint ''c'', xs_FromCache = False, xs_UsedStale = False, xs_HTTPStatus = 200,
        xs_ErrorCode = []\<rparr>, None),
      cache_put 1 (xr_Target (sample_external ''c'')) no_scope [namespaced_endpoint ''c''] [],
      [DirectDiscovered (discovery_request_of (xr_Target (sample_external ''c'')) no_scope),
       DirectDialed (namespaced_endpoint ''c'') (Some 0), DirectRelayed (Some 0) ''s'', DirectClosed 0])"
  by (simp add: direct_eval)

theorem direct_endpoint_is_timely_witness:
  "(\<not> xs_FromCache (fst (fst (execute_direct id id 1 1 namespaced_answers (sample_external ''c'') [])))
      \<and> \<not> xs_UsedStale (fst (fst (execute_direct id id 1 1 namespaced_answers (sample_external ''c'') []))))
   \<and> (\<exists>es. adapter_discover (dx_Provider namespaced_answers) (xr_Target (sample_external ''c''))
          (xr_RequestScope (sample_external ''c'')) = Inr es \<and> namespaced_endpoint ''c'' \<in> set es)"
  using direct_endpoint_is_timely[OF first_execution_runs] by (simp add: first_execution_runs)

text \<open>
  The provider is asked for the namespace of the target when the request has none, but the key of
  the cache holds only that of the request: the second execution, for another namespace, gets the
  endpoint of the first one and asks nobody.
\<close>

theorem namespaces_share_the_cache:
  "case execute_direct id id 2 2 namespaced_answers (sample_external ''d'')
        (fst (snd (execute_direct id id 1 1 namespaced_answers (sample_external ''c'') []))) of
     ((r, err), cache, evs) \<Rightarrow>
       err = None \<and> xs_Endpoint r = namespaced_endpoint ''c'' \<and> evs = [DirectDialed (namespaced_endpoint ''c'') (Some 0),
         DirectRelayed (Some 0) ''s'', DirectClosed 0]"
  by (simp add: direct_eval)

end
