(* ===== verification/Ingress_Matcher.thy ===== *)
theory Ingress_Matcher
  imports Route_Resolver
begin

text \<open>
  The ingress matcher of the protocol library (\<open>ltfp/ingress/matcher.go\<close>): whether a request meets the
  conditions of a route, whether dedicated ports are exclusive, and which instance and exposure a
  route stands for. \<open>strings.EqualFold\<close> is \<open>equal_fold\<close> of the bridge's resolver.
\<close>

section \<open>Matching\<close>

record request_context =
  rc_Protocol :: string
  rc_Host :: string
  rc_Authority :: string
  rc_Path :: string
  rc_SNI :: string
  rc_ListenPort :: "32 word"

definition match_string_field :: "string \<Rightarrow> string \<Rightarrow> bool" where
  "match_string_field route_field request_field \<longleftrightarrow>
     (let f = trim_space route_field in f = [] \<or> equal_fold f (trim_space request_field))"

definition match_path_prefix :: "string \<Rightarrow> string \<Rightarrow> bool" where
  "match_path_prefix path_prefix path \<longleftrightarrow>
     (let p = trim_space path_prefix in p = [] \<or> take (length p) (trim_space path) = p)"

definition match_route :: "route \<Rightarrow> request_context \<Rightarrow> bool \<times> string" where
  "match_route r q =
     (let m = r_match r
      in if \<not> match_string_field (rm_protocol m) (rc_Protocol q) then (False, ''protocol_mismatch'')
         else if \<not> match_string_field (rm_host m) (rc_Host q) then (False, ''host_mismatch'')
         else if \<not> match_string_field (rm_authority m) (rc_Authority q) then (False, ''authority_mismatch'')
         else if \<not> match_path_prefix (rm_path_prefix m) (rc_Path q) then (False, ''path_prefix_mismatch'')
         else if \<not> match_string_field (rm_sni m) (rc_SNI q) then (False, ''sni_mismatch'')
         else if rm_listen_port m > 0 \<and> rm_listen_port m \<noteq> rc_ListenPort q then (False, ''listen_port_mismatch'')
         else (True, []))"


section \<open>Dedicated ports\<close>

definition code_ingress_port_conflict :: string where
  "code_ingress_port_conflict = ''INGRESS_PORT_CONFLICT''"

fun validate_ports :: "service_instance list \<Rightarrow> (32 word, string) gomap \<Rightarrow> chain_err option" where
  "validate_ports [] ports = None"
| "validate_ports (i # is) ports =
     (let port = ex_listen_port (si_exposure i)
      in if ex_ingress_mode (si_exposure i) \<noteq> IngressModeL4DedicatedPort then validate_ports is ports
         else if port = 0
         then Some (new_error code_missing_required_field ''l4_dedicated_port requires exposure.listenPort'')
         else case map_of ports port of
             None \<Rightarrow> validate_ports is (map_put port (si_service i) ports)
           | Some other \<Rightarrow>
               if other \<noteq> si_service i
               then Some (new_error code_ingress_port_conflict
                      (''dedicated port conflict: port='' @ show_nat (unat port) @ '' logicalServiceA='' @ other
                        @ '' logicalServiceB='' @ si_service i))
               else validate_ports is ports)"

definition validate_dedicated_port_assignments :: "service_instance list \<Rightarrow> chain_err option" where
  "validate_dedicated_port_assignments insts = validate_ports insts []"


section \<open>Route mappings\<close>

record route_mapping =
  mp_RouteID :: string
  mp_LogicalServiceID :: string
  mp_InstanceID :: string
  mp_TargetType :: route_target_type
  mp_IngressMode :: ingress_mode
  mp_Host :: string
  mp_SNI :: string
  mp_ListenPort :: "32 word"

definition no_exposure :: service_exposure where
  "no_exposure = \<lparr>ex_ingress_mode = IngressModeOther [], ex_host = [], ex_listen_port = 0, ex_sni_name = [],
     ex_path_prefix = [], ex_allow_export = False\<rparr>"

definition no_instance :: service_instance where
  "no_instance = \<lparr>si_id = [], si_service = [], si_connector = [], si_session = [], si_epoch = 0,
     si_status = ServiceStatusOther [], si_health = HealthStatusOther [], si_version = 0, si_endpoints = [],
     si_exposure = no_exposure,
     si_health_check = \<lparr>hc_type = [], hc_endpoint = [], hc_interval = 0, hc_timeout = 0, hc_healthy_threshold = 0,
       hc_unhealthy_threshold = 0\<rparr>,
     si_discovery = \<lparr>dp_enabled = False, dp_providers = [], dp_external_name = [], dp_namespace = [], dp_group = [],
       dp_tags = [], dp_metadata = []\<rparr>,
     si_route_hint = \<lparr>rh_headers = [], rh_queries = [], rh_priority = 0\<rparr>, si_labels = [], si_metadata = []\<rparr>"

text \<open>The two maps of \<open>BuildRouteMappings\<close>: the last service and the first instance with an identity.\<close>

definition service_by_id :: "logical_service list \<Rightarrow> (string, logical_service) gomap" where
  "service_by_id svcs = fold (\<lambda>s m. map_put (trim_space (ls_id s)) s m) svcs []"

definition instance_by_service :: "service_instance list \<Rightarrow> (string, service_instance) gomap" where
  "instance_by_service insts =
     fold (\<lambda>i m. let l = trim_space (si_service i)
                  in if l = [] then m else case map_of m l of None \<Rightarrow> map_put l i m | Some _ \<Rightarrow> m) insts []"

text \<open>\<open>iter\<close> is the order in which \<open>range\<close> goes through the map.\<close>

definition resolve_target_selector ::
    "((string \<times> logical_service) list \<Rightarrow> (string \<times> logical_service) list) \<Rightarrow> service_selector
      \<Rightarrow> (string, logical_service) gomap \<Rightarrow> (string, service_instance) gomap \<Rightarrow> string \<times> service_instance" where
  "resolve_target_selector iter sel svcs insts =
     (let given = trim_space (ss_service sel);
          l = (if given \<noteq> [] then given
               else case find (\<lambda>(i, s). trim_space (ls_name s) = trim_space (ss_name sel)
                             \<and> trim_space (Namespace (ls_scope s)) = trim_space (Namespace (ss_scope sel))
                             \<and> trim_space (Environment (ls_scope s)) = trim_space (Environment (ss_scope sel)))
                           (iter svcs) of
                      None \<Rightarrow> [] | Some (i, s) \<Rightarrow> i)
      in if l = [] then ([], no_instance)
         else (l, case map_of insts l of None \<Rightarrow> no_instance | Some i \<Rightarrow> i))"

definition resolve_target_instance ::
    "((string \<times> logical_service) list \<Rightarrow> (string \<times> logical_service) list) \<Rightarrow> route
      \<Rightarrow> (string, logical_service) gomap \<Rightarrow> (string, service_instance) gomap \<Rightarrow> string \<times> service_instance" where
  "resolve_target_instance iter r svcs insts =
     (case rt_type (r_target r) of
        RouteTargetTypeConnectorService \<Rightarrow>
          (case rt_connector (r_target r) of
             None \<Rightarrow> ([], no_instance)
           | Some t \<Rightarrow> resolve_target_selector iter (ct_selector t) svcs insts)
      | _ \<Rightarrow> ([], no_instance))"

definition build_route_mappings ::
    "((string \<times> logical_service) list \<Rightarrow> (string \<times> logical_service) list) \<Rightarrow> route list \<Rightarrow> logical_service list
      \<Rightarrow> service_instance list \<Rightarrow> route_mapping list" where
  "build_route_mappings iter rts svcs insts =
     map (\<lambda>r. case resolve_target_instance iter r (service_by_id svcs) (instance_by_service insts) of
            (l, i) \<Rightarrow> \<lparr>mp_RouteID = r_id r, mp_LogicalServiceID = l, mp_InstanceID = si_id i,
              mp_TargetType = rt_type (r_target r), mp_IngressMode = ex_ingress_mode (si_exposure i),
              mp_Host = ex_host (si_exposure i), mp_SNI = ex_sni_name (si_exposure i),
              mp_ListenPort = ex_listen_port (si_exposure i)\<rparr>) rts"


section \<open>The check of the ports is exact\<close>

definition dedicated :: "service_instance list \<Rightarrow> service_instance list" where
  "dedicated insts = filter (\<lambda>i. ex_ingress_mode (si_exposure i) = IngressModeL4DedicatedPort) insts"

definition dedicated_port :: "service_instance \<Rightarrow> 32 word" where
  "dedicated_port i = ex_listen_port (si_exposure i)"

definition ports_known :: "(32 word, string) gomap \<Rightarrow> service_instance list \<Rightarrow> bool" where
  "ports_known ports is \<longleftrightarrow> (\<forall>i\<in>set is. \<forall>l. map_of ports (dedicated_port i) = Some l \<longrightarrow> l = si_service i)"

definition ports_exclusive :: "service_instance list \<Rightarrow> bool" where
  "ports_exclusive is \<longleftrightarrow>
     (\<forall>i\<in>set is. \<forall>j\<in>set is. dedicated_port i = dedicated_port j \<longrightarrow> si_service i = si_service j)"

definition ports_given :: "service_instance list \<Rightarrow> bool" where
  "ports_given is \<longleftrightarrow> (\<forall>i\<in>set is. dedicated_port i \<noteq> 0)"

definition port_only_of :: "service_instance \<Rightarrow> service_instance list \<Rightarrow> bool" where
  "port_only_of i is \<longleftrightarrow> (\<forall>j\<in>set is. dedicated_port i = dedicated_port j \<longrightarrow> si_service i = si_service j)"

lemma ports_given_Cons: "ports_given (i # is) \<longleftrightarrow> dedicated_port i \<noteq> 0 \<and> ports_given is"
  by (simp add: ports_given_def)

lemma ports_known_Cons:
  "ports_known ports (i # is) \<longleftrightarrow>
     (\<forall>l. map_of ports (dedicated_port i) = Some l \<longrightarrow> l = si_service i) \<and> ports_known ports is"
  by (simp add: ports_known_def)

lemma ports_exclusive_Cons: "ports_exclusive (i # is) \<longleftrightarrow> port_only_of i is \<and> ports_exclusive is"
proof
  show "ports_exclusive (i # is) \<Longrightarrow> port_only_of i is \<and> ports_exclusive is"
    unfolding ports_exclusive_def port_only_of_def by (meson list.set_intros)
  assume a: "port_only_of i is \<and> ports_exclusive is"
  show "ports_exclusive (i # is)"
    unfolding ports_exclusive_def
  proof (intro ballI impI)
    fix j k
    assume "j \<in> set (i # is)" "k \<in> set (i # is)" "dedicated_port j = dedicated_port k"
    then show "si_service j = si_service k"
      using a unfolding port_only_of_def ports_exclusive_def by (metis set_ConsD)
  qed
qed

lemmas ports_Cons = ports_given_Cons ports_known_Cons ports_exclusive_Cons

lemma ports_known_put:
  assumes "map_of ports (dedicated_port i) = None"
  shows "ports_known (map_put (dedicated_port i) (si_service i) ports) is \<longleftrightarrow> ports_known ports is \<and> port_only_of i is"
proof -
  have "(\<forall>l. map_of (map_put (dedicated_port i) (si_service i) ports) (dedicated_port j) = Some l \<longrightarrow> l = si_service j)
      \<longleftrightarrow> (\<forall>l. map_of ports (dedicated_port j) = Some l \<longrightarrow> l = si_service j)
         \<and> (dedicated_port i = dedicated_port j \<longrightarrow> si_service i = si_service j)" for j
    using assms by (cases "dedicated_port j = dedicated_port i") auto
  then show ?thesis unfolding ports_known_def port_only_of_def by blast
qed

lemma ports_known_only:
  "map_of ports (dedicated_port i) = Some (si_service i) \<Longrightarrow> ports_known ports is \<Longrightarrow> port_only_of i is"
  by (auto simp: ports_known_def port_only_of_def)

lemma validate_ports_exact:
  "validate_ports is ports = None \<longleftrightarrow>
     ports_given (dedicated is) \<and> ports_exclusive (dedicated is) \<and> ports_known ports (dedicated is)"
proof (induction "is" arbitrary: ports)
  case Nil
  show ?case by (simp add: dedicated_def ports_given_def ports_exclusive_def ports_known_def)
next
  case (Cons i "is")
  have p: "ex_listen_port (si_exposure i) = dedicated_port i" by (simp add: dedicated_port_def)
  consider (other) "ex_ingress_mode (si_exposure i) \<noteq> IngressModeL4DedicatedPort"
    | (zero) "ex_ingress_mode (si_exposure i) = IngressModeL4DedicatedPort" "dedicated_port i = 0"
    | (new) "ex_ingress_mode (si_exposure i) = IngressModeL4DedicatedPort" "dedicated_port i \<noteq> 0"
        "map_of ports (dedicated_port i) = None"
    | (same) "ex_ingress_mode (si_exposure i) = IngressModeL4DedicatedPort" "dedicated_port i \<noteq> 0"
        "map_of ports (dedicated_port i) = Some (si_service i)"
    | (clash) l where "ex_ingress_mode (si_exposure i) = IngressModeL4DedicatedPort" "dedicated_port i \<noteq> 0"
        "map_of ports (dedicated_port i) = Some l" "l \<noteq> si_service i"
    by (cases "map_of ports (dedicated_port i)") auto
  then show ?case
  proof cases
    case other
    then show ?thesis using Cons.IH by (simp add: dedicated_def Let_def)
  next
    case zero
    then show ?thesis by (simp add: dedicated_def Let_def p ports_Cons)
  next
    case new
    then have "dedicated (i # is) = i # dedicated is"
      and "validate_ports (i # is) ports = validate_ports is (map_put (dedicated_port i) (si_service i) ports)"
      by (simp_all add: dedicated_def Let_def p)
    then show ?thesis using new Cons.IH by (auto simp: ports_Cons ports_known_put)
  next
    case same
    then have "dedicated (i # is) = i # dedicated is" and "validate_ports (i # is) ports = validate_ports is ports"
      by (simp_all add: dedicated_def Let_def p)
    then show ?thesis using same Cons.IH ports_known_only[OF same(3)] by (auto simp: ports_Cons)
  next
    case clash
    then have "dedicated (i # is) = i # dedicated is" and "validate_ports (i # is) ports \<noteq> None"
      by (simp_all add: dedicated_def Let_def p)
    then show ?thesis using clash by (simp add: ports_Cons)
  qed
qed

text \<open>C32. The check of dedicated ports is exact: it accepts a list of instances if and only if every
  instance exposed on a dedicated port names a port and no port is named by instances of two
  services. The order of the instances has no influence.\<close>

theorem dedicated_ports_exact:
  "validate_dedicated_port_assignments insts = None \<longleftrightarrow>
     ports_given (dedicated insts) \<and> ports_exclusive (dedicated insts)"
  by (simp add: validate_dedicated_port_assignments_def validate_ports_exact ports_known_def)


section \<open>Matches and mappings\<close>

lemma match_route_exact:
  "match_route r q = (True, []) \<longleftrightarrow>
     match_string_field (rm_protocol (r_match r)) (rc_Protocol q) \<and> match_string_field (rm_host (r_match r)) (rc_Host q)
     \<and> match_string_field (rm_authority (r_match r)) (rc_Authority q)
     \<and> match_path_prefix (rm_path_prefix (r_match r)) (rc_Path q) \<and> match_string_field (rm_sni (r_match r)) (rc_SNI q)
     \<and> (rm_listen_port (r_match r) = 0 \<or> rm_listen_port (r_match r) = rc_ListenPort q)"
  by (auto simp: match_route_def Let_def simp flip: word_neq_0_conv)

text \<open>A prefix of the path need not end at a segment.\<close>

lemma prefix_within_segment: "match_path_prefix ''/api'' ''/apix''"
proof -
  have "trim_space ''/api'' = ''/api''" "trim_space ''/apix'' = ''/apix''"
    by (rule trim_space_graphic; simp add: graphic_def)+
  then show ?thesis by (simp add: match_path_prefix_def Let_def)
qed

lemma instance_by_service_sound:
  "map_of (instance_by_service is) l = Some i \<Longrightarrow> i \<in> set is \<and> trim_space (si_service i) = l"
proof -
  have "(\<forall>l i. map_of m l = Some i \<longrightarrow> i \<in> set done \<and> trim_space (si_service i) = l)
      \<Longrightarrow> map_of (fold (\<lambda>i m. let l = trim_space (si_service i)
            in if l = [] then m else case map_of m l of None \<Rightarrow> map_put l i m | Some _ \<Rightarrow> m) is m) l = Some i
      \<Longrightarrow> i \<in> set (done @ is) \<and> trim_space (si_service i) = l" for m "done"
  proof (induction "is" arbitrary: m "done")
    case (Cons j js)
    let ?m = "let l = trim_space (si_service j)
      in if l = [] then m else case map_of m l of None \<Rightarrow> map_put l j m | Some _ \<Rightarrow> m"
    have "\<forall>l i. map_of ?m l = Some i \<longrightarrow> i \<in> set (done @ [j]) \<and> trim_space (si_service i) = l"
      using Cons.prems(1) by (auto simp: Let_def split: option.splits if_splits)
    from Cons.IH[OF this] Cons.prems(2) show ?case by simp
  qed auto
  from this[of "[]" "[]"] show "map_of (instance_by_service is) l = Some i \<Longrightarrow> i \<in> set is \<and> trim_space (si_service i) = l"
    by (simp add: instance_by_service_def)
qed

lemma mapped_instance_serves:
  assumes "m \<in> set (build_route_mappings iter rts svcs insts)"
  shows "mp_InstanceID m = [] \<or> (\<exists>i\<in>set insts. mp_InstanceID m = si_id i \<and> trim_space (si_service i) = mp_LogicalServiceID m
           \<and> mp_ListenPort m = ex_listen_port (si_exposure i))"
proof -
  obtain r l i where r: "resolve_target_instance iter r (service_by_id svcs) (instance_by_service insts) = (l, i)"
      "mp_InstanceID m = si_id i" "mp_LogicalServiceID m = l" "mp_ListenPort m = ex_listen_port (si_exposure i)"
    using assms by (auto simp: build_route_mappings_def split: prod.splits)
  have "i = no_instance \<or> map_of (instance_by_service insts) l = Some i"
    using r(1) by (auto simp: resolve_target_instance_def resolve_target_selector_def Let_def
        split: route_target_type.splits option.splits if_splits)
  then show ?thesis
  proof
    assume "i = no_instance"
    then show ?thesis using r(2) by (simp add: no_instance_def)
  next
    assume "map_of (instance_by_service insts) l = Some i"
    from instance_by_service_sound[OF this] show ?thesis using r by auto
  qed
qed

end
