(* ===== verification/Agent_Session.thy ===== *)
theory Agent_Session
  imports Prelude
begin

text \<open>
  The agent's session manager (\<open>agent-core/runtime/agent/session/manager.go\<close>): the state of the
  session with a version, its epoch, the connect loop, and the notification of a state handler. A
  change of state is two sections: one under the manager's mutex that sets the state, and a later
  one that tells the handler, if the state is still the one that was set. Other goroutines may run
  between the two, so a change that is set is pending until its notification has run. The dialer
  and the authenticator answer as the environment chooses. Also the deduplication of
  acknowledgements (\<open>control/ack_deduper.go\<close>).
\<close>

section \<open>State\<close>

datatype agent_session_state =
    SessConnecting | SessAuthenticating | SessActive | SessDraining | SessStale | SessClosed

record session_manager =
  sm_state :: agent_session_state
  sm_version :: "64 word"
  sm_epoch :: "64 word"
  sm_lastHeartbeat :: gotime
  sm_lastState :: gotime
  sm_attempt :: int
  sm_backoff :: "int \<Rightarrow> duration"
  sm_handler :: bool
  sm_gauge :: agent_session_state

definition fixed_backoff :: "duration \<Rightarrow> int \<Rightarrow> duration" where
  "fixed_backoff delay attempt = (if delay \<le> 0 then 1000000000 else delay)"

definition new_session_manager :: "gotime \<Rightarrow> session_manager" where
  "new_session_manager now =
     \<lparr>sm_state = SessConnecting, sm_version = 1, sm_epoch = 1, sm_lastHeartbeat = zero_time, sm_lastState = now,
      sm_attempt = 0, sm_backoff = fixed_backoff 1000000000, sm_handler = False, sm_gauge = SessConnecting\<rparr>"

definition new_manager_with_options ::
    "gotime \<Rightarrow> (int \<Rightarrow> duration) option \<Rightarrow> bool \<Rightarrow> session_manager" where
  "new_manager_with_options now policy handler =
     (let m = new_session_manager now
      in m\<lparr>sm_backoff := (case policy of None \<Rightarrow> sm_backoff m | Some p \<Rightarrow> p), sm_handler := handler,
           sm_gauge := sm_state m\<rparr>)"

text \<open>\<open>setStateLocked\<close>.\<close>

definition set_state_locked ::
    "agent_session_state \<Rightarrow> gotime \<Rightarrow> session_manager \<Rightarrow> (bool \<times> 64 word) \<times> session_manager" where
  "set_state_locked s now m =
     (let changed = (sm_state m \<noteq> s);
          m' = (if changed then m\<lparr>sm_version := sm_version m + 1\<rparr> else m)
      in ((changed, sm_version m'), m'\<lparr>sm_state := s, sm_lastState := now, sm_gauge := s\<rparr>))"

text \<open>\<open>notifyStateHandler\<close>: what the handler is told, if it is called.\<close>

definition notify_state_handler ::
    "agent_session_state \<Rightarrow> bool \<Rightarrow> 64 word \<Rightarrow> session_manager \<Rightarrow> agent_session_state option" where
  "notify_state_handler s changed version m =
     (if \<not> changed then None
      else if sm_handler m \<and> sm_state m = s \<and> sm_version m = version then Some s else None)"

definition record_heartbeat :: "gotime \<Rightarrow> session_manager \<Rightarrow> session_manager" where
  "record_heartbeat at m = m\<lparr>sm_lastHeartbeat := at\<rparr>"

definition heartbeat_age :: "gotime \<Rightarrow> session_manager \<Rightarrow> duration" where
  "heartbeat_age now m =
     (if sm_lastHeartbeat m = zero_time then 3600000000000 * 24 * 365 else time_sub now (sm_lastHeartbeat m))"

definition is_epoch_valid :: "64 word \<Rightarrow> session_manager \<Rightarrow> bool" where
  "is_epoch_valid e m \<longleftrightarrow> e = sm_epoch m"

definition advance_epoch :: "session_manager \<Rightarrow> 64 word \<times> session_manager" where
  "advance_epoch m = (sm_epoch m + 1, m\<lparr>sm_epoch := sm_epoch m + 1\<rparr>)"


section \<open>Operations as sections\<close>

text \<open>
  The sections of \<open>Start\<close>, \<open>Stop\<close>, \<open>MarkDraining\<close>, \<open>MarkStale\<close> and \<open>connectOnce\<close>, and the others.
  \<open>SessSet\<close> is the first half of a change; \<open>reset\<close> is set where \<open>connectOnce\<close> resets the count of
  attempts in the same section.
\<close>

datatype session_section =
    SessSet agent_session_state gotime bool
  | SessNotify agent_session_state "64 word"
  | SessHeartbeat gotime
  | SessAdvance

text \<open>The manager, the notifications to come, and what the handler was told, oldest first.\<close>

record session_world =
  sw_manager :: session_manager
  sw_pending :: "(agent_session_state \<times> 64 word) list"
  sw_told :: "agent_session_state list"

definition session_set :: "agent_session_state \<Rightarrow> gotime \<Rightarrow> bool \<Rightarrow> session_world \<Rightarrow> session_world" where
  "session_set s now reset w =
     (case set_state_locked s now (sw_manager w) of
        ((changed, version), m) \<Rightarrow>
          w\<lparr>sw_manager := (if reset then m\<lparr>sm_attempt := 0\<rparr> else m),
            sw_pending := (if changed then sw_pending w @ [(s, version)] else sw_pending w)\<rparr>)"

definition session_notify :: "agent_session_state \<Rightarrow> 64 word \<Rightarrow> session_world \<Rightarrow> session_world" where
  "session_notify s version w =
     (if (s, version) \<in> set (sw_pending w)
      then w\<lparr>sw_pending := remove1 (s, version) (sw_pending w),
             sw_told := (case notify_state_handler s True version (sw_manager w) of
                           None \<Rightarrow> sw_told w | Some t \<Rightarrow> sw_told w @ [t])\<rparr>
      else w)"

fun session_apply :: "session_section \<Rightarrow> session_world \<Rightarrow> session_world" where
  "session_apply (SessSet s now reset) w = session_set s now reset w"
| "session_apply (SessNotify s version) w = session_notify s version w"
| "session_apply (SessHeartbeat at) w = w\<lparr>sw_manager := record_heartbeat at (sw_manager w)\<rparr>"
| "session_apply SessAdvance w = w\<lparr>sw_manager := snd (advance_epoch (sw_manager w))\<rparr>"

definition new_session_world :: "gotime \<Rightarrow> (int \<Rightarrow> duration) option \<Rightarrow> session_world" where
  "new_session_world now policy =
     \<lparr>sw_manager = new_manager_with_options now policy True, sw_pending = [], sw_told = []\<rparr>"

text \<open>A change with its notification at once, which is how one goroutine alone runs it.\<close>

definition change_state :: "agent_session_state \<Rightarrow> gotime \<Rightarrow> bool \<Rightarrow> session_world \<Rightarrow> session_world" where
  "change_state s now reset w =
     (case set_state_locked s now (sw_manager w) of
        ((changed, version), m) \<Rightarrow>
          (let w' = session_set s now reset w in if changed then session_notify s version w' else w'))"

definition start_session :: "gotime \<Rightarrow> session_world \<Rightarrow> session_world" where
  "start_session now w = change_state SessActive now False w"

definition stop_session :: "gotime \<Rightarrow> session_world \<Rightarrow> session_world" where
  "stop_session now w = change_state SessClosed now False w"

definition mark_session_draining :: "gotime \<Rightarrow> session_world \<Rightarrow> session_world" where
  "mark_session_draining now w = change_state SessDraining now False w"

definition mark_session_stale :: "gotime \<Rightarrow> session_world \<Rightarrow> session_world" where
  "mark_session_stale now w = change_state SessStale now False w"

text \<open>
  One attempt: what the dialer and the authenticator answer (\<open>None\<close> is no error), and the instants
  of its three changes.
\<close>

record connect_answers =
  ca_dial :: "string option"
  ca_auth :: "string option"
  ca_times :: "gotime \<times> gotime \<times> gotime"

definition connect_once :: "connect_answers \<Rightarrow> session_world \<Rightarrow> string option \<times> session_world" where
  "connect_once a w =
     (case ca_times a of (t1, t2, t3) \<Rightarrow>
        let w1 = change_state SessConnecting t1 False w
        in case ca_dial a of
             Some e \<Rightarrow> (Some e, w1)
           | None \<Rightarrow>
               (let w2 = change_state SessAuthenticating t2 False w1
                in case ca_auth a of
                     Some e \<Rightarrow> (Some e, w2)
                   | None \<Rightarrow> (None, change_state SessActive t3 True w2)))"

text \<open>
  \<open>Run\<close>: the list holds, for every attempt, the answers and whether the context is cancelled after
  it or during the wait that follows. It returns the delays it waited for; \<open>None\<close> when the answers
  run out before the context ends. A connected session waits for the context only.
\<close>

fun run_session ::
    "(connect_answers \<times> bool) list \<Rightarrow> session_world \<Rightarrow> (bool \<times> duration list) option \<times> session_world" where
  "run_session [] w = (None, w)"
| "run_session ((a, cancelled) # rest) w =
     (case connect_once a w of
        (None, w1) \<Rightarrow> (Some (True, []), w1)
      | (Some e, w1) \<Rightarrow>
          (let w2 = session_apply SessAdvance w1
           in if cancelled then (Some (False, []), w2)
              else (let m = sw_manager w2;
                        delay = sm_backoff m (sm_attempt m);
                        w3 = w2\<lparr>sw_manager := m\<lparr>sm_attempt := sm_attempt m + 1\<rparr>\<rparr>
                    in case run_session rest w3 of
                         (None, w4) \<Rightarrow> (None, w4)
                       | (Some (ok, ds), w4) \<Rightarrow> (Some (ok, delay # ds), w4))))"


section \<open>Deduplication of acknowledgements\<close>

record ack_deduper =
  ad_ttl :: duration
  ad_seen :: "(string, gotime) gomap"

definition new_ack_deduper :: "duration \<Rightarrow> ack_deduper" where
  "new_ack_deduper ttl = \<lparr>ad_ttl = (if ttl \<le> 0 then 60000000000 else ttl), ad_seen = []\<rparr>"

definition ack_sweep :: "gotime \<Rightarrow> ack_deduper \<Rightarrow> ack_deduper" where
  "ack_sweep now d = d\<lparr>ad_seen := filter (\<lambda>(i, ts). \<not> time_sub now ts > ad_ttl d) (ad_seen d)\<rparr>"

definition ack_seen :: "string \<Rightarrow> gotime \<Rightarrow> ack_deduper \<Rightarrow> bool \<times> ack_deduper" where
  "ack_seen i now d =
     (if i = [] then (False, d)
      else (let d1 = ack_sweep now d
            in case map_of (ad_seen d1) i of
                 Some ts \<Rightarrow> if time_sub now ts \<le> ad_ttl d then (True, d1)
                           else (False, d1\<lparr>ad_seen := map_put i now (ad_seen d1)\<rparr>)
               | None \<Rightarrow> (False, d1\<lparr>ad_seen := map_put i now (ad_seen d1)\<rparr>)))"

text \<open>\<open>Sweep\<close>, for callers that bound the memory.\<close>

definition deduper_sweep :: "gotime \<Rightarrow> ack_deduper \<Rightarrow> ack_deduper" where
  "deduper_sweep now d = ack_sweep now d"


section \<open>The handler learns the state\<close>

lemma set_state_locked_eq:
  "set_state_locked s now m =
     (if sm_state m = s then ((False, sm_version m), m\<lparr>sm_state := s, sm_lastState := now, sm_gauge := s\<rparr>)
      else ((True, sm_version m + 1), m\<lparr>sm_version := sm_version m + 1, sm_state := s, sm_lastState := now, sm_gauge := s\<rparr>))"
  by (simp add: set_state_locked_def Let_def)

definition session_told :: "session_world \<Rightarrow> bool" where
  "session_told w \<longleftrightarrow> sm_handler (sw_manager w) \<and> sm_gauge (sw_manager w) = sm_state (sw_manager w)
     \<and> (sm_state (sw_manager w) = last (SessConnecting # sw_told w)
        \<or> (sm_state (sw_manager w), sm_version (sw_manager w)) \<in> set (sw_pending w))"

lemma session_set_told: "session_told w \<Longrightarrow> session_told (session_set s now reset w)"
  by (auto simp: session_told_def session_set_def set_state_locked_eq)

lemma session_notify_told:
  assumes "session_told w"
  shows "session_told (session_notify s version w)"
proof (cases "(s, version) \<in> set (sw_pending w)")
  case pending: True
  show ?thesis
  proof (cases "sm_state (sw_manager w) = s \<and> sm_version (sw_manager w) = version")
    case True
    then show ?thesis using assms pending
      by (simp add: session_told_def session_notify_def notify_state_handler_def)
  next
    case False
    then have "(sm_state (sw_manager w), sm_version (sw_manager w)) \<in> set (remove1 (s, version) (sw_pending w))
        \<longleftrightarrow> (sm_state (sw_manager w), sm_version (sw_manager w)) \<in> set (sw_pending w)"
      by (intro in_set_remove1) auto
    then show ?thesis using assms pending False
      by (auto simp: session_told_def session_notify_def notify_state_handler_def)
  qed
next
  case False
  then show ?thesis using assms by (simp add: session_notify_def)
qed

lemma session_apply_told: "session_told w \<Longrightarrow> session_told (session_apply x w)"
proof (cases x)
  case SessHeartbeat
  then show "session_told w \<Longrightarrow> ?thesis" by (simp add: session_told_def record_heartbeat_def)
next
  case SessAdvance
  then show "session_told w \<Longrightarrow> ?thesis" by (simp add: session_told_def advance_epoch_def)
qed (simp_all add: session_set_told session_notify_told)

lemma session_run_told: "session_told w \<Longrightarrow> session_told (fold session_apply xs w)"
  by (induction xs arbitrary: w) (simp_all add: session_apply_told)

text \<open>C27. The state handler is told the state the session ends in: whatever changes, heartbeats and epoch
  advances run, in whatever order their notifications run between them, once no notification is
  outstanding the last state that the handler was told is the state of the session (the initial
  one, when it was told none); the gauge shows it at every moment.\<close>

theorem handler_learns_last_state:
  assumes w: "w = fold session_apply xs (new_session_world now policy)"
  shows "sm_gauge (sw_manager w) = sm_state (sw_manager w)
    \<and> (sw_pending w = [] \<longrightarrow> sm_state (sw_manager w) = last (SessConnecting # sw_told w))"
proof -
  have "session_told (new_session_world now policy)"
    by (simp add: session_told_def new_session_world_def new_manager_with_options_def new_session_manager_def Let_def)
  from session_run_told[OF this, of xs] show ?thesis by (auto simp: w session_told_def)
qed

text \<open>Two changes whose notifications run in the other order: the first is dropped.\<close>

theorem handler_learns_last_state_witness:
  "sw_pending (fold session_apply [SessSet SessActive 1 False, SessSet SessDraining 2 False,
       SessNotify SessDraining 3, SessNotify SessActive 2] (new_session_world 0 None)) = []
   \<and> sm_state (sw_manager (fold session_apply [SessSet SessActive 1 False, SessSet SessDraining 2 False,
       SessNotify SessDraining 3, SessNotify SessActive 2] (new_session_world 0 None))) = SessDraining
   \<and> sm_gauge (sw_manager (fold session_apply [SessSet SessActive 1 False, SessSet SessDraining 2 False,
       SessNotify SessDraining 3, SessNotify SessActive 2] (new_session_world 0 None))) = SessDraining
   \<and> last (SessConnecting # sw_told (fold session_apply [SessSet SessActive 1 False, SessSet SessDraining 2 False,
       SessNotify SessDraining 3, SessNotify SessActive 2] (new_session_world 0 None))) = SessDraining"
proof -
  let ?w = "fold session_apply [SessSet SessActive 1 False, SessSet SessDraining 2 False,
       SessNotify SessDraining 3, SessNotify SessActive 2] (new_session_world 0 None)"
  have "sw_pending ?w = [] \<and> sm_state (sw_manager ?w) = SessDraining"
    by (simp add: session_set_def set_state_locked_def session_notify_def notify_state_handler_def new_session_world_def
        new_manager_with_options_def new_session_manager_def Let_def)
  with handler_learns_last_state[OF refl,
      of "[SessSet SessActive 1 False, SessSet SessDraining 2 False, SessNotify SessDraining 3, SessNotify SessActive 2]" 0 None]
  show ?thesis by argo
qed


section \<open>The connect loop\<close>

definition with_epoch :: "64 word \<Rightarrow> int \<Rightarrow> session_world \<Rightarrow> bool" where
  "with_epoch e n w \<longleftrightarrow> sm_epoch (sw_manager w) = e \<and> sm_attempt (sw_manager w) = n"

lemma change_state_frame:
  "sm_epoch (sw_manager (change_state s now reset w)) = sm_epoch (sw_manager w)"
  "sm_attempt (sw_manager (change_state s now reset w)) = (if reset then 0 else sm_attempt (sw_manager w))"
  "sm_backoff (sw_manager (change_state s now reset w)) = sm_backoff (sw_manager w)"
  "sm_state (sw_manager (change_state s now reset w)) = s"
  by (auto simp: change_state_def session_set_def session_notify_def set_state_locked_eq Let_def)

definition attempt_fails :: "connect_answers \<Rightarrow> bool" where
  "attempt_fails a \<longleftrightarrow> ca_dial a \<noteq> None \<or> ca_auth a \<noteq> None"

lemma connect_once_frame:
  "sm_epoch (sw_manager (snd (connect_once a w))) = sm_epoch (sw_manager w)"
  "sm_backoff (sw_manager (snd (connect_once a w))) = sm_backoff (sw_manager w)"
  "fst (connect_once a w) \<noteq> None \<longleftrightarrow> attempt_fails a"
  "attempt_fails a \<Longrightarrow> sm_attempt (sw_manager (snd (connect_once a w))) = sm_attempt (sw_manager w)"
  "\<not> attempt_fails a \<Longrightarrow> sm_state (sw_manager (snd (connect_once a w))) = SessActive
     \<and> sm_attempt (sw_manager (snd (connect_once a w))) = 0"
  by (auto simp: connect_once_def attempt_fails_def change_state_frame Let_def split: prod.splits option.splits)

text \<open>
  After any number of failed attempts the loop connects at the first one that succeeds: it has
  waited for the delays of the attempts in order, every failure has its own epoch, and the count of
  attempts starts again.
\<close>

lemma run_session_connects:
  assumes "list_all (\<lambda>(a, cancelled). attempt_fails a \<and> \<not> cancelled) tries" and "\<not> attempt_fails a"
  shows "\<exists>w'. run_session (tries @ (a, c) # rest) w
      = (Some (True, map (\<lambda>k. sm_backoff (sw_manager w) (sm_attempt (sw_manager w) + int k)) [0..<length tries]), w')
    \<and> sm_state (sw_manager w') = SessActive \<and> sm_attempt (sw_manager w') = 0
    \<and> sm_epoch (sw_manager w') = sm_epoch (sw_manager w) + of_nat (length tries)"
  using assms(1)
proof (induction tries arbitrary: w)
  case Nil
  have "fst (connect_once a w) = None" using connect_once_frame(3)[of a w] assms(2) by simp
  then have "connect_once a w = (None, snd (connect_once a w))" by (simp add: prod_eq_iff)
  then show ?case
    using connect_once_frame(1)[of a w] connect_once_frame(5)[OF assms(2), of w] by (cases "connect_once a w") simp
next
  case (Cons x tries)
  obtain b where x: "x = (b, False)" "attempt_fails b" using Cons.prems by (cases x) auto
  obtain e w1 where o: "connect_once b w = (Some e, w1)"
    using connect_once_frame(3)[of b w] x(2) by (cases "connect_once b w") auto
  have w1: "sm_epoch (sw_manager w1) = sm_epoch (sw_manager w)" "sm_backoff (sw_manager w1) = sm_backoff (sw_manager w)"
      "sm_attempt (sw_manager w1) = sm_attempt (sw_manager w)"
    using connect_once_frame(1,2)[of b w] connect_once_frame(4)[OF x(2), of w] o by simp_all
  let ?m = "snd (advance_epoch (sw_manager w1))"
  let ?w3 = "w1\<lparr>sw_manager := ?m\<lparr>sm_attempt := sm_attempt ?m + 1\<rparr>\<rparr>"
  from Cons.IH[of ?w3] Cons.prems obtain w' where
    "run_session (tries @ (a, c) # rest) ?w3
      = (Some (True, map (\<lambda>k. sm_backoff (sw_manager w) (sm_attempt (sw_manager w) + 1 + int k)) [0..<length tries]), w')"
    "sm_state (sw_manager w') = SessActive" "sm_attempt (sw_manager w') = 0"
    "sm_epoch (sw_manager w') = sm_epoch (sw_manager w) + 1 + of_nat (length tries)"
    by (auto simp: advance_epoch_def w1)
  moreover have "map (\<lambda>k. f (n + int k)) [0..<Suc l] = f n # map (\<lambda>k. f (n + 1 + int k)) [0..<l]"
    for f :: "int \<Rightarrow> duration" and n l
    by (rule nth_equalityI) (auto simp: nth_Cons' add.assoc simp del: upt_Suc)
  ultimately show ?case
    by (simp add: x o Let_def advance_epoch_def w1 del: upt_Suc)
qed


section \<open>Every acknowledgement passes once\<close>

definition deduper_ok :: "ack_deduper \<Rightarrow> bool" where
  "deduper_ok d \<longleftrightarrow> keys_distinct (ad_seen d) \<and> 0 < ad_ttl d"

text \<open>A sequence of calls of the two public methods: the answers, in order.\<close>

datatype ack_call = SeenCall string gotime | SweepCall gotime

fun call_time :: "ack_call \<Rightarrow> gotime" where
  "call_time (SeenCall i now) = now"
| "call_time (SweepCall now) = now"

fun ack_exec :: "ack_call \<Rightarrow> ack_deduper \<Rightarrow> bool option \<times> ack_deduper" where
  "ack_exec (SeenCall i now) d = (case ack_seen i now d of (b, d') \<Rightarrow> (Some b, d'))"
| "ack_exec (SweepCall now) d = (None, deduper_sweep now d)"

fun ack_run :: "ack_call list \<Rightarrow> ack_deduper \<Rightarrow> bool option list" where
  "ack_run [] d = []"
| "ack_run (c # calls) d = fst (ack_exec c d) # ack_run calls (snd (ack_exec c d))"

definition remembers :: "string \<Rightarrow> gotime \<Rightarrow> ack_deduper \<Rightarrow> bool" where
  "remembers i t d \<longleftrightarrow> (\<exists>t'\<ge>t. map_of (ad_seen d) i = Some t')"

lemma time_sub_mono: "u \<le> u' \<Longrightarrow> time_sub t u' \<le> time_sub t u"
  by (auto simp: time_sub_def)

lemma time_sub_mono_left: "t \<le> t' \<Longrightarrow> time_sub t u \<le> time_sub t' u"
  by (auto simp: time_sub_def)

lemma sweep_remembers:
  assumes "remembers i t d" and "keys_distinct (ad_seen d)" and "time_sub now t \<le> ad_ttl d"
  shows "remembers i t (ack_sweep now d)"
proof -
  obtain t' where t': "t' \<ge> t" "map_of (ad_seen d) i = Some t'" using assms(1) by (auto simp: remembers_def)
  have "(i, t') \<in> set (ad_seen (ack_sweep now d))"
    using map_of_SomeD[OF t'(2)] order_trans[OF time_sub_mono[OF t'(1)] assms(3)] by (auto simp: ack_sweep_def)
  moreover have "keys_distinct (ad_seen (ack_sweep now d))"
    using assms(2) by (simp add: ack_sweep_def distinct_map_filter)
  ultimately show ?thesis using t'(1) by (auto simp: remembers_def intro!: exI[of _ t'])
qed


lemma ack_seen_distinct: "keys_distinct (ad_seen d) \<Longrightarrow> keys_distinct (ad_seen (snd (ack_seen i now d)))"
  by (auto simp: ack_seen_def ack_sweep_def Let_def split: option.splits)

lemma ack_seen_ttl [simp]: "ad_ttl (snd (ack_seen i now d)) = ad_ttl d"
  by (auto simp: ack_seen_def ack_sweep_def Let_def split: option.splits)

lemma remembered_refused:
  assumes "remembers i t d" and "keys_distinct (ad_seen d)" and "time_sub now t \<le> ad_ttl d" and "i \<noteq> []"
  shows "fst (ack_seen i now d)"
proof -
  obtain t' where t': "t' \<ge> t" "map_of (ad_seen (ack_sweep now d)) i = Some t'"
    using sweep_remembers[OF assms(1-3)] by (auto simp: remembers_def)
  then have "time_sub now t' \<le> ad_ttl d" using order_trans[OF time_sub_mono[OF t'(1)] assms(3)] by simp
  then show ?thesis using t'(2) assms(4) by (simp add: ack_seen_def Let_def)
qed

lemma remembered_stays:
  assumes "remembers i t d" and "keys_distinct (ad_seen d)" and "time_sub now t \<le> ad_ttl d"
  shows "remembers i t (snd (ack_seen j now d))"
proof (cases "j = i")
  case True
  show ?thesis
  proof (cases "i = []")
    case True
    then show ?thesis using assms(1) \<open>j = i\<close> by (simp add: ack_seen_def)
  next
    case False
    then have "snd (ack_seen i now d) = ack_sweep now d"
      using remembered_refused[OF assms False] by (auto simp: ack_seen_def Let_def split: option.splits if_splits)
    then show ?thesis using sweep_remembers[OF assms] True by simp
  qed
next
  case False
  then have "map_of (ad_seen (snd (ack_seen j now d))) i = map_of (ad_seen (if j = [] then d else ack_sweep now d)) i"
    by (auto simp: ack_seen_def Let_def split: option.splits)
  then show ?thesis using sweep_remembers[OF assms] assms(1) by (auto simp: remembers_def split: if_splits)
qed

lemma accepted_remembers:
  assumes "\<not> fst (ack_seen i now d)" and "i \<noteq> []"
  shows "remembers i now (snd (ack_seen i now d))"
  using assms by (auto simp: ack_seen_def remembers_def Let_def split: option.splits if_splits)

lemma ack_exec_keeps:
  assumes "keys_distinct (ad_seen d)"
  shows "keys_distinct (ad_seen (snd (ack_exec c d)))" "ad_ttl (snd (ack_exec c d)) = ad_ttl d"
  using assms ack_seen_distinct [OF assms]
  by (cases c; simp add: case_prod_beta deduper_sweep_def ack_sweep_def distinct_map_filter)+

lemma ack_exec_remembers:
  assumes "remembers i t d" and "keys_distinct (ad_seen d)" and "time_sub (call_time c) t \<le> ad_ttl d"
  shows "remembers i t (snd (ack_exec c d))"
  using assms remembered_stays [OF assms(1,2)] sweep_remembers [OF assms(1,2)]
  by (cases c) (simp_all add: case_prod_beta deduper_sweep_def)

lemma ack_run_refuses:
  assumes "remembers i t d" and "keys_distinct (ad_seen d)" and "sorted (map call_time calls)" and "k < length calls"
    and "calls ! k = SeenCall i u" and "i \<noteq> []" and "time_sub u t \<le> ad_ttl d"
  shows "ack_run calls d ! k = Some True"
  using assms
proof (induction calls arbitrary: d k)
  case (Cons c calls)
  show ?case
  proof (cases k)
    case 0
    then have "c = SeenCall i u" using Cons.prems(5) by simp
    then show ?thesis using remembered_refused [of i t d u] Cons.prems 0 by (simp add: case_prod_beta)
  next
    case (Suc k')
    then have "calls ! k' \<in> set calls" "call_time (calls ! k') = u" using Cons.prems(4,5) by (simp_all, metis nth_mem)
    then have "call_time c \<le> u" using Cons.prems(3) by auto
    then have "time_sub (call_time c) t \<le> ad_ttl d"
      using order_trans [OF time_sub_mono_left] Cons.prems(7) by blast
    note rest = ack_exec_remembers [OF Cons.prems(1,2) this] ack_exec_keeps [OF Cons.prems(2), of c]
    from Cons.IH [OF rest(1,2), of k'] rest(3) Cons.prems Suc show ?thesis by simp
  qed
qed simp

lemma ack_run_once:
  assumes "keys_distinct (ad_seen d)" and "sorted (map call_time calls)" and "k < l" and "l < length calls"
    and "calls ! k = SeenCall i t" and "calls ! l = SeenCall i u" and "i \<noteq> []"
    and "ack_run calls d ! k = Some False" and "ack_run calls d ! l = Some False"
  shows "ad_ttl d < time_sub u t"
  using assms
proof (induction calls arbitrary: d k l)
  case (Cons c calls)
  obtain l' where l: "l = Suc l'" using Cons.prems(3) by (cases l) auto
  note rest = ack_exec_keeps [OF Cons.prems(1), of c]
  show ?case
  proof (cases k)
    case 0
    then have "c = SeenCall i t" using Cons.prems(5) by simp
    moreover from this have "\<not> fst (ack_seen i t d)" using Cons.prems(8) 0 by (simp add: case_prod_beta)
    ultimately have "remembers i t (snd (ack_exec c d))"
      using accepted_remembers Cons.prems(7) by (simp add: case_prod_beta)
    from ack_run_refuses [OF this rest(1), of calls l' u] Cons.prems rest(2) show ?thesis
      by (simp add: l) (meson not_le)
  next
    case (Suc k')
    from Cons.IH [OF rest(1), of k' l'] rest(2) Cons.prems show ?thesis by (simp add: l Suc)
  qed
qed simp

text \<open>What is refused was let through before.\<close>

lemma ack_seen_entry:
  assumes "keys_distinct (ad_seen d)" and "map_of (ad_seen (snd (ack_seen j now d))) i = Some ts"
  shows "map_of (ad_seen d) i = Some ts \<or> j = i \<and> ts = now \<and> \<not> fst (ack_seen j now d)"
proof -
  have swept: "map_of (ad_seen d) i = Some ts" if "map_of (ad_seen (ack_sweep now d)) i = Some ts"
    using map_of_SomeD [OF that] map_of_is_SomeI [OF assms(1)] by (simp add: ack_sweep_def)
  show ?thesis
    using assms(2) swept by (auto simp: ack_seen_def Let_def simp del: map_of_eq_Some_iff split: option.splits if_splits)
qed

lemma ack_exec_entry:
  assumes "keys_distinct (ad_seen d)" and "map_of (ad_seen (snd (ack_exec c d))) i = Some ts"
  shows "map_of (ad_seen d) i = Some ts \<or> c = SeenCall i ts \<and> fst (ack_exec c d) = Some False"
proof (cases c)
  case (SeenCall j now)
  then show ?thesis using ack_seen_entry [OF assms(1), of j now i ts] assms(2) by (auto simp: case_prod_beta)
next
  case (SweepCall now)
  then show ?thesis
    using assms(2) map_of_SomeD [of "ad_seen (ack_sweep now d)" i ts] map_of_is_SomeI [OF assms(1), of i ts]
    by (simp add: deduper_sweep_def ack_sweep_def)
qed

lemma ack_run_refused:
  assumes "keys_distinct (ad_seen d)" and "l < length calls" and "calls ! l = SeenCall i u" and "ack_run calls d ! l = Some True"
  shows "(\<exists>t. map_of (ad_seen d) i = Some t \<and> time_sub u t \<le> ad_ttl d)
    \<or> (\<exists>k < l. \<exists>t. calls ! k = SeenCall i t \<and> ack_run calls d ! k = Some False \<and> time_sub u t \<le> ad_ttl d)"
  using assms
proof (induction calls arbitrary: d l)
  case (Cons c calls)
  note rest = ack_exec_keeps [OF Cons.prems(1), of c]
  show ?case
  proof (cases l)
    case 0
    then have "fst (ack_seen i u d)" using Cons.prems by (simp add: case_prod_beta)
    then obtain t where "map_of (ad_seen (ack_sweep u d)) i = Some t" "time_sub u t \<le> ad_ttl d"
      by (auto simp: ack_seen_def Let_def simp del: map_of_eq_Some_iff split: option.splits if_splits)
    moreover from this(1) have "map_of (ad_seen d) i = Some t"
      using map_of_SomeD map_of_is_SomeI [OF Cons.prems(1)] by (fastforce simp: ack_sweep_def)
    ultimately show ?thesis by blast
  next
    case (Suc l')
    from Cons.IH [OF rest(1), of l'] Cons.prems Suc rest(2)
    consider (old) t where "map_of (ad_seen (snd (ack_exec c d))) i = Some t" "time_sub u t \<le> ad_ttl d"
      | (new) k t where "k < l'" "calls ! k = SeenCall i t" "ack_run calls (snd (ack_exec c d)) ! k = Some False"
          "time_sub u t \<le> ad_ttl d"
      by auto
    then show ?thesis
    proof cases
      case old
      from ack_exec_entry [OF Cons.prems(1) old(1)] show ?thesis
      proof
        assume "c = SeenCall i t \<and> fst (ack_exec c d) = Some False"
        then show ?thesis using old(2) Suc by (intro disjI2 exI [of _ 0]) auto
      qed (use old(2) in blast)
    next
      case new
      then show ?thesis using Suc by (intro disjI2 exI [of _ "Suc k"]) auto
    qed
  qed
qed simp

text \<open>C37. An acknowledgement passes once per lifetime: along any sequence of calls of \<open>Seen\<close> and
  \<open>Sweep\<close> with a clock that does not go back, two calls of \<open>Seen\<close> with the same event that are both
  let through are more than the lifetime apart; and a call that is refused comes at most the
  lifetime after one with the same event that was let through. (The empty event is always let through.)\<close>

theorem acks_pass_once:
  assumes "sorted (map call_time calls)" and "i \<noteq> []" and "lifetime = (if ttl \<le> 0 then 60000000000 else ttl)"
    and "run = ack_run calls (new_ack_deduper ttl)"
  shows "(\<forall>k l t u. k < l \<and> l < length calls \<and> calls ! k = SeenCall i t \<and> calls ! l = SeenCall i u
        \<and> run ! k = Some False \<and> run ! l = Some False \<longrightarrow> lifetime < time_sub u t)
    \<and> (\<forall>l u. l < length calls \<and> calls ! l = SeenCall i u \<and> run ! l = Some True \<longrightarrow>
        (\<exists>k < l. \<exists>t. calls ! k = SeenCall i t \<and> run ! k = Some False \<and> time_sub u t \<le> lifetime))"
proof -
  have new: "keys_distinct (ad_seen (new_ack_deduper ttl))" "ad_ttl (new_ack_deduper ttl) = lifetime"
    "map_of (ad_seen (new_ack_deduper ttl)) i = None"
    by (simp_all add: new_ack_deduper_def assms(3))
  show ?thesis
    using ack_run_once [OF new(1) assms(1) _ _ _ _ assms(2)] ack_run_refused [OF new(1)] new(2,3)
    unfolding assms(4) by fastforce
qed

text \<open>An event at 0, at the end of its lifetime, and after it.\<close>

definition sample_acks_run :: "ack_call list" where
  "sample_acks_run = [SeenCall ''e'' 0, SweepCall 3, SeenCall ''e'' 5, SeenCall ''e'' 6]"

theorem acks_pass_once_witness:
  "ack_run sample_acks_run (new_ack_deduper 5) = [Some False, None, Some True, Some False]
    \<and> 5 < time_sub 6 0
    \<and> (\<exists>k < 2. \<exists>t. sample_acks_run ! k = SeenCall ''e'' t \<and> time_sub 5 t \<le> 5)"
proof -
  have run: "ack_run sample_acks_run (new_ack_deduper 5) = [Some False, None, Some True, Some False]"
    by (simp add: sample_acks_run_def new_ack_deduper_def ack_seen_def ack_sweep_def deduper_sweep_def time_sub_def
        min_int64_def max_int64_def Let_def)
  have sorted: "sorted (map call_time sample_acks_run)" by (simp add: sample_acks_run_def)
  have calls: "sample_acks_run ! 0 = SeenCall ''e'' 0" "sample_acks_run ! 2 = SeenCall ''e'' 5" "sample_acks_run ! 3 = SeenCall ''e'' 6"
    "length sample_acks_run = 4"
    by (simp_all add: sample_acks_run_def)
  note once = acks_pass_once [OF sorted _ _ run [symmetric], of "''e''" 5, simplified]
  have "5 < time_sub 6 0"
    by (rule conjunct1 [OF once, rule_format, of 0 3]) (simp_all add: calls)
  moreover have "\<exists>k < 2. \<exists>t. sample_acks_run ! k = SeenCall ''e'' t \<and> time_sub 5 t \<le> 5"
    using conjunct2 [OF once, rule_format, of 2 5] calls by auto
  ultimately show ?thesis using run by blast
qed

end
