(* ===== verification/Agent_Catalog.thy ===== *)
theory Agent_Catalog
  imports Canonical_Registry Host_Deriver Base62 Resource_Handlers
begin

text \<open>
  The agent's catalogue of local services (\<open>agent-core/runtime/agent/service/catalog.go\<close>, with
  \<open>LocalRegistration\<close> of \<open>ltfp/adapter/local_service_adapter.go\<close>): the records by instance, the last
  instance registered under a name in a scope, and the instances of a logical service. Every
  operation is one section under the catalogue's mutex. \<open>now\<close> is the instant the caller passes,
  \<open>wall\<close> the reading of the clock that replaces a zero one.
\<close>

section \<open>Records\<close>

record local_registration =
  lo_LogicalServiceID :: string
  lo_InstanceID :: string
  lo_Scope :: scope
  lo_ServiceName :: string
  lo_ServiceType :: string
  lo_Endpoints :: "service_endpoint list"
  lo_Exposure :: service_exposure
  lo_HealthCheck :: health_check_config
  lo_DiscoveryPolicy :: discovery_policy
  lo_RouteHint :: route_hint
  lo_Labels :: labels
  lo_Metadata :: labels

record endpoint_health_status =
  eh_EndpointID :: string
  eh_HealthStatus :: health_status
  eh_Reason :: string

record catalog_record =
  ca_Registration :: local_registration
  ca_HealthStatus :: health_status
  ca_EndpointStatuses :: "endpoint_health_status list"
  ca_UpdatedAt :: gotime

record service_catalog =
  sc_byInstanceID :: "(string, catalog_record) gomap"
  sc_byName :: "(string, string) gomap"
  sc_byService :: index

definition new_catalog :: service_catalog where
  "new_catalog = \<lparr>sc_byInstanceID = [], sc_byName = [], sc_byService = []\<rparr>"

definition build_scope_service_name_key :: "string \<Rightarrow> scope \<Rightarrow> string" where
  "build_scope_service_name_key name s =
     (if trim_space name = [] \<or> trim_space (Namespace s) = [] \<or> trim_space (Environment s) = [] then []
      else trim_space (Namespace s) @ ''|'' @ trim_space (Environment s) @ ''|'' @ trim_space name)"

definition name_key :: "local_registration \<Rightarrow> string" where
  "name_key r = build_scope_service_name_key (lo_ServiceName r) (lo_Scope r)"

definition normalize_registration :: "local_registration \<Rightarrow> local_registration" where
  "normalize_registration r =
     r\<lparr>lo_LogicalServiceID := trim_space (lo_LogicalServiceID r), lo_InstanceID := trim_space (lo_InstanceID r),
       lo_Scope := \<lparr>Namespace = trim_space (Namespace (lo_Scope r)), Environment = trim_space (Environment (lo_Scope r))\<rparr>,
       lo_ServiceName := trim_space (lo_ServiceName r), lo_ServiceType := trim_space (lo_ServiceType r)\<rparr>"

definition normalize_updated_at :: "gotime \<Rightarrow> gotime \<Rightarrow> gotime" where
  "normalize_updated_at wall now = (if is_zero now then wall else now)"

text \<open>The copies that leave the catalogue share nothing with it; only the health is normalised.\<close>

definition clone_record :: "catalog_record \<Rightarrow> catalog_record" where
  "clone_record r = r\<lparr>ca_HealthStatus := normalize_health_status (ca_HealthStatus r)\<rparr>"

definition no_catalog_record :: catalog_record where
  "no_catalog_record =
     \<lparr>ca_Registration = \<lparr>lo_LogicalServiceID = [], lo_InstanceID = [], lo_Scope = no_scope, lo_ServiceName = [],
        lo_ServiceType = [], lo_Endpoints = [],
        lo_Exposure = \<lparr>ex_ingress_mode = IngressModeOther [], ex_host = [], ex_listen_port = 0, ex_sni_name = [],
          ex_path_prefix = [], ex_allow_export = False\<rparr>,
        lo_HealthCheck = \<lparr>hc_type = [], hc_endpoint = [], hc_interval = 0, hc_timeout = 0, hc_healthy_threshold = 0,
          hc_unhealthy_threshold = 0\<rparr>,
        lo_DiscoveryPolicy = \<lparr>dp_enabled = False, dp_providers = [], dp_external_name = [], dp_namespace = [],
          dp_group = [], dp_tags = [], dp_metadata = []\<rparr>,
        lo_RouteHint = \<lparr>rh_headers = [], rh_queries = [], rh_priority = 0\<rparr>, lo_Labels = [], lo_Metadata = []\<rparr>,
      ca_HealthStatus = HealthStatusOther [], ca_EndpointStatuses = [], ca_UpdatedAt = zero_time\<rparr>"


section \<open>Generated identifiers\<close>

text \<open>The loop over the runes, byte by byte: \<open>written\<close> tells whether the builder holds anything.\<close>

fun segment_chars :: "bool \<Rightarrow> bool \<Rightarrow> string \<Rightarrow> string" where
  "segment_chars last_hyphen written [] = []"
| "segment_chars last_hyphen written (c # s) =
     (if is_label_char c then c # segment_chars False True s
      else if \<not> last_hyphen \<and> written then CHR ''-'' # segment_chars True True s
      else segment_chars last_hyphen written s)"

definition normalize_service_id_segment :: "string \<Rightarrow> string \<Rightarrow> string" where
  "normalize_service_id_segment value fallback =
     (let fb0 = to_lower (trim_space fallback); fb = (if fb0 = [] then ''x'' else fb0);
          raw = to_lower (trim_space value)
      in if raw = [] then fb
         else let segment = trim_char (CHR ''-'') (segment_chars False False raw)
              in if segment = [] then fb
                 else if length segment > 48
                      then (let cut = trim_char (CHR ''-'') (take 48 segment) in if cut = [] then fb else cut)
                      else segment)"

text \<open>Seconds from the zero time to the Unix epoch; \<open>uint64(now.UnixNano())\<close>.\<close>

definition unix_epoch :: gotime where
  "unix_epoch = 62135596800 * 1000000000"

definition unix_nano_bits :: "gotime \<Rightarrow> nat" where
  "unix_nano_bits now = nat ((now - unix_epoch) mod 2 ^ 64)"

definition build_generated_instance_id :: "gotime \<Rightarrow> string \<Rightarrow> string \<Rightarrow> string" where
  "build_generated_instance_id now name ty =
     normalize_service_id_segment name ''service'' @ ''-'' @ normalize_service_id_segment ty ''tcp'' @ ''-''
       @ encode_uint64 (unix_nano_bits now)"


section \<open>Operations\<close>

definition add_record_indexes :: "local_registration \<Rightarrow> service_catalog \<Rightarrow> service_catalog" where
  "add_record_indexes r cat =
     (let k = name_key r; i = trim_space (lo_InstanceID r); l = trim_space (lo_LogicalServiceID r)
      in cat\<lparr>sc_byName := (if k \<noteq> [] \<and> i \<noteq> [] then map_put k i (sc_byName cat) else sc_byName cat),
             sc_byService := (if l \<noteq> [] \<and> i \<noteq> [] then canonical_add_index l i (sc_byService cat) else sc_byService cat)\<rparr>)"

definition remove_record_indexes :: "local_registration \<Rightarrow> service_catalog \<Rightarrow> service_catalog" where
  "remove_record_indexes r cat =
     (let k = name_key r; i = trim_space (lo_InstanceID r); l = trim_space (lo_LogicalServiceID r)
      in cat\<lparr>sc_byName := (if k \<noteq> [] \<and> i \<noteq> [] \<and> map_of (sc_byName cat) k = Some i then map_del k (sc_byName cat)
                           else sc_byName cat),
             sc_byService := (if l \<noteq> [] \<and> i \<noteq> [] then canonical_remove_index l i (sc_byService cat) else sc_byService cat)\<rparr>)"

definition lookup_record :: "string \<Rightarrow> string \<Rightarrow> service_catalog \<Rightarrow> (string \<times> catalog_record) option" where
  "lookup_record l i cat =
     (case (if i \<noteq> [] then map_of (sc_byInstanceID cat) i else None) of
        Some r \<Rightarrow> Some (i, r)
      | None \<Rightarrow>
          if l \<noteq> []
          then (case List.map_filter (\<lambda>c. map_option (\<lambda>r. (c, r)) (map_of (sc_byInstanceID cat) c))
                      (bucket (sc_byService cat) l) of
                  [] \<Rightarrow> None | x # xs \<Rightarrow> Some x)
          else None)"

text \<open>The identifier and the registration that \<open>Upsert\<close> stores.\<close>

definition upsert_instance_id :: "gotime \<Rightarrow> local_registration \<Rightarrow> service_catalog \<Rightarrow> string" where
  "upsert_instance_id now r cat =
     (let k = name_key r;
          i0 = lo_InstanceID r;
          i1 = (if i0 = [] \<and> k \<noteq> []
                then (case map_of (sc_byName cat) k of Some mapped \<Rightarrow> mapped | None \<Rightarrow> i0) else i0)
      in if i1 = [] then build_generated_instance_id now (lo_ServiceName r) (lo_ServiceType r) else i1)"

definition upsert_service_id :: "string \<Rightarrow> local_registration \<Rightarrow> service_catalog \<Rightarrow> string" where
  "upsert_service_id i r cat =
     (if lo_LogicalServiceID r = [] \<and> name_key r \<noteq> []
      then (case map_of (sc_byInstanceID cat) i of
              Some x \<Rightarrow> trim_space (lo_LogicalServiceID (ca_Registration x))
            | None \<Rightarrow>
                (case map_of (sc_byName cat) (name_key r) of
                   Some mapped \<Rightarrow>
                     (case map_of (sc_byInstanceID cat) mapped of
                        Some x \<Rightarrow> trim_space (lo_LogicalServiceID (ca_Registration x))
                      | None \<Rightarrow> lo_LogicalServiceID r)
                 | None \<Rightarrow> lo_LogicalServiceID r))
      else lo_LogicalServiceID r)"

definition catalog_upsert ::
    "gotime \<Rightarrow> gotime \<Rightarrow> local_registration \<Rightarrow> service_catalog \<Rightarrow> catalog_record \<times> service_catalog" where
  "catalog_upsert wall now registration cat =
     (let r = normalize_registration registration
      in if lo_InstanceID r = [] \<and> name_key r = [] then (no_catalog_record, cat)
         else
           (let i = upsert_instance_id now r cat;
                r' = r\<lparr>lo_InstanceID := i, lo_LogicalServiceID := upsert_service_id i r cat\<rparr>;
                (health, statuses, cat1) =
                  (case map_of (sc_byInstanceID cat) i of
                     None \<Rightarrow> (HealthStatusUnknown, [], cat)
                   | Some x \<Rightarrow> (normalize_health_status (ca_HealthStatus x), ca_EndpointStatuses x,
                                remove_record_indexes (ca_Registration x) cat));
                x = \<lparr>ca_Registration = r', ca_HealthStatus = health, ca_EndpointStatuses = statuses,
                     ca_UpdatedAt = normalize_updated_at wall now\<rparr>
            in (clone_record x,
                add_record_indexes r' (cat1\<lparr>sc_byInstanceID := map_put i x (sc_byInstanceID cat1)\<rparr>))))"

text \<open>\<open>ApplyPublishIdentity\<close>: the record it finds, with its key, then the renaming.\<close>

definition publish_target :: "string \<Rightarrow> string \<Rightarrow> service_catalog \<Rightarrow> (string \<times> catalog_record) option" where
  "publish_target i k cat =
     (case (if i = [] then map_of (sc_byName cat) k else Some i) of
        None \<Rightarrow> None
      | Some current \<Rightarrow>
          (case map_of (sc_byInstanceID cat) current of
             Some x \<Rightarrow> Some (current, x)
           | None \<Rightarrow>
               if k = [] then None
               else (case map_of (sc_byName cat) k of
                       None \<Rightarrow> None
                     | Some mapped \<Rightarrow>
                         (case map_of (sc_byInstanceID cat) mapped of None \<Rightarrow> None | Some x \<Rightarrow> Some (mapped, x)))))"

definition apply_publish_identity ::
    "gotime \<Rightarrow> gotime \<Rightarrow> string \<Rightarrow> scope \<Rightarrow> string \<Rightarrow> string \<Rightarrow> service_catalog \<Rightarrow> bool \<times> service_catalog" where
  "apply_publish_identity wall now name s logical inst cat =
     (let l = trim_space logical; i = trim_space inst; k = build_scope_service_name_key name s
      in if l = [] \<or> (i = [] \<and> k = []) then (False, cat)
         else case publish_target i k cat of
             None \<Rightarrow> (False, cat)
           | Some (current, x) \<Rightarrow>
               (let cat1 = remove_record_indexes (ca_Registration x) cat;
                    cat2 = cat1\<lparr>sc_byInstanceID := map_del current (sc_byInstanceID cat1)\<rparr>;
                    r1 = (ca_Registration x)\<lparr>lo_LogicalServiceID := l\<rparr>;
                    r2 = (if i \<noteq> [] then r1\<lparr>lo_InstanceID := i\<rparr> else r1);
                    i' = (if i \<noteq> [] then i else trim_space (lo_InstanceID r1));
                    x' = x\<lparr>ca_Registration := r2, ca_UpdatedAt := normalize_updated_at wall now\<rparr>
                in if i' = [] then (False, cat2)
                   else (True, add_record_indexes r2 (cat2\<lparr>sc_byInstanceID := map_put i' x' (sc_byInstanceID cat2)\<rparr>))))"

definition catalog_update_health ::
    "gotime \<Rightarrow> gotime \<Rightarrow> string \<Rightarrow> string \<Rightarrow> health_status \<Rightarrow> endpoint_health_status list \<Rightarrow> service_catalog
      \<Rightarrow> bool \<times> service_catalog" where
  "catalog_update_health wall now logical inst h statuses cat =
     (case lookup_record (trim_space logical) (trim_space inst) cat of
        None \<Rightarrow> (False, cat)
      | Some (i, x) \<Rightarrow>
          (True, cat\<lparr>sc_byInstanceID := map_put i
             (x\<lparr>ca_HealthStatus := normalize_health_status h, ca_EndpointStatuses := statuses,
                ca_UpdatedAt := normalize_updated_at wall now\<rparr>) (sc_byInstanceID cat)\<rparr>))"

definition remove_by_instance_id :: "string \<Rightarrow> service_catalog \<Rightarrow> bool \<times> service_catalog" where
  "remove_by_instance_id inst cat =
     (let i = trim_space inst
      in if i = [] then (False, cat)
         else case map_of (sc_byInstanceID cat) i of
             None \<Rightarrow> (False, cat)
           | Some x \<Rightarrow>
               (let cat1 = remove_record_indexes (ca_Registration x) cat
                in (True, cat1\<lparr>sc_byInstanceID := map_del i (sc_byInstanceID cat1)\<rparr>)))"

text \<open>\<open>List\<close>: sorted by name key, then by instance.\<close>

definition catalog_list :: "service_catalog \<Rightarrow> catalog_record list" where
  "catalog_list cat =
     sort_key (\<lambda>r. (name_key (ca_Registration r), lo_InstanceID (ca_Registration r)))
       (map clone_record (map snd (sc_byInstanceID cat)))"


section \<open>The indexes follow the records\<close>

text \<open>Generated identifiers are not empty and have no blanks at their ends.\<close>

definition label_string :: "string \<Rightarrow> bool" where
  "label_string s \<longleftrightarrow> s \<noteq> [] \<and> graphic (hd s)"

lemma label_char_graphic: "is_label_char c \<Longrightarrow> graphic c"
  by (auto simp: is_label_char_def graphic_def is_digit_def)

lemma segment_chars_graphic: "set (segment_chars b w s) \<subseteq> {c. graphic c}"
proof (induction b w s rule: segment_chars.induct)
  case (2 b w c s)
  have "graphic (CHR ''-'')" by (simp add: graphic_def)
  then show ?case using 2 label_char_graphic[of c] by auto
qed simp

lemma set_trim_char: "set (trim_char c s) \<subseteq> set s"
  unfolding trim_char_def by (metis (no_types, lifting) order.trans set_dropWhileD set_rev subsetI)

lemma graphic_label: "s \<noteq> [] \<Longrightarrow> set s \<subseteq> {c. graphic c} \<Longrightarrow> label_string s"
  by (cases s) (auto simp: label_string_def)

lemma segment_label:
  assumes "label_string (to_lower (trim_space fb))"
  shows "label_string (normalize_service_id_segment v fb)"
proof -
  define raw where "raw = to_lower (trim_space v)"
  define seg where "seg = trim_char (CHR ''-'') (segment_chars False False raw)"
  define cut where "cut = trim_char (CHR ''-'') (take 48 seg)"
  have s: "set seg \<subseteq> {c. graphic c}"
    unfolding seg_def by (rule order.trans[OF set_trim_char segment_chars_graphic])
  have c: "set cut \<subseteq> {c. graphic c}"
    unfolding cut_def by (rule order.trans[OF set_trim_char order.trans[OF set_take_subset s]])
  have "to_lower (trim_space fb) \<noteq> []" using assms by (simp add: label_string_def)
  then have "normalize_service_id_segment v fb \<in> {to_lower (trim_space fb), seg, cut}
      \<and> (normalize_service_id_segment v fb = to_lower (trim_space fb) \<or> normalize_service_id_segment v fb \<noteq> [])"
    by (simp add: normalize_service_id_segment_def Let_def flip: raw_def seg_def cut_def)
  then show ?thesis using assms graphic_label[OF _ s] graphic_label[OF _ c] by auto
qed

lemma encode_graphic: "encode_uint64 n \<noteq> [] \<and> graphic (last (encode_uint64 n))"
proof -
  have g: "c \<in> set alphabet \<Longrightarrow> graphic c" for c by (auto simp: alphabet_def graphic_def)
  have "n mod base < length alphabet" by (simp add: length_alphabet base_def)
  then have "graphic (alphabet ! (n mod base))" by (intro g nth_mem)
  moreover have "graphic (CHR ''0'')" by (simp add: graphic_def)
  ultimately show ?thesis by (simp add: encode_uint64_def encode_digits.simps[of n])
qed

lemma generated_id_trimmed: "build_generated_instance_id now name ty \<noteq> []
    \<and> trim_space (build_generated_instance_id now name ty) = build_generated_instance_id now name ty"
proof -
  have "label_string (to_lower (trim_space ''service''))"
    by (subst trim_space_graphic) (simp_all add: graphic_def label_string_def lower_char_def)
  from segment_label[OF this, of name] show ?thesis
    using encode_graphic[of "unix_nano_bits now"]
    by (auto simp: build_generated_instance_id_def label_string_def hd_append intro!: trim_space_graphic)
qed


definition records_ok :: "(string, catalog_record) gomap \<Rightarrow> bool" where
  "records_ok objs \<longleftrightarrow>
     (\<forall>i x. map_of objs i = Some x \<longrightarrow> i \<noteq> [] \<and> trim_space i = i \<and> lo_InstanceID (ca_Registration x) = i
        \<and> trim_space (lo_LogicalServiceID (ca_Registration x)) = lo_LogicalServiceID (ca_Registration x))"

definition names_ok :: "(string, catalog_record) gomap \<Rightarrow> (string, string) gomap \<Rightarrow> bool" where
  "names_ok objs names \<longleftrightarrow>
     (\<forall>k i. map_of names k = Some i \<longrightarrow>
        k \<noteq> [] \<and> (\<exists>x. map_of objs i = Some x \<and> name_key (ca_Registration x) = k))"

definition recorded_service :: "catalog_record \<Rightarrow> string" where
  "recorded_service x = lo_LogicalServiceID (ca_Registration x)"

definition catalog_ok :: "service_catalog \<Rightarrow> bool" where
  "catalog_ok cat \<longleftrightarrow>
     records_ok (sc_byInstanceID cat) \<and> names_ok (sc_byInstanceID cat) (sc_byName cat)
     \<and> index_ok recorded_service (sc_byInstanceID cat) (sc_byService cat)"

lemma index_ok_del:
  assumes "index_ok key objs idx" and "map_of objs i = Some x" and "i \<noteq> []" and "trim_space i = i"
    and "trim_space (key x) = key x"
  shows "index_ok key (map_del i objs) (if key x \<noteq> [] then canonical_remove_index (key x) i idx else idx)"
proof -
  have b: "v \<in> set (bucket (if key x \<noteq> [] then canonical_remove_index (key x) i idx else idx) k)
      \<longleftrightarrow> v \<in> set (bucket idx k) \<and> \<not> (k = key x \<and> key x \<noteq> [] \<and> v = i)" for v k
    using assms(3-5) by (auto simp: bucket_remove)
  show ?thesis
    unfolding index_ok_def b using assms(1,2)[unfolded index_ok_def] by auto
qed

lemma index_ok_add:
  assumes "index_ok key objs idx" and "map_of objs i = None" and "i \<noteq> []" and "trim_space i = i"
    and "trim_space (key x) = key x"
  shows "index_ok key (map_put i x objs) (if key x \<noteq> [] then canonical_add_index (key x) i idx else idx)"
proof -
  have b: "v \<in> set (bucket (if key x \<noteq> [] then canonical_add_index (key x) i idx else idx) k)
      \<longleftrightarrow> v \<in> set (bucket idx k) \<or> (k = key x \<and> key x \<noteq> [] \<and> v = i)" for v k
    using assms(3-5) by (auto simp: bucket_add)
  show ?thesis
    unfolding index_ok_def b using assms(1,2)[unfolded index_ok_def] by auto
qed

lemma index_ok_cong: "map_of objs = map_of objs' \<Longrightarrow> index_ok key objs idx = index_ok key objs' idx"
  by (simp add: index_ok_def)

lemma names_ok_del:
  assumes "names_ok objs names" and "map_of objs i = Some x"
  shows "names_ok (map_del i objs)
    (if name_key (ca_Registration x) \<noteq> [] \<and> map_of names (name_key (ca_Registration x)) = Some i
     then map_del (name_key (ca_Registration x)) names else names)"
  unfolding names_ok_def
proof (intro allI impI)
  let ?n = "if name_key (ca_Registration x) \<noteq> [] \<and> map_of names (name_key (ca_Registration x)) = Some i
     then map_del (name_key (ca_Registration x)) names else names"
  fix k j
  assume a: "map_of ?n k = Some j"
  then have o: "map_of names k = Some j" by (auto split: if_splits)
  then obtain y where y: "k \<noteq> []" "map_of objs j = Some y" "name_key (ca_Registration y) = k"
    using assms(1) by (auto simp: names_ok_def)
  have "j \<noteq> i"
  proof
    assume "j = i"
    then have "name_key (ca_Registration x) = k" using y assms(2) by simp
    then show False using a o y(1) \<open>j = i\<close> by simp
  qed
  then show "k \<noteq> [] \<and> (\<exists>x. map_of (map_del i objs) j = Some x \<and> name_key (ca_Registration x) = k)" using y by simp
qed

lemma names_ok_add:
  assumes "names_ok objs names" and "map_of objs i = None"
  shows "names_ok (map_put i x objs)
    (if name_key (ca_Registration x) \<noteq> [] then map_put (name_key (ca_Registration x)) i names else names)"
  unfolding names_ok_def
proof (intro allI impI)
  fix k j
  assume a: "map_of (if name_key (ca_Registration x) \<noteq> [] then map_put (name_key (ca_Registration x)) i names else names) k = Some j"
  show "k \<noteq> [] \<and> (\<exists>y. map_of (map_put i x objs) j = Some y \<and> name_key (ca_Registration y) = k)"
  proof (cases "k = name_key (ca_Registration x) \<and> k \<noteq> []")
    case True
    then have "j = i" using a by (simp split: if_splits)
    then show ?thesis using True by auto
  next
    case False
    then have "map_of names k = Some j" using a by (auto split: if_splits)
    then obtain y where y: "k \<noteq> []" "map_of objs j = Some y" "name_key (ca_Registration y) = k"
      using assms(1) by (auto simp: names_ok_def)
    then have "j \<noteq> i" using assms(2) by auto
    then show ?thesis using y by simp
  qed
qed

lemma catalog_drop:
  assumes ok: "catalog_ok cat" and x: "map_of (sc_byInstanceID cat) i = Some x"
  shows "catalog_ok ((remove_record_indexes (ca_Registration x) cat)\<lparr>sc_byInstanceID := map_del i (sc_byInstanceID cat)\<rparr>)"
proof -
  have r: "i \<noteq> []" "trim_space i = i" "lo_InstanceID (ca_Registration x) = i" "trim_space (recorded_service x) = recorded_service x"
    using ok x by (auto simp: catalog_ok_def records_ok_def recorded_service_def)
  have "records_ok (map_del i (sc_byInstanceID cat))"
    using ok by (auto simp: catalog_ok_def records_ok_def)
  moreover note names_ok_del[OF _ x, of "sc_byName cat"]
    and index_ok_del[OF _ x r(1,2), of recorded_service "sc_byService cat"]
  ultimately show ?thesis
    using ok r by (simp add: catalog_ok_def remove_record_indexes_def Let_def split del: if_split cong: if_cong flip: recorded_service_def)
qed

lemma catalog_add:
  assumes ok: "catalog_ok cat" and new: "map_of (sc_byInstanceID cat) i = None"
    and r: "i \<noteq> []" "trim_space i = i" "lo_InstanceID (ca_Registration x) = i" "trim_space (recorded_service x) = recorded_service x"
  shows "catalog_ok (add_record_indexes (ca_Registration x) (cat\<lparr>sc_byInstanceID := map_put i x (sc_byInstanceID cat)\<rparr>))"
proof -
  have "records_ok (map_put i x (sc_byInstanceID cat))"
    using ok r by (auto simp: catalog_ok_def records_ok_def recorded_service_def)
  moreover note names_ok_add[OF _ new, of "sc_byName cat" x]
    and index_ok_add[OF _ new r(1,2), of recorded_service "sc_byService cat" x]
  ultimately show ?thesis
    using ok r by (simp add: catalog_ok_def add_record_indexes_def Let_def split del: if_split cong: if_cong flip: recorded_service_def)
qed

lemma catalog_ok_cong:
  assumes "map_of (sc_byInstanceID a) = map_of (sc_byInstanceID b)" and "sc_byName a = sc_byName b"
    and "sc_byService a = sc_byService b"
  shows "catalog_ok a = catalog_ok b"
  using assms by (simp add: catalog_ok_def records_ok_def names_ok_def index_ok_def)


lemma remove_indexes_frame [simp]: "sc_byInstanceID (remove_record_indexes r cat) = sc_byInstanceID cat"
  by (simp add: remove_record_indexes_def Let_def)

lemma catalog_replace:
  assumes ok: "catalog_ok cat" and old: "map_of (sc_byInstanceID cat) i = Some y"
    and r: "i \<noteq> []" "trim_space i = i" "lo_InstanceID (ca_Registration x) = i"
      "trim_space (recorded_service x) = recorded_service x"
  shows "catalog_ok (add_record_indexes (ca_Registration x)
     ((remove_record_indexes (ca_Registration y) cat)\<lparr>sc_byInstanceID := map_put i x (sc_byInstanceID cat)\<rparr>))"
proof -
  let ?cat = "(remove_record_indexes (ca_Registration y) cat)\<lparr>sc_byInstanceID := map_del i (sc_byInstanceID cat)\<rparr>"
  have "catalog_ok (add_record_indexes (ca_Registration x) (?cat\<lparr>sc_byInstanceID := map_put i x (sc_byInstanceID ?cat)\<rparr>))"
    by (rule catalog_add[OF catalog_drop[OF ok old] _ r]) simp
  then show ?thesis
    by (subst catalog_ok_cong[where b = "add_record_indexes (ca_Registration x)
          (?cat\<lparr>sc_byInstanceID := map_put i x (sc_byInstanceID ?cat)\<rparr>)"])
      (simp_all add: add_record_indexes_def Let_def fun_eq_iff)
qed

lemma normalized_registration:
  "trim_space (lo_InstanceID (normalize_registration r)) = lo_InstanceID (normalize_registration r)"
  "trim_space (lo_LogicalServiceID (normalize_registration r)) = lo_LogicalServiceID (normalize_registration r)"
  "name_key (normalize_registration r) = name_key r"
  by (simp_all add: normalize_registration_def name_key_def build_scope_service_name_key_def)

lemma upsert_ids_trimmed:
  assumes "catalog_ok cat" and "trim_space (lo_InstanceID r) = lo_InstanceID r"
    and "trim_space (lo_LogicalServiceID r) = lo_LogicalServiceID r"
  shows "upsert_instance_id now r cat \<noteq> []" "trim_space (upsert_instance_id now r cat) = upsert_instance_id now r cat"
    "trim_space (upsert_service_id i r cat) = upsert_service_id i r cat"
proof -
  have m: "map_of (sc_byName cat) k = Some j \<Longrightarrow> j \<noteq> [] \<and> trim_space j = j" for k j
    using assms(1) unfolding catalog_ok_def names_ok_def records_ok_def by blast
  show "upsert_instance_id now r cat \<noteq> []" "trim_space (upsert_instance_id now r cat) = upsert_instance_id now r cat"
    using m assms(2) generated_id_trimmed[of now "lo_ServiceName r" "lo_ServiceType r"]
    by (auto simp: upsert_instance_id_def Let_def split: option.splits)
  show "trim_space (upsert_service_id i r cat) = upsert_service_id i r cat"
    using assms(3) by (auto simp: upsert_service_id_def split: option.splits)
qed

lemma catalog_upsert_ok:
  assumes ok: "catalog_ok cat"
  shows "catalog_ok (snd (catalog_upsert wall now registration cat))"
proof -
  let ?r = "normalize_registration registration"
  let ?i = "upsert_instance_id now ?r cat"
  note ids = upsert_ids_trimmed[OF ok normalized_registration(1,2)]
  show ?thesis
  proof (cases "lo_InstanceID ?r = [] \<and> name_key ?r = []")
    case True
    then show ?thesis using ok by (simp add: catalog_upsert_def Let_def)
  next
    case named: False
    show ?thesis
    proof (cases "map_of (sc_byInstanceID cat) ?i")
      case None
      let ?x = "\<lparr>ca_Registration = ?r\<lparr>lo_InstanceID := ?i, lo_LogicalServiceID := upsert_service_id ?i ?r cat\<rparr>,
        ca_HealthStatus = HealthStatusUnknown, ca_EndpointStatuses = [], ca_UpdatedAt = normalize_updated_at wall now\<rparr>"
      have "catalog_ok (add_record_indexes (ca_Registration ?x) (cat\<lparr>sc_byInstanceID := map_put ?i ?x (sc_byInstanceID cat)\<rparr>))"
        by (rule catalog_add[OF ok None]) (simp_all add: ids recorded_service_def)
      then show ?thesis using named None ok by (simp add: catalog_upsert_def Let_def)
    next
      case (Some y)
      let ?x = "\<lparr>ca_Registration = ?r\<lparr>lo_InstanceID := ?i, lo_LogicalServiceID := upsert_service_id ?i ?r cat\<rparr>,
        ca_HealthStatus = normalize_health_status (ca_HealthStatus y), ca_EndpointStatuses = ca_EndpointStatuses y,
        ca_UpdatedAt = normalize_updated_at wall now\<rparr>"
      have "catalog_ok (add_record_indexes (ca_Registration ?x)
          ((remove_record_indexes (ca_Registration y) cat)\<lparr>sc_byInstanceID := map_put ?i ?x (sc_byInstanceID cat)\<rparr>))"
        by (rule catalog_replace[OF ok Some]) (simp_all add: ids recorded_service_def)
      then show ?thesis using named Some ok by (simp add: catalog_upsert_def Let_def)
    qed
  qed
qed

lemma publish_target_stored:
  "publish_target i k cat = Some (current, x) \<Longrightarrow> map_of (sc_byInstanceID cat) current = Some x
     \<and> (i \<noteq> [] \<and> current \<noteq> i \<longrightarrow> map_of (sc_byInstanceID cat) i = None)"
  by (auto simp: publish_target_def split: option.splits if_splits)

lemma apply_publish_ok:
  assumes ok: "catalog_ok cat"
  shows "catalog_ok (snd (apply_publish_identity wall now name s logical inst cat))"
proof -
  let ?l = "trim_space logical" and ?i = "trim_space inst" and ?k = "build_scope_service_name_key name s"
  show ?thesis
  proof (cases "(?l = [] \<or> (?i = [] \<and> ?k = [])) \<or> publish_target ?i ?k cat = None")
    case True
    then show ?thesis using ok by (auto simp: apply_publish_identity_def Let_def)
  next
    case False
    then obtain current x where t: "publish_target ?i ?k cat = Some (current, x)" by auto
    note stored = publish_target_stored[OF t]
    have c: "current \<noteq> []" "trim_space current = current" "lo_InstanceID (ca_Registration x) = current"
      using ok stored by (auto simp: catalog_ok_def records_ok_def)
    let ?cat = "(remove_record_indexes (ca_Registration x) cat)\<lparr>sc_byInstanceID := map_del current (sc_byInstanceID cat)\<rparr>"
    let ?j = "if ?i \<noteq> [] then ?i else current"
    let ?x = "x\<lparr>ca_Registration := (ca_Registration x)\<lparr>lo_LogicalServiceID := ?l, lo_InstanceID := ?j\<rparr>,
      ca_UpdatedAt := normalize_updated_at wall now\<rparr>"
    have dropped: "catalog_ok ?cat" using catalog_drop[OF ok] stored by blast
    have "map_of (sc_byInstanceID ?cat) ?j = None" using stored by auto
    then have "catalog_ok (add_record_indexes (ca_Registration ?x) (?cat\<lparr>sc_byInstanceID := map_put ?j ?x (sc_byInstanceID ?cat)\<rparr>))"
      by (rule catalog_add[OF dropped]) (use c in \<open>auto simp: recorded_service_def\<close>)
    moreover have "(ca_Registration x)\<lparr>lo_LogicalServiceID := ?l\<rparr> = (ca_Registration x)\<lparr>lo_LogicalServiceID := ?l, lo_InstanceID := current\<rparr>"
      using c(3) by (cases "ca_Registration x") simp
    ultimately show ?thesis
      using False t c by (auto simp: apply_publish_identity_def Let_def)
  qed
qed


lemma lookup_record_stored:
  "lookup_record l i cat = Some (j, x) \<Longrightarrow> map_of (sc_byInstanceID cat) j = Some x"
proof -
  assume a: "lookup_record l i cat = Some (j, x)"
  let ?f = "\<lambda>c. map_option (\<lambda>r. (c, r)) (map_of (sc_byInstanceID cat) c)"
  have "(j, x) \<in> set (List.map_filter ?f xs) \<Longrightarrow> map_of (sc_byInstanceID cat) j = Some x" for xs
    by (auto simp: List.map_filter_def)
  moreover have "map_of (sc_byInstanceID cat) j = Some x
      \<or> (j, x) \<in> set (List.map_filter ?f (bucket (sc_byService cat) l))"
    using a by (auto simp: lookup_record_def split: option.splits list.splits if_splits)
  ultimately show ?thesis by blast
qed

lemma update_health_ok:
  assumes ok: "catalog_ok cat"
  shows "catalog_ok (snd (catalog_update_health wall now logical inst h statuses cat))"
proof (cases "lookup_record (trim_space logical) (trim_space inst) cat")
  case None
  then show ?thesis using ok by (simp add: catalog_update_health_def)
next
  case (Some p)
  obtain i x where p: "p = (i, x)" by (cases p)
  have s: "map_of (sc_byInstanceID cat) i = Some x" using lookup_record_stored Some p by blast
  let ?x = "x\<lparr>ca_HealthStatus := normalize_health_status h, ca_EndpointStatuses := statuses,
      ca_UpdatedAt := normalize_updated_at wall now\<rparr>"
  have "records_ok (map_put i ?x (sc_byInstanceID cat))" using ok s by (auto simp: catalog_ok_def records_ok_def)
  moreover have "names_ok (map_put i ?x (sc_byInstanceID cat)) (sc_byName cat)"
    using ok s by (fastforce simp: catalog_ok_def names_ok_def)
  moreover have "index_ok recorded_service (map_put i ?x (sc_byInstanceID cat)) (sc_byService cat)"
    using ok s by (auto simp: catalog_ok_def index_ok_def recorded_service_def)
  ultimately show ?thesis using Some p by (simp add: catalog_update_health_def catalog_ok_def)
qed

lemma remove_by_instance_ok:
  "catalog_ok cat \<Longrightarrow> catalog_ok (snd (remove_by_instance_id inst cat))"
  using catalog_drop by (auto simp: remove_by_instance_id_def Let_def split: option.splits)

text \<open>Any sequence of operations.\<close>

datatype catalog_op =
    CatUpsert gotime gotime local_registration
  | CatPublish gotime gotime string scope string string
  | CatHealth gotime gotime string string health_status "endpoint_health_status list"
  | CatRemove string

fun catalog_apply :: "catalog_op \<Rightarrow> service_catalog \<Rightarrow> service_catalog" where
  "catalog_apply (CatUpsert wall now r) cat = snd (catalog_upsert wall now r cat)"
| "catalog_apply (CatPublish wall now name s l i) cat = snd (apply_publish_identity wall now name s l i cat)"
| "catalog_apply (CatHealth wall now l i h statuses) cat = snd (catalog_update_health wall now l i h statuses cat)"
| "catalog_apply (CatRemove i) cat = snd (remove_by_instance_id i cat)"

lemma catalog_apply_ok: "catalog_ok cat \<Longrightarrow> catalog_ok (catalog_apply x cat)"
  by (cases x) (simp_all add: catalog_upsert_ok apply_publish_ok update_health_ok remove_by_instance_ok)

lemma catalog_run_ok: "catalog_ok cat \<Longrightarrow> catalog_ok (fold catalog_apply xs cat)"
  by (induction xs arbitrary: cat) (simp_all add: catalog_apply_ok)

lemma catalog_reached_ok: "catalog_ok (fold catalog_apply xs new_catalog)"
  by (rule catalog_run_ok)
    (simp add: catalog_ok_def new_catalog_def records_ok_def names_ok_def index_ok_empty)

text \<open>C17. The catalogue's indexes follow its records through any sequence of registrations, published
  identities, health updates and removals: every record is stored under its own trimmed instance
  identifier, the name index leads to a stored record with that name and scope, and the instances
  listed for a logical service are exactly those whose record names it.\<close>

theorem catalog_indexes_exact:
  assumes cat: "cat = fold catalog_apply xs new_catalog"
  shows "(\<forall>i x. map_of (sc_byInstanceID cat) i = Some x \<longrightarrow> i \<noteq> [] \<and> lo_InstanceID (ca_Registration x) = i)
    \<and> (\<forall>k i. map_of (sc_byName cat) k = Some i
          \<longrightarrow> (\<exists>x. map_of (sc_byInstanceID cat) i = Some x \<and> name_key (ca_Registration x) = k))
    \<and> (\<forall>l i. i \<in> set (bucket (sc_byService cat) l)
          \<longleftrightarrow> l \<noteq> [] \<and> (\<exists>x. map_of (sc_byInstanceID cat) i = Some x \<and> lo_LogicalServiceID (ca_Registration x) = l))"
  using catalog_reached_ok[of xs]
  by (auto simp: cat catalog_ok_def records_ok_def names_ok_def index_ok_def recorded_service_def)

text \<open>
  Registering a named service again without an instance identifier keeps the instance that has the
  name, with the health it reported, instead of adding one.
\<close>

lemma upsert_keeps_identity:
  assumes ok: "catalog_ok cat" and r: "trim_space (lo_InstanceID r) = []" and k: "name_key r \<noteq> []"
    and known: "map_of (sc_byName cat) (name_key r) = Some i" and x: "map_of (sc_byInstanceID cat) i = Some x"
  shows "lo_InstanceID (ca_Registration (fst (catalog_upsert wall now r cat))) = i"
    and "ca_HealthStatus (fst (catalog_upsert wall now r cat)) = normalize_health_status (ca_HealthStatus x)"
    and "fst ` set (sc_byInstanceID (snd (catalog_upsert wall now r cat))) = fst ` set (sc_byInstanceID cat)"
proof -
  have n: "lo_InstanceID (normalize_registration r) = []" using r by (simp add: normalize_registration_def)
  have i: "i \<noteq> []" using ok x by (auto simp: catalog_ok_def records_ok_def)
  have u: "upsert_instance_id now (normalize_registration r) cat = i"
    using known k i n by (simp add: upsert_instance_id_def Let_def normalized_registration(3))
  have m: "i \<in> fst ` set (sc_byInstanceID cat)" using map_of_SomeD[OF x] by force
  have h: "normalize_health_status (normalize_health_status h) = normalize_health_status h" for h
    by (simp add: normalize_health_status_def split: health_status.splits)
  show "lo_InstanceID (ca_Registration (fst (catalog_upsert wall now r cat))) = i"
    using n k x by (simp add: catalog_upsert_def Let_def u normalized_registration(3) clone_record_def)
  show "ca_HealthStatus (fst (catalog_upsert wall now r cat)) = normalize_health_status (ca_HealthStatus x)"
    using n k x by (simp add: catalog_upsert_def Let_def u normalized_registration(3) clone_record_def h)
  show "fst ` set (sc_byInstanceID (snd (catalog_upsert wall now r cat))) = fst ` set (sc_byInstanceID cat)"
    using n k x m
    by (simp add: catalog_upsert_def Let_def u normalized_registration(3) add_record_indexes_def dom_update insert_absorb)
qed

lemma catalog_list_sorted:
  "sorted (map (\<lambda>r. (name_key (ca_Registration r), lo_InstanceID (ca_Registration r))) (catalog_list cat))"
  by (simp add: catalog_list_def)


definition sample_registration :: "string \<Rightarrow> string \<Rightarrow> local_registration" where
  "sample_registration i name =
     (ca_Registration no_catalog_record)\<lparr>lo_InstanceID := i, lo_ServiceName := name,
        lo_Scope := \<lparr>Namespace = ''d'', Environment = ''c''\<rparr>\<rparr>"

definition sample_catalog :: service_catalog where
  "sample_catalog = fold catalog_apply
     [CatUpsert 1 1 (sample_registration ''c'' ''s''),
      CatPublish 2 2 ''s'' \<lparr>Namespace = ''d'', Environment = ''c''\<rparr> ''d'' ''c''] new_catalog"

lemmas catalog_eval =
  catalog_upsert_def apply_publish_identity_def normalize_registration_def name_key_def build_scope_service_name_key_def
  upsert_instance_id_def upsert_service_id_def publish_target_def add_record_indexes_def remove_record_indexes_def
  canonical_add_index_def canonical_remove_index_def bucket_def remove_by_instance_id_def new_catalog_def
  no_catalog_record_def sample_registration_def no_scope_def trim_canonical Let_def

lemma sample_catalog_parts:
  "sc_byName sample_catalog = [(''d|c|s'', ''c'')]" "sc_byService sample_catalog = [(''d'', [''c''])]"
  "map_of (sc_byInstanceID sample_catalog) ''c'' =
     Some \<lparr>ca_Registration = (sample_registration ''c'' ''s'')\<lparr>lo_LogicalServiceID := ''d''\<rparr>,
       ca_HealthStatus = HealthStatusUnknown, ca_EndpointStatuses = [], ca_UpdatedAt = normalize_updated_at 2 2\<rparr>"
  by (simp_all add: sample_catalog_def catalog_eval)

theorem catalog_indexes_exact_witness:
  "\<exists>x. map_of (sc_byInstanceID sample_catalog) ''c'' = Some x \<and> lo_InstanceID (ca_Registration x) = ''c''
     \<and> name_key (ca_Registration x) = ''d|c|s'' \<and> ''c'' \<in> set (bucket (sc_byService sample_catalog) ''d'')"
proof -
  note * = catalog_indexes_exact[OF sample_catalog_def]
  have "map_of (sc_byName sample_catalog) ''d|c|s'' = Some ''c''" by (simp add: sample_catalog_parts)
  then obtain x where x: "map_of (sc_byInstanceID sample_catalog) ''c'' = Some x" "name_key (ca_Registration x) = ''d|c|s''"
    using * by blast
  moreover have "lo_LogicalServiceID (ca_Registration x) = ''d''"
    using x(1) by (simp add: sample_catalog_parts(3)[unfolded sample_registration_def] sample_registration_def)
       (auto simp: sample_catalog_parts sample_registration_def)
  ultimately show ?thesis using * by auto
qed

text \<open>
  Two instances under one name: the name leads to the later one, and when that one is removed the
  name leads nowhere, though the first is still stored.
\<close>

lemma removal_hides_the_other_instance:
  "sc_byName (fold catalog_apply
      [CatUpsert 1 1 (sample_registration ''c'' ''s''), CatUpsert 2 2 (sample_registration ''d'' ''s''), CatRemove ''d'']
      new_catalog) = []"
  "map fst (sc_byInstanceID (fold catalog_apply
      [CatUpsert 1 1 (sample_registration ''c'' ''s''), CatUpsert 2 2 (sample_registration ''d'' ''s''), CatRemove ''d'']
      new_catalog)) = [''c'']"
  by (simp_all add: catalog_eval)

text \<open>A health update for an instance that is not stored is written to another one of its service.\<close>

lemma health_of_a_removed_instance:
  "map_option ca_HealthStatus (map_of (sc_byInstanceID (catalog_apply
      (CatHealth 3 3 ''d'' ''s'' HealthStatusUnhealthy []) sample_catalog)) ''c'') = Some HealthStatusUnhealthy"
  by (simp add: catalog_update_health_def lookup_record_def trim_canonical sample_catalog_parts bucket_def
      List.map_filter_def sample_catalog_def catalog_eval normalize_health_status_def)


section \<open>Reports from a record\<close>

text \<open>\<open>AggregateServiceHealth\<close> (\<open>ltfp/health/aggregate.go\<close>) and \<open>ResolveServiceProtocol\<close>.\<close>

definition aggregate_service_health :: "endpoint_health_status list \<Rightarrow> health_status" where
  "aggregate_service_health statuses =
     (if statuses = [] then HealthStatusUnknown
      else if list_ex (\<lambda>e. eh_HealthStatus e = HealthStatusHealthy) statuses then HealthStatusHealthy
      else if list_ex (\<lambda>e. eh_HealthStatus e = HealthStatusUnknown) statuses then HealthStatusUnknown
      else HealthStatusUnhealthy)"

definition resolve_service_protocol :: "string \<Rightarrow> service_endpoint list \<Rightarrow> string" where
  "resolve_service_protocol ty endpoints =
     (case find (\<lambda>p. p \<noteq> []) (map (\<lambda>e. to_lower (trim_space (ep_protocol e))) endpoints) of
        None \<Rightarrow> to_lower (trim_space ty) | Some p \<Rightarrow> p)"

lemma aggregate_known: "normalize_health_status (aggregate_service_health statuses) = aggregate_service_health statuses"
  by (simp add: aggregate_service_health_def normalize_health_status_def)

lemma aggregate_unhealthy:
  "aggregate_service_health statuses = HealthStatusUnhealthy \<longleftrightarrow>
     statuses \<noteq> [] \<and> list_all (\<lambda>e. eh_HealthStatus e \<notin> {HealthStatusHealthy, HealthStatusUnknown}) statuses"
  by (auto simp: aggregate_service_health_def list_ex_iff list_all_iff)

end
