(* ===== verification/Spec2Isabelle.thy ===== *)
theory Spec2Isabelle
  imports Tcp_Control_Channel Tcp_Framing Protocol_Session Consistency Heartbeat Base62 Session Tunnel_Manager
    Dispatch_Safety Inbound_Tcp Proxy_Safety Traffic_Stream Agent_Relay Runtime_Registry Negotiation
    Direct_Proxy Ingress_Matcher Agent_Session Agent_Catalog
begin

text \<open>
  A model of the protocol core of devbridge-loop: an agent beside a developer's services keeps
  one control channel and a pool of idle tunnels to a bridge in the cloud; the bridge routes
  traffic to published services over these tunnels.

  \<^bold>\<open>Conventions.\<close> A Go struct is a record, an enumeration a datatype, an unsigned integer
  that can wrap a word, a signed one an int with \<open>wrap64\<close> where the source relies on the
  width. Strings are byte strings (\<open>trim_space\<close> is \<open>strings.TrimSpace\<close> on UTF-8). A Go map is an
  association list whose order stands for the iteration order; every theorem holds for any
  order. Instants and durations are nanoseconds, the clock is an argument. An error is a value:
  \<open>fmt.Errorf\<close> with \<open>%w\<close> is the wrapped sentinel, since callers decide by \<open>errors.Is\<close>. Answers
  of the environment (sockets, tunnels, contexts, codecs) are arguments. Code under a mutex is
  one step; an operation that leaves the mutex is split, and an inductive relation interleaves
  the pieces.

  \<^bold>\<open>Theories.\<close>

  \<^item> \<open>Prelude\<close>: \<open>TrimSpace\<close>, instants, 64 bit arithmetic, Go maps. \<open>Bytes\<close>: big-endian fields.

  \<^item> \<open>Transport_Types\<close> (\<open>ltfp/transport/types.go, errors.go, control_channel.go\<close>): errors,
    states and their transition tables. \<open>Protocol_Types\<close> (\<open>ltfp/errors\<close>): error chains and the
    codes of tunnel recycling.

  \<^item> \<open>Fragmentation\<close> and \<open>Reassembly\<close> (\<open>control_fragmentation.go\<close>): the fragmenter, the
    fragment codec, the reassembler with its limits and expiry; that it is bounded and that a
    fragmented frame survives any order of arrival.

  \<^item> \<open>Control_Message\<close> (\<open>control_message_frame.go, pb/message_types.go, validate\<close>): message
    types, frame types, envelopes.

  \<^item> \<open>Control_Queue\<close> (\<open>control_queue.go, tcpbinding/control_write_queue.go\<close>): both priority
    queues against one contract, the locale \<open>priority_fifo\<close>.

  \<^item> \<open>Tcp_Control_Channel\<close> (\<open>tcpbinding/control_channel.go\<close>): write operations, the write loop,
    cancellation and closing, as the step relation \<open>write_step\<close>.

  \<^item> \<open>Tcp_Framing\<close> (\<open>tcpbinding/stream_adapter.go\<close>): reading and writing frames on a byte
    stream; the locale \<open>framing\<close> serves the control and the tunnel format.

  \<^item> \<open>Consistency\<close> (\<open>ltfp/consistency\<close>): deduplication keys, replay window, version guard,
    acknowledgements, reconnect plans.

  \<^item> \<open>Protocol_Session\<close> (\<open>ltfp/session\<close>), \<open>Heartbeat\<close> (\<open>control_heartbeat.go\<close>), \<open>Session\<close>
    (\<open>transport/session.go\<close>): the life of a session as the protocol, the heartbeat monitor and
    the transport see it.

  \<^item> \<open>Tunnel_Pool\<close> (\<open>tunnel_pool.go\<close>): the pool, \<open>pool_step\<close> interleaves its critical sections.
    \<open>Refill\<close> (\<open>refill_controller.go, pool_events.go\<close>): filling it up; what the controller
    relies on is the locale \<open>idle_pool\<close>, interpreted on the pool.

  \<^item> \<open>Idle_Index\<close>: a FIFO queue kept beside a map, and the locale \<open>lease_book\<close>, the contract of
    handing out tunnels. \<open>Agent_Registry\<close> (\<open>agent-core/runtime/agent/tunnel/registry.go\<close>) and
    \<open>Bridge_Tunnels\<close> (\<open>cloud-bridge/runtime/bridge/registry/tunnel_registry.go\<close>) interpret it.

  \<^item> \<open>Tunnel_Manager\<close> (\<open>agent/tunnel/manager.go, producer.go, reaper.go, ttl_reaper.go\<close>): reconcile
    rounds over the agent's registry and the reaction to session states. The locale
    \<open>counting_pool\<close> extends the \<open>idle_pool\<close> of \<open>Refill\<close>.

  \<^item> \<open>Resources\<close> (\<open>ltfp/pb\<close>): services, instances, routes. \<open>Bridge_Sessions\<close>, \<open>Bridge_Services\<close>
    (\<open>bridge/registry\<close>): which session speaks for a connector, which instances a service has.
    \<open>Bridge_Reports\<close> (\<open>bridge/control/tunnel_pool_report_store.go\<close>): the pool reports.

  \<^item> \<open>Bridge_Lifecycle\<close> (\<open>bridge/app/control_plane.go, control/session_handler.go,
    app/admin_runtime_ops.go\<close>): the registries together. \<open>bridge_step\<close> runs the handlers one after
    the other; every tunnel belongs to an active session along any run. That the handlers are
    not one section each, and what that costs, is \<open>late_tunnel_outlives_session\<close>.

  \<^item> \<open>Route_Matching\<close> (\<open>bridge/routing/matcher.go\<close>): which routes an incoming request
    matches, and in which order. \<open>Instance_Selection\<close> (\<open>instance_selector.go,
    traffic_affinity.go\<close>): the selection algorithms against the locale \<open>instance_selector\<close>,
    their fairness, the bounded affinity table. \<open>Route_Resolver\<close> (\<open>resolver.go\<close>): scope chains,
    targets, the two loops of \<open>Resolve\<close>; the inner one may spin on a route without an id, so it
    is a partial function, and that registries have no such route makes it total. An injected selector is
    an argument. The sessions' index of connectors may be wrong: \<open>index_follows_no_connector\<close>.
    \<open>Route_Admission\<close> (\<open>bridge/admission\<close>): conflicts between routes, exactly, and what admission
    keeps. \<open>Host_Deriver\<close> (\<open>bridge/ingress/hostderiver\<close>): derived hosts are host names.

  \<^item> \<open>Resource_Handlers\<close> (\<open>bridge/control/publish_handler.go, route_handler.go,
    health_handler.go\<close>): the handlers of resource messages. \<open>Handler_Safety\<close>: a stale session
    changes nothing, a connector never touches the instances of another one, what a publication
    writes. \<open>Service_Links\<close>: the handlers keep services and instances linked. \<open>Tunnel_Reports\<close>
    (\<open>refill_controller.go, tunnel_report_handler.go\<close>): requests for more tunnels are bounded.

  \<^item> \<open>Token_Store\<close> (\<open>bridge/auth/connector_token.go, token_store_file.go, token_admin.go\<close>): tokens
    in memory and in a file, both against the locale \<open>token_store\<close>; creation, rotation,
    revocation. \<open>Handshake_Guard\<close> (\<open>control_handshake_guard.go\<close>): limits, bans, budgets.
    \<open>Bridge_Auth\<close> (\<open>control_auth.go\<close>): the coordinator; only valid tokens get in, and they do.

  \<^item> \<open>Control_Connection\<close> and \<open>Control_Dispatch\<close> (\<open>bridge/app/control_plane.go\<close>): the state of one
    control connection, the handshake, the dispatch of every message, the serving loop.
    \<open>Dispatch_Safety\<close>: \<open>control_step\<close> interleaves any number of connections with everything else
    that changes the registries, and \<open>control_run\<close> adds the tunnels, whose owner is looked up in an earlier
    state than the one they are entered in; what it keeps, and the fence around unauthenticated connections.
    \<open>Inbound_Tcp\<close>: control channels and tunnels on one port.

  \<^item> \<open>Traffic_Payloads\<close> (\<open>ltfp/pb/types.go\<close>): the messages of a tunnel. \<open>Connector_Proxy\<close>
    (\<open>bridge/connectorproxy\<close>): one request from taking a tunnel to giving it back; the answers of
    the tunnel and the interference of others are arguments. \<open>Proxy_Safety\<close>: no request leaves its
    tunnel behind (but for one path, \<open>cancelled_probe_leaks_tunnel\<close>), reuse needs the agreement of
    both ends, waiting ends.

  \<^item> \<open>Agent_Traffic\<close> (\<open>agent/traffic/acceptor.go, opener.go\<close>): who reads a tunnel, and one traffic
    from its open to its last frame, as the list of what it does to the outside.
    \<open>Agent_Relay\<close> (\<open>relay.go\<close>): the four workers as functions of the answers they get, the loop over
    their results; bytes arrive in order, and success means a complete direction.

  \<^item> \<open>Traffic_Protocol\<close> and \<open>Traffic_Stream\<close> (\<open>ltfp/runtime\<close>): frames on a tunnel, and the byte
    stream over any protocol of the locale \<open>frame_transport\<close>, interpreted on the length-prefixed one;
    what is written is read, whatever the sizes of the pieces.

  \<^item> \<open>Canonical_Registry\<close> and \<open>Runtime_Registry\<close> (\<open>ltfp/registry\<close>): the objects of the protocol
    library with their indexes, which list exactly what is stored, and the byte counters of running
    traffics. \<open>Library_Resolver\<close> (\<open>ltfp/routing/resolver.go\<close>): what a route resolves to over a
    registry; a resolved instance can carry the traffic. \<open>Negotiation\<close> (\<open>ltfp/negotiation\<close>): versions
    and features. \<open>Ingress_Matcher\<close> (\<open>ltfp/ingress/matcher.go\<close>): request matching, exclusive ports.

  \<^item> \<open>Discovery\<close> (\<open>ltfp/discovery\<close>): providers behind a cache and a security policy; any reachable
    manager hands out allowed and timely endpoints. \<open>Direct_Proxy\<close> (\<open>bridge/directproxy\<close>): external
    services found, cached, dialled and relayed; no connection is left behind, and stale endpoints
    are a last resort. \<open>namespaces_share_the_cache\<close> shows a key that is too short.

  \<^item> \<open>Agent_Session\<close> (\<open>agent/session/manager.go, control/ack_deduper.go\<close>): the session as the agent sees
    it; sections of its operations interleave with the notifications of a state handler.
    \<open>Agent_Catalog\<close> (\<open>agent/service/catalog.go\<close>): the agent's services and their indexes.

  \<^item> \<open>Base62\<close> (\<open>agent-core/pkg/tsbase62\<close>): sortable identifiers.

  \<^bold>\<open>Bounds and fuel.\<close> \<open>read_stream n\<close> makes \<open>n\<close> calls of the reader; the round trip
  states that one per arriving piece, byte and frame is enough. \<open>gen_next\<close> takes the
  clock readings it may use as a list and is \<open>None\<close> when they run out, as \<open>Next\<close> spins until
  the clock moves. \<open>run_jobs\<close> takes the outcomes of the tunnel opens as a list. \<open>acquire\<close> ends because
  every round drops a tunnel. The loops of a stream are partial functions: a read of frames without
  bytes need not end; the round trip of the stream includes that its calls return.

  \<^bold>\<open>Not modelled.\<close> Sockets, goroutine start-up, deadlines, logging, metrics, the texts of wrapped
  errors, nil receivers and nil interfaces; the gRPC and QUIC bindings (adapters over
  third-party libraries); configuration files, HTTP administration, the desktop application.
\<close>

end
